(* ===== verification/Chimera_Prelude.thy ===== *)
theory Chimera_Prelude
  imports Main "HOL-Library.Word"
begin

unbundle bit_operations_syntax

text \<open>
  Shared vocabulary of the development: the integer types of
  \<^verbatim>\<open>kernel/include/kernel/chimera_types.h\<close>, its error codes, the page arithmetic
  macros, and the generic facts on naturals, words and lists that several
  components use.
\<close>

section \<open>Integer types and error codes\<close>

type_synonym u8 = "8 word"
type_synonym u16 = "16 word"
type_synonym u32 = "32 word"
type_synonym u64 = "64 word"

text \<open>The error codes a kernel function returns (\<^verbatim>\<open>chimera_error_t\<close>).\<close>

datatype chimera_error =
    CHIMERA_SUCCESS
  | CHIMERA_ERR_GENERIC
  | CHIMERA_ERR_NOMEM
  | CHIMERA_ERR_INVALID
  | CHIMERA_ERR_NORESOURCE
  | CHIMERA_ERR_NOPERM
  | CHIMERA_ERR_NOTFOUND
  | CHIMERA_ERR_BUSY
  | CHIMERA_ERR_TIMEOUT
  | CHIMERA_ERR_OVERFLOW
  | CHIMERA_ERR_ALIGN
  | CHIMERA_ERR_RANGE
  | CHIMERA_ERR_IPC
  | CHIMERA_ERR_PORT_DEAD
  | CHIMERA_ERR_PORT_FULL
  | CHIMERA_ERR_NOTSUP
  | CHIMERA_ERR_PORT_EMPTY
  | CHIMERA_ERR_WOULDBLOCK
  | CHIMERA_ERR_NOTCONN

definition CHIMERA_PAGE_SIZE :: nat where
  "CHIMERA_PAGE_SIZE = 4096"

definition CHIMERA_MAX_CPUS :: nat where "CHIMERA_MAX_CPUS = 16"

end
