(* ===== verification/Dll.thy ===== *)
theory Dll
  imports Chimera_Prelude
begin

text \<open>
  Doubly linked lists with a head pointer and \<^verbatim>\<open>prev\<close>/\<^verbatim>\<open>next\<close> fields
  (\<^verbatim>\<open>NULL\<close> is \<open>None\<close>), as the buddy free lists of \<^verbatim>\<open>mm/pmm.c\<close> and the entry
  list of \<^verbatim>\<open>mm/vm_map.c\<close> use them. The predicate \<open>dl\<close> reads a list off the
  pointers; the lemmas say what pushing a node at the head, inserting one
  between two nodes and unlinking one does to that list.
\<close>

section \<open>Linked segments\<close>

fun dl :: "('a \<Rightarrow> 'a option) \<Rightarrow> ('a \<Rightarrow> 'a option) \<Rightarrow> 'a option \<Rightarrow> 'a option \<Rightarrow> 'a list \<Rightarrow> bool" where
  "dl nx pv p h [] \<longleftrightarrow> h = None"
| "dl nx pv p h (x # xs) \<longleftrightarrow> h = Some x \<and> pv x = p \<and> dl nx pv (Some x) (nx x) xs"

lemma dl_cong:
  assumes "\<And>x. x \<in> set xs \<Longrightarrow> nx x = nx' x" and "\<And>x. x \<in> set xs \<Longrightarrow> pv x = pv' x"
  shows "dl nx pv p h xs = dl nx' pv' p h xs"
  using assms by (induction xs arbitrary: p h) auto

lemma dl_unique: "dl nx pv p h xs \<Longrightarrow> dl nx pv' p' h ys \<Longrightarrow> xs = ys"
proof (induction xs arbitrary: p p' h ys)
  case Nil
  then show ?case by (cases ys) auto
next
  case (Cons x xs)
  then show ?case by (cases ys) auto
qed

lemma dl_head: "dl nx pv p h xs \<Longrightarrow> h = (case xs of [] \<Rightarrow> None | x # _ \<Rightarrow> Some x)"
  by (cases xs) auto

lemma dl_neighbours:
  "dl nx pv p h (as @ x # bs) \<Longrightarrow>
     pv x = (if as = [] then p else Some (last as)) \<and>
     nx x = (case bs of [] \<Rightarrow> None | b # _ \<Rightarrow> Some b)"
proof (induction as arbitrary: p h)
  case Nil
  then show ?case by (cases bs) auto
next
  case (Cons a as)
  then show ?case by (cases as) auto
qed

lemma dl_prev_closed:
  "dl nx pv p h xs \<Longrightarrow> x \<in> set xs \<Longrightarrow> pv x = Some y \<Longrightarrow> p \<noteq> Some y \<Longrightarrow> y \<in> set xs"
proof (induction xs arbitrary: p h)
  case (Cons z xs)
  then show ?case by (cases "x = z") auto
qed simp

lemma dl_next_closed: "dl nx pv p h xs \<Longrightarrow> x \<in> set xs \<Longrightarrow> nx x = Some y \<Longrightarrow> y \<in> set xs"
proof (induction xs arbitrary: p h)
  case (Cons z xs)
  then show ?case by (cases "x = z"; cases xs) auto
qed simp

lemma dl_irrefl:
  assumes "dl nx pv None h xs" and "distinct xs" and "x \<in> set xs"
  shows "pv x \<noteq> Some x" and "nx x \<noteq> Some x"
proof -
  obtain as bs where xs: "xs = as @ x # bs" using assms(3) by (meson split_list)
  with dl_neighbours [of nx pv None h as x bs] assms
  have "pv x = (if as = [] then None else Some (last as))"
    and "nx x = (case bs of [] \<Rightarrow> None | b # _ \<Rightarrow> Some b)" by auto
  moreover have "x \<notin> set as" "x \<notin> set bs" using assms(2) xs by auto
  ultimately show "pv x \<noteq> Some x" and "nx x \<noteq> Some x"
    using last_in_set [of as] by (auto split: list.splits)
qed

section \<open>Pushing a node at the head\<close>

definition push_prev :: "('a \<Rightarrow> 'a option) \<Rightarrow> 'a \<Rightarrow> 'a option \<Rightarrow> 'a \<Rightarrow> 'a option" where
  "push_prev pv x h = (case h of None \<Rightarrow> pv(x := None) | Some y \<Rightarrow> pv(x := None, y := Some x))"

lemma dl_push:
  assumes "dl nx pv None h xs" and "x \<notin> set xs" and "distinct xs"
  shows "dl (nx(x := h)) (push_prev pv x h) None (Some x) (x # xs)"
proof (cases xs)
  case Nil
  then show ?thesis using assms by (simp add: push_prev_def)
next
  case (Cons y ys)
  then have h: "h = Some y" and yx: "y \<noteq> x" and "x \<notin> set ys" and "y \<notin> set ys"
    and tl: "dl nx pv (Some y) (nx y) ys"
    using assms by auto
  have "dl (nx(x := h)) (push_prev pv x h) (Some y) (nx y) ys"
    using tl \<open>x \<notin> set ys\<close> \<open>y \<notin> set ys\<close>
    by (subst dl_cong [where nx' = nx and pv' = pv]) (auto simp: push_prev_def h)
  then show ?thesis
    using yx h by (simp add: Cons push_prev_def)
qed

section \<open>Appending a node\<close>

lemma dl_snoc:
  "dl nx pv p h xs \<Longrightarrow> distinct xs \<Longrightarrow> x \<notin> set xs \<Longrightarrow>
    dl (if xs = [] then nx(x := None) else nx(x := None, last xs := Some x)) (pv(x := if xs = [] then p else Some (last xs))) p
      (if xs = [] then Some x else h) (xs @ [x])"
proof (induction xs arbitrary: p h)
  case (Cons y ys)
  then have IH: "dl (if ys = [] then nx(x := None) else nx(x := None, last ys := Some x))
      (pv(x := if ys = [] then Some y else Some (last ys))) (Some y) (if ys = [] then Some x else nx y) (ys @ [x])"
    and y: "h = Some y" "pv y = p" "y \<notin> set ys" "y \<noteq> x" by (auto simp: fun_upd_def)
  show ?case
  proof (cases "ys = []")
    case False
    then have "last ys \<noteq> y" using y(3) last_in_set by metis
    then show ?thesis using IH y False by (simp add: fun_upd_def)
  qed (use y in simp)
qed simp

text \<open>Insertion of \<open>x\<close> between \<open>as\<close> and \<open>bs\<close>, for any new links that agree with the old ones elsewhere.\<close>
lemma dl_insert:
  assumes "dl nx pv p h (as @ bs)" and "distinct (as @ bs)" and "x \<notin> set (as @ bs)"
    and "nx' x = (case bs of [] \<Rightarrow> None | b # _ \<Rightarrow> Some b)" and "pv' x = (if as = [] then p else Some (last as))"
    and "\<And>y. y \<in> set (as @ bs) \<Longrightarrow> nx' y = (if as \<noteq> [] \<and> y = last as then Some x else nx y)"
    and "\<And>y. y \<in> set (as @ bs) \<Longrightarrow> pv' y = (if bs \<noteq> [] \<and> y = hd bs then Some x else pv y)"
  shows "dl nx' pv' p (if as = [] then Some x else h) (as @ x # bs)"
  using assms
proof (induction as arbitrary: p h)
  case Nil
  show ?case
  proof (cases bs)
    case (Cons b bs')
    have "dl nx' pv' (Some b) (nx' b) bs' = dl nx pv (Some b) (nx b) bs'"
      using Nil.prems Cons by (subst dl_cong [of bs' nx' nx pv' pv]) auto
    with Nil.prems Cons show ?thesis by simp
  qed (use Nil.prems in simp)
next
  case (Cons a as)
  have "dl nx' pv' (Some a) (if as = [] then Some x else nx a) (as @ x # bs)"
    by (rule Cons.IH) (use Cons.prems in auto)
  moreover have "pv' a = p" "nx' a = (if as = [] then Some x else nx a)"
    using Cons.prems by (auto split: if_splits)
  ultimately show ?case using Cons.prems(1) by simp
qed

section \<open>Unlinking a node\<close>

definition unlink_next :: "('a \<Rightarrow> 'a option) \<Rightarrow> ('a \<Rightarrow> 'a option) \<Rightarrow> 'a \<Rightarrow> 'a \<Rightarrow> 'a option" where
  "unlink_next nx pv x = (case pv x of None \<Rightarrow> nx | Some a \<Rightarrow> nx(a := nx x))"

definition unlink_prev :: "('a \<Rightarrow> 'a option) \<Rightarrow> ('a \<Rightarrow> 'a option) \<Rightarrow> 'a \<Rightarrow> 'a \<Rightarrow> 'a option" where
  "unlink_prev nx pv x = (case nx x of None \<Rightarrow> pv | Some b \<Rightarrow> pv(b := pv x))"

lemma dl_unlink_first:
  assumes "dl nx pv p h (x # bs)" and "distinct (x # bs)"
  shows "dl nx (unlink_prev nx pv x) p (nx x) bs"
proof (cases bs)
  case (Cons b bs')
  then have nx: "nx x = Some b" and tl: "dl nx pv (Some b) (nx b) bs'" and "b \<notin> set bs'" "pv x = p"
    using assms by auto
  have "dl nx (unlink_prev nx pv x) (Some b) (nx b) bs'"
    using tl \<open>b \<notin> set bs'\<close>
    by (subst dl_cong [where nx' = nx and pv' = pv]) (auto simp: unlink_prev_def nx)
  then show ?thesis using nx \<open>pv x = p\<close> by (simp add: Cons unlink_prev_def)
qed (use assms in simp)

lemma dl_unlink_later:
  assumes "dl nx pv p h (as @ x # bs)" and "distinct (as @ x # bs)" and "as \<noteq> []"
  shows "dl (nx(last as := nx x)) (unlink_prev nx pv x) p h (as @ bs)"
  using assms
proof (induction as arbitrary: p h)
  case (Cons a as)
  from Cons.prems(1) have h: "h = Some a" and pva: "pv a = p"
    and tl: "dl nx pv (Some a) (nx a) (as @ x # bs)" by auto
  have a_not: "a \<noteq> x" "a \<notin> set as" "a \<notin> set bs" using Cons.prems(2) by auto
  have pva': "unlink_prev nx pv x a = p"
    using a_not dl_neighbours [OF tl] pva by (auto simp: unlink_prev_def split: list.splits)
  show ?case
  proof (cases "as = []")
    case True
    with tl Cons.prems(2) have "dl nx (unlink_prev nx pv x) (Some a) (nx x) bs"
      by (intro dl_unlink_first [where h = "nx a"]) auto
    then have "dl (nx(a := nx x)) (unlink_prev nx pv x) (Some a) (nx x) bs"
      using a_not by (subst dl_cong [where nx' = nx and pv' = "unlink_prev nx pv x"]) auto
    then show ?thesis using True h pva' by (simp add: fun_upd_def)
  next
    case False
    with Cons.IH [OF tl] Cons.prems(2)
    have "dl (nx(last as := nx x)) (unlink_prev nx pv x) (Some a) (nx a) (as @ bs)" by (simp add: fun_upd_def)
    moreover have "last as \<noteq> a" using False a_not(2) last_in_set by metis
    ultimately show ?thesis using False h pva' by (simp add: fun_upd_def)
  qed
qed simp

lemma dl_unlink:
  assumes "dl nx pv None h (as @ x # bs)" and "distinct (as @ x # bs)"
  shows "dl (unlink_next nx pv x) (unlink_prev nx pv x) None
           (case pv x of None \<Rightarrow> nx x | Some _ \<Rightarrow> h) (as @ bs)"
proof (cases "as = []")
  case True
  then have "pv x = None" using assms by simp
  with True assms show ?thesis
    using dl_unlink_first [of nx pv None h x bs] by (simp add: unlink_next_def)
next
  case False
  with dl_neighbours [OF assms(1)] have "pv x = Some (last as)" by simp
  with False assms show ?thesis
    using dl_unlink_later [of nx pv None h as x bs] by (simp add: unlink_next_def)
qed

lemma dl_unlink_remove1:
  assumes "dl nx pv None h xs" and "distinct xs" and "x \<in> set xs"
  shows "dl (unlink_next nx pv x) (unlink_prev nx pv x) None
           (case pv x of None \<Rightarrow> nx x | Some _ \<Rightarrow> h) (remove1 x xs)"
proof -
  obtain as bs where xs: "xs = as @ x # bs" and "x \<notin> set as"
    using assms(3) by (meson split_list_first)
  then have "remove1 x xs = as @ bs" by (simp add: remove1_append)
  with assms xs show ?thesis using dl_unlink by simp
qed

end
