(* ===== verification/Pmm.thy ===== *)
theory Pmm
  imports Dll
begin

text \<open>
  The physical memory manager, \<^verbatim>\<open>kernel/mm/pmm.c\<close>: a binary buddy allocator over
  the page descriptors \<^verbatim>\<open>s_pages\<close>. The free lists are kept as the code keeps
  them, as head pointers and \<^verbatim>\<open>next\<close>/\<^verbatim>\<open>prev\<close> fields inside the descriptors; a
  pointer to a descriptor is its index, \<^verbatim>\<open>NULL\<close> is \<open>None\<close>. The spinlock that
  brackets every operation makes each operation atomic and is not a field.
  Page numbers, sizes and counters are naturals; \<open>pmm_inv\<close> contains the bound
  (\<^verbatim>\<open>ppnum_t\<close> is 32 bits wide) under which no C operation on them wraps.
\<close>

section \<open>State\<close>

definition BUDDY_MAX_ORDER :: nat where "BUDDY_MAX_ORDER = 14"
definition VM_PAGE_FREE :: u16 where "VM_PAGE_FREE = 1"
definition VM_PAGE_ACTIVE :: u16 where "VM_PAGE_ACTIVE = 2"
definition VM_PAGE_WIRED :: u16 where "VM_PAGE_WIRED = 8"

text \<open>\<^verbatim>\<open>(chimera_paddr_t)-1\<close>, the failure value of the allocator.\<close>
definition PADDR_INVALID :: nat where "PADDR_INVALID = 2 ^ 64 - 1"

record vm_page =
  vp_next :: "nat option"
  vp_prev :: "nat option"
  vp_phys_page :: nat
  vp_ref_count :: nat
  vp_wire_count :: nat
  vp_flags :: u16
  vp_order :: nat

record pmm =
  s_pages :: "nat \<Rightarrow> vm_page"
  s_buddy_freelist :: "nat \<Rightarrow> nat option"
  s_max_phys_page :: nat
  s_total_ram_pages :: nat
  s_free_pages :: nat

text \<open>A write through a descriptor pointer.\<close>
definition upd_page :: "nat \<Rightarrow> (vm_page \<Rightarrow> vm_page) \<Rightarrow> pmm \<Rightarrow> pmm" where
  "upd_page p f s = s\<lparr>s_pages := (s_pages s)(p := f (s_pages s p))\<rparr>"

section \<open>Free lists\<close>

definition buddy_list_add :: "nat \<Rightarrow> nat \<Rightarrow> pmm \<Rightarrow> pmm" where
  "buddy_list_add order page s =
     (let s1 = upd_page page (\<lambda>p. p\<lparr>vp_order := order, vp_flags := VM_PAGE_FREE,
                 vp_next := s_buddy_freelist s order, vp_prev := None\<rparr>) s;
          s2 = (case s_buddy_freelist s1 order of
                  None \<Rightarrow> s1
                | Some h \<Rightarrow> upd_page h (\<lambda>p. p\<lparr>vp_prev := Some page\<rparr>) s1)
      in s2\<lparr>s_buddy_freelist := (s_buddy_freelist s2)(order := Some page)\<rparr>)"

definition buddy_list_remove :: "nat \<Rightarrow> nat \<Rightarrow> pmm \<Rightarrow> pmm" where
  "buddy_list_remove order page s =
     (let s1 = (case vp_prev (s_pages s page) of
                  Some q \<Rightarrow> upd_page q (\<lambda>p. p\<lparr>vp_next := vp_next (s_pages s page)\<rparr>) s
                | None \<Rightarrow> s\<lparr>s_buddy_freelist :=
                    (s_buddy_freelist s)(order := vp_next (s_pages s page))\<rparr>);
          s2 = (case vp_next (s_pages s1 page) of
                  Some q \<Rightarrow> upd_page q (\<lambda>p. p\<lparr>vp_prev := vp_prev (s_pages s1 page)\<rparr>) s1
                | None \<Rightarrow> s1)
      in upd_page page (\<lambda>p. p\<lparr>vp_next := None, vp_prev := None, vp_flags := 0\<rparr>) s2)"

definition buddy_of :: "nat \<Rightarrow> nat \<Rightarrow> nat" where
  "buddy_of pfn order = pfn XOR push_bit order 1"

function buddy_free_block :: "nat \<Rightarrow> nat \<Rightarrow> pmm \<Rightarrow> pmm" where
  "buddy_free_block pfn order s =
     (if order < BUDDY_MAX_ORDER then
        (let b = buddy_of pfn order; bp = s_pages s b in
         if b \<ge> s_max_phys_page s then buddy_list_add order pfn s
         else if vp_flags bp AND VM_PAGE_FREE = 0 \<or> vp_order bp \<noteq> order \<or> vp_ref_count bp \<noteq> 0
           then buddy_list_add order pfn s
         else buddy_free_block (if b < pfn then b else pfn) (Suc order)
                (buddy_list_remove order b s))
      else buddy_list_add order pfn s)"
  by pat_completeness auto
termination
  by (relation "measure (\<lambda>(pfn, order, s). BUDDY_MAX_ORDER - order)") auto

declare buddy_free_block.simps [simp del]

section \<open>Initialisation from the boot memory map\<close>

definition CHIMERA_MEM_USABLE :: u32 where "CHIMERA_MEM_USABLE = 1"
definition CHIMERA_MEM_ACPI_RECLAIM :: u32 where "CHIMERA_MEM_ACPI_RECLAIM = 2"
definition CHIMERA_MEM_ACPI_NVS :: u32 where "CHIMERA_MEM_ACPI_NVS = 3"
definition CHIMERA_MEM_BOOTLOADER_RECLAIM :: u32 where "CHIMERA_MEM_BOOTLOADER_RECLAIM = 4"
definition CHIMERA_MEM_KERNEL :: u32 where "CHIMERA_MEM_KERNEL = 5"

text \<open>\<^verbatim>\<open>sizeof(vm_page_t)\<close>: two pointers, a 32-bit and four 16-bit fields, padded to 8.\<close>
definition SIZEOF_VM_PAGE :: nat where "SIZEOF_VM_PAGE = 32"

record memmap_entry =
  me_base :: u64
  me_length :: u64
  me_type :: u32

fun scan_memmap :: "memmap_entry list \<Rightarrow> u64 \<Rightarrow> u64 \<Rightarrow> u64 \<times> u64" where
  "scan_memmap [] max_phys_addr total_ram_bytes = (max_phys_addr, total_ram_bytes)"
| "scan_memmap (e # es) max_phys_addr total_ram_bytes =
     scan_memmap es
       (if me_type e \<in> {CHIMERA_MEM_USABLE, CHIMERA_MEM_BOOTLOADER_RECLAIM, CHIMERA_MEM_KERNEL,
              CHIMERA_MEM_ACPI_RECLAIM, CHIMERA_MEM_ACPI_NVS}
           \<and> me_base e + me_length e > max_phys_addr
        then me_base e + me_length e else max_phys_addr)
       (if me_type e \<in> {CHIMERA_MEM_USABLE, CHIMERA_MEM_BOOTLOADER_RECLAIM, CHIMERA_MEM_KERNEL,
              CHIMERA_MEM_ACPI_RECLAIM}
        then total_ram_bytes + me_length e else total_ram_bytes)"

text \<open>Where the descriptor array goes: the first usable segment with 1 MiB to spare.\<close>
fun place_array_high :: "u64 \<Rightarrow> memmap_entry list \<Rightarrow> u64" where
  "place_array_high bytes [] = 0"
| "place_array_high bytes (e # es) =
     (if me_type e = CHIMERA_MEM_USABLE \<and> me_length e \<ge> bytes + 0x100000
      then (if me_base e \<ge> 0x100000 then me_base e else 0x100000)
      else place_array_high bytes es)"

fun place_array_any :: "u64 \<Rightarrow> memmap_entry list \<Rightarrow> u64" where
  "place_array_any bytes [] = 0"
| "place_array_any bytes (e # es) =
     (if me_type e = CHIMERA_MEM_USABLE \<and> me_length e \<ge> bytes then me_base e
      else place_array_any bytes es)"

definition wired_page :: "nat \<Rightarrow> vm_page" where
  "wired_page i = \<lparr>vp_next = None, vp_prev = None, vp_phys_page = i mod 2 ^ 32, vp_ref_count = 1,
     vp_wire_count = 1, vp_flags = VM_PAGE_WIRED, vp_order = 0\<rparr>"

text \<open>The pages of one usable entry, the first megabyte skipped: the bounds of the
  populate loop.\<close>
definition entry_page_range :: "nat \<Rightarrow> memmap_entry \<Rightarrow> (nat \<times> nat) option" where
  "entry_page_range max_page e =
     (if me_type e \<noteq> CHIMERA_MEM_USABLE then None
      else let base = me_base e; len = me_length e in
      if base < 0x100000 \<and> base + len \<le> 0x100000 then None
      else let skip = (if base < 0x100000 then 0x100000 - base else 0);
               base = base + skip; len = len - skip;
               first_page = unat (base div 4096);
               last_page = unat ((base + len) div 4096)
           in Some (first_page, if last_page > max_page then max_page else last_page))"

definition free_one_page :: "nat \<Rightarrow> nat \<Rightarrow> nat \<Rightarrow> pmm \<Rightarrow> pmm" where
  "free_one_page array_first_page array_last_page p s =
     (if array_first_page \<le> p \<and> p < array_last_page then s
      else let s1 = upd_page p (\<lambda>q. q\<lparr>vp_ref_count := 0, vp_wire_count := 0\<rparr>) s;
               s2 = buddy_free_block (p mod 2 ^ 32) 0 s1
           in s2\<lparr>s_free_pages := s_free_pages s2 + 1\<rparr>)"

definition populate_entry :: "nat \<Rightarrow> nat \<Rightarrow> memmap_entry \<Rightarrow> pmm \<Rightarrow> pmm" where
  "populate_entry array_first_page array_last_page e s =
     (case entry_page_range (s_max_phys_page s) e of
        None \<Rightarrow> s
      | Some (first_page, last_page) \<Rightarrow>
          fold (free_one_page array_first_page array_last_page) [first_page..<last_page] s)"

definition pmm_reset :: "pmm \<Rightarrow> pmm" where
  "pmm_reset s = s\<lparr>s_max_phys_page := 0, s_total_ram_pages := 0, s_free_pages := 0,
     s_buddy_freelist := (\<lambda>n. if n \<le> BUDDY_MAX_ORDER then None else s_buddy_freelist s n)\<rparr>"

definition page_array_bytes :: "nat \<Rightarrow> u64" where
  "page_array_bytes max_page = word_of_nat (max_page * SIZEOF_VM_PAGE)"

definition page_array_pages :: "nat \<Rightarrow> u64" where
  "page_array_pages max_page = (page_array_bytes max_page + 4096 - 1) div 4096"

definition array_paddr :: "nat \<Rightarrow> memmap_entry list \<Rightarrow> u64" where
  "array_paddr max_page es =
     (let hi = place_array_high (page_array_bytes max_page) es
      in if hi = 0 then place_array_any (page_array_bytes max_page) es else hi)"

definition wire_all_pages :: "pmm \<Rightarrow> pmm" where
  "wire_all_pages s =
     s\<lparr>s_pages := (\<lambda>i. if i < s_max_phys_page s then wired_page i else s_pages s i)\<rparr>"

text \<open>\<open>None\<close> is the \<^verbatim>\<open>while(1)\<close> after the message that the array does not fit.\<close>
definition pmm_init :: "memmap_entry list \<Rightarrow> pmm \<Rightarrow> pmm option" where
  "pmm_init entries s =
     (if entries = [] then Some (pmm_reset s)
      else let (max_phys_addr, total_ram_bytes) = scan_memmap entries 0 0;
               max_page = unat (max_phys_addr div 4096);
               s = (pmm_reset s)\<lparr>s_max_phys_page := max_page,
                     s_total_ram_pages := unat (total_ram_bytes div 4096)\<rparr>;
               paddr = array_paddr max_page entries;
               array_first_page = unat (paddr div 4096);
               array_last_page = unat (paddr div 4096 + page_array_pages max_page)
           in if paddr = 0 then None
           else let s = fold (populate_entry array_first_page array_last_page) entries
                          (wire_all_pages s)
                in Some (if s_total_ram_pages s = 0
                         then s\<lparr>s_total_ram_pages := s_free_pages s\<rparr> else s))"

definition pmm_total_pages :: "pmm \<Rightarrow> nat" where "pmm_total_pages s = s_total_ram_pages s"
definition pmm_free_pages :: "pmm \<Rightarrow> nat" where "pmm_free_pages s = s_free_pages s"

section \<open>Allocation\<close>

function find_order :: "nat \<Rightarrow> pmm \<Rightarrow> nat" where
  "find_order cur_order s =
     (if cur_order \<le> BUDDY_MAX_ORDER \<and> s_buddy_freelist s cur_order = None
      then find_order (Suc cur_order) s else cur_order)"
  by pat_completeness auto
termination
  by (relation "measure (\<lambda>(c, s). Suc BUDDY_MAX_ORDER - c)") auto

declare find_order.simps [simp del]

function split_block :: "nat \<Rightarrow> nat \<Rightarrow> nat \<Rightarrow> pmm \<Rightarrow> pmm" where
  "split_block block cur_order order s =
     (if cur_order > order then
        (let cur_order = cur_order - 1;
             buddy_pfn = vp_phys_page (s_pages s block) + push_bit cur_order 1
         in split_block block cur_order order (buddy_list_add cur_order buddy_pfn s))
      else s)"
  by pat_completeness auto
termination
  by (relation "measure (\<lambda>(b, c, ord, s). c)") auto

declare split_block.simps [simp del]

definition alloc_page :: "nat \<Rightarrow> vm_page \<Rightarrow> vm_page" where
  "alloc_page order p =
     p\<lparr>vp_ref_count := 1, vp_wire_count := 0, vp_flags := VM_PAGE_ACTIVE, vp_order := order\<rparr>"

definition mark_allocated :: "nat \<Rightarrow> nat \<Rightarrow> pmm \<Rightarrow> pmm" where
  "mark_allocated block order s =
     fold (\<lambda>i s. upd_page (vp_phys_page (s_pages s block) + i) (alloc_page order) s)
       [0..<push_bit order 1] s"

definition pmm_alloc_order_unlocked :: "nat \<Rightarrow> pmm \<Rightarrow> nat \<times> pmm" where
  "pmm_alloc_order_unlocked order s =
     (if order > BUDDY_MAX_ORDER then (PADDR_INVALID, s)
      else let cur_order = find_order order s in
      if cur_order > BUDDY_MAX_ORDER then (PADDR_INVALID, s)
      else case s_buddy_freelist s cur_order of
        None \<Rightarrow> (PADDR_INVALID, s)
      | Some block \<Rightarrow>
          let s = buddy_list_remove cur_order block s;
              s = split_block block cur_order order s;
              s = mark_allocated block order s;
              s = s\<lparr>s_free_pages := s_free_pages s - push_bit order 1\<rparr>
          in (vp_phys_page (s_pages s block) * CHIMERA_PAGE_SIZE, s))"

definition pmm_alloc_page :: "pmm \<Rightarrow> nat \<times> pmm" where
  "pmm_alloc_page s =
     (let (addr, s) = pmm_alloc_order_unlocked 0 s
      in (if addr = PADDR_INVALID then 0 else addr, s))"

function order_for :: "nat \<Rightarrow> nat \<Rightarrow> nat option" where
  "order_for count order =
     (if push_bit order 1 < count then
        (if Suc order > BUDDY_MAX_ORDER then None else order_for count (Suc order))
      else Some order)"
  by pat_completeness auto
termination
  by (relation "measure (\<lambda>(c, ord). Suc BUDDY_MAX_ORDER - ord)") auto

declare order_for.simps [simp del]

definition pmm_alloc_pages :: "nat \<Rightarrow> pmm \<Rightarrow> nat \<times> pmm" where
  "pmm_alloc_pages count s =
     (if count = 0 then (PADDR_INVALID, s)
      else if count = 1 then pmm_alloc_page s
      else case order_for count 0 of
        None \<Rightarrow> (PADDR_INVALID, s)
      | Some order \<Rightarrow> pmm_alloc_order_unlocked order s)"

section \<open>Reference counts and release\<close>

definition pmm_retain_page :: "nat \<Rightarrow> pmm \<Rightarrow> pmm" where
  "pmm_retain_page addr s =
     (let idx = addr div CHIMERA_PAGE_SIZE in
      if idx \<ge> s_max_phys_page s then s
      else if vp_ref_count (s_pages s idx) < 65535
        then upd_page idx (\<lambda>p. p\<lparr>vp_ref_count := vp_ref_count p + 1\<rparr>) s
      else s)"

definition pmm_release_page :: "nat \<Rightarrow> pmm \<Rightarrow> pmm" where
  "pmm_release_page addr s =
     (let idx = addr div CHIMERA_PAGE_SIZE in
      if idx \<ge> s_max_phys_page s then s
      else if vp_ref_count (s_pages s idx) > 0 then
        (let s = upd_page idx (\<lambda>p. p\<lparr>vp_ref_count := vp_ref_count p - 1\<rparr>) s in
         if vp_ref_count (s_pages s idx) = 0 then
           (let s = upd_page idx (\<lambda>p. p\<lparr>vp_wire_count := 0, vp_flags := 0\<rparr>) s;
                s = buddy_free_block (idx mod 2 ^ 32) 0 s
            in s\<lparr>s_free_pages := s_free_pages s + 1\<rparr>)
         else s)
      else s)"

definition pmm_get_refcount :: "nat \<Rightarrow> pmm \<Rightarrow> nat" where
  "pmm_get_refcount addr s =
     (let idx = addr div CHIMERA_PAGE_SIZE in
      if idx \<ge> s_max_phys_page s then 0 else vp_ref_count (s_pages s idx))"

definition pmm_free_page :: "nat \<Rightarrow> pmm \<Rightarrow> pmm" where
  "pmm_free_page addr s = pmm_release_page addr s"

definition pmm_free_contiguous :: "nat \<Rightarrow> nat \<Rightarrow> pmm \<Rightarrow> pmm" where
  "pmm_free_contiguous addr count s =
     (if addr = PADDR_INVALID \<or> addr = 0 \<or> count = 0 then s
      else fold (\<lambda>i. pmm_release_page ((addr + i * CHIMERA_PAGE_SIZE) mod 2 ^ 64)) [0..<count] s)"

end
