(* ===== verification/Page_Allocator.thy ===== *)
theory Page_Allocator
  imports Chimera_Prelude
begin

text \<open>
  What the rest of the kernel relies on when it takes, shares and drops physical
  pages: the contract between \<^verbatim>\<open>mm/pmm.c\<close> and its clients (\<^verbatim>\<open>zone.c\<close>,
  \<^verbatim>\<open>pmap.c\<close>, \<^verbatim>\<open>vm_object.c\<close>). A page is named by its physical address; the
  address 0 is the failure value of \<open>alloc\<close>.
\<close>

definition page_idx :: "nat \<Rightarrow> nat" where
  "page_idx a = a div CHIMERA_PAGE_SIZE"

locale page_allocator =
  fixes alloc :: "'s \<Rightarrow> nat \<times> 's"
    and retain :: "nat \<Rightarrow> 's \<Rightarrow> 's"
    and release :: "nat \<Rightarrow> 's \<Rightarrow> 's"
    and refs :: "'s \<Rightarrow> nat \<Rightarrow> nat"
    and npages :: "'s \<Rightarrow> nat"
    and inv :: "'s \<Rightarrow> bool"
  assumes alloc_inv: "inv s \<Longrightarrow> inv (snd (alloc s))"
    and alloc_npages: "inv s \<Longrightarrow> npages (snd (alloc s)) = npages s"
    and alloc_aligned: "inv s \<Longrightarrow> CHIMERA_PAGE_SIZE dvd fst (alloc s)"
    and alloc_range: "inv s \<Longrightarrow> fst (alloc s) \<noteq> 0 \<Longrightarrow> page_idx (fst (alloc s)) < npages s"
    and alloc_was_free: "inv s \<Longrightarrow> fst (alloc s) \<noteq> 0 \<Longrightarrow> refs s (page_idx (fst (alloc s))) = 0"
    and alloc_refs: "inv s \<Longrightarrow> fst (alloc s) \<noteq> 0 \<Longrightarrow>
      refs (snd (alloc s)) q = (if q = page_idx (fst (alloc s)) then 1 else refs s q)"
    and release_inv: "inv s \<Longrightarrow> inv (release a s)"
    and release_npages: "inv s \<Longrightarrow> npages (release a s) = npages s"
    and release_refs: "inv s \<Longrightarrow> page_idx a < npages s \<Longrightarrow>
      refs (release a s) q = (if q = page_idx a then refs s q - 1 else refs s q)"
    and retain_inv: "inv s \<Longrightarrow> page_idx a < npages s \<Longrightarrow> refs s (page_idx a) \<noteq> 0 \<Longrightarrow> inv (retain a s)"
    and retain_npages: "inv s \<Longrightarrow> npages (retain a s) = npages s"
    and retain_refs: "inv s \<Longrightarrow> page_idx a < npages s \<Longrightarrow> refs s (page_idx a) < 65535 \<Longrightarrow>
      refs (retain a s) q = (if q = page_idx a then refs s q + 1 else refs s q)"
begin

lemma alloc_twice_distinct:
  assumes "inv s" and "alloc s = (a, t)" and "alloc t = (b, u)" and "a \<noteq> 0" and "b \<noteq> 0"
  shows "page_idx a \<noteq> page_idx b"
proof
  assume eq: "page_idx a = page_idx b"
  have "inv t" using alloc_inv [OF assms(1)] assms(2) by simp
  then have "refs t (page_idx b) = 0" using alloc_was_free [of t] assms(3,5) by simp
  moreover have "refs t (page_idx a) = 1" using alloc_refs [OF assms(1), of "page_idx a"] assms(2,4) by simp
  ultimately show False using eq by simp
qed

lemma alloc_release_refs:
  assumes "inv s" and "alloc s = (a, t)" and "a \<noteq> 0"
  shows "refs (release a t) q = refs s q"
proof -
  have "inv t" and "page_idx a < npages t"
    using alloc_inv [OF assms(1)] alloc_range [OF assms(1)] alloc_npages [OF assms(1)] assms(2,3) by auto
  then show ?thesis
    using release_refs [of t a q] alloc_refs [OF assms(1), of q] alloc_was_free [OF assms(1)] assms(2,3)
    by auto
qed

lemma retained_survives_release:
  assumes "inv s" and "page_idx a < npages s" and "refs s (page_idx a) \<noteq> 0" and "refs s (page_idx a) < 65535"
  shows "refs (release a (retain a s)) q = refs s q" and "refs (retain a s) (page_idx a) > 1"
  using release_refs [OF retain_inv [OF assms(1,2,3)], of a q] retain_refs [OF assms(1,2,4)]
    retain_npages [OF assms(1)] assms
  by auto

end

end
