(* ===== verification/Pmm_Correct.thy ===== *)
theory Pmm_Correct
  imports Pmm Page_Allocator
begin

text \<open>
  Correctness of the buddy allocator. A \<^emph>\<open>block\<close> is a descriptor with the free
  flag; it stands for the \<open>2 ^ order\<close> pages from its index on. \<open>buddy_inv s H\<close>
  says that the free lists hold exactly the blocks, that blocks are aligned, in
  range and disjoint, that no two buddies are both free, and that the pages with
  reference count 0 are those of the blocks and the pages of the hole \<open>H\<close> (the
  pages an operation has in hand). \<open>pmm_inv\<close> is the invariant between operations.
\<close>

section \<open>Blocks and the invariant\<close>

abbreviation nx :: "pmm \<Rightarrow> nat \<Rightarrow> nat option" where "nx s \<equiv> (\<lambda>p. vp_next (s_pages s p))"
abbreviation pv :: "pmm \<Rightarrow> nat \<Rightarrow> nat option" where "pv s \<equiv> (\<lambda>p. vp_prev (s_pages s p))"

definition blk :: "pmm \<Rightarrow> nat \<Rightarrow> nat \<Rightarrow> bool" where
  "blk s p n \<longleftrightarrow> p < s_max_phys_page s \<and> vp_flags (s_pages s p) AND VM_PAGE_FREE \<noteq> 0
     \<and> vp_order (s_pages s p) = n"

definition span :: "nat \<Rightarrow> nat \<Rightarrow> nat set" where
  "span p n = {p..<p + 2 ^ n}"

definition covered :: "pmm \<Rightarrow> nat set" where
  "covered s = {q. \<exists>p n. blk s p n \<and> q \<in> span p n}"

definition free_set :: "pmm \<Rightarrow> nat set" where
  "free_set s = {q. q < s_max_phys_page s \<and> vp_ref_count (s_pages s q) = 0}"

definition lists_ok :: "pmm \<Rightarrow> bool" where
  "lists_ok s \<longleftrightarrow> (\<forall>n \<le> BUDDY_MAX_ORDER. \<exists>xs. dl (nx s) (pv s) None (s_buddy_freelist s n) xs
     \<and> distinct xs \<and> set xs = {p. blk s p n})"

definition blocks_ok :: "pmm \<Rightarrow> bool" where
  "blocks_ok s \<longleftrightarrow> (\<forall>p n. blk s p n \<longrightarrow>
     n \<le> BUDDY_MAX_ORDER \<and> 2 ^ n dvd p \<and> p + 2 ^ n \<le> s_max_phys_page s)"

definition blocks_disjoint :: "pmm \<Rightarrow> bool" where
  "blocks_disjoint s \<longleftrightarrow> (\<forall>p n p' n'. blk s p n \<longrightarrow> blk s p' n' \<longrightarrow> p \<noteq> p' \<longrightarrow>
     span p n \<inter> span p' n' = {})"

definition coalesced :: "pmm \<Rightarrow> bool" where
  "coalesced s \<longleftrightarrow> (\<forall>p n. blk s p n \<longrightarrow> n < BUDDY_MAX_ORDER \<longrightarrow> \<not> blk s (buddy_of p n) n)"

definition pages_ok :: "pmm \<Rightarrow> bool" where
  "pages_ok s \<longleftrightarrow> s_max_phys_page s < 2 ^ 32 \<and>
     (\<forall>p < s_max_phys_page s. vp_phys_page (s_pages s p) = p)"

definition buddy_inv :: "pmm \<Rightarrow> nat set \<Rightarrow> bool" where
  "buddy_inv s H \<longleftrightarrow> pages_ok s \<and> lists_ok s \<and> blocks_ok s \<and> blocks_disjoint s \<and> coalesced s
     \<and> free_set s = covered s \<union> H \<and> covered s \<inter> H = {}"

definition pmm_inv :: "pmm \<Rightarrow> bool" where
  "pmm_inv s \<longleftrightarrow> buddy_inv s {} \<and> s_free_pages s = card (free_set s)"

lemmas inv_defs = buddy_inv_def pages_ok_def lists_ok_def blocks_ok_def blocks_disjoint_def
  coalesced_def

section \<open>Buddies\<close>

lemma buddy_of_aligned:
  assumes "2 ^ n dvd p"
  shows "buddy_of p n = (if even (p div 2 ^ n) then p + 2 ^ n else p - 2 ^ n)"
proof -
  from assms obtain k where p: "p = 2 ^ n * k" by auto
  have "buddy_of p n = push_bit n (k XOR 1)"
    unfolding push_bit_xor by (simp add: buddy_of_def p push_bit_eq_mult mult.commute)
  then show ?thesis
    by (auto simp: xor_Suc_0_eq p push_bit_eq_mult algebra_simps diff_mult_distrib)
qed

lemma buddy_of_involutive [simp]: "buddy_of (buddy_of p n) n = p"
  by (simp add: buddy_of_def xor.assoc)

lemma buddy_of_dvd: "2 ^ n dvd p \<Longrightarrow> 2 ^ n dvd buddy_of p n"
  by (auto simp: buddy_of_aligned dvd_diff_nat)

lemma min_buddy:
  assumes "2 ^ n dvd p"
  shows "2 ^ Suc n dvd min p (buddy_of p n)"
    and "span (min p (buddy_of p n)) (Suc n) = span p n \<union> span (buddy_of p n) n"
    and "min p (buddy_of p n) + 2 ^ Suc n = max p (buddy_of p n) + 2 ^ n"
    and "span p n \<inter> span (buddy_of p n) n = {}"
proof -
  from assms obtain k where p: "p = 2 ^ n * k" by auto
  show "2 ^ Suc n dvd min p (buddy_of p n)"
  proof (cases "even k")
    case True
    then show ?thesis using assms by (auto simp: buddy_of_aligned p min_def)
  next
    case False
    then obtain m where "k = 2 * m + 1" by (auto elim: oddE)
    then have "p - 2 ^ n = 2 ^ Suc n * m" by (simp add: p algebra_simps)
    moreover have "min p (buddy_of p n) = p - 2 ^ n"
      using False assms by (simp add: buddy_of_aligned p)
    ultimately show ?thesis by simp
  qed
  have "odd k \<Longrightarrow> 2 ^ n \<le> p" by (cases k) (auto simp: p)
  then show "min p (buddy_of p n) + 2 ^ Suc n = max p (buddy_of p n) + 2 ^ n"
    and "span (min p (buddy_of p n)) (Suc n) = span p n \<union> span (buddy_of p n) n"
    and "span p n \<inter> span (buddy_of p n) n = {}"
    using assms by (auto simp: buddy_of_aligned p span_def)
qed

lemma buddy_of_add: "2 ^ Suc n dvd p \<Longrightarrow> buddy_of (p + 2 ^ n) n = p"
proof -
  assume a: "2 ^ Suc n dvd p"
  then obtain k where p: "p = 2 ^ Suc n * k" by (auto elim: dvdE)
  have "p + 2 ^ n = 2 ^ n * (2 * k + 1)" by (simp add: p)
  then have "2 ^ n dvd p + 2 ^ n" and "(p + 2 ^ n) div 2 ^ n = 2 * k + 1" by simp_all
  then show ?thesis by (simp add: buddy_of_aligned)
qed

lemma span_self [simp]: "p \<in> span p n"
  by (simp add: span_def)

lemma buddy_of_neq: "2 ^ n dvd p \<Longrightarrow> buddy_of p n \<noteq> p"
  using min_buddy(4) [of n p] span_self by fastforce

lemma blk_fun: "blk s p n \<Longrightarrow> blk s p m \<Longrightarrow> m = n"
  by (simp add: blk_def)

lemma blk_covered: "blk s p n \<Longrightarrow> span p n \<subseteq> covered s"
  by (auto simp: covered_def)

lemma hole_no_blk: "covered s \<inter> H = {} \<Longrightarrow> p \<in> H \<Longrightarrow> \<not> blk s p n"
  using blk_covered span_self by blast

section \<open>What the list operations change\<close>

lemma remove_fields:
  "s_max_phys_page (buddy_list_remove n b s) = s_max_phys_page s"
  "s_free_pages (buddy_list_remove n b s) = s_free_pages s"
  "s_total_ram_pages (buddy_list_remove n b s) = s_total_ram_pages s"
  "vp_phys_page (s_pages (buddy_list_remove n b s) q) = vp_phys_page (s_pages s q)"
  "vp_ref_count (s_pages (buddy_list_remove n b s) q) = vp_ref_count (s_pages s q)"
  "vp_order (s_pages (buddy_list_remove n b s) q) = vp_order (s_pages s q)"
  "vp_flags (s_pages (buddy_list_remove n b s) q) = (if q = b then 0 else vp_flags (s_pages s q))"
  by (auto simp: buddy_list_remove_def upd_page_def Let_def split: option.splits)

lemma add_fields:
  "s_max_phys_page (buddy_list_add n b s) = s_max_phys_page s"
  "s_free_pages (buddy_list_add n b s) = s_free_pages s"
  "s_total_ram_pages (buddy_list_add n b s) = s_total_ram_pages s"
  "vp_phys_page (s_pages (buddy_list_add n b s) q) = vp_phys_page (s_pages s q)"
  "vp_ref_count (s_pages (buddy_list_add n b s) q) = vp_ref_count (s_pages s q)"
  "vp_order (s_pages (buddy_list_add n b s) q) = (if q = b then n else vp_order (s_pages s q))"
  "vp_flags (s_pages (buddy_list_add n b s) q) =
     (if q = b then VM_PAGE_FREE else vp_flags (s_pages s q))"
  by (auto simp: buddy_list_add_def upd_page_def Let_def split: option.splits)

lemma remove_blk: "blk (buddy_list_remove n b s) p m \<longleftrightarrow> blk s p m \<and> p \<noteq> b"
  by (auto simp: blk_def remove_fields)

lemma add_blk:
  "blk (buddy_list_add n b s) p m \<longleftrightarrow> (if p = b then b < s_max_phys_page s \<and> m = n else blk s p m)"
  by (auto simp: blk_def add_fields VM_PAGE_FREE_def)

lemma free_set_eq:
  "s_max_phys_page t = s_max_phys_page s \<Longrightarrow>
   (\<And>q. vp_ref_count (s_pages t q) = vp_ref_count (s_pages s q)) \<Longrightarrow> free_set t = free_set s"
  by (simp add: free_set_def)

lemma remove_links:
  assumes "pv s b \<noteq> Some b" and "nx s b \<noteq> Some b"
  shows "nx (buddy_list_remove n b s) = (unlink_next (nx s) (pv s) b)(b := None)"
    and "pv (buddy_list_remove n b s) = (unlink_prev (nx s) (pv s) b)(b := None)"
    and "s_buddy_freelist (buddy_list_remove n b s) =
          (case pv s b of None \<Rightarrow> (s_buddy_freelist s)(n := nx s b) | Some _ \<Rightarrow> s_buddy_freelist s)"
  using assms
  by (auto simp: buddy_list_remove_def upd_page_def Let_def unlink_next_def unlink_prev_def fun_eq_iff
      split: option.splits)

lemma add_links:
  assumes "s_buddy_freelist s n \<noteq> Some b"
  shows "nx (buddy_list_add n b s) = (nx s)(b := s_buddy_freelist s n)"
    and "pv (buddy_list_add n b s) = push_prev (pv s) b (s_buddy_freelist s n)"
    and "s_buddy_freelist (buddy_list_add n b s) = (s_buddy_freelist s)(n := Some b)"
  using assms
  by (auto simp: buddy_list_add_def upd_page_def Let_def push_prev_def fun_eq_iff split: option.splits)

section \<open>Unlinking a block and adding one keep the invariant\<close>

lemma lists_okE:
  assumes "lists_ok s" and "n \<le> BUDDY_MAX_ORDER"
  obtains xs where "dl (nx s) (pv s) None (s_buddy_freelist s n) xs" "distinct xs"
    "set xs = {p. blk s p n}"
  using assms unfolding lists_ok_def by blast

lemma remove_lists_ok:
  assumes ok: "lists_ok s" and b: "blk s b n" and n: "n \<le> BUDDY_MAX_ORDER"
  shows "lists_ok (buddy_list_remove n b s)"
  unfolding lists_ok_def
proof (intro allI impI)
  fix m assume m: "m \<le> BUDDY_MAX_ORDER"
  let ?s = "buddy_list_remove n b s"
  obtain xs where xs: "dl (nx s) (pv s) None (s_buddy_freelist s n) xs" "distinct xs"
    "set xs = {p. blk s p n}" by (rule lists_okE [OF ok n])
  obtain ys where ys: "dl (nx s) (pv s) None (s_buddy_freelist s m) ys" "distinct ys"
    "set ys = {p. blk s p m}" by (rule lists_okE [OF ok m])
  have bx: "b \<in> set xs" using b xs(3) by simp
  note links = remove_links [OF dl_irrefl [OF xs(1,2) bx], of n]
  show "\<exists>zs. dl (nx ?s) (pv ?s) None (s_buddy_freelist ?s m) zs \<and> distinct zs
          \<and> set zs = {p. blk ?s p m}"
  proof (cases "m = n")
    case True
    have "dl (nx ?s) (pv ?s) None (case pv s b of None \<Rightarrow> nx s b | Some _ \<Rightarrow> s_buddy_freelist s n)
            (remove1 b xs)"
      using dl_unlink_remove1 [OF xs(1,2) bx] xs(2) unfolding links
      by (subst dl_cong [where nx' = "unlink_next (nx s) (pv s) b" and pv' = "unlink_prev (nx s) (pv s) b"])
        auto
    then have "dl (nx ?s) (pv ?s) None (s_buddy_freelist ?s m) (remove1 b xs)"
      unfolding links(3) True by (auto split: option.splits)
    moreover have "set (remove1 b xs) = {p. blk ?s p m}"
      using xs(2,3) True by (auto simp: remove_blk)
    ultimately show ?thesis using xs(2) by (meson distinct_remove1)
  next
    case False
    then have disj: "set xs \<inter> set ys = {}" using xs(3) ys(3) blk_fun by blast
    have nxb: "\<And>c. nx s b = Some c \<Longrightarrow> c \<in> set xs" using dl_next_closed [OF xs(1) bx] by blast
    have pvb: "\<And>c. pv s b = Some c \<Longrightarrow> c \<in> set xs" using dl_prev_closed [OF xs(1) bx] by blast
    have "dl (nx ?s) (pv ?s) None (s_buddy_freelist s m) ys"
      using ys(1) disj bx nxb pvb unfolding links
      by (subst dl_cong [where nx' = "nx s" and pv' = "pv s"])
        (auto simp: unlink_next_def unlink_prev_def split: option.splits)
    moreover have "s_buddy_freelist ?s m = s_buddy_freelist s m"
      using False unfolding links by (auto split: option.splits)
    moreover have "set ys = {p. blk ?s p m}" using ys(3) b False blk_fun by (auto simp: remove_blk)
    ultimately show ?thesis using ys(2) by auto
  qed
qed

lemma add_lists_ok:
  assumes ok: "lists_ok s" and b: "\<And>m. \<not> blk s b m" and bm: "b < s_max_phys_page s"
    and n: "n \<le> BUDDY_MAX_ORDER"
  shows "lists_ok (buddy_list_add n b s)"
  unfolding lists_ok_def
proof (intro allI impI)
  fix m assume m: "m \<le> BUDDY_MAX_ORDER"
  let ?s = "buddy_list_add n b s"
  obtain xs where xs: "dl (nx s) (pv s) None (s_buddy_freelist s n) xs" "distinct xs"
    "set xs = {p. blk s p n}" by (rule lists_okE [OF ok n])
  obtain ys where ys: "dl (nx s) (pv s) None (s_buddy_freelist s m) ys" "distinct ys"
    "set ys = {p. blk s p m}" by (rule lists_okE [OF ok m])
  have bx: "b \<notin> set xs" and by': "b \<notin> set ys" using b xs(3) ys(3) by auto
  have hx: "\<And>h. s_buddy_freelist s n = Some h \<Longrightarrow> h \<in> set xs"
    using dl_head [OF xs(1)] by (auto split: list.splits)
  then have "s_buddy_freelist s n \<noteq> Some b" using bx by auto
  note links = add_links [OF this]
  show "\<exists>zs. dl (nx ?s) (pv ?s) None (s_buddy_freelist ?s m) zs \<and> distinct zs
          \<and> set zs = {p. blk ?s p m}"
  proof (cases "m = n")
    case True
    have "dl (nx ?s) (pv ?s) None (s_buddy_freelist ?s m) (b # xs)"
      using dl_push [OF xs(1) bx xs(2)] unfolding links True by simp
    moreover have "set (b # xs) = {p. blk ?s p m}" using xs(3) bm True by (auto simp: add_blk)
    ultimately show ?thesis using xs(2) bx by (metis distinct.simps(2))
  next
    case False
    then have disj: "set xs \<inter> set ys = {}" using xs(3) ys(3) blk_fun by blast
    have "dl (nx ?s) (pv ?s) None (s_buddy_freelist s m) ys"
      using ys(1) disj by' hx unfolding links
      by (subst dl_cong [where nx' = "nx s" and pv' = "pv s"])
        (auto simp: push_prev_def split: option.splits)
    moreover have "s_buddy_freelist ?s m = s_buddy_freelist s m" using False unfolding links by simp
    moreover have "set ys = {p. blk ?s p m}" using ys(3) b False by (auto simp: add_blk)
    ultimately show ?thesis using ys(2) by auto
  qed
qed

lemma remove_covered:
  assumes "blocks_disjoint s" and "blk s b n"
  shows "covered (buddy_list_remove n b s) = covered s - span b n"
  using assms unfolding covered_def blocks_disjoint_def
  by (auto simp: remove_blk) (metis blk_fun disjoint_iff)+

lemma add_covered:
  assumes "\<And>m. \<not> blk s b m" and "b < s_max_phys_page s"
  shows "covered (buddy_list_add n b s) = covered s \<union> span b n"
  using assms unfolding covered_def by (auto simp: add_blk) metis

lemma remove_inv:
  assumes inv: "buddy_inv s H" and b: "blk s b n"
  shows "buddy_inv (buddy_list_remove n b s) (H \<union> span b n)"
proof -
  have n: "n \<le> BUDDY_MAX_ORDER" using inv b by (auto simp: inv_defs)
  have disj: "blocks_disjoint s" using inv by (simp add: buddy_inv_def)
  have "free_set (buddy_list_remove n b s) = free_set s"
    by (rule free_set_eq) (simp_all add: remove_fields)
  moreover have "lists_ok (buddy_list_remove n b s)"
    using inv b n by (intro remove_lists_ok) (auto simp: buddy_inv_def)
  ultimately show ?thesis
    using inv blk_covered [OF b] unfolding buddy_inv_def remove_covered [OF disj b]
    by (auto simp: pages_ok_def blocks_ok_def blocks_disjoint_def coalesced_def remove_blk remove_fields)
qed

lemma add_inv:
  assumes inv: "buddy_inv s (H \<union> span b n)" and H: "H \<inter> span b n = {}"
    and n: "n \<le> BUDDY_MAX_ORDER" and al: "2 ^ n dvd b" and le: "b + 2 ^ n \<le> s_max_phys_page s"
    and bud: "n < BUDDY_MAX_ORDER \<Longrightarrow> \<not> blk s (buddy_of b n) n"
  shows "buddy_inv (buddy_list_add n b s) H"
proof -
  let ?s = "buddy_list_add n b s"
  have cov: "covered s \<inter> (H \<union> span b n) = {}" using inv by (simp add: buddy_inv_def)
  have nb: "\<And>m. \<not> blk s b m" using cov by (rule hole_no_blk) simp
  have bm: "b < s_max_phys_page s" using le zero_less_power [of "2::nat" n] by linarith
  have fs: "free_set ?s = free_set s" by (rule free_set_eq) (simp_all add: add_fields)
  have "lists_ok ?s" using inv nb bm n by (intro add_lists_ok) (auto simp: buddy_inv_def)
  moreover have "blocks_ok ?s"
    using inv n al le by (auto simp: inv_defs add_blk add_fields)
  moreover have "blocks_disjoint ?s"
    using inv cov blk_covered unfolding buddy_inv_def blocks_disjoint_def
    by (auto simp: add_blk disjoint_iff) blast+
  moreover have "coalesced ?s"
    using inv bud nb buddy_of_neq [OF al] unfolding buddy_inv_def coalesced_def
    by (auto simp: add_blk)
  ultimately show ?thesis
    using inv H cov unfolding buddy_inv_def fs add_covered [OF nb bm]
    by (auto simp: pages_ok_def add_fields)
qed

lemma blk_ref0: "buddy_inv s H \<Longrightarrow> blk s p n \<Longrightarrow> vp_ref_count (s_pages s p) = 0"
proof -
  assume "buddy_inv s H" and "blk s p n"
  then have "p \<in> free_set s" using blk_covered span_self unfolding buddy_inv_def by blast
  then show ?thesis by (simp add: free_set_def)
qed

section \<open>Freeing a block\<close>

lemma buddy_free_block_fields:
  "s_max_phys_page (buddy_free_block pfn n s) = s_max_phys_page s"
  "s_free_pages (buddy_free_block pfn n s) = s_free_pages s"
  "s_total_ram_pages (buddy_free_block pfn n s) = s_total_ram_pages s"
  "vp_phys_page (s_pages (buddy_free_block pfn n s) q) = vp_phys_page (s_pages s q)"
  "vp_ref_count (s_pages (buddy_free_block pfn n s) q) = vp_ref_count (s_pages s q)"
proof (induction pfn n s rule: buddy_free_block.induct)
  case (1 pfn order s)
  { case 1 then show ?case using "1.IH"
      by (subst buddy_free_block.simps) (simp add: Let_def add_fields remove_fields) }
  { case 2 then show ?case using "1.IH"
      by (subst buddy_free_block.simps) (simp add: Let_def add_fields remove_fields) }
  { case 3 then show ?case using "1.IH"
      by (subst buddy_free_block.simps) (simp add: Let_def add_fields remove_fields) }
  { case 4 then show ?case using "1.IH"
      by (subst buddy_free_block.simps) (simp add: Let_def add_fields remove_fields) }
  { case 5 then show ?case using "1.IH"
      by (subst buddy_free_block.simps) (simp add: Let_def add_fields remove_fields) }
qed

text \<open>The loop keeps the freed pages in its hand: the hole is the block merged so far.\<close>

lemma buddy_free_block_inv:
  assumes "buddy_inv s (span pfn n)" and "n \<le> BUDDY_MAX_ORDER" and "2 ^ n dvd pfn"
    and "pfn + 2 ^ n \<le> s_max_phys_page s"
  shows "buddy_inv (buddy_free_block pfn n s) {}"
  using assms
proof (induction pfn n s rule: buddy_free_block.induct)
  case (1 pfn n s)
  let ?b = "buddy_of pfn n"
  note inv = "1.prems"(1) and al = "1.prems"(3)
  have add: "buddy_inv (buddy_list_add n pfn s) {}" if "n < BUDDY_MAX_ORDER \<Longrightarrow> \<not> blk s ?b n"
    using "1.prems" that by (intro add_inv) auto
  show ?case
  proof (cases "n < BUDDY_MAX_ORDER \<and> blk s ?b n")
    case False
    have "vp_ref_count (s_pages s ?b) = 0" if "blk s ?b n"
      using inv that by (rule blk_ref0)
    with False add show ?thesis
      by (subst buddy_free_block.simps) (auto simp: Let_def blk_def)
  next
    case True
    let ?s = "buddy_list_remove n ?b s"
    have bk: "blk s ?b n" and n: "n < BUDDY_MAX_ORDER" using True by auto
    have ref: "vp_ref_count (s_pages s ?b) = 0"
      using inv bk by (rule blk_ref0)
    have bmax: "?b + 2 ^ n \<le> s_max_phys_page s" using inv bk by (auto simp: inv_defs)
    have lo: "(if ?b < pfn then ?b else pfn) = min pfn ?b" by (simp add: min_def)
    have "buddy_inv ?s (span (min pfn ?b) (Suc n))"
      using remove_inv [OF inv bk] min_buddy(2) [OF al] by simp
    moreover have "min pfn ?b + 2 ^ Suc n \<le> s_max_phys_page ?s"
      using min_buddy(3) [OF al] bmax "1.prems"(4)
      by (simp add: remove_fields max_def split: if_splits)
    ultimately have "buddy_inv (buddy_free_block (min pfn ?b) (Suc n) ?s) {}"
      using "1.IH" [OF n refl refl] bk ref n min_buddy(1) [OF al] unfolding lo
      by (auto simp: blk_def)
    then show ?thesis
      using bk ref n lo by (subst buddy_free_block.simps) (auto simp: Let_def blk_def)
  qed
qed

lemma free_page_inv:
  assumes inv: "pmm_inv s" and p: "p < s_max_phys_page s" and r: "vp_ref_count (s_pages s p) \<noteq> 0"
    and f: "\<And>q. f q = q\<lparr>vp_ref_count := 0, vp_wire_count := w, vp_flags := g q\<rparr>"
    and g: "g (s_pages s p) AND VM_PAGE_FREE = 0"
  defines "t \<equiv> buddy_free_block p 0 (upd_page p f s)"
  shows "pmm_inv (t\<lparr>s_free_pages := s_free_pages t + 1\<rparr>)"
    and "free_set t = insert p (free_set s)"
proof -
  let ?s = "upd_page p f s"
  have binv: "buddy_inv s {}" and cnt: "s_free_pages s = card (free_set s)"
    using inv by (auto simp: pmm_inv_def)
  have pf: "p \<notin> free_set s" using r by (simp add: free_set_def)
  then have nb: "\<And>n. \<not> blk s p n"
    using binv blk_covered span_self by (fastforce simp: buddy_inv_def)
  have blk_eq: "blk ?s q n \<longleftrightarrow> blk s q n" for q n
    using nb g by (auto simp: blk_def upd_page_def f)
  have cov: "covered ?s = covered s" by (simp add: covered_def blk_eq)
  have fs: "free_set ?s = insert p (free_set s)"
    using p by (auto simp: free_set_def upd_page_def f)
  have links: "nx ?s = nx s" "pv ?s = pv s" "s_buddy_freelist ?s = s_buddy_freelist s"
    "s_max_phys_page ?s = s_max_phys_page s" "s_free_pages ?s = s_free_pages s"
    "\<And>q. vp_phys_page (s_pages ?s q) = vp_phys_page (s_pages s q)"
    by (auto simp: upd_page_def f fun_eq_iff)
  have "buddy_inv ?s (span p 0)"
    using binv pf fs unfolding inv_defs blk_eq cov links by (auto simp: span_def)
  then have "buddy_inv t {}"
    unfolding t_def using p by (intro buddy_free_block_inv) (auto simp: links)
  moreover have ft: "free_set t = insert p (free_set s)"
    unfolding t_def fs [symmetric] by (rule free_set_eq) (simp_all add: buddy_free_block_fields)
  moreover have "finite (free_set s)" by (simp add: free_set_def)
  ultimately show "pmm_inv (t\<lparr>s_free_pages := s_free_pages t + 1\<rparr>)"
    and "free_set t = insert p (free_set s)"
    using pf cnt by (auto simp: pmm_inv_def t_def buddy_free_block_fields links inv_defs
        free_set_def covered_def blk_def)
qed

section \<open>Allocating a block\<close>

lemma find_order_props:
  "n \<le> find_order n s"
  "n \<le> m \<Longrightarrow> m < find_order n s \<Longrightarrow> m \<le> BUDDY_MAX_ORDER \<and> s_buddy_freelist s m = None"
  "find_order n s \<le> BUDDY_MAX_ORDER \<Longrightarrow> s_buddy_freelist s (find_order n s) \<noteq> None"
proof (induction n s rule: find_order.induct)
  case (1 n s)
  note eq = find_order.simps [of n s]
  { case 1 then show ?case using "1.IH"(1) eq by (auto split: if_splits) }
  { case 2 then show ?case using "1.IH"(2) eq by (cases "m = n") (auto split: if_splits) }
  { case 3 then show ?case using "1.IH"(3) eq by (auto split: if_splits) }
qed

lemma split_block_fields:
  "s_max_phys_page (split_block b c n s) = s_max_phys_page s"
  "s_free_pages (split_block b c n s) = s_free_pages s"
  "vp_phys_page (s_pages (split_block b c n s) q) = vp_phys_page (s_pages s q)"
  "vp_ref_count (s_pages (split_block b c n s) q) = vp_ref_count (s_pages s q)"
proof (induction b c n s rule: split_block.induct)
  case (1 b c n s)
  { case 1 then show ?case using "1.IH" by (subst split_block.simps) (simp add: Let_def add_fields) }
  { case 2 then show ?case using "1.IH" by (subst split_block.simps) (simp add: Let_def add_fields) }
  { case 3 then show ?case using "1.IH" by (subst split_block.simps) (simp add: Let_def add_fields) }
  { case 4 then show ?case using "1.IH" by (subst split_block.simps) (simp add: Let_def add_fields) }
qed

lemma span_halves:
  "span b (Suc c) = span b c \<union> span (b + 2 ^ c) c" "span b c \<inter> span (b + 2 ^ c) c = {}"
  by (auto simp: span_def)

lemma phys_page_base:
  assumes "buddy_inv s H" and "b + 2 ^ n \<le> s_max_phys_page s"
  shows "vp_phys_page (s_pages s b) = b"
proof -
  have "b < s_max_phys_page s" using assms(2) zero_less_power [of "2::nat" n] by linarith
  then show ?thesis using assms(1) by (simp add: buddy_inv_def pages_ok_def)
qed

lemma split_block_inv:
  assumes "buddy_inv s (span b c)" and "c \<le> BUDDY_MAX_ORDER" and "2 ^ c dvd b"
    and "b + 2 ^ c \<le> s_max_phys_page s" and "n \<le> c"
  shows "buddy_inv (split_block b c n s) (span b n)"
  using assms
proof (induction b c n s rule: split_block.induct)
  case (1 b c n s)
  show ?case
  proof (cases "c > n")
    case False
    then show ?thesis using "1.prems" by (subst split_block.simps) simp
  next
    case True
    define d where "d = c - 1"
    have c: "c = Suc d" using True by (simp add: d_def)
    have b: "vp_phys_page (s_pages s b) = b"
      using "1.prems"(1,4) by (rule phys_page_base)
    have al: "2 ^ d dvd b" "2 ^ d dvd b + 2 ^ d"
      using "1.prems"(3) unfolding c by (auto intro: dvd_mult_right)
    have hole: "covered s \<inter> (span b d \<union> span (b + 2 ^ d) d) = {}"
      using "1.prems"(1) unfolding c span_halves by (simp add: buddy_inv_def)
    have "\<not> blk s (buddy_of (b + 2 ^ d) d) d"
      using "1.prems"(3) hole_no_blk [OF hole] unfolding c by (simp add: buddy_of_add)
    then have inv': "buddy_inv (buddy_list_add d (b + 2 ^ d) s) (span b d)"
      using "1.prems" al span_halves [of b d] unfolding c by (intro add_inv) auto
    show ?thesis
      using "1.IH" [OF True d_def _ ] inv' "1.prems" al True b
      by (subst split_block.simps) (auto simp: c Let_def add_fields push_bit_eq_mult)
  qed
qed

lemma mark_fold:
  assumes "vp_phys_page (s_pages s b) = b"
  shows "fold (\<lambda>i s. upd_page (vp_phys_page (s_pages s b) + i) (alloc_page n) s) [0..<k] s =
    s\<lparr>s_pages := \<lambda>q. if b \<le> q \<and> q < b + k then alloc_page n (s_pages s q) else s_pages s q\<rparr>"
proof (induction k)
  case (Suc k)
  have "(\<lambda>q. if b \<le> q \<and> q < b + k then alloc_page n (s_pages s q) else s_pages s q)
          (b + k := alloc_page n (s_pages s (b + k))) =
        (\<lambda>q. if b \<le> q \<and> q < b + Suc k then alloc_page n (s_pages s q) else s_pages s q)"
    by auto
  moreover have "vp_phys_page (alloc_page n (s_pages s b)) = b"
    using assms by (simp add: alloc_page_def)
  ultimately show ?case
    unfolding upt_Suc_append [OF le0] fold_append comp_def Suc.IH
    using assms by (cases k) (simp_all add: upd_page_def)
next
  case 0
  have "(\<lambda>q. if b \<le> q \<and> q < b + 0 then alloc_page n (s_pages s q) else s_pages s q) = s_pages s"
    by (rule ext) auto
  then show ?case by simp
qed

lemma mark_allocated_eq:
  assumes "vp_phys_page (s_pages s b) = b"
  shows "mark_allocated b n s =
    s\<lparr>s_pages := \<lambda>q. if q \<in> span b n then alloc_page n (s_pages s q) else s_pages s q\<rparr>"
  using mark_fold [OF assms, of n "2 ^ n"]
  by (simp add: mark_allocated_def push_bit_eq_mult span_def)

lemma mark_allocated_inv:
  assumes inv: "buddy_inv s (span b n)" and le: "b + 2 ^ n \<le> s_max_phys_page s"
  shows "buddy_inv (mark_allocated b n s) {}"
proof -
  let ?t = "mark_allocated b n s"
  have ph: "vp_phys_page (s_pages s b) = b"
    using inv le by (rule phys_page_base)
  note eq = mark_allocated_eq [OF ph, of n]
  have hole: "covered s \<inter> span b n = {}" using inv by (simp add: buddy_inv_def)
  have blk_eq: "blk ?t q m \<longleftrightarrow> blk s q m" for q m
    using hole_no_blk [OF hole] by (auto simp: blk_def eq alloc_page_def VM_PAGE_FREE_def VM_PAGE_ACTIVE_def)
  have cov: "covered ?t = covered s" by (simp add: covered_def blk_eq)
  have "free_set ?t = free_set s - span b n"
    by (auto simp: free_set_def eq alloc_page_def)
  moreover have "nx ?t = nx s" "pv ?t = pv s" "s_buddy_freelist ?t = s_buddy_freelist s"
    "s_max_phys_page ?t = s_max_phys_page s"
    "\<And>q. vp_phys_page (s_pages ?t q) = vp_phys_page (s_pages s q)"
    by (auto simp: eq alloc_page_def fun_eq_iff)
  ultimately show ?thesis
    using inv hole unfolding inv_defs blk_eq cov by auto
qed

lemma freelist_None:
  assumes "lists_ok s" and "n \<le> BUDDY_MAX_ORDER"
  shows "s_buddy_freelist s n = None \<longleftrightarrow> (\<forall>p. \<not> blk s p n)"
    and "s_buddy_freelist s n = Some p \<Longrightarrow> blk s p n"
proof -
  obtain xs where xs: "dl (nx s) (pv s) None (s_buddy_freelist s n) xs" "set xs = {p. blk s p n}"
    by (rule lists_okE [OF assms])
  show "s_buddy_freelist s n = None \<longleftrightarrow> (\<forall>p. \<not> blk s p n)"
    using dl_head [OF xs(1)] xs(2) by (cases xs) auto
  show "s_buddy_freelist s n = Some p \<Longrightarrow> blk s p n"
    using dl_head [OF xs(1)] xs(2) by (cases xs) auto
qed


text \<open>An aligned run of free pages lies inside one free block: this is what the
  merging in \<open>buddy_free_block\<close> is for.\<close>

lemma aligned_span_cases:
  assumes "2 ^ n dvd (p::nat)" and "2 ^ m dvd (b::nat)" and "n \<le> m" and "q \<in> span p n" and "q \<in> span b m"
  shows "span p n \<subseteq> span b m"
proof -
  obtain i j where i: "p = 2 ^ n * i" and j: "b = 2 ^ m * j" using assms(1,2) by (auto elim!: dvdE)
  obtain d where m: "m = n + d" using assms(3) le_iff_add by blast
  have b: "b = 2 ^ n * (2 ^ d * j)" by (simp add: j m power_add)
  have "2 ^ n * i \<le> q" "q < 2 ^ n * (i + 1)" "2 ^ n * (2 ^ d * j) \<le> q" "q < 2 ^ n * (2 ^ d * j + 2 ^ d)"
    using assms(4,5) by (auto simp: span_def i b m power_add algebra_simps)
  then have "2 ^ n * i < 2 ^ n * (2 ^ d * j + 2 ^ d)" and "2 ^ n * (2 ^ d * j) < 2 ^ n * (i + 1)" by linarith+
  then have "i < 2 ^ d * j + 2 ^ d" and "2 ^ d * j < i + 1" by (simp_all only: mult_less_cancel1)
  then have "2 ^ n * (2 ^ d * j) \<le> 2 ^ n * i" and "2 ^ n * (i + 1) \<le> 2 ^ n * (2 ^ d * j + 2 ^ d)"
    by (simp_all only: mult_le_mono2)
  then show ?thesis by (auto simp: span_def i b m power_add algebra_simps)
qed

lemma free_run_in_block:
  assumes inv: "buddy_inv s {}" and "n \<le> BUDDY_MAX_ORDER" and "2 ^ n dvd p" and "span p n \<subseteq> free_set s"
  shows "\<exists>b m. n \<le> m \<and> blk s b m \<and> span p n \<subseteq> span b m"
  using assms(2-4)
proof (induction n arbitrary: p)
  case 0
  then have "p \<in> covered s" using inv by (simp add: buddy_inv_def span_def)
  then show ?case by (auto simp: covered_def span_def)
next
  case (Suc n)
  have al: "2 ^ n dvd p" "2 ^ n dvd p + 2 ^ n" using Suc.prems(2) by (auto intro: dvd_mult_right)
  have sub: "span p n \<subseteq> free_set s" "span (p + 2 ^ n) n \<subseteq> free_set s"
    using Suc.prems(3) span_halves [of p n] by auto
  obtain b1 m1 where 1: "n \<le> m1" "blk s b1 m1" "span p n \<subseteq> span b1 m1"
    using Suc.IH [OF _ al(1) sub(1)] Suc.prems(1) by auto
  obtain b2 m2 where 2: "n \<le> m2" "blk s b2 m2" "span (p + 2 ^ n) n \<subseteq> span b2 m2"
    using Suc.IH [OF _ al(2) sub(2)] Suc.prems(1) by auto
  have bok: "2 ^ m1 dvd b1" "2 ^ m2 dvd b2" using inv 1(2) 2(2) by (auto simp: inv_defs)
  have whole: "span p (Suc n) \<subseteq> span b m" if "blk s b m" "Suc n \<le> m" "2 ^ m dvd b"
    "q \<in> span p (Suc n)" "q \<in> span b m" for b m q
    using aligned_span_cases [OF Suc.prems(2) that(3,2,4,5)] .
  have in1: "p \<in> span p (Suc n)" "p \<in> span b1 m1" using 1(3) by auto
  have in2: "p + 2 ^ n \<in> span p (Suc n)" "p + 2 ^ n \<in> span b2 m2"
    using 2(3) span_self by (auto simp: span_def [of p])
  consider "Suc n \<le> m1" | "Suc n \<le> m2" | "m1 = n" "m2 = n" using 1(1) 2(1) by linarith
  then show ?case
  proof cases
    case 1
    then show ?thesis using whole [OF \<open>blk s b1 m1\<close> _ bok(1) in1] \<open>blk s b1 m1\<close> by blast
  next
    case 2
    then show ?thesis using whole [OF \<open>blk s b2 m2\<close> _ bok(2) in2] \<open>blk s b2 m2\<close> by blast
  next
    case 3
    have "span b1 n \<subseteq> span p n" and "span b2 n \<subseteq> span (p + 2 ^ n) n"
      using aligned_span_cases [OF _ al(1) le_refl] aligned_span_cases [OF _ al(2) le_refl] bok 3 in1 in2
      by auto
    then have "b1 = p" and "b2 = p + 2 ^ n" using 1(3) 2(3) 3 by (auto simp: span_def)
    then have "blk s (buddy_of b2 n) n" using Suc.prems(2) 1(2) 3 by (simp add: buddy_of_add)
    then have False using inv 2(2) 3 Suc.prems(1) by (auto simp: buddy_inv_def coalesced_def)
    then show ?thesis ..
  qed
qed

lemma alloc_order_success:
  assumes inv: "pmm_inv s" and n: "n \<le> BUDDY_MAX_ORDER" and c: "find_order n s \<le> BUDDY_MAX_ORDER"
  obtains b t where "pmm_alloc_order_unlocked n s = (b * CHIMERA_PAGE_SIZE, t)"
    and "2 ^ n dvd b" and "b + 2 ^ n \<le> s_max_phys_page s" and "span b n \<subseteq> free_set s"
    and "pmm_inv t" and "free_set t = free_set s - span b n" and "s_max_phys_page t = s_max_phys_page s"
    and "\<And>q. vp_ref_count (s_pages t q) = (if q \<in> span b n then 1 else vp_ref_count (s_pages s q))"
proof -
  let ?c = "find_order n s"
  have nc: "n \<le> ?c" by (rule find_order_props)
  have binv: "buddy_inv s {}" and cnt: "s_free_pages s = card (free_set s)"
    using inv by (auto simp: pmm_inv_def)
  obtain b where b: "s_buddy_freelist s ?c = Some b" using find_order_props(3) [OF c] by blast
  have bk: "blk s b ?c" using binv c b by (intro freelist_None(2)) (auto simp: buddy_inv_def)
  then have bok: "2 ^ ?c dvd b" "b + 2 ^ ?c \<le> s_max_phys_page s" using binv by (auto simp: inv_defs)
  have al: "2 ^ n dvd b" using bok(1) nc power_le_dvd by blast
  have "(2::nat) ^ n \<le> 2 ^ ?c" using nc by simp
  then have le: "b + 2 ^ n \<le> s_max_phys_page s" using bok(2) by linarith
  let ?s1 = "buddy_list_remove ?c b s"
  let ?s2 = "split_block b ?c n ?s1"
  let ?s3 = "mark_allocated b n ?s2"
  let ?t = "?s3\<lparr>s_free_pages := s_free_pages ?s3 - 2 ^ n\<rparr>"
  have "buddy_inv ?s1 (span b ?c)" using remove_inv [OF binv bk] by simp
  then have inv2: "buddy_inv ?s2 (span b n)"
    using c bok nc by (intro split_block_inv) (auto simp: remove_fields)
  then have inv3: "buddy_inv ?s3 {}"
    using le by (intro mark_allocated_inv) (auto simp: split_block_fields remove_fields)
  have ph: "vp_phys_page (s_pages ?s2 b) = b"
    using inv2 le by (intro phys_page_base [where n = n]) (auto simp: split_block_fields remove_fields)
  note eq = mark_allocated_eq [OF ph, of n]
  have fields: "s_max_phys_page ?s3 = s_max_phys_page s" "s_free_pages ?s3 = s_free_pages s"
    "\<And>q. vp_ref_count (s_pages ?s3 q) = (if q \<in> span b n then 1 else vp_ref_count (s_pages s q))"
    by (auto simp: eq split_block_fields remove_fields alloc_page_def)
  have sub: "span b n \<subseteq> free_set s"
  proof -
    have "span b n \<subseteq> span b ?c" using \<open>2 ^ n \<le> 2 ^ ?c\<close> by (auto simp: span_def)
    then show ?thesis using blk_covered [OF bk] binv by (auto simp: buddy_inv_def)
  qed
  have fs: "free_set ?t = free_set s - span b n"
    by (auto simp: free_set_def fields split: if_splits)
  have "card (free_set s - span b n) = card (free_set s) - 2 ^ n"
    using sub by (subst card_Diff_subset) (auto simp: span_def)
  then have "pmm_inv ?t"
    using inv3 fs cnt fields(2)
    by (auto simp: pmm_inv_def inv_defs free_set_def covered_def blk_def)
  moreover have "pmm_alloc_order_unlocked n s = (b * CHIMERA_PAGE_SIZE, ?t)"
    using n c b ph by (simp add: pmm_alloc_order_unlocked_def Let_def push_bit_eq_mult eq alloc_page_def)
  ultimately show ?thesis using that [of b ?t] al le sub fs fields by simp
qed

lemma alloc_order_failure:
  assumes "n > BUDDY_MAX_ORDER \<or> find_order n s > BUDDY_MAX_ORDER"
  shows "pmm_alloc_order_unlocked n s = (PADDR_INVALID, s)"
  using assms by (auto simp: pmm_alloc_order_unlocked_def Let_def)

lemma find_order_fails_iff:
  assumes "buddy_inv s {}" and n: "n \<le> BUDDY_MAX_ORDER"
  shows "find_order n s > BUDDY_MAX_ORDER \<longleftrightarrow> \<not> (\<exists>p. 2 ^ n dvd p \<and> span p n \<subseteq> free_set s)"
proof
  assume f: "find_order n s > BUDDY_MAX_ORDER"
  have ok: "lists_ok s" using assms by (simp add: buddy_inv_def)
  show "\<not> (\<exists>p. 2 ^ n dvd p \<and> span p n \<subseteq> free_set s)"
  proof
    assume "\<exists>p. 2 ^ n dvd p \<and> span p n \<subseteq> free_set s"
    then obtain p where "2 ^ n dvd p" and "span p n \<subseteq> free_set s" by auto
    from free_run_in_block [OF assms this] obtain b m where m: "n \<le> m" "blk s b m" by auto
    then have mm: "m \<le> BUDDY_MAX_ORDER" using assms by (auto simp: inv_defs)
    then have "s_buddy_freelist s m = None" using f m(1) find_order_props(2) [of n m s] by simp
    with freelist_None(1) [OF ok mm] m(2) show False by blast
  qed
next
  assume no: "\<not> (\<exists>p. 2 ^ n dvd p \<and> span p n \<subseteq> free_set s)"
  show "find_order n s > BUDDY_MAX_ORDER"
  proof (rule ccontr)
    assume c: "\<not> find_order n s > BUDDY_MAX_ORDER"
    have le: "n \<le> find_order n s" by (rule find_order_props)
    obtain b where b: "s_buddy_freelist s (find_order n s) = Some b"
      using find_order_props(3) [of n s] c by auto
    then have bk: "blk s b (find_order n s)"
      using assms c by (intro freelist_None(2)) (auto simp: buddy_inv_def)
    have "2 ^ find_order n s dvd b" using bk assms by (auto simp: inv_defs)
    then have "2 ^ n dvd b" using le power_le_dvd by blast
    moreover have "span b n \<subseteq> span b (find_order n s)"
      using power_increasing [OF le, of "2::nat"] by (auto simp: span_def)
    ultimately show False
      using no blk_covered [OF bk] assms unfolding buddy_inv_def by (metis subset_trans sup_bot_right)
  qed
qed


section \<open>Reference counting\<close>

lemma release_page_eq:
  assumes inv: "pmm_inv s" and idx: "addr div CHIMERA_PAGE_SIZE = p" and p: "p < s_max_phys_page s"
  shows "pmm_inv (pmm_release_page addr s)"
    and "vp_ref_count (s_pages (pmm_release_page addr s) q) =
          (if q = p then vp_ref_count (s_pages s p) - 1 else vp_ref_count (s_pages s q))"
    and "free_set (pmm_release_page addr s) =
          (if vp_ref_count (s_pages s p) = 1 then insert p (free_set s) else free_set s)"
    and "s_max_phys_page (pmm_release_page addr s) = s_max_phys_page s"
proof -
  let ?t = "pmm_release_page addr s"
  let ?r = "vp_ref_count (s_pages s p)"
  have p32: "p mod 2 ^ 32 = p" using inv p by (simp add: pmm_inv_def buddy_inv_def pages_ok_def)
  let ?f = "\<lambda>q. q\<lparr>vp_ref_count := 0, vp_wire_count := 0, vp_flags := 0\<rparr>"
  consider "?r = 0" | "?r = 1" | "?r > 1" by linarith
  then have "pmm_inv ?t \<and> (\<forall>q. vp_ref_count (s_pages ?t q) = (if q = p then ?r - 1 else vp_ref_count (s_pages s q)))
    \<and> free_set ?t = (if ?r = 1 then insert p (free_set s) else free_set s)
    \<and> s_max_phys_page ?t = s_max_phys_page s"
  proof cases
    case 1
    then have "?t = s" using p by (simp add: pmm_release_page_def idx Let_def)
    with inv 1 show ?thesis by auto
  next
    case 2
    let ?u = "buddy_free_block p 0 (upd_page p ?f s)"
    have t: "?t = ?u\<lparr>s_free_pages := s_free_pages ?u + 1\<rparr>"
      using 2 p p32 by (simp add: pmm_release_page_def idx Let_def upd_page_def)
    have "pmm_inv ?t" "free_set ?u = insert p (free_set s)"
      using free_page_inv [OF inv p, where f = ?f and w = 0 and g = "\<lambda>_. 0"] 2 t by auto
    then show ?thesis
      using 2 unfolding t by (auto simp: buddy_free_block_fields upd_page_def free_set_def)
  next
    case 3
    then have t: "?t = upd_page p (\<lambda>q. q\<lparr>vp_ref_count := vp_ref_count q - 1\<rparr>) s"
      using p by (auto simp: pmm_release_page_def idx Let_def upd_page_def)
    have fs: "free_set ?t = free_set s" using 3 by (auto simp: t upd_page_def free_set_def)
    have bk: "blk ?t q n \<longleftrightarrow> blk s q n" for q n by (auto simp: t blk_def upd_page_def)
    have "nx ?t = nx s" "pv ?t = pv s" "s_buddy_freelist ?t = s_buddy_freelist s"
      "s_max_phys_page ?t = s_max_phys_page s" "s_free_pages ?t = s_free_pages s"
      "\<And>q. vp_phys_page (s_pages ?t q) = vp_phys_page (s_pages s q)"
      by (auto simp: t upd_page_def fun_eq_iff)
    with inv fs have "pmm_inv ?t" unfolding pmm_inv_def inv_defs covered_def bk by simp
    with 3 fs show ?thesis by (auto simp: t upd_page_def)
  qed
  then show "pmm_inv ?t" "vp_ref_count (s_pages ?t q) = (if q = p then ?r - 1 else vp_ref_count (s_pages s q))"
    "free_set ?t = (if ?r = 1 then insert p (free_set s) else free_set s)"
    "s_max_phys_page ?t = s_max_phys_page s" by auto
qed

lemma retain_page_eq:
  assumes inv: "pmm_inv s" and idx: "addr div CHIMERA_PAGE_SIZE = p" and p: "p < s_max_phys_page s"
    and r: "vp_ref_count (s_pages s p) \<noteq> 0"
  shows "pmm_inv (pmm_retain_page addr s)"
    and "free_set (pmm_retain_page addr s) = free_set s"
    and "vp_ref_count (s_pages (pmm_retain_page addr s) q) =
          (if q = p \<and> vp_ref_count (s_pages s p) < 65535 then vp_ref_count (s_pages s p) + 1
           else vp_ref_count (s_pages s q))"
proof -
  let ?t = "pmm_retain_page addr s"
  have refs: "vp_ref_count (s_pages ?t q) = (if q = p \<and> vp_ref_count (s_pages s p) < 65535
      then vp_ref_count (s_pages s p) + 1 else vp_ref_count (s_pages s q))" for q
    using p by (auto simp: pmm_retain_page_def idx Let_def upd_page_def)
  have mx: "s_max_phys_page ?t = s_max_phys_page s"
    by (auto simp: pmm_retain_page_def Let_def upd_page_def)
  have fs: "free_set ?t = free_set s" using r by (auto simp: free_set_def refs mx)
  have bk: "blk ?t q n \<longleftrightarrow> blk s q n" for q n
    by (auto simp: blk_def pmm_retain_page_def Let_def upd_page_def)
  have "nx ?t = nx s" "pv ?t = pv s" "s_buddy_freelist ?t = s_buddy_freelist s"
    "s_free_pages ?t = s_free_pages s"
    "\<And>q. vp_phys_page (s_pages ?t q) = vp_phys_page (s_pages s q)"
    by (auto simp: pmm_retain_page_def Let_def upd_page_def fun_eq_iff)
  with inv fs mx show "pmm_inv ?t" unfolding pmm_inv_def inv_defs covered_def bk by simp
  show "free_set ?t = free_set s" by (rule fs)
  show "vp_ref_count (s_pages ?t q) = (if q = p \<and> vp_ref_count (s_pages s p) < 65535
      then vp_ref_count (s_pages s p) + 1 else vp_ref_count (s_pages s q))" by (rule refs)
qed


section \<open>The contract with the rest of the kernel\<close>

lemma page_size_simps [simp]: "CHIMERA_PAGE_SIZE = 4096"
  by (simp add: CHIMERA_PAGE_SIZE_def)

lemma addr_not_invalid: "b * CHIMERA_PAGE_SIZE \<noteq> PADDR_INVALID"
proof
  assume eq: "b * CHIMERA_PAGE_SIZE = PADDR_INVALID"
  have "even (b * CHIMERA_PAGE_SIZE)" by simp
  moreover have "odd PADDR_INVALID" by (simp add: PADDR_INVALID_def)
  ultimately show False using eq by metis
qed

lemma alloc_page_cases:
  assumes inv: "pmm_inv s"
  obtains (fail) "pmm_alloc_page s = (0, s)"
  | (ok) b t where "pmm_alloc_page s = (b * CHIMERA_PAGE_SIZE, t)" and "b \<in> free_set s" and "pmm_inv t"
      and "s_max_phys_page t = s_max_phys_page s"
      and "\<And>q. vp_ref_count (s_pages t q) = (if q = b then 1 else vp_ref_count (s_pages s q))"
proof (cases "find_order 0 s \<le> BUDDY_MAX_ORDER")
  case True
  have span0: "\<And>b. span b 0 = {b}" by (auto simp: span_def)
  obtain b t where "pmm_alloc_order_unlocked 0 s = (b * CHIMERA_PAGE_SIZE, t)" "span b 0 \<subseteq> free_set s"
    "pmm_inv t" "s_max_phys_page t = s_max_phys_page s"
    "\<And>q. vp_ref_count (s_pages t q) = (if q \<in> span b 0 then 1 else vp_ref_count (s_pages s q))"
    using alloc_order_success [OF inv le0 True] by metis
  then show ?thesis using ok [of b t] addr_not_invalid [of b]
    by (auto simp: pmm_alloc_page_def span0)
next
  case False
  then have "pmm_alloc_order_unlocked 0 s = (PADDR_INVALID, s)" by (intro alloc_order_failure) auto
  then show ?thesis using fail by (simp add: pmm_alloc_page_def)
qed

abbreviation ref_counts :: "pmm \<Rightarrow> nat \<Rightarrow> nat" where
  "ref_counts s p \<equiv> vp_ref_count (s_pages s p)"

lemma release_out_of_range: "\<not> page_idx a < s_max_phys_page s \<Longrightarrow> pmm_release_page a s = s"
  by (simp add: pmm_release_page_def page_idx_def)

interpretation pmm: page_allocator pmm_alloc_page pmm_retain_page pmm_release_page ref_counts
  s_max_phys_page pmm_inv
proof
  fix s :: pmm and a q
  assume inv: "pmm_inv s"
  show "pmm_inv (snd (pmm_alloc_page s))"
    "s_max_phys_page (snd (pmm_alloc_page s)) = s_max_phys_page s"
    "CHIMERA_PAGE_SIZE dvd fst (pmm_alloc_page s)"
    by (rule alloc_page_cases [OF inv]; use inv in auto)+
  show "fst (pmm_alloc_page s) \<noteq> 0 \<Longrightarrow> page_idx (fst (pmm_alloc_page s)) < s_max_phys_page s"
    "fst (pmm_alloc_page s) \<noteq> 0 \<Longrightarrow> ref_counts s (page_idx (fst (pmm_alloc_page s))) = 0"
    "fst (pmm_alloc_page s) \<noteq> 0 \<Longrightarrow> ref_counts (snd (pmm_alloc_page s)) q =
       (if q = page_idx (fst (pmm_alloc_page s)) then 1 else ref_counts s q)"
    by (rule alloc_page_cases [OF inv]; auto simp: page_idx_def free_set_def)+
  show "pmm_inv (pmm_release_page a s)" "s_max_phys_page (pmm_release_page a s) = s_max_phys_page s"
    using release_page_eq(1,4) [OF inv refl, of a] release_out_of_range [of a s] inv
    by (cases "page_idx a < s_max_phys_page s"; simp add: page_idx_def)+
  show "page_idx a < s_max_phys_page s \<Longrightarrow> ref_counts (pmm_release_page a s) q =
      (if q = page_idx a then ref_counts s q - 1 else ref_counts s q)"
    using release_page_eq(2) [OF inv refl, of a q] by (simp add: page_idx_def)
  show "page_idx a < s_max_phys_page s \<Longrightarrow> ref_counts s (page_idx a) \<noteq> 0 \<Longrightarrow> pmm_inv (pmm_retain_page a s)"
    using retain_page_eq(1) [OF inv refl, of a] by (simp add: page_idx_def)
  show "s_max_phys_page (pmm_retain_page a s) = s_max_phys_page s"
    by (simp add: pmm_retain_page_def upd_page_def Let_def)
  show "page_idx a < s_max_phys_page s \<Longrightarrow> ref_counts s (page_idx a) < 65535 \<Longrightarrow>
      ref_counts (pmm_retain_page a s) q = (if q = page_idx a then ref_counts s q + 1 else ref_counts s q)"
    by (auto simp: pmm_retain_page_def upd_page_def Let_def page_idx_def)
qed

end
