(* ===== verification/Pmm_Props.thy ===== *)
theory Pmm_Props
  imports Pmm_Correct
begin

text \<open>
  The properties of the physical memory manager: what \<open>pmm_init\<close> builds from the
  boot memory map, soundness and completeness of allocation, reference counting,
  and what a contiguous allocation gives back when it is freed.
\<close>

section \<open>Initialisation\<close>

definition entry_pages :: "nat \<Rightarrow> memmap_entry \<Rightarrow> nat list" where
  "entry_pages max_page e =
     (case entry_page_range max_page e of None \<Rightarrow> [] | Some (a, b) \<Rightarrow> [a..<b])"

definition usable_pages :: "nat \<Rightarrow> memmap_entry list \<Rightarrow> nat list" where
  "usable_pages max_page es = concat (map (entry_pages max_page) es)"

lemma populate_entry_eq:
  "populate_entry a b e s = fold (free_one_page a b) (entry_pages (s_max_phys_page s) e) s"
  by (auto simp: populate_entry_def entry_pages_def split: option.splits)

lemma entry_pages_bound: "p \<in> set (entry_pages m e) \<Longrightarrow> p < m"
  by (auto simp: entry_pages_def entry_page_range_def Let_def split: if_splits)

lemma free_one_page_max: "s_max_phys_page (free_one_page a b p s) = s_max_phys_page s"
  by (simp add: free_one_page_def Let_def buddy_free_block_fields upd_page_def)

lemma fold_free_max: "s_max_phys_page (fold (free_one_page a b) ps s) = s_max_phys_page s"
  by (induction ps arbitrary: s) (simp_all add: free_one_page_max)

lemma populate_all_eq:
  "fold (populate_entry a b) es s = fold (free_one_page a b) (usable_pages (s_max_phys_page s) es) s"
  by (induction es arbitrary: s) (simp_all add: usable_pages_def populate_entry_eq fold_free_max)

lemma free_one_page_inv:
  assumes inv: "pmm_inv s" and p: "p < s_max_phys_page s" and nf: "p \<notin> free_set s"
  shows "pmm_inv (free_one_page a b p s)"
    and "free_set (free_one_page a b p s) = free_set s \<union> ({p} - {a..<b})"
proof -
  let ?f = "\<lambda>q. q\<lparr>vp_ref_count := 0, vp_wire_count := 0\<rparr>"
  let ?u = "buddy_free_block p 0 (upd_page p ?f s)"
  have r: "vp_ref_count (s_pages s p) \<noteq> 0" using nf p by (simp add: free_set_def)
  have "\<not> blk s p (vp_order (s_pages s p))" using blk_ref0 r inv by (auto simp: pmm_inv_def)
  then have fl: "vp_flags (s_pages s p) AND VM_PAGE_FREE = 0" using p by (simp add: blk_def)
  have f: "?f q = q\<lparr>vp_ref_count := 0, vp_wire_count := 0, vp_flags := vp_flags q\<rparr>" for q by simp
  note one = free_page_inv [OF inv p r, where f = ?f and w = 0 and g = vp_flags, OF f fl]
  have p32: "p mod 2 ^ 32 = p" using inv p by (simp add: pmm_inv_def buddy_inv_def pages_ok_def)
  show "pmm_inv (free_one_page a b p s)"
    using one(1) inv p32 by (simp add: free_one_page_def Let_def)
  have "free_set (?u\<lparr>s_free_pages := s_free_pages ?u + 1\<rparr>) = free_set ?u" by (simp add: free_set_def)
  then show "free_set (free_one_page a b p s) = free_set s \<union> ({p} - {a..<b})"
    using one(2) p32 by (auto simp: free_one_page_def Let_def)
qed

lemma fold_free_inv:
  assumes "pmm_inv s" and "distinct ps" and "\<And>p. p \<in> set ps \<Longrightarrow> p < s_max_phys_page s \<and> p \<notin> free_set s"
  shows "pmm_inv (fold (free_one_page a b) ps s) \<and>
    free_set (fold (free_one_page a b) ps s) = free_set s \<union> (set ps - {a..<b})"
  using assms
proof (induction ps arbitrary: s)
  case (Cons p ps)
  let ?t = "free_one_page a b p s"
  have "pmm_inv ?t" and "free_set ?t = free_set s \<union> ({p} - {a..<b})"
    using free_one_page_inv [of s p a b] Cons.prems by auto
  moreover have "q < s_max_phys_page ?t \<and> q \<notin> free_set ?t" if "q \<in> set ps" for q
    using Cons.prems that calculation(2) by (auto simp: free_one_page_max)
  ultimately show ?case using Cons.IH [of ?t] Cons.prems(2) by auto
qed simp

text \<open>The state after the descriptor loop: nothing is free.\<close>

lemma all_wired_inv:
  assumes "s_max_phys_page s < 2 ^ 32" and "\<And>n. n \<le> BUDDY_MAX_ORDER \<Longrightarrow> s_buddy_freelist s n = None"
    and "\<And>p. p < s_max_phys_page s \<Longrightarrow> s_pages s p = wired_page p" and "s_free_pages s = 0"
  shows "pmm_inv s" and "free_set s = {}"
proof -
  have nb: "\<not> blk s p n" for p n
    using assms(3) by (auto simp: blk_def wired_page_def VM_PAGE_WIRED_def VM_PAGE_FREE_def)
  then have cov: "covered s = {}" by (simp add: covered_def)
  show fs: "free_set s = {}" using assms(3) by (auto simp: free_set_def wired_page_def)
  have "lists_ok s" using assms(2) nb by (auto simp: lists_ok_def intro!: exI [of _ "[]"])
  moreover have "pages_ok s" using assms(1,3) by (auto simp: pages_ok_def wired_page_def)
  ultimately show "pmm_inv s"
    using nb cov fs assms(4) by (auto simp: pmm_inv_def buddy_inv_def blocks_ok_def
        blocks_disjoint_def coalesced_def)
qed

text \<open>The pages the descriptor array occupies.\<close>

definition boot_max_page :: "memmap_entry list \<Rightarrow> nat" where
  "boot_max_page es = unat (fst (scan_memmap es 0 0) div 4096)"

definition boot_array_pages :: "memmap_entry list \<Rightarrow> nat set" where
  "boot_array_pages es =
     (let m = boot_max_page es; a = array_paddr m es
      in {unat (a div 4096)..<unat (a div 4096 + page_array_pages m)})"



definition demo_map :: "memmap_entry list" where
  "demo_map = [\<lparr>me_base = 0x100000, me_length = 0x108000, me_type = CHIMERA_MEM_USABLE\<rparr>]"

definition demo0 :: pmm where
  "demo0 = \<lparr>s_pages = wired_page, s_buddy_freelist = (\<lambda>_. None), s_max_phys_page = 8,
     s_total_ram_pages = 8, s_free_pages = 0\<rparr>"

definition demo_pmm :: pmm where
  "demo_pmm = fold (free_one_page 0 0) [4, 5, 6, 7] demo0"

lemma span_4_2: "{4..<4 + 2 ^ 2} = {4, 5, 6, 7::nat}" "{4..<4 + 2 ^ 1} = {4, 5::nat}"
  by (simp_all add: atLeastLessThan_nat_numeral insert_commute)

lemma demo_pmm_inv: "pmm_inv demo_pmm" "free_set demo_pmm = {4, 5, 6, 7}" "s_max_phys_page demo_pmm = 8"
proof -
  have w: "pmm_inv demo0" "free_set demo0 = {}" by (rule all_wired_inv; simp add: demo0_def)+
  have "distinct [4, 5, 6, 7::nat]" by simp
  then have "pmm_inv demo_pmm \<and> free_set demo_pmm = free_set demo0 \<union> (set [4, 5, 6, 7] - {0..<0})"
    unfolding demo_pmm_def using w by (intro fold_free_inv) (auto simp: demo0_def)
  with w(2) have "pmm_inv demo_pmm \<and> free_set demo_pmm = set [4, 5, 6, 7]" by simp
  then show "pmm_inv demo_pmm" "free_set demo_pmm = {4, 5, 6, 7}" by simp_all
  show "s_max_phys_page demo_pmm = 8" by (simp only: demo_pmm_def fold_free_max) (simp add: demo0_def)
qed


section \<open>Allocation\<close>

text \<open>C2 Soundness of allocation. A successful allocation of order \<open>n\<close> returns a
  naturally aligned run of \<open>2 ^ n\<close> pages inside physical memory that were all free;
  afterwards exactly these pages have left the free set, each with reference count
  1, no other count has changed, and the invariant holds again.\<close>
theorem pmm_alloc_order_sound:
  assumes "pmm_inv s" and "pmm_alloc_order_unlocked n s = (addr, t)" and "addr \<noteq> PADDR_INVALID"
  shows "\<exists>b. addr = b * CHIMERA_PAGE_SIZE \<and> 2 ^ n dvd b \<and> b + 2 ^ n \<le> s_max_phys_page s
    \<and> {b..<b + 2 ^ n} \<subseteq> free_set s \<and> free_set t = free_set s - {b..<b + 2 ^ n}
    \<and> (\<forall>q. vp_ref_count (s_pages t q) = (if q \<in> {b..<b + 2 ^ n} then 1 else vp_ref_count (s_pages s q)))
    \<and> pmm_inv t"
proof -
  have n: "n \<le> BUDDY_MAX_ORDER" and f: "find_order n s \<le> BUDDY_MAX_ORDER"
    using assms(2,3) alloc_order_failure [of n s] not_le by fastforce+
  show ?thesis
  proof (rule alloc_order_success [OF assms(1) n f])
    fix b u
    assume "pmm_alloc_order_unlocked n s = (b * CHIMERA_PAGE_SIZE, u)"
    then have "addr = b * CHIMERA_PAGE_SIZE" and "u = t" using assms(2) by simp_all
    moreover assume "2 ^ n dvd b" and "b + 2 ^ n \<le> s_max_phys_page s" and "span b n \<subseteq> free_set s"
      and "pmm_inv u" and "free_set u = free_set s - span b n"
      and "\<And>q. vp_ref_count (s_pages u q) = (if q \<in> span b n then 1 else vp_ref_count (s_pages s q))"
    ultimately show ?thesis by (intro exI [of _ b]) (simp flip: span_def)
  qed
qed

lemma alloc_order_addr:
  assumes "pmm_inv s" and "n \<le> BUDDY_MAX_ORDER" and "find_order n s \<le> BUDDY_MAX_ORDER"
  shows "fst (pmm_alloc_order_unlocked n s) \<noteq> PADDR_INVALID"
  by (rule alloc_order_success [OF assms]) (simp only: fst_conv addr_not_invalid, simp)

lemma demo_alloc_ok: "fst (pmm_alloc_order_unlocked 1 demo_pmm) \<noteq> PADDR_INVALID"
proof -
  have "2 ^ 1 dvd (4::nat) \<and> span 4 1 \<subseteq> free_set demo_pmm"
    unfolding demo_pmm_inv(2) span_def span_4_2 by simp
  then have f: "find_order 1 demo_pmm \<le> BUDDY_MAX_ORDER"
    using find_order_fails_iff [of demo_pmm 1] demo_pmm_inv(1)
    by (auto simp: pmm_inv_def BUDDY_MAX_ORDER_def not_less)
  have "1 \<le> BUDDY_MAX_ORDER" by (simp add: BUDDY_MAX_ORDER_def)
  from alloc_order_addr [OF demo_pmm_inv(1) this f] show ?thesis .
qed

theorem pmm_alloc_order_sound_witness:
  "\<exists>addr t b. pmm_alloc_order_unlocked 1 demo_pmm = (addr, t) \<and> addr = b * CHIMERA_PAGE_SIZE
     \<and> {b..<b + 2} \<subseteq> {4, 5, 6, 7} \<and> free_set t = {4, 5, 6, 7} - {b..<b + 2} \<and> pmm_inv t"
proof -
  obtain addr t where a: "pmm_alloc_order_unlocked 1 demo_pmm = (addr, t)" by (rule prod.exhaust)
  with demo_alloc_ok have "addr \<noteq> PADDR_INVALID" by simp
  from pmm_alloc_order_sound [OF demo_pmm_inv(1) a this] a show ?thesis
    unfolding demo_pmm_inv(2) by auto
qed

text \<open>Completeness of allocation. Because buddies are always merged, a request of
  order \<open>n \<le> 14\<close> is refused exactly when no naturally aligned run of \<open>2 ^ n\<close> free
  pages exists, and a refusal leaves the allocator as it was.\<close>
theorem pmm_alloc_order_complete:
  assumes "pmm_inv s" and "n \<le> BUDDY_MAX_ORDER"
  shows "(fst (pmm_alloc_order_unlocked n s) = PADDR_INVALID \<longleftrightarrow>
      \<not> (\<exists>p. 2 ^ n dvd p \<and> {p..<p + 2 ^ n} \<subseteq> free_set s))
    \<and> (fst (pmm_alloc_order_unlocked n s) = PADDR_INVALID \<longrightarrow> snd (pmm_alloc_order_unlocked n s) = s)"
proof -
  have binv: "buddy_inv s {}" using assms(1) by (simp add: pmm_inv_def)
  note iff = find_order_fails_iff [OF binv assms(2), unfolded span_def]
  show ?thesis
  proof (cases "find_order n s > BUDDY_MAX_ORDER")
    case True
    then have "pmm_alloc_order_unlocked n s = (PADDR_INVALID, s)" by (intro alloc_order_failure) simp
    with True iff show ?thesis by simp
  next
    case False
    then have "find_order n s \<le> BUDDY_MAX_ORDER" by simp
    then have "fst (pmm_alloc_order_unlocked n s) \<noteq> PADDR_INVALID" by (rule alloc_order_addr [OF assms])
    with False iff show ?thesis by simp
  qed
qed

theorem pmm_alloc_order_complete_witness:
  "fst (pmm_alloc_order_unlocked 2 demo_pmm) \<noteq> PADDR_INVALID
   \<and> fst (pmm_alloc_order_unlocked 3 demo_pmm) = PADDR_INVALID"
proof -
  have le2: "2 \<le> BUDDY_MAX_ORDER" by (simp add: BUDDY_MAX_ORDER_def)
  have "2 ^ 2 dvd (4::nat) \<and> {4..<4 + 2 ^ 2} \<subseteq> free_set demo_pmm"
    unfolding demo_pmm_inv(2) span_4_2 by simp
  then have "fst (pmm_alloc_order_unlocked 2 demo_pmm) \<noteq> PADDR_INVALID"
    using pmm_alloc_order_complete [OF demo_pmm_inv(1) le2] by blast
  moreover have "\<not> {p..<p + 2 ^ 3} \<subseteq> free_set demo_pmm" for p
  proof
    assume "{p..<p + 2 ^ 3} \<subseteq> free_set demo_pmm"
    then have "card {p..<p + 2 ^ 3} \<le> card {4, 5, 6, 7::nat}"
      unfolding demo_pmm_inv(2) by (rule card_mono [rotated]) simp
    then show False by simp
  qed
  ultimately show ?thesis
    using pmm_alloc_order_complete [OF demo_pmm_inv(1), of 3] by (auto simp: BUDDY_MAX_ORDER_def)
qed


section \<open>Reference counts\<close>

text \<open>C3 Reference counting. Releasing a page inside physical memory lowers its count by
  one (a page with count 0 is left alone), changes no other count, and puts the page
  back among the free pages exactly when its count was 1; the invariant is kept, so
  the free counter always equals the number of pages with count 0.\<close>
theorem pmm_release_page_correct:
  assumes "pmm_inv s" and "addr div CHIMERA_PAGE_SIZE < s_max_phys_page s"
  shows "pmm_inv (pmm_release_page addr s)
    \<and> pmm_free_pages (pmm_release_page addr s) = card (free_set (pmm_release_page addr s))
    \<and> (\<forall>a. pmm_get_refcount a (pmm_release_page addr s) =
        (if a div CHIMERA_PAGE_SIZE = addr div CHIMERA_PAGE_SIZE then pmm_get_refcount a s - 1
         else pmm_get_refcount a s))
    \<and> free_set (pmm_release_page addr s) =
        (if pmm_get_refcount addr s = 1 then insert (addr div CHIMERA_PAGE_SIZE) (free_set s)
         else free_set s)"
  using release_page_eq [OF assms(1) refl assms(2)] assms(2)
  by (auto simp: pmm_free_pages_def pmm_get_refcount_def Let_def pmm_inv_def)

theorem pmm_release_page_correct_witness:
  "pmm_inv (pmm_release_page 4096 demo_pmm) \<and>
   pmm_get_refcount 8192 (pmm_release_page 4096 demo_pmm) = pmm_get_refcount 8192 demo_pmm"
  using pmm_release_page_correct [OF demo_pmm_inv(1), of 4096] demo_pmm_inv(3) by simp

section \<open>Contiguous runs\<close>

lemma order_for_props:
  "order_for count n = Some m \<Longrightarrow> n \<le> m \<and> count \<le> 2 ^ m \<and> (n < m \<longrightarrow> 2 ^ (m - 1) < count)
     \<and> (n \<le> BUDDY_MAX_ORDER \<longrightarrow> m \<le> BUDDY_MAX_ORDER)"
proof (induction count n rule: order_for.induct)
  case (1 count n)
  show ?case
  proof (cases "(2::nat) ^ n < count")
    case False
    then have "m = n" using "1.prems" order_for.simps [of count n] by (simp add: push_bit_eq_mult)
    with False show ?thesis by simp
  next
    case True
    then have nm: "\<not> BUDDY_MAX_ORDER < Suc n" and r: "order_for count (Suc n) = Some m"
      using "1.prems" order_for.simps [of count n] by (auto simp: push_bit_eq_mult split: if_splits)
    have "Suc n \<le> m \<and> count \<le> 2 ^ m \<and> (Suc n < m \<longrightarrow> 2 ^ (m - 1) < count)
        \<and> (Suc n \<le> BUDDY_MAX_ORDER \<longrightarrow> m \<le> BUDDY_MAX_ORDER)"
      using "1.IH" True nm r by (simp add: push_bit_eq_mult)
    moreover have "Suc n = m \<Longrightarrow> 2 ^ (m - 1) < count" using True by auto
    ultimately show ?thesis using nm by (cases "Suc n = m") auto
  qed
qed

lemma release_run:
  assumes "pmm_inv t" and "b + k \<le> s_max_phys_page t" and "\<And>i. i < k \<Longrightarrow> vp_ref_count (s_pages t (b + i)) = 1"
  defines "u \<equiv> fold (\<lambda>i. pmm_release_page ((b * CHIMERA_PAGE_SIZE + i * CHIMERA_PAGE_SIZE) mod 2 ^ 64)) [0..<k] t"
  shows "pmm_inv u \<and> free_set u = free_set t \<union> {b..<b + k} \<and> s_max_phys_page u = s_max_phys_page t
    \<and> (\<forall>q. q \<notin> {b..<b + k} \<longrightarrow> vp_ref_count (s_pages u q) = vp_ref_count (s_pages t q))"
  unfolding u_def using assms(2,3)
proof (induction k)
  case 0
  then show ?case using assms(1) by simp
next
  case (Suc k)
  let ?a = "(b * CHIMERA_PAGE_SIZE + k * CHIMERA_PAGE_SIZE) mod 2 ^ 64"
  let ?v = "fold (\<lambda>i. pmm_release_page ((b * CHIMERA_PAGE_SIZE + i * CHIMERA_PAGE_SIZE) mod 2 ^ 64)) [0..<k] t"
  have IH: "pmm_inv ?v" "free_set ?v = free_set t \<union> {b..<b + k}" "s_max_phys_page ?v = s_max_phys_page t"
    "\<And>q. q \<notin> {b..<b + k} \<Longrightarrow> vp_ref_count (s_pages ?v q) = vp_ref_count (s_pages t q)"
    using Suc by auto
  have "b + k < 2 ^ 32" using Suc.prems(1) assms(1) by (simp add: pmm_inv_def buddy_inv_def pages_ok_def)
  then have small: "(b + k) * 4096 < 2 ^ 64" by simp
  have "b * CHIMERA_PAGE_SIZE + k * CHIMERA_PAGE_SIZE = (b + k) * 4096" by simp
  then have idx: "?a div CHIMERA_PAGE_SIZE = b + k" by (simp only: mod_less [OF small]) simp
  have lt: "b + k < s_max_phys_page ?v" using Suc.prems(1) IH(3) by simp
  have one: "vp_ref_count (s_pages ?v (b + k)) = 1" using IH(4) [of "b + k"] Suc.prems(2) [of k] by simp
  note r = release_page_eq [OF IH(1) idx lt]
  have "free_set (pmm_release_page ?a ?v) = free_set t \<union> {b..<b + Suc k}"
    using r(3) one IH(2) by auto
  then show ?case
    using r(1,2,4) IH(3,4) unfolding upt_Suc_append [OF le0] fold_append comp_def by auto
qed

text \<open>Contiguous allocation and its release. \<^verbatim>\<open>pmm_alloc_pages(count)\<close> takes a
  block of the least power of two \<open>2 ^ n \<ge> count\<close>; \<^verbatim>\<open>pmm_free_contiguous\<close> with the same
  count gives back only the first \<open>count\<close> pages. The round trip loses the
  \<open>2 ^ n - count\<close> pages at the end of the block, so it is the identity on the free
  set exactly when the count is a power of two.\<close>
theorem pmm_contiguous_round_trip:
  assumes "pmm_inv s" and "count > 1" and "order_for count 0 = Some n"
    and "pmm_alloc_pages count s = (addr, t)" and "addr \<noteq> PADDR_INVALID" and "addr \<noteq> 0"
  shows "count \<le> 2 ^ n \<and> 2 ^ n < 2 * count \<and> pmm_inv (pmm_free_contiguous addr count t)
    \<and> (\<exists>b. addr = b * CHIMERA_PAGE_SIZE
        \<and> free_set (pmm_free_contiguous addr count t) = free_set s - {b + count..<b + 2 ^ n}
        \<and> (free_set (pmm_free_contiguous addr count t) = free_set s \<longleftrightarrow> count = 2 ^ n))"
proof -
  have alloc: "pmm_alloc_order_unlocked n s = (addr, t)" using assms(2-4) by (simp add: pmm_alloc_pages_def)
  have n: "n \<le> BUDDY_MAX_ORDER" "count \<le> 2 ^ n" "2 ^ n < 2 * count"
    using order_for_props [OF assms(3)] assms(2) by (cases n; auto)+
  have f: "find_order n s \<le> BUDDY_MAX_ORDER"
    using alloc assms(5) alloc_order_failure [of n s] not_le by fastforce
  show ?thesis
  proof (rule alloc_order_success [OF assms(1) n(1) f])
    fix b u
    assume "pmm_alloc_order_unlocked n s = (b * CHIMERA_PAGE_SIZE, u)"
    then have ad: "addr = b * CHIMERA_PAGE_SIZE" and [simp]: "u = t" using alloc by simp_all
    assume *: "b + 2 ^ n \<le> s_max_phys_page s" "span b n \<subseteq> free_set s" "pmm_inv u"
      "free_set u = free_set s - span b n" "s_max_phys_page u = s_max_phys_page s"
      "\<And>q. vp_ref_count (s_pages u q) = (if q \<in> span b n then 1 else vp_ref_count (s_pages s q))"
    let ?u = "pmm_free_contiguous addr count t"
    have u: "pmm_inv ?u \<and> free_set ?u = free_set t \<union> {b..<b + count}"
      using release_run [of t b count] * n(2) assms(2,5,6) by (auto simp: pmm_free_contiguous_def ad span_def)
    have sub: "{b..<b + 2 ^ n} \<subseteq> free_set s" using *(2) by (simp add: span_def)
    have "(free_set s - {b..<b + 2 ^ n}) \<union> {b..<b + count} = free_set s - {b + count..<b + 2 ^ n}"
    proof -
      have "{b..<b + count} \<subseteq> free_set s" using sub n(2) by fastforce
      moreover have "{b..<b + 2 ^ n} = {b..<b + count} \<union> {b + count..<b + 2 ^ n}"
        using n(2) by (simp add: ivl_disj_un)
      ultimately show ?thesis by fastforce
    qed
    then have fs: "free_set ?u = free_set s - {b + count..<b + 2 ^ n}"
      using u *(4) by (simp add: span_def)
    moreover have "free_set ?u = free_set s \<longleftrightarrow> count = 2 ^ n"
      proof
      assume eq: "free_set ?u = free_set s"
      show "count = 2 ^ n"
      proof (rule ccontr)
        assume "count \<noteq> 2 ^ n"
        then have last: "b + count \<in> {b + count..<b + 2 ^ n}" using n(2) by simp
        then have "b + count \<in> free_set s" using sub by auto
        with last eq fs show False by blast
      qed
    qed (use fs in auto)
    ultimately show ?thesis using u ad n by blast
  qed
qed


theorem pmm_contiguous_round_trip_witness:
  "\<exists>addr t. pmm_alloc_pages 3 demo_pmm = (addr, t) \<and> pmm_inv (pmm_free_contiguous addr 3 t)
     \<and> free_set (pmm_free_contiguous addr 3 t) \<noteq> free_set demo_pmm"
proof -
  have o3: "order_for 3 0 = Some 2"
    by (simp add: order_for.simps [of 3 0] order_for.simps [of 3 "Suc 0"] order_for.simps [of 3 2]
        BUDDY_MAX_ORDER_def push_bit_eq_mult numeral_2_eq_2 [symmetric])
  have le2: "2 \<le> BUDDY_MAX_ORDER" by (simp add: BUDDY_MAX_ORDER_def)
  have "2 ^ 2 dvd (4::nat) \<and> span 4 2 \<subseteq> free_set demo_pmm"
    unfolding demo_pmm_inv(2) span_def span_4_2 by simp
  moreover have "buddy_inv demo_pmm {}" using demo_pmm_inv(1) by (simp add: pmm_inv_def)
  ultimately have f: "find_order 2 demo_pmm \<le> BUDDY_MAX_ORDER"
    using find_order_fails_iff [OF _ le2] not_le by blast
  obtain addr t where a: "pmm_alloc_order_unlocked 2 demo_pmm = (addr, t)" by (rule prod.exhaust)
  then have a': "pmm_alloc_pages 3 demo_pmm = (addr, t)" by (simp add: pmm_alloc_pages_def o3)
  have ok: "addr \<noteq> PADDR_INVALID" using alloc_order_addr [OF demo_pmm_inv(1) le2 f] a by simp
  have "\<exists>b. addr = b * CHIMERA_PAGE_SIZE \<and> b \<in> free_set demo_pmm"
    by (rule alloc_order_success [OF demo_pmm_inv(1) le2 f]) (use a span_self in auto)
  then have "addr \<noteq> 0" unfolding demo_pmm_inv(2) by auto
  from pmm_contiguous_round_trip [OF demo_pmm_inv(1) _ o3 a' ok this] a' show ?thesis by auto
qed

end
