(* ===== verification/Zone.thy ===== *)
theory Zone
  imports Pmm
begin

text \<open>
  The zone allocator and \<^verbatim>\<open>kalloc\<close>/\<^verbatim>\<open>kfree\<close>, \<^verbatim>\<open>kernel/mm/zone.c\<close>. Kernel memory is
  a map from the addresses of 8-byte words to their contents; the free list of a
  zone is threaded through the first word of every free element, as in the code,
  and the allocation header sits in the 64 bytes before the pointer handed out.
  A \<^verbatim>\<open>zone_t\<close> is an index of \<^verbatim>\<open>s_zone_table\<close>, \<open>None\<close> for \<^verbatim>\<open>ZONE_NULL\<close>; the null
  pointer is the address 0. An operation that would dereference a null pointer
  has the outcome \<open>None\<close>.
\<close>

unbundle bit_operations_syntax

section \<open>State\<close>

definition ZONE_MAGIC :: u64 where "ZONE_MAGIC = 0x585A4F4E45484452"
definition LARGE_MAGIC :: u64 where "LARGE_MAGIC = 0x584C415247454844"
definition MAX_ZONES :: nat where "MAX_ZONES = 32"
definition KALLOC_ZONE_COUNT :: nat where "KALLOC_ZONE_COUNT = 9"

definition s_kalloc_sizes :: "nat list" where
  "s_kalloc_sizes = [16, 32, 64, 128, 256, 512, 1024, 2048, 4096]"

definition s_kalloc_names :: "string list" where
  "s_kalloc_names = [''kalloc.16'', ''kalloc.32'', ''kalloc.64'', ''kalloc.128'', ''kalloc.256'',
     ''kalloc.512'', ''kalloc.1024'', ''kalloc.2048'', ''kalloc.4096'']"

record zone =
  z_name :: string
  z_elem_size :: nat
  z_alloc_size :: nat
  z_max_size :: nat
  z_cur_size :: nat
  z_count :: nat
  z_free_count :: nat
  z_free_list :: nat

record kmem =
  km_pmm :: pmm
  km_mem :: "nat \<Rightarrow> u64"
  km_hhdm :: nat
  s_zone_table :: "zone list"
  s_zone_initialized :: bool

definition upd_zone :: "nat \<Rightarrow> (zone \<Rightarrow> zone) \<Rightarrow> kmem \<Rightarrow> kmem" where
  "upd_zone z f s = s\<lparr>s_zone_table := (s_zone_table s)[z := f (s_zone_table s ! z)]\<rparr>"

definition poke :: "nat \<Rightarrow> u64 \<Rightarrow> kmem \<Rightarrow> kmem" where
  "poke a v s = s\<lparr>km_mem := (km_mem s)(a := v)\<rparr>"

text \<open>\<^verbatim>\<open>memset(p, 0, n)\<close> for an 8-byte aligned \<open>p\<close>: whole words become 0, of a last
  partial word only the low bytes inside the range.\<close>
definition memset0 :: "nat \<Rightarrow> nat \<Rightarrow> kmem \<Rightarrow> kmem" where
  "memset0 p n s = s\<lparr>km_mem := (\<lambda>a. if p \<le> a \<and> a < p + n
       then (if a + 8 \<le> p + n then 0 else km_mem s a AND NOT (mask (8 * (p + n - a))))
       else km_mem s a)\<rparr>"

section \<open>Zones\<close>

text \<open>\<^verbatim>\<open>(size + 63) & ~63ULL\<close> on a 64-bit size.\<close>
definition align64 :: "nat \<Rightarrow> nat" where
  "align64 sz = ((sz + 63) mod 2 ^ 64) div 64 * 64"

definition zinit :: "nat \<Rightarrow> nat \<Rightarrow> nat \<Rightarrow> string \<Rightarrow> kmem \<Rightarrow> nat option \<times> kmem" where
  "zinit sz mx alloc name s =
     (if sz = 0 then (None, s)
      else let sz = (if sz < 8 then 8 else sz);
               sz = align64 sz;
               alloc = (if alloc = 0 then 4096 else alloc)
           in if length (s_zone_table s) \<ge> MAX_ZONES then (None, s)
           else (Some (length (s_zone_table s)),
                 s\<lparr>s_zone_table := s_zone_table s @
                    [\<lparr>z_name = name, z_elem_size = sz, z_alloc_size = alloc, z_max_size = mx,
                      z_cur_size = 0, z_count = 0, z_free_count = 0, z_free_list = 0\<rparr>]\<rparr>))"

definition zone_create :: "string \<Rightarrow> nat \<Rightarrow> nat \<Rightarrow> kmem \<Rightarrow> nat option \<times> kmem" where
  "zone_create name sz flags s = zinit sz 0 4096 name s"

text \<open>One turn of the carving loop: the element becomes the head of the free list.\<close>
definition carve_one :: "nat \<Rightarrow> nat \<Rightarrow> kmem \<Rightarrow> kmem" where
  "carve_one z link s =
     upd_zone z (\<lambda>zn. zn\<lparr>z_free_list := link, z_free_count := z_free_count zn + 1\<rparr>)
       (poke link (word_of_nat (z_free_list (s_zone_table s ! z))) s)"

definition carve_page :: "nat \<Rightarrow> nat \<Rightarrow> kmem \<Rightarrow> kmem" where
  "carve_page z page_virt s =
     (let elem_size = z_elem_size (s_zone_table s ! z);
          s = fold (\<lambda>i. carve_one z (page_virt + i * elem_size)) [0..<4096 div elem_size] s
      in upd_zone z (\<lambda>zn. zn\<lparr>z_cur_size := z_cur_size zn + 4096\<rparr>) s)"

definition zone_pop :: "nat \<Rightarrow> kmem \<Rightarrow> (nat \<times> kmem) option" where
  "zone_pop z s =
     (let item = z_free_list (s_zone_table s ! z) in
      if item = 0 then None
      else Some (item, memset0 item (z_elem_size (s_zone_table s ! z))
             (upd_zone z (\<lambda>zn. zn\<lparr>z_free_list := unat (km_mem s item),
                z_free_count := z_free_count zn - 1, z_count := z_count zn + 1\<rparr>) s)))"

definition zalloc :: "nat option \<Rightarrow> kmem \<Rightarrow> (nat \<times> kmem) option" where
  "zalloc zone s =
     (case zone of
        None \<Rightarrow> Some (0, s)
      | Some z \<Rightarrow>
          if z_free_list (s_zone_table s ! z) = 0 then
            (let (phys, p) = pmm_alloc_page (km_pmm s); s = s\<lparr>km_pmm := p\<rparr> in
             if phys = 0 \<or> phys = PADDR_INVALID then Some (0, s)
             else zone_pop z (carve_page z (phys + km_hhdm s) s))
          else zone_pop z s)"

definition zalloc_noblock :: "nat option \<Rightarrow> kmem \<Rightarrow> (nat \<times> kmem) option" where
  "zalloc_noblock zone s = zalloc zone s"

definition zfree :: "nat option \<Rightarrow> nat \<Rightarrow> kmem \<Rightarrow> kmem" where
  "zfree zone elem s =
     (case zone of
        None \<Rightarrow> s
      | Some z \<Rightarrow>
          if elem = 0 then s
          else upd_zone z (\<lambda>zn. zn\<lparr>z_free_list := elem, z_free_count := z_free_count zn + 1,
                             z_count := (if z_count zn > 0 then z_count zn - 1 else z_count zn)\<rparr>)
                 (poke elem (word_of_nat (z_free_list (s_zone_table s ! z))) s))"

definition zone_init :: "kmem \<Rightarrow> kmem" where
  "zone_init s =
     (if s_zone_initialized s then s
      else let s = s\<lparr>s_zone_table := []\<rparr>;
               s = fold (\<lambda>i s. snd (zinit (s_kalloc_sizes ! i) 0 4096 (s_kalloc_names ! i) s))
                     [0..<KALLOC_ZONE_COUNT] s
           in s\<lparr>s_zone_initialized := True\<rparr>)"

section \<open>kalloc and kfree\<close>

text \<open>The first of the nine \<^verbatim>\<open>kalloc\<close> zones whose elements are large enough.\<close>
definition pick_zone :: "nat \<Rightarrow> kmem \<Rightarrow> nat option" where
  "pick_zone needed s =
     List.find (\<lambda>i. z_elem_size (s_zone_table s ! i) \<ge> needed) [0..<KALLOC_ZONE_COUNT]"

definition write_zone_header :: "nat \<Rightarrow> nat \<Rightarrow> nat \<Rightarrow> kmem \<Rightarrow> kmem" where
  "write_zone_header mem zi sz s =
     poke (mem + 8) (word_of_nat (zi mod 2 ^ 32) OR push_bit 32 (word_of_nat (sz mod 2 ^ 32)))
       (poke mem ZONE_MAGIC s)"

definition kalloc_large :: "nat \<Rightarrow> kmem \<Rightarrow> nat \<times> kmem" where
  "kalloc_large sz s =
     (let total = (sz + 64) mod 2 ^ 64;
          pages = ((total + 4095) mod 2 ^ 64) div 4096;
          (phys, p) = pmm_alloc_pages pages (km_pmm s);
          s = s\<lparr>km_pmm := p\<rparr>
      in if phys = PADDR_INVALID \<or> phys = 0 then (0, s)
      else let lhdr = phys + km_hhdm s;
               s = poke lhdr LARGE_MAGIC s;
               s = poke (lhdr + 8) (word_of_nat pages) s;
               s = poke (lhdr + 16) (word_of_nat phys) s;
               ptr = lhdr + 64
           in (ptr, memset0 ptr sz s))"

definition kalloc :: "nat \<Rightarrow> kmem \<Rightarrow> (nat \<times> kmem) option" where
  "kalloc sz s =
     (if sz = 0 then Some (0, s)
      else let s = (if s_zone_initialized s then s else zone_init s);
               needed = (sz + 64) mod 2 ^ 64
           in case (if needed \<le> 4096 then pick_zone needed s else None) of
                Some zi \<Rightarrow>
                  (case zalloc (Some zi) s of
                     None \<Rightarrow> None
                   | Some (mem, s) \<Rightarrow>
                       if mem = 0 then Some (0, s)
                       else Some (mem + 64, write_zone_header mem zi sz s))
              | None \<Rightarrow> Some (kalloc_large sz s))"

definition kfree :: "nat \<Rightarrow> kmem \<Rightarrow> kmem" where
  "kfree ptr s =
     (if ptr = 0 then s
      else let zh = (ptr + 2 ^ 64 - 64) mod 2 ^ 64; zi = unat (km_mem s (zh + 8) AND mask 32) in
      if km_mem s zh = ZONE_MAGIC \<and> zi < KALLOC_ZONE_COUNT
      then zfree (Some zi) zh (poke zh 0 s)
      else if km_mem s zh = LARGE_MAGIC then
        (let page_count = unat (km_mem s (zh + 8)); phys_base = km_mem s (zh + 16) in
         if page_count = 0 \<or> page_count > 2 ^ 20 \<or> phys_base AND 4095 \<noteq> 0 then s
         else let s = poke zh 0 s
              in s\<lparr>km_pmm := pmm_free_contiguous (unat phys_base) page_count (km_pmm s)\<rparr>)
      else s)"

end
