(* ===== verification/Zone_Correct.thy ===== *)
theory Zone_Correct
  imports Zone Pmm_Correct
begin

text \<open>
  Correctness of the zone allocator. \<open>zinv s own live\<close> relates the state to two
  ghost values: \<open>own\<close> says which physical pages belong to which zone, \<open>live z\<close> is
  the set of elements of zone \<open>z\<close> that are handed out. The free list of a zone and
  its live elements partition the elements of its pages. Pages come from the
  allocator contract \<open>page_allocator\<close>.
\<close>

section \<open>Free lists threaded through memory\<close>

fun sl :: "(nat \<Rightarrow> u64) \<Rightarrow> nat \<Rightarrow> nat list \<Rightarrow> bool" where
  "sl m h [] \<longleftrightarrow> h = 0"
| "sl m h (x # xs) \<longleftrightarrow> h = x \<and> x \<noteq> 0 \<and> sl m (unat (m x)) xs"

lemma sl_cong: "(\<And>x. x \<in> set xs \<Longrightarrow> m x = m' x) \<Longrightarrow> sl m h xs = sl m' h xs"
  by (induction xs arbitrary: h) auto

lemma sl_push:
  assumes "sl m h xs" and "x \<noteq> 0" and "x \<notin> set xs" and "h < 2 ^ 64"
  shows "sl (m(x := word_of_nat h)) x (x # xs)"
proof -
  have "unat (word_of_nat h :: u64) = h" using assms(4) by (simp add: unat_of_nat)
  moreover have "sl (m(x := word_of_nat h)) h xs = sl m h xs" using assms(3) by (intro sl_cong) auto
  ultimately show ?thesis using assms(1,2) by simp
qed

lemma sl_head: "sl m h xs \<Longrightarrow> h = (case xs of [] \<Rightarrow> 0 | x # _ \<Rightarrow> x)"
  by (cases xs) auto

section \<open>Elements and the invariant\<close>

abbreviation zsize :: "kmem \<Rightarrow> nat \<Rightarrow> nat" where "zsize s z \<equiv> z_elem_size (s_zone_table s ! z)"

definition page_elems :: "kmem \<Rightarrow> nat \<Rightarrow> nat \<Rightarrow> nat set" where
  "page_elems s es p = {km_hhdm s + p * 4096 + i * es | i. i < 4096 div es}"

definition elems :: "kmem \<Rightarrow> (nat \<rightharpoonup> nat) \<Rightarrow> nat \<Rightarrow> nat set" where
  "elems s own z = {a. \<exists>p. own p = Some z \<and> a \<in> page_elems s (zsize s z) p}"

definition zone_ok :: "kmem \<Rightarrow> (nat \<rightharpoonup> nat) \<Rightarrow> (nat \<Rightarrow> nat set) \<Rightarrow> nat \<Rightarrow> bool" where
  "zone_ok s own live z \<longleftrightarrow> 64 dvd zsize s z \<and> zsize s z > 0
     \<and> (\<exists>xs. sl (km_mem s) (z_free_list (s_zone_table s ! z)) xs \<and> distinct xs
          \<and> z_free_count (s_zone_table s ! z) = length xs
          \<and> set xs \<inter> live z = {} \<and> set xs \<union> live z = elems s own z)
     \<and> z_count (s_zone_table s ! z) = card (live z)"

definition hhdm_ok :: "kmem \<Rightarrow> bool" where
  "hhdm_ok s \<longleftrightarrow> km_hhdm s > 0 \<and> 4096 dvd km_hhdm s
     \<and> km_hhdm s + s_max_phys_page (km_pmm s) * 4096 \<le> 2 ^ 64"

definition own_ok :: "kmem \<Rightarrow> (nat \<rightharpoonup> nat) \<Rightarrow> bool" where
  "own_ok s own \<longleftrightarrow> (\<forall>p z. own p = Some z \<longrightarrow> p < s_max_phys_page (km_pmm s)
     \<and> ref_counts (km_pmm s) p \<noteq> 0 \<and> z < length (s_zone_table s))"

definition zinv :: "kmem \<Rightarrow> (nat \<rightharpoonup> nat) \<Rightarrow> (nat \<Rightarrow> nat set) \<Rightarrow> bool" where
  "zinv s own live \<longleftrightarrow> pmm_inv (km_pmm s) \<and> hhdm_ok s \<and> own_ok s own
     \<and> (\<forall>z < length (s_zone_table s). zone_ok s own live z)"

definition range :: "nat \<Rightarrow> nat \<Rightarrow> nat set" where
  "range a n = {a..<a + n}"

lemma page_elem_in_page:
  assumes "a \<in> page_elems s es p" and "w \<in> range a es"
  shows "km_hhdm s + p * 4096 \<le> w \<and> w < km_hhdm s + (p + 1) * 4096"
proof -
  obtain i where a: "a = km_hhdm s + p * 4096 + i * es" and i: "i < 4096 div es"
    using assms(1) by (auto simp: page_elems_def)
  have "(i + 1) * es \<le> (4096 div es) * es" using i by (intro mult_le_mono1) simp
  also have "\<dots> \<le> 4096" by (rule div_times_less_eq_dividend)
  finally have "i * es + es \<le> 4096" by (simp add: distrib_right)
  then show ?thesis using assms(2) a by (auto simp: range_def)
qed

lemma page_elems_disjoint:
  assumes "a \<in> page_elems s es p" and "b \<in> page_elems s es' p'" and "p = p' \<Longrightarrow> es = es'" and "a \<noteq> b"
  shows "range a es \<inter> range b es' = {}"
proof (cases "p = p'")
  case False
  show ?thesis
  proof (rule ccontr)
    assume "range a es \<inter> range b es' \<noteq> {}"
    then obtain w where w: "w \<in> range a es" "w \<in> range b es'" by blast
    have "km_hhdm s + p * 4096 \<le> w" "w < km_hhdm s + (p + 1) * 4096"
      "km_hhdm s + p' * 4096 \<le> w" "w < km_hhdm s + (p' + 1) * 4096"
      using page_elem_in_page [OF assms(1) w(1)] page_elem_in_page [OF assms(2) w(2)] by auto
    then have "p * 4096 < (p' + 1) * 4096" "p' * 4096 < (p + 1) * 4096" by linarith+
    with False show False by simp
  qed
next
  case True
  then have es: "es' = es" using assms(3) by simp
  obtain i j where a: "a = km_hhdm s + p * 4096 + i * es" and b: "b = km_hhdm s + p * 4096 + j * es"
    using assms(1,2) True es by (auto simp: page_elems_def)
  then have "i \<noteq> j" using assms(4) by auto
  then have "i + 1 \<le> j \<or> j + 1 \<le> i" by linarith
  then have "(i + 1) * es \<le> j * es \<or> (j + 1) * es \<le> i * es" using mult_le_mono1 by blast
  then show ?thesis unfolding a b es range_def by auto
qed

lemma elems_disjoint:
  assumes "a \<in> elems s own z" and "b \<in> elems s own z'" and "a \<noteq> b \<or> z \<noteq> z'" and "zsize s z > 0"
  shows "range a (zsize s z) \<inter> range b (zsize s z') = {}"
proof -
  obtain p where p: "own p = Some z" "a \<in> page_elems s (zsize s z) p"
    using assms(1) by (auto simp: elems_def)
  obtain p' where p': "own p' = Some z'" "b \<in> page_elems s (zsize s z') p'"
    using assms(2) by (auto simp: elems_def)
  have "p = p' \<Longrightarrow> z = z'" using p(1) p'(1) by simp
  show ?thesis
  proof (cases "a = b")
    case False
    with p p' show ?thesis by (intro page_elems_disjoint [where p = p and p' = p']) auto
  next
    case True
    then have "p \<noteq> p'" using assms(3) p(1) p'(1) by auto
    show ?thesis
    proof (rule ccontr)
      assume "range a (zsize s z) \<inter> range b (zsize s z') \<noteq> {}"
      then obtain w where w: "w \<in> range a (zsize s z)" "w \<in> range b (zsize s z')" by blast
      from page_elem_in_page [OF p(2) w(1)] page_elem_in_page [OF p'(2) w(2)]
      have "p * 4096 < (p' + 1) * 4096" "p' * 4096 < (p + 1) * 4096" by linarith+
      with \<open>p \<noteq> p'\<close> show False by simp
    qed
  qed
qed

lemma zinv_zone: "zinv s own live \<Longrightarrow> z < length (s_zone_table s) \<Longrightarrow> zone_ok s own live z"
  by (simp add: zinv_def)

lemma live_elems: "zinv s own live \<Longrightarrow> z < length (s_zone_table s) \<Longrightarrow> live z \<subseteq> elems s own z"
  using zinv_zone unfolding zone_ok_def by blast

lemma elems_finite:
  assumes "zinv s own live"
  shows "finite (elems s own z)"
proof -
  have "{p. own p = Some z} \<subseteq> {..<s_max_phys_page (km_pmm s)}"
    using assms by (auto simp: zinv_def own_ok_def)
  then have "finite {p. own p = Some z}" using finite_lessThan finite_subset by blast
  moreover have "finite (page_elems s (zsize s z) p)" for p
  proof -
    have "page_elems s (zsize s z) p =
        (\<lambda>i. km_hhdm s + p * 4096 + i * zsize s z) ` {..<4096 div zsize s z}"
      by (auto simp: page_elems_def)
    then show ?thesis by simp
  qed
  moreover have "elems s own z = (\<Union>p \<in> {p. own p = Some z}. page_elems s (zsize s z) p)"
    by (auto simp: elems_def)
  ultimately show ?thesis by simp
qed

lemma elem_bounds:
  assumes "zinv s own live" and "z < length (s_zone_table s)" and "a \<in> elems s own z"
  shows "a \<noteq> 0" and "a < 2 ^ 64" and "64 dvd a" and "a + zsize s z \<le> 2 ^ 64"
proof -
  obtain p where p: "own p = Some z" "a \<in> page_elems s (zsize s z) p"
    using assms(3) by (auto simp: elems_def)
  have h: "km_hhdm s > 0" "4096 dvd km_hhdm s" "km_hhdm s + s_max_phys_page (km_pmm s) * 4096 \<le> 2 ^ 64"
    and pm: "p < s_max_phys_page (km_pmm s)" and es: "64 dvd zsize s z" "zsize s z > 0"
    using assms p(1) zinv_zone [OF assms(1,2)]
    by (auto simp: zinv_def hhdm_ok_def own_ok_def zone_ok_def)
  have last: "a + zsize s z - 1 \<in> range a (zsize s z)" using es(2) by (auto simp: range_def)
  from page_elem_in_page [OF p(2) this] es(2)
  have up: "a + zsize s z \<le> km_hhdm s + (p + 1) * 4096" by linarith
  have "(p + 1) * 4096 \<le> s_max_phys_page (km_pmm s) * 4096" using pm by (intro mult_le_mono1) simp
  with up h(3) show "a + zsize s z \<le> 2 ^ 64" by linarith
  then show "a < 2 ^ 64" using es(2) by linarith
  show "a \<noteq> 0" using p(2) h(1) by (auto simp: page_elems_def)
  have "64 dvd (4096::nat)" by simp
  then have "64 dvd km_hhdm s" and "64 dvd p * 4096" using h(2) dvd_trans dvd_mult by blast+
  then show "64 dvd a" using p(2) es(1) by (auto simp: page_elems_def)
qed


section \<open>Taking an element off the free list\<close>

lemma upd_zone_simps [simp]:
  "km_mem (upd_zone z f s) = km_mem s" "km_pmm (upd_zone z f s) = km_pmm s"
  "km_hhdm (upd_zone z f s) = km_hhdm s" "length (s_zone_table (upd_zone z f s)) = length (s_zone_table s)"
  "s_zone_initialized (upd_zone z f s) = s_zone_initialized s"
  by (simp_all add: upd_zone_def)

lemma upd_zone_nth:
  "z < length (s_zone_table s) \<Longrightarrow>
   s_zone_table (upd_zone z f s) ! z' = (if z' = z then f (s_zone_table s ! z) else s_zone_table s ! z')"
  by (simp add: upd_zone_def)

lemma mem_simps [simp]:
  "km_mem (poke a v s) = (km_mem s)(a := v)" "km_pmm (poke a v s) = km_pmm s"
  "km_hhdm (poke a v s) = km_hhdm s" "s_zone_table (poke a v s) = s_zone_table s"
  "km_pmm (memset0 p n s) = km_pmm s" "km_hhdm (memset0 p n s) = km_hhdm s"
  "s_zone_table (memset0 p n s) = s_zone_table s"
  "s_zone_initialized (poke a v s) = s_zone_initialized s"
  "s_zone_initialized (memset0 p n s) = s_zone_initialized s"
  by (simp_all add: poke_def memset0_def)

lemma memset0_outside: "w \<notin> range p n \<Longrightarrow> km_mem (memset0 p n s) w = km_mem s w"
  by (auto simp: memset0_def range_def)

lemma memset0_inside:
  assumes "w \<in> range p n" and "8 dvd p" and "8 dvd n" and "8 dvd w"
  shows "km_mem (memset0 p n s) w = 0"
proof -
  have "w + 8 \<le> p + n"
  proof -
    from assms have "8 dvd p + n - w" and "w < p + n" by (auto simp: range_def)
    then have "8 \<le> p + n - w" by (intro dvd_imp_le) auto
    then show ?thesis using \<open>w < p + n\<close> by linarith
  qed
  then show ?thesis using assms(1) by (simp add: memset0_def range_def)
qed

text \<open>A zone stays as it was when its table entry, its elements and the words of its
  free elements are as they were.\<close>

lemma zone_ok_frame:
  assumes "zone_ok s own live z" and "s_zone_table t ! z = s_zone_table s ! z"
    and "elems t own' z = elems s own z" and "live' z = live z"
    and "\<And>w. w \<in> elems s own z \<Longrightarrow> w \<notin> live z \<Longrightarrow> km_mem t w = km_mem s w"
  shows "zone_ok t own' live' z"
proof -
  obtain xs where xs: "sl (km_mem s) (z_free_list (s_zone_table s ! z)) xs" "distinct xs"
    "z_free_count (s_zone_table s ! z) = length xs" "set xs \<inter> live z = {}" "set xs \<union> live z = elems s own z"
    using assms(1) by (auto simp: zone_ok_def)
  have "sl (km_mem t) (z_free_list (s_zone_table s ! z)) xs"
    using xs(1) sl_cong [of xs "km_mem t" "km_mem s"] xs(4,5) assms(5) by blast
  then show ?thesis using assms xs unfolding zone_ok_def by metis
qed

lemma zone_pop_ok:
  assumes inv: "zinv s own live" and z: "z < length (s_zone_table s)"
    and ne: "z_free_list (s_zone_table s ! z) \<noteq> 0"
  obtains a t where "zone_pop z s = Some (a, t)" and "a \<in> elems s own z" and "a \<notin> live z"
    and "zinv t own (live(z := insert a (live z)))"
    and "\<And>w. w \<in> range a (zsize s z) \<Longrightarrow> 8 dvd w \<Longrightarrow> km_mem t w = 0"
    and "\<And>w. w \<notin> range a (zsize s z) \<Longrightarrow> km_mem t w = km_mem s w"
    and "\<And>y. zsize t y = zsize s y" and "length (s_zone_table t) = length (s_zone_table s)"
    and "km_hhdm t = km_hhdm s"
proof -
  let ?zn = "s_zone_table s ! z"
  obtain xs where xs: "sl (km_mem s) (z_free_list ?zn) xs" "distinct xs" "z_free_count ?zn = length xs"
    "set xs \<inter> live z = {}" "set xs \<union> live z = elems s own z"
    and es: "64 dvd zsize s z" "zsize s z > 0" and cnt: "z_count ?zn = card (live z)"
    using zinv_zone [OF inv z] by (auto simp: zone_ok_def)
  obtain a ys where ay: "xs = a # ys" using xs(1) ne by (cases xs) auto
  then have a: "z_free_list ?zn = a" "a \<in> elems s own z" "a \<notin> live z" "sl (km_mem s) (unat (km_mem s a)) ys"
    using xs by auto
  define t where "t = memset0 a (zsize s z) (upd_zone z (\<lambda>zn. zn\<lparr>z_free_list := unat (km_mem s a),
      z_free_count := z_free_count zn - 1, z_count := z_count zn + 1\<rparr>) s)"
  have pop: "zone_pop z s = Some (a, t)" using ne a(1) by (simp add: zone_pop_def t_def)
  have out: "w \<notin> range a (zsize s z) \<Longrightarrow> km_mem t w = km_mem s w" for w
    by (simp add: t_def memset0_outside)
  have sizes: "zsize t y = zsize s y" for y by (simp add: t_def upd_zone_nth [OF z])
  have el: "elems t own y = elems s own y" for y
    by (simp add: elems_def page_elems_def sizes) (simp add: t_def)
  have other: "km_mem t w = km_mem s w" if "w \<in> elems s own y" "w \<noteq> a \<or> y \<noteq> z" "y < length (s_zone_table s)" for w y
  proof -
    have "zsize s y > 0" using zinv_zone [OF inv that(3)] by (simp add: zone_ok_def)
    then have "w \<in> range w (zsize s y)" by (simp add: range_def)
    moreover have "range w (zsize s y) \<inter> range a (zsize s z) = {}"
      using elems_disjoint [OF that(1) a(2)] that(2) \<open>zsize s y > 0\<close> by auto
    ultimately show ?thesis using out by blast
  qed
  have ok: "zone_ok t own (live(z := insert a (live z))) y" if y: "y < length (s_zone_table s)" for y
  proof (cases "y = z")
    case False
    then show ?thesis
      using zone_ok_frame [OF zinv_zone [OF inv y], of t own "live(z := insert a (live z))"] other [OF _ _ y] el
      by (simp add: t_def upd_zone_nth [OF z])
  next
    case True
    have "finite (live z)"
    proof -
      have "finite (elems s own z)" using inv by (rule elems_finite)
      then show ?thesis using live_elems [OF inv z] finite_subset by blast
    qed
    moreover have "sl (km_mem t) (unat (km_mem s a)) ys"
      using a(4) sl_cong [of ys "km_mem t" "km_mem s"] other [OF _ _ z] xs(2,5) ay by auto
    ultimately show ?thesis
      unfolding zone_ok_def True el
      using es cnt a(2,3) xs ay by (auto simp: t_def upd_zone_nth [OF z] intro!: exI [of _ ys])
  qed
  have "zinv t own (live(z := insert a (live z)))"
    using inv ok by (auto simp: zinv_def t_def hhdm_ok_def own_ok_def)
  moreover have "km_mem t w = 0" if "w \<in> range a (zsize s z)" "8 dvd w" for w
  proof -
    have "8 dvd (64::nat)" by simp
    then have "8 dvd a" "8 dvd zsize s z" using elem_bounds(3) [OF inv z a(2)] es(1) dvd_trans by blast+
    then show ?thesis using that by (simp add: t_def memset0_inside)
  qed
  ultimately show ?thesis using that [OF pop a(2,3)] out sizes by (simp add: t_def)
qed


section \<open>Carving a fresh page\<close>

lemma carve_one_simps:
  "km_mem (carve_one z x s) = (km_mem s)(x := word_of_nat (z_free_list (s_zone_table s ! z)))"
  "km_pmm (carve_one z x s) = km_pmm s" "km_hhdm (carve_one z x s) = km_hhdm s"
  "length (s_zone_table (carve_one z x s)) = length (s_zone_table s)"
  by (simp_all add: carve_one_def)

lemma carve_one_nth:
  assumes "z < length (s_zone_table s)"
  shows "s_zone_table (carve_one z x s) ! y = (if y = z then (s_zone_table s ! z)\<lparr>z_free_list := x,
    z_free_count := z_free_count (s_zone_table s ! z) + 1\<rparr> else s_zone_table s ! y)"
proof -
  have "z < length (s_zone_table (poke x v s))" for v using assms by simp
  from upd_zone_nth [OF this] show ?thesis by (simp add: carve_one_def)
qed

lemma carve_loop:
  assumes z: "z < length (s_zone_table s)" and fl: "z_free_list (s_zone_table s ! z) = 0" and es: "es > 0"
    and pg: "pg > 0" "pg + 4096 \<le> 2 ^ 64" and k: "k \<le> 4096 div es"
  defines "t \<equiv> fold (\<lambda>i. carve_one z (pg + i * es)) [0..<k] s"
  shows "sl (km_mem t) (z_free_list (s_zone_table t ! z)) (rev (map (\<lambda>i. pg + i * es) [0..<k]))
    \<and> z_free_count (s_zone_table t ! z) = z_free_count (s_zone_table s ! z) + k
    \<and> (\<forall>w. w \<notin> (\<lambda>i. pg + i * es) ` {..<k} \<longrightarrow> km_mem t w = km_mem s w)
    \<and> (\<forall>y. y \<noteq> z \<longrightarrow> s_zone_table t ! y = s_zone_table s ! y)
    \<and> zsize t z = zsize s z \<and> z_count (s_zone_table t ! z) = z_count (s_zone_table s ! z)
    \<and> length (s_zone_table t) = length (s_zone_table s) \<and> km_pmm t = km_pmm s \<and> km_hhdm t = km_hhdm s"
  unfolding t_def using k
proof (induction k)
  case 0
  then show ?case using fl by simp
next
  case (Suc k)
  let ?u = "fold (\<lambda>i. carve_one z (pg + i * es)) [0..<k] s"
  let ?x = "pg + k * es"
  let ?xs = "rev (map (\<lambda>i. pg + i * es) [0..<k])"
  have IH: "sl (km_mem ?u) (z_free_list (s_zone_table ?u ! z)) ?xs"
    "z_free_count (s_zone_table ?u ! z) = z_free_count (s_zone_table s ! z) + k"
    "\<And>w. w \<notin> (\<lambda>i. pg + i * es) ` {..<k} \<Longrightarrow> km_mem ?u w = km_mem s w"
    "\<And>y. y \<noteq> z \<Longrightarrow> s_zone_table ?u ! y = s_zone_table s ! y"
    "zsize ?u z = zsize s z" "z_count (s_zone_table ?u ! z) = z_count (s_zone_table s ! z)"
    "length (s_zone_table ?u) = length (s_zone_table s)" "km_pmm ?u = km_pmm s" "km_hhdm ?u = km_hhdm s"
    using Suc by auto
  have zu: "z < length (s_zone_table ?u)" using z IH(7) by simp
  have step: "fold (\<lambda>i. carve_one z (pg + i * es)) [0..<Suc k] s = carve_one z ?x ?u" by simp
  have "?x \<notin> set ?xs" using es by auto
  moreover have "z_free_list (s_zone_table ?u ! z) < 2 ^ 64"
  proof (cases k)
    case 0
    then show ?thesis using fl by simp
  next
    case (Suc j)
    then have "z_free_list (s_zone_table ?u ! z) = pg + j * es" using IH(1) by simp
    moreover have "j * es < (4096 div es) * es" using Suc Suc.prems es by simp
    moreover have "(4096 div es) * es \<le> 4096" by (rule div_times_less_eq_dividend)
    ultimately show ?thesis using pg(2) by linarith
  qed
  ultimately have "sl (km_mem (carve_one z ?x ?u)) ?x (?x # ?xs)"
    using sl_push [OF IH(1)] pg(1) by (simp add: carve_one_simps)
  moreover have "?x # ?xs = rev (map (\<lambda>i. pg + i * es) [0..<Suc k])" by simp
  moreover have "z_free_list (s_zone_table (carve_one z ?x ?u) ! z) = ?x" by (simp add: carve_one_nth [OF zu])
  ultimately have slx: "sl (km_mem (carve_one z ?x ?u)) (z_free_list (s_zone_table (carve_one z ?x ?u) ! z))
      (rev (map (\<lambda>i. pg + i * es) [0..<Suc k]))" by metis
  have frame: "km_mem (carve_one z ?x ?u) w = km_mem s w" if "w \<notin> (\<lambda>i. pg + i * es) ` {..<Suc k}" for w
    using that IH(3) [of w] unfolding carve_one_simps lessThan_Suc by simp
  show ?case unfolding step
    by (intro conjI allI impI; (rule slx | erule frame | simp add: carve_one_nth [OF zu] carve_one_simps IH(2,4-9)))
qed


lemma carve_page_inv:
  assumes inv: "zinv s own live" and z: "z < length (s_zone_table s)"
    and fl: "z_free_list (s_zone_table s ! z) = 0"
    and al: "pmm_alloc_page (km_pmm s) = (phys, p)" and ph: "phys \<noteq> 0"
  defines "t \<equiv> carve_page z (phys + km_hhdm s) (s\<lparr>km_pmm := p\<rparr>)"
  shows "zinv t (own(page_idx phys \<mapsto> z)) live"
    and "w \<in> elems s own y \<Longrightarrow> y < length (s_zone_table s) \<Longrightarrow> v \<in> range w (zsize s y) \<Longrightarrow> km_mem t v = km_mem s v"
    and "zsize t y = zsize s y" and "length (s_zone_table t) = length (s_zone_table s)"
    and "km_hhdm t = km_hhdm s"
    and "zsize s z \<le> 4096 \<Longrightarrow> z_free_list (s_zone_table t ! z) \<noteq> 0"
proof -
  let ?q = "page_idx phys" and ?s1 = "s\<lparr>km_pmm := p\<rparr>" and ?es = "zsize s z"
  let ?pg = "phys + km_hhdm s"
  have pinv: "pmm_inv (km_pmm s)" using inv by (simp add: zinv_def)
  have phq: "phys = ?q * 4096"
    using pmm.alloc_aligned [OF pinv] al by (auto simp: page_idx_def)
  have q: "?q < s_max_phys_page (km_pmm s)" "ref_counts (km_pmm s) ?q = 0" "pmm_inv p"
    "s_max_phys_page p = s_max_phys_page (km_pmm s)"
    "\<And>r. ref_counts p r = (if r = ?q then 1 else ref_counts (km_pmm s) r)"
    using pmm.alloc_range [OF pinv] pmm.alloc_was_free [OF pinv] pmm.alloc_inv [OF pinv]
      pmm.alloc_npages [OF pinv] pmm.alloc_refs [OF pinv] al ph by auto
  have ownq: "own ?q = None" using inv q(2) by (fastforce simp: zinv_def own_ok_def)
  have h: "km_hhdm s > 0" "km_hhdm s + s_max_phys_page (km_pmm s) * 4096 \<le> 2 ^ 64"
    using inv by (auto simp: zinv_def hhdm_ok_def)
  have es: "?es > 0" "64 dvd ?es" and cnt: "z_count (s_zone_table s ! z) = card (live z)"
    using zinv_zone [OF inv z] by (auto simp: zone_ok_def)
  have live_all: "live z = elems s own z" and fc: "z_free_count (s_zone_table s ! z) = 0"
  proof -
    obtain xs where "sl (km_mem s) 0 xs" "z_free_count (s_zone_table s ! z) = length xs"
      "set xs \<union> live z = elems s own z"
      using zinv_zone [OF inv z] fl by (auto simp: zone_ok_def)
    then show "live z = elems s own z" "z_free_count (s_zone_table s ! z) = 0" by (cases xs; simp)+
  qed
  have "(?q + 1) * 4096 \<le> s_max_phys_page (km_pmm s) * 4096" using q(1) by (intro mult_le_mono1) simp
  moreover have "(?q + 1) * 4096 = phys + 4096" using phq by simp
  ultimately have pg: "?pg > 0" "?pg + 4096 \<le> 2 ^ 64" using h by simp_all
  let ?n = "4096 div ?es"
  let ?u = "fold (\<lambda>i. carve_one z (?pg + i * ?es)) [0..<?n] ?s1"
  have t: "t = upd_zone z (\<lambda>zn. zn\<lparr>z_cur_size := z_cur_size zn + 4096\<rparr>) ?u"
    by (simp add: t_def carve_page_def Let_def)
  note u = carve_loop [of z ?s1 ?es ?pg ?n, simplified, OF z fl es(1)]
  have u': "sl (km_mem ?u) (z_free_list (s_zone_table ?u ! z)) (rev (map (\<lambda>i. ?pg + i * ?es) [0..<?n]))"
    "z_free_count (s_zone_table ?u ! z) = ?n"
    "\<And>w. w \<notin> (\<lambda>i. ?pg + i * ?es) ` {..<?n} \<Longrightarrow> km_mem ?u w = km_mem s w"
    "\<And>y. y \<noteq> z \<Longrightarrow> s_zone_table ?u ! y = s_zone_table s ! y"
    "zsize ?u z = ?es" "z_count (s_zone_table ?u ! z) = card (live z)"
    "length (s_zone_table ?u) = length (s_zone_table s)" "km_pmm ?u = p" "km_hhdm ?u = km_hhdm s"
    using u pg fc cnt by auto
  have zu: "z < length (s_zone_table ?u)" using z u'(7) by simp
  have tz: "s_zone_table t ! y = (if y = z then (s_zone_table ?u ! z)\<lparr>z_cur_size := z_cur_size (s_zone_table ?u ! z) + 4096\<rparr>
      else s_zone_table s ! y)" for y
    unfolding t upd_zone_nth [OF zu] using u'(4) by simp
  show sizes: "zsize t y = zsize s y" for y using u'(5) by (simp add: tz)
  show len: "length (s_zone_table t) = length (s_zone_table s)" by (simp add: t u'(7))
  show hh: "km_hhdm t = km_hhdm s" by (simp add: t u'(9))
  have newel: "page_elems s ?es ?q = (\<lambda>i. ?pg + i * ?es) ` {..<?n}"
    using phq by (auto simp: page_elems_def algebra_simps)
  have els: "elems t (own(?q \<mapsto> z)) y = (if y = z then elems s own z \<union> page_elems s ?es ?q else elems s own y)" for y
  proof -
    have pe: "page_elems t = page_elems s" by (intro ext) (simp add: page_elems_def hh)
    have "{r. (own(?q \<mapsto> z)) r = Some y} = {r. own r = Some y} \<union> (if y = z then {?q} else {})"
      using ownq by auto
    moreover have "elems s' o' y = (\<Union>r \<in> {r. o' r = Some y}. page_elems s' (zsize s' y) r)" for s' o'
      by (auto simp: elems_def)
    ultimately show ?thesis by (cases "y = z") (simp_all add: sizes pe Un_commute)
  qed
  show frame: "km_mem t v = km_mem s v"
    if "w \<in> elems s own y" "y < length (s_zone_table s)" "v \<in> range w (zsize s y)" for w y v
  proof -
    from that(1) obtain r where r: "own r = Some y" "w \<in> page_elems s (zsize s y) r"
      by (auto simp: elems_def)
    have "v \<notin> page_elems s ?es ?q"
    proof
      assume "v \<in> page_elems s ?es ?q"
      moreover have "v \<in> range v ?es" using es(1) by (simp add: range_def)
      ultimately have "km_hhdm s + ?q * 4096 \<le> v \<and> v < km_hhdm s + (?q + 1) * 4096" by (rule page_elem_in_page)
      with page_elem_in_page [OF r(2) that(3)] have "r * 4096 < (?q + 1) * 4096" "?q * 4096 < (r + 1) * 4096"
        by linarith+
      then have "r = ?q" by simp
      with r(1) ownq show False by simp
    qed
    then show ?thesis using u'(3) newel by (simp add: t)
  qed
  have self: "w \<in> range w (zsize s y)" if "y < length (s_zone_table s)" for w y
    using zinv_zone [OF inv that] by (simp add: zone_ok_def range_def)
  have ok: "zone_ok t (own(?q \<mapsto> z)) live y" if y: "y < length (s_zone_table s)" for y
  proof (cases "y = z")
    case False
    then show ?thesis
      using zone_ok_frame [OF zinv_zone [OF inv y], of t "own(?q \<mapsto> z)" live] frame [OF _ y self [OF y]] els
      by (simp add: tz)
  next
    case True
    let ?xs = "rev (map (\<lambda>i. ?pg + i * ?es) [0..<?n])"
    have dj: "page_elems s ?es ?q \<inter> elems s own z = {}"
    proof (rule ccontr)
      assume "page_elems s ?es ?q \<inter> elems s own z \<noteq> {}"
      then obtain w r where w: "w \<in> page_elems s ?es ?q" "own r = Some z" "w \<in> page_elems s ?es r"
        by (auto simp: elems_def)
      have "r * 4096 < (?q + 1) * 4096" "?q * 4096 < (r + 1) * 4096"
        using page_elem_in_page [OF w(1)] page_elem_in_page [OF w(3)] self [OF z] by fastforce+
      then have "r = ?q" by simp
      with w(2) ownq show False by simp
    qed
    have "set ?xs = page_elems s ?es ?q" by (simp add: newel atLeast0LessThan)
    moreover have "distinct ?xs" using es(1) by (simp add: distinct_map inj_on_def)
    moreover have "sl (km_mem t) (z_free_list (s_zone_table t ! z)) ?xs" using u'(1) by (simp add: t [symmetric] tz) (simp add: t)
    moreover have "z_free_count (s_zone_table t ! z) = length ?xs" using u'(2) by (simp add: tz)
    moreover have "z_count (s_zone_table t ! z) = card (live z)" using u'(6) by (simp add: tz)
    ultimately show ?thesis
      unfolding zone_ok_def True els sizes using es dj live_all by (auto intro!: exI [of _ ?xs])
  qed
  show "zinv t (own(?q \<mapsto> z)) live"
    using inv ok q z unfolding zinv_def hhdm_ok_def own_ok_def len hh
    by (auto simp: t u'(8) u'(7) split: if_splits)
  show "z_free_list (s_zone_table t ! z) \<noteq> 0" if "?es \<le> 4096"
  proof -
    have "?n > 0" using that es(1) by (simp add: div_greater_zero_iff)
    then obtain m where "?n = Suc m" using gr0_implies_Suc by blast
    then have "z_free_list (s_zone_table ?u ! z) = ?pg + m * ?es" using u'(1) by simp
    then show ?thesis using pg(1) by (auto simp: tz)
  qed
qed


section \<open>Allocation and release\<close>

text \<open>What \<open>zalloc\<close> promises: an element that nobody holds, zeroed, with every element
  that is held untouched; or the null pointer when there is no page.\<close>

definition zalloc_post ::
  "kmem \<Rightarrow> (nat \<rightharpoonup> nat) \<Rightarrow> (nat \<Rightarrow> nat set) \<Rightarrow> nat \<Rightarrow> nat \<Rightarrow> kmem \<Rightarrow> (nat \<rightharpoonup> nat) \<Rightarrow> bool" where
  "zalloc_post s own live z a t own' \<longleftrightarrow>
     (if a = 0 then zinv t own' live \<and> km_mem t = km_mem s
      else a \<notin> live z \<and> 64 dvd a \<and> zinv t own' (live(z := insert a (live z)))
        \<and> (\<forall>w \<in> range a (zsize s z). 8 dvd w \<longrightarrow> km_mem t w = 0)
        \<and> (\<forall>y < length (s_zone_table s). \<forall>b \<in> live y. range b (zsize s y) \<inter> range a (zsize s z) = {}
             \<and> (\<forall>w \<in> range b (zsize s y). km_mem t w = km_mem s w)))
     \<and> length (s_zone_table t) = length (s_zone_table s) \<and> (\<forall>y. zsize t y = zsize s y) \<and> km_hhdm t = km_hhdm s"

lemma zone_pop_post:
  assumes inv: "zinv s own live" and z: "z < length (s_zone_table s)"
    and ne: "z_free_list (s_zone_table s ! z) \<noteq> 0"
  shows "\<exists>a t. zone_pop z s = Some (a, t) \<and> a \<noteq> 0 \<and> zalloc_post s own live z a t own"
proof (rule zone_pop_ok [OF inv z ne])
  fix a t
  assume p: "zone_pop z s = Some (a, t)" and a: "a \<in> elems s own z" "a \<notin> live z"
    and t: "zinv t own (live(z := insert a (live z)))"
    "\<And>w. w \<in> range a (zsize s z) \<Longrightarrow> 8 dvd w \<Longrightarrow> km_mem t w = 0"
    "\<And>w. w \<notin> range a (zsize s z) \<Longrightarrow> km_mem t w = km_mem s w"
    "\<And>y. zsize t y = zsize s y" "length (s_zone_table t) = length (s_zone_table s)" "km_hhdm t = km_hhdm s"
  have dis: "range b (zsize s y) \<inter> range a (zsize s z) = {}"
    if "y < length (s_zone_table s)" "b \<in> live y" for y b
  proof -
    have "b \<in> elems s own y" using live_elems [OF inv that(1)] that(2) by blast
    moreover have "zsize s y > 0" using zinv_zone [OF inv that(1)] by (simp add: zone_ok_def)
    ultimately show ?thesis using elems_disjoint [of b s own y a z] a that(2) by auto
  qed
  then have "km_mem t w = km_mem s w" if "y < length (s_zone_table s)" "b \<in> live y" "w \<in> range b (zsize s y)" for y b w
    using t(3) that by blast
  with dis p a t elem_bounds(1,3) [OF inv z a(1)] show ?thesis by (simp add: zalloc_post_def)
qed

theorem zalloc_ok:
  assumes inv: "zinv s own live" and z: "z < length (s_zone_table s)" and small: "zsize s z \<le> 4096"
  shows "\<exists>a t own'. zalloc (Some z) s = Some (a, t) \<and> zalloc_post s own live z a t own'"
proof (cases "z_free_list (s_zone_table s ! z) = 0")
  case False
  then show ?thesis using zone_pop_post [OF inv z] by (auto simp: zalloc_def)
next
  case True
  obtain phys p where al: "pmm_alloc_page (km_pmm s) = (phys, p)" by (rule prod.exhaust)
  have pinv: "pmm_inv (km_pmm s)" using inv by (simp add: zinv_def)
  have ninv: "phys \<noteq> PADDR_INVALID"
    using pmm.alloc_aligned [OF pinv] al addr_not_invalid by (auto elim!: dvdE simp: mult.commute)
  show ?thesis
  proof (cases "phys = 0")
    case zero: True
    let ?t = "s\<lparr>km_pmm := p\<rparr>"
    have keep: "ref_counts p r \<noteq> 0" if "ref_counts (km_pmm s) r \<noteq> 0" for r
      using alloc_page_cases [OF pinv] al that by (metis prod.inject zero_neq_one)
    have "pmm_inv p" "s_max_phys_page p = s_max_phys_page (km_pmm s)"
      using pmm.alloc_inv [OF pinv] pmm.alloc_npages [OF pinv] al by auto
    moreover have "zone_ok ?t own live y" if "zone_ok s own live y" for y
      using that by (simp add: zone_ok_def elems_def page_elems_def)
    ultimately have "zinv ?t own live"
      using inv keep by (auto simp: zinv_def hhdm_ok_def own_ok_def)
    then have "zalloc_post s own live z 0 ?t own" by (simp add: zalloc_post_def)
    moreover have "zalloc (Some z) s = Some (0, ?t)" using True al zero by (simp add: zalloc_def Let_def)
    ultimately show ?thesis by blast
  next
    case False
    let ?u = "carve_page z (phys + km_hhdm s) (s\<lparr>km_pmm := p\<rparr>)"
    let ?own = "own(page_idx phys \<mapsto> z)"
    note u = carve_page_inv [OF inv z True al False]
    have zu: "z < length (s_zone_table ?u)" using z u(4) by simp
    obtain a t where at: "zone_pop z ?u = Some (a, t)" "a \<noteq> 0" "zalloc_post ?u ?own live z a t ?own"
      using zone_pop_post [OF u(1) zu u(6) [OF small]] by auto
    have "km_mem ?u w = km_mem s w" if "y < length (s_zone_table s)" "b \<in> live y" "w \<in> range b (zsize s y)" for y b w
      using u(2) [OF _ that(1,3)] live_elems [OF inv that(1)] that(2) by blast
    then have "zalloc_post s own live z a t ?own"
      using at(2,3) u(3-5) by (auto simp: zalloc_post_def)
    moreover have "zalloc (Some z) s = Some (a, t)" using True al False ninv at(1) by (simp add: zalloc_def Let_def)
    ultimately show ?thesis by blast
  qed
qed

theorem zfree_ok:
  assumes inv: "zinv s own live" and z: "z < length (s_zone_table s)" and a: "a \<in> live z"
  shows "zinv (zfree (Some z) a s) own (live(z := live z - {a}))"
    and "y < length (s_zone_table s) \<Longrightarrow> b \<in> live y \<Longrightarrow> b \<noteq> a \<or> y \<noteq> z \<Longrightarrow> w \<in> range b (zsize s y) \<Longrightarrow>
      km_mem (zfree (Some z) a s) w = km_mem s w"
proof -
  let ?t = "zfree (Some z) a s" and ?zn = "s_zone_table s ! z"
  have ae: "a \<in> elems s own z" using live_elems [OF inv z] a by blast
  have a0: "a \<noteq> 0" using elem_bounds(1) [OF inv z ae] .
  obtain xs where xs: "sl (km_mem s) (z_free_list ?zn) xs" "distinct xs" "z_free_count ?zn = length xs"
    "set xs \<inter> live z = {}" "set xs \<union> live z = elems s own z"
    and es: "64 dvd zsize s z" "zsize s z > 0" and cnt: "z_count ?zn = card (live z)"
    using zinv_zone [OF inv z] by (auto simp: zone_ok_def)
  have t: "?t = upd_zone z (\<lambda>zn. zn\<lparr>z_free_list := a, z_free_count := z_free_count zn + 1,
      z_count := (if z_count zn > 0 then z_count zn - 1 else z_count zn)\<rparr>) (poke a (word_of_nat (z_free_list ?zn)) s)"
    using a0 by (simp add: zfree_def)
  have zp: "z < length (s_zone_table (poke a v s))" for v using z by simp
  have mem: "km_mem ?t = (km_mem s)(a := word_of_nat (z_free_list ?zn))" by (simp add: t)
  have sizes: "zsize ?t y = zsize s y" for y by (simp add: t upd_zone_nth [OF zp])
  have el: "elems ?t own y = elems s own y" for y
    by (simp add: elems_def page_elems_def sizes) (simp add: t)
  have fr: "w \<noteq> a" if "y < length (s_zone_table s)" "b \<in> elems s own y" "b \<noteq> a \<or> y \<noteq> z"
    "w \<in> range b (zsize s y)" for y b w
  proof -
    have "zsize s y > 0" using zinv_zone [OF inv that(1)] by (simp add: zone_ok_def)
    then have "range b (zsize s y) \<inter> range a (zsize s z) = {}"
      using elems_disjoint [OF that(2) ae that(3)] by simp
    moreover have "a \<in> range a (zsize s z)" using es(2) by (simp add: range_def)
    ultimately show ?thesis using that(4) by auto
  qed
  show "km_mem ?t w = km_mem s w"
    if "y < length (s_zone_table s)" "b \<in> live y" "b \<noteq> a \<or> y \<noteq> z" "w \<in> range b (zsize s y)" for y b w
    using fr [OF that(1) _ that(3,4)] live_elems [OF inv that(1)] that(2) mem by auto
  have hb: "z_free_list ?zn < 2 ^ 64"
  proof (cases xs)
    case (Cons x ys)
    then have "z_free_list ?zn = x" "x \<in> elems s own z" using xs(1,5) by auto
    then show ?thesis using elem_bounds(2) [OF inv z] by simp
  qed (use xs(1) in simp)
  have ax: "a \<notin> set xs" using xs(4) a by blast
  have ok: "zone_ok ?t own (live(z := live z - {a})) y" if y: "y < length (s_zone_table s)" for y
  proof (cases "y = z")
    case False
    have "km_mem ?t w = km_mem s w" if "w \<in> elems s own y" for w
    proof -
      have "w \<in> range w (zsize s y)" using zinv_zone [OF inv y] by (simp add: zone_ok_def range_def)
      then show ?thesis using fr [OF y that] False mem by auto
    qed
    then show ?thesis
      using zone_ok_frame [OF zinv_zone [OF inv y], of ?t own "live(z := live z - {a})"] el False
      by (simp add: t upd_zone_nth [OF zp])
  next
    case True
    have "sl (km_mem ?t) a (a # xs)" unfolding mem using sl_push [OF xs(1) a0 ax hb] .
    moreover have "finite (live z)" using elems_finite [OF inv] live_elems [OF inv z] finite_subset by blast
    then have "card (live z - {a}) = card (live z) - 1" "card (live z) > 0" using a by (auto simp: card_gt_0_iff)
    ultimately show ?thesis
      unfolding zone_ok_def True el sizes using es cnt xs a ax
      by (auto simp: upd_zone_nth [OF zp] t intro!: exI [of _ "a # xs"])
  qed
  show "zinv ?t own (live(z := live z - {a}))"
    using inv ok by (auto simp: zinv_def t hhdm_ok_def own_ok_def)
qed

end
