(* ===== verification/Zone_Props.thy ===== *)
theory Zone_Props
  imports Zone_Correct Pmm_Props
begin

text \<open>
  The properties of the zone allocator: set-up of the nine \<^verbatim>\<open>kalloc\<close> zones, what
  \<open>zalloc\<close> and \<open>zfree\<close> guarantee, the \<open>kalloc\<close>/\<open>kfree\<close> round trip for objects that
  fit a zone, and the wrap-around of the size computation in \<open>kalloc\<close>.
\<close>

section \<open>Set-up\<close>

definition kalloc_elem_sizes :: "nat list" where
  "kalloc_elem_sizes = [64, 64, 64, 128, 256, 512, 1024, 2048, 4096]"

definition kalloc_zones :: "kmem \<Rightarrow> bool" where
  "kalloc_zones s \<longleftrightarrow> s_zone_initialized s \<and> KALLOC_ZONE_COUNT \<le> length (s_zone_table s)
     \<and> (\<forall>i < KALLOC_ZONE_COUNT. zsize s i = kalloc_elem_sizes ! i)"

lemma upt_9: "[0..<KALLOC_ZONE_COUNT] = [0, 1, 2, 3, 4, 5, 6, 7, 8]"
  by (simp add: KALLOC_ZONE_COUNT_def upt_rec)

lemma less_9_cases: "i < KALLOC_ZONE_COUNT \<longleftrightarrow> i \<in> {0, 1, 2, 3, 4, 5, 6, 7, 8}"
  by (auto simp: KALLOC_ZONE_COUNT_def)

definition fresh_zone :: "nat \<Rightarrow> zone" where
  "fresh_zone i = \<lparr>z_name = s_kalloc_names ! i, z_elem_size = align64 (max 8 (s_kalloc_sizes ! i)),
     z_alloc_size = 4096, z_max_size = 0, z_cur_size = 0, z_count = 0, z_free_count = 0,
     z_free_list = 0\<rparr>"

lemma fold_zinit:
  assumes "length (s_zone_table s) + length xs \<le> MAX_ZONES" and "\<forall>i \<in> set xs. 0 < s_kalloc_sizes ! i"
  shows "fold (\<lambda>i s. snd (zinit (s_kalloc_sizes ! i) 0 4096 (s_kalloc_names ! i) s)) xs s
       = s\<lparr>s_zone_table := s_zone_table s @ map fresh_zone xs\<rparr>"
  using assms
proof (induction xs arbitrary: s)
  case (Cons i xs)
  have "snd (zinit (s_kalloc_sizes ! i) 0 4096 (s_kalloc_names ! i) s)
      = s\<lparr>s_zone_table := s_zone_table s @ [fresh_zone i]\<rparr>"
    using Cons.prems by (auto simp: zinit_def fresh_zone_def Let_def max_def)
  then show ?case using Cons.IH [of "s\<lparr>s_zone_table := s_zone_table s @ [fresh_zone i]\<rparr>"] Cons.prems
    by simp
qed simp

lemma zone_init_eq:
  assumes "\<not> s_zone_initialized s"
  shows "zone_init s = s\<lparr>s_zone_table := map fresh_zone [0..<9], s_zone_initialized := True\<rparr>"
proof -
  have "\<forall>i \<in> set [0..<9]. 0 < s_kalloc_sizes ! i"
  proof
    fix i :: nat assume "i \<in> set [0..<9]"
    then have "s_kalloc_sizes ! i \<in> set s_kalloc_sizes"
      by (intro nth_mem) (simp add: s_kalloc_sizes_def)
    moreover have "\<forall>n \<in> set s_kalloc_sizes. 0 < n" by (simp add: s_kalloc_sizes_def)
    ultimately show "0 < s_kalloc_sizes ! i" by blast
  qed
  then show ?thesis
    using assms fold_zinit [of "s\<lparr>s_zone_table := []\<rparr>" "[0..<9]"]
    by (simp add: zone_init_def Let_def KALLOC_ZONE_COUNT_def MAX_ZONES_def del: set_upt)
qed

lemma fresh_zone_sizes: "map (z_elem_size \<circ> fresh_zone) [0..<9] = kalloc_elem_sizes"
  by (simp add: fresh_zone_def s_kalloc_sizes_def kalloc_elem_sizes_def align64_def upt_rec)

lemma zone_init_table:
  assumes "\<not> s_zone_initialized s"
  shows "map z_elem_size (s_zone_table (zone_init s)) = kalloc_elem_sizes"
    and "\<forall>zn \<in> set (s_zone_table (zone_init s)). z_free_list zn = 0 \<and> z_free_count zn = 0 \<and> z_count zn = 0"
    and "s_zone_initialized (zone_init s)" and "km_pmm (zone_init s) = km_pmm s"
    and "km_mem (zone_init s) = km_mem s" and "km_hhdm (zone_init s) = km_hhdm s"
    and "length (s_zone_table (zone_init s)) = 9"
  using fresh_zone_sizes by (simp_all add: zone_init_eq [OF assms] fresh_zone_def)

lemma zone_init_ok:
  assumes "\<not> s_zone_initialized s" and "pmm_inv (km_pmm s)" and "hhdm_ok s"
  shows "zinv (zone_init s) (\<lambda>_. None) (\<lambda>_. {})" and "kalloc_zones (zone_init s)"
proof -
  let ?t = "zone_init s"
  note t = zone_init_table [OF assms(1)]
  note len = t(7)
  have es: "zsize ?t i = kalloc_elem_sizes ! i" if "i < 9" for i
    using t(1) that len by (metis nth_map)
  have pos: "64 dvd kalloc_elem_sizes ! i \<and> kalloc_elem_sizes ! i > 0" if "i < 9" for i
  proof -
    have "\<forall>n \<in> set kalloc_elem_sizes. 64 dvd n \<and> n > 0" by (simp add: kalloc_elem_sizes_def)
    moreover have "kalloc_elem_sizes ! i \<in> set kalloc_elem_sizes"
      using that by (intro nth_mem) (simp add: kalloc_elem_sizes_def)
    ultimately show ?thesis by blast
  qed
  have "zone_ok ?t (\<lambda>_. None) (\<lambda>_. {}) z" if "z < 9" for z
  proof -
    have "s_zone_table ?t ! z \<in> set (s_zone_table ?t)" using that len by simp
    then have "z_free_list (s_zone_table ?t ! z) = 0 \<and> z_free_count (s_zone_table ?t ! z) = 0
        \<and> z_count (s_zone_table ?t ! z) = 0" using t(2) by blast
    then show ?thesis using pos [OF that] es [OF that] by (simp add: zone_ok_def elems_def)
  qed
  then show "zinv ?t (\<lambda>_. None) (\<lambda>_. {})"
    using assms(2,3) len t(4,6) by (simp add: zinv_def own_ok_def hhdm_ok_def)
  show "kalloc_zones ?t" using t(3) len es by (simp add: kalloc_zones_def KALLOC_ZONE_COUNT_def)
qed

section \<open>Writing inside a live element\<close>

lemma poke_simps [simp]:
  "km_mem (poke w v s) = (km_mem s)(w := v)" "s_zone_table (poke w v s) = s_zone_table s"
  "km_pmm (poke w v s) = km_pmm s" "km_hhdm (poke w v s) = km_hhdm s"
  "s_zone_initialized (poke w v s) = s_zone_initialized s"
  by (simp_all add: poke_def)

lemma poke_live:
  assumes inv: "zinv s own live" and z: "z < length (s_zone_table s)" and a: "a \<in> live z"
    and w: "w \<in> range a (zsize s z)"
  shows "zinv (poke w v s) own live"
proof -
  have ae: "a \<in> elems s own z" using live_elems [OF inv z] a by blast
  have "zone_ok (poke w v s) own live y" if y: "y < length (s_zone_table s)" for y
  proof (rule zone_ok_frame [OF zinv_zone [OF inv y]])
    fix b assume b: "b \<in> elems s own y" "b \<notin> live y"
    have "zsize s y > 0" using zinv_zone [OF inv y] by (simp add: zone_ok_def)
    moreover have "b \<noteq> a \<or> y \<noteq> z" using a b(2) by auto
    ultimately have "range b (zsize s y) \<inter> range a (zsize s z) = {}" "b \<in> range b (zsize s y)"
      using elems_disjoint [OF b(1) ae] by (auto simp: range_def)
    then have "b \<noteq> w" using w by blast
    then show "km_mem (poke w v s) b = km_mem s b" by simp
  qed (simp_all add: elems_def page_elems_def)
  then show ?thesis using inv by (simp add: zinv_def hhdm_ok_def own_ok_def)
qed

lemma write_zone_header_live:
  assumes "zinv s own live" and "z < length (s_zone_table s)" and "a \<in> live z" and "64 \<le> zsize s z"
  shows "zinv (write_zone_header a zi sz s) own live"
  unfolding write_zone_header_def
  using assms by (intro poke_live [where z = z and a = a]) (auto simp: range_def)

lemma header_index:
  assumes "zi < KALLOC_ZONE_COUNT"
  shows "unat ((word_of_nat (zi mod 2 ^ 32) OR push_bit 32 x :: u64) AND mask 32) = zi"
proof -
  have "(word_of_nat (zi mod 2 ^ 32) OR push_bit 32 x :: u64) AND mask 32
      = take_bit 32 (word_of_nat zi :: u64)"
    using assms by (simp add: KALLOC_ZONE_COUNT_def take_bit_or take_bit_push_bit flip: take_bit_eq_mask)
  also have "unat \<dots> = zi"
    using assms by (simp add: unsigned_take_bit_eq unat_of_nat take_bit_nat_eq_self KALLOC_ZONE_COUNT_def)
  finally show ?thesis .
qed

lemma pick_zone_some:
  assumes "kalloc_zones s" and "needed \<le> 4096"
  obtains z where "pick_zone needed s = Some z" and "z < KALLOC_ZONE_COUNT" and "needed \<le> zsize s z"
    and "zsize s z \<le> 4096" and "z < length (s_zone_table s)" and "\<And>y. y < z \<Longrightarrow> zsize s y < needed"
proof -
  have "zsize s 8 = 4096" using assms(1)
    by (simp add: kalloc_zones_def KALLOC_ZONE_COUNT_def kalloc_elem_sizes_def)
  then have "pick_zone needed s \<noteq> None"
    using assms(2) by (auto simp: pick_zone_def find_None_iff KALLOC_ZONE_COUNT_def intro!: exI [of _ 8])
  then obtain z where z: "pick_zone needed s = Some z" by blast
  then have *: "z < KALLOC_ZONE_COUNT" "needed \<le> zsize s z" "\<And>y. y < z \<Longrightarrow> zsize s y < needed"
    by (auto simp: pick_zone_def find_Some_iff not_le)
  have "kalloc_elem_sizes ! z \<in> set kalloc_elem_sizes"
    using *(1) by (intro nth_mem) (simp add: KALLOC_ZONE_COUNT_def kalloc_elem_sizes_def)
  moreover have "\<forall>n \<in> set kalloc_elem_sizes. n \<le> 4096" by (simp add: kalloc_elem_sizes_def)
  ultimately have "zsize s z \<le> 4096" using assms(1) *(1) by (simp add: kalloc_zones_def)
  then show ?thesis using that z * assms(1) by (simp add: kalloc_zones_def)
qed

section \<open>Properties\<close>

definition demo_kmem :: kmem where
  "demo_kmem = \<lparr>km_pmm = demo_pmm, km_mem = (\<lambda>_. 7), km_hhdm = 0x10000000, s_zone_table = [],
     s_zone_initialized = False\<rparr>"

lemma demo_zinv: "zinv (zone_init demo_kmem) (\<lambda>_. None) (\<lambda>_. {})" "kalloc_zones (zone_init demo_kmem)"
proof -
  have "hhdm_ok demo_kmem" using demo_pmm_inv by (simp add: demo_kmem_def hhdm_ok_def)
  then show "zinv (zone_init demo_kmem) (\<lambda>_. None) (\<lambda>_. {})" "kalloc_zones (zone_init demo_kmem)"
    using zone_init_ok [of demo_kmem] demo_pmm_inv by (simp_all add: demo_kmem_def)
qed

text \<open>Set-up of the zones. On the first call \<^verbatim>\<open>zone_init\<close> builds the nine \<^verbatim>\<open>kalloc\<close>
  zones with element sizes 64, 64, 64, 128, ..., 4096 (the three smallest nominal sizes are
  all rounded up to a cache line), all empty, and the zone invariant holds with no page owned
  and no element live; a second call changes nothing.\<close>
theorem zone_init_correct:
  assumes "\<not> s_zone_initialized s" and "pmm_inv (km_pmm s)" and "hhdm_ok s"
  shows "map z_elem_size (s_zone_table (zone_init s)) = [64, 64, 64, 128, 256, 512, 1024, 2048, 4096]
    \<and> zinv (zone_init s) (\<lambda>_. None) (\<lambda>_. {}) \<and> zone_init (zone_init s) = zone_init s"
  using zone_init_table(1,3) [OF assms(1)] zone_init_ok [OF assms]
  by (simp add: kalloc_elem_sizes_def) (simp add: zone_init_def)

theorem zone_init_correct_witness:
  "map z_elem_size (s_zone_table (zone_init demo_kmem)) = [64, 64, 64, 128, 256, 512, 1024, 2048, 4096]"
proof -
  have "hhdm_ok demo_kmem" using demo_pmm_inv by (simp add: demo_kmem_def hhdm_ok_def)
  then show ?thesis using zone_init_correct [of demo_kmem] demo_pmm_inv by (simp add: demo_kmem_def)
qed

text \<open>C4 Allocation from a zone. For a zone whose elements fit a page, \<^verbatim>\<open>zalloc\<close> always
  returns: either the null pointer, with memory and live elements untouched, or a 64-byte
  aligned element that was not live, zeroed, disjoint from every live element of every zone,
  none of whose contents change; the invariant holds with the element live.\<close>
theorem zalloc_correct:
  assumes "zinv s own live" and "z < length (s_zone_table s)" and "z_elem_size (s_zone_table s ! z) \<le> 4096"
  shows "\<exists>a t own'. zalloc (Some z) s = Some (a, t)
    \<and> (a = 0 \<longrightarrow> zinv t own' live \<and> km_mem t = km_mem s)
    \<and> (a \<noteq> 0 \<longrightarrow> a \<notin> live z \<and> 64 dvd a \<and> zinv t own' (live(z := insert a (live z)))
        \<and> (\<forall>w \<in> {a..<a + z_elem_size (s_zone_table s ! z)}. 8 dvd w \<longrightarrow> km_mem t w = 0)
        \<and> (\<forall>y < length (s_zone_table s). \<forall>b \<in> live y. \<forall>w \<in> {b..<b + z_elem_size (s_zone_table s ! y)}.
             w \<notin> {a..<a + z_elem_size (s_zone_table s ! z)} \<and> km_mem t w = km_mem s w))"
proof -
  obtain a t own' where "zalloc (Some z) s = Some (a, t)" and "zalloc_post s own live z a t own'"
    using zalloc_ok [OF assms] by blast
  then show ?thesis
    by (intro exI [of _ a] exI [of _ t] exI [of _ own'])
       (cases "a = 0"; fastforce simp: zalloc_post_def range_def)
qed

theorem zalloc_correct_witness:
  "\<exists>a t own'. zalloc (Some 3) (zone_init demo_kmem) = Some (a, t) \<and>
     zinv t own' (if a = 0 then (\<lambda>_. {}) else (\<lambda>_. {})(3 := {a}))"
proof -
  have "3 < length (s_zone_table (zone_init demo_kmem))" "zsize (zone_init demo_kmem) 3 \<le> 4096"
    using demo_zinv(2) by (auto simp: kalloc_zones_def KALLOC_ZONE_COUNT_def kalloc_elem_sizes_def)
  from zalloc_correct [OF demo_zinv(1) this] obtain a t own'
    where "zalloc (Some 3) (zone_init demo_kmem) = Some (a, t)" "a = 0 \<longrightarrow> zinv t own' (\<lambda>_. {})"
      "a \<noteq> 0 \<longrightarrow> zinv t own' ((\<lambda>_. {})(3 := {a}))" by auto
  then show ?thesis by (cases "a = 0") auto
qed

lemma kalloc_zone_case:
  assumes inv: "zinv s own live" and kz: "kalloc_zones s" and sz: "0 < sz" "sz \<le> 4032"
  obtains z a t own' where "z < KALLOC_ZONE_COUNT" and "z < length (s_zone_table s)"
    and "sz + 64 \<le> zsize s z" and "\<And>y. y < z \<Longrightarrow> zsize s y < sz + 64"
    and "zalloc_post s own live z a t own'"
    and "kalloc sz s = Some (if a = 0 then (0, t) else (a + 64, write_zone_header a z sz t))"
proof -
  have n: "(sz + 64) mod 2 ^ 64 = sz + 64" "sz + 64 \<le> 4096" using sz by simp_all
  show ?thesis
  proof (rule pick_zone_some [OF kz n(2)])
    fix z assume z: "pick_zone (sz + 64) s = Some z" "z < KALLOC_ZONE_COUNT" "sz + 64 \<le> zsize s z"
      "zsize s z \<le> 4096" "z < length (s_zone_table s)" "\<And>y. y < z \<Longrightarrow> zsize s y < sz + 64"
    obtain a t own' where al: "zalloc (Some z) s = Some (a, t)" "zalloc_post s own live z a t own'"
      using zalloc_ok [OF inv z(5,4)] by blast
    have "kalloc sz s = Some (if a = 0 then (0, t) else (a + 64, write_zone_header a z sz t))"
      using sz n kz z(1) al(1) by (simp add: kalloc_def Let_def kalloc_zones_def)
    then show ?thesis using that z al(2) by blast
  qed
qed

lemma kfree_zone_case:
  assumes inv: "zinv t own live" and z: "z < KALLOC_ZONE_COUNT" "z < length (s_zone_table t)"
    and a: "a \<in> live z" and sz: "64 \<le> zsize t z"
  shows "zinv (kfree (a + 64) (write_zone_header a z sz' t)) own (live(z := live z - {a}))"
proof -
  let ?h = "write_zone_header a z sz' t"
  have "a \<in> elems t own z" using live_elems [OF inv z(2)] a by blast
  note b = elem_bounds [OF inv z(2) this]
  have zh: "(a + 64 + 2 ^ 64 - 64) mod 2 ^ 64 = a" using b(2) by simp
  have hdr: "km_mem ?h a = ZONE_MAGIC"
    "unat (km_mem ?h (a + 8) AND mask 32) = z"
    using header_index [OF z(1)] by (simp_all add: write_zone_header_def)
  have "kfree (a + 64) ?h = zfree (Some z) a (poke a 0 ?h)"
    using z(1) hdr zh by (simp add: kfree_def Let_def)
  moreover have "zinv ?h own live" using write_zone_header_live [OF inv z(2) a sz] .
  then have "zinv (poke a 0 ?h) own live"
    using z(2) a sz by (intro poke_live [where z = z and a = a]) (auto simp: range_def write_zone_header_def)
  then have "zinv (zfree (Some z) a (poke a 0 ?h)) own (live(z := live z - {a}))"
    using z(2) a by (intro zfree_ok(1)) (auto simp: write_zone_header_def)
  ultimately show ?thesis by simp
qed

text \<open>C5 Small kernel objects. For \<open>0 < sz \<le> 4032\<close>, \<^verbatim>\<open>kalloc(sz)\<close> on initialised
  zones always returns: null, or a 64-byte aligned pointer past the header of a fresh element
  of the smallest zone that holds \<open>sz + 64\<close> bytes, with a zeroed payload and with the contents
  of every other live element unchanged; \<^verbatim>\<open>kfree\<close> of that pointer makes the element free again
  and restores the live set.\<close>
theorem kalloc_kfree_round_trip:
  assumes "zinv s own live" and "kalloc_zones s" and "0 < sz" and "sz \<le> 4032"
  shows "\<exists>ptr t own'. kalloc sz s = Some (ptr, t) \<and> (ptr = 0 \<longrightarrow> zinv t own' live)
    \<and> (ptr \<noteq> 0 \<longrightarrow> (\<exists>z < KALLOC_ZONE_COUNT. sz + 64 \<le> z_elem_size (s_zone_table s ! z)
        \<and> (\<forall>y < z. z_elem_size (s_zone_table s ! y) < sz + 64)
        \<and> 64 dvd ptr \<and> ptr - 64 \<notin> live z \<and> zinv t own' (live(z := insert (ptr - 64) (live z)))
        \<and> (\<forall>w \<in> {ptr..<ptr + sz}. 8 dvd w \<longrightarrow> km_mem t w = 0)
        \<and> (\<forall>y < length (s_zone_table s). \<forall>b \<in> live y. \<forall>w \<in> {b..<b + z_elem_size (s_zone_table s ! y)}.
             km_mem t w = km_mem s w)
        \<and> zinv (kfree ptr t) own' live))"
proof (rule kalloc_zone_case [OF assms])
  fix z a t own'
  assume z: "z < KALLOC_ZONE_COUNT" "z < length (s_zone_table s)" "sz + 64 \<le> zsize s z"
    "\<And>y. y < z \<Longrightarrow> zsize s y < sz + 64" and post: "zalloc_post s own live z a t own'"
    and k: "kalloc sz s = Some (if a = 0 then (0, t) else (a + 64, write_zone_header a z sz t))"
  show ?thesis
  proof (cases "a = 0")
    case True
    then show ?thesis using k post by (auto simp: zalloc_post_def)
  next
    case False
    let ?t = "write_zone_header a z sz t"
    have p: "a \<notin> live z" "64 dvd a" "zinv t own' (live(z := insert a (live z)))"
      "\<And>w. w \<in> range a (zsize s z) \<Longrightarrow> 8 dvd w \<Longrightarrow> km_mem t w = 0"
      "\<And>y b. y < length (s_zone_table s) \<Longrightarrow> b \<in> live y \<Longrightarrow> range b (zsize s y) \<inter> range a (zsize s z) = {}"
      "\<And>y b w. y < length (s_zone_table s) \<Longrightarrow> b \<in> live y \<Longrightarrow> w \<in> range b (zsize s y) \<Longrightarrow> km_mem t w = km_mem s w"
      "length (s_zone_table t) = length (s_zone_table s)" "\<And>y. zsize t y = zsize s y"
      using post False by (auto simp: zalloc_post_def)
    have mem: "km_mem ?t w = km_mem t w" if "w \<noteq> a" "w \<noteq> a + 8" for w
      using that by (simp add: write_zone_header_def)
    have inv': "zinv ?t own' (live(z := insert a (live z)))"
      using z(2,3) p(7,8) by (intro write_zone_header_live [OF p(3)]) auto
    have "zinv (kfree (a + 64) ?t) own' ((live(z := insert a (live z)))(z := insert a (live z) - {a}))"
      using kfree_zone_case [OF p(3) z(1), of a sz] z(2,3) p(7,8) by simp
    then have fr: "zinv (kfree (a + 64) ?t) own' live" using p(1) by simp
    have zero: "km_mem ?t w = 0" if "w \<in> {a + 64..<a + 64 + sz}" "8 dvd w" for w
      using p(4) [of w] mem [of w] that z(3) by (auto simp: range_def)
    have keep: "km_mem ?t w = km_mem s w"
      if "y < length (s_zone_table s)" "b \<in> live y" "w \<in> range b (zsize s y)" for y b w
    proof -
      have "w \<notin> range a (zsize s z)" using p(5) [OF that(1,2)] that(3) by blast
      then have "w \<noteq> a" "w \<noteq> a + 8" using z(3) by (auto simp: range_def)
      then show ?thesis using mem p(6) [OF that] by simp
    qed
    have k': "kalloc sz s = Some (a + 64, ?t)" using k False by simp
    show ?thesis
      by (rule exI [of _ "a + 64"], rule exI [of _ ?t], rule exI [of _ own'])
        (use k' z(1,3,4) p(1,2) inv' fr zero keep in \<open>auto simp: range_def intro!: exI [of _ z]\<close>)
  qed
qed

theorem kalloc_kfree_round_trip_witness:
  "\<exists>ptr t own'. kalloc 100 (zone_init demo_kmem) = Some (ptr, t) \<and> (ptr \<noteq> 0 \<longrightarrow> zinv (kfree ptr t) own' (\<lambda>_. {}))"
proof -
  from kalloc_kfree_round_trip [OF demo_zinv, of 100] obtain ptr t own'
    where "kalloc 100 (zone_init demo_kmem) = Some (ptr, t)" "ptr \<noteq> 0 \<longrightarrow> zinv (kfree ptr t) own' (\<lambda>_. {})" by auto
  then show ?thesis by blast
qed

text \<open>C6 Wrap-around of the size. \<^verbatim>\<open>size + 64\<close> is computed at 64 bits without a check, so a
  request within 64 bytes of \<open>2 ^ 64\<close> is served, like the smallest possible request, from the first
  zone: an element of 64 bytes, none of which lie behind the pointer that is returned.\<close>
theorem kalloc_size_wraps:
  assumes "kalloc_zones s" and "2 ^ 64 - 64 \<le> sz" and "sz < 2 ^ 64"
  shows "kalloc sz s = (case zalloc (Some 0) s of None \<Rightarrow> None
      | Some (mem, t) \<Rightarrow> Some (if mem = 0 then (0, t) else (mem + 64, write_zone_header mem 0 sz t)))
    \<and> z_elem_size (s_zone_table s ! 0) = 64"
proof -
  have sz: "sz = 2 ^ 64 - 64 + (sz + 64 - 2 ^ 64)" "sz + 64 - 2 ^ 64 < 64" using assms(2,3) by simp_all
  define d where "d = sz + 64 - 2 ^ 64"
  have n: "(sz + 64) mod 2 ^ 64 = d" "d \<le> 64" using assms(2,3) by (simp_all add: d_def le_mod_geq)
  have e: "zsize s 0 = 64" using assms(1) by (simp add: kalloc_zones_def KALLOC_ZONE_COUNT_def kalloc_elem_sizes_def)
  have "pick_zone d s = Some 0" using e n(2) by (simp add: pick_zone_def upt_9)
  then show ?thesis using assms n e
    by (auto simp: kalloc_def Let_def kalloc_zones_def split: option.splits)
qed

theorem kalloc_size_wraps_witness:
  "\<exists>ptr t. kalloc (2 ^ 64 - 1) (zone_init demo_kmem) = Some (ptr, t)"
proof -
  have "0 < length (s_zone_table (zone_init demo_kmem))" "zsize (zone_init demo_kmem) 0 \<le> 4096"
    using demo_zinv(2) by (auto simp: kalloc_zones_def KALLOC_ZONE_COUNT_def kalloc_elem_sizes_def)
  then obtain a t where "zalloc (Some 0) (zone_init demo_kmem) = Some (a, t)"
    using zalloc_ok [OF demo_zinv(1)] by blast
  then show ?thesis using kalloc_size_wraps [OF demo_zinv(2), of "2 ^ 64 - 1"] by (simp split: if_splits)
qed

end
