(* ===== verification/Sll.thy ===== *)
theory Sll
  imports Main
begin

text \<open>
  Singly linked lists through a successor function, as the kernel threads them through
  \<^verbatim>\<open>th_next\<close>, \<^verbatim>\<open>th_wait_next\<close>, \<^verbatim>\<open>ikm_next\<close>, \<^verbatim>\<open>ip_next\<close> and \<^verbatim>\<open>vmp_next\<close>. A pointer is an
  \<open>option\<close>, \<open>None\<close> the null pointer. \<open>seg n h xs e\<close> says that following \<open>n\<close> from \<open>h\<close> visits
  exactly \<open>xs\<close> and arrives at \<open>e\<close>; a list is a segment that ends in the null pointer. The
  walks over such a list are partial functions: on a cyclic list they do not return.
\<close>

fun seg :: "('a \<Rightarrow> 'a option) \<Rightarrow> 'a option \<Rightarrow> 'a list \<Rightarrow> 'a option \<Rightarrow> bool" where
  "seg n h [] e \<longleftrightarrow> h = e"
| "seg n h (x # xs) e \<longleftrightarrow> h = Some x \<and> seg n (n x) xs e"

abbreviation chain :: "('a \<Rightarrow> 'a option) \<Rightarrow> 'a option \<Rightarrow> 'a list \<Rightarrow> bool" where
  "chain n h xs \<equiv> seg n h xs None"

lemma seg_cong: "(\<And>x. x \<in> set xs \<Longrightarrow> n x = m x) \<Longrightarrow> seg n h xs e = seg m h xs e"
  by (induction xs arbitrary: h) auto

lemma seg_upd [simp]: "x \<notin> set xs \<Longrightarrow> seg (n(x := v)) h xs e = seg n h xs e"
  by (intro seg_cong) auto

lemma seg_append: "seg n h (xs @ ys) e \<longleftrightarrow> (\<exists>m. seg n h xs m \<and> seg n m ys e)"
  by (induction xs arbitrary: h) auto

lemma seg_snoc: "seg n h (xs @ [x]) e \<longleftrightarrow> seg n h xs (Some x) \<and> n x = e"
  by (auto simp: seg_append)

lemma chain_unique: "chain n h xs \<Longrightarrow> chain n h ys \<Longrightarrow> xs = ys"
proof (induction xs arbitrary: h ys)
  case Nil then show ?case by (cases ys) auto
next
  case (Cons x xs) then show ?case by (cases ys) auto
qed

lemma chain_distinct: "chain n h xs \<Longrightarrow> distinct xs"
proof (induction xs arbitrary: h)
  case (Cons x xs)
  have "x \<notin> set xs"
  proof
    assume "x \<in> set xs"
    then obtain us vs where "xs = us @ x # vs" by (meson split_list)
    then have "chain n (Some x) (x # vs)" and "chain n (Some x) (x # xs)"
      using Cons.prems by (auto simp: seg_append)
    then have "x # vs = x # xs" by (rule chain_unique)
    then show False using \<open>xs = us @ x # vs\<close> by simp
  qed
  then show ?case using Cons by auto
qed simp

lemma chain_head: "chain n h xs \<Longrightarrow> h = (case xs of [] \<Rightarrow> None | x # _ \<Rightarrow> Some x)"
  by (cases xs) auto

lemma chain_push: "chain n h xs \<Longrightarrow> x \<notin> set xs \<Longrightarrow> chain (n(x := h)) (Some x) (x # xs)"
  by simp

lemma chain_insert:
  assumes "seg n h xs m" and "chain n m ys" and "x \<notin> set xs" "x \<notin> set ys" and "distinct (xs @ ys)"
  shows "chain ((if xs = [] then n else n(last xs := Some x))(x := m)) (if xs = [] then Some x else h) (xs @ x # ys)"
proof (cases xs rule: rev_cases)
  case (snoc zs z)
  then have "seg n h zs (Some z)" using assms(1) by (simp add: seg_snoc)
  then show ?thesis using snoc assms by (auto simp: seg_append)
qed (use assms in simp)

lemma chain_delete:
  assumes "chain n h (xs @ x # ys)"
  shows "chain ((if xs = [] then n else n(last xs := n x))(x := None)) (if xs = [] then n x else h) (xs @ ys)"
proof -
  have d: "distinct (xs @ x # ys)" using chain_distinct [OF assms] .
  show ?thesis
  proof (cases xs rule: rev_cases)
    case (snoc zs z)
    then have "seg n h zs (Some z)" "chain n (n x) ys" using assms by (auto simp: seg_append)
    then show ?thesis using snoc d by (simp add: seg_append)
  qed (use assms d in simp)
qed

section \<open>Walks\<close>

text \<open>The loop \<^verbatim>\<open>while (*pp) { if (*pp == x) ...; pp = &(*pp)->next; }\<close>: the link that holds
  \<open>x\<close> (\<open>None\<close> the list head, \<open>Some p\<close> the link inside \<open>p\<close>), if any.\<close>
partial_function (option) find_link ::
  "('a \<Rightarrow> 'a option) \<Rightarrow> 'a option \<Rightarrow> 'a option \<Rightarrow> 'a \<Rightarrow> 'a option option option" where
  "find_link n prev cur x =
     (case cur of None \<Rightarrow> Some None
      | Some c \<Rightarrow> if c = x then Some (Some prev) else find_link n (Some c) (n c) x)"

text \<open>The loop \<^verbatim>\<open>while (cur->next) { prev = cur; cur = cur->next; }\<close>.\<close>
partial_function (option) last_link ::
  "('a \<Rightarrow> 'a option) \<Rightarrow> 'a option \<Rightarrow> 'a \<Rightarrow> ('a option \<times> 'a) option" where
  "last_link n prev cur =
     (case n cur of None \<Rightarrow> Some (prev, cur) | Some c \<Rightarrow> last_link n (Some cur) c)"

declare find_link.simps [code] last_link.simps [code]

text \<open>The link before position \<open>length xs\<close> when \<open>prev\<close> is the link the walk started from.\<close>
definition link_of :: "'a option \<Rightarrow> 'a list \<Rightarrow> 'a option" where
  "link_of prev xs = (if xs = [] then prev else Some (last xs))"

lemma find_link_hit:
  "seg n cur xs (Some x) \<Longrightarrow> x \<notin> set xs \<Longrightarrow> find_link n prev cur x = Some (Some (link_of prev xs))"
proof (induction xs arbitrary: cur prev)
  case Nil then show ?case by (simp add: find_link.simps link_of_def)
next
  case (Cons y ys)
  then show ?case by (subst find_link.simps) (auto simp: link_of_def)
qed

lemma find_link_miss: "chain n cur xs \<Longrightarrow> x \<notin> set xs \<Longrightarrow> find_link n prev cur x = Some None"
proof (induction xs arbitrary: cur prev)
  case Nil then show ?case by (simp add: find_link.simps)
next
  case (Cons y ys)
  then show ?case by (subst find_link.simps) auto
qed

lemma last_link_ok:
  "chain n (Some c) (xs @ [y]) \<Longrightarrow> last_link n prev c = Some (link_of prev xs, y)"
proof (induction xs arbitrary: c prev)
  case Nil then show ?case by (simp add: last_link.simps link_of_def)
next
  case (Cons x xs)
  then have c: "x = c" and *: "chain n (n c) (xs @ [y])" by auto
  then obtain d where d: "n c = Some d" by (cases xs) auto
  then have "last_link n (Some c) d = Some (link_of (Some c) xs, y)" using Cons.IH * by simp
  then show ?case using c d by (subst last_link.simps) (auto simp: link_of_def)
qed

end
