(* ===== verification/Sched.thy ===== *)
theory Sched
  imports Sll Zone "HOL-Library.Monad_Syntax"
begin

text \<open>
  The thread scheduler, \<^verbatim>\<open>kernel/arch/x86_64/scheduler.c\<close>, with the thread and CPU records of
  \<^verbatim>\<open>kernel/include/kernel/proc.h\<close>. Threads are numbered; a pointer to a thread is an optional
  number. Run queues are linked through \<^verbatim>\<open>th_next\<close>, the sleep list through \<^verbatim>\<open>th_wait_next\<close>.
  An operation returns \<open>None\<close> when it does not return: a list walk on a cyclic list, the busy
  wait for \<^verbatim>\<open>th_running_cpu\<close>, or a failed assertion. Each operation is one atomic step (the code
  holds the spinlock of the structure it works on).
\<close>

section \<open>State\<close>

definition NO_CPU :: nat where "NO_CPU = 0xFFFFFFFF"

datatype thread_state = THREAD_STATE_NONE | THREAD_STATE_READY | THREAD_STATE_STOPPED
  | THREAD_STATE_WAITING | THREAD_STATE_HALTED | THREAD_STATE_RUNNING

record chimera_thread =
  th_id :: u64
  th_task :: "nat option"
  th_state :: thread_state
  th_priority :: u32
  th_context :: u64
  th_saved_sp :: nat
  th_kernel_stack :: nat
  th_user_stack :: u64
  th_stack_base :: nat
  th_stack_size :: nat
  th_base_priority :: u32
  th_sched_priority :: u32
  th_cpu_usage :: u32
  th_running_cpu :: nat
  th_assigned_cpu :: nat
  th_wait_result :: chimera_error
  th_next :: "nat option"
  th_wait_next :: "nat option"
  th_fp_state :: "u64 list"
  th_fp_initialized :: bool
  th_sleep_deadline :: u64

record chimera_task =
  ta_flags :: u32
  ta_vm_map :: u64

record cpu_runq =
  rq_head :: "nat option"
  rq_count :: nat

record cpu_local =
  cpu_current_thread :: "nat option"
  cpu_is_active :: bool
  cpu_kernel_stack :: nat
  cpu_idle_thread :: "nat option"
  cpu_active_cr3 :: u64
  cpu_rsp0 :: nat

text \<open>\<open>sc_ipis\<close> records the reschedule interrupts sent, newest first; \<open>sc_cr3\<close> is what
  \<^verbatim>\<open>context_switch\<close> was last told to load on a CPU. The code addresses the initial stacks refer to
  are fields, since they are known only after linking.\<close>
record sched =
  sc_threads :: "nat \<Rightarrow> chimera_thread"
  sc_tasks :: "nat \<Rightarrow> chimera_task"
  s_cpu_runq :: "nat \<Rightarrow> cpu_runq"
  s_cpu_idle_threads :: "nat \<Rightarrow> nat"
  g_cpu_data :: "nat \<Rightarrow> cpu_local"
  smp_get_cpu_count :: nat
  s_sleep_list :: "nat option"
  pmap_kernel_pml4 :: u64
  sc_cr3 :: "nat \<Rightarrow> u64"
  sc_ipis :: "nat list"
  sc_km :: kmem
  sc_fpu_mask :: u64
  code_thread_launcher :: u64
  code_fork_thread_launcher :: u64
  code_idle_thread_entry :: u64
  sc_task_kernel :: nat

definition set_th :: "nat \<Rightarrow> (chimera_thread \<Rightarrow> chimera_thread) \<Rightarrow> sched \<Rightarrow> sched" where
  "set_th t f s = s\<lparr>sc_threads := (sc_threads s)(t := f (sc_threads s t))\<rparr>"

definition set_rq :: "nat \<Rightarrow> (cpu_runq \<Rightarrow> cpu_runq) \<Rightarrow> sched \<Rightarrow> sched" where
  "set_rq c f s = s\<lparr>s_cpu_runq := (s_cpu_runq s)(c := f (s_cpu_runq s c))\<rparr>"

definition set_cpu :: "nat \<Rightarrow> (cpu_local \<Rightarrow> cpu_local) \<Rightarrow> sched \<Rightarrow> sched" where
  "set_cpu c f s = s\<lparr>g_cpu_data := (g_cpu_data s)(c := f (g_cpu_data s c))\<rparr>"

abbreviation thr :: "sched \<Rightarrow> nat \<Rightarrow> chimera_thread" where "thr s t \<equiv> sc_threads s t"

section \<open>Run queues\<close>

text \<open>The store \<^verbatim>\<open>*pp = v\<close> through a link of a run queue.\<close>
definition set_rq_link :: "nat \<Rightarrow> nat option \<Rightarrow> nat option \<Rightarrow> sched \<Rightarrow> sched" where
  "set_rq_link c link v s =
     (case link of None \<Rightarrow> set_rq c (\<lambda>q. q\<lparr>rq_head := v\<rparr>) s
      | Some p \<Rightarrow> set_th p (\<lambda>th. th\<lparr>th_next := v\<rparr>) s)"

text \<open>The loop of \<^verbatim>\<open>runq_enqueue_locked\<close>: skip every thread of at least this priority.\<close>
partial_function (option) enq_pos ::
  "(nat \<Rightarrow> chimera_thread) \<Rightarrow> nat option \<Rightarrow> nat option \<Rightarrow> u32 \<Rightarrow> (nat option \<times> nat option) option" where
  "enq_pos th prev cur pr =
     (case cur of None \<Rightarrow> Some (prev, None)
      | Some c \<Rightarrow> if pr \<le> th_priority (th c) then enq_pos th (Some c) (th_next (th c)) pr
                  else Some (prev, Some c))"

declare enq_pos.simps [code]

definition runq_enqueue_locked :: "nat \<Rightarrow> nat \<Rightarrow> sched \<Rightarrow> sched option" where
  "runq_enqueue_locked c t s = do {
     (prev, cur) \<leftarrow> enq_pos (sc_threads s) None (rq_head (s_cpu_runq s c)) (th_priority (thr s t));
     Some (set_rq c (\<lambda>q. q\<lparr>rq_count := rq_count q + 1\<rparr>)
       (set_rq_link c prev (Some t) (set_th t (\<lambda>th. th\<lparr>th_next := cur\<rparr>) s)))
   }"

definition runq_dequeue_locked :: "nat \<Rightarrow> sched \<Rightarrow> nat option \<times> sched" where
  "runq_dequeue_locked c s =
     (case rq_head (s_cpu_runq s c) of
        None \<Rightarrow> (None, s)
      | Some t \<Rightarrow> (Some t, set_rq c (\<lambda>q. q\<lparr>rq_count := rq_count q - 1\<rparr>)
          (set_th t (\<lambda>th. th\<lparr>th_next := None\<rparr>)
            (set_rq c (\<lambda>q. q\<lparr>rq_head := th_next (thr s t)\<rparr>) s))))"

definition runq_remove_locked :: "nat \<Rightarrow> nat \<Rightarrow> sched \<Rightarrow> sched option" where
  "runq_remove_locked c t s = do {
     r \<leftarrow> find_link (\<lambda>x. th_next (thr s x)) None (rq_head (s_cpu_runq s c)) t;
     case r of
       None \<Rightarrow> Some s
     | Some link \<Rightarrow>
         Some (set_rq c (\<lambda>q. q\<lparr>rq_count := (if rq_count q > 0 then rq_count q - 1 else rq_count q)\<rparr>)
           (set_th t (\<lambda>th. th\<lparr>th_next := None\<rparr>) (set_rq_link c link (th_next (thr s t)) s)))
   }"

section \<open>Stacks of new threads\<close>

text \<open>The eight words a fresh kernel stack holds for \<^verbatim>\<open>context_switch\<close>: return address, flags and
  the six callee-saved registers, pushed downwards from \<open>tos\<close>.\<close>
definition push_switch_frame :: "nat \<Rightarrow> u64 \<Rightarrow> kmem \<Rightarrow> kmem" where
  "push_switch_frame tos rip k =
     fold (\<lambda>(i, v). poke (tos - 8 * i) v)
       [(1, rip), (2, 0x202), (3, 0), (4, 0), (5, 0), (6, 0), (7, 0), (8, 0)] k"

definition idle_thread_init :: "nat \<Rightarrow> sched \<Rightarrow> sched" where
  "idle_thread_init c s =
     (if c \<ge> CHIMERA_MAX_CPUS then s
      else let t = s_cpu_idle_threads s c;
               tos = cpu_kernel_stack (g_cpu_data s c);
               th = \<lparr>th_id = 0x1D1E0000 OR word_of_nat c, th_task = Some (sc_task_kernel s),
                     th_state = THREAD_STATE_READY, th_priority = 0, th_context = 0, th_saved_sp = 0,
                     th_kernel_stack = tos, th_user_stack = 0, th_stack_base = 0, th_stack_size = 0,
                     th_base_priority = 0, th_sched_priority = 0, th_cpu_usage = 0,
                     th_running_cpu = c, th_assigned_cpu = c, th_wait_result = CHIMERA_SUCCESS,
                     th_next = None, th_wait_next = None, th_fp_state = replicate 337 0,
                     th_fp_initialized = False, th_sleep_deadline = 0\<rparr>;
               s = (if tos \<noteq> 0
                    then set_th t (\<lambda>_. th\<lparr>th_stack_base := tos - 16384, th_stack_size := 16384,
                                          th_saved_sp := tos - 64\<rparr>)
                           (s\<lparr>sc_km := push_switch_frame tos (code_idle_thread_entry s) (sc_km s)\<rparr>)
                    else set_th t (\<lambda>_. th) s)
           in set_cpu c (\<lambda>cl. cl\<lparr>cpu_idle_thread := Some t\<rparr>) s)"

text \<open>The initial XSAVE image: FCW, MXCSR with its mask, and \<^verbatim>\<open>XSTATE_BV\<close>.\<close>
definition initial_fp_state :: "u64 \<Rightarrow> u64 list" where
  "initial_fp_state bv = (replicate 337 0)[0 := 0x037F, 3 := 0x0000FFFF00001F80, 64 := bv]"

definition thread_init_stack :: "nat \<Rightarrow> u64 \<Rightarrow> u64 \<Rightarrow> sched \<Rightarrow> int \<times> sched" where
  "thread_init_stack t entry stack s =
     (let (ok, s) =
        (if th_kernel_stack (thr s t) = 0 then
           let (paddr, p) = pmm_alloc_pages 4 (km_pmm (sc_km s));
               s = s\<lparr>sc_km := (sc_km s)\<lparr>km_pmm := p\<rparr>\<rparr>
           in if paddr = PADDR_INVALID \<or> paddr = 0 then (False, s)
              else let base = km_hhdm (sc_km s) + paddr in
                (True, set_th t (\<lambda>th. th\<lparr>th_stack_base := base, th_stack_size := 4 * CHIMERA_PAGE_SIZE,
                    th_kernel_stack := base + 4 * CHIMERA_PAGE_SIZE\<rparr>) s)
         else (True, s))
      in if \<not> ok then (- 1, s)
      else let tos = th_kernel_stack (thr s t);
               s = s\<lparr>sc_km := push_switch_frame tos (code_thread_launcher s) (sc_km s)\<rparr>
           in (0, set_th t (\<lambda>th. th\<lparr>th_running_cpu := NO_CPU, th_fp_initialized := True,
                th_fp_state := initial_fp_state (sc_fpu_mask s), th_saved_sp := tos - 64,
                th_context := entry, th_user_stack := stack\<rparr>) s))"

definition thread_init_fork_stack :: "nat \<Rightarrow> u64 \<Rightarrow> u64 \<Rightarrow> sched \<Rightarrow> int \<times> sched" where
  "thread_init_fork_stack t entry stack s =
     (let (r, s) = thread_init_stack t entry stack s in
      if r \<noteq> 0 then (- 1, s)
      else (0, s\<lparr>sc_km := poke (th_saved_sp (thr s t) + 8 * 7) (code_fork_thread_launcher s) (sc_km s)\<rparr>))"

section \<open>Choosing a CPU\<close>

definition cpu_scan :: "sched \<Rightarrow> nat list" where
  "cpu_scan s = [0..<min (smp_get_cpu_count s) CHIMERA_MAX_CPUS]"

text \<open>The busiest other active CPU with more than one queued thread, the first among equals.\<close>
definition steal_target :: "nat \<Rightarrow> sched \<Rightarrow> nat option" where
  "steal_target my_cpu s =
     fst (fold (\<lambda>i (best, max_count).
            if i = my_cpu \<or> \<not> cpu_is_active (g_cpu_data s i) then (best, max_count)
            else if rq_count (s_cpu_runq s i) > max_count then (Some i, rq_count (s_cpu_runq s i))
            else (best, max_count)) (cpu_scan s) (None, 1))"

definition scheduler_steal_work :: "nat \<Rightarrow> sched \<Rightarrow> (nat option \<times> sched) option" where
  "scheduler_steal_work my_cpu s =
     (if smp_get_cpu_count s \<le> 1 then Some (None, s)
      else case steal_target my_cpu s of
        None \<Rightarrow> Some (None, s)
      | Some v \<Rightarrow>
          (case rq_head (s_cpu_runq s v) of
             None \<Rightarrow> Some (None, s)
           | Some h \<Rightarrow>
               if rq_count (s_cpu_runq s v) > 1 then do {
                 (prev, cur) \<leftarrow> last_link (\<lambda>x. th_next (thr s x)) None h;
                 Some (Some cur, set_th cur (\<lambda>th. th\<lparr>th_next := None, th_assigned_cpu := my_cpu\<rparr>)
                   (set_rq v (\<lambda>q. q\<lparr>rq_count := rq_count q - 1\<rparr>) (set_rq_link v prev None s)))
               } else Some (None, s)))"

definition scheduler_init :: "sched \<Rightarrow> sched" where
  "scheduler_init s =
     (let total = (if smp_get_cpu_count s = 0 then 1 else smp_get_cpu_count s) in
      fold (\<lambda>i s. let s = set_rq i (\<lambda>_. \<lparr>rq_head = None, rq_count = 0\<rparr>) s in
              if i < total \<and> cpu_kernel_stack (g_cpu_data s i) \<noteq> 0 then idle_thread_init i s else s)
        [0..<CHIMERA_MAX_CPUS] s)"

definition scheduler_set_initial :: "nat option \<Rightarrow> sched \<Rightarrow> sched option" where
  "scheduler_set_initial th s =
     (case th of None \<Rightarrow> Some s
      | Some t \<Rightarrow> do {
          s \<leftarrow> (if th_assigned_cpu (thr s t) < CHIMERA_MAX_CPUS
                then runq_remove_locked (th_assigned_cpu (thr s t)) t s else Some s);
          Some (set_cpu 0 (\<lambda>cl. cl\<lparr>cpu_current_thread := Some t\<rparr>)
            (set_th t (\<lambda>th. th\<lparr>th_running_cpu := 0, th_assigned_cpu := 0,
               th_state := THREAD_STATE_RUNNING\<rparr>) s))
        })"

text \<open>The least loaded CPU: CPU 0 or an active one, the first among equals.\<close>
definition least_loaded :: "sched \<Rightarrow> nat" where
  "least_loaded s =
     fst (fold (\<lambda>i (target, min_count).
            if \<not> cpu_is_active (g_cpu_data s i) \<and> i \<noteq> 0 then (target, min_count)
            else if rq_count (s_cpu_runq s i) < min_count then (i, rq_count (s_cpu_runq s i))
            else (target, min_count)) (cpu_scan s) (0, 0xFFFFFFFF))"

text \<open>The interrupt that tells an idle CPU to look at its queue.\<close>
definition kick_if_idle :: "nat \<Rightarrow> sched \<Rightarrow> sched" where
  "kick_if_idle c s =
     (if cpu_current_thread (g_cpu_data s c) = None
         \<or> cpu_current_thread (g_cpu_data s c) = cpu_idle_thread (g_cpu_data s c)
      then s\<lparr>sc_ipis := c # sc_ipis s\<rparr> else s)"

definition scheduler_add_thread :: "nat option \<Rightarrow> sched \<Rightarrow> (int \<times> sched) option" where
  "scheduler_add_thread th s =
     (case th of None \<Rightarrow> Some (- 1, s)
      | Some t \<Rightarrow>
          let base = (if th_base_priority (thr s t) = 0 then 32 else th_base_priority (thr s t));
              s = set_th t (\<lambda>th. th\<lparr>th_base_priority := base, th_sched_priority := base,
                    th_priority := base, th_cpu_usage := 0, th_running_cpu := NO_CPU,
                    th_state := THREAD_STATE_READY\<rparr>) s;
              target = least_loaded s;
              s = set_th t (\<lambda>th. th\<lparr>th_assigned_cpu := target\<rparr>) s
          in do { s \<leftarrow> runq_enqueue_locked target t s; Some (0, kick_if_idle target s) })"

definition scheduler_remove_thread :: "nat option \<Rightarrow> sched \<Rightarrow> sched option" where
  "scheduler_remove_thread th s =
     (case th of None \<Rightarrow> Some s
      | Some t \<Rightarrow>
          let s = set_th t (\<lambda>th. th\<lparr>th_state := THREAD_STATE_HALTED\<rparr>) s;
              target = th_assigned_cpu (thr s t)
          in if target < CHIMERA_MAX_CPUS then runq_remove_locked target t s else Some s)"

definition current_thread :: "nat \<Rightarrow> sched \<Rightarrow> nat option" where
  "current_thread my_cpu s = cpu_current_thread (g_cpu_data s my_cpu)"

section \<open>Switching\<close>

text \<open>Ageing of the thread that gives up the CPU.\<close>
definition age_thread :: "chimera_thread \<Rightarrow> chimera_thread" where
  "age_thread th =
     (let pr = (if th_sched_priority th > th_base_priority th div 2 then th_sched_priority th - 1
                else th_sched_priority th)
      in th\<lparr>th_cpu_usage := th_cpu_usage th + 1, th_sched_priority := pr, th_priority := pr\<rparr>)"

text \<open>The part of \<^verbatim>\<open>scheduler_yield\<close> under the lock of the own run queue.\<close>
definition yield_requeue :: "nat \<Rightarrow> sched \<Rightarrow> sched option" where
  "yield_requeue my_cpu s =
     (let idle = cpu_idle_thread (g_cpu_data s my_cpu) in
      case current_thread my_cpu s of
        None \<Rightarrow> Some s
      | Some t \<Rightarrow>
          if Some t = idle then Some s
          else let s = set_th t age_thread s in
            if th_state (thr s t) = THREAD_STATE_RUNNING
            then runq_enqueue_locked my_cpu t (set_th t (\<lambda>th. th\<lparr>th_state := THREAD_STATE_READY\<rparr>) s)
            else Some s)"

definition yield_pick :: "nat \<Rightarrow> sched \<Rightarrow> (nat option \<times> sched) option" where
  "yield_pick my_cpu s =
     (let (new, s) = runq_dequeue_locked my_cpu s in
      do {
        (new, s) \<leftarrow> (if new = None then scheduler_steal_work my_cpu s else Some (new, s));
        Some (if new = None then cpu_idle_thread (g_cpu_data s my_cpu) else new, s)
      })"

text \<open>The rest: install \<open>new\<close> on the CPU and run \<^verbatim>\<open>context_switch\<close>, which hands the old thread
  back by setting its \<^verbatim>\<open>th_running_cpu\<close> to 0xFFFFFFFF.\<close>
definition thread_cr3 :: "nat \<Rightarrow> sched \<Rightarrow> u64" where
  "thread_cr3 t s =
     (case th_task (thr s t) of
        Some ta \<Rightarrow> if ta_vm_map (sc_tasks s ta) \<noteq> 0 then ta_vm_map (sc_tasks s ta) else pmap_kernel_pml4 s
      | None \<Rightarrow> pmap_kernel_pml4 s)"

definition yield_switch :: "nat \<Rightarrow> nat option \<Rightarrow> nat \<Rightarrow> sched \<Rightarrow> sched option" where
  "yield_switch my_cpu old new s =
     (let idle = cpu_idle_thread (g_cpu_data s my_cpu) in
      if Some new \<noteq> idle \<and> th_running_cpu (thr s new) \<noteq> NO_CPU then None
      else let s = (if Some new \<noteq> idle
                    then set_th new (\<lambda>th. th\<lparr>th_state := THREAD_STATE_RUNNING, th_running_cpu := my_cpu,
                                             th_assigned_cpu := my_cpu\<rparr>) s
                    else s);
               cr3 = thread_cr3 new s;
               s = set_cpu my_cpu (\<lambda>cl. cl\<lparr>cpu_current_thread := Some new,
                     cpu_rsp0 := (if th_kernel_stack (thr s new) \<noteq> 0 then th_kernel_stack (thr s new)
                                  else cpu_rsp0 cl),
                     cpu_active_cr3 := cr3 AND 0x000FFFFFFFFFF000\<rparr>) s;
               s = s\<lparr>sc_cr3 := (sc_cr3 s)(my_cpu := cr3)\<rparr>
           in Some (case old of
                Some t \<Rightarrow> if Some t \<noteq> idle then set_th t (\<lambda>th. th\<lparr>th_running_cpu := NO_CPU\<rparr>) s else s
              | None \<Rightarrow> s))"

definition scheduler_yield :: "nat \<Rightarrow> sched \<Rightarrow> sched option" where
  "scheduler_yield my_cpu s =
     (let idle = cpu_idle_thread (g_cpu_data s my_cpu); old = current_thread my_cpu s in
      do {
        s \<leftarrow> yield_requeue my_cpu s;
        (new, s) \<leftarrow> yield_pick my_cpu s;
        if new = old then
          Some (case old of
             Some t \<Rightarrow> if Some t \<noteq> idle then set_th t (\<lambda>th. th\<lparr>th_state := THREAD_STATE_RUNNING\<rparr>) s else s
           | None \<Rightarrow> s)
        else case new of None \<Rightarrow> None | Some n \<Rightarrow> yield_switch my_cpu old n s
      })"

section \<open>Waking\<close>

definition boosted :: "u32 \<Rightarrow> u32" where
  "boosted base = (if base + 16 > 95 then 95 else base + 16)"

definition wake_target :: "nat \<Rightarrow> nat \<Rightarrow> sched \<Rightarrow> nat" where
  "wake_target my_cpu t s =
     (let c = th_assigned_cpu (thr s t) in
      if c \<ge> smp_get_cpu_count s \<or> (c \<noteq> 0 \<and> \<not> cpu_is_active (g_cpu_data s c)) then my_cpu else c)"

definition thread_wake :: "nat \<Rightarrow> nat option \<Rightarrow> sched \<Rightarrow> sched option" where
  "thread_wake my_cpu th s =
     (case th of None \<Rightarrow> Some s
      | Some t \<Rightarrow>
          if th_state (thr s t) \<noteq> THREAD_STATE_WAITING then Some s
          else let b = boosted (th_base_priority (thr s t));
                   target = wake_target my_cpu t s;
                   s = set_th t (\<lambda>th. th\<lparr>th_state := THREAD_STATE_READY, th_sched_priority := b,
                         th_priority := b, th_assigned_cpu := target\<rparr>) s
               in do { s \<leftarrow> runq_enqueue_locked target t s; Some (kick_if_idle target s) })"

section \<open>The timer sleep list\<close>

definition set_sleep_link :: "nat option \<Rightarrow> nat option \<Rightarrow> sched \<Rightarrow> sched" where
  "set_sleep_link link v s =
     (case link of None \<Rightarrow> s\<lparr>s_sleep_list := v\<rparr>
      | Some p \<Rightarrow> set_th p (\<lambda>th. th\<lparr>th_wait_next := v\<rparr>) s)"

definition get_sleep_link :: "nat option \<Rightarrow> sched \<Rightarrow> nat option" where
  "get_sleep_link link s = (case link of None \<Rightarrow> s_sleep_list s | Some p \<Rightarrow> th_wait_next (thr s p))"

definition sleep_list_remove :: "nat \<Rightarrow> sched \<Rightarrow> sched option" where
  "sleep_list_remove t s = do {
     r \<leftarrow> find_link (\<lambda>x. th_wait_next (thr s x)) None (s_sleep_list s) t;
     case r of
       None \<Rightarrow> Some s
     | Some link \<Rightarrow> Some (set_th t (\<lambda>th. th\<lparr>th_wait_next := None\<rparr>)
                          (set_sleep_link link (th_wait_next (thr s t)) s))
   }"

definition thread_sleep_list_add :: "nat option \<Rightarrow> u64 \<Rightarrow> sched \<Rightarrow> sched option" where
  "thread_sleep_list_add th deadline s =
     (case th of None \<Rightarrow> Some s
      | Some t \<Rightarrow> do {
          s \<leftarrow> sleep_list_remove t s;
          Some ((set_th t (\<lambda>th. th\<lparr>th_sleep_deadline := deadline, th_wait_next := s_sleep_list s\<rparr>) s)
                \<lparr>s_sleep_list := Some t\<rparr>)
        })"

definition thread_sleep_until :: "nat \<Rightarrow> u64 \<Rightarrow> sched \<Rightarrow> sched option" where
  "thread_sleep_until my_cpu deadline s =
     (case current_thread my_cpu s of None \<Rightarrow> Some s
      | Some t \<Rightarrow> do {
          s \<leftarrow> sleep_list_remove t s;
          scheduler_yield my_cpu
            ((set_th t (\<lambda>th. th\<lparr>th_sleep_deadline := deadline, th_wait_next := s_sleep_list s,
                th_state := THREAD_STATE_WAITING\<rparr>) s)\<lparr>s_sleep_list := Some t\<rparr>)
        })"

text \<open>\<^verbatim>\<open>(i64)(deadline - now) <= 0\<close>, a comparison that survives wrap-around of the clock.\<close>
definition expired_at :: "u64 \<Rightarrow> chimera_thread \<Rightarrow> bool" where
  "expired_at now th \<longleftrightarrow> sint (th_sleep_deadline th - now) \<le> 0"

partial_function (option) timer_scan ::
  "u64 \<Rightarrow> nat option \<Rightarrow> nat option \<Rightarrow> sched \<Rightarrow> (nat option \<times> sched) option" where
  "timer_scan now link expired s =
     (case get_sleep_link link s of
        None \<Rightarrow> Some (expired, s)
      | Some t \<Rightarrow>
          if expired_at now (thr s t)
          then timer_scan now link (Some t)
                 (set_th t (\<lambda>th. th\<lparr>th_wait_next := expired\<rparr>) (set_sleep_link link (th_wait_next (thr s t)) s))
          else timer_scan now (Some t) expired s)"

partial_function (option) wake_expired :: "nat \<Rightarrow> nat option \<Rightarrow> sched \<Rightarrow> sched option" where
  "wake_expired my_cpu expired s =
     (case expired of None \<Rightarrow> Some s
      | Some t \<Rightarrow> Option.bind
          (thread_wake my_cpu (Some t) (set_th t (\<lambda>th. th\<lparr>th_wait_next := None\<rparr>) s))
          (wake_expired my_cpu (th_wait_next (thr s t))))"

declare timer_scan.simps [code] wake_expired.simps [code]

definition timer_wake_sleepers :: "nat \<Rightarrow> u64 \<Rightarrow> sched \<Rightarrow> sched option" where
  "timer_wake_sleepers my_cpu now s = do {
     (expired, s) \<leftarrow> timer_scan now None None s;
     wake_expired my_cpu expired s
   }"

section \<open>Starting the CPUs\<close>

definition scheduler_ap_run :: "nat \<Rightarrow> sched \<Rightarrow> sched option" where
  "scheduler_ap_run my_cpu s =
     (case cpu_idle_thread (g_cpu_data s my_cpu) of
        None \<Rightarrow> None
      | Some idle \<Rightarrow>
          scheduler_yield my_cpu
            (set_cpu my_cpu (\<lambda>cl. cl\<lparr>cpu_current_thread := Some idle,
                cpu_rsp0 := th_kernel_stack (thr s idle),
                cpu_active_cr3 := pmap_kernel_pml4 s AND 0x000FFFFFFFFFF000\<rparr>)
              (set_th idle (\<lambda>th. th\<lparr>th_state := THREAD_STATE_RUNNING\<rparr>) s)))"

definition scheduler_run :: "u64 \<Rightarrow> sched \<Rightarrow> sched" where
  "scheduler_run current_cr3 s =
     (case current_thread 0 s of
        None \<Rightarrow> s
      | Some t \<Rightarrow>
          let cr3 = (case th_task (thr s t) of
                       Some ta \<Rightarrow> if ta_vm_map (sc_tasks s ta) \<noteq> 0 then ta_vm_map (sc_tasks s ta) else current_cr3
                     | None \<Rightarrow> current_cr3);
              s = set_th t (\<lambda>th. th\<lparr>th_state := THREAD_STATE_RUNNING, th_running_cpu := 0,
                    th_assigned_cpu := 0\<rparr>) s;
              s = set_cpu 0 (\<lambda>cl. cl\<lparr>cpu_current_thread := Some t, cpu_rsp0 := th_kernel_stack (thr s t),
                    cpu_active_cr3 := cr3 AND 0x000FFFFFFFFFF000\<rparr>) s
          in s\<lparr>sc_cr3 := (sc_cr3 s)(0 := cr3)\<rparr>)"

end
