(* ===== verification/Sched_Correct.thy ===== *)
theory Sched_Correct
  imports Sched
begin

text \<open>
  Correctness of the scheduler. \<open>rq_inv s Q X\<close> says that the run queue of CPU \<open>c\<close> is the list
  \<open>Q c\<close>, sorted by falling priority and as long as its counter says, and that the queued threads
  are exactly the \<^verbatim>\<open>READY\<close> threads other than the idle threads and \<open>X\<close>, each on one queue only.
\<close>

section \<open>Field updates\<close>

lemma set_th_simps [simp]:
  "thr (set_th t f s) x = (if x = t then f (thr s t) else thr s x)"
  "s_cpu_runq (set_th t f s) = s_cpu_runq s" "g_cpu_data (set_th t f s) = g_cpu_data s"
  "s_sleep_list (set_th t f s) = s_sleep_list s" "smp_get_cpu_count (set_th t f s) = smp_get_cpu_count s"
  "sc_ipis (set_th t f s) = sc_ipis s" "sc_tasks (set_th t f s) = sc_tasks s"
  by (simp_all add: set_th_def)

lemma set_rq_simps [simp]:
  "sc_threads (set_rq c f s) = sc_threads s" "g_cpu_data (set_rq c f s) = g_cpu_data s"
  "s_cpu_runq (set_rq c f s) = (s_cpu_runq s)(c := f (s_cpu_runq s c))"
  "s_sleep_list (set_rq c f s) = s_sleep_list s" "smp_get_cpu_count (set_rq c f s) = smp_get_cpu_count s"
  by (simp_all add: set_rq_def)

lemma set_cpu_simps [simp]:
  "sc_threads (set_cpu c f s) = sc_threads s" "s_cpu_runq (set_cpu c f s) = s_cpu_runq s"
  "g_cpu_data (set_cpu c f s) = (g_cpu_data s)(c := f (g_cpu_data s c))"
  "s_sleep_list (set_cpu c f s) = s_sleep_list s" "smp_get_cpu_count (set_cpu c f s) = smp_get_cpu_count s"
  by (simp_all add: set_cpu_def)

text \<open>Every change a run queue operation makes: new links and new queue headers.\<close>
definition relink :: "(nat \<Rightarrow> nat option) \<Rightarrow> (nat \<Rightarrow> cpu_runq) \<Rightarrow> sched \<Rightarrow> sched" where
  "relink nx rq s = s\<lparr>sc_threads := (\<lambda>x. (thr s x)\<lparr>th_next := nx x\<rparr>), s_cpu_runq := rq\<rparr>"

abbreviation nexts :: "sched \<Rightarrow> nat \<Rightarrow> nat option" where "nexts s x \<equiv> th_next (thr s x)"

lemma relink_simps [simp]:
  "thr (relink nx rq s) x = (thr s x)\<lparr>th_next := nx x\<rparr>" "s_cpu_runq (relink nx rq s) = rq"
  "g_cpu_data (relink nx rq s) = g_cpu_data s" "s_sleep_list (relink nx rq s) = s_sleep_list s"
  "smp_get_cpu_count (relink nx rq s) = smp_get_cpu_count s" "sc_ipis (relink nx rq s) = sc_ipis s"
  by (simp_all add: relink_def)

lemma relink_relink [simp]: "relink nx rq (relink nx' rq' s) = relink nx rq s"
  by (simp add: relink_def)

lemma relink_self: "relink (nexts s) (s_cpu_runq s) s = s"
  by (simp add: relink_def)

lemma set_th_next_relink:
  "set_th t (\<lambda>th. th\<lparr>th_next := v\<rparr>) (relink nx rq s) = relink (nx(t := v)) rq s"
  by (simp add: relink_def set_th_def fun_eq_iff)

lemma set_rq_relink: "set_rq c f (relink nx rq s) = relink nx (rq(c := f (rq c))) s"
  by (simp add: relink_def set_rq_def)

lemma set_rq_link_relink:
  "set_rq_link c link v (relink nx rq s) =
     (case link of None \<Rightarrow> relink nx (rq(c := (rq c)\<lparr>rq_head := v\<rparr>)) s
      | Some p \<Rightarrow> relink (nx(p := v)) rq s)"
  by (simp add: set_rq_link_def set_rq_relink set_th_next_relink split: option.split)

section \<open>The invariant of the run queues\<close>

definition idles :: "sched \<Rightarrow> nat set" where
  "idles s = {t. \<exists>c. cpu_idle_thread (g_cpu_data s c) = Some t}"

definition queue :: "sched \<Rightarrow> nat \<Rightarrow> nat list \<Rightarrow> bool" where
  "queue s c xs \<longleftrightarrow> chain (nexts s) (rq_head (s_cpu_runq s c)) xs \<and> rq_count (s_cpu_runq s c) = length xs
     \<and> sorted_wrt (\<lambda>x y. th_priority (thr s y) \<le> th_priority (thr s x)) xs"

definition rq_inv :: "sched \<Rightarrow> (nat \<Rightarrow> nat list) \<Rightarrow> nat set \<Rightarrow> bool" where
  "rq_inv s Q X \<longleftrightarrow> (\<forall>c. queue s c (Q c)) \<and> (\<forall>c d. c \<noteq> d \<longrightarrow> set (Q c) \<inter> set (Q d) = {})
     \<and> (\<forall>t. (\<exists>c. t \<in> set (Q c)) \<longleftrightarrow> th_state (thr s t) = THREAD_STATE_READY \<and> t \<notin> idles s \<and> t \<notin> X)"

text \<open>Insertion behind every thread of at least the same priority.\<close>
definition enq :: "sched \<Rightarrow> nat \<Rightarrow> nat list \<Rightarrow> nat list" where
  "enq s t xs = takeWhile (\<lambda>x. th_priority (thr s t) \<le> th_priority (thr s x)) xs @ t #
     dropWhile (\<lambda>x. th_priority (thr s t) \<le> th_priority (thr s x)) xs"

lemma set_enq [simp]: "set (enq s t xs) = insert t (set xs)"
proof -
  let ?P = "\<lambda>x. th_priority (thr s t) \<le> th_priority (thr s x)"
  have "set (takeWhile ?P xs) \<union> set (dropWhile ?P xs) = set xs"
    by (metis set_append takeWhile_dropWhile_id)
  then show ?thesis by (auto simp: enq_def)
qed

lemma length_enq [simp]: "length (enq s t xs) = Suc (length xs)"
proof -
  let ?P = "\<lambda>x. th_priority (thr s t) \<le> th_priority (thr s x)"
  have "length (takeWhile ?P xs) + length (dropWhile ?P xs) = length xs"
    by (metis length_append takeWhile_dropWhile_id)
  then show ?thesis by (simp add: enq_def)
qed

lemma sorted_enq:
  assumes "sorted_wrt (\<lambda>x y. th_priority (thr s y) \<le> th_priority (thr s x)) xs"
  shows "sorted_wrt (\<lambda>x y. th_priority (thr s y) \<le> th_priority (thr s x)) (enq s t xs)"
  using assms
proof (induction xs)
  case (Cons x xs)
  show ?case
  proof (cases "th_priority (thr s t) \<le> th_priority (thr s x)")
    case True
    then have "enq s t (x # xs) = x # enq s t xs" by (simp add: enq_def)
    then show ?thesis using Cons True by auto
  next
    case False
    then have "enq s t (x # xs) = t # x # xs" by (simp add: enq_def)
    then show ?thesis using Cons.prems False by (auto intro: order_trans)
  qed
qed (simp add: enq_def)

lemma enq_pos_ok:
  "chain (\<lambda>x. th_next (th x)) cur xs \<Longrightarrow>
   enq_pos th prev cur pr = Some (link_of prev (takeWhile (\<lambda>x. pr \<le> th_priority (th x)) xs),
     (case dropWhile (\<lambda>x. pr \<le> th_priority (th x)) xs of [] \<Rightarrow> None | x # _ \<Rightarrow> Some x))"
proof (induction xs arbitrary: cur prev)
  case Nil then show ?case by (simp add: enq_pos.simps link_of_def)
next
  case (Cons x xs)
  then show ?case by (subst enq_pos.simps) (auto simp: link_of_def)
qed

lemma enqueue_relink:
  assumes ch: "chain (nexts s) (rq_head (s_cpu_runq s c)) xs" and t: "t \<notin> set xs"
  shows "\<exists>nx rq. runq_enqueue_locked c t s = Some (relink nx rq s)
    \<and> chain nx (rq_head (rq c)) (enq s t xs) \<and> rq_count (rq c) = rq_count (s_cpu_runq s c) + 1
    \<and> (\<forall>x. x \<notin> insert t (set xs) \<longrightarrow> nx x = nexts s x) \<and> (\<forall>d. d \<noteq> c \<longrightarrow> rq d = s_cpu_runq s d)"
proof -
  let ?P = "\<lambda>x. th_priority (thr s t) \<le> th_priority (thr s x)"
  define us vs where "us = takeWhile ?P xs" and "vs = dropWhile ?P xs"
  have xs: "xs = us @ vs" by (simp add: us_def vs_def)
  define m where "m = (case vs of [] \<Rightarrow> None | x # _ \<Rightarrow> Some x)"
  obtain m' where "seg (nexts s) (rq_head (s_cpu_runq s c)) us m'" "chain (nexts s) m' vs"
    using ch unfolding xs seg_append by blast
  then have sg: "seg (nexts s) (rq_head (s_cpu_runq s c)) us m" "chain (nexts s) m vs"
    using chain_head unfolding m_def by metis+
  have tn: "t \<notin> set us" "t \<notin> set vs" and d: "distinct (us @ vs)" using t chain_distinct [OF ch] by (auto simp: xs)
  note ins = chain_insert [OF sg tn d]
  have e: "enq_pos (sc_threads s) None (rq_head (s_cpu_runq s c)) (th_priority (thr s t)) = Some (link_of None us, m)"
    using enq_pos_ok [OF ch, of None "th_priority (thr s t)"] by (simp add: us_def vs_def m_def)
  let ?nx = "(if us = [] then nexts s else (nexts s)(last us := Some t))(t := m)"
  let ?rq = "(s_cpu_runq s)(c := (if us = [] then (s_cpu_runq s c)\<lparr>rq_head := Some t\<rparr> else s_cpu_runq s c)
       \<lparr>rq_count := rq_count (s_cpu_runq s c) + 1\<rparr>)"
  have tl: "(nexts s)(t := m, last us \<mapsto> t) = (nexts s)(last us \<mapsto> t, t := m)" if "us \<noteq> []"
    using that tn(1) by (intro fun_upd_twist) auto
  have "runq_enqueue_locked c t s = Some (relink ?nx ?rq s)"
    using set_th_next_relink [of t m "nexts s" "s_cpu_runq s" s]
    by (simp add: runq_enqueue_locked_def e relink_self link_of_def set_rq_link_relink set_rq_relink tl)
  moreover have "chain ?nx (rq_head (?rq c)) (enq s t xs)"
    using ins by (cases "us = []") (simp_all add: enq_def flip: us_def vs_def)
  moreover have "last us \<in> set xs" if "us \<noteq> []" using that by (simp add: xs)
  ultimately show ?thesis by (intro exI [of _ ?nx] exI [of _ ?rq]) auto
qed


section \<open>Operations on the run queues\<close>

lemma queue_frame:
  assumes "queue s d ys" and "s_cpu_runq s' d = s_cpu_runq s d" and "\<And>x. x \<in> set ys \<Longrightarrow> nexts s' x = nexts s x"
    and "\<And>x. x \<in> set ys \<Longrightarrow> th_priority (thr s' x) = th_priority (thr s x)"
  shows "queue s' d ys"
proof -
  have "seg (nexts s') h ys None = seg (nexts s) h ys None" for h
    using assms(3) by (rule seg_cong)
  moreover have "sorted_wrt (\<lambda>x y. th_priority (thr s' y) \<le> th_priority (thr s' x)) ys
      = sorted_wrt (\<lambda>x y. th_priority (thr s y) \<le> th_priority (thr s x)) ys"
    using assms(4) by (intro iffI; elim sorted_wrt_mono_rel [rotated]) auto
  ultimately show ?thesis using assms(1,2) by (simp add: queue_def)
qed

lemma queue_relink:
  "queue (relink nx rq s) c xs \<longleftrightarrow> chain nx (rq_head (rq c)) xs \<and> rq_count (rq c) = length xs
     \<and> sorted_wrt (\<lambda>x y. th_priority (thr s y) \<le> th_priority (thr s x)) xs"
  by (simp add: queue_def)

lemma rq_invI:
  assumes "\<And>c. queue s c (Q c)" and "\<And>c d x. x \<in> set (Q c) \<Longrightarrow> x \<in> set (Q d) \<Longrightarrow> c = d"
    and "\<And>t. (\<exists>c. t \<in> set (Q c)) \<longleftrightarrow> th_state (thr s t) = THREAD_STATE_READY \<and> t \<notin> idles s \<and> t \<notin> X"
  shows "rq_inv s Q X"
  using assms unfolding rq_inv_def by blast

lemma rq_invD:
  assumes "rq_inv s Q X"
  shows "x \<in> set (Q c) \<Longrightarrow> x \<in> set (Q d) \<Longrightarrow> c = d"
    and "(\<exists>c. t \<in> set (Q c)) \<longleftrightarrow> th_state (thr s t) = THREAD_STATE_READY \<and> t \<notin> idles s \<and> t \<notin> X"
  using assms unfolding rq_inv_def by blast+

lemma rq_inv_queue: "rq_inv s Q X \<Longrightarrow> queue s c (Q c)"
  by (simp add: rq_inv_def)

lemma enqueue_ok:
  assumes inv: "rq_inv s Q X" and t: "t \<in> X" "th_state (thr s t) = THREAD_STATE_READY" "t \<notin> idles s"
  shows "\<exists>nx rq. runq_enqueue_locked c t s = Some (relink nx rq s)
    \<and> rq_inv (relink nx rq s) (Q(c := enq s t (Q c))) (X - {t})"
proof -
  have q: "queue s c (Q c)" using rq_inv_queue [OF inv] .
  have tn: "\<forall>d. t \<notin> set (Q d)" using inv t(1) unfolding rq_inv_def by blast
  obtain nx rq where r: "runq_enqueue_locked c t s = Some (relink nx rq s)"
    "chain nx (rq_head (rq c)) (enq s t (Q c))" "rq_count (rq c) = rq_count (s_cpu_runq s c) + 1"
    "\<forall>x. x \<notin> insert t (set (Q c)) \<longrightarrow> nx x = nexts s x" "\<forall>d. d \<noteq> c \<longrightarrow> rq d = s_cpu_runq s d"
    using enqueue_relink [of s c "Q c" t] q tn unfolding queue_def by blast
  have "queue (relink nx rq s) d ((Q(c := enq s t (Q c))) d)" for d
  proof (cases "d = c")
    case True
    then show ?thesis using q r(2,3) sorted_enq by (simp add: queue_def)
  next
    case False
    have "set (Q d) \<inter> set (Q c) = {}" using inv False unfolding rq_inv_def by blast
    then show ?thesis
      using False r(4,5) tn by (auto intro!: queue_frame [OF rq_inv_queue [OF inv, of d]])
  qed
  moreover have "\<And>a b. a \<noteq> b \<Longrightarrow> set (Q a) \<inter> set (Q b) = {}"
    "\<And>x. (\<exists>c. x \<in> set (Q c)) \<longleftrightarrow> th_state (thr s x) = THREAD_STATE_READY \<and> x \<notin> idles s \<and> x \<notin> X"
    using inv unfolding rq_inv_def by blast+
  moreover have "(\<exists>d. x \<in> set ((Q(c := enq s t (Q c))) d)) \<longleftrightarrow> x = t \<or> (\<exists>d. x \<in> set (Q d))" for x by auto
  moreover have "idles (relink nx rq s) = idles s" by (simp add: idles_def)
  ultimately have "rq_inv (relink nx rq s) (Q(c := enq s t (Q c))) (X - {t})"
    using t tn unfolding rq_inv_def by auto
  with r(1) show ?thesis by blast
qed

text \<open>Taking a thread out of the middle of a queue.\<close>
definition unlinked :: "nat \<Rightarrow> nat list \<Rightarrow> nat \<Rightarrow> sched \<Rightarrow> sched" where
  "unlinked c us t s = relink ((if us = [] then nexts s else (nexts s)(last us := nexts s t))(t := None))
     ((s_cpu_runq s)(c := (if us = [] then (s_cpu_runq s c)\<lparr>rq_head := nexts s t\<rparr> else s_cpu_runq s c)
        \<lparr>rq_count := rq_count (s_cpu_runq s c) - 1\<rparr>)) s"

lemma unlinked_ok:
  assumes inv: "rq_inv s Q X" and Q: "Q c = us @ t # vs"
  shows "rq_inv (unlinked c us t s) (Q(c := us @ vs)) (insert t X)"
proof -
  have q: "queue s c (us @ t # vs)" using rq_inv_queue [OF inv, of c] Q by simp
  then have ch: "chain (nexts s) (rq_head (s_cpu_runq s c)) (us @ t # vs)" by (simp add: queue_def)
  note del = chain_delete [OF ch]
  have d: "distinct (us @ t # vs)" using chain_distinct [OF ch] .
  have dis: "\<And>a b. a \<noteq> b \<Longrightarrow> set (Q a) \<inter> set (Q b) = {}"
    and mem: "\<And>x. (\<exists>c. x \<in> set (Q c)) \<longleftrightarrow> th_state (thr s x) = THREAD_STATE_READY \<and> x \<notin> idles s \<and> x \<notin> X"
    using inv unfolding rq_inv_def by blast+
  have "queue (unlinked c us t s) e ((Q(c := us @ vs)) e)" for e
  proof (cases "e = c")
    case True
    have "sorted_wrt (\<lambda>x y. th_priority (thr s y) \<le> th_priority (thr s x)) (us @ vs)"
      using q by (auto simp: queue_def sorted_wrt_append)
    then show ?thesis
      using True q del by (cases "us = []") (simp_all add: queue_relink unlinked_def queue_def [of s] fun_upd_same del: fun_upd_apply)
  next
    case False
    then have "set (Q e) \<inter> set (us @ t # vs) = {}" using dis [of e c] Q by simp
    moreover from this have "last us \<notin> set (Q e)" if "us \<noteq> []" using last_in_set [OF that] by auto
    ultimately show ?thesis
      using False by (auto simp: unlinked_def intro!: queue_frame [OF rq_inv_queue [OF inv, of e]])
  qed
  moreover have set: "set ((Q(c := us @ vs)) a) = set (Q a) - {t}" for a
    using dis [of a c] d Q by (auto simp: fun_upd_def)
  moreover have "idles (unlinked c us t s) = idles s" by (simp add: idles_def unlinked_def)
  moreover have "th_state (thr (unlinked c us t s) x) = th_state (thr s x)" for x by (simp add: unlinked_def)
  ultimately show ?thesis
    using rq_invD [OF inv] by (intro rq_invI) (simp_all only: Diff_iff, auto)
qed

lemma dequeue_ok:
  assumes "rq_inv s Q X"
  shows "runq_dequeue_locked c s = (case Q c of [] \<Rightarrow> (None, s) | t # ts \<Rightarrow> (Some t, unlinked c [] t s))"
proof (cases "Q c")
  case (Cons t ts)
  then have "rq_head (s_cpu_runq s c) = Some t" using rq_inv_queue [OF assms, of c] by (simp add: queue_def)
  moreover have "set_th t (\<lambda>th. th\<lparr>th_next := None\<rparr>) (set_rq c (\<lambda>q. q\<lparr>rq_head := nexts s t\<rparr>) s)
      = relink ((nexts s)(t := None)) ((s_cpu_runq s)(c := (s_cpu_runq s c)\<lparr>rq_head := nexts s t\<rparr>)) s"
    using set_rq_relink [of c _ "nexts s" "s_cpu_runq s" s] by (simp add: relink_self set_th_next_relink)
  ultimately show ?thesis using Cons by (simp add: runq_dequeue_locked_def unlinked_def set_rq_relink)
qed (use rq_inv_queue [OF assms, of c] in \<open>simp add: queue_def runq_dequeue_locked_def\<close>)

lemma remove_ok:
  assumes inv: "rq_inv s Q X"
  shows "t \<notin> set (Q c) \<Longrightarrow> runq_remove_locked c t s = Some s"
    and "Q c = us @ t # vs \<Longrightarrow> runq_remove_locked c t s = Some (unlinked c us t s)"
proof -
  have ch: "chain (nexts s) (rq_head (s_cpu_runq s c)) (Q c)" and cnt: "rq_count (s_cpu_runq s c) = length (Q c)"
    using rq_inv_queue [OF inv, of c] by (simp_all add: queue_def)
  show "t \<notin> set (Q c) \<Longrightarrow> runq_remove_locked c t s = Some s"
    using find_link_miss [OF ch] by (simp add: runq_remove_locked_def)
  assume Q: "Q c = us @ t # vs"
  then have d: "distinct (us @ t # vs)" and sg: "seg (nexts s) (rq_head (s_cpu_runq s c)) us (Some t)"
    using chain_distinct [OF ch] ch by (auto simp: seg_append)
  have "find_link (nexts s) None (rq_head (s_cpu_runq s c)) t = Some (Some (link_of None us))"
    using find_link_hit [OF sg] d by simp
  moreover have "set_rq_link c (link_of None us) (nexts s t) s = relink (if us = [] then nexts s else (nexts s)(last us := nexts s t))
      (if us = [] then (s_cpu_runq s)(c := (s_cpu_runq s c)\<lparr>rq_head := nexts s t\<rparr>) else s_cpu_runq s) s"
    using set_rq_link_relink [of c "link_of None us" "nexts s t" "nexts s" "s_cpu_runq s" s]
    by (simp add: relink_self link_of_def)
  ultimately show "runq_remove_locked c t s = Some (unlinked c us t s)"
    using cnt Q by (simp add: runq_remove_locked_def set_th_next_relink set_rq_relink unlinked_def)
qed

section \<open>Work stealing\<close>

lemma fold_argmax_in:
  "fst (fold (\<lambda>i (b, m). if A i then (b, m) else if f i > m then (Some i, f i) else (b, m)) xs (b0, m0)) = Some i \<Longrightarrow>
   b0 = Some i \<or> (i \<in> set xs \<and> \<not> A i \<and> f i > m0)" for f :: "nat \<Rightarrow> nat"
proof (induction xs arbitrary: b0 m0)
  case (Cons x xs)
  show ?case
    using Cons.IH [of b0 m0] Cons.IH [of "Some x" "f x"] Cons.prems
    by (cases "A x"; cases "f x > m0") auto
qed simp

lemma steal_target_in:
  assumes "steal_target my_cpu s = Some v"
  shows "v < CHIMERA_MAX_CPUS" and "v < smp_get_cpu_count s" and "v \<noteq> my_cpu"
    and "cpu_is_active (g_cpu_data s v)" and "rq_count (s_cpu_runq s v) > 1"
  using fold_argmax_in [where A = "\<lambda>i. i = my_cpu \<or> \<not> cpu_is_active (g_cpu_data s i)"
      and f = "\<lambda>i. rq_count (s_cpu_runq s i)" and xs = "cpu_scan s" and ?b0.0 = None and ?m0.0 = 1 and i = v]
    assms by (auto simp: steal_target_def cpu_scan_def)

lemma steal_ok:
  assumes inv: "rq_inv s Q X"
  shows "scheduler_steal_work my_cpu s = Some (None, s) \<or>
    (\<exists>v us t. v \<noteq> my_cpu \<and> v < CHIMERA_MAX_CPUS \<and> Q v = us @ [t] \<and> us \<noteq> [] \<and> scheduler_steal_work my_cpu s =
       Some (Some t, set_th t (\<lambda>th. th\<lparr>th_assigned_cpu := my_cpu\<rparr>) (unlinked v us t s)))"
proof (cases "smp_get_cpu_count s \<le> 1 \<or> steal_target my_cpu s = None")
  case True
  then show ?thesis by (auto simp: scheduler_steal_work_def)
next
  case False
  then obtain v where v: "steal_target my_cpu s = Some v" by blast
  note vt = steal_target_in [OF v]
  have ch: "chain (nexts s) (rq_head (s_cpu_runq s v)) (Q v)" and cnt: "rq_count (s_cpu_runq s v) = length (Q v)"
    using rq_inv_queue [OF inv, of v] by (simp_all add: queue_def)
  then obtain us t where Q: "Q v = us @ [t]" "us \<noteq> []"
    using vt(5) by (cases "Q v" rule: rev_cases) auto
  obtain h where h: "rq_head (s_cpu_runq s v) = Some h" using ch Q by (cases us) auto
  have ll: "last_link (nexts s) None h = Some (link_of None us, t)"
    using last_link_ok [of "nexts s" h us t] ch Q h by simp
  have nt: "nexts s t = None" using ch Q by (simp add: seg_snoc)
  have "set_rq_link v (link_of None us) None s = relink ((nexts s)(last us := None)) (s_cpu_runq s) s"
    using set_rq_link_relink [of v "link_of None us" None "nexts s" "s_cpu_runq s" s] Q(2)
    by (simp add: relink_self link_of_def)
  then have "set_th t (\<lambda>th. th\<lparr>th_next := None, th_assigned_cpu := my_cpu\<rparr>)
       (set_rq v (\<lambda>q. q\<lparr>rq_count := rq_count q - 1\<rparr>) (set_rq_link v (link_of None us) None s))
     = set_th t (\<lambda>th. th\<lparr>th_assigned_cpu := my_cpu\<rparr>) (unlinked v us t s)"
    using Q(2) nt by (simp add: unlinked_def set_rq_relink) (simp add: set_th_def relink_def fun_eq_iff)
  then show ?thesis using False v h ll vt(1,3,5) Q
    by (intro disjI2 exI [of _ v] exI [of _ us] exI [of _ t]) (simp add: scheduler_steal_work_def)
qed

end
