(* ===== verification/Sched_Inv.thy ===== *)
theory Sched_Inv
  imports Sched_Correct
begin

text \<open>
  The invariant of the whole scheduler, \<open>sched_inv s Q Y\<close>: the run queues are as \<open>rq_inv\<close> says, a
  queued thread is assigned to the CPU of its queue and runs nowhere, and the thread a CPU runs
  says so itself. \<open>Y\<close> holds the thread that is just going to sleep: it is \<^verbatim>\<open>WAITING\<close> but still on
  its CPU. Every operation keeps the invariant and returns.
\<close>

definition curr :: "sched \<Rightarrow> nat \<Rightarrow> nat option" where
  "curr s c = cpu_current_thread (g_cpu_data s c)"

definition idle_of :: "sched \<Rightarrow> nat \<Rightarrow> nat option" where
  "idle_of s c = cpu_idle_thread (g_cpu_data s c)"

definition tinv :: "sched \<Rightarrow> (nat \<Rightarrow> nat list) \<Rightarrow> nat set \<Rightarrow> nat \<Rightarrow> bool" where
  "tinv s Q Y t \<longleftrightarrow>
     (if t \<in> idles s then th_state (thr s t) \<noteq> THREAD_STATE_WAITING
      else (\<forall>c. t \<in> set (Q c) \<longrightarrow> th_assigned_cpu (thr s t) = c \<and> th_running_cpu (thr s t) = NO_CPU \<and> c < CHIMERA_MAX_CPUS)
        \<and> (\<forall>c. curr s c = Some t \<longrightarrow> th_state (thr s t) \<noteq> THREAD_STATE_READY \<and> th_running_cpu (thr s t) = c
             \<and> th_assigned_cpu (thr s t) = c \<and> (th_state (thr s t) = THREAD_STATE_WAITING \<longrightarrow> t \<in> Y))
        \<and> (th_state (thr s t) = THREAD_STATE_WAITING \<longrightarrow> t \<notin> Y \<longrightarrow> th_running_cpu (thr s t) = NO_CPU))"

definition cinv :: "sched \<Rightarrow> bool" where
  "cinv s \<longleftrightarrow> smp_get_cpu_count s \<le> CHIMERA_MAX_CPUS
     \<and> (\<forall>c t. curr s c = Some t \<longrightarrow> c < CHIMERA_MAX_CPUS \<and> (t \<in> idles s \<longrightarrow> idle_of s c = Some t))"

definition sched_inv :: "sched \<Rightarrow> (nat \<Rightarrow> nat list) \<Rightarrow> nat set \<Rightarrow> bool" where
  "sched_inv s Q Y \<longleftrightarrow> rq_inv s Q {} \<and> (\<forall>t. tinv s Q Y t) \<and> cinv s"

lemma sched_invD:
  assumes "sched_inv s Q Y"
  shows "rq_inv s Q {}" "tinv s Q Y t" "cinv s"
  using assms by (auto simp: sched_inv_def)

lemma curr_idle:
  assumes "cinv s" and "curr s c = Some t"
  shows "idle_of s c = Some t \<longleftrightarrow> t \<in> idles s" and "Some t = cpu_idle_thread (g_cpu_data s c) \<longleftrightarrow> t \<in> idles s"
proof -
  have "t \<in> idles s \<Longrightarrow> idle_of s c = Some t" using assms by (simp add: cinv_def)
  moreover have "idle_of s c = Some t \<Longrightarrow> t \<in> idles s" by (auto simp: idles_def idle_of_def)
  ultimately show "idle_of s c = Some t \<longleftrightarrow> t \<in> idles s" by blast
  then show "Some t = cpu_idle_thread (g_cpu_data s c) \<longleftrightarrow> t \<in> idles s" by (simp add: idle_of_def eq_commute)
qed

section \<open>Frames\<close>

definition key :: "chimera_thread \<Rightarrow> thread_state \<times> nat \<times> nat" where
  "key th = (th_state th, th_running_cpu th, th_assigned_cpu th)"

lemma key_eq: "key a = key b \<longleftrightarrow> th_state a = th_state b \<and> th_running_cpu a = th_running_cpu b \<and>
    th_assigned_cpu a = th_assigned_cpu b"
  by (simp add: key_def)

lemma tinv_frame:
  assumes "tinv s Q Y t" and "key (thr s' t) = key (thr s t)" and "g_cpu_data s' = g_cpu_data s"
    and "\<And>c. t \<in> set (Q' c) \<longleftrightarrow> t \<in> set (Q c)"
  shows "tinv s' Q' Y t"
  using assms by (simp add: tinv_def key_eq curr_def idles_def)

lemma cinv_frame:
  "cinv s \<Longrightarrow> g_cpu_data s' = g_cpu_data s \<Longrightarrow> smp_get_cpu_count s' = smp_get_cpu_count s \<Longrightarrow> cinv s'"
  by (simp add: cinv_def curr_def idles_def idle_of_def)

lemma idles_frame: "g_cpu_data s' = g_cpu_data s \<Longrightarrow> idles s' = idles s"
  by (simp add: idles_def)

text \<open>Changing one thread that is on no queue.\<close>
lemma rq_inv_set_th:
  assumes inv: "rq_inv s Q X" and t: "\<And>c. t \<notin> set (Q c)"
  shows "rq_inv (set_th t f s) Q (insert t X)"
proof (rule rq_invI)
  fix c show "queue (set_th t f s) c (Q c)"
    by (rule queue_frame [OF rq_inv_queue [OF inv]]) (use t in auto)
next
  fix c d x assume "x \<in> set (Q c)" "x \<in> set (Q d)"
  then show "c = d" by (rule rq_invD [OF inv])
next
  fix x
  have "idles (set_th t f s) = idles s" by (rule idles_frame) simp
  then show "(\<exists>c. x \<in> set (Q c)) \<longleftrightarrow> th_state (thr (set_th t f s) x) = THREAD_STATE_READY
      \<and> x \<notin> idles (set_th t f s) \<and> x \<notin> insert t X"
    using rq_invD(2) [OF inv, of x] t by auto
qed

lemma rq_inv_shrink:
  assumes "rq_inv s Q (insert t X)" and "th_state (thr s t) \<noteq> THREAD_STATE_READY \<or> t \<in> idles s"
  shows "rq_inv s Q X"
proof (rule rq_invI)
  show "queue s c (Q c)" for c using assms(1) by (rule rq_inv_queue)
  show "c = d" if "x \<in> set (Q c)" "x \<in> set (Q d)" for c d x using rq_invD(1) [OF assms(1)] that .
  show "(\<exists>c. x \<in> set (Q c)) \<longleftrightarrow> th_state (thr s x) = THREAD_STATE_READY \<and> x \<notin> idles s \<and> x \<notin> X" for x
    using rq_invD(2) [OF assms(1), of x] assms(2) by auto
qed

lemma rq_inv_keep_th:
  assumes "rq_inv s Q {}" and "th_state (thr s t) \<noteq> THREAD_STATE_READY" and "th_state (f (thr s t)) \<noteq> THREAD_STATE_READY"
  shows "rq_inv (set_th t f s) Q {}"
proof -
  have "t \<notin> set (Q c)" for c using rq_invD(2) [OF assms(1), of t] assms(2) by blast
  from rq_inv_set_th [OF assms(1) this] show ?thesis by (rule rq_inv_shrink) (use assms(3) in auto)
qed

lemma rq_inv_cong:
  assumes "rq_inv s Q X" and "s_cpu_runq s' = s_cpu_runq s" and "idles s' = idles s"
    and "\<And>x. nexts s' x = nexts s x \<and> th_priority (thr s' x) = th_priority (thr s x)
          \<and> th_state (thr s' x) = th_state (thr s x)"
  shows "rq_inv s' Q X"
proof (rule rq_invI)
  show "queue s' c (Q c)" for c using queue_frame [OF rq_inv_queue [OF assms(1)]] assms(2,4) by simp
  show "c = d" if "x \<in> set (Q c)" "x \<in> set (Q d)" for c d x using rq_invD(1) [OF assms(1)] that .
  show "(\<exists>c. x \<in> set (Q c)) \<longleftrightarrow> th_state (thr s' x) = THREAD_STATE_READY \<and> x \<notin> idles s' \<and> x \<notin> X" for x
    using rq_invD(2) [OF assms(1), of x] assms(3,4) by simp
qed

section \<open>Making a thread ready\<close>

lemma kick_simps [simp]:
  "thr (kick_if_idle c s) x = thr s x" "s_cpu_runq (kick_if_idle c s) = s_cpu_runq s"
  "g_cpu_data (kick_if_idle c s) = g_cpu_data s" "smp_get_cpu_count (kick_if_idle c s) = smp_get_cpu_count s"
  "s_sleep_list (kick_if_idle c s) = s_sleep_list s"
  by (simp_all add: kick_if_idle_def)

lemma sched_inv_kick [simp]: "sched_inv (kick_if_idle c s) Q Y = sched_inv s Q Y"
  by (simp add: sched_inv_def rq_inv_def queue_def tinv_def cinv_def curr_def idles_def idle_of_def)

lemma make_ready_ok:
  assumes inv: "sched_inv s Q Y" and t: "t \<notin> idles s" "th_state (thr s t) \<noteq> THREAD_STATE_READY"
    and nc: "\<And>d. curr s d \<noteq> Some t" and c: "c < CHIMERA_MAX_CPUS"
    and f: "th_state (f (thr s t)) = THREAD_STATE_READY" "th_assigned_cpu (f (thr s t)) = c"
      "th_running_cpu (f (thr s t)) = NO_CPU"
  shows "\<exists>nx rq. runq_enqueue_locked c t (set_th t f s) = Some (relink nx rq (set_th t f s))
    \<and> sched_inv (relink nx rq (set_th t f s)) (Q(c := enq (set_th t f s) t (Q c))) Y"
proof -
  let ?s = "set_th t f s"
  have tn: "t \<notin> set (Q d)" for d using rq_invD(2) [OF sched_invD(1) [OF inv], of t] t(2) by blast
  have i: "idles ?s = idles s" by (rule idles_frame) simp
  have r: "rq_inv ?s Q {t}" using rq_inv_set_th [OF sched_invD(1) [OF inv] tn] by simp
  obtain nx rq where e: "runq_enqueue_locked c t ?s = Some (relink nx rq ?s)"
    "rq_inv (relink nx rq ?s) (Q(c := enq ?s t (Q c))) ({t} - {t})"
    using enqueue_ok [OF r, of t c] f(1) t(1) i by auto
  let ?u = "relink nx rq ?s" and ?Q = "Q(c := enq ?s t (Q c))"
  have "tinv ?u ?Q Y x" for x
  proof (cases "x = t")
    case False
    then show ?thesis by (intro tinv_frame [OF sched_invD(2) [OF inv]]) (simp_all add: key_def)
  next
    case True
    have "idles ?u = idles s" "curr ?u d = curr s d" for d by (simp_all add: idles_def curr_def)
    then show ?thesis using True t(1) nc c f tn by (auto simp: tinv_def)
  qed
  moreover have "cinv ?u" using sched_invD(3) [OF inv] by (rule cinv_frame) simp_all
  ultimately have "sched_inv ?u ?Q Y" using e(2) by (simp add: sched_inv_def)
  with e(1) show ?thesis by blast
qed

lemma wake_target_less:
  assumes "cinv s" and "my_cpu < CHIMERA_MAX_CPUS" shows "wake_target my_cpu t s < CHIMERA_MAX_CPUS"
  using assms by (auto simp: wake_target_def cinv_def Let_def)

lemma thread_wake_waiting:
  assumes inv: "sched_inv s Q {}" and t: "t \<notin> idles s" "th_state (thr s t) = THREAD_STATE_WAITING"
    and c: "my_cpu < CHIMERA_MAX_CPUS"
  shows "\<exists>s' Q'. thread_wake my_cpu (Some t) s = Some s' \<and> sched_inv s' Q' {}
    \<and> th_state (thr s' t) = THREAD_STATE_READY \<and> t \<in> set (Q' (wake_target my_cpu t s))
    \<and> th_priority (thr s' t) = boosted (th_base_priority (thr s t))
    \<and> (\<forall>x. x \<noteq> t \<longrightarrow> (\<exists>n. thr s' x = (thr s x)\<lparr>th_next := n\<rparr>))
    \<and> (\<forall>x. th_wait_next (thr s' x) = th_wait_next (thr s x)) \<and> s_sleep_list s' = s_sleep_list s
    \<and> g_cpu_data s' = g_cpu_data s"
proof -
  let ?c = "wake_target my_cpu t s" and ?b = "boosted (th_base_priority (thr s t))"
  let ?f = "\<lambda>th. th\<lparr>th_state := THREAD_STATE_READY, th_sched_priority := ?b, th_priority := ?b,
      th_assigned_cpu := ?c\<rparr>"
  have ti: "tinv s Q {} t" using sched_invD(2) [OF inv] .
  have nc: "curr s d \<noteq> Some t" for d using ti t by (auto simp: tinv_def)
  have run: "th_running_cpu (thr s t) = NO_CPU" using ti t by (auto simp: tinv_def)
  have cl: "?c < CHIMERA_MAX_CPUS" using wake_target_less [OF sched_invD(3) [OF inv] c] .
  obtain nx rq where e: "runq_enqueue_locked ?c t (set_th t ?f s) = Some (relink nx rq (set_th t ?f s))"
    "sched_inv (relink nx rq (set_th t ?f s)) (Q(?c := enq (set_th t ?f s) t (Q ?c))) {}"
    using make_ready_ok [OF inv t(1) _ nc cl, of ?f] t(2) run by auto
  let ?u = "kick_if_idle ?c (relink nx rq (set_th t ?f s))"
  have "thread_wake my_cpu (Some t) s = Some ?u" using t(2) e(1) by (simp add: thread_wake_def Let_def)
  moreover have "sched_inv ?u (Q(?c := enq (set_th t ?f s) t (Q ?c))) {}" using e(2) by simp
  ultimately show ?thesis
    by (intro exI [of _ ?u] exI [of _ "Q(?c := enq (set_th t ?f s) t (Q ?c))"]) auto
qed

lemma thread_wake_ok:
  assumes inv: "sched_inv s Q {}" and c: "my_cpu < CHIMERA_MAX_CPUS"
  shows "\<exists>s' Q'. thread_wake my_cpu th s = Some s' \<and> sched_inv s' Q' {}
    \<and> (\<forall>x. th_wait_next (thr s' x) = th_wait_next (thr s x)) \<and> s_sleep_list s' = s_sleep_list s
    \<and> g_cpu_data s' = g_cpu_data s
    \<and> (\<forall>x. th_state (thr s' x) = (if th = Some x \<and> th_state (thr s x) = THREAD_STATE_WAITING
          then THREAD_STATE_READY else th_state (thr s x)))"
proof (cases "\<exists>t. th = Some t \<and> th_state (thr s t) = THREAD_STATE_WAITING")
  case False
  then have "thread_wake my_cpu th s = Some s" by (auto simp: thread_wake_def split: option.split)
  then show ?thesis using inv False by auto
next
  case True
  then obtain t where t: "th = Some t" "th_state (thr s t) = THREAD_STATE_WAITING" by blast
  have "t \<notin> idles s" using sched_invD(2) [OF inv, of t] t(2) by (auto simp: tinv_def)
  from thread_wake_waiting [OF inv this t(2) c] obtain s' Q' where s':
    "thread_wake my_cpu (Some t) s = Some s'" "sched_inv s' Q' {}" "th_state (thr s' t) = THREAD_STATE_READY"
    "\<forall>x. x \<noteq> t \<longrightarrow> (\<exists>n. thr s' x = (thr s x)\<lparr>th_next := n\<rparr>)"
    "\<forall>x. th_wait_next (thr s' x) = th_wait_next (thr s x)" "s_sleep_list s' = s_sleep_list s"
    "g_cpu_data s' = g_cpu_data s" by blast
  have "th_state (thr s' x) = (if th = Some x \<and> th_state (thr s x) = THREAD_STATE_WAITING
          then THREAD_STATE_READY else th_state (thr s x))" for x
    using s'(3,4) t by (cases "x = t") auto
  then show ?thesis using s' t(1) by blast
qed

section \<open>Giving up the CPU\<close>

lemma tinv_Y: "tinv s Q Y x \<Longrightarrow> x \<notin> Y \<Longrightarrow> tinv s Q {} x"
  by (auto simp: tinv_def)

lemma age_thread_simps [simp]:
  "th_state (age_thread th) = th_state th" "th_running_cpu (age_thread th) = th_running_cpu th"
  "th_assigned_cpu (age_thread th) = th_assigned_cpu th" "th_wait_next (age_thread th) = th_wait_next th"
  "key (age_thread th) = key th"
  by (simp_all add: age_thread_def Let_def key_def)

text \<open>What the first phase of a yield on CPU \<open>c\<close> by thread \<open>t\<close> leaves.\<close>
definition requeued :: "sched \<Rightarrow> (nat \<Rightarrow> nat list) \<Rightarrow> nat \<Rightarrow> nat \<Rightarrow> sched \<Rightarrow> (nat \<Rightarrow> nat list) \<Rightarrow> bool" where
  "requeued s Q c t s1 Q1 \<longleftrightarrow> rq_inv s1 Q1 {} \<and> g_cpu_data s1 = g_cpu_data s
     \<and> smp_get_cpu_count s1 = smp_get_cpu_count s \<and> s_sleep_list s1 = s_sleep_list s
     \<and> (\<forall>x. th_wait_next (thr s1 x) = th_wait_next (thr s x))
     \<and> (\<forall>x. x \<noteq> t \<longrightarrow> key (thr s1 x) = key (thr s x) \<and> (\<forall>d. x \<in> set (Q1 d) \<longleftrightarrow> x \<in> set (Q d)))
     \<and> th_running_cpu (thr s1 t) = th_running_cpu (thr s t) \<and> th_assigned_cpu (thr s1 t) = th_assigned_cpu (thr s t)
     \<and> (if t \<notin> idles s \<and> th_state (thr s t) = THREAD_STATE_RUNNING
        then th_state (thr s1 t) = THREAD_STATE_READY \<and> (\<forall>d. t \<in> set (Q1 d) \<longleftrightarrow> d = c)
        else th_state (thr s1 t) = th_state (thr s t) \<and> (\<forall>d. t \<notin> set (Q1 d)))"

lemma requeued_other:
  assumes "requeued s Q c t s1 Q1" and "x \<noteq> t"
  shows "key (thr s1 x) = key (thr s x)" and "x \<in> set (Q1 d) \<longleftrightarrow> x \<in> set (Q d)"
  using assms unfolding requeued_def by blast+

lemma requeued_frame:
  assumes "requeued s Q c t s1 Q1"
  shows "g_cpu_data s1 = g_cpu_data s" and "smp_get_cpu_count s1 = smp_get_cpu_count s"
    and "s_sleep_list s1 = s_sleep_list s" and "th_wait_next (thr s1 x) = th_wait_next (thr s x)"
    and "idles s1 = idles s" and "rq_inv s1 Q1 {}"
    and "th_running_cpu (thr s1 t) = th_running_cpu (thr s t)"
    and "th_assigned_cpu (thr s1 t) = th_assigned_cpu (thr s t)"
  using assms unfolding requeued_def idles_def by simp_all

lemma requeued_self:
  assumes "requeued s Q c t s1 Q1"
  shows "t \<in> set (Q1 d) \<Longrightarrow> d = c \<and> t \<notin> idles s \<and> th_state (thr s1 t) = THREAD_STATE_READY
      \<and> th_state (thr s t) = THREAD_STATE_RUNNING"
    and "t \<in> idles s \<Longrightarrow> th_state (thr s1 t) = th_state (thr s t)"
    and "th_state (thr s t) \<noteq> THREAD_STATE_RUNNING \<Longrightarrow> th_state (thr s1 t) = th_state (thr s t)"
  using assms unfolding requeued_def by (auto split: if_splits)

lemma curr_not_queued:
  assumes "sched_inv s Q Y" and "curr s c = Some t" shows "t \<notin> set (Q d)"
proof
  assume "t \<in> set (Q d)"
  then have "th_state (thr s t) = THREAD_STATE_READY" "t \<notin> idles s"
    using rq_invD(2) [OF sched_invD(1) [OF assms(1)], of t] by blast+
  then show False using sched_invD(2) [OF assms(1), of t] assms(2) by (auto simp: tinv_def)
qed

lemma requeue_ok:
  assumes inv: "sched_inv s Q Y" and cur: "curr s c = Some t"
  shows "\<exists>s1 Q1. yield_requeue c s = Some s1 \<and> requeued s Q c t s1 Q1"
proof -
  note r = sched_invD(1) [OF inv] and nq = curr_not_queued [OF inv cur]
  have cu: "current_thread c s = Some t" using cur by (simp add: current_thread_def curr_def)
  note idle = curr_idle(2) [OF sched_invD(3) [OF inv] cur]
  let ?a = "set_th t age_thread s"
  have ra: "rq_inv ?a Q {t}" using rq_inv_set_th [OF r nq] by simp
  consider (idle) "t \<in> idles s" | (run) "t \<notin> idles s" "th_state (thr s t) = THREAD_STATE_RUNNING"
    | (other) "t \<notin> idles s" "th_state (thr s t) \<noteq> THREAD_STATE_RUNNING" by blast
  then show ?thesis
  proof cases
    case idle
    with \<open>Some t = _ \<longleftrightarrow> _\<close> have "cpu_idle_thread (g_cpu_data s c) = Some t" by simp
    then have "yield_requeue c s = Some s" by (simp add: yield_requeue_def cu)
    then show ?thesis using r nq idle by (auto simp: requeued_def)
  next
    case other
    then have "th_state (thr s t) \<noteq> THREAD_STATE_READY"
      using sched_invD(2) [OF inv, of t] cur by (auto simp: tinv_def)
    then have "rq_inv ?a Q {}" by (intro rq_inv_shrink [OF ra]) simp
    moreover have "yield_requeue c s = Some ?a" using other idle by (simp add: yield_requeue_def cu)
    ultimately show ?thesis using nq other by (auto simp: requeued_def)
  next
    case run
    let ?b = "set_th t (\<lambda>th. th\<lparr>th_state := THREAD_STATE_READY\<rparr>) ?a"
    have rb: "rq_inv ?b Q {t}" using rq_inv_set_th [OF ra nq, of "\<lambda>th. th\<lparr>th_state := THREAD_STATE_READY\<rparr>"] by simp
    have "t \<notin> idles ?b" using run(1) by (simp add: idles_def)
    then obtain nx rq where e: "runq_enqueue_locked c t ?b = Some (relink nx rq ?b)"
      "rq_inv (relink nx rq ?b) (Q(c := enq ?b t (Q c))) {}"
      using enqueue_ok [OF rb, of t c] by auto
    have "yield_requeue c s = Some (relink nx rq ?b)" using run idle e(1) by (simp add: yield_requeue_def cu)
    then show ?thesis using e(2) run nq
      by (intro exI [of _ "relink nx rq ?b"] exI [of _ "Q(c := enq ?b t (Q c))"])
         (auto simp: requeued_def key_def)
  qed
qed

text \<open>What the choice of the next thread leaves: it comes off a queue, or is the idle thread.\<close>
definition picked :: "sched \<Rightarrow> (nat \<Rightarrow> nat list) \<Rightarrow> nat \<Rightarrow> nat \<Rightarrow> sched \<Rightarrow> (nat \<Rightarrow> nat list) \<Rightarrow> bool" where
  "picked s Q c n s2 Q2 \<longleftrightarrow> g_cpu_data s2 = g_cpu_data s \<and> smp_get_cpu_count s2 = smp_get_cpu_count s
     \<and> s_sleep_list s2 = s_sleep_list s \<and> (\<forall>x. th_wait_next (thr s2 x) = th_wait_next (thr s x))
     \<and> (\<forall>x. th_priority (thr s2 x) = th_priority (thr s x))
     \<and> (\<forall>x. th_state (thr s2 x) = th_state (thr s x) \<and> th_running_cpu (thr s2 x) = th_running_cpu (thr s x))
     \<and> (\<forall>x. x \<noteq> n \<longrightarrow> th_assigned_cpu (thr s2 x) = th_assigned_cpu (thr s x))
     \<and> (\<forall>x. x \<noteq> n \<longrightarrow> (\<forall>d. x \<in> set (Q2 d) \<longleftrightarrow> x \<in> set (Q d)))
     \<and> (\<forall>d. n \<notin> set (Q2 d))
     \<and> ((\<exists>d. n \<in> set (Q d) \<and> rq_inv s2 Q2 {n}
            \<and> th_assigned_cpu (thr s2 n) = (if d = c then th_assigned_cpu (thr s n) else c))
        \<or> idle_of s c = Some n \<and> rq_inv s2 Q2 {} \<and> Q c = [])
     \<and> (Q c \<noteq> [] \<longrightarrow> n = hd (Q c))"

lemma picked_frame:
  assumes "picked s Q c n s2 Q2"
  shows "g_cpu_data s2 = g_cpu_data s" and "smp_get_cpu_count s2 = smp_get_cpu_count s"
    and "s_sleep_list s2 = s_sleep_list s" and "th_wait_next (thr s2 x) = th_wait_next (thr s x)"
    and "idles s2 = idles s" and "th_state (thr s2 x) = th_state (thr s x)"
    and "th_running_cpu (thr s2 x) = th_running_cpu (thr s x)" and "n \<notin> set (Q2 d)"
    and "Q c \<noteq> [] \<Longrightarrow> n = hd (Q c)" and "th_priority (thr s2 x) = th_priority (thr s x)"
  using assms unfolding picked_def idles_def by simp_all

lemma picked_other:
  assumes "picked s Q c n s2 Q2" and "x \<noteq> n"
  shows "key (thr s2 x) = key (thr s x)" and "x \<in> set (Q2 d) \<longleftrightarrow> x \<in> set (Q d)"
  using assms unfolding picked_def key_eq by blast+

lemma picked_cases:
  assumes "picked s Q c n s2 Q2"
  obtains (queued) d where "n \<in> set (Q d)" "rq_inv s2 Q2 {n}"
      "th_assigned_cpu (thr s2 n) = (if d = c then th_assigned_cpu (thr s n) else c)"
    | (idle) "idle_of s c = Some n" "rq_inv s2 Q2 {}"
  using assms unfolding picked_def by blast

lemma set_unlinked:
  assumes "rq_inv s Q X" and "Q d = us @ t # vs"
  shows "x \<in> set ((Q(d := us @ vs)) e) \<longleftrightarrow> x \<noteq> t \<and> x \<in> set (Q e)"
proof -
  have "distinct (us @ t # vs)"
    using rq_inv_queue [OF assms(1), of d] chain_distinct unfolding queue_def assms(2) by blast
  moreover have "t \<notin> set (Q e)" if "e \<noteq> d" using rq_invD(1) [OF assms(1), of t d e] assms(2) that by auto
  ultimately show ?thesis using assms(2) by auto
qed

lemma unlinked_simps [simp]:
  "thr (unlinked c us t s) x = (thr s x)\<lparr>th_next := (if x = t then None else if us \<noteq> [] \<and> x = last us then nexts s t else nexts s x)\<rparr>"
  "g_cpu_data (unlinked c us t s) = g_cpu_data s" "s_sleep_list (unlinked c us t s) = s_sleep_list s"
  "smp_get_cpu_count (unlinked c us t s) = smp_get_cpu_count s"
  by (simp_all add: unlinked_def)

lemma pick_ok:
  assumes r: "rq_inv s Q {}" and idle: "idle_of s c = Some i"
  shows "\<exists>n s2 Q2. yield_pick c s = Some (Some n, s2) \<and> picked s Q c n s2 Q2"
proof (cases "Q c")
  case (Cons n ns)
  have u: "rq_inv (unlinked c [] n s) (Q(c := ns)) {n}" using unlinked_ok [OF r, of c "[]" n ns] Cons by simp
  have m: "x \<in> set ((Q(c := ns)) d) \<longleftrightarrow> x \<noteq> n \<and> x \<in> set (Q d)" for x d
    using set_unlinked [OF r, of c "[]" n ns x d] Cons by simp
  have "yield_pick c s = Some (Some n, unlinked c [] n s)"
    using dequeue_ok [OF r, of c] Cons by (simp add: yield_pick_def)
  moreover have "picked s Q c n (unlinked c [] n s) (Q(c := ns))"
    unfolding picked_def m using u Cons by (auto intro!: exI [of _ c])
  ultimately show ?thesis by blast
next
  case Nil
  have d: "runq_dequeue_locked c s = (None, s)" using dequeue_ok [OF r, of c] Nil by simp
  consider "scheduler_steal_work c s = Some (None, s)"
    | v us n where "v \<noteq> c" "Q v = us @ [n]" "us \<noteq> []" "scheduler_steal_work c s =
       Some (Some n, set_th n (\<lambda>th. th\<lparr>th_assigned_cpu := c\<rparr>) (unlinked v us n s))"
    using steal_ok [OF r, of c] by blast
  then show ?thesis
  proof cases
    case 1
    have "yield_pick c s = Some (Some i, s)" using d 1 idle by (simp add: yield_pick_def idle_of_def)
    moreover have "i \<notin> set (Q e)" for e
    proof -
      have "i \<in> idles s" using idle by (auto simp: idles_def idle_of_def)
      then show ?thesis using rq_invD(2) [OF r, of i] by blast
    qed
    ultimately show ?thesis using r idle Nil by (intro exI [of _ i] exI [of _ s] exI [of _ Q]) (auto simp: picked_def)
  next
    case (2 v us n)
    let ?u = "set_th n (\<lambda>th. th\<lparr>th_assigned_cpu := c\<rparr>) (unlinked v us n s)"
    have u: "rq_inv (unlinked v us n s) (Q(v := us)) {n}" using unlinked_ok [OF r, of v us n "[]"] 2(2) by simp
    have m: "x \<in> set ((Q(v := us)) e) \<longleftrightarrow> x \<noteq> n \<and> x \<in> set (Q e)" for x e
      using set_unlinked [OF r, of v us n "[]" x e] 2(2) by simp
    have "rq_inv ?u (Q(v := us)) {n}" using u by (rule rq_inv_cong) (auto simp: unlinked_def idles_def set_th_def)
    moreover have "yield_pick c s = Some (Some n, ?u)" using d 2(4) by (simp add: yield_pick_def)
    moreover have "n \<in> set (Q v)" using 2(2) by simp
    ultimately show ?thesis using 2(1) Nil
      by (intro exI [of _ n] exI [of _ ?u] exI [of _ "Q(v := us)"]) (unfold picked_def m, auto)
  qed
qed

lemma yield_same:
  assumes inv: "sched_inv s Q Y" and Y: "Y \<subseteq> {t}" and cur: "curr s c = Some t"
    and rq: "requeued s Q c t s1 Q1" and pk: "picked s1 Q1 c t s2 Q2"
  shows "sched_inv (if t \<notin> idles s then set_th t (\<lambda>th. th\<lparr>th_state := THREAD_STATE_RUNNING\<rparr>) s2 else s2) Q2 {}"
    (is "sched_inv ?u Q2 {}")
proof -
  note rf = requeued_frame [OF rq] and pf = picked_frame [OF pk]
  have gu: "g_cpu_data ?u = g_cpu_data s" "smp_get_cpu_count ?u = smp_get_cpu_count s" using rf(1,2) pf(1,2) by simp_all
  then have i: "idles ?u = idles s" "\<And>d. curr ?u d = curr s d" by (simp_all add: idles_def curr_def)
  have idl: "t \<in> idles s" if "idle_of s1 c = Some t" using that rf(1) by (auto simp: idles_def idle_of_def)
  have nq: "t \<notin> set (Q2 d)" for d using pf(8) .
  have ti: "tinv s Q Y t" using sched_invD(2) [OF inv] .
  have rinv: "if t \<in> idles s then rq_inv s2 Q2 {} else rq_inv s2 Q2 {t}"
    using pk
  proof (cases rule: picked_cases)
    case (queued d)
    then show ?thesis using requeued_self(1) [OF rq] by auto
  qed (use idl in simp)
  have as: "th_assigned_cpu (thr s2 t) = th_assigned_cpu (thr s t)" if "t \<notin> idles s"
    using pk
  proof (cases rule: picked_cases)
    case (queued d)
    then show ?thesis using requeued_self(1) [OF rq] rf(8) by simp
  qed (use idl that in simp)
  have ru: "rq_inv ?u Q2 {}"
  proof (cases "t \<in> idles s")
    case False
    have "rq_inv (set_th t (\<lambda>th. th\<lparr>th_state := THREAD_STATE_RUNNING\<rparr>) s2) Q2 {t}"
      using rq_inv_set_th [of s2 Q2 "{t}" t] rinv False nq by simp
    then have "rq_inv (set_th t (\<lambda>th. th\<lparr>th_state := THREAD_STATE_RUNNING\<rparr>) s2) Q2 {}"
      by (rule rq_inv_shrink) simp
    then show ?thesis using False by simp
  qed (use rinv in simp)
  have "tinv ?u Q2 {} x" for x
  proof (cases "x = t")
    case True
    show ?thesis
    proof (cases "t \<in> idles s")
      case i1: True
      then have "th_state (thr s2 t) \<noteq> THREAD_STATE_WAITING"
        using ti requeued_self(2) [OF rq i1] pf(6) by (simp add: tinv_def)
      then show ?thesis using True i1 pf(5) rf(5) by (simp add: tinv_def)
    next
      case i2: False
      have "th_running_cpu (thr s2 t) = th_running_cpu (thr s t)" using pf(7) rf(7) by simp
      then show ?thesis using True i2 ti nq as [OF i2] unfolding tinv_def i by auto
    qed
  next
    case False
    have k: "key (thr ?u x) = key (thr s x)"
      using picked_other(1) [OF pk False] requeued_other(1) [OF rq False] False by simp
    have "x \<in> set (Q2 d) \<longleftrightarrow> x \<in> set (Q d)" for d
      using picked_other(2) [OF pk False] requeued_other(2) [OF rq False] by simp
    then have "tinv ?u Q2 Y x" by (rule tinv_frame [OF sched_invD(2) [OF inv] k gu(1)])
    then show ?thesis using Y False tinv_Y by blast
  qed
  moreover have "cinv ?u" using sched_invD(3) [OF inv] gu by (rule cinv_frame)
  ultimately show ?thesis using ru by (simp add: sched_inv_def)
qed

lemma switch_ok:
  assumes inv: "sched_inv s Q Y" and Y: "Y \<subseteq> {t}" and cur: "curr s c = Some t"
    and rq: "requeued s Q c t s1 Q1" and pk: "picked s1 Q1 c n s2 Q2" and nt: "n \<noteq> t"
  shows "\<exists>u. yield_switch c (Some t) n s2 = Some u \<and> sched_inv u Q2 {} \<and> curr u = (curr s)(c := Some n)
    \<and> s_sleep_list u = s_sleep_list s \<and> (\<forall>x. th_wait_next (thr u x) = th_wait_next (thr s x))
    \<and> idles u = idles s \<and> (\<forall>d. idle_of u d = idle_of s d)
    \<and> (\<forall>x. th_priority (thr u x) = th_priority (thr s2 x)) \<and> th_state (thr u t) = th_state (thr s2 t)"
proof -
  note rf = requeued_frame [OF rq] and pf = picked_frame [OF pk]
  have g2: "g_cpu_data s2 = g_cpu_data s" using rf(1) pf(1) by simp
  have i2: "idles s2 = idles s" using rf(5) pf(5) by simp
  have nq: "n \<notin> set (Q2 d)" for d using pf(8) .
  have ti: "tinv s Q Y t" and tn: "tinv s Q Y n" and ci: "cinv s" using sched_invD [OF inv] by auto
  have cc: "c < CHIMERA_MAX_CPUS" using ci cur by (simp add: cinv_def)
  have idl: "idle_of s c = Some n \<longleftrightarrow> n \<in> idles s"
    and nrun: "n \<notin> idles s \<Longrightarrow> th_running_cpu (thr s2 n) = NO_CPU \<and> (\<forall>d. curr s d \<noteq> Some n)"
    and rn: "rq_inv s2 Q2 {n}"
  proof -
    have "(idle_of s c = Some n \<longleftrightarrow> n \<in> idles s) \<and>
      (n \<notin> idles s \<longrightarrow> th_running_cpu (thr s2 n) = NO_CPU \<and> (\<forall>d. curr s d \<noteq> Some n)) \<and> rq_inv s2 Q2 {n}"
      using pk
    proof (cases rule: picked_cases)
      case (queued d)
      then have q: "n \<in> set (Q d)" using requeued_other(2) [OF rq nt] by simp
      then have "th_state (thr s n) = THREAD_STATE_READY" "n \<notin> idles s"
        using rq_invD(2) [OF sched_invD(1) [OF inv], of n] by blast+
      moreover have "th_running_cpu (thr s2 n) = th_running_cpu (thr s n)"
        using requeued_other(1) [OF rq nt] pf(7) by (simp add: key_eq)
      moreover have "idle_of s c = Some n \<Longrightarrow> n \<in> idles s" by (auto simp: idle_of_def idles_def)
      ultimately show ?thesis using tn q queued(2) unfolding tinv_def by auto
    next
      case idle
      then have *: "idle_of s c = Some n" "n \<in> idles s" using rf(1) by (auto simp: idle_of_def idles_def)
      have "rq_inv s2 Q2 {n}"
      proof (rule rq_invI)
        show "queue s2 d (Q2 d)" for d using idle(2) by (rule rq_inv_queue)
        show "d = e" if "x \<in> set (Q2 d)" "x \<in> set (Q2 e)" for d e x using rq_invD(1) [OF idle(2)] that .
        show "(\<exists>d. x \<in> set (Q2 d)) \<longleftrightarrow> th_state (thr s2 x) = THREAD_STATE_READY \<and> x \<notin> idles s2 \<and> x \<notin> {n}" for x
          using rq_invD(2) [OF idle(2), of x] i2 *(2) by auto
      qed
      then show ?thesis using * by blast
    qed
    then show "idle_of s c = Some n \<longleftrightarrow> n \<in> idles s"
      "n \<notin> idles s \<Longrightarrow> th_running_cpu (thr s2 n) = NO_CPU \<and> (\<forall>d. curr s d \<noteq> Some n)"
      "rq_inv s2 Q2 {n}" by blast+
  qed
  note tidl = curr_idle(1) [OF ci cur]
  define a where "a = (if n \<notin> idles s then set_th n (\<lambda>th. th\<lparr>th_state := THREAD_STATE_RUNNING,
      th_running_cpu := c, th_assigned_cpu := c\<rparr>) s2 else s2)"
  define f :: "cpu_local \<Rightarrow> cpu_local" where "f = (\<lambda>cl. cl\<lparr>cpu_current_thread := Some n,
      cpu_rsp0 := (if th_kernel_stack (thr a n) \<noteq> 0 then th_kernel_stack (thr a n) else cpu_rsp0 cl),
      cpu_active_cr3 := thread_cr3 n a AND 0x000FFFFFFFFFF000\<rparr>)"
  define b where "b = (set_cpu c f a)\<lparr>sc_cr3 := (sc_cr3 (set_cpu c f a))(c := thread_cr3 n a)\<rparr>"
  define u where "u = (if t \<notin> idles s then set_th t (\<lambda>th. th\<lparr>th_running_cpu := NO_CPU\<rparr>) b else b)"
  have sw: "yield_switch c (Some t) n s2 = Some u"
  proof -
    have e: "(Some n \<noteq> cpu_idle_thread (g_cpu_data s2 c)) = (n \<notin> idles s)"
      "(Some t \<noteq> cpu_idle_thread (g_cpu_data s2 c)) = (t \<notin> idles s)"
      using idl tidl g2 unfolding idle_of_def by auto
    have "\<not> (n \<notin> idles s \<and> th_running_cpu (thr s2 n) \<noteq> NO_CPU)" using nrun by blast
    then show ?thesis
      unfolding yield_switch_def Let_def e option.case u_def b_def f_def a_def by (simp only: if_False)
  qed
  have th: "thr u x = (if x = n \<and> n \<notin> idles s then (thr s2 n)\<lparr>th_state := THREAD_STATE_RUNNING,
      th_running_cpu := c, th_assigned_cpu := c\<rparr> else if x = t \<and> t \<notin> idles s then (thr s2 t)\<lparr>th_running_cpu := NO_CPU\<rparr>
      else thr s2 x)" for x
    using nt by (simp add: u_def b_def a_def)
  have cu: "curr u = (curr s)(c := Some n)"
    using g2 by (simp add: fun_eq_iff curr_def u_def b_def a_def f_def)
  have id: "idle_of u d = idle_of s d" for d
    using g2 by (simp add: idle_of_def u_def b_def a_def f_def)
  have iu: "idles u = idles s" using id by (simp add: idles_def idle_of_def)
  have ru: "rq_inv u Q2 {}"
  proof (rule rq_invI)
    show "queue u d (Q2 d)" for d
      by (rule queue_frame [OF rq_inv_queue [OF rn]]) (auto simp: th u_def b_def a_def)
    show "d = e" if "x \<in> set (Q2 d)" "x \<in> set (Q2 e)" for d e x using rq_invD(1) [OF rn] that .
    show "(\<exists>d. x \<in> set (Q2 d)) \<longleftrightarrow> th_state (thr u x) = THREAD_STATE_READY \<and> x \<notin> idles u \<and> x \<notin> {}" for x
      using rq_invD(2) [OF rn, of x] i2 iu by (auto simp: th)
  qed
  have "tinv u Q2 {} x" for x
  proof -
    consider (n) "x = n" | (t) "x = t" | (other) "x \<noteq> n" "x \<noteq> t" by blast
    then show ?thesis
    proof cases
      case n
      have "th_state (thr s2 n) = th_state (thr s n)" using requeued_other(1) [OF rq nt] pf(6) by (simp add: key_eq)
      then show ?thesis using n nq nrun tn by (auto simp: tinv_def th iu cu)
    next
      case t
      have q: "t \<in> set (Q2 d) \<longleftrightarrow> t \<in> set (Q1 d)" for d using picked_other(2) [OF pk, of t] nt by auto
      have a: "th_assigned_cpu (thr s2 t) = th_assigned_cpu (thr s t)"
        using picked_other(1) [OF pk, of t] nt rf(8) by (auto simp: key_eq)
      show ?thesis
      proof (cases "t \<in> idles s")
        case True
        then show ?thesis using t nt ti requeued_self(2) [OF rq True] pf(6) by (simp add: tinv_def th iu)
      next
        case False
        then have "curr s d = Some t \<Longrightarrow> d = c" for d using ti cur by (auto simp: tinv_def)
        then have "curr u d \<noteq> Some t" for d using nt by (auto simp: cu)
        moreover have "th_assigned_cpu (thr s t) = c" using False ti cur by (auto simp: tinv_def)
        ultimately show ?thesis using t nt False a q requeued_self(1) [OF rq] cc by (auto simp: tinv_def th iu)
      qed
    next
      case other
      have "key (thr u x) = key (thr s x)"
        using other picked_other(1) [OF pk other(1)] requeued_other(1) [OF rq other(2)] by (simp add: th)
      moreover have "x \<in> set (Q2 d) \<longleftrightarrow> x \<in> set (Q d)" for d
        using picked_other(2) [OF pk other(1)] requeued_other(2) [OF rq other(2)] by simp
      moreover have "curr u d = Some x \<longleftrightarrow> curr s d = Some x" for d using other cur by (auto simp: cu)
      ultimately have "tinv u Q2 Y x" using sched_invD(2) [OF inv, of x] by (simp add: tinv_def key_eq iu)
      then show ?thesis using Y other(2) tinv_Y by blast
    qed
  qed
  moreover have "cinv u"
    using ci cc idl rf(2) pf(2) iu id by (auto simp: cinv_def cu) (simp_all add: u_def b_def a_def)
  ultimately have "sched_inv u Q2 {}" using ru by (simp add: sched_inv_def)
  moreover have "s_sleep_list u = s_sleep_list s" using rf(3) pf(3) by (simp add: u_def b_def a_def)
  moreover have "th_wait_next (thr u x) = th_wait_next (thr s x)" for x using rf(4) pf(4) by (simp add: th)
  moreover have "th_priority (thr u x) = th_priority (thr s2 x)" for x by (simp add: th)
  moreover have "th_state (thr u t) = th_state (thr s2 t)" using nt by (simp add: th)
  ultimately show ?thesis using sw cu iu id by blast
qed

lemma picked_highest:
  assumes "rq_inv s Q X" and pk: "picked s Q c n s2 Q2" and "x \<in> set (Q2 c)"
  shows "th_priority (thr s2 x) \<le> th_priority (thr s2 n)"
proof -
  have x: "x \<in> set (Q c)" using picked_other(2) [OF pk, of x] picked_frame(8) [OF pk] assms(3) by metis
  then obtain y ys where Q: "Q c = y # ys" by (cases "Q c") auto
  then have "n = y" using picked_frame(9) [OF pk] by simp
  then show ?thesis
    using rq_inv_queue [OF assms(1), of c] x Q picked_frame(10) [OF pk] by (auto simp: queue_def)
qed

theorem yield_ok:
  assumes inv: "sched_inv s Q Y" and Y: "Y \<subseteq> {t}" and cur: "curr s c = Some t" and idle: "idle_of s c = Some i"
  shows "\<exists>u Q2 n. scheduler_yield c s = Some u \<and> sched_inv u Q2 {} \<and> curr u = (curr s)(c := Some n)
    \<and> s_sleep_list u = s_sleep_list s \<and> (\<forall>x. th_wait_next (thr u x) = th_wait_next (thr s x))
    \<and> idles u = idles s \<and> (\<forall>d. idle_of u d = idle_of s d)
    \<and> (\<forall>x \<in> set (Q2 c). th_priority (thr u x) \<le> th_priority (thr u n))
    \<and> (t \<notin> idles s \<and> th_state (thr s t) \<noteq> THREAD_STATE_RUNNING \<longrightarrow>
        n \<noteq> t \<and> th_state (thr u t) = th_state (thr s t))"
proof -
  have cu: "current_thread c s = Some t" using cur by (simp add: current_thread_def curr_def)
  obtain s1 Q1 where s1: "yield_requeue c s = Some s1" and rq: "requeued s Q c t s1 Q1"
    using requeue_ok [OF inv cur] by blast
  note rf = requeued_frame [OF rq]
  have "idle_of s1 c = Some i" using idle rf(1) by (simp add: idle_of_def)
  from pick_ok [OF rf(6) this] obtain n s2 Q2 where s2: "yield_pick c s1 = Some (Some n, s2)"
    and pk: "picked s1 Q1 c n s2 Q2" by blast
  note pf = picked_frame [OF pk] and hi = picked_highest [OF rf(6) pk]
  show ?thesis
  proof (cases "n = t")
    case False
    from switch_ok [OF inv Y cur rq pk False] obtain u where "yield_switch c (Some t) n s2 = Some u"
      and u: "sched_inv u Q2 {}" "curr u = (curr s)(c := Some n)" "s_sleep_list u = s_sleep_list s"
        "\<forall>x. th_wait_next (thr u x) = th_wait_next (thr s x)" "idles u = idles s"
        "\<forall>d. idle_of u d = idle_of s d" "\<forall>x. th_priority (thr u x) = th_priority (thr s2 x)"
        "th_state (thr u t) = th_state (thr s2 t)" by blast
    then have "scheduler_yield c s = Some u" using s1 s2 cu False by (simp add: scheduler_yield_def)
    moreover have "\<forall>x \<in> set (Q2 c). th_priority (thr u x) \<le> th_priority (thr u n)" using hi u(7) by simp
    moreover have "th_state (thr s t) \<noteq> THREAD_STATE_RUNNING \<Longrightarrow> th_state (thr u t) = th_state (thr s t)"
      using u(8) pf(6) requeued_self(3) [OF rq] by simp
    ultimately show ?thesis using u(1-6) False by blast
  next
    case True
    let ?u = "if t \<notin> idles s then set_th t (\<lambda>th. th\<lparr>th_state := THREAD_STATE_RUNNING\<rparr>) s2 else s2"
    have "(Some t \<noteq> cpu_idle_thread (g_cpu_data s c)) = (t \<notin> idles s)"
      using curr_idle(2) [OF sched_invD(3) [OF inv] cur] by simp
    then have "scheduler_yield c s = Some ?u" using s1 s2 cu True by (simp add: scheduler_yield_def)
    moreover have "sched_inv ?u Q2 {}" using yield_same [OF inv Y cur rq] pk True by simp
    moreover have g: "g_cpu_data ?u = g_cpu_data s" using rf(1) pf(1) by simp
    moreover from this have "curr ?u = (curr s)(c := Some n)" "idles ?u = idles s" "idle_of ?u d = idle_of s d" for d
      using cur True by (auto simp: curr_def idle_of_def idles_def fun_eq_iff)
    moreover have "s_sleep_list ?u = s_sleep_list s" "th_wait_next (thr ?u x) = th_wait_next (thr s x)"
      "th_priority (thr ?u x) = th_priority (thr s2 x)" for x
      using rf(3,4) pf(3,4) by simp_all
    moreover have "t \<in> idles s \<or> th_state (thr s t) = THREAD_STATE_RUNNING"
      using pk
    proof (cases rule: picked_cases)
      case (queued d)
      then show ?thesis using requeued_self(1) [OF rq] True by blast
    next
      case idle
      then show ?thesis using True rf(1) by (auto simp: idle_of_def idles_def)
    qed
    ultimately show ?thesis using hi by (intro exI [of _ ?u] exI [of _ Q2] exI [of _ n]) auto
  qed
qed

end
