(* ===== verification/Sched_Sleep.thy ===== *)
theory Sched_Sleep
  imports Sched_Inv
begin

text \<open>
  The timer sleep list and the remaining entry points of the scheduler: adding, removing and
  waking threads. The list is a chain through \<^verbatim>\<open>th_wait_next\<close>; every operation on it returns when
  it is one, and leaves one.
\<close>

section \<open>Changing the wait links\<close>

definition rewait :: "(nat \<Rightarrow> nat option) \<Rightarrow> nat option \<Rightarrow> sched \<Rightarrow> sched" where
  "rewait wn h s = s\<lparr>sc_threads := (\<lambda>x. (thr s x)\<lparr>th_wait_next := wn x\<rparr>), s_sleep_list := h\<rparr>"

abbreviation waits :: "sched \<Rightarrow> nat \<Rightarrow> nat option" where "waits s x \<equiv> th_wait_next (thr s x)"

lemma rewait_simps [simp]:
  "thr (rewait wn h s) x = (thr s x)\<lparr>th_wait_next := wn x\<rparr>" "s_cpu_runq (rewait wn h s) = s_cpu_runq s"
  "g_cpu_data (rewait wn h s) = g_cpu_data s" "s_sleep_list (rewait wn h s) = h"
  "smp_get_cpu_count (rewait wn h s) = smp_get_cpu_count s" "rewait wn h (rewait wn' h' s) = rewait wn h s"
  by (simp_all add: rewait_def)

lemma rewait_self: "rewait (waits s) (s_sleep_list s) s = s"
  by (simp add: rewait_def)

lemma set_th_wait: "set_th t (\<lambda>th. th\<lparr>th_wait_next := v\<rparr>) (rewait wn h s) = rewait (wn(t := v)) h s"
  by (simp add: rewait_def set_th_def fun_eq_iff)

lemma set_sleep_link_wait:
  "set_sleep_link link v (rewait wn h s) = (case link of None \<Rightarrow> rewait wn v s | Some p \<Rightarrow> rewait (wn(p := v)) h s)"
  by (simp add: set_sleep_link_def set_th_wait split: option.split) (simp add: rewait_def)

lemma sched_inv_cong:
  assumes inv: "sched_inv s Q Y" and "s_cpu_runq s' = s_cpu_runq s" and g: "g_cpu_data s' = g_cpu_data s"
    and n: "smp_get_cpu_count s' = smp_get_cpu_count s"
    and th: "\<And>x. nexts s' x = nexts s x \<and> th_priority (thr s' x) = th_priority (thr s x)"
    and k: "\<And>x. key (thr s' x) = key (thr s x)"
  shows "sched_inv s' Q Y"
proof -
  have "rq_inv s' Q {}"
    by (rule rq_inv_cong [OF sched_invD(1) [OF inv] assms(2) idles_frame [OF g]]) (use th k in \<open>simp add: key_eq\<close>)
  moreover have "tinv s' Q Y x" for x by (rule tinv_frame [OF sched_invD(2) [OF inv] k g]) simp
  moreover have "cinv s'" by (rule cinv_frame [OF sched_invD(3) [OF inv] g n])
  ultimately show ?thesis by (simp add: sched_inv_def)
qed

lemma sched_inv_rewait: "sched_inv s Q Y \<Longrightarrow> sched_inv (rewait wn h s) Q Y"
  by (erule sched_inv_cong) (simp_all add: key_def)

section \<open>Removing and adding sleepers\<close>

lemma sleep_list_remove_ok:
  assumes ch: "chain (waits s) (s_sleep_list s) zs"
  shows "\<exists>wn h. sleep_list_remove t s = Some (rewait wn h s) \<and> chain wn h (remove1 t zs)"
proof (cases "t \<in> set zs")
  case False
  then have "sleep_list_remove t s = Some s" using find_link_miss [OF ch] by (simp add: sleep_list_remove_def)
  then show ?thesis using ch False
    by (intro exI [of _ "waits s"] exI [of _ "s_sleep_list s"]) (simp add: rewait_self remove1_idem)
next
  case True
  then obtain us vs where z: "zs = us @ t # vs" "t \<notin> set us" by (meson split_list_first)
  have "seg (waits s) (s_sleep_list s) us (Some t)" using ch z by (auto simp: seg_append)
  then have f: "find_link (waits s) None (s_sleep_list s) t = Some (Some (link_of None us))"
    using z(2) by (rule find_link_hit)
  let ?wn = "(if us = [] then waits s else (waits s)(last us := waits s t))(t := None)"
  let ?h = "if us = [] then waits s t else s_sleep_list s"
  have "set_sleep_link (link_of None us) (waits s t) s
      = rewait (if us = [] then waits s else (waits s)(last us := waits s t)) ?h s"
    using set_sleep_link_wait [of "link_of None us" "waits s t" "waits s" "s_sleep_list s" s]
    by (simp add: rewait_self link_of_def)
  then have "sleep_list_remove t s = Some (rewait ?wn ?h s)"
    by (simp add: sleep_list_remove_def f set_th_wait)
  moreover have "chain ?wn ?h (us @ vs)" using chain_delete ch z(1) by metis
  moreover have "remove1 t zs = us @ vs" using z by (simp add: remove1_append)
  ultimately show ?thesis by (intro exI [of _ ?wn] exI [of _ ?h] conjI) simp_all
qed

lemma sleep_list_push:
  assumes "chain (waits s) (s_sleep_list s) zs"
  shows "\<exists>wn h. sleep_list_remove t s = Some (rewait wn h s)
    \<and> chain (wn(t := h)) (Some t) (t # remove1 t zs)"
proof -
  obtain wn h where r: "sleep_list_remove t s = Some (rewait wn h s)" "chain wn h (remove1 t zs)"
    using sleep_list_remove_ok [OF assms] by blast
  have "t \<notin> set (remove1 t zs)" using chain_distinct [OF assms] by simp
  then have "chain (wn(t := h)) (Some t) (t # remove1 t zs)" using r(2) by simp
  with r(1) show ?thesis by blast
qed

lemma sleep_until_ok:
  assumes inv: "sched_inv s Q {}" and cur: "curr s c = Some t" "t \<notin> idles s" and idle: "idle_of s c = Some i"
    and ch: "chain (waits s) (s_sleep_list s) zs"
  shows "\<exists>u Q'. thread_sleep_until c dead s = Some u \<and> sched_inv u Q' {}
    \<and> chain (waits u) (s_sleep_list u) (t # remove1 t zs) \<and> (\<forall>d. curr u d \<noteq> Some t)
    \<and> th_state (thr u t) = THREAD_STATE_WAITING \<and> idles u = idles s \<and> (\<forall>d. idle_of u d = idle_of s d \<and> (curr s d \<noteq> None \<longrightarrow> curr u d \<noteq> None))"
proof -
  obtain wn h where r: "sleep_list_remove t s = Some (rewait wn h s)" "chain (wn(t := h)) (Some t) (t # remove1 t zs)"
    using sleep_list_push [OF ch] by blast
  define s1 where "s1 = (set_th t (\<lambda>th. th\<lparr>th_sleep_deadline := dead, th_wait_next := h, th_state := THREAD_STATE_WAITING\<rparr>)
      (rewait wn h s))\<lparr>s_sleep_list := Some t\<rparr>"
  have th: "thr s1 x = (if x = t then (thr s t)\<lparr>th_sleep_deadline := dead, th_wait_next := h, th_state := THREAD_STATE_WAITING\<rparr>
      else (thr s x)\<lparr>th_wait_next := wn x\<rparr>)" for x by (simp add: s1_def)
  have g: "g_cpu_data s1 = g_cpu_data s" "smp_get_cpu_count s1 = smp_get_cpu_count s" "s_cpu_runq s1 = s_cpu_runq s"
    by (simp_all add: s1_def)
  have w: "waits s1 = wn(t := h)" "s_sleep_list s1 = Some t" by (simp_all add: th fun_eq_iff) (simp add: s1_def)
  note ti = sched_invD(2) [OF inv]
  have nr: "th_state (thr s t) \<noteq> THREAD_STATE_READY" using ti [of t] cur by (auto simp: tinv_def)
  have ru: "rq_inv s1 Q {}"
  proof (rule rq_inv_cong)
    show "rq_inv (set_th t (\<lambda>th. th\<lparr>th_state := THREAD_STATE_WAITING\<rparr>) s) Q {}"
      by (rule rq_inv_keep_th [OF sched_invD(1) [OF inv] nr]) simp
  qed (auto simp: th g idles_def)
  have "tinv s1 Q {t} x" for x
  proof (cases "x = t")
    case False
    then have "tinv s1 Q {} x" by (intro tinv_frame [OF ti [of x] _ g(1)]) (simp_all add: th key_def)
    then show ?thesis using False by (auto simp: tinv_def)
  next
    case True
    have "idles s1 = idles s" "curr s1 d = curr s d" for d using g by (simp_all add: idles_def curr_def)
    moreover have "t \<notin> set (Q d)" for d using rq_invD(2) [OF sched_invD(1) [OF inv], of t] nr by blast
    ultimately show ?thesis using ti [of t] cur True by (auto simp: tinv_def th)
  qed
  moreover have "cinv s1" by (rule cinv_frame [OF sched_invD(3) [OF inv] g(1,2)])
  ultimately have i1: "sched_inv s1 Q {t}" using ru by (simp add: sched_inv_def)
  have c1: "curr s1 c = Some t" "idle_of s1 c = Some i" using cur idle g by (simp_all add: curr_def idle_of_def)
  have ws: "th_state (thr s1 t) = THREAD_STATE_WAITING" by (simp add: th)
  from yield_ok [OF i1 _ c1] obtain u Q2 n where u: "scheduler_yield c s1 = Some u" "sched_inv u Q2 {}"
    "curr u = (curr s1)(c := Some n)" "s_sleep_list u = s_sleep_list s1"
    "\<forall>x. th_wait_next (thr u x) = th_wait_next (thr s1 x)" "idles u = idles s1" "\<forall>d. idle_of u d = idle_of s1 d"
    "t \<notin> idles s1 \<and> th_state (thr s1 t) \<noteq> THREAD_STATE_RUNNING \<longrightarrow> n \<noteq> t \<and> th_state (thr u t) = th_state (thr s1 t)"
    by blast
  have e: "thread_sleep_until c dead s = Some u"
    using cur(1) r(1) u(1) by (simp add: thread_sleep_until_def current_thread_def curr_def s1_def)
  have ch: "chain (waits u) (s_sleep_list u) (t # remove1 t zs)"
  proof -
    have "waits u = wn(t := h)" using u(5) w(1) by (simp add: fun_eq_iff)
    then show ?thesis using r(2) u(4) w(2) by simp
  qed
  have g1: "idles s1 = idles s" "curr s1 = curr s" "idle_of s1 = idle_of s"
    using g by (simp_all add: idles_def curr_def idle_of_def fun_eq_iff)
  have wu: "th_state (thr u t) = THREAD_STATE_WAITING" using u(8) ws g1(1) cur(2) by auto
  then have "curr u d \<noteq> Some t" for d using sched_invD(2) [OF u(2), of t] u(6) g1(1) cur(2) by (auto simp: tinv_def)
  then show ?thesis using e u(2) ch u(3,6,7) g1 wu by (intro exI [of _ u] exI [of _ Q2]) auto
qed

section \<open>The timer\<close>

lemma timer_scan_ok:
  assumes "seg (waits s) (s_sleep_list s) pre (get_sleep_link (link_of None pre) s)"
    and "chain (waits s) (get_sleep_link (link_of None pre) s) zs" and "chain (waits s) expired es"
    and "distinct (pre @ zs @ es)"
  shows "\<exists>wn h e. timer_scan now (link_of None pre) expired s = Some (e, rewait wn h s)
    \<and> chain wn h (pre @ filter (\<lambda>x. \<not> expired_at now (thr s x)) zs)
    \<and> chain wn e (rev (filter (\<lambda>x. expired_at now (thr s x)) zs) @ es)
    \<and> (\<forall>x. x \<notin> set (pre @ zs @ es) \<longrightarrow> wn x = waits s x)"
  using assms
proof (induction zs arbitrary: s pre expired es)
  case Nil
  then have "timer_scan now (link_of None pre) expired s = Some (expired, s)"
    by (subst timer_scan.simps) simp
  then show ?case using Nil
    by (intro exI [of _ "waits s"] exI [of _ "s_sleep_list s"] exI [of _ expired]) (simp add: rewait_self)
next
  case (Cons z zs)
  let ?l = "link_of None pre"
  have gz: "get_sleep_link ?l s = Some z" and cz: "chain (waits s) (waits s z) zs" using Cons.prems(2) by auto
  show ?case
  proof (cases "expired_at now (thr s z)")
    case False
    have l: "link_of None (pre @ [z]) = Some z" by (simp add: link_of_def)
    have "\<exists>wn h e. timer_scan now (link_of None (pre @ [z])) expired s = Some (e, rewait wn h s)
      \<and> chain wn h ((pre @ [z]) @ filter (\<lambda>x. \<not> expired_at now (thr s x)) zs)
      \<and> chain wn e (rev (filter (\<lambda>x. expired_at now (thr s x)) zs) @ es)
      \<and> (\<forall>x. x \<notin> set ((pre @ [z]) @ zs @ es) \<longrightarrow> wn x = waits s x)"
      using Cons.prems gz cz by (intro Cons.IH) (auto simp: l get_sleep_link_def seg_append)
    moreover have "timer_scan now ?l expired s = timer_scan now (Some z) expired s"
      using gz False by (subst timer_scan.simps) simp
    ultimately show ?thesis using False unfolding l by auto
  next
    case True
    define wn where "wn = (if pre = [] then waits s else (waits s)(last pre := waits s z))(z := expired)"
    define h where "h = (if pre = [] then waits s z else s_sleep_list s)"
    let ?s = "rewait wn h s"
    have ne: "z \<notin> set pre" "z \<notin> set zs" "z \<notin> set es" "distinct (pre @ zs @ es)" using Cons.prems(4) by auto
    have lp: "last pre \<notin> set zs" "last pre \<notin> set es" "last pre \<noteq> z" if "pre \<noteq> []"
      using last_in_set [OF that] Cons.prems(4) by auto
    have st: "set_th z (\<lambda>th. th\<lparr>th_wait_next := expired\<rparr>) (set_sleep_link ?l (waits s z) s) = ?s"
      using set_sleep_link_wait [of ?l "waits s z" "waits s" "s_sleep_list s" s]
      by (simp add: rewait_self link_of_def wn_def h_def set_th_wait)
    have gl: "get_sleep_link ?l ?s = waits s z" using lp(3) by (auto simp: get_sleep_link_def link_of_def wn_def h_def)
    have sp: "seg wn h pre (waits s z)"
    proof (cases pre rule: rev_cases)
      case (snoc ps p)
      then have "seg (waits s) (s_sleep_list s) ps (Some p)" "p \<noteq> z" "z \<notin> set ps" "p \<notin> set ps"
        using Cons.prems(1) ne(1,4) by (auto simp: seg_snoc)
      then show ?thesis using snoc by (simp add: wn_def h_def seg_snoc)
    qed (simp add: h_def)
    have "chain wn (waits s z) zs" "chain wn (Some z) (z # es)"
      using cz Cons.prems(3) ne lp by (cases "pre = []"; simp add: wn_def)+
    then have "\<exists>wn' h' e. timer_scan now ?l (Some z) ?s = Some (e, rewait wn' h' ?s)
      \<and> chain wn' h' (pre @ filter (\<lambda>x. \<not> expired_at now (thr ?s x)) zs)
      \<and> chain wn' e (rev (filter (\<lambda>x. expired_at now (thr ?s x)) zs) @ z # es)
      \<and> (\<forall>x. x \<notin> set (pre @ zs @ z # es) \<longrightarrow> wn' x = waits ?s x)"
      using sp ne gl by (intro Cons.IH) auto
    moreover have "expired_at now (thr ?s x) = expired_at now (thr s x)" for x by (simp add: expired_at_def)
    moreover have "timer_scan now ?l expired s = timer_scan now ?l (Some z) ?s"
      using gz True st by (subst timer_scan.simps) simp
    moreover have "waits ?s x = waits s x" if "x \<notin> set (pre @ zs @ z # es)" for x
      using that last_in_set [of pre] by (auto simp: wn_def)
    ultimately show ?thesis using True by (auto simp del: set_append) (metis (lifting) insert_iff set_ConsD set_append Un_iff list.set_intros set_simps(2))
  qed
qed

lemma wake_expired_ok:
  assumes "sched_inv s Q {}" and "chain (waits s) expired es" and "my_cpu < CHIMERA_MAX_CPUS"
  shows "\<exists>u Q'. wake_expired my_cpu expired s = Some u \<and> sched_inv u Q' {}
    \<and> (\<forall>x. th_state (thr u x) = (if x \<in> set es \<and> th_state (thr s x) = THREAD_STATE_WAITING
          then THREAD_STATE_READY else th_state (thr s x)))
    \<and> (\<forall>x. x \<notin> set es \<longrightarrow> waits u x = waits s x) \<and> s_sleep_list u = s_sleep_list s
    \<and> g_cpu_data u = g_cpu_data s"
  using assms
proof (induction es arbitrary: s Q expired)
  case Nil
  then show ?case by (auto simp: wake_expired.simps)
next
  case (Cons z zs)
  let ?a = "set_th z (\<lambda>th. th\<lparr>th_wait_next := None\<rparr>) s"
  have z: "expired = Some z" "chain (waits s) (waits s z) zs" "z \<notin> set zs"
    using Cons.prems(2) chain_distinct [OF Cons.prems(2)] by auto
  have "sched_inv ?a Q {}" by (rule sched_inv_cong [OF Cons.prems(1)]) (simp_all add: key_def)
  from thread_wake_ok [OF this Cons.prems(3), of "Some z"] obtain b Q1 where b:
    "thread_wake my_cpu (Some z) ?a = Some b" "sched_inv b Q1 {}" "\<forall>x. waits b x = waits ?a x"
    "s_sleep_list b = s_sleep_list ?a" "g_cpu_data b = g_cpu_data ?a"
    "\<forall>x. th_state (thr b x) = (if Some z = Some x \<and> th_state (thr ?a x) = THREAD_STATE_WAITING
          then THREAD_STATE_READY else th_state (thr ?a x))" by blast
  have "chain (waits b) (waits s z) zs = chain (waits s) (waits s z) zs"
    using b(3) z(3) by (intro seg_cong) auto
  with Cons.IH [OF b(2) _ Cons.prems(3), of "waits s z"] z(2) obtain u Q' where u:
    "wake_expired my_cpu (waits s z) b = Some u" "sched_inv u Q' {}"
    "\<forall>x. th_state (thr u x) = (if x \<in> set zs \<and> th_state (thr b x) = THREAD_STATE_WAITING
          then THREAD_STATE_READY else th_state (thr b x))"
    "\<forall>x. x \<notin> set zs \<longrightarrow> waits u x = waits b x" "s_sleep_list u = s_sleep_list b" "g_cpu_data u = g_cpu_data b"
    by blast
  have "wake_expired my_cpu expired s = Some u" using z(1) b(1) u(1) by (subst wake_expired.simps) simp
  then show ?case using u b z(3) by (intro exI [of _ u] exI [of _ Q']) auto
qed

theorem timer_wake_ok:
  assumes inv: "sched_inv s Q {}" and ch: "chain (waits s) (s_sleep_list s) zs" and c: "my_cpu < CHIMERA_MAX_CPUS"
  shows "\<exists>u Q'. timer_wake_sleepers my_cpu now s = Some u \<and> sched_inv u Q' {}
    \<and> chain (waits u) (s_sleep_list u) (filter (\<lambda>x. \<not> expired_at now (thr s x)) zs)
    \<and> (\<forall>x. th_state (thr u x) = (if x \<in> set zs \<and> expired_at now (thr s x) \<and> th_state (thr s x) = THREAD_STATE_WAITING
          then THREAD_STATE_READY else th_state (thr s x)))
    \<and> g_cpu_data u = g_cpu_data s"
proof -
  have d: "distinct zs" using chain_distinct [OF ch] .
  let ?ex = "filter (\<lambda>x. expired_at now (thr s x)) zs" and ?no = "filter (\<lambda>x. \<not> expired_at now (thr s x)) zs"
  obtain wn h e where t: "timer_scan now None None s = Some (e, rewait wn h s)" "chain wn h ?no"
    "chain wn e (rev ?ex)"
    using timer_scan_ok [of s "[]" zs None "[]" now] ch d by (auto simp: link_of_def get_sleep_link_def)
  have "sched_inv (rewait wn h s) Q {}" using inv by (rule sched_inv_rewait)
  moreover have "waits (rewait wn h s) = wn" by (simp add: fun_eq_iff)
  ultimately obtain u Q' where u: "wake_expired my_cpu e (rewait wn h s) = Some u" "sched_inv u Q' {}"
    "\<forall>x. th_state (thr u x) = (if x \<in> set (rev ?ex) \<and> th_state (thr (rewait wn h s) x) = THREAD_STATE_WAITING
          then THREAD_STATE_READY else th_state (thr (rewait wn h s) x))"
    "\<forall>x. x \<notin> set (rev ?ex) \<longrightarrow> waits u x = wn x" "s_sleep_list u = h" "g_cpu_data u = g_cpu_data s"
    using wake_expired_ok [of "rewait wn h s" Q e "rev ?ex" my_cpu] t(3) c by auto
  have "chain (waits u) h ?no = chain wn h ?no" using u(4) by (intro seg_cong) auto
  then show ?thesis using t u by (intro exI [of _ u] exI [of _ Q']) (auto simp: timer_wake_sleepers_def)
qed

end
