(* ===== verification/Wait_Queue.thy ===== *)
theory Wait_Queue
  imports Sched
begin

text \<open>
  Wait queues, \<^verbatim>\<open>kernel/mach/wait_queue.c\<close>. A queue is the pair of its head and tail pointers;
  the links are the \<^verbatim>\<open>th_wait_next\<close> fields of the threads, which the timer sleep list uses too.
  The operations return the queue together with the scheduler state.
\<close>

record wait_queue =
  wq_head :: "nat option"
  wq_tail :: "nat option"

definition wait_queue_init :: wait_queue where
  "wait_queue_init = \<lparr>wq_head = None, wq_tail = None\<rparr>"

text \<open>The common first half of the three sleep functions, under \<^verbatim>\<open>wq_lock\<close>: the current thread
  becomes \<^verbatim>\<open>WAITING\<close> and is appended to the queue.\<close>
definition wait_queue_append :: "nat \<Rightarrow> wait_queue \<Rightarrow> sched \<Rightarrow> wait_queue \<times> sched" where
  "wait_queue_append t wq s =
     (let s = set_th t (\<lambda>th. th\<lparr>th_state := THREAD_STATE_WAITING, th_wait_next := None,
                th_wait_result := CHIMERA_SUCCESS\<rparr>) s
      in case wq_tail wq of
           Some l \<Rightarrow> (wq\<lparr>wq_tail := Some t\<rparr>, set_th l (\<lambda>th. th\<lparr>th_wait_next := Some t\<rparr>) s)
         | None \<Rightarrow> (\<lparr>wq_head = Some t, wq_tail = Some t\<rparr>, s))"

definition wait_queue_sleep :: "nat \<Rightarrow> wait_queue \<Rightarrow> sched \<Rightarrow> (wait_queue \<times> sched) option" where
  "wait_queue_sleep my_cpu wq s = do {
     t \<leftarrow> current_thread my_cpu s;
     let (wq, s) = wait_queue_append t wq s;
     s \<leftarrow> scheduler_yield my_cpu s;
     Some (wq, s)
   }"

definition wait_queue_sleep_irqrestore :: "nat \<Rightarrow> wait_queue \<Rightarrow> sched \<Rightarrow> (wait_queue \<times> sched) option" where
  "wait_queue_sleep_irqrestore my_cpu wq s = do {
     t \<leftarrow> current_thread my_cpu s;
     let (wq, s) = wait_queue_append t wq s;
     s \<leftarrow> scheduler_yield my_cpu s;
     Some (wq, s)
   }"

definition wait_queue_sleep_until_irqrestore ::
  "nat \<Rightarrow> u64 \<Rightarrow> wait_queue \<Rightarrow> sched \<Rightarrow> (wait_queue \<times> sched) option" where
  "wait_queue_sleep_until_irqrestore my_cpu deadline wq s = do {
     t \<leftarrow> current_thread my_cpu s;
     let (wq, s) = wait_queue_append t wq s;
     s \<leftarrow> thread_sleep_list_add (Some t) deadline s;
     s \<leftarrow> scheduler_yield my_cpu s;
     Some (wq, s)
   }"

definition wait_queue_wakeup_one :: "nat \<Rightarrow> wait_queue \<Rightarrow> sched \<Rightarrow> (wait_queue \<times> sched) option" where
  "wait_queue_wakeup_one my_cpu wq s =
     (case wq_head wq of
        None \<Rightarrow> Some (wq, s)
      | Some t \<Rightarrow>
          let h = th_wait_next (thr s t);
              wq = \<lparr>wq_head = h, wq_tail = (if h = None then None else wq_tail wq)\<rparr>;
              s = set_th t (\<lambda>th. th\<lparr>th_wait_next := None, th_wait_result := CHIMERA_SUCCESS\<rparr>) s
          in do { s \<leftarrow> thread_wake my_cpu (Some t) s; Some (wq, s) })"

partial_function (option) wake_list :: "nat \<Rightarrow> nat option \<Rightarrow> sched \<Rightarrow> sched option" where
  "wake_list my_cpu cur s =
     (case cur of None \<Rightarrow> Some s
      | Some t \<Rightarrow> Option.bind
          (thread_wake my_cpu (Some t)
            (set_th t (\<lambda>th. th\<lparr>th_wait_next := None, th_wait_result := CHIMERA_SUCCESS\<rparr>) s))
          (wake_list my_cpu (th_wait_next (thr s t))))"

declare wake_list.simps [code]

definition wait_queue_wakeup_all :: "nat \<Rightarrow> wait_queue \<Rightarrow> sched \<Rightarrow> (wait_queue \<times> sched) option" where
  "wait_queue_wakeup_all my_cpu wq s = do {
     s \<leftarrow> wake_list my_cpu (wq_head wq) s;
     Some (\<lparr>wq_head = None, wq_tail = None\<rparr>, s)
   }"

end
