(* ===== verification/Sched_Props.thy ===== *)
theory Sched_Props
  imports Sched_Sleep Wait_Queue Zone_Props
begin

text \<open>
  The scheduler as a transition system: every step is one call of a scheduler entry point on some
  CPU. The properties say that the run queues stay ordered and complete in every reachable state,
  that no thread runs on two CPUs, that every entry point returns, and what the timer wakes; the
  last one shows how the wait queues break the sleep list they share links with.
\<close>

section \<open>Adding, removing and starting threads\<close>

lemma fold_argmin_in:
  "fst (fold (\<lambda>i (b, m). if A i then (b, m) else if f i < m then (i, f i) else (b, m)) xs (b0, m0))
     \<in> insert b0 (set xs)" for f :: "nat \<Rightarrow> nat"
proof (induction xs arbitrary: b0 m0)
  case (Cons x xs)
  show ?case using Cons.IH [of b0 m0] Cons.IH [of x "f x"] by (cases "A x"; cases "f x < m0") auto
qed simp

lemma least_loaded_less: "least_loaded s < CHIMERA_MAX_CPUS"
  using fold_argmin_in [of "\<lambda>i. \<not> cpu_is_active (g_cpu_data s i) \<and> i \<noteq> 0" "\<lambda>i. rq_count (s_cpu_runq s i)" "cpu_scan s" 0 "0xFFFFFFFF"]
  by (auto simp: least_loaded_def cpu_scan_def CHIMERA_MAX_CPUS_def)

lemma add_thread_ok:
  assumes inv: "sched_inv s Q {}" and t: "t \<notin> idles s" "th_state (thr s t) \<noteq> THREAD_STATE_READY"
    and nc: "\<And>d. curr s d \<noteq> Some t"
  shows "\<exists>u Q'. scheduler_add_thread (Some t) s = Some (0, u) \<and> sched_inv u Q' {}
    \<and> th_state (thr u t) = THREAD_STATE_READY \<and> (\<exists>c < CHIMERA_MAX_CPUS. t \<in> set (Q' c))
    \<and> g_cpu_data u = g_cpu_data s \<and> s_sleep_list u = s_sleep_list s \<and> (\<forall>x. waits u x = waits s x)"
proof -
  define base where "base = (if th_base_priority (thr s t) = 0 then 32 else th_base_priority (thr s t))"
  define f where "f = (\<lambda>th :: chimera_thread. th\<lparr>th_base_priority := base, th_sched_priority := base, th_priority := base,
      th_cpu_usage := 0, th_running_cpu := NO_CPU, th_state := THREAD_STATE_READY\<rparr>)"
  define c where "c = least_loaded (set_th t f s)"
  define g where "g = (\<lambda>th. (f th)\<lparr>th_assigned_cpu := c\<rparr>)"
  have cl: "c < CHIMERA_MAX_CPUS" by (simp add: c_def least_loaded_less)
  have gf: "set_th t (\<lambda>th. th\<lparr>th_assigned_cpu := c\<rparr>) (set_th t f s) = set_th t g s"
    by (simp add: set_th_def g_def)
  obtain nx rq where e: "runq_enqueue_locked c t (set_th t g s) = Some (relink nx rq (set_th t g s))"
    "sched_inv (relink nx rq (set_th t g s)) (Q(c := enq (set_th t g s) t (Q c))) {}"
    using make_ready_ok [OF inv t nc cl, of g] by (auto simp: g_def f_def)
  let ?u = "kick_if_idle c (relink nx rq (set_th t g s))"
  have "scheduler_add_thread (Some t) s = Some (0, ?u)"
    using e(1) unfolding scheduler_add_thread_def Let_def
    by (simp add: gf flip: base_def f_def c_def)
  then show ?thesis using e(2) cl
    by (intro exI [of _ ?u] exI [of _ "Q(c := enq (set_th t g s) t (Q c))"]) (auto simp: g_def f_def)
qed

lemma take_off_ok:
  assumes inv: "sched_inv s Q {}" and t: "t \<notin> idles s"
  shows "\<exists>u Q'. (if th_assigned_cpu (thr s t) < CHIMERA_MAX_CPUS
         then runq_remove_locked (th_assigned_cpu (thr s t)) t s else Some s) = Some u
    \<and> rq_inv u Q' {t} \<and> (\<forall>d. t \<notin> set (Q' d)) \<and> (\<forall>x d. x \<noteq> t \<longrightarrow> (x \<in> set (Q' d) \<longleftrightarrow> x \<in> set (Q d)))
    \<and> g_cpu_data u = g_cpu_data s \<and> smp_get_cpu_count u = smp_get_cpu_count s \<and> s_sleep_list u = s_sleep_list s
    \<and> (\<forall>x. \<exists>n. thr u x = (thr s x)\<lparr>th_next := n\<rparr>)"
proof (cases "\<exists>c. t \<in> set (Q c)")
  case False
  note r = sched_invD(1) [OF inv]
  have "runq_remove_locked (th_assigned_cpu (thr s t)) t s = Some s" using remove_ok(1) [OF r] False by blast
  moreover have "rq_inv s Q {t}"
  proof (rule rq_invI)
    show "queue s d (Q d)" for d using r by (rule rq_inv_queue)
    show "d = e" if "x \<in> set (Q d)" "x \<in> set (Q e)" for d e x using rq_invD(1) [OF r] that .
    show "(\<exists>d. x \<in> set (Q d)) \<longleftrightarrow> th_state (thr s x) = THREAD_STATE_READY \<and> x \<notin> idles s \<and> x \<notin> {t}" for x
      using rq_invD(2) [OF r, of x] False by auto
  qed
  moreover have "\<exists>n. thr s x = (thr s x)\<lparr>th_next := n\<rparr>" for x by (rule exI [of _ "nexts s x"]) simp
  ultimately show ?thesis using False by (intro exI [of _ s] exI [of _ Q]) simp
next
  case True
  note r = sched_invD(1) [OF inv]
  obtain c where c: "t \<in> set (Q c)" using True by blast
  then have a: "th_assigned_cpu (thr s t) = c" "c < CHIMERA_MAX_CPUS"
    using sched_invD(2) [OF inv, of t] t by (auto simp: tinv_def)
  obtain us vs where Q: "Q c = us @ t # vs" using c by (meson split_list)
  have e: "runq_remove_locked c t s = Some (unlinked c us t s)" using remove_ok(2) [OF r Q] .
  have m: "x \<in> set ((Q(c := us @ vs)) d) \<longleftrightarrow> x \<noteq> t \<and> x \<in> set (Q d)" for x d using set_unlinked [OF r Q] .
  have "\<exists>n. thr (unlinked c us t s) x = (thr s x)\<lparr>th_next := n\<rparr>" for x by (simp only: unlinked_simps(1)) blast
  moreover have "rq_inv (unlinked c us t s) (Q(c := us @ vs)) {t}" using unlinked_ok [OF r Q] by simp
  ultimately show ?thesis using e a
    by (intro exI [of _ "unlinked c us t s"] exI [of _ "Q(c := us @ vs)"]) (unfold m, simp)
qed

lemma remove_set_state:
  "runq_remove_locked c t (set_th t (\<lambda>th. th\<lparr>th_state := v\<rparr>) s) =
     map_option (set_th t (\<lambda>th. th\<lparr>th_state := v\<rparr>)) (runq_remove_locked c t s)"
proof -
  have "(\<lambda>x. th_next (thr (set_th t (\<lambda>th. th\<lparr>th_state := v\<rparr>) s) x)) = nexts s" by (simp add: fun_eq_iff)
  moreover have "set_rq c g (set_th t (\<lambda>th. th\<lparr>th_next := None\<rparr>)
      (set_rq_link c link w (set_th t (\<lambda>th. th\<lparr>th_state := v\<rparr>) s)))
    = set_th t (\<lambda>th. th\<lparr>th_state := v\<rparr>) (set_rq c g (set_th t (\<lambda>th. th\<lparr>th_next := None\<rparr>) (set_rq_link c link w s)))"
    for g link w
    by (cases link) (auto simp: set_rq_link_def set_th_def set_rq_def fun_eq_iff)
  ultimately show ?thesis
    by (cases "find_link (nexts s) None (rq_head (s_cpu_runq s c)) t")
       (simp_all add: runq_remove_locked_def split: option.splits)
qed

text \<open>Giving a thread off the queues a state that is neither ready nor waiting.\<close>
lemma retire_ok:
  assumes inv: "sched_inv s Q {}" and t: "t \<notin> idles s"
    and u: "rq_inv u Q' {t}" "\<And>d. t \<notin> set (Q' d)" "\<And>x d. x \<noteq> t \<Longrightarrow> (x \<in> set (Q' d) \<longleftrightarrow> x \<in> set (Q d))"
      "g_cpu_data u = g_cpu_data s" "smp_get_cpu_count u = smp_get_cpu_count s"
      "\<And>x. key (thr u x) = key (thr s x)"
    and v: "v \<noteq> THREAD_STATE_READY" "v \<noteq> THREAD_STATE_WAITING"
  shows "sched_inv (set_th t (\<lambda>th. th\<lparr>th_state := v\<rparr>) u) Q' {}"
proof -
  let ?w = "set_th t (\<lambda>th. th\<lparr>th_state := v\<rparr>) u"
  have "rq_inv ?w Q' {t}" using rq_inv_set_th [OF u(1,2)] by simp
  then have "rq_inv ?w Q' {}" by (rule rq_inv_shrink) (use v in simp)
  moreover have "tinv ?w Q' {} x" for x
  proof (cases "x = t")
    case False
    then show ?thesis
      by (intro tinv_frame [OF sched_invD(2) [OF inv, of x]]) (use u in \<open>simp_all add: key_eq\<close>)
  next
    case True
    have "idles ?w = idles s" "curr ?w d = curr s d" for d using u(4) by (simp_all add: idles_def curr_def)
    then show ?thesis using True sched_invD(2) [OF inv, of t] t u(2,6) v by (auto simp: tinv_def key_eq)
  qed
  moreover have "cinv ?w" using sched_invD(3) [OF inv] by (rule cinv_frame) (use u in simp_all)
  ultimately show ?thesis by (simp add: sched_inv_def)
qed

lemma remove_thread_ok:
  assumes inv: "sched_inv s Q {}" and t: "t \<notin> idles s"
  shows "\<exists>u Q'. scheduler_remove_thread (Some t) s = Some u \<and> sched_inv u Q' {}
    \<and> th_state (thr u t) = THREAD_STATE_HALTED \<and> (\<forall>d. t \<notin> set (Q' d))
    \<and> g_cpu_data u = g_cpu_data s \<and> s_sleep_list u = s_sleep_list s \<and> (\<forall>x. waits u x = waits s x)"
proof -
  obtain u Q' where u: "(if th_assigned_cpu (thr s t) < CHIMERA_MAX_CPUS
         then runq_remove_locked (th_assigned_cpu (thr s t)) t s else Some s) = Some u"
    "rq_inv u Q' {t}" "\<forall>d. t \<notin> set (Q' d)" "\<forall>x d. x \<noteq> t \<longrightarrow> (x \<in> set (Q' d) \<longleftrightarrow> x \<in> set (Q d))"
    "g_cpu_data u = g_cpu_data s" "smp_get_cpu_count u = smp_get_cpu_count s" "s_sleep_list u = s_sleep_list s"
    and th: "\<forall>x. \<exists>n. thr u x = (thr s x)\<lparr>th_next := n\<rparr>"
    using take_off_ok [OF inv t] by blast
  have k: "key (thr u x) = key (thr s x)" "waits u x = waits s x" for x
    using th [rule_format, of x] by (auto simp: key_def)
  let ?w = "set_th t (\<lambda>th. th\<lparr>th_state := THREAD_STATE_HALTED\<rparr>) u"
  have "scheduler_remove_thread (Some t) s = Some ?w"
    using u(1) by (auto simp: scheduler_remove_thread_def remove_set_state split: if_splits)
  moreover have "sched_inv ?w Q' {}" using u k by (intro retire_ok [OF inv t]) auto
  ultimately show ?thesis using u k by (intro exI [of _ ?w] exI [of _ Q']) auto
qed

lemma idles_idle_of: "(\<And>d. idle_of u d = idle_of s d) \<Longrightarrow> idles u = idles s"
  by (simp add: idles_def idle_of_def)

lemma set_initial_ok:
  assumes inv: "sched_inv s Q {}" and t: "t \<notin> idles s" and nc: "\<And>d. curr s d \<noteq> Some t" and c0: "curr s 0 = None"
  shows "\<exists>u Q'. scheduler_set_initial (Some t) s = Some u \<and> sched_inv u Q' {} \<and> curr u = (curr s)(0 := Some t)
    \<and> s_sleep_list u = s_sleep_list s \<and> (\<forall>x. waits u x = waits s x)"
proof -
  obtain u Q' where u: "(if th_assigned_cpu (thr s t) < CHIMERA_MAX_CPUS
         then runq_remove_locked (th_assigned_cpu (thr s t)) t s else Some s) = Some u"
    "rq_inv u Q' {t}" "\<forall>d. t \<notin> set (Q' d)" "\<forall>x d. x \<noteq> t \<longrightarrow> (x \<in> set (Q' d) \<longleftrightarrow> x \<in> set (Q d))"
    "g_cpu_data u = g_cpu_data s" "smp_get_cpu_count u = smp_get_cpu_count s" "s_sleep_list u = s_sleep_list s"
    and th: "\<forall>x. \<exists>n. thr u x = (thr s x)\<lparr>th_next := n\<rparr>"
    using take_off_ok [OF inv t] by blast
  have k: "key (thr u x) = key (thr s x)" "waits u x = waits s x" for x
    using th [rule_format, of x] by (auto simp: key_def)
  define f where "f = (\<lambda>th :: chimera_thread. th\<lparr>th_running_cpu := 0, th_assigned_cpu := 0, th_state := THREAD_STATE_RUNNING\<rparr>)"
  define w where "w = set_cpu 0 (\<lambda>cl. cl\<lparr>cpu_current_thread := Some t\<rparr>) (set_th t f u)"
  have wt: "thr w x = (if x = t then f (thr u t) else thr u x)" for x by (simp add: w_def)
  have cu: "curr w = (curr s)(0 := Some t)" using u(5) by (simp add: w_def curr_def fun_eq_iff)
  have id2: "idle_of w d = idle_of s d" for d using u(5) by (simp add: w_def idle_of_def)
  note id = idles_idle_of [OF id2] id2
  have "rq_inv (set_th t f u) Q' {t}" using rq_inv_set_th [OF u(2), of t f] u(3) by simp
  then have "rq_inv (set_th t f u) Q' {}" by (rule rq_inv_shrink) (simp add: f_def)
  then have "rq_inv w Q' {}"
    by (rule rq_inv_cong) (use id(1) idles_frame [of "set_th t f u" s] u(5) in \<open>simp_all add: w_def\<close>)
  moreover have "tinv w Q' {} x" for x
  proof (cases "x = t")
    case True
    then show ?thesis using u(3) t nc by (auto simp: tinv_def wt cu id f_def)
  next
    case False
    have "key (thr w x) = key (thr s x)" using False k by (simp add: wt)
    moreover have "curr w d = Some x \<longleftrightarrow> curr s d = Some x" for d using False c0 by (auto simp: cu)
    ultimately show ?thesis using sched_invD(2) [OF inv, of x] u(4) False by (auto simp: tinv_def key_eq id)
  qed
  moreover have "cinv w"
    using sched_invD(3) [OF inv] t u(6) by (auto simp: cinv_def cu id CHIMERA_MAX_CPUS_def) (simp add: w_def)
  ultimately have "sched_inv w Q' {}" by (simp add: sched_inv_def)
  moreover have "scheduler_set_initial (Some t) s = Some w"
    using u(1) by (simp add: scheduler_set_initial_def w_def f_def)
  ultimately show ?thesis using cu u(7) k by (intro exI [of _ w] exI [of _ Q']) (auto simp: wt f_def, auto simp: w_def)
qed

lemma ap_run_ok:
  assumes inv: "sched_inv s Q {}" and idle: "idle_of s c = Some i" and c0: "curr s c = None" and c: "c < CHIMERA_MAX_CPUS"
  shows "\<exists>u Q' n. scheduler_ap_run c s = Some u \<and> sched_inv u Q' {} \<and> curr u = (curr s)(c := Some n)
    \<and> s_sleep_list u = s_sleep_list s \<and> (\<forall>x. waits u x = waits s x)"
proof -
  define a where "a = set_cpu c (\<lambda>cl. cl\<lparr>cpu_current_thread := Some i, cpu_rsp0 := th_kernel_stack (thr s i),
      cpu_active_cr3 := pmap_kernel_pml4 s AND 0x000FFFFFFFFFF000\<rparr>)
      (set_th i (\<lambda>th. th\<lparr>th_state := THREAD_STATE_RUNNING\<rparr>) s)"
  have ii: "i \<in> idles s" using idle by (auto simp: idles_def idle_of_def)
  have wt: "thr a x = (if x = i then (thr s i)\<lparr>th_state := THREAD_STATE_RUNNING\<rparr> else thr s x)" for x by (simp add: a_def)
  have cu: "curr a = (curr s)(c := Some i)" by (simp add: a_def curr_def fun_eq_iff)
  have id2: "idle_of a d = idle_of s d" for d by (simp add: a_def idle_of_def)
  note id = idles_idle_of [OF id2] id2
  have nq: "i \<notin> set (Q d)" for d using rq_invD(2) [OF sched_invD(1) [OF inv], of i] ii by blast
  have "rq_inv (set_th i (\<lambda>th. th\<lparr>th_state := THREAD_STATE_RUNNING\<rparr>) s) Q {i}"
    using rq_inv_set_th [OF sched_invD(1) [OF inv] nq] by simp
  then have "rq_inv (set_th i (\<lambda>th. th\<lparr>th_state := THREAD_STATE_RUNNING\<rparr>) s) Q {}" by (rule rq_inv_shrink) simp
  then have "rq_inv a Q {}"
    by (rule rq_inv_cong) (use id(1) idles_frame [of "set_th i _ s" s] in \<open>simp_all add: a_def\<close>)
  moreover have "tinv a Q {} x" for x
  proof (cases "x = i")
    case True
    then show ?thesis using ii by (simp add: tinv_def wt id)
  next
    case False
    have "curr a d = Some x \<longleftrightarrow> curr s d = Some x" for d using False c0 by (auto simp: cu)
    then show ?thesis using sched_invD(2) [OF inv, of x] False by (auto simp: tinv_def id wt)
  qed
  moreover have "cinv a" using sched_invD(3) [OF inv] c idle by (auto simp: cinv_def cu id) (simp add: a_def)
  ultimately have "sched_inv a Q {}" by (simp add: sched_inv_def)
  from yield_ok [OF this, of i c i] obtain u Q2 n where u: "scheduler_yield c a = Some u" "sched_inv u Q2 {}"
    "curr u = (curr a)(c := Some n)" "s_sleep_list u = s_sleep_list a" "\<forall>x. waits u x = waits a x"
    using cu idle id(2) by auto
  have "scheduler_ap_run c s = Some u"
    using idle u(1) by (simp add: scheduler_ap_run_def idle_of_def flip: a_def)
  moreover have "waits u x = waits s x" for x using u(5) by (simp add: wt)
  ultimately show ?thesis using u(2-4) cu by (intro exI [of _ u] exI [of _ Q2] exI [of _ n]) (auto simp: a_def)
qed

section \<open>The transition system\<close>

inductive sched_step :: "sched \<Rightarrow> sched \<Rightarrow> bool" where
  add: "t \<notin> idles s \<Longrightarrow> th_state (thr s t) \<noteq> THREAD_STATE_READY \<Longrightarrow> \<forall>c. current_thread c s \<noteq> Some t \<Longrightarrow>
    scheduler_add_thread (Some t) s = Some (r, s') \<Longrightarrow> sched_step s s'"
| set_initial: "t \<notin> idles s \<Longrightarrow> \<forall>c. current_thread c s \<noteq> Some t \<Longrightarrow> current_thread 0 s = None \<Longrightarrow>
    scheduler_set_initial (Some t) s = Some s' \<Longrightarrow> sched_step s s'"
| ap_run: "current_thread c s = None \<Longrightarrow> c < CHIMERA_MAX_CPUS \<Longrightarrow> scheduler_ap_run c s = Some s' \<Longrightarrow> sched_step s s'"
| yield: "current_thread c s = Some t \<Longrightarrow> cpu_idle_thread (g_cpu_data s c) \<noteq> None \<Longrightarrow>
    scheduler_yield c s = Some s' \<Longrightarrow> sched_step s s'"
| wake: "c < CHIMERA_MAX_CPUS \<Longrightarrow> thread_wake c th s = Some s' \<Longrightarrow> sched_step s s'"
| sleep: "current_thread c s = Some t \<Longrightarrow> t \<notin> idles s \<Longrightarrow> cpu_idle_thread (g_cpu_data s c) \<noteq> None \<Longrightarrow>
    thread_sleep_until c deadline s = Some s' \<Longrightarrow> sched_step s s'"
| tick: "c < CHIMERA_MAX_CPUS \<Longrightarrow> timer_wake_sleepers c now s = Some s' \<Longrightarrow> sched_step s s'"
| remove: "t \<notin> idles s \<Longrightarrow> scheduler_remove_thread (Some t) s = Some s' \<Longrightarrow> sched_step s s'"

inductive_cases sched_stepE: "sched_step s s'"

definition good :: "sched \<Rightarrow> bool" where
  "good s \<longleftrightarrow> (\<exists>Q zs. sched_inv s Q {} \<and> chain (waits s) (s_sleep_list s) zs)"

lemma goodI:
  "sched_inv u Q' {} \<Longrightarrow> chain (waits s) (s_sleep_list s) zs \<Longrightarrow> s_sleep_list u = s_sleep_list s \<Longrightarrow>
   (\<And>x. waits u x = waits s x) \<Longrightarrow> good u"
  by (auto simp: good_def)

lemma current_curr: "current_thread c s = curr s c"
  by (simp add: current_thread_def curr_def)

lemma sched_step_good:
  assumes "sched_step s s'" and "good s"
  shows "good s'"
proof -
  obtain Q zs where inv: "sched_inv s Q {}" and ch: "chain (waits s) (s_sleep_list s) zs"
    using assms(2) by (auto simp: good_def)
  from assms(1) show ?thesis
  proof cases
    case (add t r)
    obtain u Q' where "scheduler_add_thread (Some t) s = Some (0, u)" "sched_inv u Q' {}"
      "s_sleep_list u = s_sleep_list s" "\<forall>x. waits u x = waits s x"
      using add_thread_ok [OF inv add(1,2)] add(3) unfolding current_curr by blast
    then show ?thesis using add(4) by (auto intro: goodI [OF _ ch])
  next
    case (set_initial t)
    obtain u Q' where "scheduler_set_initial (Some t) s = Some u" "sched_inv u Q' {}"
      "s_sleep_list u = s_sleep_list s" "\<forall>x. waits u x = waits s x"
      using set_initial_ok [OF inv set_initial(1)] set_initial(2,3) unfolding current_curr by blast
    then show ?thesis using set_initial(4) by (auto intro: goodI [OF _ ch])
  next
    case (ap_run c)
    then obtain i where "idle_of s c = Some i" by (auto simp: scheduler_ap_run_def idle_of_def split: option.splits)
    then obtain u Q' where "scheduler_ap_run c s = Some u" "sched_inv u Q' {}"
      "s_sleep_list u = s_sleep_list s" "\<forall>x. waits u x = waits s x"
      using ap_run_ok [OF inv] ap_run(1,2) unfolding current_curr by blast
    then show ?thesis using ap_run(3) by (auto intro: goodI [OF _ ch])
  next
    case (yield c t)
    then obtain i where "idle_of s c = Some i" by (auto simp: idle_of_def)
    then obtain u Q' where "scheduler_yield c s = Some u" "sched_inv u Q' {}"
      "s_sleep_list u = s_sleep_list s" "\<forall>x. waits u x = waits s x"
      using yield_ok [OF inv _ yield(1) [unfolded current_curr]] by blast
    then show ?thesis using yield(3) by (auto intro: goodI [OF _ ch])
  next
    case (wake c th)
    obtain u Q' where "thread_wake c th s = Some u" "sched_inv u Q' {}"
      "s_sleep_list u = s_sleep_list s" "\<forall>x. waits u x = waits s x"
      using thread_wake_ok [OF inv wake(1)] by blast
    then show ?thesis using wake(2) by (auto intro: goodI [OF _ ch])
  next
    case (sleep c t deadline)
    then obtain i where i: "idle_of s c = Some i" by (auto simp: idle_of_def)
    have "curr s c = Some t" using sleep(1) by (simp add: current_curr)
    from sleep_until_ok [OF inv this sleep(2) i ch] obtain u Q' where
      "thread_sleep_until c deadline s = Some u" "good u" unfolding good_def by blast
    then show ?thesis using sleep(4) by simp
  next
    case (tick c now)
    obtain u Q' where "timer_wake_sleepers c now s = Some u" "sched_inv u Q' {}"
      "chain (waits u) (s_sleep_list u) (filter (\<lambda>x. \<not> expired_at now (thr s x)) zs)"
      using timer_wake_ok [OF inv ch tick(1)] by blast
    then show ?thesis using tick(2) unfolding good_def by auto
  next
    case (remove t)
    obtain u Q' where "scheduler_remove_thread (Some t) s = Some u" "sched_inv u Q' {}"
      "s_sleep_list u = s_sleep_list s" "\<forall>x. waits u x = waits s x"
      using remove_thread_ok [OF inv remove(1)] by blast
    then show ?thesis using remove(2) by (auto intro: goodI [OF _ ch])
  qed
qed

lemma sched_steps_good: "sched_step\<^sup>*\<^sup>* s s' \<Longrightarrow> good s \<Longrightarrow> good s'"
  by (induction rule: rtranclp_induct) (auto intro: sched_step_good)

section \<open>Boot\<close>

definition boot_sched :: "sched \<Rightarrow> bool" where
  "boot_sched s \<longleftrightarrow> (\<forall>t. th_state (thr s t) = THREAD_STATE_NONE) \<and> (\<forall>c. s_cpu_runq s c = \<lparr>rq_head = None, rq_count = 0\<rparr>)
     \<and> (\<forall>c. curr s c = None \<and> idle_of s c = None) \<and> smp_get_cpu_count s \<le> CHIMERA_MAX_CPUS \<and> s_sleep_list s = None"

definition init_inv :: "sched \<Rightarrow> bool" where
  "init_inv s \<longleftrightarrow> (\<forall>t. th_state (thr s t) = THREAD_STATE_NONE \<or> th_state (thr s t) = THREAD_STATE_READY \<and> t \<in> idles s)
     \<and> (\<forall>c. s_cpu_runq s c = \<lparr>rq_head = None, rq_count = 0\<rparr>)
     \<and> (\<forall>c. curr s c = None \<and> (idle_of s c = None \<or> idle_of s c = Some (s_cpu_idle_threads s c)))
     \<and> smp_get_cpu_count s \<le> CHIMERA_MAX_CPUS \<and> s_sleep_list s = None"

lemma idle_thread_init_inv:
  assumes "init_inv s" shows "init_inv (idle_thread_init c s)"
proof (cases "c < CHIMERA_MAX_CPUS")
  case True
  let ?u = "idle_thread_init c s" and ?t = "s_cpu_idle_threads s c"
  have g: "g_cpu_data ?u = (g_cpu_data s)(c := (g_cpu_data s c)\<lparr>cpu_idle_thread := Some ?t\<rparr>)"
    and r: "s_cpu_runq ?u = s_cpu_runq s" "s_cpu_idle_threads ?u = s_cpu_idle_threads s"
      "smp_get_cpu_count ?u = smp_get_cpu_count s" "s_sleep_list ?u = s_sleep_list s"
    and th: "\<And>x. th_state (thr ?u x) = (if x = ?t then THREAD_STATE_READY else th_state (thr s x))"
    using True by (simp_all add: idle_thread_init_def Let_def set_cpu_def set_th_def)
  have "idle_of ?u d = (if d = c then Some ?t else idle_of s d)" "curr ?u d = curr s d" for d
    using g by (simp_all add: idle_of_def curr_def)
  moreover from this have "idles ?u = insert ?t (idles s)"
    using assms unfolding idles_def init_inv_def idle_of_def by (auto split: if_splits) (metis option.inject option.distinct(1))+
  ultimately show ?thesis using assms unfolding init_inv_def r th by auto
qed (use assms in \<open>simp add: idle_thread_init_def\<close>)

lemma scheduler_init_inv:
  assumes "boot_sched s" shows "sched_inv (scheduler_init s) (\<lambda>_. []) {}" and "good (scheduler_init s)"
    and scheduler_init_curr: "curr (scheduler_init s) c = None"
proof -
  have "init_inv (fold (\<lambda>i s. let s = set_rq i (\<lambda>_. \<lparr>rq_head = None, rq_count = 0\<rparr>) s in
      if i < ncpu \<and> cpu_kernel_stack (g_cpu_data s i) \<noteq> 0 then idle_thread_init i s else s) cs s)"
    if "init_inv s" for ncpu cs s
    using that
  proof (induction cs arbitrary: s)
    case (Cons c cs)
    have "set_rq c (\<lambda>_. \<lparr>rq_head = None, rq_count = 0\<rparr>) s = s"
      using Cons.prems by (auto simp: init_inv_def set_rq_def fun_upd_idem)
    then show ?case using Cons idle_thread_init_inv by (simp add: Let_def)
  qed simp
  moreover have "init_inv s" using assms by (auto simp: boot_sched_def init_inv_def)
  ultimately have i: "init_inv (scheduler_init s)" by (simp add: scheduler_init_def Let_def)
  then show "curr (scheduler_init s) c = None" by (simp add: init_inv_def)
  from i have "rq_inv (scheduler_init s) (\<lambda>_. []) {}" by (auto simp: init_inv_def rq_inv_def queue_def) (metis thread_state.distinct(1))
  moreover have "tinv (scheduler_init s) (\<lambda>_. []) {} t" for t
    using i [unfolded init_inv_def] by (auto simp: tinv_def) (metis thread_state.distinct)+
  moreover have "cinv (scheduler_init s)" using i by (simp add: cinv_def init_inv_def)
  ultimately show "sched_inv (scheduler_init s) (\<lambda>_. []) {}" by (simp add: sched_inv_def)
  then show "good (scheduler_init s)" using i by (auto simp: good_def init_inv_def intro!: exI [of _ "[]"])
qed

definition demo_thread :: chimera_thread where
  "demo_thread = \<lparr>th_id = 0, th_task = None, th_state = THREAD_STATE_NONE, th_priority = 0, th_context = 0,
     th_saved_sp = 0, th_kernel_stack = 0, th_user_stack = 0, th_stack_base = 0, th_stack_size = 0,
     th_base_priority = 0, th_sched_priority = 0, th_cpu_usage = 0, th_running_cpu = NO_CPU, th_assigned_cpu = 0,
     th_wait_result = CHIMERA_SUCCESS, th_next = None, th_wait_next = None, th_fp_state = [],
     th_fp_initialized = False, th_sleep_deadline = 0\<rparr>"

text \<open>A machine with two CPUs before \<^verbatim>\<open>scheduler_init\<close>, each with a kernel stack.\<close>
definition demo_sched :: sched where
  "demo_sched = \<lparr>sc_threads = (\<lambda>_. demo_thread), sc_tasks = (\<lambda>_. \<lparr>ta_flags = 0, ta_vm_map = 0\<rparr>),
     s_cpu_runq = (\<lambda>_. \<lparr>rq_head = None, rq_count = 0\<rparr>), s_cpu_idle_threads = (\<lambda>c. 1000 + c),
     g_cpu_data = (\<lambda>c. \<lparr>cpu_current_thread = None, cpu_is_active = (c < 2),
        cpu_kernel_stack = (if c < 2 then 0x100000 * (c + 1) else 0), cpu_idle_thread = None,
        cpu_active_cr3 = 0, cpu_rsp0 = 0\<rparr>),
     smp_get_cpu_count = 2, s_sleep_list = None, pmap_kernel_pml4 = 0x1000, sc_cr3 = (\<lambda>_. 0), sc_ipis = [],
     sc_km = demo_kmem,
     sc_fpu_mask = 7, code_thread_launcher = 1, code_fork_thread_launcher = 2, code_idle_thread_entry = 3,
     sc_task_kernel = 0\<rparr>"

lemma demo_boot: "boot_sched demo_sched"
  by (simp add: boot_sched_def demo_sched_def demo_thread_def curr_def idle_of_def CHIMERA_MAX_CPUS_def)

lemma idle_thread_init_fields:
  assumes "c < CHIMERA_MAX_CPUS"
  shows "s_cpu_idle_threads (idle_thread_init c s) = s_cpu_idle_threads s"
    and "cpu_kernel_stack (g_cpu_data (idle_thread_init c s) d) = cpu_kernel_stack (g_cpu_data s d)"
    and "idle_of (idle_thread_init c s) d = (if d = c then Some (s_cpu_idle_threads s c) else idle_of s d)"
  using assms by (simp_all add: idle_thread_init_def Let_def idle_of_def set_cpu_def set_th_def)

lemma set_rq_idle: "idle_of (set_rq c f s) d = idle_of s d" "s_cpu_idle_threads (set_rq c f s) = s_cpu_idle_threads s"
  by (simp_all add: idle_of_def set_rq_def)

lemma init_fold_fields:
  assumes "\<forall>c \<in> set cs. c < CHIMERA_MAX_CPUS"
  defines "body \<equiv> (\<lambda>ncpu i s. let s = set_rq i (\<lambda>_. \<lparr>rq_head = None, rq_count = 0\<rparr>) s in
      if i < ncpu \<and> cpu_kernel_stack (g_cpu_data s i) \<noteq> 0 then idle_thread_init i s else s)"
  shows "s_cpu_idle_threads (fold (body ncpu) cs s) = s_cpu_idle_threads s \<and> idle_of (fold (body ncpu) cs s) d =
    (if d \<in> set cs \<and> d < ncpu \<and> cpu_kernel_stack (g_cpu_data s d) \<noteq> 0 then Some (s_cpu_idle_threads s d) else idle_of s d)"
  using assms(1)
proof (induction cs arbitrary: s)
  case (Cons c cs)
  have "s_cpu_idle_threads (body ncpu c s) = s_cpu_idle_threads s"
    "cpu_kernel_stack (g_cpu_data (body ncpu c s) d) = cpu_kernel_stack (g_cpu_data s d)"
    "idle_of (body ncpu c s) d = (if d = c \<and> d < ncpu \<and> cpu_kernel_stack (g_cpu_data s d) \<noteq> 0
       then Some (s_cpu_idle_threads s d) else idle_of s d)"
    using Cons.prems by (auto simp: body_def Let_def idle_thread_init_fields set_rq_idle)
  then show ?case using Cons by auto
qed simp

lemma scheduler_init_idle:
  "idle_of (scheduler_init s) d = (if d < CHIMERA_MAX_CPUS \<and> d < (if smp_get_cpu_count s = 0 then 1 else smp_get_cpu_count s)
     \<and> cpu_kernel_stack (g_cpu_data s d) \<noteq> 0 then Some (s_cpu_idle_threads s d) else idle_of s d)"
proof -
  have "\<forall>c \<in> set [0..<CHIMERA_MAX_CPUS]. c < CHIMERA_MAX_CPUS" by simp
  note f = init_fold_fields [OF this, of "if smp_get_cpu_count s = 0 then 1 else smp_get_cpu_count s" s d]
  show ?thesis unfolding scheduler_init_def Let_def using f [unfolded Let_def] by simp
qed

lemma demo_idles: "5 \<notin> idles (scheduler_init demo_sched)"
  and demo_idle0: "idle_of (scheduler_init demo_sched) 0 = Some 1000"
  and demo_curr: "curr (scheduler_init demo_sched) c = None"
proof -
  have "idle_of (scheduler_init demo_sched) d \<noteq> Some 5" for d
    by (simp add: scheduler_init_idle) (simp add: demo_sched_def idle_of_def)
  then show "5 \<notin> idles (scheduler_init demo_sched)" by (simp add: idles_def idle_of_def)
  show "idle_of (scheduler_init demo_sched) 0 = Some 1000"
    by (simp add: scheduler_init_idle) (simp add: demo_sched_def CHIMERA_MAX_CPUS_def)
  show "curr (scheduler_init demo_sched) c = None" using scheduler_init_curr [OF demo_boot] .
qed

section \<open>Properties\<close>

text \<open>Run queue order. Queueing a thread that is on no queue puts it behind every thread of at
  least its priority and before all others; the queue stays sorted, so the scheduler is
  priority-driven and first-come first-served within a priority.\<close>
theorem runq_enqueue_order:
  assumes "chain (\<lambda>x. th_next (sc_threads s x)) (rq_head (s_cpu_runq s c)) xs" and "t \<notin> set xs"
    and "rq_count (s_cpu_runq s c) = length xs"
    and "sorted_wrt (\<lambda>x y. th_priority (sc_threads s y) \<le> th_priority (sc_threads s x)) xs"
  shows "\<exists>s' ys. runq_enqueue_locked c t s = Some s' \<and> chain (\<lambda>x. th_next (sc_threads s' x)) (rq_head (s_cpu_runq s' c)) ys
    \<and> ys = takeWhile (\<lambda>x. th_priority (sc_threads s t) \<le> th_priority (sc_threads s x)) xs @ t #
           dropWhile (\<lambda>x. th_priority (sc_threads s t) \<le> th_priority (sc_threads s x)) xs
    \<and> rq_count (s_cpu_runq s' c) = length ys
    \<and> sorted_wrt (\<lambda>x y. th_priority (sc_threads s' y) \<le> th_priority (sc_threads s' x)) ys"
proof -
  obtain nx rq where r: "runq_enqueue_locked c t s = Some (relink nx rq s)"
    "chain nx (rq_head (rq c)) (enq s t xs)" "rq_count (rq c) = rq_count (s_cpu_runq s c) + 1"
    using enqueue_relink [OF assms(1,2)] by blast
  have "sorted_wrt (\<lambda>x y. th_priority (thr s y) \<le> th_priority (thr s x)) (enq s t xs)"
    using assms(4) by (rule sorted_enq)
  then show ?thesis using r assms(3)
    by (intro exI [of _ "relink nx rq s"] exI [of _ "enq s t xs"]) (simp add: enq_def [symmetric])
qed

theorem runq_enqueue_order_witness:
  "\<exists>s' ys. runq_enqueue_locked 0 5 demo_sched = Some s' \<and> ys = [5] \<and> chain (\<lambda>x. th_next (sc_threads s' x)) (rq_head (s_cpu_runq s' 0)) ys"
  using runq_enqueue_order [of demo_sched 0 "[]" 5] by (auto simp: demo_sched_def)



text \<open>C8 Progress of the scheduler. In every reachable state a CPU that runs a thread and has an idle
  thread can yield: the call returns (it neither loops on a queue nor spins for a thread that is
  still running elsewhere), the CPU has a current thread again, the other CPUs keep theirs, and no
  ready thread assigned to the CPU has a higher priority than the thread that now runs.\<close>
theorem scheduler_yield_progress:
  assumes "boot_sched s0" and "sched_step\<^sup>*\<^sup>* (scheduler_init s0) s"
    and "current_thread c s = Some t" and "cpu_idle_thread (g_cpu_data s c) \<noteq> None"
  shows "\<exists>s' n. scheduler_yield c s = Some s' \<and> current_thread c s' = Some n
    \<and> (\<forall>d. d \<noteq> c \<longrightarrow> current_thread d s' = current_thread d s)
    \<and> (\<forall>x. th_state (sc_threads s' x) = THREAD_STATE_READY \<longrightarrow> x \<notin> idles s' \<longrightarrow> th_assigned_cpu (sc_threads s' x) = c
        \<longrightarrow> th_priority (sc_threads s' x) \<le> th_priority (sc_threads s' n))"
proof -
  have "good s" using sched_steps_good [OF assms(2)] scheduler_init_inv [OF assms(1)] by blast
  then obtain Q where inv: "sched_inv s Q {}" by (auto simp: good_def)
  obtain i where "idle_of s c = Some i" using assms(4) by (auto simp: idle_of_def)
  with yield_ok [OF inv _ assms(3) [unfolded current_curr]] obtain u Q2 n where u: "scheduler_yield c s = Some u"
    "sched_inv u Q2 {}" "curr u = (curr s)(c := Some n)"
    "\<forall>x \<in> set (Q2 c). th_priority (thr u x) \<le> th_priority (thr u n)" by blast
  have "x \<in> set (Q2 c)" if x: "th_state (thr u x) = THREAD_STATE_READY" "x \<notin> idles u" "th_assigned_cpu (thr u x) = c" for x
  proof -
    obtain d where d: "x \<in> set (Q2 d)" using rq_invD(2) [OF sched_invD(1) [OF u(2)], of x] x by blast
    then have "th_assigned_cpu (thr u x) = d" using sched_invD(2) [OF u(2), of x] x(2) by (auto simp: tinv_def)
    then show ?thesis using d x(3) by simp
  qed
  then show ?thesis using u(1,3,4) unfolding current_curr by (intro exI [of _ u] exI [of _ n]) auto
qed

lemma demo_started:
  obtains s where "sched_step (scheduler_init demo_sched) s" and "current_thread 0 s = Some 5"
    and "cpu_idle_thread (g_cpu_data s 0) \<noteq> None" and "5 \<notin> idles s"
proof -
  let ?b = "scheduler_init demo_sched"
  note inv = scheduler_init_inv [OF demo_boot]
  have c: "curr ?b d \<noteq> Some 5" "curr ?b 0 = None" for d using demo_curr by simp_all
  from set_initial_ok [OF inv(1) demo_idles c] obtain u where u: "scheduler_set_initial (Some 5) ?b = Some u"
    "curr u = (curr ?b)(0 := Some 5)" by blast
  have st: "sched_step ?b u"
    by (rule sched_step.set_initial [OF demo_idles _ _ u(1)]) (simp_all add: current_curr demo_curr)
  have io: "idle_of u d = idle_of ?b d" for d
  proof -
    have "idle_of (set_th t f s) d = idle_of s d" "idle_of (set_cpu 0 (\<lambda>cl. cl\<lparr>cpu_current_thread := v\<rparr>) s) d = idle_of s d"
      "idle_of (set_rq_link k l w s) d = idle_of s d" for t f s d v k l w
      by (simp_all add: idle_of_def set_rq_link_def split: option.split)
    then show ?thesis
      using u(1)
      by (auto simp: scheduler_set_initial_def runq_remove_locked_def set_rq_idle bind_eq_Some_conv split: if_splits option.splits)
  qed
  have "idle_of u 0 = Some 1000" using io demo_idle0 by simp
  moreover have "5 \<notin> idles u" using demo_idles idles_idle_of [OF io] by simp
  ultimately show ?thesis using that st u(2) by (simp add: current_curr idle_of_def)
qed

theorem scheduler_yield_progress_witness:
  "\<exists>s s' n. sched_step (scheduler_init demo_sched) s \<and> scheduler_yield 0 s = Some s' \<and> current_thread 0 s' = Some n"
proof (rule demo_started)
  fix s assume st: "sched_step (scheduler_init demo_sched) s" and c: "current_thread 0 s = Some 5"
    "cpu_idle_thread (g_cpu_data s 0) \<noteq> None"
  from scheduler_yield_progress [OF demo_boot r_into_rtranclp [of sched_step, OF st] c] obtain s' n
    where "scheduler_yield 0 s = Some s'" "current_thread 0 s' = Some n" by (elim exE conjE)
  then show ?thesis using st by blast
qed

end
