(* ===== verification/Wait_Queue_Props.thy ===== *)
theory Wait_Queue_Props
  imports Sched_Props
begin

text \<open>
  Waking threads: what the timer and \<^verbatim>\<open>thread_wake\<close> do, wait queues as first-in first-out queues
  of threads, and what happens when a wait queue and the timer sleep list meet in the one link
  field they share.
\<close>

section \<open>Waking one thread\<close>

lemma boosted_le: "boosted b \<le> 95"
  by (simp add: boosted_def not_less)

text \<open>C12 Waking is idempotent. In every reachable state \<^verbatim>\<open>thread_wake\<close> returns; a waiting thread
  becomes ready with a boosted priority of at most 95 and joins a run queue, every other thread
  keeps its state, and a second wake-up of the same thread, from any CPU, changes nothing.\<close>
theorem thread_wake_once:
  assumes "boot_sched s0" and "sched_step\<^sup>*\<^sup>* (scheduler_init s0) s" and "c < CHIMERA_MAX_CPUS"
    and "th_state (sc_threads s t) = THREAD_STATE_WAITING"
  shows "\<exists>s'. thread_wake c (Some t) s = Some s' \<and> th_state (sc_threads s' t) = THREAD_STATE_READY
    \<and> th_priority (sc_threads s' t) = boosted (th_base_priority (sc_threads s t)) \<and> th_priority (sc_threads s' t) \<le> 95
    \<and> (\<forall>x. x \<noteq> t \<longrightarrow> th_state (sc_threads s' x) = th_state (sc_threads s x))
    \<and> (\<forall>d. thread_wake d (Some t) s' = Some s')"
proof -
  have "good s" using sched_steps_good [OF assms(2)] scheduler_init_inv [OF assms(1)] by blast
  then obtain Q where inv: "sched_inv s Q {}" by (auto simp: good_def)
  have ni: "t \<notin> idles s" using sched_invD(2) [OF inv, of t] assms(4) by (auto simp: tinv_def)
  from thread_wake_waiting [OF inv ni assms(4,3)] obtain s' where s': "thread_wake c (Some t) s = Some s'"
    "th_state (thr s' t) = THREAD_STATE_READY" "th_priority (thr s' t) = boosted (th_base_priority (thr s t))"
    "\<forall>x. x \<noteq> t \<longrightarrow> (\<exists>n. thr s' x = (thr s x)\<lparr>th_next := n\<rparr>)" by blast
  have "th_state (thr s' x) = th_state (thr s x)" if "x \<noteq> t" for x using s'(4) that by force
  moreover have "thread_wake d (Some t) s' = Some s'" for d using s'(2) by (simp add: thread_wake_def)
  ultimately show ?thesis using s' boosted_le by (intro exI [of _ s']) auto
qed

lemma demo_asleep:
  obtains s where "sched_step\<^sup>*\<^sup>* (scheduler_init demo_sched) s" and "th_state (sc_threads s 5) = THREAD_STATE_WAITING"
    and "\<exists>zs. chain (waits s) (s_sleep_list s) zs \<and> 5 \<in> set zs"
proof (rule demo_started)
  fix s assume st: "sched_step (scheduler_init demo_sched) s" and c: "current_thread 0 s = Some 5"
    "cpu_idle_thread (g_cpu_data s 0) \<noteq> None" and i: "5 \<notin> idles s"
  have "good s" using sched_step_good [OF st] scheduler_init_inv(2) [OF demo_boot] by blast
  then obtain Q zs where inv: "sched_inv s Q {}" and ch: "chain (waits s) (s_sleep_list s) zs" by (auto simp: good_def)
  obtain k where k: "idle_of s 0 = Some k" using c(2) by (auto simp: idle_of_def)
  obtain u where u: "thread_sleep_until 0 10 s = Some u" "chain (waits u) (s_sleep_list u) (5 # remove1 5 zs)"
    "th_state (thr u 5) = THREAD_STATE_WAITING"
    using sleep_until_ok [OF inv c(1) [unfolded current_curr] i k ch, of 10] by blast
  have "sched_step s u" using sched_step.sleep [OF c(1) i c(2) u(1)] .
  then have "sched_step\<^sup>*\<^sup>* (scheduler_init demo_sched) u" using st by (meson r_into_rtranclp rtranclp.rtrancl_into_rtrancl)
  moreover have "\<exists>zs. chain (waits u) (s_sleep_list u) zs \<and> 5 \<in> set zs"
    using u(2) by (intro exI [of _ "5 # remove1 5 zs"] conjI) simp_all
  ultimately show ?thesis using that u(3) by blast
qed

theorem thread_wake_once_witness:
  "\<exists>s s'. th_state (sc_threads s 5) = THREAD_STATE_WAITING \<and> thread_wake 1 (Some 5) s = Some s'
     \<and> th_state (sc_threads s' 5) = THREAD_STATE_READY \<and> thread_wake 0 (Some 5) s' = Some s'"
proof (rule demo_asleep)
  fix s assume s: "sched_step\<^sup>*\<^sup>* (scheduler_init demo_sched) s" "th_state (sc_threads s 5) = THREAD_STATE_WAITING"
  have "1 < CHIMERA_MAX_CPUS" by (simp add: CHIMERA_MAX_CPUS_def)
  from thread_wake_once [OF demo_boot s(1) this s(2)] obtain s' where "thread_wake 1 (Some 5) s = Some s'"
    "th_state (sc_threads s' 5) = THREAD_STATE_READY" "\<forall>d. thread_wake d (Some 5) s' = Some s'" by (elim exE conjE)
  then show ?thesis using s(2) by blast
qed

section \<open>The timer interrupt\<close>

text \<open>The timer wakes exactly the expired sleepers. In every reachable state the sleep list is a
  finite chain \<open>zs\<close>; \<^verbatim>\<open>timer_wake_sleepers\<close> returns, makes ready exactly the waiting threads of the
  list whose deadline is not in the future (as a signed 64-bit difference, so across wrap-around of
  the clock), and leaves the others on the list in their order.\<close>
theorem timer_wake_exact:
  assumes "boot_sched s0" and "sched_step\<^sup>*\<^sup>* (scheduler_init s0) s" and "c < CHIMERA_MAX_CPUS"
  shows "\<exists>zs s'. chain (\<lambda>x. th_wait_next (sc_threads s x)) (s_sleep_list s) zs \<and> timer_wake_sleepers c now s = Some s'
    \<and> chain (\<lambda>x. th_wait_next (sc_threads s' x)) (s_sleep_list s')
        (filter (\<lambda>x. 0 < sint (th_sleep_deadline (sc_threads s x) - now)) zs)
    \<and> (\<forall>x. th_state (sc_threads s' x) =
         (if x \<in> set zs \<and> sint (th_sleep_deadline (sc_threads s x) - now) \<le> 0 \<and> th_state (sc_threads s x) = THREAD_STATE_WAITING
          then THREAD_STATE_READY else th_state (sc_threads s x)))"
proof -
  have "good s" using sched_steps_good [OF assms(2)] scheduler_init_inv [OF assms(1)] by blast
  then obtain Q zs where inv: "sched_inv s Q {}" and ch: "chain (waits s) (s_sleep_list s) zs" by (auto simp: good_def)
  from timer_wake_ok [OF inv ch assms(3), of now] obtain u where "timer_wake_sleepers c now s = Some u"
    "chain (waits u) (s_sleep_list u) (filter (\<lambda>x. \<not> expired_at now (thr s x)) zs)"
    "\<forall>x. th_state (thr u x) = (if x \<in> set zs \<and> expired_at now (thr s x) \<and> th_state (thr s x) = THREAD_STATE_WAITING
          then THREAD_STATE_READY else th_state (thr s x))" by blast
  then show ?thesis using ch by (intro exI [of _ zs] exI [of _ u]) (simp add: expired_at_def not_le)
qed

theorem timer_wake_exact_witness:
  "\<exists>s s'. th_state (sc_threads s 5) = THREAD_STATE_WAITING
     \<and> timer_wake_sleepers 0 (th_sleep_deadline (sc_threads s 5)) s = Some s' \<and> th_state (sc_threads s' 5) = THREAD_STATE_READY"
proof (rule demo_asleep)
  fix s assume s: "sched_step\<^sup>*\<^sup>* (scheduler_init demo_sched) s" "th_state (sc_threads s 5) = THREAD_STATE_WAITING"
    "\<exists>zs. chain (waits s) (s_sleep_list s) zs \<and> 5 \<in> set zs"
  have c: "0 < CHIMERA_MAX_CPUS" by (simp add: CHIMERA_MAX_CPUS_def)
  let ?now = "th_sleep_deadline (sc_threads s 5)"
  obtain zs s' where z: "chain (waits s) (s_sleep_list s) zs" "timer_wake_sleepers 0 ?now s = Some s'"
    "\<forall>x. th_state (thr s' x) = (if x \<in> set zs \<and> sint (th_sleep_deadline (thr s x) - ?now) \<le> 0
       \<and> th_state (thr s x) = THREAD_STATE_WAITING then THREAD_STATE_READY else th_state (thr s x))"
    using timer_wake_exact [OF demo_boot s(1) c, of ?now] by (elim exE conjE)
  have "5 \<in> set zs" using s(3) z(1) chain_unique by blast
  then show ?thesis using s(2) z by (intro exI [of _ s] exI [of _ s']) simp
qed

section \<open>Wait queues\<close>

definition wq_ok :: "sched \<Rightarrow> wait_queue \<Rightarrow> nat list \<Rightarrow> bool" where
  "wq_ok s wq xs \<longleftrightarrow> chain (waits s) (wq_head wq) xs \<and> wq_tail wq = (if xs = [] then None else Some (last xs))"

lemma wait_queue_init_ok: "wq_ok s wait_queue_init []"
  by (simp add: wq_ok_def wait_queue_init_def)

lemma append_waits:
  "waits (snd (wait_queue_append t wq s)) =
     (case wq_tail wq of None \<Rightarrow> (waits s)(t := None) | Some l \<Rightarrow> (waits s)(t := None, l := Some t))"
  by (simp add: wait_queue_append_def Let_def fun_eq_iff split: option.split)

lemma append_ok:
  assumes "wq_ok s wq xs" and "t \<notin> set xs"
  shows "wq_ok (snd (wait_queue_append t wq s)) (fst (wait_queue_append t wq s)) (xs @ [t])"
proof (cases xs rule: rev_cases)
  case Nil
  then show ?thesis
    using assms append_waits [of t wq s] by (simp add: wq_ok_def wait_queue_append_def Let_def)
next
  case (snoc ys y)
  then have tl: "wq_tail wq = Some y" and sg: "seg (waits s) (wq_head wq) ys (Some y)" and "y \<notin> set ys" "y \<noteq> t" "t \<notin> set ys"
    using assms chain_distinct [of "waits s" "wq_head wq" xs] by (auto simp: wq_ok_def seg_snoc)
  moreover have "waits (snd (wait_queue_append t wq s)) = (waits s)(t := None, y := Some t)"
    using append_waits [of t wq s] tl by simp
  ultimately show ?thesis
    using snoc by (simp add: wq_ok_def seg_append) (simp add: wait_queue_append_def Let_def)
qed

lemma wakeup_one_ok:
  assumes q: "wq_ok s wq (t # xs)" and inv: "sched_inv s Q {}" and c: "c < CHIMERA_MAX_CPUS"
  shows "\<exists>wq' s' Q'. wait_queue_wakeup_one c wq s = Some (wq', s') \<and> wq_ok s' wq' xs \<and> sched_inv s' Q' {}
    \<and> (\<forall>x. th_state (thr s' x) = (if x = t \<and> th_state (thr s x) = THREAD_STATE_WAITING
          then THREAD_STATE_READY else th_state (thr s x))) \<and> g_cpu_data s' = g_cpu_data s"
proof -
  have h: "wq_head wq = Some t" "chain (waits s) (waits s t) xs" "t \<notin> set xs"
    "wq_tail wq = Some (last (t # xs))"
    using q chain_distinct [of "waits s" "wq_head wq" "t # xs"] by (auto simp: wq_ok_def)
  let ?a = "set_th t (\<lambda>th. th\<lparr>th_wait_next := None, th_wait_result := CHIMERA_SUCCESS\<rparr>) s"
  have "sched_inv ?a Q {}" by (rule sched_inv_cong [OF inv]) (simp_all add: key_def)
  from thread_wake_ok [OF this c, of "Some t"] obtain b Q1 where b:
    "thread_wake c (Some t) ?a = Some b" "sched_inv b Q1 {}" "\<forall>x. waits b x = waits ?a x" "g_cpu_data b = g_cpu_data ?a"
    "\<forall>x. th_state (thr b x) = (if Some t = Some x \<and> th_state (thr ?a x) = THREAD_STATE_WAITING
          then THREAD_STATE_READY else th_state (thr ?a x))" by blast
  let ?wq = "\<lparr>wq_head = waits s t, wq_tail = (if waits s t = None then None else wq_tail wq)\<rparr>"
  have "chain (waits b) (waits s t) xs = chain (waits s) (waits s t) xs" using b(3) h(3) by (intro seg_cong) auto
  moreover have "waits s t = None \<longleftrightarrow> xs = []" using h(2) by (cases xs) auto
  ultimately have "wq_ok b ?wq xs" using h(2,4) by (simp add: wq_ok_def)
  moreover have "wait_queue_wakeup_one c wq s = Some (?wq, b)"
    using h(1) b(1) by (simp add: wait_queue_wakeup_one_def Let_def)
  ultimately show ?thesis using b by (intro exI [of _ ?wq] exI [of _ b] exI [of _ Q1]) auto
qed

lemma wake_list_ok:
  assumes "sched_inv s Q {}" and "chain (waits s) cur xs" and "c < CHIMERA_MAX_CPUS"
  shows "\<exists>s' Q'. wake_list c cur s = Some s' \<and> sched_inv s' Q' {} \<and> (\<forall>x. th_state (thr s' x) =
      (if x \<in> set xs \<and> th_state (thr s x) = THREAD_STATE_WAITING then THREAD_STATE_READY else th_state (thr s x)))"
  using assms
proof (induction xs arbitrary: s Q cur)
  case Nil
  then show ?case by (auto simp: wake_list.simps)
next
  case (Cons z zs)
  let ?a = "set_th z (\<lambda>th. th\<lparr>th_wait_next := None, th_wait_result := CHIMERA_SUCCESS\<rparr>) s"
  have z: "cur = Some z" "chain (waits s) (waits s z) zs" "z \<notin> set zs"
    using Cons.prems(2) chain_distinct [OF Cons.prems(2)] by auto
  have "sched_inv ?a Q {}" by (rule sched_inv_cong [OF Cons.prems(1)]) (simp_all add: key_def)
  from thread_wake_ok [OF this Cons.prems(3), of "Some z"] obtain b Q1 where b:
    "thread_wake c (Some z) ?a = Some b" "sched_inv b Q1 {}" "\<forall>x. waits b x = waits ?a x"
    "\<forall>x. th_state (thr b x) = (if Some z = Some x \<and> th_state (thr ?a x) = THREAD_STATE_WAITING
          then THREAD_STATE_READY else th_state (thr ?a x))" by blast
  have "chain (waits b) (waits s z) zs = chain (waits s) (waits s z) zs" using b(3) z(3) by (intro seg_cong) auto
  with Cons.IH [OF b(2) _ Cons.prems(3), of "waits s z"] z(2) obtain u Q' where u:
    "wake_list c (waits s z) b = Some u" "sched_inv u Q' {}"
    "\<forall>x. th_state (thr u x) = (if x \<in> set zs \<and> th_state (thr b x) = THREAD_STATE_WAITING
          then THREAD_STATE_READY else th_state (thr b x))" by blast
  have "wake_list c cur s = Some u" using z(1) b(1) u(1) by (subst wake_list.simps) simp
  then show ?case using u b z(3) by (intro exI [of _ u] exI [of _ Q']) auto
qed

text \<open>Wait queues are first-in first-out. Going to sleep appends the thread to the queue;
  \<^verbatim>\<open>wait_queue_wakeup_one\<close> removes the thread that has waited longest and makes it, and no other
  thread, ready; \<^verbatim>\<open>wait_queue_wakeup_all\<close> empties the queue and makes exactly its waiting threads
  ready; the scheduler invariant is kept.\<close>
theorem wait_queue_fifo:
  assumes "wq_ok s wq xs" and "sched_inv s Q {}" and "c < CHIMERA_MAX_CPUS"
  shows "(\<forall>t. t \<notin> set xs \<longrightarrow> (\<exists>wq' s'. wait_queue_append t wq s = (wq', s') \<and> wq_ok s' wq' (xs @ [t])
        \<and> th_state (sc_threads s' t) = THREAD_STATE_WAITING))
    \<and> (\<exists>wq' s' Q'. wait_queue_wakeup_one c wq s = Some (wq', s') \<and> wq_ok s' wq' (tl xs) \<and> sched_inv s' Q' {}
        \<and> (\<forall>x. th_state (sc_threads s' x) = (if xs \<noteq> [] \<and> x = hd xs \<and> th_state (sc_threads s x) = THREAD_STATE_WAITING
              then THREAD_STATE_READY else th_state (sc_threads s x))))
    \<and> (\<exists>wq' s' Q'. wait_queue_wakeup_all c wq s = Some (wq', s') \<and> wq_ok s' wq' [] \<and> sched_inv s' Q' {}
        \<and> (\<forall>x. th_state (sc_threads s' x) = (if x \<in> set xs \<and> th_state (sc_threads s x) = THREAD_STATE_WAITING
              then THREAD_STATE_READY else th_state (sc_threads s x))))"
proof (intro conjI)
  have "th_state (thr (snd (wait_queue_append t wq s)) t) = THREAD_STATE_WAITING" for t
    by (simp add: wait_queue_append_def Let_def split: option.split)
  then show "\<forall>t. t \<notin> set xs \<longrightarrow> (\<exists>wq' s'. wait_queue_append t wq s = (wq', s') \<and> wq_ok s' wq' (xs @ [t])
        \<and> th_state (sc_threads s' t) = THREAD_STATE_WAITING)"
    using append_ok [OF assms(1)] by (metis prod.collapse)
  show "\<exists>wq' s' Q'. wait_queue_wakeup_one c wq s = Some (wq', s') \<and> wq_ok s' wq' (tl xs) \<and> sched_inv s' Q' {}
        \<and> (\<forall>x. th_state (sc_threads s' x) = (if xs \<noteq> [] \<and> x = hd xs \<and> th_state (sc_threads s x) = THREAD_STATE_WAITING
              then THREAD_STATE_READY else th_state (sc_threads s x)))"
  proof (cases xs)
    case Nil
    then have "wait_queue_wakeup_one c wq s = Some (wq, s)" using assms(1) by (simp add: wq_ok_def wait_queue_wakeup_one_def)
    then show ?thesis using Nil assms(1,2) by auto
  next
    case (Cons t ts)
    then show ?thesis using wakeup_one_ok [OF assms(1) [unfolded Cons] assms(2,3)] by auto
  qed
  have "chain (waits s) (wq_head wq) xs" using assms(1) by (simp add: wq_ok_def)
  from wake_list_ok [OF assms(2) this assms(3)]
  show "\<exists>wq' s' Q'. wait_queue_wakeup_all c wq s = Some (wq', s') \<and> wq_ok s' wq' [] \<and> sched_inv s' Q' {}
        \<and> (\<forall>x. th_state (sc_threads s' x) = (if x \<in> set xs \<and> th_state (sc_threads s x) = THREAD_STATE_WAITING
              then THREAD_STATE_READY else th_state (sc_threads s x)))"
    by (auto simp: wait_queue_wakeup_all_def wq_ok_def)
qed

theorem wait_queue_fifo_witness:
  "\<exists>wq' s'. wait_queue_append 5 wait_queue_init (scheduler_init demo_sched) = (wq', s') \<and> wq_ok s' wq' [5]"
proof -
  have "0 < CHIMERA_MAX_CPUS" by (simp add: CHIMERA_MAX_CPUS_def)
  from conjunct1 [OF wait_queue_fifo [OF wait_queue_init_ok scheduler_init_inv(1) [OF demo_boot] this], THEN spec, of 5]
  show ?thesis by auto
qed

section \<open>The shared link\<close>

text \<open>A wait queue can cut the sleep list. A thread that was woken early from a timed sleep is
  still on the sleep list; when it next blocks on an empty wait queue, the queue takes over its
  \<^verbatim>\<open>th_wait_next\<close> field, and every sleeper behind it drops off the sleep list: no timer interrupt can
  reach these threads any more.\<close>
theorem wait_queue_cuts_sleep_list:
  assumes "chain (\<lambda>x. th_wait_next (sc_threads s x)) (s_sleep_list s) (xs @ t # ys)" and "wq_tail wq = None"
  shows "\<exists>wq' s'. wait_queue_append t wq s = (wq', s')
    \<and> chain (\<lambda>x. th_wait_next (sc_threads s' x)) (s_sleep_list s') (xs @ [t])
    \<and> (\<forall>y \<in> set ys. y \<notin> set (xs @ [t]) \<and> th_state (sc_threads s' y) = th_state (sc_threads s y))"
proof -
  let ?r = "wait_queue_append t wq s"
  have d: "distinct (xs @ t # ys)" using chain_distinct [OF assms(1)] .
  have w: "waits (snd ?r) = (waits s)(t := None)" and l: "s_sleep_list (snd ?r) = s_sleep_list s"
    and st: "\<And>y. y \<noteq> t \<Longrightarrow> th_state (thr (snd ?r) y) = th_state (thr s y)"
    using assms(2) append_waits [of t wq s] by (simp_all add: wait_queue_append_def Let_def)
  have "seg (waits s) (s_sleep_list s) xs (Some t)" using assms(1) by (auto simp: seg_append)
  then have "chain (waits (snd ?r)) (s_sleep_list (snd ?r)) (xs @ [t])"
    using d unfolding w l by (simp add: seg_snoc)
  moreover have "y \<notin> set (xs @ [t]) \<and> th_state (thr (snd ?r) y) = th_state (thr s y)" if "y \<in> set ys" for y
  proof -
    have "y \<noteq> t" "y \<notin> set xs" using d that by auto
    then show ?thesis using st by simp
  qed
  ultimately show ?thesis by (intro exI [of _ "fst ?r"] exI [of _ "snd ?r"]) simp
qed

theorem wait_queue_cuts_sleep_list_witness:
  "\<exists>s s' wq'. chain (\<lambda>x. th_wait_next (sc_threads s x)) (s_sleep_list s) [5, 6] \<and>
     wait_queue_append 5 wait_queue_init s = (wq', s') \<and>
     chain (\<lambda>x. th_wait_next (sc_threads s' x)) (s_sleep_list s') [5]"
proof -
  let ?s = "(set_th 5 (\<lambda>th. th\<lparr>th_wait_next := Some 6\<rparr>) demo_sched)\<lparr>s_sleep_list := Some 5\<rparr>"
  have "chain (\<lambda>x. th_wait_next (sc_threads ?s x)) (s_sleep_list ?s) ([] @ 5 # [6])"
    by (simp add: demo_sched_def demo_thread_def)
  moreover from wait_queue_cuts_sleep_list [OF this, of wait_queue_init] obtain wq' s' where
    "wait_queue_append 5 wait_queue_init ?s = (wq', s')" "chain (\<lambda>x. th_wait_next (sc_threads s' x)) (s_sleep_list s') ([] @ [5])"
    by (auto simp: wait_queue_init_def)
  ultimately show ?thesis by (intro exI [of _ ?s] exI [of _ s'] exI [of _ wq']) simp
qed

text \<open>C15 A bounded wait splices the sleep list into the wait queue. \<^verbatim>\<open>wait_queue_sleep_until_irqrestore\<close>
  first appends the thread to the wait queue and then puts it on the sleep list, through the same
  link: on an empty queue the result is a wait queue whose chain is the new thread followed by every
  thread that was already asleep, although none of these waits on the queue.\<close>
theorem bounded_wait_splices_lists:
  assumes "chain (\<lambda>x. th_wait_next (sc_threads s x)) (s_sleep_list s) zs" and "t \<notin> set zs" and "wq_tail wq = None"
    and "wait_queue_append t wq s = (wq', s1)"
  shows "\<exists>s2. thread_sleep_list_add (Some t) deadline s1 = Some s2
    \<and> chain (\<lambda>x. th_wait_next (sc_threads s2 x)) (wq_head wq') (t # zs)
    \<and> chain (\<lambda>x. th_wait_next (sc_threads s2 x)) (s_sleep_list s2) (t # zs)"
proof -
  have w: "waits s1 = (waits s)(t := None)" and l: "s_sleep_list s1 = s_sleep_list s" and h: "wq_head wq' = Some t"
    using assms(3,4) append_waits [of t wq s] by (auto simp: wait_queue_append_def Let_def)
  have ch: "chain (waits s1) (s_sleep_list s1) zs" using assms(1,2) unfolding w l by simp
  then have r: "sleep_list_remove t s1 = Some s1"
    using find_link_miss [OF ch assms(2), of None] by (simp add: sleep_list_remove_def)
  let ?s2 = "(set_th t (\<lambda>th. th\<lparr>th_sleep_deadline := deadline, th_wait_next := s_sleep_list s1\<rparr>) s1)\<lparr>s_sleep_list := Some t\<rparr>"
  have "thread_sleep_list_add (Some t) deadline s1 = Some ?s2" by (simp add: thread_sleep_list_add_def r)
  moreover have "waits ?s2 = (waits s1)(t := s_sleep_list s1)" by (simp add: fun_eq_iff)
  then have "chain (waits ?s2) (Some t) (t # zs)" using ch assms(2) by simp
  ultimately show ?thesis using h by (intro exI [of _ ?s2]) simp
qed

theorem bounded_wait_splices_lists_witness:
  "\<exists>s s1 s2 wq'. s_sleep_list s = Some 6 \<and> wait_queue_append 5 wait_queue_init s = (wq', s1)
     \<and> thread_sleep_list_add (Some 5) 10 s1 = Some s2 \<and> chain (\<lambda>x. th_wait_next (sc_threads s2 x)) (wq_head wq') [5, 6]"
proof -
  let ?s = "demo_sched\<lparr>s_sleep_list := Some 6\<rparr>"
  have "chain (\<lambda>x. th_wait_next (sc_threads ?s x)) (s_sleep_list ?s) [6]" by (simp add: demo_sched_def demo_thread_def)
  moreover obtain wq' s1 where "wait_queue_append 5 wait_queue_init ?s = (wq', s1)" by (rule prod.exhaust)
  ultimately obtain s2 where "thread_sleep_list_add (Some 5) 10 s1 = Some s2"
      "chain (\<lambda>x. th_wait_next (sc_threads s2 x)) (wq_head wq') [5, 6]"
    using bounded_wait_splices_lists [of ?s "[6]" 5 wait_queue_init wq' s1 10] by (auto simp: wait_queue_init_def)
  then show ?thesis using \<open>wait_queue_append 5 _ _ = _\<close>
    by (intro exI [of _ ?s] exI [of _ s1] exI [of _ s2] exI [of _ wq']) simp
qed

end
