(* ===== verification/Fifo.thy ===== *)
theory Fifo
  imports Main
begin

text \<open>
  Bounded first-in first-out queues. \<open>byte_fifo\<close> is the contract the ring buffers of the kernel
  (pipes, both directions of the pseudo-terminal) implement: \<open>put\<close> accepts as much as fits and says
  how much, \<open>get\<close> returns at most \<open>n\<close> of the oldest elements. What its clients need, that nothing is
  lost, duplicated or reordered over any sequence of operations, is proved once here. The second
  half holds the arithmetic of circular buffers.
\<close>

datatype 'a fifo_op = Put "'a list" | Get nat

text \<open>A run of operations: what was accepted, what was delivered, the final state.\<close>
fun fifo_run :: "('a list \<Rightarrow> 's \<Rightarrow> nat \<times> 's) \<Rightarrow> (nat \<Rightarrow> 's \<Rightarrow> 'a list \<times> 's) \<Rightarrow> 'a fifo_op list \<Rightarrow> 's \<Rightarrow> 'a list \<times> 'a list \<times> 's" where
  "fifo_run put get [] s = ([], [], s)"
| "fifo_run put get (Put xs # ops) s =
     (let (n, s) = put xs s; (acc, del, s) = fifo_run put get ops s in (take n xs @ acc, del, s))"
| "fifo_run put get (Get n # ops) s =
     (let (ys, s) = get n s; (acc, del, s) = fifo_run put get ops s in (acc, ys @ del, s))"

locale byte_fifo =
  fixes contents :: "'s \<Rightarrow> 'a list" and cap :: nat and put :: "'a list \<Rightarrow> 's \<Rightarrow> nat \<times> 's"
    and get :: "nat \<Rightarrow> 's \<Rightarrow> 'a list \<times> 's" and inv :: "'s \<Rightarrow> bool"
  assumes cap: "inv s \<Longrightarrow> length (contents s) \<le> cap"
    and put_count: "inv s \<Longrightarrow> fst (put xs s) = min (length xs) (cap - length (contents s))"
    and put_contents: "inv s \<Longrightarrow> contents (snd (put xs s)) = contents s @ take (fst (put xs s)) xs"
    and put_inv: "inv s \<Longrightarrow> inv (snd (put xs s))"
    and get_data: "inv s \<Longrightarrow> fst (get n s) = take n (contents s)"
    and get_contents: "inv s \<Longrightarrow> contents (snd (get n s)) = drop n (contents s)"
    and get_inv: "inv s \<Longrightarrow> inv (snd (get n s))"
begin

lemma put_all:
  assumes "inv s" and "length xs \<le> cap - length (contents s)"
  shows "fst (put xs s) = length xs" and "contents (snd (put xs s)) = contents s @ xs"
  using put_count [OF assms(1), of xs] put_contents [OF assms(1), of xs] assms(2) by simp_all

lemma put_get:
  assumes "inv s" and "contents s = []" and "length xs \<le> cap"
  shows "fst (get (length xs) (snd (put xs s))) = xs"
  using put_all(2) [OF assms(1), of xs] get_data [OF put_inv [OF assms(1)]] assms(2,3) by simp

lemma run_fifo:
  "fifo_run put get ops s = (acc, del, t) \<Longrightarrow> inv s \<Longrightarrow> contents s @ acc = del @ contents t \<and> inv t"
proof (induction ops arbitrary: s acc del)
  case (Cons op ops)
  show ?case
  proof (cases op)
    case (Put xs)
    obtain acc' where r: "fifo_run put get ops (snd (put xs s)) = (acc', del, t)" "acc = take (fst (put xs s)) xs @ acc'"
      using Cons.prems(1) Put by (auto simp: Let_def split: prod.splits)
    then show ?thesis using Cons.IH [OF r(1) put_inv [OF Cons.prems(2)]] put_contents [OF Cons.prems(2)] by simp
  next
    case (Get n)
    obtain del' where r: "fifo_run put get ops (snd (get n s)) = (acc, del', t)" "del = fst (get n s) @ del'"
      using Cons.prems(1) Get by (auto simp: Let_def split: prod.splits)
    have "drop n (contents s) @ acc = del' @ contents t" "inv t"
      using Cons.IH [OF r(1) get_inv [OF Cons.prems(2)]] get_contents [OF Cons.prems(2), of n] by simp_all
    moreover have "contents s @ acc = take n (contents s) @ drop n (contents s) @ acc" by simp
    ultimately show ?thesis using get_data [OF Cons.prems(2), of n] r(2) by simp
  qed
qed simp

lemma run_bounded: "fifo_run put get ops s = (acc, del, t) \<Longrightarrow> inv s \<Longrightarrow> length (contents t) \<le> cap"
  using run_fifo cap by blast

end

section \<open>Circular buffers\<close>

definition ring_slice :: "(nat \<Rightarrow> 'a) \<Rightarrow> nat \<Rightarrow> nat \<Rightarrow> nat \<Rightarrow> 'a list" where
  "ring_slice b n start len = map (\<lambda>i. b ((start + i) mod n)) [0..<len]"

text \<open>The stores of \<open>xs\<close> at the positions from \<open>start\<close> on.\<close>
fun ring_store :: "nat \<Rightarrow> nat \<Rightarrow> 'a list \<Rightarrow> (nat \<Rightarrow> 'a) \<Rightarrow> nat \<Rightarrow> 'a" where
  "ring_store n start [] b = b"
| "ring_store n start (x # xs) b = ring_store n (Suc start) xs (b(start mod n := x))"

lemma length_ring_slice [simp]: "length (ring_slice b n start len) = len"
  by (simp add: ring_slice_def)

lemma ring_slice_take_drop:
  assumes "m \<le> len"
  shows "take m (ring_slice b n start len) = ring_slice b n start m"
    and "drop m (ring_slice b n start len) = ring_slice b n ((start + m) mod n) (len - m)"
  using assms by (auto simp: ring_slice_def take_map drop_map list_eq_iff_nth_eq mod_add_left_eq mod_add_right_eq less_diff_conv ac_simps)

lemma slice_mod [simp]: "ring_slice b n (start mod n) len = ring_slice b n start len"
  by (simp add: ring_slice_def mod_add_left_eq)

lemma ring_distinct:
  fixes i j :: nat
  assumes "i < n" and "j < n" and "(start + i) mod n = (start + j) mod n"
  shows "i = j"
proof -
  have "a = b" if "a \<le> b" "b < n" "(start + b) mod n = (start + a) mod n" for a b
  proof -
    have "n dvd (start + b) - (start + a)" using that mod_eq_dvd_iff_nat [of "start + a" "start + b" n] by simp
    then have "n dvd b - a" by simp
    then show ?thesis using that(1,2) by (metis diff_is_0_eq dvd_imp_le le_antisym less_imp_diff_less not_le zero_less_diff)
  qed
  from this [of i j] this [of j i] assms show ?thesis by (cases "i \<le> j") auto
qed

lemma ring_store_mod [simp]: "ring_store n (start mod n) xs b = ring_store n start xs b"
proof (induction xs arbitrary: start b)
  case (Cons x xs)
  have "ring_store n (Suc (start mod n)) xs c = ring_store n (Suc start) xs c" for c
    using Cons.IH [of "Suc (start mod n)" c] Cons.IH [of "Suc start" c] by (metis mod_Suc_eq)
  then show ?case by simp
qed simp

lemma slice_upd:
  assumes "m < n"
  shows "ring_slice (b((start + m) mod n := x)) n start (Suc m) = ring_slice b n start m @ [x]"
proof -
  have "(start + i) mod n \<noteq> (start + m) mod n" if "i < m" for i
    using ring_distinct [of i n m start] assms that by auto
  then show ?thesis by (simp add: ring_slice_def)
qed

lemma ring_store_slice:
  assumes "m + length xs \<le> n"
  shows "ring_slice (ring_store n (start + m) xs b) n start (m + length xs) = ring_slice b n start m @ xs"
  using assms
proof (induction xs arbitrary: m b)
  case (Cons x xs)
  have "ring_slice (ring_store n (start + Suc m) xs (b((start + m) mod n := x))) n start (Suc m + length xs)
      = ring_slice (b((start + m) mod n := x)) n start (Suc m) @ xs"
    using Cons.prems by (intro Cons.IH) simp
  then show ?case using Cons.prems slice_upd [of m n b start x] by simp
qed simp

end
