(* ===== verification/Pipe.thy ===== *)
theory Pipe
  imports Fifo Wait_Queue
begin

text \<open>
  Anonymous pipes, \<^verbatim>\<open>kernel/vfs/pipe.c\<close>. A pipe is a ring of 64 KiB with a count of its bytes, reader
  and writer counts and a wait queue per direction. The read and write handlers are loops whose
  iterations run under the pipe's lock and may put the caller to sleep; an iteration is one atomic
  step here, and a call is the sequence of its iterations, between which other threads run. User
  memory is a parameter: \<open>copyin addr n\<close> yields the bytes or fails, \<open>copyout bytes addr\<close> says
  whether the store succeeds.
\<close>

definition PIPE_BUF_SIZE :: nat where "PIPE_BUF_SIZE = 65536"
definition MAX_PIPES :: nat where "MAX_PIPES = 32"

record chimera_pipe =
  p_buf :: "nat \<Rightarrow> u8"
  p_head :: nat
  p_tail :: nat
  p_count :: nat
  p_readers :: nat
  p_writers :: nat
  p_active :: bool
  p_r_wq :: wait_queue
  p_w_wq :: wait_queue

text \<open>The two vnodes embedded in a pipe: which pipe, and which end (\<^verbatim>\<open>v_op\<close>).\<close>
datatype pipe_end = READ_END | WRITE_END

record pipe_world =
  s_pipes :: "nat \<Rightarrow> chimera_pipe"
  pw_sched :: sched
  pw_sigpipe :: "nat list"

record uio =
  uio_buf :: nat
  uio_resid :: nat

definition set_pipe :: "nat \<Rightarrow> chimera_pipe \<Rightarrow> pipe_world \<Rightarrow> pipe_world" where
  "set_pipe i p w = w\<lparr>s_pipes := (s_pipes w)(i := p)\<rparr>"

section \<open>The ring\<close>

text \<open>The copy into the circular buffer: as many of the bytes as there is space.\<close>
definition pipe_put :: "u8 list \<Rightarrow> chimera_pipe \<Rightarrow> nat \<times> chimera_pipe" where
  "pipe_put tmp p =
     (let space = PIPE_BUF_SIZE - p_count p; to_write = (if length tmp < space then length tmp else space)
      in (to_write, p\<lparr>p_buf := ring_store PIPE_BUF_SIZE (p_head p) (take to_write tmp) (p_buf p),
            p_head := (p_head p + to_write) mod PIPE_BUF_SIZE, p_count := p_count p + to_write\<rparr>))"

definition pipe_get :: "nat \<Rightarrow> chimera_pipe \<Rightarrow> u8 list \<times> chimera_pipe" where
  "pipe_get n p =
     (let to_read = (if n > p_count p then p_count p else n)
      in (ring_slice (p_buf p) PIPE_BUF_SIZE (p_tail p) to_read,
          p\<lparr>p_tail := (p_tail p + to_read) mod PIPE_BUF_SIZE, p_count := p_count p - to_read\<rparr>))"

section \<open>Reading and writing\<close>

text \<open>Where a call stands: inside its loop with what is left to do, or finished.\<close>
datatype pipe_call =
    P_READ nat uio nat
  | P_WRITE nat uio
  | P_DONE chimera_error

text \<open>The guards before the loop; a null \<^verbatim>\<open>vp\<close> or \<^verbatim>\<open>v_data\<close> is \<open>None\<close>.\<close>
definition pipe_read_vop_read :: "nat option option \<Rightarrow> uio \<Rightarrow> pipe_call" where
  "pipe_read_vop_read vp u =
     (case vp of None \<Rightarrow> P_DONE CHIMERA_SUCCESS
      | Some data \<Rightarrow>
          if uio_buf u = 0 \<or> uio_resid u = 0 then P_DONE CHIMERA_SUCCESS
          else case data of None \<Rightarrow> P_DONE CHIMERA_ERR_INVALID | Some i \<Rightarrow> P_READ i u 0)"

definition pipe_write_vop_write :: "nat option option \<Rightarrow> uio \<Rightarrow> pipe_call" where
  "pipe_write_vop_write vp u =
     (case vp of None \<Rightarrow> P_DONE CHIMERA_SUCCESS
      | Some data \<Rightarrow>
          if uio_buf u = 0 \<or> uio_resid u = 0 then P_DONE CHIMERA_SUCCESS
          else case data of None \<Rightarrow> P_DONE CHIMERA_ERR_INVALID | Some i \<Rightarrow> P_WRITE i u)"

text \<open>One iteration of the read loop on CPU \<open>cpu\<close>.\<close>
definition pipe_read_iter ::
  "(u8 list \<Rightarrow> nat \<Rightarrow> bool) \<Rightarrow> nat \<Rightarrow> nat \<Rightarrow> uio \<Rightarrow> nat \<Rightarrow> pipe_world \<Rightarrow> (pipe_call \<times> pipe_world) option" where
  "pipe_read_iter copyout cpu i u total_read w =
     (if uio_resid u = 0 then Some (P_DONE CHIMERA_SUCCESS, w)
      else let p = s_pipes w i in
      if p_count p = 0 then
        (if p_writers p = 0 \<or> total_read > 0 then Some (P_DONE CHIMERA_SUCCESS, w)
         else do {
           (wq, s) \<leftarrow> wait_queue_sleep_irqrestore cpu (p_r_wq p) (pw_sched w);
           Some (P_READ i u total_read, set_pipe i (p\<lparr>p_r_wq := wq\<rparr>) (w\<lparr>pw_sched := s\<rparr>))
         })
      else let to_read = (if uio_resid u < 256 then uio_resid u else 256); (tmp, p) = pipe_get to_read p in do {
        (wq, s) \<leftarrow> wait_queue_wakeup_one cpu (p_w_wq p) (pw_sched w);
        let w = set_pipe i (p\<lparr>p_w_wq := wq\<rparr>) (w\<lparr>pw_sched := s\<rparr>);
        if \<not> copyout tmp (uio_buf u) then Some (P_DONE CHIMERA_ERR_GENERIC, w)
        else Some (P_READ i (u\<lparr>uio_buf := uio_buf u + length tmp, uio_resid := uio_resid u - length tmp\<rparr>)
                    (total_read + length tmp), w)
      })"

definition pipe_write_iter ::
  "(nat \<Rightarrow> nat \<Rightarrow> u8 list option) \<Rightarrow> nat \<Rightarrow> nat \<Rightarrow> uio \<Rightarrow> pipe_world \<Rightarrow> (pipe_call \<times> pipe_world) option" where
  "pipe_write_iter copyin cpu i u w =
     (if uio_resid u = 0 then Some (P_DONE CHIMERA_SUCCESS, w)
      else let chunk = (if uio_resid u < 256 then uio_resid u else 256) in
      case copyin (uio_buf u) chunk of
        None \<Rightarrow> Some (P_DONE CHIMERA_ERR_GENERIC, w)
      | Some tmp \<Rightarrow>
          let p = s_pipes w i in
          if p_readers p = 0 then
            Some (P_DONE CHIMERA_ERR_GENERIC,
                  (case current_thread cpu (pw_sched w) of None \<Rightarrow> w | Some t \<Rightarrow> w\<lparr>pw_sigpipe := t # pw_sigpipe w\<rparr>))
          else if p_count p \<ge> PIPE_BUF_SIZE then do {
            (wq, s) \<leftarrow> wait_queue_sleep_irqrestore cpu (p_w_wq p) (pw_sched w);
            Some (P_WRITE i u, set_pipe i (p\<lparr>p_w_wq := wq\<rparr>) (w\<lparr>pw_sched := s\<rparr>))
          } else let (n, p) = pipe_put tmp p in do {
            (wq, s) \<leftarrow> wait_queue_wakeup_one cpu (p_r_wq p) (pw_sched w);
            Some (P_WRITE i (u\<lparr>uio_buf := uio_buf u + n, uio_resid := uio_resid u - n\<rparr>),
                  set_pipe i (p\<lparr>p_r_wq := wq\<rparr>) (w\<lparr>pw_sched := s\<rparr>))
          })"

fun pipe_call_step ::
  "(nat \<Rightarrow> nat \<Rightarrow> u8 list option) \<Rightarrow> (u8 list \<Rightarrow> nat \<Rightarrow> bool) \<Rightarrow> nat \<Rightarrow> pipe_call \<Rightarrow> pipe_world \<Rightarrow> (pipe_call \<times> pipe_world) option" where
  "pipe_call_step copyin copyout cpu (P_READ i u n) w = pipe_read_iter copyout cpu i u n w"
| "pipe_call_step copyin copyout cpu (P_WRITE i u) w = pipe_write_iter copyin cpu i u w"
| "pipe_call_step copyin copyout cpu (P_DONE e) w = Some (P_DONE e, w)"

section \<open>Opening and closing\<close>

definition pipe_read_vop_close :: "nat \<Rightarrow> nat option \<Rightarrow> pipe_world \<Rightarrow> (chimera_error \<times> pipe_world) option" where
  "pipe_read_vop_close cpu data w =
     (case data of None \<Rightarrow> Some (CHIMERA_SUCCESS, w)
      | Some i \<Rightarrow>
          let p = s_pipes w i;
              p = (if p_readers p > 0 then p\<lparr>p_readers := p_readers p - 1\<rparr> else p);
              p = (if p_readers p = 0 \<and> p_writers p = 0 then p\<lparr>p_active := False\<rparr> else p)
          in do {
            (wq, s) \<leftarrow> wait_queue_wakeup_all cpu (p_w_wq p) (pw_sched w);
            Some (CHIMERA_SUCCESS, set_pipe i (p\<lparr>p_w_wq := wq\<rparr>) (w\<lparr>pw_sched := s\<rparr>))
          })"

definition pipe_write_vop_close :: "nat \<Rightarrow> nat option \<Rightarrow> pipe_world \<Rightarrow> (chimera_error \<times> pipe_world) option" where
  "pipe_write_vop_close cpu data w =
     (case data of None \<Rightarrow> Some (CHIMERA_SUCCESS, w)
      | Some i \<Rightarrow>
          let p = s_pipes w i;
              p = (if p_writers p > 0 then p\<lparr>p_writers := p_writers p - 1\<rparr> else p);
              p = (if p_readers p = 0 \<and> p_writers p = 0 then p\<lparr>p_active := False\<rparr> else p)
          in do {
            (wq, s) \<leftarrow> wait_queue_wakeup_all cpu (p_r_wq p) (pw_sched w);
            Some (CHIMERA_SUCCESS, set_pipe i (p\<lparr>p_r_wq := wq\<rparr>) (w\<lparr>pw_sched := s\<rparr>))
          })"

definition pipe_create :: "pipe_world \<Rightarrow> (chimera_error + (nat \<times> pipe_end) \<times> (nat \<times> pipe_end)) \<times> pipe_world" where
  "pipe_create w =
     (case List.find (\<lambda>i. \<not> p_active (s_pipes w i)) [0..<MAX_PIPES] of
        None \<Rightarrow> (Inl CHIMERA_ERR_NOMEM, w)
      | Some i \<Rightarrow>
          (Inr ((i, READ_END), (i, WRITE_END)),
           set_pipe i ((s_pipes w i)\<lparr>p_head := 0, p_tail := 0, p_count := 0, p_readers := 1, p_writers := 1,
             p_active := True, p_r_wq := wait_queue_init, p_w_wq := wait_queue_init\<rparr>) w))"

section \<open>Polling\<close>

definition POLLIN :: u16 where "POLLIN = 0x0001"
definition POLLOUT :: u16 where "POLLOUT = 0x0004"
definition POLLERR :: u16 where "POLLERR = 0x0008"
definition POLLHUP :: u16 where "POLLHUP = 0x0010"
definition POLLNVAL :: u16 where "POLLNVAL = 0x0020"

definition pipe_poll :: "(nat \<times> pipe_end) option \<Rightarrow> u16 \<Rightarrow> pipe_world \<Rightarrow> u16" where
  "pipe_poll vp events w =
     (case vp of None \<Rightarrow> POLLNVAL
      | Some (i, READ_END) \<Rightarrow>
          (let p = s_pipes w i;
               r = (if events AND POLLIN \<noteq> 0 \<and> (p_count p > 0 \<or> p_writers p = 0) then POLLIN else 0)
           in if p_writers p = 0 then r OR POLLHUP else r)
      | Some (i, WRITE_END) \<Rightarrow>
          (let p = s_pipes w i;
               r = (if events AND POLLOUT \<noteq> 0 \<and> p_readers p > 0 \<and> PIPE_BUF_SIZE - p_count p > 0 then POLLOUT else 0)
           in if p_readers p = 0 then r OR (POLLERR OR POLLHUP) else r))"

end
