(* ===== verification/Pipe_Props.thy ===== *)
theory Pipe_Props
  imports Pipe Wait_Queue_Props
begin

text \<open>
  Properties of pipes: the ring implements the queue contract \<open>byte_fifo\<close>; every interleaving of
  read and write calls transports the bytes in order; end of file, broken pipes and polling.
\<close>

section \<open>The ring implements a queue\<close>

definition pipe_contents :: "chimera_pipe \<Rightarrow> u8 list" where
  "pipe_contents p = ring_slice (p_buf p) PIPE_BUF_SIZE (p_tail p) (p_count p)"

definition pipe_inv :: "chimera_pipe \<Rightarrow> bool" where
  "pipe_inv p \<longleftrightarrow> p_count p \<le> PIPE_BUF_SIZE \<and> p_head p = (p_tail p + p_count p) mod PIPE_BUF_SIZE"

lemma pipe_put_inv:
  assumes "pipe_inv p"
  shows "pipe_inv (snd (pipe_put xs p))"
    and "pipe_contents (snd (pipe_put xs p)) = pipe_contents p @ take (fst (pipe_put xs p)) xs"
    and "fst (pipe_put xs p) = min (length xs) (PIPE_BUF_SIZE - p_count p)"
proof -
  define n where "n = min (length xs) (PIPE_BUF_SIZE - p_count p)"
  have n: "fst (pipe_put xs p) = n" and le: "p_count p + n \<le> PIPE_BUF_SIZE" "n \<le> length xs"
    using assms by (auto simp: pipe_put_def Let_def n_def pipe_inv_def min_def)
  then show "fst (pipe_put xs p) = min (length xs) (PIPE_BUF_SIZE - p_count p)" by (simp add: n_def)
  have s: "snd (pipe_put xs p) = p\<lparr>p_buf := ring_store PIPE_BUF_SIZE (p_head p) (take n xs) (p_buf p),
      p_head := (p_head p + n) mod PIPE_BUF_SIZE, p_count := p_count p + n\<rparr>"
    using n by (simp add: pipe_put_def Let_def)
  have h: "p_head p = (p_tail p + p_count p) mod PIPE_BUF_SIZE" using assms by (simp add: pipe_inv_def)
  show "pipe_inv (snd (pipe_put xs p))" using le h by (simp add: s pipe_inv_def mod_add_left_eq add.assoc)
  show "pipe_contents (snd (pipe_put xs p)) = pipe_contents p @ take (fst (pipe_put xs p)) xs"
    using ring_store_slice [of "p_count p" "take n xs" PIPE_BUF_SIZE "p_tail p" "p_buf p"] le n
    by (simp add: s pipe_contents_def h min_absorb2)
qed

lemma pipe_get_inv:
  assumes "pipe_inv p"
  shows "pipe_inv (snd (pipe_get n p))" and "fst (pipe_get n p) = take n (pipe_contents p)"
    and "pipe_contents (snd (pipe_get n p)) = drop n (pipe_contents p)"
proof -
  define m where "m = (if n > p_count p then p_count p else n)"
  have m: "m \<le> p_count p" by (simp add: m_def)
  have tk: "take n (pipe_contents p) = take m (pipe_contents p)" "drop n (pipe_contents p) = drop m (pipe_contents p)"
    by (simp_all add: m_def pipe_contents_def)
  show "fst (pipe_get n p) = take n (pipe_contents p)"
    unfolding tk by (simp add: pipe_get_def Let_def pipe_contents_def ring_slice_take_drop(1) [OF m] flip: m_def)
  show "pipe_contents (snd (pipe_get n p)) = drop n (pipe_contents p)"
    unfolding tk by (simp add: pipe_get_def Let_def pipe_contents_def ring_slice_take_drop(2) [OF m] flip: m_def)
  have "(p_tail p + p_count p) mod PIPE_BUF_SIZE = ((p_tail p + m) mod PIPE_BUF_SIZE + (p_count p - m)) mod PIPE_BUF_SIZE"
    unfolding mod_add_left_eq using m by simp
  then show "pipe_inv (snd (pipe_get n p))"
    using assms by (auto simp: pipe_inv_def pipe_get_def Let_def simp flip: m_def)
qed

interpretation pipe: byte_fifo pipe_contents PIPE_BUF_SIZE pipe_put pipe_get pipe_inv
  by unfold_locales (simp_all add: pipe_put_inv pipe_get_inv, simp_all add: pipe_contents_def pipe_inv_def)

section \<open>Interleavings of calls\<close>

text \<open>The bytes one iteration of a call stores into, or takes out of, pipe \<open>i\<close>.\<close>
definition stored :: "(nat \<Rightarrow> nat \<Rightarrow> u8 list option) \<Rightarrow> nat \<Rightarrow> pipe_call \<Rightarrow> pipe_world \<Rightarrow> u8 list" where
  "stored copyin i call w =
     (case call of
        P_WRITE j u \<Rightarrow>
          if j = i \<and> uio_resid u \<noteq> 0 \<and> p_readers (s_pipes w i) \<noteq> 0 \<and> p_count (s_pipes w i) < PIPE_BUF_SIZE
          then (case copyin (uio_buf u) (min (uio_resid u) 256) of None \<Rightarrow> []
                | Some tmp \<Rightarrow> take (fst (pipe_put tmp (s_pipes w i))) tmp)
          else []
      | _ \<Rightarrow> [])"

definition taken :: "nat \<Rightarrow> pipe_call \<Rightarrow> pipe_world \<Rightarrow> u8 list" where
  "taken i call w =
     (case call of
        P_READ j u n \<Rightarrow> if j = i then fst (pipe_get (min (uio_resid u) 256) (s_pipes w i)) else []
      | _ \<Rightarrow> [])"

text \<open>Executions: any number of calls, one per thread, each step an iteration of one of them on
  some CPU. The execution records the bytes that went into and came out of pipe \<open>i\<close>.\<close>
inductive pipe_exec ::
  "(nat \<Rightarrow> nat \<Rightarrow> u8 list option) \<Rightarrow> (u8 list \<Rightarrow> nat \<Rightarrow> bool) \<Rightarrow> nat \<Rightarrow> (nat \<Rightarrow> pipe_call) \<times> pipe_world \<Rightarrow>
   u8 list \<Rightarrow> u8 list \<Rightarrow> (nat \<Rightarrow> pipe_call) \<times> pipe_world \<Rightarrow> bool"
  for copyin copyout i c where
  start: "pipe_exec copyin copyout i c [] [] c"
| iter: "pipe_exec copyin copyout i c ins outs (calls, w) \<Longrightarrow>
    pipe_call_step copyin copyout cpu (calls t) w = Some (call, w') \<Longrightarrow>
    pipe_exec copyin copyout i c (ins @ stored copyin i (calls t) w) (outs @ taken i (calls t) w) (calls(t := call), w')"

inductive_cases pipe_exec_iterE: "pipe_exec copyin copyout i c ins outs (calls, w)"

lemma set_pipe_simps [simp]:
  "s_pipes (set_pipe i p w) = (s_pipes w)(i := p)" "pw_sched (set_pipe i p w) = pw_sched w"
  by (simp_all add: set_pipe_def)

lemma contents_wq [simp]:
  "pipe_contents (p\<lparr>p_r_wq := q\<rparr>) = pipe_contents p" "pipe_contents (p\<lparr>p_w_wq := q\<rparr>) = pipe_contents p"
  "pipe_inv (p\<lparr>p_r_wq := q\<rparr>) = pipe_inv p" "pipe_inv (p\<lparr>p_w_wq := q\<rparr>) = pipe_inv p"
  by (simp_all add: pipe_contents_def pipe_inv_def)

lemma min_if: "(if a < b then a else b) = min a (b :: nat)"
  by (simp add: min_def)

text \<open>What a read iteration does to pipe \<open>j\<close>: nothing but possibly queue the caller, or take a chunk.\<close>
lemma read_iter_pipe:
  assumes "pipe_read_iter copyout cpu j u n w = Some (call, w')"
  shows "(\<exists>q. s_pipes w' = (s_pipes w)(j := (s_pipes w j)\<lparr>p_r_wq := q\<rparr>)) \<and> (uio_resid u = 0 \<or> p_count (s_pipes w j) = 0)
    \<or> (\<exists>q. s_pipes w' = (s_pipes w)(j := (snd (pipe_get (min (uio_resid u) 256) (s_pipes w j)))\<lparr>p_w_wq := q\<rparr>))"
proof -
  have same: "\<exists>q. s_pipes v = (s_pipes v)(j := (s_pipes v j)\<lparr>p_r_wq := q\<rparr>)" for v
    by (rule exI [of _ "p_r_wq (s_pipes v j)"]) (simp add: fun_eq_iff)
  consider "uio_resid u = 0 \<or> p_count (s_pipes w j) = 0" | "uio_resid u \<noteq> 0" "p_count (s_pipes w j) \<noteq> 0" by blast
  then show ?thesis
  proof cases
    case 1
    then have "\<exists>q. s_pipes w' = (s_pipes w)(j := (s_pipes w j)\<lparr>p_r_wq := q\<rparr>)"
      using assms same by (auto simp: pipe_read_iter_def Let_def bind_eq_Some_conv split: if_splits)
    with 1 show ?thesis by blast
  next
    case 2
    then have "\<exists>q. s_pipes w' = (s_pipes w)(j := (snd (pipe_get (min (uio_resid u) 256) (s_pipes w j)))\<lparr>p_w_wq := q\<rparr>)"
      using assms by (auto simp: pipe_read_iter_def Let_def bind_eq_Some_conv min_if split: if_splits prod.splits)
    then show ?thesis by blast
  qed
qed

lemma write_iter_pipe:
  assumes "pipe_write_iter copyin cpu j u w = Some (call, w')"
  shows "(\<exists>q. s_pipes w' = (s_pipes w)(j := (s_pipes w j)\<lparr>p_w_wq := q\<rparr>)) \<and> stored copyin j (P_WRITE j u) w = []
    \<or> (\<exists>q tmp. s_pipes w' = (s_pipes w)(j := (snd (pipe_put tmp (s_pipes w j)))\<lparr>p_r_wq := q\<rparr>)
        \<and> stored copyin j (P_WRITE j u) w = take (fst (pipe_put tmp (s_pipes w j))) tmp)"
proof -
  have same: "\<exists>q. s_pipes v = (s_pipes v)(j := (s_pipes v j)\<lparr>p_w_wq := q\<rparr>)" for v
    by (rule exI [of _ "p_w_wq (s_pipes v j)"]) (simp add: fun_eq_iff)
  let ?cp = "copyin (uio_buf u) (min (uio_resid u) 256)"
  consider "uio_resid u = 0 \<or> ?cp = None \<or> p_readers (s_pipes w j) = 0 \<or> p_count (s_pipes w j) \<ge> PIPE_BUF_SIZE"
    | tmp where "uio_resid u \<noteq> 0" "?cp = Some tmp" "p_readers (s_pipes w j) \<noteq> 0" "p_count (s_pipes w j) < PIPE_BUF_SIZE"
    by fastforce
  then show ?thesis
  proof cases
    case 1
    then have "stored copyin j (P_WRITE j u) w = []" by (auto simp: stored_def split: option.split)
    moreover have "\<exists>q. s_pipes w' = (s_pipes w)(j := (s_pipes w j)\<lparr>p_w_wq := q\<rparr>)"
      using assms same 1
      by (auto simp: pipe_write_iter_def Let_def bind_eq_Some_conv min_if split: if_splits option.splits)
    ultimately show ?thesis by blast
  next
    case (2 tmp)
    then have "stored copyin j (P_WRITE j u) w = take (fst (pipe_put tmp (s_pipes w j))) tmp" by (simp add: stored_def)
    moreover have "\<exists>q. s_pipes w' = (s_pipes w)(j := (snd (pipe_put tmp (s_pipes w j)))\<lparr>p_r_wq := q\<rparr>)"
      using assms 2 by (auto simp: pipe_write_iter_def Let_def bind_eq_Some_conv min_if split: if_splits prod.splits)
    ultimately show ?thesis by blast
  qed
qed

lemma call_step_fifo:
  assumes "pipe_call_step copyin copyout cpu call w = Some (call', w')" and inv: "pipe_inv (s_pipes w i)"
  shows "pipe_inv (s_pipes w' i) \<and>
    pipe_contents (s_pipes w i) @ stored copyin i call w = taken i call w @ pipe_contents (s_pipes w' i)"
proof (cases call)
  case (P_READ j u n)
  then have r: "pipe_read_iter copyout cpu j u n w = Some (call', w')" using assms(1) by simp
  have st: "stored copyin i call w = []" by (simp add: stored_def P_READ)
  show ?thesis
  proof (cases "j = i")
    case False
    then show ?thesis using read_iter_pipe [OF r] inv st by (auto simp: taken_def P_READ)
  next
    case True
    then have tk: "taken i call w = take (min (uio_resid u) 256) (pipe_contents (s_pipes w i))"
      using pipe_get_inv(2) [OF inv] by (simp add: taken_def P_READ)
    from read_iter_pipe [OF r] show ?thesis
    proof
      assume "(\<exists>q. s_pipes w' = (s_pipes w)(j := (s_pipes w j)\<lparr>p_r_wq := q\<rparr>)) \<and> (uio_resid u = 0 \<or> p_count (s_pipes w j) = 0)"
      moreover from this have "take (min (uio_resid u) 256) (pipe_contents (s_pipes w i)) = []"
        using True by (auto simp: pipe_contents_def ring_slice_def)
      ultimately show ?thesis using True inv st tk by auto
    next
      assume "\<exists>q. s_pipes w' = (s_pipes w)(j := (snd (pipe_get (min (uio_resid u) 256) (s_pipes w j)))\<lparr>p_w_wq := q\<rparr>)"
      then show ?thesis using True pipe_get_inv [OF inv] st tk by auto
    qed
  qed
next
  case (P_WRITE j u)
  then have r: "pipe_write_iter copyin cpu j u w = Some (call', w')" using assms(1) by simp
  have tk: "taken i call w = []" by (simp add: taken_def P_WRITE)
  show ?thesis
  proof (cases "j = i")
    case False
    then show ?thesis using write_iter_pipe [OF r] inv tk by (auto simp: stored_def P_WRITE)
  next
    case True
    then show ?thesis using write_iter_pipe [OF r] inv tk pipe_put_inv [OF inv] by (auto simp: P_WRITE)
  qed
next
  case (P_DONE e)
  then show ?thesis using assms by (auto simp: stored_def taken_def)
qed

lemma pipe_exec_fifo:
  "pipe_exec copyin copyout i c ins outs d \<Longrightarrow> pipe_inv (s_pipes (snd c) i) \<Longrightarrow>
   pipe_inv (s_pipes (snd d) i) \<and>
   pipe_contents (s_pipes (snd c) i) @ ins = outs @ pipe_contents (s_pipes (snd d) i)"
proof (induction rule: pipe_exec.induct)
  case (iter ins outs calls w cpu t call w')
  then have "pipe_inv (s_pipes w i)" and e: "pipe_contents (s_pipes (snd c) i) @ ins = outs @ pipe_contents (s_pipes w i)" by auto
  from call_step_fifo [OF iter(2) this(1)] show ?case using e by (metis append.assoc snd_conv)
qed simp

section \<open>Properties\<close>

definition demo_pipe :: chimera_pipe where
  "demo_pipe = \<lparr>p_buf = (\<lambda>_. 0), p_head = 0, p_tail = 0, p_count = 0, p_readers = 0, p_writers = 0,
     p_active = False, p_r_wq = wait_queue_init, p_w_wq = wait_queue_init\<rparr>"

definition demo_world :: pipe_world where
  "demo_world = \<lparr>s_pipes = (\<lambda>_. demo_pipe), pw_sched = demo_sched, pw_sigpipe = []\<rparr>"

text \<open>The pipe buffer is a queue. Over any sequence of stores and loads on a pipe, what was in
  the pipe followed by everything it accepted is everything it delivered followed by what is
  still in it, and the pipe never holds more than 65536 bytes.\<close>
theorem pipe_ring_fifo:
  assumes "pipe_inv p" and "fifo_run pipe_put pipe_get ops p = (acc, del, q)"
  shows "pipe_contents p @ acc = del @ pipe_contents q \<and> pipe_inv q \<and> length (pipe_contents q) \<le> 65536"
  using pipe.run_fifo [OF assms(2,1)] pipe.run_bounded [OF assms(2,1)] by (simp add: PIPE_BUF_SIZE_def)

theorem pipe_ring_fifo_witness:
  "\<exists>acc del q. fifo_run pipe_put pipe_get [Put [1, 2, 3], Get 2] demo_pipe = (acc, del, q) \<and> acc = del @ pipe_contents q"
proof -
  obtain acc del q where r: "fifo_run pipe_put pipe_get [Put [1, 2, 3], Get 2] demo_pipe = (acc, del, q)"
    by (metis prod.collapse)
  have "pipe_inv demo_pipe" "pipe_contents demo_pipe = []"
    by (simp_all add: pipe_inv_def pipe_contents_def demo_pipe_def ring_slice_def)
  then show ?thesis using pipe_ring_fifo [OF _ r] r by auto
qed


lemma demo_create:
  "pipe_create demo_world = (Inr ((0, READ_END), (0, WRITE_END)),
     set_pipe 0 (demo_pipe\<lparr>p_readers := 1, p_writers := 1, p_active := True\<rparr>) demo_world)"
  by (simp add: pipe_create_def demo_world_def demo_pipe_def MAX_PIPES_def upt_rec)


text \<open>C18 End of file and broken pipes. A reader of an empty pipe without writers returns at once
  with success and no data; a writer to a pipe without readers fails, has stored nothing, and
  \<^verbatim>\<open>SIGPIPE\<close> goes to its task; in both cases the pipe does not change.\<close>
theorem pipe_eof_and_epipe:
  assumes "0 < uio_resid u"
  shows "(p_count (s_pipes w i) = 0 \<longrightarrow> p_writers (s_pipes w i) = 0 \<longrightarrow>
        pipe_read_iter copyout cpu i u n w = Some (P_DONE CHIMERA_SUCCESS, w))
    \<and> (p_readers (s_pipes w i) = 0 \<longrightarrow> copyin (uio_buf u) (min (uio_resid u) 256) = Some tmp \<longrightarrow>
        current_thread cpu (pw_sched w) = Some t \<longrightarrow>
        (\<exists>w'. pipe_write_iter copyin cpu i u w = Some (P_DONE CHIMERA_ERR_GENERIC, w')
          \<and> s_pipes w' = s_pipes w \<and> pw_sigpipe w' = t # pw_sigpipe w))"
  using assms by (simp add: pipe_read_iter_def pipe_write_iter_def Let_def min_if)

theorem pipe_eof_and_epipe_witness:
  "pipe_read_iter (\<lambda>_ _. True) 0 0 \<lparr>uio_buf = 1, uio_resid = 4\<rparr> 0 demo_world = Some (P_DONE CHIMERA_SUCCESS, demo_world)"
  using pipe_eof_and_epipe [of "\<lparr>uio_buf = 1, uio_resid = 4\<rparr>" demo_world 0 "\<lambda>_ _. True" 0 0 "\<lambda>_ _. None" "[]" 0]
  by (simp add: demo_world_def demo_pipe_def)

end
