(* ===== verification/Pty.thy ===== *)
theory Pty
  imports Pipe
begin

text \<open>
  The pseudo-terminal, \<^verbatim>\<open>kernel/vfs/pty.c\<close>: two rings of 4096 bytes (one slot always stays free) and a
  line buffer. The master side writes through the line discipline, which echoes, erases and hands
  complete lines to the slave; the other direction is unprocessed. \<open>copyin\<close> and \<open>copyout\<close> are
  parameters as for pipes.
\<close>

definition PTY_BUF_SIZE :: nat where "PTY_BUF_SIZE = 4096"

record pty =
  master_buf :: "nat \<Rightarrow> u8"
  master_head :: nat
  master_tail :: nat
  slave_buf :: "nat \<Rightarrow> u8"
  slave_head :: nat
  slave_tail :: nat
  line_buf :: "nat \<Rightarrow> u8"
  line_len :: nat
  line_ready :: bool
  master_wq :: wait_queue
  slave_wq :: wait_queue

section \<open>Ring buffer helpers\<close>

definition ring_used :: "nat \<Rightarrow> nat \<Rightarrow> nat \<Rightarrow> nat" where
  "ring_used h t cap = (if h \<ge> t then h - t else cap - t + h)"

definition ring_free :: "nat \<Rightarrow> nat \<Rightarrow> nat \<Rightarrow> nat" where
  "ring_free h t cap = cap - 1 - ring_used h t cap"

fun ring_write_loop :: "nat \<Rightarrow> u8 list \<Rightarrow> (nat \<Rightarrow> u8) \<Rightarrow> nat \<Rightarrow> (nat \<Rightarrow> u8) \<times> nat" where
  "ring_write_loop cap [] buf h = (buf, h)"
| "ring_write_loop cap (c # cs) buf h = ring_write_loop cap cs (buf(h := c)) ((h + 1) mod cap)"

fun ring_read_loop :: "nat \<Rightarrow> nat \<Rightarrow> (nat \<Rightarrow> u8) \<Rightarrow> nat \<Rightarrow> u8 list \<times> nat" where
  "ring_read_loop cap 0 buf t = ([], t)"
| "ring_read_loop cap (Suc n) buf t =
     (let (cs, t') = ring_read_loop cap n buf ((t + 1) mod cap) in (buf t # cs, t'))"

text \<open>The number of bytes written, the buffer and the head.\<close>
definition ring_write :: "(nat \<Rightarrow> u8) \<Rightarrow> nat \<Rightarrow> nat \<Rightarrow> nat \<Rightarrow> u8 list \<Rightarrow> nat \<times> (nat \<Rightarrow> u8) \<times> nat" where
  "ring_write buf h t cap src =
     (let avail = ring_free h t cap; len = (if length src > avail then avail else length src)
      in (len, ring_write_loop cap (take len src) buf h))"

definition ring_read :: "(nat \<Rightarrow> u8) \<Rightarrow> nat \<Rightarrow> nat \<Rightarrow> nat \<Rightarrow> nat \<Rightarrow> u8 list \<times> nat" where
  "ring_read buf h t cap len =
     (let avail = ring_used h t cap; len = (if len > avail then avail else len)
      in ring_read_loop cap len buf t)"

definition slave_put :: "u8 list \<Rightarrow> pty \<Rightarrow> nat \<times> pty" where
  "slave_put cs p =
     (let (n, buf, h) = ring_write (slave_buf p) (slave_head p) (slave_tail p) PTY_BUF_SIZE cs
      in (n, p\<lparr>slave_buf := buf, slave_head := h\<rparr>))"

definition master_put :: "u8 list \<Rightarrow> pty \<Rightarrow> nat \<times> pty" where
  "master_put cs p =
     (let (n, buf, h) = ring_write (master_buf p) (master_head p) (master_tail p) PTY_BUF_SIZE cs
      in (n, p\<lparr>master_buf := buf, master_head := h\<rparr>))"

definition slave_get :: "nat \<Rightarrow> pty \<Rightarrow> u8 list \<times> pty" where
  "slave_get n p =
     (let (cs, t) = ring_read (slave_buf p) (slave_head p) (slave_tail p) PTY_BUF_SIZE n in (cs, p\<lparr>slave_tail := t\<rparr>))"

definition master_get :: "nat \<Rightarrow> pty \<Rightarrow> u8 list \<times> pty" where
  "master_get n p =
     (let (cs, t) = ring_read (master_buf p) (master_head p) (master_tail p) PTY_BUF_SIZE n in (cs, p\<lparr>master_tail := t\<rparr>))"

section \<open>Master side\<close>

text \<open>Successful calls return the new \<^verbatim>\<open>uio\<close>; a failing \<^verbatim>\<open>copyout\<close> still returns success, without
  advancing it.\<close>
definition pty_master_read :: "(u8 list \<Rightarrow> nat \<Rightarrow> bool) \<Rightarrow> uio \<Rightarrow> pty \<Rightarrow> chimera_error \<times> uio \<times> pty" where
  "pty_master_read copyout u p =
     (if uio_resid u = 0 then (CHIMERA_SUCCESS, u, p)
      else let avail = ring_used (slave_head p) (slave_tail p) PTY_BUF_SIZE in
      if avail > 0 then
        let to_read = (if uio_resid u < avail then uio_resid u else avail);
            to_read = (if to_read > 512 then 512 else to_read);
            (tmp, p) = slave_get to_read p
        in if copyout tmp (uio_buf u)
           then (CHIMERA_SUCCESS, u\<lparr>uio_buf := uio_buf u + length tmp, uio_resid := uio_resid u - length tmp\<rparr>, p)
           else (CHIMERA_SUCCESS, u, p)
      else (CHIMERA_SUCCESS, u, p))"

text \<open>The line discipline for one character.\<close>
definition pty_char :: "u8 \<Rightarrow> pty \<Rightarrow> pty" where
  "pty_char ch p =
     (if ch = 0x08 \<or> ch = 0x7f then
        (if line_len p > 0 then snd (slave_put [0x08, 0x20, 0x08] (p\<lparr>line_len := line_len p - 1\<rparr>)) else p)
      else if line_len p < PTY_BUF_SIZE - 1 then
        let p = p\<lparr>line_buf := (line_buf p)(line_len p := ch), line_len := line_len p + 1\<rparr>;
            p = snd (slave_put [ch] p)
        in if ch = 0x0a \<or> ch = 0x0d
           then (snd (master_put (map (line_buf p) [0..<line_len p]) p))\<lparr>line_len := 0, line_ready := True\<rparr>
           else p
      else p)"

definition pty_master_write ::
  "(nat \<Rightarrow> nat \<Rightarrow> u8 list option) \<Rightarrow> nat \<Rightarrow> uio \<Rightarrow> pty \<Rightarrow> sched \<Rightarrow> (chimera_error \<times> uio \<times> pty \<times> sched) option" where
  "pty_master_write copyin cpu u p s =
     (if uio_buf u = 0 \<or> uio_resid u = 0 then Some (CHIMERA_SUCCESS, u, p, s)
      else let to_write = (if uio_resid u > 512 then 512 else uio_resid u) in
      case copyin (uio_buf u) to_write of
        None \<Rightarrow> Some (CHIMERA_ERR_GENERIC, u, p, s)
      | Some tmp \<Rightarrow>
          let p = fold pty_char tmp p;
              u = u\<lparr>uio_buf := uio_buf u + to_write, uio_resid := uio_resid u - to_write\<rparr>
          in do {
            (wq, s) \<leftarrow> wait_queue_wakeup_one cpu (slave_wq p) s;
            let p = p\<lparr>slave_wq := wq\<rparr>;
            (wq, s) \<leftarrow> wait_queue_wakeup_one cpu (master_wq p) s;
            Some (CHIMERA_SUCCESS, u, p\<lparr>master_wq := wq\<rparr>, s)
          })"

section \<open>Slave side\<close>

text \<open>One turn of the slave's read loop: \<open>Inr\<close> is the result of the call, \<open>Inl\<close> a sleep after
  which the loop starts over.\<close>
definition pty_slave_read ::
  "(u8 list \<Rightarrow> nat \<Rightarrow> bool) \<Rightarrow> nat \<Rightarrow> uio \<Rightarrow> pty \<Rightarrow> sched \<Rightarrow> (unit + chimera_error \<times> uio) option \<times> pty \<times> sched" where
  "pty_slave_read copyout cpu u p s =
     (if uio_resid u = 0 then (Some (Inr (CHIMERA_SUCCESS, u)), p, s)
      else let avail = ring_used (master_head p) (master_tail p) PTY_BUF_SIZE in
      if avail > 0 then
        let to_read = (if uio_resid u < avail then uio_resid u else avail);
            to_read = (if to_read > 512 then 512 else to_read);
            (tmp, p) = master_get to_read p
        in if copyout tmp (uio_buf u)
           then (Some (Inr (CHIMERA_SUCCESS, u\<lparr>uio_buf := uio_buf u + length tmp, uio_resid := uio_resid u - length tmp\<rparr>)), p, s)
           else (Some (Inr (CHIMERA_SUCCESS, u)), p, s)
      else case wait_queue_sleep cpu (slave_wq p) s of
             None \<Rightarrow> (None, p, s)
           | Some (wq, s) \<Rightarrow> (Some (Inl ()), p\<lparr>slave_wq := wq\<rparr>, s))"

definition pty_slave_write ::
  "(nat \<Rightarrow> nat \<Rightarrow> u8 list option) \<Rightarrow> nat \<Rightarrow> uio \<Rightarrow> pty \<Rightarrow> sched \<Rightarrow> (chimera_error \<times> uio \<times> pty \<times> sched) option" where
  "pty_slave_write copyin cpu u p s =
     (if uio_buf u = 0 \<or> uio_resid u = 0 then Some (CHIMERA_SUCCESS, u, p, s)
      else let to_write = (if uio_resid u > 512 then 512 else uio_resid u) in
      case copyin (uio_buf u) to_write of
        None \<Rightarrow> Some (CHIMERA_ERR_GENERIC, u, p, s)
      | Some tmp \<Rightarrow>
          let (n, p) = slave_put tmp p;
              u = u\<lparr>uio_buf := uio_buf u + n, uio_resid := uio_resid u - n\<rparr>
          in do {
            (wq, s) \<leftarrow> wait_queue_wakeup_one cpu (master_wq p) s;
            Some (CHIMERA_SUCCESS, u, p\<lparr>master_wq := wq\<rparr>, s)
          })"

section \<open>Control, set-up and polling\<close>

text \<open>\<^verbatim>\<open>TIOCGWINSZ\<close> reports 25 rows and 80 columns; every other request succeeds.\<close>
definition pty_ioctl :: "(u8 list \<Rightarrow> nat \<Rightarrow> bool) \<Rightarrow> u64 \<Rightarrow> nat \<Rightarrow> chimera_error" where
  "pty_ioctl copyout cmd arg =
     (if cmd = 0x5413 \<and> arg \<noteq> 0
      then (if copyout [25, 0, 80, 0, 0, 0, 0, 0] arg then CHIMERA_SUCCESS else CHIMERA_ERR_INVALID)
      else CHIMERA_SUCCESS)"

definition pty_init :: "pty \<Rightarrow> pty" where
  "pty_init p = p\<lparr>master_wq := wait_queue_init, slave_wq := wait_queue_init, master_head := 0, master_tail := 0,
     slave_head := 0, slave_tail := 0, line_len := 0, line_ready := False\<rparr>"

definition pty_master_poll :: "u16 \<Rightarrow> pty \<Rightarrow> u16" where
  "pty_master_poll events p =
     (if events AND POLLIN \<noteq> 0 \<and> ring_used (slave_head p) (slave_tail p) PTY_BUF_SIZE > 0 then POLLIN else 0)
     OR (if events AND POLLOUT \<noteq> 0 then POLLOUT else 0)"

definition pty_slave_poll :: "u16 \<Rightarrow> pty \<Rightarrow> u16" where
  "pty_slave_poll events p =
     (if events AND POLLIN \<noteq> 0 \<and> ring_used (master_head p) (master_tail p) PTY_BUF_SIZE > 0 then POLLIN else 0)
     OR (if events AND POLLOUT \<noteq> 0 \<and> ring_free (slave_head p) (slave_tail p) PTY_BUF_SIZE > 0 then POLLOUT else 0)"

end
