(* ===== verification/Pty_Props.thy ===== *)
theory Pty_Props
  imports Pty Pipe_Props
begin

text \<open>
  Properties of the pseudo-terminal: both rings implement the queue contract \<open>byte_fifo\<close> with a
  capacity of 4095 bytes, and the line discipline refines a specification over lists of characters.
\<close>

section \<open>Ring arithmetic\<close>

lemma ring_write_loop_eq:
  "h < cap \<Longrightarrow> ring_write_loop cap cs buf h = (ring_store cap h cs buf, (h + length cs) mod cap)"
proof (induction cs arbitrary: buf h)
  case (Cons c cs)
  have "(h + 1) mod cap < cap" using Cons.prems by simp
  from Cons.IH [OF this, of "buf(h := c)"] show ?case
    using Cons.prems by (simp add: mod_add_left_eq del: fun_upd_apply)
qed simp

lemma ring_read_loop_eq:
  "t < cap \<Longrightarrow> ring_read_loop cap n buf t = (ring_slice buf cap t n, (t + n) mod cap)"
proof (induction n arbitrary: t)
  case 0
  then show ?case by (simp add: ring_slice_def)
next
  case (Suc n)
  have "(t + 1) mod cap < cap" using Suc.prems by simp
  note IH = Suc.IH [OF this]
  have "[0..<Suc n] = 0 # map Suc [0..<n]" by (simp add: map_Suc_upt upt_conv_Cons)
  then have "ring_slice buf cap t (Suc n) = buf t # ring_slice buf cap (Suc t) n"
    using Suc.prems by (simp add: ring_slice_def)
  then show ?case using IH by (simp add: mod_add_left_eq)
qed

lemma ring_used_props:
  assumes "h < cap" and "t < cap"
  shows "ring_used h t cap < cap" and "(t + ring_used h t cap) mod cap = h"
  using assms by (auto simp: ring_used_def mod_if)

lemma ring_used_unique:
  assumes "t < cap" and "n < cap"
  shows "ring_used ((t + n) mod cap) t cap = n"
proof -
  have "(t + n) mod cap = (if t + n < cap then t + n else t + n - cap)" using assms by (simp add: mod_if)
  then show ?thesis using assms by (auto simp: ring_used_def)
qed

definition ring_contents :: "(nat \<Rightarrow> u8) \<Rightarrow> nat \<Rightarrow> nat \<Rightarrow> nat \<Rightarrow> u8 list" where
  "ring_contents buf h t cap = ring_slice buf cap t (ring_used h t cap)"

lemma ring_write_ok:
  assumes i: "h < cap" "t < cap" and r: "ring_write buf h t cap cs = (n, buf', h')"
  shows "n = min (length cs) (cap - 1 - length (ring_contents buf h t cap))" and "h' < cap"
    and "ring_contents buf' h' t cap = ring_contents buf h t cap @ take n cs"
proof -
  let ?u = "ring_used h t cap"
  note u = ring_used_props [OF i]
  have n: "n = min (length cs) (cap - 1 - ?u)" and b: "buf' = ring_store cap h (take n cs) buf" "h' = (h + n) mod cap"
    using r i(1) by (auto simp: ring_write_def Let_def ring_free_def ring_write_loop_eq min_def split: if_splits)
  then show "n = min (length cs) (cap - 1 - length (ring_contents buf h t cap))" by (simp add: ring_contents_def)
  show "h' < cap" using b(2) i(1) by simp
  have le: "?u + n < cap" "n \<le> length cs" using n u(1) by auto
  have h': "h' = (t + (?u + n)) mod cap" using b(2) u(2) by (metis add.assoc mod_add_left_eq)
  have "ring_used h' t cap = ?u + n" unfolding h' using ring_used_unique [OF i(2) le(1)] .
  moreover have "ring_slice (ring_store cap (t + ?u) (take n cs) buf) cap t (?u + length (take n cs)) = ring_slice buf cap t ?u @ take n cs"
    using le by (intro ring_store_slice) simp
  moreover have "ring_store cap (t + ?u) (take n cs) buf = buf'" using b(1) u(2) by (metis ring_store_mod)
  ultimately show "ring_contents buf' h' t cap = ring_contents buf h t cap @ take n cs"
    using le(2) by (simp add: ring_contents_def min_absorb2)
qed

lemma ring_read_ok:
  assumes i: "h < cap" "t < cap" and r: "ring_read buf h t cap n = (cs, t')"
  shows "cs = take n (ring_contents buf h t cap)" and "t' < cap"
    and "ring_contents buf h t' cap = drop n (ring_contents buf h t cap)"
proof -
  let ?u = "ring_used h t cap"
  define m where "m = (if n > ?u then ?u else n)"
  note u = ring_used_props [OF i]
  have m: "m \<le> ?u" by (simp add: m_def)
  have c: "cs = ring_slice buf cap t m" "t' = (t + m) mod cap"
    using r i(2) by (auto simp: ring_read_def Let_def ring_read_loop_eq m_def)
  have tk: "take n (ring_contents buf h t cap) = take m (ring_contents buf h t cap)"
    "drop n (ring_contents buf h t cap) = drop m (ring_contents buf h t cap)"
    by (simp_all add: m_def ring_contents_def)
  show "cs = take n (ring_contents buf h t cap)" unfolding tk by (simp add: c ring_contents_def ring_slice_take_drop(1) [OF m])
  show "t' < cap" using c(2) i(2) by simp
  have "h = (t' + (?u - m)) mod cap" unfolding c(2) mod_add_left_eq using u(2) m by simp
  then have "ring_used h t' cap = ?u - m" using ring_used_unique [of t' cap "?u - m"] \<open>t' < cap\<close> u(1) by simp
  then show "ring_contents buf h t' cap = drop n (ring_contents buf h t cap)"
    unfolding tk using ring_slice_take_drop(2) [OF m, of buf cap t] c(2) by (simp add: ring_contents_def)
qed

section \<open>Both rings are queues\<close>

definition master_contents :: "pty \<Rightarrow> u8 list" where
  "master_contents p = ring_contents (master_buf p) (master_head p) (master_tail p) PTY_BUF_SIZE"

definition slave_contents :: "pty \<Rightarrow> u8 list" where
  "slave_contents p = ring_contents (slave_buf p) (slave_head p) (slave_tail p) PTY_BUF_SIZE"

definition pty_inv :: "pty \<Rightarrow> bool" where
  "pty_inv p \<longleftrightarrow> master_head p < PTY_BUF_SIZE \<and> master_tail p < PTY_BUF_SIZE \<and> slave_head p < PTY_BUF_SIZE
     \<and> slave_tail p < PTY_BUF_SIZE \<and> line_len p < PTY_BUF_SIZE"

lemma slave_put_ok:
  assumes "pty_inv p"
  shows "fst (slave_put xs p) = min (length xs) (PTY_BUF_SIZE - 1 - length (slave_contents p))"
    and "slave_contents (snd (slave_put xs p)) = slave_contents p @ take (fst (slave_put xs p)) xs"
    and "pty_inv (snd (slave_put xs p))"
proof -
  obtain n buf h where r: "ring_write (slave_buf p) (slave_head p) (slave_tail p) PTY_BUF_SIZE xs = (n, buf, h)"
    by (metis prod.collapse)
  have i: "slave_head p < PTY_BUF_SIZE" "slave_tail p < PTY_BUF_SIZE" using assms by (simp_all add: pty_inv_def)
  note w = ring_write_ok [OF i r]
  have "slave_put xs p = (n, p\<lparr>slave_buf := buf, slave_head := h\<rparr>)" by (simp add: slave_put_def r)
  then show "fst (slave_put xs p) = min (length xs) (PTY_BUF_SIZE - 1 - length (slave_contents p))"
    "slave_contents (snd (slave_put xs p)) = slave_contents p @ take (fst (slave_put xs p)) xs"
    "pty_inv (snd (slave_put xs p))"
    using w assms by (simp_all add: slave_contents_def pty_inv_def)
qed

lemma master_put_ok:
  assumes "pty_inv p"
  shows "fst (master_put xs p) = min (length xs) (PTY_BUF_SIZE - 1 - length (master_contents p))"
    and "master_contents (snd (master_put xs p)) = master_contents p @ take (fst (master_put xs p)) xs"
    and "pty_inv (snd (master_put xs p))"
proof -
  obtain n buf h where r: "ring_write (master_buf p) (master_head p) (master_tail p) PTY_BUF_SIZE xs = (n, buf, h)"
    by (metis prod.collapse)
  have i: "master_head p < PTY_BUF_SIZE" "master_tail p < PTY_BUF_SIZE" using assms by (simp_all add: pty_inv_def)
  note w = ring_write_ok [OF i r]
  have "master_put xs p = (n, p\<lparr>master_buf := buf, master_head := h\<rparr>)" by (simp add: master_put_def r)
  then show "fst (master_put xs p) = min (length xs) (PTY_BUF_SIZE - 1 - length (master_contents p))"
    "master_contents (snd (master_put xs p)) = master_contents p @ take (fst (master_put xs p)) xs"
    "pty_inv (snd (master_put xs p))"
    using w assms by (simp_all add: master_contents_def pty_inv_def)
qed

lemma slave_get_ok:
  assumes "pty_inv p"
  shows "fst (slave_get n p) = take n (slave_contents p)"
    and "slave_contents (snd (slave_get n p)) = drop n (slave_contents p)" and "pty_inv (snd (slave_get n p))"
proof -
  obtain cs t where r: "ring_read (slave_buf p) (slave_head p) (slave_tail p) PTY_BUF_SIZE n = (cs, t)"
    by (metis prod.collapse)
  have i: "slave_head p < PTY_BUF_SIZE" "slave_tail p < PTY_BUF_SIZE" using assms by (simp_all add: pty_inv_def)
  note w = ring_read_ok [OF i r]
  have "slave_get n p = (cs, p\<lparr>slave_tail := t\<rparr>)" by (simp add: slave_get_def r)
  then show "fst (slave_get n p) = take n (slave_contents p)"
    "slave_contents (snd (slave_get n p)) = drop n (slave_contents p)" "pty_inv (snd (slave_get n p))"
    using w assms by (simp_all add: slave_contents_def pty_inv_def)
qed

lemma master_get_ok:
  assumes "pty_inv p"
  shows "fst (master_get n p) = take n (master_contents p)"
    and "master_contents (snd (master_get n p)) = drop n (master_contents p)" and "pty_inv (snd (master_get n p))"
proof -
  obtain cs t where r: "ring_read (master_buf p) (master_head p) (master_tail p) PTY_BUF_SIZE n = (cs, t)"
    by (metis prod.collapse)
  have i: "master_head p < PTY_BUF_SIZE" "master_tail p < PTY_BUF_SIZE" using assms by (simp_all add: pty_inv_def)
  note w = ring_read_ok [OF i r]
  have "master_get n p = (cs, p\<lparr>master_tail := t\<rparr>)" by (simp add: master_get_def r)
  then show "fst (master_get n p) = take n (master_contents p)"
    "master_contents (snd (master_get n p)) = drop n (master_contents p)" "pty_inv (snd (master_get n p))"
    using w assms by (simp_all add: master_contents_def pty_inv_def)
qed

lemma contents_cap:
  assumes "pty_inv p"
  shows "length (master_contents p) \<le> PTY_BUF_SIZE - 1" and "length (slave_contents p) \<le> PTY_BUF_SIZE - 1"
  using assms ring_used_props(1) [of "master_head p" PTY_BUF_SIZE "master_tail p"]
    ring_used_props(1) [of "slave_head p" PTY_BUF_SIZE "slave_tail p"]
  by (simp_all add: pty_inv_def master_contents_def slave_contents_def ring_contents_def)

interpretation slave: byte_fifo slave_contents "PTY_BUF_SIZE - 1" slave_put slave_get pty_inv
  by unfold_locales (use contents_cap in \<open>simp_all add: slave_put_ok slave_get_ok\<close>)

interpretation master: byte_fifo master_contents "PTY_BUF_SIZE - 1" master_put master_get pty_inv
  by unfold_locales (use contents_cap in \<open>simp_all add: master_put_ok master_get_ok\<close>)

section \<open>The line discipline\<close>

text \<open>The specification: the line being edited, the characters waiting for the slave and those
  waiting for the master. A queue accepts only what fits.\<close>
record tty =
  tty_line :: "u8 list"
  tty_input :: "u8 list"
  tty_output :: "u8 list"

definition enqueue :: "u8 list \<Rightarrow> u8 list \<Rightarrow> u8 list" where
  "enqueue q xs = q @ take (4095 - length q) xs"

definition tty_char :: "u8 \<Rightarrow> tty \<Rightarrow> tty" where
  "tty_char ch t =
     (if ch = 0x08 \<or> ch = 0x7f then
        (if tty_line t = [] then t
         else t\<lparr>tty_line := butlast (tty_line t), tty_output := enqueue (tty_output t) [0x08, 0x20, 0x08]\<rparr>)
      else if length (tty_line t) < 4095 then
        (if ch = 0x0a \<or> ch = 0x0d
         then \<lparr>tty_line = [], tty_input = enqueue (tty_input t) (tty_line t @ [ch]), tty_output = enqueue (tty_output t) [ch]\<rparr>
         else t\<lparr>tty_line := tty_line t @ [ch], tty_output := enqueue (tty_output t) [ch]\<rparr>)
      else t)"

definition abs_pty :: "pty \<Rightarrow> tty" where
  "abs_pty p = \<lparr>tty_line = map (line_buf p) [0..<line_len p], tty_input = master_contents p, tty_output = slave_contents p\<rparr>"

lemma put_frames [simp]:
  "master_contents (snd (slave_put xs p)) = master_contents p" "line_buf (snd (slave_put xs p)) = line_buf p"
  "line_len (snd (slave_put xs p)) = line_len p" "slave_contents (snd (master_put xs p)) = slave_contents p"
  "line_buf (snd (master_put xs p)) = line_buf p" "line_len (snd (master_put xs p)) = line_len p"
  "slave_wq (snd (slave_put xs p)) = slave_wq p" "master_wq (snd (slave_put xs p)) = master_wq p"
  "slave_wq (snd (master_put xs p)) = slave_wq p" "master_wq (snd (master_put xs p)) = master_wq p"
  by (simp_all add: slave_put_def master_put_def master_contents_def slave_contents_def split: prod.splits)

lemma line_frames [simp]:
  "master_contents (p\<lparr>line_len := n\<rparr>) = master_contents p" "slave_contents (p\<lparr>line_len := n\<rparr>) = slave_contents p"
  "master_contents (p\<lparr>line_buf := b\<rparr>) = master_contents p" "slave_contents (p\<lparr>line_buf := b\<rparr>) = slave_contents p"
  "master_contents (p\<lparr>line_len := n, line_ready := r\<rparr>) = master_contents p"
  "slave_contents (p\<lparr>line_len := n, line_ready := r\<rparr>) = slave_contents p"
  by (simp_all add: master_contents_def slave_contents_def)

lemma take_min_length: "take (min (length xs) n) xs = take n xs"
  by (simp add: min_def)

lemma slave_put_enqueue: "pty_inv p \<Longrightarrow> slave_contents (snd (slave_put xs p)) = enqueue (slave_contents p) xs"
  by (simp add: slave_put_ok enqueue_def PTY_BUF_SIZE_def take_min_length)

lemma master_put_enqueue: "pty_inv p \<Longrightarrow> master_contents (snd (master_put xs p)) = enqueue (master_contents p) xs"
  by (simp add: master_put_ok enqueue_def PTY_BUF_SIZE_def take_min_length)

lemma pty_inv_line0: "pty_inv p \<Longrightarrow> pty_inv (p\<lparr>line_len := 0\<rparr>)" "pty_inv p \<Longrightarrow> pty_inv (p\<lparr>line_buf := b, line_len := n\<rparr>) \<longleftrightarrow> n < PTY_BUF_SIZE"
    "pty_inv p \<Longrightarrow> pty_inv (p\<lparr>line_len := 0, line_ready := r\<rparr>)"
  by (auto simp: pty_inv_def)

lemma pty_char_refines:
  assumes "pty_inv p" shows "pty_inv (pty_char ch p)" and "abs_pty (pty_char ch p) = tty_char ch (abs_pty p)"
proof -
  have l: "line_len p < 4096" using assms by (simp add: pty_inv_def PTY_BUF_SIZE_def)
  consider (bs) "ch = 0x08 \<or> ch = 0x7f" "line_len p > 0" | (bs0) "ch = 0x08 \<or> ch = 0x7f" "line_len p = 0"
    | (full) "\<not> (ch = 0x08 \<or> ch = 0x7f)" "\<not> line_len p < 4095"
    | (char) "\<not> (ch = 0x08 \<or> ch = 0x7f)" "line_len p < 4095" by blast
  then have "pty_inv (pty_char ch p) \<and> abs_pty (pty_char ch p) = tty_char ch (abs_pty p)"
  proof cases
    case bs
    let ?q = "p\<lparr>line_len := line_len p - 1\<rparr>"
    have q: "pty_inv ?q" using assms l by (auto simp: pty_inv_def)
    have e: "pty_char ch p = snd (slave_put [0x08, 0x20, 0x08] ?q)" using bs by (simp add: pty_char_def)
    obtain k where k: "line_len p = Suc k" using bs(2) by (cases "line_len p") auto
    have "butlast (map (line_buf p) [0..<Suc k]) = map (line_buf p) [0..<k]" by simp
    then show ?thesis using bs q k slave_put_enqueue [OF q] slave_put_ok(3) [OF q]
      unfolding e by (simp add: abs_pty_def tty_char_def del: upt_Suc)
  next
    case bs0
    then show ?thesis using assms by (simp add: pty_char_def abs_pty_def tty_char_def)
  next
    case full
    then show ?thesis using assms by (simp add: pty_char_def abs_pty_def tty_char_def PTY_BUF_SIZE_def)
  next
    case char
    define q where "q = p\<lparr>line_buf := (line_buf p)(line_len p := ch), line_len := line_len p + 1\<rparr>"
    have q: "pty_inv q" using assms char(2) by (simp add: q_def pty_inv_line0 PTY_BUF_SIZE_def)
    have ln: "map (line_buf q) [0..<line_len q] = map (line_buf p) [0..<line_len p] @ [ch]"
      by (simp add: q_def)
    let ?r = "snd (slave_put [ch] q)"
    have r: "pty_inv ?r" "slave_contents ?r = enqueue (slave_contents p) [ch]" "master_contents ?r = master_contents p"
      using slave_put_ok(3) [OF q] slave_put_enqueue [OF q] by (simp_all add: q_def)
    have e: "pty_char ch p = (if ch = 0x0a \<or> ch = 0x0d then (snd (master_put (map (line_buf ?r) [0..<line_len ?r]) ?r))\<lparr>line_len := 0, line_ready := True\<rparr> else ?r)"
    proof -
      have "line_len p < PTY_BUF_SIZE - 1" using char(2) by (simp add: PTY_BUF_SIZE_def)
      then show ?thesis unfolding pty_char_def Let_def if_not_P [OF char(1)] q_def [symmetric] by (simp only: if_True)
    qed
    show ?thesis
    proof (cases "ch = 0x0a \<or> ch = 0x0d")
      case True
      then show ?thesis using char r ln master_put_ok(3) [OF r(1)] master_put_enqueue [OF r(1)]
        unfolding e by (simp add: abs_pty_def tty_char_def pty_inv_line0)
    next
      case False
      then show ?thesis using char r ln unfolding e by (simp add: abs_pty_def tty_char_def)
    qed
  qed
  then show "pty_inv (pty_char ch p)" "abs_pty (pty_char ch p) = tty_char ch (abs_pty p)" by blast+
qed

lemma pty_chars_refine:
  "pty_inv p \<Longrightarrow> pty_inv (fold pty_char cs p) \<and> abs_pty (fold pty_char cs p) = fold tty_char cs (abs_pty p)"
  by (induction cs arbitrary: p) (simp_all add: pty_char_refines)

section \<open>Properties\<close>

definition demo_pty :: pty where
  "demo_pty = pty_init \<lparr>master_buf = (\<lambda>_. 0), master_head = 5, master_tail = 7, slave_buf = (\<lambda>_. 0), slave_head = 9,
     slave_tail = 9, line_buf = (\<lambda>_. 0), line_len = 3, line_ready = True, master_wq = wait_queue_init, slave_wq = wait_queue_init\<rparr>"

lemma demo_pty_inv: "pty_inv demo_pty"
  by (simp add: pty_inv_def demo_pty_def pty_init_def PTY_BUF_SIZE_def)

text \<open>Both terminal rings are queues of 4095 bytes: over any sequence of operations nothing is
  lost, duplicated or reordered, and neither ring ever holds more than 4095 bytes.\<close>
theorem pty_rings_fifo:
  assumes "pty_inv p"
  shows "(fifo_run slave_put slave_get ops p = (acc, del, q) \<longrightarrow>
        slave_contents p @ acc = del @ slave_contents q \<and> length (slave_contents q) \<le> 4095)
    \<and> (fifo_run master_put master_get ops p = (acc, del, q) \<longrightarrow>
        master_contents p @ acc = del @ master_contents q \<and> length (master_contents q) \<le> 4095)"
  using slave.run_fifo [OF _ assms] slave.run_bounded [OF _ assms] master.run_fifo [OF _ assms] master.run_bounded [OF _ assms]
  by (simp add: PTY_BUF_SIZE_def)

theorem pty_rings_fifo_witness:
  "\<exists>acc del q. fifo_run slave_put slave_get [Put [1, 2], Get 1] demo_pty = (acc, del, q)
     \<and> slave_contents demo_pty @ acc = del @ slave_contents q"
proof -
  obtain acc del q where r: "fifo_run slave_put slave_get [Put [1, 2], Get 1] demo_pty = (acc, del, q)" by (metis prod.collapse)
  then show ?thesis using pty_rings_fifo [OF demo_pty_inv, of "[Put [1, 2], Get 1]" acc del q] by auto
qed

text \<open>C10 The line discipline. A successful write to the master runs the copied characters (at most
  512 per call) through the specification of the line discipline: erase removes the last character
  and rubs it out on the screen, other characters are echoed and collected, and a line end hands the
  whole line to the slave.\<close>
theorem pty_line_discipline:
  assumes "pty_inv p" and "uio_buf u \<noteq> 0" and "uio_resid u \<noteq> 0" and "copyin (uio_buf u) (min 512 (uio_resid u)) = Some tmp"
    and "pty_master_write copyin cpu u p s = Some (err, u', p', s')"
  shows "err = CHIMERA_SUCCESS \<and> abs_pty p' = fold tty_char tmp (abs_pty p) \<and> pty_inv p'
    \<and> uio_resid u' = uio_resid u - min 512 (uio_resid u)"
proof -
  define n where "n = min 512 (uio_resid u)"
  have m: "(if uio_resid u > 512 then 512 else uio_resid u) = n" by (simp add: n_def)
  let ?q = "fold pty_char tmp p"
  have c: "copyin (uio_buf u) n = Some tmp" using assms(4) by (simp add: n_def)
  have w: "do { (wq, s) \<leftarrow> wait_queue_wakeup_one cpu (slave_wq ?q) s;
      (wq', s) \<leftarrow> wait_queue_wakeup_one cpu (master_wq ?q) s;
      Some (CHIMERA_SUCCESS, u\<lparr>uio_buf := uio_buf u + n, uio_resid := uio_resid u - n\<rparr>, ?q\<lparr>slave_wq := wq, master_wq := wq'\<rparr>, s) }
    = Some (err, u', p', s')"
    using assms(2,3,5) unfolding pty_master_write_def Let_def m c by simp
  obtain a s1 where a: "wait_queue_wakeup_one cpu (slave_wq ?q) s = Some (a, s1)"
    using w by (cases "wait_queue_wakeup_one cpu (slave_wq ?q) s") auto
  obtain b s2 where b: "wait_queue_wakeup_one cpu (master_wq ?q) s1 = Some (b, s2)"
    using w a by (cases "wait_queue_wakeup_one cpu (master_wq ?q) s1") auto
  have "err = CHIMERA_SUCCESS" "p' = ?q\<lparr>slave_wq := a, master_wq := b\<rparr>" "uio_resid u' = uio_resid u - min 512 (uio_resid u)"
    using w [symmetric] by (simp_all add: a b n_def)
  moreover have "abs_pty (?q\<lparr>slave_wq := a, master_wq := b\<rparr>) = abs_pty ?q" "pty_inv (?q\<lparr>slave_wq := a, master_wq := b\<rparr>) = pty_inv ?q" for a b
    by (simp_all add: abs_pty_def master_contents_def slave_contents_def pty_inv_def)
  ultimately show ?thesis using pty_chars_refine [OF assms(1)] by simp
qed

theorem pty_line_discipline_witness:
  "\<exists>u' p' s'. pty_master_write (\<lambda>_ n. Some [0x61, 0x62, 0x08, 0x0a]) 0 \<lparr>uio_buf = 1, uio_resid = 4\<rparr> demo_pty demo_sched
       = Some (CHIMERA_SUCCESS, u', p', s') \<and> tty_input (abs_pty p') = [0x61, 0x0a]"
proof -
  let ?ci = "\<lambda>_ n. Some [0x61, 0x62, 0x08, 0x0a]" and ?u = "\<lparr>uio_buf = 1, uio_resid = 4\<rparr> :: uio"
  have "\<exists>r. pty_master_write (\<lambda>_ _. Some tmp) 0 ?u demo_pty demo_sched = Some r" for tmp
  proof -
    have "slave_wq (pty_char c q) = slave_wq q \<and> master_wq (pty_char c q) = master_wq q" for c q
      by (simp add: pty_char_def Let_def)
    then have "slave_wq (fold pty_char cs q) = slave_wq q \<and> master_wq (fold pty_char cs q) = master_wq q" for cs q
      by (induction cs arbitrary: q) simp_all
    moreover have "slave_wq demo_pty = wait_queue_init" "master_wq demo_pty = wait_queue_init"
      by (simp_all add: demo_pty_def pty_init_def)
    ultimately have "wait_queue_wakeup_one 0 (slave_wq (fold pty_char cs demo_pty)) s = Some (wait_queue_init, s)"
      "wait_queue_wakeup_one 0 (master_wq (fold pty_char cs demo_pty)) s = Some (wait_queue_init, s)" for cs s
      by (simp_all add: wait_queue_wakeup_one_def wait_queue_init_def)
    then show ?thesis unfolding pty_master_write_def Let_def by simp
  qed
  then obtain err u' p' s' where w: "pty_master_write ?ci 0 ?u demo_pty demo_sched = Some (err, u', p', s')"
    by (metis prod.collapse)
  have "abs_pty demo_pty = \<lparr>tty_line = [], tty_input = [], tty_output = []\<rparr>"
    by (simp add: abs_pty_def demo_pty_def pty_init_def master_contents_def slave_contents_def ring_contents_def
        ring_used_def ring_slice_def)
  then have "tty_input (fold tty_char [0x61, 0x62, 0x08, 0x0a] (abs_pty demo_pty)) = [0x61, 0x0a]"
    by (simp add: tty_char_def enqueue_def)
  then show ?thesis using pty_line_discipline [OF demo_pty_inv, of ?u ?ci "[0x61, 0x62, 0x08, 0x0a]" 0 demo_sched err u' p' s'] w
    by auto
qed

text \<open>C21 A full line swallows its own end. Once 4095 characters have been typed without a line end,
  every further character except the two erase characters is dropped, the line end included: the
  line never reaches the slave until something is erased.\<close>
theorem pty_full_line_stuck:
  assumes "line_len p = 4095" and "0x08 \<notin> set cs" and "0x7f \<notin> set cs"
  shows "fold pty_char cs p = p"
  using assms
proof (induction cs)
  case (Cons c cs)
  have "pty_char c p = p" using Cons.prems by (simp add: pty_char_def PTY_BUF_SIZE_def)
  then show ?case using Cons by simp
qed simp

theorem pty_full_line_stuck_witness:
  "fold pty_char [0x0a, 0x0d, 0x61] (demo_pty\<lparr>line_len := 4095\<rparr>) = demo_pty\<lparr>line_len := 4095\<rparr>"
  by (rule pty_full_line_stuck) simp_all

end
