(* ===== verification/Pmap.thy ===== *)
theory Pmap
  imports Zone "HOL-Library.Monad_Syntax"
begin

text \<open>
  Page tables, \<^verbatim>\<open>kernel/mm/pmap.c\<close>. Tables live in the kernel memory of \<open>kmem\<close>, reached through the
  direct map at \<^verbatim>\<open>g_hhdm_base\<close>; an entry is a 64-bit word. Physical addresses inside entries are
  words, those of the page allocator naturals. The CPU that runs an operation is \<open>cpu_id\<close>, its CR3 is
  \<open>cpu_cr3\<close>. TLB shootdowns have no effect on the modelled state.
  An operation that would not return has the value \<open>None\<close>.
\<close>

unbundle bit_operations_syntax

definition PAGE_PRESENT :: u64 where "PAGE_PRESENT = 0x1"
definition PAGE_WRITE :: u64 where "PAGE_WRITE = 0x2"
definition PAGE_USER :: u64 where "PAGE_USER = 0x4"
definition PAGE_PWT :: u64 where "PAGE_PWT = 0x8"
definition PAGE_PCD :: u64 where "PAGE_PCD = 0x10"
definition PAGE_PS :: u64 where "PAGE_PS = 0x80"
definition PAGE_COW :: u64 where "PAGE_COW = 0x200"
definition PAGE_NX :: u64 where "PAGE_NX = 0x8000000000000000"
definition PTE_PHYS_MASK :: u64 where "PTE_PHYS_MASK = 0x000FFFFFFFFFF000"
definition SIGNAL_TRAMP_VA :: u64 where "SIGNAL_TRAMP_VA = 0x70000000"
definition USER_TOP :: u64 where "USER_TOP = 0x0000800000000000"

record pmap_state =
  pk :: kmem
  s_kernel_pml4_phys :: u64
  s_tramp_phys :: u64
  cpu_cr3 :: u64
  cpu_id :: nat
  cpu_active_cr3 :: "nat \<Rightarrow> u64"

definition s_tramp_code :: "u8 list" where
  "s_tramp_code = [0x48, 0x8B, 0x3C, 0x24, 0xFF, 0x54, 0x24, 0x08, 0x48, 0x8B, 0x7C, 0x24, 0x10,
     0xB8, 0xB8, 0x00, 0x00, 0x00, 0x0F, 0x05]"

definition has :: "u64 \<Rightarrow> u64 \<Rightarrow> bool" where
  "has e flag \<longleftrightarrow> e AND flag \<noteq> 0"

section \<open>Access to tables and pages\<close>

text \<open>The physical byte address of entry \<open>i\<close> of the table an entry (or CR3 value) points to, and the
  loads and stores there.\<close>
definition slot :: "u64 \<Rightarrow> nat \<Rightarrow> nat" where
  "slot table i = unat (table AND PTE_PHYS_MASK) + 8 * i"

definition rd :: "nat \<Rightarrow> pmap_state \<Rightarrow> u64" where
  "rd a s = km_mem (pk s) (km_hhdm (pk s) + a)"

definition wr :: "nat \<Rightarrow> u64 \<Rightarrow> pmap_state \<Rightarrow> pmap_state" where
  "wr a v s = s\<lparr>pk := poke (km_hhdm (pk s) + a) v (pk s)\<rparr>"

definition zero_page :: "nat \<Rightarrow> pmap_state \<Rightarrow> pmap_state" where
  "zero_page phys s = s\<lparr>pk := memset0 (km_hhdm (pk s) + phys) 4096 (pk s)\<rparr>"

definition copy_page :: "nat \<Rightarrow> nat \<Rightarrow> pmap_state \<Rightarrow> pmap_state" where
  "copy_page dst src s =
     (let d = km_hhdm (pk s) + dst; r = km_hhdm (pk s) + src in
      s\<lparr>pk := (pk s)\<lparr>km_mem := (\<lambda>a. if d \<le> a \<and> a < d + 4096 then km_mem (pk s) (a - d + r) else km_mem (pk s) a)\<rparr>\<rparr>)"

definition pm_alloc :: "pmap_state \<Rightarrow> nat \<times> pmap_state" where
  "pm_alloc s = (let (phys, p) = pmm_alloc_page (km_pmm (pk s)) in (phys, s\<lparr>pk := (pk s)\<lparr>km_pmm := p\<rparr>\<rparr>))"

definition pm_release :: "u64 \<Rightarrow> pmap_state \<Rightarrow> pmap_state" where
  "pm_release phys s = s\<lparr>pk := (pk s)\<lparr>km_pmm := pmm_release_page (unat phys) (km_pmm (pk s))\<rparr>\<rparr>"

definition pm_retain :: "u64 \<Rightarrow> pmap_state \<Rightarrow> pmap_state" where
  "pm_retain phys s = s\<lparr>pk := (pk s)\<lparr>km_pmm := pmm_retain_page (unat phys) (km_pmm (pk s))\<rparr>\<rparr>"

definition failed_alloc :: "nat \<Rightarrow> bool" where
  "failed_alloc phys \<longleftrightarrow> phys = 0 \<or> phys = PADDR_INVALID"

definition idx4 :: "u64 \<Rightarrow> nat" where "idx4 va = unat (drop_bit 39 va AND 0x1FF)"
definition idx3 :: "u64 \<Rightarrow> nat" where "idx3 va = unat (drop_bit 30 va AND 0x1FF)"
definition idx2 :: "u64 \<Rightarrow> nat" where "idx2 va = unat (drop_bit 21 va AND 0x1FF)"
definition idx1 :: "u64 \<Rightarrow> nat" where "idx1 va = unat (drop_bit 12 va AND 0x1FF)"

definition va_of :: "nat \<Rightarrow> nat \<Rightarrow> nat \<Rightarrow> nat \<Rightarrow> u64" where
  "va_of i4 i3 i2 i1 = push_bit 39 (word_of_nat i4) OR push_bit 30 (word_of_nat i3) OR
     push_bit 21 (word_of_nat i2) OR push_bit 12 (word_of_nat i1)"

definition pmap_is_trampoline_va :: "u64 \<Rightarrow> bool" where
  "pmap_is_trampoline_va va \<longleftrightarrow> va AND NOT 0xFFF = SIGNAL_TRAMP_VA"

section \<open>Mapping\<close>

text \<open>One level of the descent of \<^verbatim>\<open>pmap_map_user_page_unlocked\<close>: the entry, after a fresh table has
  been hooked in where there was none; \<open>None\<close> when the call returns 0. A page directory entry that
  maps a large page counts as missing.\<close>
definition ensure_table :: "bool \<Rightarrow> u64 \<Rightarrow> nat \<Rightarrow> pmap_state \<Rightarrow> u64 option \<times> pmap_state" where
  "ensure_table is_pd table i s =
     (let e = rd (slot table i) s in
      if \<not> has e PAGE_PRESENT \<or> (is_pd \<and> has e PAGE_PS) then
        (let (phys, s) = pm_alloc s in
         if failed_alloc phys then (None, s)
         else let s = zero_page (unat (word_of_nat phys AND PTE_PHYS_MASK)) s;
                  e = (word_of_nat phys AND PTE_PHYS_MASK) OR PAGE_PRESENT OR PAGE_WRITE OR PAGE_USER
              in (Some e, wr (slot table i) e s))
      else if \<not> has e PAGE_USER then (None, s)
      else (Some e, s))"

text \<open>The store of the leaf entry, with the release of the page it replaces.\<close>
definition set_leaf :: "u64 \<Rightarrow> u64 \<Rightarrow> u64 \<Rightarrow> u64 \<Rightarrow> pmap_state \<Rightarrow> pmap_state" where
  "set_leaf pde vaddr paddr flags s =
     (let a = slot pde (idx1 vaddr); old_pte = rd a s;
          s = (if has old_pte PAGE_PRESENT \<and> old_pte AND PTE_PHYS_MASK \<noteq> paddr AND PTE_PHYS_MASK
                  \<and> \<not> pmap_is_trampoline_va vaddr
               then pm_release (old_pte AND PTE_PHYS_MASK) s else s)
      in wr a ((paddr AND PTE_PHYS_MASK) OR flags OR PAGE_PRESENT OR PAGE_USER) s)"

definition pmap_map_user_page_unlocked :: "u64 \<Rightarrow> u64 \<Rightarrow> u64 \<Rightarrow> u64 \<Rightarrow> pmap_state \<Rightarrow> u64 \<times> pmap_state" where
  "pmap_map_user_page_unlocked pml4 vaddr paddr flags s =
     (if pml4 = 0 \<or> vaddr < 0x1000 \<or> vaddr \<ge> USER_TOP then (0, s)
      else if idx4 vaddr \<ge> 256 then (0, s)
      else case ensure_table False pml4 (idx4 vaddr) s of
        (None, s) \<Rightarrow> (0, s)
      | (Some pml4e, s) \<Rightarrow>
          (case ensure_table False pml4e (idx3 vaddr) s of
             (None, s) \<Rightarrow> (0, s)
           | (Some pdpte, s) \<Rightarrow>
               (case ensure_table True pdpte (idx2 vaddr) s of
                  (None, s) \<Rightarrow> (0, s)
                | (Some pde, s) \<Rightarrow> (paddr, set_leaf pde vaddr paddr flags s))))"

definition pmap_map_user_page :: "u64 \<Rightarrow> u64 \<Rightarrow> u64 \<Rightarrow> u64 \<Rightarrow> pmap_state \<Rightarrow> u64 \<times> pmap_state" where
  "pmap_map_user_page pml4 vaddr paddr flags s = pmap_map_user_page_unlocked pml4 vaddr paddr flags s"

text \<open>The page of no-ops that starts with the signal trampoline, word by word (little endian).\<close>
definition tramp_word :: "nat \<Rightarrow> u64" where
  "tramp_word k = foldr (\<lambda>b w. push_bit 8 w OR ucast b)
     (map (\<lambda>j. if 8 * k + j < length s_tramp_code then s_tramp_code ! (8 * k + j) else 0x90) [0..<8]) 0"

definition write_tramp :: "nat \<Rightarrow> pmap_state \<Rightarrow> pmap_state" where
  "write_tramp phys s =
     (let d = km_hhdm (pk s) + phys in
      s\<lparr>pk := (pk s)\<lparr>km_mem := (\<lambda>a. if d \<le> a \<and> a < d + 4096 then tramp_word ((a - d) div 8) else km_mem (pk s) a)\<rparr>\<rparr>)"

definition pmap_trampoline_install :: "u64 \<Rightarrow> pmap_state \<Rightarrow> pmap_state" where
  "pmap_trampoline_install pml4 s =
     (let (ok, s) =
        (if s_tramp_phys s = 0 then
           (let (phys, s) = pm_alloc s in
            if failed_alloc phys then (False, s)
            else (True, pm_retain (word_of_nat phys) ((write_tramp phys s)\<lparr>s_tramp_phys := word_of_nat phys\<rparr>)))
         else (True, s))
      in if ok then snd (pmap_map_user_page_unlocked pml4 SIGNAL_TRAMP_VA (s_tramp_phys s) PAGE_USER s) else s)"

definition pmap_bootstrap :: "pmap_state \<Rightarrow> pmap_state" where
  "pmap_bootstrap s = s\<lparr>s_kernel_pml4_phys := cpu_cr3 s AND PTE_PHYS_MASK\<rparr>"

definition pmap_kernel_pml4 :: "pmap_state \<Rightarrow> u64" where
  "pmap_kernel_pml4 s = s_kernel_pml4_phys s"

definition copy_kernel_half :: "u64 \<Rightarrow> u64 \<Rightarrow> pmap_state \<Rightarrow> pmap_state" where
  "copy_kernel_half dst src s = fold (\<lambda>i s. wr (slot dst i) (rd (slot src i) s) s) [256..<512] s"

definition pmap_create :: "pmap_state \<Rightarrow> u64 \<times> pmap_state" where
  "pmap_create s =
     (let (phys, s) = pm_alloc s in
      if failed_alloc phys then (0, s)
      else let pml4 = word_of_nat phys;
               s = zero_page (unat (pml4 AND PTE_PHYS_MASK)) s;
               s = copy_kernel_half pml4 (s_kernel_pml4_phys s) s
           in (pml4, pmap_trampoline_install pml4 s))"

section \<open>Kernel device mappings\<close>

text \<open>One level of the descent of \<^verbatim>\<open>pmap_map_kernel_mmio\<close>.\<close>
definition mmio_table :: "u64 \<Rightarrow> nat \<Rightarrow> pmap_state \<Rightarrow> u64 option \<times> pmap_state" where
  "mmio_table table i s =
     (let e = rd (slot table i) s in
      if has e PAGE_PRESENT then (Some e, s)
      else let (phys, s) = pm_alloc s in
        if failed_alloc phys then (None, s)
        else let s = zero_page (unat (word_of_nat phys AND PTE_PHYS_MASK)) s;
                 e = word_of_nat phys OR PAGE_PRESENT OR PAGE_WRITE
             in (Some e, wr (slot table i) e s))"

text \<open>The loop body; \<open>False\<close> is the jump to \<^verbatim>\<open>failed\<close>.\<close>
definition mmio_page :: "u64 \<Rightarrow> u64 \<Rightarrow> pmap_state \<Rightarrow> bool \<times> pmap_state" where
  "mmio_page va pa s =
     (case mmio_table (s_kernel_pml4_phys s) (idx4 va) s of
        (None, s) \<Rightarrow> (False, s)
      | (Some pml4e, s) \<Rightarrow>
          (case mmio_table pml4e (idx3 va) s of
             (None, s') \<Rightarrow> (False, s')
           | (Some pdpte, s') \<Rightarrow>
               if has (rd (slot pml4e (idx3 va)) s) PAGE_PRESENT \<and> has pdpte PAGE_PS then (True, s')
               else case mmio_table pdpte (idx2 va) s' of
                 (None, s'') \<Rightarrow> (False, s'')
               | (Some pde, s'') \<Rightarrow>
                   if has (rd (slot pdpte (idx2 va)) s') PAGE_PRESENT \<and> has pde PAGE_PS then (True, s'')
                   else (True, wr (slot pde (idx1 va))
                          (pa OR PAGE_PRESENT OR PAGE_WRITE OR PAGE_PWT OR PAGE_PCD) s'')))"

fun mmio_loop :: "nat \<Rightarrow> u64 \<Rightarrow> u64 \<Rightarrow> pmap_state \<Rightarrow> bool \<times> pmap_state" where
  "mmio_loop 0 va pa s = (True, s)"
| "mmio_loop (Suc n) va pa s =
     (case mmio_page va pa s of
        (False, s) \<Rightarrow> (False, s)
      | (True, s) \<Rightarrow> mmio_loop n (va + 0x1000) (pa + 0x1000) s)"

definition pmap_map_kernel_mmio :: "u64 \<Rightarrow> u64 \<Rightarrow> pmap_state \<Rightarrow> u64 \<times> pmap_state" where
  "pmap_map_kernel_mmio paddr sz s =
     (if s_kernel_pml4_phys s = 0 \<or> sz = 0 then (0, s)
      else let page_offset = paddr AND 0xFFF;
               phys_start = paddr AND PTE_PHYS_MASK;
               page_count = drop_bit 12 (page_offset + sz + 0xFFF);
               virt_start = word_of_nat (km_hhdm (pk s)) + phys_start
           in case mmio_loop (unat page_count) virt_start phys_start s of
                (False, s) \<Rightarrow> (0, s)
              | (True, s) \<Rightarrow> (virt_start + page_offset, s))"

section \<open>Translation\<close>

text \<open>\<^verbatim>\<open>pmap_get_pte_ptr\<close>: the physical address of the leaf entry.\<close>
definition pmap_get_pte_ptr :: "u64 \<Rightarrow> u64 \<Rightarrow> pmap_state \<Rightarrow> nat option" where
  "pmap_get_pte_ptr pml4 vaddr s =
     (if pml4 = 0 then None
      else let pml4e = rd (slot pml4 (idx4 vaddr)) s in
      if \<not> has pml4e PAGE_PRESENT then None
      else let pdpte = rd (slot pml4e (idx3 vaddr)) s in
      if \<not> has pdpte PAGE_PRESENT \<or> has pdpte PAGE_PS then None
      else let pde = rd (slot pdpte (idx2 vaddr)) s in
      if \<not> has pde PAGE_PRESENT \<or> has pde PAGE_PS then None
      else Some (slot pde (idx1 vaddr)))"

definition pmap_vtophys :: "u64 \<Rightarrow> u64 \<Rightarrow> pmap_state \<Rightarrow> u64" where
  "pmap_vtophys pml4 vaddr s =
     (if pml4 = 0 then 0
      else let base = word_of_nat (km_hhdm (pk s)) in
      if vaddr \<ge> base \<and> vaddr < base + 0x400000000000 then vaddr - base
      else let pml4e = rd (slot pml4 (idx4 vaddr)) s in
      if \<not> has pml4e PAGE_PRESENT then 0
      else let pdpte = rd (slot pml4e (idx3 vaddr)) s in
      if \<not> has pdpte PAGE_PRESENT then 0
      else if has pdpte PAGE_PS then (pdpte AND 0x000FFFFFC0000000) OR (vaddr AND 0x3FFFFFFF)
      else let pde = rd (slot pdpte (idx2 vaddr)) s in
      if \<not> has pde PAGE_PRESENT then 0
      else if has pde PAGE_PS then (pde AND 0x000FFFFFFFE00000) OR (vaddr AND 0x1FFFFF)
      else let pte = rd (slot pde (idx1 vaddr)) s in
      if \<not> has pte PAGE_PRESENT then 0
      else (pte AND PTE_PHYS_MASK) OR (vaddr AND 0xFFF))"

definition pmap_extract :: "u64 \<Rightarrow> u64 \<Rightarrow> pmap_state \<Rightarrow> u64" where
  "pmap_extract pml4 vaddr s =
     (if pml4 = 0 \<or> vaddr < 0x1000 \<or> vaddr \<ge> USER_TOP then 0
      else let pml4e = rd (slot pml4 (idx4 vaddr)) s in
      if \<not> has pml4e PAGE_PRESENT \<or> \<not> has pml4e PAGE_USER then 0
      else let pdpte = rd (slot pml4e (idx3 vaddr)) s in
      if \<not> has pdpte PAGE_PRESENT \<or> \<not> has pdpte PAGE_USER then 0
      else if has pdpte PAGE_PS then (pdpte AND 0x000FFFFFC0000000) OR (vaddr AND 0x3FFFFFFF)
      else let pde = rd (slot pdpte (idx2 vaddr)) s in
      if \<not> has pde PAGE_PRESENT \<or> \<not> has pde PAGE_USER then 0
      else if has pde PAGE_PS then (pde AND 0x000FFFFFFFE00000) OR (vaddr AND 0x1FFFFF)
      else let pte = rd (slot pde (idx1 vaddr)) s in
      if \<not> has pte PAGE_PRESENT \<or> \<not> has pte PAGE_USER then 0
      else (pte AND PTE_PHYS_MASK) OR (vaddr AND 0xFFF))"

section \<open>Address spaces as a whole\<close>

text \<open>The three inner loops of \<^verbatim>\<open>pmap_clone_user_space\<close>. A table is named by the entry that points to
  it, as in \<^verbatim>\<open>get_table_ptr\<close>.\<close>
definition clone_page :: "u64 \<Rightarrow> u64 \<Rightarrow> u64 \<Rightarrow> nat \<Rightarrow> pmap_state \<Rightarrow> pmap_state" where
  "clone_page dst pde base i s =
     (let a = slot pde i; pte = rd a s in
      if \<not> has pte PAGE_PRESENT \<or> \<not> has pte PAGE_USER then s
      else let va = base OR push_bit 12 (word_of_nat i);
               phys = pte AND PTE_PHYS_MASK;
               (flags, s) =
                 (if has pte PAGE_WRITE then (PAGE_COW, wr a ((rd a s AND NOT PAGE_WRITE) OR PAGE_COW) s)
                  else if has pte PAGE_COW then (PAGE_COW, s) else (0, s));
               (r, s) = pmap_map_user_page_unlocked dst va phys flags s
           in if r \<noteq> 0 then pm_retain phys s else s)"

definition clone_pd :: "u64 \<Rightarrow> u64 \<Rightarrow> u64 \<Rightarrow> nat \<Rightarrow> pmap_state \<Rightarrow> pmap_state" where
  "clone_pd dst pdpte base i s =
     (let pde = rd (slot pdpte i) s in
      if \<not> has pde PAGE_PRESENT \<or> \<not> has pde PAGE_USER \<or> has pde PAGE_PS then s
      else fold (clone_page dst pde (base OR push_bit 21 (word_of_nat i))) [0..<512] s)"

definition clone_pdpt :: "u64 \<Rightarrow> u64 \<Rightarrow> u64 \<Rightarrow> nat \<Rightarrow> pmap_state \<Rightarrow> pmap_state" where
  "clone_pdpt dst pml4e base i s =
     (let pdpte = rd (slot pml4e i) s in
      if \<not> has pdpte PAGE_PRESENT \<or> \<not> has pdpte PAGE_USER \<or> has pdpte PAGE_PS then s
      else fold (clone_pd dst pdpte (base OR push_bit 30 (word_of_nat i))) [0..<512] s)"

definition clone_pml4 :: "u64 \<Rightarrow> u64 \<Rightarrow> nat \<Rightarrow> pmap_state \<Rightarrow> pmap_state" where
  "clone_pml4 dst src i s =
     (let pml4e = rd (slot src i) s in
      if \<not> has pml4e PAGE_PRESENT \<or> \<not> has pml4e PAGE_USER then s
      else fold (clone_pdpt dst pml4e (push_bit 39 (word_of_nat i))) [0..<512] s)"

definition pmap_clone_user_space :: "u64 \<Rightarrow> pmap_state \<Rightarrow> u64 \<times> pmap_state" where
  "pmap_clone_user_space src s =
     (if src = 0 then (0, s)
      else let (phys, s) = pm_alloc s in
      if failed_alloc phys then (0, s)
      else let dst = word_of_nat phys;
               s = zero_page (unat (dst AND PTE_PHYS_MASK)) s;
               s = copy_kernel_half dst src s;
               s = fold (clone_pml4 dst src) [0..<256] s
           in (dst, pmap_trampoline_install dst s))"

text \<open>The loops that tear user mappings down, shared by \<^verbatim>\<open>pmap_destroy_user_space\<close>, which takes every
  present entry (\<open>user_only\<close> false), and \<^verbatim>\<open>pmap_clear_user_mappings\<close>, which takes user entries.\<close>
definition skip_entry :: "bool \<Rightarrow> bool \<Rightarrow> u64 \<Rightarrow> bool" where
  "skip_entry user_only may_be_large e \<longleftrightarrow> \<not> has e PAGE_PRESENT \<or> (user_only \<and> \<not> has e PAGE_USER)
     \<or> (may_be_large \<and> has e PAGE_PS)"

definition tear_page :: "bool \<Rightarrow> nat \<Rightarrow> nat \<Rightarrow> nat \<Rightarrow> u64 \<Rightarrow> nat \<Rightarrow> pmap_state \<Rightarrow> pmap_state" where
  "tear_page user_only i4 i3 i2 pde i s =
     (let pte = rd (slot pde i) s in
      if skip_entry user_only False pte then s
      else let phys = pte AND PTE_PHYS_MASK;
               s = wr (slot pde i) 0 s
           in if pmap_is_trampoline_va (va_of i4 i3 i2 i) then s else pm_release phys s)"

definition tear_pd :: "bool \<Rightarrow> nat \<Rightarrow> nat \<Rightarrow> u64 \<Rightarrow> nat \<Rightarrow> pmap_state \<Rightarrow> pmap_state" where
  "tear_pd user_only i4 i3 pdpte i s =
     (let pde = rd (slot pdpte i) s in
      if skip_entry user_only True pde then s
      else wr (slot pdpte i) 0
        (pm_release (pde AND PTE_PHYS_MASK) (fold (tear_page user_only i4 i3 i pde) [0..<512] s)))"

definition tear_pdpt :: "bool \<Rightarrow> nat \<Rightarrow> u64 \<Rightarrow> nat \<Rightarrow> pmap_state \<Rightarrow> pmap_state" where
  "tear_pdpt user_only i4 pml4e i s =
     (let pdpte = rd (slot pml4e i) s in
      if skip_entry user_only True pdpte then s
      else wr (slot pml4e i) 0
        (pm_release (pdpte AND PTE_PHYS_MASK) (fold (tear_pd user_only i4 i pdpte) [0..<512] s)))"

definition tear_pml4 :: "bool \<Rightarrow> u64 \<Rightarrow> nat \<Rightarrow> pmap_state \<Rightarrow> pmap_state" where
  "tear_pml4 user_only pml4 i s =
     (let pml4e = rd (slot pml4 i) s in
      if skip_entry user_only False pml4e then s
      else wr (slot pml4 i) 0
        (pm_release (pml4e AND PTE_PHYS_MASK) (fold (tear_pdpt user_only i pml4e) [0..<512] s)))"

text \<open>The switch away from a table that is about to go.\<close>
definition leave_pml4 :: "u64 \<Rightarrow> pmap_state \<Rightarrow> pmap_state" where
  "leave_pml4 pml4 s =
     (if cpu_cr3 s AND PTE_PHYS_MASK = pml4 AND PTE_PHYS_MASK then
        (let s = s\<lparr>cpu_cr3 := s_kernel_pml4_phys s\<rparr> in
         if cpu_id s < CHIMERA_MAX_CPUS
         then s\<lparr>cpu_active_cr3 := (cpu_active_cr3 s)(cpu_id s := s_kernel_pml4_phys s AND PTE_PHYS_MASK)\<rparr>
         else s)
      else s)"

definition pmap_destroy_user_space :: "u64 \<Rightarrow> pmap_state \<Rightarrow> pmap_state" where
  "pmap_destroy_user_space pml4 s =
     (if pml4 = 0 then s
      else pm_release (pml4 AND PTE_PHYS_MASK)
             (fold (tear_pml4 False pml4) [0..<256] (leave_pml4 pml4 s)))"

definition pmap_clear_user_mappings :: "u64 \<Rightarrow> pmap_state \<Rightarrow> pmap_state" where
  "pmap_clear_user_mappings pml4 s =
     (if pml4 = 0 then s else fold (tear_pml4 True pml4) [0..<256] s)"

section \<open>Ranges\<close>

text \<open>The loop \<^verbatim>\<open>for (va = start; va < end; va += 4096)\<close> on 64-bit addresses.\<close>
partial_function (option) va_loop :: "(u64 \<Rightarrow> 'a \<Rightarrow> 'a) \<Rightarrow> u64 \<Rightarrow> u64 \<Rightarrow> 'a \<Rightarrow> 'a option" where
  "va_loop body va va_end s =
     (if va < va_end then va_loop body (va + 4096) va_end (body va s) else Some s)"

definition unmap_page :: "u64 \<Rightarrow> bool \<Rightarrow> u64 \<Rightarrow> u64 list \<times> pmap_state \<Rightarrow> u64 list \<times> pmap_state" where
  "unmap_page pml4 release_pages va c =
     (let (phys_to_free, s) = c in
      case pmap_get_pte_ptr pml4 va s of
        None \<Rightarrow> (phys_to_free, s)
      | Some a \<Rightarrow>
          if has (rd a s) PAGE_PRESENT then
            (let phys = rd a s AND PTE_PHYS_MASK; s = wr a 0 s in
             if release_pages \<and> \<not> pmap_is_trampoline_va va then (phys_to_free @ [phys], s)
             else (phys_to_free, s))
          else (phys_to_free, s))"

partial_function (option) unmap_chunks :: "u64 \<Rightarrow> bool \<Rightarrow> u64 \<Rightarrow> u64 \<Rightarrow> pmap_state \<Rightarrow> pmap_state option" where
  "unmap_chunks pml4 release_pages chunk_start va_end s =
     (if chunk_start < va_end then
        (let chunk_end = chunk_start + 64 * 4096;
             chunk_end = (if chunk_end > va_end then va_end else chunk_end)
         in do {
           c \<leftarrow> va_loop (unmap_page pml4 release_pages) chunk_start chunk_end ([], s);
           unmap_chunks pml4 release_pages chunk_end va_end (fold pm_release (fst c) (snd c))
         })
      else Some s)"

definition pmap_unmap_user_range_ex :: "u64 \<Rightarrow> u64 \<Rightarrow> u64 \<Rightarrow> bool \<Rightarrow> pmap_state \<Rightarrow> pmap_state option" where
  "pmap_unmap_user_range_ex pml4 vaddr len release_pages s =
     (if pml4 = 0 \<or> len = 0 then Some s
      else unmap_chunks pml4 release_pages (vaddr AND NOT 0xFFF) ((vaddr + len + 4095) AND NOT 0xFFF) s)"

definition pmap_unmap_user_range :: "u64 \<Rightarrow> u64 \<Rightarrow> u64 \<Rightarrow> pmap_state \<Rightarrow> pmap_state option" where
  "pmap_unmap_user_range pml4 vaddr len s = pmap_unmap_user_range_ex pml4 vaddr len True s"

definition protect_flags :: "u32 \<Rightarrow> u64" where
  "protect_flags prot =
     (let f = PAGE_PRESENT OR PAGE_USER;
          f = (if prot AND 2 \<noteq> 0 then f OR PAGE_WRITE else f);
          f = (if prot AND 4 = 0 then f OR PAGE_NX else f)
      in if prot = 0 then f AND NOT PAGE_PRESENT else f)"

definition protect_page :: "u64 \<Rightarrow> u32 \<Rightarrow> u64 \<Rightarrow> pmap_state \<Rightarrow> pmap_state" where
  "protect_page pml4 prot va s =
     (case pmap_get_pte_ptr pml4 va s of
        None \<Rightarrow> s
      | Some a \<Rightarrow>
          if has (rd a s) PAGE_PRESENT then wr a ((rd a s AND PTE_PHYS_MASK) OR protect_flags prot) s
          else s)"

text \<open>The returned number is the C result, 0 or -1.\<close>
definition pmap_protect_user_range :: "u64 \<Rightarrow> u64 \<Rightarrow> u64 \<Rightarrow> u32 \<Rightarrow> pmap_state \<Rightarrow> (int \<times> pmap_state) option" where
  "pmap_protect_user_range pml4 virt_start len prot s =
     (if pml4 = 0 \<or> len = 0 then Some (-1, s)
      else let start_va = virt_start AND NOT 0xFFF;
               end_va = (virt_start + len + 0xFFF) AND NOT 0xFFF
           in if end_va \<ge> USER_TOP then Some (-1, s)
           else do { s \<leftarrow> va_loop (protect_page pml4 prot) start_va end_va s; Some (0, s) })"

section \<open>Copy on write\<close>

definition pmap_handle_cow_fault :: "u64 \<Rightarrow> u64 \<Rightarrow> pmap_state \<Rightarrow> bool \<times> pmap_state" where
  "pmap_handle_cow_fault pml4 fault_va s =
     (if pml4 = 0 \<or> fault_va \<ge> USER_TOP then (False, s)
      else case pmap_get_pte_ptr pml4 fault_va s of
        None \<Rightarrow> (False, s)
      | Some a \<Rightarrow>
          if \<not> has (rd a s) PAGE_PRESENT \<or> \<not> has (rd a s) PAGE_COW then (False, s)
          else let old_phys = rd a s AND PTE_PHYS_MASK in
          if pmm_get_refcount (unat old_phys) (km_pmm (pk s)) > 1 then
            (let (new_phys, s) = pm_alloc s in
             if failed_alloc new_phys then (False, s)
             else let new_phys = word_of_nat new_phys AND PTE_PHYS_MASK;
                      s = copy_page (unat new_phys) (unat old_phys) s;
                      s = pm_release old_phys s;
                      s = wr a (new_phys OR (rd a s AND NOT PTE_PHYS_MASK) OR PAGE_WRITE) s
                  in (True, wr a (rd a s AND NOT PAGE_COW) s))
          else (True, wr a ((rd a s OR PAGE_WRITE) AND NOT PAGE_COW) s))"

end
