(* ===== verification/Pmap_Correct.thy ===== *)
theory Pmap_Correct
  imports Pmap Pmm_Correct
begin

text \<open>
  The invariant of the page tables and what one store does to it. A ghost map \<open>T\<close> gives every frame
  that holds a table of a user address space its place: the root it belongs to and the indices that
  lead to it (no index for the PML4, three for a page table).
\<close>

unbundle bit_operations_syntax

type_synonym places = "nat \<Rightarrow> (nat \<times> nat list) option"

section \<open>Entries and addresses\<close>

definition frame :: "u64 \<Rightarrow> nat" where
  "frame e = unat (e AND PTE_PHYS_MASK)"

lemma slot_eq: "slot e i = frame e + 8 * i"
  by (simp add: slot_def frame_def)

lemma mask_as_push: "PTE_PHYS_MASK = push_bit 12 (mask 40)"
  by (simp add: PTE_PHYS_MASK_def mask_eq_exp_minus_1 push_bit_eq_mult)

lemma frame_eq: "frame e = (unat e div 4096) mod 2 ^ 40 * 4096"
proof -
  have "e AND PTE_PHYS_MASK = push_bit 12 (take_bit 40 (drop_bit 12 e))"
    unfolding mask_as_push
    by (rule bit_word_eqI) (auto simp: bit_simps)
  moreover have "unat (take_bit 40 (drop_bit 12 e)) < 2 ^ 40"
    by (metis take_bit_nat_less_exp unsigned_take_bit_eq)
  then have "push_bit 12 (unat (take_bit 40 (drop_bit 12 e))) < 2 ^ 64" by (simp add: push_bit_eq_mult)
  ultimately have "frame e = push_bit 12 (unat (take_bit 40 (drop_bit 12 e)))"
    by (simp only: frame_def unsigned_push_bit_eq take_bit_nat_eq_self_iff) (simp add: take_bit_nat_eq_self)
  also have "\<dots> = (unat e div 4096) mod 2 ^ 40 * 4096"
    by (simp only: unsigned_take_bit_eq unsigned_drop_bit_eq push_bit_eq_mult drop_bit_eq_div take_bit_eq_mod)
      (simp add: unat_div_distrib unat_mod_distrib)
  finally show ?thesis .
qed

lemma frame_dvd: "4096 dvd frame e"
  by (simp add: frame_eq)

lemma frame_of_nat:
  assumes "4096 dvd f" and "f < 2 ^ 52"
  shows "frame (word_of_nat f) = f"
proof -
  have u: "unat (word_of_nat f :: u64) = f" using assms(2) by (simp add: unsigned_of_nat take_bit_nat_eq_self)
  from assms show ?thesis unfolding frame_eq u by auto
qed

lemma frame_or: "flags AND PTE_PHYS_MASK = 0 \<Longrightarrow> frame ((w AND PTE_PHYS_MASK) OR flags) = frame w"
  by (simp add: frame_def bit.conj_disj_distrib2 and.assoc)

lemmas flag_defs = PAGE_PRESENT_def PAGE_WRITE_def PAGE_USER_def PAGE_PWT_def PAGE_PCD_def PAGE_PS_def
  PAGE_COW_def PAGE_NX_def

definition "table_flags = PAGE_PRESENT OR PAGE_WRITE OR PAGE_USER"

lemma table_entry:
  fixes w :: u64
  defines "e \<equiv> (w AND PTE_PHYS_MASK) OR PAGE_PRESENT OR PAGE_WRITE OR PAGE_USER"
  shows "frame e = frame w" and "has e PAGE_PRESENT" and "has e PAGE_USER" and "\<not> has e PAGE_PS"
proof -
  have e: "e = (w AND PTE_PHYS_MASK) OR 7"
    by (simp add: e_def flag_defs or.assoc)
  show "frame e = frame w" unfolding e by (rule frame_or) (simp add: PTE_PHYS_MASK_def)
  have m: "w AND PTE_PHYS_MASK AND 1 = 0" "w AND PTE_PHYS_MASK AND 4 = 0" "w AND PTE_PHYS_MASK AND 128 = 0"
    by (simp_all add: PTE_PHYS_MASK_def and.assoc)
  show "has e PAGE_PRESENT" "has e PAGE_USER" "\<not> has e PAGE_PS"
    by (simp_all add: e has_def flag_defs bit.conj_disj_distrib2 m and.assoc)
qed

lemma idx_nat:
  "idx4 va = unat va div 2 ^ 39 mod 512" "idx3 va = unat va div 2 ^ 30 mod 512"
  "idx2 va = unat va div 2 ^ 21 mod 512" "idx1 va = unat va div 2 ^ 12 mod 512"
proof -
  have m: "(0x1FF :: u64) = mask 9" by (simp add: mask_eq_exp_minus_1)
  show "idx4 va = unat va div 2 ^ 39 mod 512" "idx3 va = unat va div 2 ^ 30 mod 512"
    "idx2 va = unat va div 2 ^ 21 mod 512" "idx1 va = unat va div 2 ^ 12 mod 512"
    unfolding idx4_def idx3_def idx2_def idx1_def m take_bit_eq_mask [symmetric]
    by (simp_all only: unsigned_take_bit_eq unsigned_drop_bit_eq drop_bit_eq_div take_bit_eq_mod)
      (simp_all add: unat_div_distrib unat_mod_distrib)
qed

lemma idx_less [simp]: "idx4 va < 512" "idx3 va < 512" "idx2 va < 512" "idx1 va < 512"
  by (simp_all add: idx_nat)

lemma user_idx4: "va < USER_TOP \<Longrightarrow> idx4 va < 256"
proof -
  assume "va < USER_TOP"
  then have "unat va < 2 ^ 47" unfolding word_less_nat_alt by (simp add: USER_TOP_def)
  then show ?thesis unfolding idx_nat by (simp add: div_less_iff_less_mult)
qed

definition page_of :: "u64 \<Rightarrow> nat" where
  "page_of va = unat va div 4096"

definition path :: "u64 \<Rightarrow> nat list" where
  "path va = [idx4 va, idx3 va, idx2 va]"

lemma page_of_idx:
  assumes "va < USER_TOP"
  shows "page_of va = ((idx4 va * 512 + idx3 va) * 512 + idx2 va) * 512 + idx1 va"
proof -
  have "unat va < 2 ^ 47" using assms unfolding word_less_nat_alt by (simp add: USER_TOP_def)
  then have m: "page_of va < 2 ^ 35" unfolding page_of_def by (simp add: div_less_iff_less_mult)
  have d: "unat va div 2 ^ 39 = page_of va div 512 div 512 div 512" "unat va div 2 ^ 30 = page_of va div 512 div 512"
    "unat va div 2 ^ 21 = page_of va div 512" "unat va div 2 ^ 12 = page_of va"
    by (simp_all add: page_of_def div_mult2_eq [symmetric])
  have "page_of va div 512 div 512 div 512 < 512" using m by (simp add: div_less_iff_less_mult)
  then have "page_of va div 512 div 512 div 512 mod 512 = page_of va div 512 div 512 div 512" by simp
  then show ?thesis unfolding idx_nat d by (simp only: div_mult_mod_eq)
qed

lemma same_page:
  assumes "va < USER_TOP" and "vb < USER_TOP"
  shows "page_of va = page_of vb \<longleftrightarrow> path va = path vb \<and> idx1 va = idx1 vb"
proof
  assume "page_of va = page_of vb"
  then have "unat va div 2 ^ 12 = unat vb div 2 ^ 12" by (simp add: page_of_def)
  moreover have "unat v div 2 ^ 39 = unat v div 2 ^ 12 div 2 ^ 27"
    "unat v div 2 ^ 30 = unat v div 2 ^ 12 div 2 ^ 18"
    "unat v div 2 ^ 21 = unat v div 2 ^ 12 div 2 ^ 9" for v :: u64
    by (simp_all add: div_mult2_eq [symmetric])
  ultimately show "path va = path vb \<and> idx1 va = idx1 vb"
    by (simp only: path_def idx_nat)
next
  assume "path va = path vb \<and> idx1 va = idx1 vb"
  with page_of_idx [OF assms(1)] page_of_idx [OF assms(2)] show "page_of va = page_of vb"
    by (simp add: path_def)
qed

section \<open>Loads and stores\<close>

abbreviation pmm_of :: "pmap_state \<Rightarrow> pmm" where "pmm_of s \<equiv> km_pmm (pk s)"

lemma rd_wr: "rd a (wr b v s) = (if a = b then v else rd a s)"
  by (simp add: rd_def wr_def poke_def)

lemma rd_zero_page:
  "f \<le> a \<Longrightarrow> a + 8 \<le> f + 4096 \<Longrightarrow> rd a (zero_page f s) = 0"
  "\<not> (f \<le> a \<and> a < f + 4096) \<Longrightarrow> rd a (zero_page f s) = rd a s"
  by (auto simp: rd_def zero_page_def memset0_def)

lemma rd_copy_page:
  "rd a (copy_page d r s) = (if d \<le> a \<and> a < d + 4096 then rd (a - d + r) s else rd a s)"
proof -
  let ?h = "km_hhdm (pk s)"
  have "?h + a - (?h + d) + (?h + r) = ?h + (a - d + r)" if "d \<le> a" using that by simp
  then show ?thesis by (simp add: rd_def copy_page_def Let_def)
qed

lemma store_fields [simp]:
  "pmm_of (wr a v s) = pmm_of s" "s_tramp_phys (wr a v s) = s_tramp_phys s"
  "pmm_of (zero_page f s) = pmm_of s" "s_tramp_phys (zero_page f s) = s_tramp_phys s"
  "pmm_of (copy_page d r s) = pmm_of s" "s_tramp_phys (copy_page d r s) = s_tramp_phys s"
  "s_kernel_pml4_phys (wr a v s) = s_kernel_pml4_phys s" "s_kernel_pml4_phys (zero_page f s) = s_kernel_pml4_phys s"
  by (simp_all add: wr_def poke_def zero_page_def memset0_def copy_page_def Let_def)

lemma release_fields [simp]:
  "rd a (pm_release f s) = rd a s" "s_tramp_phys (pm_release f s) = s_tramp_phys s"
  "pmm_of (pm_release f s) = pmm_release_page (unat f) (pmm_of s)"
  by (simp_all add: pm_release_def rd_def)

lemma retain_fields [simp]:
  "rd a (pm_retain f s) = rd a s" "s_tramp_phys (pm_retain f s) = s_tramp_phys s"
  "pmm_of (pm_retain f s) = pmm_retain_page (unat f) (pmm_of s)"
  by (simp_all add: pm_retain_def rd_def)

lemma slot_page: "4096 dvd t \<Longrightarrow> x < 4096 \<Longrightarrow> (t + x) div 4096 * 4096 = (t::nat)"
  by (auto elim!: dvdE)

lemma slot_inj:
  assumes "4096 dvd t" and "4096 dvd u" and "i < 512" and "j < 512" and "t + 8 * i = u + 8 * (j::nat)"
  shows "t = u \<and> i = j"
  using slot_page [OF assms(1), of "8 * i"] slot_page [OF assms(2), of "8 * j"] assms(3-5) by simp

lemma slot_in_page:
  assumes "4096 dvd t" and "4096 dvd u" and "i < 512" and "u \<le> t + 8 * i" and "t + 8 * i < u + 4096"
  shows "t = (u::nat)"
  using slot_page [OF assms(1), of "8 * i"] slot_page [OF assms(2), of "t + 8 * i - u"] assms(3-5) by simp

section \<open>The invariant\<close>

definition managed :: "pmap_state \<Rightarrow> nat \<Rightarrow> bool" where
  "managed s f \<longleftrightarrow> f div 4096 < s_max_phys_page (pmm_of s)"

definition refs_of :: "pmap_state \<Rightarrow> nat \<Rightarrow> nat" where
  "refs_of s f = ref_counts (pmm_of s) (f div 4096)"

definition held :: "pmap_state \<Rightarrow> nat \<Rightarrow> bool" where
  "held s f \<longleftrightarrow> 4096 dvd f \<and> f \<noteq> 0 \<and> managed s f \<and> refs_of s f \<noteq> 0"

definition lim :: "nat list \<Rightarrow> nat" where
  "lim p = (if p = [] then 256 else 512)"

definition tables_ok :: "pmap_state \<Rightarrow> places \<Rightarrow> bool" where
  "tables_ok s T \<longleftrightarrow> (\<forall>f r p. T f = Some (r, p) \<longrightarrow> held s f \<and> length p \<le> 3 \<and> (p = [] \<longrightarrow> f = r))
     \<and> (\<forall>f g x. T f = Some x \<longrightarrow> T g = Some x \<longrightarrow> f = g)"

definition children_ok :: "pmap_state \<Rightarrow> places \<Rightarrow> bool" where
  "children_ok s T \<longleftrightarrow> (\<forall>f r p i. T f = Some (r, p) \<longrightarrow> length p < 3 \<longrightarrow> i < lim p \<longrightarrow>
     has (rd (f + 8 * i) s) PAGE_PRESENT \<longrightarrow> has (rd (f + 8 * i) s) PAGE_USER \<and>
     \<not> has (rd (f + 8 * i) s) PAGE_PS \<and> T (frame (rd (f + 8 * i) s)) = Some (r, p @ [i]))"

definition parents_ok :: "pmap_state \<Rightarrow> places \<Rightarrow> bool" where
  "parents_ok s T \<longleftrightarrow> (\<forall>g r p i. T g = Some (r, p @ [i]) \<longrightarrow> i < lim p \<and>
     (\<exists>f. T f = Some (r, p) \<and> has (rd (f + 8 * i) s) PAGE_PRESENT \<and> frame (rd (f + 8 * i) s) = g))"

text \<open>The slots of page tables, and the one of them in each address space that is kept for the signal
  trampoline.\<close>
definition leaf :: "places \<Rightarrow> nat \<Rightarrow> nat \<Rightarrow> bool" where
  "leaf T t i \<longleftrightarrow> i < 512 \<and> (\<exists>r a b c. T t = Some (r, [a, b, c]))"

definition tramp_slot :: "places \<Rightarrow> nat \<Rightarrow> nat \<Rightarrow> bool" where
  "tramp_slot T t i \<longleftrightarrow> i = idx1 SIGNAL_TRAMP_VA \<and> (\<exists>r. T t = Some (r, path SIGNAL_TRAMP_VA))"

definition leaves_ok :: "pmap_state \<Rightarrow> places \<Rightarrow> bool" where
  "leaves_ok s T \<longleftrightarrow> (\<forall>t i. leaf T t i \<longrightarrow> has (rd (t + 8 * i) s) PAGE_PRESENT \<longrightarrow>
     T (frame (rd (t + 8 * i) s)) = None)"

definition tramp_ok :: "pmap_state \<Rightarrow> places \<Rightarrow> bool" where
  "tramp_ok s T \<longleftrightarrow> (s_tramp_phys s \<noteq> 0 \<longrightarrow> 4096 dvd unat (s_tramp_phys s) \<and> managed s (unat (s_tramp_phys s))
       \<and> T (unat (s_tramp_phys s)) = None)
     \<and> (\<forall>t i. tramp_slot T t i \<longrightarrow> has (rd (t + 8 * i) s) PAGE_PRESENT \<longrightarrow> s_tramp_phys s \<noteq> 0
       \<and> frame (rd (t + 8 * i) s) = unat (s_tramp_phys s)
       \<and> \<not> has (rd (t + 8 * i) s) PAGE_WRITE \<and> \<not> has (rd (t + 8 * i) s) PAGE_COW)"

text \<open>References. Every mapping outside the trampoline slots owns one reference to its frame, the
  trampoline itself owns one; \<open>spare\<close> is what is left for the rest of the kernel.\<close>
definition mapped :: "pmap_state \<Rightarrow> places \<Rightarrow> nat \<Rightarrow> (nat \<times> nat) set" where
  "mapped s T f = {(t, i). leaf T t i \<and> \<not> tramp_slot T t i \<and> has (rd (t + 8 * i) s) PAGE_PRESENT
     \<and> frame (rd (t + 8 * i) s) = f}"

definition tramp_refs :: "pmap_state \<Rightarrow> nat \<Rightarrow> nat" where
  "tramp_refs s f = (if s_tramp_phys s \<noteq> 0 \<and> f = unat (s_tramp_phys s) then 1 else 0)"

definition spare :: "pmap_state \<Rightarrow> places \<Rightarrow> nat \<Rightarrow> int" where
  "spare s T f = int (refs_of s f) - int (card (mapped s T f)) - int (tramp_refs s f)"

definition pt_inv :: "pmap_state \<Rightarrow> places \<Rightarrow> bool" where
  "pt_inv s T \<longleftrightarrow> pmm_inv (pmm_of s) \<and> tables_ok s T \<and> children_ok s T \<and> parents_ok s T
     \<and> leaves_ok s T \<and> tramp_ok s T \<and> (\<forall>f. 4096 dvd f \<longrightarrow> managed s f \<longrightarrow> spare s T f \<ge> 0)"

lemmas pt_parts = tables_ok_def children_ok_def parents_ok_def leaves_ok_def tramp_ok_def

lemma table_D:
  assumes "pt_inv s T" and "T f = Some (r, p)"
  shows "held s f" and "length p \<le> 3" and "p = [] \<Longrightarrow> f = r" and "4096 dvd f" and "f < 2 ^ 52"
    and "T g = Some (r, p) \<Longrightarrow> g = f"
proof -
  have ok: "tables_ok s T" "pmm_inv (pmm_of s)" using assms(1) by (simp_all add: pt_inv_def)
  then show h: "held s f" and "length p \<le> 3" and "p = [] \<Longrightarrow> f = r"
    and "T g = Some (r, p) \<Longrightarrow> g = f"
    using assms(2) unfolding tables_ok_def by blast+
  from h show "4096 dvd f" by (simp add: held_def)
  have "f div 4096 < 2 ^ 32" using h ok(2) by (simp add: held_def managed_def pmm_inv_def inv_defs)
  then show "f < 2 ^ 52" by (simp add: div_less_iff_less_mult)
qed

lemma child_D:
  assumes "pt_inv s T" and "T f = Some (r, p)" and "length p < 3" and "i < lim p"
    and "has (rd (f + 8 * i) s) PAGE_PRESENT"
  shows "has (rd (f + 8 * i) s) PAGE_USER" and "\<not> has (rd (f + 8 * i) s) PAGE_PS"
    and "T (frame (rd (f + 8 * i) s)) = Some (r, p @ [i])"
  using assms unfolding pt_inv_def children_ok_def by blast+

lemma parent_D:
  assumes "pt_inv s T" and "T g = Some (r, p @ [i])"
  shows "i < lim p" and "\<exists>f. T f = Some (r, p) \<and> has (rd (f + 8 * i) s) PAGE_PRESENT \<and> frame (rd (f + 8 * i) s) = g"
  using assms unfolding pt_inv_def parents_ok_def by blast+

lemma mapped_finite:
  assumes "pt_inv s T" shows "finite (mapped s T f)"
proof -
  have "mapped s T f \<subseteq> {..<2 ^ 52} \<times> {..<512}"
    using table_D(5) [OF assms] by (auto simp: mapped_def leaf_def)
  then show ?thesis by (rule finite_subset) simp
qed

text \<open>No mapping leads to a page on the allocator's free lists.\<close>
lemma mapped_held:
  assumes inv: "pt_inv s T" and l: "leaf T t i" and p: "has (rd (t + 8 * i) s) PAGE_PRESENT"
    and m: "managed s (frame (rd (t + 8 * i) s))"
  shows "refs_of s (frame (rd (t + 8 * i) s)) \<noteq> 0"
proof -
  let ?f = "frame (rd (t + 8 * i) s)"
  have "0 \<le> spare s T ?f" using inv m frame_dvd by (simp add: pt_inv_def)
  then have le: "card (mapped s T ?f) + tramp_refs s ?f \<le> refs_of s ?f" by (simp add: spare_def)
  show ?thesis
  proof (cases "tramp_slot T t i")
    case True
    then have "tramp_refs s ?f = 1" using inv p by (auto simp: pt_inv_def tramp_ok_def tramp_refs_def)
    with le show ?thesis by simp
  next
    case False
    then have "(t, i) \<in> mapped s T ?f" using l p by (simp add: mapped_def)
    then have "card (mapped s T ?f) \<noteq> 0" using mapped_finite [OF inv] by auto
    with le show ?thesis by simp
  qed
qed

section \<open>Walking the tables\<close>

lemma level_step:
  assumes inv: "pt_inv s T" and f: "T f = Some (r, p)" and p: "length p < 3" and i: "i < lim p"
  shows "has (rd (f + 8 * i) s) PAGE_PRESENT \<longleftrightarrow> (\<exists>g. T g = Some (r, p @ [i]))"
    and "T g = Some (r, p @ [i]) \<Longrightarrow> has (rd (f + 8 * i) s) PAGE_PRESENT \<and> has (rd (f + 8 * i) s) PAGE_USER
      \<and> \<not> has (rd (f + 8 * i) s) PAGE_PS \<and> frame (rd (f + 8 * i) s) = g"
proof -
  show *: "has (rd (f + 8 * i) s) PAGE_PRESENT \<and> has (rd (f + 8 * i) s) PAGE_USER
      \<and> \<not> has (rd (f + 8 * i) s) PAGE_PS \<and> frame (rd (f + 8 * i) s) = g" if g: "T g = Some (r, p @ [i])" for g
  proof -
    obtain f' where f': "T f' = Some (r, p)" "has (rd (f' + 8 * i) s) PAGE_PRESENT" "frame (rd (f' + 8 * i) s) = g"
      using parent_D(2) [OF inv g] by auto
    have "f' = f" by (rule table_D(6) [OF inv f f'(1)])
    with f' child_D [OF inv f p i] show ?thesis by simp
  qed
  show "has (rd (f + 8 * i) s) PAGE_PRESENT \<longleftrightarrow> (\<exists>g. T g = Some (r, p @ [i]))"
    using * child_D(3) [OF inv f p i] by blast
qed

definition root_of :: "places \<Rightarrow> u64 \<Rightarrow> bool" where
  "root_of T root \<longleftrightarrow> T (frame root) = Some (frame root, [])"

lemma root_nonzero:
  assumes "pt_inv s T" and "root_of T root" shows "root \<noteq> 0"
  using table_D(1) [OF assms(1), of "frame root"] assms(2) by (auto simp: root_of_def held_def frame_def)

lemma get_pte_ptr_iff:
  assumes inv: "pt_inv s T" and root: "root_of T root" and va: "va < USER_TOP"
  shows "pmap_get_pte_ptr root va s = Some x \<longleftrightarrow> (\<exists>t. T t = Some (frame root, path va) \<and> x = t + 8 * idx1 va)"
proof -
  let ?r = "frame root"
  have r: "T ?r = Some (?r, [])" using root by (simp add: root_of_def)
  have i4: "idx4 va < lim []" using user_idx4 [OF va] by (simp add: lim_def)
  have l: "lim [a] = 512" "lim [a, b] = 512" for a b by (simp_all add: lim_def)
  let ?e4 = "rd (?r + 8 * idx4 va) s"
  note s1 = level_step [OF inv r _ i4, simplified]
  show ?thesis
  proof (cases "has ?e4 PAGE_PRESENT")
    case False
    then have no: "T g \<noteq> Some (?r, [idx4 va])" for g using s1(1) by simp
    have "T t \<noteq> Some (?r, path va)" for t
    proof
      assume "T t = Some (?r, path va)"
      from parent_D(2) [OF inv, of t ?r "[idx4 va, idx3 va]"] this obtain g where
        "T g = Some (?r, [idx4 va, idx3 va])" by (auto simp: path_def)
      from parent_D(2) [OF inv, of g ?r "[idx4 va]"] this no show False by auto
    qed
    with False show ?thesis by (auto simp: pmap_get_pte_ptr_def Let_def slot_eq)
  next
    case True
    then obtain t3 where t3: "T t3 = Some (?r, [idx4 va])" "frame ?e4 = t3" using s1 by auto
    let ?e3 = "rd (t3 + 8 * idx3 va) s"
    note s2 = level_step [OF inv t3(1), of "idx3 va", simplified l, simplified]
    show ?thesis
    proof (cases "has ?e3 PAGE_PRESENT")
      case no3: False
      have "T t \<noteq> Some (?r, path va)" for t
        using parent_D(2) [OF inv, of t ?r "[idx4 va, idx3 va]"] s2(1) no3 by (auto simp: path_def)
      with True no3 t3(2) show ?thesis by (auto simp: pmap_get_pte_ptr_def Let_def slot_eq)
    next
      case p3: True
      then obtain t2 where t2: "T t2 = Some (?r, [idx4 va, idx3 va])" "frame ?e3 = t2" "\<not> has ?e3 PAGE_PS"
        using s2 by auto
      let ?e2 = "rd (t2 + 8 * idx2 va) s"
      note s3 = level_step [OF inv t2(1), of "idx2 va", simplified l, simplified, folded path_def]
      have "(\<exists>t. T t = Some (?r, path va) \<and> x = t + 8 * idx1 va) \<longleftrightarrow>
          has ?e2 PAGE_PRESENT \<and> \<not> has ?e2 PAGE_PS \<and> x = frame ?e2 + 8 * idx1 va"
        using s3 by blast
      with root_nonzero [OF inv root] True p3 t2 t3(2) show ?thesis
        by (auto simp: pmap_get_pte_ptr_def Let_def slot_eq)
    qed
  qed
qed

text \<open>What a user address translates to, by its leaf entry.\<close>
definition leaf_phys :: "u64 \<Rightarrow> u64 \<Rightarrow> u64" where
  "leaf_phys e va = (if has e PAGE_PRESENT \<and> has e PAGE_USER then (e AND PTE_PHYS_MASK) OR (va AND 0xFFF) else 0)"

lemma extract_eq:
  assumes inv: "pt_inv s T" and root: "root_of T root" and va: "0x1000 \<le> va" "va < USER_TOP"
  shows "pmap_extract root va s =
    (case pmap_get_pte_ptr root va s of None \<Rightarrow> 0 | Some a \<Rightarrow> leaf_phys (rd a s) va)"
proof -
  define e4 where "e4 = rd (slot root (idx4 va)) s"
  define e3 where "e3 = rd (slot e4 (idx3 va)) s"
  define e2 where "e2 = rd (slot e3 (idx2 va)) s"
  have r: "T (frame root) = Some (frame root, [])" using root by (simp add: root_of_def)
  have 4: "has e4 PAGE_PRESENT \<Longrightarrow> has e4 PAGE_USER \<and> T (frame e4) = Some (frame root, [idx4 va])"
    using child_D [OF inv r, of "idx4 va"] user_idx4 [OF va(2)] by (simp add: lim_def slot_eq e4_def)
  have 3: "has e3 PAGE_USER \<and> \<not> has e3 PAGE_PS \<and> T (frame e3) = Some (frame root, [idx4 va, idx3 va])"
    if "has e4 PAGE_PRESENT" "has e3 PAGE_PRESENT"
    using child_D [OF inv conjunct2 [OF 4 [OF that(1)]], of "idx3 va"] that(2) by (simp add: lim_def slot_eq e3_def)
  have 2: "has e2 PAGE_USER \<and> \<not> has e2 PAGE_PS"
    if "has e4 PAGE_PRESENT" "has e3 PAGE_PRESENT" "has e2 PAGE_PRESENT"
    using child_D [OF inv, of "frame e3" "frame root" "[idx4 va, idx3 va]" "idx2 va"] 3 [OF that(1,2)] that(3)
    by (simp add: lim_def slot_eq e2_def)
  have "\<not> va < 0x1000" "\<not> USER_TOP \<le> va" using va by auto
  with root_nonzero [OF inv root] 2 3 4 show ?thesis
    unfolding pmap_extract_def pmap_get_pte_ptr_def Let_def e4_def [symmetric] e3_def [symmetric]
      e2_def [symmetric] leaf_phys_def by auto
qed

section \<open>Changing a leaf entry\<close>

definition counted :: "places \<Rightarrow> nat \<Rightarrow> nat \<Rightarrow> u64 \<Rightarrow> nat \<Rightarrow> nat" where
  "counted T t i e f = (if \<not> tramp_slot T t i \<and> has e PAGE_PRESENT \<and> frame e = f then 1 else 0)"

text \<open>\<open>s'\<close> has the tables of \<open>s\<close>, but for the entry \<open>e\<close> in slot \<open>i\<close> of \<open>t\<close>.\<close>
definition leaf_update :: "pmap_state \<Rightarrow> pmap_state \<Rightarrow> places \<Rightarrow> nat \<Rightarrow> nat \<Rightarrow> u64 \<Rightarrow> bool" where
  "leaf_update s s' T t i e \<longleftrightarrow> (\<forall>f j. f \<in> dom T \<longrightarrow> j < 512 \<longrightarrow>
       rd (f + 8 * j) s' = (if f = t \<and> j = i then e else rd (f + 8 * j) s))
     \<and> s_tramp_phys s' = s_tramp_phys s \<and> s_max_phys_page (pmm_of s') = s_max_phys_page (pmm_of s)"

lemma leaf_update_rd:
  assumes "leaf_update s s' T t i e" and "T f = Some x" and "j < 512"
  shows "rd (f + 8 * j) s' = (if f = t \<and> j = i then e else rd (f + 8 * j) s)"
  using assms unfolding leaf_update_def by blast

lemma mapped_update:
  assumes inv: "pt_inv s T" and u: "leaf_update s s' T t i e" and l: "leaf T t i"
  shows "card (mapped s' T f) + counted T t i (rd (t + 8 * i) s) f = card (mapped s T f) + counted T t i e f"
proof -
  have ti: "(t, i) \<in> mapped s T f \<longleftrightarrow> counted T t i (rd (t + 8 * i) s) f = 1"
    using l by (simp add: mapped_def counted_def)
  have r: "rd (g + 8 * j) s' = (if g = t \<and> j = i then e else rd (g + 8 * j) s)" if "leaf T g j" for g j
    using that leaf_update_rd [OF u] by (auto simp: leaf_def)
  have m: "mapped s' T f = (mapped s T f - {(t, i)}) \<union> (if counted T t i e f = 1 then {(t, i)} else {})"
    using r l unfolding mapped_def counted_def by (auto split: if_splits)
  have fin: "finite (mapped s T f)" by (rule mapped_finite [OF inv])
  have c: "card (mapped s T f - {(t, i)}) + counted T t i (rd (t + 8 * i) s) f = card (mapped s T f)"
  proof (cases "(t, i) \<in> mapped s T f")
    case True
    then show ?thesis using ti fin card_Suc_Diff1 [OF fin True] by simp
  next
    case False
    then show ?thesis using ti by (auto simp: counted_def split: if_splits)
  qed
  have "card (mapped s' T f) = card (mapped s T f - {(t, i)}) + counted T t i e f"
    using fin unfolding m by (auto simp: counted_def card.insert_remove)
  with c show ?thesis by simp
qed

lemma spare_update:
  assumes "pt_inv s T" and "leaf_update s s' T t i e" and "leaf T t i"
  shows "spare s' T f = spare s T f + (int (refs_of s' f) - int (refs_of s f))
     + int (counted T t i (rd (t + 8 * i) s) f) - int (counted T t i e f)"
  using mapped_update [OF assms, of f] assms(2) by (simp add: spare_def leaf_update_def tramp_refs_def)

lemma leaf_change:
  assumes inv: "pt_inv s T" and u: "leaf_update s s' T t i e" and l: "leaf T t i"
    and pmm: "pmm_inv (pmm_of s')" and tabs: "\<And>f. f \<in> dom T \<Longrightarrow> refs_of s' f \<noteq> 0"
    and new: "has e PAGE_PRESENT \<Longrightarrow> T (frame e) = None"
    and tramp: "tramp_slot T t i \<Longrightarrow> has e PAGE_PRESENT \<Longrightarrow> s_tramp_phys s \<noteq> 0 \<and> frame e = unat (s_tramp_phys s)
      \<and> \<not> has e PAGE_WRITE \<and> \<not> has e PAGE_COW"
    and sp: "\<And>f. 4096 dvd f \<Longrightarrow> managed s f \<Longrightarrow> spare s' T f \<ge> 0"
  shows "pt_inv s' T"
proof -
  note parts = inv [unfolded pt_inv_def]
  have mg: "managed s' f = managed s f" for f using u by (simp add: leaf_update_def managed_def)
  have tr: "s_tramp_phys s' = s_tramp_phys s" using u by (simp add: leaf_update_def)
  have rd3: "rd (f + 8 * j) s' = rd (f + 8 * j) s" if "T f = Some (r, p)" "length p < 3" "j < 512" for f r p j
    using leaf_update_rd [OF u that(1,3)] that l by (auto simp: leaf_def)
  have lim: "lim p \<le> 512" for p by (simp add: lim_def)
  have "held s' f" if "T f = Some x" for f x
    using table_D(1) [OF inv, of f] that tabs [of f] by (cases x) (auto simp: held_def mg)
  moreover have tok: "tables_ok s T" using inv by (simp add: pt_inv_def)
  ultimately have "tables_ok s' T" unfolding tables_ok_def by auto
  moreover have "children_ok s' T" unfolding children_ok_def
  proof (intro allI impI)
    fix f r p j
    assume a: "T f = Some (r, p)" "length p < 3" "j < lim p" "has (rd (f + 8 * j) s') PAGE_PRESENT"
    have "j < 512" using a(3) lim [of p] by linarith
    with rd3 [OF a(1,2)] have "rd (f + 8 * j) s' = rd (f + 8 * j) s" by simp
    with child_D [OF inv a(1-3)] a(4) show "has (rd (f + 8 * j) s') PAGE_USER \<and> \<not> has (rd (f + 8 * j) s') PAGE_PS
       \<and> T (frame (rd (f + 8 * j) s')) = Some (r, p @ [j])" by simp
  qed
  moreover have "parents_ok s' T" unfolding parents_ok_def
  proof (intro allI impI)
    fix g r p j
    assume g: "T g = Some (r, p @ [j])"
    obtain f where f: "T f = Some (r, p)" "has (rd (f + 8 * j) s) PAGE_PRESENT" "frame (rd (f + 8 * j) s) = g"
      using parent_D(2) [OF inv g] by auto
    have p: "length p < 3" and j: "j < lim p" using table_D(2) [OF inv g] parent_D(1) [OF inv g] by auto
    have "j < 512" using j lim [of p] by linarith
    with rd3 [OF f(1) p] f j show "j < lim p \<and> (\<exists>f. T f = Some (r, p) \<and> has (rd (f + 8 * j) s') PAGE_PRESENT
       \<and> frame (rd (f + 8 * j) s') = g)" by auto
  qed
  moreover have "leaves_ok s' T" using parts new leaf_update_rd [OF u]
    unfolding leaves_ok_def leaf_def by (metis option.simps(3))
  moreover have "tramp_ok s' T" unfolding tramp_ok_def tr mg
  proof (rule conjI, use parts in \<open>simp add: tramp_ok_def\<close>, intro allI impI)
    fix f j
    assume a: "tramp_slot T f j" "has (rd (f + 8 * j) s') PAGE_PRESENT"
    obtain x where "T f = Some x" "j < 512" using a(1) by (auto simp: tramp_slot_def)
    with leaf_update_rd [OF u] have "rd (f + 8 * j) s' = (if f = t \<and> j = i then e else rd (f + 8 * j) s)" by blast
    with a tramp parts show "s_tramp_phys s \<noteq> 0 \<and> frame (rd (f + 8 * j) s') = unat (s_tramp_phys s)
       \<and> \<not> has (rd (f + 8 * j) s') PAGE_WRITE \<and> \<not> has (rd (f + 8 * j) s') PAGE_COW"
      unfolding tramp_ok_def by (auto split: if_splits)
  qed
  ultimately show ?thesis using pmm sp unfolding pt_inv_def mg by blast
qed

section \<open>Growing the tables\<close>

lemma pm_alloc_cases:
  assumes "pmm_inv (pmm_of s)" and "pm_alloc s = (f, s1)"
  obtains (fail) "f = 0" "pmm_inv (pmm_of s1)" "\<And>g. refs_of s g \<le> refs_of s1 g"
      "\<And>g. 4096 dvd g \<Longrightarrow> g \<noteq> 0 \<Longrightarrow> refs_of s1 g = refs_of s g"
  | (ok) "4096 dvd f" "f \<noteq> 0" "f < 2 ^ 52" "managed s f" "refs_of s f = 0" "pmm_inv (pmm_of s1)" "\<not> failed_alloc f"
      "\<And>g. 4096 dvd g \<Longrightarrow> refs_of s1 g = (if g = f then 1 else refs_of s g)"
proof -
  have s1: "pmm_alloc_page (pmm_of s) = (f, pmm_of s1)"
    using assms(2) by (auto simp: pm_alloc_def split: prod.splits)
  have div_eq: "4096 dvd g \<Longrightarrow> 4096 dvd h \<Longrightarrow> g div 4096 = h div 4096 \<longleftrightarrow> g = (h::nat)" for g h
    by (auto elim!: dvdE)
  from assms(1) show ?thesis
  proof (cases rule: alloc_page_cases)
    case fail
    with s1 assms(1) show ?thesis by (intro that(1)) (auto simp: refs_of_def)
  next
    case (ok b t)
    have t: "f = b * 4096" "pmm_of s1 = t" using ok(1) s1 by simp_all
    have refs: "refs_of s1 g = (if g div 4096 = b then 1 else refs_of s g)" for g
      using ok(5) by (simp add: refs_of_def t)
    have fr: "ref_counts (pmm_of s) b = 0" and bm: "b < s_max_phys_page (pmm_of s)" using ok(2) by (simp_all add: free_set_def)
    show ?thesis
    proof (cases "b = 0")
      case True
      then show ?thesis using that(1) t ok(3) refs fr div_eq [of _ 0] by (auto simp: refs_of_def)
    next
      case False
      have "b < 2 ^ 32" using bm assms(1) by (simp add: pmm_inv_def inv_defs)
      then have "f < 2 ^ 52" by (simp add: t)
      moreover have "f \<noteq> PADDR_INVALID" using addr_not_invalid [of b] by (simp add: t)
      moreover have "refs_of s1 g = (if g = f then 1 else refs_of s g)" if "4096 dvd g" for g
        using refs [of g] div_eq [OF that, of f] by (simp add: t)
      ultimately show ?thesis
        using that(2) t ok(3) fr bm False by (simp add: managed_def refs_of_def failed_alloc_def)
    qed
  qed
qed

lemma pm_alloc_fields:
  assumes "pm_alloc s = (f, s1)" and "pmm_inv (pmm_of s)"
  shows "rd a s1 = rd a s" and "s_tramp_phys s1 = s_tramp_phys s"
    and "s_max_phys_page (pmm_of s1) = s_max_phys_page (pmm_of s)"
    and "s_kernel_pml4_phys s1 = s_kernel_pml4_phys s"
  using assms(1) pmm.alloc_npages [OF assms(2)] by (auto simp: pm_alloc_def rd_def split: prod.splits)

text \<open>\<open>s'\<close> with \<open>T'\<close> has the leaf entries of \<open>s\<close> with \<open>T\<close>: new tables are empty, and nothing outside
  the tables has changed.\<close>
definition grown :: "pmap_state \<Rightarrow> places \<Rightarrow> pmap_state \<Rightarrow> places \<Rightarrow> bool" where
  "grown s T s' T' \<longleftrightarrow> T \<subseteq>\<^sub>m T' \<and> (\<forall>f q. T' f = Some (q, []) \<longrightarrow> T f = Some (q, []))
     \<and> (\<forall>t i. leaf T' t i \<longrightarrow> rd (t + 8 * i) s' = (if leaf T t i then rd (t + 8 * i) s else 0))
     \<and> (\<forall>g. 4096 dvd g \<longrightarrow> g \<noteq> 0 \<longrightarrow> T' g = None \<longrightarrow> refs_of s' g = refs_of s g)
     \<and> (\<forall>g. 4096 dvd g \<longrightarrow> T' g \<noteq> None \<longrightarrow> T g = None \<longrightarrow> g \<noteq> 0 \<and> managed s g \<and> refs_of s g = 0)
     \<and> (\<forall>f x. 4096 dvd f \<longrightarrow> T' f = None \<longrightarrow> f \<le> x \<longrightarrow> x < f + 4096 \<longrightarrow> rd x s' = rd x s)
     \<and> s_tramp_phys s' = s_tramp_phys s \<and> s_max_phys_page (pmm_of s') = s_max_phys_page (pmm_of s)"

lemma leaf_mono: "T \<subseteq>\<^sub>m T' \<Longrightarrow> leaf T t i \<Longrightarrow> leaf T' t i"
  unfolding leaf_def map_le_def by (metis domI)

lemma map_leD: "T \<subseteq>\<^sub>m T' \<Longrightarrow> T f = Some x \<Longrightarrow> T' f = Some x"
  unfolding map_le_def by (metis domI)

lemma grown_refl: "(\<And>g. 4096 dvd g \<Longrightarrow> g \<noteq> 0 \<Longrightarrow> refs_of s' g = refs_of s g) \<Longrightarrow> (\<And>a. rd a s' = rd a s) \<Longrightarrow>
  s_tramp_phys s' = s_tramp_phys s \<Longrightarrow> s_max_phys_page (pmm_of s') = s_max_phys_page (pmm_of s) \<Longrightarrow> grown s T s' T"
  by (auto simp: grown_def)

lemma grown_trans:
  assumes a: "grown s T s1 T1" and b: "grown s1 T1 s2 T2"
  shows "grown s T s2 T2"
proof -
  have le: "T \<subseteq>\<^sub>m T1" "T1 \<subseteq>\<^sub>m T2" using a b by (simp_all add: grown_def)
  have mg: "managed s1 g = managed s g" for g using a by (simp add: grown_def managed_def)
  have none: "T2 g = None \<Longrightarrow> T1 g = None" for g using map_leD [OF le(2)] by (metis not_None_eq)
  have lm: "leaf T t i \<Longrightarrow> leaf T1 t i" for t i by (rule leaf_mono [OF le(1)])
  have "rd (t + 8 * i) s2 = (if leaf T t i then rd (t + 8 * i) s else 0)" if "leaf T2 t i" for t i
    using a b that lm unfolding grown_def by simp
  moreover have "g \<noteq> 0 \<and> managed s g \<and> refs_of s g = 0" if g: "4096 dvd g" "T2 g \<noteq> None" "T g = None" for g
  proof (cases "T1 g = None")
    case True
    with b g have "g \<noteq> 0 \<and> managed s1 g \<and> refs_of s1 g = 0" unfolding grown_def by blast
    moreover have "g \<noteq> 0 \<Longrightarrow> refs_of s1 g = refs_of s g" using a g True unfolding grown_def by blast
    ultimately show ?thesis by (simp add: mg)
  next
    case False
    with a g show ?thesis unfolding grown_def by blast
  qed
  ultimately show ?thesis
    using a b le none map_le_trans [OF le] unfolding grown_def by (simp add: none) 
qed

lemma free_frame:
  assumes inv: "pt_inv s T" and f: "4096 dvd f" "managed s f" "refs_of s f = 0"
  shows "T f = None" and "leaf T t i \<Longrightarrow> has (rd (t + 8 * i) s) PAGE_PRESENT \<Longrightarrow> frame (rd (t + 8 * i) s) \<noteq> f"
    and "mapped s T f = {}" and "tramp_refs s f = 0"
proof -
  show "T f = None" using table_D(1) [OF inv, of f] f(3) by (cases "T f") (auto simp: held_def)
  show *: "leaf T t i \<Longrightarrow> has (rd (t + 8 * i) s) PAGE_PRESENT \<Longrightarrow> frame (rd (t + 8 * i) s) \<noteq> f" for t i
    using mapped_held [OF inv, of t i] f by blast
  show "mapped s T f = {}" using * by (auto simp: mapped_def)
  have "0 \<le> spare s T f" using inv f by (simp add: pt_inv_def)
  then show "tramp_refs s f = 0" using f(3) by (simp add: spare_def)
qed

lemma not_present_0: "\<not> has 0 PAGE_PRESENT"
  by (simp add: has_def)

lemma new_table:
  assumes inv: "pt_inv s T" and t: "T t = Some (r, p)" and p: "length p < 3" and i: "i < lim p"
    and np: "\<not> has (rd (t + 8 * i) s) PAGE_PRESENT"
    and f: "4096 dvd f" "f \<noteq> 0" "managed s f" "refs_of s f = 0"
    and rds: "\<And>g j. T g \<noteq> None \<Longrightarrow> j < 512 \<Longrightarrow> rd (g + 8 * j) s' = (if g = t \<and> j = i then e else rd (g + 8 * j) s)"
    and rdf: "\<And>j. j < 512 \<Longrightarrow> rd (f + 8 * j) s' = 0"
    and e: "frame e = f" "has e PAGE_PRESENT" "has e PAGE_USER" "\<not> has e PAGE_PS"
    and refs: "\<And>g. 4096 dvd g \<Longrightarrow> refs_of s' g = (if g = f then 1 else refs_of s g)"
    and s': "pmm_inv (pmm_of s')" "s_tramp_phys s' = s_tramp_phys s" "s_max_phys_page (pmm_of s') = s_max_phys_page (pmm_of s)"
  shows "pt_inv s' (T(f \<mapsto> (r, p @ [i])))"
    and "leaf (T(f \<mapsto> (r, p @ [i]))) u j \<Longrightarrow> rd (u + 8 * j) s' = (if leaf T u j then rd (u + 8 * j) s else 0)"
proof -
  let ?T = "T(f \<mapsto> (r, p @ [i]))"
  note fr = free_frame [OF inv f(1,3,4)]
  have ne: "t \<noteq> f" using fr(1) t by auto
  have lim: "lim q \<le> 512" for q by (simp add: lim_def)
  have i5: "i < 512" using i lim [of p] by linarith
  have new: "T g \<noteq> Some (r, p @ [i])" for g
    using level_step(1) [OF inv t p i] np by blast
  have mg: "managed s' g = managed s g" for g using s' by (simp add: managed_def)
  have T: "?T g = Some x \<longleftrightarrow> (if g = f then x = (r, p @ [i]) else T g = Some x)" for g x by auto
  have nl: "\<not> leaf T t j" for j using t p by (auto simp: leaf_def)
  show lv: "rd (u + 8 * j) s' = (if leaf T u j then rd (u + 8 * j) s else 0)" if "leaf ?T u j" for u j
  proof (cases "u = f")
    case True
    with that rdf fr(1) show ?thesis by (simp add: leaf_def)
  next
    case False
    then have l: "leaf T u j" using that by (simp add: leaf_def)
    then have "u \<noteq> t" using nl by auto
    with l rds [of u j] show ?thesis by (auto simp: leaf_def)
  qed
  have heldT: "held s' g" if "?T g = Some x" for g x
  proof (cases "g = f")
    case True with f refs [OF f(1)] show ?thesis by (simp add: held_def mg)
  next
    case False
    then have "held s g" using table_D(1) [OF inv, of g] that by (cases x) simp
    with False refs [of g] show ?thesis by (simp add: held_def mg)
  qed
  have "tables_ok s' ?T" unfolding tables_ok_def
  proof (intro conjI allI impI)
    fix g q w assume "?T g = Some (q, w)"
    then show "held s' g" "length w \<le> 3" "w = [] \<Longrightarrow> g = q"
      using heldT table_D(2,3) [OF inv, of g] p by (auto split: if_splits)
  next
    fix g h x assume "?T g = Some x" "?T h = Some x"
    then show "g = h" using new table_D(6) [OF inv, of g "fst x" "snd x" h] by (auto split: if_splits)
  qed
  moreover have "children_ok s' ?T" unfolding children_ok_def
  proof (intro allI impI)
    fix g q w j
    assume a: "?T g = Some (q, w)" "length w < 3" "j < lim w" "has (rd (g + 8 * j) s') PAGE_PRESENT"
    have j: "j < 512" using a(3) lim [of w] by linarith
    have gf: "g \<noteq> f" using rdf [OF j] a(4) not_present_0 by auto
    then have Tg: "T g = Some (q, w)" using a(1) by simp
    show "has (rd (g + 8 * j) s') PAGE_USER \<and> \<not> has (rd (g + 8 * j) s') PAGE_PS
      \<and> ?T (frame (rd (g + 8 * j) s')) = Some (q, w @ [j])"
    proof (cases "g = t \<and> j = i")
      case True
      then show ?thesis using rds [of g j] Tg t e j by simp
    next
      case False
      then have rd: "rd (g + 8 * j) s' = rd (g + 8 * j) s" using rds [of g j] Tg j by auto
      with child_D [OF inv Tg a(2,3)] a(4) have "has (rd (g + 8 * j) s) PAGE_USER" "\<not> has (rd (g + 8 * j) s) PAGE_PS"
        "T (frame (rd (g + 8 * j) s)) = Some (q, w @ [j])" by simp_all
      with fr(1) rd show ?thesis by (metis T option.distinct(1))
    qed
  qed
  moreover have "parents_ok s' ?T" unfolding parents_ok_def
  proof (intro allI impI)
    fix g q w j
    assume g: "?T g = Some (q, w @ [j])"
    show "j < lim w \<and> (\<exists>h. ?T h = Some (q, w) \<and> has (rd (h + 8 * j) s') PAGE_PRESENT \<and> frame (rd (h + 8 * j) s') = g)"
    proof (cases "g = f")
      case True
      then have "q = r" "w = p" "j = i" using g by auto
      with i t ne rds [of t i] i5 e True show ?thesis by (intro conjI exI [of _ t]) auto
    next
      case False
      then have g': "T g = Some (q, w @ [j])" using g by simp
      from parent_D [OF inv this] obtain h where h: "j < lim w" "T h = Some (q, w)"
        "has (rd (h + 8 * j) s) PAGE_PRESENT" "frame (rd (h + 8 * j) s) = g" by auto
      have "h \<noteq> f" "\<not> (h = t \<and> j = i)" using h fr(1) np by auto
      with h rds [of h j] lim [of w] show ?thesis by (intro conjI exI [of _ h]) auto
    qed
  qed
  moreover have "leaves_ok s' ?T" unfolding leaves_ok_def
  proof (intro allI impI)
    fix u j assume l: "leaf ?T u j" and pr: "has (rd (u + 8 * j) s') PAGE_PRESENT"
    then have "leaf T u j" "rd (u + 8 * j) s' = rd (u + 8 * j) s" using lv [OF l] not_present_0 by (auto split: if_splits)
    with pr fr(2) [of u j] inv show "?T (frame (rd (u + 8 * j) s')) = None"
      by (auto simp: pt_inv_def leaves_ok_def)
  qed
  moreover have "tramp_ok s' ?T"
  proof -
    have tl: "leaf T u j" if "tramp_slot T u j" for u j using that by (auto simp: tramp_slot_def leaf_def path_def)
    have "unat (s_tramp_phys s) \<noteq> f" if "s_tramp_phys s \<noteq> 0" using fr(4) that by (auto simp: tramp_refs_def split: if_splits)
    moreover have "tramp_slot T u j \<and> rd (u + 8 * j) s' = rd (u + 8 * j) s"
      if a: "tramp_slot ?T u j" "has (rd (u + 8 * j) s') PAGE_PRESENT" for u j
    proof -
      have "j < 512" using a(1) by (auto simp: tramp_slot_def)
      then have uf: "u \<noteq> f" using rdf a(2) not_present_0 by auto
      then have "tramp_slot T u j" using a(1) by (simp add: tramp_slot_def)
      then show ?thesis using lv [of u j] tl leaf_def uf by (simp add: leaf_def)
    qed
    ultimately show ?thesis using inv mg s'(2) unfolding pt_inv_def tramp_ok_def by (metis fun_upd_other)
  qed
  moreover have "spare s' ?T g \<ge> 0" if g: "4096 dvd g" "managed s' g" for g
  proof -
    have "mapped s' ?T g = mapped s T g"
    proof -
      have "(u, j) \<in> mapped s' ?T g \<longleftrightarrow> (u, j) \<in> mapped s T g" for u j
      proof (cases "u = f")
        case True
        then show ?thesis using rdf [of j] not_present_0 fr(1) by (auto simp: mapped_def leaf_def)
      next
        case False
        then have "leaf ?T u j = leaf T u j" "tramp_slot ?T u j = tramp_slot T u j" by (simp_all add: leaf_def tramp_slot_def)
        with lv [of u j] show ?thesis by (auto simp: mapped_def)
      qed
      then show ?thesis by auto
    qed
    moreover have "refs_of s g \<le> refs_of s' g" using refs [OF g(1)] f(4) by simp
    moreover have "tramp_refs s' g = tramp_refs s g" by (simp add: tramp_refs_def s'(2))
    moreover have "spare s T g \<ge> 0" using inv g by (simp add: pt_inv_def mg)
    ultimately show ?thesis by (simp add: spare_def)
  qed
  ultimately show "pt_inv s' ?T" using s'(1) by (simp add: pt_inv_def)
qed

lemma pt_inv_same_tables:
  assumes inv: "pt_inv s T" and pmm: "pmm_inv (pmm_of s')" and rds: "\<And>a. rd a s' = rd a s"
    and refs: "\<And>g. refs_of s g \<le> refs_of s' g"
    and s': "s_tramp_phys s' = s_tramp_phys s" "s_max_phys_page (pmm_of s') = s_max_phys_page (pmm_of s)"
  shows "pt_inv s' T"
proof -
  have mg: "managed s' g = managed s g" for g using s' by (simp add: managed_def)
  have "held s g \<Longrightarrow> held s' g" for g using refs [of g] by (auto simp: held_def mg)
  moreover have "tables_ok s T" using inv by (simp add: pt_inv_def)
  ultimately have "tables_ok s' T" unfolding tables_ok_def by auto
  moreover have "spare s' T g \<ge> spare s T g" for g
    using refs [of g] by (simp add: spare_def mapped_def tramp_refs_def rds s')
  then have "\<forall>g. 4096 dvd g \<longrightarrow> managed s g \<longrightarrow> spare s' T g \<ge> 0"
    using inv unfolding pt_inv_def by (meson order_trans)
  ultimately show ?thesis
    using inv pmm by (simp add: pt_inv_def children_ok_def parents_ok_def leaves_ok_def tramp_ok_def rds mg s')
qed

lemma ensure_table_ok:
  assumes inv: "pt_inv s T" and t: "T (frame table) = Some (r, p)" and p: "length p < 3" and i: "i < lim p"
    and ens: "ensure_table is_pd table i s = (res, s')"
  shows "\<exists>T'. pt_inv s' T' \<and> grown s T s' T' \<and> (\<forall>e. res = Some e \<longrightarrow> T' (frame e) = Some (r, p @ [i]))"
proof -
  let ?t = "frame table"
  let ?e = "rd (?t + 8 * i) s"
  have pmm: "pmm_inv (pmm_of s)" using inv by (simp add: pt_inv_def)
  note kid = child_D [OF inv t p i]
  show ?thesis
  proof (cases "has ?e PAGE_PRESENT")
    case True
    then have "res = Some ?e" "s' = s" using ens True kid(1,2) [OF True] by (auto simp: ensure_table_def Let_def slot_eq)
    with inv kid(3) [OF True] show ?thesis by (intro exI [of _ T]) (auto intro: grown_refl)
  next
    case False
    obtain f s1 where al: "pm_alloc s = (f, s1)" by (rule prod.exhaust)
    note fl = pm_alloc_fields [OF al pmm]
    from pmm al show ?thesis
    proof (cases rule: pm_alloc_cases)
      case fail
      then have "res = None" "s' = s1"
        using ens False al by (auto simp: ensure_table_def Let_def slot_eq failed_alloc_def)
      moreover have "pt_inv s1 T" by (rule pt_inv_same_tables [OF inv]) (use fail fl in auto)
      moreover have "grown s T s1 T" by (rule grown_refl) (use fail fl in auto)
      ultimately show ?thesis by blast
    next
      case ok
      define e where "e = (word_of_nat f AND PTE_PHYS_MASK) OR PAGE_PRESENT OR PAGE_WRITE OR PAGE_USER"
      note te = table_entry [of "word_of_nat f", folded e_def]
      have fw: "frame (word_of_nat f) = f" by (rule frame_of_nat [OF ok(1,3)])
      have s': "res = Some e" "s' = wr (?t + 8 * i) e (zero_page f s1)"
        using ens False al ok fw by (auto simp: ensure_table_def Let_def slot_eq e_def frame_def)
      have i5: "i < 512" using i by (simp add: lim_def split: if_splits)
      have dv: "4096 dvd ?t" by (rule frame_dvd)
      have fT: "T f = None" by (rule free_frame(1) [OF inv ok(1,4,5)])
      have tf: "?t \<noteq> f" using fT t by auto
      have zp: "rd x s' = (if x = ?t + 8 * i then e else rd x s)" if "\<not> (f \<le> x \<and> x < f + 4096)" for x
        using that fl(1) by (simp add: s'(2) rd_wr rd_zero_page)
      have out: "g = f" if "4096 dvd g" "j < 512" "f \<le> g + 8 * j" "g + 8 * j < f + 4096" for g j
        using slot_in_page [OF that(1) ok(1) that(2-4)] .
      have rds: "rd (g + 8 * j) s' = (if g = ?t \<and> j = i then e else rd (g + 8 * j) s)" if g: "T g \<noteq> None" "j < 512" for g j
      proof -
        have g4: "4096 dvd g" using g(1) table_D(4) [OF inv, of g] by auto
        have "g \<noteq> f" using g(1) fT by auto
        then have n: "\<not> (f \<le> g + 8 * j \<and> g + 8 * j < f + 4096)" using out [OF g4 g(2)] by blast
        have "g + 8 * j = ?t + 8 * i \<longleftrightarrow> g = ?t \<and> j = i" using slot_inj [OF g4 dv g(2) i5] by auto
        with zp [OF n] show ?thesis by simp
      qed
      have rdf: "rd (f + 8 * j) s' = 0" if "j < 512" for j
      proof -
        have "f + 8 * j \<noteq> ?t + 8 * i" using slot_inj [OF ok(1) dv that i5] tf by auto
        then show ?thesis using that by (simp add: s'(2) rd_wr rd_zero_page)
      qed
      have refs: "refs_of s' g = (if g = f then 1 else refs_of s g)" if "4096 dvd g" for g
        using ok(8) [OF that] by (simp add: s'(2) refs_of_def)
      have rest: "pmm_inv (pmm_of s')" "s_tramp_phys s' = s_tramp_phys s" "s_max_phys_page (pmm_of s') = s_max_phys_page (pmm_of s)"
        using ok(6) fl by (simp_all add: s'(2))
      note nt = new_table [OF inv t p i False ok(1,2,4,5) rds rdf te(1) [unfolded fw] te(2-4) refs rest]
      have "rd x s' = rd x s" if x: "4096 dvd g" "(T(f \<mapsto> (r, p @ [i]))) g = None" "g \<le> x" "x < g + 4096" for g x
      proof -
        have "g \<noteq> f" "g \<noteq> ?t" using x(2) t by (auto split: if_splits)
        moreover have "x div 4096 * 4096 = g" using slot_page [OF x(1), of "x - g"] x(3,4) by simp
        moreover have "x div 4096 * 4096 = f" if "f \<le> x" "x < f + 4096"
          using slot_page [OF ok(1), of "x - f"] that by simp
        moreover have "(?t + 8 * i) div 4096 * 4096 = ?t" using slot_page [OF dv] i5 by simp
        ultimately have "\<not> (f \<le> x \<and> x < f + 4096)" "x \<noteq> ?t + 8 * i" by metis+
        with zp show ?thesis by simp
      qed
      then have "grown s T s' (T(f \<mapsto> (r, p @ [i])))"
        using nt(2) fT ok(2,4,5) refs rest(2,3) unfolding grown_def map_le_def by (auto split: if_splits)
      with nt(1) s'(1) te(1) fw show ?thesis by (intro exI [of _ "T(f \<mapsto> (r, p @ [i]))"]) simp
    qed
  qed
qed

end
