(* ===== verification/Pmap_Ops.thy ===== *)
theory Pmap_Ops
  imports Pmap_Correct
begin

text \<open>
  The operations of \<^verbatim>\<open>pmap.c\<close> against the invariant: what each does to the leaf entries of every
  address space and to the references of every frame.
\<close>

unbundle bit_operations_syntax

section \<open>The entries an address space sees\<close>

definition user_pte :: "u64 \<Rightarrow> u64 \<Rightarrow> pmap_state \<Rightarrow> u64" where
  "user_pte root va s = (case pmap_get_pte_ptr root va s of None \<Rightarrow> 0 | Some a \<Rightarrow> rd a s)"

lemma user_pte_eq:
  assumes "pt_inv s T" and "root_of T root" and "va < USER_TOP"
  shows "T t = Some (frame root, path va) \<Longrightarrow> user_pte root va s = rd (t + 8 * idx1 va) s"
    and "(\<And>t. T t \<noteq> Some (frame root, path va)) \<Longrightarrow> user_pte root va s = 0"
  using get_pte_ptr_iff [OF assms] unfolding user_pte_def
  by (auto split: option.splits) (metis option.distinct(1) option.inject)+

lemma extract_pte:
  assumes "pt_inv s T" and "root_of T root" and "0x1000 \<le> va" and "va < USER_TOP"
  shows "pmap_extract root va s = leaf_phys (user_pte root va s) va"
  using extract_eq [OF assms] by (simp add: user_pte_def leaf_phys_def has_def split: option.splits)

lemma path_leaf: "T t = Some (r, path va) \<Longrightarrow> leaf T t (idx1 va)"
  by (simp add: leaf_def path_def)

lemma grown_le: "grown s T s' T' \<Longrightarrow> T \<subseteq>\<^sub>m T'"
  by (simp only: grown_def)

lemma grown_root: "grown s T s' T' \<Longrightarrow> root_of T root \<Longrightarrow> root_of T' root"
  unfolding root_of_def by (rule map_leD [OF grown_le])

lemma grown_view:
  assumes inv: "pt_inv s T" and inv': "pt_inv s' T'" and g: "grown s T s' T'" and root: "root_of T root"
    and va: "va < USER_TOP"
  shows "user_pte root va s' = user_pte root va s"
proof -
  note root' = grown_root [OF g root]
  have le: "T \<subseteq>\<^sub>m T'" and rds: "\<And>t i. leaf T' t i \<Longrightarrow> rd (t + 8 * i) s' = (if leaf T t i then rd (t + 8 * i) s else 0)"
    using g by (simp_all add: grown_def)
  consider (old) t where "T t = Some (frame root, path va)" | (new) t where "T' t = Some (frame root, path va)" "T t = None"
    | (none) "\<And>t. T' t \<noteq> Some (frame root, path va)"
    by (metis map_leD [OF le] not_None_eq)
  then show ?thesis
  proof cases
    case old
    then have t: "T' t = Some (frame root, path va)" by (rule map_leD [OF le])
    show ?thesis using user_pte_eq(1) [OF inv root va old] user_pte_eq(1) [OF inv' root' va t] rds [OF path_leaf [of T' t _ va, OF t]] path_leaf [of T t _ va, OF old]
      by simp
  next
    case new
    have "T u \<noteq> Some (frame root, path va)" for u
    proof
      assume u: "T u = Some (frame root, path va)"
      have "u = t" using table_D(6) [OF inv' new(1) map_leD [OF le u]] .
      with u new(2) show False by simp
    qed
    with user_pte_eq [OF inv root va] user_pte_eq(1) [OF inv' root' va new(1)] rds [OF path_leaf [of T' t _ va, OF new(1)]] new(2)
    show ?thesis by (simp add: leaf_def)
  next
    case none
    then have "T t \<noteq> Some (frame root, path va)" for t using map_leD [OF le] by blast
    with none user_pte_eq(2) [OF inv root va] user_pte_eq(2) [OF inv' root' va] show ?thesis by simp
  qed
qed

lemma grown_mapped:
  assumes g: "grown s T s' T'" shows "mapped s' T' f = mapped s T f"
proof -
  have le: "T \<subseteq>\<^sub>m T'" and rds: "\<And>t i. leaf T' t i \<Longrightarrow> rd (t + 8 * i) s' = (if leaf T t i then rd (t + 8 * i) s else 0)"
    using g by (simp_all add: grown_def)
  have tr: "tramp_slot T' t i = tramp_slot T t i" if "leaf T t i" for t i
    using that map_leD [OF le] unfolding tramp_slot_def leaf_def by fastforce
  have "(t, i) \<in> mapped s' T' f \<longleftrightarrow> (t, i) \<in> mapped s T f" for t i
    using rds [of t i] tr [of t i] leaf_mono [OF le] not_present_0 by (cases "leaf T t i") (auto simp: mapped_def)
  then show ?thesis by auto
qed

lemma grown_spare:
  assumes "grown s T s' T'" and "4096 dvd f" and "f \<noteq> 0" and "T' f = None"
  shows "spare s' T' f = spare s T f"
proof -
  have "refs_of s' f = refs_of s f" "s_tramp_phys s' = s_tramp_phys s" using assms unfolding grown_def by blast+
  then show ?thesis by (simp add: spare_def grown_mapped [OF assms(1)] tramp_refs_def)
qed

lemma update_view:
  assumes inv: "pt_inv s T" and inv': "pt_inv s' T" and u: "leaf_update s s' T t (idx1 va) e"
    and t: "T t = Some (frame root, path va)" and va: "va < USER_TOP"
    and root': "root_of T root'" and vb: "vb < USER_TOP"
  shows "user_pte root' vb s' = (if frame root' = frame root \<and> page_of vb = page_of va then e else user_pte root' vb s)"
proof (cases "\<exists>w. T w = Some (frame root', path vb)")
  case True
  then obtain w where w: "T w = Some (frame root', path vb)" by auto
  have "rd (w + 8 * idx1 vb) s' = (if w = t \<and> idx1 vb = idx1 va then e else rd (w + 8 * idx1 vb) s)"
    by (rule leaf_update_rd [OF u w]) simp
  moreover have "w = t \<and> idx1 vb = idx1 va \<longleftrightarrow> frame root' = frame root \<and> page_of vb = page_of va"
    using table_D(6) [OF inv t, of w] w t same_page [OF vb va] by auto
  ultimately show ?thesis
    using user_pte_eq(1) [OF inv root' vb w] user_pte_eq(1) [OF inv' root' vb w] by simp
next
  case False
  then have "\<not> (frame root' = frame root \<and> page_of vb = page_of va)" using t same_page [OF vb va] by auto
  with False user_pte_eq(2) [OF inv root' vb] user_pte_eq(2) [OF inv' root' vb] show ?thesis by auto
qed

section \<open>The trampoline page\<close>

lemma page_base: "va AND NOT 0xFFF = push_bit 12 (drop_bit 12 (va :: u64))"
proof -
  have m: "(0xFFF :: u64) = mask 12" by (simp add: mask_eq_exp_minus_1)
  show ?thesis unfolding m by (rule bit_word_eqI) (auto simp: bit_simps)
qed

lemma unat_page_base: "unat (va AND NOT 0xFFF :: u64) = page_of va * 4096"
proof -
  have d: "push_bit 12 (drop_bit 12 (unat va)) = page_of va * 4096"
    by (simp add: push_bit_eq_mult drop_bit_eq_div page_of_def)
  have "page_of va * 4096 \<le> unat va" by (simp add: page_of_def div_times_less_eq_dividend)
  then have "page_of va * 4096 < 2 ^ 64" using unsigned_less [of va, where ?'a = nat] by simp
  then have "take_bit 64 (page_of va * 4096) = page_of va * 4096" by (rule take_bit_nat_eq_self)
  then show ?thesis unfolding page_base unsigned_push_bit_eq unat_drop_bit_eq by (simp add: d)
qed

lemma tramp_va_iff: "pmap_is_trampoline_va va \<longleftrightarrow> page_of va = page_of SIGNAL_TRAMP_VA"
proof -
  have t: "unat SIGNAL_TRAMP_VA = page_of SIGNAL_TRAMP_VA * 4096" by (simp add: page_of_def SIGNAL_TRAMP_VA_def)
  have "va AND NOT 0xFFF = SIGNAL_TRAMP_VA \<longleftrightarrow> unat (va AND NOT 0xFFF) = unat SIGNAL_TRAMP_VA"
    by (simp only: word_unat_eq_iff)
  then show ?thesis by (simp only: pmap_is_trampoline_va_def unat_page_base t) simp
qed

lemma tramp_slot_iff:
  assumes "T t = Some (r, path va)" and "va < USER_TOP"
  shows "tramp_slot T t (idx1 va) \<longleftrightarrow> pmap_is_trampoline_va va"
proof -
  have "SIGNAL_TRAMP_VA < USER_TOP" by (simp add: SIGNAL_TRAMP_VA_def USER_TOP_def)
  from same_page [OF assms(2) this] show ?thesis
    using assms(1) by (auto simp: tramp_slot_def tramp_va_iff)
qed

section \<open>Mapping a page\<close>

lemma refs_release:
  assumes pmm: "pmm_inv (pmm_of s)" and w: "4096 dvd unat w"
  shows "pmm_inv (pmm_of (pm_release w s))"
    and "s_max_phys_page (pmm_of (pm_release w s)) = s_max_phys_page (pmm_of s)"
    and "4096 dvd g \<Longrightarrow> refs_of (pm_release w s) g = (if g = unat w \<and> managed s g then refs_of s g - 1 else refs_of s g)"
proof -
  show "pmm_inv (pmm_of (pm_release w s))" "s_max_phys_page (pmm_of (pm_release w s)) = s_max_phys_page (pmm_of s)"
    using pmm.release_inv [OF pmm] pmm.release_npages [OF pmm] by simp_all
  assume g: "4096 dvd g"
  then have eq: "g div 4096 = unat w div 4096 \<longleftrightarrow> g = unat w" using w by (auto elim!: dvdE)
  show "refs_of (pm_release w s) g = (if g = unat w \<and> managed s g then refs_of s g - 1 else refs_of s g)"
  proof (cases "page_idx (unat w) < s_max_phys_page (pmm_of s)")
    case True
    with pmm.release_refs [OF pmm True, of "g div 4096"] eq show ?thesis
      by (auto simp: refs_of_def managed_def page_idx_def)
  next
    case False
    then show ?thesis using release_out_of_range [OF False] by (auto simp: refs_of_def managed_def page_idx_def)
  qed
qed

lemma unat_masked: "unat (e AND PTE_PHYS_MASK) = frame e"
  by (simp add: frame_def)

lemma leaf_entry:
  fixes pa fl :: u64
  assumes "fl AND PTE_PHYS_MASK = 0"
  defines "e \<equiv> (pa AND PTE_PHYS_MASK) OR fl OR PAGE_PRESENT OR PAGE_USER"
  shows "frame e = frame pa" and "has e PAGE_PRESENT" and "has e PAGE_USER" and "e AND PTE_PHYS_MASK = pa AND PTE_PHYS_MASK"
    and "has e PAGE_WRITE \<longleftrightarrow> has fl PAGE_WRITE" and "has e PAGE_COW \<longleftrightarrow> has fl PAGE_COW"
    and "has e PAGE_NX \<longleftrightarrow> has fl PAGE_NX"
proof -
  have e: "e = (pa AND PTE_PHYS_MASK) OR (fl OR 5)" by (simp add: e_def flag_defs or.assoc)
  have z: "(fl OR 5) AND PTE_PHYS_MASK = 0" using assms(1) by (simp add: bit.conj_disj_distrib2) (simp add: PTE_PHYS_MASK_def)
  show fe: "frame e = frame pa" unfolding e by (rule frame_or [OF z])
  then show "e AND PTE_PHYS_MASK = pa AND PTE_PHYS_MASK" by (simp add: frame_def word_unat_eq_iff)
  have m: "pa AND PTE_PHYS_MASK AND 1 = 0" "pa AND PTE_PHYS_MASK AND 4 = 0" "pa AND PTE_PHYS_MASK AND 2 = 0"
    "pa AND PTE_PHYS_MASK AND 512 = 0" "pa AND PTE_PHYS_MASK AND 0x8000000000000000 = 0"
    by (simp_all add: PTE_PHYS_MASK_def and.assoc)
  show "has e PAGE_PRESENT" "has e PAGE_USER" "has e PAGE_WRITE \<longleftrightarrow> has fl PAGE_WRITE" "has e PAGE_COW \<longleftrightarrow> has fl PAGE_COW"
    "has e PAGE_NX \<longleftrightarrow> has fl PAGE_NX"
    by (simp_all add: e has_def flag_defs bit.conj_disj_distrib2 m and.assoc)
qed

text \<open>What the caller of \<^verbatim>\<open>pmap_map_user_page\<close> owes: a frame that is no page table and to which it holds
  a reference (unless the page maps it already), and the trampoline's page only for the trampoline.\<close>
definition may_map :: "u64 \<Rightarrow> u64 \<Rightarrow> u64 \<Rightarrow> u64 \<Rightarrow> pmap_state \<Rightarrow> places \<Rightarrow> bool" where
  "may_map old va pa fl s T \<longleftrightarrow> fl AND PTE_PHYS_MASK = 0 \<and> frame pa \<noteq> 0 \<and> T (frame pa) = None \<and>
     (if pmap_is_trampoline_va va
      then s_tramp_phys s \<noteq> 0 \<and> frame pa = unat (s_tramp_phys s) \<and> \<not> has fl PAGE_WRITE \<and> \<not> has fl PAGE_COW
      else managed s (frame pa) \<longrightarrow> spare s T (frame pa) \<ge> 1 \<or> (has old PAGE_PRESENT \<and> frame old = frame pa))"

lemma set_leaf_ok:
  fixes pde va pa fl :: u64
  assumes inv: "pt_inv s T" and t: "T (frame pde) = Some (r, path va)" and va: "va < USER_TOP"
    and may: "may_map (rd (frame pde + 8 * idx1 va) s) va pa fl s T"
  defines "old \<equiv> rd (frame pde + 8 * idx1 va) s" and "s' \<equiv> set_leaf pde va pa fl s"
    and "e \<equiv> (pa AND PTE_PHYS_MASK) OR fl OR PAGE_PRESENT OR PAGE_USER"
  shows "leaf_update s s' T (frame pde) (idx1 va) e" and "pt_inv s' T"
    and "4096 dvd f \<Longrightarrow> managed s f \<Longrightarrow> spare s' T f = spare s T f -
      (if \<not> pmap_is_trampoline_va va \<and> f = frame pa \<and> \<not> (has old PAGE_PRESENT \<and> frame old = f) then 1 else 0)"
    and "x \<noteq> frame pde + 8 * idx1 va \<Longrightarrow> rd x s' = rd x s"
proof -
  let ?t = "frame pde" and ?i = "idx1 va"
  have pmm: "pmm_inv (pmm_of s)" using inv by (simp add: pt_inv_def)
  have fl: "fl AND PTE_PHYS_MASK = 0" and paT: "T (frame pa) = None" using may by (simp_all add: may_map_def)
  note le = leaf_entry [OF fl, of pa, folded e_def]
  have l: "leaf T ?t ?i" by (rule path_leaf [of T ?t r va, OF t])
  have tr: "tramp_slot T ?t ?i \<longleftrightarrow> pmap_is_trampoline_va va" by (rule tramp_slot_iff [of T ?t r va, OF t va])
  define drop where "drop \<longleftrightarrow> has old PAGE_PRESENT \<and> frame old \<noteq> frame pa \<and> \<not> pmap_is_trampoline_va va"
  define s1 where "s1 = (if drop then pm_release (old AND PTE_PHYS_MASK) s else s)"
  have "old AND PTE_PHYS_MASK \<noteq> pa AND PTE_PHYS_MASK \<longleftrightarrow> frame old \<noteq> frame pa"
    by (simp add: frame_def word_unat_eq_iff)
  then have s': "s' = wr (?t + 8 * ?i) e s1"
    by (simp add: s'_def set_leaf_def Let_def slot_eq old_def [symmetric] s1_def drop_def e_def)
  have rds1: "rd x s1 = rd x s" for x by (simp add: s1_def)
  show rdo: "rd x s' = rd x s" if "x \<noteq> ?t + 8 * ?i" for x using that by (simp add: s' rd_wr rds1)
  have od: "4096 dvd unat (old AND PTE_PHYS_MASK)" by (simp add: unat_masked frame_dvd)
  note rel = refs_release [OF pmm od]
  have pmm': "pmm_inv (pmm_of s')" and mx: "s_max_phys_page (pmm_of s') = s_max_phys_page (pmm_of s)"
    using rel(1,2) pmm by (simp_all add: s' s1_def)
  have refs: "refs_of s' g = (if drop \<and> g = frame old \<and> managed s g then refs_of s g - 1 else refs_of s g)"
    if "4096 dvd g" for g
  proof -
    have "refs_of s' g = refs_of s1 g" by (simp add: s' refs_of_def)
    with rel(3) [OF that] show ?thesis by (cases drop) (simp_all add: s1_def unat_masked)
  qed
  have sl: "g + 8 * j = ?t + 8 * ?i \<longleftrightarrow> g = ?t \<and> j = ?i" if "g \<in> dom T" "j < 512" for g j
    using slot_inj [OF frame_dvd [of pde] table_D(4) [OF inv, of g] idx_less(4) [of va] that(2)] that(1) by fastforce
  show lu: "leaf_update s s' T ?t ?i e"
    unfolding leaf_update_def using sl mx by (auto simp: s' rd_wr rds1) (simp_all add: s1_def)
  have oldT: "T (frame old) = None" if "has old PAGE_PRESENT"
    using inv l that by (simp add: pt_inv_def leaves_ok_def old_def)
  have ref1: "refs_of s (frame old) \<noteq> 0" if "has old PAGE_PRESENT" "managed s (frame old)"
    using mapped_held [OF inv l] that by (simp add: old_def)
  show sp: "spare s' T f = spare s T f -
      (if \<not> pmap_is_trampoline_va va \<and> f = frame pa \<and> \<not> (has old PAGE_PRESENT \<and> frame old = f) then 1 else 0)"
    if f: "4096 dvd f" "managed s f" for f
    using spare_update [OF inv lu l, of f] refs [OF f(1)] f(2) ref1 le(1,2)
    by (auto simp: counted_def tr drop_def old_def [symmetric] of_nat_diff)
  show "pt_inv s' T"
  proof (rule leaf_change [OF inv lu l pmm'])
    fix f assume "f \<in> dom T"
    then obtain x where x: "T f = Some x" by auto
    then have "held s f" using table_D(1) [OF inv, of f] by (cases x) simp
    moreover have "\<not> (drop \<and> f = frame old)" using x oldT by (auto simp: drop_def)
    ultimately show "refs_of s' f \<noteq> 0" using refs [of f] by (auto simp: held_def)
  next
    show "T (frame e) = None" using paT le(1) by simp
  next
    assume "tramp_slot T ?t ?i"
    then show "s_tramp_phys s \<noteq> 0 \<and> frame e = unat (s_tramp_phys s) \<and> \<not> has e PAGE_WRITE \<and> \<not> has e PAGE_COW"
      using may le tr by (simp add: may_map_def)
  next
    fix f assume f: "4096 dvd f" "managed s f"
    then have "0 \<le> spare s T f" using inv by (simp add: pt_inv_def)
    with sp [OF f] may f(2) show "0 \<le> spare s' T f" by (auto simp: may_map_def old_def)
  qed
qed

lemma grown_fields:
  assumes "grown s T s' T'"
  shows "s_tramp_phys s' = s_tramp_phys s" and "s_max_phys_page (pmm_of s') = s_max_phys_page (pmm_of s)"
    and "managed s' f = managed s f"
    and "4096 dvd g \<Longrightarrow> T' g \<noteq> None \<Longrightarrow> T g = None \<Longrightarrow> g \<noteq> 0 \<and> managed s g \<and> refs_of s g = 0"
    and "4096 dvd g \<Longrightarrow> T' g = None \<Longrightarrow> g \<le> x \<Longrightarrow> x < g + 4096 \<Longrightarrow> rd x s' = rd x s"
    and "T' h = Some (q, []) \<Longrightarrow> T h = Some (q, [])"
proof -
  note c1 = assms [unfolded grown_def] note c2 = c1 [THEN conjunct2] note c3 = c2 [THEN conjunct2]
  note c4 = c3 [THEN conjunct2] note c5 = c4 [THEN conjunct2] note c6 = c5 [THEN conjunct2]
  note c = c1 [THEN conjunct1] c2 [THEN conjunct1] c3 [THEN conjunct1] c4 [THEN conjunct1] c5 [THEN conjunct1] c6 [THEN conjunct1]
  show "s_tramp_phys s' = s_tramp_phys s" "s_max_phys_page (pmm_of s') = s_max_phys_page (pmm_of s)"
    using assms by (simp_all only: grown_def)
  then show "managed s' f = managed s f" by (simp add: managed_def)
  show "4096 dvd g \<Longrightarrow> T' g \<noteq> None \<Longrightarrow> T g = None \<Longrightarrow> g \<noteq> 0 \<and> managed s g \<and> refs_of s g = 0"
    using c(5) by blast
  show "4096 dvd g \<Longrightarrow> T' g = None \<Longrightarrow> g \<le> x \<Longrightarrow> x < g + 4096 \<Longrightarrow> rd x s' = rd x s"
    using c(6) by blast
  show "T' h = Some (q, []) \<Longrightarrow> T h = Some (q, [])"
    using c(2) by blast
qed

lemma old_held:
  assumes inv: "pt_inv s T" and root: "root_of T root" and va: "va < USER_TOP"
    and p: "has (user_pte root va s) PAGE_PRESENT"
  shows "managed s (frame (user_pte root va s)) \<Longrightarrow> refs_of s (frame (user_pte root va s)) \<noteq> 0"
    and "T (frame (user_pte root va s)) = None"
proof -
  obtain t where t: "T t = Some (frame root, path va)"
    using user_pte_eq(2) [OF inv root va] p not_present_0 by metis
  note e = user_pte_eq(1) [OF inv root va t] and l = path_leaf [of T t _ va, OF t]
  show "managed s (frame (user_pte root va s)) \<Longrightarrow> refs_of s (frame (user_pte root va s)) \<noteq> 0"
    using mapped_held [OF inv l] p unfolding e by blast
  show "T (frame (user_pte root va s)) = None"
    using inv l p unfolding e pt_inv_def leaves_ok_def by blast
qed

lemma may_map_grown:
  assumes inv: "pt_inv s T" and inv': "pt_inv s' T'" and g: "grown s T s' T'" and root: "root_of T root" and va: "va < USER_TOP"
    and may: "may_map (user_pte root va s) va pa fl s T"
  shows "may_map (user_pte root va s') va pa fl s' T'"
proof -
  let ?f = "frame pa"
  note fs = grown_fields [OF g]
  have ref: "refs_of s ?f \<noteq> 0" if m: "managed s ?f"
  proof -
    have sp: "0 \<le> spare s T ?f" using inv m frame_dvd by (simp add: pt_inv_def)
    show ?thesis
      using may m sp old_held(1) [OF inv root va] by (auto simp: may_map_def spare_def tramp_refs_def split: if_splits)
  qed
  have "T ?f = None" using may by (simp add: may_map_def)
  with fs(4) [OF frame_dvd [of pa]] ref have n: "T' ?f = None" by blast
  have "spare s' T' ?f = spare s T ?f" using grown_spare [OF g frame_dvd _ n] may by (simp add: may_map_def)
  with may n fs grown_view [OF inv inv' g root va] show ?thesis by (simp add: may_map_def)
qed

text \<open>The address spaces of \<open>T\<close> see in \<open>s'\<close> what they saw in \<open>s\<close>, but for the entry \<open>e\<close> at page \<open>va\<close> of \<open>root\<close>,
  and every page that holds no table has its old contents.\<close>
definition remapped :: "pmap_state \<Rightarrow> places \<Rightarrow> pmap_state \<Rightarrow> places \<Rightarrow> u64 \<Rightarrow> u64 \<Rightarrow> u64 \<Rightarrow> bool" where
  "remapped s T s' T' root va e \<longleftrightarrow> T \<subseteq>\<^sub>m T' \<and> (\<forall>root' vb. root_of T root' \<longrightarrow> vb < USER_TOP \<longrightarrow> user_pte root' vb s' =
       (if frame root' = frame root \<and> page_of vb = page_of va then e else user_pte root' vb s))
     \<and> (\<forall>f x. 4096 dvd f \<longrightarrow> T' f = None \<longrightarrow> f \<le> x \<longrightarrow> x < f + 4096 \<longrightarrow> rd x s' = rd x s)"

lemma map_walk:
  assumes inv: "pt_inv s T" and root: "root_of T root" and va: "0x1000 \<le> va" "va < USER_TOP"
    and m: "pmap_map_user_page_unlocked root va pa fl s = (res, s')"
  shows "\<exists>s1 T1. pt_inv s1 T1 \<and> grown s T s1 T1 \<and>
    (res = 0 \<and> s' = s1 \<or> (\<exists>pde. T1 (frame pde) = Some (frame root, path va) \<and> res = pa \<and> s' = set_leaf pde va pa fl s1))"
proof -
  have r: "T (frame root) = Some (frame root, [])" using root by (simp add: root_of_def)
  have g: "\<not> (root = 0 \<or> va < 0x1000 \<or> va \<ge> USER_TOP)" "\<not> idx4 va \<ge> 256"
    using root_nonzero [OF inv root] va user_idx4 [OF va(2)] by auto
  have l: "lim [] = 256" "lim [a] = 512" "lim [a, b] = 512" for a b by (simp_all add: lim_def)
  obtain o4 s4 where e4: "ensure_table False root (idx4 va) s = (o4, s4)" by (rule prod.exhaust)
  obtain T4 where T4: "pt_inv s4 T4" "grown s T s4 T4" "\<And>e. o4 = Some e \<Longrightarrow> T4 (frame e) = Some (frame root, [idx4 va])"
    using ensure_table_ok [OF inv r _ _ e4] g(2) l by auto
  show ?thesis
  proof (cases o4)
    case None
    with m g e4 have "res = 0" "s' = s4" by (simp_all add: pmap_map_user_page_unlocked_def)
    with T4 show ?thesis by blast
  next
    case (Some p4)
    obtain o3 s3 where e3: "ensure_table False p4 (idx3 va) s4 = (o3, s3)" by (rule prod.exhaust)
    obtain T3 where T3: "pt_inv s3 T3" "grown s4 T4 s3 T3" "\<And>e. o3 = Some e \<Longrightarrow> T3 (frame e) = Some (frame root, [idx4 va, idx3 va])"
      using ensure_table_ok [OF T4(1) T4(3) [OF Some] _ _ e3] l by auto
    note g3 = grown_trans [OF T4(2) T3(2)]
    show ?thesis
    proof (cases o3)
      case None
      with m g e4 e3 Some have "res = 0" "s' = s3" by (simp_all add: pmap_map_user_page_unlocked_def)
      with T3 g3 show ?thesis by blast
    next
      case p3: (Some p3)
      obtain o2 s2 where e2: "ensure_table True p3 (idx2 va) s3 = (o2, s2)" by (rule prod.exhaust)
      obtain T2 where T2: "pt_inv s2 T2" "grown s3 T3 s2 T2" "\<And>e. o2 = Some e \<Longrightarrow> T2 (frame e) = Some (frame root, path va)"
        using ensure_table_ok [OF T3(1) T3(3) [OF p3] _ _ e2] l by (auto simp: path_def)
      note g2 = grown_trans [OF g3 T2(2)]
      have "res = 0 \<and> s' = s2 \<or> (\<exists>pde. o2 = Some pde \<and> res = pa \<and> s' = set_leaf pde va pa fl s2)"
        using m g e4 e3 e2 Some p3 by (cases o2) (auto simp: pmap_map_user_page_unlocked_def)
      with T2 g2 show ?thesis by blast
    qed
  qed
qed

lemma map_ok:
  fixes root va pa fl :: u64
  assumes inv: "pt_inv s T" and root: "root_of T root" and va: "0x1000 \<le> va" "va < USER_TOP"
    and may: "may_map (user_pte root va s) va pa fl s T"
    and m: "pmap_map_user_page_unlocked root va pa fl s = (res, s')"
  defines "old \<equiv> user_pte root va s" and "e \<equiv> (pa AND PTE_PHYS_MASK) OR fl OR PAGE_PRESENT OR PAGE_USER"
  shows "\<exists>T'. pt_inv s' T' \<and> (\<forall>h q. T' h = Some (q, []) \<longrightarrow> T h = Some (q, [])) \<and>
     (res = 0 \<and> grown s T s' T' \<or>
      res = pa \<and> remapped s T s' T' root va e \<and> T' (frame pa) = None \<and> s_tramp_phys s' = s_tramp_phys s \<and>
      s_max_phys_page (pmm_of s') = s_max_phys_page (pmm_of s) \<and>
      (\<forall>f. 4096 dvd f \<longrightarrow> f \<noteq> 0 \<longrightarrow> managed s f \<longrightarrow> T' f = None \<longrightarrow> spare s' T' f = spare s T f -
        (if \<not> pmap_is_trampoline_va va \<and> f = frame pa \<and> \<not> (has old PAGE_PRESENT \<and> frame old = f) then 1 else 0)))"
proof -
  obtain s1 T1 where s1: "pt_inv s1 T1" "grown s T s1 T1" and
    c: "res = 0 \<and> s' = s1 \<or> (\<exists>pde. T1 (frame pde) = Some (frame root, path va) \<and> res = pa \<and> s' = set_leaf pde va pa fl s1)"
    using map_walk [OF inv root va m] by auto
  note gf = grown_fields [OF s1(2)]
  from c show ?thesis
  proof (elim disjE conjE exE)
    assume "res = 0" "s' = s1"
    with s1 gf(6) show ?thesis by blast
  next
    fix pde
    assume t: "T1 (frame pde) = Some (frame root, path va)" and r: "res = pa" and s': "s' = set_leaf pde va pa fl s1"
    note root1 = grown_root [OF s1(2) root]
    have o: "rd (frame pde + 8 * idx1 va) s1 = user_pte root va s1" using user_pte_eq(1) [OF s1(1) root1 va(2) t] by simp
    have old: "user_pte root va s1 = old" using grown_view [OF inv s1 root va(2)] by (simp add: old_def)
    have may1: "may_map (rd (frame pde + 8 * idx1 va) s1) va pa fl s1 T1"
      unfolding o by (rule may_map_grown [OF inv s1 root va(2) may])
    note sl = set_leaf_ok [OF s1(1) t va(2) may1, folded s' e_def, unfolded o old]
    have "remapped s T s' T1 root va e" unfolding remapped_def
    proof (intro conjI allI impI)
      show "T \<subseteq>\<^sub>m T1" by (rule grown_le [OF s1(2)])
    next
      fix root' vb assume r': "root_of T root'" and vb: "vb < USER_TOP"
      show "user_pte root' vb s' = (if frame root' = frame root \<and> page_of vb = page_of va then e else user_pte root' vb s)"
        using update_view [OF s1(1) sl(2) sl(1) t va(2) grown_root [OF s1(2) r'] vb] grown_view [OF inv s1 r' vb] by simp
    next
      fix f x assume f: "4096 dvd f" "T1 f = None" "f \<le> x" "x < f + 4096"
      have "x \<noteq> frame pde + 8 * idx1 va"
      proof
        assume x: "x = frame pde + 8 * idx1 va"
        have "frame pde = f" using slot_in_page [OF frame_dvd [of pde] f(1) idx_less(4) [of va]] f(3,4) x by blast
        with f(2) t show False by simp
      qed
      with sl(4) gf(5) [OF f] show "rd x s' = rd x s" by simp
    qed
    moreover have "T1 (frame pa) = None" using may1 by (simp add: may_map_def)
    moreover have "spare s' T1 f = spare s T f - (if \<not> pmap_is_trampoline_va va \<and> f = frame pa \<and>
        \<not> (has old PAGE_PRESENT \<and> frame old = f) then 1 else 0)"
      if f: "4096 dvd f" "f \<noteq> 0" "managed s f" "T1 f = None" for f
      using sl(3) [OF f(1)] f(3) gf(3) grown_spare [OF s1(2) f(1,2,4)] by simp
    moreover have "s_tramp_phys s' = s_tramp_phys s" "s_max_phys_page (pmm_of s') = s_max_phys_page (pmm_of s)"
      using sl(1) gf(1,2) by (simp_all add: leaf_update_def)
    ultimately show ?thesis using sl(2) gf(6) r by blast
  qed
qed

lemma map_view:
  assumes inv: "pt_inv s T" and root: "root_of T root" and va: "0x1000 \<le> va" "va < USER_TOP" and pa: "pa \<noteq> 0"
    and may: "may_map (user_pte root va s) va pa fl s T"
    and m: "pmap_map_user_page_unlocked root va pa fl s = (res, s')"
  obtains T' where "pt_inv s' T'" "\<And>r. root_of T' r \<longleftrightarrow> root_of T r" "res \<in> {0, pa}"
    "\<And>root' vb. root_of T root' \<Longrightarrow> vb < USER_TOP \<Longrightarrow> user_pte root' vb s' =
       (if res \<noteq> 0 \<and> frame root' = frame root \<and> page_of vb = page_of va
        then (pa AND PTE_PHYS_MASK) OR fl OR PAGE_PRESENT OR PAGE_USER else user_pte root' vb s)"
proof -
  let ?e = "(pa AND PTE_PHYS_MASK) OR fl OR PAGE_PRESENT OR PAGE_USER"
  have "\<exists>T'. pt_inv s' T' \<and> (\<forall>h q. T' h = Some (q, []) \<longrightarrow> T h = Some (q, [])) \<and>
      (res = 0 \<and> grown s T s' T' \<or> res = pa \<and> remapped s T s' T' root va ?e)"
    by (rule ex_forward [OF map_ok [OF inv root va may m]])
      (elim conjE disjE; (intro conjI disjI1; assumption | intro conjI disjI2; assumption))
  then obtain T' where T': "pt_inv s' T'" "\<forall>h q. T' h = Some (q, []) \<longrightarrow> T h = Some (q, [])" and
    c: "res = 0 \<and> grown s T s' T' \<or> res = pa \<and> remapped s T s' T' root va ?e"
    by (elim exE conjE)
  have le: "T \<subseteq>\<^sub>m T'" using c by (elim disjE conjE) (rule grown_le, assumption, simp only: remapped_def)
  have "root_of T' r \<longleftrightarrow> root_of T r" for r
    unfolding root_of_def using T'(2) map_leD [OF le, of "frame r"] by blast
  moreover have "user_pte root' vb s' =
       (if res \<noteq> 0 \<and> frame root' = frame root \<and> page_of vb = page_of va then ?e else user_pte root' vb s)"
    if r: "root_of T root'" "vb < USER_TOP" for root' vb
    using c
  proof (elim disjE conjE)
    assume z: "res = 0" and g: "grown s T s' T'"
    show ?thesis using grown_view [OF inv T'(1) g r] z by simp
  next
    assume "res = pa" "remapped s T s' T' root va ?e"
    then show ?thesis using r pa unfolding remapped_def by (elim conjE) simp
  qed
  ultimately show ?thesis using that [of T'] T'(1) c by blast
qed

subsection \<open>When mapping fails\<close>

lemma pm_alloc_fail:
  assumes "pmm_inv (pmm_of s)" and "pm_alloc s = (0, s1)" and "refs_of s 0 \<noteq> 0"
  shows "free_set (pmm_of s1) = {}"
proof -
  have a: "pmm_alloc_page (pmm_of s) = (0, pmm_of s1)" using assms(2) by (auto simp: pm_alloc_def split: prod.splits)
  from assms(1) show ?thesis
  proof (cases rule: alloc_page_cases)
    case fail
    have "find_order 0 (pmm_of s) > BUDDY_MAX_ORDER"
    proof (rule ccontr)
      assume "\<not> ?thesis"
      then obtain b t where "pmm_alloc_order_unlocked 0 (pmm_of s) = (b * CHIMERA_PAGE_SIZE, t)" "span b 0 \<subseteq> free_set (pmm_of s)"
        using alloc_order_success [OF assms(1), of 0] by (metis le0 not_less)
      with fail addr_not_invalid [of b] assms(3) show False
        by (auto simp: pmm_alloc_page_def span_def free_set_def refs_of_def)
    qed
    then have "\<not> {p} \<subseteq> free_set (pmm_of s)" for p
      using find_order_fails_iff [of "pmm_of s" 0] assms(1) by (auto simp: pmm_inv_def span_def)
    with a fail show ?thesis by auto
  next
    case (ok b t)
    with a have "b = 0" by simp
    with ok(2) assms(3) show ?thesis by (simp add: free_set_def refs_of_def)
  qed
qed

lemma ensure_table_fail:
  assumes inv: "pt_inv s T" and t: "T (frame table) = Some (r, p)" and p: "length p < 3" and i: "i < lim p"
    and ens: "ensure_table is_pd table i s = (res, s')" and z: "refs_of s 0 \<noteq> 0"
  shows "refs_of s' 0 \<noteq> 0" and "res = None \<Longrightarrow> free_set (pmm_of s') = {}"
proof -
  have pmm: "pmm_inv (pmm_of s)" using inv by (simp add: pt_inv_def)
  note kid = child_D [OF inv t p i]
  obtain f s1 where al: "pm_alloc s = (f, s1)" by (rule prod.exhaust)
  have z1: "refs_of s1 0 \<noteq> 0" and ff: "failed_alloc f \<longleftrightarrow> f = 0" using pmm al z
    by (cases rule: pm_alloc_cases; auto simp: failed_alloc_def PADDR_INVALID_def; metis neq0_conv le_zero_eq)+
  show "refs_of s' 0 \<noteq> 0" "res = None \<Longrightarrow> free_set (pmm_of s') = {}"
    using ens kid(1,2) al z z1 ff pm_alloc_fail [OF pmm]
    by (auto simp: ensure_table_def Let_def slot_eq refs_of_def split: if_splits)
qed

lemma map_fail:
  assumes inv: "pt_inv s T" and root: "root_of T root" and va: "0x1000 \<le> va" "va < USER_TOP"
    and m: "pmap_map_user_page_unlocked root va pa fl s = (0, s')" and pa: "pa \<noteq> 0" and z: "refs_of s 0 \<noteq> 0"
  shows "free_set (pmm_of s') = {}"
proof -
  have r: "T (frame root) = Some (frame root, [])" using root by (simp add: root_of_def)
  have g: "\<not> (root = 0 \<or> va < 0x1000 \<or> va \<ge> USER_TOP)" "\<not> idx4 va \<ge> 256"
    using root_nonzero [OF inv root] va user_idx4 [OF va(2)] by auto
  have l: "lim [] = 256" "lim [a] = 512" "lim [a, b] = 512" for a b by (simp_all add: lim_def)
  have p4: "length [] < 3" "idx4 va < lim []" using g(2) l by simp_all
  have p3: "length [idx4 va] < 3" "idx3 va < lim [idx4 va]" by (simp_all add: l)
  have p2: "length [idx4 va, idx3 va] < 3" "idx2 va < lim [idx4 va, idx3 va]" by (simp_all add: l)
  obtain o4 s4 where e4: "ensure_table False root (idx4 va) s = (o4, s4)" by (rule prod.exhaust)
  note f4 = ensure_table_fail [OF inv r p4 e4 z]
  show ?thesis
  proof (cases o4)
    case None
    with f4(2) m g e4 show ?thesis by (simp add: pmap_map_user_page_unlocked_def)
  next
    case (Some q4)
    obtain T4 where T4: "pt_inv s4 T4" "T4 (frame q4) = Some (frame root, [idx4 va])"
      using ensure_table_ok [OF inv r p4 e4] Some by auto
    obtain o3 s3 where e3: "ensure_table False q4 (idx3 va) s4 = (o3, s3)" by (rule prod.exhaust)
    note f3 = ensure_table_fail [OF T4 p3 e3 f4(1)]
    show ?thesis
    proof (cases o3)
      case None
      with f3(2) m g e4 e3 Some show ?thesis by (simp add: pmap_map_user_page_unlocked_def)
    next
      case q3: (Some q3)
      obtain T3 where T3: "pt_inv s3 T3" "T3 (frame q3) = Some (frame root, [idx4 va, idx3 va])"
        using ensure_table_ok [OF T4 p3 e3] q3 by auto
      obtain o2 s2 where e2: "ensure_table True q3 (idx2 va) s3 = (o2, s2)" by (rule prod.exhaust)
      note f2 = ensure_table_fail [OF T3 p2 e2 f3(1)]
      show ?thesis
        using f2(2) m g e4 e3 e2 Some q3 pa by (cases o2) (auto simp: pmap_map_user_page_unlocked_def)
    qed
  qed
qed

section \<open>Rewriting an entry that exists\<close>

lemma pte_cases:
  assumes "pt_inv s T" and "root_of T root" and "va < USER_TOP"
  obtains (none) "pmap_get_pte_ptr root va s = None" "user_pte root va s = 0"
  | (some) t where "T t = Some (frame root, path va)" "pmap_get_pte_ptr root va s = Some (t + 8 * idx1 va)"
      "rd (t + 8 * idx1 va) s = user_pte root va s"
  using get_pte_ptr_iff [OF assms] by (cases "pmap_get_pte_ptr root va s") (auto simp: user_pte_def)

lemma leaf_wr:
  fixes e :: u64
  assumes inv: "pt_inv s T" and t: "T t = Some (frame root, path va)" and va: "va < USER_TOP"
    and new: "has e PAGE_PRESENT \<longrightarrow> T (frame e) = None"
    and tramp: "pmap_is_trampoline_va va \<longrightarrow> has e PAGE_PRESENT \<longrightarrow> s_tramp_phys s \<noteq> 0
      \<and> frame e = unat (s_tramp_phys s) \<and> \<not> has e PAGE_WRITE \<and> \<not> has e PAGE_COW"
    and sp: "\<forall>f. 4096 dvd f \<longrightarrow> managed s f \<longrightarrow> spare s T f + int (counted T t (idx1 va) (rd (t + 8 * idx1 va) s) f)
      \<ge> int (counted T t (idx1 va) e f)"
  defines "s' \<equiv> wr (t + 8 * idx1 va) e s"
  shows "pt_inv s' T" and "spare s' T f = spare s T f + int (counted T t (idx1 va) (rd (t + 8 * idx1 va) s) f)
      - int (counted T t (idx1 va) e f)"
    and "root_of T root' \<Longrightarrow> vb < USER_TOP \<Longrightarrow> user_pte root' vb s' =
      (if frame root' = frame root \<and> page_of vb = page_of va then e else user_pte root' vb s)"
    and "4096 dvd g \<Longrightarrow> T g = None \<Longrightarrow> g \<le> x \<Longrightarrow> x < g + 4096 \<Longrightarrow> rd x s' = rd x s"
proof -
  have l: "leaf T t (idx1 va)" by (rule path_leaf [of T t _ va, OF t])
  have t4: "4096 dvd t" by (rule table_D(4) [OF inv t])
  have sl: "g + 8 * j = t + 8 * idx1 va \<longleftrightarrow> g = t \<and> j = idx1 va" if "g \<in> dom T" "j < 512" for g j
    using slot_inj [OF t4 table_D(4) [OF inv, of g] idx_less(4) [of va] that(2)] that(1) by fastforce
  have refs: "refs_of s' f = refs_of s f" for f by (simp add: s'_def refs_of_def)
  have lu: "leaf_update s s' T t (idx1 va) e"
    unfolding leaf_update_def using sl by (auto simp: s'_def rd_wr)
  show su: "spare s' T f = spare s T f + int (counted T t (idx1 va) (rd (t + 8 * idx1 va) s) f)
      - int (counted T t (idx1 va) e f)" for f
    using spare_update [OF inv lu l, of f] refs by simp
  show inv': "pt_inv s' T"
  proof (rule leaf_change [OF inv lu l])
    show "T (frame e) = None" if "has e PAGE_PRESENT" using new that by blast
    show "pmm_inv (pmm_of s')" using inv by (simp add: s'_def pt_inv_def)
    show "refs_of s' f \<noteq> 0" if "f \<in> dom T" for f
      using table_D(1) [OF inv, of f] that refs by (auto simp: held_def)
    show "0 \<le> spare s' T f" if "4096 dvd f" "managed s f" for f
      using su [of f] sp that by simp
  qed (use tramp tramp_slot_iff [of T t _ va, OF t va] in simp_all)
  show "root_of T root' \<Longrightarrow> vb < USER_TOP \<Longrightarrow> user_pte root' vb s' =
      (if frame root' = frame root \<and> page_of vb = page_of va then e else user_pte root' vb s)"
    by (rule update_view [OF inv inv' lu t va])
  assume g: "4096 dvd g" "T g = None" "g \<le> x" "x < g + 4096"
  have "x \<noteq> t + 8 * idx1 va"
    using slot_in_page [OF t4 g(1) idx_less(4) [of va]] g t by auto
  then show "rd x s' = rd x s" by (simp add: s'_def rd_wr)
qed

end
