(* ===== verification/Pmap_Range.thy ===== *)
theory Pmap_Range
  imports Pmap_Ops
begin

text \<open>
  The operations on ranges, \<^verbatim>\<open>pmap_unmap_user_range\<close> and \<^verbatim>\<open>pmap_protect_user_range\<close>, and the
  copy-on-write fault.
\<close>

unbundle bit_operations_syntax

section \<open>Loops over pages\<close>

primrec pages_from :: "u64 \<Rightarrow> nat \<Rightarrow> u64 list" where
  "pages_from va 0 = []"
| "pages_from va (Suc n) = va # pages_from (va + 4096) n"

lemma unat_add_page:
  assumes "unat (va :: u64) + 4096 * Suc n \<le> 2 ^ 47"
  shows "unat (va + 4096) = unat va + 4096" and "page_of (va + 4096) = Suc (page_of va)" and "va < USER_TOP"
proof -
  show u: "unat (va + 4096) = unat va + 4096"
    using assms by (simp add: unat_word_ariths)
  show "page_of (va + 4096) = Suc (page_of va)" by (simp add: page_of_def u)
  show "va < USER_TOP" using assms by (simp add: word_less_nat_alt USER_TOP_def)
qed

lemma va_loop_pages:
  assumes "unat va + 4096 * n = unat va_end" and "unat va_end \<le> 2 ^ 47"
  shows "va_loop body va va_end s = Some (fold body (pages_from va n) s)"
  using assms
proof (induction n arbitrary: va s)
  case 0
  then have "va = va_end" by (simp add: word_unat_eq_iff)
  then show ?case by (simp add: va_loop.simps)
next
  case (Suc n)
  then have lt: "va < va_end" by (simp add: word_less_nat_alt)
  have u: "unat (va + 4096) = unat va + 4096" by (rule unat_add_page [of va n]) (use Suc.prems in simp)
  have "va_loop body va va_end s = va_loop body (va + 4096) va_end (body va s)"
    using lt by (subst va_loop.simps) simp
  also have "\<dots> = Some (fold body (pages_from (va + 4096) n) (body va s))"
    by (rule Suc.IH) (use Suc.prems u in simp_all)
  finally show ?case by simp
qed

lemma range_ends:
  assumes "unat (va :: u64) + unat (len :: u64) + 4095 < 2 ^ 47"
  defines "n \<equiv> (unat va + unat len + 4095) div 4096 - page_of va"
  shows "unat (va AND NOT 0xFFF) + 4096 * n = unat ((va + len + 4095) AND NOT 0xFFF)"
    and "(va + len + 4095) AND NOT 0xFFF < USER_TOP" and "unat ((va + len + 4095) AND NOT 0xFFF) \<le> 2 ^ 47"
    and "page_of (va AND NOT 0xFFF) = page_of va" and "page_of va + n = (unat va + unat len + 4095) div 4096"
proof -
  have u: "unat (va + len + 4095) = unat va + unat len + 4095" using assms(1) by (simp add: unat_word_ariths)
  have a: "unat (va AND NOT 0xFFF) = page_of va * 4096"
    and b: "unat ((va + len + 4095) AND NOT 0xFFF) = (unat va + unat len + 4095) div 4096 * 4096"
    unfolding unat_page_base by (simp_all add: page_of_def u)
  have le: "page_of va \<le> (unat va + unat len + 4095) div 4096" unfolding page_of_def by (rule div_le_mono) simp
  then show "page_of va + n = (unat va + unat len + 4095) div 4096" by (simp add: n_def)
  show "unat (va AND NOT 0xFFF) + 4096 * n = unat ((va + len + 4095) AND NOT 0xFFF)"
    unfolding a b n_def using le by (simp add: algebra_simps)
  have lt: "unat ((va + len + 4095) AND NOT 0xFFF) < 2 ^ 47"
    unfolding b using assms(1) div_times_less_eq_dividend [of "unat va + unat len + 4095" 4096] by linarith
  then show "unat ((va + len + 4095) AND NOT 0xFFF) \<le> 2 ^ 47" by simp
  from lt show "(va + len + 4095) AND NOT 0xFFF < USER_TOP" unfolding word_less_nat_alt by (simp add: USER_TOP_def)
  show "page_of (va AND NOT 0xFFF) = page_of va" by (simp only: page_of_def [of "va AND NOT 0xFFF"] a)
qed

lemma user_pte_cong:
  assumes inv: "pt_inv s T" and "root_of T root" "root_of T root'" and "va < USER_TOP" "vb < USER_TOP"
    and "frame root' = frame root" and "page_of vb = page_of va"
  shows "user_pte root' vb s = user_pte root va s"
proof -
  have p: "path vb = path va" "idx1 vb = idx1 va" using same_page [OF assms(5,4)] assms(7) by auto
  show ?thesis
  proof (cases "\<exists>t. T t = Some (frame root, path va)")
    case True
    then obtain t where "T t = Some (frame root, path va)" by auto
    then show ?thesis using user_pte_eq(1) [OF inv assms(2,4)] user_pte_eq(1) [OF inv assms(3,5), of t] p assms(6) by simp
  next
    case False
    then show ?thesis using user_pte_eq(2) [OF inv assms(2,4)] user_pte_eq(2) [OF inv assms(3,5)] p assms(6) by auto
  qed
qed

section \<open>Dropping references\<close>

text \<open>A reference that no mapping owns may be dropped.\<close>
lemma release_spare:
  assumes inv: "pt_inv s T" and w: "4096 dvd unat w" and T: "T (unat w) = None"
    and sp: "managed s (unat w) \<longrightarrow> spare s T (unat w) \<ge> 1"
  shows "pt_inv (pm_release w s) T"
    and "4096 dvd f \<Longrightarrow> managed s f \<Longrightarrow> spare (pm_release w s) T f = spare s T f - (if f = unat w then 1 else 0)"
    and "user_pte root va (pm_release w s) = user_pte root va s"
proof -
  let ?s = "pm_release w s"
  have pmm: "pmm_inv (pmm_of s)" using inv by (simp add: pt_inv_def)
  note rel = refs_release [OF pmm w]
  have mg: "managed ?s f = managed s f" for f using rel(2) by (simp add: managed_def)
  have rds: "rd a ?s = rd a s" for a by simp
  have m: "mapped ?s T f = mapped s T f" for f by (simp add: mapped_def)
  show spare: "spare ?s T f = spare s T f - (if f = unat w then 1 else 0)" if f: "4096 dvd f" "managed s f" for f
  proof -
    have "spare s T f \<le> int (refs_of s f)" by (simp add: spare_def)
    then have "f = unat w \<Longrightarrow> refs_of s f \<noteq> 0" using sp f by auto
    then show ?thesis using rel(3) [OF f(1)] f(2) by (auto simp: spare_def m tramp_refs_def of_nat_diff)
  qed
  have "held ?s g" if "T g = Some x" for g x
    using table_D(1) [OF inv, of g] that T rel(3) [of g] by (cases x) (auto simp: held_def mg)
  moreover have "tables_ok s T" using inv by (simp add: pt_inv_def)
  ultimately have "tables_ok ?s T" unfolding tables_ok_def by auto
  moreover have "0 \<le> spare ?s T f" if f: "4096 dvd f" "managed s f" for f
    using spare [OF f] sp f inv by (auto simp: pt_inv_def)
  ultimately show "pt_inv ?s T"
    using inv rel(1) by (simp add: pt_inv_def children_ok_def parents_ok_def leaves_ok_def tramp_ok_def mg)
  show "user_pte root va ?s = user_pte root va s" by (simp add: user_pte_def pmap_get_pte_ptr_def Let_def)
qed

lemma release_all:
  assumes "pt_inv s T" and "\<forall>w \<in> set qs. 4096 dvd unat w \<and> T (unat w) = None"
    and "\<And>f. 4096 dvd f \<Longrightarrow> managed s f \<Longrightarrow> spare s T f \<ge> int (count_list (map unat qs) f)"
  shows "pt_inv (fold pm_release qs s) T \<and>
    (\<forall>f. 4096 dvd f \<longrightarrow> managed s f \<longrightarrow> spare (fold pm_release qs s) T f = spare s T f - int (count_list (map unat qs) f)) \<and>
    (\<forall>root va. user_pte root va (fold pm_release qs s) = user_pte root va s) \<and> (\<forall>x. rd x (fold pm_release qs s) = rd x s)
    \<and> s_max_phys_page (pmm_of (fold pm_release qs s)) = s_max_phys_page (pmm_of s)"
  using assms
proof (induction qs arbitrary: s)
  case Nil
  then show ?case by simp
next
  case (Cons w qs)
  have w: "4096 dvd unat w" "T (unat w) = None" using Cons.prems(2) by auto
  have sp: "managed s (unat w) \<longrightarrow> spare s T (unat w) \<ge> 1" using Cons.prems(3) [of "unat w"] w by fastforce
  note r = release_spare [OF Cons.prems(1) w sp]
  have pmm: "pmm_inv (pmm_of s)" using Cons.prems(1) by (simp add: pt_inv_def)
  note mx = refs_release(2) [OF pmm w(1)]
  have mg: "managed (pm_release w s) f = managed s f" for f using mx by (simp add: managed_def)
  have "spare (pm_release w s) T f \<ge> int (count_list (map unat qs) f)" if f: "4096 dvd f" "managed (pm_release w s) f" for f
    using r(2) [OF f(1)] Cons.prems(3) [OF f(1)] f(2) mg by (simp split: if_splits)
  from Cons.IH [OF r(1) _ this] Cons.prems(2) r(2,3) mg mx show ?case by auto
qed

section \<open>Updating the entries of a range\<close>

text \<open>Of the present entries of \<open>root\<close> at the pages \<open>A\<close>, \<open>e\<close> has become \<open>g e\<close>; nothing else has changed.\<close>
definition pages_updated :: "pmap_state \<Rightarrow> places \<Rightarrow> pmap_state \<Rightarrow> u64 \<Rightarrow> nat set \<Rightarrow> (u64 \<Rightarrow> u64) \<Rightarrow> bool" where
  "pages_updated s T s' root A g \<longleftrightarrow> (\<forall>root' vb. root_of T root' \<longrightarrow> vb < USER_TOP \<longrightarrow> user_pte root' vb s' =
       (if frame root' = frame root \<and> page_of vb \<in> A \<and> has (user_pte root' vb s) PAGE_PRESENT
        then g (user_pte root' vb s) else user_pte root' vb s))
     \<and> (\<forall>f x. 4096 dvd f \<longrightarrow> T f = None \<longrightarrow> f \<le> x \<longrightarrow> x < f + 4096 \<longrightarrow> rd x s' = rd x s)
     \<and> s_max_phys_page (pmm_of s') = s_max_phys_page (pmm_of s)"

lemma pages_updated_none: "pages_updated s T s root {} g"
  by (simp add: pages_updated_def)

lemma pages_updated_seq:
  assumes a: "pages_updated s T s1 root A g" and b: "pages_updated s1 T s2 root B g" and d: "A \<inter> B = {}"
  shows "pages_updated s T s2 root (A \<union> B) g"
proof -
  have "user_pte root' vb s2 = (if frame root' = frame root \<and> page_of vb \<in> A \<union> B \<and> has (user_pte root' vb s) PAGE_PRESENT
      then g (user_pte root' vb s) else user_pte root' vb s)" if "root_of T root'" "vb < USER_TOP" for root' vb
    using a b d that unfolding pages_updated_def by (auto split: if_splits)
  moreover have "rd x s2 = rd x s" if "4096 dvd f" "T f = None" "f \<le> x" "x < f + 4096" for f x
  proof -
    have "rd x s2 = rd x s1" using b that unfolding pages_updated_def by blast
    also have "\<dots> = rd x s" using a that unfolding pages_updated_def by blast
    finally show ?thesis .
  qed
  moreover have "s_max_phys_page (pmm_of s2) = s_max_phys_page (pmm_of s)" using a b by (simp add: pages_updated_def)
  ultimately show ?thesis unfolding pages_updated_def by blast
qed

text \<open>One page: the entry is rewritten in place, with \<open>g\<close> keeping the frame or clearing the entry.\<close>
lemma page_updated:
  assumes inv: "pt_inv s T" and root: "root_of T root" and va: "va < USER_TOP"
    and t: "T t = Some (frame root, path va)" and p: "has (user_pte root va s) PAGE_PRESENT"
    and e: "e = g (user_pte root va s)" and fe: "has e PAGE_PRESENT \<longrightarrow> frame e = frame (user_pte root va s)"
    and tramp: "pmap_is_trampoline_va va \<longrightarrow> \<not> has e PAGE_PRESENT \<or> \<not> has e PAGE_WRITE \<and> \<not> has e PAGE_COW"
  defines "s' \<equiv> wr (t + 8 * idx1 va) e s"
  shows "pt_inv s' T" and "pages_updated s T s' root {page_of va} g"
    and "spare s' T f = spare s T f + (if \<not> pmap_is_trampoline_va va \<and> \<not> has e PAGE_PRESENT \<and>
      f = frame (user_pte root va s) then 1 else 0)"
proof -
  let ?old = "user_pte root va s"
  have o: "rd (t + 8 * idx1 va) s = ?old" using user_pte_eq(1) [OF inv root va t] by simp
  note tr = tramp_slot_iff [of T t _ va, OF t va]
  have oT: "T (frame ?old) = None" by (rule old_held(2) [OF inv root va p])
  have l: "leaf T t (idx1 va)" by (rule path_leaf [of T t _ va, OF t])
  have new: "has e PAGE_PRESENT \<longrightarrow> T (frame e) = None" using oT fe by simp
  have tp: "pmap_is_trampoline_va va \<longrightarrow> has e PAGE_PRESENT \<longrightarrow> s_tramp_phys s \<noteq> 0
      \<and> frame e = unat (s_tramp_phys s) \<and> \<not> has e PAGE_WRITE \<and> \<not> has e PAGE_COW"
    using inv tr p tramp fe unfolding pt_inv_def tramp_ok_def by (metis o)
  have sp: "\<forall>f. 4096 dvd f \<longrightarrow> managed s f \<longrightarrow>
    spare s T f + int (counted T t (idx1 va) (rd (t + 8 * idx1 va) s) f) \<ge> int (counted T t (idx1 va) e f)"
  proof (intro allI impI)
    fix f assume that: "4096 dvd f" "managed s f"
    have "0 \<le> spare s T f" using inv that by (simp add: pt_inv_def)
    then show "int (counted T t (idx1 va) e f) \<le> spare s T f + int (counted T t (idx1 va) (rd (t + 8 * idx1 va) s) f)"
      using p fe by (auto simp: counted_def o)
  qed
  note w = leaf_wr [OF inv t va new tp sp, folded s'_def]
  show "pt_inv s' T" by (rule w(1))
  show "spare s' T f = spare s T f + (if \<not> pmap_is_trampoline_va va \<and> \<not> has e PAGE_PRESENT \<and> f = frame ?old then 1 else 0)"
    using w(2) p fe by (auto simp: counted_def tr o)
  have "user_pte root' vb s' = (if frame root' = frame root \<and> page_of vb \<in> {page_of va} \<and> has (user_pte root' vb s) PAGE_PRESENT
      then g (user_pte root' vb s) else user_pte root' vb s)" if r: "root_of T root'" "vb < USER_TOP" for root' vb
    using w(3) [OF r] user_pte_cong [OF inv root r(1) va r(2)] p e by auto
  moreover have "\<forall>f x. 4096 dvd f \<longrightarrow> T f = None \<longrightarrow> f \<le> x \<longrightarrow> x < f + 4096 \<longrightarrow> rd x s' = rd x s"
    using w(4) by blast
  ultimately show "pages_updated s T s' root {page_of va} g" unfolding pages_updated_def by (simp add: s'_def)
qed

lemma page_untouched:
  assumes inv: "pt_inv s T" and root: "root_of T root" and va: "va < USER_TOP" and p: "\<not> has (user_pte root va s) PAGE_PRESENT"
  shows "pages_updated s T s root {page_of va} g"
proof -
  have "\<not> has (user_pte root' vb s) PAGE_PRESENT"
    if "root_of T root'" "vb < USER_TOP" "frame root' = frame root" "page_of vb = page_of va" for root' vb
    using user_pte_cong [OF inv root that(1) va that(2-4)] p by simp
  then show ?thesis unfolding pages_updated_def by auto
qed

section \<open>Unmapping\<close>

definition dropped :: "places \<Rightarrow> pmap_state \<Rightarrow> pmap_state \<Rightarrow> u64 list \<Rightarrow> bool" where
  "dropped T s s' qs \<longleftrightarrow> (\<forall>w \<in> set qs. 4096 dvd unat w \<and> T (unat w) = None) \<and>
     (\<forall>f. spare s' T f = spare s T f + int (count_list (map unat qs) f))"

lemma unmap_page_ok:
  assumes inv: "pt_inv s T" and root: "root_of T root" and va: "va < USER_TOP"
    and u: "unmap_page root True va (ph, s) = (ph', s')"
  shows "pt_inv s' T \<and> pages_updated s T s' root {page_of va} (\<lambda>_. 0) \<and> (\<exists>qs. ph' = ph @ qs \<and> dropped T s s' qs)"
proof (cases "has (user_pte root va s) PAGE_PRESENT")
  case False
  then have "ph' = ph" "s' = s" using u by (auto simp: unmap_page_def user_pte_def split: option.splits)
  then show ?thesis using inv page_untouched [OF inv root va False] by (auto simp: dropped_def)
next
  case True
  let ?old = "user_pte root va s"
  obtain t where t: "T t = Some (frame root, path va)" "pmap_get_pte_ptr root va s = Some (t + 8 * idx1 va)"
      "rd (t + 8 * idx1 va) s = ?old"
    using pte_cases [OF inv root va] not_present_0 True by metis
  let ?qs = "if pmap_is_trampoline_va va then [] else [?old AND PTE_PHYS_MASK]"
  have s': "s' = wr (t + 8 * idx1 va) 0 s \<and> ph' = ph @ ?qs"
    using u t True by (auto simp: unmap_page_def Let_def split: if_splits)
  have np: "has 0 PAGE_PRESENT \<longrightarrow> P" "Q \<longrightarrow> \<not> has 0 PAGE_PRESENT \<or> P" for P Q using not_present_0 by blast+
  note pu = page_updated [where e = 0 and g = "\<lambda>_. 0", OF inv root va t(1) True refl np]
  have "T (frame ?old) = None" by (rule old_held(2) [OF inv root va True])
  then have "dropped T s s' ?qs" using pu(3) not_present_0 s' by (auto simp: dropped_def unat_masked frame_dvd)
  with pu(1,2) s' show ?thesis by blast
qed

lemma dropped_seq: "dropped T s s1 ps \<Longrightarrow> dropped T s1 s2 qs \<Longrightarrow> dropped T s s2 (ps @ qs)"
  by (auto simp: dropped_def)

lemma unmap_pages_ok:
  assumes "pt_inv s T" and "root_of T root" and "unat va + 4096 * n \<le> 2 ^ 47"
    and "fold (unmap_page root True) (pages_from va n) (ph, s) = (ph', s')"
  shows "pt_inv s' T \<and> pages_updated s T s' root {page_of va..<page_of va + n} (\<lambda>_. 0) \<and> (\<exists>qs. ph' = ph @ qs \<and> dropped T s s' qs)"
  using assms
proof (induction n arbitrary: va ph s)
  case 0
  then show ?case by (auto simp: dropped_def pages_updated_none)
next
  case (Suc n)
  note va = unat_add_page [OF Suc.prems(3)]
  obtain ph1 s1 where u: "unmap_page root True va (ph, s) = (ph1, s1)" by (rule prod.exhaust)
  from unmap_page_ok [OF Suc.prems(1,2) va(3) u] obtain qs where
    1: "pt_inv s1 T" "pages_updated s T s1 root {page_of va} (\<lambda>_. 0)" "ph1 = ph @ qs" "dropped T s s1 qs" by auto
  have "fold (unmap_page root True) (pages_from (va + 4096) n) (ph1, s1) = (ph', s')" "unat (va + 4096) + 4096 * n \<le> 2 ^ 47"
    using Suc.prems(3,4) u va(1) by simp_all
  from Suc.IH [OF 1(1) Suc.prems(2) this(2,1)] obtain rs where
    2: "pt_inv s' T" "pages_updated s1 T s' root {Suc (page_of va)..<Suc (page_of va) + n} (\<lambda>_. 0)" "ph' = ph1 @ rs" "dropped T s1 s' rs"
    unfolding va(2) by auto
  have "{page_of va} \<union> {Suc (page_of va)..<Suc (page_of va) + n} = {page_of va..<page_of va + Suc n}" by auto
  with pages_updated_seq [OF 1(2) 2(2)] have "pages_updated s T s' root {page_of va..<page_of va + Suc n} (\<lambda>_. 0)" by simp
  with 2(1,3) 1(3) dropped_seq [OF 1(4) 2(4)] show ?case by (metis append.assoc)
qed

lemma unmap_chunk_ok:
  assumes inv: "pt_inv s T" and root: "root_of T root" and va: "unat va + 4096 * n = unat va_end" "unat va_end \<le> 2 ^ 47"
  shows "\<exists>c. va_loop (unmap_page root True) va va_end ([], s) = Some c \<and> pt_inv (fold pm_release (fst c) (snd c)) T
    \<and> pages_updated s T (fold pm_release (fst c) (snd c)) root {page_of va..<page_of va + n} (\<lambda>_. 0)
    \<and> (\<forall>f. 4096 dvd f \<longrightarrow> managed s f \<longrightarrow> spare (fold pm_release (fst c) (snd c)) T f = spare s T f)"
proof -
  obtain ph s1 where f: "fold (unmap_page root True) (pages_from va n) ([], s) = (ph, s1)" by (rule prod.exhaust)
  have lp: "va_loop (unmap_page root True) va va_end ([], s) = Some (ph, s1)"
    by (simp only: va_loop_pages [OF va] f)
  have le: "unat va + 4096 * n \<le> 2 ^ 47" using va by simp
  from unmap_pages_ok [OF inv root le f] have
    1: "pt_inv s1 T" "pages_updated s T s1 root {page_of va..<page_of va + n} (\<lambda>_. 0)" "dropped T s s1 ph" by auto
  have mg: "managed s1 f = managed s f" for f using 1(2) by (simp add: pages_updated_def managed_def)
  have "spare s1 T f \<ge> int (count_list (map unat ph) f)" if "4096 dvd f" "managed s1 f" for f
    using 1(3) inv that mg by (simp add: dropped_def pt_inv_def)
  moreover have "\<forall>w \<in> set ph. 4096 dvd unat w \<and> T (unat w) = None" using 1(3) by (simp add: dropped_def)
  ultimately have 2: "pt_inv (fold pm_release ph s1) T"
    "\<forall>f. 4096 dvd f \<longrightarrow> managed s1 f \<longrightarrow> spare (fold pm_release ph s1) T f = spare s1 T f - int (count_list (map unat ph) f)"
    "\<forall>root va. user_pte root va (fold pm_release ph s1) = user_pte root va s1" "\<forall>x. rd x (fold pm_release ph s1) = rd x s1"
    "s_max_phys_page (pmm_of (fold pm_release ph s1)) = s_max_phys_page (pmm_of s1)"
    using release_all [OF 1(1), of ph] by blast+
  have "pages_updated s T (fold pm_release ph s1) root {page_of va..<page_of va + n} (\<lambda>_. 0)"
    using 1(2) 2(3-5) by (simp add: pages_updated_def)
  moreover have "spare (fold pm_release ph s1) T f = spare s T f" if "4096 dvd f" "managed s f" for f
    using 2(2) 1(3) that mg by (simp add: dropped_def)
  ultimately show ?thesis using lp 2(1) by auto
qed

lemma unmap_chunks_ok:
  assumes "pt_inv s T" and "root_of T root" and "unat va + 4096 * n = unat va_end" "unat va_end \<le> 2 ^ 47"
  shows "\<exists>s'. unmap_chunks root True va va_end s = Some s' \<and> pt_inv s' T
    \<and> pages_updated s T s' root {page_of va..<page_of va + n} (\<lambda>_. 0)
    \<and> (\<forall>f. 4096 dvd f \<longrightarrow> managed s f \<longrightarrow> spare s' T f = spare s T f)"
  using assms
proof (induction n arbitrary: va s rule: less_induct)
  case (less n)
  show ?case
  proof (cases "n = 0")
    case True
    then have "\<not> va < va_end" using less.prems(3) by (simp add: word_less_nat_alt)
    then show ?thesis using less.prems(1) True by (subst unmap_chunks.simps) (simp add: pages_updated_none)
  next
    case False
    define ce where "ce = (if va + 64 * 4096 > va_end then va_end else va + 64 * 4096)"
    have lt: "va < va_end" using less.prems(3) False by (simp add: word_less_nat_alt)
    have u: "unat (va + 64 * 4096) = unat va + 64 * 4096" using less.prems(3,4) by (simp add: unat_word_ariths)
    have ce: "unat ce = (if n < 64 then unat va_end else unat va + 64 * 4096)"
      using u less.prems(3) by (auto simp: ce_def word_less_nat_alt)
    define k where "k = (if n < 64 then n else 64)"
    have k: "unat va + 4096 * k = unat ce" "unat ce \<le> 2 ^ 47" "k \<le> n" "k \<noteq> 0" "unat ce + 4096 * (n - k) = unat va_end"
      using ce less.prems(3,4) False by (auto simp: k_def)
    obtain c where c: "va_loop (unmap_page root True) va ce ([], s) = Some c" "pt_inv (fold pm_release (fst c) (snd c)) T"
      "pages_updated s T (fold pm_release (fst c) (snd c)) root {page_of va..<page_of va + k} (\<lambda>_. 0)"
      "\<And>f. 4096 dvd f \<Longrightarrow> managed s f \<Longrightarrow> spare (fold pm_release (fst c) (snd c)) T f = spare s T f"
      using unmap_chunk_ok [OF less.prems(1,2) k(1,2)] by blast
    let ?s1 = "fold pm_release (fst c) (snd c)"
    have pc: "page_of ce = page_of va + k" using k(1) by (simp add: page_of_def flip: k(1))
    have mg: "managed ?s1 f = managed s f" for f using c(3) by (simp add: pages_updated_def managed_def)
    have "n - k < n" using k False by simp
    from less.IH [OF this c(2) less.prems(2) k(5) less.prems(4)] obtain s' where
      s': "unmap_chunks root True ce va_end ?s1 = Some s'" "pt_inv s' T"
      "pages_updated ?s1 T s' root {page_of va + k..<page_of va + k + (n - k)} (\<lambda>_. 0)"
      "\<And>f. 4096 dvd f \<Longrightarrow> managed ?s1 f \<Longrightarrow> spare s' T f = spare ?s1 T f" unfolding pc by blast
    have "{page_of va..<page_of va + k} \<union> {page_of va + k..<page_of va + k + (n - k)} = {page_of va..<page_of va + n}"
      using k(3) by auto
    with pages_updated_seq [OF c(3) s'(3)] have "pages_updated s T s' root {page_of va..<page_of va + n} (\<lambda>_. 0)" by simp
    moreover have "unmap_chunks root True va va_end s = Some s'"
      using lt c(1) s'(1) by (subst unmap_chunks.simps) (auto simp: Let_def ce_def split: if_splits)
    ultimately show ?thesis using s'(2,4) c(4) mg by auto
  qed
qed

section \<open>Protection\<close>

text \<open>The entry \<^verbatim>\<open>pmap_protect_user_range\<close> writes over a present entry.\<close>
definition protected :: "u32 \<Rightarrow> u64 \<Rightarrow> u64" where
  "protected prot e = (e AND PTE_PHYS_MASK) OR protect_flags prot"

lemma protect_flags_cases:
  "protect_flags prot \<in> {PAGE_USER OR PAGE_NX, PAGE_PRESENT OR PAGE_USER, PAGE_PRESENT OR PAGE_USER OR PAGE_WRITE,
     PAGE_PRESENT OR PAGE_USER OR PAGE_NX, PAGE_PRESENT OR PAGE_USER OR PAGE_WRITE OR PAGE_NX}"
  by (simp add: protect_flags_def Let_def flag_defs)

lemma protected_entry:
  shows "frame (protected prot e) = frame e" and "has (protected prot e) PAGE_PRESENT \<longleftrightarrow> prot \<noteq> 0"
    and "has (protected prot e) PAGE_USER" and "has (protected prot e) PAGE_WRITE \<longleftrightarrow> prot AND 2 \<noteq> 0"
    and "has (protected prot e) PAGE_NX \<longleftrightarrow> prot AND 4 = 0" and "\<not> has (protected prot e) PAGE_COW"
proof -
  have m: "(e AND PTE_PHYS_MASK) AND 1 = 0" "(e AND PTE_PHYS_MASK) AND 4 = 0" "(e AND PTE_PHYS_MASK) AND 2 = 0"
    "(e AND PTE_PHYS_MASK) AND 512 = 0" "(e AND PTE_PHYS_MASK) AND 0x8000000000000000 = 0"
    by (simp_all add: PTE_PHYS_MASK_def and.assoc)
  have "protect_flags prot AND PTE_PHYS_MASK = 0"
    using protect_flags_cases [of prot] by (auto simp: flag_defs PTE_PHYS_MASK_def)
  then show "frame (protected prot e) = frame e" unfolding protected_def by (rule frame_or)
  show "has (protected prot e) PAGE_PRESENT \<longleftrightarrow> prot \<noteq> 0" "has (protected prot e) PAGE_USER"
    "has (protected prot e) PAGE_WRITE \<longleftrightarrow> prot AND 2 \<noteq> 0"
    "has (protected prot e) PAGE_NX \<longleftrightarrow> prot AND 4 = 0" "\<not> has (protected prot e) PAGE_COW"
    by (auto simp: protected_def has_def protect_flags_def Let_def flag_defs bit.conj_disj_distrib2 m)
qed

text \<open>The trampoline page is left out, or the protection keeps it read-only.\<close>
definition tramp_safe :: "nat set \<Rightarrow> u32 \<Rightarrow> bool" where
  "tramp_safe A prot \<longleftrightarrow> page_of SIGNAL_TRAMP_VA \<notin> A \<or> prot AND 2 = 0"

lemma protect_page_ok:
  assumes inv: "pt_inv s T" and root: "root_of T root" and va: "va < USER_TOP" and ts: "tramp_safe {page_of va} prot"
  shows "pt_inv (protect_page root prot va s) T \<and> pages_updated s T (protect_page root prot va s) root {page_of va} (protected prot)
    \<and> (\<forall>f. spare (protect_page root prot va s) T f = spare s T f + (if prot = 0 \<and> \<not> pmap_is_trampoline_va va \<and>
         has (user_pte root va s) PAGE_PRESENT \<and> f = frame (user_pte root va s) then 1 else 0))"
proof (cases "has (user_pte root va s) PAGE_PRESENT")
  case False
  then have "protect_page root prot va s = s" by (auto simp: protect_page_def user_pte_def split: option.splits)
  then show ?thesis using inv page_untouched [OF inv root va False] False by simp
next
  case True
  let ?old = "user_pte root va s"
  obtain t where t: "T t = Some (frame root, path va)" "pmap_get_pte_ptr root va s = Some (t + 8 * idx1 va)"
      "rd (t + 8 * idx1 va) s = ?old"
    using pte_cases [OF inv root va] not_present_0 True by metis
  have s': "protect_page root prot va s = wr (t + 8 * idx1 va) (protected prot ?old) s"
    using t True by (simp add: protect_page_def protected_def)
  have fe: "has (protected prot ?old) PAGE_PRESENT \<longrightarrow> frame (protected prot ?old) = frame ?old" by (simp add: protected_entry)
  have tp: "pmap_is_trampoline_va va \<longrightarrow> \<not> has (protected prot ?old) PAGE_PRESENT \<or>
      \<not> has (protected prot ?old) PAGE_WRITE \<and> \<not> has (protected prot ?old) PAGE_COW"
    using ts by (auto simp: protected_entry tramp_safe_def tramp_va_iff)
  note pu = page_updated [where g = "protected prot", OF inv root va t(1) True refl fe tp]
  show ?thesis unfolding s' using pu True by (simp add: protected_entry)
qed

lemma protect_pages_ok:
  assumes "pt_inv s T" and "root_of T root" and "unat va + 4096 * n \<le> 2 ^ 47" and "tramp_safe {page_of va..<page_of va + n} prot"
    and "prot \<noteq> 0"
  shows "pt_inv (fold (protect_page root prot) (pages_from va n) s) T \<and>
    pages_updated s T (fold (protect_page root prot) (pages_from va n) s) root {page_of va..<page_of va + n} (protected prot)
    \<and> (\<forall>f. spare (fold (protect_page root prot) (pages_from va n) s) T f = spare s T f)"
  using assms
proof (induction n arbitrary: va s)
  case 0
  then show ?case by (simp add: pages_updated_none)
next
  case (Suc n)
  note va = unat_add_page [OF Suc.prems(3)]
  let ?s1 = "protect_page root prot va s"
  have ts: "tramp_safe {page_of va} prot" "tramp_safe {Suc (page_of va)..<Suc (page_of va) + n} prot"
    using Suc.prems(4) by (auto simp: tramp_safe_def)
  note 1 = protect_page_ok [OF Suc.prems(1,2) va(3) ts(1)]
  have le: "unat (va + 4096) + 4096 * n \<le> 2 ^ 47" using Suc.prems(3) va(1) by simp
  note 2 = Suc.IH [OF conjunct1 [OF 1] Suc.prems(2) le, unfolded va(2), OF ts(2) Suc.prems(5)]
  have "{page_of va} \<union> {Suc (page_of va)..<Suc (page_of va) + n} = {page_of va..<page_of va + Suc n}" by auto
  moreover have "pages_updated s T (fold (protect_page root prot) (pages_from (va + 4096) n) ?s1) root
      ({page_of va} \<union> {Suc (page_of va)..<Suc (page_of va) + n}) (protected prot)"
    by (rule pages_updated_seq [OF conjunct1 [OF conjunct2 [OF 1]] conjunct1 [OF conjunct2 [OF 2]]]) simp
  ultimately show ?case using 1 2 Suc.prems(5) by simp
qed

section \<open>Copy on write\<close>

text \<open>The entry after a copy-on-write fault that gave the page the frame of \<open>w\<close>.\<close>
definition cow_entry :: "u64 \<Rightarrow> u64 \<Rightarrow> u64" where
  "cow_entry w e = ((w AND PTE_PHYS_MASK) OR (e AND NOT PTE_PHYS_MASK) OR PAGE_WRITE) AND NOT PAGE_COW"

lemma cow_entry_same: "cow_entry e e = (e OR PAGE_WRITE) AND NOT PAGE_COW"
proof -
  have "(e AND PTE_PHYS_MASK) OR (e AND NOT PTE_PHYS_MASK) = e"
    by (rule bit_word_eqI) (auto simp: bit_simps)
  then show ?thesis by (simp add: cow_entry_def or.assoc [symmetric])
qed

lemma cow_entry:
  shows "frame (cow_entry w e) = frame w" and "has (cow_entry w e) PAGE_PRESENT \<longleftrightarrow> has e PAGE_PRESENT"
    and "has (cow_entry w e) PAGE_USER \<longleftrightarrow> has e PAGE_USER" and "has (cow_entry w e) PAGE_WRITE"
    and "\<not> has (cow_entry w e) PAGE_COW" and "has (cow_entry w e) PAGE_NX \<longleftrightarrow> has e PAGE_NX"
proof -
  have "cow_entry w e AND PTE_PHYS_MASK = w AND PTE_PHYS_MASK"
    unfolding cow_entry_def flag_defs PTE_PHYS_MASK_def
    by (simp add: bit.conj_disj_distrib2 and.assoc bit.conj_disj_distrib)
  then show "frame (cow_entry w e) = frame w" by (simp add: frame_def)
  show "has (cow_entry w e) PAGE_PRESENT \<longleftrightarrow> has e PAGE_PRESENT" "has (cow_entry w e) PAGE_USER \<longleftrightarrow> has e PAGE_USER"
    "has (cow_entry w e) PAGE_WRITE" "has (cow_entry w e) PAGE_NX \<longleftrightarrow> has e PAGE_NX" "\<not> has (cow_entry w e) PAGE_COW"
    by (simp_all add: has_def cow_entry_def bit.conj_disj_distrib2 and.assoc flag_defs PTE_PHYS_MASK_def)
qed

lemma refcount_eq: "pmm_get_refcount (frame e) (pmm_of s) = (if managed s (frame e) then refs_of s (frame e) else 0)"
  by (simp add: pmm_get_refcount_def managed_def refs_of_def Let_def)

text \<open>The fault that copies: \<open>f\<close> is the fresh frame, \<open>s1\<close> the state after its allocation.\<close>
lemma cow_copy_ok:
  fixes s1 :: pmap_state
  assumes inv: "pt_inv s T" and root: "root_of T root" and va: "va < USER_TOP"
    and t: "T t = Some (frame root, path va)" and p: "has (user_pte root va s) PAGE_PRESENT"
    and c: "has (user_pte root va s) PAGE_COW"
    and rc: "managed s (frame (user_pte root va s))" "refs_of s (frame (user_pte root va s)) > 1"
    and al: "pm_alloc s = (f, s1)" and f: "f \<noteq> 0"
  defines "old \<equiv> user_pte root va s"
  defines "s' \<equiv> wr (t + 8 * idx1 va) (cow_entry (word_of_nat f) old)
      (pm_release (old AND PTE_PHYS_MASK) (copy_page f (frame old) s1))"
  shows "pt_inv s' T" and "managed s f" and "refs_of s f = 0" and "4096 dvd f"
    and "root_of T root' \<Longrightarrow> vb < USER_TOP \<Longrightarrow> user_pte root' vb s' =
      (if frame root' = frame root \<and> page_of vb = page_of va then cow_entry (word_of_nat f) old else user_pte root' vb s)"
    and "4096 dvd g \<Longrightarrow> managed s g \<Longrightarrow> spare s' T g = spare s T g"
    and "x < 4096 \<Longrightarrow> rd (f + x) s' = rd (frame old + x) s"
    and "4096 dvd g \<Longrightarrow> T g = None \<Longrightarrow> g \<noteq> f \<Longrightarrow> x < 4096 \<Longrightarrow> rd (g + x) s' = rd (g + x) s"
proof -
  let ?i = "idx1 va" and ?e = "cow_entry (word_of_nat f) old"
  have pmm: "pmm_inv (pmm_of s)" using inv by (simp add: pt_inv_def)
  have ok: "4096 dvd f" "f < 2 ^ 52" "managed s f" "refs_of s f = 0" "pmm_inv (pmm_of s1)"
    "\<And>g. 4096 dvd g \<Longrightarrow> refs_of s1 g = (if g = f then 1 else refs_of s g)"
    using pmm al by (cases rule: pm_alloc_cases; use f in simp)+
  note al' = pm_alloc_fields [OF al pmm]
  have o: "rd (t + 8 * ?i) s = old" using user_pte_eq(1) [OF inv root va t] by (simp add: old_def)
  have l: "leaf T t ?i" by (rule path_leaf [of T t _ va, OF t])
  note tr = tramp_slot_iff [of T t _ va, OF t va]
  have nt: "\<not> pmap_is_trampoline_va va"
    using inv l tr c p o unfolding pt_inv_def tramp_ok_def old_def by metis
  have fT: "T f = None" by (rule free_frame(1) [OF inv ok(1,3,4)])
  have oT: "T (frame old) = None" using old_held(2) [OF inv root va p] by (simp add: old_def)
  have of: "frame old \<noteq> f" using rc ok(4) by (auto simp: old_def)
  have t4: "4096 dvd t" by (rule table_D(4) [OF inv t])
  have tf: "t \<noteq> f" using t fT by auto
  have sl: "g + 8 * j = t + 8 * ?i \<longleftrightarrow> g = t \<and> j = ?i" if "g \<in> dom T" "j < 512" for g j
    using slot_inj [OF t4 table_D(4) [OF inv, of g] idx_less(4) [of va] that(2)] that(1) by fastforce
  let ?s2 = "copy_page f (frame old) s1"
  have od: "4096 dvd unat (old AND PTE_PHYS_MASK)" by (simp add: unat_masked frame_dvd)
  note rel = refs_release [of ?s2, OF _ od, simplified store_fields, OF ok(5)]
  have mg2: "managed ?s2 g = managed s g" for g using al'(3) by (simp add: managed_def)
  have refs: "refs_of s' g = (if g = f then 1 else if g = frame old then refs_of s g - 1 else refs_of s g)" if "4096 dvd g" for g
  proof -
    have "refs_of s' g = refs_of (pm_release (old AND PTE_PHYS_MASK) ?s2) g" by (simp add: s'_def refs_of_def)
    also have "\<dots> = (if g = frame old \<and> managed s g then refs_of ?s2 g - 1 else refs_of ?s2 g)"
      using rel(3) [OF that] by (simp add: unat_masked mg2)
    also have "refs_of ?s2 g = refs_of s1 g" by (simp add: refs_of_def)
    finally show ?thesis using ok(6) [OF that] of rc by (auto simp: old_def)
  qed
  have rds: "rd x s' = (if x = t + 8 * ?i then ?e else if f \<le> x \<and> x < f + 4096 then rd (x - f + frame old) s else rd x s)" for x
    by (simp add: s'_def rd_wr rd_copy_page al'(1))
  have outf: "\<not> (f \<le> g + x \<and> g + x < f + 4096)" if "4096 dvd g" "g \<noteq> f" "x < 4096" for g x
  proof
    assume a: "f \<le> g + x \<and> g + x < f + 4096"
    then have "g + x - f < 4096" by linarith
    then have "(g + x) div 4096 * 4096 = f" using slot_page [OF ok(1), of "g + x - f"] a by simp
    with slot_page [OF that(1,3)] that(2) show False by simp
  qed
  have inT: "g + x \<noteq> t + 8 * ?i" if "4096 dvd g" "g \<noteq> t" "x < 4096" for g x
    using slot_page [OF that(1,3)] slot_page [OF t4, of "8 * ?i"] that(2) idx_less(4) [of va] by auto
  show "rd (f + x) s' = rd (frame old + x) s" if "x < 4096" for x
    using that inT [OF ok(1) tf [symmetric] that] by (simp add: rds add.commute)
  show "rd (g + x) s' = rd (g + x) s" if "4096 dvd g" "T g = None" "g \<noteq> f" "x < 4096" for g x
  proof -
    have "g \<noteq> t" using that(2) t by auto
    from inT [OF that(1) this that(4)] outf [OF that(1,3,4)] show ?thesis by (auto simp: rds)
  qed
  have fe: "frame ?e = f" by (simp add: cow_entry frame_of_nat [OF ok(1,2)])
  have mx: "s_max_phys_page (pmm_of s') = s_max_phys_page (pmm_of s)" using rel(2) al'(3) by (simp add: s'_def)
  have lu: "leaf_update s s' T t ?i ?e" unfolding leaf_update_def
  proof (intro conjI allI impI)
    fix g j :: nat assume g: "g \<in> dom T" "j < 512"
    then have g4: "4096 dvd g" using table_D(4) [OF inv, of g] by auto
    have "g \<noteq> f" using g(1) fT by auto
    then show "rd (g + 8 * j) s' = (if g = t \<and> j = ?i then ?e else rd (g + 8 * j) s)"
      using outf [OF g4, of "8 * j"] sl [OF g] g(2) by (auto simp: rds)
  qed (use mx al' in \<open>simp_all add: s'_def\<close>)
  have ep: "has ?e PAGE_PRESENT" using p by (simp add: cow_entry old_def)
  show sp: "spare s' T g = spare s T g" if g: "4096 dvd g" "managed s g" for g
    using spare_update [OF inv lu l, of g] refs [OF g(1)] o p ep fe of nt tr ok(4) rc
    by (auto simp: counted_def old_def of_nat_diff)
  show inv': "pt_inv s' T"
  proof (rule leaf_change [OF inv lu l])
    show "pmm_inv (pmm_of s')" using rel(1) by (simp add: s'_def)
    show "refs_of s' g \<noteq> 0" if g: "g \<in> dom T" for g
    proof -
      obtain x where x: "T g = Some x" using g by auto
      then have "held s g" using table_D(1) [OF inv, of g] by (cases x) simp
      then show ?thesis using refs [of g] x oT by (auto simp: held_def)
    qed
    show "T (frame ?e) = None" using fT fe by simp
    show "0 \<le> spare s' T g" if "4096 dvd g" "managed s g" for g
      using sp [OF that] inv that by (simp add: pt_inv_def)
  qed (use nt tr in simp)
  show "root_of T root' \<Longrightarrow> vb < USER_TOP \<Longrightarrow> user_pte root' vb s' =
      (if frame root' = frame root \<and> page_of vb = page_of va then ?e else user_pte root' vb s)"
    by (rule update_view [OF inv inv' lu t va])
  show "managed s f" "refs_of s f = 0" "4096 dvd f" by (rule ok)+
qed

lemma wr_twice: "wr a v (wr a u s) = wr a v s"
  by (simp add: wr_def poke_def)

lemma cow_call:
  assumes p: "pmap_get_pte_ptr root va s = Some a" "rd a s = e" and e: "has e PAGE_PRESENT" "has e PAGE_COW"
    and r: "root \<noteq> 0" "va < USER_TOP"
  shows "\<not> (managed s (frame e) \<and> refs_of s (frame e) > 1) \<Longrightarrow>
      pmap_handle_cow_fault root va s = (True, wr a (cow_entry e e) s)"
    and "managed s (frame e) \<Longrightarrow> refs_of s (frame e) > 1 \<Longrightarrow> pm_alloc s = (f, s1) \<Longrightarrow> failed_alloc f \<Longrightarrow>
      pmap_handle_cow_fault root va s = (False, s1)"
    and "managed s (frame e) \<Longrightarrow> refs_of s (frame e) > 1 \<Longrightarrow> pm_alloc s = (f, s1) \<Longrightarrow> \<not> failed_alloc f \<Longrightarrow>
      unat (word_of_nat f AND PTE_PHYS_MASK) = f \<Longrightarrow> rd a s1 = e \<Longrightarrow> \<not> (f \<le> a \<and> a < f + 4096) \<Longrightarrow>
      pmap_handle_cow_fault root va s = (True, wr a (cow_entry (word_of_nat f) e)
        (pm_release (e AND PTE_PHYS_MASK) (copy_page f (frame e) s1)))"
proof -
  have g: "\<not> (root = 0 \<or> va \<ge> USER_TOP)" "\<not> (\<not> has e PAGE_PRESENT \<or> \<not> has e PAGE_COW)" using r e by auto
  note d = pmap_handle_cow_fault_def [of root va s] p g
  have rc: "pmm_get_refcount (unat (e AND PTE_PHYS_MASK)) (pmm_of s) > 1 \<longleftrightarrow> managed s (frame e) \<and> refs_of s (frame e) > 1"
    by (simp add: unat_masked refcount_eq)
  show "pmap_handle_cow_fault root va s = (True, wr a (cow_entry e e) s)"
    if "\<not> (managed s (frame e) \<and> refs_of s (frame e) > 1)"
    by (simp only: d if_False option.case Let_def rc that cow_entry_same)
  show "pmap_handle_cow_fault root va s = (False, s1)"
    if "managed s (frame e)" "refs_of s (frame e) > 1" "pm_alloc s = (f, s1)" "failed_alloc f"
    by (simp only: d if_False option.case Let_def rc that if_True simp_thms prod.case)
  show "pmap_handle_cow_fault root va s = (True, wr a (cow_entry (word_of_nat f) e)
      (pm_release (e AND PTE_PHYS_MASK) (copy_page f (frame e) s1)))"
    if "managed s (frame e)" "refs_of s (frame e) > 1" "pm_alloc s = (f, s1)" "\<not> failed_alloc f"
      "unat (word_of_nat f AND PTE_PHYS_MASK) = f" "rd a s1 = e" "\<not> (f \<le> a \<and> a < f + 4096)"
  proof -
    have "rd a (pm_release (e AND PTE_PHYS_MASK) (copy_page f (frame e) s1)) = e" using that(6,7) by (auto simp: rd_copy_page)
    then show ?thesis
      by (simp only: d if_False option.case Let_def rc that if_True simp_thms prod.case unat_masked [of e] rd_wr wr_twice cow_entry_def
          rc [unfolded unat_masked])
  qed
qed

text \<open>The fault on a frame nobody else uses.\<close>
lemma cow_in_place:
  assumes inv: "pt_inv s T" and root: "root_of T root" and va: "va < USER_TOP"
    and t: "T t = Some (frame root, path va)" and p: "has (user_pte root va s) PAGE_PRESENT"
    and nt: "\<not> pmap_is_trampoline_va va"
  defines "e \<equiv> user_pte root va s"
  defines "s' \<equiv> wr (t + 8 * idx1 va) (cow_entry e e) s"
  shows "pt_inv s' T" and "spare s' T f = spare s T f"
    and "root_of T root' \<Longrightarrow> vb < USER_TOP \<Longrightarrow> user_pte root' vb s' =
      (if frame root' = frame root \<and> page_of vb = page_of va then cow_entry e e else user_pte root' vb s)"
    and "4096 dvd g \<Longrightarrow> T g = None \<Longrightarrow> x < 4096 \<Longrightarrow> rd (g + x) s' = rd (g + x) s"
proof -
  have fe: "has (cow_entry e e) PAGE_PRESENT \<longrightarrow> frame (cow_entry e e) = frame (user_pte root va s)" by (simp add: cow_entry e_def)
  have tp: "pmap_is_trampoline_va va \<longrightarrow> P" for P using nt by simp
  have e_def': "e = user_pte root va s" by (simp add: e_def)
  note pu = page_updated [where g = "\<lambda>e. cow_entry e e" and e = "cow_entry e e", OF inv root va t p _ fe tp, folded s'_def, OF arg_cong2 [where f = cow_entry, OF e_def' e_def']]
  show "pt_inv s' T" by (rule pu(1))
  show "spare s' T f = spare s T f" using pu(3) p by (simp add: cow_entry e_def)
  show "user_pte root' vb s' = (if frame root' = frame root \<and> page_of vb = page_of va then cow_entry e e else user_pte root' vb s)"
    if r: "root_of T root'" "vb < USER_TOP"
    using pu(2) r user_pte_cong [OF inv root r(1) va r(2)] p unfolding pages_updated_def by (elim conjE) (auto simp: e_def)
  show "rd (g + x) s' = rd (g + x) s" if "4096 dvd g" "T g = None" "x < 4096"
    using pu(2) that unfolding pages_updated_def by (elim conjE) simp
qed

section \<open>The copy-on-write fault\<close>

text \<open>
  What a call of \<^verbatim>\<open>pmap_handle_cow_fault\<close> does, case by case: it refuses a page that is not copy on write,
  makes a page writable in place when nobody else refers to it, gives up without memory, and copies otherwise.
\<close>


definition cow_shared :: "pmap_state \<Rightarrow> u64 \<Rightarrow> bool" where
  "cow_shared s e \<longleftrightarrow> managed s (frame e) \<and> refs_of s (frame e) > 1"

definition cow_effect :: "pmap_state \<Rightarrow> places \<Rightarrow> u64 \<Rightarrow> u64 \<Rightarrow> bool \<Rightarrow> pmap_state \<Rightarrow> bool" where
  "cow_effect s T root va ok s' \<longleftrightarrow> (let e = user_pte root va s; e' = user_pte root va s' in
     pt_inv s' T \<and> (\<forall>f. 4096 dvd f \<longrightarrow> f \<noteq> 0 \<longrightarrow> managed s f \<longrightarrow> spare s' T f = spare s T f) \<and>
     (ok \<longrightarrow> has e PAGE_COW \<and> has e' PAGE_PRESENT \<and> has e' PAGE_WRITE \<and> \<not> has e' PAGE_COW \<and>
       has e' PAGE_NX = has e PAGE_NX \<and> (\<forall>x < 4096. rd (frame e' + x) s' = rd (frame e + x) s) \<and>
       (if cow_shared s e then managed s (frame e') \<and> refs_of s (frame e') = 0 else frame e' = frame e)) \<and>
     (\<forall>root' vb. root_of T root' \<longrightarrow> vb < USER_TOP \<longrightarrow>
       \<not> (ok \<and> frame root' = frame root \<and> page_of vb = page_of va) \<longrightarrow> user_pte root' vb s' = user_pte root' vb s) \<and>
     (\<forall>g x. 4096 dvd g \<longrightarrow> T g = None \<longrightarrow> x < 4096 \<longrightarrow> \<not> (ok \<and> g = frame e') \<longrightarrow> rd (g + x) s' = rd (g + x) s) \<and>
     s_tramp_phys s' = s_tramp_phys s \<and> s_max_phys_page (pmm_of s') = s_max_phys_page (pmm_of s))"

lemma cow_slot:
  assumes inv: "pt_inv s T" and root: "root_of T root" and va: "va < USER_TOP"
    and e: "has (user_pte root va s) PAGE_PRESENT" "has (user_pte root va s) PAGE_COW"
  obtains t where "T t = Some (frame root, path va)" "pmap_get_pte_ptr root va s = Some (t + 8 * idx1 va)"
    "rd (t + 8 * idx1 va) s = user_pte root va s" "\<not> pmap_is_trampoline_va va" "\<not> tramp_slot T t (idx1 va)"
proof -
  obtain t where t: "T t = Some (frame root, path va)" "pmap_get_pte_ptr root va s = Some (t + 8 * idx1 va)"
    "rd (t + 8 * idx1 va) s = user_pte root va s"
    using pte_cases [OF inv root va] not_present_0 e(1) by metis
  have "\<not> tramp_slot T t (idx1 va)" using inv e t(3) unfolding pt_inv_def tramp_ok_def by metis
  with t tramp_slot_iff [of T t _ va, OF t(1) va] that show ?thesis by blast
qed

lemma cow_refused:
  assumes inv: "pt_inv s T" and root: "root_of T root" and va: "va < USER_TOP"
    and e: "\<not> (has (user_pte root va s) PAGE_PRESENT \<and> has (user_pte root va s) PAGE_COW)"
    and call: "pmap_handle_cow_fault root va s = (ok, s')"
  shows "cow_effect s T root va ok s'"
proof -
  have "root \<noteq> 0" "\<not> va \<ge> USER_TOP" using root_nonzero [OF inv root] va by auto
  then have "ok = False" "s' = s"
    using call [unfolded pmap_handle_cow_fault_def] e by (auto simp: user_pte_def split: option.splits)
  then show ?thesis using inv by (simp add: cow_effect_def Let_def)
qed

lemma cow_private:
  assumes inv: "pt_inv s T" and root: "root_of T root" and va: "va < USER_TOP"
    and e: "has (user_pte root va s) PAGE_PRESENT" "has (user_pte root va s) PAGE_COW"
    and p: "\<not> cow_shared s (user_pte root va s)" and call: "pmap_handle_cow_fault root va s = (ok, s')"
  shows "cow_effect s T root va ok s'"
proof -
  let ?e = "user_pte root va s"
  obtain t where t: "T t = Some (frame root, path va)" "pmap_get_pte_ptr root va s = Some (t + 8 * idx1 va)"
    "rd (t + 8 * idx1 va) s = ?e" "\<not> pmap_is_trampoline_va va" by (rule cow_slot [OF inv root va e])
  have s': "ok" "s' = wr (t + 8 * idx1 va) (cow_entry ?e ?e) s"
    using cow_call(1) [OF t(2,3) e root_nonzero [OF inv root] va p [unfolded cow_shared_def]] call by simp_all
  note c = cow_in_place [OF inv root va t(1) e(1) t(4), folded s'(2)]
  have e': "user_pte root va s' = cow_entry ?e ?e" using c(3) [OF root va] by simp
  have f: "s_tramp_phys s' = s_tramp_phys s" "pmm_of s' = pmm_of s" by (simp_all add: s'(2))
  show ?thesis
    using c(1,2) s'(1) e p e' f c(3) c(4) [OF frame_dvd old_held(2) [OF inv root va e(1)]] c(4)
    by (simp add: cow_effect_def Let_def cow_entry)
qed

lemma cow_no_memory:
  assumes inv: "pt_inv s T" and root: "root_of T root" and va: "va < USER_TOP"
    and e: "has (user_pte root va s) PAGE_PRESENT" "has (user_pte root va s) PAGE_COW"
    and p: "cow_shared s (user_pte root va s)" and al: "pm_alloc s = (0, s1)"
    and call: "pmap_handle_cow_fault root va s = (ok, s')"
  shows "cow_effect s T root va ok s'"
proof -
  let ?e = "user_pte root va s"
  have pmm: "pmm_inv (pmm_of s)" using inv by (simp add: pt_inv_def)
  obtain t where t: "pmap_get_pte_ptr root va s = Some (t + 8 * idx1 va)" "rd (t + 8 * idx1 va) s = ?e"
    by (rule cow_slot [OF inv root va e])
  note fl = pm_alloc_fields [OF al pmm]
  have s': "\<not> ok" "s' = s1"
    using cow_call(2) [OF t e root_nonzero [OF inv root] va _ _ al] p call by (simp_all add: failed_alloc_def cow_shared_def)
  have fr: "pmm_inv (pmm_of s1)" "\<And>g. refs_of s g \<le> refs_of s1 g" "\<And>g. 4096 dvd g \<Longrightarrow> g \<noteq> 0 \<Longrightarrow> refs_of s1 g = refs_of s g"
    using pmm al by (cases rule: pm_alloc_cases; simp)+
  have "pt_inv s1 T" by (rule pt_inv_same_tables [OF inv]) (use fr fl in auto)
  moreover have "user_pte root' vb s1 = user_pte root' vb s" for root' vb
    by (simp add: user_pte_def pmap_get_pte_ptr_def Let_def fl)
  moreover have "spare s1 T g = spare s T g" if "4096 dvd g" "g \<noteq> 0" for g
    using fr(3) [OF that] by (simp add: spare_def mapped_def tramp_refs_def fl)
  ultimately show ?thesis using s' fl by (simp add: cow_effect_def Let_def)
qed

lemma cow_copied:
  assumes inv: "pt_inv s T" and root: "root_of T root" and va: "va < USER_TOP"
    and e: "has (user_pte root va s) PAGE_PRESENT" "has (user_pte root va s) PAGE_COW"
    and p: "cow_shared s (user_pte root va s)" and al: "pm_alloc s = (f, s1)" and nz: "f \<noteq> 0"
    and call: "pmap_handle_cow_fault root va s = (ok, s')"
  shows "cow_effect s T root va ok s'"
proof -
  let ?e = "user_pte root va s"
  have pmm: "pmm_inv (pmm_of s)" using inv by (simp add: pt_inv_def)
  obtain t where t: "T t = Some (frame root, path va)" "pmap_get_pte_ptr root va s = Some (t + 8 * idx1 va)"
    "rd (t + 8 * idx1 va) s = ?e" by (rule cow_slot [OF inv root va e])
  note fl = pm_alloc_fields [OF al pmm] and sh = p [unfolded cow_shared_def, THEN conjunct1] p [unfolded cow_shared_def, THEN conjunct2]
  have ok: "4096 dvd f" "f < 2 ^ 52" "\<not> failed_alloc f" "pmm_inv (pmm_of s1)" using pmm al by (cases rule: pm_alloc_cases; use nz in simp)+
  have fw: "unat (word_of_nat f AND PTE_PHYS_MASK) = f" using frame_of_nat [OF ok(1,2)] by (simp add: frame_def)
  note c = cow_copy_ok [OF inv root va t(1) e sh al nz]
  have tf: "t \<noteq> f" using table_D(1) [OF inv t(1)] c(3) by (auto simp: held_def)
  have "\<not> (f \<le> t + 8 * idx1 va \<and> t + 8 * idx1 va < f + 4096)"
    using slot_in_page [OF table_D(4) [OF inv t(1)] ok(1) idx_less(4) [of va]] tf by blast
  then have s': "ok" "s' = wr (t + 8 * idx1 va) (cow_entry (word_of_nat f) ?e)
      (pm_release (?e AND PTE_PHYS_MASK) (copy_page f (frame ?e) s1))"
    using cow_call(3) [OF t(2,3) e root_nonzero [OF inv root] va sh al ok(3) fw] fl(1) t(3) call by simp_all
  note c = c [folded s'(2)]
  have e': "user_pte root va s' = cow_entry (word_of_nat f) ?e" using c(5) [OF root va] by simp
  then have "frame (user_pte root va s') = f" by (simp add: cow_entry frame_of_nat [OF ok(1,2)])
  moreover have "s_tramp_phys s' = s_tramp_phys s" "s_max_phys_page (pmm_of s') = s_max_phys_page (pmm_of s)"
    using fl pmm.release_npages [OF ok(4)] by (simp_all add: s'(2))
  ultimately show ?thesis using c(1-3,5-8) s'(1) e p e' by (simp add: cow_effect_def Let_def cow_entry)
qed

lemma cow_fault_effect:
  assumes "pt_inv s T" and "root_of T root" and "va < USER_TOP" and "pmap_handle_cow_fault root va s = (ok, s')"
  shows "cow_effect s T root va ok s'"
proof (cases "has (user_pte root va s) PAGE_PRESENT \<and> has (user_pte root va s) PAGE_COW")
  case e: True
  obtain f s1 where al: "pm_alloc s = (f, s1)" by (rule prod.exhaust)
  with e assms show ?thesis
    by (cases "cow_shared s (user_pte root va s)"; cases "f = 0") (auto intro: cow_private cow_no_memory cow_copied)
qed (rule cow_refused [OF assms(1-3) _ assms(4)])

end
