(* ===== verification/Pmap_Props.thy ===== *)
theory Pmap_Props
  imports Pmap_Range Pmm_Props
begin

text \<open>
  The properties of the page tables: mapping, unmapping, protection and copy on write change exactly
  the translations they are asked to change, in every address space, and account for every reference
  to a physical page.
\<close>

unbundle bit_operations_syntax

section \<open>A small address space\<close>

text \<open>Eight pages of memory, pages 4 to 7 free; page 1 is an empty PML4, page 2 belongs to the caller.\<close>
definition demo_pmap :: pmap_state where
  "demo_pmap = \<lparr>pk = \<lparr>km_pmm = demo_pmm, km_mem = (\<lambda>_. 0), km_hhdm = 0x10000000, s_zone_table = [], s_zone_initialized = True\<rparr>,
     s_kernel_pml4_phys = 0x3000, s_tramp_phys = 0, cpu_cr3 = 0x3000, cpu_id = 0, cpu_active_cr3 = (\<lambda>_. 0x3000)\<rparr>"

definition demo_places :: places where
  "demo_places = [0x1000 \<mapsto> (0x1000, [])]"

lemma demo_frames: "frame 0x1000 = 0x1000" "frame 0x2000 = 0x2000"
  by (simp_all add: frame_eq)

lemma demo_refs: "refs_of demo_pmap 0x1000 \<noteq> 0" "refs_of demo_pmap 0x2000 \<noteq> 0" "refs_of demo_pmap 0 \<noteq> 0"
  "managed demo_pmap f \<longleftrightarrow> f div 4096 < 8"
proof -
  have "p \<notin> free_set demo_pmm \<Longrightarrow> p < 8 \<Longrightarrow> ref_counts demo_pmm p \<noteq> 0" for p
    using demo_pmm_inv(3) by (simp add: free_set_def)
  from this [of 0] this [of 1] this [of 2] show "refs_of demo_pmap 0x1000 \<noteq> 0" "refs_of demo_pmap 0x2000 \<noteq> 0" "refs_of demo_pmap 0 \<noteq> 0"
    by (simp_all add: refs_of_def demo_pmap_def demo_pmm_inv(2))
  show "managed demo_pmap f \<longleftrightarrow> f div 4096 < 8" by (simp add: managed_def demo_pmap_def demo_pmm_inv(3))
qed

lemma demo_inv: "pt_inv demo_pmap demo_places" "root_of demo_places 0x1000" "spare demo_pmap demo_places 0x2000 \<ge> 1"
  "user_pte 0x1000 va demo_pmap = 0"
proof -
  have rd0: "rd a demo_pmap = 0" for a by (simp add: rd_def demo_pmap_def)
  have m: "mapped demo_pmap demo_places f = {}" for f by (simp add: mapped_def rd0 not_present_0)
  have t: "s_tramp_phys demo_pmap = 0" by (simp add: demo_pmap_def)
  have sp: "spare demo_pmap demo_places f = int (refs_of demo_pmap f)" for f by (simp add: spare_def m tramp_refs_def t)
  have T: "demo_places f = Some x \<longleftrightarrow> f = 0x1000 \<and> x = (0x1000, [])" for f x by (auto simp: demo_places_def)
  have "pmm_inv (pmm_of demo_pmap)" using demo_pmm_inv(1) by (simp add: demo_pmap_def)
  moreover have "held demo_pmap 0x1000" using demo_refs(1) by (simp add: held_def demo_refs(4))
  ultimately show "pt_inv demo_pmap demo_places"
    by (auto simp: pt_inv_def pt_parts T rd0 not_present_0 sp t)
  show "root_of demo_places 0x1000" by (simp add: root_of_def demo_frames demo_places_def)
  show "spare demo_pmap demo_places 0x2000 \<ge> 1" using demo_refs(2) by (simp add: sp)
  show "user_pte 0x1000 va demo_pmap = 0" by (simp add: user_pte_def rd0 split: option.splits)
qed

lemma demo_may_map: "may_map 0 0x400000 0x2000 PAGE_WRITE demo_pmap demo_places"
  using demo_inv(3)
  by (simp add: may_map_def demo_frames demo_places_def flag_defs PTE_PHYS_MASK_def pmap_is_trampoline_va_def SIGNAL_TRAMP_VA_def)

text \<open>Sixteen pages of memory, pages 12 to 15 free; pages 1 to 4 are the tables of an address space that maps page 5
  at address 0x400000, copy on write, and pages 6 to 9 those of its copy after a fork; page 5 has two references.\<close>
definition demo_pmm16 :: pmm where
  "demo_pmm16 = pmm_retain_page 0x5000 (fold (free_one_page 0 0) [12, 13, 14, 15] (demo0\<lparr>s_max_phys_page := 16\<rparr>))"

definition demo_entry :: "nat \<Rightarrow> u64" where
  "demo_entry a = (if a = 0x1000 then 0x2007 else if a = 0x2000 then 0x3007 else if a = 0x3010 then 0x4007
     else if a = 0x4000 then 0x5205 else if a = 0x6000 then 0x7007 else if a = 0x7000 then 0x8007 else if a = 0x8010 then 0x9007
     else if a = 0x9000 then 0x5205 else 0)"

definition demo_cow :: pmap_state where
  "demo_cow = \<lparr>pk = \<lparr>km_pmm = demo_pmm16, km_mem = demo_entry, km_hhdm = 0, s_zone_table = [], s_zone_initialized = True\<rparr>,
     s_kernel_pml4_phys = 0xA000, s_tramp_phys = 0, cpu_cr3 = 0xA000, cpu_id = 0, cpu_active_cr3 = (\<lambda>_. 0xA000)\<rparr>"

definition demo_tables :: places where
  "demo_tables = [0x1000 \<mapsto> (0x1000, []), 0x2000 \<mapsto> (0x1000, [0]), 0x3000 \<mapsto> (0x1000, [0, 0]), 0x4000 \<mapsto> (0x1000, [0, 0, 2]),
     0x6000 \<mapsto> (0x6000, []), 0x7000 \<mapsto> (0x6000, [0]), 0x8000 \<mapsto> (0x6000, [0, 0]), 0x9000 \<mapsto> (0x6000, [0, 0, 2])]"

lemma demo_pmm16_inv: "pmm_inv demo_pmm16" "s_max_phys_page demo_pmm16 = 16"
  "ref_counts demo_pmm16 p = (if p \<in> {12, 13, 14, 15} then 0 else if p < 16 then (if p = 5 then 2 else 1) else ref_counts demo_pmm16 p)"
proof -
  define d where "d = demo0\<lparr>s_max_phys_page := 16\<rparr>"
  define F where "F = fold (free_one_page 0 0) [12, 13, 14, 15] d"
  have dm: "s_max_phys_page d = 16" and dr: "ref_counts d q = 1" for q by (simp_all add: d_def demo0_def wired_page_def)
  have w: "pmm_inv d" "free_set d = {}" by (rule all_wired_inv; simp add: d_def demo0_def)+
  then have "pmm_inv F \<and> free_set F = free_set d \<union> (set [12, 13, 14, 15] - {0..<0})"
    unfolding F_def by (intro fold_free_inv) (auto simp: dm)
  with w(2) have f: "pmm_inv F" "free_set F = {12, 13, 14, 15}" by simp_all
  have m: "s_max_phys_page F = 16" unfolding F_def by (simp only: fold_free_max dm)
  have r: "ref_counts F q = (if q \<in> {12, 13, 14, 15} then 0 else 1)" if "q < 16" for q
  proof (cases "q \<in> {12, 13, 14, 15}")
    case True
    then have "q \<in> free_set F" using f(2) by simp
    then show ?thesis using True by (simp add: free_set_def)
  next
    case False
    then show ?thesis unfolding F_def by (simp add: free_one_page_def Let_def buddy_free_block_fields upd_page_def dr)
  qed
  have D: "demo_pmm16 = pmm_retain_page 0x5000 F" by (simp only: demo_pmm16_def F_def d_def)
  have r5: "ref_counts F 5 = 1" using r [of 5] by simp
  have i5: "0x5000 div CHIMERA_PAGE_SIZE = 5" "5 < s_max_phys_page F" "ref_counts F 5 \<noteq> 0" using m r5 by simp_all
  note ret = retain_page_eq [OF f(1) i5]
  show "pmm_inv demo_pmm16" unfolding D by (rule ret(1))
  show "s_max_phys_page demo_pmm16 = 16" unfolding D by (simp only: pmm.retain_npages [OF f(1)] m)
  show "ref_counts demo_pmm16 p = (if p \<in> {12, 13, 14, 15} then 0 else if p < 16 then (if p = 5 then 2 else 1) else ref_counts demo_pmm16 p)"
    using ret(3) [of p] r [of p] r5 unfolding D by auto
qed

lemma demo_cow_rd: "rd a demo_cow = demo_entry a"
  by (simp add: rd_def demo_cow_def)

lemma demo_cow_inv: "pt_inv demo_cow demo_tables" "root_of demo_tables 0x1000" "root_of demo_tables 0x6000"
proof -
  have T: "demo_tables f = Some x \<longleftrightarrow> f = 0x1000 \<and> x = (0x1000, []) \<or> f = 0x2000 \<and> x = (0x1000, [0])
      \<or> f = 0x3000 \<and> x = (0x1000, [0, 0]) \<or> f = 0x4000 \<and> x = (0x1000, [0, 0, 2])
      \<or> f = 0x6000 \<and> x = (0x6000, []) \<or> f = 0x7000 \<and> x = (0x6000, [0])
      \<or> f = 0x8000 \<and> x = (0x6000, [0, 0]) \<or> f = 0x9000 \<and> x = (0x6000, [0, 0, 2])" for f x
    by (auto simp: demo_tables_def)
  have refs: "refs_of demo_cow f = ref_counts demo_pmm16 (f div 4096)" for f by (simp add: refs_of_def demo_cow_def)
  have mg: "managed demo_cow f \<longleftrightarrow> f div 4096 < 16" for f by (simp add: managed_def demo_cow_def demo_pmm16_inv(2))
  have e: "demo_entry (0x1000 + 8 * i) = (if i = 0 then 0x2007 else 0)" "demo_entry (0x2000 + 8 * i) = (if i = 0 then 0x3007 else 0)"
    "demo_entry (0x3000 + 8 * i) = (if i = 2 then 0x4007 else 0)" "demo_entry (0x4000 + 8 * i) = (if i = 0 then 0x5205 else 0)"
    "demo_entry (0x6000 + 8 * i) = (if i = 0 then 0x7007 else 0)" "demo_entry (0x7000 + 8 * i) = (if i = 0 then 0x8007 else 0)"
    "demo_entry (0x8000 + 8 * i) = (if i = 2 then 0x9007 else 0)" "demo_entry (0x9000 + 8 * i) = (if i = 0 then 0x5205 else 0)"
    if "i < 512" for i using that by (simp_all add: demo_entry_def)
  have fr: "frame 0x2007 = 0x2000" "frame 0x3007 = 0x3000" "frame 0x4007 = 0x4000" "frame 0x5205 = 0x5000" "frame 0x1000 = 0x1000"
    "frame 0x7007 = 0x7000" "frame 0x8007 = 0x8000" "frame 0x9007 = 0x9000" "frame 0x6000 = 0x6000"
    by (simp_all add: frame_eq)
  have fl: "has 0x2007 PAGE_PRESENT" "has 0x3007 PAGE_PRESENT" "has 0x4007 PAGE_PRESENT" "has 0x2007 PAGE_USER" "has 0x3007 PAGE_USER"
    "has 0x4007 PAGE_USER" "\<not> has 0x2007 PAGE_PS" "\<not> has 0x3007 PAGE_PS" "\<not> has 0x4007 PAGE_PS" "has 0x5205 PAGE_PRESENT"
    "has 0x7007 PAGE_PRESENT" "has 0x8007 PAGE_PRESENT" "has 0x9007 PAGE_PRESENT" "has 0x7007 PAGE_USER" "has 0x8007 PAGE_USER"
    "has 0x9007 PAGE_USER" "\<not> has 0x7007 PAGE_PS" "\<not> has 0x8007 PAGE_PS" "\<not> has 0x9007 PAGE_PS"
    by (simp_all add: has_def flag_defs)
  have l: "leaf demo_tables t i \<longleftrightarrow> (t = 0x4000 \<or> t = 0x9000) \<and> i < 512" for t i by (auto simp: leaf_def T)
  have tr: "\<not> tramp_slot demo_tables t i" for t i
    by (auto simp: tramp_slot_def T path_def idx_nat SIGNAL_TRAMP_VA_def)
  have mp: "mapped demo_cow demo_tables f = (if f = 0x5000 then {(0x4000, 0), (0x9000, 0)} else {})" for f
    using e(4,8) e(4) [of 0, simplified] e(8) [of 0, simplified] by (auto simp: mapped_def l tr demo_cow_rd fr fl not_present_0 split: if_splits)
  have tp: "s_tramp_phys demo_cow = 0" by (simp add: demo_cow_def)
  have T5: "demo_tables 0x5000 = None" by (simp add: demo_tables_def)
  have "spare demo_cow demo_tables f \<ge> 0" if "4096 dvd f" for f
    using that demo_pmm16_inv(3) [of 5] by (auto simp: spare_def mp tramp_refs_def tp refs)
  moreover have "tables_ok demo_cow demo_tables"
    using demo_pmm16_inv(3) [of 1] demo_pmm16_inv(3) [of 2] demo_pmm16_inv(3) [of 3] demo_pmm16_inv(3) [of 4]
      demo_pmm16_inv(3) [of 6] demo_pmm16_inv(3) [of 7] demo_pmm16_inv(3) [of 8] demo_pmm16_inv(3) [of 9]
    by (auto simp: tables_ok_def T held_def mg refs)
  moreover have "children_ok demo_cow demo_tables"
    unfolding children_ok_def using e by (auto simp: T demo_cow_rd lim_def fr fl not_present_0 split: if_splits)
  moreover have "parents_ok demo_cow demo_tables"
    unfolding parents_ok_def using e(1-3) [of 0] e(3) [of 2] e(5-7) [of 0] e(7) [of 2] by (auto simp: T demo_cow_rd lim_def fr fl append_eq_Cons_conv Cons_eq_append_conv)
  moreover have "leaves_ok demo_cow demo_tables"
    unfolding leaves_ok_def l using e(4,8) T5 by (auto simp: demo_cow_rd fr not_present_0 split: if_splits)
  ultimately show "pt_inv demo_cow demo_tables"
    using demo_pmm16_inv(1) by (simp add: pt_inv_def tramp_ok_def tr tp) (simp add: demo_cow_def)
  show "root_of demo_tables 0x1000" "root_of demo_tables 0x6000" by (simp_all add: root_of_def fr demo_tables_def)
qed

lemma demo_cow_pte: "user_pte 0x1000 0x400000 demo_cow = 0x5205"
proof -
  have va: "(0x400000 :: u64) < USER_TOP" by (simp add: USER_TOP_def)
  have "demo_tables 0x4000 = Some (frame 0x1000, path 0x400000)"
    by (simp add: demo_tables_def path_def idx_nat frame_eq)
  from user_pte_eq(1) [OF demo_cow_inv(1,2) va this] show ?thesis by (simp add: demo_cow_rd idx_nat demo_entry_def)
qed

section \<open>Mapping\<close>

text \<open>C11 Mapping a page. For a frame the caller holds a reference to, \<open>pmap_map_user_page\<close> either returns the
  frame, and then that page of that address space translates to it, with the given protection bits, while every
  other page of this and of every other address space translates as before; or it returns 0 because no physical
  page is left for a table, and then no translation has changed. The page tables stay well-formed in both cases.\<close>
theorem pmap_map_translates:
  assumes "pt_inv s T" and "root_of T root" and "0x1000 \<le> va" and "va < USER_TOP" and "pa \<noteq> 0" and "refs_of s 0 \<noteq> 0"
    and "may_map (user_pte root va s) va pa fl s T"
    and "pmap_map_user_page root va pa fl s = (res, s')"
  shows "\<exists>T'. pt_inv s' T' \<and> (\<forall>root'. root_of T' root' \<longleftrightarrow> root_of T root') \<and>
    (if res = 0 then free_set (pmm_of s') = {} else res = pa \<and> has (user_pte root va s') PAGE_WRITE = has fl PAGE_WRITE
       \<and> has (user_pte root va s') PAGE_NX = has fl PAGE_NX) \<and>
    (\<forall>root' vb. root_of T root' \<longrightarrow> 0x1000 \<le> vb \<longrightarrow> vb < USER_TOP \<longrightarrow> pmap_extract root' vb s' =
       (if res \<noteq> 0 \<and> frame root' = frame root \<and> page_of vb = page_of va then (pa AND PTE_PHYS_MASK) OR (vb AND 0xFFF)
        else pmap_extract root' vb s))"
proof -
  note m = assms(8) [unfolded pmap_map_user_page_def]
  have fl: "fl AND PTE_PHYS_MASK = 0" using assms(7) by (simp add: may_map_def)
  note le = leaf_entry [OF fl, of pa]
  let ?e = "(pa AND PTE_PHYS_MASK) OR fl OR PAGE_PRESENT OR PAGE_USER"
  obtain T' where T': "pt_inv s' T'" and roots: "\<And>r. root_of T' r \<longleftrightarrow> root_of T r" and c: "res \<in> {0, pa}" and
    view: "\<And>root' vb. root_of T root' \<Longrightarrow> vb < USER_TOP \<Longrightarrow> user_pte root' vb s' =
       (if res \<noteq> 0 \<and> frame root' = frame root \<and> page_of vb = page_of va then ?e else user_pte root' vb s)"
    by (rule map_view [OF assms(1-5,7) m]) (blast intro: that)
  have "pmap_extract root' vb s' = (if res \<noteq> 0 \<and> frame root' = frame root \<and> page_of vb = page_of va
      then (pa AND PTE_PHYS_MASK) OR (vb AND 0xFFF) else pmap_extract root' vb s)"
    if r: "root_of T root'" "0x1000 \<le> vb" "vb < USER_TOP" for root' vb
    using extract_pte [OF T' _ r(2,3), of root'] extract_pte [OF assms(1) r] view [OF r(1,3)] roots [of root'] r(1) le(2-4)
    by (auto simp: leaf_phys_def)
  moreover have "res = 0 \<Longrightarrow> free_set (pmm_of s') = {}"
    using map_fail [OF assms(1-4) _ assms(5,6)] m by simp
  ultimately show ?thesis
    using T' roots c view [OF assms(2,4)] le by (intro exI [of _ T']) auto
qed

theorem pmap_map_translates_witness:
  "\<exists>res s'. pmap_map_user_page 0x1000 0x400000 0x2000 PAGE_WRITE demo_pmap = (res, s') \<and>
     (if res = 0 then free_set (pmm_of s') = {} else pmap_extract 0x1000 0x400123 s' = 0x2123)"
proof -
  obtain res s' where m: "pmap_map_user_page 0x1000 0x400000 0x2000 PAGE_WRITE demo_pmap = (res, s')" by (rule prod.exhaust)
  have may: "may_map (user_pte 0x1000 0x400000 demo_pmap) 0x400000 0x2000 PAGE_WRITE demo_pmap demo_places"
    unfolding demo_inv(4) by (rule demo_may_map)
  have b: "(0x1000 :: u64) \<le> 0x400000" "(0x400000 :: u64) < USER_TOP" "(0x2000 :: u64) \<noteq> 0"
    "(0x1000 :: u64) \<le> 0x400123" "(0x400123 :: u64) < USER_TOP" by (simp_all add: USER_TOP_def)
  have pg: "page_of 0x400123 = page_of 0x400000" by (simp add: page_of_def)
  have v: "((0x2000 :: u64) AND PTE_PHYS_MASK) OR (0x400123 AND 0xFFF) = 0x2123" by (simp add: PTE_PHYS_MASK_def)
  from pmap_map_translates [OF demo_inv(1,2) b(1-3) demo_refs(3) may m] demo_inv(2) b(4,5) pg v
  have "if res = 0 then free_set (pmm_of s') = {} else pmap_extract 0x1000 0x400123 s' = 0x2123"
    by (auto split: if_splits)
  with m show ?thesis by blast
qed

text \<open>References of a mapping. A successful \<open>pmap_map_user_page\<close> takes over exactly one of the caller's
  references to the frame (none when the page mapped that very frame before); the frame that was mapped there before
  gives its reference back, and no other frame gains or loses one. A failed call takes nothing.\<close>
theorem pmap_map_references:
  assumes "pt_inv s T" and "root_of T root" and "0x1000 \<le> va" and "va < USER_TOP" and "pa \<noteq> 0"
    and "\<not> pmap_is_trampoline_va va" and "may_map (user_pte root va s) va pa fl s T"
    and "pmap_map_user_page root va pa fl s = (res, s')"
  shows "\<exists>T'. pt_inv s' T' \<and> T \<subseteq>\<^sub>m T' \<and> (\<forall>f. 4096 dvd f \<longrightarrow> f \<noteq> 0 \<longrightarrow> managed s f \<longrightarrow> T' f = None \<longrightarrow>
    spare s' T' f = spare s T f - (if res \<noteq> 0 \<and> f = frame pa \<and>
      \<not> (has (user_pte root va s) PAGE_PRESENT \<and> frame (user_pte root va s) = f) then 1 else 0))"
  using map_ok [OF assms(1-4,7), of res s'] assms(8) unfolding pmap_map_user_page_def
proof (elim meta_impE exE conjE disjE)
  fix T'
  assume "pt_inv s' T'" and z: "res = 0" and g: "grown s T s' T'"
  then show ?thesis using grown_spare [OF g] grown_le [OF g] by (intro exI [of _ T']) simp
next
  fix T'
  assume "pt_inv s' T'" and r: "res = pa" and "remapped s T s' T' root va ((pa AND PTE_PHYS_MASK) OR fl OR PAGE_PRESENT OR PAGE_USER)"
    and sp: "\<forall>f. 4096 dvd f \<longrightarrow> f \<noteq> 0 \<longrightarrow> managed s f \<longrightarrow> T' f = None \<longrightarrow> spare s' T' f = spare s T f -
      (if \<not> pmap_is_trampoline_va va \<and> f = frame pa \<and> \<not> (has (user_pte root va s) PAGE_PRESENT \<and> frame (user_pte root va s) = f)
       then 1 else 0)"
  moreover from this have "T \<subseteq>\<^sub>m T'" by (simp only: remapped_def)
  moreover from sp r assms(5,6) have "\<forall>f. 4096 dvd f \<longrightarrow> f \<noteq> 0 \<longrightarrow> managed s f \<longrightarrow> T' f = None \<longrightarrow>
    spare s' T' f = spare s T f - (if res \<noteq> 0 \<and> f = frame pa \<and>
      \<not> (has (user_pte root va s) PAGE_PRESENT \<and> frame (user_pte root va s) = f) then 1 else 0)" by simp
  ultimately show ?thesis by blast
qed assumption

theorem pmap_map_references_witness:
  "\<exists>res s' T'. pmap_map_user_page 0x1000 0x400000 0x2000 PAGE_WRITE demo_pmap = (res, s') \<and> pt_inv s' T' \<and>
     (T' 0x2000 = None \<longrightarrow> spare s' T' 0x2000 = spare demo_pmap demo_places 0x2000 - (if res \<noteq> 0 then 1 else 0))"
proof -
  obtain res s' where m: "pmap_map_user_page 0x1000 0x400000 0x2000 PAGE_WRITE demo_pmap = (res, s')" by (rule prod.exhaust)
  have may: "may_map (user_pte 0x1000 0x400000 demo_pmap) 0x400000 0x2000 PAGE_WRITE demo_pmap demo_places"
    unfolding demo_inv(4) by (rule demo_may_map)
  have b: "(0x1000 :: u64) \<le> 0x400000" "(0x400000 :: u64) < USER_TOP" "(0x2000 :: u64) \<noteq> 0"
    "\<not> pmap_is_trampoline_va 0x400000"
    by (simp_all add: USER_TOP_def pmap_is_trampoline_va_def SIGNAL_TRAMP_VA_def)
  have mg: "managed demo_pmap 0x2000" by (simp add: demo_refs(4))
  from pmap_map_references [OF demo_inv(1,2) b may m] obtain T' where
    "pt_inv s' T'" "\<forall>f. 4096 dvd f \<longrightarrow> f \<noteq> 0 \<longrightarrow> managed demo_pmap f \<longrightarrow> T' f = None \<longrightarrow>
      spare s' T' f = spare demo_pmap demo_places f - (if res \<noteq> 0 \<and> f = frame 0x2000 \<and> \<not> (has 0 PAGE_PRESENT \<and> frame 0 = f) then 1 else 0)"
    unfolding demo_inv(4) by (elim exE conjE)
  with m mg show ?thesis
    by (intro exI [of _ res] exI [of _ s'] exI [of _ T']) (simp add: demo_frames not_present_0)
qed

text \<open>C24 No translation to a free page. In a well-formed state a present user entry, of any address space, leads to
  a page with a non-zero reference count that holds no page table, or outside the memory the allocator manages.\<close>
theorem pmap_mappings_held:
  assumes "pt_inv s T" and "root_of T root" and "va < USER_TOP" and "has (user_pte root va s) PAGE_PRESENT"
  shows "T (frame (user_pte root va s)) = None \<and>
    (pmm_get_refcount (frame (user_pte root va s)) (pmm_of s) \<noteq> 0 \<or> \<not> managed s (frame (user_pte root va s)))"
  using old_held [OF assms] by (auto simp: refcount_eq)

theorem pmap_mappings_held_witness:
  "demo_tables (frame (user_pte 0x1000 0x400000 demo_cow)) = None"
proof -
  have va: "(0x400000 :: u64) < USER_TOP" by (simp add: USER_TOP_def)
  have "has (user_pte 0x1000 0x400000 demo_cow) PAGE_PRESENT" unfolding demo_cow_pte by (simp add: has_def flag_defs)
  from pmap_mappings_held [OF demo_cow_inv(1,2) va this] show ?thesis by blast
qed

section \<open>Unmapping\<close>

text \<open>C12 Unmapping a range. \<open>pmap_unmap_user_range\<close> on a range below the top of user space returns; it clears
  the present entries of the pages that the range touches, in that address space only, leaves every other
  translation and the contents of every data page alone, and gives back exactly the references the cleared entries
  held, so that no page leaks and none is freed while something refers to it.\<close>
theorem pmap_unmap_exact:
  assumes "pt_inv s T" and "root_of T root" and "len \<noteq> 0" and "unat va + unat len + 4095 < 2 ^ 47"
  shows "\<exists>s'. pmap_unmap_user_range root va len s = Some s' \<and> pt_inv s' T \<and>
    (\<forall>f. 4096 dvd f \<longrightarrow> managed s f \<longrightarrow> spare s' T f = spare s T f) \<and>
    pages_updated s T s' root {page_of va..<(unat va + unat len + 4095) div 4096} (\<lambda>_. 0)"
proof -
  note r = range_ends [OF assms(4)]
  obtain s' where "unmap_chunks root True (va AND NOT 0xFFF) ((va + len + 4095) AND NOT 0xFFF) s = Some s'" "pt_inv s' T"
    "pages_updated s T s' root {page_of va..<(unat va + unat len + 4095) div 4096} (\<lambda>_. 0)"
    "\<forall>f. 4096 dvd f \<longrightarrow> managed s f \<longrightarrow> spare s' T f = spare s T f"
    using unmap_chunks_ok [OF assms(1,2) r(1,3), unfolded r(4,5)] by (elim exE conjE)
  then show ?thesis
    using root_nonzero [OF assms(1,2)] assms(3) by (simp add: pmap_unmap_user_range_def pmap_unmap_user_range_ex_def)
qed

theorem pmap_unmap_exact_witness:
  "\<exists>s'. pmap_unmap_user_range 0x1000 0x400000 0x3000 demo_pmap = Some s' \<and> pt_inv s' demo_places"
proof -
  have "(0x3000 :: u64) \<noteq> 0" "unat (0x400000 :: u64) + unat (0x3000 :: u64) + 4095 < 2 ^ 47" by simp_all
  from pmap_unmap_exact [OF demo_inv(1,2) this] show ?thesis by blast
qed

section \<open>Copy on write\<close>

text \<open>C13 Copy-on-write faults. When \<open>pmap_handle_cow_fault\<close> handles a fault, the page had a copy-on-write entry; the
  page is now writable, no longer copy on write, keeps its other protection and reads as before; if its frame was
  shared it now has a frame of its own that was free; no other page of any address space and no other data page
  has changed. When it does not, nothing any address space sees has changed. In both cases every frame keeps the
  references the rest of the kernel holds.\<close>
theorem pmap_cow_fault_correct:
  assumes "pt_inv s T" and "root_of T root" and "va < USER_TOP" and "pmap_handle_cow_fault root va s = (ok, s')"
  defines "e \<equiv> user_pte root va s" and "e' \<equiv> user_pte root va s'"
  shows "pt_inv s' T \<and> (\<forall>f. 4096 dvd f \<longrightarrow> f \<noteq> 0 \<longrightarrow> managed s f \<longrightarrow> spare s' T f = spare s T f) \<and>
    (ok \<longrightarrow> has e PAGE_COW \<and> has e' PAGE_PRESENT \<and> has e' PAGE_WRITE \<and> \<not> has e' PAGE_COW \<and>
       has e' PAGE_NX = has e PAGE_NX \<and> (\<forall>x < 4096. rd (frame e' + x) s' = rd (frame e + x) s) \<and>
       (managed s (frame e) \<and> refs_of s (frame e) > 1 \<longrightarrow> managed s (frame e') \<and> refs_of s (frame e') = 0)) \<and>
    (\<forall>root' vb. root_of T root' \<longrightarrow> vb < USER_TOP \<longrightarrow>
       \<not> (ok \<and> frame root' = frame root \<and> page_of vb = page_of va) \<longrightarrow> user_pte root' vb s' = user_pte root' vb s) \<and>
    (\<forall>g x. 4096 dvd g \<longrightarrow> T g = None \<longrightarrow> x < 4096 \<longrightarrow> \<not> (ok \<and> g = frame e') \<longrightarrow> rd (g + x) s' = rd (g + x) s)"
  using cow_fault_effect [OF assms(1-4)] unfolding e_def e'_def cow_effect_def Let_def cow_shared_def
  by (auto split: if_splits)

theorem pmap_cow_fault_correct_witness:
  "\<exists>ok s'. pmap_handle_cow_fault 0x1000 0x400000 demo_cow = (ok, s') \<and> pt_inv s' demo_tables \<and>
     (ok \<longrightarrow> has (user_pte 0x1000 0x400000 s') PAGE_WRITE \<and> frame (user_pte 0x1000 0x400000 s') \<noteq> 0x5000)"
proof -
  obtain ok s' where c: "pmap_handle_cow_fault 0x1000 0x400000 demo_cow = (ok, s')" by (rule prod.exhaust)
  have va: "(0x400000 :: u64) < USER_TOP" by (simp add: USER_TOP_def)
  have f: "frame 0x5205 = 0x5000" by (simp add: frame_eq)
  have r: "refs_of demo_cow 0x5000 = 2" "managed demo_cow 0x5000"
    using demo_pmm16_inv(2) demo_pmm16_inv(3) [of 5] by (simp_all add: refs_of_def managed_def demo_cow_def)
  have "pt_inv s' demo_tables" "ok \<Longrightarrow> has (user_pte 0x1000 0x400000 s') PAGE_WRITE"
    "ok \<Longrightarrow> refs_of demo_cow (frame (user_pte 0x1000 0x400000 s')) = 0"
    using pmap_cow_fault_correct [OF demo_cow_inv(1,2) va c, unfolded demo_cow_pte f] r by simp_all
  with c r(1) show ?thesis by (intro exI [of _ ok] exI [of _ s']) auto
qed

section \<open>Protection\<close>

lemma protect_call:
  assumes "root \<noteq> 0" and "len \<noteq> 0" and "unat va + unat len + 4095 < 2 ^ 47"
  shows "pmap_protect_user_range root va len prot s = Some (0, fold (protect_page root prot)
    (pages_from (va AND NOT 0xFFF) ((unat va + unat len + 4095) div 4096 - page_of va)) s)"
proof -
  note r = range_ends [OF assms(3)]
  have "\<not> (va + len + 4095) AND NOT 0xFFF \<ge> USER_TOP" using r(2) by simp
  then show ?thesis using assms(1,2) by (simp add: pmap_protect_user_range_def Let_def va_loop_pages [OF r(1,3), simplified])
qed

text \<open>Changing protection. \<open>pmap_protect_user_range\<close> with some access, on a range below the top of user space
  (with the trampoline page left out or not made writable), succeeds: every present page of the range gets exactly the
  access asked for, at the same frame, and nothing else changes in any address space.\<close>
theorem pmap_protect_exact:
  assumes "pt_inv s T" and "root_of T root" and "len \<noteq> 0" and "unat va + unat len + 4095 < 2 ^ 47" and "prot \<noteq> 0"
    and "tramp_safe {page_of va..<(unat va + unat len + 4095) div 4096} prot"
  shows "\<exists>s'. pmap_protect_user_range root va len prot s = Some (0, s') \<and> pt_inv s' T \<and> (\<forall>f. spare s' T f = spare s T f) \<and>
    pages_updated s T s' root {page_of va..<(unat va + unat len + 4095) div 4096} (protected prot) \<and>
    (\<forall>e. frame (protected prot e) = frame e \<and> has (protected prot e) PAGE_PRESENT \<and>
       (has (protected prot e) PAGE_WRITE \<longleftrightarrow> prot AND 2 \<noteq> 0) \<and> (has (protected prot e) PAGE_NX \<longleftrightarrow> prot AND 4 = 0))"
proof -
  note r = range_ends [OF assms(4)]
  have le: "unat (va AND NOT 0xFFF) + 4096 * ((unat va + unat len + 4095) div 4096 - page_of va) \<le> 2 ^ 47" using r(1,3) by simp
  note p = protect_pages_ok [OF assms(1,2) le, unfolded r(4,5), OF assms(6,5)]
  with protect_call [OF root_nonzero [OF assms(1,2)] assms(3,4)] assms(5) show ?thesis by (simp add: protected_entry)
qed

theorem pmap_protect_exact_witness:
  "\<exists>s'. pmap_protect_user_range 0x1000 0x400000 0x1000 1 demo_cow = Some (0, s') \<and> pt_inv s' demo_tables"
proof -
  have "(0x1000 :: u64) \<noteq> 0" "unat (0x400000 :: u64) + unat (0x1000 :: u64) + 4095 < 2 ^ 47" "(1 :: u32) \<noteq> 0"
    "tramp_safe {page_of 0x400000..<(unat (0x400000 :: u64) + unat (0x1000 :: u64) + 4095) div 4096} 1"
    by (simp_all add: tramp_safe_def)
  from pmap_protect_exact [OF demo_cow_inv(1,2) this] show ?thesis by blast
qed

lemma one_page:
  assumes "4096 dvd unat (va :: u64)" and "unat va + 4096 < 2 ^ 47"
  shows "unat va + unat (1 :: u64) + 4095 < 2 ^ 47" and "va AND NOT 0xFFF = va"
    and "(unat va + unat (1 :: u64) + 4095) div 4096 - page_of va = 1" and "va < USER_TOP"
proof -
  obtain k where k: "unat va = 4096 * k" using assms(1) by (rule dvdE)
  show "unat va + unat (1 :: u64) + 4095 < 2 ^ 47" using assms(2) by simp
  show "va AND NOT 0xFFF = va" by (simp only: word_unat_eq_iff unat_page_base) (simp add: page_of_def k)
  show "(unat va + unat (1 :: u64) + 4095) div 4096 - page_of va = 1" by (simp add: page_of_def k)
  show "va < USER_TOP" using assms(2) by (simp add: word_less_nat_alt USER_TOP_def)
qed

text \<open>C28 Taking all access away is final. After \<open>pmap_protect_user_range\<close> with protection 0 a mapped page has no
  translation; its frame keeps the reference that the mapping held although nothing maps it any more; giving access
  back changes nothing and unmapping the page does not give the reference back: the frame is lost.\<close>
theorem pmap_protect_none_loses_page:
  assumes "pt_inv s T" and "root_of T root" and "4096 dvd unat va" and "unat va + 4096 < 2 ^ 47"
    and "\<not> pmap_is_trampoline_va va" and "has (user_pte root va s) PAGE_PRESENT"
  shows "\<exists>s'. pmap_protect_user_range root va 1 0 s = Some (0, s') \<and> \<not> has (user_pte root va s') PAGE_PRESENT \<and>
    refs_of s' (frame (user_pte root va s)) = refs_of s (frame (user_pte root va s)) \<and>
    spare s' T (frame (user_pte root va s)) = spare s T (frame (user_pte root va s)) + 1 \<and>
    (\<forall>prot. pmap_protect_user_range root va 1 prot s' = Some (0, s')) \<and> pmap_unmap_user_range root va 1 s' = Some s'"
proof -
  note o = one_page [OF assms(3,4)]
  note r0 = root_nonzero [OF assms(1,2)]
  define s' where "s' = protect_page root 0 va s"
  have ts: "tramp_safe {page_of va} 0" by (simp add: tramp_safe_def)
  note p = protect_page_ok [OF assms(1,2) o(4) ts, folded s'_def]
  have np: "\<not> has (user_pte root va s') PAGE_PRESENT"
    using p assms(2,6) o(4) by (auto simp: pages_updated_def protected_entry)
  have call: "pmap_protect_user_range root va 1 prot u = Some (0, protect_page root prot va u)" for prot u
    using protect_call [OF r0 _ o(1)] unfolding o(2,3) by simp
  have again: "protect_page root prot va s' = s'" for prot
    using np by (auto simp: protect_page_def user_pte_def split: option.splits)
  have un: "unmap_page root True va ([], s') = ([], s')"
    using np by (auto simp: unmap_page_def user_pte_def split: option.splits)
  have ve: "unat va + 4096 * 1 = unat (va + 4096)" "unat (va + 4096) \<le> 2 ^ 47"
    using assms(4) by (simp_all add: unat_word_ariths)
  have lt: "va < va + 4096" "va + 4096 < va + 262144" "\<not> va + 4096 < va + 4096"
    using assms(4) by (simp_all add: word_less_nat_alt unat_word_ariths)
  have e: "(va + 1 + 4095) AND NOT 0xFFF = va + 4096"
    using range_ends(1) [OF o(1), unfolded o(2,3)] ve(1) by (simp add: word_unat_eq_iff)
  have "unmap_chunks root True va (va + 4096) s' = Some s'"
    by (subst unmap_chunks.simps) (simp add: lt va_loop_pages [OF ve] un Let_def unmap_chunks.simps)
  then have um: "pmap_unmap_user_range root va 1 s' = Some s'"
    using r0 e o(2) by (simp add: pmap_unmap_user_range_def pmap_unmap_user_range_ex_def)
  have "refs_of s' f = refs_of s f" for f
    by (simp add: s'_def protect_page_def refs_of_def split: option.splits)
  then show ?thesis using call again np um p assms(5,6) by (auto simp: s'_def)
qed

theorem pmap_protect_none_loses_page_witness:
  "\<exists>s'. pmap_protect_user_range 0x1000 0x400000 1 0 demo_cow = Some (0, s') \<and> \<not> has (user_pte 0x1000 0x400000 s') PAGE_PRESENT"
proof -
  have "4096 dvd unat (0x400000 :: u64)" "unat (0x400000 :: u64) + 4096 < 2 ^ 47" "\<not> pmap_is_trampoline_va 0x400000"
    "has (user_pte 0x1000 0x400000 demo_cow) PAGE_PRESENT"
    unfolding demo_cow_pte by (simp_all add: pmap_is_trampoline_va_def SIGNAL_TRAMP_VA_def has_def flag_defs)
  from pmap_protect_none_loses_page [OF demo_cow_inv(1,2) this] show ?thesis by blast
qed

end
