(* ===== verification/Vm_Object.thy ===== *)
theory Vm_Object
  imports Pmap
begin

text \<open>
  Memory objects with their shadow chains, \<^verbatim>\<open>kernel/mm/vm_object.c\<close>. Structures are kept in typed
  heaps, indexed by the address that the zone or \<^verbatim>\<open>kalloc\<close> handed out; a null pointer is \<open>None\<close>. The
  zones, the pages and their contents are those of the memory below. An operation that would not
  return, or would follow a null pointer, has the value \<open>None\<close>.
\<close>

unbundle bit_operations_syntax

section \<open>State\<close>

definition CHIMERA_VM_OBJECT_MAGIC :: u64 where "CHIMERA_VM_OBJECT_MAGIC = 0x5849554F424A4543"
definition VM_PAGE_PMAPPED :: u32 where "VM_PAGE_PMAPPED = 0x20"
definition VM_PAGE_FICTITIOUS :: u32 where "VM_PAGE_FICTITIOUS = 0x40"
definition VM_PAGER_ANON :: u8 where "VM_PAGER_ANON = 1"
definition VM_PAGER_VNODE :: u8 where "VM_PAGER_VNODE = 2"
definition VM_OBJ_INTERNAL :: u32 where "VM_OBJ_INTERNAL = 0x1"
definition VM_OBJ_COPY_ON_WRITE :: u32 where "VM_OBJ_COPY_ON_WRITE = 0x2"
definition VM_OBJ_SHADOW :: u32 where "VM_OBJ_SHADOW = 0x4"
definition VM_OBJ_ALIVE :: u32 where "VM_OBJ_ALIVE = 0x10"
definition VM_OBJ_VNODE :: u32 where "VM_OBJ_VNODE = 0x40"
definition VM_PROT_ALL :: u32 where "VM_PROT_ALL = 0x7"
definition VM_INHERIT_COPY :: u32 where "VM_INHERIT_COPY = 1"
definition VM_INHERIT_NONE :: u32 where "VM_INHERIT_NONE = 2"
definition VM_INHERIT_DEFAULT :: u32 where "VM_INHERIT_DEFAULT = VM_INHERIT_COPY"

text \<open>\<^verbatim>\<open>sizeof\<close> of the structures (a spinlock takes 64 bytes).\<close>
definition SIZEOF_VM_OBJECT :: nat where "SIZEOF_VM_OBJECT = 192"
definition SIZEOF_OBJ_PAGE :: nat where "SIZEOF_OBJ_PAGE = 80"

record obj_page =
  vmp_phys_addr :: nat
  vmp_flags :: u32
  vmp_object :: "nat option"
  vmp_offset :: u64
  vmp_next :: "nat option"
  vmp_prev :: "nat option"
  vmp_lru_next :: "nat option"
  vmp_lru_prev :: "nat option"
  vmp_waiter :: "nat option"
  vmp_wire_count :: u32

record vm_object =
  vmo_signature :: u64
  vmo_ref_count :: u32
  vmo_res_count :: u32
  vmo_size :: u64
  vmo_pages :: "nat option"
  vmo_page_count :: u32
  vmo_shadow :: "nat option"
  vmo_shadow_offset :: u64
  vmo_shadow_count :: u32
  vmo_pager_type :: u8
  vmo_vnode :: "nat option"
  vmo_pager_offset :: u64
  vmo_max_prot :: u32
  vmo_inherit :: u32
  vmo_flags :: u32
  vmo_faults :: u64
  vmo_pageouts :: u64

record vm_map_entry =
  vme_prev :: "nat option"
  vme_next :: "nat option"
  vme_start :: u64
  vme_end :: u64
  vme_object :: "nat option"
  vme_offset :: u64
  vme_prot :: u32
  vme_max_prot :: u32
  vme_inheritance :: u32
  vme_flags :: u16

record vm_map =
  vmm_header :: "nat option"
  vmm_pmap :: u64
  vmm_size :: u64
  vmm_nentries :: u32
  vmm_ref_count :: u32
  vmm_min_offset :: u64
  vmm_max_offset :: u64

record vm_state =
  vpm :: pmap_state
  vobj :: "nat \<Rightarrow> vm_object"
  vpage :: "nat \<Rightarrow> obj_page"
  vent :: "nat \<Rightarrow> vm_map_entry"
  vmap :: "nat \<Rightarrow> vm_map"
  s_vm_obj_zone :: "nat option"
  s_vm_obj_initialized :: bool
  s_vm_map_zone :: "nat option"
  s_vm_map_entry_zone :: "nat option"
  s_vm_map_initialized :: bool

definition zero_object :: vm_object where
  "zero_object = \<lparr>vmo_signature = 0, vmo_ref_count = 0, vmo_res_count = 0, vmo_size = 0, vmo_pages = None, vmo_page_count = 0,
     vmo_shadow = None, vmo_shadow_offset = 0, vmo_shadow_count = 0, vmo_pager_type = 0, vmo_vnode = None,
     vmo_pager_offset = 0, vmo_max_prot = 0, vmo_inherit = 0, vmo_flags = 0, vmo_faults = 0, vmo_pageouts = 0\<rparr>"

definition zero_obj_page :: obj_page where
  "zero_obj_page = \<lparr>vmp_phys_addr = 0, vmp_flags = 0, vmp_object = None, vmp_offset = 0, vmp_next = None, vmp_prev = None,
     vmp_lru_next = None, vmp_lru_prev = None, vmp_waiter = None, vmp_wire_count = 0\<rparr>"

definition upd_obj :: "nat \<Rightarrow> (vm_object \<Rightarrow> vm_object) \<Rightarrow> vm_state \<Rightarrow> vm_state" where
  "upd_obj a f s = s\<lparr>vobj := (vobj s)(a := f (vobj s a))\<rparr>"

abbreviation vkm :: "vm_state \<Rightarrow> kmem" where "vkm s \<equiv> pk (vpm s)"

definition set_vkm :: "kmem \<Rightarrow> vm_state \<Rightarrow> vm_state" where
  "set_vkm k s = s\<lparr>vpm := (vpm s)\<lparr>pk := k\<rparr>\<rparr>"

text \<open>\<^verbatim>\<open>zalloc\<close>, \<^verbatim>\<open>zfree\<close>, \<^verbatim>\<open>kalloc\<close> and \<^verbatim>\<open>kfree\<close> on this state, with \<^verbatim>\<open>NULL\<close> as \<open>None\<close>.\<close>
definition ptr :: "nat \<Rightarrow> nat option" where "ptr a = (if a = 0 then None else Some a)"

definition v_zalloc :: "nat option \<Rightarrow> vm_state \<Rightarrow> (nat option \<times> vm_state) option" where
  "v_zalloc z s = do { (a, k) \<leftarrow> zalloc z (vkm s); Some (ptr a, set_vkm k s) }"

definition v_zfree :: "nat option \<Rightarrow> nat \<Rightarrow> vm_state \<Rightarrow> vm_state" where
  "v_zfree z a s = set_vkm (zfree z a (vkm s)) s"

definition v_zinit :: "nat \<Rightarrow> string \<Rightarrow> vm_state \<Rightarrow> nat option \<times> vm_state" where
  "v_zinit sz name s = (let (z, k) = zinit sz 0 4096 name (vkm s) in (z, set_vkm k s))"

section \<open>Objects\<close>

definition vm_object_init :: "vm_state \<Rightarrow> vm_state" where
  "vm_object_init s =
     (if s_vm_obj_initialized s then s
      else let (z, s) = v_zinit SIZEOF_VM_OBJECT ''vm_objects'' s
           in s\<lparr>s_vm_obj_zone := z, s_vm_obj_initialized := True\<rparr>)"

text \<open>The out-parameter is the second component; \<open>out\<close> says whether the caller passed one.\<close>
definition vm_object_create :: "u64 \<Rightarrow> u32 \<Rightarrow> bool \<Rightarrow> vm_state \<Rightarrow> (chimera_error \<times> nat option \<times> vm_state) option" where
  "vm_object_create sz max_prot out s =
     (if \<not> out then Some (CHIMERA_ERR_INVALID, None, s)
      else do {
        let s = (if s_vm_obj_initialized s then s else vm_object_init s);
        (r, s) \<leftarrow> v_zalloc (s_vm_obj_zone s) s;
        (case r of
           None \<Rightarrow> Some (CHIMERA_ERR_NOMEM, None, s)
         | Some obj \<Rightarrow> Some (CHIMERA_SUCCESS, Some obj, upd_obj obj (\<lambda>_. zero_object
             \<lparr>vmo_signature := CHIMERA_VM_OBJECT_MAGIC, vmo_size := sz, vmo_max_prot := max_prot,
              vmo_inherit := VM_INHERIT_DEFAULT, vmo_flags := VM_OBJ_INTERNAL OR VM_OBJ_ALIVE,
              vmo_pager_type := VM_PAGER_ANON, vmo_ref_count := 1\<rparr>) s))
      })"

definition vm_object_create_vnode :: "nat option \<Rightarrow> u64 \<Rightarrow> u64 \<Rightarrow> bool \<Rightarrow> vm_state \<Rightarrow> (chimera_error \<times> nat option \<times> vm_state) option" where
  "vm_object_create_vnode vp offset sz out s =
     (if vp = None \<or> \<not> out then Some (CHIMERA_ERR_INVALID, None, s)
      else do {
        (err, r, s) \<leftarrow> vm_object_create sz VM_PROT_ALL True s;
        (case r of
           None \<Rightarrow> Some (err, None, s)
         | Some obj \<Rightarrow> Some (CHIMERA_SUCCESS, Some obj, upd_obj obj (\<lambda>ob. ob
             \<lparr>vmo_pager_type := VM_PAGER_VNODE, vmo_vnode := vp, vmo_pager_offset := offset,
              vmo_flags := VM_OBJ_VNODE OR VM_OBJ_ALIVE\<rparr>) s))
      })"

definition vm_object_reference :: "nat option \<Rightarrow> vm_state \<Rightarrow> vm_state" where
  "vm_object_reference r s =
     (case r of
        None \<Rightarrow> s
      | Some obj \<Rightarrow> if vmo_signature (vobj s obj) \<noteq> CHIMERA_VM_OBJECT_MAGIC then s
          else upd_obj obj (\<lambda>ob. ob\<lparr>vmo_ref_count := vmo_ref_count ob + 1\<rparr>) s)"

definition vm_object_shadow :: "nat option \<Rightarrow> u64 \<Rightarrow> u64 \<Rightarrow> bool \<Rightarrow> vm_state \<Rightarrow> (chimera_error \<times> nat option \<times> vm_state) option" where
  "vm_object_shadow original offset sz out s =
     (case original of
        None \<Rightarrow> Some (CHIMERA_ERR_INVALID, None, s)
      | Some orig \<Rightarrow>
          if \<not> out then Some (CHIMERA_ERR_INVALID, None, s)
          else do {
            (err, r, s) \<leftarrow> vm_object_create sz (vmo_max_prot (vobj s orig)) True s;
            (case r of
               None \<Rightarrow> Some (err, None, s)
             | Some shadow \<Rightarrow> Some (CHIMERA_SUCCESS, Some shadow, upd_obj shadow (\<lambda>ob. ob
                 \<lparr>vmo_shadow := original, vmo_shadow_offset := offset, vmo_shadow_count := 1,
                  vmo_flags := vmo_flags ob OR VM_OBJ_SHADOW OR VM_OBJ_COPY_ON_WRITE\<rparr>) (vm_object_reference original s)))
          })"

text \<open>The loop that frees the resident pages.\<close>
partial_function (option) free_pages :: "nat option \<Rightarrow> vm_state \<Rightarrow> vm_state option" where
  "free_pages p s =
     (if p = None then Some s
      else let pg = vpage s (the p);
               s = (if vmp_phys_addr pg \<noteq> 0 \<and> vmp_flags pg AND VM_PAGE_FICTITIOUS = 0
                    then set_vkm ((vkm s)\<lparr>km_pmm := pmm_release_page (vmp_phys_addr pg) (km_pmm (vkm s))\<rparr>) s else s)
           in free_pages (vmp_next pg) (set_vkm (kfree (the p) (vkm s)) s))"

partial_function (option) vm_object_deallocate :: "nat option \<Rightarrow> vm_state \<Rightarrow> vm_state option" where
  "vm_object_deallocate r s =
     (if r = None \<or> vmo_signature (vobj s (the r)) \<noteq> CHIMERA_VM_OBJECT_MAGIC then Some s
      else let obj = the r;
               last_ref = (vmo_ref_count (vobj s obj) = 1);
               s = upd_obj obj (\<lambda>ob. ob\<lparr>vmo_ref_count := vmo_ref_count ob - 1\<rparr>) s
           in if \<not> last_ref then Some s
           else do {
             let s = upd_obj obj (\<lambda>ob. ob\<lparr>vmo_flags := vmo_flags ob AND NOT VM_OBJ_ALIVE\<rparr>) s;
             s \<leftarrow> free_pages (vmo_pages (vobj s obj)) s;
             let shadow = vmo_shadow (vobj s obj);
             let s = upd_obj obj (\<lambda>ob. ob\<lparr>vmo_pages := None, vmo_page_count := 0, vmo_shadow := None\<rparr>) s;
             s \<leftarrow> (if shadow = None then Some s else vm_object_deallocate shadow s);
             let s = upd_obj obj (\<lambda>ob. ob\<lparr>vmo_signature := 0\<rparr>) s;
             Some (v_zfree (s_vm_obj_zone s) obj s)
           })"

partial_function (option) find_page :: "vm_state \<Rightarrow> nat option \<Rightarrow> u64 \<Rightarrow> nat option option" where
  "find_page s p offset =
     (if p = None then Some None
      else if vmp_offset (vpage s (the p)) = offset then Some p
      else find_page s (vmp_next (vpage s (the p))) offset)"

definition vm_object_lookup_page :: "nat option \<Rightarrow> u64 \<Rightarrow> vm_state \<Rightarrow> nat option option" where
  "vm_object_lookup_page r offset s =
     (case r of
        None \<Rightarrow> Some None
      | Some obj \<Rightarrow> if vmo_signature (vobj s obj) \<noteq> CHIMERA_VM_OBJECT_MAGIC then Some None
          else find_page s (vmo_pages (vobj s obj)) offset)"

partial_function (option) vm_object_resolve_shadow :: "vm_state \<Rightarrow> nat option \<Rightarrow> u64 \<Rightarrow> nat option option" where
  "vm_object_resolve_shadow s cur cur_off =
     (if cur = None then Some None
      else do {
        p \<leftarrow> vm_object_lookup_page cur cur_off s;
        (if p \<noteq> None then Some p
         else vm_object_resolve_shadow s (vmo_shadow (vobj s (the cur))) (cur_off + vmo_shadow_offset (vobj s (the cur))))
      })"

text \<open>The page contents a fault starts from: a copy of the shadow's page or zeros.\<close>
definition fill_page :: "nat option \<Rightarrow> nat \<Rightarrow> vm_state \<Rightarrow> vm_state" where
  "fill_page shadow_page phys s =
     (case shadow_page of
        Some sp \<Rightarrow> if vmp_phys_addr (vpage s sp) \<noteq> 0
          then s\<lparr>vpm := copy_page phys (vmp_phys_addr (vpage s sp)) (vpm s)\<rparr>
          else s\<lparr>vpm := zero_page phys (vpm s)\<rparr>
      | None \<Rightarrow> s\<lparr>vpm := zero_page phys (vpm s)\<rparr>)"

definition vm_object_fault :: "nat option \<Rightarrow> u64 \<Rightarrow> u32 \<Rightarrow> bool \<Rightarrow> vm_state \<Rightarrow> (chimera_error \<times> nat option \<times> vm_state) option" where
  "vm_object_fault r offset fault_type out s =
     (case r of
        None \<Rightarrow> Some (CHIMERA_ERR_INVALID, None, s)
      | Some obj \<Rightarrow>
          if \<not> out then Some (CHIMERA_ERR_INVALID, None, s)
          else do {
            page \<leftarrow> vm_object_lookup_page r offset s;
            (if page \<noteq> None then Some (CHIMERA_SUCCESS, page, s)
             else do {
               shadow_page \<leftarrow> vm_object_resolve_shadow s r offset;
               let (phys, pm) = pm_alloc (vpm s);
               let s = s\<lparr>vpm := pm\<rparr>;
               (if failed_alloc phys then Some (CHIMERA_ERR_NOMEM, None, s)
                else do {
                  let s = fill_page shadow_page phys s;
                  (a, k) \<leftarrow> kalloc SIZEOF_OBJ_PAGE (vkm s);
                  let s = set_vkm k s;
                  (if a = 0 then Some (CHIMERA_ERR_NOMEM, None,
                      set_vkm ((vkm s)\<lparr>km_pmm := pmm_release_page phys (km_pmm (vkm s))\<rparr>) s)
                   else do {
                     let s = s\<lparr>vpage := (vpage s)(a := zero_obj_page\<lparr>vmp_phys_addr := phys, vmp_object := r,
                       vmp_offset := offset, vmp_flags := VM_PAGE_PMAPPED, vmp_next := vmo_pages (vobj s obj)\<rparr>)\<rparr>;
                     Some (CHIMERA_SUCCESS, Some a, upd_obj obj (\<lambda>ob. ob\<lparr>vmo_pages := Some a,
                       vmo_page_count := vmo_page_count ob + 1, vmo_faults := vmo_faults ob + 1\<rparr>) s)
                   })
                })
             })
          })"

definition vm_object_sync :: "nat option \<Rightarrow> vm_state \<Rightarrow> chimera_error" where
  "vm_object_sync r s =
     (case r of
        None \<Rightarrow> CHIMERA_ERR_INVALID
      | Some obj \<Rightarrow> if vmo_signature (vobj s obj) \<noteq> CHIMERA_VM_OBJECT_MAGIC then CHIMERA_ERR_INVALID else CHIMERA_SUCCESS)"

end
