(* ===== verification/Vm_Map.thy ===== *)
theory Vm_Map
  imports Vm_Object
begin

text \<open>
  Address maps, \<^verbatim>\<open>kernel/mm/vm_map.c\<close>: a doubly linked list of entries, ordered by start address,
  with the page tables below. Structures live in the typed heaps of \<open>vm_state\<close>.
\<close>

unbundle bit_operations_syntax

definition SIZEOF_VM_MAP :: nat where "SIZEOF_VM_MAP = 120"
definition SIZEOF_VM_MAP_ENTRY :: nat where "SIZEOF_VM_MAP_ENTRY = 64"

definition zero_entry :: vm_map_entry where
  "zero_entry = \<lparr>vme_prev = None, vme_next = None, vme_start = 0, vme_end = 0, vme_object = None, vme_offset = 0,
     vme_prot = 0, vme_max_prot = 0, vme_inheritance = 0, vme_flags = 0\<rparr>"

definition upd_ent :: "nat \<Rightarrow> (vm_map_entry \<Rightarrow> vm_map_entry) \<Rightarrow> vm_state \<Rightarrow> vm_state" where
  "upd_ent a f s = s\<lparr>vent := (vent s)(a := f (vent s a))\<rparr>"

definition upd_map :: "nat \<Rightarrow> (vm_map \<Rightarrow> vm_map) \<Rightarrow> vm_state \<Rightarrow> vm_state" where
  "upd_map a f s = s\<lparr>vmap := (vmap s)(a := f (vmap s a))\<rparr>"

definition round_page :: "u64 \<Rightarrow> u64" where
  "round_page x = (x + 4095) AND NOT 4095"

section \<open>Creation and destruction\<close>

definition vm_map_init :: "vm_state \<Rightarrow> vm_state" where
  "vm_map_init s =
     (if s_vm_map_initialized s then s
      else let (z, s) = v_zinit SIZEOF_VM_MAP ''vm_maps'' s;
               (ze, s) = v_zinit SIZEOF_VM_MAP_ENTRY ''vm_map_entries'' (s\<lparr>s_vm_map_zone := z\<rparr>)
           in s\<lparr>s_vm_map_entry_zone := ze, s_vm_map_initialized := True\<rparr>)"

definition vm_map_create :: "u64 \<Rightarrow> u64 \<Rightarrow> u64 \<Rightarrow> vm_state \<Rightarrow> (nat option \<times> vm_state) option" where
  "vm_map_create pmap mn mx s = do {
     let s = (if s_vm_map_initialized s then s else vm_map_init s);
     (r, s) \<leftarrow> v_zalloc (s_vm_map_zone s) s;
     (case r of
        None \<Rightarrow> Some (None, s)
      | Some m \<Rightarrow> Some (Some m, upd_map m (\<lambda>_. \<lparr>vmm_header = None, vmm_pmap = pmap, vmm_size = 0, vmm_nentries = 0,
          vmm_ref_count = 1, vmm_min_offset = mn, vmm_max_offset = mx\<rparr>) s))
   }"

definition vm_map_reference :: "nat option \<Rightarrow> vm_state \<Rightarrow> vm_state" where
  "vm_map_reference r s =
     (case r of None \<Rightarrow> s | Some m \<Rightarrow> upd_map m (\<lambda>v. v\<lparr>vmm_ref_count := vmm_ref_count v + 1\<rparr>) s)"

partial_function (option) destroy_entries :: "nat option \<Rightarrow> vm_state \<Rightarrow> vm_state option" where
  "destroy_entries entry s =
     (if entry = None then Some s
      else let e = the entry; nxt = vme_next (vent s e) in do {
        s \<leftarrow> (if vme_object (vent s e) = None then Some s else vm_object_deallocate (vme_object (vent s e)) s);
        destroy_entries nxt (v_zfree (s_vm_map_entry_zone s) e s)
      })"

definition vm_map_destroy :: "nat option \<Rightarrow> vm_state \<Rightarrow> vm_state option" where
  "vm_map_destroy r s =
     (case r of
        None \<Rightarrow> Some s
      | Some m \<Rightarrow> do {
          s \<leftarrow> destroy_entries (vmm_header (vmap s m)) s;
          let s = upd_map m (\<lambda>v. v\<lparr>vmm_header := None, vmm_nentries := 0\<rparr>) s;
          Some (v_zfree (s_vm_map_zone s) m s)
        })"

definition vm_map_deallocate :: "nat option \<Rightarrow> vm_state \<Rightarrow> vm_state option" where
  "vm_map_deallocate r s =
     (case r of
        None \<Rightarrow> Some s
      | Some m \<Rightarrow>
          if vmm_ref_count (vmap s m) > 0 then
            (let s = upd_map m (\<lambda>v. v\<lparr>vmm_ref_count := vmm_ref_count v - 1\<rparr>) s in
             if vmm_ref_count (vmap s m) = 0 then vm_map_destroy r s else Some s)
          else Some s)"

section \<open>Entering a range\<close>

text \<open>The first-fit scan for an address that was given as 0.\<close>
partial_function (option) auto_start :: "vm_state \<Rightarrow> u64 \<Rightarrow> nat option \<Rightarrow> u64 \<Rightarrow> u64 option" where
  "auto_start s sz cur start =
     (if cur = None then Some start
      else let e = vent s (the cur) in
        auto_start s sz (vme_next e)
          (if start < vme_end e \<and> start + sz > vme_start e then round_page (vme_end e) else start))"

text \<open>The insertion point: predecessor and successor.\<close>
partial_function (option) enter_pos :: "vm_state \<Rightarrow> u64 \<Rightarrow> nat option \<Rightarrow> nat option \<Rightarrow> (nat option \<times> nat option) option" where
  "enter_pos s start prv cur =
     (if cur = None \<or> \<not> vme_start (vent s (the cur)) < start then Some (prv, cur)
      else enter_pos s start cur (vme_next (vent s (the cur))))"

definition link_entry :: "nat \<Rightarrow> nat \<Rightarrow> nat option \<Rightarrow> nat option \<Rightarrow> vm_state \<Rightarrow> vm_state" where
  "link_entry m e prv cur s =
     (let s = upd_ent e (\<lambda>en. en\<lparr>vme_prev := prv, vme_next := cur\<rparr>) s;
          s = (case prv of
                 Some p \<Rightarrow> upd_ent p (\<lambda>en. en\<lparr>vme_next := Some e\<rparr>) s
               | None \<Rightarrow> upd_map m (\<lambda>v. v\<lparr>vmm_header := Some e\<rparr>) s)
      in case cur of
           Some c \<Rightarrow> upd_ent c (\<lambda>en. en\<lparr>vme_prev := Some e\<rparr>) s
         | None \<Rightarrow> s)"

text \<open>The result carries the value of \<^verbatim>\<open>*address\<close> after the call; \<open>address = None\<close> is the null pointer.\<close>
definition vm_map_enter :: "nat option \<Rightarrow> u64 option \<Rightarrow> u64 \<Rightarrow> nat option \<Rightarrow> u64 \<Rightarrow> u32 \<Rightarrow> u32 \<Rightarrow> u32 \<Rightarrow> vm_state \<Rightarrow>
    (chimera_error \<times> u64 option \<times> vm_state) option" where
  "vm_map_enter mp address sz object offset cur_protection max_protection inheritance s =
     (if mp = None \<or> address = None \<or> sz = 0 then Some (CHIMERA_ERR_INVALID, address, s)
      else let m = the mp; sz = round_page sz; start = the address in do {
        start \<leftarrow> (if start = 0 then auto_start s sz (vmm_header (vmap s m)) 0x90000000 else Some start);
        (r, s) \<leftarrow> v_zalloc (s_vm_map_entry_zone s) s;
        (case r of
           None \<Rightarrow> Some (CHIMERA_ERR_NOMEM, Some start, s)
         | Some e \<Rightarrow> do {
             let s = upd_ent e (\<lambda>_. zero_entry\<lparr>vme_start := start, vme_end := start + sz, vme_object := object,
               vme_offset := offset, vme_prot := cur_protection, vme_max_prot := max_protection,
               vme_inheritance := inheritance\<rparr>) s;
             let s = (if object = None then s else vm_object_reference object s);
             (prv, cur) \<leftarrow> enter_pos s start None (vmm_header (vmap s m));
             let s = link_entry m e prv cur s;
             Some (CHIMERA_SUCCESS, Some start, upd_map m (\<lambda>v. v\<lparr>vmm_nentries := vmm_nentries v + 1,
               vmm_size := vmm_size v + sz\<rparr>) s)
           })
      })"

section \<open>Removing, protecting, forking\<close>

definition unlink_entry :: "nat \<Rightarrow> nat \<Rightarrow> vm_state \<Rightarrow> vm_state" where
  "unlink_entry m c s =
     (let s = (case vme_prev (vent s c) of
                 Some p \<Rightarrow> upd_ent p (\<lambda>en. en\<lparr>vme_next := vme_next (vent s c)\<rparr>) s
               | None \<Rightarrow> upd_map m (\<lambda>v. v\<lparr>vmm_header := vme_next (vent s c)\<rparr>) s)
      in case vme_next (vent s c) of
           Some n \<Rightarrow> upd_ent n (\<lambda>en. en\<lparr>vme_prev := vme_prev (vent s c)\<rparr>) s
         | None \<Rightarrow> s)"

partial_function (option) remove_loop :: "nat \<Rightarrow> u64 \<Rightarrow> u64 \<Rightarrow> nat option \<Rightarrow> vm_state \<Rightarrow> vm_state option" where
  "remove_loop m start va_end cur s =
     (if cur = None then Some s
      else let c = the cur; nxt = vme_next (vent s c) in
        if vme_start (vent s c) \<ge> start \<and> vme_end (vent s c) \<le> va_end then do {
          let s = unlink_entry m c s;
          let len = vme_end (vent s c) - vme_start (vent s c);
          let s = upd_map m (\<lambda>v. v\<lparr>vmm_size := (if vmm_size v \<ge> len then vmm_size v - len else vmm_size v),
            vmm_nentries := vmm_nentries v - 1\<rparr>) s;
          s \<leftarrow> (if vme_object (vent s c) = None then Some s else vm_object_deallocate (vme_object (vent s c)) s);
          remove_loop m start va_end nxt (v_zfree (s_vm_map_entry_zone s) c s)
        }
        else remove_loop m start va_end nxt s)"

definition vm_map_remove :: "nat option \<Rightarrow> u64 \<Rightarrow> u64 \<Rightarrow> vm_state \<Rightarrow> (chimera_error \<times> vm_state) option" where
  "vm_map_remove mp start va_end s =
     (if mp = None \<or> start \<ge> va_end then Some (CHIMERA_ERR_INVALID, s)
      else let m = the mp; start = start AND NOT 4095; va_end = round_page va_end in do {
        s \<leftarrow> remove_loop m start va_end (vmm_header (vmap s m)) s;
        s \<leftarrow> (if vmm_pmap (vmap s m) = 0 then Some s
              else do { p \<leftarrow> pmap_unmap_user_range (vmm_pmap (vmap s m)) start (va_end - start) (vpm s); Some (s\<lparr>vpm := p\<rparr>) });
        Some (CHIMERA_SUCCESS, s)
      })"

partial_function (option) protect_loop :: "u64 \<Rightarrow> u64 \<Rightarrow> u32 \<Rightarrow> bool \<Rightarrow> nat option \<Rightarrow> vm_state \<Rightarrow> vm_state option" where
  "protect_loop start va_end new_prot set_max cur s =
     (if cur = None then Some s
      else let c = the cur;
               s = (if vme_start (vent s c) < va_end \<and> vme_end (vent s c) > start
                    then upd_ent c (\<lambda>en. if set_max then en\<lparr>vme_max_prot := new_prot\<rparr> else en\<lparr>vme_prot := new_prot\<rparr>) s
                    else s)
           in protect_loop start va_end new_prot set_max (vme_next (vent s c)) s)"

definition vm_map_protect :: "nat option \<Rightarrow> u64 \<Rightarrow> u64 \<Rightarrow> u32 \<Rightarrow> bool \<Rightarrow> vm_state \<Rightarrow> (chimera_error \<times> vm_state) option" where
  "vm_map_protect mp start va_end new_prot set_max s =
     (if mp = None \<or> start \<ge> va_end then Some (CHIMERA_ERR_INVALID, s)
      else let m = the mp; start = start AND NOT 4095; va_end = round_page va_end in do {
        s \<leftarrow> protect_loop start va_end new_prot set_max (vmm_header (vmap s m)) s;
        s \<leftarrow> (if vmm_pmap (vmap s m) = 0 then Some s
              else do { (r, p) \<leftarrow> pmap_protect_user_range (vmm_pmap (vmap s m)) start (va_end - start) new_prot (vpm s);
                        Some (s\<lparr>vpm := p\<rparr>) });
        Some (CHIMERA_SUCCESS, s)
      })"

partial_function (option) fork_loop :: "nat option \<Rightarrow> nat option \<Rightarrow> vm_state \<Rightarrow> vm_state option" where
  "fork_loop dst src_entry s =
     (if src_entry = None then Some s
      else let e = vent s (the src_entry) in do {
        s \<leftarrow> (if vme_inheritance e = VM_INHERIT_NONE then Some s
              else do {
                (err, addr, s) \<leftarrow> vm_map_enter dst (Some (vme_start e)) (vme_end e - vme_start e) (vme_object e) (vme_offset e)
                  (vme_prot e) (vme_max_prot e) (vme_inheritance e) s;
                Some s });
        fork_loop dst (vme_next (vent s (the src_entry))) s
      })"

definition vm_map_fork :: "nat option \<Rightarrow> vm_state \<Rightarrow> (nat option \<times> vm_state) option" where
  "vm_map_fork src s =
     (if src = None then Some (None, s)
      else do {
        (dst, s) \<leftarrow> vm_map_create 0 (vmm_min_offset (vmap s (the src))) (vmm_max_offset (vmap s (the src))) s;
        (if dst = None then Some (None, s)
         else do { s \<leftarrow> fork_loop dst (vmm_header (vmap s (the src))) s; Some (dst, s) })
      })"

end
