(* ===== verification/Vm_Map_Props.thy ===== *)
theory Vm_Map_Props
  imports Vm_Map Pmap_Ops Zone_Props
begin

text \<open>
  Address maps: the list of entries stays doubly linked, sorted and free of overlaps when \<^verbatim>\<open>vm_map_enter\<close>
  chooses the range itself or is given a free one.
\<close>

unbundle bit_operations_syntax

section \<open>The entries of a map\<close>

abbreviation first_of :: "vm_state \<Rightarrow> nat \<Rightarrow> nat" where "first_of s e \<equiv> unat (vme_start (vent s e))"
abbreviation end_of :: "vm_state \<Rightarrow> nat \<Rightarrow> nat" where "end_of s e \<equiv> unat (vme_end (vent s e))"

abbreviation links :: "vm_state \<Rightarrow> nat option \<Rightarrow> nat option \<Rightarrow> nat list \<Rightarrow> bool" where
  "links s \<equiv> dl (\<lambda>e. vme_next (vent s e)) (\<lambda>e. vme_prev (vent s e))"

text \<open>The ranges lie in order, one behind the other, in the lower half of the address space.\<close>
definition spans_ok :: "vm_state \<Rightarrow> nat list \<Rightarrow> bool" where
  "spans_ok s es \<longleftrightarrow> sorted_wrt (\<lambda>a b. end_of s a \<le> first_of s b) es \<and> (\<forall>e \<in> set es. first_of s e < end_of s e \<and> end_of s e \<le> 2 ^ 63)"

definition map_wf :: "vm_state \<Rightarrow> nat \<Rightarrow> nat list \<Rightarrow> bool" where
  "map_wf s m es \<longleftrightarrow> links s None (vmm_header (vmap s m)) es \<and> distinct es \<and> spans_ok s es \<and>
     vmm_nentries (vmap s m) = word_of_nat (length es) \<and> vmm_size (vmap s m) = (\<Sum>e\<leftarrow>es. vme_end (vent s e) - vme_start (vent s e))"

text \<open>The range of \<open>n\<close> bytes at \<open>a\<close> meets no entry.\<close>
definition clear_of :: "vm_state \<Rightarrow> nat set \<Rightarrow> nat \<Rightarrow> nat \<Rightarrow> bool" where
  "clear_of s es a n \<longleftrightarrow> (\<forall>e \<in> es. end_of s e \<le> a \<or> a + n \<le> first_of s e)"

lemma round_page_bounds:
  assumes "unat x + 4095 < 2 ^ 64"
  shows "unat x \<le> unat (round_page x)" and "unat (round_page x) < unat x + 4096"
proof -
  have "unat (x + 4095) = unat x + 4095" using assms by (simp add: unat_word_ariths)
  then have r: "unat (round_page x) = (unat x + 4095) div 4096 * 4096"
    using unat_page_base [of "x + 4095"] by (simp add: round_page_def page_of_def)
  show "unat x \<le> unat (round_page x)" "unat (round_page x) < unat x + 4096" unfolding r by simp_all
qed

section \<open>Choosing the address\<close>

lemma auto_start_clear:
  assumes "links s p h es" and "spans_ok s es" and "\<forall>e \<in> set es. end_of s e + unat sz + 4096 \<le> 2 ^ 63"
    and "unat start + unat sz \<le> 2 ^ 63" and "clear_of s ps (unat start) (unat sz)"
    and "\<forall>x \<in> ps. \<forall>y \<in> set es. end_of s x \<le> first_of s y"
  shows "\<exists>st. auto_start s sz h start = Some st \<and> unat st + unat sz \<le> 2 ^ 63 \<and> unat start \<le> unat st \<and>
    clear_of s (ps \<union> set es) (unat st) (unat sz)"
  using assms
proof (induction es arbitrary: p h start ps)
  case Nil
  then show ?case by (simp add: auto_start.simps)
next
  case (Cons e es)
  define st where "st = (if start < vme_end (vent s e) \<and> start + sz > vme_start (vent s e) then round_page (vme_end (vent s e)) else start)"
  have add: "unat (start + sz) = unat start + unat sz" using Cons.prems(4) by (simp add: unat_word_ariths)
  have e: "first_of s e < end_of s e" "end_of s e + unat sz + 4096 \<le> 2 ^ 63" "\<forall>y \<in> set es. end_of s e \<le> first_of s y"
    using Cons.prems(2,3) by (simp_all add: spans_ok_def)
  have rp: "end_of s e \<le> unat (round_page (vme_end (vent s e)))" "unat (round_page (vme_end (vent s e))) < end_of s e + 4096"
    by (rule round_page_bounds; use e(2) in simp)+
  have st: "unat st + unat sz \<le> 2 ^ 63" "unat start \<le> unat st" "clear_of s (insert e ps) (unat st) (unat sz)"
    using Cons.prems(4,5,6) rp e unfolding st_def clear_of_def
    by (auto simp: word_less_nat_alt add not_less split: if_splits)
  have "auto_start s sz h start = auto_start s sz (vme_next (vent s e)) st"
    using Cons.prems(1) by (subst auto_start.simps) (simp add: st_def Let_def)
  moreover have "\<exists>st'. auto_start s sz (vme_next (vent s e)) st = Some st' \<and> unat st' + unat sz \<le> 2 ^ 63 \<and> unat st \<le> unat st' \<and>
      clear_of s (insert e ps \<union> set es) (unat st') (unat sz)"
    by (rule Cons.IH [of "Some e"]) (use Cons.prems st e in \<open>auto simp: spans_ok_def\<close>)
  ultimately show ?case using st(2) by auto
qed

section \<open>The place in the list\<close>

lemma enter_pos_split:
  assumes "links s p h es"
  shows "\<exists>as bs. es = as @ bs \<and> enter_pos s start prv h =
      Some (if as = [] then prv else Some (last as), case bs of [] \<Rightarrow> None | b # _ \<Rightarrow> Some b) \<and>
      (\<forall>x \<in> set as. vme_start (vent s x) < start) \<and> (bs \<noteq> [] \<longrightarrow> start \<le> vme_start (vent s (hd bs)))"
  using assms
proof (induction es arbitrary: p h prv)
  case Nil
  then show ?case by (simp add: enter_pos.simps)
next
  case (Cons e es)
  show ?case
  proof (cases "vme_start (vent s e) < start")
    case True
    from Cons.IH [of "Some e" "vme_next (vent s e)" "Some e"] Cons.prems obtain as bs where
      ab: "es = as @ bs" "enter_pos s start (Some e) (vme_next (vent s e)) =
        Some (if as = [] then Some e else Some (last as), case bs of [] \<Rightarrow> None | b # _ \<Rightarrow> Some b)"
      "\<forall>x \<in> set as. vme_start (vent s x) < start" "bs \<noteq> [] \<longrightarrow> start \<le> vme_start (vent s (hd bs))" by auto
    then show ?thesis using Cons.prems True
      by (intro exI [of _ "e # as"] exI [of _ bs]) (simp add: enter_pos.simps [of s start prv] if_distrib [of Some])
  next
    case False
    then show ?thesis using Cons.prems
      by (intro exI [of _ "[]"] exI [of _ "e # es"]) (simp add: enter_pos.simps)
  qed
qed

lemma link_entry_fields:
  "vobj (link_entry m e prv cur s) = vobj s" "vme_start (vent (link_entry m e prv cur s) x) = vme_start (vent s x)"
  "vme_end (vent (link_entry m e prv cur s) x) = vme_end (vent s x)" "vme_object (vent (link_entry m e prv cur s) x) = vme_object (vent s x)"
  "vme_offset (vent (link_entry m e prv cur s) x) = vme_offset (vent s x)" "vme_prot (vent (link_entry m e prv cur s) x) = vme_prot (vent s x)"
  "vmm_nentries (vmap (link_entry m e prv cur s) m) = vmm_nentries (vmap s m)"
  "vmm_size (vmap (link_entry m e prv cur s) m) = vmm_size (vmap s m)"
  by (simp_all add: link_entry_def upd_ent_def upd_map_def Let_def split: option.splits)

lemma link_entry_next:
  "vme_next (vent (link_entry m e prv cur s) y) = (if prv = Some y then Some e else if y = e then cur else vme_next (vent s y))"
  by (cases prv; cases cur) (auto simp: link_entry_def upd_ent_def upd_map_def Let_def)

lemma link_entry_prev:
  "vme_prev (vent (link_entry m e prv cur s) y) = (if cur = Some y then Some e else if y = e then prv else vme_prev (vent s y))"
  by (cases prv; cases cur) (auto simp: link_entry_def upd_ent_def upd_map_def Let_def)

lemma link_entry_links:
  assumes "links s None (vmm_header (vmap s m)) (as @ bs)" and "distinct (as @ bs)" and "e \<notin> set (as @ bs)"
  defines "s' \<equiv> link_entry m e (if as = [] then None else Some (last as)) (case bs of [] \<Rightarrow> None | b # _ \<Rightarrow> Some b) s"
  shows "links s' None (vmm_header (vmap s' m)) (as @ e # bs)"
proof -
  have ne: "as \<noteq> [] \<Longrightarrow> last as \<noteq> e" "(case bs of [] \<Rightarrow> None | b # _ \<Rightarrow> Some b) \<noteq> Some e"
    using assms(3) by (auto split: list.splits)
  have "links s' None (if as = [] then Some e else vmm_header (vmap s m)) (as @ e # bs)"
  proof (rule dl_insert [OF assms(1-3)])
    show "vme_next (vent s' e) = (case bs of [] \<Rightarrow> None | b # _ \<Rightarrow> Some b)"
      "vme_prev (vent s' e) = (if as = [] then None else Some (last as))"
      using ne by (simp_all add: s'_def link_entry_next link_entry_prev)
    fix y
    assume y: "y \<in> set (as @ bs)"
    then show "vme_next (vent s' y) = (if as \<noteq> [] \<and> y = last as then Some e else vme_next (vent s y))"
      "vme_prev (vent s' y) = (if bs \<noteq> [] \<and> y = hd bs then Some e else vme_prev (vent s y))"
      using assms(3) by (auto simp: s'_def link_entry_next link_entry_prev split: list.splits)
  qed
  moreover have "vmm_header (vmap s' m) = (if as = [] then Some e else vmm_header (vmap s m))"
    by (simp add: s'_def link_entry_def upd_ent_def upd_map_def Let_def split: list.splits)
  ultimately show ?thesis by simp
qed

lemma spans_insert:
  assumes "spans_ok s (as @ bs)" and "\<forall>x \<in> set as. first_of s x < first_of s e" and "bs \<noteq> [] \<longrightarrow> first_of s e \<le> first_of s (hd bs)"
    and "clear_of s (set (as @ bs)) (first_of s e) (end_of s e - first_of s e)" and "first_of s e < end_of s e" "end_of s e \<le> 2 ^ 63"
  shows "spans_ok s (as @ e # bs)"
proof -
  have l: "end_of s x \<le> first_of s e" if "x \<in> set as" for x
    using assms(2,4,5) that by (force simp: clear_of_def)
  have r: "end_of s e \<le> first_of s y" if y: "y \<in> set bs" for y
  proof -
    obtain b bs' where bs: "bs = b # bs'" using y by (cases bs) simp_all
    have "first_of s b < end_of s b" using assms(1) bs by (simp add: spans_ok_def)
    then have "end_of s e \<le> first_of s b" using assms(3,4,5) bs by (force simp: clear_of_def)
    moreover have "first_of s b \<le> first_of s y"
      using assms(1) y bs by (auto simp: spans_ok_def sorted_wrt_append intro: less_imp_le order_trans)
    ultimately show ?thesis by simp
  qed
  from assms(1,5,6) l r show ?thesis by (auto simp: spans_ok_def sorted_wrt_append)
qed

section \<open>Entering a range\<close>

text \<open>Everything a map says about its entries depends on the entry and map heaps only.\<close>
lemma spans_cong:
  assumes "\<And>x. x \<in> set es \<Longrightarrow> vme_start (vent s' x) = vme_start (vent s x) \<and> vme_end (vent s' x) = vme_end (vent s x)"
  shows "spans_ok s' es = spans_ok s es"
proof -
  have "sorted_wrt (\<lambda>a b. end_of s' a \<le> first_of s' b) es = sorted_wrt (\<lambda>a b. end_of s a \<le> first_of s b) es"
    using assms by (intro iffI; elim sorted_wrt_mono_rel [rotated]) simp_all
  then show ?thesis using assms by (simp add: spans_ok_def)
qed

lemma reference_fields [simp]:
  "vent (vm_object_reference r s) = vent s" "vmap (vm_object_reference r s) = vmap s"
  by (simp_all add: vm_object_reference_def upd_obj_def split: option.splits)

lemma reference_rest:
  "vpm (vm_object_reference r s) = vpm s" "s_vm_map_entry_zone (vm_object_reference r s) = s_vm_map_entry_zone s"
  by (simp_all add: vm_object_reference_def upd_obj_def split: option.splits)

lemma link_entry_rest:
  "vpm (link_entry m e prv cur s) = vpm s" "s_vm_map_entry_zone (link_entry m e prv cur s) = s_vm_map_entry_zone s"
  by (simp_all add: link_entry_def upd_ent_def upd_map_def Let_def split: option.splits)

lemma zalloc_fields:
  assumes "v_zalloc z s = Some (r, s1)"
  shows "vent s1 = vent s" "vmap s1 = vmap s"
  using assms by (auto simp: v_zalloc_def set_vkm_def split: Option.bind_splits)

text \<open>The list operation behind \<^verbatim>\<open>vm_map_enter\<close>: the new entry goes to its place.\<close>
lemma enter_linked:
  assumes wf: "map_wf s m es" and e: "e \<notin> set es" and st: "vme_start (vent s e) = start" "vme_end (vent s e) = start + sz"
    and sz: "0 < unat sz" "unat start + unat sz \<le> 2 ^ 63" and cl: "clear_of s (set es) (unat start) (unat sz)"
  shows "\<exists>as bs prv cur. es = as @ bs \<and> enter_pos s start None (vmm_header (vmap s m)) = Some (prv, cur) \<and>
    map_wf (upd_map m (\<lambda>v. v\<lparr>vmm_nentries := vmm_nentries v + 1, vmm_size := vmm_size v + sz\<rparr>) (link_entry m e prv cur s)) m (as @ e # bs)"
proof -
  have l: "links s None (vmm_header (vmap s m)) es" using wf by (simp add: map_wf_def)
  from enter_pos_split [OF l, of start None] obtain as bs prv cur where ab: "es = as @ bs"
    "enter_pos s start None (vmm_header (vmap s m)) = Some (prv, cur)" "prv = (if as = [] then None else Some (last as))"
    "cur = (case bs of [] \<Rightarrow> None | b # _ \<Rightarrow> Some b)" "\<forall>x \<in> set as. vme_start (vent s x) < start"
    "bs \<noteq> [] \<longrightarrow> start \<le> vme_start (vent s (hd bs))" by auto
  define s1 where "s1 = link_entry m e prv cur s"
  define s2 where "s2 = upd_map m (\<lambda>v. v\<lparr>vmm_nentries := vmm_nentries v + 1, vmm_size := vmm_size v + sz\<rparr>) s1"
  have add: "unat (start + sz) = unat start + unat sz" using sz(2) by (simp add: unat_word_ariths)
  have d: "distinct (as @ bs)" "spans_ok s (as @ bs)" "vmm_nentries (vmap s m) = word_of_nat (length es)"
    "vmm_size (vmap s m) = (\<Sum>x\<leftarrow>es. vme_end (vent s x) - vme_start (vent s x))" using wf by (simp_all add: map_wf_def ab(1))
  have v: "vent s2 = vent s1" "vmm_header (vmap s2 m) = vmm_header (vmap s1 m)" by (simp_all add: s2_def upd_map_def)
  have f: "vme_start (vent s2 x) = vme_start (vent s x)" "vme_end (vent s2 x) = vme_end (vent s x)"
    and f1: "vme_start (vent s1 x) = vme_start (vent s x)" "vme_end (vent s1 x) = vme_end (vent s x)" for x
    unfolding v(1) by (simp_all add: s1_def link_entry_fields)
  have "links s1 None (vmm_header (vmap s1 m)) (as @ e # bs)"
    unfolding s1_def ab(3,4) using link_entry_links [of s m as bs e] l d(1) e ab(1) by simp
  moreover have "spans_ok s (as @ e # bs)"
    using ab(5,6) cl sz d(2) by (intro spans_insert) (simp_all add: st add ab(1) word_less_nat_alt word_le_nat_alt)
  then have "spans_ok s2 (as @ e # bs)" using spans_cong [of "as @ e # bs" s2 s] f by simp
  moreover have "vmm_nentries (vmap s2 m) = word_of_nat (length es) + 1" "vmm_size (vmap s2 m) = vmm_size (vmap s m) + sz"
    using d(3) by (simp_all add: s2_def upd_map_def s1_def link_entry_fields)
  ultimately have "map_wf s2 m (as @ e # bs)"
    using d(1,4) e ab(1) by (simp add: map_wf_def v f1 st add.commute add.left_commute)
  then show ?thesis using ab(1,2) unfolding s2_def s1_def by blast
qed

text \<open>A map whose entries are live elements of the entry zone.\<close>
definition map_inv :: "vm_state \<Rightarrow> (nat \<Rightarrow> nat option) \<Rightarrow> (nat \<Rightarrow> nat set) \<Rightarrow> nat \<Rightarrow> nat \<Rightarrow> nat list \<Rightarrow> bool" where
  "map_inv s own live z m es \<longleftrightarrow> map_wf s m es \<and> zinv (vkm s) own live \<and> s_vm_map_entry_zone s = Some z \<and>
     z < length (s_zone_table (vkm s)) \<and> z_elem_size (s_zone_table (vkm s) ! z) \<le> 4096 \<and> set es \<subseteq> live z"

text \<open>The caller asks for any address, and the map is not full, or names a range that is free.\<close>
definition may_enter :: "vm_state \<Rightarrow> nat list \<Rightarrow> u64 \<Rightarrow> u64 \<Rightarrow> bool" where
  "may_enter s es address sz \<longleftrightarrow> (if address = 0 then \<forall>x \<in> set es. end_of s x + unat (round_page sz) + 4096 \<le> 2 ^ 63
     else clear_of s (set es) (unat address) (unat (round_page sz)) \<and> unat address + unat (round_page sz) \<le> 2 ^ 63)"

lemma chosen_start:
  assumes wf: "map_wf s m es" and sz: "0 < sz" "unat sz \<le> 2 ^ 62" and may: "may_enter s es address sz"
  shows "\<exists>start. (if address = 0 then auto_start s (round_page sz) (vmm_header (vmap s m)) 0x90000000 else Some address) = Some start \<and>
    (address \<noteq> 0 \<longrightarrow> start = address) \<and> unat start + unat (round_page sz) \<le> 2 ^ 63 \<and> clear_of s (set es) (unat start) (unat (round_page sz))"
proof (cases "address = 0")
  case True
  have b: "unat (round_page sz) < unat sz + 4096" by (rule round_page_bounds) (use sz(2) in simp)
  have "links s None (vmm_header (vmap s m)) es" "spans_ok s es" using wf by (simp_all add: map_wf_def)
  from auto_start_clear [OF this, where sz = "round_page sz" and start = "0x90000000" and ps = "{}"] True may b sz(2) show ?thesis
    by (auto simp: may_enter_def clear_of_def)
qed (use may in \<open>auto simp: may_enter_def\<close>)

lemma map_wf_cong:
  assumes "map_wf s m es" and "\<And>x. x \<in> set es \<Longrightarrow> vent s' x = vent s x" and "vmap s' m = vmap s m"
  shows "map_wf s' m es"
proof -
  have "links s' None h es = links s None h es" for h using assms(2) by (intro dl_cong) simp_all
  moreover have "spans_ok s' es = spans_ok s es" using assms(2) by (intro spans_cong) simp
  moreover have "(\<Sum>e\<leftarrow>es. vme_end (vent s' e) - vme_start (vent s' e)) = (\<Sum>e\<leftarrow>es. vme_end (vent s e) - vme_start (vent s e))"
    using assms(2) by (intro arg_cong [where f = sum_list] map_cong) simp_all
  ultimately show ?thesis using assms(1,3) by (simp add: map_wf_def)
qed

lemma enter_success:
  assumes wf: "map_wf s m es" and sz: "0 < unat (round_page sz)" "sz \<noteq> 0"
    and st: "(if address = 0 then auto_start s (round_page sz) (vmm_header (vmap s m)) 0x90000000 else Some address) = Some start"
      "unat start + unat (round_page sz) \<le> 2 ^ 63" "clear_of s (set es) (unat start) (unat (round_page sz))"
    and al: "v_zalloc (s_vm_map_entry_zone s) s = Some (Some e, s1)" and e: "e \<notin> set es"
  shows "\<exists>s' as bs. vm_map_enter (Some m) (Some address) sz object offset prot max_prot inh s = Some (CHIMERA_SUCCESS, Some start, s') \<and>
    es = as @ bs \<and> map_wf s' m (as @ e # bs) \<and> vkm s' = vkm s1 \<and> s_vm_map_entry_zone s' = s_vm_map_entry_zone s1 \<and>
    vme_start (vent s' e) = start \<and> vme_end (vent s' e) = start + round_page sz \<and> vme_object (vent s' e) = object \<and>
    vme_offset (vent s' e) = offset \<and> vme_prot (vent s' e) = prot"
proof -
  define s2 where "s2 = upd_ent e (\<lambda>_. zero_entry\<lparr>vme_start := start, vme_end := start + round_page sz, vme_object := object,
    vme_offset := offset, vme_prot := prot, vme_max_prot := max_prot, vme_inheritance := inh\<rparr>) s1"
  define s3 where "s3 = (if object = None then s2 else vm_object_reference object s2)"
  note zf = zalloc_fields [OF al]
  have v3: "vent s3 = vent s2" "vmap s3 = vmap s" "vkm s3 = vkm s1" "s_vm_map_entry_zone s3 = s_vm_map_entry_zone s1"
    by (simp_all add: s3_def s2_def upd_ent_def zf reference_rest)
  have old: "vent s3 x = vent s x" if "x \<in> set es" for x using that e by (auto simp: v3(1) s2_def upd_ent_def zf)
  have new: "vent s3 e = zero_entry\<lparr>vme_start := start, vme_end := start + round_page sz, vme_object := object,
    vme_offset := offset, vme_prot := prot, vme_max_prot := max_prot, vme_inheritance := inh\<rparr>" by (simp add: v3(1) s2_def upd_ent_def)
  have wf3: "map_wf s3 m es" by (rule map_wf_cong [OF wf old]) (simp_all add: v3)
  have cl: "clear_of s3 (set es) (unat start) (unat (round_page sz))" using st(3) old by (simp add: clear_of_def)
  from enter_linked [OF wf3 e _ _ sz(1) st(2) cl] new obtain as bs prv cur where
    ab: "es = as @ bs" "enter_pos s3 start None (vmm_header (vmap s3 m)) = Some (prv, cur)" and
    w: "map_wf (upd_map m (\<lambda>v. v\<lparr>vmm_nentries := vmm_nentries v + 1, vmm_size := vmm_size v + round_page sz\<rparr>) (link_entry m e prv cur s3)) m (as @ e # bs)"
    by auto
  have c: "vm_map_enter (Some m) (Some address) sz object offset prot max_prot inh s = Some (CHIMERA_SUCCESS, Some start,
      upd_map m (\<lambda>v. v\<lparr>vmm_nentries := vmm_nentries v + 1, vmm_size := vmm_size v + round_page sz\<rparr>) (link_entry m e prv cur s3))"
    using sz(2) st(1) al ab(2) by (cases object) (simp_all add: vm_map_enter_def s2_def s3_def Let_def)
  show ?thesis
    by (rule exI, rule exI [of _ as], rule exI [of _ bs], intro conjI, rule c, rule ab(1), rule w)
      (simp_all add: link_entry_rest upd_map_def link_entry_fields v3(2-4) new)
qed


text \<open>An empty map on the memory of \<^const>\<open>demo_kmem\<close>; map entries come from the first zone.\<close>
definition demo_vm :: vm_state where
  "demo_vm = \<lparr>vpm = \<lparr>pk = zone_init demo_kmem, s_kernel_pml4_phys = 0, s_tramp_phys = 0, cpu_cr3 = 0, cpu_id = 0, cpu_active_cr3 = (\<lambda>_. 0)\<rparr>,
     vobj = (\<lambda>_. zero_object), vpage = (\<lambda>_. zero_obj_page), vent = (\<lambda>_. zero_entry),
     vmap = (\<lambda>_. \<lparr>vmm_header = None, vmm_pmap = 0, vmm_size = 0, vmm_nentries = 0, vmm_ref_count = 1, vmm_min_offset = 0, vmm_max_offset = 0\<rparr>),
     s_vm_obj_zone = None, s_vm_obj_initialized = False, s_vm_map_zone = None, s_vm_map_entry_zone = Some 0, s_vm_map_initialized = True\<rparr>"


end
