(* ===== verification/Copy.thy ===== *)
theory Copy
  imports Pmap
begin

text \<open>
  Transfers between user and kernel memory, \<^verbatim>\<open>kernel/mm/copy.c\<close>. The kernel buffer is a list of bytes:
  \<open>copyin\<close> and \<open>copyinstr\<close> return the bytes they have stored into it, also when they fail half-way;
  \<open>copyout\<close> is given its contents. User bytes are reached through the direct map, as in the code.
\<close>

unbundle bit_operations_syntax

definition USER_SPACE_MIN :: u64 where "USER_SPACE_MIN = 0x1000"
definition USER_SPACE_MAX :: u64 where "USER_SPACE_MAX = 0x00007FFFFFFFFFFF"
definition USER_STACK_MIN :: u64 where "USER_STACK_MIN = 0x00007FF000000000"
definition USER_STACK_MAX :: u64 where "USER_STACK_MAX = 0x00007FFFFFFFFFFF"

text \<open>The byte at a physical address, little endian.\<close>
definition pbyte :: "nat \<Rightarrow> pmap_state \<Rightarrow> u8" where
  "pbyte a s = ucast (drop_bit (8 * (a mod 8)) (rd (a - a mod 8) s))"

definition set_pbyte :: "nat \<Rightarrow> u8 \<Rightarrow> pmap_state \<Rightarrow> pmap_state" where
  "set_pbyte a b s =
     (let w = a - a mod 8; k = 8 * (a mod 8) in
      wr w ((rd w s AND NOT (push_bit k 0xFF)) OR push_bit k (ucast b)) s)"

fun set_pbytes :: "nat \<Rightarrow> u8 list \<Rightarrow> pmap_state \<Rightarrow> pmap_state" where
  "set_pbytes a [] s = s"
| "set_pbytes a (b # bs) s = set_pbytes (a + 1) bs (set_pbyte a b s)"

definition get_active_pml4 :: "pmap_state \<Rightarrow> u64" where
  "get_active_pml4 s = cpu_cr3 s AND NOT 0xFFF"

definition bad_range :: "u64 \<Rightarrow> u64 \<Rightarrow> bool" where
  "bad_range uaddr len \<longleftrightarrow> uaddr < USER_SPACE_MIN \<or> len > USER_SPACE_MAX - USER_SPACE_MIN \<or> uaddr > USER_SPACE_MAX - len"

definition chunk_len :: "u64 \<Rightarrow> nat \<Rightarrow> nat" where
  "chunk_len uaddr remaining = (let chunk = 4096 - unat (uaddr AND 0xFFF) in if chunk > remaining then remaining else chunk)"

lemma chunk_len_pos: "0 < remaining \<Longrightarrow> 0 < chunk_len uaddr remaining"
proof -
  have "uaddr AND 0xFFF = take_bit 12 uaddr" by (simp add: take_bit_eq_mask mask_eq_exp_minus_1)
  then have "unat (uaddr AND 0xFFF) < 2 ^ 12" by (simp only: unsigned_take_bit_eq take_bit_nat_less_exp)
  then show "0 < remaining \<Longrightarrow> 0 < chunk_len uaddr remaining" by (simp add: chunk_len_def Let_def)
qed

section \<open>copyin\<close>

function copyin_loop :: "u64 \<Rightarrow> u64 \<Rightarrow> nat \<Rightarrow> pmap_state \<Rightarrow> chimera_error \<times> u8 list" where
  "copyin_loop pml4 uaddr remaining s =
     (if remaining = 0 then (CHIMERA_SUCCESS, [])
      else let phys = pmap_extract pml4 uaddr s in
      if phys = 0 then (CHIMERA_ERR_INVALID, [])
      else let page_offset = unat (uaddr AND 0xFFF);
               chunk = chunk_len uaddr remaining;
               src = unat (phys AND NOT 0xFFF) + page_offset;
               (err, rest) = copyin_loop pml4 (uaddr + word_of_nat chunk) (remaining - chunk) s
           in (err, map (\<lambda>i. pbyte (src + i) s) [0..<chunk] @ rest))"
  by pat_completeness auto
termination
  by (relation "measure (\<lambda>(p, u, r, s). r)") (auto intro!: diff_less chunk_len_pos)

declare copyin_loop.simps [simp del]

text \<open>\<open>kaddr\<close> says whether the kernel pointer is not null.\<close>
definition copyin :: "u64 \<Rightarrow> bool \<Rightarrow> u64 \<Rightarrow> pmap_state \<Rightarrow> chimera_error \<times> u8 list" where
  "copyin uaddr kaddr len s =
     (if uaddr = 0 \<or> \<not> kaddr \<or> len = 0 then (CHIMERA_ERR_INVALID, [])
      else if bad_range uaddr len then (CHIMERA_ERR_INVALID, [])
      else copyin_loop (get_active_pml4 s) uaddr (unat len) s)"

section \<open>copyout\<close>

text \<open>The frame a page of the destination is written through: a fresh stack page, the private copy of a
  copy-on-write page, or the page itself when it is writable; \<open>None\<close> is the failure return.\<close>
definition copyout_frame :: "u64 \<Rightarrow> u64 \<Rightarrow> pmap_state \<Rightarrow> u64 option \<times> pmap_state" where
  "copyout_frame pml4 uaddr s =
     (let pte = (case pmap_get_pte_ptr pml4 uaddr s of None \<Rightarrow> 0 | Some a \<Rightarrow> rd a s) in
      if \<not> has pte PAGE_PRESENT then
        (let page_vaddr = uaddr AND NOT 0xFFF in
         if page_vaddr \<ge> USER_STACK_MIN \<and> page_vaddr \<le> USER_STACK_MAX then
           (let (new_paddr, s) = pm_alloc s in
            if failed_alloc new_paddr then (None, s)
            else let s = zero_page new_paddr s;
                     (r, s) = pmap_map_user_page pml4 page_vaddr (word_of_nat new_paddr)
                                (PAGE_PRESENT OR PAGE_WRITE OR PAGE_USER OR PAGE_NX) s
                 in if r = 0 then (None, pm_release (word_of_nat new_paddr) s)
                 else (Some (word_of_nat new_paddr), s))
         else (None, s))
      else if \<not> has pte PAGE_WRITE then
        (if has pte PAGE_COW then
           (let (ok, s) = pmap_handle_cow_fault pml4 (uaddr AND NOT 0xFFF) s in
            if \<not> ok then (None, s)
            else let pte = (case pmap_get_pte_ptr pml4 uaddr s of None \<Rightarrow> 0 | Some a \<Rightarrow> rd a s) in
              if \<not> has pte PAGE_PRESENT \<or> \<not> has pte PAGE_WRITE then (None, s)
              else (Some (pte AND PTE_PHYS_MASK), s))
         else (None, s))
      else (Some (pte AND PTE_PHYS_MASK), s))"

function copyout_loop :: "u64 \<Rightarrow> u64 \<Rightarrow> u8 list \<Rightarrow> pmap_state \<Rightarrow> chimera_error \<times> pmap_state" where
  "copyout_loop pml4 uaddr bs s =
     (if bs = [] then (CHIMERA_SUCCESS, s)
      else case copyout_frame pml4 uaddr s of
        (None, s) \<Rightarrow> (CHIMERA_ERR_INVALID, s)
      | (Some phys, s) \<Rightarrow>
          (let chunk = chunk_len uaddr (length bs);
               s = set_pbytes (unat phys + unat (uaddr AND 0xFFF)) (take chunk bs) s
           in copyout_loop pml4 (uaddr + word_of_nat chunk) (drop chunk bs) s))"
  by pat_completeness auto
termination
  by (relation "measure (\<lambda>(p, u, bs, s). length bs)") (auto intro!: diff_less chunk_len_pos)

declare copyout_loop.simps [simp del]

text \<open>The length is that of the buffer; \<open>kaddr\<close> says whether the kernel pointer is not null.\<close>
definition copyout :: "bool \<Rightarrow> u8 list \<Rightarrow> u64 \<Rightarrow> pmap_state \<Rightarrow> chimera_error \<times> pmap_state" where
  "copyout kaddr bs uaddr s =
     (if uaddr = 0 \<or> \<not> kaddr \<or> bs = [] then (CHIMERA_ERR_INVALID, s)
      else if bad_range uaddr (word_of_nat (length bs)) then (CHIMERA_ERR_INVALID, s)
      else copyout_loop (get_active_pml4 s) uaddr bs s)"

section \<open>copyinstr\<close>

text \<open>The bytes of one page, up to and including a terminator; the flag tells whether it was found.\<close>
fun str_page :: "nat \<Rightarrow> nat \<Rightarrow> nat \<Rightarrow> pmap_state \<Rightarrow> u8 list \<times> bool" where
  "str_page src 0 left s = ([], False)"
| "str_page src (Suc page_remain) 0 s = ([], False)"
| "str_page src (Suc page_remain) (Suc left) s =
     (let c = pbyte src s in
      if c = 0 then ([c], True)
      else let (cs, found) = str_page (src + 1) page_remain left s in (c # cs, found))"

lemma str_page_length: "str_page src n m s = (cs, False) \<Longrightarrow> length cs = min n m"
  by (induction src n m s arbitrary: cs rule: str_page.induct) (auto simp: Let_def split: prod.splits if_splits)

lemma str_page_progress:
  fixes uaddr :: u64
  assumes "0 < left" and "str_page src (4096 - unat (uaddr AND 0xFFF)) left s = (cs, False)"
  shows "0 < length cs"
proof -
  have "0 < chunk_len uaddr left" by (rule chunk_len_pos [OF assms(1)])
  then show ?thesis using str_page_length [OF assms(2)] assms(1) by (auto simp: chunk_len_def Let_def split: if_splits)
qed

function copyinstr_loop :: "u64 \<Rightarrow> u64 \<Rightarrow> nat \<Rightarrow> pmap_state \<Rightarrow> chimera_error \<times> u8 list" where
  "copyinstr_loop pml4 uaddr left s =
     (if left = 0 then (CHIMERA_ERR_RANGE, [])
      else if uaddr \<ge> USER_SPACE_MAX then (CHIMERA_ERR_INVALID, [])
      else let phys = pmap_extract pml4 uaddr s in
      if phys = 0 then (CHIMERA_ERR_INVALID, [])
      else let page_offset = unat (uaddr AND 0xFFF) in
        case str_page (unat (phys AND NOT 0xFFF) + page_offset) (4096 - page_offset) left s of
          (cs, True) \<Rightarrow> (CHIMERA_SUCCESS, cs)
        | (cs, False) \<Rightarrow>
            (let (err, rest) = copyinstr_loop pml4 (uaddr + word_of_nat (length cs)) (left - length cs) s
             in (err, cs @ rest)))"
  by pat_completeness auto
termination
  by (relation "measure (\<lambda>(p, u, l, s). l)") (auto intro!: diff_less dest: str_page_progress [OF _ sym])

declare copyinstr_loop.simps [simp del]

text \<open>The third component is \<^verbatim>\<open>*lencopied\<close>, when it is stored.\<close>
definition copyinstr :: "u64 \<Rightarrow> bool \<Rightarrow> u64 \<Rightarrow> pmap_state \<Rightarrow> chimera_error \<times> u8 list \<times> nat option" where
  "copyinstr uaddr kaddr maxlen s =
     (if uaddr = 0 \<or> \<not> kaddr \<or> maxlen = 0 then (CHIMERA_ERR_INVALID, [], None)
      else if uaddr < USER_SPACE_MIN \<or> uaddr \<ge> USER_SPACE_MAX then (CHIMERA_ERR_INVALID, [], None)
      else let (err, cs) = copyinstr_loop (get_active_pml4 s) uaddr (unat maxlen) s
           in (err, cs, if err = CHIMERA_ERR_INVALID then None else Some (length cs)))"

end
