(* ===== verification/Copyout.thy ===== *)
theory Copyout
  imports Copy Pmap_Range
begin

text \<open>
  What \<^verbatim>\<open>copyout\<close> does to the page tables and to the frames: the stores reach only frames that the active address
  space may write to.
\<close>

unbundle bit_operations_syntax

section \<open>Stores to pages that are not tables\<close>

lemma rd_set_pbytes:
  assumes "4096 dvd f" and "off + length bs \<le> 4096" and "\<not> (f \<le> x \<and> x < f + 4096)"
  shows "rd x (set_pbytes (f + off) bs s) = rd x s"
  using assms(2)
proof (induction bs arbitrary: off s)
  case (Cons b bs)
  let ?a = "f + off"
  have "?a mod 8 = off mod 8" using dvd_trans [of 8 4096 f] assms(1) mod_add_left_eq [of f 8 off] by simp
  then have "f \<le> ?a - ?a mod 8" "?a - ?a mod 8 < f + 4096" using Cons.prems by (simp_all add: mod_less_eq_dividend less_imp_diff_less)
  then have "x \<noteq> ?a - ?a mod 8" using assms(3) by auto
  then have "rd x (set_pbyte ?a b s) = rd x s" by (simp add: set_pbyte_def Let_def rd_wr)
  with Cons.IH [of "Suc off" "set_pbyte ?a b s"] Cons.prems show ?case by simp
qed simp

lemma set_pbytes_fields [simp]:
  "pmm_of (set_pbytes a bs s) = pmm_of s" "s_tramp_phys (set_pbytes a bs s) = s_tramp_phys s"
  by (induction bs arbitrary: a s) (simp_all add: set_pbyte_def Let_def)

text \<open>The invariant and the translations depend on the tables only.\<close>
lemma pt_inv_data:
  assumes inv: "pt_inv s T" and p: "pmm_of s' = pmm_of s" and tr: "s_tramp_phys s' = s_tramp_phys s"
    and rds: "\<And>t x. t \<in> dom T \<Longrightarrow> x < 4096 \<Longrightarrow> rd (t + x) s' = rd (t + x) s"
  shows "pt_inv s' T" and "root_of T root \<Longrightarrow> va < USER_TOP \<Longrightarrow> user_pte root va s' = user_pte root va s"
    and "spare s' T f = spare s T f"
proof -
  have r: "T t = Some y \<Longrightarrow> i < 512 \<Longrightarrow> rd (t + 8 * i) s' = rd (t + 8 * i) s" for t y i using rds [of t "8 * i"] by auto
  have l: "leaf T t i \<Longrightarrow> rd (t + 8 * i) s' = rd (t + 8 * i) s" for t i using r by (auto simp: leaf_def)
  have ts: "tramp_slot T t i \<Longrightarrow> rd (t + 8 * i) s' = rd (t + 8 * i) s" for t i using r by (auto simp: tramp_slot_def)
  have lim: "i < lim p \<Longrightarrow> i < 512" for i p by (simp add: lim_def split: if_splits)
  have mg: "managed s' g = managed s g" "refs_of s' g = refs_of s g" "held s' g = held s g" for g
    by (simp_all add: managed_def refs_of_def held_def p)
  have "mapped s' T g = mapped s T g" for g using l by (auto simp: mapped_def)
  then show sp: "spare s' T f = spare s T f" for f by (simp add: spare_def mg tramp_refs_def tr)
  have "children_ok s' T" using inv r lim unfolding pt_inv_def children_ok_def by (metis (no_types, lifting))
  moreover have "parents_ok s' T" unfolding parents_ok_def
  proof (intro allI impI)
    fix g q p i
    assume "T g = Some (q, p @ [i])"
    then obtain f where "i < lim p" "T f = Some (q, p)" "has (rd (f + 8 * i) s) PAGE_PRESENT" "frame (rd (f + 8 * i) s) = g"
      using inv unfolding pt_inv_def parents_ok_def by metis
    moreover from this have "rd (f + 8 * i) s' = rd (f + 8 * i) s" using r lim by blast
    ultimately show "i < lim p \<and> (\<exists>f. T f = Some (q, p) \<and> has (rd (f + 8 * i) s') PAGE_PRESENT \<and> frame (rd (f + 8 * i) s') = g)"
      by (intro conjI exI [of _ f]) simp_all
  qed
  moreover have "leaves_ok s' T" using inv l by (simp add: pt_inv_def leaves_ok_def)
  moreover have "tramp_ok s' T" using inv ts by (simp add: pt_inv_def tramp_ok_def tr mg)
  moreover have "tables_ok s' T" using inv by (simp add: pt_inv_def tables_ok_def mg)
  ultimately show inv': "pt_inv s' T" using inv by (simp add: pt_inv_def p mg sp)
  assume root: "root_of T root" and va: "va < USER_TOP"
  show "user_pte root va s' = user_pte root va s"
  proof (cases "\<exists>t. T t = Some (frame root, path va)")
    case True
    then obtain t where t: "T t = Some (frame root, path va)" by auto
    then show ?thesis using user_pte_eq(1) [OF inv root va t] user_pte_eq(1) [OF inv' root va t] r [OF t, of "idx1 va"] by simp
  next
    case False
    then show ?thesis using user_pte_eq(2) [OF inv root va] user_pte_eq(2) [OF inv' root va] by auto
  qed
qed

lemma pt_inv_page_store:
  assumes "pt_inv s T" and "4096 dvd f" and "T f = None" and "pmm_of s' = pmm_of s" and "s_tramp_phys s' = s_tramp_phys s"
    and rds: "\<And>x. \<not> (f \<le> x \<and> x < f + 4096) \<Longrightarrow> rd x s' = rd x s"
  shows "pt_inv s' T" and "root_of T root \<Longrightarrow> va < USER_TOP \<Longrightarrow> user_pte root va s' = user_pte root va s"
    and "spare s' T g = spare s T g" and "4096 dvd g \<Longrightarrow> g \<noteq> f \<Longrightarrow> x < 4096 \<Longrightarrow> rd (g + x) s' = rd (g + x) s"
proof -
  show *: "rd (g + x) s' = rd (g + x) s" if "4096 dvd g" "g \<noteq> f" "x < 4096" for g x
  proof (rule rds, rule notI)
    assume "f \<le> g + x \<and> g + x < f + 4096"
    moreover from this have "g + x - f < 4096" by linarith
    ultimately have "g = f" using slot_page [OF that(1,3)] slot_page [OF assms(2), of "g + x - f"] by simp
    with that(2) show False by simp
  qed
  have "rd (t + x) s' = rd (t + x) s" if "t \<in> dom T" "x < 4096" for t x
    using * [of t x] table_D(4) [OF assms(1), of t] that assms(3) by fastforce
  note d = pt_inv_data [OF assms(1,4,5) this]
  show "pt_inv s' T" "root_of T root \<Longrightarrow> va < USER_TOP \<Longrightarrow> user_pte root va s' = user_pte root va s"
    "spare s' T g = spare s T g" by (rule d; assumption)+
qed

lemma chunk_store:
  assumes "pt_inv s T" and "4096 dvd f" and "T f = None" and "off + length bs \<le> 4096"
  defines "s' \<equiv> set_pbytes (f + off) bs s"
  shows "pt_inv s' T" and "root_of T root \<Longrightarrow> va < USER_TOP \<Longrightarrow> user_pte root va s' = user_pte root va s"
    and "4096 dvd g \<Longrightarrow> g \<noteq> f \<Longrightarrow> x < 4096 \<Longrightarrow> rd (g + x) s' = rd (g + x) s" and "pmm_of s' = pmm_of s"
proof -
  show pm: "pmm_of s' = pmm_of s" by (simp add: s'_def)
  have "s_tramp_phys s' = s_tramp_phys s" "\<And>x. \<not> (f \<le> x \<and> x < f + 4096) \<Longrightarrow> rd x s' = rd x s"
    by (simp add: s'_def, unfold s'_def, rule rd_set_pbytes [OF assms(2,4)])
  note d = pt_inv_page_store [OF assms(1-3) pm this]
  show "pt_inv s' T" "root_of T root \<Longrightarrow> va < USER_TOP \<Longrightarrow> user_pte root va s' = user_pte root va s"
    "4096 dvd g \<Longrightarrow> g \<noteq> f \<Longrightarrow> x < 4096 \<Longrightarrow> rd (g + x) s' = rd (g + x) s" by (rule d; assumption)+
qed

section \<open>The frame of one page\<close>

text \<open>From \<open>s\<close> to \<open>s'\<close> only the page of \<open>a\<close> in the address space \<open>root\<close> may have changed its translation, and only
  frames that were free, or became tables, may have changed their contents.\<close>
definition page_step :: "pmap_state \<Rightarrow> places \<Rightarrow> pmap_state \<Rightarrow> places \<Rightarrow> u64 \<Rightarrow> u64 \<Rightarrow> bool" where
  "page_step s T s' T' root a \<longleftrightarrow> pt_inv s' T' \<and> (\<forall>r. root_of T' r \<longleftrightarrow> root_of T r) \<and> (\<forall>g. managed s' g = managed s g) \<and>
     (\<forall>root' vb. root_of T root' \<longrightarrow> vb < USER_TOP \<longrightarrow> \<not> (frame root' = frame root \<and> page_of vb = page_of a) \<longrightarrow>
        user_pte root' vb s' = user_pte root' vb s) \<and>
     (\<forall>g x. 4096 dvd g \<longrightarrow> managed s g \<longrightarrow> refs_of s g \<noteq> 0 \<longrightarrow> T' g = None \<longrightarrow> x < 4096 \<longrightarrow> rd (g + x) s' = rd (g + x) s)"

text \<open>A frame the page may be written through: it is mapped writable, or copy on write and not shared, or it was free.\<close>
definition write_target :: "pmap_state \<Rightarrow> u64 \<Rightarrow> nat \<Rightarrow> bool" where
  "write_target s e f \<longleftrightarrow> has e PAGE_PRESENT \<and> frame e = f \<and> (has e PAGE_WRITE \<or> has e PAGE_COW \<and> \<not> cow_shared s e)
     \<or> managed s f \<and> refs_of s f = 0"

lemma page_step_refl: "pt_inv s T \<Longrightarrow> page_step s T s T root a"
  by (simp add: page_step_def)

lemma base_page:
  assumes "a < USER_TOP"
  shows "page_of (a AND NOT 0xFFF) = page_of a" and "a AND NOT 0xFFF < USER_TOP"
proof -
  show "page_of (a AND NOT 0xFFF) = page_of a" unfolding page_of_def [of "a AND NOT 0xFFF"] unat_page_base by simp
  have "unat (a AND NOT 0xFFF) \<le> unat a" unfolding unat_page_base page_of_def by (rule div_times_less_eq_dividend)
  with assms show "a AND NOT 0xFFF < USER_TOP" by (simp add: word_less_nat_alt)
qed

lemma step_cow:
  assumes inv: "pt_inv s T" and root: "root_of T root" and a: "a < USER_TOP"
    and call: "pmap_handle_cow_fault root (a AND NOT 0xFFF) s = (ok, s')"
  shows "page_step s T s' T root a" and "ok \<Longrightarrow> write_target s (user_pte root a s) (frame (user_pte root a s'))"
proof -
  note b = base_page [OF a]
  let ?e = "user_pte root a s" and ?e' = "user_pte root a s'"
  have eff: "cow_effect s T root (a AND NOT 0xFFF) ok s'" by (rule cow_fault_effect [OF inv root b(2) call])
  then have inv': "pt_inv s' T" by (simp add: cow_effect_def Let_def)
  have e: "user_pte root (a AND NOT 0xFFF) s = ?e" "user_pte root (a AND NOT 0xFFF) s' = ?e'"
    by (rule user_pte_cong [OF _ root root a b(2) refl b(1)], fact)+
  note eff = eff [unfolded cow_effect_def Let_def e b(1)]
  have "has (user_pte root (a AND NOT 0xFFF) s) PAGE_PRESENT" if ok
    using that call b(2) by (auto simp: pmap_handle_cow_fault_def user_pte_def split: option.splits if_splits)
  then have "ok \<Longrightarrow> has ?e PAGE_PRESENT" by (simp only: e(1))
  then show "ok \<Longrightarrow> write_target s ?e (frame ?e')"
    using eff by (auto simp: write_target_def split: if_splits)
  have "rd (g + x) s' = rd (g + x) s" if "4096 dvd g" "managed s g" "refs_of s g \<noteq> 0" "T g = None" "x < 4096" for g x
    using eff that by (cases "ok \<and> g = frame ?e'") (auto split: if_splits)
  then show "page_step s T s' T root a" using eff by (auto simp: page_step_def managed_def)
qed

text \<open>A frame just taken from the allocator and cleared is spare.\<close>
lemma fresh_page:
  assumes inv: "pt_inv s T" and al: "pm_alloc s = (f, s1)" and nf: "\<not> failed_alloc f"
  defines "s2 \<equiv> zero_page f s1"
  shows "4096 dvd f" "f \<noteq> 0" "f < 2 ^ 52" "managed s f" "refs_of s f = 0" "T f = None"
    and "pt_inv s2 T" "spare s2 T f = 1" "refs_of s2 f = 1"
    and "root_of T root \<Longrightarrow> va < USER_TOP \<Longrightarrow> user_pte root va s2 = user_pte root va s"
    and "4096 dvd g \<Longrightarrow> g \<noteq> f \<Longrightarrow> x < 4096 \<Longrightarrow> rd (g + x) s2 = rd (g + x) s" "managed s2 h = managed s h"
    and "s_tramp_phys s2 = s_tramp_phys s"
proof -
  have pmm: "pmm_inv (pmm_of s)" using inv by (simp add: pt_inv_def)
  note fl = pm_alloc_fields [OF al pmm]
  have f: "4096 dvd f" "f \<noteq> 0" "f < 2 ^ 52" "managed s f" "refs_of s f = 0" "pmm_inv (pmm_of s1)"
    and refs: "\<And>g. 4096 dvd g \<Longrightarrow> refs_of s1 g = (if g = f then 1 else refs_of s g)"
    using pmm al by (cases rule: pm_alloc_cases; use nf in \<open>simp add: failed_alloc_def\<close>)+
  note free = free_frame [OF inv f(1,4,5)]
  have "refs_of s g \<le> refs_of s1 g" for g
    using refs [of "g div 4096 * 4096"] f(5) by (auto simp: refs_of_def split: if_splits)
  then have inv1: "pt_inv s1 T" by (intro pt_inv_same_tables [OF inv f(6)]) (simp_all add: fl)
  have v1: "user_pte root va s1 = user_pte root va s" for root va
    by (simp add: user_pte_def pmap_get_pte_ptr_def Let_def fl)
  have "mapped s1 T f = mapped s T f" "tramp_refs s1 f = tramp_refs s f" by (simp_all add: mapped_def tramp_refs_def fl)
  then have sp1: "spare s1 T f = 1" using refs [OF f(1)] free(3,4) by (simp add: spare_def)
  have z: "pmm_of s2 = pmm_of s1" "s_tramp_phys s2 = s_tramp_phys s1" by (simp_all add: s2_def)
  note d = pt_inv_page_store [OF inv1 f(1) free(1) z, unfolded s2_def, OF rd_zero_page(2), folded s2_def]
  show "pt_inv s2 T" by (rule d(1))
  show "spare s2 T f = 1" using d(3) [of f] sp1 by simp
  show "root_of T root \<Longrightarrow> va < USER_TOP \<Longrightarrow> user_pte root va s2 = user_pte root va s" using d(2) v1 by simp
  show "4096 dvd g \<Longrightarrow> g \<noteq> f \<Longrightarrow> x < 4096 \<Longrightarrow> rd (g + x) s2 = rd (g + x) s" using d(4) fl(1) by simp
  show "refs_of s2 f = 1" using refs [OF f(1)] z by (simp add: refs_of_def)
  show "managed s2 h = managed s h" "s_tramp_phys s2 = s_tramp_phys s" using z fl by (simp_all add: managed_def)
  show "4096 dvd f" "f \<noteq> 0" "f < 2 ^ 52" "managed s f" "refs_of s f = 0" "T f = None" by (fact f free(1))+
qed

lemma alloc_fail_step:
  assumes inv: "pt_inv s T" and al: "pm_alloc s = (f, s1)" and f: "failed_alloc f"
  shows "page_step s T s1 T root a"
proof -
  have pmm: "pmm_inv (pmm_of s)" using inv by (simp add: pt_inv_def)
  note fl = pm_alloc_fields [OF al pmm]
  have "pmm_inv (pmm_of s1)" "\<And>g. refs_of s g \<le> refs_of s1 g"
    using pmm al by (cases rule: pm_alloc_cases; use f in simp)+
  then have "pt_inv s1 T" by (intro pt_inv_same_tables [OF inv]) (simp_all add: fl)
  then show ?thesis by (simp add: page_step_def managed_def fl user_pte_def pmap_get_pte_ptr_def Let_def)
qed

lemma map_call:
  assumes "pt_inv s T" and "root_of T root" and "0x1000 \<le> va" "va < USER_TOP"
    and "may_map (user_pte root va s) va pa fl s T" and "pmap_map_user_page root va pa fl s = (res, s')"
  obtains T' where "pt_inv s' T'" "res = 0" "grown s T s' T'"
  | T' where "pt_inv s' T'" "res = pa" "T' (frame pa) = None" "\<And>r. root_of T' r \<longleftrightarrow> root_of T r" "\<And>g. managed s' g = managed s g"
      "remapped s T s' T' root va ((pa AND PTE_PHYS_MASK) OR fl OR PAGE_PRESENT OR PAGE_USER)"
proof -
  from map_ok [OF assms(1-5) assms(6) [unfolded pmap_map_user_page_def]] obtain T' where
    T': "pt_inv s' T'" "\<forall>h q. T' h = Some (q, []) \<longrightarrow> T h = Some (q, [])" and
    c: "res = 0 \<and> grown s T s' T' \<or> res = pa \<and> remapped s T s' T' root va ((pa AND PTE_PHYS_MASK) OR fl OR PAGE_PRESENT OR PAGE_USER)
        \<and> T' (frame pa) = None \<and> s_max_phys_page (pmm_of s') = s_max_phys_page (pmm_of s)"
    by (elim exE conjE disjE) blast+
  from c show thesis
  proof (elim disjE conjE)
    assume m: "res = pa" "remapped s T s' T' root va ((pa AND PTE_PHYS_MASK) OR fl OR PAGE_PRESENT OR PAGE_USER)"
      "T' (frame pa) = None" "s_max_phys_page (pmm_of s') = s_max_phys_page (pmm_of s)"
    have le: "T \<subseteq>\<^sub>m T'" using m(2) by (simp only: remapped_def)
    have "root_of T' r \<longleftrightarrow> root_of T r" for r
      unfolding root_of_def using T'(2) map_leD [OF le, of "frame r"] by blast
    then show ?thesis using that(2) [OF T'(1) m(1,3) _ _ m(2)] m(4) by (simp add: managed_def)
  qed (rule that(1) [OF T'(1)])
qed

definition stack_flags :: u64 where
  "stack_flags = PAGE_PRESENT OR PAGE_WRITE OR PAGE_USER OR PAGE_NX"

text \<open>A stack page mapped on demand.\<close>
lemma step_stack:
  assumes inv: "pt_inv s T" and root: "root_of T root" and a: "a < USER_TOP" "USER_STACK_MIN \<le> a AND NOT 0xFFF"
    and al: "pm_alloc s = (f, s1)" and nf: "\<not> failed_alloc f"
    and map: "pmap_map_user_page root (a AND NOT 0xFFF) (word_of_nat f) stack_flags (zero_page f s1) = (res, s')"
  shows "res = 0 \<Longrightarrow> \<exists>T'. page_step s T (pm_release (word_of_nat f) s') T' root a"
    and "res \<noteq> 0 \<Longrightarrow> \<exists>T'. page_step s T s' T' root a \<and> T' f = None \<and> frame (user_pte root a s') = f"
proof -
  note b = base_page [OF a(1)] and fp = fresh_page [OF inv al nf]
  define pv where "pv = a AND NOT 0xFFF"
  have pv: "0x1000 \<le> pv" "pv < USER_TOP" "page_of pv = page_of a" "\<not> pmap_is_trampoline_va pv"
    using a b by (auto simp: pv_def USER_STACK_MIN_def word_le_nat_alt tramp_va_iff page_of_def SIGNAL_TRAMP_VA_def)
  have fr: "frame (word_of_nat f) = f" "unat (word_of_nat f :: u64) = f" using frame_of_nat [OF fp(1,3)] fp(3)
    by (simp_all add: unsigned_of_nat take_bit_nat_eq_self)
  have may: "may_map (user_pte root pv (zero_page f s1)) pv (word_of_nat f) stack_flags (zero_page f s1) T"
    using pv(4) fp(2,6,8) by (simp add: may_map_def fr stack_flags_def flag_defs PTE_PHYS_MASK_def)
  have old: "4096 dvd g \<Longrightarrow> refs_of s g \<noteq> 0 \<Longrightarrow> x < 4096 \<Longrightarrow> rd (g + x) (zero_page f s1) = rd (g + x) s" for g x
    using fp(5,11) by metis
  show "\<exists>T'. page_step s T (pm_release (word_of_nat f) s') T' root a" if z: "res = 0"
    using map_call [OF fp(7) root pv(1,2) may map [folded pv_def]]
  proof cases
    case (1 T')
    note g = grown_fields [OF 1(3)] and view = grown_view [OF fp(7) 1(1,3)]
    have Tf: "T' f = None" using g(4) [OF fp(1)] fp(6,9) by fastforce
    have "spare s' T' f = 1" using grown_spare [OF 1(3) fp(1,2) Tf] fp(8) by simp
    then have rel: "pt_inv (pm_release (word_of_nat f) s') T'"
      "\<And>r va. user_pte r va (pm_release (word_of_nat f) s') = user_pte r va s'"
      using release_spare [OF 1(1), of "word_of_nat f"] fp(1) Tf fr(2) by simp_all
    have "root_of T' r \<longleftrightarrow> root_of T r" for r
      using grown_root [OF 1(3)] g(6) unfolding root_of_def by blast
    moreover have "managed (pm_release (word_of_nat f) s') h = managed s h" for h
      using refs_release(2) [of s' "word_of_nat f"] 1(1) fp(1,12) g(3) by (simp add: managed_def pt_inv_def fr)
    moreover have "user_pte r vb s' = user_pte r vb s" if "root_of T r" "vb < USER_TOP" for r vb
      using view [OF that] fp(10) [OF that] by simp
    moreover have "rd (h + x) s' = rd (h + x) s" if "4096 dvd h" "refs_of s h \<noteq> 0" "T' h = None" "x < 4096" for h x
      using g(5) [OF that(1,3)] old that by simp
    ultimately have "page_step s T (pm_release (word_of_nat f) s') T' root a"
      unfolding page_step_def using rel by simp
    then show ?thesis using exI [where P = "\<lambda>T'. page_step s T (pm_release (word_of_nat f) s') T' root a" and x = T'] by simp
  qed (use z fp(2,3) fr(2) in auto)
  show "\<exists>T'. page_step s T s' T' root a \<and> T' f = None \<and> frame (user_pte root a s') = f" if nz: "res \<noteq> 0"
    using map_call [OF fp(7) root pv(1,2) may map [folded pv_def]]
  proof cases
    case (2 T')
    have "user_pte r vb s' = (if frame r = frame root \<and> page_of vb = page_of a
        then (word_of_nat f AND PTE_PHYS_MASK) OR stack_flags OR PAGE_PRESENT OR PAGE_USER else user_pte r vb s)"
      if "root_of T r" "vb < USER_TOP" for r vb
      using 2(6) [unfolded remapped_def] that fp(10) [OF that] pv(3) by simp
    moreover have "frame ((word_of_nat f AND PTE_PHYS_MASK) OR stack_flags OR PAGE_PRESENT OR PAGE_USER) = f"
      using leaf_entry(1) [of stack_flags "word_of_nat f"] fr(1) by (simp add: stack_flags_def flag_defs PTE_PHYS_MASK_def)
    moreover have "rd (h + x) s' = rd (h + x) s" if "4096 dvd h" "refs_of s h \<noteq> 0" "T' h = None" "x < 4096" for h x
      using 2(6) [unfolded remapped_def] old that by simp
    ultimately have "page_step s T s' T' root a" "frame (user_pte root a s') = f"
      using 2(1,4,5) fp(12) root a(1) by (auto simp: page_step_def)
    with 2(3) fr(1) show ?thesis by auto
  qed (use nz in simp)
qed

lemma write_targetI: "has e PAGE_PRESENT \<Longrightarrow> has e PAGE_WRITE \<Longrightarrow> write_target s e (frame e)"
  by (simp add: write_target_def)

lemma copyout_frame_step:
  assumes inv: "pt_inv s T" and root: "root_of T root" and a: "a < USER_TOP" and call: "copyout_frame root a s = (r, s')"
  shows "\<exists>T'. page_step s T s' T' root a \<and> (\<forall>phys. r = Some phys \<longrightarrow>
    4096 dvd unat phys \<and> T' (unat phys) = None \<and> write_target s (user_pte root a s) (unat phys))"
proof -
  let ?e = "user_pte root a s"
  note call = call [unfolded copyout_frame_def, folded user_pte_def, unfolded Let_def stack_flags_def [symmetric]]
  have none: ?thesis if "r = None" "s' = s" using that page_step_refl [OF inv] by auto
  show ?thesis
  proof (cases "has ?e PAGE_PRESENT")
    case False
    note call = call [unfolded if_P [OF False]]
    obtain f s1 where al: "pm_alloc s = (f, s1)" by (rule prod.exhaust)
    obtain res s2 where m: "pmap_map_user_page root (a AND NOT 0xFFF) (word_of_nat f) stack_flags (zero_page f s1) = (res, s2)"
      by (rule prod.exhaust)
    consider (out) "r = None" "s' = s" | (oom) "r = None" "s' = s1" "failed_alloc f"
      | (fail) "USER_STACK_MIN \<le> a AND NOT 0xFFF" "\<not> failed_alloc f" "r = None" "res = 0" "s' = pm_release (word_of_nat f) s2"
      | (ok) "USER_STACK_MIN \<le> a AND NOT 0xFFF" "\<not> failed_alloc f" "r = Some (word_of_nat f)" "res \<noteq> 0" "s' = s2"
      using call al m by (auto split: if_splits)
    then show ?thesis
    proof cases
      case out then show ?thesis by (rule none)
    next
      case oom
      then show ?thesis using alloc_fail_step [OF inv al, of root a] by auto
    next
      case fail
      then show ?thesis using step_stack(1) [OF inv root a fail(1) al fail(2) m] by auto
    next
      case ok
      note fp = fresh_page [OF inv al ok(2)]
      have "unat (word_of_nat f :: u64) = f" using fp(3) by (simp add: unsigned_of_nat take_bit_nat_eq_self)
      with ok fp(1,4,5) step_stack(2) [OF inv root a ok(1) al ok(2) m ok(4)] show ?thesis
        by (auto simp: write_target_def)
    qed
  next
    case p: True
    show ?thesis
    proof (cases "has ?e PAGE_WRITE")
      case True
      then have "r = Some (?e AND PTE_PHYS_MASK)" "s' = s" using call p by auto
      then show ?thesis
        using page_step_refl [OF inv] old_held(2) [OF inv root a p] write_targetI [OF p True] frame_dvd
        by (auto simp: unat_masked)
    next
      case w: False
      obtain ok s1 where c: "pmap_handle_cow_fault root (a AND NOT 0xFFF) s = (ok, s1)" by (rule prod.exhaust)
      let ?e1 = "user_pte root a s1"
      note st = step_cow [OF inv root a c]
      have inv1: "pt_inv s1 T" using st(1) by (simp add: page_step_def)
      have R: "(if has ?e PAGE_COW then if \<not> ok then (None, s1) else if \<not> has ?e1 PAGE_PRESENT \<or> \<not> has ?e1 PAGE_WRITE then (None, s1)
          else (Some (?e1 AND PTE_PHYS_MASK), s1) else (None, s)) = (r, s')"
        using call p w by (simp only: c prod.case simp_thms if_True if_False)
      show ?thesis
      proof (cases "has ?e PAGE_COW \<and> ok \<and> has ?e1 PAGE_PRESENT \<and> has ?e1 PAGE_WRITE")
        case True
        then have "r = Some (?e1 AND PTE_PHYS_MASK)" "s' = s1" using R by auto
        then show ?thesis using True st old_held(2) [OF inv1 root a] frame_dvd by (auto simp: unat_masked)
      next
        case False
        then have "(r, s') = (None, s) \<or> (r, s') = (None, s1)" using R by presburger
        then show ?thesis using none st(1) by auto
      qed
    qed
  qed
qed

section \<open>Pages of other address spaces\<close>

text \<open>The frame \<open>g\<close> backs a page of an address space other than \<open>root\<close>.\<close>
definition foreign :: "pmap_state \<Rightarrow> places \<Rightarrow> u64 \<Rightarrow> u64 \<Rightarrow> u64 \<Rightarrow> nat \<Rightarrow> bool" where
  "foreign s T root root' vb g \<longleftrightarrow> root_of T root' \<and> frame root' \<noteq> frame root \<and> vb < USER_TOP \<and> \<not> pmap_is_trampoline_va vb \<and>
     has (user_pte root' vb s) PAGE_PRESENT \<and> frame (user_pte root' vb s) = g \<and> managed s g"

lemma shared_refs:
  assumes inv: "pt_inv s T" and root: "root_of T root" and a: "a < USER_TOP" and e: "has (user_pte root a s) PAGE_PRESENT"
    "has (user_pte root a s) PAGE_COW" and f: "foreign s T root root' vb (frame (user_pte root a s))"
  shows "cow_shared s (user_pte root a s)"
proof -
  let ?g = "frame (user_pte root a s)"
  have r': "root_of T root'" "vb < USER_TOP" "has (user_pte root' vb s) PAGE_PRESENT" using f by (simp_all add: foreign_def)
  obtain t where t: "T t = Some (frame root, path a)" "rd (t + 8 * idx1 a) s = user_pte root a s" "\<not> tramp_slot T t (idx1 a)"
    by (rule cow_slot [OF inv root a e])
  obtain u where u: "T u = Some (frame root', path vb)" "rd (u + 8 * idx1 vb) s = user_pte root' vb s"
    using pte_cases [OF inv r'(1,2)] r'(3) not_present_0 by metis
  have "\<not> tramp_slot T u (idx1 vb)" using tramp_slot_iff [of T u _ vb, OF u(1) r'(2)] f by (simp add: foreign_def)
  then have "{(t, idx1 a), (u, idx1 vb)} \<subseteq> mapped s T ?g"
    using t u e r'(3) f path_leaf [of T t _ a, OF t(1)] path_leaf [of T u _ vb, OF u(1)] by (simp add: mapped_def foreign_def)
  then have "card {(t, idx1 a), (u, idx1 vb)} \<le> card (mapped s T ?g)" by (rule card_mono [OF mapped_finite [OF inv]])
  moreover have "t \<noteq> u" using t(1) u(1) f by (auto simp: foreign_def)
  moreover have "0 \<le> spare s T ?g" using inv f frame_dvd by (simp add: pt_inv_def foreign_def)
  ultimately show ?thesis using f by (simp add: cow_shared_def spare_def foreign_def)
qed

lemma foreign_not_target:
  assumes inv: "pt_inv s T" and root: "root_of T root" and a: "a < USER_TOP" and f: "foreign s T root root' vb g"
    and w: "\<not> (has (user_pte root a s) PAGE_PRESENT \<and> has (user_pte root a s) PAGE_WRITE \<and> frame (user_pte root a s) = g)"
  shows "\<not> write_target s (user_pte root a s) g"
  using shared_refs [OF inv root a, of root' vb] old_held(1) [OF inv, of root' vb] f w
  by (auto simp: write_target_def foreign_def)

lemma foreign_step:
  assumes inv: "pt_inv s T" and st: "page_step s T s' T' root a" and f: "foreign s T root root' vb g"
  shows "foreign s' T' root root' vb g" and "T' g = None" and "user_pte root' vb s' = user_pte root' vb s"
    and "x < 4096 \<Longrightarrow> rd (g + x) s' = rd (g + x) s"
proof -
  have r': "root_of T root'" "vb < USER_TOP" "has (user_pte root' vb s) PAGE_PRESENT" "frame (user_pte root' vb s) = g" "managed s g"
    "frame root' \<noteq> frame root" using f by (simp_all add: foreign_def)
  show e: "user_pte root' vb s' = user_pte root' vb s" using st r' by (simp add: page_step_def)
  then show f': "foreign s' T' root root' vb g" using f st by (simp add: foreign_def page_step_def)
  have "pt_inv s' T'" "root_of T' root'" using st r'(1) by (simp_all add: page_step_def)
  from old_held(2) [OF this r'(2)] show T': "T' g = None" using e r' by simp
  have "refs_of s g \<noteq> 0" using old_held(1) [OF inv r'(1-3)] r'(4,5) by simp
  moreover have "4096 dvd g" using r'(4) frame_dvd by blast
  ultimately show "x < 4096 \<Longrightarrow> rd (g + x) s' = rd (g + x) s" using st T' r'(5) by (simp add: page_step_def)
qed

section \<open>The loop\<close>

lemma chunk_bounds:
  assumes "unat a + n \<le> 2 ^ 47" and "0 < n"
  defines "c \<equiv> chunk_len a n"
  shows "0 < c" "c \<le> n" "unat (a AND 0xFFF) + c \<le> 4096" "unat (a + word_of_nat c) = unat a + c" "a < USER_TOP"
    and "c < n \<Longrightarrow> unat a + c = Suc (page_of a) * 4096"
proof -
  have m: "unat a = page_of a * 4096 + unat (a AND 0xFFF)" "unat (a AND 0xFFF) < 4096"
  proof -
    have "a AND 0xFFF = take_bit 12 a" by (simp add: take_bit_eq_mask mask_eq_exp_minus_1)
    then have "unat (a AND 0xFFF) = unat a mod 4096" by (simp only: unsigned_take_bit_eq) (simp add: take_bit_eq_mod)
    then show "unat a = page_of a * 4096 + unat (a AND 0xFFF)" "unat (a AND 0xFFF) < 4096" by (simp_all add: page_of_def)
  qed
  show c: "0 < c" unfolding c_def by (rule chunk_len_pos [OF assms(2)])
  show le: "c \<le> n" "unat (a AND 0xFFF) + c \<le> 4096" using m(2) by (auto simp: c_def chunk_len_def Let_def)
  have k: "unat (word_of_nat c :: u64) = c" using le(1) assms(1) by (simp add: unsigned_of_nat take_bit_nat_eq_self)
  have "unat a + unat (word_of_nat c :: u64) < 2 ^ LENGTH(64)" using le(1) assms(1) by (simp add: k)
  then show "unat (a + word_of_nat c) = unat a + c" by (simp only: unat_add_lem [THEN iffD1] k)
  show "a < USER_TOP" using assms(1,2) by (simp add: word_less_nat_alt USER_TOP_def)
  show "unat a + c = Suc (page_of a) * 4096" if "c < n"
    using that m by (auto simp: c_def chunk_len_def Let_def split: if_splits)
qed

text \<open>No page of the range is a writable mapping of \<open>g\<close>.\<close>
definition not_writable :: "pmap_state \<Rightarrow> u64 \<Rightarrow> u64 \<Rightarrow> nat \<Rightarrow> nat \<Rightarrow> bool" where
  "not_writable s root a n g \<longleftrightarrow> (\<forall>va. unat a \<le> unat va \<longrightarrow> unat va < unat a + n \<longrightarrow>
     \<not> (has (user_pte root va s) PAGE_PRESENT \<and> has (user_pte root va s) PAGE_WRITE \<and> frame (user_pte root va s) = g))"

lemma copyout_loop_isolated:
  assumes "pt_inv s T" and "root_of T root" and "unat a + length bs \<le> 2 ^ 47"
    and "foreign s T root root' vb g" and "not_writable s root a (length bs) g"
    and "copyout_loop root a bs s = (err, s')"
  shows "\<exists>T'. pt_inv s' T' \<and> user_pte root' vb s' = user_pte root' vb s \<and> (\<forall>x < 4096. rd (g + x) s' = rd (g + x) s)"
  using assms
proof (induction "length bs" arbitrary: bs a s T rule: less_induct)
  case (less bs a s T)
  note inv = less.prems(1) and root = less.prems(2) and f = less.prems(4)
  show ?case
  proof (cases "bs = []")
    case True
    then show ?thesis using less.prems(1,6) by (auto simp: copyout_loop.simps)
  next
    case False
    define c where "c = chunk_len a (length bs)"
    note cb = chunk_bounds [OF less.prems(3), folded c_def] 
    have n: "0 < length bs" using False by simp
    obtain r s1 where call: "copyout_frame root a s = (r, s1)" by (rule prod.exhaust)
    obtain T1 where st: "page_step s T s1 T1 root a" and tgt: "\<And>p. r = Some p \<Longrightarrow>
        4096 dvd unat p \<and> T1 (unat p) = None \<and> write_target s (user_pte root a s) (unat p)"
      using copyout_frame_step [OF inv root cb(5) [OF n] call] by blast
    note fs = foreign_step [OF inv st f]
    have inv1: "pt_inv s1 T1" and root1: "root_of T1 root" using st root by (simp_all add: page_step_def)
    show ?thesis
    proof (cases r)
      case None
      then have "s' = s1" using less.prems(6) False call by (simp add: copyout_loop.simps)
      then show ?thesis using inv1 fs(3,4) by blast
    next
      case (Some p)
      define s2 where "s2 = set_pbytes (unat p + unat (a AND 0xFFF)) (take c bs) s1"
      note t = tgt [OF Some]
      have len: "unat (a AND 0xFFF) + length (take c bs) \<le> 4096" using cb(3) [OF n] by simp
      note ps = chunk_store [OF inv1 conjunct1 [OF t] t [THEN conjunct2, THEN conjunct1] len, folded s2_def]
      have "unat p \<noteq> g"
        using foreign_not_target [OF inv root cb(5) [OF n] f] t less.prems(5) n by (fastforce simp: not_writable_def)
      have gd: "4096 dvd g" and r': "root_of T1 root'" "vb < USER_TOP" using fs(1) frame_dvd by (auto simp: foreign_def)
      have rd2: "rd (g + x) s2 = rd (g + x) s" if "x < 4096" for x
        using ps(3) [OF gd \<open>unat p \<noteq> g\<close> [symmetric] that] fs(4) [OF that] by simp
      have f2: "foreign s2 T1 root root' vb g" using fs(1) ps(2) [OF r'] ps(4) by (simp add: foreign_def managed_def)
      have nw: "not_writable s2 root (a + word_of_nat c) (length (drop c bs)) g"
        unfolding not_writable_def cb(4) [OF n]
      proof (intro allI impI)
        fix va :: u64
        assume va: "unat a + c \<le> unat va" "unat va < unat a + c + length (drop c bs)"
        then have "page_of va \<noteq> page_of a" "va < USER_TOP"
          using cb(2,6) [OF n] less.prems(3) by (auto simp: page_of_def word_less_nat_alt USER_TOP_def)
        then have "user_pte root va s2 = user_pte root va s" using ps(2) [OF root1] st root by (simp add: page_step_def)
        then show "\<not> (has (user_pte root va s2) PAGE_PRESENT \<and> has (user_pte root va s2) PAGE_WRITE \<and> frame (user_pte root va s2) = g)"
          using less.prems(5) va cb(2) [OF n] by (simp add: not_writable_def)
      qed
      have "copyout_loop root (a + word_of_nat c) (drop c bs) s2 = (err, s')"
        using less.prems(6) False call Some by (simp add: copyout_loop.simps [of root a] c_def s2_def Let_def)
      then show ?thesis
        using less.hyps [OF _ ps(1) root1 _ f2 nw] cb(1,2,4) [OF n] less.prems(3) rd2 ps(2) [OF r'] fs(3) n by simp
    qed
  qed
qed

end
