(* ===== verification/Copy_Props.thy ===== *)
theory Copy_Props
  imports Copyout Pmap_Props
begin

text \<open>
  The transfers between user and kernel memory. \<^verbatim>\<open>copyin\<close> works page by page through the direct map;
  it is compared with the definition of what it is for: the bytes the processor would read at the user addresses.
\<close>

unbundle bit_operations_syntax

section \<open>Reading a sequence of cells that may be missing\<close>

text \<open>The defined values of \<open>f 0, f 1, \<dots>\<close> up to the first undefined one, and whether all \<open>n\<close> of them are defined.\<close>
definition read_run :: "(nat \<Rightarrow> 'a option) \<Rightarrow> nat \<Rightarrow> bool \<times> 'a list" where
  "read_run f n = (let is = takeWhile (\<lambda>i. f i \<noteq> None) [0..<n] in (length is = n, map (the \<circ> f) is))"

lemma read_run_0 [simp]: "read_run f 0 = (True, [])"
  by (simp add: read_run_def)

lemma read_run_None: "f 0 = None \<Longrightarrow> 0 < n \<Longrightarrow> read_run f n = (False, [])"
  by (simp add: read_run_def upt_conv_Cons)

lemma read_run_split:
  assumes "c \<le> n" and "\<And>i. i < c \<Longrightarrow> f i \<noteq> None"
  shows "read_run f n = (let (ok, r) = read_run (\<lambda>i. f (c + i)) (n - c) in (ok, map (the \<circ> f) [0..<c] @ r))"
proof -
  have n: "[0..<n] = [0..<c] @ map (\<lambda>i. c + i) [0..<n - c]"
    using assms(1) upt_add_eq_append [of 0 c "n - c"] map_add_upt [of c "n - c"] by (simp add: add.commute)
  have "takeWhile (\<lambda>i. f i \<noteq> None) [0..<n] = [0..<c] @ map (\<lambda>i. c + i) (takeWhile (\<lambda>i. f (c + i) \<noteq> None) [0..<n - c])"
    unfolding n using assms(2) by (subst takeWhile_append2) (auto simp: takeWhile_map comp_def)
  then show ?thesis using assms(1) by (auto simp: read_run_def Let_def)
qed

section \<open>One page has one translation\<close>

lemma low_high:
  fixes x :: u64
  shows "unat x = unat (x AND NOT 0xFFF) + unat (x AND 0xFFF)" and "unat (x AND 0xFFF) = unat x mod 4096"
    and "x = (x AND NOT 0xFFF) OR (x AND 0xFFF)"
proof -
  have m: "x AND 0xFFF = take_bit 12 x" by (simp add: take_bit_eq_mask mask_eq_exp_minus_1)
  show l: "unat (x AND 0xFFF) = unat x mod 4096" by (simp only: m unsigned_take_bit_eq) (simp add: take_bit_eq_mod)
  show "unat x = unat (x AND NOT 0xFFF) + unat (x AND 0xFFF)" unfolding l unat_page_base page_of_def by simp
  show "x = (x AND NOT 0xFFF) OR (x AND 0xFFF)" by (rule bit_word_eqI) (auto simp: bit_simps)
qed

lemma base_off:
  fixes b va :: u64
  assumes "b AND 0xFFF = 0"
  shows "(b OR (va AND 0xFFF)) AND NOT 0xFFF = b" and "(b OR (va AND 0xFFF)) AND 0xFFF = va AND 0xFFF"
proof -
  have "b = b AND NOT 0xFFF" using low_high(3) [of b] assms by simp
  then show "(b OR (va AND 0xFFF)) AND NOT 0xFFF = b"
    by (metis (no_types, lifting) and.assoc and.right_neutral bit.conj_cancel_right bit.conj_disj_distrib2 bit.conj_zero_right or.right_neutral)
  show "(b OR (va AND 0xFFF)) AND 0xFFF = va AND 0xFFF" using assms by (simp add: bit.conj_disj_distrib2 and.assoc)
qed

lemma page_guard:
  "va < 0x1000 \<longleftrightarrow> page_of va = 0" "USER_TOP \<le> va \<longleftrightarrow> 2 ^ 35 \<le> page_of va"
  unfolding page_of_def word_less_nat_alt word_le_nat_alt USER_TOP_def by (simp_all add: less_eq_div_iff_mult_less_eq) arith?

lemma page_idx:
  assumes "page_of va = page_of vb"
  shows "idx4 va = idx4 vb" "idx3 va = idx3 vb" "idx2 va = idx2 vb" "idx1 va = idx1 vb"
    and "va AND NOT 0xFFF = vb AND NOT 0xFFF"
proof -
  have d: "unat v div 2 ^ 39 = page_of v div 2 ^ 27" "unat v div 2 ^ 30 = page_of v div 2 ^ 18"
    "unat v div 2 ^ 21 = page_of v div 2 ^ 9" "unat v div 2 ^ 12 = page_of v" for v :: u64
    by (simp_all add: page_of_def div_mult2_eq [symmetric])
  show "idx4 va = idx4 vb" "idx3 va = idx3 vb" "idx2 va = idx2 vb" "idx1 va = idx1 vb"
    unfolding idx_nat d assms by (rule refl)+
  show "va AND NOT 0xFFF = vb AND NOT 0xFFF"
    unfolding word_unat_eq_iff [where ?'a = 64] unat_page_base assms by (rule refl)
qed

lemma large_off:
  fixes e m k va vb :: u64
  assumes "va AND NOT 0xFFF = vb AND NOT 0xFFF" and "m AND 0xFFF = 0" and "k AND 0xFFF = 0xFFF"
  shows "(e AND m) OR (vb AND k) = ((e AND m) OR ((va AND NOT 0xFFF) AND k)) OR (vb AND 0xFFF)"
    and "((e AND m) OR ((va AND NOT 0xFFF) AND k)) AND 0xFFF = 0"
proof -
  have mk: "\<not> (bit m n \<and> bit (0xFFF :: u64) n)" "bit (0xFFF :: u64) n \<Longrightarrow> bit k n" for n
    using arg_cong [OF assms(2), of "\<lambda>x. bit x n"] arg_cong [OF assms(3), of "\<lambda>x. bit x n"] by (auto simp only: bit_and_iff bit_0_eq bot_apply bot_bool_def)
  have v: "\<not> bit (0xFFF :: u64) n \<Longrightarrow> n < LENGTH(64) \<Longrightarrow> bit va n \<longleftrightarrow> bit vb n" for n
    using arg_cong [OF assms(1), of "\<lambda>x. bit x n"] by (auto simp only: bit_and_iff bit_not_iff possible_bit_word)
  show "(e AND m) OR (vb AND k) = ((e AND m) OR ((va AND NOT 0xFFF) AND k)) OR (vb AND 0xFFF)"
    by (rule bit_word_eqI) (use mk v in \<open>auto simp only: bit_and_iff bit_or_iff bit_not_iff possible_bit_word\<close>)
  show "((e AND m) OR ((va AND NOT 0xFFF) AND k)) AND 0xFFF = 0"
    by (rule bit_word_eqI) (use mk in \<open>auto simp only: bit_and_iff bit_or_iff bit_not_iff possible_bit_word bit_0_eq bot_apply bot_bool_def\<close>)
qed

text \<open>A 4 KiB page is mapped as a whole, also inside a large page: \<open>page_base_of\<close> is its frame.\<close>
definition page_base_of :: "u64 \<Rightarrow> u64 \<Rightarrow> pmap_state \<Rightarrow> u64 option" where
  "page_base_of root va s =
     (let e4 = rd (slot root (idx4 va)) s; e3 = rd (slot e4 (idx3 va)) s; e2 = rd (slot e3 (idx2 va)) s;
          e1 = rd (slot e2 (idx1 va)) s; pu = (\<lambda>e. has e PAGE_PRESENT \<and> has e PAGE_USER) in
      if root = 0 \<or> page_of va = 0 \<or> 2 ^ 35 \<le> page_of va \<or> \<not> pu e4 \<or> \<not> pu e3 then None
      else if has e3 PAGE_PS then Some ((e3 AND 0x000FFFFFC0000000) OR ((va AND NOT 0xFFF) AND 0x3FFFFFFF))
      else if \<not> pu e2 then None
      else if has e2 PAGE_PS then Some ((e2 AND 0x000FFFFFFFE00000) OR ((va AND NOT 0xFFF) AND 0x1FFFFF))
      else if \<not> pu e1 then None else Some (e1 AND PTE_PHYS_MASK))"

lemma extract_base:
  "pmap_extract root va s = (case page_base_of root va s of None \<Rightarrow> 0 | Some b \<Rightarrow> b OR (va AND 0xFFF))"
proof -
  note l = large_off(1) [OF refl, of "0x000FFFFFC0000000" "0x3FFFFFFF" _ va] large_off(1) [OF refl, of "0x000FFFFFFFE00000" "0x1FFFFF" _ va]
  show ?thesis
    unfolding pmap_extract_def page_base_of_def Let_def page_guard
    by (simp add: l [simplified])
qed

lemma page_base_of_aligned: "page_base_of root va s = Some b \<Longrightarrow> b AND 0xFFF = 0"
  using large_off(2) [OF refl, of "0x000FFFFFC0000000" "0x3FFFFFFF" _ va] large_off(2) [OF refl, of "0x000FFFFFFFE00000" "0x1FFFFF" _ va]
  by (auto simp: page_base_of_def Let_def PTE_PHYS_MASK_def and.assoc split: if_splits)

lemma page_base_of_page:
  assumes "page_of va = page_of vb" shows "page_base_of root va s = page_base_of root vb s"
  unfolding page_base_of_def Let_def page_idx [OF assms] assms by (rule refl)

section \<open>copyin reads the bytes of the user address space\<close>

text \<open>The byte a user address stands for in the active address space.\<close>
definition user_byte :: "u64 \<Rightarrow> pmap_state \<Rightarrow> u8 option" where
  "user_byte va s = (let pa = pmap_extract (get_active_pml4 s) va s in if pa = 0 then None else Some (pbyte (unat pa) s))"

text \<open>No user page is backed by physical page 0, which the boot code keeps.\<close>
definition no_frame_0 :: "pmap_state \<Rightarrow> bool" where
  "no_frame_0 s \<longleftrightarrow> (\<forall>va. pmap_extract (get_active_pml4 s) va s \<noteq> 0 \<longrightarrow> 0x1000 \<le> pmap_extract (get_active_pml4 s) va s)"

lemma other_offset:
  obtains vb :: u64 where "page_of vb = page_of va" "vb AND 0xFFF \<noteq> 0"
proof
  let ?v = "(va AND NOT 0xFFF) OR (1 AND 0xFFF) :: u64"
  have a: "(va AND NOT 0xFFF) AND 0xFFF = 0" by (simp add: and.assoc)
  note o = base_off [OF a, of 1]
  show "?v AND 0xFFF \<noteq> 0" unfolding o(2) by simp
  have "unat (?v AND NOT 0xFFF) = unat (va AND NOT 0xFFF)" unfolding o(1) by (rule refl)
  then show "page_of ?v = page_of va" unfolding unat_page_base by simp
qed

lemma user_byte_base:
  assumes "no_frame_0 s"
  shows "user_byte va s = (case page_base_of (get_active_pml4 s) va s of None \<Rightarrow> None
    | Some b \<Rightarrow> Some (pbyte (unat b + unat (va AND 0xFFF)) s))"
    and "page_base_of (get_active_pml4 s) va s = Some b \<Longrightarrow> pmap_extract (get_active_pml4 s) va s \<noteq> 0
      \<and> pmap_extract (get_active_pml4 s) va s AND NOT 0xFFF = b"
proof -
  let ?p = "get_active_pml4 s"
  have x: "pmap_extract ?p va s \<noteq> 0 \<and> pmap_extract ?p va s AND NOT 0xFFF = b \<and> unat (pmap_extract ?p va s) = unat b + unat (va AND 0xFFF)"
    if b: "page_base_of ?p va s = Some b" for b
  proof -
    have e: "pmap_extract ?p va s = b OR (va AND 0xFFF)" by (simp add: extract_base b)
    note o = base_off [OF page_base_of_aligned [OF b], of va]
    obtain vb where vb: "page_of vb = page_of va" "vb AND 0xFFF \<noteq> 0"
      by (rule other_offset)
    have "pmap_extract ?p vb s = b OR (vb AND 0xFFF)" using b page_base_of_page [OF vb(1)] by (simp add: extract_base)
    moreover have "(b OR (vb AND 0xFFF)) AND 0xFFF \<noteq> 0" using base_off(2) [OF page_base_of_aligned [OF b], of vb] vb(2) by simp
    moreover from this have "b OR (vb AND 0xFFF) \<noteq> 0" by (cases "b OR (vb AND 0xFFF) = 0") simp_all
    ultimately have "0x1000 \<le> b OR (vb AND 0xFFF)" using assms unfolding no_frame_0_def by metis
    then have "b \<noteq> 0" using low_high(2) [of vb] by (auto simp: word_le_nat_alt)
    then have "pmap_extract ?p va s \<noteq> 0" unfolding e using o(1) by auto
    then show ?thesis using low_high(1) [of "b OR (va AND 0xFFF)"] o unfolding e by simp
  qed
  show "user_byte va s = (case page_base_of ?p va s of None \<Rightarrow> None | Some b \<Rightarrow> Some (pbyte (unat b + unat (va AND 0xFFF)) s))"
    using x by (cases "page_base_of ?p va s") (simp_all add: user_byte_def Let_def extract_base)
  show "page_base_of ?p va s = Some b \<Longrightarrow> pmap_extract ?p va s \<noteq> 0 \<and> pmap_extract ?p va s AND NOT 0xFFF = b"
    using x by blast
qed

lemma same_page_nat:
  fixes x i :: nat
  assumes "x mod 4096 + i < 4096"
  shows "(x + i) div 4096 = x div 4096" and "(x + i) mod 4096 = x mod 4096 + i"
  using assms div_add1_eq [of x i 4096] mod_add_left_eq [of x 4096 i, symmetric] by simp_all

text \<open>The part of a range that lies on one page.\<close>
lemma chunk_page:
  assumes "i < chunk_len a n" and "unat a + n < 2 ^ 64"
  shows "page_of (a + word_of_nat i) = page_of a" and "unat ((a + word_of_nat i) AND 0xFFF) = unat (a AND 0xFFF) + i"
    and "unat (a + word_of_nat (chunk_len a n)) = unat a + chunk_len a n"
proof -
  have c: "chunk_len a n \<le> n" "unat (a AND 0xFFF) + chunk_len a n \<le> 4096"
    using low_high(2) [of a] by (auto simp: chunk_len_def Let_def)
  have add: "unat (a + word_of_nat k) = unat a + k" if "k \<le> n" for k
  proof -
    have k: "unat (word_of_nat k :: u64) = k" using that assms(2) by (simp add: unsigned_of_nat take_bit_nat_eq_self)
    have "unat a + unat (word_of_nat k :: u64) < 2 ^ LENGTH(64)" using that assms(2) by (simp add: k)
    then have "unat (a + word_of_nat k) = unat a + unat (word_of_nat k :: u64)" by (rule unat_add_lem [THEN iffD1])
    then show ?thesis by (simp only: k)
  qed
  show "unat (a + word_of_nat (chunk_len a n)) = unat a + chunk_len a n" by (rule add [OF c(1)])
  have i: "unat (a + word_of_nat i) = unat a + i" and lt: "unat a mod 4096 + i < 4096"
    using add [of i] assms(1) c low_high(2) [of a] by simp_all
  from same_page_nat [OF lt] show "page_of (a + word_of_nat i) = page_of a" "unat ((a + word_of_nat i) AND 0xFFF) = unat (a AND 0xFFF) + i"
    by (simp_all add: page_of_def low_high(2) i)
qed

lemma copyin_loop_run:
  assumes "no_frame_0 s" and "unat a + n < 2 ^ 64"
  shows "copyin_loop (get_active_pml4 s) a n s =
    (let (ok, bs) = read_run (\<lambda>i. user_byte (a + word_of_nat i) s) n in (if ok then CHIMERA_SUCCESS else CHIMERA_ERR_INVALID, bs))"
  using assms(2)
proof (induction n arbitrary: a rule: less_induct)
  case (less n)
  let ?p = "get_active_pml4 s"
  let ?f = "\<lambda>a i. user_byte (a + word_of_nat i) s"
  consider "n = 0" | (gap) "0 < n" "page_base_of ?p a s = None" | (page) b where "0 < n" "page_base_of ?p a s = Some b" by fastforce
  then show ?case
  proof cases
    case gap
    then show ?thesis
      by (subst copyin_loop.simps) (simp add: extract_base read_run_None user_byte_base(1) [OF assms(1)])
  next
    case page
    define c where "c = chunk_len a n"
    have c: "0 < c" "c \<le> n" using chunk_len_pos [OF page(1)] by (auto simp: c_def chunk_len_def Let_def)
    have at: "?f a i = Some (pbyte (unat b + unat (a AND 0xFFF) + i) s)" if "i < c" for i
      using chunk_page(1,2) [OF that [unfolded c_def] less.prems] page(2) page_base_of_page [of "a + word_of_nat i" a]
      by (simp add: user_byte_base(1) [OF assms(1)] add.assoc)
    have m: "map (the \<circ> ?f a) [0..<c] = map (\<lambda>i. pbyte (unat b + unat (a AND 0xFFF) + i) s) [0..<c]"
      using at by (auto intro!: map_cong)
    have "unat (a + word_of_nat c) + (n - c) < 2 ^ 64"
      using chunk_page(3) [OF c(1) [unfolded c_def] less.prems] less.prems c by (simp add: c_def)
    from less.IH [OF _ this] c have IH: "copyin_loop ?p (a + word_of_nat c) (n - c) s =
      (let (ok, bs) = read_run (?f (a + word_of_nat c)) (n - c) in (if ok then CHIMERA_SUCCESS else CHIMERA_ERR_INVALID, bs))"
      by simp
    have "read_run (?f a) n = (let (ok, r) = read_run (?f (a + word_of_nat c)) (n - c) in
        (ok, map (\<lambda>i. pbyte (unat b + unat (a AND 0xFFF) + i) s) [0..<c] @ r))"
      using read_run_split [OF c(2), of "?f a"] at m by (simp add: add.assoc)
    then show ?thesis
      using page IH user_byte_base(2) [OF assms(1) page(2)]
      by (subst copyin_loop.simps) (simp add: Let_def c_def [symmetric] split: prod.splits)
  qed (simp add: copyin_loop.simps)
qed

lemma range_no_wrap:
  assumes "\<not> bad_range uaddr len"
  shows "unat uaddr + unat len < 2 ^ 47"
proof -
  have l: "unat len \<le> 0x7FFFFFFFEFFF" "uaddr \<le> USER_SPACE_MAX - len"
    using assms by (simp_all add: bad_range_def USER_SPACE_MAX_def USER_SPACE_MIN_def word_le_nat_alt not_less)
  then have "unat (USER_SPACE_MAX - len) = unat USER_SPACE_MAX - unat len"
    by (simp add: unat_sub word_le_nat_alt USER_SPACE_MAX_def)
  then show ?thesis using l by (simp add: word_le_nat_alt USER_SPACE_MAX_def)
qed

lemma copyin_eq:
  assumes "no_frame_0 s"
  shows "copyin uaddr kaddr len s =
    (if uaddr = 0 \<or> \<not> kaddr \<or> len = 0 \<or> bad_range uaddr len then (CHIMERA_ERR_INVALID, [])
     else let (ok, bs) = read_run (\<lambda>i. user_byte (uaddr + word_of_nat i) s) (unat len)
          in (if ok then CHIMERA_SUCCESS else CHIMERA_ERR_INVALID, bs))"
proof -
  have "unat uaddr + unat len < 2 ^ 64" if "\<not> bad_range uaddr len"
    using range_no_wrap [OF that] by simp
  then show ?thesis using copyin_loop_run [OF assms, of uaddr "unat len"] by (simp add: copyin_def)
qed

text \<open>What is stored: at most \<open>len\<close> bytes, and on success exactly the user's.\<close>
lemma copyin_stored:
  assumes "no_frame_0 s" and "copyin uaddr kaddr len s = (err, bs)"
  shows "length bs \<le> unat len" and "err = CHIMERA_SUCCESS \<Longrightarrow> length bs = unat len"
    and "err = CHIMERA_SUCCESS \<Longrightarrow> i < unat len \<Longrightarrow> user_byte (uaddr + word_of_nat i) s = Some (bs ! i)"
proof -
  let ?f = "\<lambda>i. user_byte (uaddr + word_of_nat i) s"
  have l: "length (takeWhile (\<lambda>i. ?f i \<noteq> None) [0..<unat len]) \<le> unat len"
    using length_takeWhile_le [of "\<lambda>i. ?f i \<noteq> None" "[0..<unat len]"] by simp
  show "length bs \<le> unat len" and e: "err = CHIMERA_SUCCESS \<Longrightarrow> length bs = unat len"
    using assms(2) l unfolding copyin_eq [OF assms(1)] by (auto simp: read_run_def Let_def split: if_splits)
  assume ok: "err = CHIMERA_SUCCESS" and i: "i < unat len"
  then have bs: "bs = map (the \<circ> ?f) (takeWhile (\<lambda>i. ?f i \<noteq> None) [0..<unat len])"
    using assms(2) unfolding copyin_eq [OF assms(1)] by (auto simp: read_run_def Let_def split: if_splits)
  with e [OF ok] have "length (takeWhile (\<lambda>i. ?f i \<noteq> None) [0..<unat len]) = length [0..<unat len]" by simp
  then have t: "takeWhile (\<lambda>i. ?f i \<noteq> None) [0..<unat len] = [0..<unat len]"
    using takeWhile_eq_take [of "\<lambda>i. ?f i \<noteq> None" "[0..<unat len]"] by simp
  from i have "i \<in> set (takeWhile (\<lambda>i. ?f i \<noteq> None) [0..<unat len])" unfolding t by simp
  then have "?f i \<noteq> None" by (rule set_takeWhileD [THEN conjunct2])
  with bs [unfolded t] i show "?f i = Some (bs ! i)" by auto
qed

text \<open>C18 copyin is a byte-wise read. Given arguments that pass its checks, the page-wise loop of \<open>copyin\<close> stores
  exactly the bytes that the active address space has at \<open>uaddr\<close>, \<open>uaddr + 1\<close>, \<dots> up to the first address that is not
  mapped for user access, and succeeds if and only if all \<open>len\<close> of them are; otherwise it stores nothing and fails.\<close>
theorem copyin_bytewise:
  assumes "no_frame_0 s"
  shows "copyin uaddr kaddr len s =
    (if uaddr = 0 \<or> \<not> kaddr \<or> len = 0 \<or> bad_range uaddr len then (CHIMERA_ERR_INVALID, [])
     else let (ok, bs) = read_run (\<lambda>i. user_byte (uaddr + word_of_nat i) s) (unat len)
          in (if ok then CHIMERA_SUCCESS else CHIMERA_ERR_INVALID, bs))"
  using assms by (rule copyin_eq)

text \<open>The address space of \<^const>\<open>demo_cow\<close> is active; the last two bytes of the page mapped at 0x400000 are 0x41 and 0x42.\<close>
definition demo_user :: pmap_state where
  "demo_user = wr 0x5FF8 0x4241000000000000 (demo_cow\<lparr>cpu_cr3 := 0x1000\<rparr>)"

lemma demo_user_rd: "rd a demo_user = (if a = 0x5FF8 then 0x4241000000000000 else demo_entry a)" "get_active_pml4 demo_user = 0x1000"
proof -
  show "rd a demo_user = (if a = 0x5FF8 then 0x4241000000000000 else demo_entry a)"
    by (simp add: demo_user_def rd_wr) (simp add: rd_def demo_cow_def)
  show "get_active_pml4 demo_user = 0x1000" by (simp add: demo_user_def get_active_pml4_def wr_def)
qed

text \<open>Tables without huge pages whose entries avoid frame 0.\<close>
lemma no_frame_0I:
  assumes "\<And>a. has (rd a s) PAGE_PRESENT \<Longrightarrow> \<not> has (rd a s) PAGE_PS \<and> 0x1000 \<le> unat (rd a s AND PTE_PHYS_MASK)"
  shows "no_frame_0 s"
  unfolding no_frame_0_def
proof (intro allI impI)
  fix va
  assume "pmap_extract (get_active_pml4 s) va s \<noteq> 0"
  then obtain b where b: "page_base_of (get_active_pml4 s) va s = Some b" by (auto simp: extract_base split: option.splits)
  have "0x1000 \<le> unat b" using b assms by (auto simp: page_base_of_def Let_def split: if_splits)
  then show "0x1000 \<le> pmap_extract (get_active_pml4 s) va s"
    using low_high(1) [of "b OR (va AND 0xFFF)"] base_off(1) [OF page_base_of_aligned [OF b], of va]
    by (simp add: extract_base b word_le_nat_alt)
qed

lemma demo_user_no_frame_0: "no_frame_0 demo_user"
  by (rule no_frame_0I) (simp add: demo_user_rd demo_entry_def has_def flag_defs PTE_PHYS_MASK_def split: if_splits)

lemma demo_user_bytes:
  "user_byte 0x400FFE demo_user = Some 0x41" "user_byte 0x400FFF demo_user = Some 0x42" "user_byte 0x401000 demo_user = None"
  by (simp_all add: user_byte_def pmap_extract_def demo_user_rd demo_entry_def idx_nat slot_eq frame_eq has_def flag_defs USER_TOP_def
      PTE_PHYS_MASK_def pbyte_def Let_def)

theorem copyin_bytewise_witness:
  "copyin 0x400FFE True 4 demo_user = (CHIMERA_ERR_INVALID, [0x41, 0x42])
   \<and> copyin 0x400FFE True 2 demo_user = (CHIMERA_SUCCESS, [0x41, 0x42])"
  unfolding copyin_bytewise [OF demo_user_no_frame_0]
  by (simp add: bad_range_def USER_SPACE_MIN_def USER_SPACE_MAX_def read_run_def demo_user_bytes upt_conv_Cons)

section \<open>copyout respects other address spaces\<close>

text \<open>C19 copyout never writes to another process's page. Take a managed frame that backs a page of an address space other
  than the active one, and that the active one does not itself map writable in the destination range. Whatever \<open>copyout\<close>
  does - breaking copy on write, mapping fresh stack pages, failing half-way - neither that page's entry nor one word of the
  frame changes, and the page tables stay well-formed.\<close>
theorem copyout_isolation:
  assumes "pt_inv s T" and "root_of T (get_active_pml4 s)" and "length bs < 2 ^ 64"
    and "foreign s T (get_active_pml4 s) root' vb g" and "not_writable s (get_active_pml4 s) uaddr (length bs) g"
    and "copyout kaddr bs uaddr s = (err, s')"
  shows "user_pte root' vb s' = user_pte root' vb s \<and> (\<forall>x < 4096. rd (g + x) s' = rd (g + x) s) \<and> (\<exists>T'. pt_inv s' T')"
proof (cases "uaddr = 0 \<or> \<not> kaddr \<or> bs = [] \<or> bad_range uaddr (word_of_nat (length bs))")
  case True
  then have "s' = s" using assms(6) by (auto simp: copyout_def split: if_splits)
  then show ?thesis using assms(1) by blast
next
  case False
  have "unat (word_of_nat (length bs) :: u64) = length bs" using assms(3) by (simp add: unsigned_of_nat take_bit_nat_eq_self)
  then have "unat uaddr + length bs \<le> 2 ^ 47" using range_no_wrap [of uaddr "word_of_nat (length bs)"] False by simp
  moreover have "copyout_loop (get_active_pml4 s) uaddr bs s = (err, s')" using False assms(6) by (simp add: copyout_def)
  ultimately show ?thesis using copyout_loop_isolated [OF assms(1,2) _ assms(4,5)] by blast
qed

lemma demo_user_inv: "pt_inv demo_user demo_tables" "root_of demo_tables 0x1000" "root_of demo_tables 0x6000"
  "r = 0x1000 \<or> r = 0x6000 \<Longrightarrow> page_of va = page_of 0x400000 \<Longrightarrow> user_pte r va demo_user = 0x5205" "pmm_of demo_user = pmm_of demo_cow"
proof -
  let ?s = "demo_cow\<lparr>cpu_cr3 := 0x1000\<rparr>"
  have rds: "rd a ?s = rd a demo_cow" for a by (simp add: rd_def)
  have i1: "pt_inv ?s demo_tables" by (rule pt_inv_same_tables [OF demo_cow_inv(1)]) (use demo_cow_inv(1) in \<open>auto simp: rds refs_of_def pt_inv_def\<close>)
  have T: "4096 dvd (0x5000 :: nat)" "demo_tables 0x5000 = None" by (simp_all add: demo_tables_def)
  show inv: "pt_inv demo_user demo_tables"
    unfolding demo_user_def by (rule pt_inv_page_store(1) [OF i1 T]) (auto simp: rd_wr)
  show roots: "root_of demo_tables 0x1000" "root_of demo_tables 0x6000" by (rule demo_cow_inv)+
  show "pmm_of demo_user = pmm_of demo_cow" by (simp add: demo_user_def)
  assume r: "r = 0x1000 \<or> r = 0x6000" and p: "page_of va = page_of 0x400000"
  have va: "va < USER_TOP" "(0x400000 :: u64) < USER_TOP" using page_guard(2) [of va] p by (auto simp: page_of_def USER_TOP_def)
  have "path va = path 0x400000" "idx1 va = idx1 0x400000" using same_page [OF va] p by blast+
  then have "path va = [0, 0, 2]" "idx1 va = 0" by (simp_all add: path_def idx_nat)
  moreover from this r have "demo_tables (r_table r) = Some (frame r, path va)" if "r_table = (\<lambda>r. if r = 0x1000 then 0x4000 else 0x9000)" for r_table
    using that by (auto simp: demo_tables_def frame_eq)
  ultimately show "user_pte r va demo_user = 0x5205"
    using user_pte_eq(1) [OF inv _ va(1), of r "if r = 0x1000 then 0x4000 else 0x9000"] r roots
    by (auto simp: demo_user_rd demo_entry_def)
qed

theorem copyout_isolation_witness:
  "\<exists>err s'. copyout True [0xAA] 0x400010 demo_user = (err, s') \<and> user_pte 0x6000 0x400000 s' = 0x5205 \<and> rd 0x5010 s' = 0"
proof -
  obtain err s' where c: "copyout True [0xAA] 0x400010 demo_user = (err, s')" by (rule prod.exhaust)
  have pg: "page_of 0x400010 = page_of 0x400000" by (simp add: page_of_def)
  have fl: "has 0x5205 PAGE_PRESENT" "\<not> has 0x5205 PAGE_WRITE" "frame 0x5205 = 0x5000" by (simp_all add: has_def flag_defs frame_eq)
  have "managed demo_user 0x5000" by (simp add: managed_def demo_user_inv(5)) (simp add: demo_cow_def demo_pmm16_inv(2))
  then have f: "foreign demo_user demo_tables 0x1000 0x6000 0x400000 0x5000"
    using demo_user_inv(3) fl by (simp add: foreign_def demo_user_inv(4) frame_eq USER_TOP_def pmap_is_trampoline_va_def SIGNAL_TRAMP_VA_def)
  have nw: "not_writable demo_user 0x1000 0x400010 (length [0xAA :: u8]) 0x5000"
    unfolding not_writable_def
  proof (intro allI impI)
    fix va :: u64
    assume "unat (0x400010 :: u64) \<le> unat va" "unat va < unat (0x400010 :: u64) + length [0xAA :: u8]"
    then have "unat va = unat (0x400010 :: u64)" by simp
    then have "va = 0x400010" by (rule unsigned_word_eqI)
    then show "\<not> (has (user_pte 0x1000 va demo_user) PAGE_PRESENT \<and> has (user_pte 0x1000 va demo_user) PAGE_WRITE \<and> frame (user_pte 0x1000 va demo_user) = 0x5000)"
      using fl(2) demo_user_inv(4) [OF disjI1 [OF refl] pg] by simp
  qed
  have len: "length [0xAA :: u8] < 2 ^ 64" by simp
  note r = demo_user_rd(2)
  from copyout_isolation [OF demo_user_inv(1) _ len _ _ c, unfolded r, OF demo_user_inv(2) f nw]
  have u: "user_pte 0x6000 0x400000 s' = user_pte 0x6000 0x400000 demo_user"
    and m: "\<forall>x < 4096. rd (0x5000 + x) s' = rd (0x5000 + x) demo_user" by blast+
  have "user_pte 0x6000 0x400000 demo_user = 0x5205" by (rule demo_user_inv(4)) simp_all
  moreover from m have "0x10 < (4096 :: nat) \<longrightarrow> rd (0x5000 + 0x10) s' = rd (0x5000 + 0x10) demo_user" by (rule spec)
  then have "rd 0x5010 s' = 0" by (simp add: demo_user_rd demo_entry_def)
  ultimately show ?thesis using c u by auto
qed

end
