(* ===== verification/Ipc.thy ===== *)
theory Ipc
  imports Wait_Queue Pmap
begin

text \<open>
  The data of Mach IPC: ports with their message queues, name spaces, kernel messages
  (\<^verbatim>\<open>kernel/include/kernel/ipc_port.h\<close>, \<^verbatim>\<open>ipc_message.h\<close>), the packing of names, and the
  allocation of kernel messages, \<^verbatim>\<open>kernel/mach/ipc_kmsg.c\<close>. Ports and spaces are numbered by their
  slot in the static arenas; the memory below is the one of the scheduler state. An operation has
  the value \<open>None\<close> when the code would fail an assertion, not return, or follow a pointer that is
  not one.
\<close>

unbundle bit_operations_syntax

section \<open>Names\<close>

definition MACH_PORT_NAME_NULL :: u32 where "MACH_PORT_NAME_NULL = 0"
definition MACH_PORT_NAME_DEAD :: u32 where "MACH_PORT_NAME_DEAD = 0xFFFFFFFF"

definition MACH_PORT_RIGHT_SEND :: u32 where "MACH_PORT_RIGHT_SEND = 0"
definition MACH_PORT_RIGHT_RECEIVE :: u32 where "MACH_PORT_RIGHT_RECEIVE = 1"
definition MACH_PORT_RIGHT_SEND_ONCE :: u32 where "MACH_PORT_RIGHT_SEND_ONCE = 2"
definition MACH_PORT_RIGHT_PORT_SET :: u32 where "MACH_PORT_RIGHT_PORT_SET = 3"
definition MACH_PORT_RIGHT_DEAD_NAME :: u32 where "MACH_PORT_RIGHT_DEAD_NAME = 4"

definition MACH_PORT_TYPE_NONE :: u32 where "MACH_PORT_TYPE_NONE = 0"
definition MACH_PORT_TYPE_SEND :: u32 where "MACH_PORT_TYPE_SEND = 0x10000"
definition MACH_PORT_TYPE_RECEIVE :: u32 where "MACH_PORT_TYPE_RECEIVE = 0x20000"
definition MACH_PORT_TYPE_SEND_ONCE :: u32 where "MACH_PORT_TYPE_SEND_ONCE = 0x40000"
definition MACH_PORT_TYPE_PORT_SET :: u32 where "MACH_PORT_TYPE_PORT_SET = 0x80000"
definition MACH_PORT_TYPE_DEAD_NAME :: u32 where "MACH_PORT_TYPE_DEAD_NAME = 0x100000"
definition MACH_PORT_TYPE_SEND_RECEIVE :: u32 where
  "MACH_PORT_TYPE_SEND_RECEIVE = MACH_PORT_TYPE_SEND OR MACH_PORT_TYPE_RECEIVE"

definition ipc_name_make :: "u32 \<Rightarrow> u32 \<Rightarrow> u32" where
  "ipc_name_make gen idx = push_bit 6 (gen AND 0x3FF) OR (idx AND 0x3F)"

definition ipc_name_index :: "u32 \<Rightarrow> u32" where "ipc_name_index name = name AND 0x3F"
definition ipc_name_gen :: "u32 \<Rightarrow> u32" where "ipc_name_gen name = drop_bit 6 name AND 0x3FF"

section \<open>Ports, spaces, messages\<close>

definition IPC_PORT_MSG_QUEUE_DEFAULT :: u32 where "IPC_PORT_MSG_QUEUE_DEFAULT = 64"
definition CHIMERA_IPC_PORT_MAGIC :: u64 where "CHIMERA_IPC_PORT_MAGIC = 0x584955504F525421"
definition IPC_SPACE_INITIAL_CAPACITY :: u32 where "IPC_SPACE_INITIAL_CAPACITY = 64"
definition IPC_PORT_ARENA_SIZE :: nat where "IPC_PORT_ARENA_SIZE = 4096"
definition MAX_SERVICES :: nat where "MAX_SERVICES = 16"
definition KMSG_POOL_SIZE :: nat where "KMSG_POOL_SIZE = 2048"
definition KMSG_INLINE_MAX :: u32 where "KMSG_INLINE_MAX = 512"
definition MACH_MSG_SIZE_MAX :: u32 where "MACH_MSG_SIZE_MAX = 0x100000"

text \<open>\<^verbatim>\<open>sizeof\<close> of the message wrapper (its data is aligned to 64 bytes) and of the audit trailer.\<close>
definition SIZEOF_IPC_KMSG :: nat where "SIZEOF_IPC_KMSG = 384"
definition SIZEOF_AUDIT_TRAILER :: nat where "SIZEOF_AUDIT_TRAILER = 20"

text \<open>A kernel message lies in the static pool or at the start of its own pages.\<close>
datatype kmsg_ptr = KMSG_POOL nat | KMSG_PAGES nat

record ipc_mqueue =
  imq_messages :: "kmsg_ptr option"
  imq_messages_tail :: "kmsg_ptr option"
  imq_msgcount :: u32
  imq_qlimit :: u32
  imq_seqno :: u32
  imq_reserved :: u32
  imq_send_waiters :: wait_queue
  imq_recv_waiters :: wait_queue

datatype ipc_port_state = IPC_PORT_STATE_ACTIVE | IPC_PORT_STATE_DEAD | IPC_PORT_STATE_ZOMBIE | IPC_PORT_STATE_SPECIAL

record ipc_port =
  ip_signature :: u64
  ip_references :: u32
  ip_state :: ipc_port_state
  ip_srights :: u32
  ip_sorights :: u32
  ip_receiver :: "nat option"
  ip_receiver_name :: u32
  ip_messages :: ipc_mqueue
  ip_nsrequest :: "nat option"
  ip_pdrequest :: "nat option"
  ip_mscount :: u32
  ip_next :: "nat option"
  ip_prev :: "nat option"
  ip_kobject :: "nat option"
  ip_kotype :: u32
  ip_label :: string
  ip_create_time :: u64

text \<open>The field \<^verbatim>\<open>ie_object\<close> holds a port, or, in a free entry, the name of the next free entry cast to
  a pointer; a null pointer is \<open>None\<close>.\<close>
datatype ie_ref = IE_PORT nat | IE_NAME u32

record ipc_entry =
  ie_object :: "ie_ref option"
  ie_bits :: u32
  ie_urefs :: u32
  ie_gen :: u8

record ipc_space =
  is_active :: bool
  is_table_size :: u32
  is_table_used :: u32
  is_table :: "nat \<Rightarrow> ipc_entry"
  is_task :: nat
  is_free_head :: u32
  is_free_count :: u32

record ool_region =
  ool_addr :: u64
  ool_size :: u64

record ipc_kmsg =
  ikm_next :: "kmsg_ptr option"
  ikm_prev :: "kmsg_ptr option"
  ikm_size :: u32
  ikm_header_offset :: u32
  ikm_remote_port :: "nat option"
  ikm_local_port :: "nat option"
  ikm_remote_right :: u32
  ikm_local_right :: u32
  ikm_sender_pid :: u32
  ikm_sender_uid :: u32
  ikm_send_time :: u64
  ikm_seqno :: u32
  ikm_ool_count :: u32
  ikm_ool_regions :: "nat \<Rightarrow> ool_region"
  ikm_data :: "nat \<Rightarrow> u8"

record service =
  sv_name :: string
  sv_port :: "nat option"

record ipc_state =
  i_sched :: sched
  i_ports :: "nat \<Rightarrow> ipc_port"
  s_port_arena_next :: nat
  s_port_free_list :: "nat option"
  i_spaces :: "nat \<Rightarrow> ipc_space"
  s_space_next :: u32
  s_services :: "nat \<Rightarrow> service"
  s_service_count :: nat
  ipc_port_kernel_bootstrap :: "nat option"
  ta_ipc_space :: "nat \<Rightarrow> nat option"
  i_task_kernel :: "nat option"
  i_kmsg :: "kmsg_ptr \<Rightarrow> ipc_kmsg"
  s_kmsg_in_use :: "nat \<Rightarrow> bool"
  s_kmsg_next :: u32
  i_pm :: pmap_state
  ta_mmap_next :: "nat \<Rightarrow> u64"
  ta_task_port :: "nat \<Rightarrow> u32"
  ta_bootstrap_port :: "nat \<Rightarrow> u32"
  ta_proc_pid :: "nat \<Rightarrow> u32 option"
  ta_proc_uid :: "nat \<Rightarrow> u32"

definition upd_port :: "nat \<Rightarrow> (ipc_port \<Rightarrow> ipc_port) \<Rightarrow> ipc_state \<Rightarrow> ipc_state" where
  "upd_port p f s = s\<lparr>i_ports := (i_ports s)(p := f (i_ports s p))\<rparr>"

definition upd_mq :: "nat \<Rightarrow> (ipc_mqueue \<Rightarrow> ipc_mqueue) \<Rightarrow> ipc_state \<Rightarrow> ipc_state" where
  "upd_mq p f = upd_port p (\<lambda>q. q\<lparr>ip_messages := f (ip_messages q)\<rparr>)"

definition upd_space :: "nat \<Rightarrow> (ipc_space \<Rightarrow> ipc_space) \<Rightarrow> ipc_state \<Rightarrow> ipc_state" where
  "upd_space sp f s = s\<lparr>i_spaces := (i_spaces s)(sp := f (i_spaces s sp))\<rparr>"

definition upd_entry :: "u32 \<Rightarrow> (ipc_entry \<Rightarrow> ipc_entry) \<Rightarrow> ipc_space \<Rightarrow> ipc_space" where
  "upd_entry i f sp = sp\<lparr>is_table := (is_table sp)(unat i := f (is_table sp (unat i)))\<rparr>"

definition upd_kmsg :: "kmsg_ptr \<Rightarrow> (ipc_kmsg \<Rightarrow> ipc_kmsg) \<Rightarrow> ipc_state \<Rightarrow> ipc_state" where
  "upd_kmsg k f s = s\<lparr>i_kmsg := (i_kmsg s)(k := f (i_kmsg s k))\<rparr>"

abbreviation entry_at :: "ipc_space \<Rightarrow> u32 \<Rightarrow> ipc_entry" where "entry_at sp i \<equiv> is_table sp (unat i)"

abbreviation port_active :: "nat \<Rightarrow> ipc_state \<Rightarrow> bool" where
  "port_active p s \<equiv> ip_state (i_ports s p) = IPC_PORT_STATE_ACTIVE"

text \<open>The page-table operations on this state: the registers are those of \<open>i_pm\<close>, the memory the one of the scheduler.\<close>
definition get_pm :: "ipc_state \<Rightarrow> pmap_state" where
  "get_pm s = (i_pm s)\<lparr>pk := sc_km (i_sched s)\<rparr>"

definition set_pm :: "pmap_state \<Rightarrow> ipc_state \<Rightarrow> ipc_state" where
  "set_pm p s = s\<lparr>i_pm := p, i_sched := (i_sched s)\<lparr>sc_km := pk p\<rparr>\<rparr>"

definition i_pmm :: "(pmm \<Rightarrow> pmm) \<Rightarrow> ipc_state \<Rightarrow> ipc_state" where
  "i_pmm f s = s\<lparr>i_sched := (i_sched s)\<lparr>sc_km := (sc_km (i_sched s))\<lparr>km_pmm := f (km_pmm (sc_km (i_sched s)))\<rparr>\<rparr>\<rparr>"

section \<open>Allocating messages\<close>

text \<open>\<^verbatim>\<open>memset\<close> of the wrapper; the data behind it keeps its bytes.\<close>
definition clear_kmsg :: "ipc_kmsg \<Rightarrow> ipc_kmsg" where
  "clear_kmsg k = \<lparr>ikm_next = None, ikm_prev = None, ikm_size = 0, ikm_header_offset = 0, ikm_remote_port = None,
     ikm_local_port = None, ikm_remote_right = 0, ikm_local_right = 0, ikm_sender_pid = 0, ikm_sender_uid = 0,
     ikm_send_time = 0, ikm_seqno = 0, ikm_ool_count = 0, ikm_ool_regions = (\<lambda>_. \<lparr>ool_addr = 0, ool_size = 0\<rparr>),
     ikm_data = ikm_data k\<rparr>"

definition kmsg_pages :: "u32 \<Rightarrow> nat" where
  "kmsg_pages sz = (SIZEOF_IPC_KMSG + unat sz + SIZEOF_AUDIT_TRAILER + 4095) div 4096"

text \<open>The scan of the pool for a free buffer, from a rotating start.\<close>
definition pool_slot :: "ipc_state \<Rightarrow> nat option" where
  "pool_slot s = find (\<lambda>idx. \<not> s_kmsg_in_use s idx)
     (map (\<lambda>i. (unat (s_kmsg_next s) mod KMSG_POOL_SIZE + i) mod KMSG_POOL_SIZE) [0..<KMSG_POOL_SIZE])"

definition kmsg_alloc_pages :: "u32 \<Rightarrow> ipc_state \<Rightarrow> kmsg_ptr option \<times> ipc_state" where
  "kmsg_alloc_pages msg_size s =
     (let (paddr, p) = pmm_alloc_pages (kmsg_pages msg_size) (km_pmm (sc_km (i_sched s)));
          s = i_pmm (\<lambda>_. p) s
      in if paddr = 0 \<or> paddr = PADDR_INVALID then (None, s)
         else (Some (KMSG_PAGES paddr), upd_kmsg (KMSG_PAGES paddr) (\<lambda>k. (clear_kmsg k)\<lparr>ikm_size := msg_size\<rparr>) s))"

definition ipc_kmsg_alloc :: "u32 \<Rightarrow> ipc_state \<Rightarrow> kmsg_ptr option \<times> ipc_state" where
  "ipc_kmsg_alloc msg_size s =
     (if msg_size > MACH_MSG_SIZE_MAX then (None, s)
      else if msg_size \<le> KMSG_INLINE_MAX then
        (let slot = pool_slot s; s = s\<lparr>s_kmsg_next := s_kmsg_next s + 1\<rparr> in
         case slot of
           Some idx \<Rightarrow> (Some (KMSG_POOL idx), upd_kmsg (KMSG_POOL idx) (\<lambda>k. (clear_kmsg k)\<lparr>ikm_size := KMSG_INLINE_MAX\<rparr>)
             (s\<lparr>s_kmsg_in_use := (s_kmsg_in_use s)(idx := True)\<rparr>))
         | None \<Rightarrow> kmsg_alloc_pages msg_size s)
      else kmsg_alloc_pages msg_size s)"

definition free_ool :: "kmsg_ptr \<Rightarrow> nat \<Rightarrow> ipc_state \<Rightarrow> ipc_state" where
  "free_ool k i s =
     (let r = ikm_ool_regions (i_kmsg s k) i in
      if ool_addr r = 0 then s
      else let s = i_pmm (pmm_free_contiguous (unat (ool_addr r - word_of_nat (km_hhdm (sc_km (i_sched s)))))
                     (unat (ool_size r + 4095) div 4096)) s
           in upd_kmsg k (\<lambda>m. m\<lparr>ikm_ool_regions := (ikm_ool_regions m)(i := r\<lparr>ool_addr := 0\<rparr>)\<rparr>) s)"

definition ipc_kmsg_free :: "kmsg_ptr option \<Rightarrow> ipc_state \<Rightarrow> ipc_state" where
  "ipc_kmsg_free r s =
     (case r of
        None \<Rightarrow> s
      | Some k \<Rightarrow>
          let s = fold (free_ool k) [0..<unat (ikm_ool_count (i_kmsg s k))] s;
              s = upd_kmsg k (\<lambda>m. m\<lparr>ikm_ool_count := 0\<rparr>) s
          in case k of
               KMSG_POOL idx \<Rightarrow> s\<lparr>s_kmsg_in_use := (s_kmsg_in_use s)(idx := False)\<rparr>
             | KMSG_PAGES paddr \<Rightarrow> i_pmm (pmm_free_contiguous paddr (kmsg_pages (ikm_size (i_kmsg s k)))) s)"

end
