(* ===== verification/Ipc_Port.thy ===== *)
theory Ipc_Port
  imports Ipc
begin

text \<open>
  Ports and name spaces, \<^verbatim>\<open>kernel/mach/ipc_port.c\<close>: the port arena, the tables that translate names
  to rights, creation, lookup and destruction, service registration and the Mach trap interface.
  \<open>my_cpu\<close> is the CPU a call runs on (it matters for wake-ups only).
\<close>

unbundle bit_operations_syntax

section \<open>The port arena\<close>

definition port_arena_alloc :: "ipc_state \<Rightarrow> nat option \<times> ipc_state" where
  "port_arena_alloc s =
     (case s_port_free_list s of
        Some p \<Rightarrow> (Some p, upd_port p (\<lambda>q. q\<lparr>ip_next := None\<rparr>) (s\<lparr>s_port_free_list := ip_next (i_ports s p)\<rparr>))
      | None \<Rightarrow> if s_port_arena_next s < IPC_PORT_ARENA_SIZE
          then (Some (s_port_arena_next s), s\<lparr>s_port_arena_next := s_port_arena_next s + 1\<rparr>)
          else (None, s))"

definition port_arena_free :: "nat option \<Rightarrow> ipc_state \<Rightarrow> ipc_state" where
  "port_arena_free r s =
     (case r of
        None \<Rightarrow> s
      | Some p \<Rightarrow> if p \<ge> IPC_PORT_ARENA_SIZE then s
          else (upd_port p (\<lambda>q. q\<lparr>ip_next := s_port_free_list s\<rparr>) s)\<lparr>s_port_free_list := Some p\<rparr>)"

section \<open>The name table\<close>

text \<open>The two readings of \<^verbatim>\<open>ie_object\<close>; each fails on a value of the other kind.\<close>
definition as_name :: "ie_ref option \<Rightarrow> u32 option" where
  "as_name r = (case r of None \<Rightarrow> Some 0 | Some (IE_NAME n) \<Rightarrow> Some n | Some (IE_PORT p) \<Rightarrow> None)"

definition as_port :: "ie_ref option \<Rightarrow> nat option" where
  "as_port r = (case r of Some (IE_PORT p) \<Rightarrow> Some p | _ \<Rightarrow> None)"

definition of_name :: "u32 \<Rightarrow> ie_ref option" where
  "of_name n = (if n = 0 then None else Some (IE_NAME n))"

definition space_alloc_name :: "ipc_space \<Rightarrow> (u32 \<times> ipc_space) option" where
  "space_alloc_name sp =
     (if is_free_count sp > 0 \<and> is_free_head sp \<noteq> MACH_PORT_NAME_NULL then
        (let idx = ipc_name_index (is_free_head sp) in do {
           nxt \<leftarrow> as_name (ie_object (entry_at sp idx));
           let sp = sp\<lparr>is_free_head := nxt, is_free_count := is_free_count sp - 1\<rparr>;
           let sp = upd_entry idx (\<lambda>e. e\<lparr>ie_gen := ie_gen e + 1\<rparr>) sp;
           Some (ipc_name_make (ucast (ie_gen (entry_at sp idx))) idx, sp)
         })
      else if is_table_used sp \<ge> is_table_size sp then Some (MACH_PORT_NAME_NULL, sp)
      else let idx = is_table_used sp in
        Some (ipc_name_make (ucast (ie_gen (entry_at sp idx))) idx, sp\<lparr>is_table_used := is_table_used sp + 1\<rparr>))"

definition space_free_name :: "u32 \<Rightarrow> ipc_space \<Rightarrow> ipc_space" where
  "space_free_name idx sp =
     (let sp = upd_entry idx (\<lambda>e. e\<lparr>ie_object := of_name (is_free_head sp), ie_bits := MACH_PORT_TYPE_NONE,
                 ie_urefs := 0, ie_gen := ie_gen e + 1\<rparr>) sp
      in sp\<lparr>is_free_head := ipc_name_make (ucast (ie_gen (entry_at sp idx))) idx,
            is_free_count := is_free_count sp + 1\<rparr>)"

text \<open>The check that a name is not stale: its generation is the one of its entry.\<close>
definition gen_matches :: "u32 \<Rightarrow> ipc_space \<Rightarrow> bool" where
  "gen_matches name sp \<longleftrightarrow> ipc_name_gen name = ucast (ie_gen (entry_at sp (ipc_name_index name)))"

section \<open>Creating ports and spaces\<close>

definition ipc_port_init_internal :: "nat \<Rightarrow> string \<Rightarrow> ipc_state \<Rightarrow> ipc_state" where
  "ipc_port_init_internal p label =
     upd_port p (\<lambda>q. q\<lparr>ip_signature := CHIMERA_IPC_PORT_MAGIC, ip_references := 1, ip_state := IPC_PORT_STATE_ACTIVE,
       ip_srights := 0, ip_sorights := 0, ip_receiver := None, ip_receiver_name := MACH_PORT_NAME_NULL,
       ip_nsrequest := None, ip_pdrequest := None, ip_mscount := 0, ip_next := None, ip_prev := None,
       ip_label := label, ip_create_time := 0,
       ip_messages := \<lparr>imq_messages = None, imq_messages_tail = None, imq_msgcount = 0,
         imq_qlimit = IPC_PORT_MSG_QUEUE_DEFAULT, imq_seqno = 0, imq_reserved = 0,
         imq_send_waiters = wait_queue_init, imq_recv_waiters = wait_queue_init\<rparr>\<rparr>)"

definition ipc_space_create :: "nat \<Rightarrow> ipc_state \<Rightarrow> chimera_error \<times> nat option \<times> ipc_state" where
  "ipc_space_create task s =
     (let idx = s_space_next s; s = s\<lparr>s_space_next := s_space_next s + 1\<rparr> in
      if idx \<ge> 256 then (CHIMERA_ERR_NOMEM, None, s\<lparr>s_space_next := 256\<rparr>)
      else (CHIMERA_SUCCESS, Some (unat idx), upd_space (unat idx) (\<lambda>sp. sp
        \<lparr>is_active := True, is_table_size := IPC_SPACE_INITIAL_CAPACITY, is_table_used := 1, is_task := task,
         is_free_head := MACH_PORT_NAME_NULL, is_free_count := 0,
         is_table := (\<lambda>i. if i < unat IPC_SPACE_INITIAL_CAPACITY
           then (is_table sp i)\<lparr>ie_object := None, ie_bits := MACH_PORT_TYPE_NONE, ie_urefs := 0\<rparr> else is_table sp i)\<rparr>) s))"

definition ipc_port_alloc :: "nat \<Rightarrow> string \<Rightarrow> ipc_state \<Rightarrow> (chimera_error \<times> u32 option \<times> ipc_state) option" where
  "ipc_port_alloc sp label s =
     (case port_arena_alloc s of
        (None, s) \<Rightarrow> Some (CHIMERA_ERR_NOMEM, None, s)
      | (Some p, s) \<Rightarrow>
          let s = ipc_port_init_internal p label s in
          if \<not> is_active (i_spaces s sp) then Some (CHIMERA_ERR_INVALID, None, port_arena_free (Some p) s)
          else do {
            (name, space) \<leftarrow> space_alloc_name (i_spaces s sp);
            let s = upd_space sp (\<lambda>_. space) s;
            (if name = MACH_PORT_NAME_NULL then Some (CHIMERA_ERR_NOMEM, None, port_arena_free (Some p) s)
             else let s = upd_space sp (upd_entry (ipc_name_index name) (\<lambda>e. e\<lparr>ie_object := Some (IE_PORT p),
                        ie_bits := MACH_PORT_TYPE_SEND_RECEIVE, ie_urefs := 1\<rparr>)) s;
                      s = upd_port p (\<lambda>q. q\<lparr>ip_receiver := Some sp, ip_receiver_name := name, ip_srights := 1\<rparr>) s
                  in Some (CHIMERA_SUCCESS, Some name, s))
          })"

section \<open>References and destruction\<close>

definition ipc_port_unlock :: "nat \<Rightarrow> ipc_state \<Rightarrow> ipc_state" where
  "ipc_port_unlock p s = s"

definition ipc_port_reference :: "nat \<Rightarrow> ipc_state \<Rightarrow> ipc_state" where
  "ipc_port_reference p = upd_port p (\<lambda>q. q\<lparr>ip_references := ip_references q + 1\<rparr>)"

definition ipc_port_release :: "nat \<Rightarrow> ipc_state \<Rightarrow> ipc_state" where
  "ipc_port_release p s =
     (let prev = ip_references (i_ports s p);
          s = upd_port p (\<lambda>q. q\<lparr>ip_references := ip_references q - 1\<rparr>) s
      in if prev = 1 then port_arena_free (Some p) (upd_port p (\<lambda>q. q\<lparr>ip_signature := 0xDEADDEADDEADDEAD\<rparr>) s)
         else s)"

text \<open>The loop that frees the queued messages.\<close>
partial_function (option) drain_messages :: "kmsg_ptr option \<Rightarrow> ipc_state \<Rightarrow> ipc_state option" where
  "drain_messages kmsg s =
     (if kmsg = None then Some s
      else drain_messages (ikm_next (i_kmsg s (the kmsg))) (ipc_kmsg_free kmsg s))"

text \<open>The removal of the receive right from the space that holds it.\<close>
definition drop_receiver :: "nat \<Rightarrow> ipc_state \<Rightarrow> ipc_state" where
  "drop_receiver p s =
     (case ip_receiver (i_ports s p) of
        None \<Rightarrow> s
      | Some sp \<Rightarrow>
          let name = ip_receiver_name (i_ports s p); space = i_spaces s sp;
              s = (if name \<noteq> MACH_PORT_NAME_NULL \<and> ipc_name_index name < is_table_size space \<and> gen_matches name space
                   then upd_space sp (space_free_name (ipc_name_index name)) s else s)
          in upd_port p (\<lambda>q. q\<lparr>ip_receiver := None, ip_receiver_name := MACH_PORT_NAME_NULL\<rparr>) s)"

definition ipc_port_destroy :: "nat \<Rightarrow> nat \<Rightarrow> ipc_state \<Rightarrow> ipc_state option" where
  "ipc_port_destroy my_cpu p s =
     (if \<not> port_active p s then Some s
      else do {
        let s = upd_port p (\<lambda>q. q\<lparr>ip_state := IPC_PORT_STATE_ZOMBIE\<rparr>) s;
        s \<leftarrow> drain_messages (imq_messages (ip_messages (i_ports s p))) s;
        let s = upd_mq p (\<lambda>mq. mq\<lparr>imq_messages := None, imq_messages_tail := None, imq_msgcount := 0\<rparr>) s;
        let s = drop_receiver p s;
        let s = upd_port p (\<lambda>q. q\<lparr>ip_state := IPC_PORT_STATE_DEAD\<rparr>) s;
        (wq, sch) \<leftarrow> wait_queue_wakeup_one my_cpu (imq_recv_waiters (ip_messages (i_ports s p))) (i_sched s);
        let s = upd_mq p (\<lambda>mq. mq\<lparr>imq_recv_waiters := wq\<rparr>) (s\<lparr>i_sched := sch\<rparr>);
        (wq, sch) \<leftarrow> wait_queue_wakeup_all my_cpu (imq_send_waiters (ip_messages (i_ports s p))) (i_sched s);
        let s = upd_mq p (\<lambda>mq. mq\<lparr>imq_send_waiters := wq\<rparr>) (s\<lparr>i_sched := sch\<rparr>);
        Some (ipc_port_release p s)
      })"

text \<open>The first loop of \<^verbatim>\<open>ipc_space_destroy\<close>: empty the entries from index \<open>i\<close> on, collecting the ports to
  destroy and those to release (both arrays have 64 places).\<close>
function collect_ports :: "nat \<Rightarrow> nat \<Rightarrow> nat list \<Rightarrow> nat list \<Rightarrow> ipc_state \<Rightarrow> (nat list \<times> nat list \<times> ipc_state) option" where
  "collect_ports sp i ds rs s =
     (if unat (is_table_used (i_spaces s sp)) \<le> i then Some (ds, rs, s)
      else let e = is_table (i_spaces s sp) i; room = (\<lambda>xs. length xs < unat IPC_SPACE_INITIAL_CAPACITY) in do {
        (ds, rs) \<leftarrow> (if ie_bits e \<noteq> MACH_PORT_TYPE_NONE \<and> ie_object e \<noteq> None then do {
            p \<leftarrow> as_port (ie_object e);
            Some (if ie_bits e AND MACH_PORT_TYPE_RECEIVE \<noteq> 0 \<and> ip_receiver (i_ports s p) = Some sp
                  then (if room ds then ds @ [p] else ds, rs)
                  else (ds, if room rs then rs @ [p] else rs))
          } else Some (ds, rs));
        collect_ports sp (i + 1) ds rs
          (upd_space sp (upd_entry (word_of_nat i) (\<lambda>e. e\<lparr>ie_object := None, ie_bits := MACH_PORT_TYPE_NONE\<rparr>)) s)
      })"
  by pat_completeness auto
termination
  by (relation "measure (\<lambda>(sp, i, ds, rs, s). unat (is_table_used (i_spaces s sp)) - i)")
    (auto simp: upd_space_def upd_entry_def)

declare collect_ports.simps [simp del]

fun destroy_ports :: "nat \<Rightarrow> nat list \<Rightarrow> ipc_state \<Rightarrow> ipc_state option" where
  "destroy_ports my_cpu [] s = Some s"
| "destroy_ports my_cpu (p # ps) s = do { s \<leftarrow> ipc_port_destroy my_cpu p s; destroy_ports my_cpu ps s }"

definition ipc_space_destroy :: "nat \<Rightarrow> nat \<Rightarrow> ipc_state \<Rightarrow> ipc_state option" where
  "ipc_space_destroy my_cpu sp s = do {
     let s = upd_space sp (\<lambda>x. x\<lparr>is_active := False\<rparr>) s;
     (ds, rs, s) \<leftarrow> collect_ports sp 1 [] [] s;
     let s = upd_space sp (\<lambda>x. x\<lparr>is_table_used := 1\<rparr>) s;
     s \<leftarrow> destroy_ports my_cpu ds s;
     Some (fold ipc_port_release rs s)
   }"

section \<open>Looking names up\<close>

definition ipc_port_lookup :: "nat option \<Rightarrow> u32 \<Rightarrow> u32 \<Rightarrow> ipc_state \<Rightarrow> nat option option" where
  "ipc_port_lookup space name required_right s =
     (case space of
        None \<Rightarrow> Some None
      | Some n \<Rightarrow>
          let sp = i_spaces s n; idx = ipc_name_index name; e = entry_at sp idx in
          if name = MACH_PORT_NAME_NULL \<or> name = MACH_PORT_NAME_DEAD then Some None
          else if idx \<ge> is_table_size sp \<or> idx \<ge> is_table_used sp then Some None
          else if \<not> is_active sp then Some None
          else if ie_bits e = MACH_PORT_TYPE_NONE \<or> ie_object e = None \<or> \<not> gen_matches name sp then Some None
          else if required_right \<noteq> 0 \<and> ie_bits e AND required_right = 0 then Some None
          else do {
            p \<leftarrow> as_port (ie_object e);
            Some (if port_active p s then Some p else None)
          })"

section \<open>Services\<close>

definition find_service :: "string \<Rightarrow> ipc_state \<Rightarrow> nat option" where
  "find_service name s = find (\<lambda>i. sv_name (s_services s i) = name) [0..<s_service_count s]"

text \<open>A name is stored truncated to 63 characters.\<close>
definition mach_register_service :: "string \<Rightarrow> nat option \<Rightarrow> ipc_state \<Rightarrow> chimera_error \<times> ipc_state" where
  "mach_register_service name port s =
     (if s_service_count s \<ge> MAX_SERVICES then (CHIMERA_ERR_OVERFLOW, s)
      else case find_service name s of
        Some i \<Rightarrow> (CHIMERA_SUCCESS, s\<lparr>s_services := (s_services s)(i := (s_services s i)\<lparr>sv_port := port\<rparr>)\<rparr>)
      | None \<Rightarrow> (CHIMERA_SUCCESS, s\<lparr>s_services := (s_services s)(s_service_count s := \<lparr>sv_name = take 63 name, sv_port = port\<rparr>),
                   s_service_count := s_service_count s + 1\<rparr>))"

definition mach_lookup_service :: "string \<Rightarrow> ipc_state \<Rightarrow> nat option" where
  "mach_lookup_service name s = (case find_service name s of Some i \<Rightarrow> sv_port (s_services s i) | None \<Rightarrow> None)"

section \<open>Start of the subsystem\<close>

definition ipc_init :: "ipc_state \<Rightarrow> ipc_state option" where
  "ipc_init s = do {
     t \<leftarrow> i_task_kernel s;
     let (err, sp, s) = ipc_space_create t s;
     sp \<leftarrow> (if err = CHIMERA_SUCCESS then sp else None);
     let s = s\<lparr>ta_ipc_space := (ta_ipc_space s)(t := Some sp)\<rparr>;
     (err, name, s) \<leftarrow> ipc_port_alloc sp ''kernel.bootstrap'' s;
     name \<leftarrow> (if err = CHIMERA_SUCCESS then name else None);
     p \<leftarrow> as_port (ie_object (entry_at (i_spaces s sp) (ipc_name_index name)));
     Some (upd_port p (\<lambda>q. q\<lparr>ip_state := IPC_PORT_STATE_SPECIAL\<rparr>) (s\<lparr>ipc_port_kernel_bootstrap := Some p\<rparr>))
   }"

section \<open>Rights\<close>

text \<open>The search for an entry that already names a send right to the port.\<close>
definition find_send :: "nat \<Rightarrow> ipc_space \<Rightarrow> nat option" where
  "find_send p sp = find (\<lambda>i. ie_object (is_table sp i) = Some (IE_PORT p) \<and> ie_bits (is_table sp i) AND MACH_PORT_TYPE_SEND \<noteq> 0)
     [1..<unat (is_table_used sp)]"

definition ipc_port_copyout_send :: "nat option \<Rightarrow> nat option \<Rightarrow> ipc_state \<Rightarrow> (u32 \<times> ipc_state) option" where
  "ipc_port_copyout_send space port s =
     (case (port, space) of
        (Some p, Some n) \<Rightarrow>
          if ip_receiver (i_ports s p) = Some n then Some (ip_receiver_name (i_ports s p), s)
          else (case find_send p (i_spaces s n) of
            Some i \<Rightarrow> Some (word_of_nat i,
              upd_space n (upd_entry (word_of_nat i) (\<lambda>e. e\<lparr>ie_urefs := ie_urefs e + 1\<rparr>)) s)
          | None \<Rightarrow> do {
              (name, sp) \<leftarrow> space_alloc_name (i_spaces s n);
              let s = upd_space n (\<lambda>_. sp) s;
              (if name = MACH_PORT_NAME_NULL then Some (MACH_PORT_NAME_NULL, s)
               else let s = upd_space n (upd_entry (ipc_name_index name) (\<lambda>e. e\<lparr>ie_object := Some (IE_PORT p),
                          ie_bits := MACH_PORT_TYPE_SEND, ie_urefs := 1\<rparr>)) s
                    in Some (name, upd_port p (\<lambda>q. q\<lparr>ip_srights := ip_srights q + 1\<rparr>) s))
            })
      | _ \<Rightarrow> Some (MACH_PORT_NAME_NULL, s))"

text \<open>A new name for a right that has no port.\<close>
definition alloc_bare :: "nat \<Rightarrow> u32 \<Rightarrow> ipc_state \<Rightarrow> (chimera_error \<times> u32 option \<times> ipc_state) option" where
  "alloc_bare n bits s = do {
     (name, sp) \<leftarrow> space_alloc_name (i_spaces s n);
     let s = upd_space n (\<lambda>_. sp) s;
     (if name = MACH_PORT_NAME_NULL then Some (CHIMERA_ERR_NOMEM, None, s)
      else Some (CHIMERA_SUCCESS, Some name, upd_space n (upd_entry (ipc_name_index name)
        (\<lambda>e. e\<lparr>ie_object := None, ie_bits := bits, ie_urefs := 1\<rparr>)) s))
   }"

definition mach_port_allocate_kernel ::
  "nat option \<Rightarrow> u32 \<Rightarrow> bool \<Rightarrow> ipc_state \<Rightarrow> (chimera_error \<times> u32 option \<times> ipc_state) option" where
  "mach_port_allocate_kernel space right out s =
     (case space of
        None \<Rightarrow> Some (CHIMERA_ERR_INVALID, None, s)
      | Some n \<Rightarrow>
          if \<not> out then Some (CHIMERA_ERR_INVALID, None, s)
          else if right = MACH_PORT_RIGHT_RECEIVE then ipc_port_alloc n ''mach.port'' s
          else if right = MACH_PORT_RIGHT_PORT_SET then alloc_bare n MACH_PORT_TYPE_PORT_SET s
          else if right = MACH_PORT_RIGHT_DEAD_NAME then alloc_bare n MACH_PORT_TYPE_DEAD_NAME s
          else Some (CHIMERA_ERR_NOTSUP, None, s))"

text \<open>What is done to the port when the last user reference of a right goes away.\<close>
definition drop_right :: "nat \<Rightarrow> nat \<Rightarrow> u32 \<Rightarrow> nat \<Rightarrow> ipc_state \<Rightarrow> ipc_state option" where
  "drop_right my_cpu n bits p s =
     (if bits AND MACH_PORT_TYPE_RECEIVE \<noteq> 0 \<and> ip_receiver (i_ports s p) = Some n then ipc_port_destroy my_cpu p s
      else if bits AND MACH_PORT_TYPE_SEND \<noteq> 0
      then Some (ipc_port_release p (upd_port p (\<lambda>q. if ip_srights q > 0 then q\<lparr>ip_srights := ip_srights q - 1\<rparr> else q) s))
      else Some (ipc_port_release p s))"

definition mach_port_deallocate_kernel :: "nat \<Rightarrow> nat option \<Rightarrow> u32 \<Rightarrow> ipc_state \<Rightarrow> (chimera_error \<times> ipc_state) option" where
  "mach_port_deallocate_kernel my_cpu space name s =
     (case space of
        None \<Rightarrow> Some (CHIMERA_ERR_INVALID, s)
      | Some n \<Rightarrow>
          let sp = i_spaces s n; idx = ipc_name_index name; e = entry_at sp idx in
          if name = MACH_PORT_NAME_NULL \<or> name = MACH_PORT_NAME_DEAD then Some (CHIMERA_ERR_INVALID, s)
          else if idx \<ge> is_table_used sp \<or> \<not> gen_matches name sp then Some (CHIMERA_ERR_INVALID, s)
          else if ie_bits e = MACH_PORT_TYPE_NONE \<or> ie_urefs e = 0 then Some (CHIMERA_ERR_INVALID, s)
          else if ie_urefs e - 1 = 0 then do {
            let s = upd_space n (space_free_name idx) s;
            s \<leftarrow> (if ie_object e = None then Some s
                  else do { p \<leftarrow> as_port (ie_object e); drop_right my_cpu n (ie_bits e) p s });
            Some (CHIMERA_SUCCESS, s)
          }
          else Some (CHIMERA_SUCCESS, upd_space n (upd_entry idx (\<lambda>e. e\<lparr>ie_urefs := ie_urefs e - 1\<rparr>)) s))"

definition mach_port_type_kernel :: "nat option \<Rightarrow> u32 \<Rightarrow> bool \<Rightarrow> ipc_state \<Rightarrow> chimera_error \<times> u32 option" where
  "mach_port_type_kernel space name out s =
     (case space of
        None \<Rightarrow> (CHIMERA_ERR_INVALID, None)
      | Some n \<Rightarrow>
          let sp = i_spaces s n; idx = ipc_name_index name in
          if \<not> out \<or> name = MACH_PORT_NAME_NULL then (CHIMERA_ERR_INVALID, None)
          else if idx \<ge> is_table_used sp \<or> \<not> gen_matches name sp then (CHIMERA_ERR_INVALID, None)
          else (CHIMERA_SUCCESS, Some (ie_bits (entry_at sp idx))))"

end
