(* ===== verification/Ipc_Mqueue.thy ===== *)
theory Ipc_Mqueue
  imports Ipc_Port
begin

text \<open>
  Message queues (\<^verbatim>\<open>ipc_mqueue_send\<close> and \<^verbatim>\<open>ipc_mqueue_receive\<close> of \<^verbatim>\<open>kernel/mach/ipc_kmsg.c\<close>) and the kernel
  objects that answer messages themselves, \<^verbatim>\<open>kernel/mach/ipc_kobject.c\<close>. Both calls are loops that run
  under the queue's lock and sleep in between: the first iteration and each iteration after a wake-up
  are one atomic step. \<open>now\<close> is the value of \<^verbatim>\<open>timer_get_uptime_ms\<close> in that step.
\<close>

unbundle bit_operations_syntax

section \<open>Message bytes\<close>

definition MACH_MSGH_BITS_COMPLEX :: u32 where "MACH_MSGH_BITS_COMPLEX = 0x80000000"
definition MACH_MSG_PORT_DESCRIPTOR :: u8 where "MACH_MSG_PORT_DESCRIPTOR = 0"

definition le32 :: "u32 \<Rightarrow> u8 list" where "le32 w = map (\<lambda>i. ucast (drop_bit (8 * i) w)) [0..<4]"
definition le64 :: "u64 \<Rightarrow> u8 list" where "le64 w = map (\<lambda>i. ucast (drop_bit (8 * i) w)) [0..<8]"

definition get32 :: "(nat \<Rightarrow> u8) \<Rightarrow> nat \<Rightarrow> u32" where
  "get32 d off = fold (\<lambda>i w. w OR push_bit (8 * i) (ucast (d (off + i)))) [0..<4] 0"

definition get64 :: "(nat \<Rightarrow> u8) \<Rightarrow> nat \<Rightarrow> u64" where
  "get64 d off = fold (\<lambda>i w. w OR push_bit (8 * i) (ucast (d (off + i)))) [0..<8] 0"

text \<open>The six words of \<^verbatim>\<open>mach_msg_header_t\<close>; the identifier is the last one.\<close>
definition msg_header :: "u32 \<Rightarrow> u32 \<Rightarrow> u32 \<Rightarrow> u32 \<Rightarrow> u8 list" where
  "msg_header bits sz remote msgid = concat (map le32 [bits, sz, remote, MACH_PORT_NAME_NULL, 0, msgid])"

definition msgh_id :: "ipc_kmsg \<Rightarrow> u32" where "msgh_id k = get32 (ikm_data k) 20"

definition put_data :: "u8 list \<Rightarrow> ipc_kmsg \<Rightarrow> ipc_kmsg" where
  "put_data bs k = k\<lparr>ikm_data := (\<lambda>i. if i < length bs then bs ! i else ikm_data k i)\<rparr>"

section \<open>Queues\<close>

text \<open>Where a call stands: asleep in its loop, or returned.\<close>
datatype mq_call =
    MQ_SEND nat kmsg_ptr u64
  | MQ_RECEIVE nat u32 u64
  | MQ_DONE chimera_error "kmsg_ptr option"

text \<open>The tail of \<^verbatim>\<open>ipc_mqueue_send\<close>: append and wake one receiver.\<close>
definition enqueue_kmsg :: "nat \<Rightarrow> nat \<Rightarrow> kmsg_ptr \<Rightarrow> ipc_state \<Rightarrow> ipc_state option" where
  "enqueue_kmsg my_cpu p k s =
     (let mq = ip_messages (i_ports s p);
          s = upd_kmsg k (\<lambda>m. m\<lparr>ikm_seqno := imq_seqno mq, ikm_next := None, ikm_prev := imq_messages_tail mq\<rparr>) s;
          s = (case imq_messages_tail mq of
                 Some t \<Rightarrow> upd_kmsg t (\<lambda>m. m\<lparr>ikm_next := Some k\<rparr>) s
               | None \<Rightarrow> upd_mq p (\<lambda>q. q\<lparr>imq_messages := Some k\<rparr>) s);
          s = upd_mq p (\<lambda>q. q\<lparr>imq_seqno := imq_seqno q + 1, imq_messages_tail := Some k, imq_msgcount := imq_msgcount q + 1\<rparr>) s
      in do {
        (wq, sch) \<leftarrow> wait_queue_wakeup_one my_cpu (imq_recv_waiters mq) (i_sched s);
        Some (upd_mq p (\<lambda>q. q\<lparr>imq_recv_waiters := wq\<rparr>) (s\<lparr>i_sched := sch\<rparr>))
      })"

text \<open>A send with timeout 0, given the server for ports of kernel objects.\<close>
definition mqueue_send_now ::
  "nat \<Rightarrow> (nat \<Rightarrow> kmsg_ptr \<Rightarrow> ipc_state \<Rightarrow> (chimera_error \<times> ipc_state) option) \<Rightarrow>
   nat \<Rightarrow> kmsg_ptr \<Rightarrow> ipc_state \<Rightarrow> (chimera_error \<times> ipc_state) option" where
  "mqueue_send_now my_cpu server p k s =
     (let mq = ip_messages (i_ports s p) in
      if \<not> port_active p s then Some (CHIMERA_ERR_PORT_DEAD, s)
      else if ip_kobject (i_ports s p) \<noteq> None then server p k s
      else if imq_msgcount mq \<ge> imq_qlimit mq then Some (CHIMERA_ERR_PORT_FULL, s)
      else do { s \<leftarrow> enqueue_kmsg my_cpu p k s; Some (CHIMERA_SUCCESS, s) })"

section \<open>Kernel objects\<close>

definition IKOT_TASK :: u32 where "IKOT_TASK = 1"
definition MACH_VM_ALLOCATE_ID :: u32 where "MACH_VM_ALLOCATE_ID = 4800"
definition MACH_VM_DEALLOCATE_ID :: u32 where "MACH_VM_DEALLOCATE_ID = 4801"
definition TASK_GET_SPECIAL_PORT_ID :: u32 where "TASK_GET_SPECIAL_PORT_ID = 3403"
definition TASK_SET_SPECIAL_PORT_ID :: u32 where "TASK_SET_SPECIAL_PORT_ID = 3404"
definition TASK_INFO_ID :: u32 where "TASK_INFO_ID = 3405"
definition TASK_KERNEL_PORT :: u32 where "TASK_KERNEL_PORT = 1"
definition TASK_BOOTSTRAP_PORT :: u32 where "TASK_BOOTSTRAP_PORT = 4"
definition MMAP_BASE :: u64 where "MMAP_BASE = 0x0000600000000000"
definition MMAP_LIMIT :: u64 where "MMAP_LIMIT = 0x0000780000000000"

type_synonym send_fn = "nat \<Rightarrow> kmsg_ptr \<Rightarrow> ipc_state \<Rightarrow> (chimera_error \<times> ipc_state) option"

definition ipc_kobject_set :: "nat option \<Rightarrow> nat option \<Rightarrow> u32 \<Rightarrow> ipc_state \<Rightarrow> ipc_state" where
  "ipc_kobject_set port kobject ktype s =
     (case port of None \<Rightarrow> s | Some p \<Rightarrow> upd_port p (\<lambda>q. q\<lparr>ip_kobject := kobject, ip_kotype := ktype\<rparr>) s)"

text \<open>The common end of the handlers: a reply message with the given bytes, if there is a reply port and memory.
  The result of the send is ignored.\<close>
definition send_reply :: "send_fn \<Rightarrow> nat option \<Rightarrow> u8 list \<Rightarrow> ipc_state \<Rightarrow> ipc_state option" where
  "send_reply send reply_port bytes s =
     (case reply_port of
        None \<Rightarrow> Some s
      | Some rp \<Rightarrow>
          (case ipc_kmsg_alloc (word_of_nat (length bytes)) s of
             (None, s) \<Rightarrow> Some s
           | (Some k, s) \<Rightarrow> do {
               (err, s) \<leftarrow> send rp k (upd_kmsg k (\<lambda>m. (put_data bytes m)\<lparr>ikm_remote_port := Some rp\<rparr>) s);
               Some s
             }))"

text \<open>\<open>port_name\<close> is the reply port's pointer truncated to 32 bits, which the code stores as \<^verbatim>\<open>msgh_remote_port\<close>.\<close>
definition send_mig_reply_ret :: "(nat \<Rightarrow> u32) \<Rightarrow> send_fn \<Rightarrow> nat option \<Rightarrow> u32 \<Rightarrow> u32 \<Rightarrow> ipc_state \<Rightarrow> ipc_state option" where
  "send_mig_reply_ret port_name send reply_port reply_id ret_code s =
     (case reply_port of
        None \<Rightarrow> Some s
      | Some rp \<Rightarrow> send_reply send reply_port (msg_header 0 28 (port_name rp) reply_id @ le32 ret_code) s)"

text \<open>The address a \<^verbatim>\<open>mach_vm_allocate\<close> uses, with the task's allocation cursor.\<close>
definition vm_alloc_va :: "nat \<Rightarrow> u64 \<Rightarrow> u64 \<Rightarrow> u32 \<Rightarrow> ipc_state \<Rightarrow> u64 \<times> ipc_state" where
  "vm_alloc_va task address req_size flags s =
     (if address = 0 \<or> flags AND 1 \<noteq> 0 then
        (let nxt = ta_mmap_next s task; va = (if nxt = 0 \<or> nxt < MMAP_BASE then MMAP_BASE else nxt);
             nxt = va + (req_size + 4096); nxt = (if nxt > MMAP_LIMIT then MMAP_BASE else nxt)
         in (va, s\<lparr>ta_mmap_next := (ta_mmap_next s)(task := nxt)\<rparr>))
      else (address, s))"

definition map_zero_page :: "u64 \<Rightarrow> u64 \<Rightarrow> pmap_state \<Rightarrow> pmap_state" where
  "map_zero_page pml4 va s =
     (let (paddr, s) = pm_alloc s in
      if failed_alloc paddr then s
      else snd (pmap_map_user_page pml4 va (word_of_nat paddr) 7 (zero_page paddr s)))"

definition mach_vm_allocate :: "nat option \<Rightarrow> u64 \<Rightarrow> u64 \<Rightarrow> u32 \<Rightarrow> ipc_state \<Rightarrow> u32 \<times> u64 \<times> ipc_state" where
  "mach_vm_allocate target address sz flags s =
     (case target of
        None \<Rightarrow> (4, 0, s)
      | Some task \<Rightarrow>
          let pml4 = ta_vm_map (sc_tasks (i_sched s) task) in
          if pml4 = 0 \<or> sz = 0 \<or> sz > 0x100000000 then (4, 0, s)
          else let req_size = (sz + 4095) AND NOT 4095; (va, s) = vm_alloc_va task address req_size flags s in
            if va < 0x1000 \<or> va \<ge> USER_TOP \<or> req_size \<ge> USER_TOP \<or> va + req_size > USER_TOP then (4, 0, s)
            else (0, va, set_pm (fold (\<lambda>i. map_zero_page pml4 (va + word_of_nat (4096 * i))) [0..<unat req_size div 4096] (get_pm s)) s))"

definition mach_vm_deallocate :: "nat option \<Rightarrow> u64 \<Rightarrow> u64 \<Rightarrow> ipc_state \<Rightarrow> (u32 \<times> ipc_state) option" where
  "mach_vm_deallocate target address sz s =
     (case target of
        None \<Rightarrow> Some (4, s)
      | Some task \<Rightarrow>
          let pml4 = ta_vm_map (sc_tasks (i_sched s) task) in
          if pml4 \<noteq> 0 \<and> sz > 0 \<and> address \<ge> 0x1000 \<and> address < USER_TOP \<and> sz < USER_TOP \<and> address + sz \<le> USER_TOP
          then do { p \<leftarrow> pmap_unmap_user_range pml4 address sz (get_pm s); Some (0, set_pm p s) }
          else Some (4, s))"

text \<open>The remaining requests of the task interface. Each dereferences the target task where the code does.\<close>
definition task_get_special_port :: "send_fn \<Rightarrow> nat option \<Rightarrow> ipc_kmsg \<Rightarrow> ipc_state \<Rightarrow> ipc_state option" where
  "task_get_special_port send target m s = do {
     let which = get32 (ikm_data m) 24;
     found \<leftarrow> (if which = TASK_BOOTSTRAP_PORT then map_option (ta_bootstrap_port s) target
               else if which = TASK_KERNEL_PORT then map_option (ta_task_port s) target
               else Some MACH_PORT_NAME_NULL);
     send_reply send (ikm_local_port m) (msg_header MACH_MSGH_BITS_COMPLEX 44 0 (TASK_GET_SPECIAL_PORT_ID + 100)
       @ le32 1 @ le32 found @ replicate 7 0 @ [MACH_MSG_PORT_DESCRIPTOR] @ le32 0) s
   }"

definition task_set_special_port :: "(nat \<Rightarrow> u32) \<Rightarrow> send_fn \<Rightarrow> nat option \<Rightarrow> ipc_kmsg \<Rightarrow> ipc_state \<Rightarrow> ipc_state option" where
  "task_set_special_port port_name send target m s = do {
     s \<leftarrow> (if get32 (ikm_data m) 24 = TASK_BOOTSTRAP_PORT
           then do { t \<leftarrow> target; Some (s\<lparr>ta_bootstrap_port := (ta_bootstrap_port s)(t := get32 (ikm_data m) 28)\<rparr>) } else Some s);
     send_mig_reply_ret port_name send (ikm_local_port m) (TASK_SET_SPECIAL_PORT_ID + 100) 0 s
   }"

definition task_info :: "send_fn \<Rightarrow> nat option \<Rightarrow> ipc_kmsg \<Rightarrow> ipc_state \<Rightarrow> ipc_state option" where
  "task_info send target m s = do {
     t \<leftarrow> target;
     send_reply send (ikm_local_port m) (msg_header 0 48 0 (TASK_INFO_ID + 100) @ le32 0
       @ le32 (case ta_proc_pid s t of Some pid \<Rightarrow> pid | None \<Rightarrow> 0) @ le64 (16 * 1024 * 1024) @ le64 (64 * 4096)) s
   }"

text \<open>The switch over the message identifier; \<open>None\<close> is the default case.\<close>
definition task_request :: "(nat \<Rightarrow> u32) \<Rightarrow> send_fn \<Rightarrow> nat option \<Rightarrow> ipc_kmsg \<Rightarrow> ipc_state \<Rightarrow> ipc_state option option" where
  "task_request port_name send target m s =
     (let d = ikm_data m in
      if msgh_id m = MACH_VM_ALLOCATE_ID then
        Some (let (ret, va, s) = mach_vm_allocate target (get64 d 24) (get64 d 32) (get32 d 40) s
              in send_reply send (ikm_local_port m)
                   (msg_header 0 36 0 (MACH_VM_ALLOCATE_ID + 100) @ le32 ret @ le64 (if ret = 0 then va else 0)) s)
      else if msgh_id m = MACH_VM_DEALLOCATE_ID then
        Some (do { (ret, s) \<leftarrow> mach_vm_deallocate target (get64 d 24) (get64 d 32) s;
                   send_mig_reply_ret port_name send (ikm_local_port m) (MACH_VM_DEALLOCATE_ID + 100) ret s })
      else if msgh_id m = TASK_GET_SPECIAL_PORT_ID then Some (task_get_special_port send target m s)
      else if msgh_id m = TASK_SET_SPECIAL_PORT_ID then Some (task_set_special_port port_name send target m s)
      else if msgh_id m = TASK_INFO_ID then Some (task_info send target m s)
      else None)"

definition ipc_kobject_server :: "nat \<Rightarrow> (nat \<Rightarrow> u32) \<Rightarrow> send_fn \<Rightarrow> send_fn" where
  "ipc_kobject_server my_cpu port_name send p k s =
     (let q = i_ports s p; m = i_kmsg s k;
          target = (case ip_kobject q of
                      Some t \<Rightarrow> Some t
                    | None \<Rightarrow> (case current_thread my_cpu (i_sched s) of Some th \<Rightarrow> th_task (thr (i_sched s) th) | None \<Rightarrow> None));
          handled = (if ip_kotype q = IKOT_TASK then task_request port_name send target m s else None)
      in do {
        s \<leftarrow> (case handled of
                Some r \<Rightarrow> r
              | None \<Rightarrow> send_mig_reply_ret port_name send (ikm_local_port m) (msgh_id m + 100) 0xFFFFFFFF s);
        Some (CHIMERA_SUCCESS, ipc_kmsg_free (Some k) s)
      })"

text \<open>A reply has no reply port itself, so the server is entered at most twice: once for the request and once if
  the reply port is a kernel object.\<close>
definition reply_server :: "nat \<Rightarrow> (nat \<Rightarrow> u32) \<Rightarrow> send_fn" where
  "reply_server my_cpu port_name = ipc_kobject_server my_cpu port_name (\<lambda>p k s. None)"

definition kobject_server :: "nat \<Rightarrow> (nat \<Rightarrow> u32) \<Rightarrow> send_fn" where
  "kobject_server my_cpu port_name = ipc_kobject_server my_cpu port_name (mqueue_send_now my_cpu (reply_server my_cpu port_name))"

section \<open>Sending and receiving\<close>

definition send_sleep :: "nat \<Rightarrow> nat \<Rightarrow> kmsg_ptr \<Rightarrow> u64 \<Rightarrow> ipc_state \<Rightarrow> (mq_call \<times> ipc_state) option" where
  "send_sleep my_cpu p k deadline s = do {
     (wq, sch) \<leftarrow> wait_queue_sleep_until_irqrestore my_cpu deadline (imq_send_waiters (ip_messages (i_ports s p))) (i_sched s);
     Some (MQ_SEND p k deadline, upd_mq p (\<lambda>q. q\<lparr>imq_send_waiters := wq\<rparr>) (s\<lparr>i_sched := sch\<rparr>))
   }"

definition ipc_mqueue_send ::
  "nat \<Rightarrow> (nat \<Rightarrow> u32) \<Rightarrow> u64 \<Rightarrow> nat \<Rightarrow> kmsg_ptr \<Rightarrow> u32 \<Rightarrow> ipc_state \<Rightarrow> (mq_call \<times> ipc_state) option" where
  "ipc_mqueue_send my_cpu port_name now p k timeout_ms s =
     (let mq = ip_messages (i_ports s p) in
      if port_active p s \<and> ip_kobject (i_ports s p) = None \<and> imq_msgcount mq \<ge> imq_qlimit mq \<and> timeout_ms \<noteq> 0
      then send_sleep my_cpu p k (now + ucast timeout_ms) s
      else do { (err, s) \<leftarrow> mqueue_send_now my_cpu (kobject_server my_cpu port_name) p k s; Some (MQ_DONE err None, s) })"

text \<open>An iteration after a wake-up.\<close>
definition send_resume :: "nat \<Rightarrow> u64 \<Rightarrow> nat \<Rightarrow> kmsg_ptr \<Rightarrow> u64 \<Rightarrow> ipc_state \<Rightarrow> (mq_call \<times> ipc_state) option" where
  "send_resume my_cpu now p k deadline s =
     (let mq = ip_messages (i_ports s p) in
      if \<not> port_active p s then Some (MQ_DONE CHIMERA_ERR_PORT_DEAD None, s)
      else if imq_msgcount mq < imq_qlimit mq then do { s \<leftarrow> enqueue_kmsg my_cpu p k s; Some (MQ_DONE CHIMERA_SUCCESS None, s) }
      else if sint (deadline - now) \<le> 0 then Some (MQ_DONE CHIMERA_ERR_TIMEOUT None, s)
      else send_sleep my_cpu p k deadline s)"

text \<open>The tail of \<^verbatim>\<open>ipc_mqueue_receive\<close>: unlink the first message and wake one sender.\<close>
definition dequeue_kmsg :: "nat \<Rightarrow> nat \<Rightarrow> ipc_state \<Rightarrow> (kmsg_ptr \<times> ipc_state) option" where
  "dequeue_kmsg my_cpu p s = do {
     k \<leftarrow> imq_messages (ip_messages (i_ports s p));
     let nxt = ikm_next (i_kmsg s k);
     let s = upd_mq p (\<lambda>q. q\<lparr>imq_messages := nxt, imq_messages_tail := (if nxt = None then None else imq_messages_tail q),
               imq_msgcount := imq_msgcount q - 1\<rparr>) s;
     let s = (case nxt of Some n \<Rightarrow> upd_kmsg n (\<lambda>m. m\<lparr>ikm_prev := None\<rparr>) s | None \<Rightarrow> s);
     let s = upd_kmsg k (\<lambda>m. m\<lparr>ikm_next := None, ikm_prev := None\<rparr>) s;
     (wq, sch) \<leftarrow> wait_queue_wakeup_one my_cpu (imq_send_waiters (ip_messages (i_ports s p))) (i_sched s);
     Some (k, upd_mq p (\<lambda>q. q\<lparr>imq_send_waiters := wq\<rparr>) (s\<lparr>i_sched := sch\<rparr>))
   }"

text \<open>One iteration of the receive loop.\<close>
definition receive_iter :: "nat \<Rightarrow> u64 \<Rightarrow> nat \<Rightarrow> u32 \<Rightarrow> u64 \<Rightarrow> ipc_state \<Rightarrow> (mq_call \<times> ipc_state) option" where
  "receive_iter my_cpu now p timeout_ms rcv_deadline s =
     (let mq = ip_messages (i_ports s p) in
      if \<not> port_active p s then Some (MQ_DONE CHIMERA_ERR_PORT_DEAD None, s)
      else if imq_msgcount mq > 0 then do { (k, s) \<leftarrow> dequeue_kmsg my_cpu p s; Some (MQ_DONE CHIMERA_SUCCESS (Some k), s) }
      else if timeout_ms = 0 then Some (MQ_DONE CHIMERA_ERR_TIMEOUT None, s)
      else if sint (rcv_deadline - now) \<le> 0 then Some (MQ_DONE CHIMERA_ERR_TIMEOUT None, s)
      else do {
        (wq, sch) \<leftarrow> wait_queue_sleep_until_irqrestore my_cpu rcv_deadline (imq_recv_waiters mq) (i_sched s);
        Some (MQ_RECEIVE p timeout_ms rcv_deadline, upd_mq p (\<lambda>q. q\<lparr>imq_recv_waiters := wq\<rparr>) (s\<lparr>i_sched := sch\<rparr>))
      })"

definition ipc_mqueue_receive :: "nat \<Rightarrow> u64 \<Rightarrow> nat \<Rightarrow> u32 \<Rightarrow> ipc_state \<Rightarrow> (mq_call \<times> ipc_state) option" where
  "ipc_mqueue_receive my_cpu now p timeout_ms s =
     receive_iter my_cpu now p timeout_ms (if timeout_ms \<noteq> 0 then now + ucast timeout_ms else 0) s"

fun mq_call_step :: "nat \<Rightarrow> u64 \<Rightarrow> mq_call \<Rightarrow> ipc_state \<Rightarrow> (mq_call \<times> ipc_state) option" where
  "mq_call_step my_cpu now (MQ_SEND p k deadline) s = send_resume my_cpu now p k deadline s"
| "mq_call_step my_cpu now (MQ_RECEIVE p timeout deadline) s = receive_iter my_cpu now p timeout deadline s"
| "mq_call_step my_cpu now (MQ_DONE err r) s = Some (MQ_DONE err r, s)"

end
