(* ===== verification/Ipc_Names.thy ===== *)
theory Ipc_Names
  imports Ipc_Port
begin

text \<open>
  The name table of one space: its invariant, the abstract map from names to rights it implements,
  and the contract \<open>name_table\<close> of entering and dropping a right. Only the low 16 bits of a name
  matter (6 of index, 10 of generation, of which an entry stores 8).
\<close>

unbundle bit_operations_syntax

section \<open>Packing of names\<close>

lemma mask_numerals: "(0x3F :: u32) = mask 6" "(0x3FF :: u32) = mask 10" "(0xFFFF :: u32) = mask 16"
  by (simp_all add: mask_eq_exp_minus_1)

lemma name_index_make [simp]: "ipc_name_index (ipc_name_make g i) = i AND 0x3F"
  unfolding ipc_name_index_def ipc_name_make_def mask_numerals
  by (rule bit_word_eqI) (auto simp: bit_simps)

lemma name_gen_make: "ipc_name_gen (ipc_name_make g i) = g AND 0x3FF"
  unfolding ipc_name_gen_def ipc_name_make_def mask_numerals
  by (rule bit_word_eqI) (auto simp: bit_simps)

lemma ucast_gen_mask [simp]: "(ucast (g :: u8) :: u32) AND 0x3FF = ucast g"
  unfolding mask_numerals by (rule bit_word_eqI) (auto simp: bit_simps dest: bit_imp_le_length)

lemma name_gen_make_u8 [simp]: "ipc_name_gen (ipc_name_make (ucast (g :: u8)) i) = ucast g"
  by (simp add: name_gen_make)

lemma unat_gen [simp]: "unat (ucast (g :: u8) :: u32) = unat g"
proof -
  have "unat g < 2 ^ 8" using unsigned_less [of g, where ?'a = nat] by simp
  then have "unat g < 2 ^ 32" by simp
  then show ?thesis by (simp add: unsigned_ucast_eq take_bit_nat_eq_self)
qed

lemma ucast_gen_inj [simp]: "(ucast (g :: u8) :: u32) = ucast h \<longleftrightarrow> g = h"
  by (metis unat_gen word_unat_eq_iff)

lemma index_less: "unat (ipc_name_index n) < 64"
proof -
  have "ipc_name_index n = take_bit 6 n" by (simp add: ipc_name_index_def mask_numerals take_bit_eq_mask)
  then show ?thesis using take_bit_nat_less_exp [of 6 "unat n"] by (simp add: unsigned_take_bit_eq)
qed

lemma small_index_word [simp]:
  assumes "(i :: u32) < 64"
  shows "i AND 0x3F = i"
proof -
  have "unat (take_bit 6 i) = unat i" using assms by (simp add: unsigned_take_bit_eq take_bit_nat_eq_self word_less_nat_alt)
  then show ?thesis by (simp add: mask_numerals word_unat_eq_iff flip: take_bit_eq_mask)
qed

lemma small_index [simp]: "i < 64 \<Longrightarrow> (word_of_nat i :: u32) AND 0x3F = word_of_nat i"
  by (rule small_index_word) (simp add: word_less_nat_alt unsigned_of_nat take_bit_nat_eq_self)

lemma unat_small [simp]: "i < 64 \<Longrightarrow> unat (word_of_nat i :: u32) = i"
  by (simp add: unsigned_of_nat take_bit_nat_eq_self)

lemma name_low: "n AND 0xFFFF = ipc_name_make (ipc_name_gen n) (ipc_name_index n)"
  unfolding ipc_name_gen_def ipc_name_make_def ipc_name_index_def mask_numerals
  by (rule bit_word_eqI) (auto simp: bit_simps)

lemma name_low_parts [simp]:
  "ipc_name_index (n AND 0xFFFF) = ipc_name_index n" "ipc_name_gen (n AND 0xFFFF) = ipc_name_gen n"
  unfolding ipc_name_gen_def ipc_name_index_def mask_numerals
  by (rule bit_word_eqI, auto simp: bit_simps)+

section \<open>The rights a table gives\<close>

text \<open>The current name of index \<open>i\<close>, and the map from names to rights.\<close>
definition name_of :: "ipc_space \<Rightarrow> nat \<Rightarrow> u32" where
  "name_of sp i = ipc_name_make (ucast (ie_gen (is_table sp i))) (word_of_nat i)"

definition rights :: "ipc_space \<Rightarrow> u32 \<Rightarrow> (ie_ref option \<times> u32) option" where
  "rights sp n =
     (let i = unat (ipc_name_index n) in
      if i < unat (is_table_used sp) \<and> n = name_of sp i \<and> ie_bits (is_table sp i) \<noteq> MACH_PORT_TYPE_NONE
      then Some (ie_object (is_table sp i), ie_bits (is_table sp i)) else None)"

lemma name_of_index [simp]: "i < 64 \<Longrightarrow> ipc_name_index (name_of sp i) = word_of_nat i"
  by (simp add: name_of_def)

lemma name_of_gen [simp]: "ipc_name_gen (name_of sp i) = ucast (ie_gen (is_table sp i))"
  by (simp add: name_of_def)

lemma name_of_not_null: "0 < i \<Longrightarrow> i < 64 \<Longrightarrow> name_of sp i \<noteq> 0"
  using name_of_index [of i sp] unat_small [of i] by (force simp: ipc_name_index_def)

lemma gen_matches_iff: "gen_matches n sp \<longleftrightarrow> n AND 0xFFFF = name_of sp (unat (ipc_name_index n))"
proof
  assume "gen_matches n sp"
  then show "n AND 0xFFFF = name_of sp (unat (ipc_name_index n))"
    by (simp add: gen_matches_def name_low name_of_def)
next
  assume *: "n AND 0xFFFF = name_of sp (unat (ipc_name_index n))"
  have "ipc_name_gen n = ipc_name_gen (n AND 0xFFFF)" by simp
  then show "gen_matches n sp" unfolding * by (simp add: gen_matches_def)
qed

lemma rights_low:
  "rights sp (n AND 0xFFFF) =
     (if ipc_name_index n < is_table_used sp \<and> gen_matches n sp \<and> ie_bits (entry_at sp (ipc_name_index n)) \<noteq> MACH_PORT_TYPE_NONE
      then Some (ie_object (entry_at sp (ipc_name_index n)), ie_bits (entry_at sp (ipc_name_index n))) else None)"
  by (simp add: rights_def Let_def gen_matches_iff word_less_nat_alt)

lemma rights_name_of: "0 < i \<Longrightarrow> i < 64 \<Longrightarrow> i < unat (is_table_used sp) \<Longrightarrow> ie_bits (is_table sp i) \<noteq> MACH_PORT_TYPE_NONE \<Longrightarrow>
  rights sp (name_of sp i) = Some (ie_object (is_table sp i), ie_bits (is_table sp i))"
  by (simp add: rights_def)

section \<open>The invariant of a table\<close>

text \<open>The free list, linked through the names stored in \<^verbatim>\<open>ie_object\<close>.\<close>
fun free_chain :: "ipc_space \<Rightarrow> u32 \<Rightarrow> nat list \<Rightarrow> bool" where
  "free_chain sp h [] \<longleftrightarrow> h = 0"
| "free_chain sp h (i # ks) \<longleftrightarrow> h = name_of sp i \<and> (\<exists>n. ie_object (is_table sp i) = of_name n \<and> free_chain sp n ks)"

text \<open>What a right may be: some type, and a port or nothing as its object.\<close>
definition good_right :: "ie_ref option \<times> u32 \<Rightarrow> bool" where
  "good_right r \<longleftrightarrow> snd r \<noteq> MACH_PORT_TYPE_NONE \<and> (\<forall>n. fst r \<noteq> Some (IE_NAME n))"

definition live :: "ipc_space \<Rightarrow> nat list \<Rightarrow> nat set" where
  "live sp fl = {1..<unat (is_table_used sp)} - set fl"

definition entry_ok :: "ipc_space \<Rightarrow> nat list \<Rightarrow> nat \<Rightarrow> bool" where
  "entry_ok sp fl i \<longleftrightarrow> (if i \<in> live sp fl then good_right (ie_object (is_table sp i), ie_bits (is_table sp i))
     else ie_bits (is_table sp i) = MACH_PORT_TYPE_NONE)"

definition space_wf :: "ipc_space \<Rightarrow> nat list \<Rightarrow> bool" where
  "space_wf sp fl \<longleftrightarrow> is_table_size sp = 64 \<and> is_table_used sp \<noteq> 0 \<and> unat (is_table_used sp) \<le> 64 \<and>
     distinct fl \<and> set fl \<subseteq> {1..<unat (is_table_used sp)} \<and> unat (is_free_count sp) = length fl \<and>
     free_chain sp (is_free_head sp) fl \<and> (\<forall>i<64. entry_ok sp fl i)"

lemma space_wfD:
  assumes "space_wf sp fl"
  shows "is_table_size sp = 64" "is_table_used sp \<noteq> 0" "unat (is_table_used sp) \<le> 64" "distinct fl"
    "set fl \<subseteq> {1..<unat (is_table_used sp)}" "unat (is_free_count sp) = length fl" "free_chain sp (is_free_head sp) fl"
    "\<And>i. i < 64 \<Longrightarrow> entry_ok sp fl i"
  using assms by (simp_all add: space_wf_def)

lemma used_word: "is_table_used sp \<noteq> 0 \<Longrightarrow> 0 < unat (is_table_used sp)"
  by (simp add: unat_gt_0)

lemma free_chain_cong:
  "(\<forall>i\<in>set fl. is_table sp' i = is_table sp i) \<Longrightarrow> free_chain sp' h fl = free_chain sp h fl"
  by (induction fl arbitrary: h) (auto simp: name_of_def)

lemma as_of_name [simp]: "as_name (of_name n) = Some n"
  by (simp add: as_name_def of_name_def)

lemma free_chain_empty: "space_wf sp fl \<Longrightarrow> fl = [] \<longleftrightarrow> \<not> (is_free_count sp > 0 \<and> is_free_head sp \<noteq> MACH_PORT_NAME_NULL)"
  using name_of_not_null [of "hd fl" sp]
  by (cases fl) (auto simp: space_wf_def MACH_PORT_NAME_NULL_def unat_eq_0 word_gt_0)

lemma live_bits: "space_wf sp fl \<Longrightarrow> i < 64 \<Longrightarrow> i \<in> live sp fl \<longleftrightarrow> ie_bits (is_table sp i) \<noteq> MACH_PORT_TYPE_NONE"
  using space_wfD(8) [of sp fl i] by (auto simp: entry_ok_def good_right_def split: if_splits)

section \<open>Entering and dropping a right\<close>

text \<open>The composition the handlers use: a new name, then the entry is filled in.\<close>
definition enter_right :: "ie_ref option \<times> u32 \<Rightarrow> ipc_space \<Rightarrow> (u32 \<times> ipc_space) option" where
  "enter_right r sp =
     (case space_alloc_name sp of
        Some (name, sp) \<Rightarrow> if name = MACH_PORT_NAME_NULL then None
          else Some (name, upd_entry (ipc_name_index name) (\<lambda>e. e\<lparr>ie_object := fst r, ie_bits := snd r, ie_urefs := 1\<rparr>) sp)
      | None \<Rightarrow> None)"

definition drop_name :: "u32 \<Rightarrow> ipc_space \<Rightarrow> ipc_space" where
  "drop_name n = space_free_name (ipc_name_index n)"

text \<open>A table in which only entry \<open>i\<close> differs, and becomes live, gains exactly the name of \<open>i\<close>.\<close>
lemma rights_gain:
  assumes i: "0 < i" "i < 64" and same: "\<And>j. j < 64 \<Longrightarrow> j \<noteq> i \<Longrightarrow> is_table sp' j = is_table sp j"
    and used: "i < unat (is_table_used sp')" "\<And>j. j < 64 \<Longrightarrow> j \<noteq> i \<Longrightarrow> (j < unat (is_table_used sp') \<longleftrightarrow> j < unat (is_table_used sp))"
    and new: "ie_bits (is_table sp' i) \<noteq> MACH_PORT_TYPE_NONE" and old: "ie_bits (is_table sp i) = MACH_PORT_TYPE_NONE"
  shows "rights sp' = (rights sp)(name_of sp' i \<mapsto> (ie_object (is_table sp' i), ie_bits (is_table sp' i)))"
proof
  fix n
  show "rights sp' n = ((rights sp)(name_of sp' i \<mapsto> (ie_object (is_table sp' i), ie_bits (is_table sp' i)))) n"
  proof (cases "unat (ipc_name_index n) = i")
    case True
    then show ?thesis using i used(1) new old by (auto simp: rights_def)
  next
    case False
    then have "n \<noteq> name_of sp' i" using i by auto
    then show ?thesis using False same [OF index_less [of n]] used(2) [OF index_less [of n]]
      by (simp add: rights_def name_of_def Let_def)
  qed
qed

lemma rights_fresh: "i < 64 \<Longrightarrow> ie_bits (is_table sp i) = MACH_PORT_TYPE_NONE \<Longrightarrow> unat (ipc_name_index n) = i \<Longrightarrow> rights sp n = None"
  by (simp add: rights_def)

text \<open>Allocation under the invariant: either every index is in use, or a free index is reserved.\<close>
lemma alloc_name_cases:
  assumes wf: "space_wf sp fl"
  obtains (full) "space_alloc_name sp = Some (MACH_PORT_NAME_NULL, sp)" "fl = []" "unat (is_table_used sp) = 64"
  | (free) i ks n where "fl = i # ks" "ie_object (is_table sp i) = of_name n" "free_chain sp n ks"
      "space_alloc_name sp = Some (ipc_name_make (ucast (ie_gen (is_table sp i) + 1)) (word_of_nat i),
         upd_entry (word_of_nat i) (\<lambda>e. e\<lparr>ie_gen := ie_gen e + 1\<rparr>) (sp\<lparr>is_free_head := n, is_free_count := is_free_count sp - 1\<rparr>))"
  | (grow) "fl = []" "unat (is_table_used sp) < 64"
      "space_alloc_name sp = Some (name_of sp (unat (is_table_used sp)), sp\<lparr>is_table_used := is_table_used sp + 1\<rparr>)"
proof (cases fl)
  case Nil
  then have e: "\<not> (is_free_count sp > 0 \<and> is_free_head sp \<noteq> MACH_PORT_NAME_NULL)" using free_chain_empty [OF wf] by simp
  show ?thesis
  proof (cases "unat (is_table_used sp) = 64")
    case True
    then show ?thesis using full e Nil space_wfD(1) [OF wf] by (simp add: space_alloc_name_def word_le_nat_alt)
  next
    case False
    then have "unat (is_table_used sp) < 64" using space_wfD(3) [OF wf] by simp
    then show ?thesis using grow e Nil space_wfD(1) [OF wf]
      by (simp add: space_alloc_name_def word_le_nat_alt name_of_def Let_def)
  qed
next
  case (Cons i ks)
  then have e: "is_free_count sp > 0 \<and> is_free_head sp \<noteq> MACH_PORT_NAME_NULL" using free_chain_empty [OF wf] by simp
  obtain n where h: "is_free_head sp = name_of sp i" "ie_object (is_table sp i) = of_name n" "free_chain sp n ks"
    using space_wfD(7) [OF wf] Cons by auto
  have i: "i < 64" using space_wfD(3,5) [OF wf] Cons by auto
  show ?thesis using free [OF Cons h(2,3)] e h i by (simp add: space_alloc_name_def Let_def upd_entry_def)
qed

lemma space_wf_reserve:
  assumes wf: "space_wf sp fl" and i: "0 < i" "i < 64" and r: "good_right r"
    and same: "\<And>j. j \<noteq> i \<Longrightarrow> is_table sp' j = is_table sp j"
    and new: "ie_object (is_table sp' i) = fst r" "ie_bits (is_table sp' i) = snd r"
    and used: "is_table_size sp' = 64" "is_table_used sp' \<noteq> 0" "unat (is_table_used sp') \<le> 64"
      "unat (is_free_count sp') = length fl'" "free_chain sp (is_free_head sp') fl'" "distinct fl'" "i \<notin> set fl'"
      "set fl' \<subseteq> {1..<unat (is_table_used sp')}" and live: "live sp' fl' = insert i (live sp fl)"
  shows "space_wf sp' fl'"
proof -
  have "free_chain sp' (is_free_head sp') fl' = free_chain sp (is_free_head sp') fl'"
    by (rule free_chain_cong) (metis same used(7))
  moreover have "entry_ok sp' fl' j" if "j < 64" for j
    using space_wfD(8) [OF wf that] r new same [of j] by (cases "j = i") (simp_all add: entry_ok_def live)
  ultimately show ?thesis using used by (simp add: space_wf_def)
qed

lemma enter_right_ok:
  assumes wf: "space_wf sp fl" and r: "good_right r" and e: "enter_right r sp = Some (n, sp')"
  shows "(\<exists>fl'. space_wf sp' fl') \<and> rights sp n = None \<and> rights sp' = (rights sp)(n \<mapsto> r)"
  using wf
proof (cases rule: alloc_name_cases)
  case full
  then show ?thesis using e by (simp add: enter_right_def)
next
  case (free i ks m)
  have i: "0 < i" "i < 64" "i < unat (is_table_used sp)" "i \<notin> set ks" using space_wfD(3,4,5) [OF wf] free(1) by auto
  have sp': "sp' = upd_entry (word_of_nat i) (\<lambda>e. e\<lparr>ie_gen := ie_gen e + 1, ie_object := fst r, ie_bits := snd r, ie_urefs := 1\<rparr>)
      (sp\<lparr>is_free_head := m, is_free_count := is_free_count sp - 1\<rparr>)" and n: "n = name_of sp' i"
    using e free(4) i by (auto simp: enter_right_def upd_entry_def name_of_def split: if_splits)
  have nolive: "i \<notin> live sp fl" using free(1) by (simp add: live_def)
  then have old: "ie_bits (is_table sp i) = MACH_PORT_TYPE_NONE" using live_bits [OF wf i(2)] by simp
  have "is_free_count sp \<noteq> 0" using space_wfD(6) [OF wf] free(1) by auto
  then have cnt: "unat (is_free_count sp - 1) = length ks"
    using space_wfD(6) [OF wf] free(1) by (simp add: unat_minus_one)
  have "space_wf sp' ks"
    by (rule space_wf_reserve [OF wf i(1,2) r])
      (use i cnt free space_wfD [OF wf] in \<open>auto simp: sp' upd_entry_def live_def\<close>)
  moreover have "rights sp' = (rights sp)(n \<mapsto> r)"
    using rights_gain [of i sp' sp] i old r by (simp add: n) (simp add: sp' upd_entry_def good_right_def)
  moreover have "rights sp n = None" using rights_fresh [OF i(2) old] i(1,2) by (simp add: n)
  ultimately show ?thesis by blast
next
  case grow
  define i where "i = unat (is_table_used sp)"
  have i: "0 < i" "i < 64" "word_of_nat i = is_table_used sp" using grow(2) used_word [OF space_wfD(2) [OF wf]] by (simp_all add: i_def)
  have sp': "sp' = upd_entry (word_of_nat i) (\<lambda>e. e\<lparr>ie_object := fst r, ie_bits := snd r, ie_urefs := 1\<rparr>)
      (sp\<lparr>is_table_used := is_table_used sp + 1\<rparr>)" and n: "n = name_of sp' i"
    using e grow(3) i(1,2) by (auto simp: enter_right_def upd_entry_def name_of_def simp flip: i_def split: if_splits)
  have nolive: "i \<notin> live sp fl" by (simp add: live_def i_def)
  then have old: "ie_bits (is_table sp i) = MACH_PORT_TYPE_NONE" using live_bits [OF wf i(2)] by simp
  have u: "unat (is_table_used sp + 1) = Suc i" using i(2) by (subst unat_add_lem [THEN iffD1]) (simp_all add: i_def)
  have "space_wf sp' []"
    by (rule space_wf_reserve [OF wf i(1,2) r])
      (use i u grow space_wfD [OF wf] in \<open>auto simp: sp' upd_entry_def live_def unat_eq_0 simp flip: i_def\<close>)
  moreover have "rights sp' = (rights sp)(n \<mapsto> r)"
    using rights_gain [of i sp' sp] i u old r by (simp add: n) (simp add: sp' upd_entry_def good_right_def less_Suc_eq flip: i_def)
  moreover have "rights sp n = None" using rights_fresh [OF i(2) old] i(1,2) by (simp add: n)
  ultimately show ?thesis by blast
qed

lemma rights_lose:
  assumes i: "0 < i" "i < 64" and same: "\<And>j. j < 64 \<Longrightarrow> j \<noteq> i \<Longrightarrow> is_table sp' j = is_table sp j"
    and used: "is_table_used sp' = is_table_used sp" and new: "ie_bits (is_table sp' i) = MACH_PORT_TYPE_NONE"
  shows "rights sp' = (rights sp)(name_of sp i := None)"
proof
  fix n
  show "rights sp' n = ((rights sp)(name_of sp i := None)) n"
  proof (cases "unat (ipc_name_index n) = i")
    case True
    then show ?thesis using i new by (auto simp: rights_def)
  next
    case False
    then have "n \<noteq> name_of sp i" using i by auto
    then show ?thesis using False same [OF index_less [of n]] used by (simp add: rights_def name_of_def Let_def)
  qed
qed

lemma rights_SomeD:
  assumes "space_wf sp fl" and "rights sp n = Some r"
  obtains i where "i \<in> live sp fl" "0 < i" "i < 64" "n = name_of sp i" "ipc_name_index n = word_of_nat i"
    "r = (ie_object (is_table sp i), ie_bits (is_table sp i))" "good_right r"
proof (rule that [of "unat (ipc_name_index n)"])
  let ?i = "unat (ipc_name_index n)"
  show lv: "?i \<in> live sp fl" using assms live_bits [OF assms(1) index_less] by (auto simp: rights_def Let_def split: if_splits)
  then show "0 < ?i" "?i < 64" using index_less by (auto simp: live_def)
  show "n = name_of sp ?i" "r = (ie_object (is_table sp ?i), ie_bits (is_table sp ?i))"
    using assms(2) by (auto simp: rights_def Let_def split: if_splits)
  then show "good_right r" using space_wfD(8) [OF assms(1) index_less [of n]] lv by (simp add: entry_ok_def)
qed simp

lemma free_index_wf:
  assumes wf: "space_wf sp fl" and i: "i \<in> live sp fl" "i < 64"
  shows "space_wf (space_free_name (word_of_nat i) sp) (i # fl)"
    and "rights (space_free_name (word_of_nat i) sp) = (rights sp)(name_of sp i := None)"
proof -
  define sp' where "sp' = space_free_name (word_of_nat i) sp"
  have i0: "0 < i" "i < unat (is_table_used sp)" "i \<notin> set fl" using i(1) by (auto simp: live_def)
  have tab: "is_table sp' = (is_table sp)(i := (is_table sp i)\<lparr>ie_object := of_name (is_free_head sp),
      ie_bits := MACH_PORT_TYPE_NONE, ie_urefs := 0, ie_gen := ie_gen (is_table sp i) + 1\<rparr>)"
    and oth: "is_table_used sp' = is_table_used sp" "is_table_size sp' = is_table_size sp"
      "is_free_count sp' = is_free_count sp + 1" "is_free_head sp' = name_of sp' i"
    using i(2) by (auto simp: sp'_def space_free_name_def Let_def upd_entry_def name_of_def)
  have "set fl \<union> {i} \<subseteq> {1..<unat (is_table_used sp)}" using space_wfD(5) [OF wf] i0 by auto
  then have "card (set fl \<union> {i}) \<le> unat (is_table_used sp) - 1" using card_mono [of "{1..<unat (is_table_used sp)}"] by simp
  then have "length fl < 63" using space_wfD(3,4) [OF wf] i0(3) distinct_card [of fl] by simp
  then have cnt: "unat (is_free_count sp + 1) = Suc (length fl)"
    using space_wfD(6) [OF wf] by (subst unat_add_lem [THEN iffD1]) simp_all
  have ch: "free_chain sp' h fl = free_chain sp h fl" for h by (rule free_chain_cong) (use i0(3) in \<open>auto simp: tab\<close>)
  have "live sp' (i # fl) = live sp fl - {i}" by (auto simp: live_def oth)
  then have "entry_ok sp' (i # fl) j" if "j < 64" for j
    using space_wfD(8) [OF wf that] i by (cases "j = i") (auto simp: entry_ok_def tab)
  then have "space_wf sp' (i # fl)"
    using space_wfD [OF wf] i0 i(2) cnt by (simp add: space_wf_def oth ch) (auto simp: tab)
  then show "space_wf (space_free_name (word_of_nat i) sp) (i # fl)" by (simp add: sp'_def)
  have "rights sp' = (rights sp)(name_of sp i := None)" by (rule rights_lose) (use i0 i(2) in \<open>auto simp: tab oth\<close>)
  then show "rights (space_free_name (word_of_nat i) sp) = (rights sp)(name_of sp i := None)" by (simp add: sp'_def)
qed

lemma drop_name_ok:
  assumes "space_wf sp fl" and "rights sp n \<noteq> None"
  shows "(\<exists>fl'. space_wf (drop_name n sp) fl') \<and> rights (drop_name n sp) = (rights sp)(n := None)"
proof -
  obtain r where "rights sp n = Some r" using assms(2) by blast
  then obtain i where i: "i \<in> live sp fl" "i < 64" "n = name_of sp i" "ipc_name_index n = word_of_nat i"
    by (rule rights_SomeD [OF assms(1)])
  then have d: "drop_name n sp = space_free_name (word_of_nat i) sp" by (simp add: drop_name_def)
  show ?thesis unfolding d using free_index_wf [OF assms(1) i(1,2)] i(3) by auto
qed

section \<open>Capacity\<close>

lemma dom_rights: "space_wf sp fl \<Longrightarrow> dom (rights sp) = name_of sp ` live sp fl"
proof (rule set_eqI, rule iffI)
  fix n assume wf: "space_wf sp fl" and "n \<in> dom (rights sp)"
  then obtain r where "rights sp n = Some r" by blast
  then show "n \<in> name_of sp ` live sp fl" by (rule rights_SomeD [OF wf]) simp
next
  fix n assume wf: "space_wf sp fl" and "n \<in> name_of sp ` live sp fl"
  then obtain i where i: "i \<in> live sp fl" "n = name_of sp i" by blast
  then have j: "0 < i" "i < 64" "i < unat (is_table_used sp)" using space_wfD(3) [OF wf] by (auto simp: live_def)
  then show "n \<in> dom (rights sp)" using rights_name_of [OF j] i live_bits [OF wf j(2)] by auto
qed

lemma card_rights: "space_wf sp fl \<Longrightarrow> card (dom (rights sp)) = unat (is_table_used sp) - 1 - length fl"
proof -
  assume wf: "space_wf sp fl"
  have "inj_on (name_of sp) (live sp fl)"
  proof (rule inj_onI)
    fix i j assume *: "i \<in> live sp fl" "j \<in> live sp fl" "name_of sp i = name_of sp j"
    then have "i < 64" "j < 64" using space_wfD(3) [OF wf] by (auto simp: live_def)
    then show "i = j" using name_of_index [of i sp] name_of_index [of j sp] *(3) unat_small [of i] unat_small [of j] by simp
  qed
  then have "card (dom (rights sp)) = card (live sp fl)" by (simp add: dom_rights [OF wf] card_image)
  also have "\<dots> = unat (is_table_used sp) - 1 - length fl"
    using space_wfD(4,5) [OF wf] by (simp add: live_def card_Diff_subset distinct_card)
  finally show ?thesis .
qed

lemma enter_right_full:
  assumes wf: "space_wf sp fl"
  shows "enter_right r sp = None \<longleftrightarrow> card (dom (rights sp)) = 63"
  using wf
proof (cases rule: alloc_name_cases)
  case full
  then show ?thesis by (simp add: enter_right_def card_rights [OF wf])
next
  case (free i ks n)
  then have "ipc_name_index (ipc_name_make (ucast (ie_gen (is_table sp i) + 1)) (word_of_nat i)) = word_of_nat i" "0 < i" "i < 64"
    using space_wfD(3,5) [OF wf] by auto
  then have "ipc_name_make (ucast (ie_gen (is_table sp i) + 1)) (word_of_nat i) \<noteq> 0"
    using unat_small [of i] by (force simp: ipc_name_index_def)
  then show ?thesis using free space_wfD(3) [OF wf] by (simp add: enter_right_def card_rights [OF wf] MACH_PORT_NAME_NULL_def)
next
  case grow
  then show ?thesis using name_of_not_null [OF used_word [OF space_wfD(2) [OF wf]] grow(2)]
    by (simp add: enter_right_def card_rights [OF wf] MACH_PORT_NAME_NULL_def)
qed

section \<open>The contract of a name table\<close>

text \<open>What the port code relies on: a bounded table that hands out a name no live right has, and
  whose lookup behaves as a map.\<close>
locale name_table =
  fixes inv :: "'s \<Rightarrow> bool" and look :: "'s \<Rightarrow> 'n \<Rightarrow> 'r option" and ok :: "'r \<Rightarrow> bool"
    and enter :: "'r \<Rightarrow> 's \<Rightarrow> ('n \<times> 's) option" and drop :: "'n \<Rightarrow> 's \<Rightarrow> 's" and cap :: nat
  assumes enter_ok: "inv s \<Longrightarrow> ok r \<Longrightarrow> enter r s = Some (n, s') \<Longrightarrow> inv s' \<and> look s n = None \<and> look s' = (look s)(n \<mapsto> r)"
    and enter_full: "inv s \<Longrightarrow> enter r s = None \<longleftrightarrow> card (dom (look s)) = cap"
    and drop_ok: "inv s \<Longrightarrow> look s n \<noteq> None \<Longrightarrow> inv (drop n s) \<and> look (drop n s) = (look s)(n := None)"
begin

lemma enter_finds:
  assumes "inv s" "ok r" "enter r s = Some (n, s')"
  shows "look s' n = Some r" and "m \<noteq> n \<Longrightarrow> look s' m = look s m" and "look s m \<noteq> None \<Longrightarrow> m \<noteq> n"
  using enter_ok [OF assms] by auto

lemma enter_drop:
  assumes "inv s" "ok r" "enter r s = Some (n, s')"
  shows "look (drop n s') = look s"
  using enter_ok [OF assms] drop_ok [of s' n] by auto

lemma enter_after_drop:
  assumes "inv s" "look s n \<noteq> None" "finite (dom (look s))" "card (dom (look s)) \<le> cap"
  shows "enter r (drop n s) \<noteq> None"
proof -
  have "card (dom (look (drop n s))) < card (dom (look s))"
    using drop_ok [OF assms(1,2)] assms(2,3) by (auto intro!: psubset_card_mono)
  then show ?thesis using enter_full [of "drop n s" r] drop_ok [OF assms(1,2)] assms(4) by auto
qed

end

interpretation names: name_table "\<lambda>sp. \<exists>fl. space_wf sp fl" rights good_right enter_right drop_name 63
  by unfold_locales (use enter_right_ok enter_right_full drop_name_ok in blast)+

end
