(* ===== verification/Ipc_Correct.thy ===== *)
theory Ipc_Correct
  imports Ipc_Names
begin

text \<open>
  The invariant of the IPC state: every active space has a well-formed name table, and every active
  port is named, as a receive right, by the entry its \<^verbatim>\<open>ip_receiver_name\<close> refers to. All operations of
  \<^verbatim>\<open>ipc_port.c\<close> keep it.
\<close>

unbundle bit_operations_syntax

section \<open>Frames\<close>

text \<open>What the name tables know of a port.\<close>
definition port_key :: "ipc_port \<Rightarrow> ipc_port_state \<times> nat option \<times> u32" where
  "port_key q = (ip_state q, ip_receiver q, ip_receiver_name q)"

definition same_names :: "ipc_state \<Rightarrow> ipc_state \<Rightarrow> bool" where
  "same_names s s' \<longleftrightarrow> i_spaces s' = i_spaces s \<and> s_space_next s' = s_space_next s \<and> (\<forall>p. port_key (i_ports s' p) = port_key (i_ports s p))"

lemma same_names_refl [simp]: "same_names s s"
  by (simp add: same_names_def)

lemma same_names_trans: "same_names s s' \<Longrightarrow> same_names s' s'' \<Longrightarrow> same_names s s''"
  by (simp add: same_names_def)

lemma upd_port_simps [simp]:
  "i_spaces (upd_port p f s) = i_spaces s" "s_space_next (upd_port p f s) = s_space_next s"
  "i_ports (upd_port p f s) = (i_ports s)(p := f (i_ports s p))" "i_sched (upd_port p f s) = i_sched s"
  "i_kmsg (upd_port p f s) = i_kmsg s"
  by (simp_all add: upd_port_def)

lemma upd_space_simps [simp]:
  "i_spaces (upd_space n f s) = (i_spaces s)(n := f (i_spaces s n))" "s_space_next (upd_space n f s) = s_space_next s"
  "i_ports (upd_space n f s) = i_ports s"
  by (simp_all add: upd_space_def)

lemma same_names_upd_port: "port_key (f (i_ports s p)) = port_key (i_ports s p) \<Longrightarrow> same_names s (upd_port p f s)"
  by (simp add: same_names_def)

lemma same_names_upd_mq [simp]: "same_names s (upd_mq p f s)"
  by (simp add: upd_mq_def same_names_upd_port port_key_def)

lemma arena_free_same [simp]: "same_names s (port_arena_free r s)"
  by (auto simp: port_arena_free_def same_names_def port_key_def split: option.split)

lemma arena_alloc_same: "port_arena_alloc s = (r, s') \<Longrightarrow> same_names s s'"
  by (auto simp: port_arena_alloc_def same_names_def port_key_def split: option.splits if_splits)

lemma release_same [simp]: "same_names s (ipc_port_release p s)"
proof -
  have "same_names s (upd_port p (\<lambda>q. q\<lparr>ip_references := ip_references q - 1\<rparr>) s)" for s
    by (rule same_names_upd_port) (simp add: port_key_def)
  moreover have "same_names s (upd_port p (\<lambda>q. q\<lparr>ip_signature := 0xDEADDEADDEADDEAD\<rparr>) s)" for s
    by (rule same_names_upd_port) (simp add: port_key_def)
  ultimately show ?thesis unfolding ipc_port_release_def Let_def
    by (auto intro: same_names_trans [OF same_names_trans arena_free_same])
qed

lemma reference_same [simp]: "same_names s (ipc_port_reference p s)"
  by (simp add: ipc_port_reference_def same_names_upd_port port_key_def)

lemma i_pmm_simps [simp]: "i_spaces (i_pmm f s) = i_spaces s" "s_space_next (i_pmm f s) = s_space_next s" "i_ports (i_pmm f s) = i_ports s"
  by (simp_all add: i_pmm_def)

lemma upd_kmsg_simps [simp]:
  "i_spaces (upd_kmsg k f s) = i_spaces s" "s_space_next (upd_kmsg k f s) = s_space_next s" "i_ports (upd_kmsg k f s) = i_ports s"
  by (simp_all add: upd_kmsg_def)

lemma free_ool_frame: "i_spaces (free_ool k i s) = i_spaces s \<and> s_space_next (free_ool k i s) = s_space_next s \<and> i_ports (free_ool k i s) = i_ports s"
  by (simp add: free_ool_def Let_def)

lemma kmsg_free_frame:
  "i_spaces (ipc_kmsg_free r s) = i_spaces s \<and> s_space_next (ipc_kmsg_free r s) = s_space_next s \<and> i_ports (ipc_kmsg_free r s) = i_ports s"
proof -
  have f: "i_spaces (fold (free_ool k) xs s) = i_spaces s \<and> s_space_next (fold (free_ool k) xs s) = s_space_next s \<and>
      i_ports (fold (free_ool k) xs s) = i_ports s" for k xs s
    by (induction xs arbitrary: s) (simp_all add: free_ool_frame)
  show ?thesis by (simp add: ipc_kmsg_free_def Let_def f split: option.split kmsg_ptr.split)
qed

lemma drain_frame:
  assumes "drain_messages k s = Some s'"
  shows "i_spaces s' = i_spaces s \<and> s_space_next s' = s_space_next s \<and> i_ports s' = i_ports s"
proof (rule drain_messages.raw_induct [OF _ assms])
  fix self k s s'
  assume IH: "\<And>k s s'. self k s = Some s' \<Longrightarrow> i_spaces s' = i_spaces s \<and> s_space_next s' = s_space_next s \<and> i_ports s' = i_ports s"
    and "(if k = None then Some s else self (ikm_next (i_kmsg s (the k))) (ipc_kmsg_free k s)) = Some s'"
  then show "i_spaces s' = i_spaces s \<and> s_space_next s' = s_space_next s \<and> i_ports s' = i_ports s"
    using IH [of _ "ipc_kmsg_free k s" s'] kmsg_free_frame [of k s] by (auto split: if_splits)
qed

section \<open>The invariant\<close>

definition receives :: "ipc_space \<Rightarrow> u32 \<Rightarrow> nat \<Rightarrow> bool" where
  "receives sp name p \<longleftrightarrow> (\<exists>bits. rights sp name = Some (Some (IE_PORT p), bits) \<and> bits AND MACH_PORT_TYPE_RECEIVE \<noteq> 0)"

definition spaces_ok :: "ipc_state \<Rightarrow> bool" where
  "spaces_ok s \<longleftrightarrow> s_space_next s \<le> 256 \<and> (\<forall>n. is_active (i_spaces s n) \<longrightarrow> n < unat (s_space_next s) \<and> (\<exists>fl. space_wf (i_spaces s n) fl))"

definition port_ok :: "ipc_state \<Rightarrow> nat \<Rightarrow> bool" where
  "port_ok s p \<longleftrightarrow> (\<forall>n. port_active p s \<longrightarrow> ip_receiver (i_ports s p) = Some n \<longrightarrow> n < unat (s_space_next s) \<and>
     (is_active (i_spaces s n) \<longrightarrow> receives (i_spaces s n) (ip_receiver_name (i_ports s p)) p))"

text \<open>The same of a port whose receive right may just have been freed.\<close>
definition port_weak :: "ipc_state \<Rightarrow> nat \<Rightarrow> bool" where
  "port_weak s p \<longleftrightarrow> (\<forall>n. port_active p s \<longrightarrow> ip_receiver (i_ports s p) = Some n \<longrightarrow> n < unat (s_space_next s) \<and>
     (is_active (i_spaces s n) \<longrightarrow> gen_matches (ip_receiver_name (i_ports s p)) (i_spaces s n) \<longrightarrow>
        receives (i_spaces s n) (ip_receiver_name (i_ports s p)) p))"

definition ipc_inv :: "ipc_state \<Rightarrow> bool" where
  "ipc_inv s \<longleftrightarrow> spaces_ok s \<and> (\<forall>p. port_ok s p)"

lemma port_ok_weak: "port_ok s p \<Longrightarrow> port_weak s p"
  by (simp add: port_ok_def port_weak_def)

lemma same_names_ok:
  assumes "same_names s s'"
  shows "spaces_ok s' = spaces_ok s" and "port_ok s' p = port_ok s p" and "port_weak s' p = port_weak s p" and "ipc_inv s' = ipc_inv s"
proof -
  have k: "ip_state (i_ports s' p) = ip_state (i_ports s p)" "ip_receiver (i_ports s' p) = ip_receiver (i_ports s p)"
    "ip_receiver_name (i_ports s' p) = ip_receiver_name (i_ports s p)" for p
    using assms by (auto simp: same_names_def port_key_def)
  have e: "i_spaces s' = i_spaces s" "s_space_next s' = s_space_next s" using assms by (simp_all add: same_names_def)
  show "spaces_ok s' = spaces_ok s" by (simp add: spaces_ok_def e)
  show "port_ok s' p = port_ok s p" for p by (simp add: port_ok_def e k)
  then show "ipc_inv s' = ipc_inv s" using \<open>spaces_ok s' = spaces_ok s\<close> by (simp add: ipc_inv_def)
  show "port_weak s' p = port_weak s p" by (simp add: port_weak_def e k)
qed

lemma spaces_okD: "spaces_ok s \<Longrightarrow> is_active (i_spaces s n) \<Longrightarrow> \<exists>fl. space_wf (i_spaces s n) fl"
  by (simp add: spaces_ok_def)

lemma space_free_frame [simp]: "is_active (space_free_name i sp) = is_active sp"
  by (simp add: space_free_name_def upd_entry_def)

section \<open>Dropping a name\<close>

lemma free_name_gen: "i < 64 \<Longrightarrow> \<not> gen_matches (name_of sp i) (space_free_name (word_of_nat i) sp)"
  by (simp add: gen_matches_def space_free_name_def Let_def upd_entry_def)

text \<open>Freeing the name of a right in an active space.\<close>
lemma drop_in_space:
  assumes sp: "spaces_ok s" and act: "is_active (i_spaces s n)" and r: "rights (i_spaces s n) c = Some (obj, bits)"
  defines "s' \<equiv> upd_space n (drop_name c) s"
  shows "spaces_ok s'"
    and "port_ok s q \<Longrightarrow> obj \<noteq> Some (IE_PORT q) \<or> bits AND MACH_PORT_TYPE_RECEIVE = 0 \<or> ip_receiver (i_ports s q) \<noteq> Some n \<Longrightarrow> port_ok s' q"
    and "port_ok s q \<Longrightarrow> port_weak s' q"
proof -
  obtain fl where wf: "space_wf (i_spaces s n) fl" using spaces_okD [OF sp act] ..
  have d: "\<exists>fl'. space_wf (drop_name c (i_spaces s n)) fl'" "rights (drop_name c (i_spaces s n)) = (rights (i_spaces s n))(c := None)"
    using drop_name_ok [OF wf, of c] r by auto
  then show "spaces_ok s'" using sp by (auto simp: spaces_ok_def s'_def drop_name_def)
  have keep: "receives (drop_name c (i_spaces s n)) m q" if "receives (i_spaces s n) m q" "m \<noteq> c" for m q
    using that by (simp add: receives_def d(2))
  have hit: "obj = Some (IE_PORT q) \<and> bits AND MACH_PORT_TYPE_RECEIVE \<noteq> 0" if "receives (i_spaces s n) c q" for q
    using that r by (simp add: receives_def)
  show "port_ok s' q" if "port_ok s q"
    "obj \<noteq> Some (IE_PORT q) \<or> bits AND MACH_PORT_TYPE_RECEIVE = 0 \<or> ip_receiver (i_ports s q) \<noteq> Some n"
  proof -
    have "receives (drop_name c (i_spaces s n)) (ip_receiver_name (i_ports s q)) q"
      if "port_active q s" "ip_receiver (i_ports s q) = Some n" "is_active (i_spaces s n)"
      using \<open>port_ok s q\<close> that keep hit \<open>obj \<noteq> _ \<or> _\<close> by (metis port_ok_def)
    then show ?thesis using \<open>port_ok s q\<close> by (auto simp: port_ok_def s'_def drop_name_def)
  qed
  obtain i where i: "i < 64" "c = name_of (i_spaces s n) i" "ipc_name_index c = word_of_nat i" by (rule rights_SomeD [OF wf r])
  have stale: "\<not> gen_matches c (drop_name c (i_spaces s n))" using free_name_gen [OF i(1)] i by (simp add: drop_name_def)
  show "port_weak s' q" if "port_ok s q"
  proof -
    have "receives (drop_name c (i_spaces s n)) (ip_receiver_name (i_ports s q)) q"
      if "port_active q s" "ip_receiver (i_ports s q) = Some n" "is_active (i_spaces s n)"
        "gen_matches (ip_receiver_name (i_ports s q)) (drop_name c (i_spaces s n))"
      using \<open>port_ok s q\<close> that keep stale by (metis port_ok_def)
    then show ?thesis using \<open>port_ok s q\<close> by (auto simp: port_ok_def port_weak_def s'_def drop_name_def)
  qed
qed

section \<open>Destroying a port\<close>

text \<open>Whether \<^verbatim>\<open>ipc_port_destroy\<close> frees the receive name of the port.\<close>
definition frees_name :: "nat \<Rightarrow> nat \<Rightarrow> ipc_state \<Rightarrow> bool" where
  "frees_name p n s \<longleftrightarrow> ip_receiver (i_ports s p) = Some n \<and> ip_receiver_name (i_ports s p) \<noteq> MACH_PORT_NAME_NULL \<and>
     ipc_name_index (ip_receiver_name (i_ports s p)) < is_table_size (i_spaces s n) \<and>
     gen_matches (ip_receiver_name (i_ports s p)) (i_spaces s n)"

definition names_after_destroy :: "nat \<Rightarrow> ipc_state \<Rightarrow> nat \<Rightarrow> ipc_space" where
  "names_after_destroy p s n = (if frees_name p n s then drop_name (ip_receiver_name (i_ports s p)) (i_spaces s n) else i_spaces s n)"

lemma drop_receiver_effect:
  "i_spaces (drop_receiver p s) = names_after_destroy p s" "s_space_next (drop_receiver p s) = s_space_next s"
  "q \<noteq> p \<Longrightarrow> i_ports (drop_receiver p s) q = i_ports s q" "ip_receiver (i_ports (drop_receiver p s) p) = None"
  by (auto simp: drop_receiver_def names_after_destroy_def frees_name_def drop_name_def Let_def fun_eq_iff split: option.split)

lemma destroy_effect:
  assumes "ipc_port_destroy my_cpu p s = Some s'" and act: "port_active p s"
  shows "i_spaces s' = names_after_destroy p s" "s_space_next s' = s_space_next s" "q \<noteq> p \<Longrightarrow> port_key (i_ports s' q) = port_key (i_ports s q)"
    "\<not> port_active p s'" "ip_receiver (i_ports s' p) = None"
proof -
  let ?s0 = "upd_port p (\<lambda>q. q\<lparr>ip_state := IPC_PORT_STATE_ZOMBIE\<rparr>) s"
  obtain s1 wq1 sch1 wq2 sch2 where s1: "drain_messages (imq_messages (ip_messages (i_ports ?s0 p))) ?s0 = Some s1"
    and s': "s' = ipc_port_release p (upd_mq p (\<lambda>mq. mq\<lparr>imq_send_waiters := wq2\<rparr>) ((upd_mq p (\<lambda>mq. mq\<lparr>imq_recv_waiters := wq1\<rparr>)
        ((upd_port p (\<lambda>q. q\<lparr>ip_state := IPC_PORT_STATE_DEAD\<rparr>) (drop_receiver p (upd_mq p (\<lambda>mq. mq\<lparr>imq_messages := None,
          imq_messages_tail := None, imq_msgcount := 0\<rparr>) s1)))\<lparr>i_sched := sch1\<rparr>))\<lparr>i_sched := sch2\<rparr>))"
    using assms by (auto simp: ipc_port_destroy_def Let_def bind_eq_Some_conv)
  define s2 where "s2 = upd_mq p (\<lambda>mq. mq\<lparr>imq_messages := None, imq_messages_tail := None, imq_msgcount := 0\<rparr>) s1"
  define s3 where "s3 = drop_receiver p s2"
  have e: "same_names ?s0 s2" using drain_frame [OF s1] by (simp add: s2_def upd_mq_def same_names_def port_key_def)
  have nad: "names_after_destroy p s2 = names_after_destroy p s"
    using e by (simp add: same_names_def names_after_destroy_def frees_name_def port_key_def fun_eq_iff)
  have "same_names (upd_port p (\<lambda>q. q\<lparr>ip_state := IPC_PORT_STATE_DEAD\<rparr>) s3) s'"
    using release_same unfolding s' s3_def s2_def [symmetric]
    by (rule same_names_trans [rotated]) (simp add: same_names_def upd_mq_def port_key_def)
  then have f: "i_spaces s' = i_spaces s3" "s_space_next s' = s_space_next s3"
    "\<And>q. port_key (i_ports s' q) = port_key ((if q = p then (i_ports s3 p)\<lparr>ip_state := IPC_PORT_STATE_DEAD\<rparr> else i_ports s3 q))"
    by (auto simp: same_names_def)
  show "i_spaces s' = names_after_destroy p s" by (simp add: f s3_def drop_receiver_effect nad)
  show "s_space_next s' = s_space_next s" using e by (simp add: f s3_def drop_receiver_effect same_names_def)
  show "port_key (i_ports s' q) = port_key (i_ports s q)" if "q \<noteq> p"
    using e f(3) [of q] that by (simp add: s3_def drop_receiver_effect same_names_def)
  show "\<not> port_active p s'" "ip_receiver (i_ports s' p) = None"
    using f(3) [of p] by (simp_all add: port_key_def s3_def drop_receiver_effect)
qed

lemma port_ok_key:
  assumes "port_key (i_ports s' q) = port_key (i_ports s q)" "s_space_next s' = s_space_next s" "i_spaces s' = i_spaces s''"
    "i_ports s'' = i_ports s" "s_space_next s'' = s_space_next s"
  shows "port_ok s' q = port_ok s'' q"
  using assms by (simp add: port_ok_def port_key_def)

lemma destroy_inv:
  assumes sp: "spaces_ok s" and others: "\<And>q. q \<noteq> p \<Longrightarrow> port_ok s q" and p: "port_weak s p"
    and d: "ipc_port_destroy my_cpu p s = Some s'"
  shows "ipc_inv s'"
proof (cases "port_active p s")
  case False
  then have "s' = s" "port_ok s p" using d by (auto simp: ipc_port_destroy_def port_ok_def)
  then show ?thesis using sp others by (metis ipc_inv_def)
next
  case act: True
  note eff = destroy_effect [OF d act]
  define s'' where "s'' = s\<lparr>i_spaces := names_after_destroy p s\<rparr>"
  have "spaces_ok s'' \<and> (\<forall>q. q \<noteq> p \<longrightarrow> port_ok s'' q)"
  proof (cases "\<exists>n. frees_name p n s \<and> is_active (i_spaces s n)")
    case True
    then obtain n where n: "frees_name p n s" "is_active (i_spaces s n)" by blast
    let ?c = "ip_receiver_name (i_ports s p)"
    have s'': "s'' = upd_space n (drop_name ?c) s"
      using n by (auto simp: s''_def upd_space_def names_after_destroy_def frees_name_def fun_eq_iff)
    obtain bits where r: "rights (i_spaces s n) ?c = Some (Some (IE_PORT p), bits)"
      using p act n by (auto simp: port_weak_def frees_name_def receives_def)
    show ?thesis unfolding s'' using drop_in_space [OF sp n(2) r] others by auto
  next
    case False
    then have same: "names_after_destroy p s n = i_spaces s n" if "is_active (i_spaces s n)" for n
      using that by (auto simp: names_after_destroy_def)
    have "is_active (names_after_destroy p s n) = is_active (i_spaces s n)" for n
      by (simp add: names_after_destroy_def drop_name_def)
    then show ?thesis using sp others same by (auto simp: s''_def spaces_ok_def port_ok_def)
  qed
  moreover have "port_ok s' q = port_ok s'' q" if "q \<noteq> p" for q
    by (rule port_ok_key) (use eff(1,2) eff(3) [OF that] in \<open>simp_all add: s''_def\<close>)
  moreover have "spaces_ok s' = spaces_ok s''" by (simp add: spaces_ok_def eff s''_def)
  moreover have "port_ok s' p" using eff(4) by (simp add: port_ok_def)
  ultimately show ?thesis by (metis ipc_inv_def)
qed

corollary destroy_keeps_inv: "ipc_inv s \<Longrightarrow> ipc_port_destroy my_cpu p s = Some s' \<Longrightarrow> ipc_inv s'"
  by (rule destroy_inv) (auto simp: ipc_inv_def port_ok_weak)

section \<open>Entering a right\<close>

lemma alloc_frame: "space_alloc_name sp = Some (n, sp') \<Longrightarrow> is_active sp' = is_active sp"
  by (auto simp: space_alloc_name_def Let_def upd_entry_def bind_eq_Some_conv split: if_splits)

lemma enter_frame: "enter_right r sp = Some (n, sp') \<Longrightarrow> is_active sp' = is_active sp"
  by (auto simp: enter_right_def upd_entry_def alloc_frame split: option.splits if_splits)

lemma enter_in_space:
  assumes inv: "ipc_inv s" and r: "good_right r" and e: "enter_right r (i_spaces s n) = Some (c, sp')"
  shows "ipc_inv (upd_space n (\<lambda>_. sp') s)"
proof (cases "is_active (i_spaces s n)")
  case False
  then show ?thesis using inv enter_frame [OF e] by (auto simp: ipc_inv_def spaces_ok_def port_ok_def)
next
  case True
  then have "\<exists>fl. space_wf (i_spaces s n) fl" using inv spaces_okD by (simp add: ipc_inv_def)
  then have *: "\<exists>fl. space_wf sp' fl" "rights (i_spaces s n) c = None" "rights sp' = (rights (i_spaces s n))(c \<mapsto> r)"
    using names.enter_ok [OF _ r e] by auto
  have "receives sp' m q" if "receives (i_spaces s n) m q" for m q
    using that * by (auto simp: receives_def)
  then show ?thesis using inv * True by (auto simp: ipc_inv_def spaces_ok_def port_ok_def)
qed

text \<open>The names of a handler that asks for a new name: unchanged when the table is full, otherwise those of \<open>enter_right\<close>.\<close>
lemma alloc_name_null: "\<exists>fl. space_wf sp fl \<Longrightarrow> space_alloc_name sp = Some (MACH_PORT_NAME_NULL, sp') \<Longrightarrow> sp' = sp"
proof -
  assume "\<exists>fl. space_wf sp fl" and a: "space_alloc_name sp = Some (MACH_PORT_NAME_NULL, sp')"
  then obtain fl where wf: "space_wf sp fl" by blast
  show "sp' = sp" using wf
  proof (cases rule: alloc_name_cases)
    case full
    then show ?thesis using a by simp
  next
    case (free i ks n)
    then have "word_of_nat i AND (0x3F :: u32) = ipc_name_index 0" "0 < i" "i < 64"
      using a space_wfD(3,5) [OF wf] name_index_make [of "ucast (ie_gen (is_table sp i) + 1)" "word_of_nat i"]
      by (auto simp: MACH_PORT_NAME_NULL_def)
    then show ?thesis using unat_small [of i] by (simp add: ipc_name_index_def)
  next
    case grow
    then show ?thesis using a name_of_not_null [OF used_word [OF space_wfD(2) [OF wf]] grow(2)] by (simp add: MACH_PORT_NAME_NULL_def)
  qed
qed

lemma alloc_name_total: "\<exists>fl. space_wf sp fl \<Longrightarrow> \<exists>c sp'. space_alloc_name sp = Some (c, sp')"
  by (elim exE, erule alloc_name_cases) auto

lemma alloc_null_inv:
  assumes "ipc_inv s" "space_alloc_name (i_spaces s n) = Some (MACH_PORT_NAME_NULL, sp')"
  shows "ipc_inv (upd_space n (\<lambda>_. sp') s)"
proof (cases "is_active (i_spaces s n)")
  case True
  then have "sp' = i_spaces s n" using assms alloc_name_null spaces_okD by (auto simp: ipc_inv_def)
  then show ?thesis using assms(1) by (simp add: upd_space_def)
next
  case False
  then show ?thesis using assms alloc_frame [OF assms(2)] by (auto simp: ipc_inv_def spaces_ok_def port_ok_def)
qed

section \<open>The operations keep the invariant\<close>

lemma upd_space_comp [simp]: "upd_space n f (upd_space n g s) = upd_space n (\<lambda>sp. f (g sp)) s"
  by (simp add: upd_space_def)

lemma init_inv: "ipc_inv s \<Longrightarrow> ipc_inv (ipc_port_init_internal p label s)"
  by (auto simp: ipc_inv_def spaces_ok_def port_ok_def ipc_port_init_internal_def)

lemma send_receive_bits [simp]:
  "MACH_PORT_TYPE_SEND_RECEIVE AND MACH_PORT_TYPE_RECEIVE \<noteq> 0" "MACH_PORT_TYPE_SEND_RECEIVE AND MACH_PORT_TYPE_SEND \<noteq> 0"
  "MACH_PORT_TYPE_SEND_RECEIVE \<noteq> MACH_PORT_TYPE_NONE" "MACH_PORT_TYPE_SEND \<noteq> MACH_PORT_TYPE_NONE"
  "MACH_PORT_TYPE_PORT_SET \<noteq> MACH_PORT_TYPE_NONE" "MACH_PORT_TYPE_DEAD_NAME \<noteq> MACH_PORT_TYPE_NONE"
  by (simp_all add: MACH_PORT_TYPE_SEND_RECEIVE_def MACH_PORT_TYPE_SEND_def MACH_PORT_TYPE_RECEIVE_def MACH_PORT_TYPE_NONE_def
      MACH_PORT_TYPE_PORT_SET_def MACH_PORT_TYPE_DEAD_NAME_def)

lemma good_rights [simp]:
  "good_right (Some (IE_PORT p), MACH_PORT_TYPE_SEND_RECEIVE)" "good_right (Some (IE_PORT p), MACH_PORT_TYPE_SEND)"
  "good_right (None, MACH_PORT_TYPE_PORT_SET)" "good_right (None, MACH_PORT_TYPE_DEAD_NAME)"
  by (simp_all add: good_right_def)

text \<open>The outcomes of \<^verbatim>\<open>ipc_port_alloc\<close>: a failure that leaves all names, or a new port \<open>p\<close> entered under name \<open>c\<close>.\<close>
lemma port_alloc_cases:
  assumes "ipc_port_alloc n label s = Some (err, r, s')"
  obtains (nomem) "err = CHIMERA_ERR_NOMEM" "r = None" "port_arena_alloc s = (None, s')"
  | (inactive) p s1 where "err = CHIMERA_ERR_INVALID" "r = None" "port_arena_alloc s = (Some p, s1)"
      "same_names (ipc_port_init_internal p label s1) s'" "\<not> is_active (i_spaces s n)"
  | (full) p s1 sp' where "err = CHIMERA_ERR_NOMEM" "r = None" "port_arena_alloc s = (Some p, s1)"
      "space_alloc_name (i_spaces s n) = Some (MACH_PORT_NAME_NULL, sp')" "is_active (i_spaces s n)"
      "same_names (upd_space n (\<lambda>_. sp') (ipc_port_init_internal p label s1)) s'"
  | (entered) p s1 c sp' where "err = CHIMERA_SUCCESS" "r = Some c" "port_arena_alloc s = (Some p, s1)" "is_active (i_spaces s n)"
      "enter_right (Some (IE_PORT p), MACH_PORT_TYPE_SEND_RECEIVE) (i_spaces s n) = Some (c, sp')"
      "s' = upd_port p (\<lambda>q. q\<lparr>ip_receiver := Some n, ip_receiver_name := c, ip_srights := 1\<rparr>)
         (upd_space n (\<lambda>_. sp') (ipc_port_init_internal p label s1))"
proof (cases "fst (port_arena_alloc s)")
  case None
  then show ?thesis using nomem assms by (cases "port_arena_alloc s") (auto simp: ipc_port_alloc_def)
next
  case (Some p)
  then obtain s1 where a: "port_arena_alloc s = (Some p, s1)" by (cases "port_arena_alloc s") auto
  have sp: "i_spaces s1 = i_spaces s" using arena_alloc_same [OF a] by (simp add: same_names_def)
  have [simp]: "i_spaces (ipc_port_init_internal p label s1) = i_spaces s" by (simp add: ipc_port_init_internal_def sp)
  show ?thesis
  proof (cases "is_active (i_spaces s n)")
    case False
    then show ?thesis using assms a by (intro inactive [OF _ _ a]) (auto simp: ipc_port_alloc_def Let_def)
  next
    case True
    then obtain c sp' where al: "space_alloc_name (i_spaces s n) = Some (c, sp')"
      using assms a by (auto simp: ipc_port_alloc_def Let_def bind_eq_Some_conv)
    show ?thesis
    proof (cases "c = MACH_PORT_NAME_NULL")
      case c: True
      show ?thesis by (rule full [OF _ _ a]) (use assms a True al c in \<open>auto simp: ipc_port_alloc_def Let_def\<close>)
    next
      case False
      show ?thesis by (rule entered [OF _ _ a True])
          (use assms a True al False in \<open>auto simp: ipc_port_alloc_def Let_def enter_right_def\<close>)
    qed
  qed
qed

lemma port_alloc_inv: "ipc_inv s \<Longrightarrow> ipc_port_alloc n label s = Some (err, r, s') \<Longrightarrow> ipc_inv s'"
proof (erule port_alloc_cases)
  assume "ipc_inv s" "port_arena_alloc s = (None, s')"
  then show "ipc_inv s'" using same_names_ok(4) [OF arena_alloc_same] by blast
next
  fix p s1 assume "ipc_inv s" "port_arena_alloc s = (Some p, s1)" "same_names (ipc_port_init_internal p label s1) s'"
  then show "ipc_inv s'" using same_names_ok(4) [OF arena_alloc_same] same_names_ok(4) init_inv by blast
next
  fix p s1 sp' assume inv: "ipc_inv s" and a: "port_arena_alloc s = (Some p, s1)"
    and al: "space_alloc_name (i_spaces s n) = Some (MACH_PORT_NAME_NULL, sp')"
    and s': "same_names (upd_space n (\<lambda>_. sp') (ipc_port_init_internal p label s1)) s'"
  have "i_spaces (ipc_port_init_internal p label s1) = i_spaces s"
    using arena_alloc_same [OF a] by (simp add: ipc_port_init_internal_def same_names_def)
  then have "ipc_inv (upd_space n (\<lambda>_. sp') (ipc_port_init_internal p label s1))"
    using alloc_null_inv al init_inv same_names_ok(4) [OF arena_alloc_same [OF a]] inv by metis
  then show "ipc_inv s'" using same_names_ok(4) [OF s'] by simp
next
  fix p s1 c sp' assume inv: "ipc_inv s" and a: "port_arena_alloc s = (Some p, s1)" and act: "is_active (i_spaces s n)"
    and e: "enter_right (Some (IE_PORT p), MACH_PORT_TYPE_SEND_RECEIVE) (i_spaces s n) = Some (c, sp')"
    and s': "s' = upd_port p (\<lambda>q. q\<lparr>ip_receiver := Some n, ip_receiver_name := c, ip_srights := 1\<rparr>)
         (upd_space n (\<lambda>_. sp') (ipc_port_init_internal p label s1))"
  define s2 where "s2 = ipc_port_init_internal p label s1"
  have sp: "i_spaces s2 = i_spaces s" using arena_alloc_same [OF a] by (simp add: s2_def ipc_port_init_internal_def same_names_def)
  have inv2: "ipc_inv s2" using init_inv same_names_ok(4) [OF arena_alloc_same [OF a]] inv by (simp add: s2_def)
  have e2: "enter_right (Some (IE_PORT p), MACH_PORT_TYPE_SEND_RECEIVE) (i_spaces s2 n) = Some (c, sp')" by (simp add: sp e)
  have inv3: "ipc_inv (upd_space n (\<lambda>_. sp') s2)" by (rule enter_in_space [OF inv2 good_rights(1) e2])
  have "\<exists>fl. space_wf (i_spaces s n) fl" using inv act spaces_okD by (simp add: ipc_inv_def)
  then have "receives sp' c p" using names.enter_finds(1) [OF _ good_rights(1) e] by (simp add: receives_def)
  moreover have "n < unat (s_space_next s2)" using inv2 act by (auto simp: ipc_inv_def spaces_ok_def sp)
  ultimately show "ipc_inv s'" using inv3 by (auto simp: s' ipc_inv_def spaces_ok_def port_ok_def simp flip: s2_def)
qed

lemma fill_inv:
  assumes "ipc_inv s" "good_right (obj, bits)" "space_alloc_name (i_spaces s n) = Some (c, sp')" "c \<noteq> MACH_PORT_NAME_NULL"
  shows "ipc_inv (upd_space n (\<lambda>_. upd_entry (ipc_name_index c) (\<lambda>e. e\<lparr>ie_object := obj, ie_bits := bits, ie_urefs := 1\<rparr>) sp') s)"
  by (rule enter_in_space [OF assms(1,2)]) (simp add: enter_right_def assms)

lemma bare_alloc_inv: "ipc_inv s \<Longrightarrow> good_right (None, bits) \<Longrightarrow> alloc_bare n bits s = Some (err, r, s') \<Longrightarrow> ipc_inv s'"
  by (auto simp: alloc_bare_def Let_def bind_eq_Some_conv split: if_splits intro: alloc_null_inv fill_inv)

lemma allocate_inv: "ipc_inv s \<Longrightarrow> mach_port_allocate_kernel sp right out s = Some (err, r, s') \<Longrightarrow> ipc_inv s'"
  by (auto simp: mach_port_allocate_kernel_def split: option.splits if_splits 
      intro: port_alloc_inv bare_alloc_inv [OF _ good_rights(3)] bare_alloc_inv [OF _ good_rights(4)])

text \<open>A change of \<^verbatim>\<open>ie_urefs\<close> is invisible.\<close>
lemma urefs_same:
  "rights (upd_entry i (\<lambda>e. e\<lparr>ie_urefs := f e\<rparr>) sp) = rights sp" "is_active (upd_entry i (\<lambda>e. e\<lparr>ie_urefs := f e\<rparr>) sp) = is_active sp"
  "space_wf (upd_entry i (\<lambda>e. e\<lparr>ie_urefs := f e\<rparr>) sp) = space_wf sp"
proof -
  let ?sp = "upd_entry i (\<lambda>e. e\<lparr>ie_urefs := f e\<rparr>) sp"
  have t: "ie_object (is_table ?sp j) = ie_object (is_table sp j)" "ie_bits (is_table ?sp j) = ie_bits (is_table sp j)"
    "ie_gen (is_table ?sp j) = ie_gen (is_table sp j)" for j by (simp_all add: upd_entry_def)
  have n: "name_of ?sp = name_of sp" by (simp add: name_of_def fun_eq_iff t)
  have u: "is_table_used ?sp = is_table_used sp" "is_table_size ?sp = is_table_size sp" "is_free_count ?sp = is_free_count sp"
    "is_free_head ?sp = is_free_head sp" by (simp_all add: upd_entry_def)
  have c: "free_chain ?sp h fl = free_chain sp h fl" for h fl by (induction fl arbitrary: h) (simp_all add: n t)
  show "rights ?sp = rights sp" by (simp add: rights_def fun_eq_iff Let_def n t u)
  show "is_active ?sp = is_active sp" by (simp add: upd_entry_def)
  show "space_wf ?sp = space_wf sp" by (simp add: fun_eq_iff space_wf_def entry_ok_def live_def t u c)
qed

lemma urefs_inv: "ipc_inv s \<Longrightarrow> ipc_inv (upd_space n (upd_entry i (\<lambda>e. e\<lparr>ie_urefs := f e\<rparr>)) s)"
  by (auto simp: ipc_inv_def spaces_ok_def port_ok_def receives_def urefs_same)

lemma copyout_send_cases:
  assumes "ipc_port_copyout_send sp pt s = Some (name, s')"
  obtains (same) "s' = s"
  | (existing) n i where "s' = upd_space n (upd_entry (word_of_nat i) (\<lambda>e. e\<lparr>ie_urefs := ie_urefs e + 1\<rparr>)) s"
  | (full) n sp' where "space_alloc_name (i_spaces s n) = Some (MACH_PORT_NAME_NULL, sp')" "s' = upd_space n (\<lambda>_. sp') s"
  | (entered) n p sp' where "enter_right (Some (IE_PORT p), MACH_PORT_TYPE_SEND) (i_spaces s n) = Some (name, sp')"
      "s' = upd_port p (\<lambda>q. q\<lparr>ip_srights := ip_srights q + 1\<rparr>) (upd_space n (\<lambda>_. sp') s)"
proof (cases "pt = None \<or> sp = None")
  case True
  then show ?thesis using same assms by (auto simp: ipc_port_copyout_send_def split: option.splits)
next
  case False
  then obtain p n where pn: "pt = Some p" "sp = Some n" by auto
  show ?thesis
  proof (cases "ip_receiver (i_ports s p) = Some n")
    case True
    then show ?thesis using same assms pn by (simp add: ipc_port_copyout_send_def)
  next
    case nr: False
    show ?thesis
    proof (cases "find_send p (i_spaces s n)")
      case (Some i)
      then show ?thesis using assms pn nr by (intro existing [of n i]) (auto simp: ipc_port_copyout_send_def)
    next
      case None
      then obtain c sp' where al: "space_alloc_name (i_spaces s n) = Some (c, sp')"
        using assms pn nr by (auto simp: ipc_port_copyout_send_def bind_eq_Some_conv)
      show ?thesis
        using full [of n sp'] entered [of p n "upd_entry (ipc_name_index c)
            (\<lambda>e. e\<lparr>ie_object := Some (IE_PORT p), ie_bits := MACH_PORT_TYPE_SEND, ie_urefs := 1\<rparr>) sp'"] assms pn nr None al
        by (cases "c = MACH_PORT_NAME_NULL") (auto simp: ipc_port_copyout_send_def enter_right_def Let_def)
    qed
  qed
qed

lemma srights_same: "same_names s (upd_port p (\<lambda>q. q\<lparr>ip_srights := f q\<rparr>) s)"
  by (rule same_names_upd_port) (simp add: port_key_def)

lemma copyout_send_inv: "ipc_inv s \<Longrightarrow> ipc_port_copyout_send sp pt s = Some (name, s') \<Longrightarrow> ipc_inv s'"
  by (erule copyout_send_cases)
    (auto simp: same_names_ok(4) [OF srights_same] intro: alloc_null_inv urefs_inv enter_in_space [OF _ good_rights(2)])

section \<open>Deallocation\<close>

text \<open>A call that is refused or only lowers \<^verbatim>\<open>ie_urefs\<close> changes no name; otherwise the name is freed and its port dropped.\<close>
lemma deallocate_cases:
  assumes "mach_port_deallocate_kernel my_cpu sp name s = Some (err, s')"
  obtains (refused) "err = CHIMERA_ERR_INVALID" "s' = s"
  | (fewer) n where "err = CHIMERA_SUCCESS" "sp = Some n" "rights (i_spaces s n) (name AND 0xFFFF) \<noteq> None"
      "ie_urefs (entry_at (i_spaces s n) (ipc_name_index name)) - 1 \<noteq> 0" "s' = upd_space n (upd_entry (ipc_name_index name) (\<lambda>e. e\<lparr>ie_urefs := ie_urefs e - 1\<rparr>)) s"
  | (bare) n bits where "err = CHIMERA_SUCCESS" "sp = Some n" "rights (i_spaces s n) (name AND 0xFFFF) = Some (None, bits)"
      "s' = upd_space n (drop_name (name AND 0xFFFF)) s"
  | (port) n p bits where "err = CHIMERA_SUCCESS" "sp = Some n" "rights (i_spaces s n) (name AND 0xFFFF) = Some (Some (IE_PORT p), bits)"
      "drop_right my_cpu n bits p (upd_space n (drop_name (name AND 0xFFFF)) s) = Some s'"
proof (cases sp)
  case None
  then show ?thesis using refused assms by (simp add: mach_port_deallocate_kernel_def)
next
  case (Some n)
  let ?e = "entry_at (i_spaces s n) (ipc_name_index name)"
  have drop: "drop_name (name AND 0xFFFF) = space_free_name (ipc_name_index name)" by (simp add: drop_name_def fun_eq_iff)
  let ?bad = "name = MACH_PORT_NAME_NULL \<or> name = MACH_PORT_NAME_DEAD \<or> ipc_name_index name \<ge> is_table_used (i_spaces s n) \<or>
    \<not> gen_matches name (i_spaces s n) \<or> ie_bits ?e = MACH_PORT_TYPE_NONE \<or> ie_urefs ?e = 0"
  show ?thesis
  proof (cases ?bad)
    case True
    then show ?thesis using assms Some by (intro refused) (auto simp: mach_port_deallocate_kernel_def Let_def split: if_splits)
  next
    case ok: False
    then have 2: "rights (i_spaces s n) (name AND 0xFFFF) = Some (ie_object ?e, ie_bits ?e)"
      by (simp add: rights_low linorder_not_le)
    show ?thesis
    proof (cases "ie_urefs ?e - 1 = 0")
      case False
      then show ?thesis using fewer [OF _ Some] assms Some ok 2 by (auto simp: mach_port_deallocate_kernel_def Let_def)
    next
      case True
      then have m: "err = CHIMERA_SUCCESS \<and> (if ie_object ?e = None then Some (upd_space n (space_free_name (ipc_name_index name)) s)
          else do { p \<leftarrow> as_port (ie_object ?e); drop_right my_cpu n (ie_bits ?e) p (upd_space n (space_free_name (ipc_name_index name)) s) }) = Some s'"
        using assms Some ok by (auto simp: mach_port_deallocate_kernel_def Let_def bind_eq_Some_conv split: if_splits)
      show ?thesis
      proof (cases "ie_object ?e")
        case None
        then show ?thesis using bare [OF _ Some, of "ie_bits ?e"] m 2 by (simp add: drop)
      next
        case (Some x)
        then obtain p where "ie_object ?e = Some (IE_PORT p)" using m by (cases x) (auto simp: as_port_def)
        then show ?thesis using port [OF _ \<open>sp = Some n\<close>, of p "ie_bits ?e"] m 2 by (simp add: drop as_port_def)
      qed
    qed
  qed
qed

lemma drop_any:
  assumes inv: "ipc_inv s" and r: "rights (i_spaces s n) c = Some (obj, bits)"
  shows "spaces_ok (upd_space n (drop_name c) s)"
    and "obj \<noteq> Some (IE_PORT q) \<or> bits AND MACH_PORT_TYPE_RECEIVE = 0 \<or> ip_receiver (i_ports s q) \<noteq> Some n \<Longrightarrow>
      port_ok (upd_space n (drop_name c) s) q"
    and "port_weak (upd_space n (drop_name c) s) q"
proof -
  have sp: "spaces_ok s" and po: "port_ok s q" using inv by (simp_all add: ipc_inv_def)
  have off: "spaces_ok (upd_space n (drop_name c) s) \<and> port_ok (upd_space n (drop_name c) s) q" if "\<not> is_active (i_spaces s n)"
    using that sp po by (auto simp: spaces_ok_def port_ok_def drop_name_def)
  note act = drop_in_space [OF sp _ r]
  show "spaces_ok (upd_space n (drop_name c) s)" using off act(1) by (cases "is_active (i_spaces s n)") simp_all
  show "port_weak (upd_space n (drop_name c) s) q"
    using off act(3) [OF _ po] port_ok_weak by (cases "is_active (i_spaces s n)") simp_all
  show "port_ok (upd_space n (drop_name c) s) q"
    if "obj \<noteq> Some (IE_PORT q) \<or> bits AND MACH_PORT_TYPE_RECEIVE = 0 \<or> ip_receiver (i_ports s q) \<noteq> Some n"
    using off act(2) [OF _ po that] by (cases "is_active (i_spaces s n)") simp_all
qed

lemma deallocate_inv:
  assumes inv: "ipc_inv s" and "mach_port_deallocate_kernel my_cpu sp name s = Some (err, s')"
  shows "ipc_inv s'"
  using assms(2)
proof (cases rule: deallocate_cases)
  case refused
  then show ?thesis using inv by simp
next
  case (fewer n)
  then show ?thesis using urefs_inv [OF inv] by simp
next
  case (bare n bits)
  then show ?thesis using drop_any [OF inv bare(3)] by (simp add: ipc_inv_def)
next
  case (port n p bits)
  define s1 where "s1 = upd_space n (drop_name (name AND 0xFFFF)) s"
  note * = drop_any [OF inv port(3), folded s1_def]
  have d: "drop_right my_cpu n bits p s1 = Some s'" and p1: "i_ports s1 = i_ports s" using port(4) by (simp_all add: s1_def)
  show ?thesis
  proof (cases "bits AND MACH_PORT_TYPE_RECEIVE \<noteq> 0 \<and> ip_receiver (i_ports s p) = Some n")
    case True
    then have "ipc_port_destroy my_cpu p s1 = Some s'" using d p1 by (simp add: drop_right_def)
    then show ?thesis by (rule destroy_inv [OF *(1) *(2) *(3), rotated]) simp
  next
    case False
    then have "port_ok s1 q" for q using *(2) [of q] by auto
    then have "ipc_inv s1" using *(1) by (simp add: ipc_inv_def)
    moreover have "same_names s1 s'"
    proof -
      let ?s2 = "upd_port p (\<lambda>q. if ip_srights q > 0 then q\<lparr>ip_srights := ip_srights q - 1\<rparr> else q) s1"
      have "s' = ipc_port_release p ?s2 \<or> s' = ipc_port_release p s1"
        using d p1 False by (auto simp: drop_right_def split: if_splits)
      moreover have "same_names s1 ?s2" by (rule same_names_upd_port) (simp add: port_key_def)
      ultimately show ?thesis using same_names_trans [OF _ release_same] by auto
    qed
    ultimately show ?thesis using same_names_ok(4) by blast
  qed
qed

end
