(* ===== verification/Ipc_Steps.thy ===== *)
theory Ipc_Steps
  imports Ipc_Correct
begin

text \<open>
  Runs of the port operations: spaces come and go, ports are created, named, looked up and destroyed
  in any order. The invariant holds in every reachable state, and a step advances the generation of
  an entry by at most one.
\<close>

unbundle bit_operations_syntax

section \<open>Spaces\<close>

lemma create_cases:
  assumes "ipc_space_create t s = (err, r, s')" and "s_space_next s \<le> 256"
  obtains (none) "err = CHIMERA_ERR_NOMEM" "s' = s" "s_space_next s = 256"
  | (created) n where "err = CHIMERA_SUCCESS" "r = Some n" "n = unat (s_space_next s)" "n < 256" "unat (s_space_next s') = n + 1"
      "i_ports s' = i_ports s" "\<And>m. m \<noteq> n \<Longrightarrow> i_spaces s' m = i_spaces s m" "is_active (i_spaces s' n)"
      "space_wf (i_spaces s' n) []" "rights (i_spaces s' n) = Map.empty"
proof (cases "s_space_next s \<ge> 256")
  case True
  then have "s_space_next s = 256" using assms(2) by simp
  then show ?thesis using assms(1) by (intro none) (auto simp: ipc_space_create_def Let_def)
next
  case False
  define n where "n = unat (s_space_next s)"
  have n: "n < 256" using False by (simp add: n_def word_le_nat_alt)
  have u: "unat (s_space_next s + 1) = n + 1" using n by (subst unat_add_lem [THEN iffD1]) (simp_all add: n_def)
  have s': "s' = upd_space n (\<lambda>sp. sp
        \<lparr>is_active := True, is_table_size := IPC_SPACE_INITIAL_CAPACITY, is_table_used := 1, is_task := t,
         is_free_head := MACH_PORT_NAME_NULL, is_free_count := 0,
         is_table := (\<lambda>i. if i < unat IPC_SPACE_INITIAL_CAPACITY
           then (is_table sp i)\<lparr>ie_object := None, ie_bits := MACH_PORT_TYPE_NONE, ie_urefs := 0\<rparr> else is_table sp i)\<rparr>)
        (s\<lparr>s_space_next := s_space_next s + 1\<rparr>)" and r: "err = CHIMERA_SUCCESS" "r = Some n"
    using assms(1) False by (auto simp: ipc_space_create_def Let_def n_def)
  have w: "space_wf (i_spaces s' n) []"
    by (auto simp: s' space_wf_def entry_ok_def live_def IPC_SPACE_INITIAL_CAPACITY_def MACH_PORT_NAME_NULL_def)
  have e: "rights (i_spaces s' n) = Map.empty"
    using index_less by (auto simp: s' rights_def fun_eq_iff Let_def IPC_SPACE_INITIAL_CAPACITY_def)
  show ?thesis by (rule created [OF r n_def n _ _ _ _ w e]) (auto simp: s' u)
qed

lemma create_inv:
  assumes inv: "ipc_inv s" and c: "ipc_space_create t s = (err, r, s')"
  shows "ipc_inv s'"
proof -
  have "s_space_next s \<le> 256" using inv by (simp add: ipc_inv_def spaces_ok_def)
  with c show ?thesis
  proof (cases rule: create_cases)
    case none
    then show ?thesis using inv by simp
  next
    case (created n)
    have nx: "s_space_next s' \<le> 256" using created(4,5) by (simp add: word_le_nat_alt)
    have "is_active (i_spaces s' m) \<longrightarrow> m < unat (s_space_next s') \<and> (\<exists>fl. space_wf (i_spaces s' m) fl)" for m
      using inv created(3,5,7,9) by (cases "m = n") (auto simp: ipc_inv_def spaces_ok_def)
    then have "spaces_ok s'" using nx by (simp add: spaces_ok_def)
    moreover have "port_ok s' q" for q
    proof -
      have "port_ok s q" using inv by (simp add: ipc_inv_def)
      then show ?thesis using created(3,5,6,7) by (fastforce simp: port_ok_def)
    qed
    ultimately show ?thesis by (simp add: ipc_inv_def)
  qed
qed

text \<open>Collecting the ports of a space touches only its table.\<close>
lemma collect_frame:
  "collect_ports n i ds rs s = Some (ds', rs', s') \<Longrightarrow>
    i_ports s' = i_ports s \<and> s_space_next s' = s_space_next s \<and> is_active (i_spaces s' n) = is_active (i_spaces s n) \<and>
    (\<forall>m. m \<noteq> n \<longrightarrow> i_spaces s' m = i_spaces s m) \<and>
    (\<forall>p\<in>set ds'. p \<in> set ds \<or> ip_receiver (i_ports s p) = Some n)"
proof (induction "unat (is_table_used (i_spaces s n)) - i" arbitrary: i ds rs s rule: less_induct)
  case less
  show ?case
  proof (cases "unat (is_table_used (i_spaces s n)) \<le> i")
    case True
    then show ?thesis using less.prems by (subst (asm) collect_ports.simps) auto
  next
    case False
    let ?s = "upd_space n (upd_entry (word_of_nat i) (\<lambda>e. e\<lparr>ie_object := None, ie_bits := MACH_PORT_TYPE_NONE\<rparr>)) s"
    obtain ds1 rs1 where c: "collect_ports n (i + 1) ds1 rs1 ?s = Some (ds', rs', s')"
      and d: "\<forall>p\<in>set ds1. p \<in> set ds \<or> ip_receiver (i_ports s p) = Some n"
      using less.prems False by (subst (asm) collect_ports.simps) (auto simp: Let_def bind_eq_Some_conv split: if_splits)
    have "i_ports s' = i_ports ?s \<and> s_space_next s' = s_space_next ?s \<and> is_active (i_spaces s' n) = is_active (i_spaces ?s n) \<and>
      (\<forall>m. m \<noteq> n \<longrightarrow> i_spaces s' m = i_spaces ?s m) \<and> (\<forall>p\<in>set ds'. p \<in> set ds1 \<or> ip_receiver (i_ports ?s p) = Some n)"
      by (rule less.hyps [OF _ c]) (use False in \<open>simp add: upd_entry_def\<close>)
    then show ?thesis using d by (auto simp: upd_entry_def)
  qed
qed

lemma destroy_ports_inv:
  "ipc_inv s \<Longrightarrow> destroy_ports my_cpu ds s = Some s' \<Longrightarrow> ipc_inv s'"
  by (induction ds arbitrary: s) (auto simp: bind_eq_Some_conv dest: destroy_keeps_inv)

lemma fold_release_same: "same_names s (fold ipc_port_release rs s)"
proof (induction rs arbitrary: s)
  case (Cons p rs)
  show ?case using same_names_trans [OF release_same [of s p] Cons [of "ipc_port_release p s"]] by simp
qed simp

lemma space_destroy_cases:
  assumes "ipc_space_destroy my_cpu n s = Some s'"
  obtains s1 ds s2 where "i_ports s1 = i_ports s" "s_space_next s1 = s_space_next s" "\<not> is_active (i_spaces s1 n)"
    "\<And>m. m \<noteq> n \<Longrightarrow> i_spaces s1 m = i_spaces s m" "\<forall>p\<in>set ds. ip_receiver (i_ports s p) = Some n"
    "destroy_ports my_cpu ds s1 = Some s2" "same_names s2 s'"
proof -
  let ?s0 = "upd_space n (\<lambda>x. x\<lparr>is_active := False\<rparr>) s"
  obtain ds rs t s2 where c: "collect_ports n 1 [] [] ?s0 = Some (ds, rs, t)"
    and d: "destroy_ports my_cpu ds (upd_space n (\<lambda>x. x\<lparr>is_table_used := 1\<rparr>) t) = Some s2" and f: "s' = fold ipc_port_release rs s2"
    using assms by (auto simp: ipc_space_destroy_def Let_def bind_eq_Some_conv)
  show ?thesis
    by (rule that [OF _ _ _ _ _ d]) (use collect_frame [OF c] fold_release_same [of s2 rs] in \<open>auto simp: f\<close>)
qed

lemma space_destroy_inv:
  assumes inv: "ipc_inv s" and d: "ipc_space_destroy my_cpu n s = Some s'"
  shows "ipc_inv s'"
  using d
proof (rule space_destroy_cases)
  fix s1 ds s2
  assume e: "i_ports s1 = i_ports s" "s_space_next s1 = s_space_next s" "\<not> is_active (i_spaces s1 n)"
    and sp: "\<And>m. m \<noteq> n \<Longrightarrow> i_spaces s1 m = i_spaces s m" and d: "destroy_ports my_cpu ds s1 = Some s2" and s': "same_names s2 s'"
  have "spaces_ok s1" using inv e sp unfolding ipc_inv_def spaces_ok_def by metis
  moreover have "port_ok s1 q" for q
  proof -
    have "port_ok s q" using inv by (simp add: ipc_inv_def)
    then show ?thesis unfolding port_ok_def using e sp by metis
  qed
  ultimately have "ipc_inv s1" by (simp add: ipc_inv_def)
  then have "ipc_inv s2" using d by (rule destroy_ports_inv)
  then show ?thesis using same_names_ok(4) [OF s'] by simp
qed

lemma special_inv: "ipc_inv s \<Longrightarrow> ipc_inv (upd_port p (\<lambda>q. q\<lparr>ip_state := IPC_PORT_STATE_SPECIAL\<rparr>) (s\<lparr>ipc_port_kernel_bootstrap := b\<rparr>))"
  by (auto simp: ipc_inv_def spaces_ok_def port_ok_def)

lemma task_space_same: "same_names s (s\<lparr>ta_ipc_space := f\<rparr>)"
  by (simp add: same_names_def)

lemma init_keeps_inv:
  assumes inv: "ipc_inv s" and i: "ipc_init s = Some s'"
  shows "ipc_inv s'"
proof -
  obtain t err sp s1 n e2 nm s2 p where c: "ipc_space_create t s = (err, sp, s1)"
    and a: "ipc_port_alloc n ''kernel.bootstrap'' (s1\<lparr>ta_ipc_space := (ta_ipc_space s1)(t := Some n)\<rparr>) = Some (e2, nm, s2)"
    and s': "s' = upd_port p (\<lambda>q. q\<lparr>ip_state := IPC_PORT_STATE_SPECIAL\<rparr>) (s2\<lparr>ipc_port_kernel_bootstrap := Some p\<rparr>)"
  proof -
    obtain t where t: "i_task_kernel s = Some t" using i by (auto simp: ipc_init_def bind_eq_Some_conv)
    obtain err sp s1 where c: "ipc_space_create t s = (err, sp, s1)" by (metis prod_cases3)
    show ?thesis using i t c that [OF c] by (auto simp: ipc_init_def Let_def bind_eq_Some_conv split: if_splits)
  qed
  have "ipc_inv s1" using create_inv [OF inv c] .
  then have "ipc_inv (s1\<lparr>ta_ipc_space := (ta_ipc_space s1)(t := Some n)\<rparr>)" using same_names_ok(4) [OF task_space_same] by blast
  then have "ipc_inv s2" using a by (rule port_alloc_inv)
  then show ?thesis using special_inv by (simp add: s')
qed

lemma register_same: "mach_register_service name pt s = (err, s') \<Longrightarrow> same_names s s'"
  by (auto simp: mach_register_service_def same_names_def split: if_splits option.splits)

section \<open>Runs\<close>

inductive ipc_step :: "ipc_state \<Rightarrow> ipc_state \<Rightarrow> bool" where
  space_create: "ipc_space_create t s = (err, r, s') \<Longrightarrow> ipc_step s s'"
| space_destroy: "ipc_space_destroy my_cpu n s = Some s' \<Longrightarrow> ipc_step s s'"
| port_alloc: "ipc_port_alloc n label s = Some (err, r, s') \<Longrightarrow> ipc_step s s'"
| port_destroy: "ipc_port_destroy my_cpu p s = Some s' \<Longrightarrow> ipc_step s s'"
| reference: "ipc_step s (ipc_port_reference p s)"
| release: "ipc_step s (ipc_port_release p s)"
| register: "mach_register_service name pt s = (err, s') \<Longrightarrow> ipc_step s s'"
| init: "ipc_init s = Some s' \<Longrightarrow> ipc_step s s'"
| copyout_send: "ipc_port_copyout_send sp pt s = Some (name, s') \<Longrightarrow> ipc_step s s'"
| allocate: "mach_port_allocate_kernel sp right out s = Some (err, r, s') \<Longrightarrow> ipc_step s s'"
| deallocate: "mach_port_deallocate_kernel my_cpu sp name s = Some (err, s') \<Longrightarrow> ipc_step s s'"

text \<open>The state of the static data before \<^verbatim>\<open>ipc_init\<close>.\<close>
definition ipc_boot :: "ipc_state \<Rightarrow> bool" where
  "ipc_boot s \<longleftrightarrow> s_space_next s = 0 \<and> (\<forall>n. \<not> is_active (i_spaces s n)) \<and> (\<forall>p. ip_receiver (i_ports s p) = None)"

inductive ipc_run :: "nat \<Rightarrow> ipc_state \<Rightarrow> ipc_state \<Rightarrow> bool" where
  none: "ipc_run 0 s s"
| more: "ipc_run k s s' \<Longrightarrow> ipc_step s' s'' \<Longrightarrow> ipc_run (Suc k) s s''"

inductive_cases ipc_run_SucE: "ipc_run (Suc k) s s'"

definition ipc_reach :: "ipc_state \<Rightarrow> bool" where
  "ipc_reach s \<longleftrightarrow> (\<exists>s0 k. ipc_boot s0 \<and> ipc_run k s0 s)"

lemma boot_inv: "ipc_boot s \<Longrightarrow> ipc_inv s"
  by (simp add: ipc_boot_def ipc_inv_def spaces_ok_def port_ok_def)

lemma step_inv: "ipc_step s s' \<Longrightarrow> ipc_inv s \<Longrightarrow> ipc_inv s'"
  by (induction rule: ipc_step.induct)
    (metis create_inv, metis space_destroy_inv, metis port_alloc_inv, metis destroy_keeps_inv, metis same_names_ok(4) reference_same,
     metis same_names_ok(4) release_same, metis same_names_ok(4) register_same, metis init_keeps_inv, metis copyout_send_inv,
     metis allocate_inv, metis deallocate_inv)

lemma run_inv: "ipc_run k s s' \<Longrightarrow> ipc_inv s \<Longrightarrow> ipc_inv s'"
  by (induction rule: ipc_run.induct) (simp_all add: step_inv)

lemma reach_inv: "ipc_reach s \<Longrightarrow> ipc_inv s"
  using boot_inv run_inv by (auto simp: ipc_reach_def)

section \<open>Generations\<close>

definition bumped :: "ipc_space \<Rightarrow> ipc_space \<Rightarrow> bool" where
  "bumped sp sp' \<longleftrightarrow> (\<forall>i<64. ie_gen (is_table sp' i) = ie_gen (is_table sp i) \<or> ie_gen (is_table sp' i) = ie_gen (is_table sp i) + 1)"

text \<open>What a step may do to the spaces that exist: none becomes active again, and an active one has every
  generation where it was or one further.\<close>
definition advances :: "ipc_state \<Rightarrow> ipc_state \<Rightarrow> bool" where
  "advances s s' \<longleftrightarrow> s_space_next s \<le> s_space_next s' \<and> (\<forall>n < unat (s_space_next s). is_active (i_spaces s' n) \<longrightarrow>
     is_active (i_spaces s n) \<and> bumped (i_spaces s n) (i_spaces s' n))"

lemma bumped_refl [simp]: "bumped sp sp"
  by (simp add: bumped_def)

lemma same_names_advances: "same_names s s' \<Longrightarrow> advances s s'"
  by (simp add: same_names_def advances_def)

lemma advances_same: "advances s s' \<Longrightarrow> same_names s' s'' \<Longrightarrow> advances s s''" "same_names s s' \<Longrightarrow> advances s' s'' \<Longrightarrow> advances s s''"
  by (simp_all add: same_names_def advances_def)

lemma advances_one:
  assumes "s_space_next s' = s_space_next s" "\<And>m. m \<noteq> n \<Longrightarrow> i_spaces s' m = i_spaces s m"
    "is_active (i_spaces s' n) = is_active (i_spaces s n)" "bumped (i_spaces s n) (i_spaces s' n)"
  shows "advances s s'"
  unfolding advances_def
proof (intro conjI allI impI)
  fix m assume "is_active (i_spaces s' m)"
  then show "is_active (i_spaces s m)" "bumped (i_spaces s m) (i_spaces s' m)" using assms(2,3,4) by (cases "m = n", simp_all)+
qed (simp add: assms(1))

lemma advances_space:
  "is_active (f (i_spaces s n)) = is_active (i_spaces s n) \<Longrightarrow> bumped (i_spaces s n) (f (i_spaces s n)) \<Longrightarrow> advances s (upd_space n f s)"
  by (rule advances_one [where n = n]) simp_all

lemma alloc_bumped: "space_alloc_name sp = Some (c, sp') \<Longrightarrow> bumped sp sp'"
  by (auto simp: space_alloc_name_def Let_def upd_entry_def bind_eq_Some_conv bumped_def split: if_splits)

lemma enter_bumped: "enter_right r sp = Some (c, sp') \<Longrightarrow> bumped sp sp'"
  by (auto simp: enter_right_def upd_entry_def split: option.splits if_splits dest!: alloc_bumped) (auto simp: bumped_def)

lemma urefs_bumped: "bumped sp (upd_entry i (\<lambda>e. e\<lparr>ie_urefs := f e\<rparr>) sp)"
  by (simp add: bumped_def upd_entry_def)

lemma drop_gen: "ie_gen (is_table (drop_name c sp) j) = (if j = unat (ipc_name_index c) then ie_gen (is_table sp j) + 1 else ie_gen (is_table sp j))"
  by (simp add: drop_name_def space_free_name_def Let_def upd_entry_def)

lemma drop_frame [simp]: "is_active (drop_name c sp) = is_active sp"
  by (simp add: drop_name_def)

lemma destroy_advances: "ipc_port_destroy my_cpu p s = Some s' \<Longrightarrow> advances s s'"
proof (cases "port_active p s")
  case True
  assume "ipc_port_destroy my_cpu p s = Some s'"
  from destroy_effect(1,2) [OF this True] show ?thesis
    by (simp add: advances_def names_after_destroy_def bumped_def drop_gen)
qed (simp add: ipc_port_destroy_def advances_def)

lemma port_alloc_advances: "ipc_port_alloc n label s = Some (err, r, s') \<Longrightarrow> advances s s'"
proof (erule port_alloc_cases)
  fix p s1 assume a: "port_arena_alloc s = (Some p, s1)"
  have i: "advances s1 (ipc_port_init_internal p label s1)" by (simp add: advances_def ipc_port_init_internal_def)
  { assume "same_names (ipc_port_init_internal p label s1) s'"
    then show "advances s s'" using advances_same arena_alloc_same [OF a] i by blast }
  have sp: "i_spaces (ipc_port_init_internal p label s1) = i_spaces s" "s_space_next (ipc_port_init_internal p label s1) = s_space_next s"
    using arena_alloc_same [OF a] by (simp_all add: ipc_port_init_internal_def same_names_def)
  { fix sp' assume "space_alloc_name (i_spaces s n) = Some (MACH_PORT_NAME_NULL, sp')"
      and s': "same_names (upd_space n (\<lambda>_. sp') (ipc_port_init_internal p label s1)) s'"
    then have "advances s (upd_space n (\<lambda>_. sp') (ipc_port_init_internal p label s1))"
      using alloc_frame alloc_bumped by (auto simp: advances_def sp)
    then show "advances s s'" using s' by (rule advances_same) }
  fix c sp' assume "enter_right (Some (IE_PORT p), MACH_PORT_TYPE_SEND_RECEIVE) (i_spaces s n) = Some (c, sp')"
    and "s' = upd_port p (\<lambda>q. q\<lparr>ip_receiver := Some n, ip_receiver_name := c, ip_srights := 1\<rparr>)
         (upd_space n (\<lambda>_. sp') (ipc_port_init_internal p label s1))"
  then show "advances s s'" using enter_frame enter_bumped by (auto simp: advances_def sp)
qed (simp add: same_names_advances [OF arena_alloc_same])

lemma copyout_send_advances: "ipc_port_copyout_send sp pt s = Some (name, s') \<Longrightarrow> advances s s'"
proof (erule copyout_send_cases)
  fix n p sp' assume "enter_right (Some (IE_PORT p), MACH_PORT_TYPE_SEND) (i_spaces s n) = Some (name, sp')"
    "s' = upd_port p (\<lambda>q. q\<lparr>ip_srights := ip_srights q + 1\<rparr>) (upd_space n (\<lambda>_. sp') s)"
  then show "advances s s'" using enter_frame enter_bumped by (auto simp: advances_def)
qed (auto simp: same_names_advances urefs_same urefs_bumped alloc_frame alloc_bumped intro!: advances_space)

lemma bare_alloc_advances: "alloc_bare n bits s = Some (err, r, s') \<Longrightarrow> advances s s'"
proof -
  assume "alloc_bare n bits s = Some (err, r, s')"
  then obtain c sp' where a: "space_alloc_name (i_spaces s n) = Some (c, sp')"
    and s': "s' = upd_space n (\<lambda>_. sp') s \<or> s' = upd_space n (\<lambda>_. upd_entry (ipc_name_index c)
        (\<lambda>e. e\<lparr>ie_object := None, ie_bits := bits, ie_urefs := 1\<rparr>) sp') s"
    by (auto simp: alloc_bare_def Let_def bind_eq_Some_conv split: if_splits)
  have "bumped (i_spaces s n) (upd_entry j (\<lambda>e. e\<lparr>ie_object := None, ie_bits := bits, ie_urefs := 1\<rparr>) sp')" for j
    using alloc_bumped [OF a] by (simp add: bumped_def upd_entry_def)
  moreover have "is_active (upd_entry j f sp') = is_active (i_spaces s n)" for j f using alloc_frame [OF a] by (simp add: upd_entry_def)
  ultimately show ?thesis using s' alloc_frame [OF a] alloc_bumped [OF a] advances_space [of "\<lambda>_. sp'" s n]
      advances_space [of "\<lambda>_. upd_entry (ipc_name_index c) (\<lambda>e. e\<lparr>ie_object := None, ie_bits := bits, ie_urefs := 1\<rparr>) sp'" s n]
    by auto
qed

lemma allocate_advances: "mach_port_allocate_kernel sp right out s = Some (err, r, s') \<Longrightarrow> advances s s'"
  by (auto simp: mach_port_allocate_kernel_def same_names_advances split: option.splits if_splits
      intro: port_alloc_advances bare_alloc_advances)

text \<open>Deallocating a name bumps its index once: the entry is free when its port is destroyed.\<close>
lemma drop_right_gen:
  assumes inv: "ipc_inv s" and act: "is_active (i_spaces s n)" and r: "rights (i_spaces s n) c = Some (Some (IE_PORT p), bits)"
    and d: "drop_right my_cpu n bits p (upd_space n (drop_name c) s) = Some s'"
  shows "ie_gen (is_table (i_spaces s' n) (unat (ipc_name_index c))) = ie_gen (is_table (i_spaces s n) (unat (ipc_name_index c))) + 1"
    and "advances s s'"
proof -
  let ?s1 = "upd_space n (drop_name c) s" and ?i = "unat (ipc_name_index c)"
  have g: "ie_gen (is_table (i_spaces ?s1 n) ?i) = ie_gen (is_table (i_spaces s n) ?i) + 1" by (simp add: drop_gen)
  have a1: "advances s ?s1" by (rule advances_space) (simp_all add: bumped_def drop_gen)
  have "same_names ?s1 s' \<or> bits AND MACH_PORT_TYPE_RECEIVE \<noteq> 0 \<and> ip_receiver (i_ports s p) = Some n \<and> ipc_port_destroy my_cpu p ?s1 = Some s'"
  proof -
    have "same_names s (upd_port p (\<lambda>q. if ip_srights q > 0 then q\<lparr>ip_srights := ip_srights q - 1\<rparr> else q) s)" for s
      by (rule same_names_upd_port) (simp add: port_key_def)
    then show ?thesis using d same_names_trans [OF _ release_same] by (auto simp: drop_right_def split: if_splits)
  qed
  then have "ie_gen (is_table (i_spaces s' n) ?i) = ie_gen (is_table (i_spaces s n) ?i) + 1 \<and> advances s s'"
  proof (elim disjE conjE)
    assume "same_names ?s1 s'"
    then show ?thesis using g advances_same(1) [OF a1] by (simp add: same_names_def)
  next
    assume rc: "ip_receiver (i_ports s p) = Some n" and d: "ipc_port_destroy my_cpu p ?s1 = Some s'"
    show ?thesis
    proof (cases "port_active p s")
      case False
      then have "s' = ?s1" using d by (simp add: ipc_port_destroy_def)
      then show ?thesis using g a1 by simp
    next
      case True
      let ?c = "ip_receiver_name (i_ports s p)"
      have e: "i_spaces s' = names_after_destroy p ?s1" "s_space_next s' = s_space_next s"
        using destroy_effect(1,2) [OF d] True by simp_all
      have ne: "unat (ipc_name_index ?c) \<noteq> ?i" if f: "frees_name p n ?s1"
      proof -
        have "receives (drop_name c (i_spaces s n)) ?c p"
          using drop_any(3) [OF inv r, of p] True rc act f by (simp add: port_weak_def frees_name_def)
        then obtain b where "rights (drop_name c (i_spaces s n)) ?c = Some (Some (IE_PORT p), b)" by (auto simp: receives_def)
        moreover have "ie_bits (is_table (drop_name c (i_spaces s n)) ?i) = MACH_PORT_TYPE_NONE"
          by (simp add: drop_name_def space_free_name_def Let_def upd_entry_def)
        ultimately show ?thesis by (auto simp: rights_def Let_def split: if_splits)
      qed
      have n: "i_spaces s' n = (if frees_name p n ?s1 then drop_name ?c (drop_name c (i_spaces s n)) else drop_name c (i_spaces s n))"
        by (simp add: e names_after_destroy_def)
      have o: "i_spaces s' m = i_spaces s m" if "m \<noteq> n" for m
        using that rc by (simp add: e names_after_destroy_def frees_name_def)
      have "bumped (i_spaces s n) (i_spaces s' n)" using ne by (auto simp: n bumped_def drop_gen)
      then have "advances s s'" by (rule advances_one [OF e(2) o, rotated 2]) (simp_all add: n)
      moreover have "ie_gen (is_table (i_spaces s' n) ?i) = ie_gen (is_table (i_spaces s n) ?i) + 1" using ne by (auto simp: n drop_gen)
      ultimately show ?thesis by blast
    qed
  qed
  then show "ie_gen (is_table (i_spaces s' n) ?i) = ie_gen (is_table (i_spaces s n) ?i) + 1" and "advances s s'" by blast+
qed

lemma deallocate_advances:
  assumes inv: "ipc_inv s" and "mach_port_deallocate_kernel my_cpu sp name s = Some (err, s')"
  shows "advances s s'"
  using assms(2)
proof (cases rule: deallocate_cases)
  case (port n p bits)
  show ?thesis
  proof (cases "is_active (i_spaces s n)")
    case True
    then show ?thesis using drop_right_gen(2) [OF inv True port(3,4)] by simp
  next
    case False
    let ?s1 = "upd_space n (drop_name (name AND 0xFFFF)) s"
    have "advances ?s1 s'"
    proof -
      have "same_names s (upd_port p (\<lambda>q. if ip_srights q > 0 then q\<lparr>ip_srights := ip_srights q - 1\<rparr> else q) s)" for s
        by (rule same_names_upd_port) (simp add: port_key_def)
      then have "same_names ?s1 s' \<or> ipc_port_destroy my_cpu p ?s1 = Some s'"
        using port(4) same_names_trans [OF _ release_same] by (auto simp: drop_right_def split: if_splits)
      then show ?thesis using same_names_advances destroy_advances by blast
    qed
    then show ?thesis using False by (auto simp: advances_def split: if_splits)
  qed
qed (auto simp: same_names_advances upd_entry_def bumped_def drop_gen intro!: advances_space)

lemma destroy_ports_spaces:
  "destroy_ports my_cpu ds s = Some s' \<Longrightarrow> \<forall>p\<in>set ds. ip_receiver (i_ports s p) \<in> {None, Some n} \<Longrightarrow>
    s_space_next s' = s_space_next s \<and> (\<forall>m. m \<noteq> n \<longrightarrow> i_spaces s' m = i_spaces s m) \<and> is_active (i_spaces s' n) = is_active (i_spaces s n)"
proof (induction ds arbitrary: s)
  case (Cons p ds)
  then obtain s1 where d: "ipc_port_destroy my_cpu p s = Some s1" and r: "destroy_ports my_cpu ds s1 = Some s'"
    by (auto simp: bind_eq_Some_conv)
  have "s_space_next s1 = s_space_next s \<and> (\<forall>m. m \<noteq> n \<longrightarrow> i_spaces s1 m = i_spaces s m) \<and> is_active (i_spaces s1 n) = is_active (i_spaces s n)
    \<and> (\<forall>q\<in>set ds. ip_receiver (i_ports s1 q) \<in> {None, Some n})"
  proof (cases "port_active p s")
    case False
    then have "s1 = s" using d by (simp add: ipc_port_destroy_def)
    then show ?thesis using Cons.prems(2) by simp
  next
    case True
    note e = destroy_effect [OF d True]
    have k: "ip_receiver (i_ports s1 q) \<in> {None, Some n}" if "q \<in> set ds" for q
      using Cons.prems(2) that e(3) [of q] e(5) by (cases "q = p") (auto simp: port_key_def)
    have "i_spaces s1 m = i_spaces s m" if "m \<noteq> n" for m
      using Cons.prems(2) that by (auto simp: e(1) names_after_destroy_def frees_name_def)
    moreover have "is_active (i_spaces s1 n) = is_active (i_spaces s n)" by (simp add: e(1) names_after_destroy_def)
    ultimately show ?thesis using k e(2) by blast
  qed
  then show ?case using Cons.IH [OF r] by auto
qed simp

lemma space_destroy_advances:
  assumes "ipc_space_destroy my_cpu n s = Some s'"
  shows "advances s s'"
  using assms
proof (rule space_destroy_cases)
  fix s1 ds s2
  assume p: "i_ports s1 = i_ports s" and e: "s_space_next s1 = s_space_next s" "\<not> is_active (i_spaces s1 n)"
    "\<And>m. m \<noteq> n \<Longrightarrow> i_spaces s1 m = i_spaces s m" and ds: "\<forall>p\<in>set ds. ip_receiver (i_ports s p) = Some n"
    and d: "destroy_ports my_cpu ds s1 = Some s2" and s': "same_names s2 s'"
  have "s_space_next s2 = s_space_next s1 \<and> (\<forall>m. m \<noteq> n \<longrightarrow> i_spaces s2 m = i_spaces s1 m) \<and> is_active (i_spaces s2 n) = is_active (i_spaces s1 n)"
    by (rule destroy_ports_spaces [OF d]) (simp add: p ds)
  then have k: "s_space_next s2 = s_space_next s" "\<And>m. m \<noteq> n \<Longrightarrow> i_spaces s2 m = i_spaces s m" "\<not> is_active (i_spaces s2 n)"
    using e by auto
  have "is_active (i_spaces s m) \<and> bumped (i_spaces s m) (i_spaces s2 m)" if "is_active (i_spaces s2 m)" for m
    using k(2,3) that by (cases "m = n") simp_all
  then have "advances s s2" using k(1) by (simp add: advances_def)
  then show ?thesis using s' by (rule advances_same)
qed

lemma create_advances: "ipc_inv s \<Longrightarrow> ipc_space_create t s = (err, r, s') \<Longrightarrow> advances s s'"
proof -
  assume inv: "ipc_inv s" and c: "ipc_space_create t s = (err, r, s')"
  have "s_space_next s \<le> 256" using inv by (simp add: ipc_inv_def spaces_ok_def)
  with c show "advances s s'"
    by (cases rule: create_cases) (auto simp: same_names_advances advances_def word_le_nat_alt)
qed

lemma advances_trans_same: "advances s s' \<Longrightarrow> i_spaces s'' = i_spaces s' \<Longrightarrow> s_space_next s'' = s_space_next s' \<Longrightarrow> advances s s''"
  by (simp add: advances_def)

text \<open>\<^verbatim>\<open>ipc_init\<close> fills a space that did not exist before.\<close>
lemma init_advances:
  assumes inv: "ipc_inv s" and i: "ipc_init s = Some s'"
  shows "advances s s'"
proof -
  obtain t where t: "i_task_kernel s = Some t" using i by (auto simp: ipc_init_def bind_eq_Some_conv)
  obtain err sp s1 where c: "ipc_space_create t s = (err, sp, s1)" by (metis prod_cases3)
  obtain n e2 nm s2 p where sp: "err = CHIMERA_SUCCESS" "sp = Some n"
    and a: "ipc_port_alloc n ''kernel.bootstrap'' (s1\<lparr>ta_ipc_space := (ta_ipc_space s1)(t := Some n)\<rparr>) = Some (e2, nm, s2)"
    and s': "s' = upd_port p (\<lambda>q. q\<lparr>ip_state := IPC_PORT_STATE_SPECIAL\<rparr>) (s2\<lparr>ipc_port_kernel_bootstrap := Some p\<rparr>)"
    using i t c by (auto simp: ipc_init_def Let_def bind_eq_Some_conv split: if_splits)
  have le: "s_space_next s \<le> 256" using inv by (simp add: ipc_inv_def spaces_ok_def)
  have n: "n = unat (s_space_next s)" "unat (s_space_next s1) = n + 1" "\<And>m. m \<noteq> n \<Longrightarrow> i_spaces s1 m = i_spaces s m"
    using c le sp by (cases rule: create_cases; auto)+
  have "s_space_next s2 = s_space_next s1 \<and> (\<forall>m. m \<noteq> n \<longrightarrow> i_spaces s2 m = i_spaces s1 m)"
    using a by (cases rule: port_alloc_cases) (auto simp: same_names_def ipc_port_init_internal_def dest!: arena_alloc_same)
  then show ?thesis using n by (auto simp: advances_def s' word_le_nat_alt)
qed

lemma step_advances: "ipc_step s s' \<Longrightarrow> ipc_inv s \<Longrightarrow> advances s s'"
  by (induction rule: ipc_step.induct)
    (metis create_advances, metis space_destroy_advances, metis port_alloc_advances, metis destroy_advances,
     metis same_names_advances reference_same, metis same_names_advances release_same, metis same_names_advances register_same,
     metis init_advances, metis copyout_send_advances, metis allocate_advances, metis deallocate_advances)

lemma run_generation:
  assumes "ipc_run k s s'" "ipc_inv s" "is_active (i_spaces s' n)" "n < unat (s_space_next s)" "i < 64"
  shows "\<exists>m \<le> k. ie_gen (is_table (i_spaces s' n) i) = ie_gen (is_table (i_spaces s n) i) + word_of_nat m"
proof -
  have "unat (s_space_next s) \<le> unat (s_space_next s') \<and> (is_active (i_spaces s' n) \<longrightarrow>
      (\<exists>m \<le> k. ie_gen (is_table (i_spaces s' n) i) = ie_gen (is_table (i_spaces s n) i) + word_of_nat m))"
    using assms(1,2,4,5)
  proof (induction rule: ipc_run.induct)
    case (none s)
    then show ?case by (intro conjI impI) (auto intro: exI [of _ 0])
  next
    case (more k s s' s'')
    have inv: "ipc_inv s'" using run_inv more by blast
    have IH: "unat (s_space_next s) \<le> unat (s_space_next s')" "is_active (i_spaces s' n) \<Longrightarrow>
      \<exists>m \<le> k. ie_gen (is_table (i_spaces s' n) i) = ie_gen (is_table (i_spaces s n) i) + word_of_nat m" using more by auto
    have adv: "advances s' s''" using step_advances [OF more.hyps(2) inv] .
    have "\<exists>m \<le> Suc k. ie_gen (is_table (i_spaces s'' n) i) = ie_gen (is_table (i_spaces s n) i) + word_of_nat m" if "is_active (i_spaces s'' n)"
    proof -
      have b: "is_active (i_spaces s' n)" "bumped (i_spaces s' n) (i_spaces s'' n)" using adv that IH(1) more.prems(2) by (auto simp: advances_def)
      obtain m where m: "m \<le> k" "ie_gen (is_table (i_spaces s' n) i) = ie_gen (is_table (i_spaces s n) i) + word_of_nat m" using IH(2) b(1) by blast
      show ?thesis
      proof (cases "ie_gen (is_table (i_spaces s'' n) i) = ie_gen (is_table (i_spaces s' n) i)")
        case True
        then show ?thesis using m by (intro exI [of _ m]) simp
      next
        case False
        then show ?thesis using m b(2) more.prems(3) by (intro exI [of _ "Suc m"]) (auto simp: bumped_def)
      qed
    qed
    then show ?case using IH(1) adv by (auto simp: advances_def word_le_nat_alt)
  qed
  then show ?thesis using assms(3) by blast
qed

end
