(* ===== verification/Ipc_Props.thy ===== *)
theory Ipc_Props
  imports Ipc_Steps Sched_Props
begin

text \<open>
  Properties of ports and names: the name tables are well formed in every run, the handlers never take
  a free-list link for a port, a new port is found under its name and no other name changes, a stale
  name is refused; and two defects of \<^verbatim>\<open>ipc_port_copyout_send\<close>.
\<close>

unbundle bit_operations_syntax

section \<open>A first space\<close>

definition demo_port :: ipc_port where
  "demo_port = \<lparr>ip_signature = 0, ip_references = 0, ip_state = IPC_PORT_STATE_DEAD, ip_srights = 0, ip_sorights = 0, ip_receiver = None,
     ip_receiver_name = 0, ip_messages = \<lparr>imq_messages = None, imq_messages_tail = None, imq_msgcount = 0, imq_qlimit = 0, imq_seqno = 0,
       imq_reserved = 0, imq_send_waiters = wait_queue_init, imq_recv_waiters = wait_queue_init\<rparr>, ip_nsrequest = None, ip_pdrequest = None,
     ip_mscount = 0, ip_next = None, ip_prev = None, ip_kobject = None, ip_kotype = 0, ip_label = '''', ip_create_time = 0\<rparr>"

definition demo_space :: ipc_space where
  "demo_space = \<lparr>is_active = False, is_table_size = 0, is_table_used = 0, is_table = (\<lambda>_. \<lparr>ie_object = None, ie_bits = 0, ie_urefs = 0, ie_gen = 0\<rparr>),
     is_task = 0, is_free_head = 0, is_free_count = 0\<rparr>"

definition demo_kmsg :: ipc_kmsg where
  "demo_kmsg = \<lparr>ikm_next = None, ikm_prev = None, ikm_size = 0, ikm_header_offset = 0, ikm_remote_port = None,
     ikm_local_port = None, ikm_remote_right = 0, ikm_local_right = 0, ikm_sender_pid = 0, ikm_sender_uid = 0,
     ikm_send_time = 0, ikm_seqno = 0, ikm_ool_count = 0, ikm_ool_regions = (\<lambda>_. \<lparr>ool_addr = 0, ool_size = 0\<rparr>), ikm_data = (\<lambda>_. 0)\<rparr>"

definition demo_ipc0 :: ipc_state where
  "demo_ipc0 = \<lparr>i_sched = demo_sched, i_ports = (\<lambda>_. demo_port), s_port_arena_next = 0, s_port_free_list = None, i_spaces = (\<lambda>_. demo_space),
     s_space_next = 0, s_services = (\<lambda>_. \<lparr>sv_name = '''', sv_port = None\<rparr>), s_service_count = 0, ipc_port_kernel_bootstrap = None,
     ta_ipc_space = (\<lambda>_. None), i_task_kernel = Some 0, i_kmsg = (\<lambda>_. demo_kmsg), s_kmsg_in_use = (\<lambda>_. False), s_kmsg_next = 0,
     i_pm = \<lparr>pk = demo_kmem, s_kernel_pml4_phys = 0, s_tramp_phys = 0, cpu_cr3 = 0, cpu_id = 0, cpu_active_cr3 = (\<lambda>_. 0)\<rparr>,
     ta_mmap_next = (\<lambda>_. 0), ta_task_port = (\<lambda>_. 0), ta_bootstrap_port = (\<lambda>_. 0), ta_proc_pid = (\<lambda>_. None), ta_proc_uid = (\<lambda>_. 0)\<rparr>"

text \<open>Two spaces; a port in the first.\<close>
definition demo_ipc1 :: ipc_state where
  "demo_ipc1 = snd (snd (ipc_space_create 2 (snd (snd (ipc_space_create 1 demo_ipc0)))))"

definition demo_ipc2 :: ipc_state where
  "demo_ipc2 = snd (snd (the (ipc_port_alloc 0 ''demo'' demo_ipc1)))"

lemmas demo_eval = demo_ipc0_def demo_space_def ipc_space_create_def Let_def word_le_nat_alt IPC_SPACE_INITIAL_CAPACITY_def
  IPC_PORT_ARENA_SIZE_def port_arena_alloc_def ipc_port_init_internal_def ipc_port_alloc_def
  mach_port_allocate_kernel_def MACH_PORT_RIGHT_DEAD_NAME_def MACH_PORT_RIGHT_PORT_SET_def MACH_PORT_RIGHT_RECEIVE_def alloc_bare_def
  space_alloc_name_def MACH_PORT_NAME_NULL_def MACH_PORT_NAME_DEAD_def MACH_PORT_TYPE_DEAD_NAME_def MACH_PORT_TYPE_SEND_def
  MACH_PORT_TYPE_RECEIVE_def MACH_PORT_TYPE_NONE_def ipc_name_make_def ipc_name_index_def ipc_name_gen_def upd_entry_def
  mach_port_deallocate_kernel_def gen_matches_def space_free_name_def of_name_def as_name_def as_port_def ipc_port_copyout_send_def find_send_def

lemma demo_ipc_boot: "ipc_boot demo_ipc0"
  by (simp add: ipc_boot_def demo_ipc0_def demo_space_def demo_port_def)

lemma run_create: "ipc_run k s s' \<Longrightarrow> ipc_run (Suc k) s (snd (snd (ipc_space_create t s')))"
  by (erule ipc_run.more) (rule ipc_step.space_create [of t _ "fst (ipc_space_create t s')" "fst (snd (ipc_space_create t s'))"], simp)

lemma demo_reach1: "ipc_reach demo_ipc1"
  unfolding ipc_reach_def demo_ipc1_def using demo_ipc_boot run_create [OF run_create [OF ipc_run.none]] by blast

lemma reach_step: "ipc_reach s \<Longrightarrow> ipc_step s s' \<Longrightarrow> ipc_reach s'"
  unfolding ipc_reach_def using ipc_run.more by blast

section \<open>Reachable states\<close>



lemma lookup_defined:
  assumes wf: "space_wf (i_spaces s n) fl"
  shows "\<exists>r. ipc_port_lookup (Some n) name right s = Some r"
proof -
  let ?e = "entry_at (i_spaces s n) (ipc_name_index name)"
  have "\<exists>p. as_port (ie_object ?e) = Some p" if "ie_bits ?e \<noteq> MACH_PORT_TYPE_NONE" "ie_object ?e \<noteq> None"
  proof -
    have "good_right (ie_object ?e, ie_bits ?e)" using space_wfD(8) [OF wf index_less [of name]] that by (auto simp: entry_ok_def split: if_splits)
    then show ?thesis using that by (cases "ie_object ?e") (auto simp: good_right_def as_port_def split: ie_ref.split)
  qed
  then show ?thesis by (force simp: ipc_port_lookup_def Let_def)
qed



section \<open>Lookup reads the table of rights\<close>

lemma lookup_none: "rights (i_spaces s n) (name AND 0xFFFF) = None \<Longrightarrow> ipc_port_lookup (Some n) name right s = Some None"
  by (auto simp: ipc_port_lookup_def Let_def rights_low linorder_not_le split: if_splits)

lemma unat_u8: "unat (g :: u8) < 256"
  using unsigned_less [of g, where ?'a = nat] by simp

lemma dead_name_gen: "ipc_name_gen MACH_PORT_NAME_DEAD \<noteq> ucast (g :: u8)"
proof
  assume "ipc_name_gen MACH_PORT_NAME_DEAD = ucast g"
  then have "unat (ipc_name_gen MACH_PORT_NAME_DEAD) = unat g" by simp
  moreover have "unat (ipc_name_gen MACH_PORT_NAME_DEAD) = 1023" by (simp add: ipc_name_gen_def MACH_PORT_NAME_DEAD_def)
  ultimately show False using unat_u8 [of g] by simp
qed

lemma lookup_some:
  assumes wf: "space_wf (i_spaces s n) fl" and act: "is_active (i_spaces s n)"
    and r: "rights (i_spaces s n) (name AND 0xFFFF) = Some (Some (IE_PORT p), bits)"
  shows "ipc_port_lookup (Some n) name right s =
    Some (if (right = 0 \<or> bits AND right \<noteq> 0) \<and> port_active p s then Some p else None)"
proof -
  let ?sp = "i_spaces s n" and ?i = "ipc_name_index name"
  have e: "?i < is_table_used ?sp" "gen_matches name ?sp" "ie_bits (entry_at ?sp ?i) \<noteq> MACH_PORT_TYPE_NONE"
    "ie_object (entry_at ?sp ?i) = Some (IE_PORT p)" "ie_bits (entry_at ?sp ?i) = bits"
    using r by (auto simp: rights_low split: if_splits)
  obtain i where i: "0 < i" "i < 64" "ipc_name_index name = word_of_nat i"
    using rights_SomeD [OF wf r] name_low_parts(1) [of name] by metis
  have "name \<noteq> MACH_PORT_NAME_NULL" using i unat_small [of i] by (force simp: MACH_PORT_NAME_NULL_def ipc_name_index_def)
  moreover have "name \<noteq> MACH_PORT_NAME_DEAD" using e(2) dead_name_gen by (auto simp: gen_matches_def)
  moreover have "?i < is_table_size ?sp" using index_less [of name] space_wfD(1) [OF wf] by (simp add: word_less_nat_alt)
  ultimately show ?thesis using e act by (simp add: ipc_port_lookup_def Let_def as_port_def not_le)
qed

lemma rights_canonical: "rights sp c = Some r \<Longrightarrow> c AND 0xFFFF = c"
proof -
  assume "rights sp c = Some r"
  then have c: "c = name_of sp (unat (ipc_name_index c))" by (auto simp: rights_def Let_def split: if_splits)
  then have "gen_matches c sp" by (metis gen_matches_def name_of_gen)
  then show ?thesis using c by (simp add: gen_matches_iff)
qed

section \<open>New ports\<close>

text \<open>Allocating a port in an active space succeeds under a name that named nothing before; then the name
  stands for a send and receive right to the new port and finds it, whichever of these rights is asked for;
  every other name of the space means what it meant, no other space changes, and the port has one reference
  and an empty queue. The call fails only with \<^verbatim>\<open>CHIMERA_ERR_NOMEM\<close>, leaving all names alone, and only if
  the arena is exhausted or the space already has 63 names.\<close>
theorem ipc_port_alloc_correct:
  assumes "ipc_reach s" and act: "is_active (i_spaces s n)" and a: "ipc_port_alloc n label s = Some (err, r, s')"
  shows "(err = CHIMERA_SUCCESS \<and> (\<exists>name p. r = Some name \<and> rights (i_spaces s n) name = None \<and>
        rights (i_spaces s' n) = (rights (i_spaces s n))(name \<mapsto> (Some (IE_PORT p), MACH_PORT_TYPE_SEND_RECEIVE)) \<and>
        (\<forall>m. m \<noteq> n \<longrightarrow> i_spaces s' m = i_spaces s m) \<and> ip_references (i_ports s' p) = 1 \<and>
        imq_messages (ip_messages (i_ports s' p)) = None \<and>
        (\<forall>right \<in> {0, MACH_PORT_TYPE_SEND, MACH_PORT_TYPE_RECEIVE}. ipc_port_lookup (Some n) name right s' = Some (Some p)))) \<or>
    (err = CHIMERA_ERR_NOMEM \<and> r = None \<and> i_spaces s' = i_spaces s \<and>
        (fst (port_arena_alloc s) = None \<or> card (dom (rights (i_spaces s n))) = 63))"
proof -
  have inv: "ipc_inv s" using reach_inv [OF assms(1)] .
  then obtain fl where wf: "space_wf (i_spaces s n) fl" using spaces_okD [OF _ act] by (auto simp: ipc_inv_def)
  then have ex: "\<exists>fl. space_wf (i_spaces s n) fl" by blast
  from a show ?thesis
  proof (cases rule: port_alloc_cases)
    case nomem
    then show ?thesis using arena_alloc_same [OF nomem(3)] by (simp add: same_names_def)
  next
    case (inactive p s1)
    then show ?thesis using act by simp
  next
    case (full p s1 sp')
    have "sp' = i_spaces s n" by (rule alloc_name_null [OF ex full(4)])
    then have "i_spaces s' = i_spaces s"
      using full(6) arena_alloc_same [OF full(3)] by (simp add: same_names_def ipc_port_init_internal_def)
    moreover have "enter_right (None, 0) (i_spaces s n) = None" using full(4) by (simp add: enter_right_def)
    then have "card (dom (rights (i_spaces s n))) = 63" using names.enter_full [OF ex] by blast
    ultimately show ?thesis using full(1,2) by simp
  next
    case (entered p s1 c sp')
    have sp: "i_spaces s1 = i_spaces s" using arena_alloc_same [OF entered(3)] by (simp add: same_names_def)
    have sp': "i_spaces s' = (i_spaces s)(n := sp')" by (simp add: entered(6) ipc_port_init_internal_def sp)
    have e: "\<exists>fl. space_wf sp' fl" "rights (i_spaces s n) c = None"
      "rights sp' = (rights (i_spaces s n))(c \<mapsto> (Some (IE_PORT p), MACH_PORT_TYPE_SEND_RECEIVE))"
      using names.enter_ok [OF ex good_rights(1) entered(5)] by auto
    have q: "ip_references (i_ports s' p) = 1" "imq_messages (ip_messages (i_ports s' p)) = None" "port_active p s'"
      by (simp_all add: entered(6) ipc_port_init_internal_def)
    obtain fl' where wf': "space_wf (i_spaces s' n) fl'" using e(1) by (auto simp: sp')
    have r: "rights (i_spaces s' n) c = Some (Some (IE_PORT p), MACH_PORT_TYPE_SEND_RECEIVE)" by (simp add: sp' e(3))
    have low: "c AND 0xFFFF = c" by (rule rights_canonical [OF r])
    have "is_active (i_spaces s' n)" using enter_frame [OF entered(5)] act by (simp add: sp')
    then have "ipc_port_lookup (Some n) c right s' = Some (Some p)" if "right \<in> {0, MACH_PORT_TYPE_SEND, MACH_PORT_TYPE_RECEIVE}" for right
      using lookup_some [OF wf', of c p MACH_PORT_TYPE_SEND_RECEIVE right] r low q(3) that by auto
    then show ?thesis using entered(1,2) e(2,3) q sp' by auto
  qed
qed

theorem ipc_port_alloc_correct_witness:
  "ipc_reach demo_ipc1 \<and> is_active (i_spaces demo_ipc1 0) \<and>
   (\<exists>name p s'. ipc_port_alloc 0 ''demo'' demo_ipc1 = Some (CHIMERA_SUCCESS, Some name, s') \<and>
      ipc_port_lookup (Some 0) name MACH_PORT_TYPE_RECEIVE s' = Some (Some p))"
proof -
  have a: "is_active (i_spaces demo_ipc1 0)" by (simp add: demo_ipc1_def ipc_space_create_def demo_ipc0_def Let_def word_le_nat_alt)
  obtain err r s' where al: "ipc_port_alloc 0 ''demo'' demo_ipc1 = Some (err, r, s')" and ok: "err = CHIMERA_SUCCESS"
    by (simp add: demo_ipc1_def ipc_space_create_def demo_ipc0_def demo_space_def Let_def word_le_nat_alt ipc_port_alloc_def
        port_arena_alloc_def IPC_PORT_ARENA_SIZE_def ipc_port_init_internal_def upd_port_def upd_space_def space_alloc_name_def
        IPC_SPACE_INITIAL_CAPACITY_def MACH_PORT_NAME_NULL_def ipc_name_make_def)
  show ?thesis using ipc_port_alloc_correct [OF demo_reach1 a al] ok a demo_reach1 al by auto
qed

section \<open>Stale names\<close>

text \<open>C16: When the last user reference of a name of an active space has been given back, the name is dead: in every
  state within the next 254 port operations, whatever they are and whichever rights reuse the entry, looking the
  name up finds nothing and deallocating it is refused. (The generation has 8 bits, so the bound is sharp: the
  entry can be back at the old generation one operation later.)\<close>
theorem stale_name_rejected:
  assumes "ipc_reach s" and act: "is_active (i_spaces s n)"
    and d: "mach_port_deallocate_kernel my_cpu (Some n) name s = Some (CHIMERA_SUCCESS, s1)"
    and last: "ie_urefs (entry_at (i_spaces s n) (ipc_name_index name)) = 1"
    and run: "ipc_run k s1 s2" "k \<le> 254"
  shows "ipc_port_lookup (Some n) name right s2 = Some None \<and>
    (is_active (i_spaces s2 n) \<longrightarrow> mach_port_deallocate_kernel cpu2 (Some n) name s2 = Some (CHIMERA_ERR_INVALID, s2))"
proof (cases "is_active (i_spaces s2 n)")
  case False
  then show ?thesis by (simp add: ipc_port_lookup_def Let_def)
next
  case act2: True
  let ?i = "unat (ipc_name_index name)"
  have inv: "ipc_inv s" using reach_inv [OF assms(1)] .
  have nx: "n < unat (s_space_next s)" using inv act by (simp add: ipc_inv_def spaces_ok_def)
  have adv: "advances s s1" and inv1: "ipc_inv s1" using deallocate_advances [OF inv d] deallocate_inv [OF inv d] .
  have g: "gen_matches name (i_spaces s n)"
    and g1: "ie_gen (is_table (i_spaces s1 n) ?i) = ie_gen (is_table (i_spaces s n) ?i) + 1"
  proof -
    have r: "rights (i_spaces s n) (name AND 0xFFFF) \<noteq> None" using d by (cases rule: deallocate_cases) auto
    then show "gen_matches name (i_spaces s n)" by (auto simp: rights_low split: if_splits)
    show "ie_gen (is_table (i_spaces s1 n) ?i) = ie_gen (is_table (i_spaces s n) ?i) + 1"
      using d
    proof (cases rule: deallocate_cases)
      case (fewer m)
      then show ?thesis using last by simp
    next
      case (bare m bits)
      then show ?thesis by (simp add: drop_gen)
    next
      case (port m p bits)
      then show ?thesis using drop_right_gen(1) [OF inv act, of "name AND 0xFFFF"] by simp
    qed simp
  qed
  have "unat (s_space_next s) \<le> unat (s_space_next s1)" using adv by (simp add: advances_def word_le_nat_alt)
  then obtain m where m: "m \<le> k" "ie_gen (is_table (i_spaces s2 n) ?i) = ie_gen (is_table (i_spaces s1 n) ?i) + word_of_nat m"
    using run_generation [OF run(1) inv1 act2 _ index_less] nx by auto
  have "ie_gen (is_table (i_spaces s2 n) ?i) \<noteq> ie_gen (is_table (i_spaces s n) ?i)"
  proof
    assume "ie_gen (is_table (i_spaces s2 n) ?i) = ie_gen (is_table (i_spaces s n) ?i)"
    then have "(word_of_nat (m + 1) :: u8) = 0" by (simp add: m g1 algebra_simps)
    then have "unat (word_of_nat (m + 1) :: u8) = 0" by (simp only: unsigned_0)
    moreover have "unat (word_of_nat (m + 1) :: u8) = m + 1"
      unfolding unsigned_of_nat of_nat_id by (rule take_bit_nat_eq_self) (use m(1) run(2) in simp)
    ultimately show False by simp
  qed
  then have "\<not> gen_matches name (i_spaces s2 n)" using g by (simp add: gen_matches_def)
  then show ?thesis
    by (simp add: ipc_port_lookup_def mach_port_deallocate_kernel_def Let_def)
qed

text \<open>A dead-name right under name 1 of the first space, given back and allocated anew.\<close>
definition demo_ipc3 :: ipc_state where
  "demo_ipc3 = snd (snd (the (mach_port_allocate_kernel (Some 0) MACH_PORT_RIGHT_DEAD_NAME True demo_ipc1)))"

definition demo_ipc4 :: ipc_state where
  "demo_ipc4 = snd (the (mach_port_deallocate_kernel 0 (Some 0) 1 demo_ipc3))"

lemma demo_ipc3_fields:
  "mach_port_allocate_kernel (Some 0) MACH_PORT_RIGHT_DEAD_NAME True demo_ipc1 \<noteq> None"
  "is_active (i_spaces demo_ipc3 0)" "is_table_used (i_spaces demo_ipc3 0) = 2"
  "is_table (i_spaces demo_ipc3 0) (Suc 0) = \<lparr>ie_object = None, ie_bits = MACH_PORT_TYPE_DEAD_NAME, ie_urefs = 1, ie_gen = 0\<rparr>"
  by (simp_all add: demo_ipc3_def demo_ipc1_def demo_eval)

theorem stale_name_rejected_witness:
  "ipc_reach demo_ipc3 \<and> is_active (i_spaces demo_ipc3 0) \<and>
   mach_port_deallocate_kernel 0 (Some 0) 1 demo_ipc3 = Some (CHIMERA_SUCCESS, demo_ipc4) \<and>
   (\<exists>s2. ipc_run 1 demo_ipc4 s2 \<and> ipc_port_lookup (Some 0) 1 0 s2 = Some None)"
proof -
  obtain e x s' where al: "mach_port_allocate_kernel (Some 0) MACH_PORT_RIGHT_DEAD_NAME True demo_ipc1 = Some (e, x, s')"
    using demo_ipc3_fields(1) by auto
  have r: "ipc_reach demo_ipc3"
    using reach_step [OF demo_reach1 ipc_step.allocate [OF al]] by (simp add: demo_ipc3_def al)
  have d: "mach_port_deallocate_kernel 0 (Some 0) 1 demo_ipc3 = Some (CHIMERA_SUCCESS, demo_ipc4)"
    by (simp add: demo_ipc4_def mach_port_deallocate_kernel_def demo_ipc3_fields ipc_name_index_def ipc_name_gen_def gen_matches_def
        MACH_PORT_NAME_NULL_def MACH_PORT_NAME_DEAD_def MACH_PORT_TYPE_DEAD_NAME_def MACH_PORT_TYPE_NONE_def Let_def word_le_nat_alt)
  have u: "ie_urefs (entry_at (i_spaces demo_ipc3 0) (ipc_name_index 1)) = 1" by (simp add: ipc_name_index_def demo_ipc3_fields)
  have run: "ipc_run 1 demo_ipc4 (ipc_port_reference 0 demo_ipc4)" using ipc_run.more [OF ipc_run.none ipc_step.reference] by simp
  show ?thesis using stale_name_rejected [OF r demo_ipc3_fields(2) d u run, of 0] r d run demo_ipc3_fields(2) by auto
qed

section \<open>Handing out send rights\<close>

lemma small_name_gen: "i < 64 \<Longrightarrow> ipc_name_gen (word_of_nat i) = 0"
  using name_gen_make [of 0 "word_of_nat i"] by (simp add: ipc_name_make_def)

text \<open>C33: If the space already holds a send right to the port, \<^verbatim>\<open>ipc_port_copyout_send\<close> returns the bare index of
  its entry. Once the entry has been reused (its generation is not 0) this is not the name of the right: the
  receiver is given a name that finds nothing.\<close>
theorem copyout_send_bare_index:
  assumes "ipc_reach s" and "is_active (i_spaces s n)" and "ip_receiver (i_ports s p) \<noteq> Some n"
    and f: "find_send p (i_spaces s n) = Some i" and g: "ie_gen (is_table (i_spaces s n) i) \<noteq> 0"
    and c: "ipc_port_copyout_send (Some n) (Some p) s = Some (name, s')"
  shows "name = word_of_nat i \<and> name \<noteq> name_of (i_spaces s n) i \<and> ipc_port_lookup (Some n) name right s' = Some None"
proof -
  obtain fl where wf: "space_wf (i_spaces s n) fl" using spaces_okD [OF _ assms(2)] reach_inv [OF assms(1)] by (auto simp: ipc_inv_def)
  have "i < unat (is_table_used (i_spaces s n))" using f by (auto simp: find_send_def find_Some_iff)
  then have i: "i < 64" using space_wfD(3) [OF wf] by simp
  have r: "name = word_of_nat i" "s' = upd_space n (upd_entry (word_of_nat i) (\<lambda>e. e\<lparr>ie_urefs := ie_urefs e + 1\<rparr>)) s"
    using c f assms(3) by (auto simp: ipc_port_copyout_send_def)
  have ng: "\<not> gen_matches name sp" if "ie_gen (is_table sp i) \<noteq> 0" for sp
  proof -
    have "(ucast (ie_gen (is_table sp i)) :: u32) \<noteq> ucast (0 :: u8)" using that by (simp only: ucast_gen_inj not_False_eq_True)
    moreover have "unat (ipc_name_index (word_of_nat i)) = i" using i by (simp add: ipc_name_index_def)
    ultimately show ?thesis by (simp add: gen_matches_def r(1) small_name_gen [OF i])
  qed
  have "name \<noteq> name_of (i_spaces s n) i"
  proof
    assume "name = name_of (i_spaces s n) i"
    then have "gen_matches name (i_spaces s n)" using i by (simp add: gen_matches_def)
    then show False using ng [OF g] by simp
  qed
  moreover have "\<not> gen_matches name (i_spaces s' n)" by (rule ng) (simp add: r(2) upd_entry_def g)
  then have "ipc_port_lookup (Some n) name right s' = Some None" by (simp add: ipc_port_lookup_def Let_def)
  ultimately show ?thesis using r(1) by blast
qed

text \<open>A send right handed to another space takes no reference on the port, but giving it back releases one.
  So if space \<open>m\<close> holds the receive right of a port with its one reference, and the port is copied out to
  space \<open>n\<close> and deallocated there, the port is put on the arena's free list while \<open>m\<close> still resolves it as an
  active port: the next port allocated anywhere is the same object.\<close>
theorem send_right_frees_live_port:
  assumes "ipc_reach s" and act: "is_active (i_spaces s n)" "is_active (i_spaces s m)"
    and p: "port_active p s" "ip_receiver (i_ports s p) = Some m" "m \<noteq> n" "p < IPC_PORT_ARENA_SIZE" "ip_references (i_ports s p) = 1"
    and none: "find_send p (i_spaces s n) = None"
    and c: "ipc_port_copyout_send (Some n) (Some p) s = Some (name, s1)" "name \<noteq> MACH_PORT_NAME_NULL"
    and d: "mach_port_deallocate_kernel my_cpu (Some n) name s1 = Some (err, s2)"
  shows "err = CHIMERA_SUCCESS \<and> s_port_free_list s2 = Some p \<and> fst (port_arena_alloc s2) = Some p \<and>
    ipc_port_lookup (Some m) (ip_receiver_name (i_ports s p)) MACH_PORT_TYPE_RECEIVE s2 = Some (Some p)"
proof -
  have inv: "ipc_inv s" using reach_inv [OF assms(1)] .
  have ex: "\<exists>fl. space_wf (i_spaces s n) fl" using spaces_okD [OF _ act(1)] inv by (auto simp: ipc_inv_def)
  obtain fm where wfm: "space_wf (i_spaces s m) fm" using spaces_okD [OF _ act(2)] inv by (auto simp: ipc_inv_def)
  obtain c0 sp0 where al: "space_alloc_name (i_spaces s n) = Some (c0, sp0)" using alloc_name_total [OF ex] by blast
  define sp' where "sp' = upd_entry (ipc_name_index name) (\<lambda>e. e\<lparr>ie_object := Some (IE_PORT p), ie_bits := MACH_PORT_TYPE_SEND, ie_urefs := 1\<rparr>) sp0"
  have s1: "c0 = name" "s1 = upd_port p (\<lambda>q. q\<lparr>ip_srights := ip_srights q + 1\<rparr>) (upd_space n (\<lambda>_. sp') s)"
    using c none p(2,3) al by (auto simp: ipc_port_copyout_send_def sp'_def Let_def split: if_splits)
  have e: "enter_right (Some (IE_PORT p), MACH_PORT_TYPE_SEND) (i_spaces s n) = Some (name, sp')"
    using al s1(1) c(2) by (simp add: enter_right_def sp'_def)
  then have r: "rights sp' name = Some (Some (IE_PORT p), MACH_PORT_TYPE_SEND)" using names.enter_finds(1) [OF ex good_rights(2)] by blast
  then have low: "name AND 0xFFFF = name" by (rule rights_canonical)
  have u: "ie_urefs (entry_at (i_spaces s1 n) (ipc_name_index name)) = 1" by (simp add: s1(2) sp'_def upd_entry_def)
  have r1: "rights (i_spaces s1 n) (name AND 0xFFFF) = Some (Some (IE_PORT p), MACH_PORT_TYPE_SEND)" by (simp add: s1(2) low r)
  have dd: "err = CHIMERA_SUCCESS \<and> drop_right my_cpu n MACH_PORT_TYPE_SEND p (upd_space n (drop_name name) s1) = Some s2"
    using d
  proof (cases rule: deallocate_cases)
    case refused
    have "ipc_name_index name < is_table_used (i_spaces s1 n) \<and> gen_matches name (i_spaces s1 n) \<and>
      ie_bits (entry_at (i_spaces s1 n) (ipc_name_index name)) \<noteq> MACH_PORT_TYPE_NONE" using r1 by (auto simp: rights_low split: if_splits)
    then show ?thesis using d refused u c(2) dead_name_gen by (auto simp: mach_port_deallocate_kernel_def Let_def gen_matches_def bind_eq_Some_conv split: if_splits)
  next
    case (fewer k)
    then show ?thesis using u by simp
  next
    case (bare k bits)
    then show ?thesis using r1 by simp
  next
    case (port k q bits)
    then show ?thesis using r1 by (simp add: low)
  qed
  have bits: "MACH_PORT_TYPE_SEND AND MACH_PORT_TYPE_RECEIVE = 0" "MACH_PORT_TYPE_SEND AND MACH_PORT_TYPE_SEND \<noteq> 0"
    by (simp_all add: MACH_PORT_TYPE_SEND_def MACH_PORT_TYPE_RECEIVE_def)
  define s3 where "s3 = upd_port p (\<lambda>q. if ip_srights q > 0 then q\<lparr>ip_srights := ip_srights q - 1\<rparr> else q) (upd_space n (drop_name name) s1)"
  have s2: "s2 = ipc_port_release p s3" using dd bits by (auto simp: drop_right_def s3_def split: if_splits)
  have s3: "ip_references (i_ports s3 p) = 1" "i_spaces s3 m = i_spaces s m" "port_active p s3"
    using p by (simp_all add: s3_def s1(2))
  then have fl: "s_port_free_list s2 = Some p" using p(4) by (simp add: s2 ipc_port_release_def Let_def port_arena_free_def)
  have sn: "i_spaces s2 m = i_spaces s m" "port_active p s2" using release_same [of s3 p] s3 by (auto simp: s2 same_names_def port_key_def)
  obtain b where b: "rights (i_spaces s m) (ip_receiver_name (i_ports s p)) = Some (Some (IE_PORT p), b)" "b AND MACH_PORT_TYPE_RECEIVE \<noteq> 0"
    using inv p act(2) by (auto simp: ipc_inv_def port_ok_def receives_def)
  have "ipc_port_lookup (Some m) (ip_receiver_name (i_ports s p)) MACH_PORT_TYPE_RECEIVE s2 = Some (Some p)"
    using lookup_some [of s2 m fm "ip_receiver_name (i_ports s p)" p b MACH_PORT_TYPE_RECEIVE] wfm act(2) b sn rights_canonical [OF b(1)] by simp
  then show ?thesis using dd fl by (simp add: port_arena_alloc_def)
qed

text \<open>The port of the first space and the second space, before and after the second space has reused entry 1 for a send
  right to it.\<close>
definition demo_ipc5 :: ipc_state where
  "demo_ipc5 = snd (snd (the (mach_port_allocate_kernel (Some (Suc 0)) MACH_PORT_RIGHT_DEAD_NAME True demo_ipc2)))"

definition demo_ipc6 :: ipc_state where
  "demo_ipc6 = snd (the (mach_port_deallocate_kernel 0 (Some (Suc 0)) 1 demo_ipc5))"

definition demo_ipc7 :: ipc_state where
  "demo_ipc7 = snd (the (ipc_port_copyout_send (Some (Suc 0)) (Some 0) demo_ipc6))"

lemma demo_ipc2_fields:
  "ipc_port_alloc 0 ''demo'' demo_ipc1 \<noteq> None"
  "is_active (i_spaces demo_ipc2 0)" "is_active (i_spaces demo_ipc2 (Suc 0))" "is_table_used (i_spaces demo_ipc2 (Suc 0)) = 1"
  "is_table_size (i_spaces demo_ipc2 (Suc 0)) = 64" "is_free_count (i_spaces demo_ipc2 (Suc 0)) = 0"
  "is_table (i_spaces demo_ipc2 (Suc 0)) i = \<lparr>ie_object = None, ie_bits = 0, ie_urefs = 0, ie_gen = 0\<rparr>"
  "port_active 0 demo_ipc2" "ip_receiver (i_ports demo_ipc2 0) = Some 0" "ip_references (i_ports demo_ipc2 0) = 1"
  by (simp_all add: demo_ipc2_def demo_ipc1_def demo_eval upd_space_def upd_port_def)

lemma demo_ipc2_copyout:
  "\<exists>s'. ipc_port_copyout_send (Some (Suc 0)) (Some 0) demo_ipc2 = Some (1, s') \<and> mach_port_deallocate_kernel 0 (Some (Suc 0)) 1 s' \<noteq> None"
  by (simp add: demo_eval demo_ipc2_fields drop_right_def)

theorem send_right_frees_live_port_witness:
  "\<exists>s1 s2. ipc_port_copyout_send (Some (Suc 0)) (Some 0) demo_ipc2 = Some (1, s1) \<and>
     mach_port_deallocate_kernel 0 (Some (Suc 0)) 1 s1 = Some (CHIMERA_SUCCESS, s2) \<and> fst (port_arena_alloc s2) = Some 0 \<and>
     ipc_port_lookup (Some 0) (ip_receiver_name (i_ports demo_ipc2 0)) MACH_PORT_TYPE_RECEIVE s2 = Some (Some 0)"
proof -
  obtain e x s' where al: "ipc_port_alloc 0 ''demo'' demo_ipc1 = Some (e, x, s')" using demo_ipc2_fields(1) by auto
  have r: "ipc_reach demo_ipc2" using reach_step [OF demo_reach1 ipc_step.port_alloc [OF al]] by (simp add: demo_ipc2_def al)
  obtain s1 err s2 where c: "ipc_port_copyout_send (Some (Suc 0)) (Some 0) demo_ipc2 = Some (1, s1)"
    and d: "mach_port_deallocate_kernel 0 (Some (Suc 0)) 1 s1 = Some (err, s2)" using demo_ipc2_copyout by auto
  have f: "find_send 0 (i_spaces demo_ipc2 (Suc 0)) = None" by (simp add: find_send_def demo_ipc2_fields)
  show ?thesis
    using send_right_frees_live_port [OF r demo_ipc2_fields(3,2,8,9) _ _ demo_ipc2_fields(10) f c _ d] c d
    by (auto simp: IPC_PORT_ARENA_SIZE_def MACH_PORT_NAME_NULL_def)
qed

lemma demo_ipc5_fields:
  "mach_port_allocate_kernel (Some (Suc 0)) MACH_PORT_RIGHT_DEAD_NAME True demo_ipc2 \<noteq> None"
  "is_active (i_spaces demo_ipc5 (Suc 0))" "is_table_used (i_spaces demo_ipc5 (Suc 0)) = 2"
  "is_table_size (i_spaces demo_ipc5 (Suc 0)) = 64" "is_free_count (i_spaces demo_ipc5 (Suc 0)) = 0"
  "is_table (i_spaces demo_ipc5 (Suc 0)) (Suc 0) = \<lparr>ie_object = None, ie_bits = MACH_PORT_TYPE_DEAD_NAME, ie_urefs = 1, ie_gen = 0\<rparr>"
  "i_ports demo_ipc5 = i_ports demo_ipc2"
  by (simp_all add: demo_ipc5_def demo_eval demo_ipc2_fields)

lemma demo_ipc6_fields:
  "mach_port_deallocate_kernel 0 (Some (Suc 0)) 1 demo_ipc5 \<noteq> None"
  "is_active (i_spaces demo_ipc6 (Suc 0))" "is_table_used (i_spaces demo_ipc6 (Suc 0)) = 2"
  "is_free_count (i_spaces demo_ipc6 (Suc 0)) = 1" "is_free_head (i_spaces demo_ipc6 (Suc 0)) = 65"
  "ie_gen (is_table (i_spaces demo_ipc6 (Suc 0)) (Suc 0)) = 1" "ie_bits (is_table (i_spaces demo_ipc6 (Suc 0)) (Suc 0)) = 0"
  "as_name (ie_object (is_table (i_spaces demo_ipc6 (Suc 0)) (Suc 0))) \<noteq> None"
  "i_ports demo_ipc6 = i_ports demo_ipc2"
  by (simp_all add: demo_ipc6_def demo_eval demo_ipc5_fields)

lemma demo_ipc7_fields:
  "ipc_port_copyout_send (Some (Suc 0)) (Some 0) demo_ipc6 \<noteq> None"
  "is_active (i_spaces demo_ipc7 (Suc 0))" "find_send 0 (i_spaces demo_ipc7 (Suc 0)) = Some (Suc 0)"
  "ie_gen (is_table (i_spaces demo_ipc7 (Suc 0)) (Suc 0)) = 2" "ip_receiver (i_ports demo_ipc7 0) = Some 0"
proof -
  have u: "[Suc 0..<2] = [Suc 0]" by (simp add: upt_rec)
  obtain n where n: "as_name (ie_object (is_table (i_spaces demo_ipc6 (Suc 0)) (Suc 0))) = Some n" using demo_ipc6_fields(8) by auto
  have f: "find_send 0 (i_spaces demo_ipc6 (Suc 0)) = None" by (simp add: find_send_def u demo_ipc6_fields)
  have a: "space_alloc_name (i_spaces demo_ipc6 (Suc 0)) = Some (129, upd_entry 1 (\<lambda>e. e\<lparr>ie_gen := ie_gen e + 1\<rparr>)
      ((i_spaces demo_ipc6 (Suc 0))\<lparr>is_free_head := n, is_free_count := 0\<rparr>))"
    using n by (simp add: space_alloc_name_def demo_ipc6_fields Let_def MACH_PORT_NAME_NULL_def ipc_name_index_def ipc_name_make_def upd_entry_def)
  show "ipc_port_copyout_send (Some (Suc 0)) (Some 0) demo_ipc6 \<noteq> None" "is_active (i_spaces demo_ipc7 (Suc 0))"
    "find_send 0 (i_spaces demo_ipc7 (Suc 0)) = Some (Suc 0)"
    "ie_gen (is_table (i_spaces demo_ipc7 (Suc 0)) (Suc 0)) = 2" "ip_receiver (i_ports demo_ipc7 0) = Some 0"
    by (simp_all add: demo_ipc7_def ipc_port_copyout_send_def f a demo_ipc6_fields demo_ipc2_fields Let_def MACH_PORT_NAME_NULL_def
        ipc_name_index_def upd_entry_def find_send_def u MACH_PORT_TYPE_SEND_def)
qed

theorem copyout_send_bare_index_witness:
  "ipc_reach demo_ipc7 \<and> find_send 0 (i_spaces demo_ipc7 (Suc 0)) = Some (Suc 0) \<and>
   (\<exists>s'. ipc_port_copyout_send (Some (Suc 0)) (Some 0) demo_ipc7 = Some (1, s') \<and> ipc_port_lookup (Some (Suc 0)) 1 MACH_PORT_TYPE_SEND s' = Some None)"
proof -
  obtain e x s' where al: "ipc_port_alloc 0 ''demo'' demo_ipc1 = Some (e, x, s')" using demo_ipc2_fields(1) by auto
  have r2: "ipc_reach demo_ipc2" using reach_step [OF demo_reach1 ipc_step.port_alloc [OF al]] by (simp add: demo_ipc2_def al)
  obtain e x s' where al: "mach_port_allocate_kernel (Some (Suc 0)) MACH_PORT_RIGHT_DEAD_NAME True demo_ipc2 = Some (e, x, s')"
    using demo_ipc5_fields(1) by auto
  have r5: "ipc_reach demo_ipc5" using reach_step [OF r2 ipc_step.allocate [OF al]] by (simp add: demo_ipc5_def al)
  obtain e s' where al: "mach_port_deallocate_kernel 0 (Some (Suc 0)) 1 demo_ipc5 = Some (e, s')" using demo_ipc6_fields(1) by auto
  have r6: "ipc_reach demo_ipc6" using reach_step [OF r5 ipc_step.deallocate [OF al]] by (simp add: demo_ipc6_def al)
  obtain e s' where al: "ipc_port_copyout_send (Some (Suc 0)) (Some 0) demo_ipc6 = Some (e, s')" using demo_ipc7_fields(1) by auto
  have r7: "ipc_reach demo_ipc7" using reach_step [OF r6 ipc_step.copyout_send [OF al]] by (simp add: demo_ipc7_def al)
  have "ip_receiver (i_ports demo_ipc7 0) \<noteq> Some (Suc 0)" "ie_gen (is_table (i_spaces demo_ipc7 (Suc 0)) (Suc 0)) \<noteq> 0"
    by (simp_all add: demo_ipc7_fields)
  note * = copyout_send_bare_index [OF r7 demo_ipc7_fields(2) this(1) demo_ipc7_fields(3) this(2)]
  obtain name s' where c: "ipc_port_copyout_send (Some (Suc 0)) (Some 0) demo_ipc7 = Some (name, s')"
    by (simp add: ipc_port_copyout_send_def demo_ipc7_fields)
  show ?thesis using * [OF c] c r7 demo_ipc7_fields(3) by auto
qed

end
