(* ===== verification/Ipc_Mqueue_Props.thy ===== *)
theory Ipc_Mqueue_Props
  imports Ipc_Mqueue Ipc_Props Dll
begin

text \<open>
  Properties of the message queues: the linked messages form a queue bounded by the port's limit; in
  any interleaving of senders and receivers, blocked or not, messages are delivered in the order they
  were accepted, with consecutive sequence numbers. The recursion between the queue and the kernel
  objects ends after one reply.
\<close>

unbundle bit_operations_syntax

section \<open>The linked queue\<close>

abbreviation knext :: "ipc_state \<Rightarrow> kmsg_ptr \<Rightarrow> kmsg_ptr option" where "knext s \<equiv> \<lambda>k. ikm_next (i_kmsg s k)"
abbreviation kprev :: "ipc_state \<Rightarrow> kmsg_ptr \<Rightarrow> kmsg_ptr option" where "kprev s \<equiv> \<lambda>k. ikm_prev (i_kmsg s k)"
abbreviation mqueue :: "ipc_state \<Rightarrow> nat \<Rightarrow> ipc_mqueue" where "mqueue s p \<equiv> ip_messages (i_ports s p)"

definition mq_ok :: "ipc_state \<Rightarrow> nat \<Rightarrow> kmsg_ptr list \<Rightarrow> bool" where
  "mq_ok s p ks \<longleftrightarrow> dl (knext s) (kprev s) None (imq_messages (mqueue s p)) ks \<and> distinct ks \<and>
     imq_messages_tail (mqueue s p) = (if ks = [] then None else Some (last ks)) \<and> unat (imq_msgcount (mqueue s p)) = length ks"

lemma upd_mq_simps [simp]:
  "i_ports (upd_mq p f s) = (i_ports s)(p := (i_ports s p)\<lparr>ip_messages := f (mqueue s p)\<rparr>)" "i_kmsg (upd_mq p f s) = i_kmsg s"
  "i_sched (upd_mq p f s) = i_sched s"
  by (simp_all add: upd_mq_def)

lemma upd_kmsg_more [simp]: "i_kmsg (upd_kmsg k f s) = (i_kmsg s)(k := f (i_kmsg s k))" "i_sched (upd_kmsg k f s) = i_sched s"
  by (simp_all add: upd_kmsg_def)

lemma kmsg_enqueue_ok:
  assumes q: "mq_ok s p ks" and k: "k \<notin> set ks" and lim: "imq_msgcount (mqueue s p) < imq_qlimit (mqueue s p)"
    and e: "enqueue_kmsg my_cpu p k s = Some s'"
  shows "mq_ok s' p (ks @ [k])" and "imq_seqno (mqueue s' p) = imq_seqno (mqueue s p) + 1"
    and "imq_qlimit (mqueue s' p) = imq_qlimit (mqueue s p)" and "ip_kobject (i_ports s' p) = ip_kobject (i_ports s p)"
    and "ikm_seqno (i_kmsg s' k) = imq_seqno (mqueue s p)" and "k' \<noteq> k \<Longrightarrow> ikm_seqno (i_kmsg s' k') = ikm_seqno (i_kmsg s k')"
proof -
  let ?mq = "mqueue s p"
  have tl: "imq_messages_tail ?mq = (if ks = [] then None else Some (last ks))"
    and d: "dl (knext s) (kprev s) None (imq_messages ?mq) ks" "distinct ks" and cnt: "unat (imq_msgcount ?mq) = length ks"
    using q by (simp_all add: mq_ok_def)
  have lk: "ks \<noteq> [] \<Longrightarrow> last ks \<noteq> k" using k last_in_set by metis
  have n: "knext s' = (if ks = [] then (knext s)(k := None) else (knext s)(k := None, last ks := Some k))"
    and v: "kprev s' = (kprev s)(k := if ks = [] then None else Some (last ks))"
    and h: "imq_messages (mqueue s' p) = (if ks = [] then Some k else imq_messages ?mq)" "imq_messages_tail (mqueue s' p) = Some k"
      "imq_msgcount (mqueue s' p) = imq_msgcount ?mq + 1"
    and r: "imq_seqno (mqueue s' p) = imq_seqno (mqueue s p) + 1" "imq_qlimit (mqueue s' p) = imq_qlimit (mqueue s p)"
      "ip_kobject (i_ports s' p) = ip_kobject (i_ports s p)" "ikm_seqno (i_kmsg s' k) = imq_seqno (mqueue s p)"
      "\<And>k'. k' \<noteq> k \<Longrightarrow> ikm_seqno (i_kmsg s' k') = ikm_seqno (i_kmsg s k')"
    using e tl lk by (auto simp: enqueue_kmsg_def Let_def bind_eq_Some_conv fun_eq_iff split: if_splits)
  have "unat (imq_msgcount ?mq + 1) = length ks + 1"
    using lim cnt unsigned_less [of "imq_qlimit ?mq", where ?'a = nat]
    by (subst unat_add_lem [THEN iffD1]) (simp_all add: word_less_nat_alt)
  then show "mq_ok s' p (ks @ [k])"
    using dl_snoc [OF d k] d(2) k by (simp add: mq_ok_def n v h)
  show "imq_seqno (mqueue s' p) = imq_seqno (mqueue s p) + 1" "imq_qlimit (mqueue s' p) = imq_qlimit (mqueue s p)"
    "ip_kobject (i_ports s' p) = ip_kobject (i_ports s p)" "ikm_seqno (i_kmsg s' k) = imq_seqno (mqueue s p)"
    "k' \<noteq> k \<Longrightarrow> ikm_seqno (i_kmsg s' k') = ikm_seqno (i_kmsg s k')"
    using r by auto
qed

lemma kmsg_dequeue_ok:
  assumes q: "mq_ok s p (k # ks)" and e: "dequeue_kmsg my_cpu p s = Some (k', s')"
  shows "k' = k" and "mq_ok s' p ks" and "imq_seqno (mqueue s' p) = imq_seqno (mqueue s p)"
    and "imq_qlimit (mqueue s' p) = imq_qlimit (mqueue s p)" and "ip_kobject (i_ports s' p) = ip_kobject (i_ports s p)"
    and "ikm_seqno (i_kmsg s' j) = ikm_seqno (i_kmsg s j)"
proof -
  have d: "imq_messages (mqueue s p) = Some k" "dl (knext s) (kprev s) (Some k) (knext s k) ks" "distinct ks" "k \<notin> set ks"
    and cnt: "unat (imq_msgcount (mqueue s p)) = Suc (length ks)" and tl: "imq_messages_tail (mqueue s p) = Some (last (k # ks))"
    using q by (auto simp: mq_ok_def)
  have nk: "knext s k = (case ks of [] \<Rightarrow> None | x # _ \<Rightarrow> Some x)" using dl_head [OF d(2)] .
  have h: "k' = k" "knext s' = (knext s)(k := None)"
    "kprev s' = (if ks = [] then (kprev s)(k := None) else (kprev s)(hd ks := None, k := None))"
    "imq_messages (mqueue s' p) = knext s k" "imq_messages_tail (mqueue s' p) = (if ks = [] then None else Some (last ks))"
    "imq_msgcount (mqueue s' p) = imq_msgcount (mqueue s p) - 1" "imq_seqno (mqueue s' p) = imq_seqno (mqueue s p)"
    "imq_qlimit (mqueue s' p) = imq_qlimit (mqueue s p)" "ip_kobject (i_ports s' p) = ip_kobject (i_ports s p)"
    "\<And>j. ikm_seqno (i_kmsg s' j) = ikm_seqno (i_kmsg s j)"
    using e d(1,4) tl nk by (auto simp: dequeue_kmsg_def Let_def bind_eq_Some_conv fun_eq_iff split: list.splits option.splits if_splits)
  have "imq_msgcount (mqueue s p) \<noteq> 0" using cnt by auto
  then have c: "unat (imq_msgcount (mqueue s p) - 1) = length ks" using cnt by (simp add: unat_minus_one)
  have "dl (knext s') (kprev s') None (knext s k) ks"
  proof (cases ks)
    case (Cons x xs)
    then have x: "dl (knext s) (kprev s) (Some x) (knext s x) xs" "x \<noteq> k" "x \<notin> set xs" "k \<notin> set xs" using d by auto
    have "dl (knext s') (kprev s') (Some x) (knext s x) xs = dl (knext s) (kprev s) (Some x) (knext s x) xs"
      by (rule dl_cong) (use x Cons fun_cong [OF h(2)] fun_cong [OF h(3)] in auto)
    then show ?thesis using x Cons nk by (simp add: h(2,3))
  qed (simp add: nk)
  then show "mq_ok s' p ks" using d(3) c h by (simp add: mq_ok_def)
qed (use assms in \<open>auto simp: mq_ok_def dequeue_kmsg_def Let_def bind_eq_Some_conv split: option.splits if_splits\<close>)

section \<open>What a call does to a queue\<close>

text \<open>Everything of the queue but its waiters.\<close>
definition keeps_queue :: "nat \<Rightarrow> ipc_state \<Rightarrow> ipc_state \<Rightarrow> bool" where
  "keeps_queue p s s' \<longleftrightarrow> (\<forall>k. ikm_next (i_kmsg s' k) = ikm_next (i_kmsg s k) \<and> ikm_prev (i_kmsg s' k) = ikm_prev (i_kmsg s k) \<and>
       ikm_seqno (i_kmsg s' k) = ikm_seqno (i_kmsg s k)) \<and>
     imq_messages (mqueue s' p) = imq_messages (mqueue s p) \<and> imq_messages_tail (mqueue s' p) = imq_messages_tail (mqueue s p) \<and>
     imq_msgcount (mqueue s' p) = imq_msgcount (mqueue s p) \<and> imq_qlimit (mqueue s' p) = imq_qlimit (mqueue s p) \<and>
     imq_seqno (mqueue s' p) = imq_seqno (mqueue s p) \<and> ip_kobject (i_ports s' p) = ip_kobject (i_ports s p)"

lemma keeps_queue_refl [simp]: "keeps_queue p s s"
  by (simp add: keeps_queue_def)

lemma keeps_queue_ok: "keeps_queue p s s' \<Longrightarrow> mq_ok s' p ks = mq_ok s p ks"
  unfolding mq_ok_def keeps_queue_def by (subst dl_cong [of ks "knext s'" "knext s" "kprev s'" "kprev s"]) auto

lemma send_sleep_keeps: "send_sleep my_cpu p k deadline s = Some (call, s') \<Longrightarrow> call = MQ_SEND p k deadline \<and> keeps_queue p s s'"
  by (auto simp: send_sleep_def bind_eq_Some_conv keeps_queue_def)

text \<open>A send call or its continuation either enqueues and returns success, or leaves the queue.\<close>
lemma send_effect:
  assumes "ip_kobject (i_ports s p) = None"
    and "ipc_mqueue_send my_cpu port_name now p k timeout s = Some (call, s') \<or> send_resume my_cpu now p k deadline s = Some (call, s')"
  shows "call = MQ_DONE CHIMERA_SUCCESS None \<and> imq_msgcount (mqueue s p) < imq_qlimit (mqueue s p) \<and> enqueue_kmsg my_cpu p k s = Some s'
    \<or> call \<noteq> MQ_DONE CHIMERA_SUCCESS None \<and> keeps_queue p s s'"
  using assms
  by (auto simp: ipc_mqueue_send_def send_resume_def mqueue_send_now_def Let_def bind_eq_Some_conv not_le split: if_splits
      dest: send_sleep_keeps)

lemma receive_effect:
  assumes "receive_iter my_cpu now p timeout deadline s = Some (call, s')"
  shows "(\<exists>k. call = MQ_DONE CHIMERA_SUCCESS (Some k) \<and> 0 < imq_msgcount (mqueue s p) \<and> dequeue_kmsg my_cpu p s = Some (k, s'))
    \<or> (\<forall>e k. call \<noteq> MQ_DONE e (Some k)) \<and> keeps_queue p s s'"
  using assms by (auto simp: receive_iter_def Let_def bind_eq_Some_conv keeps_queue_def split: if_splits)

section \<open>Interleavings\<close>

text \<open>Runs on the queue of one port. A step is the first part of a send or receive call, the continuation of a sleeping
  one, or anything that leaves this queue alone. \<open>sent\<close> collects the accepted messages with the number they were given,
  \<open>rcvd\<close> the delivered ones with the number they carry. A message is sent only by whoever owns its buffer: it is not
  queued at the time.\<close>
inductive mq_exec :: "nat \<Rightarrow> ipc_state \<Rightarrow> (kmsg_ptr \<times> u32) list \<Rightarrow> (kmsg_ptr \<times> u32) list \<Rightarrow> ipc_state \<Rightarrow> bool" where
  start: "mq_exec p s [] [] s"
| send: "mq_exec p s0 sent rcvd s \<Longrightarrow> k \<notin> fst ` set (drop (length rcvd) sent) \<Longrightarrow>
    ipc_mqueue_send my_cpu port_name now p k timeout s = Some (call, s') \<or> send_resume my_cpu now p k deadline s = Some (call, s') \<Longrightarrow>
    mq_exec p s0 (sent @ (if call = MQ_DONE CHIMERA_SUCCESS None then [(k, imq_seqno (mqueue s p))] else [])) rcvd s'"
| receive: "mq_exec p s0 sent rcvd s \<Longrightarrow> receive_iter my_cpu now p timeout deadline s = Some (call, s') \<Longrightarrow>
    mq_exec p s0 sent (rcvd @ (case call of MQ_DONE e (Some k) \<Rightarrow> [(k, ikm_seqno (i_kmsg s' k))] | _ \<Rightarrow> [])) s'"
| other: "mq_exec p s0 sent rcvd s \<Longrightarrow> keeps_queue p s s' \<Longrightarrow> mq_exec p s0 sent rcvd s'"

text \<open>The queue holds what was accepted and not yet delivered.\<close>
definition mq_log :: "nat \<Rightarrow> ipc_state \<Rightarrow> (kmsg_ptr \<times> u32) list \<Rightarrow> (kmsg_ptr \<times> u32) list \<Rightarrow> ipc_state \<Rightarrow> bool" where
  "mq_log p s0 sent rcvd s \<longleftrightarrow> (\<exists>q. sent = rcvd @ q \<and> mq_ok s p (map fst q) \<and> (\<forall>x\<in>set q. ikm_seqno (i_kmsg s (fst x)) = snd x) \<and>
     length q \<le> unat (imq_qlimit (mqueue s p))) \<and> imq_qlimit (mqueue s p) = imq_qlimit (mqueue s0 p) \<and> ip_kobject (i_ports s p) = None \<and>
     map snd sent = map (\<lambda>i. imq_seqno (mqueue s0 p) + word_of_nat i) [0..<length sent] \<and>
     imq_seqno (mqueue s p) = imq_seqno (mqueue s0 p) + word_of_nat (length sent)"

lemma mq_log_keeps:
  assumes l: "mq_log p s0 sent rcvd s" and k: "keeps_queue p s s'"
  shows "mq_log p s0 sent rcvd s'"
proof -
  have "imq_qlimit (mqueue s' p) = imq_qlimit (mqueue s p)" "imq_seqno (mqueue s' p) = imq_seqno (mqueue s p)"
    "ip_kobject (i_ports s' p) = ip_kobject (i_ports s p)" "\<And>x. ikm_seqno (i_kmsg s' x) = ikm_seqno (i_kmsg s x)"
    using k by (simp_all add: keeps_queue_def)
  then show ?thesis using l by (auto simp: mq_log_def keeps_queue_ok [OF k])
qed

lemma mq_log_send:
  assumes l: "mq_log p s0 sent rcvd s" and k: "k \<notin> fst ` set (drop (length rcvd) sent)"
    and lim: "imq_msgcount (mqueue s p) < imq_qlimit (mqueue s p)" and e: "enqueue_kmsg my_cpu p k s = Some s'"
  shows "mq_log p s0 (sent @ [(k, imq_seqno (mqueue s p))]) rcvd s'"
proof -
  obtain q where q: "sent = rcvd @ q" "mq_ok s p (map fst q)" "\<forall>x\<in>set q. ikm_seqno (i_kmsg s (fst x)) = snd x"
    and r: "imq_qlimit (mqueue s p) = imq_qlimit (mqueue s0 p)" "ip_kobject (i_ports s p) = None"
      "map snd sent = map (\<lambda>i. imq_seqno (mqueue s0 p) + word_of_nat i) [0..<length sent]"
      "imq_seqno (mqueue s p) = imq_seqno (mqueue s0 p) + word_of_nat (length sent)"
    using l by (auto simp: mq_log_def)
  have k': "k \<notin> set (map fst q)" using k q(1) by simp
  note eq = kmsg_enqueue_ok [OF q(2) k' lim e]
  have "\<forall>x\<in>set (q @ [(k, imq_seqno (mqueue s p))]). ikm_seqno (i_kmsg s' (fst x)) = snd x"
    using q(3) k' eq(5,6) by fastforce
  moreover have "length (q @ [(k, imq_seqno (mqueue s p))]) \<le> unat (imq_qlimit (mqueue s' p))"
    using lim q(2) eq(3) by (simp add: mq_ok_def word_less_nat_alt)
  ultimately show ?thesis using q(1) eq(1-4) r
    by (auto simp: mq_log_def intro!: exI [of _ "q @ [(k, imq_seqno (mqueue s p))]"])
qed

lemma mq_log_receive:
  assumes l: "mq_log p s0 sent rcvd s" and pos: "0 < imq_msgcount (mqueue s p)" and d: "dequeue_kmsg my_cpu p s = Some (k, s')"
  shows "mq_log p s0 sent (rcvd @ [(k, ikm_seqno (i_kmsg s' k))]) s'"
proof -
  obtain q where q: "sent = rcvd @ q" "mq_ok s p (map fst q)" "\<forall>x\<in>set q. ikm_seqno (i_kmsg s (fst x)) = snd x"
      "length q \<le> unat (imq_qlimit (mqueue s p))"
    and r: "imq_qlimit (mqueue s p) = imq_qlimit (mqueue s0 p)" "ip_kobject (i_ports s p) = None"
      "map snd sent = map (\<lambda>i. imq_seqno (mqueue s0 p) + word_of_nat i) [0..<length sent]"
      "imq_seqno (mqueue s p) = imq_seqno (mqueue s0 p) + word_of_nat (length sent)"
    using l by (auto simp: mq_log_def)
  have "q \<noteq> []" using pos q(2) by (auto simp: mq_ok_def unat_eq_0)
  then obtain j n q' where c: "q = (j, n) # q'" by (cases q) auto
  have ok: "mq_ok s p (j # map fst q')" using q(2) c by simp
  note dq = kmsg_dequeue_ok [OF ok d]
  have "ikm_seqno (i_kmsg s' k) = n" "k = j" using q(3) c dq(1,6) by auto
  then show ?thesis using q c r dq(2-6) by (auto simp: mq_log_def)
qed

lemma mq_exec_log:
  "mq_exec p s0 sent rcvd s \<Longrightarrow> mq_ok s0 p [] \<Longrightarrow> ip_kobject (i_ports s0 p) = None \<Longrightarrow> mq_log p s0 sent rcvd s"
proof (induction rule: mq_exec.induct)
  case (start p s)
  then show ?case by (simp add: mq_log_def)
next
  case (send p s0 sent rcvd s k my_cpu port_name now timeout call s' deadline)
  then have l: "mq_log p s0 sent rcvd s" by simp
  then have "ip_kobject (i_ports s p) = None" by (simp add: mq_log_def)
  from send_effect [OF this send.hyps(3)] show ?case
    using mq_log_send [OF l send.hyps(2)] mq_log_keeps [OF l] by auto
next
  case (receive p s0 sent rcvd s my_cpu now timeout deadline call s')
  then have l: "mq_log p s0 sent rcvd s" by simp
  from receive_effect [OF receive.hyps(2)] show ?case
    using mq_log_receive [OF l] mq_log_keeps [OF l] by (auto split: mq_call.split option.split)
next
  case (other p s0 sent rcvd s s')
  then show ?case using mq_log_keeps by blast
qed

text \<open>C17: Message queues are first-in first-out and bounded. In every interleaving of senders and receivers on a port that
  starts with an empty queue, blocking and time-outs included, the delivered messages are a prefix of the accepted ones, in the
  same order and carrying the sequence numbers they were given, which are consecutive; the messages in between are exactly the
  linked queue, and there are never more of them than the port's limit.\<close>
theorem ipc_queue_fifo:
  assumes "mq_ok s0 p []" and "ip_kobject (i_ports s0 p) = None" and "mq_exec p s0 sent rcvd s"
  shows "\<exists>q. sent = rcvd @ q \<and> mq_ok s p (map fst q) \<and> length q \<le> unat (imq_qlimit (ip_messages (i_ports s0 p))) \<and>
    map snd sent = map (\<lambda>i. imq_seqno (ip_messages (i_ports s0 p)) + word_of_nat i) [0..<length sent]"
  using mq_exec_log [OF assms(3,1,2)] by (auto simp: mq_log_def)

lemma demo_queue:
  "mqueue demo_ipc2 0 = \<lparr>imq_messages = None, imq_messages_tail = None, imq_msgcount = 0, imq_qlimit = 64, imq_seqno = 0,
     imq_reserved = 0, imq_send_waiters = wait_queue_init, imq_recv_waiters = wait_queue_init\<rparr>" "ip_kobject (i_ports demo_ipc2 0) = None"
  by (simp_all add: demo_ipc2_def demo_ipc1_def demo_eval upd_space_def upd_port_def IPC_PORT_MSG_QUEUE_DEFAULT_def demo_port_def)

theorem ipc_queue_fifo_witness:
  "mq_ok demo_ipc2 0 [] \<and> (\<exists>s. mq_exec 0 demo_ipc2 [(KMSG_POOL 3, 0)] [(KMSG_POOL 3, 0)] s \<and> mq_ok s 0 [])"
proof -
  have q: "mq_ok demo_ipc2 0 []" by (simp add: mq_ok_def demo_queue)
  obtain s1 where e: "enqueue_kmsg 0 0 (KMSG_POOL 3) demo_ipc2 = Some s1"
    by (simp add: enqueue_kmsg_def demo_queue wait_queue_wakeup_one_def wait_queue_init_def Let_def)
  have s1: "imq_send_waiters (mqueue s1 0) = wait_queue_init" "port_active 0 s1"
    using e demo_ipc2_fields(8) by (auto simp: enqueue_kmsg_def demo_queue wait_queue_wakeup_one_def wait_queue_init_def Let_def)
  have send: "ipc_mqueue_send 0 (\<lambda>_. 0) 0 0 (KMSG_POOL 3) 0 demo_ipc2 = Some (MQ_DONE CHIMERA_SUCCESS None, s1)"
    using e demo_ipc2_fields(8) by (simp add: ipc_mqueue_send_def mqueue_send_now_def demo_queue Let_def word_le_nat_alt)
  have x1: "mq_exec 0 demo_ipc2 [(KMSG_POOL 3, 0)] [] s1"
    using mq_exec.send [OF mq_exec.start _ disjI1 [OF send]] by (simp add: demo_queue)
  have lim: "imq_msgcount (mqueue demo_ipc2 0) < imq_qlimit (mqueue demo_ipc2 0)" by (simp add: demo_queue word_less_nat_alt)
  have "KMSG_POOL 3 \<notin> set []" by simp
  note ok1 = kmsg_enqueue_ok [OF q this lim e, simplified]
  then have h: "imq_messages (mqueue s1 0) = Some (KMSG_POOL 3)" "imq_msgcount (mqueue s1 0) = 1" "ikm_next (i_kmsg s1 (KMSG_POOL 3)) = None"
    by (auto simp: mq_ok_def word_unat_eq_iff)
  then obtain s2 where d: "dequeue_kmsg 0 0 s1 = Some (KMSG_POOL 3, s2)"
    using s1(1) by (simp add: dequeue_kmsg_def Let_def wait_queue_wakeup_one_def wait_queue_init_def split: option.split)
  have rc: "receive_iter 0 0 0 0 0 s1 = Some (MQ_DONE CHIMERA_SUCCESS (Some (KMSG_POOL 3)), s2)"
    using d h s1(2) by (simp add: receive_iter_def Let_def word_less_nat_alt)
  have sq: "ikm_seqno (i_kmsg s2 (KMSG_POOL 3)) = 0" using kmsg_dequeue_ok(6) [OF ok1(1) d] ok1(5) by (simp add: demo_queue)
  have x2: "mq_exec 0 demo_ipc2 [(KMSG_POOL 3, 0)] [(KMSG_POOL 3, 0)] s2" using mq_exec.receive [OF x1 rc] sq by simp
  show ?thesis using ipc_queue_fifo [OF q demo_queue(2) x2] q x2 by auto
qed

section \<open>Replies of kernel objects\<close>

lemma server_without_reply:
  assumes "ikm_local_port (i_kmsg s k) = None"
  shows "ipc_kobject_server my_cpu port_name send p k s = ipc_kobject_server my_cpu port_name send' p k s"
proof -
  have e: "send_reply send None = send_reply send' None" by (simp add: fun_eq_iff send_reply_def)
  show ?thesis unfolding ipc_kobject_server_def task_request_def task_get_special_port_def task_set_special_port_def task_info_def
      send_mig_reply_ret_def Let_def assms option.case e ..
qed

lemma send_reply_cong:
  assumes "\<And>p k s. ikm_local_port (i_kmsg s k) = None \<Longrightarrow> send p k s = send' p k s"
  shows "send_reply send = send_reply send'"
proof -
  have "send_reply send r bs s = send_reply send' r bs s" for r bs s
  proof (cases r)
    case (Some rp)
    show ?thesis
    proof (cases "ipc_kmsg_alloc (word_of_nat (length bs)) s")
      case (Pair x s')
      have "ikm_local_port (i_kmsg s' k) = None" if "x = Some k" for k
        using Pair that by (auto simp: ipc_kmsg_alloc_def kmsg_alloc_pages_def Let_def clear_kmsg_def split: if_splits option.splits prod.splits)
      then show ?thesis using assms Some Pair by (cases x) (simp_all add: send_reply_def put_data_def)
    qed
  qed (simp add: send_reply_def)
  then show ?thesis by (simp add: fun_eq_iff)
qed

lemma server_send_cong:
  assumes "send_reply send = send_reply send'"
  shows "ipc_kobject_server my_cpu port_name send = ipc_kobject_server my_cpu port_name send'"
  by (intro ext) (unfold ipc_kobject_server_def task_request_def task_get_special_port_def task_set_special_port_def task_info_def
      send_mig_reply_ret_def assms, rule refl)

text \<open>The two levels of the model are the recursion of the code: the server answers through a send that may
  enter the server again, and this ends because a reply carries no reply port.\<close>
lemma kobject_server_recursion:
  "kobject_server my_cpu port_name = ipc_kobject_server my_cpu port_name (mqueue_send_now my_cpu (kobject_server my_cpu port_name))"
proof -
  have r: "mqueue_send_now my_cpu (reply_server my_cpu port_name) p k s = mqueue_send_now my_cpu (kobject_server my_cpu port_name) p k s"
    if "ikm_local_port (i_kmsg s k) = None" for p k s
    using server_without_reply [OF that, of my_cpu port_name "\<lambda>p k s. None" p "mqueue_send_now my_cpu (reply_server my_cpu port_name)"]
    by (simp add: mqueue_send_now_def reply_server_def kobject_server_def Let_def)
  have "send_reply (mqueue_send_now my_cpu (reply_server my_cpu port_name)) = send_reply (mqueue_send_now my_cpu (kobject_server my_cpu port_name))"
    by (rule send_reply_cong) (rule r)
  then have "ipc_kobject_server my_cpu port_name (mqueue_send_now my_cpu (reply_server my_cpu port_name)) =
      ipc_kobject_server my_cpu port_name (mqueue_send_now my_cpu (kobject_server my_cpu port_name))"
    by (rule server_send_cong)
  then show ?thesis by (subst (1) kobject_server_def)
qed

end
