(* ===== verification/Ipc_Kmsg.thy ===== *)
theory Ipc_Kmsg
  imports Ipc_Mqueue Copy
begin

text \<open>
  The translation between user messages and kernel messages (\<^verbatim>\<open>ipc_kmsg_copyin\<close> and \<^verbatim>\<open>ipc_kmsg_copyout\<close> of
  \<^verbatim>\<open>kernel/mach/ipc_kmsg.c\<close>) and the Mach system calls of \<^verbatim>\<open>kernel/bsd/syscall.c\<close> built on it. A descriptor of
  a port carries the port's kernel address while the message is queued: \<open>port_addr\<close> gives these addresses.
  As in the rest of the IPC model \<open>None\<close> means that the code would follow a pointer that is not one.
\<close>

unbundle bit_operations_syntax

definition MACH_MSG_HEADER_SIZE :: nat where "MACH_MSG_HEADER_SIZE = 24"
definition MACH_MSG_OOL_MAX :: u32 where "MACH_MSG_OOL_MAX = 0x400000"
definition MACH_MSG_OOL_DESCRIPTOR :: u8 where "MACH_MSG_OOL_DESCRIPTOR = 1"
definition SIZEOF_PORT_DESCRIPTOR :: nat where "SIZEOF_PORT_DESCRIPTOR = 12"
definition SIZEOF_OOL_DESCRIPTOR :: nat where "SIZEOF_OOL_DESCRIPTOR = 16"
definition MACH_MSG_DESCRIPTORS_MAX :: nat where "MACH_MSG_DESCRIPTORS_MAX = 16"
definition OOL_TARGET_BASE :: u64 where "OOL_TARGET_BASE = 0x0000700000000000"

definition MACH_MSGH_BITS_REMOTE :: "u32 \<Rightarrow> u32" where "MACH_MSGH_BITS_REMOTE bits = bits AND 0x1F"

definition msgh_bits :: "ipc_kmsg \<Rightarrow> u32" where "msgh_bits k = get32 (ikm_data k) 0"
definition msgh_size :: "ipc_kmsg \<Rightarrow> u32" where "msgh_size k = get32 (ikm_data k) 4"
definition msgh_remote_port :: "ipc_kmsg \<Rightarrow> u32" where "msgh_remote_port k = get32 (ikm_data k) 8"
definition msgh_local_port :: "ipc_kmsg \<Rightarrow> u32" where "msgh_local_port k = get32 (ikm_data k) 12"
definition msgh_descriptor_count :: "ipc_kmsg \<Rightarrow> u32" where "msgh_descriptor_count k = get32 (ikm_data k) 24"

text \<open>A store of some bytes at an offset of the message.\<close>
definition put_at :: "nat \<Rightarrow> u8 list \<Rightarrow> ipc_kmsg \<Rightarrow> ipc_kmsg" where
  "put_at off bs k =
     k\<lparr>ikm_data := (\<lambda>i. if off \<le> i \<and> i < off + length bs then bs ! (i - off) else ikm_data k i)\<rparr>"

text \<open>The bytes of the message proper.\<close>
definition msg_bytes :: "ipc_kmsg \<Rightarrow> u8 list" where "msg_bytes k = map (ikm_data k) [0..<unat (msgh_size k)]"

section \<open>From user space\<close>

text \<open>A port descriptor: its name is replaced by the address of the port it denotes, or by null.\<close>
definition copyin_port :: "(nat \<Rightarrow> u64) \<Rightarrow> kmsg_ptr \<Rightarrow> nat option \<Rightarrow> nat \<Rightarrow> ipc_state \<Rightarrow> ipc_state option" where
  "copyin_port port_addr k space off s = do {
     let port_name = get32 (ikm_data (i_kmsg s k)) off;
     found \<leftarrow> ipc_port_lookup space port_name MACH_PORT_TYPE_SEND s;
     found \<leftarrow> (case found of Some p \<Rightarrow> Some (Some p) | None \<Rightarrow> ipc_port_lookup space port_name MACH_PORT_TYPE_RECEIVE s);
     Some (upd_kmsg k (put_at off (le64 (case found of Some p \<Rightarrow> port_addr p | None \<Rightarrow> 0))) s)
   }"

text \<open>Zeroed pages for out-of-line memory, filled from user space; \<open>Inl\<close> is the error return.\<close>
definition copyin_region :: "u64 \<Rightarrow> u32 \<Rightarrow> ipc_state \<Rightarrow> (chimera_error + nat) \<times> ipc_state" where
  "copyin_region address sz s =
     (let page_count = unat (sz + 4095) div 4096;
          (paddr, p) = pmm_alloc_pages page_count (km_pmm (sc_km (i_sched s)));
          s = i_pmm (\<lambda>_. p) s
      in if failed_alloc paddr then (Inl CHIMERA_ERR_NOMEM, s)
         else let pm = fold (\<lambda>i. zero_page (paddr + 4096 * i)) [0..<page_count] (get_pm s);
                  (err, bs) = copyin address True (ucast sz) pm;
                  s = set_pm (set_pbytes paddr bs pm) s
              in if err \<noteq> CHIMERA_SUCCESS then (Inl CHIMERA_ERR_INVALID, i_pmm (pmm_free_contiguous paddr page_count) s)
                 else (Inr paddr, s))"

definition copyin_ool :: "kmsg_ptr \<Rightarrow> nat \<Rightarrow> ipc_state \<Rightarrow> chimera_error \<times> ipc_state" where
  "copyin_ool k off s =
     (let d = ikm_data (i_kmsg s k); address = get64 d off; sz = get32 d (off + 12) in
      if sz > 0 \<and> sz \<le> MACH_MSG_OOL_MAX \<and> address \<noteq> 0 then
        (case copyin_region address sz s of
           (Inl err, s) \<Rightarrow> (err, s)
         | (Inr paddr, s) \<Rightarrow>
             let kbuf = word_of_nat (paddr + km_hhdm (sc_km (i_sched s))) in
             (CHIMERA_SUCCESS, upd_kmsg k (\<lambda>m. put_at off (le64 kbuf)
                (m\<lparr>ikm_ool_regions := (ikm_ool_regions m)(unat (ikm_ool_count m) := \<lparr>ool_addr = kbuf, ool_size = ucast sz\<rparr>),
                   ikm_ool_count := ikm_ool_count m + 1\<rparr>)) s))
      else (CHIMERA_SUCCESS, s))"

text \<open>The loop over the descriptors: \<open>n\<close> remain, the next one is at \<open>off\<close>.\<close>
fun copyin_descs :: "(nat \<Rightarrow> u64) \<Rightarrow> kmsg_ptr \<Rightarrow> nat option \<Rightarrow> nat \<Rightarrow> nat \<Rightarrow> nat \<Rightarrow> ipc_state \<Rightarrow> (chimera_error \<times> ipc_state) option" where
  "copyin_descs port_addr k space msg_end 0 off s = Some (CHIMERA_SUCCESS, s)"
| "copyin_descs port_addr k space msg_end (Suc n) off s =
     (let dtype = ikm_data (i_kmsg s k) (off + 11) in
      if off + SIZEOF_PORT_DESCRIPTOR > msg_end then Some (CHIMERA_ERR_INVALID, s)
      else if dtype = MACH_MSG_PORT_DESCRIPTOR then do {
        s \<leftarrow> copyin_port port_addr k space off s;
        copyin_descs port_addr k space msg_end n (off + SIZEOF_PORT_DESCRIPTOR) s
      }
      else if dtype = MACH_MSG_OOL_DESCRIPTOR then
        (if off + SIZEOF_OOL_DESCRIPTOR > msg_end then Some (CHIMERA_ERR_INVALID, s)
         else case copyin_ool k off s of
           (err, s) \<Rightarrow> if err \<noteq> CHIMERA_SUCCESS then Some (err, s)
             else copyin_descs port_addr k space msg_end n (off + SIZEOF_OOL_DESCRIPTOR) s)
      else Some (CHIMERA_SUCCESS, s))"

text \<open>The ports of the header.\<close>
definition copyin_header_ports :: "kmsg_ptr \<Rightarrow> nat option \<Rightarrow> ipc_state \<Rightarrow> (chimera_error \<times> ipc_state) option" where
  "copyin_header_ports k space s = do {
     let m = i_kmsg s k;
     let rname = msgh_remote_port m;
     let right = (if MACH_MSGH_BITS_REMOTE (msgh_bits m) = MACH_PORT_RIGHT_SEND_ONCE then MACH_PORT_TYPE_SEND_ONCE else MACH_PORT_TYPE_SEND);
     remote \<leftarrow> ipc_port_lookup space rname right s;
     (case remote of
        None \<Rightarrow> Some (CHIMERA_ERR_PORT_DEAD, s)
      | Some r \<Rightarrow> do {
          let s = upd_kmsg k (\<lambda>m. m\<lparr>ikm_remote_port := Some r, ikm_remote_right := right\<rparr>) s;
          let lname = msgh_local_port m;
          (if lname = MACH_PORT_NAME_NULL then Some (CHIMERA_SUCCESS, s)
           else if lname = rname then
             Some (CHIMERA_SUCCESS, upd_kmsg k (\<lambda>m. m\<lparr>ikm_local_port := Some r, ikm_local_right := MACH_PORT_TYPE_SEND_RECEIVE\<rparr>) s)
           else do {
             loc \<leftarrow> ipc_port_lookup space lname MACH_PORT_TYPE_RECEIVE s;
             Some (CHIMERA_SUCCESS, case loc of
                 Some l \<Rightarrow> upd_kmsg k (\<lambda>m. m\<lparr>ikm_local_port := Some l, ikm_local_right := MACH_PORT_TYPE_RECEIVE\<rparr>) s
               | None \<Rightarrow> s)
           })
        })
   }"

definition record_sender :: "kmsg_ptr \<Rightarrow> nat \<Rightarrow> ipc_state \<Rightarrow> ipc_state" where
  "record_sender k sp s =
     (let task = is_task (i_spaces s sp) in
      upd_kmsg k (\<lambda>m. m\<lparr>ikm_sender_pid := (case ta_proc_pid s task of Some pid \<Rightarrow> pid | None \<Rightarrow> 0),
        ikm_sender_uid := (case ta_proc_pid s task of Some _ \<Rightarrow> ta_proc_uid s task | None \<Rightarrow> 0)\<rparr>) s)"

text \<open>Once the bytes are in the kernel message: the sender, the ports of the header, the descriptors.\<close>
definition translate_kmsg :: "(nat \<Rightarrow> u64) \<Rightarrow> kmsg_ptr \<Rightarrow> nat \<Rightarrow> nat \<Rightarrow> ipc_state \<Rightarrow> (chimera_error \<times> ipc_state) option" where
  "translate_kmsg port_addr k user_size sp s = do {
     (err, s) \<leftarrow> copyin_header_ports k (Some sp) (record_sender k sp s);
     let m = i_kmsg s k;
     (if err \<noteq> CHIMERA_SUCCESS then Some (err, s)
      else if msgh_bits m AND MACH_MSGH_BITS_COMPLEX = 0 then Some (CHIMERA_SUCCESS, s)
      else if user_size < MACH_MSG_HEADER_SIZE + 4 then Some (CHIMERA_ERR_INVALID, s)
      else copyin_descs port_addr k (Some sp) user_size
             (min MACH_MSG_DESCRIPTORS_MAX (unat (msgh_descriptor_count m))) (MACH_MSG_HEADER_SIZE + 4) s)
   }"

text \<open>The asserted pointers are not null here: a space is a number.\<close>
definition ipc_kmsg_copyin :: "(nat \<Rightarrow> u64) \<Rightarrow> kmsg_ptr \<Rightarrow> u64 \<Rightarrow> nat \<Rightarrow> ipc_state \<Rightarrow> (chimera_error \<times> ipc_state) option" where
  "ipc_kmsg_copyin port_addr k user_header_va sp s =
     (if user_header_va = 0 then Some (CHIMERA_ERR_INVALID, s)
      else let (err, hdr) = copyin user_header_va True (word_of_nat MACH_MSG_HEADER_SIZE) (get_pm s) in
      if err \<noteq> CHIMERA_SUCCESS then Some (CHIMERA_ERR_INVALID, s)
      else let user_size = get32 (\<lambda>i. hdr ! i) 4 in
      if unat user_size < MACH_MSG_HEADER_SIZE \<or> user_size > MACH_MSG_SIZE_MAX \<or> user_size > ikm_size (i_kmsg s k)
      then Some (CHIMERA_ERR_INVALID, s)
      else let (err, bs) = copyin user_header_va True (ucast user_size) (get_pm s);
               s = upd_kmsg k (put_data bs) s
      in if err \<noteq> CHIMERA_SUCCESS then Some (CHIMERA_ERR_INVALID, s)
         else translate_kmsg port_addr k (unat user_size) sp s)"

section \<open>To user space\<close>

text \<open>The port at a kernel address; \<open>None\<close> when the address is that of no port.\<close>
definition port_at :: "(nat \<Rightarrow> u64) \<Rightarrow> u64 \<Rightarrow> nat option option" where
  "port_at port_addr a =
     (if a = 0 then Some None else map_option Some (find (\<lambda>p. port_addr p = a) [0..<IPC_PORT_ARENA_SIZE]))"

definition copyout_port :: "(nat \<Rightarrow> u64) \<Rightarrow> kmsg_ptr \<Rightarrow> nat option \<Rightarrow> nat \<Rightarrow> ipc_state \<Rightarrow> ipc_state option" where
  "copyout_port port_addr k space off s = do {
     port_obj \<leftarrow> port_at port_addr (get64 (ikm_data (i_kmsg s k)) off);
     let s = upd_kmsg k (put_at (off + 4) (le32 0)) s;
     (out_name, s) \<leftarrow> (case port_obj of Some p \<Rightarrow> ipc_port_copyout_send space (Some p) s | None \<Rightarrow> Some (MACH_PORT_NAME_NULL, s));
     Some (upd_kmsg k (put_at off (le32 out_name)) s)
   }"

text \<open>The pages of one region, mapped into the receiver.\<close>
definition map_region :: "u64 \<Rightarrow> u64 \<Rightarrow> u64 \<Rightarrow> nat \<Rightarrow> pmap_state \<Rightarrow> pmap_state" where
  "map_region pml4 target_va user_paddr page_count s =
     fold (\<lambda>pg s. snd (pmap_map_user_page pml4 (target_va + word_of_nat (4096 * pg)) (user_paddr + word_of_nat (4096 * pg)) 7 s))
       [0..<page_count] s"

definition copyout_ool :: "kmsg_ptr \<Rightarrow> nat \<Rightarrow> nat \<Rightarrow> nat \<Rightarrow> ipc_state \<Rightarrow> ipc_state" where
  "copyout_ool k sp off ool_idx s =
     (let r = ikm_ool_regions (i_kmsg s k) ool_idx;
          pml4 = ta_vm_map (sc_tasks (i_sched s) (is_task (i_spaces s sp)));
          target_va = OOL_TARGET_BASE + word_of_nat ool_idx * 0x10000000
      in if pml4 = 0 then s
         else let s = set_pm (map_region pml4 target_va (ool_addr r - word_of_nat (km_hhdm (sc_km (i_sched s))))
                        (unat (ool_size r + 4095) div 4096) (get_pm s)) s
              in upd_kmsg k (put_at off (le64 target_va)) s)"

fun copyout_descs :: "(nat \<Rightarrow> u64) \<Rightarrow> kmsg_ptr \<Rightarrow> nat \<Rightarrow> nat \<Rightarrow> nat \<Rightarrow> nat \<Rightarrow> nat \<Rightarrow> ipc_state \<Rightarrow> ipc_state option" where
  "copyout_descs port_addr k sp msg_end 0 off ool_idx s = Some s"
| "copyout_descs port_addr k sp msg_end (Suc n) off ool_idx s =
     (let dtype = ikm_data (i_kmsg s k) (off + 11) in
      if off + SIZEOF_PORT_DESCRIPTOR > msg_end then Some s
      else if dtype = MACH_MSG_PORT_DESCRIPTOR then do {
        s \<leftarrow> copyout_port port_addr k (Some sp) off s;
        copyout_descs port_addr k sp msg_end n (off + SIZEOF_PORT_DESCRIPTOR) ool_idx s
      }
      else if dtype = MACH_MSG_OOL_DESCRIPTOR then
        (if off + SIZEOF_OOL_DESCRIPTOR > msg_end then Some s
         else if ool_idx < unat (ikm_ool_count (i_kmsg s k))
         then copyout_descs port_addr k sp msg_end n (off + SIZEOF_OOL_DESCRIPTOR) (Suc ool_idx) (copyout_ool k sp off ool_idx s)
         else copyout_descs port_addr k sp msg_end n (off + SIZEOF_OOL_DESCRIPTOR) ool_idx s)
      else Some s)"

definition audit_trailer :: "ipc_kmsg \<Rightarrow> u8 list" where
  "audit_trailer k = concat (map le32 [0, 20, ikm_seqno k, ikm_sender_pid k, ikm_sender_uid k])"

definition basic_trailer :: "u8 list" where "basic_trailer = concat (map le32 [0, 8])"

definition copyout_trailer :: "kmsg_ptr \<Rightarrow> u64 \<Rightarrow> nat \<Rightarrow> ipc_state \<Rightarrow> ipc_state" where
  "copyout_trailer k user_buf_va buf_size s =
     (let m = i_kmsg s k; used = unat (msgh_size m); va = user_buf_va + ucast (msgh_size m) in
      if buf_size \<ge> used + length (audit_trailer m) then set_pm (snd (copyout True (audit_trailer m) va (get_pm s))) s
      else if buf_size \<ge> used + length basic_trailer then set_pm (snd (copyout True basic_trailer va (get_pm s))) s
      else s)"

text \<open>The header's ports as the receiver sees them: the reply port's name and the name the message arrived under.\<close>
definition copyout_header_ports :: "kmsg_ptr \<Rightarrow> nat \<Rightarrow> ipc_state \<Rightarrow> ipc_state option" where
  "copyout_header_ports k sp s = do {
     (reply, s) \<leftarrow> ipc_port_copyout_send (Some sp) (ikm_local_port (i_kmsg s k)) s;
     let here = (case ikm_remote_port (i_kmsg s k) of
        Some p \<Rightarrow> if ip_receiver (i_ports s p) = Some sp then ip_receiver_name (i_ports s p) else MACH_PORT_NAME_NULL
      | None \<Rightarrow> MACH_PORT_NAME_NULL);
     Some (upd_kmsg k (\<lambda>m. put_at 12 (le32 here) (put_at 8 (le32 reply) m)) s)
   }"

definition ipc_kmsg_copyout :: "(nat \<Rightarrow> u64) \<Rightarrow> kmsg_ptr \<Rightarrow> u64 \<Rightarrow> u32 \<Rightarrow> nat \<Rightarrow> ipc_state \<Rightarrow> (chimera_error \<times> ipc_state) option" where
  "ipc_kmsg_copyout port_addr k user_buf_va buf_size sp s =
     (if buf_size < msgh_size (i_kmsg s k) then Some (CHIMERA_ERR_OVERFLOW, s)
      else do {
        s \<leftarrow> copyout_header_ports k sp s;
        let m = i_kmsg s k;
        let complex = (msgh_bits m AND MACH_MSGH_BITS_COMPLEX \<noteq> 0);
        (if complex \<and> unat (msgh_size m) < MACH_MSG_HEADER_SIZE + 4 then Some (CHIMERA_ERR_INVALID, s)
         else do {
           s \<leftarrow> (if complex then copyout_descs port_addr k sp (unat (msgh_size m))
                   (min MACH_MSG_DESCRIPTORS_MAX (unat (msgh_descriptor_count m))) (MACH_MSG_HEADER_SIZE + 4) 0 s
                 else Some s);
           let (err, pm) = copyout True (msg_bytes (i_kmsg s k)) user_buf_va (get_pm s);
           let s = set_pm pm s;
           Some (if err \<noteq> CHIMERA_SUCCESS then (CHIMERA_ERR_INVALID, s)
                 else (CHIMERA_SUCCESS, copyout_trailer k user_buf_va (unat buf_size) s))
         })
      })"

end
