(* ===== verification/Ipc_Syscall.thy ===== *)
theory Ipc_Syscall
  imports Ipc_Kmsg
begin

text \<open>
  The Mach system calls of \<^verbatim>\<open>kernel/bsd/syscall.c\<close>. \<^verbatim>\<open>sys_mach_msg\<close> sends, then receives, and may sleep in
  either half: \<open>mach_msg_send\<close> and \<open>mach_msg_receive\<close> run up to the return of the queue operation, whose
  result \<open>mach_msg_sent\<close> and \<open>mach_msg_received\<close> then treat. A task without a name space makes the calls follow a
  null pointer where the code does not test for it.
\<close>

unbundle bit_operations_syntax

definition current_task :: "nat \<Rightarrow> ipc_state \<Rightarrow> nat option" where
  "current_task my_cpu s =
     (case current_thread my_cpu (i_sched s) of Some th \<Rightarrow> th_task (thr (i_sched s) th) | None \<Rightarrow> None)"

definition task_space :: "nat \<Rightarrow> ipc_state \<Rightarrow> nat option" where
  "task_space my_cpu s = (case current_task my_cpu s of Some t \<Rightarrow> ta_ipc_space s t | None \<Rightarrow> None)"

section \<open>Messages\<close>

text \<open>A half of \<^verbatim>\<open>sys_mach_msg\<close>: it has returned a value, or is inside a queue operation.\<close>
datatype msg_call = MSG_RETURN int | MSG_QUEUE "kmsg_ptr option" mq_call

definition mach_msg_send ::
  "nat \<Rightarrow> (nat \<Rightarrow> u32) \<Rightarrow> (nat \<Rightarrow> u64) \<Rightarrow> u64 \<Rightarrow> u64 \<Rightarrow> u64 \<Rightarrow> u64 \<Rightarrow> ipc_state \<Rightarrow> (msg_call \<times> ipc_state) option" where
  "mach_msg_send my_cpu port_name port_addr now msg_ptr send_sz timeout s =
     (if unat send_sz < MACH_MSG_HEADER_SIZE \<or> send_sz > ucast MACH_MSG_SIZE_MAX then Some (MSG_RETURN (- 1), s)
      else let (err, hdr) = copyin msg_ptr True (word_of_nat MACH_MSG_HEADER_SIZE) (get_pm s) in
      if err \<noteq> CHIMERA_SUCCESS \<or> get32 (\<lambda>i. hdr ! i) 4 \<noteq> ucast send_sz then Some (MSG_RETURN (- 1), s)
      else case ipc_kmsg_alloc (ucast send_sz) s of
        (None, s) \<Rightarrow> Some (MSG_RETURN (- 1), s)
      | (Some k, s) \<Rightarrow> do {
          sp \<leftarrow> task_space my_cpu s;
          (err, s) \<leftarrow> ipc_kmsg_copyin port_addr k msg_ptr sp s;
          (if err \<noteq> CHIMERA_SUCCESS then Some (MSG_RETURN (- 1), ipc_kmsg_free (Some k) s)
           else do {
             p \<leftarrow> ikm_remote_port (i_kmsg s k);
             (c, s) \<leftarrow> ipc_mqueue_send my_cpu port_name now p k (ucast timeout) s;
             Some (MSG_QUEUE (Some k) c, s)
           })
        })"

definition mach_msg_sent :: "kmsg_ptr \<Rightarrow> chimera_error \<Rightarrow> ipc_state \<Rightarrow> int \<times> ipc_state" where
  "mach_msg_sent k err s = (if err \<noteq> CHIMERA_SUCCESS then (- 1, ipc_kmsg_free (Some k) s) else (0, s))"

definition mach_msg_receive :: "nat \<Rightarrow> u64 \<Rightarrow> u64 \<Rightarrow> u64 \<Rightarrow> u64 \<Rightarrow> ipc_state \<Rightarrow> (msg_call \<times> ipc_state) option" where
  "mach_msg_receive my_cpu now rcv_sz rcv_name timeout s =
     (if unat rcv_sz < MACH_MSG_HEADER_SIZE \<or> rcv_sz > ucast MACH_MSG_SIZE_MAX then Some (MSG_RETURN (- 1), s)
      else do {
        found \<leftarrow> ipc_port_lookup (task_space my_cpu s) (ucast rcv_name) MACH_PORT_TYPE_RECEIVE s;
        (case found of
           None \<Rightarrow> Some (MSG_RETURN (- 1), s)
         | Some p \<Rightarrow> do {
             (c, s) \<leftarrow> ipc_mqueue_receive my_cpu now p (ucast timeout) s;
             Some (MSG_QUEUE None c, s)
           })
      })"

definition mach_msg_received ::
  "nat \<Rightarrow> (nat \<Rightarrow> u64) \<Rightarrow> u64 \<Rightarrow> u64 \<Rightarrow> chimera_error \<Rightarrow> kmsg_ptr option \<Rightarrow> ipc_state \<Rightarrow> (int \<times> ipc_state) option" where
  "mach_msg_received my_cpu port_addr msg_ptr rcv_sz err kmsg s =
     (if err \<noteq> CHIMERA_SUCCESS then Some (- 1, s)
      else do {
        k \<leftarrow> kmsg;
        sp \<leftarrow> task_space my_cpu s;
        (err, s) \<leftarrow> ipc_kmsg_copyout port_addr k msg_ptr (ucast rcv_sz) sp s;
        Some (if err \<noteq> CHIMERA_SUCCESS then - 1 else 0, ipc_kmsg_free (Some k) s)
      })"

text \<open>The call with a queue operation that does not sleep, as the code composes the halves; \<open>None\<close> also when one sleeps.\<close>
definition sys_mach_msg ::
  "nat \<Rightarrow> (nat \<Rightarrow> u32) \<Rightarrow> (nat \<Rightarrow> u64) \<Rightarrow> u64 \<Rightarrow> u64 \<Rightarrow> u64 \<Rightarrow> u64 \<Rightarrow> u64 \<Rightarrow> u64 \<Rightarrow> u64 \<Rightarrow> ipc_state \<Rightarrow> (int \<times> ipc_state) option" where
  "sys_mach_msg my_cpu port_name port_addr now msg_ptr option send_sz rcv_sz rcv_name timeout s =
     (if current_task my_cpu s = None then Some (- 1, s)
      else do {
        (r, s) \<leftarrow> (if option AND 1 = 0 then Some (0, s)
          else do {
            (c, s) \<leftarrow> mach_msg_send my_cpu port_name port_addr now msg_ptr send_sz timeout s;
            (case c of
               MSG_RETURN v \<Rightarrow> Some (v, s)
             | MSG_QUEUE (Some k) (MQ_DONE err _) \<Rightarrow> Some (mach_msg_sent k err s)
             | _ \<Rightarrow> None)
          });
        (if r \<noteq> 0 \<or> option AND 2 = 0 then Some (r, s)
         else do {
           (c, s) \<leftarrow> mach_msg_receive my_cpu now rcv_sz rcv_name timeout s;
           (case c of
              MSG_RETURN v \<Rightarrow> Some (v, s)
            | MSG_QUEUE _ (MQ_DONE err kmsg) \<Rightarrow> mach_msg_received my_cpu port_addr msg_ptr rcv_sz err kmsg s
            | _ \<Rightarrow> None)
         })
      })"

section \<open>Ports and services\<close>

definition sys_mach_port_allocate :: "nat \<Rightarrow> u64 \<Rightarrow> ipc_state \<Rightarrow> (int \<times> ipc_state) option" where
  "sys_mach_port_allocate my_cpu name_out_ptr s =
     (if current_task my_cpu s = None then Some (- 1, s)
      else do {
        sp \<leftarrow> task_space my_cpu s;
        (err, name, s) \<leftarrow> ipc_port_alloc sp ''user_port'' s;
        (if err \<noteq> CHIMERA_SUCCESS then Some (- 1, s)
         else do {
           name \<leftarrow> name;
           let (err, pm) = copyout True (le32 name) name_out_ptr (get_pm s);
           Some (if err \<noteq> CHIMERA_SUCCESS then - 1 else 0, set_pm pm s)
         })
      })"

text \<open>\<open>stack\<close> is what the 64-byte buffer of the call held before: a failed \<^verbatim>\<open>copyin\<close> leaves the rest of it in place.\<close>
definition safe_name :: "u8 list \<Rightarrow> u64 \<Rightarrow> ipc_state \<Rightarrow> string" where
  "safe_name stack name_ptr s =
     (let bs = snd (copyin name_ptr True 64 (get_pm s)); buf = take 63 (bs @ drop (length bs) stack)
      in map (\<lambda>b. char_of (unat b)) (takeWhile (\<lambda>b. b \<noteq> 0) buf))"

definition sys_mach_register_service :: "nat \<Rightarrow> u8 list \<Rightarrow> u64 \<Rightarrow> u64 \<Rightarrow> ipc_state \<Rightarrow> (int \<times> ipc_state) option" where
  "sys_mach_register_service my_cpu stack name_ptr port_name s =
     (if current_task my_cpu s = None then Some (- 1, s)
      else do {
        found \<leftarrow> ipc_port_lookup (task_space my_cpu s) (ucast port_name) MACH_PORT_TYPE_RECEIVE s;
        found \<leftarrow> (case found of Some p \<Rightarrow> Some (Some p) | None \<Rightarrow> ipc_port_lookup (task_space my_cpu s) (ucast port_name) MACH_PORT_TYPE_SEND s);
        (case found of
           None \<Rightarrow> Some (- 1, s)
         | Some p \<Rightarrow>
             let (err, s) = mach_register_service (safe_name stack name_ptr s) (Some p) s
             in Some (if err = CHIMERA_SUCCESS then 0 else - 1, s))
      })"

definition sys_mach_lookup_service :: "nat \<Rightarrow> u8 list \<Rightarrow> u64 \<Rightarrow> u64 \<Rightarrow> ipc_state \<Rightarrow> (int \<times> ipc_state) option" where
  "sys_mach_lookup_service my_cpu stack name_ptr name_out_ptr s =
     (if current_task my_cpu s = None then Some (- 1, s)
      else case mach_lookup_service (safe_name stack name_ptr s) s of
        None \<Rightarrow> Some (- 1, s)
      | Some p \<Rightarrow> do {
          sp \<leftarrow> task_space my_cpu s;
          (name, space) \<leftarrow> space_alloc_name (i_spaces s sp);
          let s = upd_space sp (\<lambda>_. space) s;
          (if name = MACH_PORT_NAME_NULL then Some (- 1, s)
           else
             let s = upd_space sp (upd_entry (ipc_name_index name)
                       (\<lambda>e. e\<lparr>ie_object := Some (IE_PORT p), ie_bits := MACH_PORT_TYPE_SEND, ie_urefs := 1\<rparr>)) s;
                 s = ipc_port_reference p s;
                 (err, pm) = copyout True (le32 name) name_out_ptr (get_pm s)
             in Some (if err \<noteq> CHIMERA_SUCCESS then - 1 else 0, set_pm pm s))
        })"

definition sys_mach_port_deallocate :: "nat \<Rightarrow> u64 \<Rightarrow> ipc_state \<Rightarrow> (int \<times> ipc_state) option" where
  "sys_mach_port_deallocate my_cpu name s =
     (case task_space my_cpu s of
        None \<Rightarrow> Some (- 1, s)
      | Some sp \<Rightarrow> do {
          (err, s) \<leftarrow> mach_port_deallocate_kernel my_cpu (Some sp) (ucast name) s;
          Some (if err = CHIMERA_SUCCESS then 0 else - 1, s)
        })"

definition sys_mach_port_type :: "nat \<Rightarrow> u64 \<Rightarrow> u64 \<Rightarrow> ipc_state \<Rightarrow> int \<times> ipc_state" where
  "sys_mach_port_type my_cpu name ptype_out s =
     (case task_space my_cpu s of
        None \<Rightarrow> (- 1, s)
      | Some sp \<Rightarrow>
          (case mach_port_type_kernel (Some sp) (ucast name) True s of
             (CHIMERA_SUCCESS, Some ptype) \<Rightarrow>
               let (err, pm) = copyout True (le32 ptype) ptype_out (get_pm s)
               in (if err \<noteq> CHIMERA_SUCCESS then - 1 else 0, set_pm pm s)
           | _ \<Rightarrow> (- 1, s)))"

definition sys_task_self :: "nat \<Rightarrow> ipc_state \<Rightarrow> u32" where
  "sys_task_self my_cpu s =
     (case current_task my_cpu s of
        Some t \<Rightarrow> if ta_ipc_space s t = None then MACH_PORT_NAME_NULL else ta_task_port s t
      | None \<Rightarrow> MACH_PORT_NAME_NULL)"

end
