(* ===== verification/Ipc_Kmsg_Props.thy ===== *)
theory Ipc_Kmsg_Props
  imports Ipc_Syscall Copy_Props Ipc_Props
begin

text \<open>
  What the translation of messages guarantees: a message from user space never leaves its kernel buffer and carries
  the sender's true identity, whatever descriptors it has.
\<close>

unbundle bit_operations_syntax

section \<open>What a step of the translation may change\<close>

text \<open>The fields of a message that descriptors do not concern.\<close>
definition msg_core :: "ipc_kmsg \<Rightarrow> ipc_kmsg" where
  "msg_core m = m\<lparr>ikm_data := (\<lambda>_. 0), ikm_ool_regions := (\<lambda>_. \<lparr>ool_addr = 0, ool_size = 0\<rparr>), ikm_ool_count := 0\<rparr>"

text \<open>Only message \<open>k\<close> changes: its bytes in \<open>[lo, hi)\<close> and at most \<open>n\<close> more out-of-line regions.\<close>
definition msg_step :: "kmsg_ptr \<Rightarrow> nat \<Rightarrow> nat \<Rightarrow> nat \<Rightarrow> ipc_state \<Rightarrow> ipc_state \<Rightarrow> bool" where
  "msg_step k lo hi n s s' \<longleftrightarrow>
     i_ports s' = i_ports s \<and> i_spaces s' = i_spaces s \<and> (\<forall>j. j \<noteq> k \<longrightarrow> i_kmsg s' j = i_kmsg s j) \<and>
     msg_core (i_kmsg s' k) = msg_core (i_kmsg s k) \<and>
     (\<forall>i. i < lo \<or> hi \<le> i \<longrightarrow> ikm_data (i_kmsg s' k) i = ikm_data (i_kmsg s k) i) \<and>
     unat (ikm_ool_count (i_kmsg s' k)) \<le> unat (ikm_ool_count (i_kmsg s k)) + n"

lemma msg_step_refl [simp]: "msg_step k lo hi n s s"
  by (simp add: msg_step_def)

lemma msg_step_mono: "msg_step k lo hi m s s' \<Longrightarrow> m \<le> n \<Longrightarrow> msg_step k lo hi n s s'"
  by (simp add: msg_step_def)

lemma msg_step_trans: "msg_step k lo hi m s s' \<Longrightarrow> msg_step k lo hi n s' s'' \<Longrightarrow> msg_step k lo hi (m + n) s s''"
  by (simp add: msg_step_def)

text \<open>A step that leaves ports, spaces and messages alone, and a store into the message.\<close>
lemma msg_step_memory:
  "i_ports s' = i_ports s \<Longrightarrow> i_spaces s' = i_spaces s \<Longrightarrow> i_kmsg s' = i_kmsg s \<Longrightarrow> msg_step k lo hi n s s'"
  by (simp add: msg_step_def)

lemma msg_step_store: "lo \<le> off \<Longrightarrow> off + length bs \<le> hi \<Longrightarrow> msg_step k lo hi n s (upd_kmsg k (put_at off bs) s)"
  by (simp add: msg_step_def upd_kmsg_def put_at_def msg_core_def)

lemma length_le [simp]: "length (le32 w) = 4" "length (le64 v) = 8"
  by (simp_all add: le32_def le64_def)

lemma kmem_simps [simp]:
  "i_ports (i_pmm f s) = i_ports s" "i_spaces (i_pmm f s) = i_spaces s" "i_kmsg (i_pmm f s) = i_kmsg s"
  "i_ports (set_pm p s) = i_ports s" "i_spaces (set_pm p s) = i_spaces s" "i_kmsg (set_pm p s) = i_kmsg s"
  by (simp_all add: i_pmm_def set_pm_def)

lemma copyin_region_memory:
  "copyin_region a sz s = (r, s') \<Longrightarrow> i_ports s' = i_ports s \<and> i_spaces s' = i_spaces s \<and> i_kmsg s' = i_kmsg s"
  by (auto simp: copyin_region_def Let_def split: prod.splits if_splits)

lemma copyin_port_step:
  assumes "copyin_port pa k sp off s = Some s'" and "lo \<le> off" and "off + 8 \<le> hi"
  shows "msg_step k lo hi n s s'"
  using assms by (auto simp: copyin_port_def Let_def bind_eq_Some_conv intro!: msg_step_store)

lemma copyin_ool_step:
  assumes "copyin_ool k off s = (err, s')" and "lo \<le> off" and "off + 16 \<le> hi"
  shows "msg_step k lo hi 1 s s'"
proof (cases "copyin_region (get64 (ikm_data (i_kmsg s k)) off) (get32 (ikm_data (i_kmsg s k)) (off + 12)) s")
  case (Pair r s1)
  have u: "unat (c + 1) \<le> unat c + 1" for c :: u32 using mod_less_eq_dividend [of "unat c + 1" "2 ^ 32"] by (simp add: unat_word_ariths)
  note c = copyin_region_memory [OF Pair] and a = assms [unfolded copyin_ool_def Let_def Pair]
  show ?thesis
  proof (cases r)
    case (Inl e)
    with a c show ?thesis by (auto intro: msg_step_memory split: if_splits)
  next
    case (Inr paddr)
    with a c u show ?thesis by (auto simp: msg_step_def upd_kmsg_def put_at_def msg_core_def split: if_splits)
  qed
qed

lemma copyin_descs_step:
  "copyin_descs pa k sp e n off s = Some (err, s') \<Longrightarrow> lo \<le> off \<Longrightarrow> msg_step k lo e n s s'"
proof (induction n arbitrary: off s)
  case (Suc n)
  show ?case
  proof (cases "off + 12 \<le> e")
    case True
    consider (port) s1 where "copyin_port pa k sp off s = Some s1" "copyin_descs pa k sp e n (off + 12) s1 = Some (err, s')"
      | (ool) er s1 where "copyin_ool k off s = (er, s1)" "off + 16 \<le> e" "er = CHIMERA_SUCCESS"
          "copyin_descs pa k sp e n (off + 16) s1 = Some (err, s')"
      | (fail) "copyin_ool k off s = (err, s')" "off + 16 \<le> e" | (stop) "s' = s"
      using Suc.prems(1)
      by (auto simp: Let_def SIZEOF_PORT_DESCRIPTOR_def SIZEOF_OOL_DESCRIPTOR_def bind_eq_Some_conv split: if_splits prod.splits)
    then show ?thesis
    proof cases
      case port
      from copyin_port_step [OF port(1) Suc.prems(2), of e 1] True Suc.IH [OF port(2)] Suc.prems(2)
      show ?thesis using msg_step_trans [of k lo e 1 s s1 n s'] by simp
    next
      case ool
      from copyin_ool_step [OF ool(1) Suc.prems(2) ool(2)] Suc.IH [OF ool(4)] Suc.prems(2)
      show ?thesis using msg_step_trans [of k lo e 1 s s1 n s'] by simp
    next
      case fail
      then show ?thesis using copyin_ool_step [OF fail(1) Suc.prems(2) fail(2)] msg_step_trans [of k lo e 1 s s' n s'] by simp
    qed simp
  qed (use Suc.prems in \<open>auto simp: Let_def SIZEOF_PORT_DESCRIPTOR_def\<close>)
qed simp

lemma get32_cong: "(\<And>i. i < 4 \<Longrightarrow> d (off + i) = d' (off + i)) \<Longrightarrow> get32 d off = get32 d' off"
  unfolding get32_def by (rule fold_cong) auto

text \<open>The ports of the header are looked up in the sender's space; nothing else changes.\<close>
lemma copyin_header_ports_effect:
  assumes "copyin_header_ports k (Some sp) s = Some (err, s')"
  shows "\<exists>f. s' = upd_kmsg k f s \<and> ikm_data (f m) = ikm_data m \<and> ikm_ool_count (f m) = ikm_ool_count m \<and>
    ikm_sender_pid (f m) = ikm_sender_pid m \<and> ikm_sender_uid (f m) = ikm_sender_uid m \<and>
    (err = CHIMERA_SUCCESS \<longrightarrow> (\<exists>p. ikm_remote_port (f m) = Some p \<and>
       ipc_port_lookup (Some sp) (msgh_remote_port (i_kmsg s k)) (ikm_remote_right (f m)) s = Some (Some p)))"
proof -
  define right where "right = (if MACH_MSGH_BITS_REMOTE (msgh_bits (i_kmsg s k)) = MACH_PORT_RIGHT_SEND_ONCE
    then MACH_PORT_TYPE_SEND_ONCE else MACH_PORT_TYPE_SEND)"
  note a = assms [unfolded copyin_header_ports_def Let_def, folded right_def]
  from a obtain remote where l: "ipc_port_lookup (Some sp) (msgh_remote_port (i_kmsg s k)) right s = Some remote"
    by (auto simp: bind_eq_Some_conv)
  have two: "upd_kmsg k g (upd_kmsg k f t) = upd_kmsg k (g \<circ> f) t" for f g t by (simp add: upd_kmsg_def)
  show ?thesis
  proof (cases remote)
    case None
    with a l show ?thesis by (intro exI [of _ "\<lambda>m. m"]) (auto simp: upd_kmsg_def)
  next
    case (Some r)
    note b = a [unfolded l Some bind.simps option.case two]
    let ?f = "\<lambda>m. m\<lparr>ikm_remote_port := Some r, ikm_remote_right := right\<rparr>"
    let ?g = "\<lambda>w (m :: ipc_kmsg). m\<lparr>ikm_local_port := Some (fst w), ikm_local_right := snd w\<rparr>"
    have "s' = upd_kmsg k ?f s \<or> (\<exists>w. s' = upd_kmsg k (?g w \<circ> ?f) s)"
      using b by (auto simp: bind_eq_Some_conv two split: if_splits option.splits)
    then show ?thesis
    proof (elim disjE exE)
      assume "s' = upd_kmsg k ?f s"
      then show ?thesis using l Some by (intro exI [of _ ?f]) simp
    next
      fix w assume "s' = upd_kmsg k (?g w \<circ> ?f) s"
      then show ?thesis using l Some by (intro exI [of _ "?g w \<circ> ?f"]) simp
    qed
  qed
qed

section \<open>A message from user space\<close>

text \<open>The translation of a message of \<open>e\<close> bytes: header and size stay, descriptors change only bytes 28 to \<open>e\<close>.\<close>
lemma translate_kmsg_effect:
  assumes "translate_kmsg pa k e sp s = Some (err, s')"
  shows "i_ports s' = i_ports s" "i_spaces s' = i_spaces s" "\<And>j. j \<noteq> k \<Longrightarrow> i_kmsg s' j = i_kmsg s j"
    "\<And>i. i < 28 \<or> e \<le> i \<Longrightarrow> ikm_data (i_kmsg s' k) i = ikm_data (i_kmsg s k) i"
    "unat (ikm_ool_count (i_kmsg s' k)) \<le> unat (ikm_ool_count (i_kmsg s k)) + 16"
    "ikm_sender_pid (i_kmsg s' k) = (case ta_proc_pid s (is_task (i_spaces s sp)) of Some pid \<Rightarrow> pid | None \<Rightarrow> 0)"
    "ikm_sender_uid (i_kmsg s' k) = (case ta_proc_pid s (is_task (i_spaces s sp)) of Some _ \<Rightarrow> ta_proc_uid s (is_task (i_spaces s sp)) | None \<Rightarrow> 0)"
    "err = CHIMERA_SUCCESS \<Longrightarrow> msgh_bits (i_kmsg s k) AND MACH_MSGH_BITS_COMPLEX = 0 \<Longrightarrow> ikm_data (i_kmsg s' k) = ikm_data (i_kmsg s k)"
    "err = CHIMERA_SUCCESS \<Longrightarrow> \<exists>p. ikm_remote_port (i_kmsg s' k) = Some p \<and>
       ipc_port_lookup (Some sp) (msgh_remote_port (i_kmsg s k)) (ikm_remote_right (i_kmsg s' k)) s = Some (Some p)"
    "err = CHIMERA_SUCCESS \<Longrightarrow> msgh_bits (i_kmsg s k) AND MACH_MSGH_BITS_COMPLEX \<noteq> 0 \<Longrightarrow> 28 \<le> e"
proof -
  let ?s1 = "record_sender k sp s"
  obtain e2 s2 where p: "copyin_header_ports k (Some sp) ?s1 = Some (e2, s2)"
    using assms by (auto simp: translate_kmsg_def bind_eq_Some_conv)
  from copyin_header_ports_effect [OF p, of "i_kmsg ?s1 k"] obtain f where s2: "s2 = upd_kmsg k f ?s1"
    and f: "ikm_data (f (i_kmsg ?s1 k)) = ikm_data (i_kmsg ?s1 k)" "ikm_ool_count (f (i_kmsg ?s1 k)) = ikm_ool_count (i_kmsg ?s1 k)"
      "ikm_sender_pid (f (i_kmsg ?s1 k)) = ikm_sender_pid (i_kmsg ?s1 k)" "ikm_sender_uid (f (i_kmsg ?s1 k)) = ikm_sender_uid (i_kmsg ?s1 k)"
    and ok: "e2 = CHIMERA_SUCCESS \<Longrightarrow> \<exists>p. ikm_remote_port (f (i_kmsg ?s1 k)) = Some p \<and>
       ipc_port_lookup (Some sp) (msgh_remote_port (i_kmsg ?s1 k)) (ikm_remote_right (f (i_kmsg ?s1 k))) ?s1 = Some (Some p)" by blast
  have d: "msg_step k 28 e 16 s2 s'" if "copyin_descs pa k (Some sp) e (min 16 x) 28 s2 = Some (err, s')" for x
    by (rule msg_step_mono [OF copyin_descs_step [OF that]]) simp_all
  have m: "msg_step k 28 e 16 s2 s'" and e2: "err = CHIMERA_SUCCESS \<Longrightarrow> e2 = CHIMERA_SUCCESS"
    and sm: "err = CHIMERA_SUCCESS \<Longrightarrow> msgh_bits (i_kmsg s2 k) AND MACH_MSGH_BITS_COMPLEX = 0 \<Longrightarrow> s' = s2"
    and lo: "err = CHIMERA_SUCCESS \<Longrightarrow> msgh_bits (i_kmsg s2 k) AND MACH_MSGH_BITS_COMPLEX \<noteq> 0 \<Longrightarrow> 28 \<le> e"
    using assms p
    by (auto simp: translate_kmsg_def Let_def MACH_MSG_HEADER_SIZE_def MACH_MSG_DESCRIPTORS_MAX_def split: if_splits intro: d)
  have core: "msg_core (i_kmsg s' k) = msg_core (i_kmsg s2 k)" using m by (simp add: msg_step_def)
  have fields: "ikm_sender_pid m = ikm_sender_pid (msg_core m)" "ikm_sender_uid m = ikm_sender_uid (msg_core m)"
    "ikm_remote_port m = ikm_remote_port (msg_core m)" "ikm_remote_right m = ikm_remote_right (msg_core m)" for m
    by (simp_all add: msg_core_def)
  have q: "ikm_sender_pid (i_kmsg s' k) = ikm_sender_pid (i_kmsg s2 k)" "ikm_sender_uid (i_kmsg s' k) = ikm_sender_uid (i_kmsg s2 k)"
    "ikm_remote_port (i_kmsg s' k) = ikm_remote_port (i_kmsg s2 k)" "ikm_remote_right (i_kmsg s' k) = ikm_remote_right (i_kmsg s2 k)"
    unfolding fields [of "i_kmsg s' k"] fields [of "i_kmsg s2 k"] core by (rule refl)+
  have lk: "ipc_port_lookup (Some sp) n r ?s1 = ipc_port_lookup (Some sp) n r s" for n r
    by (simp add: ipc_port_lookup_def record_sender_def upd_kmsg_def Let_def)
  note u = record_sender_def upd_kmsg_def Let_def msgh_remote_port_def msgh_bits_def
  show "i_ports s' = i_ports s" "i_spaces s' = i_spaces s" "\<And>j. j \<noteq> k \<Longrightarrow> i_kmsg s' j = i_kmsg s j"
    "\<And>i. i < 28 \<or> e \<le> i \<Longrightarrow> ikm_data (i_kmsg s' k) i = ikm_data (i_kmsg s k) i"
    "unat (ikm_ool_count (i_kmsg s' k)) \<le> unat (ikm_ool_count (i_kmsg s k)) + 16"
    using m f(1,2) unfolding msg_step_def s2 by (auto simp: u)
  show "ikm_sender_pid (i_kmsg s' k) = (case ta_proc_pid s (is_task (i_spaces s sp)) of Some pid \<Rightarrow> pid | None \<Rightarrow> 0)"
    "ikm_sender_uid (i_kmsg s' k) = (case ta_proc_pid s (is_task (i_spaces s sp)) of Some _ \<Rightarrow> ta_proc_uid s (is_task (i_spaces s sp)) | None \<Rightarrow> 0)"
    using f(3,4) unfolding q s2 by (auto simp: u)
  show "err = CHIMERA_SUCCESS \<Longrightarrow> msgh_bits (i_kmsg s k) AND MACH_MSGH_BITS_COMPLEX = 0 \<Longrightarrow> ikm_data (i_kmsg s' k) = ikm_data (i_kmsg s k)"
    using sm f(1) unfolding s2 by (auto simp: u)
  show "err = CHIMERA_SUCCESS \<Longrightarrow> \<exists>p. ikm_remote_port (i_kmsg s' k) = Some p \<and>
       ipc_port_lookup (Some sp) (msgh_remote_port (i_kmsg s k)) (ikm_remote_right (i_kmsg s' k)) s = Some (Some p)"
    using ok [OF e2] unfolding q s2 lk by (auto simp: u)
  show "err = CHIMERA_SUCCESS \<Longrightarrow> msgh_bits (i_kmsg s k) AND MACH_MSGH_BITS_COMPLEX \<noteq> 0 \<Longrightarrow> 28 \<le> e"
    using lo f(1) unfolding s2 by (auto simp: u)
qed

text \<open>The stages of a call.\<close>
lemma ipc_kmsg_copyin_stages:
  assumes "ipc_kmsg_copyin pa k va sp s = Some (err, s')" and "no_frame_0 (get_pm s)"
  obtains (rejected) "s' = s" "err \<noteq> CHIMERA_SUCCESS"
  | (partial) bs where "s' = upd_kmsg k (put_data bs) s" "length bs \<le> unat (ikm_size (i_kmsg s k))" "err \<noteq> CHIMERA_SUCCESS"
  | (stored) bs where "24 \<le> length bs" "length bs \<le> unat (ikm_size (i_kmsg s k))" "get32 (\<lambda>i. bs ! i) 4 = word_of_nat (length bs)"
      "\<And>i. i < length bs \<Longrightarrow> user_byte (va + word_of_nat i) (get_pm s) = Some (bs ! i)"
      "translate_kmsg pa k (length bs) sp (upd_kmsg k (put_data bs) s) = Some (err, s')"
proof -
  obtain e1 hdr where c1: "copyin va True (word_of_nat MACH_MSG_HEADER_SIZE) (get_pm s) = (e1, hdr)" by fastforce
  define sz where "sz = get32 (\<lambda>i. hdr ! i) 4"
  obtain e2 bs where c2: "copyin va True (ucast sz) (get_pm s) = (e2, bs)" by fastforce
  note a = assms(1) [unfolded ipc_kmsg_copyin_def Let_def c1 prod.case sz_def [symmetric] c2]
  note st1 = copyin_stored [OF assms(2) c1] and st2 = copyin_stored [OF assms(2) c2]
  have u: "unat (ucast sz :: u64) = unat sz"
    using unsigned_less [of sz, where 'a = nat] by (simp add: unsigned_ucast_eq take_bit_nat_eq_self)
  let ?tail = "if e2 \<noteq> CHIMERA_SUCCESS then Some (CHIMERA_ERR_INVALID, upd_kmsg k (put_data bs) s)
    else translate_kmsg pa k (unat sz) sp (upd_kmsg k (put_data bs) s)"
  let ?bad = "va = 0 \<or> e1 \<noteq> CHIMERA_SUCCESS \<or> unat sz < 24 \<or> MACH_MSG_SIZE_MAX < sz \<or> ikm_size (i_kmsg s k) < sz"
  have r: "(if ?bad then Some (CHIMERA_ERR_INVALID, s) else ?tail) = Some (err, s')"
    unfolding a [symmetric] by (cases "va = 0"; cases "e1 = CHIMERA_SUCCESS") (simp_all only: MACH_MSG_HEADER_SIZE_def simp_thms if_True if_False)
  consider (early) "s' = s" "err \<noteq> CHIMERA_SUCCESS"
    | (go) "e1 = CHIMERA_SUCCESS" "24 \<le> unat sz" "unat sz \<le> unat (ikm_size (i_kmsg s k))" "?tail = Some (err, s')"
  proof (cases ?bad)
    case True
    with r show ?thesis by (intro early) auto
  next
    case False
    with r show ?thesis by (intro go) (auto simp: word_less_nat_alt not_less)
  qed
  then show thesis
  proof cases
    case early
    then show ?thesis by (rule rejected)
  next
    case go
    show thesis
    proof (cases "e2 = CHIMERA_SUCCESS")
      case False
      then show ?thesis using go(3,4) st2(1) u partial [of bs] by simp
    next
      case True
      then have len: "length bs = unat sz" using st2(2) u by simp
      have h: "hdr ! i = bs ! i" if "i < 24" for i
        using st1(3) [OF go(1), of i] st2(3) [OF True, of i] that go(2) u by (simp add: MACH_MSG_HEADER_SIZE_def)
      have "get32 (\<lambda>i. bs ! i) 4 = sz" unfolding sz_def by (rule get32_cong) (simp add: h)
      then show ?thesis using go True len st2(3) u by (intro stored [of bs]) simp_all
    qed
  qed
qed

text \<open>C25 Messages from user space. Whatever user space hands in, \<^verbatim>\<open>ipc_kmsg_copyin\<close> changes no other message, no port and
  no name space, stores nothing behind the message's buffer and records at most 16 out-of-line regions, also when it fails
  half-way. When it succeeds the message fits its buffer, its header (all of it, when there are no descriptors) is what the
  active address space holds, the sender is the process of the given name space, and the destination is the port that the
  header's name denotes in that space.\<close>
theorem ipc_kmsg_copyin_safe:
  assumes "ipc_kmsg_copyin pa k va sp s = Some (err, s')" and "no_frame_0 (get_pm s)" and "ikm_ool_count (i_kmsg s k) = 0"
  shows "i_ports s' = i_ports s \<and> i_spaces s' = i_spaces s \<and> (\<forall>j. j \<noteq> k \<longrightarrow> i_kmsg s' j = i_kmsg s j) \<and>
    (\<forall>i. unat (ikm_size (i_kmsg s k)) \<le> i \<longrightarrow> ikm_data (i_kmsg s' k) i = ikm_data (i_kmsg s k) i) \<and>
    unat (ikm_ool_count (i_kmsg s' k)) \<le> 16 \<and>
    (err = CHIMERA_SUCCESS \<longrightarrow>
      (let m = i_kmsg s' k; task = is_task (i_spaces s sp) in
       24 \<le> unat (msgh_size m) \<and> msgh_size m \<le> ikm_size (i_kmsg s k) \<and>
       (\<forall>i. i < (if msgh_bits m AND MACH_MSGH_BITS_COMPLEX = 0 then unat (msgh_size m) else 28) \<longrightarrow>
          user_byte (va + word_of_nat i) (get_pm s) = Some (ikm_data m i)) \<and>
       ikm_sender_pid m = (case ta_proc_pid s task of Some pid \<Rightarrow> pid | None \<Rightarrow> 0) \<and>
       ikm_sender_uid m = (case ta_proc_pid s task of Some _ \<Rightarrow> ta_proc_uid s task | None \<Rightarrow> 0) \<and>
       (\<exists>p. ikm_remote_port m = Some p \<and> ipc_port_lookup (Some sp) (msgh_remote_port m) (ikm_remote_right m) s = Some (Some p))))"
proof (rule ipc_kmsg_copyin_stages [OF assms(1,2)])
  fix bs
  assume 1: "24 \<le> length bs" "length bs \<le> unat (ikm_size (i_kmsg s k))" "get32 (\<lambda>i. bs ! i) 4 = word_of_nat (length bs)"
    "\<And>i. i < length bs \<Longrightarrow> user_byte (va + word_of_nat i) (get_pm s) = Some (bs ! i)"
    and t: "translate_kmsg pa k (length bs) sp (upd_kmsg k (put_data bs) s) = Some (err, s')"
  let ?s0 = "upd_kmsg k (put_data bs) s"
  have d0: "i_ports ?s0 = i_ports s" "i_spaces ?s0 = i_spaces s" "\<And>j. j \<noteq> k \<Longrightarrow> i_kmsg ?s0 j = i_kmsg s j"
    "\<And>i. i < length bs \<Longrightarrow> ikm_data (i_kmsg ?s0 k) i = bs ! i"
    "\<And>i. length bs \<le> i \<Longrightarrow> ikm_data (i_kmsg ?s0 k) i = ikm_data (i_kmsg s k) i"
    "ikm_ool_count (i_kmsg ?s0 k) = ikm_ool_count (i_kmsg s k)" "ta_proc_pid ?s0 = ta_proc_pid s" "ta_proc_uid ?s0 = ta_proc_uid s"
    "\<And>n r. ipc_port_lookup (Some sp) n r ?s0 = ipc_port_lookup (Some sp) n r s"
    by (simp_all add: upd_kmsg_def put_data_def ipc_port_lookup_def Let_def)
  note e = translate_kmsg_effect [OF t, unfolded d0(1,2,6-9)]
  have hdr: "ikm_data (i_kmsg s' k) i = bs ! i" if "i < 24" for i using e(4) [of i] d0(4) [of i] 1(1) that by simp
  have "msgh_size (i_kmsg s' k) = get32 (\<lambda>i. bs ! i) 4" unfolding msgh_size_def by (rule get32_cong) (simp add: hdr)
  then have sz: "unat (msgh_size (i_kmsg s' k)) = length bs"
    using 1(2,3) unsigned_less [of "ikm_size (i_kmsg s k)", where 'a = nat] by (simp add: unsigned_of_nat take_bit_nat_eq_self)
  have bits: "msgh_bits (i_kmsg s' k) = msgh_bits (i_kmsg ?s0 k)" and rp: "msgh_remote_port (i_kmsg s' k) = msgh_remote_port (i_kmsg ?s0 k)"
    unfolding msgh_bits_def msgh_remote_port_def by (rule get32_cong; simp add: e(4))+
  have all: "ikm_data (i_kmsg s' k) i = bs ! i \<and> i < length bs" if "err = CHIMERA_SUCCESS"
    "i < (if msgh_bits (i_kmsg s' k) AND MACH_MSGH_BITS_COMPLEX = 0 then length bs else 28)" for i
    using that e(4) [of i] e(8,10) [folded bits] d0(4) [of i] by (auto split: if_splits)
  have "\<forall>i. i < (if msgh_bits (i_kmsg s' k) AND MACH_MSGH_BITS_COMPLEX = 0 then unat (msgh_size (i_kmsg s' k)) else 28) \<longrightarrow>
      user_byte (va + word_of_nat i) (get_pm s) = Some (ikm_data (i_kmsg s' k) i)" if "err = CHIMERA_SUCCESS"
    unfolding sz using all [OF that] 1(4) by simp
  moreover have "msgh_size (i_kmsg s' k) \<le> ikm_size (i_kmsg s k)" using 1(2) sz by (simp add: word_le_nat_alt)
  ultimately show ?thesis
    using e(1-7) e(9) d0 1(1,2) sz rp assms(3) by (auto simp: Let_def)
qed (use assms(3) in \<open>auto simp: upd_kmsg_def put_data_def\<close>)

text \<open>A header of 24 bytes at 0x400FE4, for the port that the first space holds under the name 1.\<close>
definition demo_msg_pm :: pmap_state where
  "demo_msg_pm = wr 0x5FE8 0x100000018 demo_user"

definition demo_msg :: ipc_state where
  "demo_msg = set_pm demo_msg_pm (demo_ipc2\<lparr>i_kmsg := (\<lambda>_. demo_kmsg\<lparr>ikm_size := 512\<rparr>)\<rparr>)"

lemma demo_msg_rd: "rd a demo_msg_pm = (if a = 0x5FE8 then 0x100000018 else if a = 0x5FF8 then 0x4241000000000000 else demo_entry a)"
  "get_active_pml4 demo_msg_pm = 0x1000"
  by (simp_all add: demo_msg_pm_def rd_wr demo_user_rd) (simp add: get_active_pml4_def wr_def demo_user_def)

lemma demo_msg_no_frame_0: "no_frame_0 demo_msg_pm"
  by (rule no_frame_0I) (simp add: demo_msg_rd demo_entry_def has_def flag_defs PTE_PHYS_MASK_def split: if_splits)

definition demo_header :: "u8 list" where
  "demo_header = [0, 0, 0, 0, 24, 0, 0, 0, 1, 0, 0, 0, 0, 0, 0, 0, 0, 0, 0, 0, 0, 0, 0, 0]"

lemma demo_header_length: "length demo_header = 24"
  by (simp add: demo_header_def)

lemma demo_msg_byte: "i < 24 \<Longrightarrow> user_byte (0x400FE4 + word_of_nat i) demo_msg_pm = Some (demo_header ! i)"
proof -
  have "\<forall>i \<in> set [0..<24]. user_byte (0x400FE4 + word_of_nat i) demo_msg_pm = Some (demo_header ! i)"
    by (simp add: demo_header_def upt_conv_Cons user_byte_def pmap_extract_def demo_msg_rd demo_entry_def idx_nat slot_eq frame_eq has_def flag_defs
      USER_TOP_def PTE_PHYS_MASK_def pbyte_def Let_def)
  then show "i < 24 \<Longrightarrow> ?thesis" by simp
qed

lemma demo_msg_copyin: "copyin 0x400FE4 True 24 demo_msg_pm = (CHIMERA_SUCCESS, demo_header)"
proof -
  have "read_run (\<lambda>i. user_byte (0x400FE4 + word_of_nat i) demo_msg_pm) 24 = (True, demo_header)"
  proof -
    have t: "takeWhile (\<lambda>i. user_byte (0x400FE4 + word_of_nat i) demo_msg_pm \<noteq> None) [0..<24] = [0..<24]"
      by (rule takeWhile_eq_all_conv [THEN iffD2]) (simp add: demo_msg_byte)
    have m: "map (the \<circ> (\<lambda>i. user_byte (0x400FE4 + word_of_nat i) demo_msg_pm)) [0..<24] = map (\<lambda>i. demo_header ! i) [0..<24]"
      by (rule map_cong) (simp_all add: demo_msg_byte)
    have n: "map (\<lambda>i. demo_header ! i) [0..<24] = demo_header"
      by (rule map_nth [of demo_header, unfolded demo_header_length])
    show ?thesis unfolding read_run_def t m n Let_def by simp
  qed
  then show ?thesis
    by (simp add: copyin_eq [OF demo_msg_no_frame_0] bad_range_def USER_SPACE_MIN_def USER_SPACE_MAX_def)
qed

lemma demo_space0:
  "is_table_used (i_spaces demo_ipc2 0) = 2" "is_table_size (i_spaces demo_ipc2 0) = 64" "is_active (i_spaces demo_ipc2 0)"
  "is_table (i_spaces demo_ipc2 0) (Suc 0) = \<lparr>ie_object = Some (IE_PORT 0), ie_bits = MACH_PORT_TYPE_SEND_RECEIVE, ie_urefs = 1, ie_gen = 0\<rparr>"
  by (simp_all add: demo_ipc2_def demo_ipc1_def demo_eval upd_space_def upd_port_def)

lemma demo_lookup: "ipc_port_lookup (Some 0) 1 MACH_PORT_TYPE_SEND demo_ipc2 = Some (Some 0)"
  using demo_ipc2_fields(8)
  by (simp add: ipc_port_lookup_def Let_def demo_space0 demo_eval MACH_PORT_TYPE_SEND_RECEIVE_def word_le_nat_alt)

lemma lookup_frame: "i_spaces s = i_spaces s' \<Longrightarrow> i_ports s = i_ports s' \<Longrightarrow> ipc_port_lookup sp n r s = ipc_port_lookup sp n r s'"
  unfolding ipc_port_lookup_def by (elim ssubst) (rule refl)

lemma demo_msg_accepted: "\<exists>s'. ipc_kmsg_copyin (\<lambda>_. 0) (KMSG_POOL 0) 0x400FE4 0 demo_msg = Some (CHIMERA_SUCCESS, s')"
proof -
  have pm: "get_pm demo_msg = demo_msg_pm" by (simp add: demo_msg_def get_pm_def set_pm_def)
  have g: "get32 (\<lambda>i. demo_header ! i) 0 = 0" "get32 (\<lambda>i. demo_header ! i) 4 = 24" "get32 (\<lambda>i. demo_header ! i) 8 = 1" "get32 (\<lambda>i. demo_header ! i) 12 = 0"
    by (simp_all add: get32_def demo_header_def upt_conv_Cons)
  let ?s1 = "upd_kmsg (KMSG_POOL 0) (put_data demo_header) demo_msg"
  let ?s2 = "record_sender (KMSG_POOL 0) 0 ?s1"
  have d: "ikm_data (i_kmsg ?s2 (KMSG_POOL 0)) i = demo_header ! i" if "i < 24" for i
    using that by (simp add: record_sender_def upd_kmsg_def put_data_def demo_header_length Let_def)
  have h: "get32 (ikm_data (i_kmsg ?s2 (KMSG_POOL 0))) off = get32 (\<lambda>i. demo_header ! i) off" if "off \<le> 20" for off
    by (rule get32_cong) (use that in \<open>simp add: d\<close>)
  have l: "ipc_port_lookup (Some 0) 1 MACH_PORT_TYPE_SEND ?s2 = Some (Some 0)"
    using demo_lookup lookup_frame [of ?s2 demo_ipc2] by (simp add: record_sender_def upd_kmsg_def demo_msg_def set_pm_def Let_def)
  have p: "copyin_header_ports (KMSG_POOL 0) (Some 0) ?s2 = Some (CHIMERA_SUCCESS,
      upd_kmsg (KMSG_POOL 0) (\<lambda>m. m\<lparr>ikm_remote_port := Some 0, ikm_remote_right := MACH_PORT_TYPE_SEND\<rparr>) ?s2)"
    by (simp add: copyin_header_ports_def Let_def msgh_remote_port_def msgh_bits_def msgh_local_port_def h g MACH_MSGH_BITS_REMOTE_def
        MACH_PORT_RIGHT_SEND_ONCE_def l MACH_PORT_NAME_NULL_def)
  have "msgh_bits (i_kmsg (upd_kmsg (KMSG_POOL 0) (\<lambda>m. m\<lparr>ikm_remote_port := Some 0, ikm_remote_right := MACH_PORT_TYPE_SEND\<rparr>) ?s2) (KMSG_POOL 0)) = 0"
    using h [of 0] g(1) by (simp add: msgh_bits_def upd_kmsg_def)
  then have t: "\<exists>s'. translate_kmsg (\<lambda>_. 0) (KMSG_POOL 0) 24 0 ?s1 = Some (CHIMERA_SUCCESS, s')"
    by (simp add: translate_kmsg_def p Let_def)
  have z: "ikm_size (i_kmsg demo_msg (KMSG_POOL 0)) = 512" by (simp add: demo_msg_def)
  show ?thesis
    using t by (simp add: ipc_kmsg_copyin_def MACH_MSG_HEADER_SIZE_def pm demo_msg_copyin g z MACH_MSG_SIZE_MAX_def Let_def)
qed

theorem ipc_kmsg_copyin_safe_witness:
  "\<exists>s'. ipc_kmsg_copyin (\<lambda>_. 0) (KMSG_POOL 0) 0x400FE4 0 demo_msg = Some (CHIMERA_SUCCESS, s') \<and>
     msgh_size (i_kmsg s' (KMSG_POOL 0)) \<le> 512 \<and> i_spaces s' = i_spaces demo_msg"
proof -
  obtain s' where c: "ipc_kmsg_copyin (\<lambda>_. 0) (KMSG_POOL 0) 0x400FE4 0 demo_msg = Some (CHIMERA_SUCCESS, s')"
    using demo_msg_accepted by blast
  have f: "no_frame_0 (get_pm demo_msg)" using demo_msg_no_frame_0 by (simp add: demo_msg_def get_pm_def set_pm_def)
  have z: "ikm_ool_count (i_kmsg demo_msg (KMSG_POOL 0)) = 0" "ikm_size (i_kmsg demo_msg (KMSG_POOL 0)) = 512"
    by (simp_all add: demo_msg_def demo_kmsg_def)
  show ?thesis using c ipc_kmsg_copyin_safe [OF c f z(1)] z(2) by (auto simp: Let_def)
qed

section \<open>Out-of-line memory\<close>

lemma hhdm_simps [simp]:
  "km_hhdm (pk (wr a v s)) = km_hhdm (pk s)" "km_hhdm (pk (zero_page f s)) = km_hhdm (pk s)" "km_hhdm (pk (pm_release x s)) = km_hhdm (pk s)"
  by (simp_all add: wr_def poke_def zero_page_def memset0_def pm_release_def)

lemma ensure_table_hhdm: "ensure_table b t i s = (r, s') \<Longrightarrow> km_hhdm (pk s') = km_hhdm (pk s)"
  by (auto simp: ensure_table_def pm_alloc_def Let_def split: prod.splits if_splits)

lemma map_hhdm: "pmap_map_user_page root va pa fl s = (res, s') \<Longrightarrow> km_hhdm (pk s') = km_hhdm (pk s)"
  by (auto simp: pmap_map_user_page_def pmap_map_user_page_unlocked_def set_leaf_def Let_def
      split: if_splits prod.splits option.splits dest!: ensure_table_hhdm)

text \<open>A page in use that is no table does not become one.\<close>
lemma grown_held:
  assumes g: "grown s T s' T'" and f: "held s f" "T f = None"
  shows "refs_of s' f = refs_of s f" and "s_max_phys_page (pmm_of s') = s_max_phys_page (pmm_of s)"
proof -
  show "s_max_phys_page (pmm_of s') = s_max_phys_page (pmm_of s)" using g unfolding grown_def by (elim conjE) assumption
  have h: "4096 dvd f" "f \<noteq> 0" "refs_of s f \<noteq> 0" using f(1) by (simp_all add: held_def)
  have a: "\<forall>g. 4096 dvd g \<longrightarrow> T' g \<noteq> None \<longrightarrow> T g = None \<longrightarrow> g \<noteq> 0 \<and> managed s g \<and> refs_of s g = 0"
    using g unfolding grown_def by (elim conjE) assumption
  have b: "\<forall>g. 4096 dvd g \<longrightarrow> g \<noteq> 0 \<longrightarrow> T' g = None \<longrightarrow> refs_of s' g = refs_of s g"
    using g unfolding grown_def by (elim conjE) assumption
  have "T' f = None" using a [THEN spec, of f] h f(2) by (cases "T' f") auto
  then show "refs_of s' f = refs_of s f" using b [THEN spec, of f] h by simp
qed

text \<open>Mapping at an address that was not mapped takes no reference and gives none back.\<close>
lemma map_refs:
  assumes inv: "pt_inv s T" and root: "root_of T root" and va: "0x1000 \<le> va" "va < USER_TOP"
    and m: "pmap_map_user_page root va pa fl s = (res, s')" and np: "\<not> has (user_pte root va s) PAGE_PRESENT"
    and f: "held s f" "T f = None"
  shows "refs_of s' f = refs_of s f" and "s_max_phys_page (pmm_of s') = s_max_phys_page (pmm_of s)"
proof -
  obtain s1 T1 where i1: "pt_inv s1 T1" and g: "grown s T s1 T1" and
    c: "res = 0 \<and> s' = s1 \<or> (\<exists>pde. T1 (frame pde) = Some (frame root, path va) \<and> res = pa \<and> s' = set_leaf pde va pa fl s1)"
    using map_walk [OF inv root va m [unfolded pmap_map_user_page_def]] by blast
  note r1 = grown_held(1) [OF g f]
  have "pmm_of s' = pmm_of s1"
    using c
  proof (elim disjE conjE exE)
    fix pde assume t: "T1 (frame pde) = Some (frame root, path va)" and s': "s' = set_leaf pde va pa fl s1"
    note root1 = grown_root [OF g root]
    have "rd (frame pde + 8 * idx1 va) s1 = user_pte root va s1" using user_pte_eq(1) [OF i1 root1 va(2) t] by simp
    moreover have "user_pte root va s1 = user_pte root va s" by (rule grown_view [OF inv i1 g root va(2)])
    ultimately have "\<not> has (rd (slot pde (idx1 va)) s1) PAGE_PRESENT" using np by (simp add: slot_eq)
    then show "pmm_of s' = pmm_of s1" by (simp add: s' set_leaf_def Let_def)
  qed simp
  then show "refs_of s' f = refs_of s f" and "s_max_phys_page (pmm_of s') = s_max_phys_page (pmm_of s)"
    using r1 grown_held(2) [OF g f] by (simp_all add: refs_of_def)
qed

lemma one_ool_page:
  assumes "0 < (n :: u64)" and "n \<le> 4096"
  shows "unat (n + 4095) div 4096 = Suc 0"
proof -
  have "unat n \<le> 4096" "0 < unat n" using assms by (simp_all add: word_le_nat_alt word_less_nat_alt unat_gt_0)
  moreover from this have "unat (n + 4095) = unat n + 4095" by (subst unat_add_lem [THEN iffD1]) simp_all
  ultimately show ?thesis by simp
qed

text \<open>The only page of a region in a message of the pool.\<close>
lemma free_one_region:
  fixes s :: ipc_state
  assumes "ikm_ool_count (i_kmsg s (KMSG_POOL i)) = 1" and "ikm_ool_regions (i_kmsg s (KMSG_POOL i)) 0 = \<lparr>ool_addr = pa + word_of_nat (km_hhdm (sc_km (i_sched s))), ool_size = n\<rparr>"
    and "0 < n" and "n \<le> 4096" and "pa \<noteq> 0" and "pa + word_of_nat (km_hhdm (sc_km (i_sched s))) \<noteq> 0" and "unat pa \<noteq> PADDR_INVALID"
  shows "get_pm (ipc_kmsg_free (Some (KMSG_POOL i)) s) = pm_release pa (get_pm s)"
proof -
  note n = one_ool_page [OF assms(3,4)]
  have "unat pa mod 18446744073709551616 = unat pa" using unsigned_less [of pa, where 'a = nat] by simp
  then have "pmm_free_contiguous (unat pa) (Suc 0) = pmm_release_page (unat pa)"
    using assms(5,7) unat_eq_zero [of pa] by (simp add: fun_eq_iff pmm_free_contiguous_def)
  then show ?thesis
    using assms by (simp add: ipc_kmsg_free_def free_ool_def Let_def n upd_kmsg_def i_pmm_def get_pm_def pm_release_def)
qed

lemma copyout_one_page:
  assumes "root = ta_vm_map (sc_tasks (i_sched s) (is_task (i_spaces s sp)))" and "root \<noteq> 0"
    and "ikm_ool_regions (i_kmsg s (KMSG_POOL i)) 0 = \<lparr>ool_addr = pa + word_of_nat (km_hhdm (sc_km (i_sched s))), ool_size = n\<rparr>"
    and "0 < n" and "n \<le> 4096"
  shows "copyout_ool (KMSG_POOL i) sp off 0 s =
    upd_kmsg (KMSG_POOL i) (put_at off (le64 OOL_TARGET_BASE)) (set_pm (snd (pmap_map_user_page root OOL_TARGET_BASE pa 7 (get_pm s))) s)"
  using assms by (simp add: copyout_ool_def Let_def map_region_def one_ool_page)

text \<open>C26 Out-of-line memory is freed under its receiver. Receiving a message with one page of out-of-line memory, which only
  the message refers to, maps the page at 0x700000000000 and then frees the message, and the page with it: unless the receiver
  ran out of memory for page tables, it can still read and write the page through its mapping while the page is back on
  the free list for anyone to allocate.\<close>
theorem ool_page_freed_while_mapped:
  assumes "pt_inv (get_pm s) T" and "root_of T root" and "root = ta_vm_map (sc_tasks (i_sched s) (is_task (i_spaces s sp)))"
    and "ikm_ool_count (i_kmsg s (KMSG_POOL i)) = 1"
    and "ikm_ool_regions (i_kmsg s (KMSG_POOL i)) 0 = \<lparr>ool_addr = pa + word_of_nat (km_hhdm (sc_km (i_sched s))), ool_size = n\<rparr>"
    and "0 < n" and "n \<le> 4096" and "pa AND PTE_PHYS_MASK = pa" and "held (get_pm s) (unat pa)" and "T (unat pa) = None"
    and "refs_of (get_pm s) (unat pa) = 1" and "spare (get_pm s) T (unat pa) = 1" and "refs_of (get_pm s) 0 \<noteq> 0"
    and "pa + word_of_nat (km_hhdm (sc_km (i_sched s))) \<noteq> 0" and "user_pte root OOL_TARGET_BASE (get_pm s) = 0"
  shows "let s1 = copyout_ool (KMSG_POOL i) sp off 0 s; s2 = ipc_kmsg_free (Some (KMSG_POOL i)) s1 in
    free_set (pmm_of (get_pm s1)) = {} \<or>
    pmap_extract root OOL_TARGET_BASE (get_pm s2) = pa \<and> unat pa div 4096 \<in> free_set (pmm_of (get_pm s2))"
proof -
  let ?pm = "get_pm s" and ?va = "OOL_TARGET_BASE"
  obtain res pm' where m: "pmap_map_user_page root ?va pa 7 ?pm = (res, pm')" by fastforce
  have va: "0x1000 \<le> ?va" "?va < USER_TOP" and tv: "\<not> pmap_is_trampoline_va ?va"
    by (simp_all add: OOL_TARGET_BASE_def USER_TOP_def pmap_is_trampoline_va_def SIGNAL_TRAMP_VA_def)
  have fr: "frame pa = unat pa" using assms(8) by (simp add: frame_def)
  have nz: "unat pa \<noteq> 0" "managed ?pm (unat pa)" "4096 dvd unat pa" using assms(9) by (simp_all add: held_def)
  have pa: "pa \<noteq> 0" using nz(1) by auto
  have may: "may_map (user_pte root ?va ?pm) ?va pa 7 ?pm T"
    using assms(10,12) nz tv fr by (simp add: may_map_def PTE_PHYS_MASK_def)
  obtain T' where i': "pt_inv pm' T'" and ro: "\<And>r. root_of T' r \<longleftrightarrow> root_of T r" and rs: "res \<in> {0, pa}" and
    view: "\<And>root' vb. root_of T root' \<Longrightarrow> vb < USER_TOP \<Longrightarrow> user_pte root' vb pm' =
       (if res \<noteq> 0 \<and> frame root' = frame root \<and> page_of vb = page_of ?va
        then (pa AND PTE_PHYS_MASK) OR 7 OR PAGE_PRESENT OR PAGE_USER else user_pte root' vb ?pm)"
    by (rule map_view [OF assms(1,2) va pa may m [unfolded pmap_map_user_page_def]]) (blast intro: that)
  let ?s1 = "copyout_ool (KMSG_POOL i) sp off 0 s"
  have s1: "?s1 = upd_kmsg (KMSG_POOL i) (put_at off (le64 ?va)) (set_pm pm' s)"
    using copyout_one_page [of root s sp i pa n, OF assms(3) root_nonzero [OF assms(1,2)] assms(5-7)] m by simp
  have g1: "get_pm ?s1 = pm'" by (simp add: s1 upd_kmsg_def get_pm_def set_pm_def)
  have hh: "km_hhdm (sc_km (i_sched ?s1)) = km_hhdm (sc_km (i_sched s))"
    using map_hhdm [OF m] by (simp add: s1 upd_kmsg_def set_pm_def get_pm_def)
  have k1: "ikm_ool_count (i_kmsg ?s1 (KMSG_POOL i)) = 1" "ikm_ool_regions (i_kmsg ?s1 (KMSG_POOL i)) 0 =
      \<lparr>ool_addr = pa + word_of_nat (km_hhdm (sc_km (i_sched ?s1))), ool_size = n\<rparr>"
    using assms(4,5) unfolding hh by (simp_all add: s1 upd_kmsg_def put_at_def)
  have inv: "unat pa \<noteq> PADDR_INVALID" using nz(3) by (auto simp: PADDR_INVALID_def)
  have g2: "get_pm (ipc_kmsg_free (Some (KMSG_POOL i)) ?s1) = pm_release pa pm'"
    using free_one_region [OF k1 assms(6,7) pa _ inv] assms(14) g1 unfolding hh by simp
  show ?thesis
  proof (cases "res = 0")
    case True
    then have "free_set (pmm_of pm') = {}" using map_fail [OF assms(1,2) va _ pa assms(13)] m by (simp add: pmap_map_user_page_def)
    then show ?thesis by (simp add: Let_def g1)
  next
    case False
    have e: "((7 :: u64) AND PTE_PHYS_MASK) = 0" by (simp add: PTE_PHYS_MASK_def)
    have "pmap_extract root ?va pm' = pa"
      using extract_pte [OF i' _ va, of root] ro assms(2,8) view [OF assms(2) va(2)] False leaf_entry(2-4) [OF e, of pa]
      by (simp add: leaf_phys_def OOL_TARGET_BASE_def)
    then have x: "pmap_extract root ?va (pm_release pa pm') = pa" by (simp only: pmap_extract_def release_fields)
    have "refs_of pm' (unat pa) = 1" using map_refs(1) [OF assms(1,2) va m _ assms(9,10)] assms(11,15) by (simp add: not_present_0)
    moreover have "pmm_inv (pmm_of pm')" using i' by (simp add: pt_inv_def)
    moreover have "managed pm' (unat pa)"
      using map_refs(2) [OF assms(1,2) va m _ assms(9,10)] assms(15) nz(2) by (simp add: not_present_0 managed_def)
    ultimately have "unat pa div 4096 \<in> free_set (pmm_of (pm_release pa pm'))"
      using release_page_eq(3) [of "pmm_of pm'" "unat pa", OF _ refl] by (simp add: managed_def refs_of_def CHIMERA_PAGE_SIZE_def)
    with x show ?thesis by (simp add: Let_def g2)
  qed
qed

text \<open>A message with 100 bytes in page 2; the receiver's tables are the empty ones of \<^const>\<open>demo_pmap\<close>.\<close>
definition demo_ool :: ipc_state where
  "demo_ool = (let s = set_pm demo_pmap demo_ipc2 in
     s\<lparr>i_sched := (i_sched s)\<lparr>sc_tasks := (\<lambda>t. (sc_tasks (i_sched s) t)\<lparr>ta_vm_map := 0x1000\<rparr>)\<rparr>,
       i_kmsg := (\<lambda>_. demo_kmsg\<lparr>ikm_ool_count := 1, ikm_ool_regions := (\<lambda>_. \<lparr>ool_addr = 0x10002000, ool_size = 100\<rparr>)\<rparr>)\<rparr>)"

lemma demo_page_2: "refs_of demo_pmap 0x2000 = 1" "spare demo_pmap demo_places 0x2000 = 1"
proof -
  show r: "refs_of demo_pmap 0x2000 = 1"
    by (simp add: refs_of_def demo_pmap_def demo_pmm_def free_one_page_def upd_page_def buddy_free_block_fields demo0_def wired_page_def Let_def)
  have "mapped demo_pmap demo_places 0x2000 = {}" by (simp add: mapped_def rd_def demo_pmap_def not_present_0)
  then show "spare demo_pmap demo_places 0x2000 = 1" by (simp add: spare_def tramp_refs_def r) (simp add: demo_pmap_def)
qed

theorem ool_page_freed_while_mapped_witness:
  "let s1 = copyout_ool (KMSG_POOL 0) 0 28 0 demo_ool; s2 = ipc_kmsg_free (Some (KMSG_POOL 0)) s1 in
    free_set (pmm_of (get_pm s1)) = {} \<or>
    pmap_extract 0x1000 OOL_TARGET_BASE (get_pm s2) = 0x2000 \<and> 2 \<in> free_set (pmm_of (get_pm s2))"
proof -
  have g: "get_pm demo_ool = demo_pmap" by (simp add: demo_ool_def Let_def get_pm_def set_pm_def)
  have h: "km_hhdm (sc_km (i_sched demo_ool)) = 0x10000000" by (simp add: demo_ool_def Let_def set_pm_def demo_pmap_def)
  have k: "i_kmsg demo_ool (KMSG_POOL 0) = demo_kmsg\<lparr>ikm_ool_count := 1, ikm_ool_regions := (\<lambda>_. \<lparr>ool_addr = 0x10002000, ool_size = 100\<rparr>)\<rparr>"
    and t: "0x1000 = ta_vm_map (sc_tasks (i_sched demo_ool) (is_task (i_spaces demo_ool 0)))" by (simp_all add: demo_ool_def Let_def)
  have "held demo_pmap (unat (0x2000 :: u64))" using demo_refs(2,4) by (simp add: held_def)
  with ool_page_freed_while_mapped [where s = demo_ool and T = demo_places and root = "0x1000" and sp = 0 and i = 0 and pa = "0x2000" and n = 100 and off = 28,
      unfolded g h, OF demo_inv(1,2) t] demo_inv(4) demo_page_2 demo_refs(3)
  show ?thesis by (simp add: k g h demo_places_def PTE_PHYS_MASK_def)
qed

end
