(* ===== verification/Net.thy ===== *)
theory Net
  imports Chimera_Prelude Sll "HOL-Library.Monad_Syntax"
begin

text \<open>
  The data of the network stack: packet buffers, interfaces, control blocks and sockets (the headers under
  \<^verbatim>\<open>kernel/include/net\<close> and the static tables of \<^verbatim>\<open>kernel/net\<close>), byte order, and the Internet checksum. A pointer to an
  element of a static pool is its index. The locks are not modelled, with one exception: \<^verbatim>\<open>s_net_input_lock\<close>, which the
  stack holds while it processes a frame. An operation has the value \<open>None\<close> when the code would write outside a buffer, read
  bytes that were never stored, use a control block of the wrong kind, follow a null pointer or never return.
\<close>

unbundle bit_operations_syntax

section \<open>Byte order\<close>

definition htons :: "u16 \<Rightarrow> u16" where
  "htons v = push_bit 8 (v AND 0xFF) OR (drop_bit 8 v AND 0xFF)"

definition ntohs :: "u16 \<Rightarrow> u16" where "ntohs v = htons v"

definition htonl :: "u32 \<Rightarrow> u32" where
  "htonl v = push_bit 24 (v AND 0xFF) OR push_bit 16 (drop_bit 8 v AND 0xFF) OR
     push_bit 8 (drop_bit 16 v AND 0xFF) OR (drop_bit 24 v AND 0xFF)"

definition ntohl :: "u32 \<Rightarrow> u32" where "ntohl v = htonl v"

text \<open>How the machine stores and loads a word: least significant byte first.\<close>
definition st16 :: "u16 \<Rightarrow> u8 list" where "st16 w = [ucast w, ucast (drop_bit 8 w)]"
definition st32 :: "u32 \<Rightarrow> u8 list" where
  "st32 w = [ucast w, ucast (drop_bit 8 w), ucast (drop_bit 16 w), ucast (drop_bit 24 w)]"

definition ld16 :: "u8 list \<Rightarrow> nat \<Rightarrow> u16" where
  "ld16 bs i = ucast (bs ! i) OR push_bit 8 (ucast (bs ! (i + 1)))"
definition ld32 :: "u8 list \<Rightarrow> nat \<Rightarrow> u32" where
  "ld32 bs i = ucast (bs ! i) OR push_bit 8 (ucast (bs ! (i + 1))) OR push_bit 16 (ucast (bs ! (i + 2))) OR push_bit 24 (ucast (bs ! (i + 3)))"

text \<open>A store of some bytes inside a buffer.\<close>
definition splice :: "nat \<Rightarrow> 'a list \<Rightarrow> 'a list \<Rightarrow> 'a list" where
  "splice off bs xs = take off xs @ bs @ drop (off + length bs) xs"

section \<open>Checksums\<close>

text \<open>The two loops of the checksum functions: 16-bit words (and a last odd byte) are added up in 32 bits, then the carries are folded in.\<close>
fun sum_words :: "u8 list \<Rightarrow> u32 \<Rightarrow> u32" where
  "sum_words (a # b # bs) acc = sum_words bs (acc + (ucast a OR push_bit 8 (ucast b)))"
| "sum_words [a] acc = acc + ucast a"
| "sum_words [] acc = acc"

lemma halves:
  fixes w :: u32
  shows "unat (w AND 0xFFFF) = unat w mod 65536" and "unat (drop_bit 16 w) = unat w div 65536"
proof -
  have "w AND 0xFFFF = take_bit 16 w" by (simp add: take_bit_eq_mask mask_eq_exp_minus_1)
  then have "unat (w AND 0xFFFF) = take_bit 16 (unat w)" by (simp only: unsigned_take_bit_eq)
  then show "unat (w AND 0xFFFF) = unat w mod 65536" by (simp add: take_bit_eq_mod)
  show "unat (drop_bit 16 w) = unat w div 65536" by (simp only: unat_drop_bit_eq) (simp add: drop_bit_eq_div)
qed

lemma halves_sum: "unat ((w AND 0xFFFF) + drop_bit 16 w :: u32) = unat w mod 65536 + unat w div 65536"
proof -
  have "unat w < 2 ^ 32" using unsigned_less [of w, where 'a = nat] by simp
  then have "unat (w AND 0xFFFF) + unat (drop_bit 16 w) < 2 ^ 32" unfolding halves by linarith
  then show ?thesis unfolding halves [symmetric] by (subst unat_add_lem [THEN iffD1]) simp_all
qed

function fold_carries :: "u32 \<Rightarrow> u32" where
  "fold_carries acc = (if drop_bit 16 acc = 0 then acc else fold_carries ((acc AND 0xFFFF) + drop_bit 16 acc))"
  by pat_completeness auto
termination
proof (relation "measure unat")
  fix acc :: u32
  assume "drop_bit 16 acc \<noteq> 0"
  then have "0 < unat acc div 65536" using halves(2) [of acc] by (metis unat_eq_zero neq0_conv)
  then have "unat acc mod 65536 + unat acc div 65536 < unat acc" using div_mult_mod_eq [of "unat acc" 65536] by linarith
  then show "((acc AND 0xFFFF) + drop_bit 16 acc, acc) \<in> measure unat" by (simp add: halves_sum)
qed simp

declare fold_carries.simps [simp del]

definition in_checksum :: "u8 list \<Rightarrow> u16" where
  "in_checksum buf = ucast (NOT (fold_carries (sum_words buf 0)))"

definition in_pseudo_checksum :: "u32 \<Rightarrow> u32 \<Rightarrow> u8 \<Rightarrow> u16 \<Rightarrow> u8 list \<Rightarrow> u16" where
  "in_pseudo_checksum src dst proto proto_len payload =
     ucast (NOT (fold_carries (sum_words payload
       ((drop_bit 16 src AND 0xFFFF) + (src AND 0xFFFF) + (drop_bit 16 dst AND 0xFFFF) + (dst AND 0xFFFF)
        + ucast (htons (ucast proto)) + ucast (htons proto_len)))))"

section \<open>Packet buffers and interfaces\<close>

definition MLEN :: nat where "MLEN = 256"
definition MCLBYTES :: nat where "MCLBYTES = 2048"
definition SIZEOF_PKTHDR :: nat where "SIZEOF_PKTHDR = 16"
definition MT_FREE :: u16 where "MT_FREE = 0"
definition MT_DATA :: u16 where "MT_DATA = 1"
definition MT_HEADER :: u16 where "MT_HEADER = 2"
definition M_EXT :: u16 where "M_EXT = 1"
definition M_PKTHDR :: u16 where "M_PKTHDR = 2"
definition MBUF_POOL_SIZE :: nat where "MBUF_POOL_SIZE = 512"

text \<open>\<open>m_u\<close> holds the bytes of the union at the end of the structure; with a packet header the data starts behind it. The header's
  fields are kept apart (an mbuf without the header never has them read). \<open>m_data\<close> is an offset into \<open>m_u\<close>, or into the mbuf's
  own cluster when it has one.\<close>
record mbuf =
  m_next :: "nat option"
  m_nextpkt :: "nat option"
  m_data :: nat
  m_len :: int
  m_type :: u16
  m_flags :: u16
  m_pkthdr_rcvif :: "nat option"
  m_pkthdr_len :: int
  m_u :: "u8 list"

definition IFF_UP :: u16 where "IFF_UP = 1"
definition IFF_LOOPBACK :: u16 where "IFF_LOOPBACK = 8"
definition IFF_RUNNING :: u16 where "IFF_RUNNING = 0x40"
definition INADDR_LOOPBACK :: u32 where "INADDR_LOOPBACK = 0x7F000001"
definition INADDR_BROADCAST :: u32 where "INADDR_BROADCAST = 0xFFFFFFFF"

text \<open>The two output routines an interface can have.\<close>
datatype if_output_fn = LOOPBACK_OUTPUT | E1000_IFNET_OUTPUT

record ifnet =
  if_name :: string
  if_flags :: u16
  if_mtu :: u32
  if_mac :: "u8 list"
  if_ip :: u32
  if_netmask :: u32
  if_bcast :: u32
  if_gateway :: u32
  if_dns :: u32
  ifi_ipackets :: u64
  ifi_opackets :: u64
  ifi_ibytes :: u64
  ifi_obytes :: u64
  if_output :: "if_output_fn option"
  if_next :: "nat option"

record arp_entry =
  ae_ip :: u32
  ae_mac :: "u8 list"
  ae_valid :: bool

record ping_listener =
  pl_id :: u16
  pl_seq :: u16
  pl_received :: bool

section \<open>Sockets and control blocks\<close>

definition AF_UNIX :: int where "AF_UNIX = 1"
definition AF_INET :: int where "AF_INET = 2"
definition SOCK_STREAM :: int where "SOCK_STREAM = 1"
definition SOCK_DGRAM :: int where "SOCK_DGRAM = 2"
definition IPPROTO_ICMP :: u8 where "IPPROTO_ICMP = 1"
definition IPPROTO_TCP :: u8 where "IPPROTO_TCP = 6"
definition IPPROTO_UDP :: u8 where "IPPROTO_UDP = 17"
definition SS_ISCONNECTED :: u16 where "SS_ISCONNECTED = 2"
definition SS_ISCONNECTING :: u16 where "SS_ISCONNECTING = 4"
definition SS_CANTSENDMORE :: u16 where "SS_CANTSENDMORE = 0x10"
definition SS_CANTRCVMORE :: u16 where "SS_CANTRCVMORE = 0x20"
definition SB_MAX :: u32 where "SB_MAX = 0x40000"
definition CHIMERA_SOCKET_MAGIC :: u64 where "CHIMERA_SOCKET_MAGIC = 0x534F434B45542121"

record sockbuf =
  sb_cc :: u32
  sb_hiwat :: u32
  sb_mb :: "nat option"
  sb_last :: "nat option"

text \<open>What the untyped pointer \<^verbatim>\<open>so_pcb\<close> points to.\<close>
datatype pcb_ref = UDP_PCB nat | TCP_PCB nat

record socket =
  so_signature :: u64
  so_type :: int
  so_state :: u16
  so_pcb :: "pcb_ref option"
  so_head :: "nat option"
  so_q0 :: "nat option"
  so_q :: "nat option"
  so_qlimit :: int
  so_qlen :: int
  so_snd :: sockbuf
  so_rcv :: sockbuf
  so_error :: u32
  so_options :: u32
  so_rcvtimeo :: u32
  so_sndtimeo :: u32

record udp_pcb =
  up_so :: "nat option"
  up_local_ip :: u32
  up_local_port :: u16
  up_remote_ip :: u32
  up_remote_port :: u16
  up_bound :: bool

datatype tcp_state =
    TCPS_CLOSED | TCPS_LISTEN | TCPS_SYN_SENT | TCPS_SYN_RECEIVED | TCPS_ESTABLISHED | TCPS_CLOSE_WAIT
  | TCPS_FIN_WAIT_1 | TCPS_CLOSING | TCPS_LAST_ACK | TCPS_FIN_WAIT_2 | TCPS_TIME_WAIT

record tcp_pcb =
  tp_so :: "nat option"
  tp_state :: tcp_state
  tp_local_ip :: u32
  tp_local_port :: u16
  tp_remote_ip :: u32
  tp_remote_port :: u16
  tp_iss :: u32
  tp_snd_una :: u32
  tp_snd_nxt :: u32
  tp_snd_wnd :: u32
  tp_irs :: u32
  tp_rcv_nxt :: u32
  tp_rcv_wnd :: u32
  tp_bound :: bool

text \<open>\<open>e_sent\<close> lists the frames handed to the Ethernet device, oldest first; \<open>e_rx\<close> are the received frames in its ring, the current
  one first; \<open>e_arrivals\<close> says which frames have arrived by each of the coming polls. Interface 0 is the loopback interface, interface 1 the one of the device.\<close>
record net_state =
  s_mbuf_pool :: "nat \<Rightarrow> mbuf"
  s_cluster_pool :: "nat \<Rightarrow> u8 list"
  s_mbuf_freelist :: "nat option"
  n_ifnets :: "nat \<Rightarrow> ifnet"
  s_if_list :: "nat option"
  s_net_input_lock :: bool
  s_arp_table :: "nat \<Rightarrow> arp_entry"
  s_ip_id_counter :: u16
  s_ping_listeners :: "nat \<Rightarrow> ping_listener"
  s_udp_pcbs :: "nat \<Rightarrow> udp_pcb"
  s_ephemeral_port :: u16
  s_tcp_pcbs :: "nat \<Rightarrow> tcp_pcb"
  s_ephemeral_tcp_port :: u16
  s_iss_counter :: u32
  s_socket_pool :: "nat \<Rightarrow> socket"
  g_e1000_present :: bool
  e_sent :: "u8 list list"
  e_rx :: "u8 list list"
  e_arrivals :: "u8 list list list"

abbreviation mb :: "net_state \<Rightarrow> nat \<Rightarrow> mbuf" where "mb s n \<equiv> s_mbuf_pool s n"
abbreviation sock :: "net_state \<Rightarrow> nat \<Rightarrow> socket" where "sock s n \<equiv> s_socket_pool s n"

definition upd_mb :: "nat \<Rightarrow> (mbuf \<Rightarrow> mbuf) \<Rightarrow> net_state \<Rightarrow> net_state" where
  "upd_mb n f s = s\<lparr>s_mbuf_pool := (s_mbuf_pool s)(n := f (mb s n))\<rparr>"

definition upd_if :: "nat \<Rightarrow> (ifnet \<Rightarrow> ifnet) \<Rightarrow> net_state \<Rightarrow> net_state" where
  "upd_if n f s = s\<lparr>n_ifnets := (n_ifnets s)(n := f (n_ifnets s n))\<rparr>"

definition upd_so :: "nat \<Rightarrow> (socket \<Rightarrow> socket) \<Rightarrow> net_state \<Rightarrow> net_state" where
  "upd_so n f s = s\<lparr>s_socket_pool := (s_socket_pool s)(n := f (sock s n))\<rparr>"

definition upd_up :: "nat \<Rightarrow> (udp_pcb \<Rightarrow> udp_pcb) \<Rightarrow> net_state \<Rightarrow> net_state" where
  "upd_up n f s = s\<lparr>s_udp_pcbs := (s_udp_pcbs s)(n := f (s_udp_pcbs s n))\<rparr>"

definition upd_tp :: "nat \<Rightarrow> (tcp_pcb \<Rightarrow> tcp_pcb) \<Rightarrow> net_state \<Rightarrow> net_state" where
  "upd_tp n f s = s\<lparr>s_tcp_pcbs := (s_tcp_pcbs s)(n := f (s_tcp_pcbs s n))\<rparr>"

end
