(* ===== verification/Mbuf.thy ===== *)
theory Mbuf
  imports Net
begin

text \<open>
  Packet buffers, \<^verbatim>\<open>kernel/net/mbuf.c\<close>: a pool of 512 mbufs threaded through \<^verbatim>\<open>m_next\<close> into a free list, each with a
  cluster of 2048 bytes of its own.
\<close>

unbundle bit_operations_syntax

definition has_flag :: "mbuf \<Rightarrow> u16 \<Rightarrow> bool" where "has_flag m f \<longleftrightarrow> m_flags m AND f \<noteq> 0"

text \<open>The buffer that \<open>m_data\<close> points into.\<close>
definition storage :: "nat \<Rightarrow> net_state \<Rightarrow> u8 list" where
  "storage n s = (if has_flag (mb s n) M_EXT then s_cluster_pool s n else m_u (mb s n))"

definition set_storage :: "nat \<Rightarrow> u8 list \<Rightarrow> net_state \<Rightarrow> net_state" where
  "set_storage n bs s =
     (if has_flag (mb s n) M_EXT then s\<lparr>s_cluster_pool := (s_cluster_pool s)(n := bs)\<rparr> else upd_mb n (\<lambda>m. m\<lparr>m_u := bs\<rparr>) s)"

text \<open>The valid bytes of one mbuf.\<close>
definition mdata :: "nat \<Rightarrow> net_state \<Rightarrow> u8 list" where
  "mdata n s = take (nat (m_len (mb s n))) (drop (m_data (mb s n)) (storage n s))"

text \<open>A store at \<^verbatim>\<open>m->m_data + off\<close>.\<close>
definition mwrite :: "nat \<Rightarrow> nat \<Rightarrow> u8 list \<Rightarrow> net_state \<Rightarrow> net_state option" where
  "mwrite n off bs s =
     (if m_data (mb s n) + off + length bs \<le> length (storage n s)
      then Some (set_storage n (splice (m_data (mb s n) + off) bs (storage n s)) s) else None)"

text \<open>\<^verbatim>\<open>m->m_data += k; m->m_len -= k; m->m_pkthdr.len -= k\<close>\<close>
definition m_adj :: "nat \<Rightarrow> nat \<Rightarrow> net_state \<Rightarrow> net_state" where
  "m_adj n k = upd_mb n (\<lambda>m. m\<lparr>m_data := m_data m + k, m_len := m_len m - int k, m_pkthdr_len := m_pkthdr_len m - int k\<rparr>)"

definition zero_mbuf :: mbuf where
  "zero_mbuf = \<lparr>m_next = None, m_nextpkt = None, m_data = 0, m_len = 0, m_type = 0, m_flags = 0, m_pkthdr_rcvif = None,
     m_pkthdr_len = 0, m_u = replicate MLEN 0\<rparr>"

definition mbuf_init_one :: "nat \<Rightarrow> net_state \<Rightarrow> net_state" where
  "mbuf_init_one i s =
     (upd_mb i (\<lambda>_. zero_mbuf\<lparr>m_type := MT_FREE, m_next := s_mbuf_freelist s\<rparr>) s)\<lparr>s_mbuf_freelist := Some i\<rparr>"

definition mbuf_init :: "net_state \<Rightarrow> net_state" where
  "mbuf_init s = fold mbuf_init_one [0..<MBUF_POOL_SIZE] (s\<lparr>s_mbuf_freelist := None\<rparr>)"

definition m_get :: "u16 \<Rightarrow> net_state \<Rightarrow> nat option \<times> net_state" where
  "m_get type s =
     (case s_mbuf_freelist s of
        None \<Rightarrow> (None, s)
      | Some m \<Rightarrow> (Some m, upd_mb m (\<lambda>_. zero_mbuf\<lparr>m_type := type\<rparr>) (s\<lparr>s_mbuf_freelist := m_next (mb s m)\<rparr>)))"

definition m_gethdr :: "u16 \<Rightarrow> net_state \<Rightarrow> nat option \<times> net_state" where
  "m_gethdr type s =
     (case m_get type s of
        (None, s) \<Rightarrow> (None, s)
      | (Some m, s) \<Rightarrow> (Some m, upd_mb m (\<lambda>q. q\<lparr>m_flags := m_flags q OR M_PKTHDR, m_data := SIZEOF_PKTHDR\<rparr>) s))"

definition m_getcl :: "u16 \<Rightarrow> net_state \<Rightarrow> nat option \<times> net_state" where
  "m_getcl type s =
     (case m_gethdr type s of
        (None, s) \<Rightarrow> (None, s)
      | (Some m, s) \<Rightarrow> (Some m, upd_mb m (\<lambda>q. q\<lparr>m_flags := m_flags q OR M_EXT, m_data := 0\<rparr>) s))"

definition m_free :: "nat option \<Rightarrow> net_state \<Rightarrow> net_state" where
  "m_free r s =
     (case r of
        None \<Rightarrow> s
      | Some m \<Rightarrow> (upd_mb m (\<lambda>q. q\<lparr>m_type := MT_FREE, m_flags := 0, m_len := 0, m_nextpkt := None, m_next := s_mbuf_freelist s\<rparr>) s)
          \<lparr>s_mbuf_freelist := Some m\<rparr>)"

text \<open>The loops along a chain: \<open>None\<close> when it is cyclic.\<close>
partial_function (option) m_freem :: "nat option \<Rightarrow> net_state \<Rightarrow> net_state option" where
  "m_freem r s =
     (case r of None \<Rightarrow> Some s | Some m \<Rightarrow> let nxt = m_next (mb s m) in m_freem nxt (m_free (Some m) s))"

text \<open>The skipping loop of \<^verbatim>\<open>m_copydata\<close>: the mbuf and the offset inside it at which copying starts.\<close>
partial_function (option) copydata_skip :: "nat option \<Rightarrow> int \<Rightarrow> net_state \<Rightarrow> (nat option \<times> int) option" where
  "copydata_skip r off s =
     (if off > 0 then
        (case r of
           None \<Rightarrow> Some (None, off)
         | Some m \<Rightarrow> if off < m_len (mb s m) then Some (r, off) else copydata_skip (m_next (mb s m)) (off - m_len (mb s m)) s)
      else Some (r, off))"

partial_function (option) copydata_loop :: "nat option \<Rightarrow> int \<Rightarrow> int \<Rightarrow> net_state \<Rightarrow> u8 list option" where
  "copydata_loop r off len s =
     (case r of
        None \<Rightarrow> Some []
      | Some m \<Rightarrow>
          if len > 0 then do {
            let count = (if m_len (mb s m) - off > len then len else m_len (mb s m) - off);
            rest \<leftarrow> copydata_loop (m_next (mb s m)) 0 (len - count) s;
            Some (take (nat count) (drop (nat off) (drop (m_data (mb s m)) (storage m s))) @ rest)
          }
          else Some [])"

text \<open>The bytes stored into \<^verbatim>\<open>cp\<close>.\<close>
definition m_copydata :: "nat option \<Rightarrow> int \<Rightarrow> int \<Rightarrow> net_state \<Rightarrow> u8 list option" where
  "m_copydata m off len s = do {
     (r, off) \<leftarrow> copydata_skip m off s;
     (if r \<noteq> None \<and> off < 0 \<and> len > 0 then None else copydata_loop r off len s)
   }"

partial_function (option) m_last :: "nat \<Rightarrow> net_state \<Rightarrow> nat option" where
  "m_last m s = (case m_next (mb s m) of None \<Rightarrow> Some m | Some n \<Rightarrow> m_last n s)"

definition max_capacity :: "mbuf \<Rightarrow> nat" where
  "max_capacity m = (if has_flag m M_EXT then MCLBYTES else if has_flag m M_PKTHDR then MLEN - SIZEOF_PKTHDR else MLEN)"

definition buf_start :: "mbuf \<Rightarrow> nat" where
  "buf_start m = (if has_flag m M_EXT then 0 else if has_flag m M_PKTHDR then SIZEOF_PKTHDR else 0)"

text \<open>\<open>len\<close> is the length of the buffer \<open>cp\<close>; a null buffer is \<open>None\<close>.\<close>
definition m_append :: "nat option \<Rightarrow> u8 list option \<Rightarrow> net_state \<Rightarrow> (chimera_error \<times> net_state) option" where
  "m_append r cp s =
     (case (r, cp) of
        (Some m, Some bs) \<Rightarrow>
          if bs = [] then Some (CHIMERA_ERR_INVALID, s)
          else do {
            m \<leftarrow> m_last m s;
            let q = mb s m;
            (if m_data q - buf_start q + nat (m_len q) + length bs \<le> max_capacity q then do {
               s \<leftarrow> mwrite m (nat (m_len q)) bs s;
               Some (CHIMERA_SUCCESS, upd_mb m (\<lambda>q. q\<lparr>m_len := m_len q + int (length bs)\<rparr>) s)
             }
             else case (if length bs > MLEN then m_getcl (m_type q) s else m_get (m_type q) s) of
               (None, s) \<Rightarrow> Some (CHIMERA_ERR_NOMEM, s)
             | (Some n, s) \<Rightarrow> do {
                 s \<leftarrow> mwrite n 0 bs s;
                 Some (CHIMERA_SUCCESS, upd_mb m (\<lambda>q. q\<lparr>m_next := Some n\<rparr>) (upd_mb n (\<lambda>q. q\<lparr>m_len := int (length bs)\<rparr>) s))
               })
          }
      | _ \<Rightarrow> Some (CHIMERA_ERR_INVALID, s))"

section \<open>Interfaces\<close>

text \<open>
  The registry of network interfaces, \<^verbatim>\<open>kernel/net/if.c\<close>, the loopback interface, \<^verbatim>\<open>kernel/net/if_loop.c\<close>, and the frames
  handed to the Ethernet device (\<^verbatim>\<open>e1000_ifnet_output\<close> and \<^verbatim>\<open>e1000_transmit_frame\<close> of \<^verbatim>\<open>kernel/drivers/net/e1000.c\<close>, whose
  registers and descriptor rings are the device's business).
\<close>


definition if_init :: "net_state \<Rightarrow> net_state" where "if_init s = s\<lparr>s_if_list := None\<rparr>"

definition if_attach :: "nat option \<Rightarrow> net_state \<Rightarrow> chimera_error \<times> net_state" where
  "if_attach ifp s =
     (case ifp of
        None \<Rightarrow> (CHIMERA_ERR_INVALID, s)
      | Some i \<Rightarrow> (CHIMERA_SUCCESS, (upd_if i (\<lambda>f. f\<lparr>if_next := s_if_list s\<rparr>) s)\<lparr>s_if_list := Some i\<rparr>))"

definition if_detach :: "nat option \<Rightarrow> net_state \<Rightarrow> net_state option" where
  "if_detach ifp s =
     (case ifp of
        None \<Rightarrow> Some s
      | Some i \<Rightarrow> do {
          found \<leftarrow> find_link (\<lambda>n. if_next (n_ifnets s n)) None (s_if_list s) i;
          Some (case found of
              None \<Rightarrow> s
            | Some None \<Rightarrow> s\<lparr>s_if_list := if_next (n_ifnets s i)\<rparr>
            | Some (Some p) \<Rightarrow> upd_if p (\<lambda>f. f\<lparr>if_next := if_next (n_ifnets s i)\<rparr>) s)
        })"

text \<open>The search loops over the interface list.\<close>
partial_function (option) if_search :: "(ifnet \<Rightarrow> bool) \<Rightarrow> nat option \<Rightarrow> net_state \<Rightarrow> nat option option" where
  "if_search P cur s =
     (case cur of None \<Rightarrow> Some None | Some i \<Rightarrow> if P (n_ifnets s i) then Some (Some i) else if_search P (if_next (n_ifnets s i)) s)"

definition if_lookup :: "string \<Rightarrow> net_state \<Rightarrow> nat option option" where
  "if_lookup name s = if_search (\<lambda>f. if_name f = name) (s_if_list s) s"

definition if_get_default :: "net_state \<Rightarrow> nat option option" where
  "if_get_default s = do {
     found \<leftarrow> if_search (\<lambda>f. if_flags f AND IFF_LOOPBACK = 0 \<and> if_flags f AND IFF_UP \<noteq> 0) (s_if_list s) s;
     Some (case found of Some i \<Rightarrow> Some i | None \<Rightarrow> s_if_list s)
   }"

definition loopback_init :: "net_state \<Rightarrow> net_state" where
  "loopback_init s = snd (if_attach (Some 0) (upd_if 0 (\<lambda>_. \<lparr>if_name = ''lo0'', if_flags = IFF_UP OR IFF_LOOPBACK OR IFF_RUNNING,
     if_mtu = 16384, if_mac = replicate 6 0, if_ip = htonl INADDR_LOOPBACK, if_netmask = htonl 0xFF000000, if_bcast = htonl 0x7FFFFFFF,
     if_gateway = 0, if_dns = 0, ifi_ipackets = 0, ifi_opackets = 0, ifi_ibytes = 0, ifi_obytes = 0,
     if_output = Some LOOPBACK_OUTPUT, if_next = None\<rparr>) s))"

section \<open>Frames to the device\<close>

definition E1000_RX_BUF_SIZE :: nat where "E1000_RX_BUF_SIZE = 2048"

text \<open>Frames shorter than 60 bytes are padded with zeros; a device that does not report completion is not waited for.\<close>
definition e1000_transmit_frame :: "u8 list \<Rightarrow> net_state \<Rightarrow> chimera_error \<times> net_state" where
  "e1000_transmit_frame data s =
     (if \<not> g_e1000_present s \<or> data = [] \<or> length data > E1000_RX_BUF_SIZE then (CHIMERA_ERR_INVALID, s)
      else let frame = data @ replicate (60 - length data) 0 in
        (CHIMERA_SUCCESS, upd_if 1 (\<lambda>f. f\<lparr>ifi_opackets := ifi_opackets f + 1, ifi_obytes := ifi_obytes f + word_of_nat (length frame)\<rparr>)
           (s\<lparr>e_sent := e_sent s @ [frame]\<rparr>)))"

text \<open>The chain is copied into a buffer of 1536 bytes; mbufs from the first that does not fit on are left out.\<close>
partial_function (option) flatten :: "nat option \<Rightarrow> u8 list \<Rightarrow> net_state \<Rightarrow> u8 list option" where
  "flatten r acc s =
     (case r of
        None \<Rightarrow> Some acc
      | Some m \<Rightarrow> if length acc + nat (m_len (mb s m)) \<le> 1536 then flatten (m_next (mb s m)) (acc @ mdata m s) s else Some acc)"

definition e1000_ifnet_output :: "nat option \<Rightarrow> net_state \<Rightarrow> (chimera_error \<times> net_state) option" where
  "e1000_ifnet_output r s =
     (case r of
        None \<Rightarrow> Some (CHIMERA_ERR_INVALID, s)
      | Some m \<Rightarrow> do {
          frame \<leftarrow> flatten (Some m) [] s;
          s \<leftarrow> m_freem (Some m) s;
          Some (e1000_transmit_frame frame s)
        })"

end
