(* ===== verification/Socket.thy ===== *)
theory Socket
  imports Mbuf
begin

text \<open>
  Socket buffers and the pool of sockets with the queues of a listening socket, \<^verbatim>\<open>kernel/net/uipc_socket.c\<close>. The
  incomplete queue is threaded through \<^verbatim>\<open>so_q0\<close>, the accept queue through \<^verbatim>\<open>so_q\<close>.
\<close>

unbundle bit_operations_syntax

definition MAX_SOCKETS :: nat where "MAX_SOCKETS = 128"

definition uipc_socket_init :: "net_state \<Rightarrow> net_state" where
  "uipc_socket_init s = fold (\<lambda>i. upd_so i (\<lambda>q. q\<lparr>so_signature := 0\<rparr>)) [0..<MAX_SOCKETS] s"

section \<open>Socket buffers\<close>

text \<open>The number of bytes in a chain, added to \<^verbatim>\<open>sb_cc\<close>.\<close>
partial_function (option) chain_cc :: "nat option \<Rightarrow> u32 \<Rightarrow> net_state \<Rightarrow> u32 option" where
  "chain_cc r cc s = (case r of None \<Rightarrow> Some cc | Some m \<Rightarrow> chain_cc (m_next (mb s m)) (cc + word_of_int (m_len (mb s m))) s)"

text \<open>The buffer is given and returned; the mbufs are part of the state.\<close>
definition sbappend :: "sockbuf \<Rightarrow> nat \<Rightarrow> net_state \<Rightarrow> (sockbuf \<times> net_state) option" where
  "sbappend sb m s = do {
     (sb, s) \<leftarrow> (if sb_mb sb = None then Some (sb\<lparr>sb_mb := Some m\<rparr>, s)
                else do { l \<leftarrow> sb_last sb; Some (sb, upd_mb l (\<lambda>q. q\<lparr>m_nextpkt := Some m\<rparr>) s) });
     let s = upd_mb m (\<lambda>q. q\<lparr>m_nextpkt := None\<rparr>) s;
     cc \<leftarrow> chain_cc (Some m) (sb_cc sb) s;
     Some (sb\<lparr>sb_last := Some m, sb_cc := cc\<rparr>, s)
   }"

definition so_rcv_append :: "nat \<Rightarrow> nat \<Rightarrow> net_state \<Rightarrow> net_state option" where
  "so_rcv_append so m s = do {
     (sb, s) \<leftarrow> sbappend (so_rcv (sock s so)) m s;
     Some (upd_so so (\<lambda>q. q\<lparr>so_rcv := sb\<rparr>) s)
   }"

partial_function (option) flush_pkts :: "nat option \<Rightarrow> net_state \<Rightarrow> net_state option" where
  "flush_pkts r s =
     (case r of
        None \<Rightarrow> Some s
      | Some m \<Rightarrow> let nextpkt = m_nextpkt (mb s m) in do { s \<leftarrow> m_freem (Some m) s; flush_pkts nextpkt s })"

definition sbflush :: "sockbuf \<Rightarrow> net_state \<Rightarrow> (sockbuf \<times> net_state) option" where
  "sbflush sb s = do {
     s \<leftarrow> flush_pkts (sb_mb sb) s;
     Some (sb\<lparr>sb_mb := None, sb_last := None, sb_cc := 0\<rparr>, s)
   }"

section \<open>The pool\<close>

definition zero_sockbuf :: sockbuf where
  "zero_sockbuf = \<lparr>sb_cc = 0, sb_hiwat = SB_MAX, sb_mb = None, sb_last = None\<rparr>"

text \<open>A socket as \<^verbatim>\<open>socreate\<close> and \<^verbatim>\<open>so_new_child\<close> initialise it.\<close>
definition fresh_socket :: "int \<Rightarrow> nat option \<Rightarrow> socket" where
  "fresh_socket type head = \<lparr>so_signature = CHIMERA_SOCKET_MAGIC, so_type = type, so_state = 0, so_pcb = None, so_head = head, so_q0 = None,
     so_q = None, so_qlimit = 0, so_qlen = 0, so_snd = zero_sockbuf, so_rcv = zero_sockbuf, so_error = 0, so_options = 0,
     so_rcvtimeo = 0, so_sndtimeo = 0\<rparr>"

definition free_socket_slot :: "net_state \<Rightarrow> nat option" where
  "free_socket_slot s = find (\<lambda>i. so_signature (sock s i) \<noteq> CHIMERA_SOCKET_MAGIC) [0..<MAX_SOCKETS]"

definition so_free :: "nat option \<Rightarrow> net_state \<Rightarrow> net_state" where
  "so_free r s =
     (case r of
        None \<Rightarrow> s
      | Some so \<Rightarrow> if so_signature (sock s so) \<noteq> CHIMERA_SOCKET_MAGIC then s
          else upd_so so (\<lambda>q. q\<lparr>so_signature := 0, so_pcb := None\<rparr>) s)"

section \<open>The queues of a listening socket\<close>

definition so_new_child :: "nat option \<Rightarrow> net_state \<Rightarrow> nat option \<times> net_state" where
  "so_new_child head s =
     (case head of
        None \<Rightarrow> (None, s)
      | Some h \<Rightarrow>
          (case free_socket_slot s of
             None \<Rightarrow> (None, s)
           | Some so \<Rightarrow>
               let s = upd_so so (\<lambda>_. fresh_socket (so_type (sock s h)) (Some h)) s;
                   s = upd_so so (\<lambda>q. q\<lparr>so_q0 := so_q0 (sock s h)\<rparr>) s
               in (Some so, upd_so h (\<lambda>q. q\<lparr>so_q0 := Some so\<rparr>) s)))"

definition tcp_child_socket :: "nat option \<Rightarrow> net_state \<Rightarrow> nat option \<times> net_state" where
  "tcp_child_socket head s = so_new_child head s"

text \<open>Unlinking from the incomplete queue: the store through the link that holds the child, if any.\<close>
definition q0_unlink :: "nat \<Rightarrow> nat \<Rightarrow> net_state \<Rightarrow> (bool \<times> net_state) option" where
  "q0_unlink head child s = do {
     found \<leftarrow> find_link (\<lambda>n. so_q0 (sock s n)) None (so_q0 (sock s head)) child;
     Some (case found of
         None \<Rightarrow> (False, s)
       | Some None \<Rightarrow> (True, upd_so head (\<lambda>q. q\<lparr>so_q0 := so_q0 (sock s child)\<rparr>) s)
       | Some (Some p) \<Rightarrow> (True, upd_so p (\<lambda>q. q\<lparr>so_q0 := so_q0 (sock s child)\<rparr>) s))
   }"

definition q_append :: "nat \<Rightarrow> nat \<Rightarrow> net_state \<Rightarrow> net_state option" where
  "q_append head child s =
     (case so_q (sock s head) of
        None \<Rightarrow> Some (upd_so head (\<lambda>q. q\<lparr>so_q := Some child\<rparr>) s)
      | Some t \<Rightarrow> do {
          (_, l) \<leftarrow> last_link (\<lambda>n. so_q (sock s n)) None t;
          Some (upd_so l (\<lambda>q. q\<lparr>so_q := Some child\<rparr>) s)
        })"

definition so_q0_to_q :: "nat option \<Rightarrow> net_state \<Rightarrow> net_state option" where
  "so_q0_to_q r s =
     (case r of
        None \<Rightarrow> Some s
      | Some child \<Rightarrow>
          (case so_head (sock s child) of
             None \<Rightarrow> Some s
           | Some head \<Rightarrow> do {
               (found, s) \<leftarrow> q0_unlink head child s;
               (if \<not> found then Some s
                else do {
                  let s = upd_so child (\<lambda>q. q\<lparr>so_q0 := None\<rparr>) s;
                  s \<leftarrow> q_append head child s;
                  let s = upd_so child (\<lambda>q. q\<lparr>so_q := None\<rparr>) s;
                  Some (upd_so head (\<lambda>q. q\<lparr>so_qlen := so_qlen q + 1\<rparr>) s)
                })
             }))"

definition so_discard_child :: "nat option \<Rightarrow> net_state \<Rightarrow> net_state option" where
  "so_discard_child r s =
     (case r of
        None \<Rightarrow> Some s
      | Some child \<Rightarrow> do {
          s \<leftarrow> (case so_head (sock s child) of
                  None \<Rightarrow> Some s
                | Some head \<Rightarrow> do { (_, s) \<leftarrow> q0_unlink head child s; Some s });
          Some (so_free (Some child) s)
        })"

text \<open>The new connection, when there is one.\<close>
definition soaccept :: "nat option \<Rightarrow> bool \<Rightarrow> net_state \<Rightarrow> chimera_error \<times> nat option \<times> net_state" where
  "soaccept r new_so s =
     (case r of
        None \<Rightarrow> (CHIMERA_ERR_INVALID, None, s)
      | Some so \<Rightarrow>
          if \<not> new_so then (CHIMERA_ERR_INVALID, None, s)
          else case so_q (sock s so) of
            None \<Rightarrow> (CHIMERA_ERR_WOULDBLOCK, None, s)
          | Some conn \<Rightarrow>
              let s = upd_so so (\<lambda>q. q\<lparr>so_q := so_q (sock s conn)\<rparr>) s;
                  s = upd_so conn (\<lambda>q. q\<lparr>so_q := None, so_head := None\<rparr>) s;
                  s = upd_so so (\<lambda>q. if so_qlen q > 0 then q\<lparr>so_qlen := so_qlen q - 1\<rparr> else q) s
              in (CHIMERA_SUCCESS, Some conn, s))"

definition soshutdown :: "nat option \<Rightarrow> int \<Rightarrow> net_state \<Rightarrow> chimera_error \<times> net_state" where
  "soshutdown r how s =
     (case r of
        None \<Rightarrow> (CHIMERA_ERR_INVALID, s)
      | Some so \<Rightarrow> (CHIMERA_SUCCESS, upd_so so (\<lambda>q. q\<lparr>so_state := so_state q OR (if how = 0 \<or> how = 2 then SS_CANTRCVMORE else 0)
            OR (if how = 1 \<or> how = 2 then SS_CANTSENDMORE else 0)\<rparr>) s))"

definition sopoll :: "nat option \<Rightarrow> u16 \<Rightarrow> net_state \<Rightarrow> u16" where
  "sopoll r events s =
     (case r of
        None \<Rightarrow> 0x20
      | Some n \<Rightarrow>
          let so = sock s n; st = so_state so in
          if so_signature so \<noteq> CHIMERA_SOCKET_MAGIC then 0x20
          else (if events AND 1 \<noteq> 0 \<and> (sb_cc (so_rcv so) > 0 \<or> st AND SS_CANTRCVMORE \<noteq> 0 \<or> so_qlen so > 0 \<or> so_error so \<noteq> 0) then 1 else 0)
            OR (if events AND 4 \<noteq> 0 \<and> (if so_type so = SOCK_DGRAM then st AND SS_CANTSENDMORE = 0
                   else so_type so = SOCK_STREAM \<and> st AND SS_ISCONNECTED \<noteq> 0 \<and> sb_cc (so_snd so) < sb_hiwat (so_snd so)) then 4 else 0)
            OR (if so_error so \<noteq> 0 then 8 else 0)
            OR (if st AND SS_CANTRCVMORE \<noteq> 0 \<and> st AND SS_CANTSENDMORE \<noteq> 0 then 0x10 else 0))"

end
