(* ===== verification/Udp.thy ===== *)
theory Udp
  imports Socket
begin

text \<open>
  The User Datagram Protocol, \<^verbatim>\<open>kernel/net/udp.c\<close>. The output routine of the layer below, \<^verbatim>\<open>ip_output\<close>, is the argument \<open>out\<close>: the stack
  ties the two together.
\<close>

unbundle bit_operations_syntax

text \<open>\<^verbatim>\<open>ip_output\<close>: an mbuf, source and destination address, protocol.\<close>
type_synonym out_fn = "nat \<Rightarrow> u32 \<Rightarrow> u32 \<Rightarrow> u8 \<Rightarrow> net_state \<Rightarrow> (chimera_error \<times> net_state) option"

record sockaddr_in =
  sin_family :: int
  sin_port :: u16
  sin_addr :: u32

definition UDP_MAX_SOCKETS :: nat where "UDP_MAX_SOCKETS = 64"

definition udp_init :: "net_state \<Rightarrow> net_state" where
  "udp_init s = fold (\<lambda>i. upd_up i (\<lambda>p. p\<lparr>up_so := None\<rparr>)) [0..<UDP_MAX_SOCKETS] s"

text \<open>The control block of a socket whose pointer is used as one of UDP; the outer \<open>None\<close> is one of the wrong kind.\<close>
definition as_udp :: "pcb_ref option \<Rightarrow> nat option option" where
  "as_udp r = (case r of None \<Rightarrow> Some None | Some (UDP_PCB i) \<Rightarrow> Some (Some i) | Some (TCP_PCB _) \<Rightarrow> None)"

definition udp_attach :: "nat \<Rightarrow> net_state \<Rightarrow> chimera_error \<times> net_state" where
  "udp_attach so s =
     (case find (\<lambda>i. up_so (s_udp_pcbs s i) = None) [0..<UDP_MAX_SOCKETS] of
        None \<Rightarrow> (CHIMERA_ERR_NOMEM, s)
      | Some i \<Rightarrow> (CHIMERA_SUCCESS, upd_so so (\<lambda>q. q\<lparr>so_pcb := Some (UDP_PCB i)\<rparr>)
          (upd_up i (\<lambda>_. \<lparr>up_so = Some so, up_local_ip = 0, up_local_port = 0, up_remote_ip = 0, up_remote_port = 0, up_bound = False\<rparr>) s)))"

definition udp_detach :: "nat \<Rightarrow> net_state \<Rightarrow> net_state option" where
  "udp_detach so s = do {
     r \<leftarrow> as_udp (so_pcb (sock s so));
     Some (case r of
         None \<Rightarrow> s
       | Some i \<Rightarrow> upd_so so (\<lambda>q. q\<lparr>so_pcb := None\<rparr>) (upd_up i (\<lambda>p. p\<lparr>up_so := None, up_bound := False\<rparr>) s))
   }"

text \<open>The next ephemeral port, and the cursor behind it.\<close>
definition next_ephemeral :: "u16 \<Rightarrow> u16" where
  "next_ephemeral p = (let p = p + 1 in if p > 65530 then 49152 else p)"

definition udp_port_taken :: "u16 \<Rightarrow> net_state \<Rightarrow> bool" where
  "udp_port_taken port s \<longleftrightarrow>
     (\<exists>i \<in> set [0..<UDP_MAX_SOCKETS]. up_so (s_udp_pcbs s i) \<noteq> None \<and> up_bound (s_udp_pcbs s i) \<and> up_local_port (s_udp_pcbs s i) = port)"

definition udp_bind :: "nat \<Rightarrow> sockaddr_in option \<Rightarrow> net_state \<Rightarrow> (chimera_error \<times> net_state) option" where
  "udp_bind so sin s = do {
     r \<leftarrow> as_udp (so_pcb (sock s so));
     Some (case (r, sin) of
         (Some i, Some a) \<Rightarrow>
           let req = ntohs (sin_port a); port = (if req = 0 then s_ephemeral_port s else req);
               s = (if req = 0 then s\<lparr>s_ephemeral_port := next_ephemeral (s_ephemeral_port s)\<rparr> else s)
           in if udp_port_taken port s then (CHIMERA_ERR_BUSY, s)
              else (CHIMERA_SUCCESS, upd_up i (\<lambda>p. p\<lparr>up_local_port := port, up_local_ip := sin_addr a, up_bound := True\<rparr>) s)
       | _ \<Rightarrow> (CHIMERA_ERR_INVALID, s))
   }"

definition udp_header :: "u16 \<Rightarrow> u16 \<Rightarrow> nat \<Rightarrow> u8 list" where
  "udp_header sport dport len = st16 (htons sport) @ st16 dport @ st16 (htons (word_of_nat (8 + len))) @ st16 0"

definition any_addr :: sockaddr_in where "any_addr = \<lparr>sin_family = AF_INET, sin_port = 0, sin_addr = 0\<rparr>"

text \<open>The source address of an unbound socket: that of the default interface, if there is one.\<close>
definition source_ip :: "u32 \<Rightarrow> net_state \<Rightarrow> u32 option" where
  "source_ip ip s =
     (if ip \<noteq> 0 then Some ip
      else do { d \<leftarrow> if_get_default s; Some (case d of Some i \<Rightarrow> if_ip (n_ifnets s i) | None \<Rightarrow> ip) })"

definition set_lens :: "nat \<Rightarrow> nat \<Rightarrow> net_state \<Rightarrow> net_state" where
  "set_lens m len = upd_mb m (\<lambda>q. q\<lparr>m_len := int len, m_pkthdr_len := int len\<rparr>)"

definition udp_sendto :: "out_fn \<Rightarrow> nat \<Rightarrow> u8 list \<Rightarrow> sockaddr_in option \<Rightarrow> net_state \<Rightarrow> (chimera_error \<times> net_state) option" where
  "udp_sendto out so buf dest s = do {
     r \<leftarrow> as_udp (so_pcb (sock s so));
     (case (r, dest) of
        (Some i, Some d) \<Rightarrow>
          if length buf > 1472 then Some (CHIMERA_ERR_INVALID, s)
          else do {
            (_, s) \<leftarrow> (if up_bound (s_udp_pcbs s i) then Some (CHIMERA_SUCCESS, s) else udp_bind so (Some any_addr) s);
            (case m_getcl MT_DATA s of
               (None, s) \<Rightarrow> Some (CHIMERA_ERR_NOMEM, s)
             | (Some m, s) \<Rightarrow> do {
                 s \<leftarrow> mwrite m 0 (udp_header (up_local_port (s_udp_pcbs s i)) (sin_port d) (length buf)) s;
                 s \<leftarrow> mwrite m 8 buf s;
                 src \<leftarrow> source_ip (up_local_ip (s_udp_pcbs s i)) s;
                 out m src (sin_addr d) IPPROTO_UDP (set_lens m (8 + length buf) s)
               })
          }
      | _ \<Rightarrow> Some (CHIMERA_ERR_INVALID, s))
   }"

text \<open>The socket a datagram for this port goes to.\<close>
definition udp_target :: "u16 \<Rightarrow> net_state \<Rightarrow> nat option" where
  "udp_target dport s =
     (case find (\<lambda>i. up_so (s_udp_pcbs s i) \<noteq> None \<and> up_bound (s_udp_pcbs s i) \<and> up_local_port (s_udp_pcbs s i) = dport) [0..<UDP_MAX_SOCKETS] of
        Some i \<Rightarrow> up_so (s_udp_pcbs s i)
      | None \<Rightarrow> None)"

definition udp_input :: "nat \<Rightarrow> net_state \<Rightarrow> net_state option" where
  "udp_input m s =
     (if m_len (mb s m) < 8 then m_freem (Some m) s
      else let uh = mdata m s; dport = ntohs (ld16 uh 2); ulen = ntohs (ld16 uh 4) in
      if ulen < 8 \<or> m_len (mb s m) < int (unat ulen) then m_freem (Some m) s
      else let s = m_adj m 8 s in
        case udp_target dport s of
          Some so \<Rightarrow> so_rcv_append so m s
        | None \<Rightarrow> m_freem (Some m) s)"

end
