(* ===== verification/Tcp.thy ===== *)
theory Tcp
  imports Udp
begin

text \<open>
  The Transmission Control Protocol, \<^verbatim>\<open>kernel/net/tcp.c\<close>. As in \<^verbatim>\<open>udp.c\<close> the output routine below is the argument \<open>out\<close>;
  \<open>poll\<close> is \<^verbatim>\<open>e1000_poll_rx\<close>, which a connecting socket calls while it waits.
\<close>

unbundle bit_operations_syntax

definition TCP_MAX_SOCKETS :: nat where "TCP_MAX_SOCKETS = 64"
definition TH_FIN :: u8 where "TH_FIN = 1"
definition TH_SYN :: u8 where "TH_SYN = 2"
definition TH_PUSH :: u8 where "TH_PUSH = 8"
definition TH_ACK :: u8 where "TH_ACK = 16"

abbreviation tp :: "net_state \<Rightarrow> nat \<Rightarrow> tcp_pcb" where "tp s i \<equiv> s_tcp_pcbs s i"

definition tcp_init :: "net_state \<Rightarrow> net_state" where
  "tcp_init s = fold (\<lambda>i. upd_tp i (\<lambda>p. p\<lparr>tp_so := None\<rparr>)) [0..<TCP_MAX_SOCKETS] s"

definition as_tcp :: "pcb_ref option \<Rightarrow> nat option option" where
  "as_tcp r = (case r of None \<Rightarrow> Some None | Some (TCP_PCB i) \<Rightarrow> Some (Some i) | Some (UDP_PCB _) \<Rightarrow> None)"

definition free_tcp_pcb :: "net_state \<Rightarrow> nat option" where
  "free_tcp_pcb s = find (\<lambda>i. tp_so (tp s i) = None) [0..<TCP_MAX_SOCKETS]"

section \<open>Control blocks\<close>

definition tcp_attach :: "nat \<Rightarrow> net_state \<Rightarrow> chimera_error \<times> net_state" where
  "tcp_attach so s =
     (case free_tcp_pcb s of
        None \<Rightarrow> (CHIMERA_ERR_NOMEM, s)
      | Some i \<Rightarrow>
          let iss = s_iss_counter s + 64000; s = s\<lparr>s_iss_counter := iss\<rparr>;
              s = upd_tp i (\<lambda>p. p\<lparr>tp_so := Some so, tp_state := TCPS_CLOSED, tp_local_ip := 0, tp_local_port := 0, tp_remote_ip := 0,
                    tp_remote_port := 0, tp_iss := iss, tp_snd_una := iss, tp_snd_nxt := iss, tp_snd_wnd := 65535, tp_rcv_wnd := 65535,
                    tp_bound := False\<rparr>) s
          in (CHIMERA_SUCCESS, upd_so so (\<lambda>q. q\<lparr>so_pcb := Some (TCP_PCB i)\<rparr>) s))"

text \<open>Taking down a queue of a listener; \<open>lnk\<close> selects the link field.\<close>
partial_function (option) drop_children :: "(socket \<Rightarrow> nat option) \<Rightarrow> nat option \<Rightarrow> net_state \<Rightarrow> net_state option" where
  "drop_children lnk r s =
     (case r of
        None \<Rightarrow> Some s
      | Some c \<Rightarrow> let nxt = lnk (sock s c) in do {
          p \<leftarrow> as_tcp (so_pcb (sock s c));
          let s = (case p of
              Some i \<Rightarrow> upd_so c (\<lambda>q. q\<lparr>so_pcb := None\<rparr>) (upd_tp i (\<lambda>p. p\<lparr>tp_so := None, tp_state := TCPS_CLOSED\<rparr>) s)
            | None \<Rightarrow> s);
          drop_children lnk nxt (so_free (Some c) s)
        })"

definition tcp_detach :: "nat \<Rightarrow> net_state \<Rightarrow> net_state option" where
  "tcp_detach so s = do {
     r \<leftarrow> as_tcp (so_pcb (sock s so));
     (case r of
        None \<Rightarrow> Some s
      | Some i \<Rightarrow> do {
          let s = upd_tp i (\<lambda>p. p\<lparr>tp_so := None, tp_state := TCPS_CLOSED, tp_bound := False\<rparr>) s;
          let s = upd_so so (\<lambda>q. q\<lparr>so_pcb := None\<rparr>) s;
          (if so_head (sock s so) = Some so \<or> so_head (sock s so) = None then do {
             s \<leftarrow> drop_children so_q0 (so_q0 (sock s so)) s;
             s \<leftarrow> drop_children so_q (so_q (sock s so)) s;
             Some (upd_so so (\<lambda>q. q\<lparr>so_q0 := None, so_q := None, so_qlen := 0\<rparr>) s)
           }
           else Some s)
        })
   }"

text \<open>The address and port the call stores.\<close>
definition tcp_fill_peer :: "nat \<Rightarrow> net_state \<Rightarrow> sockaddr_in option" where
  "tcp_fill_peer so s = do {
     r \<leftarrow> as_tcp (so_pcb (sock s so));
     Some (case r of
         Some i \<Rightarrow> \<lparr>sin_family = AF_INET, sin_port = htons (tp_remote_port (tp s i)), sin_addr = tp_remote_ip (tp s i)\<rparr>
       | None \<Rightarrow> any_addr)
   }"

definition tcp_port_taken :: "u16 \<Rightarrow> net_state \<Rightarrow> bool" where
  "tcp_port_taken port s \<longleftrightarrow>
     (\<exists>i \<in> set [0..<TCP_MAX_SOCKETS]. tp_so (tp s i) \<noteq> None \<and> tp_bound (tp s i) \<and> tp_local_port (tp s i) = port)"

definition tcp_bind :: "nat \<Rightarrow> sockaddr_in option \<Rightarrow> net_state \<Rightarrow> (chimera_error \<times> net_state) option" where
  "tcp_bind so sin s = do {
     r \<leftarrow> as_tcp (so_pcb (sock s so));
     (case (r, sin) of
        (Some i, Some a) \<Rightarrow> do {
          let req = ntohs (sin_port a);
          let port = (if req = 0 then s_ephemeral_tcp_port s else req);
          let s = (if req = 0 then s\<lparr>s_ephemeral_tcp_port := next_ephemeral (s_ephemeral_tcp_port s)\<rparr> else s);
          (if tcp_port_taken port s then Some (CHIMERA_ERR_BUSY, s)
           else do {
             ip \<leftarrow> source_ip (sin_addr a) s;
             Some (CHIMERA_SUCCESS, upd_tp i (\<lambda>p. p\<lparr>tp_local_port := port, tp_local_ip := ip, tp_bound := True\<rparr>) s)
           })
        }
      | _ \<Rightarrow> Some (CHIMERA_ERR_INVALID, s))
   }"

definition tcp_listen :: "nat \<Rightarrow> net_state \<Rightarrow> (chimera_error \<times> net_state) option" where
  "tcp_listen so s = do {
     r \<leftarrow> as_tcp (so_pcb (sock s so));
     Some (case r of
         None \<Rightarrow> (CHIMERA_ERR_INVALID, s)
       | Some i \<Rightarrow> if \<not> tp_bound (tp s i) then (CHIMERA_ERR_INVALID, s)
           else (CHIMERA_SUCCESS, upd_tp i (\<lambda>p. p\<lparr>tp_state := TCPS_LISTEN\<rparr>) s))
   }"

definition tcp_alloc_child :: "nat \<Rightarrow> nat \<Rightarrow> u32 \<Rightarrow> u32 \<Rightarrow> u16 \<Rightarrow> u32 \<Rightarrow> net_state \<Rightarrow> (nat option \<times> net_state) option" where
  "tcp_alloc_child listen_pcb listen_so local_ip remote_ip remote_port irs s =
     (case tcp_child_socket (Some listen_so) s of
        (None, s) \<Rightarrow> Some (None, s)
      | (Some child_so, s) \<Rightarrow>
          (case free_tcp_pcb s of
             None \<Rightarrow> do { s \<leftarrow> so_discard_child (Some child_so) s; Some (None, s) }
           | Some i \<Rightarrow>
               let iss = s_iss_counter s + 64000; s = s\<lparr>s_iss_counter := iss\<rparr>;
                   s = upd_tp i (\<lambda>_. \<lparr>tp_so = Some child_so, tp_state = TCPS_SYN_RECEIVED, tp_local_ip = local_ip,
                         tp_local_port = tp_local_port (tp s listen_pcb), tp_remote_ip = remote_ip, tp_remote_port = remote_port,
                         tp_iss = iss, tp_snd_una = iss, tp_snd_nxt = iss, tp_snd_wnd = 65535, tp_irs = irs, tp_rcv_nxt = irs + 1,
                         tp_rcv_wnd = 65535, tp_bound = True\<rparr>) s
               in Some (Some i, upd_so child_so (\<lambda>q. q\<lparr>so_pcb := Some (TCP_PCB i), so_state := so_state q OR SS_ISCONNECTED\<rparr>) s)))"

section \<open>Sending\<close>

definition tcp_options :: "u8 \<Rightarrow> u8 list" where
  "tcp_options flags = (if flags AND TH_SYN \<noteq> 0 then [2, 4, 5, 180] else [])"

text \<open>The header of a segment, with its checksum field as given.\<close>
definition tcp_header :: "tcp_pcb \<Rightarrow> u8 \<Rightarrow> u16 \<Rightarrow> u8 list" where
  "tcp_header p flags csum =
     st16 (htons (tp_local_port p)) @ st16 (htons (tp_remote_port p)) @ st32 (htonl (tp_snd_nxt p)) @ st32 (htonl (tp_rcv_nxt p)) @
     [word_of_nat ((20 + length (tcp_options flags)) div 4 * 16), flags] @ st16 (htons (ucast (tp_rcv_wnd p))) @ st16 csum @ st16 0 @ tcp_options flags"

definition tcp_send_packet :: "out_fn \<Rightarrow> nat \<Rightarrow> u8 \<Rightarrow> u8 list \<Rightarrow> net_state \<Rightarrow> (chimera_error \<times> net_state) option" where
  "tcp_send_packet out i flags data s = do {
     ip \<leftarrow> source_ip (tp_local_ip (tp s i)) s;
     let s = upd_tp i (\<lambda>p. p\<lparr>tp_local_ip := ip\<rparr>) s;
     (case m_getcl MT_DATA s of
        (None, s) \<Rightarrow> Some (CHIMERA_ERR_NOMEM, s)
      | (Some m, s) \<Rightarrow> do {
          let p = tp s i;
          let hdr = tcp_header p flags 0;
          s \<leftarrow> mwrite m 0 hdr s;
          (if length data > MCLBYTES - length hdr - 64 then do { s \<leftarrow> m_freem (Some m) s; Some (CHIMERA_ERR_OVERFLOW, s) }
           else do {
             s \<leftarrow> mwrite m (length hdr) data s;
             let total = length hdr + length data;
             let s = set_lens m total s;
             let csum = in_pseudo_checksum (tp_local_ip p) (tp_remote_ip p) IPPROTO_TCP (word_of_nat total) (mdata m s);
             s \<leftarrow> mwrite m 16 (st16 csum) s;
             let s = upd_tp i (\<lambda>p. p\<lparr>tp_snd_nxt := tp_snd_nxt p + (if flags AND (TH_SYN OR TH_FIN) \<noteq> 0 then 1 else word_of_nat (length data))\<rparr>) s;
             out m (tp_local_ip p) (tp_remote_ip p) IPPROTO_TCP s
           })
        })
   }"

text \<open>The waiting loop of a connect: \<open>n\<close> of the 1000 polls remain.\<close>
fun connect_poll :: "out_fn \<Rightarrow> (net_state \<Rightarrow> net_state option) \<Rightarrow> nat \<Rightarrow> nat \<Rightarrow> nat \<Rightarrow> net_state \<Rightarrow> (chimera_error \<times> net_state) option" where
  "connect_poll out poll so i 0 s =
     Some (CHIMERA_ERR_TIMEOUT, upd_tp i (\<lambda>p. p\<lparr>tp_state := TCPS_CLOSED\<rparr>) (upd_so so (\<lambda>q. q\<lparr>so_state := so_state q AND NOT SS_ISCONNECTING\<rparr>) s))"
| "connect_poll out poll so i (Suc n) s = do {
     s \<leftarrow> poll s;
     (if tp_state (tp s i) = TCPS_ESTABLISHED
      then Some (CHIMERA_SUCCESS, upd_so so (\<lambda>q. q\<lparr>so_state := (so_state q AND NOT SS_ISCONNECTING) OR SS_ISCONNECTED\<rparr>) s)
      else do {
        let retry = 999 - n;
        s \<leftarrow> (if retry mod 250 = 0 \<and> retry > 0
              then do { (_, s) \<leftarrow> tcp_send_packet out i TH_SYN [] (upd_tp i (\<lambda>p. p\<lparr>tp_snd_nxt := tp_iss p\<rparr>) s); Some s } else Some s);
        connect_poll out poll so i n s
      })
   }"

definition tcp_connect :: "out_fn \<Rightarrow> (net_state \<Rightarrow> net_state option) \<Rightarrow> nat \<Rightarrow> sockaddr_in option \<Rightarrow> net_state \<Rightarrow> (chimera_error \<times> net_state) option" where
  "tcp_connect out poll so sin s = do {
     r \<leftarrow> as_tcp (so_pcb (sock s so));
     (case (r, sin) of
        (Some i, Some a) \<Rightarrow> do {
          (_, s) \<leftarrow> (if tp_bound (tp s i) then Some (CHIMERA_SUCCESS, s) else tcp_bind so (Some any_addr) s);
          let s = upd_tp i (\<lambda>p. p\<lparr>tp_remote_ip := sin_addr a, tp_remote_port := ntohs (sin_port a), tp_state := TCPS_SYN_SENT\<rparr>) s;
          let s = upd_so so (\<lambda>q. q\<lparr>so_state := so_state q OR SS_ISCONNECTING\<rparr>) s;
          (_, s) \<leftarrow> tcp_send_packet out i TH_SYN [] s;
          connect_poll out poll so i 1000 s
        }
      | _ \<Rightarrow> Some (CHIMERA_ERR_INVALID, s))
   }"

text \<open>The segments of 1460 bytes a call is cut into.\<close>
function send_chunks :: "out_fn \<Rightarrow> nat \<Rightarrow> u8 list \<Rightarrow> net_state \<Rightarrow> (chimera_error \<times> net_state) option" where
  "send_chunks out i bs s =
     (if bs = [] then Some (CHIMERA_SUCCESS, s)
      else case tcp_send_packet out i (if length bs \<le> 1460 then TH_ACK OR TH_PUSH else TH_ACK) (take 1460 bs) s of
        None \<Rightarrow> None
      | Some (err, s) \<Rightarrow> if err \<noteq> CHIMERA_SUCCESS then Some (err, s) else send_chunks out i (drop 1460 bs) s)"
  by pat_completeness auto
termination by (relation "measure (\<lambda>(out, i, bs, s). length bs)") auto

declare send_chunks.simps [simp del]

definition tcp_send :: "out_fn \<Rightarrow> nat \<Rightarrow> u8 list \<Rightarrow> net_state \<Rightarrow> (chimera_error \<times> net_state) option" where
  "tcp_send out so buf s = do {
     r \<leftarrow> as_tcp (so_pcb (sock s so));
     (case r of
        None \<Rightarrow> Some (CHIMERA_ERR_NOTCONN, s)
      | Some i \<Rightarrow> if so_state (sock s so) AND SS_ISCONNECTED = 0 then Some (CHIMERA_ERR_NOTCONN, s) else send_chunks out i buf s)
   }"

definition tcp_close :: "out_fn \<Rightarrow> nat \<Rightarrow> net_state \<Rightarrow> (chimera_error \<times> net_state) option" where
  "tcp_close out so s = do {
     r \<leftarrow> as_tcp (so_pcb (sock s so));
     (case r of
        None \<Rightarrow> Some (CHIMERA_SUCCESS, s)
      | Some i \<Rightarrow> do {
          (_, s) \<leftarrow> (if tp_state (tp s i) = TCPS_ESTABLISHED
                    then tcp_send_packet out i (TH_FIN OR TH_ACK) [] (upd_tp i (\<lambda>p. p\<lparr>tp_state := TCPS_FIN_WAIT_1\<rparr>) s)
                    else Some (CHIMERA_SUCCESS, s));
          s \<leftarrow> tcp_detach so s;
          Some (CHIMERA_SUCCESS, s)
        })
   }"

section \<open>Receiving\<close>

text \<open>The control block a segment belongs to: an exact match, else, for a SYN, the first listener on the port.\<close>
definition tcp_exact :: "u16 \<Rightarrow> u16 \<Rightarrow> u32 \<Rightarrow> tcp_pcb \<Rightarrow> bool" where
  "tcp_exact dport sport src p \<longleftrightarrow> tp_so p \<noteq> None \<and> tp_bound p \<and> tp_local_port p = dport \<and> tp_state p \<noteq> TCPS_LISTEN \<and>
     tp_remote_ip p = src \<and> tp_remote_port p = sport"

definition tcp_listener :: "u16 \<Rightarrow> tcp_pcb \<Rightarrow> bool" where
  "tcp_listener dport p \<longleftrightarrow> tp_so p \<noteq> None \<and> tp_bound p \<and> tp_local_port p = dport \<and> tp_state p = TCPS_LISTEN"

definition tcp_demux :: "u16 \<Rightarrow> u16 \<Rightarrow> u32 \<Rightarrow> u8 \<Rightarrow> net_state \<Rightarrow> nat option" where
  "tcp_demux dport sport src flags s =
     (case find (\<lambda>i. tcp_exact dport sport src (tp s i)) [0..<TCP_MAX_SOCKETS] of
        Some i \<Rightarrow> Some i
      | None \<Rightarrow> if flags AND TH_SYN \<noteq> 0 \<and> flags AND TH_ACK = 0
          then find (\<lambda>i. tcp_listener dport (tp s i)) [0..<TCP_MAX_SOCKETS] else None)"

text \<open>A SYN for a listening socket: a child in state \<open>TCPS_SYN_RECEIVED\<close> answers it.\<close>
definition tcp_passive_open :: "out_fn \<Rightarrow> nat \<Rightarrow> nat \<Rightarrow> u32 \<Rightarrow> u32 \<Rightarrow> u16 \<Rightarrow> u32 \<Rightarrow> net_state \<Rightarrow> net_state option" where
  "tcp_passive_open out m i src dst sport seq s = do {
     so \<leftarrow> tp_so (tp s i);
     (if so_qlen (sock s so) \<ge> so_qlimit (sock s so) then m_freem (Some m) s
      else do {
        (child, s) \<leftarrow> tcp_alloc_child i so dst src sport seq s;
        (case child of
           None \<Rightarrow> m_freem (Some m) s
         | Some c \<Rightarrow> do { (_, s) \<leftarrow> tcp_send_packet out c (TH_SYN OR TH_ACK) [] s; m_freem (Some m) s })
      })
   }"

definition tcp_deliver :: "nat \<Rightarrow> nat \<Rightarrow> net_state \<Rightarrow> net_state option" where
  "tcp_deliver i m s = do {
     so \<leftarrow> tp_so (tp s i);
     so_rcv_append so m (upd_tp i (\<lambda>p. p\<lparr>tp_rcv_nxt := tp_rcv_nxt p + word_of_int (m_len (mb s m))\<rparr>) s)
   }"

definition tcp_syn_received :: "nat \<Rightarrow> nat \<Rightarrow> u32 \<Rightarrow> net_state \<Rightarrow> net_state option" where
  "tcp_syn_received i m ack s =
     (if ack \<noteq> tp_snd_nxt (tp s i) then m_freem (Some m) s
      else do {
        s \<leftarrow> so_q0_to_q (tp_so (tp s i)) (upd_tp i (\<lambda>p. p\<lparr>tp_state := TCPS_ESTABLISHED\<rparr>) s);
        (if m_len (mb s m) > 0 then tcp_deliver i m s else m_freem (Some m) s)
      })"

definition tcp_established :: "out_fn \<Rightarrow> nat \<Rightarrow> nat \<Rightarrow> u8 \<Rightarrow> u32 \<Rightarrow> net_state \<Rightarrow> net_state option" where
  "tcp_established out i m flags seq s =
     (if m_len (mb s m) > 0 \<and> seq \<noteq> tp_rcv_nxt (tp s i) then m_freem (Some m) s
      else if m_len (mb s m) > 0 then do {
        s \<leftarrow> tcp_deliver i m s;
        (_, s) \<leftarrow> tcp_send_packet out i TH_ACK [] s;
        Some s
      }
      else if flags AND TH_FIN \<noteq> 0 then do {
        so \<leftarrow> tp_so (tp s i);
        let s = upd_tp i (\<lambda>p. p\<lparr>tp_rcv_nxt := tp_rcv_nxt p + 1, tp_state := TCPS_CLOSE_WAIT\<rparr>) s;
        let s = upd_so so (\<lambda>q. q\<lparr>so_state := so_state q OR SS_CANTRCVMORE\<rparr>) s;
        (_, s) \<leftarrow> tcp_send_packet out i TH_ACK [] s;
        m_freem (Some m) s
      }
      else m_freem (Some m) s)"

text \<open>The state transitions, for the control block found.\<close>
definition tcp_transition :: "out_fn \<Rightarrow> nat \<Rightarrow> nat \<Rightarrow> u32 \<Rightarrow> u32 \<Rightarrow> u16 \<Rightarrow> u32 \<Rightarrow> u32 \<Rightarrow> u8 \<Rightarrow> net_state \<Rightarrow> net_state option" where
  "tcp_transition out m i src dst sport seq ack flags s =
     (let st = tp_state (tp s i) in
      if st = TCPS_LISTEN \<and> flags AND TH_SYN \<noteq> 0 \<and> flags AND TH_ACK = 0 then tcp_passive_open out m i src dst sport seq s
      else if st = TCPS_SYN_RECEIVED \<and> flags AND TH_ACK \<noteq> 0 then tcp_syn_received i m ack s
      else if st = TCPS_SYN_SENT \<and> flags AND (TH_SYN OR TH_ACK) \<noteq> 0 then do {
        let s = upd_tp i (\<lambda>p. p\<lparr>tp_irs := seq, tp_rcv_nxt := seq + 1, tp_snd_una := ack, tp_state := TCPS_ESTABLISHED\<rparr>) s;
        (_, s) \<leftarrow> tcp_send_packet out i TH_ACK [] s;
        m_freem (Some m) s
      }
      else if st = TCPS_ESTABLISHED then tcp_established out i m flags seq s
      else m_freem (Some m) s)"

definition tcp_input :: "out_fn \<Rightarrow> nat \<Rightarrow> u32 \<Rightarrow> u32 \<Rightarrow> net_state \<Rightarrow> net_state option" where
  "tcp_input out m src dst s =
     (let th = mdata m s; len = m_len (mb s m) in
      if len < 20 then m_freem (Some m) s
      else if in_pseudo_checksum src dst IPPROTO_TCP (word_of_int len) th \<noteq> 0 then m_freem (Some m) s
      else
        let sport = ntohs (ld16 th 0); dport = ntohs (ld16 th 2); seq = ntohl (ld32 th 4); ack = ntohl (ld32 th 8);
            hlen = 4 * unat (drop_bit 4 (th ! 12) AND 0x0F); flags = th ! 13
        in if hlen < 20 \<or> len < int hlen then m_freem (Some m) s
           else let s = m_adj m hlen s in
             case tcp_demux dport sport src flags s of
               None \<Rightarrow> m_freem (Some m) s
             | Some i \<Rightarrow> tcp_transition out m i src dst sport seq ack flags s)"

end
