(* ===== verification/Net_Stack.thy ===== *)
theory Net_Stack
  imports Tcp
begin

text \<open>
  The protocols below the sockets: ICMP, ARP, Ethernet and IP (\<^verbatim>\<open>icmp.c\<close>, \<^verbatim>\<open>arp.c\<close>, \<^verbatim>\<open>ethernet.c\<close>, \<^verbatim>\<open>ip.c\<close> under
  \<^verbatim>\<open>kernel/net\<close>), input dispatch (\<^verbatim>\<open>if.c\<close>) and the receive loop of the Ethernet driver. These call each other in a circle: output to
  the loopback interface is input, input sends answers, and resolving an address polls the device for input. Each function
  takes the functions that close the circle as arguments (\<open>out\<close> is \<^verbatim>\<open>ip_output\<close>, \<open>inp\<close> is \<^verbatim>\<open>if_input\<close>, \<open>poll\<close> is
  \<^verbatim>\<open>e1000_poll_rx\<close>, \<open>eth\<close> is \<^verbatim>\<open>ethernet_output\<close>); the last section ties the knot with a bound on the nesting depth.
\<close>

unbundle bit_operations_syntax

type_synonym input_fn = "nat \<Rightarrow> nat \<Rightarrow> net_state \<Rightarrow> net_state option"

section \<open>ICMP\<close>

definition ICMP_ECHOREPLY :: u8 where "ICMP_ECHOREPLY = 0"
definition ICMP_ECHO :: u8 where "ICMP_ECHO = 8"
definition PING_LISTENERS :: nat where "PING_LISTENERS = 16"

definition upd_ping :: "nat \<Rightarrow> (ping_listener \<Rightarrow> ping_listener) \<Rightarrow> net_state \<Rightarrow> net_state" where
  "upd_ping i f s = s\<lparr>s_ping_listeners := (s_ping_listeners s)(i := f (s_ping_listeners s i))\<rparr>"

definition icmp_init :: "net_state \<Rightarrow> net_state" where
  "icmp_init s = fold (\<lambda>i. upd_ping i (\<lambda>l. l\<lparr>pl_id := 0\<rparr>)) [0..<PING_LISTENERS] s"

text \<open>An echo request is answered in place; the checksum covers at most 1024 bytes.\<close>
definition icmp_echo :: "out_fn \<Rightarrow> nat \<Rightarrow> u32 \<Rightarrow> u32 \<Rightarrow> net_state \<Rightarrow> net_state option" where
  "icmp_echo out m src dst s = do {
     let hdr = take 8 (mdata m s);
     s \<leftarrow> mwrite m 0 ([ICMP_ECHOREPLY, 0, 0, 0] @ drop 4 hdr) s;
     let icmp_len = (if 0 \<le> m_pkthdr_len (mb s m) \<and> m_pkthdr_len (mb s m) \<le> 1024 then m_pkthdr_len (mb s m) else 1024);
     temp_buf \<leftarrow> m_copydata (Some m) 0 icmp_len s;
     temp_buf \<leftarrow> (if length temp_buf < nat icmp_len \<or> nat icmp_len < 8 then None else Some (splice 2 [0, 0] temp_buf));
     s \<leftarrow> mwrite m 0 (take 8 (splice 2 (st16 (in_checksum temp_buf)) temp_buf)) s;
     (_, s) \<leftarrow> out m dst src IPPROTO_ICMP s;
     Some s
   }"

definition icmp_input :: "out_fn \<Rightarrow> nat \<Rightarrow> u32 \<Rightarrow> u32 \<Rightarrow> net_state \<Rightarrow> net_state option" where
  "icmp_input out m src dst s =
     (let icmp = mdata m s in
      if m_len (mb s m) < 8 then m_freem (Some m) s
      else if icmp ! 0 = ICMP_ECHO then icmp_echo out m src dst s
      else if icmp ! 0 = ICMP_ECHOREPLY then
        m_freem (Some m) (case find (\<lambda>i. pl_id (s_ping_listeners s i) = ntohs (ld16 icmp 4)) [0..<PING_LISTENERS] of
            Some i \<Rightarrow> upd_ping i (\<lambda>l. l\<lparr>pl_seq := ntohs (ld16 icmp 6), pl_received := True\<rparr>) s
          | None \<Rightarrow> s)
      else m_freem (Some m) s)"

definition icmp_send_echo :: "out_fn \<Rightarrow> u32 \<Rightarrow> u16 \<Rightarrow> u16 \<Rightarrow> u8 list \<Rightarrow> net_state \<Rightarrow> (chimera_error \<times> net_state) option" where
  "icmp_send_echo out dst_ip ident seq payload s =
     (let total_len = 8 + length payload in
      case m_gethdr MT_DATA s of
        (None, s) \<Rightarrow> Some (CHIMERA_ERR_NOMEM, s)
      | (Some m, s) \<Rightarrow>
          if total_len > 512 then Some (CHIMERA_ERR_INVALID, s)
          else do {
            let buf = [ICMP_ECHO, 0] @ st16 0 @ st16 (htons ident) @ st16 (htons seq) @ payload;
            s \<leftarrow> mwrite m 0 (splice 2 (st16 (in_checksum buf)) buf) s;
            let s = set_lens m total_len s;
            let s = (case find (\<lambda>i. pl_id (s_ping_listeners s i) = 0 \<or> pl_id (s_ping_listeners s i) = ident) [0..<PING_LISTENERS] of
                Some i \<Rightarrow> upd_ping i (\<lambda>l. l\<lparr>pl_id := ident, pl_seq := seq, pl_received := False\<rparr>) s
              | None \<Rightarrow> s);
            out m 0 dst_ip IPPROTO_ICMP s
          })"

definition icmp_poll_reply :: "(net_state \<Rightarrow> net_state option) \<Rightarrow> u16 \<Rightarrow> net_state \<Rightarrow> (u16 option \<times> net_state) option" where
  "icmp_poll_reply poll ident s = do {
     s \<leftarrow> poll s;
     Some (case find (\<lambda>i. pl_id (s_ping_listeners s i) = ident \<and> pl_received (s_ping_listeners s i)) [0..<PING_LISTENERS] of
         Some i \<Rightarrow> (Some (pl_seq (s_ping_listeners s i)), upd_ping i (\<lambda>l. l\<lparr>pl_received := False\<rparr>) s)
       | None \<Rightarrow> (None, s))
   }"

section \<open>ARP and Ethernet\<close>

definition ETHERTYPE_IP :: u16 where "ETHERTYPE_IP = 0x0800"
definition ETHERTYPE_ARP :: u16 where "ETHERTYPE_ARP = 0x0806"
definition ARPHRD_ETHER :: u16 where "ARPHRD_ETHER = 1"
definition ARPOP_REQUEST :: u16 where "ARPOP_REQUEST = 1"
definition ARPOP_REPLY :: u16 where "ARPOP_REPLY = 2"
definition ARP_TABLE_SIZE :: nat where "ARP_TABLE_SIZE = 64"

definition upd_arp :: "nat \<Rightarrow> (arp_entry \<Rightarrow> arp_entry) \<Rightarrow> net_state \<Rightarrow> net_state" where
  "upd_arp i f s = s\<lparr>s_arp_table := (s_arp_table s)(i := f (s_arp_table s i))\<rparr>"

definition arp_init :: "net_state \<Rightarrow> net_state" where
  "arp_init s = fold (\<lambda>i. upd_arp i (\<lambda>e. e\<lparr>ae_valid := False\<rparr>)) [0..<ARP_TABLE_SIZE] s"

text \<open>The search of the table.\<close>
definition arp_find :: "u32 \<Rightarrow> net_state \<Rightarrow> nat option" where
  "arp_find ip s = find (\<lambda>i. ae_valid (s_arp_table s i) \<and> ae_ip (s_arp_table s i) = ip) [0..<ARP_TABLE_SIZE]"

definition arp_cache_insert :: "u32 \<Rightarrow> u8 list \<Rightarrow> net_state \<Rightarrow> net_state" where
  "arp_cache_insert ip mac s =
     (case arp_find ip s of
        Some i \<Rightarrow> upd_arp i (\<lambda>e. e\<lparr>ae_mac := mac\<rparr>) s
      | None \<Rightarrow>
          (case find (\<lambda>i. \<not> ae_valid (s_arp_table s i)) [0..<ARP_TABLE_SIZE] of
             Some i \<Rightarrow> upd_arp i (\<lambda>e. e\<lparr>ae_ip := ip, ae_mac := mac, ae_valid := True\<rparr>) s
           | None \<Rightarrow> upd_arp 0 (\<lambda>e. e\<lparr>ae_ip := ip, ae_mac := mac, ae_valid := True\<rparr>) s))"

text \<open>The call of the interface's output routine.\<close>
definition if_transmit :: "input_fn \<Rightarrow> nat \<Rightarrow> nat \<Rightarrow> net_state \<Rightarrow> (chimera_error \<times> net_state) option" where
  "if_transmit inp ifp hdr s =
     (case if_output (n_ifnets s ifp) of
        Some E1000_IFNET_OUTPUT \<Rightarrow> e1000_ifnet_output (Some hdr) s
      | Some LOOPBACK_OUTPUT \<Rightarrow>
          do { s \<leftarrow> inp ifp hdr (upd_if ifp (\<lambda>f. let n = word_of_int (m_pkthdr_len (mb s hdr)) in
                 f\<lparr>ifi_opackets := ifi_opackets f + 1, ifi_obytes := ifi_obytes f + n,
                   ifi_ipackets := ifi_ipackets f + 1, ifi_ibytes := ifi_ibytes f + n\<rparr>) s);
               Some (CHIMERA_SUCCESS, s) }
      | None \<Rightarrow> do { s \<leftarrow> m_freem (Some hdr) s; Some (CHIMERA_ERR_NOTSUP, s) })"

text \<open>A mbuf for a header, in front of the packet.\<close>
definition prepend :: "u8 list \<Rightarrow> nat \<Rightarrow> net_state \<Rightarrow> (nat option \<times> net_state) option" where
  "prepend bytes m s =
     (case m_gethdr MT_HEADER s of
        (None, s) \<Rightarrow> do { s \<leftarrow> m_freem (Some m) s; Some (None, s) }
      | (Some hdr, s) \<Rightarrow> do {
          s \<leftarrow> mwrite hdr 0 bytes s;
          Some (Some hdr, upd_mb hdr (\<lambda>q. q\<lparr>m_len := int (length bytes), m_pkthdr_len := m_pkthdr_len (mb s m) + int (length bytes), m_next := Some m\<rparr>) s)
        })"

text \<open>\<open>resolve\<close> is \<^verbatim>\<open>arp_resolve\<close>.\<close>
definition ethernet_output_with ::
  "(nat \<Rightarrow> u32 \<Rightarrow> net_state \<Rightarrow> ((chimera_error + u8 list) \<times> net_state) option) \<Rightarrow> input_fn \<Rightarrow>
   nat \<Rightarrow> nat \<Rightarrow> u32 \<Rightarrow> u16 \<Rightarrow> net_state \<Rightarrow> (chimera_error \<times> net_state) option" where
  "ethernet_output_with resolve inp ifp m dest_ip ethertype s = do {
     let f = n_ifnets s ifp;
     (r, s) \<leftarrow> (if ntohl dest_ip = INADDR_BROADCAST \<or> (if_bcast f \<noteq> 0 \<and> dest_ip = if_bcast f) then Some (Inr (replicate 6 0xFF), s)
       else resolve ifp (if if_gateway f \<noteq> 0 \<and> dest_ip AND if_netmask f \<noteq> if_ip f AND if_netmask f then if_gateway f else dest_ip) s);
     (case r of
        Inl err \<Rightarrow> do { s \<leftarrow> m_freem (Some m) s; Some (err, s) }
      | Inr dest_mac \<Rightarrow> do {
          (hdr, s) \<leftarrow> prepend (dest_mac @ if_mac (n_ifnets s ifp) @ st16 (htons ethertype)) m s;
          (case hdr of None \<Rightarrow> Some (CHIMERA_ERR_NOMEM, s) | Some h \<Rightarrow> if_transmit inp ifp h s)
        })
   }"

definition ether_arp :: "ifnet \<Rightarrow> u16 \<Rightarrow> u8 list \<Rightarrow> u8 list \<Rightarrow> u8 list" where
  "ether_arp f op tha tpa = st16 (htons ARPHRD_ETHER) @ st16 (htons ETHERTYPE_IP) @ [6, 4] @ st16 (htons op) @ if_mac f @ st32 (if_ip f) @ tha @ tpa"

text \<open>A broadcast needs no address resolution.\<close>
definition arp_send_request :: "input_fn \<Rightarrow> nat \<Rightarrow> u32 \<Rightarrow> net_state \<Rightarrow> net_state option" where
  "arp_send_request inp ifp target_ip s =
     (case m_gethdr MT_DATA s of
        (None, s) \<Rightarrow> Some s
      | (Some m, s) \<Rightarrow> do {
          s \<leftarrow> mwrite m 0 (ether_arp (n_ifnets s ifp) ARPOP_REQUEST (replicate 6 0) (st32 target_ip)) s;
          (_, s) \<leftarrow> ethernet_output_with (\<lambda>_ _ _. None) inp ifp m INADDR_BROADCAST ETHERTYPE_ARP (set_lens m 28 s);
          Some s
        })"

text \<open>The polling loop: \<open>n\<close> of the 500 retries remain.\<close>
fun arp_wait :: "(net_state \<Rightarrow> net_state option) \<Rightarrow> u32 \<Rightarrow> nat \<Rightarrow> net_state \<Rightarrow> ((chimera_error + u8 list) \<times> net_state) option" where
  "arp_wait poll ip 0 s = Some (Inl CHIMERA_ERR_TIMEOUT, s)"
| "arp_wait poll ip (Suc n) s = do {
     s \<leftarrow> poll s;
     (case arp_find ip s of Some i \<Rightarrow> Some (Inr (ae_mac (s_arp_table s i)), s) | None \<Rightarrow> arp_wait poll ip n s)
   }"

definition arp_resolve :: "input_fn \<Rightarrow> (net_state \<Rightarrow> net_state option) \<Rightarrow> nat \<Rightarrow> u32 \<Rightarrow> net_state \<Rightarrow> ((chimera_error + u8 list) \<times> net_state) option" where
  "arp_resolve inp poll ifp dest_ip s =
     (let f = n_ifnets s ifp;
          ip = (if if_gateway f \<noteq> 0 \<and> dest_ip AND if_netmask f \<noteq> if_ip f AND if_netmask f then if_gateway f else dest_ip)
      in case arp_find ip s of
           Some i \<Rightarrow> Some (Inr (ae_mac (s_arp_table s i)), s)
         | None \<Rightarrow> do { s \<leftarrow> arp_send_request inp ifp ip s; arp_wait poll ip 500 s })"

definition ethernet_output :: "input_fn \<Rightarrow> (net_state \<Rightarrow> net_state option) \<Rightarrow> nat \<Rightarrow> nat \<Rightarrow> u32 \<Rightarrow> u16 \<Rightarrow> net_state \<Rightarrow> (chimera_error \<times> net_state) option" where
  "ethernet_output inp poll = ethernet_output_with (arp_resolve inp poll) inp"

definition arp_send_reply :: "input_fn \<Rightarrow> (net_state \<Rightarrow> net_state option) \<Rightarrow> nat \<Rightarrow> u8 list \<Rightarrow> net_state \<Rightarrow> net_state option" where
  "arp_send_reply inp poll ifp req s =
     (case m_gethdr MT_DATA s of
        (None, s) \<Rightarrow> Some s
      | (Some m, s) \<Rightarrow> do {
          s \<leftarrow> mwrite m 0 (ether_arp (n_ifnets s ifp) ARPOP_REPLY (take 6 (drop 8 req)) (take 4 (drop 14 req))) s;
          (_, s) \<leftarrow> ethernet_output inp poll ifp m (ld32 req 14) ETHERTYPE_ARP (set_lens m 28 s);
          Some s
        })"

definition arp_input :: "input_fn \<Rightarrow> (net_state \<Rightarrow> net_state option) \<Rightarrow> nat \<Rightarrow> nat \<Rightarrow> net_state \<Rightarrow> net_state option" where
  "arp_input inp poll ifp m s =
     (if m_len (mb s m) < 28 then m_freem (Some m) s
      else do {
        let arp = take 28 (mdata m s);
        s \<leftarrow> m_freem (Some m) s;
        let sender_ip = ld32 arp 14;
        let sha = take 6 (drop 8 arp);
        let my_ip = if_ip (n_ifnets s ifp);
        (if ntohs (ld16 arp 0) \<noteq> ARPHRD_ETHER \<or> ntohs (ld16 arp 2) \<noteq> ETHERTYPE_IP then Some s
         else if sha ! 0 AND 1 \<noteq> 0 \<or> sha = replicate 6 0 then Some s
         else if sender_ip = 0 \<or> sender_ip = INADDR_BROADCAST \<or> sender_ip = my_ip then Some s
         else if ntohs (ld16 arp 6) = ARPOP_REQUEST \<and> ld32 arp 24 = my_ip
         then arp_send_reply inp poll ifp arp (arp_cache_insert sender_ip sha s)
         else if ntohs (ld16 arp 6) = ARPOP_REPLY \<and> ld32 arp 24 = my_ip then Some (arp_cache_insert sender_ip sha s)
         else Some s)
      })"

section \<open>IP\<close>

definition IP_OFF_DF :: u16 where "IP_OFF_DF = 0x4000"

definition ip_input :: "out_fn \<Rightarrow> nat \<Rightarrow> net_state \<Rightarrow> net_state option" where
  "ip_input out m s =
     (let ip = mdata m s; hlen = 4 * unat (ip ! 0 AND 0x0F) in
      if m_len (mb s m) < 20 then m_freem (Some m) s
      else if drop_bit 4 (ip ! 0) AND 0x0F \<noteq> 4 then m_freem (Some m) s
      else if hlen < 20 \<or> m_len (mb s m) < int hlen then m_freem (Some m) s
      else let s = m_adj m hlen s; src = ld32 ip 12; dst = ld32 ip 16 in
        if ip ! 9 = IPPROTO_ICMP then icmp_input out m src dst s
        else if ip ! 9 = IPPROTO_UDP then udp_input m s
        else if ip ! 9 = IPPROTO_TCP then tcp_input out m src dst s
        else m_freem (Some m) s)"

definition ip_header :: "nat \<Rightarrow> u16 \<Rightarrow> u8 \<Rightarrow> u32 \<Rightarrow> u32 \<Rightarrow> u16 \<Rightarrow> u8 list" where
  "ip_header len ident proto src dst csum =
     [0x45, 0] @ st16 (htons (word_of_nat (20 + len))) @ st16 (htons ident) @ st16 (htons IP_OFF_DF) @ [64, proto] @ st16 csum @ st32 src @ st32 dst"

text \<open>The bytes of a whole chain, as the loopback path copies them.\<close>
partial_function (option) chain_bytes :: "nat option \<Rightarrow> u8 list \<Rightarrow> net_state \<Rightarrow> u8 list option" where
  "chain_bytes r acc s = (case r of None \<Rightarrow> Some acc | Some m \<Rightarrow> chain_bytes (m_next (mb s m)) (acc @ mdata m s) s)"

text \<open>Loopback: the packet becomes one cluster, which is input.\<close>
definition ip_loop :: "out_fn \<Rightarrow> nat \<Rightarrow> nat \<Rightarrow> net_state \<Rightarrow> (chimera_error \<times> net_state) option" where
  "ip_loop out ifp hdr s =
     (let total = nat (m_pkthdr_len (mb s hdr)) in
      if m_pkthdr_len (mb s hdr) < 0 \<or> total > MCLBYTES then do { s \<leftarrow> m_freem (Some hdr) s; Some (CHIMERA_ERR_OVERFLOW, s) }
      else case m_getcl MT_DATA s of
        (None, s) \<Rightarrow> do { s \<leftarrow> m_freem (Some hdr) s; Some (CHIMERA_ERR_NOMEM, s) }
      | (Some pkt, s) \<Rightarrow> do {
          bytes \<leftarrow> chain_bytes (Some hdr) [] s;
          s \<leftarrow> mwrite pkt 0 bytes s;
          let s = upd_mb pkt (\<lambda>q. q\<lparr>m_pkthdr_rcvif := Some ifp\<rparr>) (set_lens pkt total s);
          s \<leftarrow> m_freem (Some hdr) s;
          s \<leftarrow> ip_input out pkt s;
          Some (CHIMERA_SUCCESS, s)
        })"

definition ip_output :: "out_fn \<Rightarrow> (nat \<Rightarrow> nat \<Rightarrow> u32 \<Rightarrow> u16 \<Rightarrow> net_state \<Rightarrow> (chimera_error \<times> net_state) option) \<Rightarrow> out_fn" where
  "ip_output out eth m src_ip dst_ip proto s = do {
     ifp \<leftarrow> (if dst_ip = htonl INADDR_LOOPBACK \<or> src_ip = htonl INADDR_LOOPBACK then if_lookup ''lo0'' s else if_get_default s);
     (case ifp of
        None \<Rightarrow> do { s \<leftarrow> m_freem (Some m) s; Some (CHIMERA_ERR_NOTFOUND, s) }
      | Some i \<Rightarrow> do {
          let src = (if src_ip = 0 then if_ip (n_ifnets s i) else src_ip);
          let len = nat (m_pkthdr_len (mb s m));
          let ident = s_ip_id_counter s;
          let csum = in_checksum (ip_header len ident proto src dst_ip 0);
          (case s_mbuf_freelist s of
             None \<Rightarrow> do { s \<leftarrow> m_freem (Some m) s; Some (CHIMERA_ERR_NOMEM, s) }
           | Some _ \<Rightarrow> do {
               (hdr, s) \<leftarrow> prepend (ip_header len ident proto src dst_ip csum) m (s\<lparr>s_ip_id_counter := ident + 1\<rparr>);
               h \<leftarrow> hdr;
               (if if_flags (n_ifnets s i) AND IFF_LOOPBACK \<noteq> 0 then ip_loop out i h s
                else eth i h dst_ip ETHERTYPE_IP s)
             })
        })
   }"

section \<open>Input\<close>

definition ethernet_input :: "(nat \<Rightarrow> nat \<Rightarrow> net_state \<Rightarrow> net_state option) \<Rightarrow> (nat \<Rightarrow> net_state \<Rightarrow> net_state option) \<Rightarrow> nat \<Rightarrow> nat \<Rightarrow> net_state \<Rightarrow> net_state option" where
  "ethernet_input arp_in ip_in ifp m s =
     (if m_len (mb s m) < 14 then m_freem (Some m) s
      else let ethertype = ntohs (ld16 (mdata m s) 12); s = m_adj m 14 s in
        if ethertype = ETHERTYPE_ARP then arp_in ifp m s
        else if ethertype = ETHERTYPE_IP then ip_in m s
        else m_freem (Some m) s)"

text \<open>The input lock is not recursive: entering it a second time on the same processor never returns.\<close>
definition if_input :: "(nat \<Rightarrow> nat \<Rightarrow> net_state \<Rightarrow> net_state option) \<Rightarrow> (nat \<Rightarrow> net_state \<Rightarrow> net_state option) \<Rightarrow> input_fn" where
  "if_input arp_in ip_in ifp m s =
     (if s_net_input_lock s then None
      else do {
        s \<leftarrow> (if if_flags (n_ifnets s ifp) AND IFF_LOOPBACK \<noteq> 0 then ip_in m (s\<lparr>s_net_input_lock := True\<rparr>)
              else ethernet_input arp_in ip_in ifp m (s\<lparr>s_net_input_lock := True\<rparr>));
        Some (s\<lparr>s_net_input_lock := False\<rparr>)
      })"

text \<open>One received frame; without a free mbuf it is dropped.\<close>
definition rx_frame :: "input_fn \<Rightarrow> u8 list \<Rightarrow> net_state \<Rightarrow> net_state option" where
  "rx_frame inp frame s =
     (if frame = [] then Some s
      else case m_getcl MT_DATA s of
        (None, s) \<Rightarrow> Some s
      | (Some m, s) \<Rightarrow> do {
          s \<leftarrow> mwrite m 0 frame s;
          let s = upd_mb m (\<lambda>q. q\<lparr>m_pkthdr_rcvif := Some 1\<rparr>) (set_lens m (length frame) s);
          let s = upd_if 1 (\<lambda>f. f\<lparr>ifi_ipackets := ifi_ipackets f + 1, ifi_ibytes := ifi_ibytes f + word_of_nat (length frame)\<rparr>) s;
          inp 1 m s
        })"

text \<open>A frame leaves the ring only after it has been processed.\<close>
partial_function (option) rx_loop :: "input_fn \<Rightarrow> net_state \<Rightarrow> net_state option" where
  "rx_loop inp s =
     (case e_rx s of
        [] \<Rightarrow> Some s
      | frame # _ \<Rightarrow> do { s \<leftarrow> rx_frame inp frame s; rx_loop inp (s\<lparr>e_rx := tl (e_rx s)\<rparr>) })"

definition e1000_poll_rx :: "input_fn \<Rightarrow> net_state \<Rightarrow> net_state option" where
  "e1000_poll_rx inp s =
     (if \<not> g_e1000_present s then Some s
      else rx_loop inp (case e_arrivals s of [] \<Rightarrow> s | fs # rest \<Rightarrow> s\<lparr>e_rx := e_rx s @ fs, e_arrivals := rest\<rparr>))"

section \<open>The stack\<close>

text \<open>Output and input nested at most \<open>n\<close> deep.\<close>
fun net_out :: "nat \<Rightarrow> out_fn" and net_input :: "nat \<Rightarrow> input_fn" and net_poll :: "nat \<Rightarrow> net_state \<Rightarrow> net_state option" where
  "net_out 0 m src dst proto s = None"
| "net_out (Suc n) m src dst proto s = ip_output (net_out n) (ethernet_output (net_input n) (net_poll n)) m src dst proto s"
| "net_input 0 ifp m s = None"
| "net_input (Suc n) ifp m s = if_input (arp_input (net_input n) (net_poll n)) (ip_input (net_out n)) ifp m s"
| "net_poll 0 s = None"
| "net_poll (Suc n) s = e1000_poll_rx (net_input n) s"

end
