(* ===== verification/Net_Checksum.thy ===== *)
theory Net_Checksum
  imports Net
begin

text \<open>
  Byte order and checksums: stores and loads are inverse, the byte-swapping functions are involutions, and the checksum
  functions compute the complement of the one's complement sum, so that a packet into which its checksum has been stored
  sums up to zero.
\<close>

unbundle bit_operations_syntax

section \<open>Byte order\<close>

lemma and_FF: "(v :: u16) AND 0xFF = take_bit 8 v" "(w :: u32) AND 0xFF = take_bit 8 w"
  by (simp_all add: take_bit_eq_mask mask_eq_exp_minus_1)

lemma ntohs_htons [simp]: "ntohs (htons v) = v" "htons (htons v) = v"
proof -
  show "htons (htons v) = v" unfolding htons_def and_FF by (rule bit_word_eqI) (auto simp: bit_simps not_less)
  then show "ntohs (htons v) = v" by (simp add: ntohs_def)
qed

lemma bit32_cases:
  assumes "n < LENGTH(32)"
  obtains "n < 8" | "8 \<le> n" "n < 16" | "16 \<le> n" "n < 24" | "24 \<le> n" "n < 32"
  using assms by fastforce

lemma bit_htonl:
  "n < 8 \<Longrightarrow> bit (htonl v) n = bit v (n + 24)" "8 \<le> n \<Longrightarrow> n < 16 \<Longrightarrow> bit (htonl v) n = bit v (n + 8)"
  "16 \<le> n \<Longrightarrow> n < 24 \<Longrightarrow> bit (htonl v) n = bit v (n - 8)" "24 \<le> n \<Longrightarrow> n < 32 \<Longrightarrow> bit (htonl v) n = bit v (n - 24)"
  unfolding htonl_def and_FF by (auto simp: bit_simps add.commute)

lemma ntohl_htonl [simp]: "ntohl (htonl v) = v" "htonl (htonl v) = v"
proof -
  show "htonl (htonl v) = v" by (rule bit_word_eqI, erule bit32_cases; simp add: bit_htonl)
  then show "ntohl (htonl v) = v" by (simp add: ntohl_def)
qed

lemma length_st [simp]: "length (st16 w) = 2" "length (st32 v) = 4"
  by (simp_all add: st16_def st32_def)

lemma ld_append [simp]:
  "i + 1 < length xs \<Longrightarrow> ld16 (xs @ ys) i = ld16 xs i" "i + 3 < length xs \<Longrightarrow> ld32 (xs @ ys) i = ld32 xs i"
  by (simp_all add: ld16_def ld32_def nth_append)

lemma ld16_st16: "ld16 (xs @ st16 w @ ys) (length xs) = w"
proof -
  have "(ucast (ucast w :: u8) :: u16) OR push_bit 8 (ucast (ucast (drop_bit 8 w) :: u8)) = w"
    by (rule bit_word_eqI) (auto simp: bit_simps)
  then show ?thesis by (simp add: ld16_def st16_def nth_append)
qed

lemma ld32_st32: "ld32 (xs @ st32 w @ ys) (length xs) = w"
proof -
  have "(ucast (ucast w :: u8) :: u32) OR push_bit 8 (ucast (ucast (drop_bit 8 w) :: u8)) OR push_bit 16 (ucast (ucast (drop_bit 16 w) :: u8))
      OR push_bit 24 (ucast (ucast (drop_bit 24 w) :: u8)) = w"
    by (rule bit_word_eqI, erule bit32_cases; auto simp: bit_simps)
  then show ?thesis by (simp add: ld32_def st32_def nth_append)
qed

section \<open>Sums\<close>

text \<open>The sum of the 16-bit words of a buffer, an odd last byte counting as the low half of a word.\<close>
fun words_sum :: "u8 list \<Rightarrow> nat" where
  "words_sum (a # b # bs) = unat a + 256 * unat b + words_sum bs"
| "words_sum [a] = unat a"
| "words_sum [] = 0"

text \<open>The one's complement normal form: carries out of 16 bits are added back in.\<close>
definition ones_sum :: "nat \<Rightarrow> nat" where
  "ones_sum n = (if n = 0 then 0 else (n - 1) mod 65535 + 1)"

lemma u8_less: "unat (a :: u8) < 256"
  using unsigned_less [of a, where 'a = nat] by simp

lemma words_sum_bound: "words_sum bs \<le> 65535 * ((length bs + 1) div 2)"
proof (induction bs rule: words_sum.induct)
  case (1 a b bs)
  then show ?case using u8_less [of a] u8_less [of b] by simp
next
  case (2 a)
  then show ?case using u8_less [of a] by simp
qed simp

lemma word_of_bytes: "unat (ucast a OR push_bit 8 (ucast b) :: u32) = unat (a :: u8) + 256 * unat (b :: u8)"
proof -
  have "(ucast a :: u32) AND push_bit 8 (ucast b) = 0"
    by (rule bit_word_eqI) (auto simp: bit_simps dest: bit_imp_le_length)
  then have "(ucast a :: u32) OR push_bit 8 (ucast b) = ucast a + push_bit 8 (ucast b)" by (simp only: disjunctive_add_eq_or)
  moreover have "unat (ucast a :: u32) = unat a" using u8_less [of a] by (simp add: unsigned_ucast_eq take_bit_nat_eq_self)
  moreover have "unat (ucast b :: u32) = unat b" using u8_less [of b] by (simp add: unsigned_ucast_eq take_bit_nat_eq_self)
  then have "unat (push_bit 8 (ucast b) :: u32) = take_bit 32 (push_bit 8 (unat b))" by (simp only: unsigned_push_bit_eq) simp
  then have "unat (push_bit 8 (ucast b) :: u32) = 256 * unat b"
    using u8_less [of b] by (simp only: push_bit_eq_mult) (simp add: take_bit_nat_eq_self)
  ultimately have "unat (ucast a :: u32) + unat (push_bit 8 (ucast b) :: u32) = unat a + 256 * unat b"
    "(ucast a :: u32) OR push_bit 8 (ucast b) = ucast a + push_bit 8 (ucast b)" by simp_all
  moreover from this(1) have "unat (ucast a :: u32) + unat (push_bit 8 (ucast b) :: u32) < 2 ^ LENGTH(32)"
    using u8_less [of a] u8_less [of b] by simp
  ultimately show ?thesis by (metis unat_add_lem)
qed

lemma sum_words_eq: "unat acc + words_sum bs < 2 ^ 32 \<Longrightarrow> unat (sum_words bs acc) = unat acc + words_sum bs"
proof (induction bs acc rule: sum_words.induct)
  case (1 a b bs acc)
  let ?w = "ucast a OR push_bit 8 (ucast b) :: u32"
  have "unat (acc + ?w) = unat acc + unat ?w"
    using 1(2) by (subst unat_add_lem [THEN iffD1]) (simp_all add: word_of_bytes)
  with 1 show ?case by (simp add: word_of_bytes)
next
  case (2 a acc)
  have "unat (ucast a :: u32) = unat a" using u8_less [of a] by (simp add: unsigned_ucast_eq take_bit_nat_eq_self)
  with 2 show ?case by (simp add: unat_add_lem [THEN iffD1])
qed simp

lemma ones_sum_step:
  assumes "n \<ge> 65536"
  shows "ones_sum (n mod 65536 + n div 65536) = ones_sum n"
proof -
  let ?m = "n mod 65536 + n div 65536"
  have n: "n = ?m + 65535 * (n div 65536)" using div_mult_mod_eq [of n 65536] by linarith
  have pos: "?m > 0" using assms div_greater_zero_iff [of n 65536] by linarith
  have "(?m - 1 + 65535 * (n div 65536)) mod 65535 = (?m - 1) mod 65535" by simp
  moreover have "n - 1 = ?m - 1 + 65535 * (n div 65536)" using n pos by linarith
  ultimately show ?thesis using pos assms by (simp add: ones_sum_def)
qed

lemma fold_carries_eq: "unat (fold_carries acc) = ones_sum (unat acc)"
proof (induction acc rule: fold_carries.induct)
  case (1 acc)
  show ?case
  proof (cases "drop_bit 16 acc = 0")
    case True
    then have "unat acc div 65536 = 0" using halves(2) [of acc] by simp
    then have "unat acc < 65536" by simp
    with True show ?thesis by (subst fold_carries.simps) (auto simp: ones_sum_def)
  next
    case False
    then have "unat acc div 65536 \<noteq> 0" using halves(2) [of acc] by (metis unat_eq_zero)
    then have "ones_sum (unat acc mod 65536 + unat acc div 65536) = ones_sum (unat acc)" by (intro ones_sum_step) simp
    with 1 False show ?thesis by (subst fold_carries.simps) (simp add: halves_sum)
  qed
qed

lemma ones_sum_le: "ones_sum n \<le> 65535"
proof (cases "n = 0")
  case False
  have "(n - 1) mod 65535 < 65535" by simp
  then have "(n - 1) mod 65535 + 1 \<le> 65535" by linarith
  with False show ?thesis by (simp only: ones_sum_def if_False)
qed (simp add: ones_sum_def)

text \<open>The final complement.\<close>
lemma complement16:
  assumes "unat (w :: u32) \<le> 65535"
  shows "unat (ucast (NOT w) :: u16) = 65535 - unat w"
proof -
  have "(ucast (NOT w) :: u16) = NOT (ucast w)" by (rule bit_word_eqI) (auto simp: bit_simps)
  moreover have "unat (ucast w :: u16) = unat w" using assms by (simp add: unsigned_ucast_eq take_bit_nat_eq_self)
  moreover have "NOT (ucast w) = - 1 - (ucast w :: u16)" by (simp add: not_eq_complement)
  moreover have "unat (- 1 - (ucast w :: u16)) = unat (- 1 :: u16) - unat (ucast w :: u16)" by (rule unat_sub) simp
  moreover have "unat (- 1 :: u16) = 65535" by (simp add: unsigned_minus_1_eq_mask mask_eq_exp_minus_1)
  ultimately show ?thesis by simp
qed

definition pseudo_sum :: "u32 \<Rightarrow> u32 \<Rightarrow> u8 \<Rightarrow> u16 \<Rightarrow> nat" where
  "pseudo_sum src dst proto len = unat src div 65536 + unat src mod 65536 + unat dst div 65536 + unat dst mod 65536
     + unat (htons (ucast proto)) + unat (htons len)"

section \<open>The checksum functions\<close>

lemma in_checksum_eq:
  assumes "words_sum buf < 2 ^ 32"
  shows "unat (in_checksum buf) = 65535 - ones_sum (words_sum buf)"
  unfolding in_checksum_def using assms by (subst complement16) (simp_all add: fold_carries_eq sum_words_eq ones_sum_le)

lemma pseudo_acc:
  "unat ((drop_bit 16 src AND 0xFFFF) + (src AND 0xFFFF) + (drop_bit 16 dst AND 0xFFFF) + (dst AND 0xFFFF)
      + ucast (htons (ucast (proto :: u8))) + ucast (htons len) :: u32) = pseudo_sum src dst proto len"
proof -
  have d: "unat (drop_bit 16 w AND 0xFFFF) = unat w div 65536" for w :: u32
    using unsigned_less [of w, where 'a = nat] by (simp only: halves) simp
  have c: "unat (ucast w :: u32) = unat w" for w :: u16 using unsigned_less [of w, where 'a = nat] by (simp add: unsigned_ucast_eq take_bit_nat_eq_self)
  have b: "unat src div 65536 < 65536" "unat src mod 65536 < 65536" "unat dst div 65536 < 65536" "unat dst mod 65536 < 65536"
    "unat (htons (ucast proto)) < 65536" "unat (htons len) < 65536"
    using unsigned_less [of src, where 'a = nat] unsigned_less [of dst, where 'a = nat] unsigned_less [of "htons (ucast proto)", where 'a = nat]
      unsigned_less [of "htons len", where 'a = nat] by simp_all
  have add: "unat (x + y) = unat x + unat y" if "unat x + unat y < 2 ^ 32" for x y :: u32
    using that by (subst unat_add_lem [THEN iffD1]) simp_all
  have l: "unat (src AND 0xFFFF) = unat src mod 65536" "unat (dst AND 0xFFFF) = unat dst mod 65536" by (rule halves)+
  have e1: "unat ((drop_bit 16 src AND 0xFFFF) + (src AND 0xFFFF)) = unat src div 65536 + unat src mod 65536"
    using b by (subst add) (simp_all only: d l, simp)
  have e2: "unat ((drop_bit 16 src AND 0xFFFF) + (src AND 0xFFFF) + (drop_bit 16 dst AND 0xFFFF))
      = unat src div 65536 + unat src mod 65536 + unat dst div 65536"
    using b by (subst add) (simp_all only: d e1, simp)
  have e3: "unat ((drop_bit 16 src AND 0xFFFF) + (src AND 0xFFFF) + (drop_bit 16 dst AND 0xFFFF) + (dst AND 0xFFFF))
      = unat src div 65536 + unat src mod 65536 + unat dst div 65536 + unat dst mod 65536"
    using b by (subst add) (simp_all only: l e2, simp)
  have e4: "unat ((drop_bit 16 src AND 0xFFFF) + (src AND 0xFFFF) + (drop_bit 16 dst AND 0xFFFF) + (dst AND 0xFFFF) + ucast (htons (ucast proto)))
      = unat src div 65536 + unat src mod 65536 + unat dst div 65536 + unat dst mod 65536 + unat (htons (ucast proto))"
    using b by (subst add) (simp_all only: c e3, simp)
  show ?thesis unfolding pseudo_sum_def using b by (subst add) (simp_all only: c e4, simp)
qed

lemma pseudo_sum_bound: "pseudo_sum src dst proto len < 6 * 65536"
  using unsigned_less [of src, where 'a = nat] unsigned_less [of dst, where 'a = nat] unsigned_less [of "htons (ucast proto)", where 'a = nat]
    unsigned_less [of "htons len", where 'a = nat] by (simp add: pseudo_sum_def)

lemma in_pseudo_checksum_eq:
  assumes "pseudo_sum src dst proto len + words_sum payload < 2 ^ 32"
  shows "unat (in_pseudo_checksum src dst proto len payload) = 65535 - ones_sum (pseudo_sum src dst proto len + words_sum payload)"
  unfolding in_pseudo_checksum_def using assms
  by (subst complement16) (simp_all only: fold_carries_eq sum_words_eq pseudo_acc ones_sum_le)

text \<open>Filling in a word of the buffer that was zero.\<close>
lemma words_sum_append: "even (length xs) \<Longrightarrow> words_sum (xs @ ys) = words_sum xs + words_sum ys"
  by (induction xs rule: words_sum.induct) auto

lemma words_sum_st16: "words_sum (st16 w) = unat w"
proof -
  have "unat (ucast w :: u8) = unat w mod 256" by (simp add: unsigned_ucast_eq take_bit_eq_mod)
  moreover have "unat (drop_bit 8 w) = unat w div 256" by (simp only: unat_drop_bit_eq) (simp add: drop_bit_eq_div)
  then have "unat (ucast (drop_bit 8 w) :: u8) = unat w div 256"
    using unsigned_less [of w, where 'a = nat] by (simp only: unsigned_ucast_eq) (simp add: take_bit_nat_eq_self)
  ultimately show ?thesis by (simp add: st16_def)
qed

lemma ones_sum_complement: "ones_sum (n + (65535 - ones_sum n)) = 65535"
proof (cases "n = 0")
  case False
  define q where "q = (n - 1) div 65535"
  have "n - 1 = 65535 * q + (n - 1) mod 65535" by (simp add: q_def)
  then have "n = 65535 * q + ones_sum n" using False by (simp add: ones_sum_def)
  then have "n + (65535 - ones_sum n) = 65535 * (q + 1)"
    using le_add_diff_inverse [OF ones_sum_le, of n] by simp
  moreover have "(65535 * (q + 1) - 1) mod 65535 = (65534 + 65535 * q) mod 65535" by (rule arg_cong [where f = "\<lambda>x. x mod 65535"]) simp
  ultimately show ?thesis by (simp add: ones_sum_def)
qed (simp add: ones_sum_def)

lemma checksum_verifies:
  assumes "even (length xs)" and "length xs + length ys \<le> 65536"
    and "c = in_pseudo_checksum src dst proto len (xs @ st16 0 @ ys)"
  shows "in_pseudo_checksum src dst proto len (xs @ st16 c @ ys) = 0"
proof -
  let ?p = "pseudo_sum src dst proto len" and ?z = "words_sum xs + words_sum ys"
  have w: "words_sum (xs @ st16 v @ ys) = ?z + unat v" for v
    using assms(1) by (simp add: words_sum_append words_sum_st16)
  have "(length xs + 1) div 2 + (length ys + 1) div 2 \<le> 32769" using assms(2) by linarith
  then have bz: "?p + ?z < 2 ^ 32 - 65536"
    using words_sum_bound [of xs] words_sum_bound [of ys] pseudo_sum_bound [of src dst proto len] by simp
  have c: "unat c = 65535 - ones_sum (?p + ?z)"
    unfolding assms(3) using bz by (subst in_pseudo_checksum_eq) (simp_all add: w)
  have "unat (in_pseudo_checksum src dst proto len (xs @ st16 c @ ys)) = 65535 - ones_sum (?p + ?z + unat c)"
    using bz c by (subst in_pseudo_checksum_eq) (simp_all add: w add.assoc)
  also have "\<dots> = 0" unfolding c ones_sum_complement by simp
  finally show ?thesis by (simp add: unat_eq_zero)
qed

end
