(* ===== verification/Mbuf_Correct.thy ===== *)
theory Mbuf_Correct
  imports Net_Stack Net_Checksum
begin

text \<open>
  Packet buffers: the free list as a list of mbufs, what allocation and freeing do to it, and what one mbuf holds. The
  operations of the stack change the mbufs they own and nothing else; \<open>mem_frame\<close> states that, so that what another mbuf
  holds is carried across them.
\<close>

unbundle bit_operations_syntax

named_theorems net_defs

lemmas [net_defs] = upd_mb_def upd_if_def upd_so_def upd_up_def upd_tp_def

text \<open>The free list is \<open>fl\<close>, all of it inside the pool; every cluster has its size.\<close>
definition pool :: "net_state \<Rightarrow> nat list \<Rightarrow> bool" where
  "pool s fl \<longleftrightarrow> chain (\<lambda>n. m_next (mb s n)) (s_mbuf_freelist s) fl \<and> set fl \<subseteq> {..<MBUF_POOL_SIZE} \<and>
     (\<forall>n. length (s_cluster_pool s n) = MCLBYTES)"

text \<open>A single mbuf outside any chain, and its bytes.\<close>
definition holds :: "nat \<Rightarrow> u8 list \<Rightarrow> net_state \<Rightarrow> bool" where
  "holds m bs s \<longleftrightarrow> m_next (mb s m) = None \<and> m_len (mb s m) = int (length bs) \<and> mdata m s = bs"

definition mem_frame :: "nat set \<Rightarrow> net_state \<Rightarrow> net_state \<Rightarrow> bool" where
  "mem_frame Q s s' \<longleftrightarrow> (\<forall>n. n \<notin> Q \<longrightarrow> mb s' n = mb s n \<and> s_cluster_pool s' n = s_cluster_pool s n)"

lemma mem_frame_refl [simp]: "mem_frame Q s s" by (simp add: mem_frame_def)

lemma mem_frame_trans: "mem_frame Q s t \<Longrightarrow> mem_frame R t u \<Longrightarrow> Q \<subseteq> S \<Longrightarrow> R \<subseteq> S \<Longrightarrow> mem_frame S s u"
  unfolding mem_frame_def by (metis subsetD)

lemma mem_frame_mono: "mem_frame Q s t \<Longrightarrow> Q \<subseteq> R \<Longrightarrow> mem_frame R s t" by (auto simp: mem_frame_def)

lemma mdata_frame: "mem_frame Q s s' \<Longrightarrow> m \<notin> Q \<Longrightarrow> mdata m s' = mdata m s" by (simp add: mem_frame_def mdata_def storage_def)

lemma holds_frame: "mem_frame Q s s' \<Longrightarrow> m \<notin> Q \<Longrightarrow> holds m bs s' = holds m bs s"
  by (simp add: holds_def mdata_frame) (simp add: mem_frame_def)

text \<open>The tables of the stack other than the buffers.\<close>
definition tables :: "net_state \<Rightarrow> net_state" where
  "tables s = s\<lparr>s_mbuf_pool := (\<lambda>_. zero_mbuf), s_cluster_pool := (\<lambda>_. []), s_mbuf_freelist := None, s_ip_id_counter := 0\<rparr>"

lemma tables_upd [simp]:
  "tables (upd_mb m f s) = tables s" "tables (s\<lparr>s_mbuf_freelist := fr\<rparr>) = tables s" "tables (s\<lparr>s_mbuf_pool := mp\<rparr>) = tables s"
  "tables (s\<lparr>s_cluster_pool := cp\<rparr>) = tables s" "tables (s\<lparr>s_ip_id_counter := c\<rparr>) = tables s"
  "tables (upd_tp i g s) = upd_tp i g (tables s)" "tables (upd_so j h s) = upd_so j h (tables s)"
  by (simp_all add: tables_def net_defs)

lemma tables_sel:
  "s_tcp_pcbs (tables s) = s_tcp_pcbs s" "s_socket_pool (tables s) = s_socket_pool s" "n_ifnets (tables s) = n_ifnets s"
  "s_if_list (tables s) = s_if_list s" "s_udp_pcbs (tables s) = s_udp_pcbs s" "s_net_input_lock (tables s) = s_net_input_lock s"
  "g_e1000_present (tables s) = g_e1000_present s" "s_iss_counter (tables s) = s_iss_counter s"
  by (simp_all add: tables_def)

lemma tables_eqD:
  assumes "tables s' = tables s"
  shows "s_tcp_pcbs s' = s_tcp_pcbs s" "s_socket_pool s' = s_socket_pool s" "n_ifnets s' = n_ifnets s" "s_if_list s' = s_if_list s"
    "s_udp_pcbs s' = s_udp_pcbs s" "s_net_input_lock s' = s_net_input_lock s" "g_e1000_present s' = g_e1000_present s"
    "s_iss_counter s' = s_iss_counter s"
  using assms by (metis tables_sel)+

lemma upd_sel [simp]:
  "s_socket_pool (upd_tp i f s) = s_socket_pool s" "n_ifnets (upd_tp i f s) = n_ifnets s" "s_if_list (upd_tp i f s) = s_if_list s"
  "g_e1000_present (upd_tp i f s) = g_e1000_present s" "s_iss_counter (upd_tp i f s) = s_iss_counter s"
  "s_tcp_pcbs (upd_so j g s) = s_tcp_pcbs s" "n_ifnets (upd_so j g s) = n_ifnets s" "s_if_list (upd_so j g s) = s_if_list s"
  "g_e1000_present (upd_so j g s) = g_e1000_present s" "s_iss_counter (upd_so j g s) = s_iss_counter s"
  by (simp_all add: net_defs)

text \<open>Changes to the tables do not concern the buffers.\<close>
lemma mem_upd [simp]:
  "pool (upd_tp i f s) fl = pool s fl" "pool (upd_so j g s) fl = pool s fl"
  "holds m bs (upd_tp i f s) = holds m bs s" "holds m bs (upd_so j g s) = holds m bs s"
  "mem_frame Q (upd_tp i f s) t = mem_frame Q s t" "mem_frame Q (upd_so j g s) t = mem_frame Q s t"
  "mem_frame Q s (upd_tp i f t) = mem_frame Q s t" "mem_frame Q s (upd_so j g t) = mem_frame Q s t"
  by (simp_all add: pool_def holds_def mem_frame_def mdata_def storage_def net_defs)

section \<open>Allocation\<close>

definition cl_mbuf :: "u16 \<Rightarrow> mbuf" where "cl_mbuf ty = zero_mbuf\<lparr>m_type := ty, m_flags := 3\<rparr>"
definition hdr_mbuf :: "u16 \<Rightarrow> mbuf" where "hdr_mbuf ty = zero_mbuf\<lparr>m_type := ty, m_flags := 2, m_data := 16\<rparr>"

lemma m_getcl_pool:
  assumes "pool s (m # fl)"
  shows "m_getcl ty s = (Some m, s\<lparr>s_mbuf_freelist := m_next (mb s m), s_mbuf_pool := (s_mbuf_pool s)(m := cl_mbuf ty)\<rparr>)"
  using assms by (simp add: pool_def m_getcl_def m_gethdr_def m_get_def upd_mb_def zero_mbuf_def cl_mbuf_def M_EXT_def M_PKTHDR_def)

lemma m_gethdr_pool:
  assumes "pool s (m # fl)"
  shows "m_gethdr ty s = (Some m, s\<lparr>s_mbuf_freelist := m_next (mb s m), s_mbuf_pool := (s_mbuf_pool s)(m := hdr_mbuf ty)\<rparr>)"
  using assms by (simp add: pool_def m_gethdr_def m_get_def upd_mb_def zero_mbuf_def hdr_mbuf_def M_PKTHDR_def SIZEOF_PKTHDR_def)

lemma m_get_pool:
  assumes "pool s (m # fl)"
  shows "m_get ty s = (Some m, s\<lparr>s_mbuf_freelist := m_next (mb s m), s_mbuf_pool := (s_mbuf_pool s)(m := zero_mbuf\<lparr>m_type := ty\<rparr>)\<rparr>)"
  using assms by (simp add: pool_def m_get_def upd_mb_def)

lemma pool_distinct: "pool s fl \<Longrightarrow> distinct fl" unfolding pool_def by (elim conjE) (rule chain_distinct)

lemma pool_pop: "pool s (m # fl) \<Longrightarrow> pool (s\<lparr>s_mbuf_freelist := m_next (mb s m), s_mbuf_pool := (s_mbuf_pool s)(m := q)\<rparr>) fl"
  using pool_distinct [of s "m # fl"] unfolding pool_def
  by (auto intro: seg_cong [THEN iffD1, rotated])

lemma pool_frame: "pool s fl \<Longrightarrow> (\<And>n. n \<in> set fl \<Longrightarrow> m_next (mb t n) = m_next (mb s n)) \<Longrightarrow> s_mbuf_freelist t = s_mbuf_freelist s \<Longrightarrow>
    (\<And>n. length (s_cluster_pool t n) = length (s_cluster_pool s n)) \<Longrightarrow> pool t fl"
  unfolding pool_def by (auto intro: seg_cong [THEN iffD1, rotated])

lemma m_free_pool:
  assumes "pool s fl" and "m \<notin> set fl" and "m < MBUF_POOL_SIZE"
  shows "pool (m_free (Some m) s) (m # fl)"
  using assms by (auto simp: pool_def m_free_def upd_mb_def intro: seg_cong [THEN iffD1, rotated])

lemma m_free_effect: "mem_frame {m} s (m_free (Some m) s)" "tables (m_free r s) = tables s"
  by (simp add: mem_frame_def m_free_def upd_mb_def) (simp add: m_free_def split: option.split)

text \<open>Freeing a chain puts its mbufs on the free list, the last one first.\<close>
lemma m_freem_pool:
  assumes "pool s fl" and "chain (\<lambda>n. m_next (mb s n)) r ms" and "set ms \<inter> set fl = {}" and "set ms \<subseteq> {..<MBUF_POOL_SIZE}"
  shows "\<exists>s'. m_freem r s = Some s' \<and> pool s' (rev ms @ fl) \<and> mem_frame (set ms) s s' \<and> tables s' = tables s"
  using assms
proof (induction ms arbitrary: r s fl)
  case Nil
  then show ?case by (subst m_freem.simps) simp
next
  case (Cons m ms)
  let ?t = "m_free (Some m) s"
  have d: "m \<notin> set ms" using chain_distinct [OF Cons.prems(2)] by simp
  have p: "pool ?t (m # fl)" using Cons.prems by (intro m_free_pool) auto
  have c: "chain (\<lambda>n. m_next (mb ?t n)) (m_next (mb s m)) ms"
    using Cons.prems(2) d by (auto simp: m_free_def upd_mb_def intro: seg_cong [THEN iffD1, rotated])
  obtain s' where s': "m_freem (m_next (mb s m)) ?t = Some s'" "pool s' (rev ms @ m # fl)" "mem_frame (set ms) ?t s'" "tables s' = tables ?t"
    using Cons.IH [OF p c] Cons.prems(3,4) d by auto
  have t: "mem_frame {m} s ?t" "tables ?t = tables s" by (simp add: mem_frame_def m_free_def upd_mb_def) (simp add: m_free_def)
  have "mem_frame (set (m # ms)) s s'" by (rule mem_frame_trans [OF t(1) s'(3)]) auto
  then show ?case using s' t(2) Cons.prems(2) by (subst m_freem.simps) (simp add: Let_def)
qed

section \<open>Contents\<close>

lemma flags_ext [simp]: "has_flag (cl_mbuf ty) M_EXT" "\<not> has_flag (hdr_mbuf ty) M_EXT"
  by (simp_all add: has_flag_def cl_mbuf_def hdr_mbuf_def M_EXT_def)

lemma splice_0: "splice 0 bs xs = bs @ drop (length bs) xs" by (simp add: splice_def)

lemma holds_adj: "holds m (xs @ ys) s \<Longrightarrow> holds m ys (m_adj m (length xs) s)"
proof -
  assume h: "holds m (xs @ ys) s"
  have "mdata m (m_adj m (length xs) s) = drop (length xs) (mdata m s)"
    using h by (simp add: holds_def mdata_def m_adj_def upd_mb_def storage_def has_flag_def drop_take add.commute nat_int_add)
  with h show ?thesis by (simp add: holds_def m_adj_def upd_mb_def)
qed

lemma m_adj_effect: "mem_frame {m} s (m_adj m k s)" "tables (m_adj m k s) = tables s" "pool s fl \<Longrightarrow> m \<notin> set fl \<Longrightarrow> pool (m_adj m k s) fl"
  by (auto simp: m_adj_def mem_frame_def upd_mb_def tables_def intro: pool_frame)

text \<open>Filling a fresh cluster.\<close>
definition fill_cl :: "nat \<Rightarrow> u8 list \<Rightarrow> net_state \<Rightarrow> net_state" where
  "fill_cl m bs s = s\<lparr>s_mbuf_freelist := m_next (mb s m), s_cluster_pool := (s_cluster_pool s)(m := bs @ drop (length bs) (s_cluster_pool s m)),
     s_mbuf_pool := (s_mbuf_pool s)(m := (cl_mbuf MT_DATA)\<lparr>m_len := int (length bs), m_pkthdr_len := int (length bs)\<rparr>)\<rparr>"

lemma fill_cl_ok:
  assumes "pool s (m # fl)" and "length bs \<le> MCLBYTES"
  shows "holds m bs (fill_cl m bs s)" "pool (fill_cl m bs s) fl" "mem_frame {m} s (fill_cl m bs s)" "tables (fill_cl m bs s) = tables s"
proof -
  let ?t = "s\<lparr>s_mbuf_freelist := m_next (mb s m), s_mbuf_pool := (s_mbuf_pool s)(m := (cl_mbuf MT_DATA)\<lparr>m_len := int (length bs), m_pkthdr_len := int (length bs)\<rparr>)\<rparr>"
  have "pool ?t fl" by (rule pool_pop [OF assms(1)])
  then show "pool (fill_cl m bs s) fl" by (rule pool_frame) (use assms in \<open>auto simp: fill_cl_def pool_def\<close>)
  show "holds m bs (fill_cl m bs s)"
    using assms by (simp add: holds_def fill_cl_def mdata_def storage_def has_flag_def cl_mbuf_def zero_mbuf_def M_EXT_def)
qed (auto simp: mem_frame_def fill_cl_def tables_def)

lemma prepend_ok:
  assumes "pool s (h # fl)" and "h \<noteq> m" and "length bytes \<le> 240"
  obtains s' where "prepend bytes m s = Some (Some h, s')" "pool s' fl" "mem_frame {h} s s'" "tables s' = tables s"
    "m_next (mb s' h) = Some m" "m_len (mb s' h) = int (length bytes)" "m_pkthdr_len (mb s' h) = m_pkthdr_len (mb s m) + int (length bytes)"
    "mdata h s' = bytes"
proof -
  let ?q = "(hdr_mbuf MT_HEADER)\<lparr>m_u := splice 16 bytes (replicate MLEN 0), m_len := int (length bytes), m_pkthdr_len := m_pkthdr_len (mb s m) + int (length bytes), m_next := Some m\<rparr>"
  let ?t = "s\<lparr>s_mbuf_freelist := m_next (mb s h), s_mbuf_pool := (s_mbuf_pool s)(h := ?q)\<rparr>"
  have u: "m_u (hdr_mbuf MT_HEADER) = replicate MLEN 0" "m_data (hdr_mbuf MT_HEADER) = 16" by (simp_all add: hdr_mbuf_def zero_mbuf_def)
  have "prepend bytes m s = Some (Some h, ?t)"
    using assms u by (simp add: prepend_def m_gethdr_pool mwrite_def storage_def set_storage_def upd_mb_def MLEN_def)
  moreover have "mdata h ?t = bytes"
    using u assms(3) by (simp add: mdata_def storage_def has_flag_def hdr_mbuf_def M_EXT_def splice_def MLEN_def)
  moreover have "pool ?t fl" by (rule pool_pop [OF assms(1)])
  ultimately show ?thesis by (intro that) (auto simp: mem_frame_def tables_def)
qed

end
