(* ===== verification/Net_Socket.thy ===== *)
theory Net_Socket
  imports Net_Stack
begin

text \<open>
  The socket calls of \<^verbatim>\<open>kernel/net/uipc_socket.c\<close>, configuration by DHCP, \<^verbatim>\<open>kernel/net/dhcp.c\<close>, and the start of the stack,
  \<^verbatim>\<open>kernel/net/net_init.c\<close>. \<open>out\<close> and \<open>poll\<close> stand for the stack below, as before. A socket is given by its pointer; a buffer that
  the caller passes is the list of its bytes.
\<close>

unbundle bit_operations_syntax

definition SOL_SOCKET :: int where "SOL_SOCKET = 0xFFFF"
definition SO_RCVBUF :: int where "SO_RCVBUF = 0x1002"
definition SO_SNDBUF :: int where "SO_SNDBUF = 0x1001"
definition SO_RCVTIMEO :: int where "SO_RCVTIMEO = 0x1006"
definition SO_SNDTIMEO :: int where "SO_SNDTIMEO = 0x1005"
definition SO_ERROR :: int where "SO_ERROR = 0x1007"
definition SO_TYPE :: int where "SO_TYPE = 0x1008"

text \<open>The options kept as bits: \<^verbatim>\<open>SO_DEBUG\<close>, \<^verbatim>\<open>SO_REUSEADDR\<close>, \<^verbatim>\<open>SO_KEEPALIVE\<close>, \<^verbatim>\<open>SO_DONTROUTE\<close>, \<^verbatim>\<open>SO_BROADCAST\<close>.\<close>
definition so_flag_options :: "int list" where "so_flag_options = [1, 4, 8, 16, 32]"

section \<open>Creating, binding, connecting\<close>

text \<open>The conversion to the 16-bit field \<^verbatim>\<open>so_type\<close>.\<close>
definition to_i16 :: "int \<Rightarrow> int" where "to_i16 v = sint (word_of_int v :: u16)"

definition socreate :: "int \<Rightarrow> bool \<Rightarrow> int \<Rightarrow> int \<Rightarrow> net_state \<Rightarrow> chimera_error \<times> nat option \<times> net_state" where
  "socreate domain aso type proto s =
     (if \<not> aso then (CHIMERA_ERR_INVALID, None, s)
      else if domain \<noteq> AF_INET \<and> domain \<noteq> AF_UNIX then (CHIMERA_ERR_NOTSUP, None, s)
      else case free_socket_slot s of
        None \<Rightarrow> (CHIMERA_ERR_NOMEM, None, s)
      | Some so \<Rightarrow>
          let s = upd_so so (\<lambda>_. fresh_socket (to_i16 type) None) s;
              (err, s) = (if type = SOCK_DGRAM \<or> proto = uint IPPROTO_UDP then udp_attach so s
                          else if type = SOCK_STREAM \<or> proto = uint IPPROTO_TCP then tcp_attach so s
                          else (CHIMERA_SUCCESS, s))
          in if err \<noteq> CHIMERA_SUCCESS then (err, None, upd_so so (\<lambda>q. q\<lparr>so_signature := 0\<rparr>) s)
             else (CHIMERA_SUCCESS, Some so, s))"

definition sobind :: "nat option \<Rightarrow> sockaddr_in option \<Rightarrow> net_state \<Rightarrow> (chimera_error \<times> net_state) option" where
  "sobind r nam s =
     (case (r, nam) of
        (Some so, Some a) \<Rightarrow>
          if sin_family a \<noteq> AF_INET then Some (CHIMERA_ERR_NOTSUP, s)
          else if so_type (sock s so) = SOCK_DGRAM then udp_bind so (Some a) s
          else if so_type (sock s so) = SOCK_STREAM then tcp_bind so (Some a) s
          else Some (CHIMERA_ERR_NOTSUP, s)
      | _ \<Rightarrow> Some (CHIMERA_ERR_INVALID, s))"

definition soconnect :: "out_fn \<Rightarrow> (net_state \<Rightarrow> net_state option) \<Rightarrow> nat option \<Rightarrow> sockaddr_in option \<Rightarrow> net_state \<Rightarrow> (chimera_error \<times> net_state) option" where
  "soconnect out poll r nam s =
     (case (r, nam) of
        (Some so, Some a) \<Rightarrow>
          if sin_family a \<noteq> AF_INET then Some (CHIMERA_ERR_NOTSUP, s)
          else if so_type (sock s so) = SOCK_STREAM then tcp_connect out poll so (Some a) s
          else Some (CHIMERA_ERR_NOTSUP, s)
      | _ \<Rightarrow> Some (CHIMERA_ERR_INVALID, s))"

definition solisten :: "nat option \<Rightarrow> int \<Rightarrow> net_state \<Rightarrow> (chimera_error \<times> net_state) option" where
  "solisten r backlog s =
     (case r of
        None \<Rightarrow> Some (CHIMERA_ERR_INVALID, s)
      | Some so \<Rightarrow>
          if so_type (sock s so) \<noteq> SOCK_STREAM then Some (CHIMERA_ERR_NOTSUP, s)
          else tcp_listen so (upd_so so (\<lambda>q. q\<lparr>so_qlimit := (if backlog > 0 then if backlog > 16 then 16 else backlog else 5), so_head := Some so\<rparr>) s))"

definition sosend :: "out_fn \<Rightarrow> nat option \<Rightarrow> sockaddr_in option \<Rightarrow> u8 list option \<Rightarrow> net_state \<Rightarrow> (chimera_error \<times> net_state) option" where
  "sosend out r addr buf s =
     (case (r, buf) of
        (Some so, Some bs) \<Rightarrow>
          if so_type (sock s so) = SOCK_DGRAM then (if addr = None then Some (CHIMERA_ERR_INVALID, s) else udp_sendto out so bs addr s)
          else if so_type (sock s so) = SOCK_STREAM then tcp_send out so bs s
          else Some (CHIMERA_ERR_NOTSUP, s)
      | _ \<Rightarrow> Some (CHIMERA_ERR_INVALID, s))"

section \<open>Receiving\<close>

text \<open>Polling while the buffer is empty, \<open>n\<close> of 500 times left; the flag says that the end of the stream was seen.\<close>
fun recv_poll :: "(net_state \<Rightarrow> net_state option) \<Rightarrow> nat \<Rightarrow> nat \<Rightarrow> net_state \<Rightarrow> (bool \<times> net_state) option" where
  "recv_poll poll so 0 s = Some (False, s)"
| "recv_poll poll so (Suc n) s =
     (if sb_cc (so_rcv (sock s so)) \<noteq> 0 then Some (False, s)
      else do {
        s \<leftarrow> poll s;
        (if sb_cc (so_rcv (sock s so)) > 0 then Some (False, s)
         else if so_state (sock s so) AND SS_CANTRCVMORE \<noteq> 0 then Some (True, s)
         else recv_poll poll so n s)
      })"

text \<open>The copying loop: at most \<open>len\<close> bytes from the mbuf \<open>r\<close> on.\<close>
partial_function (option) recv_loop :: "nat \<Rightarrow> nat option \<Rightarrow> nat \<Rightarrow> u8 list \<Rightarrow> net_state \<Rightarrow> (u8 list \<times> net_state) option" where
  "recv_loop so r len acc s =
     (case r of
        None \<Rightarrow> Some (acc, s)
      | Some m \<Rightarrow>
          if length acc < len then
            (let chunk = min (nat (m_len (mb s m))) (len - length acc);
                 bytes = take chunk (mdata m s);
                 s = upd_mb m (\<lambda>q. q\<lparr>m_data := m_data q + chunk, m_len := m_len q - int chunk\<rparr>) s;
                 s = upd_so so (\<lambda>q. q\<lparr>so_rcv := (so_rcv q)\<lparr>sb_cc := sb_cc (so_rcv q) - word_of_nat chunk\<rparr>\<rparr>) s
             in if m_len (mb s m) = 0 then
                  (let nxt = (if m_next (mb s m) \<noteq> None then m_next (mb s m) else m_nextpkt (mb s m));
                       s = m_free (Some m) s;
                       s = upd_so so (\<lambda>q. q\<lparr>so_rcv := (so_rcv q)\<lparr>sb_mb := nxt\<rparr>\<rparr>) s
                   in recv_loop so nxt len (acc @ bytes) s)
                else recv_loop so (Some m) len (acc @ bytes) s)
          else Some (acc, s))"

text \<open>The bytes stored into the caller's buffer of \<open>len\<close> bytes; \<open>buf\<close> says whether it and the place for the length were given.\<close>
definition soreceive :: "(net_state \<Rightarrow> net_state option) \<Rightarrow> nat option \<Rightarrow> bool \<Rightarrow> nat \<Rightarrow> net_state \<Rightarrow> (chimera_error \<times> u8 list \<times> net_state) option" where
  "soreceive poll r buf len s =
     (case r of
        None \<Rightarrow> Some (CHIMERA_ERR_INVALID, [], s)
      | Some so \<Rightarrow>
          if \<not> buf then Some (CHIMERA_ERR_INVALID, [], s)
          else do {
            (eof, s) \<leftarrow> recv_poll poll so 500 s;
            (if eof then Some (CHIMERA_SUCCESS, [], s)
             else case sb_mb (so_rcv (sock s so)) of
               None \<Rightarrow> Some (if so_state (sock s so) AND SS_CANTRCVMORE \<noteq> 0 then CHIMERA_SUCCESS else CHIMERA_ERR_WOULDBLOCK, [], s)
             | Some m \<Rightarrow> do { (bytes, s) \<leftarrow> recv_loop so (Some m) len [] s; Some (CHIMERA_SUCCESS, bytes, s) })
          })"

section \<open>Closing\<close>

definition flush_rcv :: "nat \<Rightarrow> net_state \<Rightarrow> net_state option" where
  "flush_rcv so s = do { (sb, s) \<leftarrow> sbflush (so_rcv (sock s so)) s; Some (upd_so so (\<lambda>q. q\<lparr>so_rcv := sb\<rparr>) s) }"

definition flush_snd :: "nat \<Rightarrow> net_state \<Rightarrow> net_state option" where
  "flush_snd so s = do { (sb, s) \<leftarrow> sbflush (so_snd (sock s so)) s; Some (upd_so so (\<lambda>q. q\<lparr>so_snd := sb\<rparr>) s) }"

definition soclose :: "out_fn \<Rightarrow> nat option \<Rightarrow> net_state \<Rightarrow> (chimera_error \<times> net_state) option" where
  "soclose out r s =
     (case r of
        None \<Rightarrow> Some (CHIMERA_ERR_INVALID, s)
      | Some so \<Rightarrow>
          if so_signature (sock s so) \<noteq> CHIMERA_SOCKET_MAGIC then Some (CHIMERA_ERR_INVALID, s)
          else do {
            s \<leftarrow> (if so_type (sock s so) = SOCK_DGRAM then udp_detach so s
                  else if so_type (sock s so) = SOCK_STREAM then do { (_, s) \<leftarrow> tcp_close out so s; Some s }
                  else Some s);
            s \<leftarrow> flush_rcv so s;
            s \<leftarrow> flush_snd so s;
            Some (CHIMERA_SUCCESS, upd_so so (\<lambda>q. q\<lparr>so_signature := 0\<rparr>) s)
          })"

section \<open>Options\<close>

text \<open>A size given for a buffer: taken over when it is positive and at most \<^const>\<open>SB_MAX\<close>.\<close>
definition set_hiwat :: "u32 \<Rightarrow> sockbuf \<Rightarrow> sockbuf" where
  "set_hiwat sz sb = (if sint sz > 0 \<and> sint sz \<le> sint SB_MAX then sb\<lparr>sb_hiwat := sz\<rparr> else sb)"

definition sosetopt :: "nat option \<Rightarrow> int \<Rightarrow> int \<Rightarrow> u8 list option \<Rightarrow> net_state \<Rightarrow> chimera_error \<times> net_state" where
  "sosetopt r level optname optval s =
     (case (r, optval) of
        (Some so, Some bs) \<Rightarrow>
          if so_signature (sock s so) \<noteq> CHIMERA_SOCKET_MAGIC \<or> bs = [] then (CHIMERA_ERR_INVALID, s)
          else if level = SOL_SOCKET then
            (if optname \<notin> set (so_flag_options @ [SO_RCVTIMEO, SO_SNDTIMEO, SO_RCVBUF, SO_SNDBUF]) then (CHIMERA_ERR_NOTSUP, s)
             else if length bs < 4 then (CHIMERA_ERR_INVALID, s)
             else let v = ld32 bs 0; bit = word_of_int optname in
               (CHIMERA_SUCCESS, upd_so so (\<lambda>q.
                  if optname = SO_RCVTIMEO then q\<lparr>so_rcvtimeo := v\<rparr>
                  else if optname = SO_SNDTIMEO then q\<lparr>so_sndtimeo := v\<rparr>
                  else if optname = SO_RCVBUF then q\<lparr>so_rcv := set_hiwat v (so_rcv q)\<rparr>
                  else if optname = SO_SNDBUF then q\<lparr>so_snd := set_hiwat v (so_snd q)\<rparr>
                  else q\<lparr>so_options := (if v \<noteq> 0 then so_options q OR bit else so_options q AND NOT bit)\<rparr>) s))
          else if level = uint IPPROTO_TCP \<and> optname = 1 then (CHIMERA_SUCCESS, s)
          else (CHIMERA_ERR_NOTSUP, s)
      | _ \<Rightarrow> (CHIMERA_ERR_INVALID, s))"

text \<open>The value of an option as a word.\<close>
definition sockopt_value :: "socket \<Rightarrow> int \<Rightarrow> u32 option" where
  "sockopt_value q optname =
     (if optname \<in> set so_flag_options then Some (if so_options q AND word_of_int optname \<noteq> 0 then 1 else 0)
      else if optname = SO_TYPE then Some (word_of_int (so_type q))
      else if optname = SO_ERROR then Some (so_error q)
      else if optname = SO_RCVTIMEO then Some (so_rcvtimeo q)
      else if optname = SO_SNDTIMEO then Some (so_sndtimeo q)
      else if optname = SO_RCVBUF then Some (sb_hiwat (so_rcv q))
      else if optname = SO_SNDBUF then Some (sb_hiwat (so_snd q))
      else None)"

text \<open>\<open>optlen\<close> is the size of the caller's buffer; the bytes stored into it are returned. Reading the error clears it.\<close>
definition sogetopt :: "nat option \<Rightarrow> int \<Rightarrow> int \<Rightarrow> bool \<Rightarrow> nat \<Rightarrow> net_state \<Rightarrow> chimera_error \<times> u8 list \<times> net_state" where
  "sogetopt r level optname optval optlen s =
     (case r of
        None \<Rightarrow> (CHIMERA_ERR_INVALID, [], s)
      | Some so \<Rightarrow>
          if so_signature (sock s so) \<noteq> CHIMERA_SOCKET_MAGIC \<or> \<not> optval \<or> optlen = 0 then (CHIMERA_ERR_INVALID, [], s)
          else if level \<noteq> SOL_SOCKET then (CHIMERA_ERR_NOTSUP, [], s)
          else case sockopt_value (sock s so) optname of
            None \<Rightarrow> (CHIMERA_ERR_NOTSUP, [], s)
          | Some v \<Rightarrow> (CHIMERA_SUCCESS, take optlen (st32 v), if optname = SO_ERROR then upd_so so (\<lambda>q. q\<lparr>so_error := 0\<rparr>) s else s))"

section \<open>Configuration\<close>

definition SIZEOF_DHCP_PACKET :: nat where "SIZEOF_DHCP_PACKET = 548"
definition DHCP_MAGIC_COOKIE :: u32 where "DHCP_MAGIC_COOKIE = 0x63825363"

definition dhcp_packet :: "ifnet \<Rightarrow> u8 list" where
  "dhcp_packet f = [1, 1, 6, 0] @ st32 (htonl 0x3903F326) @ st16 0 @ st16 (htons 0x8000) @ replicate 16 0 @ take 6 (if_mac f) @ replicate 10 0 @
     replicate 192 0 @ st32 (htonl DHCP_MAGIC_COOKIE) @ [53, 1, 1, 55, 3, 1, 3, 6, 255] @ replicate 299 0"

text \<open>The loop over the options of a reply, from offset \<open>i\<close> on.\<close>
function dhcp_options :: "u8 list \<Rightarrow> nat \<Rightarrow> ifnet \<Rightarrow> ifnet" where
  "dhcp_options opts i f =
     (if i \<ge> 300 \<or> opts ! i = 255 then f
      else if opts ! i = 0 then dhcp_options opts (i + 1) f
      else let code = opts ! i; len = unat (opts ! (i + 1));
               f = (if code = 1 \<and> len = 4 then f\<lparr>if_netmask := ld32 opts (i + 2)\<rparr>
                    else if code = 3 \<and> len \<ge> 4 then f\<lparr>if_gateway := ld32 opts (i + 2)\<rparr>
                    else if code = 6 \<and> len \<ge> 4 then f\<lparr>if_dns := ld32 opts (i + 2)\<rparr>
                    else f)
           in dhcp_options opts (i + 2 + len) f)"
  by pat_completeness auto
termination by (relation "measure (\<lambda>(opts, i, f). 300 - i)") auto

declare dhcp_options.simps [simp del]

definition dhcp_apply :: "u8 list \<Rightarrow> ifnet \<Rightarrow> ifnet" where
  "dhcp_apply reply f =
     (let f = dhcp_options (drop 240 reply) 0 (f\<lparr>if_ip := ld32 reply 16\<rparr>) in f\<lparr>if_bcast := if_ip f OR NOT (if_netmask f)\<rparr>)"

fun dhcp_wait :: "(net_state \<Rightarrow> net_state option) \<Rightarrow> nat \<Rightarrow> nat \<Rightarrow> nat \<Rightarrow> net_state \<Rightarrow> net_state option" where
  "dhcp_wait poll ifp so 0 s = Some s"
| "dhcp_wait poll ifp so (Suc n) s = do {
     s \<leftarrow> poll s;
     (if unat (sb_cc (so_rcv (sock s so))) < SIZEOF_DHCP_PACKET then dhcp_wait poll ifp so n s
      else do {
        (_, reply, s) \<leftarrow> soreceive poll (Some so) True SIZEOF_DHCP_PACKET s;
        (if length reply < SIZEOF_DHCP_PACKET then None
         else if ntohl (ld32 reply 236) = DHCP_MAGIC_COOKIE \<and> ld32 reply 16 \<noteq> 0 then Some (upd_if ifp (dhcp_apply reply) s)
         else dhcp_wait poll ifp so n s)
      })
   }"

definition dhcp_discover :: "out_fn \<Rightarrow> (net_state \<Rightarrow> net_state option) \<Rightarrow> nat \<Rightarrow> net_state \<Rightarrow> net_state option" where
  "dhcp_discover out poll ifp s =
     (if if_flags (n_ifnets s ifp) AND IFF_LOOPBACK \<noteq> 0 then Some s
      else case socreate AF_INET True SOCK_DGRAM (uint IPPROTO_UDP) s of
        (CHIMERA_SUCCESS, Some so, s) \<Rightarrow> do {
          (_, s) \<leftarrow> sobind (Some so) (Some \<lparr>sin_family = AF_INET, sin_port = htons 68, sin_addr = 0\<rparr>) s;
          (_, s) \<leftarrow> udp_sendto out so (dhcp_packet (n_ifnets s ifp)) (Some \<lparr>sin_family = AF_INET, sin_port = htons 67, sin_addr = INADDR_BROADCAST\<rparr>) s;
          s \<leftarrow> dhcp_wait poll ifp so 50 s;
          (_, s) \<leftarrow> soclose out (Some so) s;
          Some (if if_ip (n_ifnets s ifp) \<noteq> 0 then s
                else upd_if ifp (\<lambda>f. f\<lparr>if_ip := htonl 0x0A00020F, if_netmask := htonl 0xFFFFFF00, if_gateway := htonl 0x0A000202,
                       if_dns := htonl 0x0A000203, if_bcast := htonl 0x0A0002FF\<rparr>) s)
        }
      | (_, _, s) \<Rightarrow> Some s)"

text \<open>\<open>bar0\<close> is the address the PCI probe found for the device, 0 for none; \<open>e1000_init\<close> is the driver's set-up, which attaches the interface.\<close>
definition net_init :: "u64 \<Rightarrow> (u64 \<Rightarrow> net_state \<Rightarrow> net_state) \<Rightarrow> out_fn \<Rightarrow> (net_state \<Rightarrow> net_state option) \<Rightarrow> net_state \<Rightarrow> net_state option" where
  "net_init bar0 e1000_init out poll s =
     (let s = uipc_socket_init (tcp_init (udp_init (icmp_init (arp_init (loopback_init (if_init (mbuf_init s)))))))
      in if bar0 = 0 then Some s
         else let s = e1000_init bar0 s in do {
           en0 \<leftarrow> if_lookup ''en0'' s;
           (case en0 of Some i \<Rightarrow> dhcp_discover out poll i s | None \<Rightarrow> Some s)
         })"

end
