(* ===== verification/Sockbuf.thy ===== *)
theory Sockbuf
  imports Mbuf_Correct Net_Socket
begin

text \<open>
  Socket buffers as queues of packets: appending, and reading them through \<^verbatim>\<open>soreceive\<close>.
\<close>

unbundle bit_operations_syntax

text \<open>The packets of a buffer, oldest first, each with its mbuf.\<close>
definition sbuf :: "sockbuf \<Rightarrow> (nat \<times> u8 list) list \<Rightarrow> net_state \<Rightarrow> bool" where
  "sbuf sb qs s \<longleftrightarrow> chain (\<lambda>n. m_nextpkt (mb s n)) (sb_mb sb) (map fst qs) \<and> (qs \<noteq> [] \<longrightarrow> sb_last sb = Some (fst (last qs))) \<and>
     (\<forall>(m, bs) \<in> set qs. holds m bs s \<and> m < MBUF_POOL_SIZE) \<and> sb_cc sb = word_of_nat (length (concat (map snd qs)))"

abbreviation payload :: "(nat \<times> u8 list) list \<Rightarrow> u8 list" where "payload qs \<equiv> concat (map snd qs)"

lemma not_fst: "m \<notin> fst ` set qs \<Longrightarrow> (m, b) \<notin> set qs" by force

lemma sbuf_frame: "mem_frame Q s t \<Longrightarrow> fst ` set qs \<inter> Q = {} \<Longrightarrow> sbuf sb qs t = sbuf sb qs s"
proof -
  assume f: "mem_frame Q s t" and d: "fst ` set qs \<inter> Q = {}"
  have "holds m bs t = holds m bs s" if "(m, bs) \<in> set qs" for m bs using holds_frame [OF f] d that by force
  moreover have "m_nextpkt (mb t n) = m_nextpkt (mb s n)" if "n \<in> set (map fst qs)" for n using f d that unfolding mem_frame_def by (metis disjoint_iff image_set)
  then have "chain (\<lambda>n. m_nextpkt (mb t n)) r (map fst qs) = chain (\<lambda>n. m_nextpkt (mb s n)) r (map fst qs)" for r by (rule seg_cong)
  ultimately show ?thesis unfolding sbuf_def by auto
qed

lemma sbuf_tables: "sbuf sb qs (upd_tp i f s) = sbuf sb qs s" "sbuf sb qs (upd_so j g s) = sbuf sb qs s"
  by (simp_all add: sbuf_def) (simp_all add: net_defs)

lemma chain_cc_single: "m_next (mb s m) = None \<Longrightarrow> chain_cc (Some m) cc s = Some (cc + word_of_int (m_len (mb s m)))"
  by (simp add: chain_cc.simps)

lemma so_rcv_append_ok:
  assumes q: "sbuf (so_rcv (sock s so)) qs s" and m: "holds m bs s" "m \<notin> fst ` set qs" "m < MBUF_POOL_SIZE"
  obtains s' sb where "so_rcv_append so m s = Some s'" "tables s' = upd_so so (\<lambda>q. q\<lparr>so_rcv := sb\<rparr>) (tables s)"
    "sbuf sb (qs @ [(m, bs)]) s'" "mem_frame (insert m (fst ` set qs)) s s'" "pool s fl \<Longrightarrow> pool s' fl"
proof -
  let ?sb = "so_rcv (sock s so)"
  define t where "t = (if qs = [] then s else upd_mb (fst (last qs)) (\<lambda>q. q\<lparr>m_nextpkt := Some m\<rparr>) s)"
  let ?t = "upd_mb m (\<lambda>q. q\<lparr>m_nextpkt := None\<rparr>) t"
  define sb where "sb = ?sb\<lparr>sb_mb := (if qs = [] then Some m else sb_mb ?sb), sb_last := Some m, sb_cc := sb_cc ?sb + word_of_nat (length bs)\<rparr>"
  have h: "holds n b ?t = holds n b s" for n b by (simp add: holds_def mdata_def storage_def has_flag_def t_def upd_mb_def)
  have "sb_mb ?sb = None \<longleftrightarrow> qs = []" using q by (cases qs) (auto simp: sbuf_def)
  moreover have cc: "chain_cc (Some m) c ?t = Some (c + word_of_nat (length bs))" for c
    using m(1) h [of m bs] by (simp add: holds_def chain_cc_single)
  ultimately have e: "so_rcv_append so m s = Some (upd_so so (\<lambda>q. q\<lparr>so_rcv := sb\<rparr>) ?t)"
    using q by (cases "qs = []") (auto simp: so_rcv_append_def sbappend_def t_def sbuf_def sb_def Let_def)
  have "chain (\<lambda>n. m_nextpkt (mb ?t n)) (sb_mb sb) (map fst qs @ [m])"
  proof (cases qs rule: rev_cases)
    case (snoc ys y)
    then have "distinct (map fst ys @ [fst y])" using q chain_distinct [of _ _ "map fst qs"] by (auto simp: sbuf_def)
    then have "seg (\<lambda>n. m_nextpkt (mb ?t n)) r (map fst ys) e = seg (\<lambda>n. m_nextpkt (mb s n)) r (map fst ys) e" for r e
      using m(2) snoc by (intro seg_cong) (auto simp: t_def upd_mb_def dest: not_fst)
    then show ?thesis using q m(2) snoc by (simp add: sbuf_def sb_def seg_append) (simp add: t_def upd_mb_def)
  qed (simp add: sb_def t_def upd_mb_def)
  then have "sbuf sb (qs @ [(m, bs)]) ?t" using q m unfolding sbuf_def by (auto simp: h) (simp_all add: sb_def)
  moreover have "mem_frame (insert m (fst ` set qs)) s ?t" by (cases qs rule: rev_cases) (auto simp: mem_frame_def t_def upd_mb_def)
  moreover have "tables ?t = tables s" by (simp add: t_def)
  moreover have "pool s fl \<Longrightarrow> pool ?t fl" by (erule pool_frame) (auto simp: t_def upd_mb_def)
  ultimately show ?thesis by (intro that [OF e]) (simp_all add: sbuf_tables)
qed

section \<open>Reading\<close>

definition set_rcv :: "nat \<Rightarrow> sockbuf \<Rightarrow> net_state \<Rightarrow> net_state" where "set_rcv so sb = upd_so so (\<lambda>q. q\<lparr>so_rcv := sb\<rparr>)"

lemma set_rcv_simps [simp]: "so_rcv (sock (set_rcv so sb s) so) = sb" "set_rcv so sb (set_rcv so sb' s) = set_rcv so sb s"
  "s_mbuf_pool (set_rcv so sb s) = s_mbuf_pool s" "pool (set_rcv so sb s) fl = pool s fl" "sbuf b qs (set_rcv so sb s) = sbuf b qs s"
  "mem_frame Q (set_rcv so sb s) t = mem_frame Q s t" "mem_frame Q s (set_rcv so sb t) = mem_frame Q s t"
  by (simp_all add: set_rcv_def sbuf_tables) (simp_all add: upd_so_def)

text \<open>Reading \<open>k\<close> bytes of the mbuf \<open>m\<close>.\<close>
definition m_eat :: "nat \<Rightarrow> nat \<Rightarrow> net_state \<Rightarrow> net_state" where
  "m_eat m k = upd_mb m (\<lambda>q. q\<lparr>m_data := m_data q + k, m_len := m_len q - int k\<rparr>)"

lemma m_eat_ok:
  assumes "holds m bs s" and "k \<le> length bs"
  shows "holds m (drop k bs) (m_eat m k s)" "mem_frame {m} s (m_eat m k s)" "tables (m_eat m k s) = tables s" "pool (m_eat m k s) fl = pool s fl"
    "m_nextpkt (mb (m_eat m k s) n) = m_nextpkt (mb s n)"
proof -
  have "mdata m (m_eat m k s) = drop k (mdata m s)"
    using assms by (simp add: holds_def mdata_def m_eat_def upd_mb_def storage_def has_flag_def drop_take add.commute nat_diff_distrib)
  then show "holds m (drop k bs) (m_eat m k s)" using assms by (simp add: holds_def m_eat_def upd_mb_def)
  show "pool (m_eat m k s) fl = pool s fl" by (auto intro: pool_frame simp: m_eat_def upd_mb_def)
qed (simp_all add: m_eat_def mem_frame_def upd_mb_def tables_def)

lemma sbuf_Cons:
  "sbuf sb ((m, bs) # qs) s \<longleftrightarrow> sb_mb sb = Some m \<and> holds m bs s \<and> m < MBUF_POOL_SIZE \<and> m \<notin> fst ` set qs \<and>
     sb_last sb = Some (if qs = [] then m else fst (last qs)) \<and>
     sbuf (sb\<lparr>sb_mb := m_nextpkt (mb s m), sb_cc := sb_cc sb - word_of_nat (length bs)\<rparr>) qs s"
proof -
  have "sbuf sb ((m, bs) # qs) s \<Longrightarrow> m \<notin> fst ` set qs" using chain_distinct [of "\<lambda>n. m_nextpkt (mb s n)" "sb_mb sb" "map fst ((m, bs) # qs)"] by (auto simp: sbuf_def)
  then show ?thesis by (auto simp: sbuf_def algebra_simps dest: not_fst)
qed

lemma cc_mb: "sb\<lparr>sb_cc := c, sb_mb := r\<rparr> = sb\<lparr>sb_mb := r, sb_cc := c\<rparr>" for sb :: sockbuf by simp

lemma upd_rcv:
  "upd_so so (\<lambda>q. q\<lparr>so_rcv := (so_rcv q)\<lparr>sb_cc := sb_cc (so_rcv q) - w\<rparr>\<rparr>) s = set_rcv so ((so_rcv (sock s so))\<lparr>sb_cc := sb_cc (so_rcv (sock s so)) - w\<rparr>) s"
  "upd_so so (\<lambda>q. q\<lparr>so_rcv := (so_rcv q)\<lparr>sb_mb := r\<rparr>\<rparr>) s = set_rcv so ((so_rcv (sock s so))\<lparr>sb_mb := r\<rparr>) s"
  by (simp_all add: set_rcv_def upd_so_def)

text \<open>One round of the loop.\<close>
lemma recv_loop_step:
  assumes "length acc < len" and "holds m bs s"
  shows "recv_loop so (Some m) len acc s =
    (let k = min (length bs) (len - length acc); sb = so_rcv (sock s so); s = m_eat m k s; sb = sb\<lparr>sb_cc := sb_cc sb - word_of_nat k\<rparr>
     in if k = length bs then recv_loop so (m_nextpkt (mb s m)) len (acc @ bs) (set_rcv so (sb\<lparr>sb_mb := m_nextpkt (mb s m)\<rparr>) (m_free (Some m) (set_rcv so sb s)))
        else recv_loop so (Some m) len (acc @ take k bs) (set_rcv so sb s))"
proof -
  define k where "k = min (length bs) (len - length acc)"
  have k: "k \<le> length bs" by (simp add: k_def)
  have e: "upd_mb m (\<lambda>q. q\<lparr>m_data := m_data q + k, m_len := m_len q - int k\<rparr>) s = m_eat m k s" by (simp add: m_eat_def)
  have h: "mdata m s = bs" "nat (m_len (mb s m)) = length bs" "m_len (mb (m_eat m k s) m) = int (length bs - k)" "m_next (mb (m_eat m k s) m) = None"
    using assms(2) m_eat_ok(1) [OF assms(2) k] by (simp_all add: holds_def)
  have so: "sock (m_eat m k s) so = sock s so" "sock (m_free (Some m) t) so = sock t so" for t
    by (simp_all add: m_eat_def m_free_def net_defs)
  have z: "int (length bs - k) = 0 \<longleftrightarrow> k = length bs" using k by linarith
  show ?thesis
    unfolding k_def [symmetric] Let_def by (subst recv_loop.simps)
      (simp only: Let_def h(1,2) k_def [symmetric] e option.case assms(1) if_True upd_rcv set_rcv_simps so h z; cases "k = length bs"; simp add: h)
qed

lemma recv_loop_ok:
  assumes "sbuf (so_rcv (sock s so)) qs s" and "pool s fl" and "set fl \<inter> fst ` set qs = {}" and "length acc \<le> len"
  shows "\<exists>s' sb qs' fl'. recv_loop so (sb_mb (so_rcv (sock s so))) len acc s = Some (acc @ take (len - length acc) (payload qs), s') \<and>
    tables s' = set_rcv so sb (tables s) \<and> sbuf sb qs' s' \<and> payload qs' = drop (len - length acc) (payload qs) \<and> pool s' fl' \<and>
    set fl' \<inter> fst ` set qs' = {} \<and> set fl' \<union> fst ` set qs' = set fl \<union> fst ` set qs \<and> mem_frame (fst ` set qs) s s'"
  using assms
proof (induction qs arbitrary: s fl acc)
  case Nil
  then show ?case
    by (intro exI [of _ s] exI [of _ "so_rcv (sock s so)"] exI [of _ "[]"] exI [of _ fl]) (auto simp: recv_loop.simps sbuf_def set_rcv_def upd_so_def tables_def)
next
  case (Cons q qs)
  obtain m bs where q: "q = (m, bs)" by force
  let ?sb = "so_rcv (sock s so)"
  note c = Cons.prems(1) [unfolded q sbuf_Cons]
  show ?case
  proof (cases "length acc < len")
    case False
    then show ?thesis using Cons.prems c
      by (intro exI [of _ s] exI [of _ "so_rcv (sock s so)"] exI [of _ "q # qs"] exI [of _ fl]) (subst recv_loop.simps, auto simp: set_rcv_def upd_so_def tables_def)
  next
    case True
    let ?k = "min (length bs) (len - length acc)"
    let ?t = "m_eat m ?k s" and ?cc = "sb_cc ?sb - word_of_nat ?k"
    note e = m_eat_ok [of m bs s ?k]
    have e: "?k \<le> length bs" "holds m bs s" using c by auto
    note t = m_eat_ok [OF e(2,1)]
    have d: "mdata m s = bs" "nat (m_len (mb s m)) = length bs" using e(2) by (simp_all add: holds_def)
    have mt: "m_len (mb ?t m) = int (length bs - ?k)" using t(1) by (simp add: holds_def)
    have sb': "sbuf (?sb\<lparr>sb_mb := m_nextpkt (mb s m), sb_cc := sb_cc ?sb - word_of_nat (length bs)\<rparr>) qs ?t" using c sbuf_frame [OF t(2)] by auto
    show ?thesis
    proof (cases "length bs \<le> len - length acc")
      case True
      have k: "?k = length bs" using True by simp
      define b where "b = ?sb\<lparr>sb_mb := m_nextpkt (mb s m), sb_cc := sb_cc ?sb - word_of_nat (length bs)\<rparr>"
      define v where "v = m_free (Some m) (set_rcv so (?sb\<lparr>sb_cc := sb_cc ?sb - word_of_nat (length bs)\<rparr>) ?t)"
      define u where "u = set_rcv so b v"
      have fv: "mem_frame {m} s v" unfolding v_def by (rule mem_frame_trans [OF _ m_free_effect(1), of "{m}"]) (use t(2) in simp_all)
      have tu: "tables u = set_rcv so b (tables s)" unfolding u_def v_def using t(3) by (simp add: m_free_effect set_rcv_def) (simp add: upd_so_def)
      have ub: "so_rcv (sock u so) = b" by (simp add: u_def)
      have p1: "sbuf (so_rcv (sock u so)) qs u" unfolding ub using c sbuf_frame [OF fv, of qs] by (auto simp: u_def b_def)
      have p2: "pool u (m # fl)" unfolding u_def v_def using Cons.prems(2,3) c q t(4) by (simp add: m_free_pool)
      have p3: "set (m # fl) \<inter> fst ` set qs = {}" "length (acc @ bs) \<le> len" using Cons.prems(3) q c True \<open>length acc < len\<close> by auto
      obtain s' sb qs' fl' where s': "recv_loop so (sb_mb b) len (acc @ bs) u = Some ((acc @ bs) @ take (len - length (acc @ bs)) (payload qs), s')"
        "tables s' = set_rcv so sb (tables u)" "sbuf sb qs' s'" "payload qs' = drop (len - length (acc @ bs)) (payload qs)" "pool s' fl'"
        "set fl' \<inter> fst ` set qs' = {}" "set fl' \<union> fst ` set qs' = set (m # fl) \<union> fst ` set qs" "mem_frame (fst ` set qs) u s'"
        using Cons.IH [OF p1 p2 p3] unfolding ub by (elim exE conjE)
      have "recv_loop so (sb_mb ?sb) len acc s = recv_loop so (sb_mb b) len (acc @ bs) u"
        using c unfolding u_def v_def b_def by (simp add: recv_loop_step [OF \<open>length acc < len\<close> e(2)] k Let_def t(5) [unfolded k] cc_mb)
      moreover have "mem_frame (fst ` set (q # qs)) s s'" by (rule mem_frame_trans [OF fv, of "fst ` set qs"]) (use s'(8) in \<open>auto simp: q u_def\<close>)
      ultimately show ?thesis using s' tu True
        by (intro exI [of _ s'] exI [of _ sb] exI [of _ qs'] exI [of _ fl']) (simp add: q)
    next
      case False
      have k: "?k = len - length acc" "?k \<noteq> length bs" using False by simp_all
      let ?b = "?sb\<lparr>sb_cc := sb_cc ?sb - word_of_nat ?k\<rparr>"
      let ?u = "set_rcv so ?b ?t"
      have "recv_loop so (sb_mb ?sb) len acc s = recv_loop so (Some m) len (acc @ take ?k bs) ?u"
        unfolding conjunct1 [OF c] recv_loop_step [OF \<open>length acc < len\<close> e(2)] Let_def by (simp only: k(2) if_False)
      also have "\<dots> = Some (acc @ take ?k bs, ?u)" using False \<open>length acc < len\<close> by (subst recv_loop.simps) simp
      finally have r: "recv_loop so (sb_mb ?sb) len acc s = Some (acc @ take (len - length acc) (payload (q # qs)), ?u)" using False k q by simp
      have n: "word_of_nat (length bs) = (word_of_nat ?k + word_of_nat (length bs - ?k) :: u32)" using e(1) by (metis le_add_diff_inverse of_nat_add)
      have cc: "sb_cc ?sb - word_of_nat ?k - word_of_nat (length (drop ?k bs)) = sb_cc ?sb - word_of_nat (length bs)" unfolding n length_drop by (rule diff_diff_eq)
      have "sbuf (?b\<lparr>sb_mb := m_nextpkt (mb ?u m), sb_cc := sb_cc ?b - word_of_nat (length (drop ?k bs))\<rparr>) qs ?u"
        using sb' t(5) by (simp add: cc del: length_drop)
      then have "sbuf ?b ((m, drop ?k bs) # qs) ?u" using c t(1) unfolding sbuf_Cons by (simp add: set_rcv_def)
      moreover have "mem_frame {m} s ?u" "tables ?u = set_rcv so ?b (tables s)" using t(2,3) by (simp_all add: set_rcv_def)
      ultimately show ?thesis using r t(4) Cons.prems(2,3) q False k(1)
        by (intro exI [of _ ?u] exI [of _ ?b] exI [of _ "(m, drop ?k bs) # qs"] exI [of _ fl]) (auto intro: mem_frame_mono)
    qed
  qed
qed

lemma soreceive_ok:
  assumes q: "sbuf (so_rcv (sock s so)) qs s" and p: "pool s fl" "set fl \<inter> fst ` set qs = {}"
    and n: "payload qs \<noteq> []" "length (payload qs) < 2 ^ 32"
  shows "\<exists>s' sb qs' fl'. soreceive poll (Some so) True len s = Some (CHIMERA_SUCCESS, take len (payload qs), s') \<and>
    tables s' = set_rcv so sb (tables s) \<and> sbuf sb qs' s' \<and> payload qs' = drop len (payload qs) \<and> pool s' fl' \<and>
    set fl' \<inter> fst ` set qs' = {} \<and> set fl' \<union> fst ` set qs' = set fl \<union> fst ` set qs \<and> mem_frame (fst ` set qs) s s'"
proof -
  have "sb_cc (so_rcv (sock s so)) = word_of_nat (length (payload qs))" using q by (simp add: sbuf_def)
  then have "sb_cc (so_rcv (sock s so)) \<noteq> 0" using n by (simp add: word_of_nat_eq_0_iff) (metis dvd_imp_le length_greater_0_conv linorder_not_less n(1))
  then have r: "recv_poll poll so 500 s = Some (False, s)" using recv_poll.simps(2) [of poll so 499 s] by simp
  obtain m where m: "sb_mb (so_rcv (sock s so)) = Some m" using q n(1) by (cases qs) (auto simp: sbuf_def)
  obtain s' sb qs' fl' where "recv_loop so (Some m) len [] s = Some (take len (payload qs), s')" "tables s' = set_rcv so sb (tables s)"
    "sbuf sb qs' s'" "payload qs' = drop len (payload qs)" "pool s' fl'" "set fl' \<inter> fst ` set qs' = {}"
    "set fl' \<union> fst ` set qs' = set fl \<union> fst ` set qs" "mem_frame (fst ` set qs) s s'"
    using recv_loop_ok [OF q p, of "[]" len, unfolded m append_Nil list.size(3) minus_nat.diff_0, OF le0] by (elim exE conjE)
  then show ?thesis by (intro exI [of _ s'] exI [of _ sb] exI [of _ qs'] exI [of _ fl']) (simp add: soreceive_def r m)
qed

end
