(* ===== verification/Net_Loop.thy ===== *)
theory Net_Loop
  imports Mbuf_Correct Sockbuf
begin

text \<open>
  The loopback path: a packet given to \<^verbatim>\<open>ip_output\<close> with the loopback address on either side becomes, byte for byte, the
  input of the protocol it is for, in a fresh mbuf.
\<close>

unbundle bit_operations_syntax

section \<open>The loopback interface\<close>

lemma if_search_find:
  "chain (\<lambda>n. if_next (n_ifnets s n)) cur ifs \<Longrightarrow> if_search P cur s = Some (find (\<lambda>i. P (n_ifnets s i)) ifs)"
proof (induction ifs arbitrary: cur)
  case Nil
  then show ?case by (simp add: if_search.simps)
next
  case (Cons i ifs)
  then show ?case by (subst if_search.simps) auto
qed

definition lo_if :: "nat \<Rightarrow> net_state \<Rightarrow> bool" where
  "lo_if l s \<longleftrightarrow> (\<exists>ifs. chain (\<lambda>n. if_next (n_ifnets s n)) (s_if_list s) ifs \<and> find (\<lambda>i. if_name (n_ifnets s i) = ''lo0'') ifs = Some l) \<and>
     if_flags (n_ifnets s l) AND IFF_LOOPBACK \<noteq> 0"

lemma lo_if_lookup: "lo_if l s \<Longrightarrow> if_lookup ''lo0'' s = Some (Some l)" by (auto simp: lo_if_def if_lookup_def if_search_find)

lemma lo_if_cong: "n_ifnets t = n_ifnets s \<Longrightarrow> s_if_list t = s_if_list s \<Longrightarrow> lo_if l t = lo_if l s" by (simp add: lo_if_def)

lemma lo_if_tables: "lo_if l (tables s) = lo_if l s" by (simp add: lo_if_def tables_sel)

abbreviation LO :: u32 where "LO \<equiv> htonl INADDR_LOOPBACK"

lemma LO_nonzero: "LO \<noteq> 0" by (simp add: htonl_def INADDR_LOOPBACK_def)

section \<open>Headers\<close>

lemma length_ip_header [simp]: "length (ip_header len ident proto src dst csum) = 20" by (simp add: ip_header_def)

lemma ip_header_fields:
  "ip_header len ident proto src dst csum ! 0 = 0x45" "ip_header len ident proto src dst csum ! 9 = proto"
  "ld32 (ip_header len ident proto src dst csum) 12 = src" "ld32 (ip_header len ident proto src dst csum) 16 = dst"
proof -
  let ?p = "[0x45, 0] @ st16 (htons (word_of_nat (20 + len))) @ st16 (htons ident) @ st16 (htons IP_OFF_DF) @ [64, proto] @ st16 csum"
  have "ld32 (?p @ st32 src @ st32 dst) (length ?p) = src" "ld32 ((?p @ st32 src) @ st32 dst @ []) (length (?p @ st32 src)) = dst"
    by (rule ld32_st32)+
  then show "ld32 (ip_header len ident proto src dst csum) 12 = src" "ld32 (ip_header len ident proto src dst csum) 16 = dst"
    by (simp_all add: ip_header_def)
qed (simp_all add: ip_header_def st16_def)

text \<open>The dispatch on the protocol.\<close>
definition ip_deliver :: "out_fn \<Rightarrow> u8 \<Rightarrow> nat \<Rightarrow> u32 \<Rightarrow> u32 \<Rightarrow> net_state \<Rightarrow> net_state option" where
  "ip_deliver out proto m src dst s =
     (if proto = IPPROTO_ICMP then icmp_input out m src dst s else if proto = IPPROTO_UDP then udp_input m s
      else if proto = IPPROTO_TCP then tcp_input out m src dst s else m_freem (Some m) s)"

lemma ip_input_deliver:
  assumes "holds p (ip_header len ident proto src dst csum @ bytes) s"
  shows "ip_input out p s = ip_deliver out proto p src dst (m_adj p 20 s)"
proof -
  let ?h = "ip_header len ident proto src dst csum"
  have f: "(?h @ bytes) ! 0 = 0x45" "(?h @ bytes) ! 9 = proto" "ld32 (?h @ bytes) 12 = src" "ld32 (?h @ bytes) 16 = dst"
    by (simp_all add: nth_append ip_header_fields)
  have "m_len (mb s p) = 20 + int (length bytes)" "mdata p s = ?h @ bytes" using assms by (simp_all add: holds_def)
  then show ?thesis unfolding ip_input_def Let_def by (simp only: f ip_deliver_def) simp
qed

section \<open>Output to the loopback interface\<close>

lemma chain_bytes_ok: "chain (\<lambda>n. m_next (mb s n)) r ms \<Longrightarrow> chain_bytes r acc s = Some (acc @ concat (map (\<lambda>m. mdata m s) ms))"
proof (induction ms arbitrary: r acc)
  case Nil
  then show ?case by (simp add: chain_bytes.simps)
next
  case (Cons m ms)
  then show ?case by (subst chain_bytes.simps) simp
qed

lemma ip_loop_ok:
  assumes p: "pool s (p # fl)" and h: "m_next (mb s h) = Some m" "mdata h s = hb" and m: "m_next (mb s m) = None" "mdata m s = bs"
    and len: "m_pkthdr_len (mb s h) = int (length hb + length bs)" "length hb + length bs \<le> MCLBYTES"
    and own: "h \<noteq> m" "h \<notin> set (p # fl)" "m \<notin> set (p # fl)" "h < MBUF_POOL_SIZE" "m < MBUF_POOL_SIZE"
  obtains s' where "ip_loop out ifp h s = do { s \<leftarrow> ip_input out p s'; Some (CHIMERA_SUCCESS, s) }" "holds p (hb @ bs) s'"
    "pool s' (m # h # fl)" "mem_frame {h, m, p} s s'" "tables s' = tables s"
proof -
  let ?a = "s\<lparr>s_mbuf_freelist := m_next (mb s p), s_mbuf_pool := (s_mbuf_pool s)(p := cl_mbuf MT_DATA)\<rparr>"
  let ?b = "upd_mb p (\<lambda>q. q\<lparr>m_pkthdr_rcvif := Some ifp\<rparr>) (fill_cl p (hb @ bs) s)"
  note f = fill_cl_ok [OF p, of "hb @ bs"]
  have fa: "mem_frame {p} s ?a" by (simp add: mem_frame_def)
  have c: "chain (\<lambda>n. m_next (mb ?a n)) (Some h) [h, m]" using h m own by auto
  have "mdata h ?a = hb" "mdata m ?a = bs" using mdata_frame [OF fa] h m own by auto
  then have cb: "chain_bytes (Some h) [] ?a = Some (hb @ bs)" using chain_bytes_ok [OF c] by simp
  have e: "m_data (cl_mbuf MT_DATA) = 0" "length (s_cluster_pool s p) = MCLBYTES" using p by (simp_all add: cl_mbuf_def zero_mbuf_def pool_def)
  have w: "mwrite p 0 (hb @ bs) ?a = Some (?a\<lparr>s_cluster_pool := (s_cluster_pool s)(p := hb @ bs @ drop (length hb + length bs) (s_cluster_pool s p))\<rparr>)"
    using len(2) e by (simp add: mwrite_def storage_def set_storage_def splice_0)
  have pb: "pool ?b fl" by (rule pool_frame [OF f(2)]) (use len(2) in \<open>auto simp: upd_mb_def\<close>)
  have fb: "mem_frame {p} s ?b" using f(3) len(2) by (auto simp: mem_frame_def upd_mb_def)
  have "chain (\<lambda>n. m_next (mb ?b n)) (Some h) [h, m]" using fb h m own by (auto simp: mem_frame_def)
  then obtain s' where s': "m_freem (Some h) ?b = Some s'" "pool s' (m # h # fl)" "mem_frame {h, m} ?b s'" "tables s' = tables ?b"
    using m_freem_pool [OF pb, of "Some h" "[h, m]"] own by auto
  have "holds p (hb @ bs) ?b" using f(1) len(2) by (auto simp: holds_def upd_mb_def mdata_def storage_def has_flag_def split: if_splits)
  then have "holds p (hb @ bs) s'" using holds_frame [OF s'(3)] own by auto
  moreover have "ip_loop out ifp h s = do { s \<leftarrow> ip_input out p s'; Some (CHIMERA_SUCCESS, s) }"
    using len s'(1) by (simp add: ip_loop_def Let_def m_getcl_pool [OF p] cb w fill_cl_def set_lens_def upd_mb_def add.commute nat_int_add)
  moreover have "mem_frame {h, m, p} s s'" by (rule mem_frame_trans [OF fb s'(3)]) auto
  ultimately show ?thesis using that s' f(4) len(2) by simp
qed

lemma loop_output:
  assumes p: "pool s (h # q # fl)" and m: "holds m bs s" "m_pkthdr_len (mb s m) = int (length bs)" "m \<notin> set (h # q # fl)" "m < MBUF_POOL_SIZE"
    and len: "20 + length bs \<le> MCLBYTES" and lo: "lo_if l s" and addr: "dst = LO \<or> src = LO" "src \<noteq> 0"
  obtains s' where "net_out (Suc n) m src dst proto s = do { s \<leftarrow> ip_deliver (net_out n) proto q src dst s'; Some (CHIMERA_SUCCESS, s) }"
    "holds q bs s'" "pool s' (m # h # fl)" "mem_frame {h, m, q} s s'" "tables s' = tables s"
proof -
  let ?hd = "\<lambda>c. ip_header (length bs) (s_ip_id_counter s) proto src dst c"
  define c where "c = in_checksum (?hd 0)"
  have i: "h \<noteq> m" "q \<noteq> m" "h \<noteq> q" "h \<notin> set fl" "q \<notin> set fl" "m \<notin> set fl" using pool_distinct [OF p] m(3) by auto
  have hm: "h < MBUF_POOL_SIZE" using p by (simp add: pool_def)
  let ?s0 = "s\<lparr>s_ip_id_counter := s_ip_id_counter s + 1\<rparr>"
  have p0: "pool ?s0 (h # q # fl)" by (rule pool_frame [OF p]) simp_all
  obtain s1 where s1: "prepend (?hd c) m ?s0 = Some (Some h, s1)" "pool s1 (q # fl)" "mem_frame {h} ?s0 s1" "tables s1 = tables ?s0"
    "m_next (mb s1 h) = Some m" "m_pkthdr_len (mb s1 h) = m_pkthdr_len (mb ?s0 m) + int (length (?hd c))" "mdata h s1 = ?hd c"
    by (rule prepend_ok [OF p0 i(1), of "?hd c"]) simp_all
  have f1: "mem_frame {h} s s1" using s1(3) by (simp add: mem_frame_def)
  have m1: "m_next (mb s1 m) = None" "mdata m s1 = bs"
    using holds_frame [OF f1, of m bs] m(1) i(1) by (simp_all add: holds_def)
  obtain s2 where s2: "ip_loop (net_out n) l h s1 = do { s \<leftarrow> ip_input (net_out n) q s2; Some (CHIMERA_SUCCESS, s) }"
    "holds q (?hd c @ bs) s2" "pool s2 (m # h # fl)" "mem_frame {h, m, q} s1 s2" "tables s2 = tables s1"
    by (rule ip_loop_ok [OF s1(2,5,7) m1, of "net_out n" l]) (use s1(6) m len hm i in auto)
  have fl: "if_flags (n_ifnets s1 l) AND IFF_LOOPBACK \<noteq> 0" using lo tables_eqD(3) [OF s1(4)] by (simp add: lo_if_def)
  have "s_mbuf_freelist s = Some h" using p by (simp add: pool_def)
  then have "net_out (Suc n) m src dst proto s = ip_loop (net_out n) l h s1"
    using addr m(2) fl s1(1) by (simp add: ip_output_def lo_if_lookup [OF lo] c_def Let_def split: if_splits)
  then have "net_out (Suc n) m src dst proto s = do { s \<leftarrow> ip_deliver (net_out n) proto q src dst (m_adj q 20 s2); Some (CHIMERA_SUCCESS, s) }"
    using s2(1) by (simp only: ip_input_deliver [OF s2(2)])
  moreover have "holds q bs (m_adj q 20 s2)" using holds_adj [OF s2(2)] by simp
  moreover have "pool (m_adj q 20 s2) (m # h # fl)" using m_adj_effect(3) [OF s2(3)] i by simp
  moreover have f2: "mem_frame {h, m, q} s s2" by (rule mem_frame_trans [OF f1 s2(4)]) auto
  have "mem_frame {h, m, q} s (m_adj q 20 s2)" by (rule mem_frame_trans [OF f2 m_adj_effect(1)]) auto
  moreover have "tables (m_adj q 20 s2) = tables s" using s2(5) s1(4) by (simp add: m_adj_effect(2))
  ultimately show ?thesis by (rule that)
qed

section \<open>Examples\<close>

text \<open>
  A small concrete stack, the starting point of the instances of the network properties: the loopback interface, eight free packet
  buffers, no sockets.
\<close>


definition quiet_net :: net_state where
  "quiet_net = \<lparr>s_mbuf_pool = (\<lambda>n. zero_mbuf\<lparr>m_next := (if n < 7 then Some (n + 1) else None)\<rparr>), s_cluster_pool = (\<lambda>_. replicate MCLBYTES 0),
     s_mbuf_freelist = Some 0,
     n_ifnets = (\<lambda>_. \<lparr>if_name = ''lo0'', if_flags = 0x49, if_mtu = 16384, if_mac = replicate 6 0, if_ip = LO, if_netmask = 0, if_bcast = 0, if_gateway = 0, if_dns = 0,
       ifi_ipackets = 0, ifi_opackets = 0, ifi_ibytes = 0, ifi_obytes = 0, if_output = Some LOOPBACK_OUTPUT, if_next = None\<rparr>), s_if_list = Some 0,
     s_net_input_lock = False, s_arp_table = (\<lambda>_. \<lparr>ae_ip = 0, ae_mac = replicate 6 0, ae_valid = False\<rparr>), s_ip_id_counter = 1,
     s_ping_listeners = (\<lambda>_. \<lparr>pl_id = 0, pl_seq = 0, pl_received = False\<rparr>),
     s_udp_pcbs = (\<lambda>_. \<lparr>up_so = None, up_local_ip = 0, up_local_port = 0, up_remote_ip = 0, up_remote_port = 0, up_bound = False\<rparr>), s_ephemeral_port = 49152,
     s_tcp_pcbs = (\<lambda>_. \<lparr>tp_so = None, tp_state = TCPS_CLOSED, tp_local_ip = 0, tp_local_port = 0, tp_remote_ip = 0, tp_remote_port = 0, tp_iss = 0, tp_snd_una = 0,
       tp_snd_nxt = 0, tp_snd_wnd = 0, tp_irs = 0, tp_rcv_nxt = 0, tp_rcv_wnd = 0, tp_bound = False\<rparr>), s_ephemeral_tcp_port = 49152, s_iss_counter = 0x12345678,
     s_socket_pool = (\<lambda>_. (fresh_socket SOCK_STREAM None)\<lparr>so_signature := 0\<rparr>), g_e1000_present = False, e_sent = [], e_rx = [], e_arrivals = []\<rparr>"

lemma quiet_net_sel:
  "s_mbuf_pool quiet_net n = zero_mbuf\<lparr>m_next := (if n < 7 then Some (n + 1) else None)\<rparr>" "s_cluster_pool quiet_net n = replicate MCLBYTES 0"
  "s_mbuf_freelist quiet_net = Some 0" "s_if_list quiet_net = Some 0" "if_name (n_ifnets quiet_net 0) = ''lo0''" "if_next (n_ifnets quiet_net 0) = None"
  "if_flags (n_ifnets quiet_net 0) = 0x49" "\<not> g_e1000_present quiet_net" "tp_so (s_tcp_pcbs quiet_net j) = None"
  "so_signature (s_socket_pool quiet_net j) = 0" "up_bound (s_udp_pcbs quiet_net j) = False" "so_pcb (s_socket_pool quiet_net j) = None"
  by (simp_all add: quiet_net_def fresh_socket_def)

lemma quiet_net_ok:
  "s_mbuf_pool t = s_mbuf_pool quiet_net \<Longrightarrow> s_cluster_pool t = s_cluster_pool quiet_net \<Longrightarrow> s_mbuf_freelist t = s_mbuf_freelist quiet_net \<Longrightarrow> pool t [0, 1, 2, 3, 4, 5, 6, 7]"
  "n_ifnets t = n_ifnets quiet_net \<Longrightarrow> s_if_list t = s_if_list quiet_net \<Longrightarrow> lo_if 0 t"
proof -
  show "s_mbuf_pool t = s_mbuf_pool quiet_net \<Longrightarrow> s_cluster_pool t = s_cluster_pool quiet_net \<Longrightarrow> s_mbuf_freelist t = s_mbuf_freelist quiet_net \<Longrightarrow> pool t [0, 1, 2, 3, 4, 5, 6, 7]"
    by (simp add: pool_def quiet_net_sel MBUF_POOL_SIZE_def)
  show "n_ifnets t = n_ifnets quiet_net \<Longrightarrow> s_if_list t = s_if_list quiet_net \<Longrightarrow> lo_if 0 t"
    by (simp add: lo_if_def quiet_net_sel IFF_LOOPBACK_def) (rule exI [of _ "[0]"], simp add: quiet_net_sel)
qed

end
