(* ===== verification/Tcp_Segment.thy ===== *)
theory Tcp_Segment
  imports Net_Loop
begin

text \<open>
  A TCP segment on its way over the loopback interface: what \<^verbatim>\<open>tcp_send_packet\<close> builds passes the checks of \<^verbatim>\<open>tcp_input\<close>
  and reaches the state machine of the control block it is for with the fields and the data of the sender.
\<close>

unbundle bit_operations_syntax

section \<open>The segment\<close>

definition segment :: "tcp_pcb \<Rightarrow> u8 \<Rightarrow> u8 list \<Rightarrow> u8 list" where
  "segment p flags data =
     (let z = tcp_header p flags 0 @ data
      in tcp_header p flags (in_pseudo_checksum (tp_local_ip p) (tp_remote_ip p) IPPROTO_TCP (word_of_nat (length z)) z) @ data)"

definition hdr_len :: "u8 \<Rightarrow> nat" where "hdr_len flags = (if flags AND TH_SYN \<noteq> 0 then 24 else 20)"

lemma hdr_len_le: "hdr_len flags \<le> 24" "20 \<le> hdr_len flags" by (simp_all add: hdr_len_def)

text \<open>The header around its checksum field.\<close>
definition hdr_before :: "tcp_pcb \<Rightarrow> u8 \<Rightarrow> u8 list" where
  "hdr_before p flags = st16 (htons (tp_local_port p)) @ st16 (htons (tp_remote_port p)) @ st32 (htonl (tp_snd_nxt p)) @ st32 (htonl (tp_rcv_nxt p)) @
     [word_of_nat (hdr_len flags div 4 * 16), flags] @ st16 (htons (ucast (tp_rcv_wnd p)))"

lemma length_hdr_before [simp]: "length (hdr_before p flags) = 16" by (simp add: hdr_before_def)

lemma tcp_header_split: "tcp_header p flags c = hdr_before p flags @ st16 c @ st16 0 @ tcp_options flags"
  by (simp add: tcp_header_def hdr_before_def tcp_options_def hdr_len_def)

lemma length_tcp_header [simp]: "length (tcp_header p flags c) = hdr_len flags"
  by (simp add: tcp_header_split tcp_options_def hdr_len_def)

lemma length_segment [simp]: "length (segment p flags data) = hdr_len flags + length data" by (simp add: segment_def Let_def)

lemma hdr_fields:
  "ld16 (hdr_before p flags @ ys) 0 = htons (tp_local_port p)" "ld16 (hdr_before p flags @ ys) 2 = htons (tp_remote_port p)"
  "ld32 (hdr_before p flags @ ys) 4 = htonl (tp_snd_nxt p)" "ld32 (hdr_before p flags @ ys) 8 = htonl (tp_rcv_nxt p)"
  "(hdr_before p flags @ ys) ! 12 = word_of_nat (hdr_len flags div 4 * 16)" "(hdr_before p flags @ ys) ! 13 = flags"
proof -
  let ?a = "st16 (htons (tp_local_port p))" and ?b = "st16 (htons (tp_remote_port p))" and ?c = "st32 (htonl (tp_snd_nxt p))"
  let ?d = "st32 (htonl (tp_rcv_nxt p))" and ?t = "[word_of_nat (hdr_len flags div 4 * 16), flags] @ st16 (htons (ucast (tp_rcv_wnd p))) @ ys"
  have e: "hdr_before p flags @ ys = ?a @ ?b @ ?c @ ?d @ ?t" by (simp add: hdr_before_def)
  have "ld16 ([] @ ?a @ ?b @ ?c @ ?d @ ?t) (length ([] :: u8 list)) = htons (tp_local_port p)" by (rule ld16_st16)
  then show "ld16 (hdr_before p flags @ ys) 0 = htons (tp_local_port p)" unfolding e by simp
  have "ld16 (?a @ ?b @ ?c @ ?d @ ?t) (length ?a) = htons (tp_remote_port p)" by (rule ld16_st16)
  then show "ld16 (hdr_before p flags @ ys) 2 = htons (tp_remote_port p)" unfolding e by simp
  have "ld32 ((?a @ ?b) @ ?c @ ?d @ ?t) (length (?a @ ?b)) = htonl (tp_snd_nxt p)" by (rule ld32_st32)
  then show "ld32 (hdr_before p flags @ ys) 4 = htonl (tp_snd_nxt p)" unfolding e by simp
  have "ld32 ((?a @ ?b @ ?c) @ ?d @ ?t) (length (?a @ ?b @ ?c)) = htonl (tp_rcv_nxt p)" by (rule ld32_st32)
  then show "ld32 (hdr_before p flags @ ys) 8 = htonl (tp_rcv_nxt p)" unfolding e by simp
qed (simp_all add: hdr_before_def nth_append)

lemma data_offset: "4 * unat (drop_bit 4 (word_of_nat (hdr_len flags div 4 * 16)) AND 0x0F :: u8) = hdr_len flags"
  by (simp add: hdr_len_def)

lemma segment_checksum:
  assumes "length data \<le> 2000"
  shows "in_pseudo_checksum (tp_local_ip p) (tp_remote_ip p) IPPROTO_TCP (word_of_nat (hdr_len flags + length data)) (segment p flags data) = 0"
proof -
  let ?b = "hdr_before p flags" and ?y = "st16 0 @ tcp_options flags @ data"
  let ?c = "in_pseudo_checksum (tp_local_ip p) (tp_remote_ip p) IPPROTO_TCP (word_of_nat (hdr_len flags + length data)) (?b @ st16 0 @ ?y)"
  have "length (tcp_options flags) \<le> 4" by (simp add: tcp_options_def)
  then have "in_pseudo_checksum (tp_local_ip p) (tp_remote_ip p) IPPROTO_TCP (word_of_nat (hdr_len flags + length data)) (?b @ st16 ?c @ ?y) = 0"
    using assms by (intro checksum_verifies) simp_all
  then show ?thesis unfolding segment_def Let_def length_append length_tcp_header unfolding tcp_header_split append_assoc .
qed

section \<open>Sending\<close>

lemma splice_mid: "length bs = length ys \<Longrightarrow> splice (length xs) bs (xs @ ys @ zs) = xs @ bs @ zs" by (simp add: splice_def)

lemma mwrite_cl:
  assumes "mb s m = q" and "m_flags q = 3" and "m_data q = 0" and "off + length bs \<le> length (s_cluster_pool s m)"
  shows "mwrite m off bs s = Some (s\<lparr>s_cluster_pool := (s_cluster_pool s)(m := splice off bs (s_cluster_pool s m))\<rparr>)"
  using assms by (simp add: mwrite_def storage_def set_storage_def has_flag_def M_EXT_def)

definition snd_adv :: "u8 \<Rightarrow> u8 list \<Rightarrow> tcp_pcb \<Rightarrow> tcp_pcb" where
  "snd_adv flags data p = p\<lparr>tp_snd_nxt := tp_snd_nxt p + (if flags AND (TH_SYN OR TH_FIN) \<noteq> 0 then 1 else word_of_nat (length data))\<rparr>"

lemma snd_adv_sel [simp]:
  "tp_so (snd_adv fg d p) = tp_so p" "tp_state (snd_adv fg d p) = tp_state p" "tp_local_ip (snd_adv fg d p) = tp_local_ip p"
  "tp_local_port (snd_adv fg d p) = tp_local_port p" "tp_remote_ip (snd_adv fg d p) = tp_remote_ip p" "tp_remote_port (snd_adv fg d p) = tp_remote_port p"
  "tp_rcv_nxt (snd_adv fg d p) = tp_rcv_nxt p" "tp_bound (snd_adv fg d p) = tp_bound p"
  by (simp_all add: snd_adv_def)

lemma tcp_send_packet_eq:
  assumes p: "pool s (m # fl)" and ip: "tp_local_ip (tp s i) \<noteq> 0" and len: "length data \<le> 1460"
  shows "tcp_send_packet out i flags data s =
    out m (tp_local_ip (tp s i)) (tp_remote_ip (tp s i)) IPPROTO_TCP (upd_tp i (snd_adv flags data) (fill_cl m (segment (tp s i) flags data) s))"
proof -
  let ?p = "tp s i" and ?cl = "s_cluster_pool s m" and ?n = "hdr_len flags + length data"
  let ?a = "s\<lparr>s_mbuf_freelist := m_next (mb s m), s_mbuf_pool := (s_mbuf_pool s)(m := cl_mbuf MT_DATA)\<rparr>"
  let ?z = "tcp_header ?p flags 0 @ data" and ?r = "drop ?n ?cl"
  let ?c = "in_pseudo_checksum (tp_local_ip ?p) (tp_remote_ip ?p) IPPROTO_TCP (word_of_nat ?n) ?z"
  let ?b = "\<lambda>h. ?a\<lparr>s_cluster_pool := (s_cluster_pool s)(m := h @ data @ ?r)\<rparr>"
  have id: "upd_tp i (\<lambda>q. q\<lparr>tp_local_ip := tp_local_ip ?p\<rparr>) s = s" by (simp add: upd_tp_def)
  have L: "length ?cl = 2048" "?n \<le> 2048" using p len hdr_len_le(1) [of flags] by (simp_all add: pool_def MCLBYTES_def)
  have q: "m_flags (cl_mbuf MT_DATA) = 3" "m_data (cl_mbuf MT_DATA) = 0" by (simp_all add: cl_mbuf_def zero_mbuf_def)
  have w1: "mwrite m 0 (tcp_header ?p flags 0) ?a = Some (?a\<lparr>s_cluster_pool := (s_cluster_pool s)(m := tcp_header ?p flags 0 @ drop (hdr_len flags) ?cl)\<rparr>)"
    (is "_ = Some ?s1") by (subst mwrite_cl [OF refl]) (use q L in \<open>simp_all add: splice_0\<close>)
  have "splice (hdr_len flags) data (tcp_header ?p flags 0 @ drop (hdr_len flags) ?cl) = tcp_header ?p flags 0 @ data @ ?r"
    by (simp add: splice_def add.commute)
  then have w2: "mwrite m (hdr_len flags) data ?s1 = Some (?b (tcp_header ?p flags 0))"
    by (subst mwrite_cl [OF refl]) (use q L in \<open>simp_all\<close>)
  have "splice 16 (st16 ?c) (tcp_header ?p flags 0 @ data @ ?r) = tcp_header ?p flags ?c @ data @ ?r"
    using splice_mid [of "st16 ?c" "st16 0" "hdr_before ?p flags"] by (simp add: tcp_header_split)
  then have w3: "mwrite m 16 (st16 ?c) (set_lens m ?n (?b (tcp_header ?p flags 0))) = Some (set_lens m ?n (?b (tcp_header ?p flags ?c)))"
    by (subst mwrite_cl [OF refl]) (use q L hdr_len_le(2) [of flags] in \<open>simp_all add: set_lens_def upd_mb_def\<close>)
  have d: "mdata m (set_lens m ?n (?b (tcp_header ?p flags 0))) = ?z"
    using q by (simp add: mdata_def storage_def set_lens_def upd_mb_def has_flag_def M_EXT_def nat_int_add)
  have f: "set_lens m ?n (?b (tcp_header ?p flags ?c)) = fill_cl m (segment ?p flags data) s"
    by (simp add: fill_cl_def segment_def Let_def set_lens_def upd_mb_def)
  have "\<not> length data > MCLBYTES - hdr_len flags - 64" using len hdr_len_le(1) [of flags] by (simp add: MCLBYTES_def)
  then show ?thesis
    unfolding tcp_send_packet_def source_ip_def using ip
    by (simp add: id m_getcl_pool [OF p] Let_def w1 w2 d w3 f snd_adv_def [abs_def] del: of_nat_add)
qed

section \<open>Arrival\<close>

text \<open>What \<^verbatim>\<open>tcp_input\<close> does with an intact segment.\<close>
definition tcp_dispatch :: "out_fn \<Rightarrow> nat \<Rightarrow> tcp_pcb \<Rightarrow> u8 \<Rightarrow> net_state \<Rightarrow> net_state option" where
  "tcp_dispatch out m p flags s =
     (case tcp_demux (tp_remote_port p) (tp_local_port p) (tp_local_ip p) flags s of
        None \<Rightarrow> m_freem (Some m) s
      | Some j \<Rightarrow> tcp_transition out m j (tp_local_ip p) (tp_remote_ip p) (tp_local_port p) (tp_snd_nxt p) (tp_rcv_nxt p) flags s)"

lemma tcp_input_segment:
  assumes "holds m (segment p flags data) s" and "length data \<le> 1460"
  shows "tcp_input out m (tp_local_ip p) (tp_remote_ip p) s = tcp_dispatch out m p flags (m_adj m (hdr_len flags) s)"
    and "holds m data (m_adj m (hdr_len flags) s)"
proof -
  obtain c where c: "segment p flags data = tcp_header p flags c @ data" by (simp add: segment_def Let_def)
  have h: "mdata m s = segment p flags data" "m_len (mb s m) = int (hdr_len flags + length data)" using assms(1) by (simp_all add: holds_def)
  have e: "segment p flags data = hdr_before p flags @ (st16 c @ st16 0 @ tcp_options flags @ data)" by (simp add: c tcp_header_split)
  have sum: "in_pseudo_checksum (tp_local_ip p) (tp_remote_ip p) IPPROTO_TCP (word_of_int (int (hdr_len flags + length data))) (segment p flags data) = 0"
    using segment_checksum [of data p flags] assms(2) by simp
  have "\<not> int (hdr_len flags + length data) < 20" "\<not> hdr_len flags < 20" "\<not> int (hdr_len flags + length data) < int (hdr_len flags)"
    using hdr_len_le(2) [of flags] by simp_all
  then show "tcp_input out m (tp_local_ip p) (tp_remote_ip p) s = tcp_dispatch out m p flags (m_adj m (hdr_len flags) s)"
    unfolding tcp_input_def Let_def h sum tcp_dispatch_def unfolding e
    by (simp only: hdr_fields data_offset ntohs_htons ntohl_htonl simp_thms if_False)
  show "holds m data (m_adj m (hdr_len flags) s)" using holds_adj [of m "tcp_header p flags c" data s] assms(1) by (simp add: c)
qed

text \<open>Over the loopback interface: the segment arrives in a fresh mbuf, the two mbufs used on the way are free again.\<close>
lemma segment_arrives:
  assumes p: "pool s (m # h # q # fl)" and lo: "lo_if l s" and addr: "tp_remote_ip (tp s i) = LO \<or> tp_local_ip (tp s i) = LO" "tp_local_ip (tp s i) \<noteq> 0"
    and len: "length data \<le> 1460"
  obtains s' where "tcp_send_packet (net_out (Suc n)) i flags data s = do { s \<leftarrow> tcp_dispatch (net_out n) q (tp s i) flags s'; Some (CHIMERA_SUCCESS, s) }"
    "holds q data s'" "pool s' (m # h # fl)" "mem_frame {m, h, q} s s'" "tables s' = upd_tp i (snd_adv flags data) (tables s)"
proof -
  let ?p = "tp s i" and ?seg = "segment (tp s i) flags data"
  let ?t = "upd_tp i (snd_adv flags data) (fill_cl m ?seg s)"
  have L: "length ?seg \<le> MCLBYTES" "20 + length ?seg \<le> MCLBYTES" using len hdr_len_le(1) [of flags] by (simp_all add: MCLBYTES_def)
  note f = fill_cl_ok [OF p L(1)]
  have pt: "pool ?t (h # q # fl)" using f(2) by simp
  have ht: "holds m ?seg ?t" using f(1) by simp
  have m: "m \<notin> set (h # q # fl)" "m < MBUF_POOL_SIZE" "q \<notin> set (m # h # fl)" using pool_distinct [OF p] p by (auto simp: pool_def)
  have lt: "lo_if l ?t" using lo tables_eqD(3,4) [OF f(4)] by (simp add: lo_if_def upd_tp_def)
  have pk: "m_pkthdr_len (mb ?t m) = int (length ?seg)" by (simp add: upd_tp_def fill_cl_def)
  obtain s1 where s1: "net_out (Suc n) m (tp_local_ip ?p) (tp_remote_ip ?p) IPPROTO_TCP ?t = do { s \<leftarrow> ip_deliver (net_out n) IPPROTO_TCP q (tp_local_ip ?p) (tp_remote_ip ?p) s1; Some (CHIMERA_SUCCESS, s) }"
    "holds q ?seg s1" "pool s1 (m # h # fl)" "mem_frame {h, m, q} ?t s1" "tables s1 = tables ?t"
    by (rule loop_output [OF pt ht pk m(1,2) L(2) lt addr]) 
  note a = tcp_input_segment [OF s1(2) len] m_adj_effect [where m = q and k = "hdr_len flags" and s = s1]
  have "ip_deliver (net_out n) IPPROTO_TCP q (tp_local_ip ?p) (tp_remote_ip ?p) s1 = tcp_dispatch (net_out n) q ?p flags (m_adj q (hdr_len flags) s1)"
    by (simp add: ip_deliver_def IPPROTO_TCP_def IPPROTO_UDP_def IPPROTO_ICMP_def a(1) [unfolded IPPROTO_TCP_def])
  then have "tcp_send_packet (net_out (Suc n)) i flags data s = do { s \<leftarrow> tcp_dispatch (net_out n) q ?p flags (m_adj q (hdr_len flags) s1); Some (CHIMERA_SUCCESS, s) }"
    using s1(1) by (simp only: tcp_send_packet_eq [OF p addr(2) len])
  moreover have "pool (m_adj q (hdr_len flags) s1) (m # h # fl)" using a(5) [OF s1(3) m(3)] .
  moreover have ft: "mem_frame {m} s ?t" using f(3) by simp
  have f1: "mem_frame {m, h, q} s s1" by (rule mem_frame_trans [OF ft s1(4)]) auto
  have "mem_frame {m, h, q} s (m_adj q (hdr_len flags) s1)" by (rule mem_frame_trans [OF f1 a(3)]) auto
  moreover have "tables (m_adj q (hdr_len flags) s1) = upd_tp i (snd_adv flags data) (tables s)" using a(4) s1(5) f(4) by simp
  ultimately show ?thesis using that a(2) by blast
qed

end
