(* ===== verification/Tcp_Stream.thy ===== *)
theory Tcp_Stream
  imports Tcp_Segment Sockbuf
begin

text \<open>
  Connections over the loopback interface: what is sent on one end arrives, in order and complete, in the receive buffer of the
  other, and the handshake ends with two control blocks that agree on their sequence numbers.
\<close>

unbundle bit_operations_syntax

section \<open>Connections\<close>

text \<open>Segments of \<open>i\<close> reach \<open>j\<close>, which expects the next one.\<close>
definition reaches :: "net_state \<Rightarrow> nat \<Rightarrow> nat \<Rightarrow> bool" where
  "reaches s i j \<longleftrightarrow>
     find (\<lambda>k. tcp_exact (tp_remote_port (tp s i)) (tp_local_port (tp s i)) (tp_local_ip (tp s i)) (tp s k)) [0..<TCP_MAX_SOCKETS] = Some j \<and>
     tp_state (tp s j) = TCPS_ESTABLISHED \<and> tp_rcv_nxt (tp s j) = tp_snd_nxt (tp s i) \<and>
     tp_local_ip (tp s i) \<noteq> 0 \<and> (tp_remote_ip (tp s i) = LO \<or> tp_local_ip (tp s i) = LO)"

definition conn :: "net_state \<Rightarrow> nat \<Rightarrow> nat \<Rightarrow> bool" where "conn s i j \<longleftrightarrow> i \<noteq> j \<and> reaches s i j \<and> reaches s j i"

text \<open>A control block up to its sequence numbers.\<close>
definition ident :: "tcp_pcb \<Rightarrow> tcp_pcb" where
  "ident p = p\<lparr>tp_iss := 0, tp_snd_una := 0, tp_snd_nxt := 0, tp_snd_wnd := 0, tp_irs := 0, tp_rcv_nxt := 0, tp_rcv_wnd := 0\<rparr>"

lemma identD:
  assumes "ident p = ident q"
  shows "tp_so p = tp_so q" "tp_state p = tp_state q" "tp_local_ip p = tp_local_ip q" "tp_local_port p = tp_local_port q"
    "tp_remote_ip p = tp_remote_ip q" "tp_remote_port p = tp_remote_port q" "tp_bound p = tp_bound q"
  using assms unfolding ident_def by (cases p, cases q, simp)+

lemma reaches_cong:
  assumes "\<And>k. ident (tp t k) = ident (tp s k)" and "tp_rcv_nxt (tp t j) = tp_snd_nxt (tp t i)" and "reaches s i j"
  shows "reaches t i j"
proof -
  note d = identD [OF assms(1)]
  have "tcp_exact a b c (tp t k) = tcp_exact a b c (tp s k)" for a b c k by (simp add: tcp_exact_def d)
  then show ?thesis using assms(2,3) by (simp add: reaches_def d)
qed

lemma reaches_so: "reaches s i j \<Longrightarrow> \<exists>b. tp_so (tp s j) = Some b"
  by (auto simp: reaches_def find_Some_iff tcp_exact_def)

lemma demux_reaches:
  "reaches s i j \<Longrightarrow> tcp_demux (tp_remote_port (tp s i)) (tp_local_port (tp s i)) (tp_local_ip (tp s i)) flags s = Some j"
  by (simp add: reaches_def tcp_demux_def)

lemma demux_ident:
  assumes "\<And>k. ident (tp t k) = ident (tp s k)"
  shows "tcp_demux a b c flags t = tcp_demux a b c flags s"
proof -
  note d = identD [OF assms]
  have "tcp_exact a b c (tp t k) = tcp_exact a b c (tp s k)" "tcp_listener a (tp t k) = tcp_listener a (tp s k)" for k
    by (simp_all add: tcp_exact_def tcp_listener_def d)
  then show ?thesis by (simp only: tcp_demux_def)
qed

lemma m_freem_single:
  assumes "holds m bs s" and "pool s fl" and "m \<notin> set fl" and "m < MBUF_POOL_SIZE"
  obtains s' where "m_freem (Some m) s = Some s'" "pool s' (m # fl)" "mem_frame {m} s s'" "tables s' = tables s"
  using m_freem_pool [OF assms(2), of "Some m" "[m]"] assms by (auto simp: holds_def)

section \<open>One acknowledgement\<close>

text \<open>A bare acknowledgement over an established connection changes nothing but the buffers used for it.\<close>
lemma ack_ok:
  assumes c: "conn s j i" and p: "pool s (m # h # q # fl)" and lo: "lo_if l s"
  obtains s' where "tcp_send_packet (net_out (Suc n)) j TH_ACK [] s = Some (CHIMERA_SUCCESS, s')" "pool s' (q # m # h # fl)"
    "mem_frame {m, h, q} s s'" "tables s' = tables s"
proof -
  have r: "reaches s j i" using c by (simp add: conn_def)
  have a: "tp_remote_ip (tp s j) = LO \<or> tp_local_ip (tp s j) = LO" "tp_local_ip (tp s j) \<noteq> 0" using r by (simp_all add: reaches_def)
  have z: "snd_adv TH_ACK [] = (\<lambda>p. p)" by (simp add: snd_adv_def fun_eq_iff TH_ACK_def TH_SYN_def TH_FIN_def)
  obtain t where t: "tcp_send_packet (net_out (Suc n)) j TH_ACK [] s = do { s \<leftarrow> tcp_dispatch (net_out n) q (tp s j) TH_ACK t; Some (CHIMERA_SUCCESS, s) }"
    "holds q [] t" "pool t (m # h # fl)" "mem_frame {m, h, q} s t" "tables t = upd_tp j (snd_adv TH_ACK []) (tables s)"
    by (rule segment_arrives [OF p lo a, of "[]"]) simp_all
  have tt: "tables t = tables s" using t(5) by (simp add: z upd_tp_def)
  note tp = tables_eqD(1) [OF tt]
  have q: "q \<notin> set (m # h # fl)" "q < MBUF_POOL_SIZE" using pool_distinct [OF p] p by (auto simp: pool_def)
  obtain s' where s': "m_freem (Some q) t = Some s'" "pool s' (q # m # h # fl)" "mem_frame {q} t s'" "tables s' = tables t"
    by (rule m_freem_single [OF t(2,3) q])
  have st: "tp_state (tp t i) = TCPS_ESTABLISHED" using r tp by (simp add: reaches_def)
  have "tcp_dispatch (net_out n) q (tp s j) TH_ACK t = Some s'"
    using t(2) s'(1) st by (simp add: tcp_dispatch_def demux_ident [of t s] tp demux_reaches [OF r] tcp_transition_def Let_def tcp_established_def holds_def TH_ACK_def TH_FIN_def)
  then show ?thesis using that t(1) s' tt mem_frame_trans [OF t(4) s'(3), of "{m, h, q}"] by simp
qed

section \<open>One segment of data\<close>

text \<open>The change of the control blocks: \<open>n\<close> more bytes sent by \<open>i\<close> and received by \<open>j\<close>.\<close>
definition moved :: "nat \<Rightarrow> nat \<Rightarrow> nat \<Rightarrow> net_state \<Rightarrow> net_state" where
  "moved i j n s = upd_tp j (\<lambda>p. p\<lparr>tp_rcv_nxt := tp_rcv_nxt p + word_of_nat n\<rparr>) (upd_tp i (\<lambda>p. p\<lparr>tp_snd_nxt := tp_snd_nxt p + word_of_nat n\<rparr>) s)"

lemma moved_conn:
  assumes "conn s i j" and "s_tcp_pcbs t = s_tcp_pcbs (moved i j n s)"
  shows "conn t i j" "ident (tp t k) = ident (tp s k)"
proof -
  have d: "ident (tp t k) = ident (tp s k)" for k by (simp add: assms(2) moved_def upd_tp_def ident_def)
  then show "ident (tp t k) = ident (tp s k)" .
  have "tp_rcv_nxt (tp t j) = tp_snd_nxt (tp t i)" "tp_rcv_nxt (tp t i) = tp_snd_nxt (tp t j)"
    using assms by (simp_all add: conn_def reaches_def moved_def upd_tp_def)
  then show "conn t i j" using assms(1) reaches_cong [OF d] by (simp add: conn_def)
qed

lemma data_ok:
  assumes c: "conn s i j" and b: "tp_so (tp s j) = Some b" and p: "pool s (m # h # q # x # fl)" and lo: "lo_if l s"
    and sb: "sbuf (so_rcv (sock s b)) qs s" "fst ` set qs \<inter> set (m # h # q # x # fl) = {}"
    and len: "data \<noteq> []" "length data \<le> 1460" and fg: "flags = TH_ACK \<or> flags = TH_ACK OR TH_PUSH"
  obtains s' sb' where "tcp_send_packet (net_out (Suc (Suc n))) i flags data s = Some (CHIMERA_SUCCESS, s')" "pool s' (x # m # h # fl)"
    "tables s' = set_rcv b sb' (moved i j (length data) (tables s))" "sbuf sb' (qs @ [(q, data)]) s'" "mem_frame ({m, h, q, x} \<union> fst ` set qs) s s'"
proof -
  have r: "reaches s i j" using c by (simp add: conn_def)
  have a: "tp_remote_ip (tp s i) = LO \<or> tp_local_ip (tp s i) = LO" "tp_local_ip (tp s i) \<noteq> 0" using r by (simp_all add: reaches_def)
  have z: "snd_adv flags data = (\<lambda>p. p\<lparr>tp_snd_nxt := tp_snd_nxt p + word_of_nat (length data)\<rparr>)"
    using fg by (auto simp: snd_adv_def fun_eq_iff TH_ACK_def TH_SYN_def TH_FIN_def TH_PUSH_def)
  obtain t where t: "tcp_send_packet (net_out (Suc (Suc n))) i flags data s = do { s \<leftarrow> tcp_dispatch (net_out (Suc n)) q (tp s i) flags t; Some (CHIMERA_SUCCESS, s) }"
    "holds q data t" "pool t (m # h # x # fl)" "mem_frame {m, h, q} s t" "tables t = upd_tp i (snd_adv flags data) (tables s)"
    by (rule segment_arrives [OF p lo a len(2)])
  have tpt: "s_tcp_pcbs t = s_tcp_pcbs (upd_tp i (snd_adv flags data) s)" using t(5) by (metis tables_sel(1) tables_upd(6))
  have dm: "tcp_demux (tp_remote_port (tp s i)) (tp_local_port (tp s i)) (tp_local_ip (tp s i)) flags t = Some j"
    using demux_reaches [OF r] demux_ident [of t s] by (simp add: tpt upd_tp_def z ident_def)
  have tj: "tp_state (tp t j) = TCPS_ESTABLISHED" "tp_rcv_nxt (tp t j) = tp_snd_nxt (tp s i)" "tp_so (tp t j) = Some b" "m_len (mb t q) = int (length data)"
    using r b c t(2) by (simp_all add: tpt upd_tp_def z reaches_def conn_def holds_def)
  let ?u = "upd_tp j (\<lambda>p. p\<lparr>tp_rcv_nxt := tp_rcv_nxt p + word_of_nat (length data)\<rparr>) t"
  have tu: "tables ?u = moved i j (length data) (tables s)" using t(5) by (simp add: moved_def z)
  have su: "s_socket_pool ?u = s_socket_pool s" using arg_cong [OF tu, of s_socket_pool] by (simp add: tables_sel moved_def)
  have fu: "mem_frame {m, h, q} s ?u" using t(4) by simp
  have sbu: "sbuf (so_rcv (sock ?u b)) qs ?u" unfolding su using sbuf_frame [OF fu, of qs] sb by auto
  have q: "q \<notin> fst ` set qs" "q < MBUF_POOL_SIZE" "x \<notin> fst ` set qs" using sb(2) p by (auto simp: pool_def)
  obtain v sb' where v: "so_rcv_append b q ?u = Some v" "tables v = upd_so b (\<lambda>q. q\<lparr>so_rcv := sb'\<rparr>) (tables ?u)"
    "sbuf sb' (qs @ [(q, data)]) v" "mem_frame (insert q (fst ` set qs)) ?u v" "pool ?u (m # h # x # fl) \<Longrightarrow> pool v (m # h # x # fl)"
    by (rule so_rcv_append_ok [OF sbu _ q(1,2), of data "m # h # x # fl"]) (use t(2) in simp_all)
  have pv: "pool v (m # h # x # fl)" using v(5) t(3) by simp
  have tv: "tables v = set_rcv b sb' (moved i j (length data) (tables s))" using v(2) tu by (simp add: set_rcv_def)
  have "s_tcp_pcbs v = s_tcp_pcbs (moved i j (length data) s)"
    using arg_cong [OF tv, of s_tcp_pcbs] by (simp add: tables_sel set_rcv_def moved_def upd_tp_def)
  then have "conn v i j" using moved_conn(1) [OF c] by blast
  then have cv: "conn v j i" by (auto simp: conn_def)
  have "n_ifnets v = n_ifnets s" "s_if_list v = s_if_list s"
    using arg_cong [OF tv, of n_ifnets] arg_cong [OF tv, of s_if_list] by (simp_all add: tables_sel set_rcv_def moved_def)
  then have lv: "lo_if l v" using lo lo_if_cong by blast
  obtain w where w: "tcp_send_packet (net_out (Suc n)) j TH_ACK [] v = Some (CHIMERA_SUCCESS, w)" "pool w (x # m # h # fl)"
    "mem_frame {m, h, x} v w" "tables w = tables v" by (rule ack_ok [OF cv pv lv])
  have dl: "tcp_deliver j q t = Some v" using v(1) by (simp add: tcp_deliver_def tj)
  have e: "tcp_established (net_out (Suc n)) j q flags (tp_snd_nxt (tp s i)) t = Some w" using len(1) by (simp add: tcp_established_def tj dl w(1))
  have "tcp_dispatch (net_out (Suc n)) q (tp s i) flags t = Some w"
    by (simp add: tcp_dispatch_def dm tcp_transition_def Let_def tj(1) e)
  then have "tcp_send_packet (net_out (Suc (Suc n))) i flags data s = Some (CHIMERA_SUCCESS, w)" using t(1) by simp
  moreover have "sbuf sb' (qs @ [(q, data)]) w"
    using v(3) sbuf_frame [OF w(3), of "qs @ [(q, data)]"] sb(2) q pool_distinct [OF p] by auto
  moreover have fv: "mem_frame ({m, h, q, x} \<union> fst ` set qs) s v" by (rule mem_frame_trans [OF fu v(4)]) auto
  have "mem_frame ({m, h, q, x} \<union> fst ` set qs) s w" by (rule mem_frame_trans [OF fv w(3)]) auto
  ultimately show ?thesis using that w(2,4) tv by metis
qed

section \<open>A whole write\<close>

lemma moved_moved: "i \<noteq> j \<Longrightarrow> set_rcv b sb' (moved i j k' (set_rcv b sb (moved i j k s))) = set_rcv b sb' (moved i j (k + k') s)"
  by (simp add: moved_def set_rcv_def upd_tp_def upd_so_def fun_upd_twist add.assoc)

lemma moved_0: "set_rcv b (so_rcv (sock s b)) (moved i j 0 s) = s" by (simp add: moved_def set_rcv_def upd_tp_def upd_so_def)

text \<open>The effect of moving \<open>n\<close> bytes on what the next segment relies on.\<close>
lemma moved_tables:
  assumes "tables t = set_rcv b sb (moved i j n (tables s))" and "conn s i j" and "lo_if l s"
  shows "conn t i j" "tp_so (tp t k) = tp_so (tp s k)" "lo_if l t" "so_rcv (sock t b) = sb" "so_state (sock t a) = so_state (sock s a)"
proof -
  have p: "s_tcp_pcbs t = s_tcp_pcbs (moved i j n s)" using arg_cong [OF assms(1), of s_tcp_pcbs] by (simp add: tables_sel set_rcv_def moved_def upd_tp_def)
  show "conn t i j" by (rule moved_conn(1) [OF assms(2) p])
  show "tp_so (tp t k) = tp_so (tp s k)" by (rule identD(1) [OF moved_conn(2) [OF assms(2) p]])
  have "n_ifnets t = n_ifnets s" "s_if_list t = s_if_list s"
    using arg_cong [OF assms(1), of n_ifnets] arg_cong [OF assms(1), of s_if_list] by (simp_all add: tables_sel set_rcv_def moved_def)
  then show "lo_if l t" using assms(3) lo_if_cong by blast
  have "s_socket_pool t = (s_socket_pool s)(b := (sock s b)\<lparr>so_rcv := sb\<rparr>)"
    using arg_cong [OF assms(1), of s_socket_pool] by (simp add: tables_sel set_rcv_def upd_so_def) (simp add: moved_def tables_sel)
  then show "so_rcv (sock t b) = sb" "so_state (sock t a) = so_state (sock s a)" by simp_all
qed

definition segments :: "nat \<Rightarrow> nat" where "segments n = (n + 1459) div 1460"

lemma segments_step: "0 < n \<Longrightarrow> segments n = Suc (segments (n - 1460))"
  by (cases "n \<le> 1460") (auto simp: segments_def div_eq_dividend_iff le_div_geq)

lemma send_chunks_ok:
  assumes "conn s i j" and "tp_so (tp s j) = Some b" and "lo_if l s" and "pool s fl" and "3 + segments (length bs) \<le> length fl"
    and "sbuf (so_rcv (sock s b)) qs s" and "fst ` set qs \<inter> set fl = {}"
  shows "\<exists>s' sb qs' fl'. send_chunks (net_out (Suc (Suc n))) i bs s = Some (CHIMERA_SUCCESS, s') \<and>
    tables s' = set_rcv b sb (moved i j (length bs) (tables s)) \<and> sbuf sb qs' s' \<and> payload qs' = payload qs @ bs \<and> pool s' fl' \<and>
    fst ` set qs' \<inter> set fl' = {} \<and> fst ` set qs' \<union> set fl' = fst ` set qs \<union> set fl \<and> mem_frame (fst ` set qs \<union> set fl) s s'"
  using assms
proof (induction "length bs" arbitrary: bs s fl qs rule: less_induct)
  case less
  show ?case
  proof (cases "bs = []")
    case True
    then show ?thesis using less.prems moved_0 [of b "tables s" i j]
      by (intro exI [of _ s] exI [of _ "so_rcv (sock s b)"] exI [of _ qs] exI [of _ fl]) (simp add: send_chunks.simps tables_sel)
  next
    case False
    let ?d = "take 1460 bs" and ?f = "if length bs \<le> 1460 then TH_ACK OR TH_PUSH else TH_ACK"
    have g: "segments (length bs) = Suc (segments (length (drop 1460 bs)))" using segments_step [of "length bs"] False by simp
    then have "4 \<le> length fl" using less.prems(5) by simp
    then obtain m h q x fl0 where fl: "fl = m # h # q # x # fl0" by (auto simp: numeral_eq_Suc Suc_le_length_iff)
    have d: "?d \<noteq> []" "length ?d \<le> 1460" "?f = TH_ACK \<or> ?f = TH_ACK OR TH_PUSH" using False by simp_all
    obtain t sb where t: "tcp_send_packet (net_out (Suc (Suc n))) i ?f ?d s = Some (CHIMERA_SUCCESS, t)" "pool t (x # m # h # fl0)"
      "tables t = set_rcv b sb (moved i j (length ?d) (tables s))" "sbuf sb (qs @ [(q, ?d)]) t" "mem_frame ({m, h, q, x} \<union> fst ` set qs) s t"
      by (rule data_ok [OF less.prems(1,2) less.prems(4) [unfolded fl] less.prems(3,6) less.prems(7) [unfolded fl] d])
    note mt = moved_tables [OF t(3) less.prems(1,3)]
    have own: "fst ` set (qs @ [(q, ?d)]) \<inter> set (x # m # h # fl0) = {}" "fst ` set (qs @ [(q, ?d)]) \<union> set (x # m # h # fl0) = fst ` set qs \<union> set fl"
      using less.prems(7) pool_distinct [OF less.prems(4)] by (auto simp: fl)
    have l: "length (drop 1460 bs) < length bs" using False by simp
    have lg: "3 + segments (length (drop 1460 bs)) \<le> length (x # m # h # fl0)" using less.prems(5) by (simp add: g fl del: length_drop)
    obtain u sb' qs' fl' where u: "send_chunks (net_out (Suc (Suc n))) i (drop 1460 bs) t = Some (CHIMERA_SUCCESS, u)"
      "tables u = set_rcv b sb' (moved i j (length (drop 1460 bs)) (tables t))" "sbuf sb' qs' u" "payload qs' = payload (qs @ [(q, ?d)]) @ drop 1460 bs"
      "pool u fl'" "fst ` set qs' \<inter> set fl' = {}" "fst ` set qs' \<union> set fl' = fst ` set (qs @ [(q, ?d)]) \<union> set (x # m # h # fl0)"
      "mem_frame (fst ` set (qs @ [(q, ?d)]) \<union> set (x # m # h # fl0)) t u"
      using less.hyps [OF l mt(1) mt(2) [of j, unfolded less.prems(2)] mt(3) t(2) lg t(4) [folded mt(4)] own(1)] by (elim exE conjE)
    have "length ?d + length (drop 1460 bs) = length bs" by simp
    then have "tables u = set_rcv b sb' (moved i j (length bs) (tables s))"
      using u(2) t(3) moved_moved [of i j] less.prems(1) by (simp add: conn_def del: length_take length_drop)
    moreover have "send_chunks (net_out (Suc (Suc n))) i bs s = Some (CHIMERA_SUCCESS, u)" using False t(1) u(1) by (subst send_chunks.simps) simp
    moreover have "mem_frame (fst ` set qs \<union> set fl) s u" by (rule mem_frame_trans [OF t(5) u(8)]) (auto simp: fl)
    moreover have "payload qs' = payload qs @ bs" using u(4) by simp
    ultimately show ?thesis using u(3,5,6,7) own(2) by (intro exI [of _ u] exI [of _ sb'] exI [of _ qs'] exI [of _ fl'] conjI) simp_all
  qed
qed

end
