(* ===== verification/Tcp_Handshake.thy ===== *)
theory Tcp_Handshake
  imports Tcp_Stream
begin

text \<open>
  The three-way handshake over the loopback interface: a connect to a listening socket returns with both ends established and
  the new connection at the end of the accept queue.
\<close>

unbundle bit_operations_syntax

section \<open>Segments, by their effect on the tables\<close>

definition env_eq :: "net_state \<Rightarrow> net_state \<Rightarrow> bool" where
  "env_eq s t \<longleftrightarrow> n_ifnets t = n_ifnets s \<and> s_if_list t = s_if_list s \<and> g_e1000_present t = g_e1000_present s"

lemma env_eqI: "tables t = tables s \<Longrightarrow> env_eq s t"
  using tables_eqD(3,4,7) [of t s] by (simp add: env_eq_def)

lemma lo_if_env: "env_eq s t \<Longrightarrow> lo_if l s \<Longrightarrow> lo_if l t" by (simp add: env_eq_def lo_if_def)

lemma segment_loop:
  assumes "pool s (m # h # q # fl)" and "lo_if l s" and "tp_remote_ip (tp s i) = LO \<or> tp_local_ip (tp s i) = LO" "tp_local_ip (tp s i) \<noteq> 0"
  obtains t where "tcp_send_packet (net_out (Suc n)) i flags [] s = do { s \<leftarrow> tcp_dispatch (net_out n) q (tp s i) flags t; Some (CHIMERA_SUCCESS, s) }"
    "holds q [] t" "pool t (m # h # fl)" "s_tcp_pcbs t = (s_tcp_pcbs s)(i := snd_adv flags [] (tp s i))" "s_socket_pool t = s_socket_pool s"
    "s_iss_counter t = s_iss_counter s" "env_eq s t" "mem_frame {m, h, q} s t"
proof -
  obtain t where t: "tcp_send_packet (net_out (Suc n)) i flags [] s = do { s \<leftarrow> tcp_dispatch (net_out n) q (tp s i) flags t; Some (CHIMERA_SUCCESS, s) }"
    "holds q [] t" "pool t (m # h # fl)" "mem_frame {m, h, q} s t" "tables t = upd_tp i (snd_adv flags []) (tables s)"
    by (rule segment_arrives [OF assms, of "[]"]) simp
  have e: "tables t = tables (upd_tp i (snd_adv flags []) s)" using t(5) by simp
  note d = tables_eqD [OF e]
  show ?thesis using that [OF t(1,2,3) _ _ _ _ t(4)] d by (simp add: env_eq_def) (simp add: upd_tp_def)
qed

lemma free_mbuf:
  assumes "holds m bs s" and "pool s fl" and "m \<notin> set fl" and "m < MBUF_POOL_SIZE"
  obtains t where "m_freem (Some m) s = Some t" "pool t (m # fl)" "s_tcp_pcbs t = s_tcp_pcbs s" "s_socket_pool t = s_socket_pool s" "env_eq s t" "mem_frame {m} s t"
proof -
  obtain t where t: "m_freem (Some m) s = Some t" "pool t (m # fl)" "mem_frame {m} s t" "tables t = tables s" by (rule m_freem_single [OF assms])
  show ?thesis using that [OF t(1,2)] tables_eqD(1,2) [OF t(4)] env_eqI [OF t(4)] t(3) by blast
qed

section \<open>The queues of the listener\<close>

text \<open>The accept queue of the socket \<open>b\<close>.\<close>
definition acceptq :: "net_state \<Rightarrow> nat \<Rightarrow> nat list \<Rightarrow> bool" where
  "acceptq s b cs \<longleftrightarrow> chain (\<lambda>n. so_q (sock s n)) (so_q (sock s b)) cs \<and> b \<notin> set cs \<and> so_qlen (sock s b) = int (length cs)"

lemma so_q0_to_q_ok:
  assumes c: "so_head (sock s c) = Some b" "so_q0 (sock s b) = Some c" "c \<noteq> b" and q: "acceptq s b cs" "c \<notin> set cs"
  obtains t where "so_q0_to_q (Some c) s = Some t" "acceptq t b (cs @ [c])" "s_tcp_pcbs t = s_tcp_pcbs s" "env_eq s t"
    "\<And>n. n \<notin> set (b # c # cs) \<Longrightarrow> sock t n = sock s n" "\<And>n. so_pcb (sock t n) = so_pcb (sock s n)" "\<And>n. so_state (sock t n) = so_state (sock s n)"
    "\<And>n. so_rcv (sock t n) = so_rcv (sock s n)" "s_mbuf_pool t = s_mbuf_pool s" "s_cluster_pool t = s_cluster_pool s" "s_mbuf_freelist t = s_mbuf_freelist s"
proof -
  define u where "u = upd_so c (\<lambda>q. q\<lparr>so_q0 := None\<rparr>) (upd_so b (\<lambda>q. q\<lparr>so_q0 := so_q0 (sock s c)\<rparr>) s)"
  define l where "l = (if cs = [] then b else last cs)"
  define t where "t = upd_so b (\<lambda>q. q\<lparr>so_qlen := so_qlen q + 1\<rparr>) (upd_so c (\<lambda>q. q\<lparr>so_q := None\<rparr>) (upd_so l (\<lambda>q. q\<lparr>so_q := Some c\<rparr>) u))"
  have uq: "so_q (sock u n) = so_q (sock s n)" "so_head (sock u n) = so_head (sock s n)" for n by (simp_all add: u_def upd_so_def)
  have "q_append b c u = Some (upd_so l (\<lambda>q. q\<lparr>so_q := Some c\<rparr>) u)"
  proof (cases cs rule: rev_cases)
    case Nil
    then show ?thesis using q by (simp add: q_append_def uq acceptq_def l_def)
  next
    case (snoc ds d)
    then obtain f where f: "so_q (sock s b) = Some f" using q by (cases ds) (auto simp: acceptq_def)
    have "chain (\<lambda>n. so_q (sock u n)) (Some f) (ds @ [d])" using q(1) snoc f by (simp add: acceptq_def uq)
    then show ?thesis using last_link_ok [of "\<lambda>n. so_q (sock u n)" f ds d None] f snoc by (simp add: q_append_def uq l_def)
  qed
  moreover have "q0_unlink b c s = Some (True, upd_so b (\<lambda>q. q\<lparr>so_q0 := so_q0 (sock s c)\<rparr>) s)"
    using c(2) by (simp add: q0_unlink_def find_link.simps)
  ultimately have "so_q0_to_q (Some c) s = Some t" using c by (simp add: so_q0_to_q_def Let_def u_def t_def)
  moreover have "acceptq t b (cs @ [c])"
  proof (cases cs rule: rev_cases)
    case Nil
    then show ?thesis using q c(3) by (simp add: acceptq_def t_def l_def upd_so_def u_def)
  next
    case (snoc ds d)
    have dd: "d \<notin> set ds" "b \<notin> set cs" using q(1) chain_distinct [of _ _ cs] snoc by (auto simp: acceptq_def)
    have sg: "seg (\<lambda>n. so_q (sock t n)) r ds e = seg (\<lambda>n. so_q (sock s n)) r ds e" for r e
      using dd q(2) snoc by (intro seg_cong) (auto simp: t_def l_def u_def upd_so_def)
    have v: "so_q (sock t b) = so_q (sock s b)" "so_q (sock t d) = Some c" "so_q (sock t c) = None" "so_qlen (sock t b) = so_qlen (sock s b) + 1"
      using dd q(2) snoc c(3) by (auto simp: t_def l_def u_def upd_so_def)
    show ?thesis using q c(3) snoc unfolding acceptq_def by (auto simp: seg_append sg v)
  qed
  moreover have "l \<in> set (b # c # cs)" by (simp add: l_def)
  ultimately show ?thesis by (intro that [of t]) (auto simp: t_def u_def upd_so_def env_eq_def)
qed

section \<open>The last segment\<close>

text \<open>What the search for a control block looks at.\<close>
definition pkey :: "tcp_pcb \<Rightarrow> nat option \<times> bool \<times> u32 \<times> u16 \<times> u32 \<times> u16 \<times> bool" where
  "pkey p = (tp_so p, tp_bound p, tp_local_ip p, tp_local_port p, tp_remote_ip p, tp_remote_port p, tp_state p = TCPS_LISTEN)"

definition routes :: "net_state \<Rightarrow> nat \<Rightarrow> nat \<Rightarrow> bool" where
  "routes s i j \<longleftrightarrow> find (\<lambda>k. tcp_exact (tp_remote_port (tp s i)) (tp_local_port (tp s i)) (tp_local_ip (tp s i)) (tp s k)) [0..<TCP_MAX_SOCKETS] = Some j"

lemma reaches_routes:
  "reaches s i j \<longleftrightarrow> routes s i j \<and> tp_state (tp s j) = TCPS_ESTABLISHED \<and> tp_rcv_nxt (tp s j) = tp_snd_nxt (tp s i) \<and>
     tp_local_ip (tp s i) \<noteq> 0 \<and> (tp_remote_ip (tp s i) = LO \<or> tp_local_ip (tp s i) = LO)"
  by (simp only: reaches_def routes_def)

lemma routes_cong: "(\<And>k. pkey (tp t k) = pkey (tp s k)) \<Longrightarrow> routes t i j = routes s i j"
proof -
  assume a: "pkey (tp t k) = pkey (tp s k)" for k
  have "tcp_exact x y z (tp t k) = tcp_exact x y z (tp s k)" for x y z k using a [of k] by (auto simp: pkey_def tcp_exact_def)
  moreover have "tp_remote_port (tp t i) = tp_remote_port (tp s i)" "tp_local_port (tp t i) = tp_local_port (tp s i)" "tp_local_ip (tp t i) = tp_local_ip (tp s i)"
    using a [of i] by (simp_all add: pkey_def)
  ultimately show ?thesis by (simp add: routes_def)
qed

lemma routes_demux: "routes s i j \<Longrightarrow> tcp_demux (tp_remote_port (tp s i)) (tp_local_port (tp s i)) (tp_local_ip (tp s i)) flags s = Some j"
  by (simp add: routes_def tcp_demux_def)

abbreviation over_lo :: "net_state \<Rightarrow> nat \<Rightarrow> bool" where
  "over_lo s i \<equiv> (tp_remote_ip (tp s i) = LO \<or> tp_local_ip (tp s i) = LO) \<and> tp_local_ip (tp s i) \<noteq> 0"

abbreviation qheld :: "net_state \<Rightarrow> nat \<Rightarrow> nat \<Rightarrow> nat list \<Rightarrow> bool" where
  "qheld s b c cs \<equiv> so_head (sock s c) = Some b \<and> so_q0 (sock s b) = Some c \<and> c \<noteq> b \<and> acceptq s b cs \<and> c \<notin> set cs"

text \<open>The sockets other than those of the queues keep everything, all sockets their control block, state and data.\<close>
definition socks_kept :: "nat set \<Rightarrow> net_state \<Rightarrow> net_state \<Rightarrow> bool" where
  "socks_kept B s t \<longleftrightarrow> (\<forall>n. n \<notin> B \<longrightarrow> sock t n = sock s n) \<and>
     (\<forall>n. so_pcb (sock t n) = so_pcb (sock s n) \<and> so_state (sock t n) = so_state (sock s n) \<and> so_rcv (sock t n) = so_rcv (sock s n))"

lemma socks_kept_eq: "s_socket_pool t = s_socket_pool s \<Longrightarrow> socks_kept B s t" by (simp add: socks_kept_def)

lemma acceptq_cong: "s_socket_pool t = s_socket_pool s \<Longrightarrow> acceptq t b cs = acceptq s b cs" by (simp add: acceptq_def)

lemma last_ack:
  assumes p: "pool s (m # h # q # fl)" and lo: "lo_if l s" "over_lo s i" and r: "routes s i k"
    and k: "tp_state (tp s k) = TCPS_SYN_RECEIVED" "tp_so (tp s k) = Some c" "tp_snd_nxt (tp s k) = tp_rcv_nxt (tp s i)" and b: "qheld s b c cs"
  obtains t where "tcp_send_packet (net_out (Suc n)) i TH_ACK [] s = Some (CHIMERA_SUCCESS, t)" "pool t (q # m # h # fl)" "mem_frame {m, h, q} s t"
    "s_tcp_pcbs t = (s_tcp_pcbs s)(k := (tp s k)\<lparr>tp_state := TCPS_ESTABLISHED\<rparr>)" "acceptq t b (cs @ [c])" "socks_kept (set (b # c # cs)) s t" "env_eq s t"
proof -
  have z: "snd_adv TH_ACK [] = (\<lambda>p. p)" by (simp add: snd_adv_def fun_eq_iff TH_ACK_def TH_SYN_def TH_FIN_def)
  obtain t where t: "tcp_send_packet (net_out (Suc n)) i TH_ACK [] s = do { s \<leftarrow> tcp_dispatch (net_out n) q (tp s i) TH_ACK t; Some (CHIMERA_SUCCESS, s) }"
    "holds q [] t" "pool t (m # h # fl)" "s_tcp_pcbs t = (s_tcp_pcbs s)(i := snd_adv TH_ACK [] (tp s i))" "s_socket_pool t = s_socket_pool s"
    "s_iss_counter t = s_iss_counter s" "env_eq s t" "mem_frame {m, h, q} s t"
    by (rule segment_loop [OF p lo(1) conjunct1 [OF lo(2)] conjunct2 [OF lo(2)]])
  have tpt: "s_tcp_pcbs t = s_tcp_pcbs s" using t(4) by (simp add: z)
  let ?u = "upd_tp k (\<lambda>p. p\<lparr>tp_state := TCPS_ESTABLISHED\<rparr>) t"
  have bu: "qheld ?u b c cs" using b t(5) acceptq_cong [of ?u s] by simp
  obtain v where v: "so_q0_to_q (Some c) ?u = Some v" "acceptq v b (cs @ [c])" "s_tcp_pcbs v = s_tcp_pcbs ?u" "env_eq ?u v"
    "\<And>n. n \<notin> set (b # c # cs) \<Longrightarrow> sock v n = sock ?u n" "\<And>n. so_pcb (sock v n) = so_pcb (sock ?u n)" "\<And>n. so_state (sock v n) = so_state (sock ?u n)"
    "\<And>n. so_rcv (sock v n) = so_rcv (sock ?u n)" "s_mbuf_pool v = s_mbuf_pool ?u" "s_cluster_pool v = s_cluster_pool ?u" "s_mbuf_freelist v = s_mbuf_freelist ?u"
    by (rule so_q0_to_q_ok [of ?u c b cs]) (use bu in simp_all)
  have mv: "mem_frame {} t v" using v(9,10) by (simp add: mem_frame_def upd_tp_def)
  have q: "q \<notin> set (m # h # fl)" "q < MBUF_POOL_SIZE" using pool_distinct [OF p] p by (auto simp: pool_def)
  have hv: "holds q [] v" using holds_frame [OF mv] t(2) by simp
  have pv: "pool v (m # h # fl)" by (rule pool_frame [OF t(3)]) (use v(9-11) in \<open>simp_all add: upd_tp_def\<close>)
  obtain w where w: "m_freem (Some q) v = Some w" "pool w (q # m # h # fl)" "s_tcp_pcbs w = s_tcp_pcbs v" "s_socket_pool w = s_socket_pool v" "env_eq v w" "mem_frame {q} v w"
    by (rule free_mbuf [OF hv pv q])
  have rt: "tcp_demux (tp_remote_port (tp s i)) (tp_local_port (tp s i)) (tp_local_ip (tp s i)) TH_ACK t = Some k"
    using routes_demux [of t i k TH_ACK] routes_cong [of t s] r tpt by simp
  have "m_len (mb v q) = 0" using hv by (simp add: holds_def)
  then have "tcp_dispatch (net_out n) q (tp s i) TH_ACK t = Some w"
    unfolding tcp_dispatch_def rt using v(1) w(1) k
    by (simp add: tcp_transition_def Let_def tpt tcp_syn_received_def TH_ACK_def)
  moreover have "mem_frame {m, h, q} s v" by (rule mem_frame_trans [OF t(8) mv]) auto
  then have "mem_frame {m, h, q} s w" by (rule mem_frame_trans [OF _ w(6)]) auto
  moreover have "env_eq s w" using t(7) v(4) w(5) by (simp add: env_eq_def)
  moreover have "socks_kept (set (b # c # cs)) s w" using v(5-8) t(5) w(4) by (simp add: socks_kept_def)
  ultimately show ?thesis using that t(1) w(2-4) v(2,3) acceptq_cong [of w v] tpt by (simp add: upd_tp_def)
qed

section \<open>The answer of the listener\<close>

abbreviation active :: "tcp_pcb \<Rightarrow> u32 \<Rightarrow> u32 \<Rightarrow> tcp_pcb" where
  "active p seq ack \<equiv> p\<lparr>tp_irs := seq, tp_rcv_nxt := seq + 1, tp_snd_una := ack, tp_state := TCPS_ESTABLISHED\<rparr>"

lemma syn_ack:
  assumes p: "pool s (m # h # q # x # fl)" and lo: "lo_if l s" "over_lo s k" "over_lo s i" and r: "routes s k i" "routes s i k" "i \<noteq> k"
    and k: "tp_state (tp s k) = TCPS_SYN_RECEIVED" "tp_so (tp s k) = Some c" and i: "tp_state (tp s i) = TCPS_SYN_SENT" and b: "qheld s b c cs"
  obtains t where "tcp_send_packet (net_out (Suc (Suc n))) k (TH_SYN OR TH_ACK) [] s = Some (CHIMERA_SUCCESS, t)"
    "pool t (q # x # m # h # fl)" "mem_frame {m, h, q, x} s t"
    "s_tcp_pcbs t = (s_tcp_pcbs s)(k := (tp s k)\<lparr>tp_snd_nxt := tp_snd_nxt (tp s k) + 1, tp_state := TCPS_ESTABLISHED\<rparr>,
       i := active (tp s i) (tp_snd_nxt (tp s k)) (tp_rcv_nxt (tp s k)))"
    "acceptq t b (cs @ [c])" "socks_kept (set (b # c # cs)) s t" "env_eq s t"
proof -
  let ?F = "TH_SYN OR TH_ACK"
  have z: "snd_adv ?F [] = (\<lambda>p. p\<lparr>tp_snd_nxt := tp_snd_nxt p + 1\<rparr>)" by (simp add: snd_adv_def fun_eq_iff TH_ACK_def TH_SYN_def TH_FIN_def)
  obtain t where t: "tcp_send_packet (net_out (Suc (Suc n))) k ?F [] s = do { s \<leftarrow> tcp_dispatch (net_out (Suc n)) q (tp s k) ?F t; Some (CHIMERA_SUCCESS, s) }"
    "holds q [] t" "pool t (m # h # x # fl)" "s_tcp_pcbs t = (s_tcp_pcbs s)(k := snd_adv ?F [] (tp s k))" "s_socket_pool t = s_socket_pool s"
    "s_iss_counter t = s_iss_counter s" "env_eq s t" "mem_frame {m, h, q} s t"
    by (rule segment_loop [OF p lo(1) conjunct1 [OF lo(2)] conjunct2 [OF lo(2)]])
  let ?u = "upd_tp i (\<lambda>p. active p (tp_snd_nxt (tp s k)) (tp_rcv_nxt (tp s k))) t"
  have tpu: "s_tcp_pcbs ?u = (s_tcp_pcbs s)(k := (tp s k)\<lparr>tp_snd_nxt := tp_snd_nxt (tp s k) + 1\<rparr>, i := active (tp s i) (tp_snd_nxt (tp s k)) (tp_rcv_nxt (tp s k)))"
    using r(3) by (simp add: upd_tp_def t(4) z)
  have key: "pkey (tp t j) = pkey (tp s j)" "pkey (tp ?u j) = pkey (tp s j)" for j
    unfolding tpu using i by (simp_all add: pkey_def t(4) z)
  have rt: "tcp_demux (tp_remote_port (tp s k)) (tp_local_port (tp s k)) (tp_local_ip (tp s k)) ?F t = Some i"
    using routes_demux [of t k i ?F] routes_cong [OF key(1)] r(1) by (simp add: t(4) z)
  have pu: "pool ?u (m # h # x # fl)" and lu: "lo_if l ?u" and ou: "over_lo ?u i" and ru: "routes ?u i k" and bu: "qheld ?u b c cs"
    using t(3) lo_if_env [OF t(7) lo(1)] lo(3) routes_cong [OF key(2)] r b t(5) acceptq_cong [of ?u s] by (simp_all add: lo_if_def tpu)
  obtain v where v: "tcp_send_packet (net_out (Suc n)) i TH_ACK [] ?u = Some (CHIMERA_SUCCESS, v)" "pool v (x # m # h # fl)" "mem_frame {m, h, x} ?u v"
    "s_tcp_pcbs v = (s_tcp_pcbs ?u)(k := (tp ?u k)\<lparr>tp_state := TCPS_ESTABLISHED\<rparr>)" "acceptq v b (cs @ [c])" "socks_kept (set (b # c # cs)) ?u v" "env_eq ?u v"
    by (rule last_ack [OF pu lu ou ru _ _ _ bu]) (use k r(3) in \<open>simp_all add: tpu\<close>)
  have q: "q \<notin> set (x # m # h # fl)" "q < MBUF_POOL_SIZE" using pool_distinct [OF p] p by (auto simp: pool_def)
  have hv: "holds q [] v" using holds_frame [OF v(3), of q] t(2) q by simp
  obtain w where w: "m_freem (Some q) v = Some w" "pool w (q # x # m # h # fl)" "s_tcp_pcbs w = s_tcp_pcbs v" "s_socket_pool w = s_socket_pool v" "env_eq v w" "mem_frame {q} v w"
    by (rule free_mbuf [OF hv v(2) q])
  have ti: "tp_state (tp t i) = TCPS_SYN_SENT" using i r(3) by (simp add: t(4))
  have "tcp_dispatch (net_out (Suc n)) q (tp s k) ?F t = Some w"
    unfolding tcp_dispatch_def rt using v(1) w(1) by (simp add: tcp_transition_def Let_def ti TH_ACK_def TH_SYN_def)
  moreover have "mem_frame {m, h, q, x} s v" by (rule mem_frame_trans [OF t(8), of "{m, h, x}"]) (use v(3) in auto)
  then have "mem_frame {m, h, q, x} s w" by (rule mem_frame_trans [OF _ w(6)]) auto
  moreover have "env_eq s w" using t(7) v(7) w(5) by (simp add: env_eq_def)
  moreover have "socks_kept (set (b # c # cs)) s w" using v(6) t(5) w(4) by (simp add: socks_kept_def)
  moreover have "s_tcp_pcbs w = (s_tcp_pcbs s)(k := (tp s k)\<lparr>tp_snd_nxt := tp_snd_nxt (tp s k) + 1, tp_state := TCPS_ESTABLISHED\<rparr>,
       i := active (tp s i) (tp_snd_nxt (tp s k)) (tp_rcv_nxt (tp s k)))" using w(3) v(4) r(3) by (simp only: tpu) (auto simp: fun_upd_twist)
  ultimately show ?thesis using that t(1) w(2,4) v(5) acceptq_cong [of w v] by simp
qed

section \<open>The first segment\<close>

text \<open>The child's control block and socket.\<close>
definition child_pcb :: "nat \<Rightarrow> u32 \<Rightarrow> u16 \<Rightarrow> u32 \<Rightarrow> u16 \<Rightarrow> u32 \<Rightarrow> u32 \<Rightarrow> tcp_pcb" where
  "child_pcb c lip port rip rport iss irs = \<lparr>tp_so = Some c, tp_state = TCPS_SYN_RECEIVED, tp_local_ip = lip, tp_local_port = port, tp_remote_ip = rip,
     tp_remote_port = rport, tp_iss = iss, tp_snd_una = iss, tp_snd_nxt = iss, tp_snd_wnd = 65535, tp_irs = irs, tp_rcv_nxt = irs + 1,
     tp_rcv_wnd = 65535, tp_bound = True\<rparr>"

definition child_socks :: "nat \<Rightarrow> nat \<Rightarrow> nat \<Rightarrow> (nat \<Rightarrow> socket) \<Rightarrow> nat \<Rightarrow> socket" where
  "child_socks b c k so = so(c := (fresh_socket (so_type (so b)) (Some b))\<lparr>so_q0 := so_q0 (so b), so_pcb := Some (TCP_PCB k), so_state := SS_ISCONNECTED\<rparr>,
     b := (so b)\<lparr>so_q0 := Some c\<rparr>)"

lemma tcp_alloc_child_ok:
  assumes "free_socket_slot s = Some c" and "free_tcp_pcb s = Some k" and "c \<noteq> b"
  obtains t where "tcp_alloc_child L b lip rip rport irs s = Some (Some k, t)"
    "s_tcp_pcbs t = (s_tcp_pcbs s)(k := child_pcb c lip (tp_local_port (tp s L)) rip rport (s_iss_counter s + 64000) irs)"
    "s_socket_pool t = child_socks b c k (s_socket_pool s)" "env_eq s t" "mem_frame {} s t" "\<forall>fl. pool s fl \<longrightarrow> pool t fl"
proof -
  define u where "u = upd_so b (\<lambda>q. q\<lparr>so_q0 := Some c\<rparr>) (upd_so c (\<lambda>q. q\<lparr>so_q0 := so_q0 (sock s b)\<rparr>) (upd_so c (\<lambda>_. fresh_socket (so_type (sock s b)) (Some b)) s))"
  have f: "free_tcp_pcb u = Some k" "s_tcp_pcbs u = s_tcp_pcbs s" "s_iss_counter u = s_iss_counter s" using assms(2) by (simp_all add: free_tcp_pcb_def u_def)
  have n: "tcp_child_socket (Some b) s = (Some c, u)" using assms(1,3) by (simp add: tcp_child_socket_def so_new_child_def u_def Let_def) (simp add: upd_so_def)
  define t where "t = upd_so c (\<lambda>q. q\<lparr>so_pcb := Some (TCP_PCB k), so_state := so_state q OR SS_ISCONNECTED\<rparr>)
    (upd_tp k (\<lambda>_. child_pcb c lip (tp_local_port (tp s L)) rip rport (s_iss_counter s + 64000) irs) (u\<lparr>s_iss_counter := s_iss_counter s + 64000\<rparr>))"
  have "tcp_alloc_child L b lip rip rport irs s = Some (Some k, t)"
    unfolding tcp_alloc_child_def by (simp add: n f Let_def child_pcb_def t_def)
  moreover have "s_socket_pool t = child_socks b c k (s_socket_pool s)"
    using assms(3) by (auto simp: t_def u_def child_socks_def upd_so_def upd_tp_def fresh_socket_def)
  moreover have "mem_frame {} s t" by (simp add: t_def u_def mem_frame_def upd_so_def upd_tp_def)
  moreover have "\<forall>fl. pool s fl \<longrightarrow> pool t fl" by (intro allI impI, erule pool_frame) (simp_all add: t_def u_def upd_so_def upd_tp_def)
  moreover have "env_eq s t" by (simp add: env_eq_def t_def u_def)
  moreover have "s_tcp_pcbs t = (s_tcp_pcbs s)(k := child_pcb c lip (tp_local_port (tp s L)) rip rport (s_iss_counter s + 64000) irs)"
    by (simp add: t_def) (simp add: u_def upd_tp_def upd_so_def)
  ultimately show ?thesis by (intro that)
qed

lemma find_unique: "i < n \<Longrightarrow> (\<And>j. j < n \<Longrightarrow> Q j \<longleftrightarrow> j = i) \<Longrightarrow> find Q [0..<n] = Some i"
  by (auto simp: find_Some_iff intro!: exI [of _ i])

text \<open>The listener of a port, with room in its queue.\<close>
definition listening :: "net_state \<Rightarrow> u16 \<Rightarrow> nat \<Rightarrow> nat \<Rightarrow> bool" where
  "listening s port L b \<longleftrightarrow> find (\<lambda>k. tcp_listener port (tp s k)) [0..<TCP_MAX_SOCKETS] = Some L \<and> tp_so (tp s L) = Some b \<and>
     so_qlen (sock s b) < so_qlimit (sock s b)"

text \<open>The port of \<open>i\<close> is its own, and there is no connection from it to \<open>port\<close> yet.\<close>
definition fresh_tuple :: "net_state \<Rightarrow> nat \<Rightarrow> u16 \<Rightarrow> bool" where
  "fresh_tuple s i port \<longleftrightarrow> (\<forall>k<TCP_MAX_SOCKETS. k \<noteq> i \<longrightarrow> tp_so (tp s k) \<noteq> None \<longrightarrow> tp_bound (tp s k) \<longrightarrow>
     tp_local_port (tp s k) \<noteq> tp_local_port (tp s i) \<and> \<not> tcp_exact port (tp_local_port (tp s i)) (tp_local_ip (tp s i)) (tp s k))"

text \<open>Where the segments of the two ends go once the child exists.\<close>
lemma child_routes:
  assumes i: "i < TCP_MAX_SOCKETS" "tp_so (tp s i) \<noteq> None" "tp_bound (tp s i)" "tp_state (tp s i) = TCPS_SYN_SENT" "tp_remote_ip (tp s i) = LO" "tp_remote_port (tp s i) = port"
    and f: "fresh_tuple s i port" "tp_local_port (tp s i) \<noteq> port" and k: "k < TCP_MAX_SOCKETS" "k \<noteq> i"
    and t: "s_tcp_pcbs t = (s_tcp_pcbs s)(i := snd_adv fg dat (tp s i), k := child_pcb c LO port (tp_local_ip (tp s i)) (tp_local_port (tp s i)) iss irs)"
  shows "routes t k i" "routes t i k"
proof -
  have x: "\<not> tcp_exact port (tp_local_port (tp s i)) (tp_local_ip (tp s i)) (tp s j)" "tp_so (tp s j) \<noteq> None \<Longrightarrow> tp_bound (tp s j) \<Longrightarrow> tp_local_port (tp s j) \<noteq> tp_local_port (tp s i)"
    if "j < TCP_MAX_SOCKETS" "j \<noteq> i" for j using f(1) that by (auto simp: fresh_tuple_def tcp_exact_def)
  show "routes t k i" unfolding routes_def t using k i f(2)
    by (intro find_unique) (auto simp: child_pcb_def tcp_exact_def dest: x(2))
  show "routes t i k" unfolding routes_def t using k i f(2)
    by (intro find_unique) (auto simp: child_pcb_def dest: x(1), auto simp: tcp_exact_def)
qed

lemma syn_demux:
  assumes "listening s port L b" and "fresh_tuple s i port" and "L \<noteq> i" and i: "tp_state (tp s i) = TCPS_SYN_SENT"
    and t: "s_tcp_pcbs t = (s_tcp_pcbs s)(i := snd_adv fg dat (tp s i))"
  shows "tcp_demux port (tp_local_port (tp s i)) (tp_local_ip (tp s i)) TH_SYN t = Some L" "tp_local_port (tp s i) \<noteq> port" "tp_state (tp s L) = TCPS_LISTEN" "tp_local_port (tp s L) = port"
proof -
  have L: "L < TCP_MAX_SOCKETS" "tcp_listener port (tp s L)" "\<And>j. j < L \<Longrightarrow> \<not> tcp_listener port (tp s j)"
    using assms(1) by (auto simp: listening_def find_Some_iff)
  then show ne: "tp_local_port (tp s i) \<noteq> port" using assms(2,3) by (auto simp: fresh_tuple_def tcp_listener_def)
  show "tp_state (tp s L) = TCPS_LISTEN" "tp_local_port (tp s L) = port" using L(2) by (simp_all add: tcp_listener_def)
  have "\<not> tcp_exact port (tp_local_port (tp s i)) (tp_local_ip (tp s i)) (tp t j)" if "j < TCP_MAX_SOCKETS" for j
    using assms(2) that ne by (auto simp: t fresh_tuple_def tcp_exact_def)
  then have "find (\<lambda>j. tcp_exact port (tp_local_port (tp s i)) (tp_local_ip (tp s i)) (tp t j)) [0..<TCP_MAX_SOCKETS] = None" by (simp add: find_None_iff)
  moreover have "tcp_listener port (tp t j) = tcp_listener port (tp s j)" for j using i by (simp add: t tcp_listener_def)
  then have "find (\<lambda>j. tcp_listener port (tp t j)) [0..<TCP_MAX_SOCKETS] = Some L" using assms(1) by (simp add: listening_def)
  ultimately show "tcp_demux port (tp_local_port (tp s i)) (tp_local_ip (tp s i)) TH_SYN t = Some L" by (simp add: tcp_demux_def TH_SYN_def TH_ACK_def)
qed

lemma syn_ok:
  assumes p: "pool s (m # h # q # x # y # fl)" and lo: "lo_if l s"
    and i: "i < TCP_MAX_SOCKETS" "tp_so (tp s i) \<noteq> None" "tp_bound (tp s i)" "tp_state (tp s i) = TCPS_SYN_SENT" "tp_remote_ip (tp s i) = LO" "tp_remote_port (tp s i) = port"
      "tp_local_ip (tp s i) \<noteq> 0"
    and L: "listening s port L b" "fresh_tuple s i port" "L \<noteq> i"
    and free: "free_socket_slot s = Some c" "free_tcp_pcb s = Some k" and q: "acceptq s b cs" "c \<notin> set (b # cs)"
  obtains t where "tcp_send_packet (net_out (Suc (Suc (Suc n)))) i TH_SYN [] s = Some (CHIMERA_SUCCESS, t)" "pool t (q # x # y # m # h # fl)"
    "conn t i k" "tp_so (tp t k) = Some c" "\<forall>j. j \<noteq> i \<longrightarrow> j \<noteq> k \<longrightarrow> tp t j = tp s j" "acceptq t b (cs @ [c])"
    "so_pcb (sock t c) = Some (TCP_PCB k)" "so_state (sock t c) = SS_ISCONNECTED" "\<forall>j. j \<notin> set (b # c # cs) \<longrightarrow> sock t j = sock s j" "env_eq s t"
proof -
  have oi: "tp_remote_ip (tp s i) = LO \<or> tp_local_ip (tp s i) = LO" using i by simp
  obtain t where t: "tcp_send_packet (net_out (Suc (Suc (Suc n)))) i TH_SYN [] s = do { s \<leftarrow> tcp_dispatch (net_out (Suc (Suc n))) q (tp s i) TH_SYN t; Some (CHIMERA_SUCCESS, s) }"
    "holds q [] t" "pool t (m # h # x # y # fl)" "s_tcp_pcbs t = (s_tcp_pcbs s)(i := snd_adv TH_SYN [] (tp s i))" "s_socket_pool t = s_socket_pool s"
    "s_iss_counter t = s_iss_counter s" "env_eq s t" "mem_frame {m, h, q} s t"
    by (rule segment_loop [OF p lo oi i(7)])
  note d = syn_demux [OF L i(4) t(4)]
  have ks: "k < TCP_MAX_SOCKETS" "tp_so (tp s k) = None" using free(2) by (auto simp: free_tcp_pcb_def find_Some_iff)
  have ki: "k \<noteq> i" "L \<noteq> i" using ks i L(3) by auto
  have "tp_so (tp t j) = tp_so (tp s j)" for j by (simp add: t(4))
  then have ft: "free_socket_slot t = Some c" "free_tcp_pcb t = Some k" "c \<noteq> b" using free q(2) by (simp_all add: free_socket_slot_def free_tcp_pcb_def t(5))
  let ?seq = "tp_snd_nxt (tp s i)" and ?lip = "tp_local_ip (tp s i)" and ?port = "tp_local_port (tp s i)"
  obtain u where u: "tcp_alloc_child L b LO ?lip ?port ?seq t = Some (Some k, u)"
    "s_tcp_pcbs u = (s_tcp_pcbs t)(k := child_pcb c LO (tp_local_port (tp t L)) ?lip ?port (s_iss_counter t + 64000) ?seq)"
    "s_socket_pool u = child_socks b c k (s_socket_pool t)" "env_eq t u" "mem_frame {} t u" "\<forall>fl. pool t fl \<longrightarrow> pool u fl"
    by (rule tcp_alloc_child_ok [OF ft])
  have tpu: "s_tcp_pcbs u = (s_tcp_pcbs s)(i := snd_adv TH_SYN [] (tp s i), k := child_pcb c LO port ?lip ?port (s_iss_counter t + 64000) ?seq)"
    using u(2) t(4) d(4) ki by simp
  note r = child_routes [OF i(1-6) L(2) d(2) ks(1) ki(1) tpu]
  have au: "acceptq u b cs"
  proof -
    have "chain (\<lambda>n. so_q (sock u n)) (so_q (sock s b)) cs = chain (\<lambda>n. so_q (sock s n)) (so_q (sock s b)) cs"
      using q by (intro seg_cong) (auto simp: u(3) t(5) child_socks_def acceptq_def)
    then show ?thesis using q ft(3) by (auto simp: acceptq_def u(3) t(5) child_socks_def)
  qed
  have bu: "qheld u b c cs" using au ft(3) q(2) by (simp add: u(3) child_socks_def fresh_socket_def)
  have lu: "lo_if l u" using lo_if_env [OF u(4) lo_if_env [OF t(7) lo]] .
  obtain v where v: "tcp_send_packet (net_out (Suc (Suc n))) k (TH_SYN OR TH_ACK) [] u = Some (CHIMERA_SUCCESS, v)"
    "pool v (x # y # m # h # fl)" "mem_frame {m, h, x, y} u v"
    "s_tcp_pcbs v = (s_tcp_pcbs u)(k := (tp u k)\<lparr>tp_snd_nxt := tp_snd_nxt (tp u k) + 1, tp_state := TCPS_ESTABLISHED\<rparr>,
       i := active (tp u i) (tp_snd_nxt (tp u k)) (tp_rcv_nxt (tp u k)))"
    "acceptq v b (cs @ [c])" "socks_kept (set (b # c # cs)) u v" "env_eq u v"
    by (rule syn_ack [OF u(6) [rule_format, OF t(3)] lu _ _ r ki(1) [symmetric] _ _ _ bu]) (use i ki LO_nonzero in \<open>simp_all add: tpu child_pcb_def\<close>)
  have qq: "q \<notin> set (x # y # m # h # fl)" "q < MBUF_POOL_SIZE" "q \<notin> {m, h, x, y}" using pool_distinct [OF p] p by (auto simp: pool_def)
  have hv: "holds q [] v" using holds_frame [OF v(3) qq(3)] holds_frame [OF u(5), of q] t(2) by simp
  obtain w where w: "m_freem (Some q) v = Some w" "pool w (q # x # y # m # h # fl)" "s_tcp_pcbs w = s_tcp_pcbs v" "s_socket_pool w = s_socket_pool v" "env_eq v w" "mem_frame {q} v w"
    by (rule free_mbuf [OF hv v(2) qq(1,2)])
  have tpw: "s_tcp_pcbs w = (s_tcp_pcbs u)(k := (tp u k)\<lparr>tp_snd_nxt := tp_snd_nxt (tp u k) + 1, tp_state := TCPS_ESTABLISHED\<rparr>,
       i := active (tp u i) (tp_snd_nxt (tp u k)) (tp_rcv_nxt (tp u k)))" using w(3) v(4) by simp
  have key: "pkey (tp w j) = pkey (tp u j)" for j using i ki by (simp add: tpw tpu pkey_def child_pcb_def)
  have sn: "tp_snd_nxt (snd_adv TH_SYN [] (tp s i)) = ?seq + 1" by (simp add: snd_adv_def TH_SYN_def TH_FIN_def)
  have "routes w i k" "routes w k i" using routes_cong [OF key] r by simp_all
  moreover have "tp_state (tp w k) = TCPS_ESTABLISHED" "tp_state (tp w i) = TCPS_ESTABLISHED" "tp_rcv_nxt (tp w k) = tp_snd_nxt (tp w i)"
    "tp_rcv_nxt (tp w i) = tp_snd_nxt (tp w k)" "over_lo w i" "over_lo w k"
    using i(5,7) ki LO_nonzero by (simp_all add: tpw tpu child_pcb_def sn)
  ultimately have "conn w i k" using ki by (simp add: conn_def reaches_routes)
  moreover have "tp t L = tp s L" "tp_so (tp s L) = Some b" "so_qlen (sock s b) < so_qlimit (sock s b)" using t(4) L by (simp_all add: listening_def)
  then have "tcp_dispatch (net_out (Suc (Suc n))) q (tp s i) TH_SYN t = Some w"
    unfolding tcp_dispatch_def i(5,6) d(1) using v(1) w(1)
    by (simp add: tcp_transition_def Let_def d(3) TH_SYN_def TH_ACK_def tcp_passive_open_def t(5) u(1))
  moreover have "env_eq s w" using t(7) u(4) v(7) w(5) by (simp add: env_eq_def)
  moreover have "so_pcb (sock w c) = Some (TCP_PCB k)" "so_state (sock w c) = SS_ISCONNECTED" "\<forall>j. j \<notin> set (b # c # cs) \<longrightarrow> sock w j = sock s j"
    using v(6) ft(3) by (simp_all add: w(4) socks_kept_def u(3) child_socks_def t(5))
  moreover have "tp_so (tp w k) = Some c" "\<forall>j. j \<noteq> i \<longrightarrow> j \<noteq> k \<longrightarrow> tp w j = tp s j" using ki by (simp_all add: tpw tpu child_pcb_def)
  ultimately show ?thesis using that t(1) w(2,4) v(5) acceptq_cong [of w v] by simp
qed

end
