(* ===== verification/Udp_Props.thy ===== *)
theory Udp_Props
  imports Net_Loop
begin

text \<open>
  Datagrams: every port leads to at most one socket, whatever sequence of sockets is created, bound and closed, and a datagram sent
  over the loopback interface arrives as one packet at the socket of its port.
\<close>

unbundle bit_operations_syntax

abbreviation up :: "net_state \<Rightarrow> nat \<Rightarrow> udp_pcb" where "up s i \<equiv> s_udp_pcbs s i"

section \<open>Ports\<close>

definition up_on :: "udp_pcb \<Rightarrow> u16 \<Rightarrow> bool" where "up_on p port \<longleftrightarrow> up_so p \<noteq> None \<and> up_bound p \<and> up_local_port p = port"

text \<open>No two bound control blocks share a port, and a socket's control block points back to it.\<close>
definition udp_ok :: "net_state \<Rightarrow> bool" where
  "udp_ok s \<longleftrightarrow> (\<forall>i<UDP_MAX_SOCKETS. \<forall>j<UDP_MAX_SOCKETS. \<forall>port. up_on (up s i) port \<longrightarrow> up_on (up s j) port \<longrightarrow> i = j) \<and>
     (\<forall>so i. so_pcb (sock s so) = Some (UDP_PCB i) \<longrightarrow> i < UDP_MAX_SOCKETS \<and> up_so (up s i) = Some so)"

lemma udp_target_eq: "udp_target port s = (case find (\<lambda>i. up_on (up s i) port) [0..<UDP_MAX_SOCKETS] of Some i \<Rightarrow> up_so (up s i) | None \<Rightarrow> None)"
  by (simp add: udp_target_def up_on_def)

lemma udp_target_cong: "s_udp_pcbs t = s_udp_pcbs s \<Longrightarrow> udp_target port t = udp_target port s" by (simp only: udp_target_def)

lemma udp_target_unique:
  assumes "udp_ok s" and "i < UDP_MAX_SOCKETS" and "up_on (up s i) port"
  shows "udp_target port s = up_so (up s i)"
proof -
  have "\<exists>j. find (\<lambda>i. up_on (up s i) port) [0..<UDP_MAX_SOCKETS] = Some j"
    using assms(2,3) by (cases "find (\<lambda>i. up_on (up s i) port) [0..<UDP_MAX_SOCKETS]") (auto simp: find_None_iff)
  then obtain j where j: "find (\<lambda>i. up_on (up s i) port) [0..<UDP_MAX_SOCKETS] = Some j" by blast
  then have "j < UDP_MAX_SOCKETS" "up_on (up s j) port" by (auto simp: find_Some_iff)
  then have "j = i" using assms by (auto simp: udp_ok_def)
  then show ?thesis using j by (simp add: udp_target_eq)
qed

lemma udp_attach_ok: "udp_ok s \<Longrightarrow> udp_ok (snd (udp_attach so s))"
proof (cases "find (\<lambda>i. up_so (up s i) = None) [0..<UDP_MAX_SOCKETS]")
  case (Some i)
  assume ok: "udp_ok s"
  have i: "i < UDP_MAX_SOCKETS" "up_so (up s i) = None" using Some by (auto simp: find_Some_iff)
  have "so_pcb (sock s x) \<noteq> Some (UDP_PCB i)" for x using ok i(2) by (auto simp: udp_ok_def)
  then show ?thesis using ok i unfolding udp_ok_def by (auto simp: udp_attach_def Some upd_so_def upd_up_def up_on_def)
qed (simp add: udp_attach_def)

lemma udp_detach_ok: "udp_ok s \<Longrightarrow> udp_detach so s = Some s' \<Longrightarrow> udp_ok s'"
proof -
  assume ok: "udp_ok s" and d: "udp_detach so s = Some s'"
  show "udp_ok s'"
  proof (cases "so_pcb (sock s so)")
    case None
    then show ?thesis using ok d by (simp add: udp_detach_def as_udp_def)
  next
    case (Some r)
    then obtain i where i: "so_pcb (sock s so) = Some (UDP_PCB i)" using d by (cases r) (auto simp: udp_detach_def as_udp_def)
    have "x = so" if "so_pcb (sock s x) = Some (UDP_PCB i)" for x using ok i that by (metis option.inject udp_ok_def)
    moreover have "s' = upd_so so (\<lambda>q. q\<lparr>so_pcb := None\<rparr>) (upd_up i (\<lambda>p. p\<lparr>up_so := None, up_bound := False\<rparr>) s)"
      using d i by (simp add: udp_detach_def as_udp_def)
    ultimately show ?thesis using ok unfolding udp_ok_def by (auto simp: upd_so_def upd_up_def up_on_def)
  qed
qed

text \<open>The port a bind is for, and the state with the cursor moved if it was chosen by the stack.\<close>
definition bind_port :: "sockaddr_in \<Rightarrow> net_state \<Rightarrow> u16" where
  "bind_port a s = (if ntohs (sin_port a) = 0 then s_ephemeral_port s else ntohs (sin_port a))"

definition bumped :: "sockaddr_in \<Rightarrow> net_state \<Rightarrow> net_state" where
  "bumped a s = (if ntohs (sin_port a) = 0 then s\<lparr>s_ephemeral_port := next_ephemeral (s_ephemeral_port s)\<rparr> else s)"

lemma bumped_sel [simp]: "s_udp_pcbs (bumped a s) = s_udp_pcbs s" "s_socket_pool (bumped a s) = s_socket_pool s" "udp_ok (bumped a s) = udp_ok s"
  "udp_port_taken port (bumped a s) = udp_port_taken port s"
  by (simp_all add: bumped_def udp_ok_def udp_port_taken_def)

lemma udp_bind_eq:
  "udp_bind so sin s =
     (case (so_pcb (sock s so), sin) of
        (Some (TCP_PCB _), _) \<Rightarrow> None
      | (Some (UDP_PCB i), Some a) \<Rightarrow> Some (if udp_port_taken (bind_port a s) s then (CHIMERA_ERR_BUSY, bumped a s)
          else (CHIMERA_SUCCESS, upd_up i (\<lambda>p. p\<lparr>up_local_port := bind_port a s, up_local_ip := sin_addr a, up_bound := True\<rparr>) (bumped a s)))
      | _ \<Rightarrow> Some (CHIMERA_ERR_INVALID, s))"
proof -
  have "udp_port_taken q (if P then s\<lparr>s_ephemeral_port := e\<rparr> else s) = udp_port_taken q s" for q P e by (simp add: udp_port_taken_def)
  then show ?thesis by (auto simp: udp_bind_def as_udp_def Let_def bind_port_def bumped_def split: option.split pcb_ref.split)
qed

text \<open>Binding: either it fails and changes no control block, or the socket now is the one of the port.\<close>
lemma udp_bind_ok:
  assumes ok: "udp_ok s" and b: "udp_bind so sin s = Some (err, s')"
  shows "udp_ok s' \<and> (if err = CHIMERA_SUCCESS then \<exists>a. sin = Some a \<and> udp_target (bind_port a s) s' = Some so else s_udp_pcbs s' = s_udp_pcbs s)"
proof (cases "\<exists>i a. so_pcb (sock s so) = Some (UDP_PCB i) \<and> sin = Some a \<and> \<not> udp_port_taken (bind_port a s) s")
  case False
  then show ?thesis using b ok by (auto simp: udp_bind_eq split: option.splits pcb_ref.splits if_splits)
next
  case True
  then obtain i a where i: "so_pcb (sock s so) = Some (UDP_PCB i)" "sin = Some a" "\<not> udp_port_taken (bind_port a s) s" by blast
  then have s': "err = CHIMERA_SUCCESS" "s' = upd_up i (\<lambda>p. p\<lparr>up_local_port := bind_port a s, up_local_ip := sin_addr a, up_bound := True\<rparr>) (bumped a s)"
    using b by (simp_all add: udp_bind_eq)
  have u: "i < UDP_MAX_SOCKETS" "up_so (up s i) = Some so" using ok i(1) by (auto simp: udp_ok_def)
  have n: "\<not> up_on (up s j) (bind_port a s)" if "j < UDP_MAX_SOCKETS" for j using i(3) that by (auto simp: udp_port_taken_def up_on_def)
  have on: "up_on (up s' j) p \<longleftrightarrow> (if j = i then p = bind_port a s else up_on (up s j) p)" for j p using u s'(2) by (auto simp: upd_up_def up_on_def)
  have "up_so (up s' j) = up_so (up s j)" "so_pcb (sock s' j) = so_pcb (sock s j)" for j using s'(2) by (simp_all add: upd_up_def)
  then have "udp_ok s'" using ok n unfolding udp_ok_def on by (auto split: if_splits)
  moreover have "up_on (up s' i) (bind_port a s)" "up_so (up s' i) = Some so" using u s'(2) by (simp_all add: upd_up_def up_on_def)
  ultimately show ?thesis using udp_target_unique [of s' i "bind_port a s"] u i(2) s'(1) by simp
qed

text \<open>The life of the sockets: created, bound and closed in any order.\<close>
inductive udp_run :: "net_state \<Rightarrow> net_state \<Rightarrow> bool" for s where
  start: "udp_run s (udp_init s)"
| attach: "udp_run s t \<Longrightarrow> udp_run s (snd (udp_attach so t))"
| bind: "udp_run s t \<Longrightarrow> udp_bind so sin t = Some (err, u) \<Longrightarrow> udp_run s u"
| detach: "udp_run s t \<Longrightarrow> udp_detach so t = Some u \<Longrightarrow> udp_run s u"

lemma udp_init_sel:
  "up (udp_init s) j = (if j < UDP_MAX_SOCKETS then (up s j)\<lparr>up_so := None\<rparr> else up s j)" "s_socket_pool (udp_init s) = s_socket_pool s"
proof -
  have "s_udp_pcbs (fold (\<lambda>i. upd_up i (\<lambda>p. p\<lparr>up_so := None\<rparr>)) ns t) j = (if j \<in> set ns then (up t j)\<lparr>up_so := None\<rparr> else up t j) \<and>
      s_socket_pool (fold (\<lambda>i. upd_up i (\<lambda>p. p\<lparr>up_so := None\<rparr>)) ns t) = s_socket_pool t" for ns t j
    by (induction ns arbitrary: t) (auto simp: upd_up_def)
  then show "up (udp_init s) j = (if j < UDP_MAX_SOCKETS then (up s j)\<lparr>up_so := None\<rparr> else up s j)" "s_socket_pool (udp_init s) = s_socket_pool s"
    by (simp_all add: udp_init_def)
qed

lemma udp_init_ok: "(\<And>so. so_pcb (sock s so) = None) \<Longrightarrow> udp_ok (udp_init s)"
  by (simp add: udp_ok_def up_on_def udp_init_sel)

lemma udp_run_ok: "udp_run s t \<Longrightarrow> (\<And>so. so_pcb (sock s so) = None) \<Longrightarrow> udp_ok t"
proof (induction rule: udp_run.induct)
  case start
  then show ?case by (rule udp_init_ok)
next
  case (attach t so)
  then show ?case by (intro udp_attach_ok) blast
next
  case (bind t so sin err u)
  then show ?case using udp_bind_ok by blast
next
  case (detach t so u)
  then show ?case using udp_detach_ok by blast
qed

section \<open>Delivery\<close>

lemma udp_sendto_eq:
  assumes p: "pool s (m # fl)" and i: "so_pcb (sock s so) = Some (UDP_PCB i)" "up_bound (up s i)" "up_local_ip (up s i) \<noteq> 0" and len: "length buf \<le> 1472"
  shows "udp_sendto out so buf (Some d) s =
    out m (up_local_ip (up s i)) (sin_addr d) IPPROTO_UDP (fill_cl m (udp_header (up_local_port (up s i)) (sin_port d) (length buf) @ buf) s)"
proof -
  let ?h = "udp_header (up_local_port (up s i)) (sin_port d) (length buf)"
  let ?cl = "s_cluster_pool s m" and ?a = "s\<lparr>s_mbuf_freelist := m_next (mb s m), s_mbuf_pool := (s_mbuf_pool s)(m := cl_mbuf MT_DATA)\<rparr>"
  have h: "length ?h = 8" by (simp add: udp_header_def)
  have L: "length ?cl = 2048" using p by (simp add: pool_def MCLBYTES_def)
  have e: "m_data (cl_mbuf MT_DATA) = 0" "has_flag (cl_mbuf MT_DATA) M_EXT" by (simp_all add: cl_mbuf_def zero_mbuf_def has_flag_def M_EXT_def)
  have w1: "mwrite m 0 ?h ?a = Some (?a\<lparr>s_cluster_pool := (s_cluster_pool s)(m := ?h @ drop 8 ?cl)\<rparr>)" (is "_ = Some ?b")
    using e h L by (simp add: mwrite_def storage_def set_storage_def splice_0)
  have "splice 8 buf (?h @ drop 8 ?cl) = ?h @ buf @ drop (8 + length buf) ?cl" using h by (simp add: splice_def add.commute)
  then have w2: "mwrite m 8 buf ?b = Some (?b\<lparr>s_cluster_pool := (s_cluster_pool s)(m := ?h @ buf @ drop (8 + length buf) ?cl)\<rparr>)"
    using e h L len by (simp add: mwrite_def storage_def set_storage_def)
  show ?thesis unfolding udp_sendto_def using i len h
    by (simp add: as_udp_def m_getcl_pool [OF p] w1 w2 source_ip_def fill_cl_def set_lens_def upd_mb_def)
qed

lemma udp_input_ok:
  assumes h: "holds q (udp_header sport dport (length buf) @ buf) s" "length buf \<le> 1472" and t: "udp_target (ntohs dport) s = Some b"
  shows "udp_input q s = so_rcv_append b q (m_adj q 8 s)" "holds q buf (m_adj q 8 s)"
proof -
  let ?h = "udp_header sport dport (length buf)"
  have l: "length ?h = 8" by (simp add: udp_header_def)
  have m: "m_len (mb s q) = 8 + int (length buf)" "mdata q s = ?h @ buf" using h(1) l by (simp_all add: holds_def)
  let ?a = "st16 (htons sport)" and ?n = "htons (word_of_nat (8 + length buf))"
  have e: "?h @ buf = ?a @ st16 dport @ st16 ?n @ st16 0 @ buf" by (simp add: udp_header_def)
  have "ld16 (?a @ st16 dport @ st16 ?n @ st16 0 @ buf) (length ?a) = dport" "ld16 ((?a @ st16 dport) @ st16 ?n @ st16 0 @ buf) (length (?a @ st16 dport)) = ?n"
    by (rule ld16_st16)+
  then have f: "ld16 (?h @ buf) 2 = dport" "ld16 (?h @ buf) 4 = ?n" unfolding e by simp_all
  have u: "unat (word_of_nat (8 + length buf) :: u16) = 8 + length buf" using h(2) by (simp only: unsigned_of_nat) (simp add: take_bit_nat_eq_self)
  then have g: "\<not> (word_of_nat (8 + length buf) :: u16) < 8" by (simp add: word_less_nat_alt)
  have "udp_target (ntohs dport) (m_adj q 8 s) = Some b" using t udp_target_cong [of "m_adj q 8 s" s] by (simp add: m_adj_def upd_mb_def)
  then show "udp_input q s = so_rcv_append b q (m_adj q 8 s)"
    unfolding udp_input_def Let_def m f ntohs_htons using u g by (simp del: of_nat_add)
  show "holds q buf (m_adj q 8 s)" using holds_adj [of q ?h buf s] h(1) l by simp
qed

section \<open>Properties\<close>

text \<open>C23. Whatever sequence of sockets is created, bound and closed after the start of the stack: a bind succeeds exactly when it has
  made its socket the one that datagrams for the port go to (the requested port, or the one the stack chose), a failed bind changes
  no control block, and every bound control block is the only one of its port.\<close>
theorem udp_ports_exclusive:
  assumes "udp_run s t" and "\<forall>so. so_pcb (sock s so) = None"
  shows "(\<forall>i<UDP_MAX_SOCKETS. \<forall>port. up_on (up t i) port \<longrightarrow> udp_target port t = up_so (up t i)) \<and>
    (\<forall>so sin err u. udp_bind so sin t = Some (err, u) \<longrightarrow>
       (if err = CHIMERA_SUCCESS then \<exists>a. sin = Some a \<and> udp_target (bind_port a t) u = Some so else s_udp_pcbs u = s_udp_pcbs t))"
proof -
  have "udp_ok t" using udp_run_ok [OF assms(1)] assms(2) by blast
  then show ?thesis using udp_target_unique udp_bind_ok by blast
qed

theorem udp_ports_exclusive_witness:
  "\<exists>u. udp_bind 0 (Some \<lparr>sin_family = AF_INET, sin_port = htons 53, sin_addr = 0\<rparr>) (snd (udp_attach 0 (udp_init quiet_net))) = Some (CHIMERA_SUCCESS, u) \<and>
    udp_target 53 u = Some 0"
proof -
  let ?t = "snd (udp_attach 0 (udp_init quiet_net))" and ?a = "\<lparr>sin_family = AF_INET, sin_port = htons 53, sin_addr = 0\<rparr>"
  have r: "udp_run quiet_net ?t" by (rule udp_run.attach [OF udp_run.start])
  have "find (\<lambda>i. up_so (up (udp_init quiet_net) i) = None) [0..<UDP_MAX_SOCKETS] = Some 0"
    by (auto simp: find_Some_iff UDP_MAX_SOCKETS_def udp_init_sel intro!: exI [of _ "0 :: nat"])
  then have t: "so_pcb (sock ?t 0) = Some (UDP_PCB 0)" "\<not> udp_port_taken p ?t" for p
    by (auto simp: udp_attach_def upd_so_def upd_up_def udp_init_sel udp_port_taken_def quiet_net_sel)
  obtain u where u: "udp_bind 0 (Some ?a) ?t = Some (CHIMERA_SUCCESS, u)" by (simp add: udp_bind_eq t)
  then have "udp_target (bind_port ?a ?t) u = Some 0" using udp_ports_exclusive [OF r] by (fastforce simp: quiet_net_sel)
  then show ?thesis using u by (simp add: bind_port_def)
qed

text \<open>A datagram sent over the loopback interface to a port some socket is bound to arrives there, and only there, as one packet
  with exactly the bytes sent; a packet buffer for it and two more are enough.\<close>
theorem udp_sendto_delivers:
  assumes "so_pcb (sock s so) = Some (UDP_PCB i)" and "up_bound (up s i)" and "up_local_ip (up s i) \<noteq> 0"
    and "sin_addr d = LO \<or> up_local_ip (up s i) = LO" and "length buf \<le> 1472" and "udp_target (ntohs (sin_port d)) s = Some b"
    and "sbuf (so_rcv (sock s b)) qs s" and "lo_if l s" and "pool s fl" and "3 \<le> length fl" and "fst ` set qs \<inter> set fl = {}" and "1 \<le> depth"
  shows "\<exists>s' q fl'. udp_sendto (net_out depth) so buf (Some d) s = Some (CHIMERA_SUCCESS, s') \<and> sbuf (so_rcv (sock s' b)) (qs @ [(q, buf)]) s' \<and>
    (\<forall>x. x \<noteq> b \<longrightarrow> sock s' x = sock s x) \<and> s_udp_pcbs s' = s_udp_pcbs s \<and> pool s' fl' \<and> insert q (set fl') = set fl"
proof -
  obtain m h q fl0 where fl: "fl = m # h # q # fl0" using assms(10) by (auto simp: numeral_eq_Suc Suc_le_length_iff)
  obtain n where n: "depth = Suc n" using assms(12) by (cases depth) auto
  let ?u = "udp_header (up_local_port (up s i)) (sin_port d) (length buf) @ buf" and ?src = "up_local_ip (up s i)"
  let ?t = "fill_cl m ?u s"
  have L: "length ?u \<le> MCLBYTES" "20 + length ?u \<le> MCLBYTES" using assms(5) by (simp_all add: MCLBYTES_def udp_header_def)
  note p = assms(9) [unfolded fl]
  note f = fill_cl_ok [OF p L(1)]
  have m: "m \<notin> set (h # q # fl0)" "m < MBUF_POOL_SIZE" "q \<notin> set (m # h # fl0)" "q < MBUF_POOL_SIZE" using pool_distinct [OF p] p by (auto simp: pool_def)
  have lt: "lo_if l ?t" using assms(8) tables_eqD(3,4) [OF f(4)] by (simp add: lo_if_def)
  have pk: "m_pkthdr_len (mb ?t m) = int (length ?u)" by (simp add: fill_cl_def)
  obtain v where v: "net_out (Suc n) m ?src (sin_addr d) IPPROTO_UDP ?t = do { s \<leftarrow> ip_deliver (net_out n) IPPROTO_UDP q ?src (sin_addr d) v; Some (CHIMERA_SUCCESS, s) }"
    "holds q ?u v" "pool v (m # h # fl0)" "mem_frame {h, m, q} ?t v" "tables v = tables ?t"
    by (rule loop_output [OF f(2,1) pk m(1,2) L(2) lt assms(4,3)])
  have tv: "tables v = tables s" using v(5) f(4) by simp
  note tb = tables_eqD [OF tv]
  have tg: "udp_target (ntohs (sin_port d)) v = Some b" using assms(6) udp_target_cong [OF tb(5)] by simp
  note u = udp_input_ok [OF v(2) assms(5) tg]
  let ?w = "m_adj q 8 v"
  have fw: "mem_frame {m, h, q} s ?w"
    by (rule mem_frame_trans [OF mem_frame_trans [OF f(3) v(4), of "{m, h, q}"] m_adj_effect(1)]) auto
  have qq: "q \<notin> fst ` set qs" "fst ` set qs \<inter> {m, h, q} = {}" using assms(11) fl by auto
  have sw: "s_socket_pool ?w = s_socket_pool s" "s_udp_pcbs ?w = s_udp_pcbs s" using tb by (simp_all add: m_adj_def upd_mb_def)
  have sb: "sbuf (so_rcv (sock ?w b)) qs ?w" using assms(7) sbuf_frame [OF fw qq(2)] by (simp add: sw)
  obtain s' sb' where s': "so_rcv_append b q ?w = Some s'" "tables s' = upd_so b (\<lambda>q. q\<lparr>so_rcv := sb'\<rparr>) (tables ?w)"
    "sbuf sb' (qs @ [(q, buf)]) s'" "pool ?w (m # h # fl0) \<Longrightarrow> pool s' (m # h # fl0)"
    by (rule so_rcv_append_ok [OF sb u(2) qq(1) m(4), of "m # h # fl0"]) auto
  have "udp_sendto (net_out depth) so buf (Some d) s = Some (CHIMERA_SUCCESS, s')"
    unfolding n udp_sendto_eq [OF p assms(1-3,5)] v(1) using u(1) s'(1) by (simp add: ip_deliver_def IPPROTO_UDP_def IPPROTO_ICMP_def)
  moreover have "s_socket_pool s' = (s_socket_pool s)(b := (sock s b)\<lparr>so_rcv := sb'\<rparr>)" "s_udp_pcbs s' = s_udp_pcbs s"
    using arg_cong [OF s'(2), of s_socket_pool] arg_cong [OF s'(2), of s_udp_pcbs] by (simp_all add: tables_sel upd_so_def sw)
  moreover have "pool s' (m # h # fl0)" using s'(4) m_adj_effect(3) [OF v(3) m(3)] by blast
  ultimately show ?thesis using s'(3) by (intro exI [of _ s'] exI [of _ q] exI [of _ "m # h # fl0"]) (auto simp: fl)
qed

text \<open>Two sockets bound to the ports 5000 and 53.\<close>
definition udp_net :: net_state where
  "udp_net = quiet_net\<lparr>s_udp_pcbs := (s_udp_pcbs quiet_net)(0 := (up quiet_net 0)\<lparr>up_so := Some 0, up_local_ip := LO, up_local_port := 5000, up_bound := True\<rparr>,
       1 := (up quiet_net 1)\<lparr>up_so := Some 1, up_local_ip := LO, up_local_port := 53, up_bound := True\<rparr>),
     s_socket_pool := (s_socket_pool quiet_net)(0 := (fresh_socket SOCK_DGRAM None)\<lparr>so_pcb := Some (UDP_PCB 0)\<rparr>, 1 := (fresh_socket SOCK_DGRAM None)\<lparr>so_pcb := Some (UDP_PCB 1)\<rparr>)\<rparr>"

theorem udp_sendto_delivers_witness:
  "\<exists>s' q. udp_sendto (net_out 1) 0 [7, 8] (Some \<lparr>sin_family = AF_INET, sin_port = htons 53, sin_addr = LO\<rparr>) udp_net = Some (CHIMERA_SUCCESS, s') \<and>
    sbuf (so_rcv (sock s' 1)) [(q, [7, 8])] s'"
proof -
  let ?d = "\<lparr>sin_family = AF_INET, sin_port = htons 53, sin_addr = LO\<rparr>"
  have p: "pool udp_net [0, 1, 2, 3, 4, 5, 6, 7]" "lo_if 0 udp_net" by (rule quiet_net_ok; simp add: udp_net_def)+
  have "find (\<lambda>i. up_on (up udp_net i) 53) [0..<UDP_MAX_SOCKETS] = Some 1"
    by (auto simp: find_Some_iff UDP_MAX_SOCKETS_def udp_net_def up_on_def intro!: exI [of _ "1 :: nat"])
  then have t: "udp_target (ntohs (sin_port ?d)) udp_net = Some 1" by (simp add: udp_target_eq) (simp add: udp_net_def)
  have f: "so_pcb (sock udp_net 0) = Some (UDP_PCB 0)" "up_bound (up udp_net 0)" "up_local_ip (up udp_net 0) \<noteq> 0" "sin_addr ?d = LO \<or> up_local_ip (up udp_net 0) = LO"
    "length [7, 8 :: u8] \<le> 1472" "sbuf (so_rcv (sock udp_net 1)) [] udp_net"
    "3 \<le> length [0, 1, 2, 3, 4, 5, 6, 7 :: nat]" "fst ` set [] \<inter> set [0, 1, 2, 3, 4, 5, 6, 7 :: nat] = {}" "1 \<le> (1 :: nat)"
    using LO_nonzero by (simp_all add: udp_net_def sbuf_def fresh_socket_def zero_sockbuf_def)
  show ?thesis using udp_sendto_delivers [OF f(1-5) t f(6) p(2,1) f(7-9)] by auto
qed

end
