(* ===== verification/Net_Props.thy ===== *)
theory Net_Props
  imports Tcp_Handshake Udp_Props
begin

text \<open>
  The properties of the network stack: connections and streams over the loopback interface, socket buffers, checksums.
\<close>

unbundle bit_operations_syntax

section \<open>Concrete states\<close>

text \<open>Socket 0 with control block 0, bound to port 50000, and the listening socket 1 with control block 1 on port 80.\<close>
definition listen_net :: net_state where
  "listen_net = quiet_net\<lparr>
     s_tcp_pcbs := (s_tcp_pcbs quiet_net)(0 := (s_tcp_pcbs quiet_net 0)\<lparr>tp_so := Some 0, tp_local_ip := LO, tp_local_port := 50000, tp_bound := True\<rparr>,
       1 := (s_tcp_pcbs quiet_net 1)\<lparr>tp_so := Some 1, tp_state := TCPS_LISTEN, tp_local_ip := LO, tp_local_port := 80, tp_bound := True\<rparr>),
     s_socket_pool := (s_socket_pool quiet_net)(0 := (fresh_socket SOCK_STREAM None)\<lparr>so_pcb := Some (TCP_PCB 0)\<rparr>,
       1 := (fresh_socket SOCK_STREAM (Some 1))\<lparr>so_pcb := Some (TCP_PCB 1), so_qlimit := 5\<rparr>)\<rparr>"

text \<open>Two connected sockets.\<close>
definition conn_net :: net_state where
  "conn_net = quiet_net\<lparr>
     s_tcp_pcbs := (s_tcp_pcbs quiet_net)(0 := (s_tcp_pcbs quiet_net 0)\<lparr>tp_so := Some 0, tp_state := TCPS_ESTABLISHED, tp_local_ip := LO, tp_local_port := 50000,
         tp_remote_ip := LO, tp_remote_port := 80, tp_snd_nxt := 100, tp_rcv_nxt := 200, tp_bound := True\<rparr>,
       1 := (s_tcp_pcbs quiet_net 1)\<lparr>tp_so := Some 1, tp_state := TCPS_ESTABLISHED, tp_local_ip := LO, tp_local_port := 80,
         tp_remote_ip := LO, tp_remote_port := 50000, tp_snd_nxt := 200, tp_rcv_nxt := 100, tp_bound := True\<rparr>),
     s_socket_pool := (s_socket_pool quiet_net)(0 := (fresh_socket SOCK_STREAM None)\<lparr>so_pcb := Some (TCP_PCB 0), so_state := SS_ISCONNECTED\<rparr>,
       1 := (fresh_socket SOCK_STREAM None)\<lparr>so_pcb := Some (TCP_PCB 1), so_state := SS_ISCONNECTED\<rparr>)\<rparr>"

lemma listen_net_ok:
  "listening listen_net 80 1 1" "fresh_tuple listen_net 0 80" "free_socket_slot listen_net = Some 2" "free_tcp_pcb listen_net = Some 2" "acceptq listen_net 1 []"
proof -
  have "find (\<lambda>k. tcp_listener 80 (s_tcp_pcbs listen_net k)) [0..<TCP_MAX_SOCKETS] = Some 1"
    by (rule find_unique) (auto simp: listen_net_def tcp_listener_def quiet_net_sel TCP_MAX_SOCKETS_def)
  then show "listening listen_net 80 1 1" by (simp add: listening_def) (simp add: listen_net_def fresh_socket_def)
  show "fresh_tuple listen_net 0 80" by (auto simp: fresh_tuple_def listen_net_def quiet_net_sel tcp_exact_def)
  have f: "find Q [0..<n] = Some 2" if "\<not> Q 0" "\<not> Q 1" "Q 2" "2 < n" for Q n using that
    by (auto simp: find_Some_iff numeral_2_eq_2 less_Suc_eq intro!: exI [of _ "2 :: nat"])
  show "free_socket_slot listen_net = Some 2" unfolding free_socket_slot_def
    by (rule f) (simp_all add: listen_net_def quiet_net_sel fresh_socket_def MAX_SOCKETS_def CHIMERA_SOCKET_MAGIC_def)
  show "free_tcp_pcb listen_net = Some 2" unfolding free_tcp_pcb_def by (rule f) (simp_all add: listen_net_def quiet_net_sel TCP_MAX_SOCKETS_def)
qed (simp add: acceptq_def listen_net_def fresh_socket_def)

lemma conn_net_ok: "conn conn_net 0 1" "sbuf (so_rcv (sock conn_net 1)) [] conn_net"
proof -
  have "routes conn_net 0 1" "routes conn_net 1 0" unfolding routes_def
    by (rule find_unique; auto simp: conn_net_def quiet_net_sel tcp_exact_def TCP_MAX_SOCKETS_def split: if_splits)+
  moreover have "reaches conn_net i j \<longleftrightarrow> routes conn_net i j" if "i = 0 \<and> j = 1 \<or> i = 1 \<and> j = 0" for i j
    using that LO_nonzero by (auto simp: reaches_routes) (simp_all add: conn_net_def)
  ultimately show "conn conn_net 0 1" by (simp add: conn_def)
qed (simp add: sbuf_def conn_net_def fresh_socket_def zero_sockbuf_def)

section \<open>Streams\<close>

lemma connect_prep:
  assumes a: "tp_so (tp s i) = Some a" "tp_state (tp s i) \<noteq> TCPS_LISTEN" and L: "listening s port L b" "fresh_tuple s i port"
    and free: "free_socket_slot s = Some c" "free_tcp_pcb s = Some k" and q: "acceptq s b cs"
    and t: "t = upd_so a (\<lambda>q. q\<lparr>so_state := so_state q OR SS_ISCONNECTING\<rparr>) (upd_tp i (\<lambda>p. p\<lparr>tp_remote_ip := rip, tp_remote_port := port, tp_state := TCPS_SYN_SENT\<rparr>) s)"
  shows "listening t port L b" "fresh_tuple t i port" "L \<noteq> i" "free_socket_slot t = Some c" "free_tcp_pcb t = Some k" "acceptq t b cs"
proof -
  have tp: "s_tcp_pcbs t = (s_tcp_pcbs s)(i := (tp s i)\<lparr>tp_remote_ip := rip, tp_remote_port := port, tp_state := TCPS_SYN_SENT\<rparr>)" by (simp add: t) (simp add: upd_tp_def)
  have so: "so_signature (sock t n) = so_signature (sock s n)" "so_q (sock t n) = so_q (sock s n)" "so_qlen (sock t n) = so_qlen (sock s n)" "so_qlimit (sock t n) = so_qlimit (sock s n)" for n
    by (simp_all add: t upd_so_def)
  have "tcp_listener port (tp s L)" using L by (auto simp: listening_def find_Some_iff)
  then show Li: "L \<noteq> i" using a(2) by (auto simp: tcp_listener_def)
  have "\<not> tcp_listener port (tp s i)" using a(2) by (simp add: tcp_listener_def)
  then have "tcp_listener port (tp t n) = tcp_listener port (tp s n)" for n by (simp add: tp tcp_listener_def)
  then show "listening t port L b" using L(1) Li by (simp add: listening_def so) (simp add: tp)
  show "fresh_tuple t i port" using L(2) by (auto simp: fresh_tuple_def tp)
  show "free_socket_slot t = Some c" using free(1) by (simp add: free_socket_slot_def so)
  have "tp_so (tp t n) = tp_so (tp s n)" for n by (simp add: tp)
  then show "free_tcp_pcb t = Some k" using free(2) by (simp add: free_tcp_pcb_def)
  show "acceptq t b cs" using q by (simp add: acceptq_def so)
qed

lemma conn_cong: "s_tcp_pcbs t = s_tcp_pcbs s \<Longrightarrow> conn t i j = conn s i j" by (simp add: conn_def reaches_def)

text \<open>C21. Connecting over the loopback interface to a listening socket with room in its queue succeeds, however deep the bound on
  the nesting of the stack (three levels are enough): the three segments of the handshake are exchanged, both ends are
  established, each expects exactly the sequence number the other will use next, the new connection stands at the end of the accept
  queue with its control block, no other control block has changed, and all packet buffers are free again.\<close>
theorem tcp_connect_establishes:
  assumes "so_pcb (sock s a) = Some (TCP_PCB i)" and "i < TCP_MAX_SOCKETS" and "tp_so (tp s i) = Some a" and "tp_bound (tp s i)"
    and "tp_local_ip (tp s i) \<noteq> 0" and "tp_state (tp s i) \<noteq> TCPS_LISTEN"
    and "sin_addr sin = LO" and "listening s (ntohs (sin_port sin)) L b" and "fresh_tuple s i (ntohs (sin_port sin))"
    and "free_socket_slot s = Some c" and "free_tcp_pcb s = Some k"
    and "acceptq s b cs" and "\<forall>x \<in> set (b # cs). so_signature (sock s x) = CHIMERA_SOCKET_MAGIC"
    and "lo_if l s" and "pool s fl" and "5 \<le> length fl" and "\<not> g_e1000_present s" and "3 \<le> depth"
  shows "\<exists>s' fl'. tcp_connect (net_out depth) (net_poll depth) a (Some sin) s = Some (CHIMERA_SUCCESS, s') \<and>
    conn s' i k \<and> tp_so (tp s' k) = Some c \<and> so_pcb (sock s' c) = Some (TCP_PCB k) \<and> acceptq s' b (cs @ [c]) \<and>
    so_state (sock s' a) AND SS_ISCONNECTED \<noteq> 0 \<and> (\<forall>j. j \<noteq> i \<longrightarrow> j \<noteq> k \<longrightarrow> tp s' j = tp s j) \<and> pool s' fl' \<and> set fl' = set fl"
proof -
  obtain m h q x y fl0 where fl: "fl = m # h # q # x # y # fl0" using assms(16) by (auto simp: numeral_eq_Suc Suc_le_length_iff)
  obtain n where n: "depth = Suc (Suc (Suc n))" using assms(18) by (auto simp: numeral_eq_Suc Suc_le_eq less_iff_Suc_add)
  let ?port = "ntohs (sin_port sin)"
  define t where "t = upd_so a (\<lambda>q. q\<lparr>so_state := so_state q OR SS_ISCONNECTING\<rparr>)
    (upd_tp i (\<lambda>p. p\<lparr>tp_remote_ip := LO, tp_remote_port := ?port, tp_state := TCPS_SYN_SENT\<rparr>) s)"
  note pr = connect_prep [OF assms(3,6,8,9,10,11,12) t_def]
  have ti: "tp t i = (tp s i)\<lparr>tp_remote_ip := LO, tp_remote_port := ?port, tp_state := TCPS_SYN_SENT\<rparr>" by (simp add: t_def) (simp add: upd_tp_def)
  have pt: "pool t (m # h # q # x # y # fl0)" "lo_if l t" using assms(14,15) by (simp_all add: t_def fl lo_if_def)
  have it: "tp_so (tp t i) \<noteq> None" "tp_bound (tp t i)" "tp_state (tp t i) = TCPS_SYN_SENT" "tp_remote_ip (tp t i) = LO" "tp_remote_port (tp t i) = ?port" "tp_local_ip (tp t i) \<noteq> 0"
    using assms(3,4,5) ti by simp_all
  have cb: "c \<notin> set (b # cs)" using assms(10,13) by (auto simp: free_socket_slot_def find_Some_iff)
  obtain u where u: "tcp_send_packet (net_out (Suc (Suc (Suc n)))) i TH_SYN [] t = Some (CHIMERA_SUCCESS, u)" "pool u (q # x # y # m # h # fl0)"
    "conn u i k" "tp_so (tp u k) = Some c" "\<forall>j. j \<noteq> i \<longrightarrow> j \<noteq> k \<longrightarrow> tp u j = tp t j" "acceptq u b (cs @ [c])"
    "so_pcb (sock u c) = Some (TCP_PCB k)" "so_state (sock u c) = SS_ISCONNECTED" "\<forall>j. j \<notin> set (b # c # cs) \<longrightarrow> sock u j = sock t j" "env_eq t u"
    by (rule syn_ok [OF pt assms(2) it pr(1,2,3,4,5,6) cb])
  define w where "w = upd_so a (\<lambda>q. q\<lparr>so_state := (so_state q AND NOT SS_ISCONNECTING) OR SS_ISCONNECTED\<rparr>) u"
  have e: "tp_state (tp u i) = TCPS_ESTABLISHED" using u(3) by (simp add: conn_def reaches_def)
  have "net_poll depth u = Some u" using u(10) assms(17) by (simp add: n e1000_poll_rx_def env_eq_def t_def)
  then have cp: "connect_poll (net_out depth) (net_poll depth) a i 1000 u = Some (CHIMERA_SUCCESS, w)"
    using e connect_poll.simps(2) [of "net_out depth" "net_poll depth" a i 999 u] by (simp add: w_def)
  have "tcp_connect (net_out depth) (net_poll depth) a (Some sin) s = Some (CHIMERA_SUCCESS, w)"
    using assms(1,4,7) u(1) cp by (simp add: tcp_connect_def as_tcp_def t_def n)
  moreover have "conn w i k" "tp_so (tp w k) = Some c" "\<forall>j. j \<noteq> i \<longrightarrow> j \<noteq> k \<longrightarrow> tp w j = tp s j"
    using u(3,4,5) conn_cong [of w u] by (simp_all add: w_def t_def) (simp_all add: upd_tp_def)
  moreover have ws: "so_pcb (sock w j) = so_pcb (sock u j)" "so_q (sock w j) = so_q (sock u j)" "so_qlen (sock w j) = so_qlen (sock u j)" for j
    by (simp_all add: w_def upd_so_def)
  then have "so_pcb (sock w c) = Some (TCP_PCB k)" "acceptq w b (cs @ [c])" "pool w (q # x # y # m # h # fl0)"
    using u(2,6,7) by (simp_all add: acceptq_def) (simp add: w_def)
  moreover have "so_state (sock w a) AND SS_ISCONNECTED \<noteq> 0" by (simp add: w_def upd_so_def SS_ISCONNECTED_def word_ao_dist)
  ultimately show ?thesis by (intro exI [of _ w] exI [of _ "q # x # y # m # h # fl0"]) (auto simp: fl)
qed

theorem tcp_connect_establishes_witness:
  "\<exists>s' fl'. tcp_connect (net_out 3) (net_poll 3) 0 (Some \<lparr>sin_family = AF_INET, sin_port = htons 80, sin_addr = LO\<rparr>) listen_net = Some (CHIMERA_SUCCESS, s') \<and>
    conn s' 0 2 \<and> acceptq s' 1 [2] \<and> pool s' fl'"
proof -
  let ?sin = "\<lparr>sin_family = AF_INET, sin_port = htons 80, sin_addr = LO\<rparr>"
  have p: "pool listen_net [0, 1, 2, 3, 4, 5, 6, 7]" "lo_if 0 listen_net" by (rule quiet_net_ok; simp add: listen_net_def)+
  have f: "so_pcb (sock listen_net 0) = Some (TCP_PCB 0)" "0 < TCP_MAX_SOCKETS" "tp_so (tp listen_net 0) = Some 0" "tp_bound (tp listen_net 0)"
    "tp_local_ip (tp listen_net 0) \<noteq> 0" "tp_state (tp listen_net 0) \<noteq> TCPS_LISTEN" "sin_addr ?sin = LO" "\<forall>x \<in> set [1]. so_signature (sock listen_net x) = CHIMERA_SOCKET_MAGIC"
    "\<not> g_e1000_present listen_net" "5 \<le> length [0, 1, 2, 3, 4, 5, 6, 7 :: nat]" "3 \<le> (3 :: nat)"
    using LO_nonzero by (simp_all add: listen_net_def TCP_MAX_SOCKETS_def fresh_socket_def quiet_net_sel) (simp add: quiet_net_def)
  have l: "listening listen_net (ntohs (sin_port ?sin)) 1 1" "fresh_tuple listen_net 0 (ntohs (sin_port ?sin))" using listen_net_ok(1,2) by simp_all
  show ?thesis using tcp_connect_establishes [OF f(1-7) l listen_net_ok(3-5) f(8) p(2,1) f(10,9,11)] unfolding append_Nil by blast
qed

text \<open>C22. What one end of an established connection over the loopback interface writes, of any length, arrives: the call succeeds,
  the bytes are appended to what the other end's receive buffer held, in order and complete, and the two ends still agree on
  the sequence numbers. A write is cut into segments of 1460 bytes; one free packet buffer for each and three more are enough.\<close>
theorem tcp_send_delivers:
  assumes "conn s i j" and "so_pcb (sock s a) = Some (TCP_PCB i)" and "so_state (sock s a) AND SS_ISCONNECTED \<noteq> 0"
    and "tp_so (tp s j) = Some b" and "sbuf (so_rcv (sock s b)) qs s" and "lo_if l s"
    and "pool s fl" and "3 + segments (length bs) \<le> length fl" and "fst ` set qs \<inter> set fl = {}" and "2 \<le> depth"
  shows "\<exists>s' qs' fl'. tcp_send (net_out depth) a bs s = Some (CHIMERA_SUCCESS, s') \<and> conn s' i j \<and>
    sbuf (so_rcv (sock s' b)) qs' s' \<and> payload qs' = payload qs @ bs \<and>
    tp_snd_nxt (tp s' i) = tp_snd_nxt (tp s i) + word_of_nat (length bs) \<and>
    pool s' fl' \<and> fst ` set qs' \<inter> set fl' = {} \<and> fst ` set qs' \<union> set fl' = fst ` set qs \<union> set fl"
proof -
  obtain n where n: "depth = Suc (Suc n)" using assms(10) by (auto simp: numeral_eq_Suc Suc_le_eq less_iff_Suc_add)
  obtain s' sb qs' fl' where s': "send_chunks (net_out (Suc (Suc n))) i bs s = Some (CHIMERA_SUCCESS, s')"
    "tables s' = set_rcv b sb (moved i j (length bs) (tables s))" "sbuf sb qs' s'" "payload qs' = payload qs @ bs" "pool s' fl'"
    "fst ` set qs' \<inter> set fl' = {}" "fst ` set qs' \<union> set fl' = fst ` set qs \<union> set fl"
    using send_chunks_ok [OF assms(1,4,6,7,8,5,9), of n] by (elim exE conjE)
  note mt = moved_tables [OF s'(2) assms(1,6)]
  have "i \<noteq> j" using assms(1) by (simp add: conn_def)
  then have "tp_snd_nxt (tp s' i) = tp_snd_nxt (tp s i) + word_of_nat (length bs)"
    using arg_cong [OF s'(2), of s_tcp_pcbs] by (simp add: tables_sel set_rcv_def moved_def upd_tp_def)
  then show ?thesis using s' mt(1,4) assms(2,3)
    by (intro exI [of _ s'] exI [of _ qs'] exI [of _ fl']) (simp add: tcp_send_def as_tcp_def n)
qed

theorem tcp_send_delivers_witness:
  "\<exists>s' qs'. tcp_send (net_out 2) 0 [1, 2, 3] conn_net = Some (CHIMERA_SUCCESS, s') \<and> sbuf (so_rcv (sock s' 1)) qs' s' \<and> payload qs' = [1, 2, 3]"
proof -
  have p: "pool conn_net [0, 1, 2, 3, 4, 5, 6, 7]" "lo_if 0 conn_net" by (rule quiet_net_ok; simp add: conn_net_def)+
  have f: "so_pcb (sock conn_net 0) = Some (TCP_PCB 0)" "so_state (sock conn_net 0) AND SS_ISCONNECTED \<noteq> 0" "tp_so (tp conn_net 1) = Some 1"
    "3 + segments (length [1, 2, 3 :: u8]) \<le> length [0, 1, 2, 3, 4, 5, 6, 7 :: nat]" "fst ` set [] \<inter> set [0, 1, 2, 3, 4, 5, 6, 7 :: nat] = {}" "2 \<le> (2 :: nat)"
    by (simp_all add: conn_net_def segments_def SS_ISCONNECTED_def)
  show ?thesis using tcp_send_delivers [OF conn_net_ok(1) f(1-3) conn_net_ok(2) p(2,1) f(4-6)] by auto
qed

text \<open>Reading from a socket returns the oldest bytes of its receive buffer, as many as fit into the caller's buffer, leaves the
  rest in the buffer, and gives exactly the packet buffers that were read to the end back to the pool.\<close>
theorem soreceive_fifo:
  assumes "sbuf (so_rcv (sock s so)) qs s" and "pool s fl" and "set fl \<inter> fst ` set qs = {}"
    and "payload qs \<noteq> []" and "length (payload qs) < 2 ^ 32"
  shows "\<exists>s' qs' fl'. soreceive poll (Some so) True len s = Some (CHIMERA_SUCCESS, take len (payload qs), s') \<and>
    sbuf (so_rcv (sock s' so)) qs' s' \<and> payload qs' = drop len (payload qs) \<and>
    pool s' fl' \<and> set fl' \<inter> fst ` set qs' = {} \<and> set fl' \<union> fst ` set qs' = set fl \<union> fst ` set qs"
proof -
  obtain s' sb qs' fl' where s': "soreceive poll (Some so) True len s = Some (CHIMERA_SUCCESS, take len (payload qs), s')"
    "tables s' = set_rcv so sb (tables s)" "sbuf sb qs' s'" "payload qs' = drop len (payload qs)" "pool s' fl'"
    "set fl' \<inter> fst ` set qs' = {}" "set fl' \<union> fst ` set qs' = set fl \<union> fst ` set qs"
    using soreceive_ok [OF assms, of poll len] by (elim exE conjE)
  have "so_rcv (sock s' so) = sb" using arg_cong [OF s'(2), of "\<lambda>t. so_rcv (sock t so)"] by (simp add: tables_sel)
  then show ?thesis using s' by (intro exI [of _ s'] exI [of _ qs'] exI [of _ fl']) simp
qed

text \<open>A buffer holding a packet of three bytes.\<close>
definition data_net :: net_state where
  "data_net = fill_cl 0 [1, 2, 3] (set_rcv 0 \<lparr>sb_cc = 3, sb_hiwat = SB_MAX, sb_mb = Some 0, sb_last = Some 0\<rparr> quiet_net)"

lemma data_net_ok: "sbuf (so_rcv (sock data_net 0)) [(0, [1, 2, 3])] data_net" "pool data_net [1, 2, 3, 4, 5, 6, 7]"
proof -
  let ?s = "set_rcv 0 \<lparr>sb_cc = 3, sb_hiwat = SB_MAX, sb_mb = Some 0, sb_last = Some 0\<rparr> quiet_net"
  have p: "pool ?s [0, 1, 2, 3, 4, 5, 6, 7]" by (rule quiet_net_ok) (simp_all add: set_rcv_def upd_so_def)
  have l: "length [1, 2, 3 :: u8] \<le> MCLBYTES" by (simp add: MCLBYTES_def)
  show "pool data_net [1, 2, 3, 4, 5, 6, 7]" unfolding data_net_def by (rule fill_cl_ok(2) [OF p l])
  have "holds 0 [1, 2, 3] data_net" unfolding data_net_def by (rule fill_cl_ok(1) [OF p l])
  moreover have "sock data_net = sock ?s" using tables_eqD(2) [OF fill_cl_ok(4) [OF p l]] by (simp add: data_net_def)
  then have "so_rcv (sock data_net 0) = \<lparr>sb_cc = 3, sb_hiwat = SB_MAX, sb_mb = Some 0, sb_last = Some 0\<rparr>" by (simp del: fun_upd_apply)
  moreover have "m_nextpkt (mb data_net 0) = None" by (simp add: data_net_def fill_cl_def cl_mbuf_def zero_mbuf_def)
  ultimately show "sbuf (so_rcv (sock data_net 0)) [(0, [1, 2, 3])] data_net" by (simp add: sbuf_def MBUF_POOL_SIZE_def)
qed

theorem soreceive_fifo_witness:
  "\<exists>s' qs'. soreceive (net_poll 1) (Some 0) True 2 data_net = Some (CHIMERA_SUCCESS, [1, 2], s') \<and> sbuf (so_rcv (sock s' 0)) qs' s' \<and> payload qs' = [3]"
  using soreceive_fifo [OF data_net_ok, of "net_poll 1" 2] by force

section \<open>Checksums\<close>

text \<open>A segment into whose checksum field, any aligned word of it, the checksum computed over the segment with a zero field has
  been stored passes the receiver's test; and the checksum is the complement of the one's complement sum of the 16-bit words of pseudo
  header and segment, carries folded in, whatever the accumulated carries are.\<close>
theorem in_pseudo_checksum_correct:
  assumes "even (length xs)" and "length xs + length ys \<le> 65536"
  shows "in_pseudo_checksum src dst proto len (xs @ st16 (in_pseudo_checksum src dst proto len (xs @ st16 0 @ ys)) @ ys) = 0 \<and>
    unat (in_pseudo_checksum src dst proto len (xs @ ys)) = 65535 - ones_sum (pseudo_sum src dst proto len + words_sum (xs @ ys))"
proof -
  have "(length xs + 1) div 2 + (length ys + 1) div 2 \<le> 32769" using assms(2) by linarith
  then have "pseudo_sum src dst proto len + words_sum (xs @ ys) < 2 ^ 32"
    using words_sum_bound [of xs] words_sum_bound [of ys] pseudo_sum_bound [of src dst proto len] by (simp add: words_sum_append [OF assms(1)])
  then show ?thesis using checksum_verifies [OF assms refl] in_pseudo_checksum_eq by blast
qed

theorem in_pseudo_checksum_correct_witness:
  "in_pseudo_checksum 1 2 6 4 ([7, 8] @ st16 (in_pseudo_checksum 1 2 6 4 ([7, 8] @ st16 0 @ [])) @ []) = 0"
  using in_pseudo_checksum_correct [of "[7, 8]" "[]" 1 2 6 4] by simp

section \<open>Where the stack fails\<close>

text \<open>
  Where the stack fails: the input lock is taken a second time when an address must be resolved while a frame is processed, and a
  stream socket can be given a control block of UDP.
\<close>


section \<open>Polling under the input lock\<close>

lemma lock_kept:
  "mwrite m off bs s = Some t \<Longrightarrow> s_net_input_lock t = s_net_input_lock s" "s_net_input_lock (set_lens m k s) = s_net_input_lock s"
  "s_net_input_lock (upd_mb m f s) = s_net_input_lock s" "s_net_input_lock (upd_if i g s) = s_net_input_lock s"
  by (auto simp: mwrite_def set_storage_def set_lens_def upd_mb_def upd_if_def split: if_splits)

lemma net_input_locked: "s_net_input_lock s \<Longrightarrow> net_input n ifp m s = None" by (cases n) (simp_all add: if_input_def)

text \<open>With a frame in the ring and a free packet buffer, a poll under the lock does not return.\<close>
lemma net_poll_locked:
  assumes "s_net_input_lock s" and "g_e1000_present s" and "e_rx s = f # fs" "f \<noteq> []" and "s_mbuf_freelist s \<noteq> None"
  shows "net_poll n s = None"
proof (cases n)
  case (Suc k)
  have r: "rx_frame (net_input k) f t = None" if h: "s_net_input_lock t" "s_mbuf_freelist t \<noteq> None" for t
  proof -
    obtain m where m: "s_mbuf_freelist t = Some m" using h(2) by auto
    define u where "u = snd (m_getcl MT_DATA t)"
    have u: "m_getcl MT_DATA t = (Some m, u)" "s_net_input_lock u" using h(1) by (simp_all add: u_def m_getcl_def m_gethdr_def m_get_def m lock_kept)
    show ?thesis using assms(4) u by (cases "mwrite m 0 f u") (auto simp: rx_frame_def Let_def lock_kept intro: net_input_locked)
  qed
  have "rx_loop (net_input k) t = None" if "e_rx t = f # gs" "s_net_input_lock t" "s_mbuf_freelist t \<noteq> None" for t gs
    using that r [of t] by (subst rx_loop.simps) simp
  then show ?thesis using assms Suc by (auto simp: e1000_poll_rx_def split: list.split)
qed simp

lemma arp_wait_None: "poll s = None \<Longrightarrow> arp_wait poll ip (Suc n) s = None" by simp

section \<open>The request\<close>

lemma length_ether_arp: "length (if_mac f) = 6 \<Longrightarrow> length tha = 6 \<Longrightarrow> length tpa = 4 \<Longrightarrow> length (ether_arp f opc tha tpa) = 28" by (simp add: ether_arp_def)

lemma flatten_ok: "chain (\<lambda>n. m_next (mb s n)) r ms \<Longrightarrow> \<exists>bs. flatten r acc s = Some bs"
proof (induction ms arbitrary: r acc)
  case Nil
  then show ?case by (simp add: flatten.simps)
next
  case (Cons m ms)
  then show ?case by (subst flatten.simps) auto
qed

lemma e1000_output_ok:
  assumes p: "pool s fl" and c: "chain (\<lambda>n. m_next (mb s n)) (Some h) ms" "set ms \<inter> set fl = {}" "set ms \<subseteq> {..<MBUF_POOL_SIZE}"
  obtains err t where "e1000_ifnet_output (Some h) s = Some (err, t)" "pool t (rev ms @ fl)" "s_net_input_lock t = s_net_input_lock s" "e_rx t = e_rx s"
    "g_e1000_present t = g_e1000_present s"
proof -
  obtain bs where b: "flatten (Some h) [] s = Some bs" using flatten_ok [OF c(1)] by blast
  obtain u where u: "m_freem (Some h) s = Some u" "pool u (rev ms @ fl)" "tables u = tables s" using m_freem_pool [OF p c] by blast
  define r where "r = e1000_transmit_frame bs u"
  have "pool (snd r) (rev ms @ fl)" using u(2) by (auto simp: r_def e1000_transmit_frame_def Let_def upd_if_def pool_def)
  moreover have "s_net_input_lock (snd r) = s_net_input_lock u" "e_rx (snd r) = e_rx u" "g_e1000_present (snd r) = g_e1000_present u"
    by (auto simp: r_def e1000_transmit_frame_def Let_def upd_if_def)
  moreover have "s_net_input_lock u = s_net_input_lock s" "g_e1000_present u = g_e1000_present s" using tables_eqD [OF u(3)] by simp_all
  moreover have "e_rx u = e_rx s" using arg_cong [OF u(3), of e_rx] by (simp add: tables_def)
  moreover have "e1000_ifnet_output (Some h) s = Some (fst r, snd r)" by (simp add: e1000_ifnet_output_def b u(1) r_def)
  ultimately show ?thesis using that by metis
qed

lemma arp_send_request_ok:
  assumes p: "pool s (m # h # fl)" and i: "if_output (n_ifnets s ifp) = Some E1000_IFNET_OUTPUT" "length (if_mac (n_ifnets s ifp)) = 6"
  obtains t fl' where "arp_send_request inp ifp ip s = Some t" "pool t (m # fl')" "s_net_input_lock t = s_net_input_lock s" "e_rx t = e_rx s"
    "g_e1000_present t = g_e1000_present s"
proof -
  let ?a = "s\<lparr>s_mbuf_freelist := m_next (mb s m), s_mbuf_pool := (s_mbuf_pool s)(m := hdr_mbuf MT_DATA)\<rparr>"
  define arp where "arp = ether_arp (n_ifnets s ifp) ARPOP_REQUEST (replicate 6 0) (st32 ip)"
  have la: "length arp = 28" using i(2) by (simp add: arp_def length_ether_arp)
  define q where "q = (hdr_mbuf MT_DATA)\<lparr>m_u := splice 16 arp (replicate MLEN 0), m_len := 28, m_pkthdr_len := 28\<rparr>"
  define b where "b = s\<lparr>s_mbuf_freelist := m_next (mb s m), s_mbuf_pool := (s_mbuf_pool s)(m := q)\<rparr>"
  have u: "m_u (hdr_mbuf MT_DATA) = replicate MLEN 0" "m_data (hdr_mbuf MT_DATA) = 16" by (simp_all add: hdr_mbuf_def zero_mbuf_def)
  have w: "map_option (set_lens m 28) (mwrite m 0 arp ?a) = Some b"
    using la u by (simp add: mwrite_def storage_def set_storage_def upd_mb_def MLEN_def set_lens_def b_def q_def)
  have pb: "pool b (h # fl)" unfolding b_def by (rule pool_pop [OF p])
  have d: "h \<noteq> m" "h \<notin> set fl" "m \<notin> set fl" "h < MBUF_POOL_SIZE" "m < MBUF_POOL_SIZE" using pool_distinct [OF p] p by (auto simp: pool_def)
  let ?eth = "replicate 6 0xFF @ if_mac (n_ifnets s ifp) @ st16 (htons ETHERTYPE_ARP)"
  have le: "length ?eth \<le> 240" using i(2) by simp
  obtain c where c: "prepend ?eth m b = Some (Some h, c)" "pool c fl" "mem_frame {h} b c" "tables c = tables b" "m_next (mb c h) = Some m"
    by (rule prepend_ok [OF pb d(1) le]) auto
  have mn: "m_next (mb c m) = None" using c(3) d(1) by (simp add: mem_frame_def b_def q_def hdr_mbuf_def zero_mbuf_def)
  have cc: "chain (\<lambda>n. m_next (mb c n)) (Some h) [h, m]" using c(5) mn by simp
  obtain err t where t: "e1000_ifnet_output (Some h) c = Some (err, t)" "pool t (rev [h, m] @ fl)" "s_net_input_lock t = s_net_input_lock c" "e_rx t = e_rx c"
    "g_e1000_present t = g_e1000_present c"
    by (rule e1000_output_ok [OF c(2) cc]) (use d in auto)
  have nb: "n_ifnets b = n_ifnets s" "n_ifnets c = n_ifnets s" using tables_eqD(3) [OF c(4)] by (simp_all add: b_def)
  have "ethernet_output_with (\<lambda>_ _ _. None) inp ifp m INADDR_BROADCAST ETHERTYPE_ARP b = Some (err, t)"
    using c(1) t(1) i(1) by (simp add: ethernet_output_with_def nb if_transmit_def ntohl_def htonl_def INADDR_BROADCAST_def)
  moreover obtain v where v: "mwrite m 0 arp ?a = Some v" "set_lens m 28 v = b" using w by auto
  ultimately have "arp_send_request inp ifp ip s = Some t"
    by (simp add: arp_send_request_def m_gethdr_pool [OF p] arp_def [symmetric])
  moreover have "e_rx c = e_rx b" using arg_cong [OF c(4), of e_rx] by (simp add: tables_def)
  moreover have "s_net_input_lock c = s_net_input_lock b" "g_e1000_present c = g_e1000_present b" using tables_eqD [OF c(4)] by simp_all
  ultimately show ?thesis using that [of t "h # fl"] t(2-5) by (simp add: b_def)
qed

text \<open>C24. Address resolution while a frame is being processed never returns when the next hop's address is not in the cache: the input lock is
  held, the frame is still in the ring of the device, and the poll for the answer tries to process it again.\<close>
theorem arp_resolve_deadlock:
  assumes "s_net_input_lock s" and "g_e1000_present s" and "e_rx s = f # fs" "f \<noteq> []" and "pool s fl" and "2 \<le> length fl"
    and "if_output (n_ifnets s ifp) = Some E1000_IFNET_OUTPUT" and "length (if_mac (n_ifnets s ifp)) = 6"
    and "hop = (if if_gateway (n_ifnets s ifp) \<noteq> 0 \<and> ip AND if_netmask (n_ifnets s ifp) \<noteq> if_ip (n_ifnets s ifp) AND if_netmask (n_ifnets s ifp)
      then if_gateway (n_ifnets s ifp) else ip)" and "arp_find hop s = None"
  shows "arp_resolve (net_input n) (net_poll n) ifp ip s = None"
proof -
  obtain m h fl0 where fl: "fl = m # h # fl0" using assms(6) by (auto simp: numeral_eq_Suc Suc_le_length_iff)
  obtain t fl' where t: "arp_send_request (net_input n) ifp hop s = Some t" "pool t (m # fl')" "s_net_input_lock t = s_net_input_lock s" "e_rx t = e_rx s"
    "g_e1000_present t = g_e1000_present s"
    by (rule arp_send_request_ok [OF assms(5) [unfolded fl] assms(7,8)])
  have "s_mbuf_freelist t \<noteq> None" using t(2) by (auto simp: pool_def)
  then have "net_poll n t = None" using net_poll_locked [of t f fs n] assms(1-4) t(3-5) by simp
  then show ?thesis using t(1) assms(10) arp_wait_None [of "net_poll n" t hop 499] unfolding arp_resolve_def Let_def assms(9) [symmetric] by simp
qed

text \<open>A device whose ring holds a frame, in the middle of processing it.\<close>
definition busy_net :: net_state where
  "busy_net = quiet_net\<lparr>s_net_input_lock := True, g_e1000_present := True, e_rx := [[1]],
     n_ifnets := (n_ifnets quiet_net)(1 := (n_ifnets quiet_net 1)\<lparr>if_name := ''en0'', if_flags := 0x43, if_output := Some E1000_IFNET_OUTPUT\<rparr>)\<rparr>"

theorem arp_resolve_deadlock_witness: "arp_resolve (net_input 9) (net_poll 9) 1 7 busy_net = None"
proof -
  have p: "pool busy_net [0, 1, 2, 3, 4, 5, 6, 7]" by (rule quiet_net_ok; simp add: busy_net_def)
  have "arp_find 7 busy_net = None" by (auto simp: arp_find_def find_None_iff busy_net_def quiet_net_def)
  then show ?thesis using arp_resolve_deadlock [of busy_net "[1]" "[]" _ 1 7 7 9, OF _ _ _ _ p] by (simp add: busy_net_def) (simp add: quiet_net_def)
qed

section \<open>Control blocks of the wrong kind\<close>

text \<open>A stream socket created with the protocol number of UDP gets a control block of UDP, but every later call goes by the
  socket's type and uses it as one of TCP: binding, listening, connecting, sending and closing all do.\<close>
theorem socreate_kind_confusion:
  assumes "socreate AF_INET True SOCK_STREAM (uint IPPROTO_UDP) s = (CHIMERA_SUCCESS, Some so, s')" and "sin_family a = AF_INET"
  shows "sobind (Some so) (Some a) s' = None \<and> solisten (Some so) n s' = None \<and> soconnect out poll (Some so) (Some a) s' = None \<and>
    sosend out (Some so) None (Some bs) s' = None \<and> soclose out (Some so) s' = None"
proof -
  obtain i where "so_type (sock s' so) = SOCK_STREAM" "so_signature (sock s' so) = CHIMERA_SOCKET_MAGIC" "so_pcb (sock s' so) = Some (UDP_PCB i)"
    using assms(1) by (auto simp: socreate_def udp_attach_def AF_INET_def AF_UNIX_def IPPROTO_UDP_def Let_def upd_so_def upd_up_def fresh_socket_def to_i16_def SOCK_STREAM_def split: option.splits if_splits prod.splits)
  then show ?thesis using assms(2)
    by (simp add: sobind_def solisten_def soconnect_def sosend_def soclose_def SOCK_STREAM_def SOCK_DGRAM_def tcp_bind_def tcp_listen_def tcp_connect_def
        tcp_send_def tcp_close_def as_tcp_def upd_so_def)
qed

theorem socreate_kind_confusion_witness:
  "\<exists>s'. socreate AF_INET True SOCK_STREAM (uint IPPROTO_UDP) quiet_net = (CHIMERA_SUCCESS, Some 0, s') \<and>
    sobind (Some 0) (Some \<lparr>sin_family = AF_INET, sin_port = htons 80, sin_addr = LO\<rparr>) s' = None"
proof -
  have f: "free_socket_slot quiet_net = Some 0" "find (\<lambda>i. up_so (up (upd_so 0 g quiet_net) i) = None) [0..<UDP_MAX_SOCKETS] = Some 0" for g
    by (auto simp: free_socket_slot_def find_Some_iff MAX_SOCKETS_def UDP_MAX_SOCKETS_def CHIMERA_SOCKET_MAGIC_def quiet_net_sel upd_so_def quiet_net_def intro!: exI [of _ "0 :: nat"])
  obtain s' where s': "socreate AF_INET True SOCK_STREAM (uint IPPROTO_UDP) quiet_net = (CHIMERA_SUCCESS, Some 0, s')"
    by (simp add: socreate_def f udp_attach_def Let_def IPPROTO_UDP_def)
  show ?thesis using socreate_kind_confusion [OF s', of "\<lparr>sin_family = AF_INET, sin_port = htons 80, sin_addr = LO\<rparr>"] s' by auto
qed

end
