(* ===== verification/Bsd.thy ===== *)
theory Bsd
  imports Ipc_Syscall Pty Net_Socket
begin

text \<open>
  The data of the BSD layer: vnodes (\<^verbatim>\<open>include/kernel/vfs_node.h\<close>), open files
  (\<^verbatim>\<open>include/kernel/fileproc.h\<close>), processes (\<^verbatim>\<open>include/kernel/proc.h\<close>), the path registry of
  \<^verbatim>\<open>kernel/vfs/vfs.c\<close>, and the state that joins them with the Mach layer, the pipes and the network.
  Vnodes and open files are named by where they live: a static object, an index into a pool, or an address
  of the kernel heap. The kernel memory is the one of the scheduler state, as in the Mach layer.
\<close>

unbundle bit_operations_syntax

section \<open>Vnodes\<close>

definition VREG :: u16 where "VREG = 1"
definition VDIR :: u16 where "VDIR = 2"
definition VBLK :: u16 where "VBLK = 3"
definition VCHR :: u16 where "VCHR = 4"
definition VSOCK :: u16 where "VSOCK = 6"
definition VFIFO :: u16 where "VFIFO = 7"
definition VN_ROOT :: u32 where "VN_ROOT = 0x1"
definition VN_SYSTEM :: u32 where "VN_SYSTEM = 0x40"
definition CHIMERA_VNODE_MAGIC :: u64 where "CHIMERA_VNODE_MAGIC = 0x584955564E4F4445"

text \<open>The tables of operations a vnode can point to.\<close>
datatype vnode_ops =
    s_root_ops | s_null_ops | s_console_ops | s_fb_ops | s_serial_ops | s_mouse_ops | s_kbd_ops | s_disk_ops
  | s_dev_dir_ops | s_pipe_read_ops | s_pipe_write_ops | s_pty_master_ops | s_pty_slave_ops
  | s_fat32_file_ops | s_fat32_dir_ops

fun vop_name :: "vnode_ops \<Rightarrow> string" where
  "vop_name s_root_ops = ''rootfs''"
| "vop_name s_null_ops = ''devfs_null''"
| "vop_name s_console_ops = ''devfs_console''"
| "vop_name s_fb_ops = ''devfs_fb''"
| "vop_name s_serial_ops = ''devfs_serial''"
| "vop_name s_mouse_ops = ''devfs_mouse''"
| "vop_name s_kbd_ops = ''devfs_kbd''"
| "vop_name s_disk_ops = ''devfs_disk''"
| "vop_name s_dev_dir_ops = ''devfs_dir''"
| "vop_name s_pipe_read_ops = ''pipe_read''"
| "vop_name s_pipe_write_ops = ''pipe_write''"
| "vop_name s_pty_master_ops = ''pty_master''"
| "vop_name s_pty_slave_ops = ''pty_slave''"
| "vop_name s_fat32_file_ops = ''fat32_file''"
| "vop_name s_fat32_dir_ops = ''fat32_dir''"

text \<open>Where a vnode lives: the root object, the pool of \<^verbatim>\<open>vfs.c\<close>, the static device nodes in the order of
  their declarations, inside a pipe, or among the nodes of the FAT32 driver.\<close>
datatype vnode_ref = VN_ROOTOBJ | VN_POOL nat | VN_DEV nat | VN_PIPE nat pipe_end | VN_FAT nat

text \<open>\<^verbatim>\<open>v_data\<close>: nothing, the pipe, the bytes of a boot module (by address), or the node of the FAT32 driver.\<close>
datatype vnode_data = D_NULL | D_PIPE nat | D_MODULE u64 | D_FAT nat

record vattr =
  va_mode :: u16
  va_uid :: u32
  va_gid :: u32
  va_size :: u64

record vnode =
  v_signature :: u64
  v_type :: u16
  v_flags :: u32
  v_iocount :: u32
  v_usecount :: u32
  v_op :: "vnode_ops option"
  v_data :: vnode_data
  v_name :: string
  v_parent :: "vnode_ref option"
  v_children :: "vnode_ref option"
  v_sibling_next :: "vnode_ref option"
  v_attr :: vattr

text \<open>A vnode after \<^verbatim>\<open>memset\<close> to zero.\<close>
definition zero_vnode :: vnode where
  "zero_vnode = \<lparr>v_signature = 0, v_type = 0, v_flags = 0, v_iocount = 0, v_usecount = 0, v_op = None, v_data = D_NULL,
     v_name = [], v_parent = None, v_children = None, v_sibling_next = None,
     v_attr = \<lparr>va_mode = 0, va_uid = 0, va_gid = 0, va_size = 0\<rparr>\<rparr>"

text \<open>The node behind a FAT32 vnode (\<^verbatim>\<open>fat32_node_data_t\<close>; the pointer back to the vnode has the same index).\<close>
record fat32_node_data =
  start_cluster :: u32
  file_size :: u32
  is_dir :: bool
  fn_path :: string
  parent_dir_cluster :: u32
  dir_entry_offset :: u32

section \<open>Open files\<close>

definition FP_CLOEXEC :: u32 where "FP_CLOEXEC = 0x1"
definition FP_NONBLOCK :: u32 where "FP_NONBLOCK = 0x2"
definition FP_READABLE :: u32 where "FP_READABLE = 0x4"
definition FP_WRITABLE :: u32 where "FP_WRITABLE = 0x8"
definition FP_DEVICE :: u32 where "FP_DEVICE = 0x20"
definition FP_DYNAMIC_ALLOC :: u32 where "FP_DYNAMIC_ALLOC = 0x80000000"
definition DTYPE_VNODE :: u32 where "DTYPE_VNODE = 1"
definition DTYPE_SOCKET :: u32 where "DTYPE_SOCKET = 2"
definition DTYPE_PIPE :: u32 where "DTYPE_PIPE = 3"
definition FD_CLOEXEC :: u8 where "FD_CLOEXEC = 1"
definition CHIMERA_FILEPROC_MAGIC :: u64 where "CHIMERA_FILEPROC_MAGIC = 0x4644455343522121"

text \<open>The union of \<^verbatim>\<open>fp_vnode\<close>, \<^verbatim>\<open>fp_socket\<close> and \<^verbatim>\<open>fp_data\<close>: what the pointer was stored as.\<close>
datatype fp_object = FP_NULL | FP_VNODE vnode_ref | FP_SOCKET nat

record chimera_fileproc =
  fp_signature :: u64
  fp_flags :: u32
  fp_type :: u32
  fp_refcount :: u32
  fp_object :: fp_object
  fp_offset :: u64

text \<open>Where an open file lives: in the static pool or on the kernel heap.\<close>
datatype fp_ref = FP_POOL nat | FP_HEAP nat

section \<open>Processes\<close>

definition CHIMERA_PROC_MAX_FDS :: nat where "CHIMERA_PROC_MAX_FDS = 256"
definition PROC_POOL_SIZE :: nat where "PROC_POOL_SIZE = 256"
definition CHIMERA_PROC_NAME_MAX :: nat where "CHIMERA_PROC_NAME_MAX = 32"
definition CHIMERA_PROC_MAGIC :: u64 where "CHIMERA_PROC_MAGIC = 0x50524F4321212121"
definition CHIMERA_THREAD_MAGIC :: u64 where "CHIMERA_THREAD_MAGIC = 0x5448524541442121"
definition CHIMERA_TASK_MAGIC :: u64 where "CHIMERA_TASK_MAGIC = 0x5441534b21212121"
definition PROC_STATE_RUNNING :: u32 where "PROC_STATE_RUNNING = 1"
definition PROC_STATE_EXITED :: u32 where "PROC_STATE_EXITED = 2"

text \<open>A process is named by its index in the pool; the object of the kernel process comes after the pool.\<close>
definition KERNEL_PROC :: nat where "KERNEL_PROC = 256"

record chimera_proc =
  p_signature :: u64
  p_pid :: u32
  p_ppid :: u32
  p_parent :: "nat option"
  p_comm :: string
  p_login :: string
  p_task :: "nat option"
  p_uid :: u32
  p_euid :: u32
  p_svuid :: u32
  p_gid :: u32
  p_egid :: u32
  p_svgid :: u32
  p_groups :: "nat \<Rightarrow> u32"
  p_ngroups :: u32
  p_pgrp :: u32
  p_sid :: u32
  p_umask :: u32
  p_cwd :: "vnode_ref option"
  p_text_node :: "vnode_ref option"
  p_fd_table :: "nat \<Rightarrow> fp_ref option"
  p_fd_flags :: "nat \<Rightarrow> u8"
  p_exit_code :: u32
  p_state :: u32
  p_sigmask :: u32
  p_sigpending :: u32
  p_sigacts :: "nat \<Rightarrow> u64"
  p_sigact_flags :: "nat \<Rightarrow> u32"
  p_sigact_mask :: "nat \<Rightarrow> u32"

definition zero_proc :: chimera_proc where
  "zero_proc = \<lparr>p_signature = 0, p_pid = 0, p_ppid = 0, p_parent = None, p_comm = [], p_login = [], p_task = None,
     p_uid = 0, p_euid = 0, p_svuid = 0, p_gid = 0, p_egid = 0, p_svgid = 0, p_groups = (\<lambda>_. 0), p_ngroups = 0,
     p_pgrp = 0, p_sid = 0, p_umask = 0, p_cwd = None, p_text_node = None, p_fd_table = (\<lambda>_. None), p_fd_flags = (\<lambda>_. 0),
     p_exit_code = 0, p_state = 0, p_sigmask = 0, p_sigpending = 0, p_sigacts = (\<lambda>_. 0), p_sigact_flags = (\<lambda>_. 0),
     p_sigact_mask = (\<lambda>_. 0)\<rparr>"

section \<open>Saved user registers and shared mappings\<close>

text \<open>The registers that the entry of a system call saves (\<^verbatim>\<open>syscall_user_frame_t\<close>).\<close>
record syscall_user_frame =
  f_r15 :: u64
  f_r14 :: u64
  f_r13 :: u64
  f_r12 :: u64
  f_rbx :: u64
  f_rbp :: u64
  f_rip :: u64
  f_rflags :: u64
  f_rsp :: u64

definition CHIMERA_MMAP_KIND_SHM :: u16 where "CHIMERA_MMAP_KIND_SHM = 0"
definition CHIMERA_MMAP_KIND_SURFACE :: u16 where "CHIMERA_MMAP_KIND_SURFACE = 1"
definition CHIMERA_MMAP_KIND_FB :: u16 where "CHIMERA_MMAP_KIND_FB = 2"

text \<open>A record of a shared mapping; \<open>mr_addr\<close> is where it lies on the kernel heap.\<close>
record chimera_mmap_record =
  mr_addr :: nat
  mr_start :: u64
  mr_len :: u64
  mr_kind :: u16
  mr_index :: u16

record chimera_shm_entry =
  shm_vp :: "vnode_ref option"
  shm_page_count :: u32
  shm_map_count :: u32
  shm_pages :: "nat \<Rightarrow> u64"

section \<open>The state\<close>

text \<open>A slot of the registry: \<^verbatim>\<open>ve_path\<close> and \<^verbatim>\<open>ve_vnode\<close>.\<close>
record vfs_entry =
  ve_path :: string
  ve_vnode :: "vnode_ref option"

text \<open>\<open>ta_threads\<close> lists the threads of a task in the order of \<^verbatim>\<open>th_task_next\<close>, \<open>ta_mmap_records\<close> its records in
  the order of their links.\<close>
record bsd_state =
  b_ipc :: ipc_state
  b_net :: net_state
  b_pipes :: "nat \<Rightarrow> chimera_pipe"
  b_pty :: pty
  b_vnodes :: "vnode_ref \<Rightarrow> vnode"
  s_registry :: "nat \<Rightarrow> vfs_entry"
  s_rootfs_vnode_count :: nat
  s_fat_data :: "nat \<Rightarrow> fat32_node_data"
  b_fps :: "fp_ref \<Rightarrow> chimera_fileproc"
  s_fp_used :: "nat \<Rightarrow> bool"
  b_procs :: "nat \<Rightarrow> chimera_proc"
  s_pid_seq :: u32
  ta_proc :: "nat \<Rightarrow> nat option"
  ta_signature :: "nat \<Rightarrow> u64"
  ta_threads :: "nat \<Rightarrow> nat list"
  ta_thread_count :: "nat \<Rightarrow> u32"
  proc_launchd :: "nat option"
  th_syscall_frame :: "nat \<Rightarrow> syscall_user_frame option"
  th_signature :: "nat \<Rightarrow> u64"
  th_fork_frame :: "nat \<Rightarrow> syscall_user_frame option"
  th_fork_return_value :: "nat \<Rightarrow> u64"
  th_is_fork_child :: "nat \<Rightarrow> bool"
  ta_mmap_records :: "nat \<Rightarrow> chimera_mmap_record list"
  s_shm_entries :: "nat \<Rightarrow> chimera_shm_entry"
  s_surface_phys :: "nat \<Rightarrow> nat \<Rightarrow> u64"
  s_surface_refs :: "nat \<Rightarrow> u32"

abbreviation vnd :: "bsd_state \<Rightarrow> vnode_ref \<Rightarrow> vnode" where "vnd s v \<equiv> b_vnodes s v"
abbreviation fpr :: "bsd_state \<Rightarrow> fp_ref \<Rightarrow> chimera_fileproc" where "fpr s r \<equiv> b_fps s r"
abbreviation prc :: "bsd_state \<Rightarrow> nat \<Rightarrow> chimera_proc" where "prc s p \<equiv> b_procs s p"

definition upd_vn :: "vnode_ref \<Rightarrow> (vnode \<Rightarrow> vnode) \<Rightarrow> bsd_state \<Rightarrow> bsd_state" where
  "upd_vn v f s = s\<lparr>b_vnodes := (b_vnodes s)(v := f (vnd s v))\<rparr>"

definition upd_fp :: "fp_ref \<Rightarrow> (chimera_fileproc \<Rightarrow> chimera_fileproc) \<Rightarrow> bsd_state \<Rightarrow> bsd_state" where
  "upd_fp r f s = s\<lparr>b_fps := (b_fps s)(r := f (fpr s r))\<rparr>"

definition upd_proc :: "nat \<Rightarrow> (chimera_proc \<Rightarrow> chimera_proc) \<Rightarrow> bsd_state \<Rightarrow> bsd_state" where
  "upd_proc p f s = s\<lparr>b_procs := (b_procs s)(p := f (prc s p))\<rparr>"

text \<open>The kernel memory.\<close>
definition b_km :: "bsd_state \<Rightarrow> kmem" where "b_km s = sc_km (i_sched (b_ipc s))"

definition set_km :: "kmem \<Rightarrow> bsd_state \<Rightarrow> bsd_state" where
  "set_km k s = s\<lparr>b_ipc := (b_ipc s)\<lparr>i_sched := (i_sched (b_ipc s))\<lparr>sc_km := k\<rparr>\<rparr>\<rparr>"

definition set_fd :: "nat \<Rightarrow> nat \<Rightarrow> fp_ref option \<Rightarrow> bsd_state \<Rightarrow> bsd_state" where
  "set_fd p i r = upd_proc p (\<lambda>q. q\<lparr>p_fd_table := (p_fd_table q)(i := r)\<rparr>)"

definition set_fd_flags :: "nat \<Rightarrow> nat \<Rightarrow> u8 \<Rightarrow> bsd_state \<Rightarrow> bsd_state" where
  "set_fd_flags p i f = upd_proc p (\<lambda>q. q\<lparr>p_fd_flags := (p_fd_flags q)(i := f)\<rparr>)"

end
