(* ===== verification/Fileproc.thy ===== *)
theory Fileproc
  imports Bsd
begin

text \<open>
  Open files and descriptor tables, \<^verbatim>\<open>kernel/bsd/fileproc.c\<close>. An operation runs under the lock it takes, so it
  is one step here. \<open>None\<close> is a failed assertion or a pointer of the wrong kind followed; \<open>out\<close> is how the network
  stack sends a packet (closing a connection does). A null process or open file is \<open>None\<close> among the arguments.
\<close>

unbundle bit_operations_syntax

definition FILEPROC_POOL_SIZE :: nat where "FILEPROC_POOL_SIZE = 512"
definition SIZEOF_FILEPROC :: nat where "SIZEOF_FILEPROC = 104"

section \<open>Allocation and release\<close>

text \<open>The first half of both allocators: a free place of the pool, or else of the heap; the flag is \<^verbatim>\<open>dynamic\<close>.\<close>
definition fp_take :: "bsd_state \<Rightarrow> (fp_ref option \<times> bool \<times> bsd_state) option" where
  "fp_take s =
     (case List.find (\<lambda>i. \<not> s_fp_used s i) [0..<FILEPROC_POOL_SIZE] of
        Some i \<Rightarrow> Some (Some (FP_POOL i), False, s\<lparr>s_fp_used := (s_fp_used s)(i := True)\<rparr>)
      | None \<Rightarrow> do {
          (a, k) \<leftarrow> kalloc SIZEOF_FILEPROC (b_km s);
          Some (if a = 0 then None else Some (FP_HEAP a), True, set_km k s)
        })"

definition fp_alloc :: "vnode_ref option \<Rightarrow> u32 \<Rightarrow> bsd_state \<Rightarrow> (fp_ref option \<times> bsd_state) option" where
  "fp_alloc vp flags s =
     (case vp of
        None \<Rightarrow> None
      | Some v \<Rightarrow> do {
          (r, dynamic, s) \<leftarrow> fp_take s;
          (case r of
             None \<Rightarrow> Some (None, s)
           | Some fp \<Rightarrow>
               let fl = flags OR FP_READABLE;
                   fl = (if dynamic then fl OR FP_DYNAMIC_ALLOC else fl);
                   fl = (if flags AND FP_WRITABLE \<noteq> 0 then fl OR FP_WRITABLE else fl);
                   fl = (if v_type (vnd s v) = VCHR \<or> v_type (vnd s v) = VBLK then fl OR FP_DEVICE else fl);
                   s = upd_fp fp (\<lambda>_. \<lparr>fp_signature = CHIMERA_FILEPROC_MAGIC, fp_flags = fl, fp_type = DTYPE_VNODE,
                         fp_refcount = 1, fp_object = FP_VNODE v, fp_offset = 0\<rparr>) s
               in Some (Some fp, upd_vn v (\<lambda>x. x\<lparr>v_iocount := v_iocount x + 1\<rparr>) s))
        })"

definition fp_alloc_socket :: "nat option \<Rightarrow> u32 \<Rightarrow> bsd_state \<Rightarrow> (fp_ref option \<times> bsd_state) option" where
  "fp_alloc_socket so flags s =
     (case so of
        None \<Rightarrow> Some (None, s)
      | Some n \<Rightarrow> do {
          (r, dynamic, s) \<leftarrow> fp_take s;
          (case r of
             None \<Rightarrow> Some (None, s)
           | Some fp \<Rightarrow>
               let fl = flags OR FP_READABLE OR FP_WRITABLE;
                   fl = (if dynamic then fl OR FP_DYNAMIC_ALLOC else fl)
               in Some (Some fp, upd_fp fp (\<lambda>_. \<lparr>fp_signature = CHIMERA_FILEPROC_MAGIC, fp_flags = fl,
                    fp_type = DTYPE_SOCKET, fp_refcount = 1, fp_object = FP_SOCKET n, fp_offset = 0\<rparr>) s))
        })"

definition fp_retain :: "fp_ref \<Rightarrow> bsd_state \<Rightarrow> bsd_state" where
  "fp_retain fp = upd_fp fp (\<lambda>f. f\<lparr>fp_refcount := fp_refcount f + 1\<rparr>)"

text \<open>The two readings of the union: each fails on a pointer of the other kind.\<close>
definition fp_vnode :: "chimera_fileproc \<Rightarrow> vnode_ref option option" where
  "fp_vnode f = (case fp_object f of FP_NULL \<Rightarrow> Some None | FP_VNODE v \<Rightarrow> Some (Some v) | FP_SOCKET _ \<Rightarrow> None)"

definition fp_socket :: "chimera_fileproc \<Rightarrow> nat option option" where
  "fp_socket f = (case fp_object f of FP_NULL \<Rightarrow> Some None | FP_SOCKET n \<Rightarrow> Some (Some n) | FP_VNODE _ \<Rightarrow> None)"

text \<open>What the last release does with the object behind the file.\<close>
definition fp_drop_object :: "out_fn \<Rightarrow> fp_ref \<Rightarrow> bsd_state \<Rightarrow> bsd_state option" where
  "fp_drop_object out fp s =
     (let f = fpr s fp; drop_vnode = (\<lambda>s. do {
            r \<leftarrow> fp_vnode f;
            (case r of
               None \<Rightarrow> Some s
             | Some v \<Rightarrow> Some (upd_fp fp (\<lambda>f. f\<lparr>fp_object := FP_NULL\<rparr>)
                 (upd_vn v (\<lambda>x. if v_iocount x > 0 then x\<lparr>v_iocount := v_iocount x - 1\<rparr> else x) s)))
          }) in
      if fp_type f = DTYPE_SOCKET then do {
        r \<leftarrow> fp_socket f;
        (case r of
           None \<Rightarrow> drop_vnode s
         | Some so \<Rightarrow> do {
             (_, n) \<leftarrow> soclose out (Some so) (b_net s);
             Some (upd_fp fp (\<lambda>f. f\<lparr>fp_object := FP_NULL\<rparr>) (s\<lparr>b_net := n\<rparr>))
           })
      } else drop_vnode s)"

text \<open>The return of the memory: to the heap, or to the pool when the pointer is one of its places.\<close>
definition fp_free :: "fp_ref \<Rightarrow> bsd_state \<Rightarrow> bsd_state option" where
  "fp_free fp s =
     (let is_dyn = fp_flags (fpr s fp) AND FP_DYNAMIC_ALLOC \<noteq> 0;
          s = upd_fp fp (\<lambda>f. f\<lparr>fp_signature := 0xDEADDEADDEADDEAD\<rparr>) s
      in case fp of
           FP_HEAP a \<Rightarrow> if is_dyn then Some (set_km (kfree a (b_km s)) s) else Some s
         | FP_POOL i \<Rightarrow> if is_dyn then None
             else if i < FILEPROC_POOL_SIZE then Some (s\<lparr>s_fp_used := (s_fp_used s)(i := False)\<rparr>) else Some s)"

definition fp_release :: "out_fn \<Rightarrow> fp_ref option \<Rightarrow> bsd_state \<Rightarrow> bsd_state option" where
  "fp_release out r s =
     (case r of
        None \<Rightarrow> Some s
      | Some fp \<Rightarrow>
          if fp_signature (fpr s fp) \<noteq> CHIMERA_FILEPROC_MAGIC then None
          else let prev = fp_refcount (fpr s fp);
                   s = upd_fp fp (\<lambda>f. f\<lparr>fp_refcount := fp_refcount f - 1\<rparr>) s
               in if prev > 1 then Some s
                  else do { s \<leftarrow> fp_drop_object out fp s; fp_free fp s })"

section \<open>The descriptor table\<close>

definition proc_fd_alloc_from :: "nat option \<Rightarrow> fp_ref option \<Rightarrow> int \<Rightarrow> bsd_state \<Rightarrow> (int \<times> bsd_state) option" where
  "proc_fd_alloc_from pr r min_fd s =
     (case (pr, r) of
        (Some p, Some fp) \<Rightarrow>
          let min_fd = (if min_fd < 0 then 0 else min_fd) in
          if min_fd \<ge> int CHIMERA_PROC_MAX_FDS then Some (- 1, s)
          else (case List.find (\<lambda>i. p_fd_table (prc s p) i = None) [nat min_fd..<CHIMERA_PROC_MAX_FDS] of
                  None \<Rightarrow> Some (- 1, s)
                | Some i \<Rightarrow> Some (int i, set_fd_flags p i 0 (set_fd p i (Some fp) (fp_retain fp s))))
      | _ \<Rightarrow> None)"

definition proc_fd_install :: "nat option \<Rightarrow> fp_ref option \<Rightarrow> bsd_state \<Rightarrow> (int \<times> bsd_state) option" where
  "proc_fd_install p fp = proc_fd_alloc_from p fp 0"

definition bad_fd :: "int \<Rightarrow> bool" where
  "bad_fd fd \<longleftrightarrow> fd < 0 \<or> fd \<ge> int CHIMERA_PROC_MAX_FDS"

definition proc_fd_lookup :: "nat option \<Rightarrow> int \<Rightarrow> bsd_state \<Rightarrow> fp_ref option \<times> bsd_state" where
  "proc_fd_lookup pr fd s =
     (case pr of
        None \<Rightarrow> (None, s)
      | Some p \<Rightarrow>
          if bad_fd fd then (None, s)
          else case p_fd_table (prc s p) (nat fd) of
            None \<Rightarrow> (None, s)
          | Some fp \<Rightarrow> (Some fp, fp_retain fp s))"

definition proc_fd_get_flags :: "nat option \<Rightarrow> int \<Rightarrow> bsd_state \<Rightarrow> u8" where
  "proc_fd_get_flags pr fd s =
     (case pr of
        None \<Rightarrow> 0
      | Some p \<Rightarrow> if bad_fd fd then 0
          else if p_fd_table (prc s p) (nat fd) \<noteq> None then p_fd_flags (prc s p) (nat fd) else 0)"

definition proc_fd_set_flags :: "nat option \<Rightarrow> int \<Rightarrow> u8 \<Rightarrow> bsd_state \<Rightarrow> bsd_state" where
  "proc_fd_set_flags pr fd flags s =
     (case pr of
        None \<Rightarrow> s
      | Some p \<Rightarrow> if bad_fd fd then s
          else if p_fd_table (prc s p) (nat fd) \<noteq> None then set_fd_flags p (nat fd) flags s else s)"

definition proc_fd_close :: "out_fn \<Rightarrow> nat option \<Rightarrow> int \<Rightarrow> bsd_state \<Rightarrow> (chimera_error \<times> bsd_state) option" where
  "proc_fd_close out pr fd s =
     (case pr of
        None \<Rightarrow> Some (CHIMERA_ERR_INVALID, s)
      | Some p \<Rightarrow>
          if bad_fd fd then Some (CHIMERA_ERR_INVALID, s)
          else case p_fd_table (prc s p) (nat fd) of
            None \<Rightarrow> Some (CHIMERA_ERR_INVALID, s)
          | Some fp \<Rightarrow> do {
              s \<leftarrow> fp_release out (Some fp) (set_fd_flags p (nat fd) 0 (set_fd p (nat fd) None s));
              Some (CHIMERA_SUCCESS, s)
            })"

text \<open>The loop of \<^verbatim>\<open>proc_fd_close_cloexec\<close> over the descriptors \<open>is\<close>.\<close>
fun close_cloexec :: "out_fn \<Rightarrow> nat \<Rightarrow> nat list \<Rightarrow> bsd_state \<Rightarrow> bsd_state option" where
  "close_cloexec out p [] s = Some s"
| "close_cloexec out p (i # is) s =
     (case p_fd_table (prc s p) i of
        None \<Rightarrow> close_cloexec out p is s
      | Some fp \<Rightarrow>
          if p_fd_flags (prc s p) i AND FD_CLOEXEC \<noteq> 0 then do {
            s \<leftarrow> fp_release out (Some fp) (set_fd_flags p i 0 (set_fd p i None s));
            close_cloexec out p is s
          } else close_cloexec out p is s)"

definition proc_fd_close_cloexec :: "out_fn \<Rightarrow> nat option \<Rightarrow> bsd_state \<Rightarrow> bsd_state option" where
  "proc_fd_close_cloexec out pr s =
     (case pr of None \<Rightarrow> Some s | Some p \<Rightarrow> close_cloexec out p [0..<CHIMERA_PROC_MAX_FDS] s)"

section \<open>Polling\<close>

text \<open>Ready for reading when \<open>rd\<close>, always ready for writing: the answer of most devices and of files.\<close>
definition poll_ready :: "bool \<Rightarrow> u16 \<Rightarrow> u16" where
  "poll_ready r events = (if events AND POLLIN \<noteq> 0 \<and> r then POLLIN else 0) OR (if events AND POLLOUT \<noteq> 0 then POLLOUT else 0)"

text \<open>\<^verbatim>\<open>pipe_poll\<close> on a vnode: its pipe, and the end by its operations table.\<close>
definition vnode_pipe_poll :: "vnode_ref \<Rightarrow> u16 \<Rightarrow> bsd_state \<Rightarrow> u16 option" where
  "vnode_pipe_poll v events s =
     (let w = \<lparr>s_pipes = b_pipes s, pw_sched = i_sched (b_ipc s), pw_sigpipe = []\<rparr> in
      case v_data (vnd s v) of
        D_NULL \<Rightarrow> Some POLLNVAL
      | D_PIPE i \<Rightarrow> Some (pipe_poll (Some (i, if v_op (vnd s v) = Some s_pipe_read_ops then READ_END else WRITE_END)) events w)
      | _ \<Rightarrow> None)"

text \<open>\<open>con\<close>, \<open>mouse\<close> and \<open>kbd\<close> tell whether the console, mouse and keyboard drivers hold input.\<close>
definition poll_chr :: "bool \<Rightarrow> bool \<Rightarrow> bool \<Rightarrow> vnode_ops option \<Rightarrow> u16 \<Rightarrow> bsd_state \<Rightarrow> u16" where
  "poll_chr con mouse kbd ops events s =
     (case ops of
        None \<Rightarrow> poll_ready True events
      | Some t \<Rightarrow>
          if vop_name t = ''devfs_console'' \<or> vop_name t = ''devfs_tty'' then poll_ready con events
          else if vop_name t = ''pty_master'' then pty_master_poll events (b_pty s)
          else if vop_name t = ''pty_slave'' then pty_slave_poll events (b_pty s)
          else if vop_name t = ''devfs_mouse'' then poll_ready mouse events
          else if vop_name t = ''devfs_kbd'' then poll_ready kbd events
          else if vop_name t = ''devfs_null'' then poll_ready True events
          else poll_ready True events)"

definition fileproc_poll :: "bool \<Rightarrow> bool \<Rightarrow> bool \<Rightarrow> fp_ref option \<Rightarrow> u16 \<Rightarrow> bsd_state \<Rightarrow> u16 option" where
  "fileproc_poll con mouse kbd r events s =
     (case r of
        None \<Rightarrow> Some POLLNVAL
      | Some fp \<Rightarrow>
          let f = fpr s fp in
          if fp_signature f \<noteq> CHIMERA_FILEPROC_MAGIC then Some POLLNVAL
          else if fp_type f = DTYPE_SOCKET then do {
            so \<leftarrow> fp_socket f;
            Some (if so = None then POLLNVAL else sopoll so events (b_net s))
          } else do {
            vp \<leftarrow> fp_vnode f;
            (case vp of
               None \<Rightarrow> Some POLLNVAL
             | Some v \<Rightarrow>
                 if fp_type f = DTYPE_PIPE then vnode_pipe_poll v events s
                 else if fp_type f = DTYPE_VNODE then
                   (if v_type (vnd s v) = VFIFO then vnode_pipe_poll v events s
                    else if v_type (vnd s v) = VCHR then Some (poll_chr con mouse kbd (v_op (vnd s v)) events s)
                    else Some (poll_ready True events))
                 else Some POLLNVAL)
          })"

end
