(* ===== verification/Fd_Syscall.thy ===== *)
theory Fd_Syscall
  imports Fileproc
begin

text \<open>
  The system calls on descriptors, \<^verbatim>\<open>kernel/bsd/syscall.c\<close>: closing, duplicating, \<^verbatim>\<open>fcntl\<close>, seeking, changing
  directory and owner, and the calls that create descriptors for pipes and sockets. A call returns the value of
  the C function and the new state; \<open>None\<close> is a panic or a pointer of the wrong kind followed.
\<close>

unbundle bit_operations_syntax

text \<open>The conversion of an argument register to \<^verbatim>\<open>int\<close> or \<^verbatim>\<open>i64\<close>.\<close>
definition to_int :: "u64 \<Rightarrow> int" where "to_int x = sint (ucast x :: u32)"
definition to_i64 :: "u64 \<Rightarrow> int" where "to_i64 x = sint x"

text \<open>The process of the thread that runs on a CPU: \<^verbatim>\<open>task ? task->ta_proc : nullptr\<close>.\<close>
definition cur_proc :: "nat \<Rightarrow> bsd_state \<Rightarrow> nat option" where
  "cur_proc my_cpu s = (case current_task my_cpu (b_ipc s) of None \<Rightarrow> None | Some t \<Rightarrow> ta_proc s t)"

section \<open>Closing and duplicating\<close>

definition sys_close :: "out_fn \<Rightarrow> nat \<Rightarrow> u64 \<Rightarrow> bsd_state \<Rightarrow> (int \<times> bsd_state) option" where
  "sys_close out my_cpu fd_u s =
     (case cur_proc my_cpu s of
        None \<Rightarrow> Some (- 1, s)
      | Some p \<Rightarrow> do {
          (err, s) \<leftarrow> proc_fd_close out (Some p) (to_int fd_u) s;
          Some (if err = CHIMERA_SUCCESS then 0 else - 1, s)
        })"

definition sys_dup :: "out_fn \<Rightarrow> nat \<Rightarrow> u64 \<Rightarrow> bsd_state \<Rightarrow> (int \<times> bsd_state) option" where
  "sys_dup out my_cpu fd_u s =
     (let fd = to_int fd_u in
      case cur_proc my_cpu s of
        None \<Rightarrow> Some (- 9, s)
      | Some p \<Rightarrow>
          if bad_fd fd then Some (- 9, s)
          else case proc_fd_lookup (Some p) fd s of
            (None, s) \<Rightarrow> Some (- 9, s)
          | (Some fp, s) \<Rightarrow> do {
              (newfd, s) \<leftarrow> proc_fd_alloc_from (Some p) (Some fp) 0 s;
              s \<leftarrow> fp_release out (Some fp) s;
              Some (if newfd \<ge> 0 then newfd else - 24, s)
            })"

definition sys_dup2 :: "out_fn \<Rightarrow> nat \<Rightarrow> u64 \<Rightarrow> u64 \<Rightarrow> bsd_state \<Rightarrow> (int \<times> bsd_state) option" where
  "sys_dup2 out my_cpu oldfd_u newfd_u s =
     (let oldfd = to_int oldfd_u; newfd = to_int newfd_u in
      case cur_proc my_cpu s of
        None \<Rightarrow> Some (- 1, s)
      | Some p \<Rightarrow>
          if bad_fd oldfd \<or> bad_fd newfd then Some (- 1, s)
          else if oldfd = newfd then Some (newfd, s)
          else case proc_fd_lookup (Some p) oldfd s of
            (None, s) \<Rightarrow> Some (- 1, s)
          | (Some fp, s) \<Rightarrow> do {
              (_, s) \<leftarrow> proc_fd_close out (Some p) newfd s;
              Some (newfd, set_fd p (nat newfd) (Some fp) s)
            })"

section \<open>fcntl\<close>

definition F_DUPFD :: int where "F_DUPFD = 0"
definition F_GETFD :: int where "F_GETFD = 1"
definition F_SETFD :: int where "F_SETFD = 2"
definition F_GETFL :: int where "F_GETFL = 3"
definition F_SETFL :: int where "F_SETFL = 4"

text \<open>Setting or clearing one flag of an open file.\<close>
definition put_fp_flag :: "u32 \<Rightarrow> bool \<Rightarrow> fp_ref \<Rightarrow> bsd_state \<Rightarrow> bsd_state" where
  "put_fp_flag b on fp = upd_fp fp (\<lambda>f. f\<lparr>fp_flags := (if on then fp_flags f OR b else fp_flags f AND NOT b)\<rparr>)"

definition fcntl_dupfd :: "nat \<Rightarrow> int \<Rightarrow> u64 \<Rightarrow> bsd_state \<Rightarrow> int \<times> bsd_state" where
  "fcntl_dupfd p fd arg s =
     (let start = (if to_int arg < 0 then 0 else to_int arg) in
      if start \<ge> int CHIMERA_PROC_MAX_FDS then (- 1, s)
      else case p_fd_table (prc s p) (nat fd) of
        None \<Rightarrow> (- 1, s)
      | Some fp \<Rightarrow>
          case List.find (\<lambda>i. p_fd_table (prc s p) i = None) [nat start..<CHIMERA_PROC_MAX_FDS] of
            None \<Rightarrow> (- 1, s)
          | Some newfd \<Rightarrow> (int newfd, set_fd p newfd (Some fp) (fp_retain fp s)))"

definition sys_fcntl :: "out_fn \<Rightarrow> nat \<Rightarrow> u64 \<Rightarrow> u64 \<Rightarrow> u64 \<Rightarrow> bsd_state \<Rightarrow> (int \<times> bsd_state) option" where
  "sys_fcntl out my_cpu fd_u cmd_u arg s =
     (let fd = to_int fd_u; cmd = to_int cmd_u in
      case cur_proc my_cpu s of
        None \<Rightarrow> Some (- 1, s)
      | Some p \<Rightarrow>
          if bad_fd fd then Some (- 1, s)
          else if cmd = F_DUPFD then Some (fcntl_dupfd p fd arg s)
          else case proc_fd_lookup (Some p) fd s of
            (None, s) \<Rightarrow> Some (- 1, s)
          | (Some fp, s) \<Rightarrow> do {
              let (ret, s) =
                (if cmd = F_GETFD then (if fp_flags (fpr s fp) AND FP_CLOEXEC \<noteq> 0 then 1 else 0, s)
                 else if cmd = F_SETFD then (0, put_fp_flag FP_CLOEXEC (arg AND 1 \<noteq> 0) fp s)
                 else if cmd = F_GETFL then (if fp_flags (fpr s fp) AND FP_NONBLOCK \<noteq> 0 then 2048 else 0, s)
                 else if cmd = F_SETFL then (0, put_fp_flag FP_NONBLOCK (arg AND 2048 \<noteq> 0) fp s)
                 else (- 1, s));
              s \<leftarrow> fp_release out (Some fp) s;
              Some (ret, s)
            })"

section \<open>Calls on the file behind a descriptor\<close>

definition sys_fchdir :: "out_fn \<Rightarrow> nat \<Rightarrow> u64 \<Rightarrow> bsd_state \<Rightarrow> (int \<times> bsd_state) option" where
  "sys_fchdir out my_cpu fd_u s =
     (case cur_proc my_cpu s of
        None \<Rightarrow> Some (- 9, s)
      | Some p \<Rightarrow>
          if fd_u \<ge> word_of_nat CHIMERA_PROC_MAX_FDS then Some (- 9, s)
          else case proc_fd_lookup (Some p) (to_int fd_u) s of
            (None, s) \<Rightarrow> Some (- 9, s)
          | (Some fp, s) \<Rightarrow> do {
              vp \<leftarrow> fp_vnode (fpr s fp);
              (case vp of
                 None \<Rightarrow> do { s \<leftarrow> fp_release out (Some fp) s; Some (- 20, s) }
               | Some v \<Rightarrow>
                   if v_type (vnd s v) \<noteq> VDIR then do { s \<leftarrow> fp_release out (Some fp) s; Some (- 20, s) }
                   else do {
                     s \<leftarrow> fp_release out (Some fp) (upd_proc p (\<lambda>q. q\<lparr>p_cwd := Some v\<rparr>) s);
                     Some (0, s)
                   })
            })"

text \<open>\<^verbatim>\<open>vop_getattr\<close>: the root file system and FAT32 have it, both copy the attributes of the vnode.\<close>
definition vop_getattr :: "vnode \<Rightarrow> vattr option" where
  "vop_getattr x = (case v_op x of
      Some t \<Rightarrow> if t \<in> {s_root_ops, s_fat32_file_ops, s_fat32_dir_ops} then Some (v_attr x) else None
    | None \<Rightarrow> None)"

text \<open>Where a seek goes; sums wrap at 64 bits. \<open>None\<close> is a bad \<^verbatim>\<open>whence\<close>.\<close>
definition seek_target :: "chimera_fileproc \<Rightarrow> vnode \<Rightarrow> u64 \<Rightarrow> int \<Rightarrow> u64 option" where
  "seek_target f x offset whence =
     (if whence = 0 then Some offset
      else if whence = 1 then Some (fp_offset f + offset)
      else if whence = 2 then
        (case vop_getattr x of Some attr \<Rightarrow> Some (va_size attr + offset) | None \<Rightarrow> Some (fp_offset f + offset))
      else None)"

definition sys_lseek :: "out_fn \<Rightarrow> nat \<Rightarrow> u64 \<Rightarrow> u64 \<Rightarrow> u64 \<Rightarrow> bsd_state \<Rightarrow> (int \<times> bsd_state) option" where
  "sys_lseek out my_cpu fd_u offset_u whence_u s =
     (let fd = to_int fd_u in
      case cur_proc my_cpu s of
        None \<Rightarrow> Some (- 9, s)
      | Some p \<Rightarrow>
          if bad_fd fd then Some (- 9, s)
          else case proc_fd_lookup (Some p) fd s of
            (None, s) \<Rightarrow> Some (- 9, s)
          | (Some fp, s) \<Rightarrow> do {
              vp \<leftarrow> fp_vnode (fpr s fp);
              (case vp of
                 None \<Rightarrow> do { s \<leftarrow> fp_release out (Some fp) s; Some (- 9, s) }
               | Some v \<Rightarrow>
                   if v_type (vnd s v) \<in> {VFIFO, VSOCK, VCHR} then do { s \<leftarrow> fp_release out (Some fp) s; Some (- 29, s) }
                   else case seek_target (fpr s fp) (vnd s v) offset_u (to_int whence_u) of
                     None \<Rightarrow> do { s \<leftarrow> fp_release out (Some fp) s; Some (- 22, s) }
                   | Some new_offset \<Rightarrow>
                       if to_i64 new_offset < 0 then do { s \<leftarrow> fp_release out (Some fp) s; Some (- 22, s) }
                       else do {
                         s \<leftarrow> fp_release out (Some fp) (upd_fp fp (\<lambda>f. f\<lparr>fp_offset := new_offset\<rparr>) s);
                         Some (to_i64 new_offset, s)
                       })
            })"

text \<open>The common frame of \<^verbatim>\<open>fchmod\<close> and \<^verbatim>\<open>fchown\<close>: \<open>ok\<close> is the permission check, \<open>f\<close> the change of the attributes.\<close>
definition fd_setattr :: "(chimera_proc \<Rightarrow> vattr \<Rightarrow> bool) \<Rightarrow> (vattr \<Rightarrow> vattr) \<Rightarrow> out_fn \<Rightarrow> nat \<Rightarrow> u64 \<Rightarrow> bsd_state \<Rightarrow> (int \<times> bsd_state) option" where
  "fd_setattr ok f out my_cpu fd_u s =
     (let fd = to_int fd_u in
      case cur_proc my_cpu s of
        None \<Rightarrow> Some (- 9, s)
      | Some p \<Rightarrow>
          if bad_fd fd then Some (- 9, s)
          else case proc_fd_lookup (Some p) fd s of
            (None, s) \<Rightarrow> Some (- 9, s)
          | (Some fp, s) \<Rightarrow> do {
              vp \<leftarrow> fp_vnode (fpr s fp);
              (case vp of
                 None \<Rightarrow> do { s \<leftarrow> fp_release out (Some fp) s; Some (0, s) }
               | Some v \<Rightarrow>
                   if \<not> ok (prc s p) (v_attr (vnd s v)) then do { s \<leftarrow> fp_release out (Some fp) s; Some (- 1, s) }
                   else do {
                     s \<leftarrow> fp_release out (Some fp) (upd_vn v (\<lambda>x. x\<lparr>v_attr := f (v_attr x)\<rparr>) s);
                     Some (0, s)
                   })
            })"

definition sys_fchmod :: "out_fn \<Rightarrow> nat \<Rightarrow> u64 \<Rightarrow> u64 \<Rightarrow> bsd_state \<Rightarrow> (int \<times> bsd_state) option" where
  "sys_fchmod out my_cpu fd_u mode =
     fd_setattr (\<lambda>q a. p_euid q = 0 \<or> p_euid q = va_uid a) (\<lambda>a. a\<lparr>va_mode := ucast (mode AND 0x1FF)\<rparr>) out my_cpu fd_u"

definition sys_fchown :: "out_fn \<Rightarrow> nat \<Rightarrow> u64 \<Rightarrow> u64 \<Rightarrow> u64 \<Rightarrow> bsd_state \<Rightarrow> (int \<times> bsd_state) option" where
  "sys_fchown out my_cpu fd_u uid gid =
     fd_setattr (\<lambda>q a. p_euid q = 0) (\<lambda>a. a\<lparr>va_uid := ucast uid, va_gid := ucast gid\<rparr>) out my_cpu fd_u"

section \<open>Pipes\<close>

text \<open>\<^verbatim>\<open>pipe_create\<close> on this state: the pipe itself, and the two vnodes embedded in it.\<close>
definition pipe_vnode :: "nat \<Rightarrow> pipe_end \<Rightarrow> vnode" where
  "pipe_vnode i e = zero_vnode\<lparr>v_signature := CHIMERA_VNODE_MAGIC, v_type := VFIFO,
     v_op := Some (case e of READ_END \<Rightarrow> s_pipe_read_ops | WRITE_END \<Rightarrow> s_pipe_write_ops),
     v_data := D_PIPE i, v_usecount := 1, v_name := (case e of READ_END \<Rightarrow> ''pipe_r'' | WRITE_END \<Rightarrow> ''pipe_w'')\<rparr>"

definition bsd_pipe_create :: "bsd_state \<Rightarrow> (vnode_ref \<times> vnode_ref) option \<times> bsd_state" where
  "bsd_pipe_create s =
     (case pipe_create \<lparr>s_pipes = b_pipes s, pw_sched = i_sched (b_ipc s), pw_sigpipe = []\<rparr> of
        (Inl _, _) \<Rightarrow> (None, s)
      | (Inr ((i, _), (j, _)), w) \<Rightarrow>
          (Some (VN_PIPE i READ_END, VN_PIPE j WRITE_END),
           upd_vn (VN_PIPE j WRITE_END) (\<lambda>_. pipe_vnode j WRITE_END)
             (upd_vn (VN_PIPE i READ_END) (\<lambda>_. pipe_vnode i READ_END) (s\<lparr>b_pipes := s_pipes w\<rparr>))))"

text \<open>Closing both descriptors of a failed call.\<close>
definition close_fds :: "out_fn \<Rightarrow> nat \<Rightarrow> int list \<Rightarrow> bsd_state \<Rightarrow> bsd_state option" where
  "close_fds out p fds s =
     fold (\<lambda>fd r. do { s \<leftarrow> r; (_, s) \<leftarrow> proc_fd_close out (Some p) fd s; Some s }) fds (Some s)"

definition sys_pipe :: "out_fn \<Rightarrow> nat \<Rightarrow> u64 \<Rightarrow> bsd_state \<Rightarrow> (int \<times> bsd_state) option" where
  "sys_pipe out my_cpu pipefd_ptr s =
     (if pipefd_ptr = 0 then Some (- 22, s)
      else case cur_proc my_cpu s of
        None \<Rightarrow> Some (- 1, s)
      | Some p \<Rightarrow>
          case bsd_pipe_create s of
            (None, s) \<Rightarrow> Some (- 23, s)
          | (Some (read_vp, write_vp), s) \<Rightarrow> do {
              (rfp, s) \<leftarrow> fp_alloc (Some read_vp) FP_READABLE s;
              (wfp, s) \<leftarrow> fp_alloc (Some write_vp) FP_WRITABLE s;
              (if rfp = None \<or> wfp = None then do {
                 s \<leftarrow> fp_release out rfp s;
                 s \<leftarrow> fp_release out wfp s;
                 Some (- 24, s)
               } else do {
                 (rfd, s) \<leftarrow> proc_fd_install (Some p) rfp s;
                 (wfd, s) \<leftarrow> proc_fd_install (Some p) wfp s;
                 s \<leftarrow> fp_release out rfp s;
                 s \<leftarrow> fp_release out wfp s;
                 (if rfd < 0 \<or> wfd < 0 then do {
                    s \<leftarrow> close_fds out p (filter (\<lambda>fd. fd \<ge> 0) [rfd, wfd]) s;
                    Some (- 24, s)
                  } else do {
                    let (err, pm) = copyout True (le32 (word_of_int rfd) @ le32 (word_of_int wfd)) pipefd_ptr (get_pm (b_ipc s));
                    let s = s\<lparr>b_ipc := set_pm pm (b_ipc s)\<rparr>;
                    (if err \<noteq> CHIMERA_SUCCESS then do { s \<leftarrow> close_fds out p [rfd, wfd] s; Some (- 14, s) }
                     else Some (0, s))
                  })
               })
            })"

section \<open>Sockets\<close>

definition sys_socket :: "out_fn \<Rightarrow> nat \<Rightarrow> u64 \<Rightarrow> u64 \<Rightarrow> u64 \<Rightarrow> bsd_state \<Rightarrow> (int \<times> bsd_state) option" where
  "sys_socket out my_cpu domain type proto s =
     (case cur_proc my_cpu s of
        None \<Rightarrow> Some (- 1, s)
      | Some p \<Rightarrow>
          let (err, so, n) = socreate (to_int domain) True (to_int type) (to_int proto) (b_net s); s = s\<lparr>b_net := n\<rparr> in
          if err \<noteq> CHIMERA_SUCCESS \<or> so = None then Some (- 1, s)
          else do {
            (fp, s) \<leftarrow> fp_alloc_socket so (FP_READABLE OR FP_WRITABLE) s;
            (if fp = None then do {
               (_, n) \<leftarrow> soclose out so (b_net s);
               Some (- 1, s\<lparr>b_net := n\<rparr>)
             } else do {
               (fd, s) \<leftarrow> proc_fd_install (Some p) fp s;
               (if fd < 0 then do { s \<leftarrow> fp_release out fp s; Some (- 1, s) } else Some (fd, s))
             })
          })"

text \<open>The common start of the socket calls: the open file, its socket, and the state in which the reference is held.\<close>
definition fd_socket :: "nat option \<Rightarrow> u64 \<Rightarrow> bsd_state \<Rightarrow> ((fp_ref \<times> nat option) option \<times> bsd_state) option" where
  "fd_socket p fd_u s =
     (case proc_fd_lookup p (to_int fd_u) s of
        (None, s) \<Rightarrow> Some (None, s)
      | (Some fp, s) \<Rightarrow>
          if fp_type (fpr s fp) \<noteq> DTYPE_SOCKET then Some (Some (fp, None), s)
          else do { so \<leftarrow> fp_socket (fpr s fp); Some (Some (fp, so), s) })"

definition sockaddr_of :: "u8 list \<Rightarrow> sockaddr_in" where
  "sockaddr_of bs = \<lparr>sin_family = uint (bs ! 1), sin_port = ld16 bs 2, sin_addr = ld32 bs 4\<rparr>"

text \<open>\<^verbatim>\<open>sys_bind\<close> and \<^verbatim>\<open>sys_connect\<close> up to the socket operation they call.\<close>
definition sock_addr_call :: "(nat option \<Rightarrow> sockaddr_in option \<Rightarrow> net_state \<Rightarrow> (chimera_error \<times> net_state) option) \<Rightarrow>
    out_fn \<Rightarrow> nat \<Rightarrow> u64 \<Rightarrow> u64 \<Rightarrow> u64 \<Rightarrow> bsd_state \<Rightarrow> (int \<times> bsd_state) option" where
  "sock_addr_call op out my_cpu fd_u addr_ptr addrlen s =
     (case cur_proc my_cpu s of
        None \<Rightarrow> Some (- 1, s)
      | Some p \<Rightarrow> do {
          (r, s) \<leftarrow> fd_socket (Some p) fd_u s;
          (case r of
             None \<Rightarrow> Some (- 1, s)
           | Some (fp, None) \<Rightarrow> do { s \<leftarrow> fp_release out (Some fp) s; Some (- 1, s) }
           | Some (fp, Some so) \<Rightarrow>
               let (err, sin) = copyin addr_ptr True 16 (get_pm (b_ipc s)) in
               if addrlen < 16 \<or> err \<noteq> CHIMERA_SUCCESS then do { s \<leftarrow> fp_release out (Some fp) s; Some (- 1, s) }
               else do {
                 (err, n) \<leftarrow> op (Some so) (Some (sockaddr_of sin)) (b_net s);
                 s \<leftarrow> fp_release out (Some fp) (s\<lparr>b_net := n\<rparr>);
                 Some (if err = CHIMERA_SUCCESS then 0 else - 1, s)
               })
        })"

definition sys_bind :: "out_fn \<Rightarrow> nat \<Rightarrow> u64 \<Rightarrow> u64 \<Rightarrow> u64 \<Rightarrow> bsd_state \<Rightarrow> (int \<times> bsd_state) option" where
  "sys_bind out my_cpu = sock_addr_call sobind out my_cpu"

definition sys_connect :: "out_fn \<Rightarrow> (net_state \<Rightarrow> net_state option) \<Rightarrow> nat \<Rightarrow> u64 \<Rightarrow> u64 \<Rightarrow> u64 \<Rightarrow> bsd_state \<Rightarrow> (int \<times> bsd_state) option" where
  "sys_connect out poll my_cpu = sock_addr_call (soconnect out poll) out my_cpu"

definition sys_listen :: "out_fn \<Rightarrow> nat \<Rightarrow> u64 \<Rightarrow> u64 \<Rightarrow> bsd_state \<Rightarrow> (int \<times> bsd_state) option" where
  "sys_listen out my_cpu fd_u backlog s =
     (case cur_proc my_cpu s of
        None \<Rightarrow> Some (- 1, s)
      | Some p \<Rightarrow> do {
          (r, s) \<leftarrow> fd_socket (Some p) fd_u s;
          (case r of
             None \<Rightarrow> Some (- 1, s)
           | Some (fp, None) \<Rightarrow> do { s \<leftarrow> fp_release out (Some fp) s; Some (- 1, s) }
           | Some (fp, Some so) \<Rightarrow> do {
               (err, n) \<leftarrow> solisten (Some so) (to_int backlog) (b_net s);
               s \<leftarrow> fp_release out (Some fp) (s\<lparr>b_net := n\<rparr>);
               Some (if err = CHIMERA_SUCCESS then 0 else - 1, s)
             })
        })"

end
