(* ===== verification/Kalloc_Heap.thy ===== *)
theory Kalloc_Heap
  imports Zone_Props
begin

text \<open>
  What a client of \<^verbatim>\<open>kalloc\<close> and \<^verbatim>\<open>kfree\<close> relies on when it keeps small objects of one size on the kernel
  heap, as an interface: an allocation returns null or the address of an object that is not in use, and objects
  stay in use until they are freed. The zone allocator provides it.
\<close>

unbundle bit_operations_syntax

locale object_heap =
  fixes alloc :: "'m \<Rightarrow> (nat \<times> 'm) option" and free :: "nat \<Rightarrow> 'm \<Rightarrow> 'm" and heap :: "'m \<Rightarrow> nat set \<Rightarrow> bool"
  assumes alloc_total: "heap m H \<Longrightarrow> alloc m \<noteq> None"
    and alloc_null: "heap m H \<Longrightarrow> alloc m = Some (0, m') \<Longrightarrow> heap m' H"
    and alloc_fresh: "heap m H \<Longrightarrow> alloc m = Some (a, m') \<Longrightarrow> a \<noteq> 0 \<Longrightarrow> a \<notin> H"
    and alloc_heap: "heap m H \<Longrightarrow> alloc m = Some (a, m') \<Longrightarrow> a \<noteq> 0 \<Longrightarrow> heap m' (insert a H)"
    and free_heap: "heap m H \<Longrightarrow> a \<in> H \<Longrightarrow> heap (free a m) (H - {a})"
begin

lemma alloc_free: "heap m H \<Longrightarrow> alloc m = Some (a, m') \<Longrightarrow> a \<noteq> 0 \<Longrightarrow> heap (free a m') H"
  using free_heap [OF alloc_heap [of m H a m'], of a] alloc_fresh [of m H a m'] by auto

end

section \<open>Objects and their headers\<close>

text \<open>An object at \<open>a\<close>: the element of zone \<open>z\<close> that starts with its header is handed out, and the header names \<open>z\<close>.\<close>
definition heap_object :: "kmem \<Rightarrow> (nat \<Rightarrow> nat set) \<Rightarrow> nat \<Rightarrow> nat \<Rightarrow> bool" where
  "heap_object k live a z \<longleftrightarrow> z < KALLOC_ZONE_COUNT \<and> 64 \<le> a \<and> a - 64 \<in> live z \<and> km_mem k (a - 64) = ZONE_MAGIC
     \<and> unat (km_mem k (a - 64 + 8) AND mask 32) = z"

definition small_heap :: "kmem \<Rightarrow> nat set \<Rightarrow> bool" where
  "small_heap k H \<longleftrightarrow> (\<exists>own live. zinv k own live \<and> kalloc_zones k \<and> (\<forall>a \<in> H. \<exists>z. heap_object k live a z))"

lemma kalloc_zones_size: "kalloc_zones k \<Longrightarrow> z < KALLOC_ZONE_COUNT \<Longrightarrow> 64 \<le> zsize k z \<and> z < length (s_zone_table k)"
proof -
  assume k: "kalloc_zones k" and z: "z < KALLOC_ZONE_COUNT"
  have "\<forall>n \<in> set kalloc_elem_sizes. 64 \<le> n" by (simp add: kalloc_elem_sizes_def)
  moreover have "kalloc_elem_sizes ! z \<in> set kalloc_elem_sizes"
    using z by (intro nth_mem) (simp add: kalloc_elem_sizes_def KALLOC_ZONE_COUNT_def)
  ultimately show ?thesis using k z by (auto simp: kalloc_zones_def)
qed

lemma zone_pop_initialized: "zone_pop z s = Some (a, t) \<Longrightarrow> s_zone_initialized t = s_zone_initialized s"
  by (auto simp: zone_pop_def Let_def split: if_splits)

lemma carve_page_initialized: "s_zone_initialized (carve_page z v s) = s_zone_initialized s"
proof -
  have "s_zone_initialized (fold (\<lambda>i. carve_one z (f i)) xs s) = s_zone_initialized s" for f :: "nat \<Rightarrow> nat" and xs
    by (induction xs arbitrary: s) (simp_all add: carve_one_def)
  then show ?thesis by (simp add: carve_page_def Let_def)
qed

lemma zalloc_initialized: "zalloc r s = Some (a, t) \<Longrightarrow> s_zone_initialized t = s_zone_initialized s"
  by (auto simp: zalloc_def Let_def carve_page_initialized dest!: zone_pop_initialized
      split: option.splits if_splits prod.splits)

lemma kalloc_initialized: "kalloc sz s = Some r \<Longrightarrow> s_zone_initialized s \<Longrightarrow> s_zone_initialized (snd r)"
  by (auto simp: kalloc_def kalloc_large_def write_zone_header_def Let_def dest!: zalloc_initialized
      split: option.splits if_splits prod.splits)

lemma heap_object_keep:
  assumes inv: "zinv k own live" and kz: "kalloc_zones k" and ob: "heap_object k live a z"
    and same: "\<And>w. w \<in> range (a - 64) (zsize k z) \<Longrightarrow> km_mem t w = km_mem k w" and l: "a - 64 \<in> live' z"
  shows "heap_object t live' a z"
proof -
  have "64 \<le> zsize k z" using kalloc_zones_size [OF kz] ob by (auto simp: heap_object_def)
  then have "km_mem t (a - 64) = km_mem k (a - 64)" "km_mem t (a - 64 + 8) = km_mem k (a - 64 + 8)"
    by (intro same; simp add: range_def)+
  then show ?thesis using ob l unfolding heap_object_def by metis
qed

section \<open>Allocation and release\<close>

lemma small_heap_kalloc:
  assumes "small_heap k H" and sz: "0 < sz" "sz \<le> 4032"
  obtains a t where "kalloc sz k = Some (a, t)" and "a = 0 \<longrightarrow> small_heap t H"
    and "a \<noteq> 0 \<longrightarrow> a \<notin> H \<and> small_heap t (insert a H)"
proof -
  obtain own live where inv: "zinv k own live" "kalloc_zones k" and obs: "\<forall>a \<in> H. \<exists>z. heap_object k live a z"
    using assms(1) by (auto simp: small_heap_def)
  show ?thesis
  proof (rule kalloc_zone_case [OF inv sz])
    fix z a t own'
    assume z: "z < KALLOC_ZONE_COUNT" "z < length (s_zone_table k)" "sz + 64 \<le> zsize k z"
      and post: "zalloc_post k own live z a t own'"
      and ka: "kalloc sz k = Some (if a = 0 then (0, t) else (a + 64, write_zone_header a z sz t))"
    have zs: "length (s_zone_table t) = length (s_zone_table k)" "\<And>y. zsize t y = zsize k y"
      using post by (auto simp: zalloc_post_def)
    have ini: "s_zone_initialized (if a = 0 then t else write_zone_header a z sz t)"
      using kalloc_initialized [OF ka] inv(2) by (simp add: kalloc_zones_def split: if_splits)
    show ?thesis
    proof (cases "a = 0")
      case True
      have "kalloc_zones t" using inv(2) zs ini True by (simp add: kalloc_zones_def)
      moreover have t: "zinv t own' live" "km_mem t = km_mem k" using post True by (auto simp: zalloc_post_def)
      moreover have "heap_object t live b y = heap_object k live b y" for b y by (simp add: heap_object_def t(2))
      ultimately have "small_heap t H" using obs unfolding small_heap_def by blast
      then show ?thesis using that [of 0 t] ka True by simp
    next
      case False
      let ?t = "write_zone_header a z sz t" and ?l = "live(z := insert a (live z))"
      have p: "zinv t own' ?l" "\<And>y b. y < length (s_zone_table k) \<Longrightarrow> b \<in> live y \<Longrightarrow> range b (zsize k y) \<inter> range a (zsize k z) = {}"
        "\<And>y b w. y < length (s_zone_table k) \<Longrightarrow> b \<in> live y \<Longrightarrow> w \<in> range b (zsize k y) \<Longrightarrow> km_mem t w = km_mem k w"
        using post False by (auto simp: zalloc_post_def)
      have kz: "kalloc_zones ?t"
        using inv(2) zs ini False by (simp add: kalloc_zones_def write_zone_header_def)
      have zi': "zinv ?t own' ?l" using z zs by (intro write_zone_header_live [OF p(1)]) auto
      have new: "heap_object ?t ?l (a + 64) z"
        using z(1) header_index [OF z(1)] by (simp add: heap_object_def write_zone_header_def)
      have old: "heap_object ?t ?l b y" and ne: "b \<noteq> a + 64" if h: "heap_object k live b y" for b y
      proof -
        have y: "y < length (s_zone_table k)" "64 \<le> zsize k y" "b - 64 \<in> live y"
          using kalloc_zones_size [OF inv(2)] h by (auto simp: heap_object_def)
        note dis = p(2) [OF y(1,3)]
        show "heap_object ?t ?l b y"
        proof (rule heap_object_keep [OF inv h])
          fix w assume w: "w \<in> range (b - 64) (zsize k y)"
          then have "w \<notin> range a (zsize k z)" using dis by blast
          then have "w \<noteq> a" "w \<noteq> a + 8" using z(3) by (auto simp: range_def)
          then show "km_mem ?t w = km_mem k w" using p(3) [OF y(1,3) w] by (simp add: write_zone_header_def)
        qed (use y(3) in auto)
        show "b \<noteq> a + 64"
        proof
          assume "b = a + 64"
          then have "a \<in> range (b - 64) (zsize k y)" "a \<in> range a (zsize k z)" using y(2) z(3) by (auto simp: range_def)
          then show False using dis by blast
        qed
      qed
      have "a + 64 \<notin> H" using obs ne by blast
      moreover have "small_heap ?t (insert (a + 64) H)"
        unfolding small_heap_def using zi' kz new old obs by blast
      ultimately show ?thesis using that [of "a + 64" ?t] ka False by simp
    qed
  qed
qed

lemma small_heap_kfree:
  assumes "small_heap k H" and a: "a \<in> H"
  shows "small_heap (kfree a k) (H - {a})"
proof -
  obtain own live where inv: "zinv k own live" "kalloc_zones k" and obs: "\<forall>a \<in> H. \<exists>z. heap_object k live a z"
    using assms(1) by (auto simp: small_heap_def)
  obtain z where ob: "heap_object k live a z" using obs a by blast
  let ?h = "a - 64"
  have z: "z < KALLOC_ZONE_COUNT" "64 \<le> a" "?h \<in> live z" "km_mem k ?h = ZONE_MAGIC" "unat (km_mem k (?h + 8) AND mask 32) = z"
    using ob by (auto simp: heap_object_def)
  have zs: "64 \<le> zsize k z" "z < length (s_zone_table k)" using kalloc_zones_size [OF inv(2) z(1)] by auto
  have el: "?h \<in> elems k own z" using live_elems [OF inv(1) zs(2)] z(3) by blast
  have zh: "(a + 2 ^ 64 - 64) mod 2 ^ 64 = ?h"
  proof -
    have "?h < 2 ^ 64" using elem_bounds(2) [OF inv(1) zs(2) el] .
    moreover have "a + 2 ^ 64 - 64 = ?h + 2 ^ 64" using z(2) by simp
    ultimately show ?thesis by (metis mod_add_self2 mod_less)
  qed
  let ?p = "poke ?h 0 k"
  have kf: "kfree a k = zfree (Some z) ?h ?p"
    using z zh by (simp add: kfree_def Let_def)
  have pin: "zinv ?p own live" using zs by (intro poke_live [OF inv(1) zs(2) z(3)]) (simp add: range_def)
  have fin: "zinv (zfree (Some z) ?h ?p) own (live(z := live z - {?h}))"
    using zs(2) z(3) by (intro zfree_ok(1) [OF pin]) auto
  have "?h \<noteq> 0" using elem_bounds(1) [OF inv(1) zs(2) el] .
  then have zt: "length (s_zone_table (zfree (Some z) ?h ?p)) = length (s_zone_table k)"
    "\<And>y. zsize (zfree (Some z) ?h ?p) y = zsize k y"
    "s_zone_initialized (zfree (Some z) ?h ?p) = s_zone_initialized k"
    using zs(2) by (simp_all add: zfree_def upd_zone_nth)
  have kz: "kalloc_zones (zfree (Some z) ?h ?p)" using inv(2) zt by (simp add: kalloc_zones_def)
  have keep: "heap_object (zfree (Some z) ?h ?p) (live(z := live z - {?h})) b y"
    if h: "heap_object k live b y" and ne: "b \<noteq> a" for b y
  proof (rule heap_object_keep [OF inv h])
    have y: "y < length (s_zone_table k)" "64 \<le> zsize k y" "b - 64 \<in> live y" "64 \<le> b"
      using kalloc_zones_size [OF inv(2)] h by (auto simp: heap_object_def)
    have d: "b - 64 \<noteq> ?h" using y(4) z(2) ne by linarith
    then show "b - 64 \<in> (live(z := live z - {?h})) y" using y(3) by auto
    fix w assume w: "w \<in> range (b - 64) (zsize k y)"
    have "b - 64 \<in> elems k own y" using live_elems [OF inv(1) y(1)] y(3) by blast
    then have "range (b - 64) (zsize k y) \<inter> range ?h (zsize k z) = {}"
      using elems_disjoint [OF _ el] d y(2) by auto
    then have "w \<noteq> ?h" using w zs(1) by (auto simp: range_def)
    then show "km_mem (zfree (Some z) ?h ?p) w = km_mem k w"
      using zfree_ok(2) [OF pin _ z(3), of y "b - 64" w] zs(2) y(1,3) d w by simp
  qed
  show ?thesis unfolding kf small_heap_def
    using fin kz keep obs by blast
qed

text \<open>Open files that do not fit the static pool: objects of 104 bytes.\<close>
interpretation fp_heap: object_heap "kalloc 104" kfree small_heap
proof
  fix m H a m' assume h: "small_heap m H"
  obtain b t where al: "kalloc 104 m = Some (b, t)" "b = 0 \<longrightarrow> small_heap t H" "b \<noteq> 0 \<longrightarrow> b \<notin> H \<and> small_heap t (insert b H)"
    using small_heap_kalloc [OF h, of 104] by auto
  show "kalloc 104 m \<noteq> None" using al by simp
  show "small_heap m' H" if "kalloc 104 m = Some (0, m')" using al that by simp
  show "a \<notin> H" if "kalloc 104 m = Some (a, m')" "a \<noteq> 0" using al that by simp
  show "small_heap m' (insert a H)" if "kalloc 104 m = Some (a, m')" "a \<noteq> 0" using al that by simp
  show "small_heap (kfree a m) (H - {a})" if "a \<in> H" using small_heap_kfree [OF h that] .
qed

lemma demo_small_heap: "small_heap (zone_init demo_kmem) {}"
  using demo_zinv by (auto simp: small_heap_def)

end
