(* ===== verification/Fd_Inv.thy ===== *)
theory Fd_Inv
  imports Fd_Syscall Kalloc_Heap
begin

text \<open>
  The invariant of open files and descriptor tables: an open file is allocated exactly as long as somebody refers
  to it, and its reference count is the number of table entries, over all processes, plus the references that
  system calls in progress hold (\<open>held\<close>). Each primitive of \<^verbatim>\<open>fileproc.c\<close> moves one reference; the calls are
  compositions of them.
\<close>

unbundle bit_operations_syntax

section \<open>References\<close>

definition fd_refs :: "bsd_state \<Rightarrow> fp_ref \<Rightarrow> (nat \<times> nat) set" where
  "fd_refs s r = {(p, i). p_fd_table (prc s p) i = Some r}"

definition tables_ok :: "bsd_state \<Rightarrow> bool" where
  "tables_ok s \<longleftrightarrow> (\<forall>p i. p_fd_table (prc s p) i \<noteq> None \<longrightarrow> p \<le> KERNEL_PROC \<and> i < CHIMERA_PROC_MAX_FDS)"

definition nrefs :: "(fp_ref \<Rightarrow> nat) \<Rightarrow> bsd_state \<Rightarrow> fp_ref \<Rightarrow> nat" where
  "nrefs held s r = card (fd_refs s r) + held r"

text \<open>\<open>H\<close> are the open files on the kernel heap.\<close>
definition fp_live :: "nat set \<Rightarrow> bsd_state \<Rightarrow> fp_ref \<Rightarrow> bool" where
  "fp_live H s r = (case r of FP_POOL i \<Rightarrow> i < FILEPROC_POOL_SIZE \<and> s_fp_used s i | FP_HEAP a \<Rightarrow> a \<in> H)"

definition is_socket :: "chimera_fileproc \<Rightarrow> bool" where
  "is_socket f \<longleftrightarrow> (\<exists>so. fp_type f = DTYPE_SOCKET \<and> fp_object f = FP_SOCKET so)"

definition is_vnode :: "chimera_fileproc \<Rightarrow> bool" where
  "is_vnode f \<longleftrightarrow> (\<exists>v. fp_type f = DTYPE_VNODE \<and> fp_object f = FP_VNODE v)"

definition good_fp :: "fp_ref \<Rightarrow> chimera_fileproc \<Rightarrow> nat \<Rightarrow> bool" where
  "good_fp r f n \<longleftrightarrow> fp_signature f = CHIMERA_FILEPROC_MAGIC \<and> unat (fp_refcount f) = n
     \<and> (fp_flags f AND FP_DYNAMIC_ALLOC \<noteq> 0 \<longleftrightarrow> (\<exists>a. r = FP_HEAP a)) \<and> (is_socket f \<or> is_vnode f)"

definition file_ok :: "nat set \<Rightarrow> bsd_state \<Rightarrow> fp_ref \<Rightarrow> nat \<Rightarrow> bool" where
  "file_ok H s r n \<longleftrightarrow> (fp_live H s r \<longleftrightarrow> 0 < n) \<and> (0 < n \<longrightarrow> good_fp r (fpr s r) n)"

definition fd_inv :: "(fp_ref \<Rightarrow> nat) \<Rightarrow> nat set \<Rightarrow> bsd_state \<Rightarrow> bool" where
  "fd_inv held H s \<longleftrightarrow> tables_ok s \<and> (\<forall>r. file_ok H s r (nrefs held s r))"

lemma fd_refs_finite: "tables_ok s \<Longrightarrow> finite (fd_refs s r)"
  by (rule finite_subset [of _ "{..KERNEL_PROC} \<times> {..<CHIMERA_PROC_MAX_FDS}"]) (auto simp: fd_refs_def tables_ok_def)

lemma fd_refs_bound: "tables_ok s \<Longrightarrow> card (fd_refs s r) \<le> 65792"
proof -
  assume t: "tables_ok s"
  have "card (fd_refs s r) \<le> card ({..KERNEL_PROC} \<times> {..<CHIMERA_PROC_MAX_FDS})"
    by (rule card_mono) (use t in \<open>auto simp: fd_refs_def tables_ok_def\<close>)
  then show ?thesis by (simp add: card_cartesian_product KERNEL_PROC_def CHIMERA_PROC_MAX_FDS_def)
qed

section \<open>Frame lemmas\<close>

lemma upd_simps [simp]:
  "b_procs (upd_fp r f s) = b_procs s" "s_fp_used (upd_fp r f s) = s_fp_used s" "b_ipc (upd_fp r f s) = b_ipc s"
  "b_fps (upd_proc p g s) = b_fps s" "s_fp_used (upd_proc p g s) = s_fp_used s" "b_ipc (upd_proc p g s) = b_ipc s"
  "b_fps (upd_vn v h s) = b_fps s" "s_fp_used (upd_vn v h s) = s_fp_used s" "b_procs (upd_vn v h s) = b_procs s"
  "b_ipc (upd_vn v h s) = b_ipc s" "b_fps (set_km k s) = b_fps s" "s_fp_used (set_km k s) = s_fp_used s"
  "b_procs (set_km k s) = b_procs s" "b_vnodes (set_km k s) = b_vnodes s" "b_net (set_km k s) = b_net s"
  "b_net (upd_fp r f s) = b_net s" "b_net (upd_proc p g s) = b_net s" "b_net (upd_vn v h s) = b_net s"
  "b_vnodes (upd_fp r f s) = b_vnodes s" "b_vnodes (upd_proc p g s) = b_vnodes s"
  "b_pipes (upd_fp r f s) = b_pipes s" "b_pipes (upd_proc p g s) = b_pipes s" "b_pipes (upd_vn v h s) = b_pipes s"
  "b_pipes (set_km k s) = b_pipes s" "ta_proc (upd_fp r f s) = ta_proc s" "ta_proc (upd_proc p g s) = ta_proc s"
  "ta_proc (upd_vn v h s) = ta_proc s" "ta_proc (set_km k s) = ta_proc s"
  by (simp_all add: upd_fp_def upd_proc_def upd_vn_def set_km_def)

lemma km_simps [simp]:
  "b_km (upd_fp r f s) = b_km s" "b_km (upd_proc p g s) = b_km s" "b_km (upd_vn v h s) = b_km s" "b_km (set_km k s) = k"
  by (simp_all add: b_km_def) (simp add: set_km_def)

lemma fpr_upd_fp: "fpr (upd_fp r f s) q = (if q = r then f (fpr s r) else fpr s q)"
  by (simp add: upd_fp_def)

lemma vnd_upd_vn: "vnd (upd_vn v f s) w = (if w = v then f (vnd s v) else vnd s w)"
  by (simp add: upd_vn_def)

lemma prc_upd_proc: "prc (upd_proc p f s) q = (if q = p then f (prc s p) else prc s q)"
  by (simp add: upd_proc_def)

abbreviation fdt :: "bsd_state \<Rightarrow> nat \<Rightarrow> nat \<Rightarrow> fp_ref option" where "fdt s p \<equiv> p_fd_table (prc s p)"

lemma set_fd_simps [simp]:
  "b_fps (set_fd p i v s) = b_fps s" "s_fp_used (set_fd p i v s) = s_fp_used s" "b_km (set_fd p i v s) = b_km s"
  "b_ipc (set_fd p i v s) = b_ipc s" "b_net (set_fd p i v s) = b_net s" "b_vnodes (set_fd p i v s) = b_vnodes s"
  "b_pipes (set_fd p i v s) = b_pipes s" "ta_proc (set_fd p i v s) = ta_proc s"
  "fdt (set_fd p i v s) q j = (if q = p \<and> j = i then v else fdt s q j)"
  by (simp_all add: set_fd_def prc_upd_proc)

lemma set_fd_flags_simps [simp]:
  "b_fps (set_fd_flags p i v s) = b_fps s" "s_fp_used (set_fd_flags p i v s) = s_fp_used s" "b_km (set_fd_flags p i v s) = b_km s"
  "b_ipc (set_fd_flags p i v s) = b_ipc s" "b_net (set_fd_flags p i v s) = b_net s" "b_vnodes (set_fd_flags p i v s) = b_vnodes s"
  "b_pipes (set_fd_flags p i v s) = b_pipes s" "ta_proc (set_fd_flags p i v s) = ta_proc s" "fdt (set_fd_flags p i v s) q j = fdt s q j"
  by (simp_all add: set_fd_flags_def prc_upd_proc)

lemma fp_retain_simps [simp]:
  "b_procs (fp_retain r s) = b_procs s" "s_fp_used (fp_retain r s) = s_fp_used s" "b_km (fp_retain r s) = b_km s"
  "b_ipc (fp_retain r s) = b_ipc s" "b_net (fp_retain r s) = b_net s" "b_vnodes (fp_retain r s) = b_vnodes s"
  "b_pipes (fp_retain r s) = b_pipes s" "ta_proc (fp_retain r s) = ta_proc s"
  by (simp_all add: fp_retain_def)

lemma fp_live_cong: "s_fp_used t = s_fp_used s \<Longrightarrow> fp_live H t r = fp_live H s r"
  by (cases r) (simp_all add: fp_live_def)

lemma fp_live_simps [simp]:
  "fp_live H (upd_fp q f s) r = fp_live H s r" "fp_live H (set_fd p i v s) r = fp_live H s r"
  "fp_live H (fp_retain q s) r = fp_live H s r"
  by (rule fp_live_cong, simp)+

text \<open>The invariant looks at the tables, the open files and the use of the pool only.\<close>
lemma fd_inv_cong:
  assumes "\<And>p i. fdt t p i = fdt s p i" and "b_fps t = b_fps s" and "s_fp_used t = s_fp_used s"
  shows "fd_inv held H t = fd_inv held H s"
  using assms(1,2) fp_live_cong [OF assms(3)] by (simp add: fd_inv_def tables_ok_def file_ok_def nrefs_def fd_refs_def)

lemma fd_inv_flags [simp]: "fd_inv held H (set_fd_flags p i f s) = fd_inv held H s"
  by (rule fd_inv_cong) simp_all

lemma fd_inv_vn [simp]: "fd_inv held H (upd_vn v f s) = fd_inv held H s"
  by (rule fd_inv_cong) simp_all

lemma fd_inv_km [simp]: "fd_inv held H (set_km k s) = fd_inv held H s"
  by (rule fd_inv_cong) simp_all

text \<open>Changes of an open file that keep what the invariant says of it.\<close>
lemma fd_inv_upd_fp:
  assumes "fd_inv held H s" and "\<And>n. good_fp r (fpr s r) n \<Longrightarrow> good_fp r (f (fpr s r)) n"
  shows "fd_inv held H (upd_fp r f s)"
  using assms by (simp add: fd_inv_def tables_ok_def file_ok_def nrefs_def fd_refs_def fpr_upd_fp)

lemma fd_inv_live:
  assumes "fd_inv held H s" and "0 < held r \<or> fdt s p i = Some r"
  shows "0 < nrefs held s r"
proof -
  have "finite (fd_refs s r)" using assms(1) by (intro fd_refs_finite) (simp add: fd_inv_def)
  moreover have "(p, i) \<in> fd_refs s r" if "fdt s p i = Some r" using that by (simp add: fd_refs_def)
  ultimately show ?thesis using assms(2) by (auto simp: nrefs_def card_gt_0_iff)
qed

lemma fd_inv_good:
  assumes "fd_inv held H s" and "0 < held r \<or> fdt s p i = Some r"
  shows "good_fp r (fpr s r) (nrefs held s r)"
  using fd_inv_live [OF assms] assms(1) by (auto simp: fd_inv_def file_ok_def)

section \<open>Moving references\<close>

lemma nrefs_set_fd_some:
  assumes "tables_ok s" and "fdt s p i = None"
  shows "nrefs held (set_fd p i (Some r) s) q = nrefs held s q + (if q = r then 1 else 0)"
proof -
  have "fd_refs (set_fd p i (Some r) s) q = (if q = r then insert (p, i) (fd_refs s q) else fd_refs s q)"
    using assms(2) by (auto simp: fd_refs_def split: if_splits)
  moreover have "(p, i) \<notin> fd_refs s q" using assms(2) by (simp add: fd_refs_def)
  ultimately show ?thesis using fd_refs_finite [OF assms(1)] by (cases "q = r") (simp_all add: nrefs_def)
qed

lemma nrefs_set_fd_none:
  assumes "tables_ok s" and "fdt s p i = Some r"
  shows "nrefs held (set_fd p i None s) q + (if q = r then 1 else 0) = nrefs held s q"
proof -
  have "fd_refs (set_fd p i None s) q = fd_refs s q - {(p, i)}" by (auto simp: fd_refs_def split: if_splits)
  moreover have "(p, i) \<in> fd_refs s q \<longleftrightarrow> q = r" using assms(2) by (auto simp: fd_refs_def)
  ultimately show ?thesis using card_Suc_Diff1 [OF fd_refs_finite [OF assms(1)], of "(p, i)" q]
    by (auto simp: nrefs_def)
qed

lemma file_ok_other: "file_ok H (set_fd p i v s) q n = file_ok H s q n"
  by (simp add: file_ok_def)

text \<open>Installing a held reference in a free place of a table, and taking it out again.\<close>
lemma fd_inv_install:
  assumes "fd_inv held H s" and "fdt s p i = None" and "p \<le> KERNEL_PROC" and "i < CHIMERA_PROC_MAX_FDS" and "0 < held r"
  shows "fd_inv (held(r := held r - 1)) H (set_fd p i (Some r) s)"
proof -
  have t: "tables_ok s" using assms(1) by (simp add: fd_inv_def)
  have "nrefs (held(r := held r - 1)) (set_fd p i (Some r) s) q = nrefs held s q" for q
    using nrefs_set_fd_some [OF t assms(2), of "held(r := held r - 1)" r q] assms(5) by (auto simp: nrefs_def)
  moreover have "tables_ok (set_fd p i (Some r) s)" using t assms(3,4) by (auto simp: tables_ok_def)
  ultimately show ?thesis using assms(1) by (simp add: fd_inv_def file_ok_other)
qed

lemma fd_inv_uninstall:
  assumes "fd_inv held H s" and "fdt s p i = Some r"
  shows "fd_inv (held(r := held r + 1)) H (set_fd p i None s)"
proof -
  have t: "tables_ok s" using assms(1) by (simp add: fd_inv_def)
  have "nrefs (held(r := held r + 1)) (set_fd p i None s) q = nrefs held s q" for q
    using nrefs_set_fd_none [OF t assms(2), of "held" q] by (auto simp: nrefs_def)
  moreover have "tables_ok (set_fd p i None s)" using t by (auto simp: tables_ok_def)
  ultimately show ?thesis using assms(1) by (simp add: fd_inv_def file_ok_other)
qed

text \<open>The counts stay far below \<open>2 ^ 32\<close> as long as fewer than \<open>2 ^ 31\<close> references are in flight.\<close>
definition few_held :: "(fp_ref \<Rightarrow> nat) \<Rightarrow> bool" where
  "few_held held \<longleftrightarrow> (\<forall>r. held r < 2 ^ 31)"

lemma fd_inv_retain:
  assumes "fd_inv held H s" and "0 < held r \<or> fdt s p i = Some r" and "few_held held"
  shows "fd_inv (held(r := held r + 1)) H (fp_retain r s)"
proof -
  have t: "tables_ok s" using assms(1) by (simp add: fd_inv_def)
  have n: "nrefs (held(r := held r + 1)) (fp_retain r s) q = nrefs held s q + (if q = r then 1 else 0)" for q
    by (simp add: nrefs_def fd_refs_def)
  have g: "good_fp r (fpr s r) (nrefs held s r)" using fd_inv_good [OF assms(1,2)] .
  have "held r < 2 ^ 31" using assms(3) by (simp add: few_held_def)
  then have "nrefs held s r < 2 ^ 32 - 1" using fd_refs_bound [OF t, of r] by (simp add: nrefs_def)
  then have "unat (fp_refcount (fpr s r) + 1) = nrefs held s r + 1"
    using g by (simp add: good_fp_def unat_word_ariths)
  then have gr: "good_fp r (fpr (fp_retain r s) r) (nrefs held s r + 1)"
    using g by (simp add: good_fp_def fp_retain_def fpr_upd_fp is_socket_def is_vnode_def)
  have "file_ok H (fp_retain r s) q (nrefs (held(r := held r + 1)) (fp_retain r s) q)" for q
  proof (cases "q = r")
    case True
    have "fp_live H s r" using fd_inv_live [OF assms(1,2)] assms(1) by (auto simp: fd_inv_def file_ok_def)
    then show ?thesis using True n gr by (simp add: file_ok_def)
  next
    case False
    then show ?thesis using assms(1) n by (simp add: fd_inv_def file_ok_def fp_retain_def fpr_upd_fp)
  qed
  then show ?thesis using t by (simp add: fd_inv_def tables_ok_def)
qed

section \<open>Release\<close>

text \<open>What allocating and releasing an open file leave alone.\<close>
definition fd_frame :: "bsd_state \<Rightarrow> bsd_state \<Rightarrow> bool" where
  "fd_frame s t \<longleftrightarrow> b_procs t = b_procs s \<and> b_pipes t = b_pipes s \<and> (\<forall>c. cur_proc c t = cur_proc c s)"

lemma fd_frame_refl [simp, intro]: "fd_frame s s"
  by (simp add: fd_frame_def)

lemma fd_frame_trans: "fd_frame s t \<Longrightarrow> fd_frame t u \<Longrightarrow> fd_frame s u"
  by (simp add: fd_frame_def)

lemma cur_proc_cong: "b_ipc t = b_ipc s \<Longrightarrow> ta_proc t = ta_proc s \<Longrightarrow> cur_proc c t = cur_proc c s"
  by (simp add: cur_proc_def split: option.split)

lemma cur_proc_set_km [simp]: "cur_proc c (set_km k s) = cur_proc c s"
  by (simp add: cur_proc_def current_task_def current_thread_def set_km_def split: option.split)

lemma cur_proc_simps [simp]:
  "cur_proc c (upd_fp r f s) = cur_proc c s" "cur_proc c (upd_proc p g s) = cur_proc c s" "cur_proc c (upd_vn v h s) = cur_proc c s"
  "cur_proc c (set_fd p i x s) = cur_proc c s" "cur_proc c (set_fd_flags p i y s) = cur_proc c s"
  "cur_proc c (fp_retain r s) = cur_proc c s" "cur_proc c (s\<lparr>b_net := n\<rparr>) = cur_proc c s" "cur_proc c (s\<lparr>s_fp_used := u\<rparr>) = cur_proc c s"
  "cur_proc c (s\<lparr>b_pipes := pp\<rparr>) = cur_proc c s"
  by (rule cur_proc_cong; simp)+

lemma unat_dec: "0 < unat (c :: u32) \<Longrightarrow> unat (c - 1) = unat c - 1"
  using unat_sub [of 1 c] by (simp add: word_le_nat_alt)

lemma fp_drop_object_effect:
  assumes "fp_drop_object out r s = Some t" and "good_fp r (fpr s r) n"
  shows "fd_frame s t" "s_fp_used t = s_fp_used s" "b_km t = b_km s" "\<And>q. q \<noteq> r \<Longrightarrow> fpr t q = fpr s q"
    "fp_flags (fpr t r) = fp_flags (fpr s r)" "is_vnode (fpr s r) \<Longrightarrow> b_net t = b_net s"
  using assms
  by (auto simp: fp_drop_object_def Let_def good_fp_def is_socket_def is_vnode_def fp_socket_def fp_vnode_def
      fd_frame_def fpr_upd_fp DTYPE_SOCKET_def DTYPE_VNODE_def b_km_def split: Option.bind_splits prod.splits)

lemma fp_drop_object_returns:
  assumes "good_fp r (fpr s r) n" and "\<And>so. fp_object (fpr s r) = FP_SOCKET so \<Longrightarrow> soclose out (Some so) (b_net s) \<noteq> None"
  shows "fp_drop_object out r s \<noteq> None"
  using assms
  by (auto simp: fp_drop_object_def Let_def good_fp_def is_socket_def is_vnode_def fp_socket_def fp_vnode_def
      DTYPE_SOCKET_def DTYPE_VNODE_def split: Option.bind_splits prod.splits)

lemma fp_free_effect:
  assumes "fp_flags (fpr s r) AND FP_DYNAMIC_ALLOC \<noteq> 0 \<longleftrightarrow> (\<exists>a. r = FP_HEAP a)" and "fp_live H s r" and "small_heap (b_km s) H"
  obtains t H' where "fp_free r s = Some t" and "fd_frame s t" and "small_heap (b_km t) H'"
    and "\<And>q. fp_live H' t q \<longleftrightarrow> fp_live H s q \<and> q \<noteq> r" and "\<And>q. q \<noteq> r \<Longrightarrow> fpr t q = fpr s q" and "b_net t = b_net s"
proof (cases r)
  case (FP_POOL i)
  let ?t = "(upd_fp r (\<lambda>f. f\<lparr>fp_signature := 0xDEADDEADDEADDEAD\<rparr>) s)\<lparr>s_fp_used := (s_fp_used s)(i := False)\<rparr>"
  have "fp_free r s = Some ?t" using FP_POOL assms(1,2) by (simp add: fp_free_def Let_def fp_live_def)
  then show ?thesis
  proof (rule that [where H' = H])
    show "fp_live H ?t q \<longleftrightarrow> fp_live H s q \<and> q \<noteq> r" for q using FP_POOL by (cases q) (auto simp: fp_live_def)
  qed (use assms(3) in \<open>auto simp: fd_frame_def fpr_upd_fp b_km_def\<close>)
next
  case (FP_HEAP a)
  let ?u = "upd_fp r (\<lambda>f. f\<lparr>fp_signature := 0xDEADDEADDEADDEAD\<rparr>) s"
  let ?t = "set_km (kfree a (b_km s)) ?u"
  have "fp_free r s = Some ?t" using FP_HEAP assms(1) by (simp add: fp_free_def Let_def)
  then show ?thesis
  proof (rule that [where H' = "H - {a}"])
    show "small_heap (b_km ?t) (H - {a})" using fp_heap.free_heap [OF assms(3), of a] assms(2) FP_HEAP by (simp add: fp_live_def)
    show "fp_live (H - {a}) ?t q \<longleftrightarrow> fp_live H s q \<and> q \<noteq> r" for q using FP_HEAP by (cases q) (auto simp: fp_live_def)
  qed (auto simp: fd_frame_def fpr_upd_fp)
qed

text \<open>Losing the last reference: the file is gone, everybody else's are untouched.\<close>
lemma fd_inv_drop_last:
  assumes "fd_inv held H s" and "nrefs held s r = 1" and "held r = 1" and "b_procs t = b_procs s"
    and "\<And>q. fp_live H' t q \<longleftrightarrow> fp_live H s q \<and> q \<noteq> r" and "\<And>q. q \<noteq> r \<Longrightarrow> fpr t q = fpr s q"
  shows "fd_inv (held(r := 0)) H' t"
proof -
  have "nrefs (held(r := 0)) t q = (if q = r then 0 else nrefs held s q)" for q
    using assms(2-4) by (auto simp: nrefs_def fd_refs_def)
  then have "file_ok H' t q (nrefs (held(r := 0)) t q)" for q
    using assms(1,5,6) by (auto simp: fd_inv_def file_ok_def)
  then show ?thesis using assms(1,4) by (simp add: fd_inv_def tables_ok_def)
qed

text \<open>The release of a held reference, when there are others and when it is the last.\<close>
lemma fp_release_shared:
  assumes "fd_inv held H s" and "0 < held r" and "1 < nrefs held s r"
  shows "fp_release out (Some r) s = Some (upd_fp r (\<lambda>f. f\<lparr>fp_refcount := fp_refcount f - 1\<rparr>) s)"
    and "fd_inv (held(r := held r - 1)) H (upd_fp r (\<lambda>f. f\<lparr>fp_refcount := fp_refcount f - 1\<rparr>) s)"
proof -
  let ?t = "upd_fp r (\<lambda>f. f\<lparr>fp_refcount := fp_refcount f - 1\<rparr>) s"
  have g: "good_fp r (fpr s r) (nrefs held s r)" using fd_inv_good [OF assms(1)] assms(2) by blast
  then have c: "1 < fp_refcount (fpr s r)" "unat (fp_refcount (fpr s r) - 1) = nrefs held s r - 1"
    using assms(3) by (simp_all add: good_fp_def word_less_nat_alt unat_dec)
  then show "fp_release out (Some r) s = Some ?t" using g by (simp add: fp_release_def good_fp_def Let_def)
  have "nrefs (held(r := held r - 1)) ?t q = (if q = r then nrefs held s r - 1 else nrefs held s q)" for q
    using assms(2) by (auto simp: nrefs_def fd_refs_def)
  moreover have "good_fp r (fpr ?t r) (nrefs held s r - 1)"
    using g c(2) by (simp add: good_fp_def fpr_upd_fp is_socket_def is_vnode_def)
  ultimately show "fd_inv (held(r := held r - 1)) H ?t"
    using assms by (auto simp: fd_inv_def file_ok_def fpr_upd_fp tables_ok_def)
qed

lemma fp_release_last:
  assumes inv: "fd_inv held H s" and h: "0 < held r" and n: "nrefs held s r = 1" and km: "small_heap (b_km s) H"
    and rel: "fp_release out (Some r) s = Some t"
  obtains H' where "fd_inv (held(r := 0)) H' t" and "small_heap (b_km t) H'" and "fd_frame s t"
    and "\<not> fp_live H' t r" and "is_vnode (fpr s r) \<longrightarrow> b_net t = b_net s"
proof -
  let ?u = "upd_fp r (\<lambda>f. f\<lparr>fp_refcount := fp_refcount f - 1\<rparr>) s"
  have g: "good_fp r (fpr s r) 1" using fd_inv_good [OF inv] h n by metis
  have g': "good_fp r (fpr ?u r) 0"
    using g by (simp add: good_fp_def fpr_upd_fp is_socket_def is_vnode_def unat_dec)
  have live: "fp_live H s r" using inv n by (auto simp: fd_inv_def file_ok_def)
  have "\<not> 1 < fp_refcount (fpr s r)" using g by (simp add: good_fp_def word_less_nat_alt)
  then obtain v where v: "fp_drop_object out r ?u = Some v" "fp_free r v = Some t"
    using rel g by (auto simp: fp_release_def good_fp_def Let_def split: Option.bind_splits)
  note d = fp_drop_object_effect [OF v(1) g']
  have lv: "fp_live H v q = fp_live H s q" for q using fp_live_cong [OF d(2), of H q] by simp
  show ?thesis
  proof (rule fp_free_effect [of v r H])
    show "(fp_flags (fpr v r) AND FP_DYNAMIC_ALLOC \<noteq> 0) = (\<exists>a. r = FP_HEAP a)" using g' d(5) by (simp add: good_fp_def)
    show "fp_live H v r" using live lv by simp
    show "small_heap (b_km v) H" using km d(3) by simp
    fix t' H'
    assume t: "fp_free r v = Some t'" "fd_frame v t'" "small_heap (b_km t') H'" "\<And>q. fp_live H' t' q \<longleftrightarrow> fp_live H v q \<and> q \<noteq> r"
      "\<And>q. q \<noteq> r \<Longrightarrow> fpr t' q = fpr v q" "b_net t' = b_net v"
    have tt: "t' = t" using t(1) v(2) by simp
    have fr: "fd_frame s t" using fd_frame_trans [OF _ t(2)] d(1) tt by (simp add: fd_frame_def)
    have "held r = 1" using n h by (simp add: nrefs_def)
    then have "fd_inv (held(r := 0)) H' t"
      using fr t(4,5) lv d(4) tt by (intro fd_inv_drop_last [OF inv n]) (auto simp: fd_frame_def fpr_upd_fp)
    moreover have "is_vnode (fpr s r) \<longrightarrow> b_net t = b_net s"
      using d(6) t(6) tt by (simp add: fpr_upd_fp is_vnode_def)
    ultimately show ?thesis using that fr t(3,4) tt by blast
  qed
qed

text \<open>Both cases together.\<close>
lemma fp_release_ok:
  assumes inv: "fd_inv held H s" and h: "0 < held r" and km: "small_heap (b_km s) H"
    and rel: "fp_release out (Some r) s = Some t"
  obtains H' where "fd_inv (held(r := held r - 1)) H' t" and "small_heap (b_km t) H'" and "fd_frame s t"
    and "fp_live H' t r \<longleftrightarrow> 1 < nrefs held s r"
proof (cases "1 < nrefs held s r")
  case True
  have "fp_live H s r" using inv True by (auto simp: fd_inv_def file_ok_def)
  then show ?thesis
    using that [where H' = H] fp_release_shared(1) [OF inv h True, of out] fp_release_shared(2) [OF inv h True] rel km True
    by (simp add: fd_frame_def)
next
  case False
  moreover have "0 < nrefs held s r" using fd_inv_live [OF inv] h by blast
  ultimately have n: "nrefs held s r = 1" by simp
  moreover have "held r = 1" using n h by (simp add: nrefs_def)
  ultimately show ?thesis using fp_release_last [OF inv h n km rel] that False by (metis diff_self_eq_0)
qed

lemma fp_release_returns:
  assumes inv: "fd_inv held H s" and h: "0 < held r" and km: "small_heap (b_km s) H"
    and so: "\<And>so. nrefs held s r = 1 \<Longrightarrow> fp_object (fpr s r) = FP_SOCKET so \<Longrightarrow> soclose out (Some so) (b_net s) \<noteq> None"
  shows "fp_release out (Some r) s \<noteq> None"
proof (cases "1 < nrefs held s r")
  case True
  then show ?thesis using fp_release_shared(1) [OF inv h True] by simp
next
  case False
  let ?u = "upd_fp r (\<lambda>f. f\<lparr>fp_refcount := fp_refcount f - 1\<rparr>) s"
  have n: "nrefs held s r = 1" using fd_inv_live [OF inv, of r] h False by fastforce
  have g: "good_fp r (fpr s r) 1" using fd_inv_good [OF inv] h n by metis
  have g': "good_fp r (fpr ?u r) 0"
    using g by (simp add: good_fp_def fpr_upd_fp is_socket_def is_vnode_def unat_dec)
  have "fp_drop_object out r ?u \<noteq> None"
    using so [OF n] by (intro fp_drop_object_returns [OF g']) (simp add: fpr_upd_fp)
  then obtain v where v: "fp_drop_object out r ?u = Some v" by blast
  note d = fp_drop_object_effect [OF v g']
  have "fp_live H s r" using inv n by (auto simp: fd_inv_def file_ok_def)
  then have "fp_live H v r" using fp_live_cong [OF d(2), of H r] by simp
  then obtain t where "fp_free r v = Some t"
    using g' d(3,5) km by (elim fp_free_effect [rotated]) (auto simp: good_fp_def)
  then show ?thesis using v g by (simp add: fp_release_def good_fp_def Let_def)
qed

end
