(* ===== verification/Fd_Ops.thy ===== *)
theory Fd_Ops
  imports Fd_Inv
begin

text \<open>
  The operations of \<^verbatim>\<open>fileproc.c\<close> and the system calls on descriptors over the reference invariant: what each
  does to the tables, and that it keeps the invariant with the references other calls hold.
\<close>

unbundle bit_operations_syntax

section \<open>Allocation\<close>

lemma find_upt_some:
  assumes "List.find P [a..<b] = Some i"
  shows "a \<le> i" "i < b" "P i" "\<And>j. a \<le> j \<Longrightarrow> j < i \<Longrightarrow> \<not> P j"
proof -
  obtain k where k: "k < length [a..<b]" "P ([a..<b] ! k)" "i = [a..<b] ! k" "\<forall>j < k. \<not> P ([a..<b] ! j)"
    using assms by (auto simp: find_Some_iff)
  then show "a \<le> i" "i < b" "P i" by auto
  show "\<not> P j" if "a \<le> j" "j < i" for j using k(1,3) k(4) [rule_format, of "j - a"] that by simp
qed

lemma fp_take_cases:
  assumes "small_heap (b_km s) H"
  obtains t where "fp_take s = Some (None, True, t)" and "small_heap (b_km t) H" and "fd_frame s t" and "b_fps t = b_fps s"
      and "s_fp_used t = s_fp_used s"
    | r t H' where "fp_take s = Some (Some r, \<exists>a. r = FP_HEAP a, t)" and "\<not> fp_live H s r" and "small_heap (b_km t) H'"
      and "\<And>q. fp_live H' t q \<longleftrightarrow> fp_live H s q \<or> q = r" and "fd_frame s t" and "b_fps t = b_fps s"
      and "b_vnodes t = b_vnodes s" and "b_net t = b_net s"
proof (cases "List.find (\<lambda>i. \<not> s_fp_used s i) [0..<FILEPROC_POOL_SIZE]")
  case (Some i)
  note f = find_upt_some [OF Some]
  let ?t = "s\<lparr>s_fp_used := (s_fp_used s)(i := True)\<rparr>"
  have "fp_live H ?t q \<longleftrightarrow> fp_live H s q \<or> q = FP_POOL i" for q
    using f(2) by (cases q) (auto simp: fp_live_def)
  then show ?thesis
    using that(2) [of "FP_POOL i" ?t H] Some f(2,3) assms by (simp add: fp_take_def fp_live_def fd_frame_def b_km_def)
next
  case None
  obtain a k where k: "kalloc 104 (b_km s) = Some (a, k)" using fp_heap.alloc_total [OF assms] by auto
  have tk: "fp_take s = Some (if a = 0 then None else Some (FP_HEAP a), True, set_km k s)"
    using None k by (simp add: fp_take_def SIZEOF_FILEPROC_def)
  show ?thesis
  proof (cases "a = 0")
    case True
    then show ?thesis using that(1) [of "set_km k s"] tk k fp_heap.alloc_null [OF assms] by (simp add: fd_frame_def)
  next
    case False
    have "fp_live (insert a H) (set_km k s) q \<longleftrightarrow> fp_live H s q \<or> q = FP_HEAP a" for q
      by (cases q) (auto simp: fp_live_def)
    then show ?thesis
      using that(2) [of "FP_HEAP a" "set_km k s" "insert a H"] False tk fp_heap.alloc_fresh [OF assms k False]
        fp_heap.alloc_heap [OF assms k False]
      by (simp add: fp_live_def fd_frame_def)
  qed
qed

lemma fd_inv_new:
  assumes inv: "fd_inv held H s" and new: "\<not> fp_live H s r" and live: "\<And>q. fp_live H' t q \<longleftrightarrow> fp_live H s q \<or> q = r"
    and same: "b_procs t = b_procs s" "b_fps t = b_fps s" and g: "good_fp r f 1"
  shows "held r = 0" and "fd_inv (held(r := 1)) H' (upd_fp r (\<lambda>_. f) t)"
proof -
  have "nrefs held s r = 0" using inv new by (auto simp: fd_inv_def file_ok_def)
  then show h: "held r = 0" by (simp add: nrefs_def)
  have "nrefs (held(r := 1)) (upd_fp r (\<lambda>_. f) t) q = (if q = r then 1 else nrefs held s q)" for q
    using same \<open>nrefs held s r = 0\<close> by (simp add: nrefs_def fd_refs_def)
  then have "file_ok H' (upd_fp r (\<lambda>_. f) t) q (nrefs (held(r := 1)) (upd_fp r (\<lambda>_. f) t) q)" for q
    using inv live g same by (simp add: fd_inv_def file_ok_def fpr_upd_fp)
  then show "fd_inv (held(r := 1)) H' (upd_fp r (\<lambda>_. f) t)"
    using inv same by (simp add: fd_inv_def tables_ok_def)
qed

lemma dyn_or:
  fixes f :: u32
  shows "(f OR g) AND FP_DYNAMIC_ALLOC \<noteq> 0 \<longleftrightarrow> f AND FP_DYNAMIC_ALLOC \<noteq> 0 \<or> g AND FP_DYNAMIC_ALLOC \<noteq> 0"
  by (simp add: bit_eq_iff bit_simps) blast

lemma dyn_consts: "FP_READABLE AND FP_DYNAMIC_ALLOC = 0" "FP_WRITABLE AND FP_DYNAMIC_ALLOC = 0" "FP_DEVICE AND FP_DYNAMIC_ALLOC = 0"
  "FP_DYNAMIC_ALLOC AND FP_DYNAMIC_ALLOC \<noteq> 0" "FP_CLOEXEC AND FP_DYNAMIC_ALLOC = 0" "FP_NONBLOCK AND FP_DYNAMIC_ALLOC = 0"
  by (simp_all add: FP_READABLE_def FP_WRITABLE_def FP_DEVICE_def FP_DYNAMIC_ALLOC_def FP_CLOEXEC_def FP_NONBLOCK_def)

lemma fp_alloc_cases:
  assumes inv: "fd_inv held H s" and km: "small_heap (b_km s) H" and fl: "flags AND FP_DYNAMIC_ALLOC = 0"
  obtains t where "fp_alloc (Some v) flags s = Some (None, t)" and "fd_inv held H t" and "small_heap (b_km t) H" and "fd_frame s t"
    | r t H' where "fp_alloc (Some v) flags s = Some (Some r, t)" and "held r = 0" and "fd_inv (held(r := 1)) H' t"
      and "small_heap (b_km t) H'" and "fd_frame s t" and "fp_object (fpr t r) = FP_VNODE v" and "fp_type (fpr t r) = DTYPE_VNODE"
      and "b_net t = b_net s"
proof (rule fp_take_cases [OF km])
  fix t assume t: "fp_take s = Some (None, True, t)" "small_heap (b_km t) H" "fd_frame s t" "b_fps t = b_fps s" "s_fp_used t = s_fp_used s"
  have "fd_inv held H t = fd_inv held H s" using t by (intro fd_inv_cong) (simp_all add: fd_frame_def)
  then show ?thesis using that(1) [of t] t inv by (simp add: fp_alloc_def)
next
  fix r t H' assume t: "fp_take s = Some (Some r, \<exists>a. r = FP_HEAP a, t)" "\<not> fp_live H s r" "small_heap (b_km t) H'"
    "\<And>q. fp_live H' t q \<longleftrightarrow> fp_live H s q \<or> q = r" "fd_frame s t" "b_fps t = b_fps s" "b_vnodes t = b_vnodes s" "b_net t = b_net s"
  define fl' where "fl' = (let fl = flags OR FP_READABLE; fl = (if \<exists>a. r = FP_HEAP a then fl OR FP_DYNAMIC_ALLOC else fl);
      fl = (if flags AND FP_WRITABLE \<noteq> 0 then fl OR FP_WRITABLE else fl) in
      if v_type (vnd t v) = VCHR \<or> v_type (vnd t v) = VBLK then fl OR FP_DEVICE else fl)"
  define f where "f = \<lparr>fp_signature = CHIMERA_FILEPROC_MAGIC, fp_flags = fl', fp_type = DTYPE_VNODE, fp_refcount = 1,
      fp_object = FP_VNODE v, fp_offset = 0\<rparr>"
  have "fl' AND FP_DYNAMIC_ALLOC \<noteq> 0 \<longleftrightarrow> (\<exists>a. r = FP_HEAP a)"
    using fl dyn_consts by (auto simp: fl'_def Let_def dyn_or)
  then have "good_fp r f 1" by (simp add: good_fp_def f_def is_vnode_def)
  note n = fd_inv_new [OF inv t(2,4) _ t(6) this]
  have "fp_alloc (Some v) flags s = Some (Some r, upd_vn v (\<lambda>x. x\<lparr>v_iocount := v_iocount x + 1\<rparr>) (upd_fp r (\<lambda>_. f) t))"
    using t(1) by (simp add: fp_alloc_def f_def fl'_def Let_def)
  then show ?thesis
    using that(2) n t(3,5,8) by (simp add: fd_frame_def fpr_upd_fp f_def)
qed

section \<open>The descriptor table\<close>

text \<open>Entering an open file: the lowest free descriptor from \<open>m\<close> on, or \<open>-1\<close> when there is none.\<close>
lemma proc_fd_alloc_cases:
  assumes inv: "fd_inv held H s" and h: "0 < held r" and few: "few_held held" and p: "p \<le> KERNEL_PROC"
  obtains "proc_fd_alloc_from (Some p) (Some r) m s = Some (- 1, s)"
      and "\<forall>i. nat m \<le> i \<and> i < CHIMERA_PROC_MAX_FDS \<longrightarrow> fdt s p i \<noteq> None"
    | i t where "proc_fd_alloc_from (Some p) (Some r) m s = Some (int i, t)" and "fdt s p i = None" and "i < CHIMERA_PROC_MAX_FDS"
      and "nat m \<le> i" and "\<forall>j. nat m \<le> j \<and> j < i \<longrightarrow> fdt s p j \<noteq> None" and "fd_inv held H t"
      and "t = set_fd_flags p i 0 (set_fd p i (Some r) (fp_retain r s))"
proof -
  have m: "nat (if m < 0 then 0 else m) = nat m" by simp
  show ?thesis
  proof (cases "(if m < 0 then 0 else m) \<ge> int CHIMERA_PROC_MAX_FDS")
    case True
    then have "CHIMERA_PROC_MAX_FDS \<le> nat m" by (auto simp: CHIMERA_PROC_MAX_FDS_def split: if_splits)
    then have "\<forall>i. nat m \<le> i \<and> i < CHIMERA_PROC_MAX_FDS \<longrightarrow> fdt s p i \<noteq> None" using leD le_trans by blast
    moreover have "proc_fd_alloc_from (Some p) (Some r) m s = Some (- 1, s)" using True by (simp add: proc_fd_alloc_from_def Let_def)
    ultimately show ?thesis by (rule that(1) [rotated])
  next
    case ge: False
    show ?thesis
    proof (cases "List.find (\<lambda>i. fdt s p i = None) [nat m..<CHIMERA_PROC_MAX_FDS]")
      case None
      have "proc_fd_alloc_from (Some p) (Some r) m s = Some (- 1, s)" using None ge m by (simp add: proc_fd_alloc_from_def Let_def)
      moreover have "\<forall>i. nat m \<le> i \<and> i < CHIMERA_PROC_MAX_FDS \<longrightarrow> fdt s p i \<noteq> None" using None by (auto simp: find_None_iff)
      ultimately show ?thesis by (rule that(1))
    next
      case (Some i)
      let ?t = "set_fd_flags p i 0 (set_fd p i (Some r) (fp_retain r s))"
      note f = find_upt_some [OF Some]
      have "fd_inv (held(r := held r + 1)) H (fp_retain r s)" using fd_inv_retain [OF inv _ few, of r] h by blast
      then have "fd_inv ((held(r := held r + 1))(r := held r)) H (set_fd p i (Some r) (fp_retain r s))"
        using fd_inv_install [of "held(r := held r + 1)" H "fp_retain r s" p i r] f(2,3) p by simp
      then have "fd_inv held H ?t" by simp
      moreover have "proc_fd_alloc_from (Some p) (Some r) m s = Some (int i, ?t)"
        using Some ge m by (simp add: proc_fd_alloc_from_def Let_def)
      ultimately show ?thesis using that(2) f by auto
    qed
  qed
qed

lemma proc_fd_lookup_cases:
  assumes inv: "fd_inv held H s" and few: "few_held held"
  obtains "proc_fd_lookup (Some p) fd s = (None, s)" and "bad_fd fd \<or> fdt s p (nat fd) = None"
    | r where "proc_fd_lookup (Some p) fd s = (Some r, fp_retain r s)" and "\<not> bad_fd fd" and "fdt s p (nat fd) = Some r"
      and "fd_inv (held(r := held r + 1)) H (fp_retain r s)"
proof (cases "bad_fd fd \<or> fdt s p (nat fd) = None")
  case True
  then show ?thesis using that(1) by (auto simp: proc_fd_lookup_def)
next
  case False
  then obtain r where r: "fdt s p (nat fd) = Some r" by auto
  then have "fd_inv (held(r := held r + 1)) H (fp_retain r s)" using fd_inv_retain [OF inv _ few, of r] by blast
  then show ?thesis using that(2) r False by (simp add: proc_fd_lookup_def)
qed

text \<open>Closing a descriptor: its entry goes, the others stay, the file goes with its last reference.\<close>
lemma proc_fd_close_cases:
  assumes inv: "fd_inv held H s" and km: "small_heap (b_km s) H" and cl: "proc_fd_close out (Some p) fd s = Some (e, t)"
  obtains "e = CHIMERA_ERR_INVALID" and "t = s" and "bad_fd fd \<or> fdt s p (nat fd) = None"
    | r H' where "e = CHIMERA_SUCCESS" and "\<not> bad_fd fd" and "fdt s p (nat fd) = Some r" and "fd_inv held H' t"
      and "small_heap (b_km t) H'" and "fd_frame (set_fd_flags p (nat fd) 0 (set_fd p (nat fd) None s)) t"
      and "fp_live H' t r \<longleftrightarrow> 1 < nrefs held s r"
proof (cases "bad_fd fd \<or> fdt s p (nat fd) = None")
  case True
  then show ?thesis using that(1) cl by (auto simp: proc_fd_close_def split: if_splits)
next
  case False
  then obtain r where r: "fdt s p (nat fd) = Some r" by auto
  let ?u = "set_fd_flags p (nat fd) 0 (set_fd p (nat fd) None s)"
  have rel: "fp_release out (Some r) ?u = Some t" and e: "e = CHIMERA_SUCCESS"
    using cl r False by (auto simp: proc_fd_close_def split: Option.bind_splits)
  have u: "fd_inv (held(r := held r + 1)) H ?u" using fd_inv_uninstall [OF inv r] by simp
  have n: "nrefs (held(r := held r + 1)) ?u r = nrefs held s r"
    using nrefs_set_fd_none [of s p "nat fd" r held r] inv r by (simp add: fd_inv_def nrefs_def fd_refs_def)
  show ?thesis
  proof (rule fp_release_ok [OF u _ _ rel])
    fix H' assume "fd_inv ((held(r := held r + 1))(r := (held(r := held r + 1)) r - 1)) H' t" "small_heap (b_km t) H'"
      "fd_frame ?u t" "fp_live H' t r \<longleftrightarrow> 1 < nrefs (held(r := held r + 1)) ?u r"
    then show ?thesis using that(2) [of r H'] e False r n by simp
  qed (use km in auto)
qed

section \<open>The system calls\<close>

text \<open>The state between calls. Fewer than 65536 references to a file are in flight, one for a call in progress.\<close>
definition fd_ok :: "(fp_ref \<Rightarrow> nat) \<Rightarrow> bsd_state \<Rightarrow> bool" where
  "fd_ok held s \<longleftrightarrow> (\<exists>H. fd_inv held H s \<and> small_heap (b_km s) H) \<and> (\<forall>c p. cur_proc c s = Some p \<longrightarrow> p \<le> KERNEL_PROC)
     \<and> (\<forall>r. held r < 2 ^ 16)"

lemma fd_okE:
  assumes "fd_ok held s"
  obtains H where "fd_inv held H s" and "small_heap (b_km s) H" and "few_held held" and "\<And>r. few_held (held(r := held r + 1))"
    and "\<And>c p. cur_proc c s = Some p \<Longrightarrow> p \<le> KERNEL_PROC"
proof -
  have h: "held r < 65536" for r using assms by (simp add: fd_ok_def)
  have "held r < 2147483648 \<and> held r + 1 < 2147483648" for r using h [of r] by linarith
  then have "few_held held" "few_held (held(r := held r + 1))" for r by (simp_all add: few_held_def)
  then show ?thesis using that assms by (auto simp: fd_ok_def)
qed

text \<open>The start of a call on a descriptor: it fails at once, or holds a reference to the file.\<close>
lemma fd_lookupE:
  assumes ok: "fd_ok held s"
  obtains "cur_proc c s = None" | p where "cur_proc c s = Some p" and "bad_fd fd"
    | p where "cur_proc c s = Some p" and "proc_fd_lookup (Some p) fd s = (None, s)"
    | p r H where "cur_proc c s = Some p" and "\<not> bad_fd fd" and "p \<le> KERNEL_PROC" and "fdt s p (nat fd) = Some r"
      and "proc_fd_lookup (Some p) fd s = (Some r, fp_retain r s)" and "fd_inv (held(r := held r + 1)) H (fp_retain r s)"
      and "small_heap (b_km s) H" and "few_held (held(r := held r + 1))"
proof (rule fd_okE [OF ok])
  fix H assume inv: "fd_inv held H s" and km: "small_heap (b_km s) H" and few: "few_held held" "\<And>r. few_held (held(r := held r + 1))"
    and pr: "\<And>c p. cur_proc c s = Some p \<Longrightarrow> p \<le> KERNEL_PROC"
  show ?thesis
  proof (cases "cur_proc c s")
    case None
    then show ?thesis by (rule that(1))
  next
    case (Some p)
    show ?thesis
      by (rule proc_fd_lookup_cases [OF inv few(1), of p fd]) (use that(3,4) Some pr km few(2) in blast)+
  qed
qed

text \<open>The end of a call that has looked a descriptor up.\<close>
lemma fd_ok_release:
  assumes ok: "fd_ok held s" and inv: "fd_inv (held(r := held r + 1)) H u" and km: "small_heap (b_km u) H"
    and cp: "\<And>c. cur_proc c u = cur_proc c s" and rel: "fp_release out (Some r) u = Some t"
  shows "fd_ok held t"
proof (rule fp_release_ok [OF inv _ km rel])
  fix H' assume "fd_inv ((held(r := held r + 1))(r := (held(r := held r + 1)) r - 1)) H' t" "small_heap (b_km t) H'" "fd_frame u t"
  then show ?thesis using ok cp by (auto simp: fd_ok_def fd_frame_def)
qed simp

lemma fd_ok_upd:
  assumes "fd_ok held s" and "\<And>q i. fdt t q i = fdt s q i" and "b_fps t = b_fps s" and "s_fp_used t = s_fp_used s" and "b_km t = b_km s"
    and "\<And>c. cur_proc c t = cur_proc c s"
  shows "fd_ok held t"
  using assms fd_inv_cong [OF assms(2-4)] by (simp add: fd_ok_def)

lemma good_fp_upd:
  "good_fp r f n \<Longrightarrow> good_fp r (f\<lparr>fp_offset := x\<rparr>) n"
  "good_fp r f n \<Longrightarrow> b AND FP_DYNAMIC_ALLOC = 0 \<Longrightarrow> good_fp r (f\<lparr>fp_flags := fp_flags f OR b\<rparr>) n"
  "good_fp r f n \<Longrightarrow> b AND FP_DYNAMIC_ALLOC = 0 \<Longrightarrow> good_fp r (f\<lparr>fp_flags := fp_flags f AND NOT b\<rparr>) n"
proof -
  have "(x AND NOT b) AND FP_DYNAMIC_ALLOC = x AND FP_DYNAMIC_ALLOC" if "b AND FP_DYNAMIC_ALLOC = 0" for x
    using that by (simp add: bit_eq_iff bit_simps) blast
  then show "good_fp r f n \<Longrightarrow> b AND FP_DYNAMIC_ALLOC = 0 \<Longrightarrow> good_fp r (f\<lparr>fp_flags := fp_flags f AND NOT b\<rparr>) n"
    by (simp add: good_fp_def is_socket_def is_vnode_def)
qed (auto simp: good_fp_def is_socket_def is_vnode_def dyn_or)

lemma sys_close_ok:
  assumes ok: "fd_ok held s" and call: "sys_close out c fd s = Some (r, t)"
  shows "fd_ok held t"
proof (rule fd_okE [OF ok])
  fix H assume inv: "fd_inv held H s" "small_heap (b_km s) H"
  show ?thesis
  proof (cases "cur_proc c s")
    case None
    then show ?thesis using call ok by (simp add: sys_close_def)
  next
    case (Some p)
    then obtain e where "proc_fd_close out (Some p) (to_int fd) s = Some (e, t)"
      using call by (auto simp: sys_close_def split: Option.bind_splits)
    then show ?thesis using ok by (elim proc_fd_close_cases [OF inv]) (auto simp: fd_ok_def fd_frame_def)
  qed
qed

lemma sys_dup_ok:
  assumes ok: "fd_ok held s" and call: "sys_dup out c fd s = Some (x, t)"
  shows "fd_ok held t"
proof (rule fd_lookupE [OF ok, where c = c and fd = "to_int fd"])
  fix p r H assume p: "cur_proc c s = Some p" "\<not> bad_fd (to_int fd)" "p \<le> KERNEL_PROC"
    and l: "proc_fd_lookup (Some p) (to_int fd) s = (Some r, fp_retain r s)"
    and ri: "fd_inv (held(r := held r + 1)) H (fp_retain r s)" and km: "small_heap (b_km s) H" and few: "few_held (held(r := held r + 1))"
  show ?thesis
  proof (rule proc_fd_alloc_cases [OF ri _ few p(3), of r 0])
    assume "proc_fd_alloc_from (Some p) (Some r) 0 (fp_retain r s) = Some (- 1, fp_retain r s)"
    then have "fp_release out (Some r) (fp_retain r s) = Some t"
      using call p l by (auto simp: sys_dup_def Let_def split: Option.bind_splits)
    then show ?thesis using fd_ok_release [OF ok ri] km by simp
  next
    fix i u assume u: "proc_fd_alloc_from (Some p) (Some r) 0 (fp_retain r s) = Some (int i, u)"
      "fd_inv (held(r := held r + 1)) H u" "u = set_fd_flags p i 0 (set_fd p i (Some r) (fp_retain r (fp_retain r s)))"
    then have "fp_release out (Some r) u = Some t"
      using call p l by (auto simp: sys_dup_def Let_def split: Option.bind_splits)
    then show ?thesis using fd_ok_release [OF ok u(2)] km u(3) by simp
  qed simp
qed (use call ok in \<open>auto simp: sys_dup_def Let_def split: if_splits\<close>)

lemma sys_dup2_ok:
  assumes ok: "fd_ok held s" and call: "sys_dup2 out c fd fd' s = Some (x, t)"
  shows "fd_ok held t"
proof (rule fd_lookupE [OF ok, where c = c and fd = "to_int fd"])
  fix p r H assume p: "cur_proc c s = Some p" "\<not> bad_fd (to_int fd)" "p \<le> KERNEL_PROC"
    and l: "proc_fd_lookup (Some p) (to_int fd) s = (Some r, fp_retain r s)"
    and ri: "fd_inv (held(r := held r + 1)) H (fp_retain r s)" and km: "small_heap (b_km s) H"
  let ?n = "to_int fd'"
  show ?thesis
  proof (cases "bad_fd ?n \<or> to_int fd = ?n")
    case True
    then show ?thesis using call p ok by (auto simp: sys_dup2_def Let_def)
  next
    case False
    then obtain e u where u: "proc_fd_close out (Some p) ?n (fp_retain r s) = Some (e, u)" "t = set_fd p (nat ?n) (Some r) u"
      using call p l by (auto simp: sys_dup2_def Let_def split: Option.bind_splits)
    obtain H' where H': "fd_inv (held(r := held r + 1)) H' u" "small_heap (b_km u) H'" "\<And>c. cur_proc c u = cur_proc c s"
      "fdt u p (nat ?n) = None"
      by (rule proc_fd_close_cases [OF ri _ u(1)]) (use km False ri in \<open>auto simp: fd_frame_def\<close>)
    have "nat ?n < CHIMERA_PROC_MAX_FDS" using False by (auto simp: bad_fd_def)
    then have "fd_inv ((held(r := held r + 1))(r := held r)) H' t"
      using fd_inv_install [OF H'(1,4) p(3), of r] u(2) by simp
    then show ?thesis using ok H'(2,3) u(2) by (auto simp: fd_ok_def)
  qed
qed (use call ok in \<open>auto simp: sys_dup2_def Let_def split: if_splits\<close>)

lemma sys_fcntl_ok:
  assumes ok: "fd_ok held s" and call: "sys_fcntl out c fd cmd arg s = Some (x, t)"
  shows "fd_ok held t"
proof (rule fd_lookupE [OF ok, where c = c and fd = "to_int fd"])
  fix p r H assume p: "cur_proc c s = Some p" "\<not> bad_fd (to_int fd)" "p \<le> KERNEL_PROC" and f: "fdt s p (nat (to_int fd)) = Some r"
    and l: "proc_fd_lookup (Some p) (to_int fd) s = (Some r, fp_retain r s)"
    and ri: "fd_inv (held(r := held r + 1)) H (fp_retain r s)" and km: "small_heap (b_km s) H"
  show ?thesis
  proof (cases "to_int cmd = F_DUPFD")
    case True
    then have d: "fcntl_dupfd p (to_int fd) arg s = (x, t)" using call p by (simp add: sys_fcntl_def Let_def)
    show ?thesis
    proof (cases "t = s")
      case False
      then obtain i where i: "List.find (\<lambda>i. fdt s p i = None) [nat (if to_int arg < 0 then 0 else to_int arg)..<CHIMERA_PROC_MAX_FDS] = Some i"
        "t = set_fd p i (Some r) (fp_retain r s)"
        using d f by (auto simp: fcntl_dupfd_def Let_def split: if_splits option.splits)
      have "fd_inv ((held(r := held r + 1))(r := held r)) H t"
        using fd_inv_install [OF ri _ p(3), of i r] find_upt_some [OF i(1)] i(2) by simp
      then show ?thesis using ok km i(2) by (auto simp: fd_ok_def)
    qed (use ok in simp)
  next
    case False
    define u where "u = (if to_int cmd = F_SETFD then put_fp_flag FP_CLOEXEC (arg AND 1 \<noteq> 0) r (fp_retain r s)
        else if to_int cmd = F_SETFL then put_fp_flag FP_NONBLOCK (arg AND 2048 \<noteq> 0) r (fp_retain r s) else fp_retain r s)"
    have rel: "fp_release out (Some r) u = Some t"
      using call p l False by (auto simp: sys_fcntl_def Let_def u_def F_GETFD_def F_SETFD_def F_GETFL_def F_SETFL_def
          split: Option.bind_splits if_splits)
    have "fd_inv (held(r := held r + 1)) H u" unfolding u_def put_fp_flag_def
      using ri dyn_consts by (auto intro!: fd_inv_upd_fp good_fp_upd)
    moreover have "b_km u = b_km s" "\<And>c. cur_proc c u = cur_proc c s" by (simp_all add: u_def put_fp_flag_def)
    ultimately show ?thesis using fd_ok_release [OF ok _ _ _ rel] km by simp
  qed
qed (use call ok in \<open>auto simp: sys_fcntl_def Let_def fcntl_dupfd_def proc_fd_lookup_def split: if_splits option.splits\<close>)

text \<open>The calls that look at the file behind a descriptor.\<close>
lemma sys_fchdir_ok:
  assumes ok: "fd_ok held s" and call: "sys_fchdir out c fd s = Some (x, t)"
  shows "fd_ok held t"
proof (rule fd_lookupE [OF ok, where c = c and fd = "to_int fd"])
  fix p r H assume p: "cur_proc c s = Some p" and l: "proc_fd_lookup (Some p) (to_int fd) s = (Some r, fp_retain r s)"
    and ri: "fd_inv (held(r := held r + 1)) H (fp_retain r s)" and km: "small_heap (b_km s) H"
  have "t = s \<or> (\<exists>u. fp_release out (Some r) u = Some t \<and> (u = fp_retain r s \<or> (\<exists>v. u = upd_proc p (\<lambda>q. q\<lparr>p_cwd := Some v\<rparr>) (fp_retain r s))))"
    using call p l by (auto simp: sys_fchdir_def split: if_splits Option.bind_splits option.splits)
  then consider "t = s" | u where "fp_release out (Some r) u = Some t" "fd_inv (held(r := held r + 1)) H u = fd_inv (held(r := held r + 1)) H (fp_retain r s)"
      "b_km u = b_km s" "\<And>c. cur_proc c u = cur_proc c s"
  proof (elim disjE exE conjE)
    fix u v assume "fp_release out (Some r) u = Some t" and u: "u = upd_proc p (\<lambda>q. q\<lparr>p_cwd := Some v\<rparr>) (fp_retain r s)"
    moreover have "fd_inv (held(r := held r + 1)) H u = fd_inv (held(r := held r + 1)) H (fp_retain r s)"
      by (rule fd_inv_cong) (simp_all add: u prc_upd_proc)
    ultimately show ?thesis using that(2) by simp
  qed (use that in auto)
  then show ?thesis by cases (use ok fd_ok_release [OF ok] ri km in \<open>auto simp del: fun_upd_apply\<close>)
qed (use call ok in \<open>auto simp: sys_fchdir_def proc_fd_lookup_def split: if_splits\<close>)

lemma sys_lseek_ok:
  assumes ok: "fd_ok held s" and call: "sys_lseek out c fd off wh s = Some (x, t)"
  shows "fd_ok held t"
proof (rule fd_lookupE [OF ok, where c = c and fd = "to_int fd"])
  fix p r H assume p: "cur_proc c s = Some p" "\<not> bad_fd (to_int fd)"
    and l: "proc_fd_lookup (Some p) (to_int fd) s = (Some r, fp_retain r s)"
    and ri: "fd_inv (held(r := held r + 1)) H (fp_retain r s)" and km: "small_heap (b_km s) H"
  have "\<exists>u. fp_release out (Some r) u = Some t \<and> (u = fp_retain r s \<or> (\<exists>o'. u = upd_fp r (\<lambda>f. f\<lparr>fp_offset := o'\<rparr>) (fp_retain r s)))"
    using call p l by (auto simp: sys_lseek_def Let_def split: if_splits Option.bind_splits option.splits)
  then obtain u where u: "fp_release out (Some r) u = Some t" "fd_inv (held(r := held r + 1)) H u" "b_km u = b_km s"
    "\<And>c. cur_proc c u = cur_proc c s"
    using ri fd_inv_upd_fp [OF ri good_fp_upd(1)] by auto
  then show ?thesis using fd_ok_release [OF ok u(2) _ u(4,1)] km by simp
qed (use call ok in \<open>auto simp: sys_lseek_def Let_def split: if_splits\<close>)

lemma fd_setattr_ok:
  assumes ok: "fd_ok held s" and call: "fd_setattr perm f out c fd s = Some (x, t)"
  shows "fd_ok held t"
proof (rule fd_lookupE [OF ok, where c = c and fd = "to_int fd"])
  fix p r H assume p: "cur_proc c s = Some p" "\<not> bad_fd (to_int fd)"
    and l: "proc_fd_lookup (Some p) (to_int fd) s = (Some r, fp_retain r s)"
    and ri: "fd_inv (held(r := held r + 1)) H (fp_retain r s)" and km: "small_heap (b_km s) H"
  have "\<exists>u. fp_release out (Some r) u = Some t \<and> (u = fp_retain r s \<or> (\<exists>v g. u = upd_vn v g (fp_retain r s)))"
    using call p l by (auto simp: fd_setattr_def Let_def split: if_splits Option.bind_splits option.splits)
  then obtain u where u: "fp_release out (Some r) u = Some t" "fd_inv (held(r := held r + 1)) H u" "b_km u = b_km s"
    "\<And>c. cur_proc c u = cur_proc c s"
    using ri by auto
  then show ?thesis using fd_ok_release [OF ok u(2) _ u(4,1)] km by simp
qed (use call ok in \<open>auto simp: fd_setattr_def Let_def split: if_splits\<close>)

end
