(* ===== verification/Bsd_Examples.thy ===== *)
theory Bsd_Examples
  imports Fd_Ops Ipc_Props Net_Loop Pty_Props Pipe_Props
begin

text \<open>A small state of the BSD layer for examples: one process, run by the thread on CPU 0, with nothing open.\<close>

unbundle bit_operations_syntax

definition demo_bsd_ipc :: ipc_state where
  "demo_bsd_ipc = demo_ipc0\<lparr>i_sched := demo_sched\<lparr>sc_km := zone_init demo_kmem, sc_threads := (\<lambda>_. demo_thread\<lparr>th_task := Some 5\<rparr>),
     g_cpu_data := (\<lambda>c. (g_cpu_data demo_sched c)\<lparr>cpu_current_thread := Some 0\<rparr>)\<rparr>\<rparr>"

definition demo_bsd :: bsd_state where
  "demo_bsd = \<lparr>b_ipc = demo_bsd_ipc, b_net = quiet_net, b_pipes = (\<lambda>_. demo_pipe), b_pty = demo_pty, b_vnodes = (\<lambda>_. zero_vnode),
     s_registry = (\<lambda>_. \<lparr>ve_path = [], ve_vnode = None\<rparr>), s_rootfs_vnode_count = 0,
     s_fat_data = (\<lambda>_. \<lparr>start_cluster = 0, file_size = 0, is_dir = False, fn_path = [], parent_dir_cluster = 0, dir_entry_offset = 0\<rparr>),
     b_fps = (\<lambda>_. \<lparr>fp_signature = 0, fp_flags = 0, fp_type = 0, fp_refcount = 0, fp_object = FP_NULL, fp_offset = 0\<rparr>),
     s_fp_used = (\<lambda>_. False), b_procs = (\<lambda>_. zero_proc), s_pid_seq = 2, ta_proc = (\<lambda>t. if t = 5 then Some 0 else None),
     ta_signature = (\<lambda>_. CHIMERA_TASK_MAGIC), ta_threads = (\<lambda>_. []), ta_thread_count = (\<lambda>_. 0), proc_launchd = None, th_syscall_frame = (\<lambda>_. None),
     th_signature = (\<lambda>_. CHIMERA_THREAD_MAGIC), th_fork_frame = (\<lambda>_. None), th_fork_return_value = (\<lambda>_. 0), th_is_fork_child = (\<lambda>_. False),
     ta_mmap_records = (\<lambda>_. []), s_shm_entries = (\<lambda>_. \<lparr>shm_vp = None, shm_page_count = 0, shm_map_count = 0, shm_pages = (\<lambda>_. 0)\<rparr>),
     s_surface_phys = (\<lambda>_ _. 0), s_surface_refs = (\<lambda>_. 0)\<rparr>"

lemma demo_bsd_km: "b_km demo_bsd = zone_init demo_kmem"
  by (simp add: b_km_def demo_bsd_def demo_bsd_ipc_def demo_ipc0_def)

lemma demo_bsd_proc: "cur_proc c demo_bsd = Some 0"
  by (simp add: cur_proc_def current_task_def demo_bsd_def demo_bsd_ipc_def demo_ipc0_def current_thread_def curr_def demo_thread_def)

lemma demo_bsd_fds: "fdt demo_bsd p i = None"
  by (simp add: demo_bsd_def zero_proc_def)

lemma demo_bsd_inv: "fd_inv (\<lambda>_. 0) {} demo_bsd"
  using demo_bsd_fds by (auto simp: fd_inv_def tables_ok_def file_ok_def nrefs_def fd_refs_def fp_live_def demo_bsd_def split: fp_ref.splits)

lemma demo_bsd_ok: "fd_ok (\<lambda>_. 0) demo_bsd"
  using demo_bsd_inv demo_small_heap demo_bsd_km demo_bsd_proc by (auto simp: fd_ok_def KERNEL_PROC_def)

end
