(* ===== verification/Fd_Props.thy ===== *)
theory Fd_Props
  imports Bsd_Examples
begin

text \<open>
  Properties of open files and descriptors: the reference counts over any sequence of calls, what a close does,
  and two leaks, the file of a socket and the ends of a pipe.
\<close>

unbundle bit_operations_syntax

section \<open>Sequences of calls\<close>

datatype fd_call = CLOSE u64 | DUP u64 | DUP2 u64 u64 | FCNTL u64 u64 u64 | FCHDIR u64 | LSEEK u64 u64 u64
  | FCHMOD u64 u64 | FCHOWN u64 u64 u64

fun fd_call_run :: "out_fn \<Rightarrow> nat \<Rightarrow> fd_call \<Rightarrow> bsd_state \<Rightarrow> (int \<times> bsd_state) option" where
  "fd_call_run out c (CLOSE fd) = sys_close out c fd"
| "fd_call_run out c (DUP fd) = sys_dup out c fd"
| "fd_call_run out c (DUP2 fd fd') = sys_dup2 out c fd fd'"
| "fd_call_run out c (FCNTL fd cmd arg) = sys_fcntl out c fd cmd arg"
| "fd_call_run out c (FCHDIR fd) = sys_fchdir out c fd"
| "fd_call_run out c (LSEEK fd off wh) = sys_lseek out c fd off wh"
| "fd_call_run out c (FCHMOD fd mode) = sys_fchmod out c fd mode"
| "fd_call_run out c (FCHOWN fd uid gid) = sys_fchown out c fd uid gid"

text \<open>Each call with the CPU whose thread makes it.\<close>
fun fd_run :: "out_fn \<Rightarrow> (nat \<times> fd_call) list \<Rightarrow> bsd_state \<Rightarrow> bsd_state option" where
  "fd_run out [] s = Some s"
| "fd_run out ((c, call) # cs) s = do { (_, s) \<leftarrow> fd_call_run out c call s; fd_run out cs s }"

lemma fd_call_ok: "fd_ok held s \<Longrightarrow> fd_call_run out c call s = Some (x, t) \<Longrightarrow> fd_ok held t"
  by (cases call) (auto simp: sys_fchmod_def sys_fchown_def intro: sys_close_ok sys_dup_ok sys_dup2_ok sys_fcntl_ok sys_fchdir_ok
      sys_lseek_ok fd_setattr_ok)

lemma fd_run_inv: "fd_ok held s \<Longrightarrow> fd_run out cs s = Some t \<Longrightarrow> fd_ok held t"
proof (induction cs arbitrary: s)
  case (Cons x cs)
  then obtain c call y u where "x = (c, call)" "fd_call_run out c call s = Some (y, u)" "fd_run out cs u = Some t"
    by (cases x) (auto split: Option.bind_splits)
  then show ?case using Cons fd_call_ok by blast
qed simp

lemma fd_ok_counts:
  assumes "fd_ok held s" and "fdt s p i = Some r"
  shows "fp_signature (fpr s r) = CHIMERA_FILEPROC_MAGIC \<and> unat (fp_refcount (fpr s r)) = card (fd_refs s r) + held r"
proof -
  obtain H where inv: "fd_inv held H s" using assms(1) by (auto simp: fd_ok_def)
  then show ?thesis using fd_inv_good [OF inv, of r] assms(2) by (auto simp: good_fp_def nrefs_def)
qed


text \<open>The root directory open under the descriptor 3.\<close>
definition demo_file :: chimera_fileproc where
  "demo_file = \<lparr>fp_signature = CHIMERA_FILEPROC_MAGIC, fp_flags = FP_READABLE, fp_type = DTYPE_VNODE, fp_refcount = 1,
     fp_object = FP_VNODE VN_ROOTOBJ, fp_offset = 0\<rparr>"

definition demo_open :: bsd_state where
  "demo_open = set_fd 0 3 (Some (FP_POOL 0)) (upd_fp (FP_POOL 0) (\<lambda>_. demo_file) (demo_bsd\<lparr>s_fp_used := (\<lambda>i. i = 0)\<rparr>))"

lemma demo_open_simps:
  "fdt demo_open p i = (if p = 0 \<and> i = 3 then Some (FP_POOL 0) else None)" "fpr demo_open (FP_POOL 0) = demo_file"
  "cur_proc c demo_open = Some 0" "b_km demo_open = zone_init demo_kmem" "s_fp_used demo_open = (\<lambda>i. i = 0)"
  using demo_bsd_fds demo_bsd_km demo_bsd_proc by (simp_all add: demo_open_def fpr_upd_fp b_km_def)

lemma demo_open_inv: "fd_inv (\<lambda>_. 0) {} demo_open"
proof -
  have "fd_refs demo_open r = (if r = FP_POOL 0 then {(0, 3)} else {})" for r by (auto simp: fd_refs_def demo_open_simps)
  then have "nrefs (\<lambda>_. 0) demo_open r = (if r = FP_POOL 0 then 1 else 0)" for r by (simp add: nrefs_def)
  moreover have "good_fp (FP_POOL 0) demo_file 1"
    using dyn_consts(1) by (simp add: good_fp_def demo_file_def is_vnode_def)
  ultimately show ?thesis
    by (auto simp: fd_inv_def file_ok_def tables_ok_def fp_live_def demo_open_simps KERNEL_PROC_def CHIMERA_PROC_MAX_FDS_def
        FILEPROC_POOL_SIZE_def split: fp_ref.splits)
qed

lemma demo_open_ok: "fd_ok (\<lambda>_. 0) demo_open"
  using demo_open_inv demo_small_heap by (auto simp: fd_ok_def demo_open_simps KERNEL_PROC_def)

lemma find_upt_first: "a < b \<Longrightarrow> P a \<Longrightarrow> List.find P [a..<b] = Some a"
  by (simp add: upt_conv_Cons)

lemma demo_dup:
  "\<exists>t. sys_dup out 0 3 demo_open = Some (0, t) \<and> (\<forall>p i. fdt t p i = (if p = 0 \<and> i \<in> {0, 3} then Some (FP_POOL 0) else None))
     \<and> fpr t (FP_POOL 0) = demo_file\<lparr>fp_refcount := 2\<rparr>"
  by (simp add: sys_dup_def to_int_def bad_fd_def CHIMERA_PROC_MAX_FDS_def proc_fd_lookup_def demo_open_simps proc_fd_alloc_from_def find_upt_first
      fp_release_def fp_retain_def fpr_upd_fp Let_def demo_file_def)


section \<open>Closing\<close>



section \<open>Sockets\<close>

lemma fp_alloc_socket_cases:
  assumes inv: "fd_inv held H s" and km: "small_heap (b_km s) H" and fl: "flags AND FP_DYNAMIC_ALLOC = 0"
  obtains t where "fp_alloc_socket (Some so) flags s = Some (None, t)"
    | r t H' where "fp_alloc_socket (Some so) flags s = Some (Some r, t)" and "\<not> fp_live H s r" and "held r = 0" and "fd_inv (held(r := 1)) H' t"
      and "small_heap (b_km t) H'" and "fd_frame s t" and "fp_object (fpr t r) = FP_SOCKET so" and "b_net t = b_net s"
proof (rule fp_take_cases [OF km])
  fix t assume "fp_take s = Some (None, True, t)"
  then show ?thesis using that(1) [of t] by (simp add: fp_alloc_socket_def)
next
  fix r t H' assume t: "fp_take s = Some (Some r, \<exists>a. r = FP_HEAP a, t)" "\<not> fp_live H s r" "small_heap (b_km t) H'"
    "\<And>q. fp_live H' t q \<longleftrightarrow> fp_live H s q \<or> q = r" "fd_frame s t" "b_fps t = b_fps s" "b_vnodes t = b_vnodes s" "b_net t = b_net s"
  define fl' where "fl' = (let fl = flags OR FP_READABLE OR FP_WRITABLE in if \<exists>a. r = FP_HEAP a then fl OR FP_DYNAMIC_ALLOC else fl)"
  define f where "f = \<lparr>fp_signature = CHIMERA_FILEPROC_MAGIC, fp_flags = fl', fp_type = DTYPE_SOCKET, fp_refcount = 1,
      fp_object = FP_SOCKET so, fp_offset = 0\<rparr>"
  have "fl' AND FP_DYNAMIC_ALLOC \<noteq> 0 \<longleftrightarrow> (\<exists>a. r = FP_HEAP a)"
    using fl dyn_consts by (auto simp: fl'_def Let_def dyn_or)
  then have "good_fp r f 1" by (simp add: good_fp_def f_def is_socket_def)
  note n = fd_inv_new [OF inv t(2,4) _ t(6) this]
  have "fp_alloc_socket (Some so) flags s = Some (Some r, upd_fp r (\<lambda>_. f) t)"
    using t(1) by (simp add: fp_alloc_socket_def f_def fl'_def Let_def)
  then show ?thesis using that(2) n t(2,3,5,8) by (simp add: fd_frame_def fpr_upd_fp f_def)
qed

text \<open>A successful \<^verbatim>\<open>socket\<close> call leaves a reference that nobody holds.\<close>
lemma sys_socket_effect:
  assumes ok: "fd_ok held s" and call: "sys_socket out c domain type proto s = Some (fd, t)" and fd: "0 \<le> fd"
  obtains p r so H where "cur_proc c t = Some p" and "fd < int CHIMERA_PROC_MAX_FDS" and "fd_refs t r = {(p, nat fd)}"
    and "fd_inv (held(r := 1)) H t" and "held r = 0" and "small_heap (b_km t) H" and "fp_object (fpr t r) = FP_SOCKET so"
    and "few_held (held(r := 1))"
proof (rule fd_okE [OF ok])
  fix H assume inv: "fd_inv held H s" and km: "small_heap (b_km s) H" and few: "few_held held" "\<And>r. few_held (held(r := held r + 1))"
    and pr: "\<And>c p. cur_proc c s = Some p \<Longrightarrow> p \<le> KERNEL_PROC"
  obtain p where p: "cur_proc c s = Some p" using call fd by (cases "cur_proc c s") (auto simp: sys_socket_def)
  obtain n so u fp where so: "socreate (to_int domain) True (to_int type) (to_int proto) (b_net s) = (CHIMERA_SUCCESS, Some so, n)"
    and fp: "fp_alloc_socket (Some so) (FP_READABLE OR FP_WRITABLE) (s\<lparr>b_net := n\<rparr>) = Some (Some fp, u)"
    and inst: "proc_fd_install (Some p) (Some fp) u = Some (fd, t)"
    using call fd p by (auto simp: sys_socket_def Let_def split: prod.splits if_splits Option.bind_splits)
  have inv': "fd_inv held H (s\<lparr>b_net := n\<rparr>)" using inv fd_inv_cong [of "s\<lparr>b_net := n\<rparr>" s] by simp
  have km': "small_heap (b_km (s\<lparr>b_net := n\<rparr>)) H" using km by (simp add: b_km_def)
  have fl: "(FP_READABLE OR FP_WRITABLE) AND FP_DYNAMIC_ALLOC = 0" using dyn_or [of FP_READABLE FP_WRITABLE] dyn_consts by blast
  show ?thesis
  proof (rule fp_alloc_socket_cases [OF inv' km' fl, of so])
    fix u' assume "fp_alloc_socket (Some so) (FP_READABLE OR FP_WRITABLE) (s\<lparr>b_net := n\<rparr>) = Some (None, u')"
    then show ?thesis using fp by simp
  next
    fix r u' H' assume a: "fp_alloc_socket (Some so) (FP_READABLE OR FP_WRITABLE) (s\<lparr>b_net := n\<rparr>) = Some (Some r, u')"
      "\<not> fp_live H (s\<lparr>b_net := n\<rparr>) r" "held r = 0" "fd_inv (held(r := 1)) H' u'" "small_heap (b_km u') H'" "fd_frame (s\<lparr>b_net := n\<rparr>) u'"
      "fp_object (fpr u' r) = FP_SOCKET so"
    then have e: "u' = u" "r = fp" using fp by auto
    have few': "few_held (held(r := 1))" using few(2) [of r] a(3) by simp
    have "nrefs held s r = 0" using inv' a(2) by (auto simp: fd_inv_def file_ok_def nrefs_def fd_refs_def)
    then have none: "fd_refs s r = {}" using inv fd_refs_finite by (simp add: nrefs_def fd_inv_def)
    have tab: "b_procs u = b_procs s" using a(6) e by (simp add: fd_frame_def)
    show ?thesis
    proof (rule proc_fd_alloc_cases [OF a(4) _ few' pr [OF p], of r 0])
      fix i t' assume i: "proc_fd_alloc_from (Some p) (Some r) 0 u' = Some (int i, t')" "i < CHIMERA_PROC_MAX_FDS" "fd_inv (held(r := 1)) H' t'"
        "t' = set_fd_flags p i 0 (set_fd p i (Some r) (fp_retain r u'))"
      have t: "t' = t" "fd = int i" using i(1) inst e by (auto simp: proc_fd_install_def)
      have "fd_refs t r = {(p, nat fd)}" using none tab t i(4) e by (auto simp: fd_refs_def split: if_splits)
      moreover have "cur_proc c t = Some p" unfolding t(1) [symmetric] i(4) using p a(6) by (simp add: fd_frame_def)
      moreover have "fp_object (fpr t r) = FP_SOCKET so" unfolding t(1) [symmetric] i(4) using a(7) by (simp add: fp_retain_def fpr_upd_fp)
      ultimately show ?thesis using that [of p r H' so] i(2,3,4) a(3,5) t few' by simp
    qed (use inst e fd in \<open>auto simp: proc_fd_install_def\<close>)
  qed
qed

text \<open>C29. The socket call loses a reference: the descriptor it returns is the only one of the new open file, but after closing
  it the file is still there, with the count 1 and the socket behind it open, and no descriptor leads to it any more.\<close>
theorem sys_socket_leaks_file:
  assumes ok: "fd_ok held s" and call: "sys_socket out c domain type proto s = Some (fd, t)" and fd: "0 \<le> fd"
  shows "\<exists>r so u H. sys_close out c (word_of_int fd) t = Some (0, u) \<and> (\<forall>p i. fdt u p i \<noteq> Some r) \<and> held r = 0 \<and> fp_live H u r
    \<and> small_heap (b_km u) H \<and> fp_refcount (fpr u r) = 1 \<and> fp_object (fpr u r) = FP_SOCKET so \<and> b_net u = b_net t"
proof (rule sys_socket_effect [OF assms])
  fix p r so H assume a: "cur_proc c t = Some p" "fd < int CHIMERA_PROC_MAX_FDS" "fd_refs t r = {(p, nat fd)}" "fd_inv (held(r := 1)) H t"
    "held r = 0" "small_heap (b_km t) H" "fp_object (fpr t r) = FP_SOCKET so"
  let ?u = "set_fd_flags p (nat fd) 0 (set_fd p (nat fd) None t)"
  let ?t = "upd_fp r (\<lambda>f. f\<lparr>fp_refcount := fp_refcount f - 1\<rparr>) ?u"
  have w: "to_int (word_of_int fd) = fd"
    using fd a(2) by (simp add: to_int_def CHIMERA_PROC_MAX_FDS_def unsigned_of_int signed_of_int take_bit_int_eq_self signed_take_bit_int_eq_self
        ucast_eq)
  have f: "fdt t p (nat fd) = Some r" using a(3) by (auto simp: fd_refs_def)
  then have "fd_inv ((held(r := 1))(r := 2)) H ?u" using fd_inv_uninstall [OF a(4), of p "nat fd" r] by (simp add: numeral_2_eq_2)
  then have i: "fd_inv (held(r := 2)) H ?u" by simp
  have none: "fdt ?u q j \<noteq> Some r" for q j using a(3) by (auto simp: fd_refs_def split: if_splits)
  then have n: "nrefs (held(r := 2)) ?u r = 2" by (simp add: nrefs_def fd_refs_def)
  have sh: "fp_release out (Some r) ?u = Some ?t" "fd_inv ((held(r := 2))(r := 1)) H ?t"
    using fp_release_shared(1) [OF i, of r out] fp_release_shared(2) [OF i, of r] n by auto
  have "sys_close out c (word_of_int fd) t = Some (0, ?t)"
    using a(1,2) f fd sh(1) w by (simp add: sys_close_def proc_fd_close_def bad_fd_def)
  moreover have "fp_refcount (fpr ?u r) = 2"
    using fd_inv_good [OF i, of r] n by (simp add: good_fp_def word_unat_eq_iff)
  moreover have "fp_live H ?t r" using sh(2) fd_inv_live [OF sh(2), of r] by (auto simp: fd_inv_def file_ok_def)
  ultimately show ?thesis using a none by (intro exI [of _ r] exI [of _ so] exI [of _ ?t] exI [of _ H]) (simp add: fpr_upd_fp)
qed

lemma demo_socket: "\<exists>t. sys_socket out 0 2 2 0 demo_bsd = Some (0, t)"
proof -
  have f: "free_socket_slot quiet_net = Some 0" "find (\<lambda>i. up_so (s_udp_pcbs (upd_so 0 g quiet_net) i) = None) [0..<UDP_MAX_SOCKETS] = Some 0" for g
    unfolding free_socket_slot_def by (rule find_upt_first; simp add: MAX_SOCKETS_def UDP_MAX_SOCKETS_def CHIMERA_SOCKET_MAGIC_def quiet_net_sel upd_so_def quiet_net_def)+
  obtain n where n: "socreate 2 True 2 0 quiet_net = (CHIMERA_SUCCESS, Some 0, n)"
    by (simp add: socreate_def f udp_attach_def Let_def AF_INET_def SOCK_DGRAM_def)
  have "List.find (\<lambda>i. \<not> s_fp_used demo_bsd i) [0..<FILEPROC_POOL_SIZE] = Some 0"
    by (rule find_upt_first) (simp_all add: FILEPROC_POOL_SIZE_def demo_bsd_def)
  moreover have "b_net demo_bsd = quiet_net" "fdt demo_bsd 0 i = None" for i using demo_bsd_fds by (simp_all add: demo_bsd_def)
  ultimately show ?thesis
    by (simp add: sys_socket_def demo_bsd_proc to_int_def n Let_def fp_alloc_socket_def fp_take_def proc_fd_install_def proc_fd_alloc_from_def
        upd_fp_def CHIMERA_PROC_MAX_FDS_def find_upt_first)
qed

theorem sys_socket_leaks_file_witness:
  "\<exists>t u r so. sys_socket (\<lambda>_ _ _ _ _. None) 0 2 2 0 demo_bsd = Some (0, t) \<and> sys_close (\<lambda>_ _ _ _ _. None) 0 0 t = Some (0, u)
     \<and> (\<forall>p i. fdt u p i \<noteq> Some r) \<and> fp_refcount (fpr u r) = 1 \<and> fp_object (fpr u r) = FP_SOCKET so"
proof -
  obtain t where t: "sys_socket (\<lambda>_ _ _ _ _. None) 0 2 2 0 demo_bsd = Some (0, t)" using demo_socket by blast
  show ?thesis using sys_socket_leaks_file [OF demo_bsd_ok t] t by auto
qed

section \<open>Pipes\<close>

lemma fp_release_pipes:
  assumes "fp_release out r s = Some t"
  shows "b_pipes t = b_pipes s \<and> (\<forall>c. cur_proc c t = cur_proc c s)"
  using assms
  by (auto simp: fp_release_def fp_drop_object_def fp_free_def Let_def split: option.splits if_splits Option.bind_splits fp_ref.splits prod.splits)

definition same_pipes :: "bsd_state \<Rightarrow> bsd_state \<Rightarrow> bool" where
  "same_pipes s t \<longleftrightarrow> b_pipes t = b_pipes s \<and> (\<forall>c. cur_proc c t = cur_proc c s)"

lemma proc_fd_close_pipes: "proc_fd_close out p fd s = Some (e, t) \<Longrightarrow> same_pipes s t"
  by (auto simp: proc_fd_close_def same_pipes_def split: option.splits if_splits Option.bind_splits dest!: fp_release_pipes)

lemma proc_fd_lookup_pipes: "proc_fd_lookup p fd s = (r, t) \<Longrightarrow> same_pipes s t"
  by (auto simp: proc_fd_lookup_def same_pipes_def split: option.splits if_splits)

lemma proc_fd_alloc_pipes: "proc_fd_alloc_from p r m s = Some (x, t) \<Longrightarrow> same_pipes s t"
  by (auto simp: proc_fd_alloc_from_def same_pipes_def Let_def split: option.splits if_splits)

lemmas pipe_frames = fp_release_pipes proc_fd_close_pipes [unfolded same_pipes_def] proc_fd_lookup_pipes [unfolded same_pipes_def]
  proc_fd_alloc_pipes [unfolded same_pipes_def]

lemma fd_call_pipes: "fd_call_run out c call s = Some (x, t) \<Longrightarrow> same_pipes s t"
proof (cases call)
  case (FCNTL fd cmd arg)
  moreover assume "fd_call_run out c call s = Some (x, t)"
  ultimately show ?thesis
    by (auto simp: sys_fcntl_def fcntl_dupfd_def put_fp_flag_def same_pipes_def Let_def split: option.splits if_splits Option.bind_splits prod.splits
        dest!: pipe_frames)
qed (auto simp: sys_close_def sys_dup_def sys_dup2_def sys_fchdir_def sys_lseek_def sys_fchmod_def sys_fchown_def fd_setattr_def same_pipes_def
    Let_def split: option.splits if_splits Option.bind_splits prod.splits dest!: pipe_frames)

lemma fd_run_pipes: "fd_run out cs s = Some t \<Longrightarrow> same_pipes s t"
proof (induction cs arbitrary: s)
  case (Cons x cs)
  then obtain c call y u where "x = (c, call)" "fd_call_run out c call s = Some (y, u)" "fd_run out cs u = Some t"
    by (cases x) (auto split: Option.bind_splits)
  then show ?case using Cons.IH fd_call_pipes unfolding same_pipes_def by metis
qed (simp add: same_pipes_def)

text \<open>Closing never reaches a pipe: no sequence of calls on descriptors changes a pipe, so the writers of a pipe whose
  write ends are all closed are still counted, and once 32 pipes have been made no process can make another, whatever is
  closed.\<close>
theorem closed_pipes_stay:
  assumes "\<forall>i < MAX_PIPES. p_active (b_pipes s i)" and "fd_run out cs s = Some t"
  shows "b_pipes t = b_pipes s \<and> (cur_proc c t \<noteq> None \<longrightarrow> ptr \<noteq> 0 \<longrightarrow> sys_pipe out c ptr t = Some (- 23, t))"
proof -
  have "b_pipes t = b_pipes s" using fd_run_pipes [OF assms(2)] by (simp add: same_pipes_def)
  moreover from this have "List.find (\<lambda>i. \<not> p_active (b_pipes t i)) [0..<MAX_PIPES] = None" using assms(1) by (auto simp: find_None_iff)
  ultimately show ?thesis by (auto simp: sys_pipe_def bsd_pipe_create_def pipe_create_def)
qed

text \<open>All pipes in use; the descriptor 3 is the only write end of the first.\<close>
definition demo_pipes :: bsd_state where
  "demo_pipes = upd_fp (FP_POOL 0) (\<lambda>f. f\<lparr>fp_object := FP_VNODE (VN_PIPE 0 WRITE_END)\<rparr>)
     (demo_open\<lparr>b_pipes := (\<lambda>_. demo_pipe\<lparr>p_active := True, p_readers := 1, p_writers := 1\<rparr>)\<rparr>)"

theorem closed_pipes_stay_witness:
  "\<exists>t. fd_run (\<lambda>_ _ _ _ _. None) [(0, CLOSE 3)] demo_pipes = Some t \<and> fdt t 0 3 = None \<and> \<not> s_fp_used t 0
     \<and> p_writers (b_pipes t 0) = 1 \<and> sys_pipe (\<lambda>_ _ _ _ _. None) 0 4096 t = Some (- 23, t)"
proof -
  have c: "cur_proc 0 demo_pipes = Some 0" using demo_open_simps(3) by (simp add: demo_pipes_def)
  have "fdt demo_pipes 0 3 = Some (FP_POOL 0)" "fpr demo_pipes (FP_POOL 0) = demo_file\<lparr>fp_object := FP_VNODE (VN_PIPE 0 WRITE_END)\<rparr>"
    by (simp_all add: demo_pipes_def demo_open_simps fpr_upd_fp)
  then obtain t where t: "sys_close (\<lambda>_ _ _ _ _. None) 0 3 demo_pipes = Some (0, t)" "fdt t 0 3 = None" "\<not> s_fp_used t 0" "cur_proc 0 t = Some 0"
    using dyn_consts(1)
    by (simp add: sys_close_def c proc_fd_close_def to_int_def bad_fd_def CHIMERA_PROC_MAX_FDS_def fp_release_def fpr_upd_fp demo_file_def Let_def
        fp_drop_object_def fp_vnode_def fp_free_def FILEPROC_POOL_SIZE_def DTYPE_VNODE_def DTYPE_SOCKET_def)
  then have r: "fd_run (\<lambda>_ _ _ _ _. None) [(0, CLOSE 3)] demo_pipes = Some t" by simp
  show ?thesis using closed_pipes_stay [OF _ r, of 0 4096] r t by (simp add: demo_pipes_def)
qed

end
