(* ===== verification/Vfs.thy ===== *)
theory Vfs
  imports Fd_Syscall
begin

text \<open>
  The path registry and the directory tree, \<^verbatim>\<open>kernel/vfs/vfs.c\<close>. A path is a string without its terminator; the
  buffers of all callers have 256 bytes. The registry is a hash table with linear probing in which a deleted entry keeps
  a path that starts with the character 1. \<open>None\<close> is a write behind a buffer, a failed assertion, or a walk along a
  cyclic list of siblings.
\<close>

unbundle bit_operations_syntax

definition VFS_REGISTRY_SIZE :: nat where "VFS_REGISTRY_SIZE = 16384"
definition VFS_TOMBSTONE :: char where "VFS_TOMBSTONE = CHR 0x01"
definition ROOTFS_MAX_VNODES :: nat where "ROOTFS_MAX_VNODES = 2048"
definition PATH_CAP :: nat where "PATH_CAP = 256"

section \<open>Strings\<close>

definition vfs_hash :: "string \<Rightarrow> u32" where
  "vfs_hash path = fold (\<lambda>c h. (push_bit 5 h + h) XOR of_char c) path 5381"

definition k_tolower :: "char \<Rightarrow> char" where
  "k_tolower c = (let n = of_char c :: nat in if 65 \<le> n \<and> n \<le> 90 then char_of (n + 32) else c)"

text \<open>The value of a character, which is signed.\<close>
definition schar :: "char \<Rightarrow> int" where "schar c = sint (of_char c :: u8)"

text \<open>The byte at the start of a string, the terminator included.\<close>
definition first_byte :: "string \<Rightarrow> int" where
  "first_byte s = (case s of [] \<Rightarrow> 0 | c # _ \<Rightarrow> of_char c)"

fun k_strcasecmp :: "string \<Rightarrow> string \<Rightarrow> int" where
  "k_strcasecmp (a # s1) (b # s2) =
     (if k_tolower a \<noteq> k_tolower b then schar (k_tolower a) - schar (k_tolower b) else k_strcasecmp s1 s2)"
| "k_strcasecmp s1 s2 = first_byte s1 - first_byte s2"

fun k_strncasecmp :: "string \<Rightarrow> string \<Rightarrow> nat \<Rightarrow> int" where
  "k_strncasecmp s1 s2 0 = 0"
| "k_strncasecmp (a # s1) (b # s2) (Suc n) =
     (if k_tolower a \<noteq> k_tolower b then schar (k_tolower a) - schar (k_tolower b) else k_strncasecmp s1 s2 n)"
| "k_strncasecmp s1 s2 (Suc n) = first_byte s1 - first_byte s2"

section \<open>Normalising a path\<close>

text \<open>The four Darwin aliases: the first path component and what replaces it.\<close>
definition path_aliases :: "(string \<times> string) list" where
  "path_aliases = [(''/etc'', ''/private/etc''), (''/var'', ''/private/var''), (''/tmp'', ''/private/tmp''), (''/lib'', ''/usr/lib'')]"

text \<open>The copy of an aliased path into a buffer.\<close>
definition put_alias :: "string \<Rightarrow> string \<Rightarrow> string" where
  "put_alias alias rest = alias @ take (PATH_CAP - length alias - 1) rest"

definition fast_path :: "string \<Rightarrow> bool" where
  "fast_path p \<longleftrightarrow> p \<noteq> [] \<and> p ! 0 = CHR ''/'' \<and> CHR ''.'' \<notin> set p \<and> CHR '':'' \<notin> set p \<and> CHR '' '' \<notin> set p"

definition normalize_fast :: "string \<Rightarrow> string" where
  "normalize_fast p =
     (case List.find (\<lambda>(a, _). take 4 p = a \<and> (length p = 4 \<or> p ! 4 = CHR ''/'')) path_aliases of
        Some (_, alias) \<Rightarrow> put_alias alias (drop 4 p)
      | None \<Rightarrow> take (PATH_CAP - 1) p)"

text \<open>A volume prefix up to a colon, a remark in parentheses, blanks and repeated slashes in front.\<close>
definition after :: "char \<Rightarrow> string \<Rightarrow> string" where
  "after c p = (if c \<in> set p then tl (dropWhile (\<lambda>x. x \<noteq> c) p) else p)"

fun skip_slashes :: "string \<Rightarrow> string" where
  "skip_slashes (a # b # p) = (if a = CHR ''/'' \<and> b = CHR ''/'' then skip_slashes (b # p) else a # b # p)"
| "skip_slashes p = p"

definition strip_prefix :: "string \<Rightarrow> string" where
  "strip_prefix p =
     (let p = after CHR '':'' p;
          p = (if p \<noteq> [] \<and> p ! 0 = CHR ''('' then after CHR '')'' p else p)
      in skip_slashes (dropWhile (\<lambda>c. c = CHR '' '') p))"

text \<open>The working directory in front of a relative path. With 255 characters and no slash at the end there is no room
  for the slash and the terminator.\<close>
definition cwd_prefix :: "string \<Rightarrow> string option" where
  "cwd_prefix cwd =
     (let temp = take (PATH_CAP - 1) cwd in
      if temp = [] \<or> last temp \<noteq> CHR ''/''
      then (if length temp = PATH_CAP - 1 then None else Some (temp @ ''/'')) else Some temp)"

text \<open>The copy into the buffer, without a slash after a slash.\<close>
fun copy_path :: "string \<Rightarrow> string \<Rightarrow> string" where
  "copy_path [] temp = temp"
| "copy_path (c # p) temp =
     (if length temp + 1 \<ge> PATH_CAP then temp
      else if c = CHR ''/'' \<and> temp \<noteq> [] \<and> last temp = CHR ''/'' then copy_path p temp
      else copy_path p (temp @ [c]))"

text \<open>The segments of a path.\<close>
fun split_path :: "string \<Rightarrow> string list" where
  "split_path [] = [[]]"
| "split_path (c # p) =
     (case split_path p of
        [] \<Rightarrow> [[c]]
      | x # xs \<Rightarrow> if c = CHR ''/'' then [] # x # xs else (c # x) # xs)"

definition add_segment :: "string \<Rightarrow> string list \<Rightarrow> string list" where
  "add_segment sg segs =
     (if sg = ''.'' then segs
      else if sg = ''..'' then (if segs = [] then segs else butlast segs)
      else if length segs < 16 \<and> length sg < 64 then segs @ [sg] else segs)"

definition path_segments :: "string \<Rightarrow> string list" where
  "path_segments temp = fold add_segment (filter (\<lambda>x. x \<noteq> []) (split_path temp)) []"

fun join_segments :: "string list \<Rightarrow> string \<Rightarrow> string" where
  "join_segments [] r = r"
| "join_segments (sg # segs) r =
     (if length r + length sg + 1 \<ge> PATH_CAP then r
      else join_segments segs ((if length r > 1 then r @ ''/'' else r) @ sg))"

definition alias_path :: "string \<Rightarrow> string" where
  "alias_path r =
     (case List.find (\<lambda>(a, _). r = a \<or> k_strncasecmp r (a @ ''/'') 5 = 0) path_aliases of
        Some (_, alias) \<Rightarrow> put_alias alias (drop 4 r)
      | None \<Rightarrow> r)"

text \<open>The working directory is looked at for a relative path only.\<close>
definition vfs_normalize_path :: "string option \<Rightarrow> string \<Rightarrow> string option" where
  "vfs_normalize_path cwd p =
     (if fast_path p then Some (normalize_fast p)
      else let q = strip_prefix p in do {
        temp \<leftarrow> (if q \<noteq> [] \<and> q ! 0 = CHR ''/'' then Some [] else do { d \<leftarrow> cwd; cwd_prefix d });
        Some (take (PATH_CAP - 1) (alias_path (join_segments (path_segments (copy_path q temp)) ''/'')))
      })"

text \<open>The working directory of the calling process as the code finds it.\<close>
definition cwd_string :: "nat \<Rightarrow> bsd_state \<Rightarrow> string option" where
  "cwd_string my_cpu s =
     (case cur_proc my_cpu s of
        None \<Rightarrow> Some ''/''
      | Some p \<Rightarrow>
          (case p_cwd (prc s p) of
             None \<Rightarrow> Some ''/''
           | Some v \<Rightarrow>
               let x = vnd s v; name = (if v_name x \<noteq> [] then v_name x else ''/'') in
               if v_op x = Some s_fat32_dir_ops then
                 (case v_data x of
                    D_NULL \<Rightarrow> Some name
                  | D_FAT n \<Rightarrow> Some (if fn_path (s_fat_data s n) \<noteq> [] then fn_path (s_fat_data s n) else name)
                  | _ \<Rightarrow> None)
               else Some name))"

definition normalize :: "nat \<Rightarrow> string \<Rightarrow> bsd_state \<Rightarrow> string option" where
  "normalize my_cpu p s = vfs_normalize_path (cwd_string my_cpu s) p"

section \<open>The registry\<close>

abbreviation next_slot :: "nat \<Rightarrow> nat" where "next_slot i \<equiv> (i + 1) mod VFS_REGISTRY_SIZE"

definition hash_slot :: "string \<Rightarrow> nat" where "hash_slot k = unat (vfs_hash k) mod VFS_REGISTRY_SIZE"

definition tombstone :: "string \<Rightarrow> bool" where "tombstone p \<longleftrightarrow> p \<noteq> [] \<and> p ! 0 = VFS_TOMBSTONE"

text \<open>The probe of \<^verbatim>\<open>vfs_lookup\<close> for a key, over at most \<open>n\<close> slots.\<close>
fun probe_lookup :: "(nat \<Rightarrow> vfs_entry) \<Rightarrow> string \<Rightarrow> nat \<Rightarrow> nat \<Rightarrow> vnode_ref option" where
  "probe_lookup reg k idx 0 = None"
| "probe_lookup reg k idx (Suc n) =
     (let e = reg idx in
      if ve_path e = [] then None
      else if \<not> tombstone (ve_path e) \<and> ve_vnode e \<noteq> None \<and> ve_path e = k then ve_vnode e
      else probe_lookup reg k (next_slot idx) n)"

text \<open>The probe of \<^verbatim>\<open>vfs_register\<close>: the slot to write, the first tombstone passed when the chain ends.\<close>
fun probe_insert :: "(nat \<Rightarrow> vfs_entry) \<Rightarrow> string \<Rightarrow> nat \<Rightarrow> nat option \<Rightarrow> nat \<Rightarrow> nat option" where
  "probe_insert reg k idx tomb 0 = None"
| "probe_insert reg k idx tomb (Suc n) =
     (let e = reg idx in
      if ve_path e = [] then Some (case tomb of Some t \<Rightarrow> t | None \<Rightarrow> idx)
      else if tombstone (ve_path e) then probe_insert reg k (next_slot idx) (if tomb = None then Some idx else tomb) n
      else if ve_path e = k then Some idx
      else probe_insert reg k (next_slot idx) tomb n)"

fun probe_remove :: "(nat \<Rightarrow> vfs_entry) \<Rightarrow> string \<Rightarrow> nat \<Rightarrow> nat \<Rightarrow> nat option" where
  "probe_remove reg k idx 0 = None"
| "probe_remove reg k idx (Suc n) =
     (let e = reg idx in
      if ve_vnode e \<noteq> None \<and> ve_path e = k then Some idx
      else if ve_vnode e = None \<and> ve_path e = [] then None
      else probe_remove reg k (next_slot idx) n)"

definition reg_insert :: "string \<Rightarrow> vnode_ref \<Rightarrow> (nat \<Rightarrow> vfs_entry) \<Rightarrow> (nat \<Rightarrow> vfs_entry) option" where
  "reg_insert k v reg =
     (case probe_insert reg k (hash_slot k) None VFS_REGISTRY_SIZE of
        None \<Rightarrow> None
      | Some i \<Rightarrow> Some (reg(i := \<lparr>ve_path = take 255 k, ve_vnode = Some v\<rparr>)))"

definition reg_lookup :: "string \<Rightarrow> (nat \<Rightarrow> vfs_entry) \<Rightarrow> vnode_ref option" where
  "reg_lookup k reg = probe_lookup reg k (hash_slot k) VFS_REGISTRY_SIZE"

definition reg_remove :: "string \<Rightarrow> (nat \<Rightarrow> vfs_entry) \<Rightarrow> (vnode_ref \<times> (nat \<Rightarrow> vfs_entry)) option" where
  "reg_remove k reg =
     (case probe_remove reg k (hash_slot k) VFS_REGISTRY_SIZE of
        None \<Rightarrow> None
      | Some i \<Rightarrow> (case ve_vnode (reg i) of
          None \<Rightarrow> None
        | Some v \<Rightarrow> Some (v, reg(i := \<lparr>ve_path = (case ve_path (reg i) of [] \<Rightarrow> [VFS_TOMBSTONE] | _ # p \<Rightarrow> VFS_TOMBSTONE # p),
            ve_vnode = None\<rparr>))))"

section \<open>Looking up\<close>

text \<open>One segment in 8.3 form, in lower case.\<close>
definition segment_83 :: "string \<Rightarrow> string" where
  "segment_83 sg =
     (let name = takeWhile (\<lambda>c. c \<noteq> CHR ''.'') sg; dot = CHR ''.'' \<in> set sg; ext = tl (dropWhile (\<lambda>c. c \<noteq> CHR ''.'') sg)
      in map k_tolower (take 8 name) @ (if dot then CHR ''.'' # map k_tolower (take 3 ext) else []))"

text \<open>The segments between slashes, each cut to what still fits the buffer; a full buffer ends the walk.\<close>
function path_to_83 :: "string \<Rightarrow> string \<Rightarrow> string" where
  "path_to_83 p res =
     (if p = [] \<or> length res + 1 \<ge> PATH_CAP then res
      else if p ! 0 = CHR ''/'' then path_to_83 (tl p) (res @ ''/'')
      else path_to_83 (dropWhile (\<lambda>c. c \<noteq> CHR ''/'') p)
             (take (PATH_CAP - 1) (res @ segment_83 (takeWhile (\<lambda>c. c \<noteq> CHR ''/'') p))))"
  by pat_completeness auto
termination
proof (relation "measure (\<lambda>(p, res). length p)", simp)
  show "\<And>p res. \<not> (p = [] \<or> PATH_CAP \<le> length res + 1) \<Longrightarrow> p ! 0 = CHR ''/'' \<Longrightarrow> ((tl p, res @ ''/''), p, res) \<in> measure (\<lambda>(p, res). length p)"
    by simp
  fix p res :: string assume a: "\<not> (p = [] \<or> PATH_CAP \<le> length res + 1)" "p ! 0 \<noteq> CHR ''/''"
  then have "length (dropWhile (\<lambda>c. c \<noteq> CHR ''/'') p) < length p"
    by (cases p) (auto intro: le_imp_less_Suc length_dropWhile_le)
  then show "((dropWhile (\<lambda>c. c \<noteq> CHR ''/'') p, take (PATH_CAP - 1) (res @ segment_83 (takeWhile (\<lambda>c. c \<noteq> CHR ''/'') p))), p, res)
      \<in> measure (\<lambda>(p, res). length p)" by simp
qed

declare path_to_83.simps [simp del]

definition vfs_path_to_83 :: "string \<Rightarrow> string" where "vfs_path_to_83 p = path_to_83 p []"

text \<open>The look-up of a normalised path: as it is, and then in 8.3 form.\<close>
definition lookup_norm :: "string \<Rightarrow> (nat \<Rightarrow> vfs_entry) \<Rightarrow> vnode_ref option" where
  "lookup_norm norm reg =
     (case reg_lookup norm reg of
        Some v \<Rightarrow> Some v
      | None \<Rightarrow> if vfs_path_to_83 norm \<noteq> norm then reg_lookup (vfs_path_to_83 norm) reg else None)"

text \<open>\<^verbatim>\<open>vfs_lookup\<close>: the vnode, or \<open>None\<close> inside for \<^verbatim>\<open>CHIMERA_ERR_NOTFOUND\<close>.\<close>
definition vfs_lookup :: "nat \<Rightarrow> string \<Rightarrow> bsd_state \<Rightarrow> vnode_ref option option" where
  "vfs_lookup my_cpu p s = do { norm \<leftarrow> normalize my_cpu p s; Some (lookup_norm norm (s_registry s)) }"

section \<open>Registering\<close>

definition vfs_create_dir_vnode :: "string \<Rightarrow> bsd_state \<Rightarrow> vnode_ref option \<times> bsd_state" where
  "vfs_create_dir_vnode name s =
     (if s_rootfs_vnode_count s \<ge> ROOTFS_MAX_VNODES then (None, s)
      else let v = VN_POOL (s_rootfs_vnode_count s) in
        (Some v, upd_vn v (\<lambda>_. zero_vnode\<lparr>v_signature := CHIMERA_VNODE_MAGIC, v_type := VDIR, v_flags := VN_SYSTEM,
             v_op := Some s_root_ops, v_name := take 255 name\<rparr>) (s\<lparr>s_rootfs_vnode_count := s_rootfs_vnode_count s + 1\<rparr>)))"

text \<open>What follows the last slash, and what precedes it (at least the slash of the root).\<close>
definition base_name :: "string \<Rightarrow> string" where
  "base_name p = rev (takeWhile (\<lambda>c. c \<noteq> CHR ''/'') (rev p))"

definition dir_name :: "string \<Rightarrow> string" where
  "dir_name p = (if CHR ''/'' \<notin> set p then p
     else let d = take (length p - length (base_name p) - 1) p in if d = [] then take 1 p else d)"

text \<open>Is the vnode, or one of its name, among the children?\<close>
partial_function (option) child_known :: "vnode_ref \<Rightarrow> vnode_ref option \<Rightarrow> bsd_state \<Rightarrow> bool option" where
  "child_known v c s =
     (case c of
        None \<Rightarrow> Some False
      | Some w \<Rightarrow> if w = v \<or> v_name (vnd s w) = v_name (vnd s v) then Some True
          else child_known v (v_sibling_next (vnd s w)) s)"

declare child_known.simps [code]

text \<open>Linking a vnode into the directory above it.\<close>
definition link_child :: "vnode_ref \<Rightarrow> vnode_ref \<Rightarrow> bsd_state \<Rightarrow> bsd_state option" where
  "link_child v d s = do {
     let s = upd_vn v (\<lambda>x. x\<lparr>v_parent := Some d\<rparr>) s;
     found \<leftarrow> child_known v (v_children (vnd s d)) s;
     Some (if found then s
           else upd_vn d (\<lambda>x. x\<lparr>v_children := Some v\<rparr>) (upd_vn v (\<lambda>x. x\<lparr>v_sibling_next := v_children (vnd s d)\<rparr>) s))
   }"

text \<open>The prefixes of a path at its inner slashes, the shortest first.\<close>
definition parent_prefixes :: "string \<Rightarrow> string list" where
  "parent_prefixes p = map (\<lambda>i. take i p) (filter (\<lambda>i. p ! i = CHR ''/'') [1..<length p])"

text \<open>\<^verbatim>\<open>vfs_register\<close> and \<^verbatim>\<open>vfs_ensure_parent_dirs\<close> call each other; \<open>n\<close> bounds the depth.\<close>
fun vfs_register_depth :: "nat \<Rightarrow> nat \<Rightarrow> string \<Rightarrow> vnode_ref \<Rightarrow> bsd_state \<Rightarrow> (chimera_error \<times> bsd_state) option" where
  "vfs_register_depth 0 my_cpu path v s = None"
| "vfs_register_depth (Suc n) my_cpu path v s = do {
     norm \<leftarrow> normalize my_cpu path s;
     s \<leftarrow> (if norm = ''/'' then Some s
           else do {
             s \<leftarrow> (if norm = [] \<or> norm ! 0 \<noteq> CHR ''/'' \<or> length norm \<ge> PATH_CAP then Some s
                   else fold (\<lambda>buf r. do {
                       s \<leftarrow> r;
                       existing \<leftarrow> vfs_lookup my_cpu buf s;
                       (if existing \<noteq> None then Some s
                        else case vfs_create_dir_vnode (base_name buf) s of
                          (None, s) \<Rightarrow> Some s
                        | (Some d, s) \<Rightarrow> do { (_, s) \<leftarrow> vfs_register_depth n my_cpu buf d s; Some s })
                     }) (parent_prefixes norm) (Some s));
             dvp \<leftarrow> vfs_lookup my_cpu (dir_name norm) s;
             (case dvp of None \<Rightarrow> Some s | Some d \<Rightarrow> if d = v then Some s else link_child v d s)
           });
     Some (case reg_insert norm v (s_registry s) of
         Some reg \<Rightarrow> (CHIMERA_SUCCESS, s\<lparr>s_registry := reg\<rparr>)
       | None \<Rightarrow> (CHIMERA_ERR_OVERFLOW, s))
   }"

definition vfs_register :: "nat \<Rightarrow> string \<Rightarrow> vnode_ref \<Rightarrow> bsd_state \<Rightarrow> (chimera_error \<times> bsd_state) option" where
  "vfs_register = vfs_register_depth PATH_CAP"

section \<open>Unregistering and renaming\<close>

text \<open>The walk to the sibling in front of a vnode.\<close>
partial_function (option) unlink_sibling :: "vnode_ref \<Rightarrow> vnode_ref option \<Rightarrow> bsd_state \<Rightarrow> bsd_state option" where
  "unlink_sibling v c s =
     (case c of
        None \<Rightarrow> Some s
      | Some w \<Rightarrow> (case v_sibling_next (vnd s w) of
          None \<Rightarrow> Some s
        | Some y \<Rightarrow> if y = v then Some (upd_vn w (\<lambda>x. x\<lparr>v_sibling_next := v_sibling_next (vnd s v)\<rparr>) s)
            else unlink_sibling v (Some y) s))"

declare unlink_sibling.simps [code]

definition unlink_child :: "vnode_ref \<Rightarrow> bsd_state \<Rightarrow> bsd_state option" where
  "unlink_child v s =
     (case v_parent (vnd s v) of
        None \<Rightarrow> Some s
      | Some d \<Rightarrow> do {
          s \<leftarrow> (if v_children (vnd s d) = Some v then Some (upd_vn d (\<lambda>x. x\<lparr>v_children := v_sibling_next (vnd s v)\<rparr>) s)
                else unlink_sibling v (v_children (vnd s d)) s);
          Some (upd_vn v (\<lambda>x. x\<lparr>v_parent := None, v_sibling_next := None\<rparr>) s)
        })"

definition vfs_unregister :: "nat \<Rightarrow> string \<Rightarrow> bsd_state \<Rightarrow> (chimera_error \<times> bsd_state) option" where
  "vfs_unregister my_cpu path s = do {
     norm \<leftarrow> normalize my_cpu path s;
     (case reg_remove norm (s_registry s) of
        None \<Rightarrow> Some (CHIMERA_ERR_NOTFOUND, s)
      | Some (v, reg) \<Rightarrow> do { s \<leftarrow> unlink_child v (s\<lparr>s_registry := reg\<rparr>); Some (CHIMERA_SUCCESS, s) })
   }"

text \<open>The part behind the last slash that is not the last character.\<close>
definition rename_base :: "string \<Rightarrow> string" where
  "rename_base p =
     (case filter (\<lambda>i. p ! i = CHR ''/'' \<and> i + 1 < length p) [0..<length p] of [] \<Rightarrow> p | is \<Rightarrow> drop (last is + 1) p)"

definition vfs_rename_node :: "nat \<Rightarrow> string \<Rightarrow> string \<Rightarrow> bsd_state \<Rightarrow> (chimera_error \<times> bsd_state) option" where
  "vfs_rename_node my_cpu oldpath newpath s = do {
     norm_old \<leftarrow> normalize my_cpu oldpath s;
     norm_new \<leftarrow> normalize my_cpu newpath s;
     r \<leftarrow> vfs_lookup my_cpu norm_old s;
     (case r of
        None \<Rightarrow> Some (CHIMERA_ERR_NOTFOUND, s)
      | Some v \<Rightarrow> do {
          (err, s) \<leftarrow> vfs_register my_cpu norm_new v s;
          (if err \<noteq> CHIMERA_SUCCESS then Some (err, s)
           else do {
             (_, s) \<leftarrow> vfs_unregister my_cpu norm_old s;
             Some (CHIMERA_SUCCESS, upd_vn v (\<lambda>x. x\<lparr>v_name := take 255 (rename_base norm_new)\<rparr>) s)
           })
        })
   }"

section \<open>Listing and set-up\<close>

definition vfs_path_for_vnode :: "vnode_ref option \<Rightarrow> bsd_state \<Rightarrow> string option" where
  "vfs_path_for_vnode r s =
     (case r of
        None \<Rightarrow> None
      | Some v \<Rightarrow> map_option (\<lambda>i. ve_path (s_registry s i)) (List.find (\<lambda>i. ve_vnode (s_registry s i) = Some v) [0..<VFS_REGISTRY_SIZE]))"

text \<open>The child at an index.\<close>
fun nth_child :: "vnode_ref option \<Rightarrow> nat \<Rightarrow> bsd_state \<Rightarrow> vnode_ref option" where
  "nth_child None n s = None"
| "nth_child (Some v) 0 s = Some v"
| "nth_child (Some v) (Suc n) s = nth_child (v_sibling_next (vnd s v)) n s"

definition vfs_readdir_flat :: "vnode_ref option \<Rightarrow> nat \<Rightarrow> nat \<Rightarrow> bsd_state \<Rightarrow> chimera_error + string \<times> vnode_ref" where
  "vfs_readdir_flat dvp index name_cap s =
     (case dvp of
        None \<Rightarrow> Inl CHIMERA_ERR_INVALID
      | Some d \<Rightarrow>
          if name_cap = 0 then Inl CHIMERA_ERR_INVALID
          else case nth_child (v_children (vnd s d)) index s of
            None \<Rightarrow> Inl CHIMERA_ERR_NOTFOUND
          | Some v \<Rightarrow> Inr (take (name_cap - 1) (v_name (vnd s v)), v))"

definition vfs_register_module :: "nat \<Rightarrow> string \<Rightarrow> u64 \<Rightarrow> u64 \<Rightarrow> bsd_state \<Rightarrow> (chimera_error \<times> bsd_state) option" where
  "vfs_register_module my_cpu path addr sz s =
     (if s_rootfs_vnode_count s \<ge> ROOTFS_MAX_VNODES then Some (CHIMERA_ERR_OVERFLOW, s)
      else do {
        norm \<leftarrow> normalize my_cpu path s;
        let v = VN_POOL (s_rootfs_vnode_count s);
        vfs_register my_cpu norm v (upd_vn v (\<lambda>_. zero_vnode\<lparr>v_signature := CHIMERA_VNODE_MAGIC, v_type := VREG, v_flags := VN_SYSTEM,
            v_op := Some s_root_ops, v_data := D_MODULE addr, v_name := take 255 (base_name norm),
            v_attr := \<lparr>va_mode = 0, va_uid = 0, va_gid = 0, va_size = sz\<rparr>\<rparr>)
          (s\<lparr>s_rootfs_vnode_count := s_rootfs_vnode_count s + 1\<rparr>))
      })"

text \<open>\<^verbatim>\<open>devfs_mknode\<close> and the nodes of \<^verbatim>\<open>devfs_init\<close>, which first resets the terminal.\<close>
definition devfs_mknode :: "nat \<Rightarrow> nat \<Rightarrow> string \<Rightarrow> u16 \<Rightarrow> vnode_ops \<Rightarrow> string \<Rightarrow> bsd_state \<Rightarrow> bsd_state option" where
  "devfs_mknode my_cpu n name type ops devpath s = do {
     (_, s) \<leftarrow> vfs_register my_cpu devpath (VN_DEV n) (upd_vn (VN_DEV n) (\<lambda>_. zero_vnode\<lparr>v_signature := CHIMERA_VNODE_MAGIC,
         v_type := type, v_flags := VN_SYSTEM, v_op := Some ops, v_name := take 255 name\<rparr>) s);
     Some s
   }"

definition devfs_nodes :: "(string \<times> u16 \<times> vnode_ops \<times> string) list" where
  "devfs_nodes =
     [(''dev'', VDIR, s_dev_dir_ops, ''/dev''), (''null'', VCHR, s_null_ops, ''/dev/null''),
      (''serial'', VCHR, s_serial_ops, ''/dev/serial''), (''console'', VCHR, s_console_ops, ''/dev/console''),
      (''tty'', VCHR, s_console_ops, ''/dev/tty''), (''ptmx'', VCHR, s_pty_master_ops, ''/dev/ptmx''),
      (''pts0'', VCHR, s_pty_slave_ops, ''/dev/pts/0''), (''fb0'', VCHR, s_fb_ops, ''/dev/fb0''),
      (''mouse'', VCHR, s_mouse_ops, ''/dev/mouse''), (''kbd'', VCHR, s_kbd_ops, ''/dev/kbd''),
      (''disk0'', VBLK, s_disk_ops, ''/dev/disk0'')]"

definition devfs_init :: "nat \<Rightarrow> bsd_state \<Rightarrow> bsd_state option" where
  "devfs_init my_cpu s =
     fold (\<lambda>(n, name, type, ops, devpath) r. do { s \<leftarrow> r; devfs_mknode my_cpu n name type ops devpath s })
       (enumerate 0 devfs_nodes) (Some (s\<lparr>b_pty := pty_init (b_pty s)\<rparr>))"

definition s_default_dirs :: "string list" where
  "s_default_dirs = [''/bin'', ''/sbin'', ''/usr'', ''/usr/bin'', ''/usr/sbin'', ''/usr/lib'', ''/private'', ''/private/etc'',
     ''/private/var'', ''/private/tmp'', ''/Applications'', ''/Users'', ''/System'', ''/Library'']"

definition make_default_dir :: "nat \<Rightarrow> string \<Rightarrow> bsd_state \<Rightarrow> bsd_state option" where
  "make_default_dir my_cpu dpath s = do {
     existing \<leftarrow> vfs_lookup my_cpu dpath s;
     (if existing \<noteq> None then Some s
      else case vfs_create_dir_vnode (base_name dpath) s of
        (None, s) \<Rightarrow> Some s
      | (Some d, s) \<Rightarrow> do { (_, s) \<leftarrow> vfs_register my_cpu dpath d s; Some s })
   }"

definition vfs_init :: "nat \<Rightarrow> bsd_state \<Rightarrow> (chimera_error \<times> bsd_state) option" where
  "vfs_init my_cpu s = do {
     let s = s\<lparr>s_registry := (\<lambda>_. \<lparr>ve_path = [], ve_vnode = None\<rparr>)\<rparr>;
     let s = upd_vn VN_ROOTOBJ (\<lambda>_. zero_vnode\<lparr>v_signature := CHIMERA_VNODE_MAGIC, v_type := VDIR, v_flags := VN_ROOT OR VN_SYSTEM,
               v_op := Some s_root_ops, v_name := ''/''\<rparr>) s;
     (_, s) \<leftarrow> vfs_register my_cpu ''/'' VN_ROOTOBJ s;
     s \<leftarrow> fold (\<lambda>dpath r. do { s \<leftarrow> r; make_default_dir my_cpu dpath s }) s_default_dirs (Some s);
     s \<leftarrow> devfs_init my_cpu s;
     Some (CHIMERA_SUCCESS, s)
   }"

end
