(* ===== verification/Vfs_Registry.thy ===== *)
theory Vfs_Registry
  imports Vfs
begin

text \<open>
  The hash table of paths as a map. The invariant: an entry can be reached from the slot of its hash over slots that
  are not empty, and no path has two entries. Then the three probes implement look-up, update and deletion.
\<close>

unbundle bit_operations_syntax

section \<open>The interface\<close>

text \<open>A table of keys: what a look-up finds after an insertion and after a removal.\<close>
locale key_table =
  fixes look :: "'k \<Rightarrow> 'r \<Rightarrow> 'v option" and ins :: "'k \<Rightarrow> 'v \<Rightarrow> 'r \<Rightarrow> 'r option" and rem :: "'k \<Rightarrow> 'r \<Rightarrow> ('v \<times> 'r) option"
    and ok :: "'r \<Rightarrow> bool" and key :: "'k \<Rightarrow> bool"
  assumes ins_ok: "ok r \<Longrightarrow> key k \<Longrightarrow> ins k v r = Some r' \<Longrightarrow> ok r'"
    and look_ins: "ok r \<Longrightarrow> key k \<Longrightarrow> key k' \<Longrightarrow> ins k v r = Some r' \<Longrightarrow> look k' r' = (if k' = k then Some v else look k' r)"
    and rem_ok: "ok r \<Longrightarrow> key k \<Longrightarrow> rem k r = Some (v, r') \<Longrightarrow> ok r'"
    and look_rem: "ok r \<Longrightarrow> key k \<Longrightarrow> key k' \<Longrightarrow> rem k r = Some (v, r') \<Longrightarrow> look k' r' = (if k' = k then None else look k' r)"
    and rem_iff: "ok r \<Longrightarrow> key k \<Longrightarrow> map_option fst (rem k r) = look k r"
begin

lemma ins_rem:
  assumes "ok r" and "key k" and "ins k v r = Some r'"
  obtains r'' where "rem k r' = Some (v, r'')" and "ok r''"
    and "\<And>k'. key k' \<Longrightarrow> look k' r'' = (if k' = k then None else look k' r)"
proof -
  have i: "ok r'" "look k r' = Some v" using ins_ok [OF assms] look_ins [OF assms(1,2,2,3)] by auto
  then obtain r'' where "rem k r' = Some (v, r'')" using rem_iff [OF i(1) assms(2)] by auto
  moreover from this have "ok r''" using rem_ok [OF i(1) assms(2)] by blast
  ultimately show ?thesis using that look_rem [OF i(1) assms(2)] look_ins [OF assms(1,2) _ assms(3)] by auto
qed

end

section \<open>Probe chains\<close>

text \<open>The slot at a distance from the one of the hash.\<close>
definition chain_slot :: "string \<Rightarrow> nat \<Rightarrow> nat" where
  "chain_slot k j = (hash_slot k + j) mod VFS_REGISTRY_SIZE"

definition path_key :: "string \<Rightarrow> bool" where "path_key k \<longleftrightarrow> k \<noteq> [] \<and> \<not> tombstone k \<and> length k \<le> 255"

definition reg_ok :: "(nat \<Rightarrow> vfs_entry) \<Rightarrow> bool" where
  "reg_ok reg \<longleftrightarrow>
     (\<forall>i < VFS_REGISTRY_SIZE. ve_vnode (reg i) = None \<longleftrightarrow> ve_path (reg i) = [] \<or> tombstone (ve_path (reg i)))
   \<and> (\<forall>i < VFS_REGISTRY_SIZE. ve_vnode (reg i) \<noteq> None \<longrightarrow> path_key (ve_path (reg i))
        \<and> (\<exists>j < VFS_REGISTRY_SIZE. i = chain_slot (ve_path (reg i)) j \<and> (\<forall>m < j. ve_path (reg (chain_slot (ve_path (reg i)) m)) \<noteq> [])))
   \<and> (\<forall>i < VFS_REGISTRY_SIZE. \<forall>i' < VFS_REGISTRY_SIZE. ve_vnode (reg i) \<noteq> None \<longrightarrow> ve_path (reg i') = ve_path (reg i) \<longrightarrow> i' = i)"

text \<open>Where a key is: the distance of its entry from the slot of its hash.\<close>
definition found_at :: "(nat \<Rightarrow> vfs_entry) \<Rightarrow> string \<Rightarrow> nat \<Rightarrow> bool" where
  "found_at reg k j \<longleftrightarrow> j < VFS_REGISTRY_SIZE \<and> ve_path (reg (chain_slot k j)) = k \<and> (\<forall>m < j. ve_path (reg (chain_slot k m)) \<noteq> [])"

lemma size_pos: "0 < VFS_REGISTRY_SIZE"
  by (simp add: VFS_REGISTRY_SIZE_def)

lemma slot_less [simp]: "chain_slot k j < VFS_REGISTRY_SIZE"
  using size_pos by (simp add: chain_slot_def)

lemma next_slot_eq: "next_slot (chain_slot k j) = chain_slot k (Suc j)"
  by (simp add: chain_slot_def mod_Suc_eq)

lemma slot_0 [simp]: "chain_slot k 0 = hash_slot k"
  by (simp add: chain_slot_def hash_slot_def)

lemma chain_slot_inj: "i < VFS_REGISTRY_SIZE \<Longrightarrow> j < VFS_REGISTRY_SIZE \<Longrightarrow> chain_slot k i = chain_slot k j \<Longrightarrow> i = j"
proof (induction i j rule: linorder_wlog)
  case (le i j)
  then have "VFS_REGISTRY_SIZE dvd j - i" by (simp add: chain_slot_def) (metis add_diff_cancel_left mod_eq_dvd_iff_nat nat_add_left_cancel_le)
  then show ?case using le by (metis dvd_imp_le diff_is_0_eq' diff_less_mono2 le_antisym less_imp_diff_less linorder_not_less zero_less_diff)
next
  case (sym i j)
  then show ?case by simp
qed

lemma found_vnode: "reg_ok reg \<Longrightarrow> path_key k \<Longrightarrow> found_at reg k j \<Longrightarrow> ve_vnode (reg (chain_slot k j)) \<noteq> None"
  using slot_less [of k j] unfolding reg_ok_def found_at_def path_key_def by metis

lemma found_unique:
  assumes "reg_ok reg" and "path_key k" and "found_at reg k j" and "i < VFS_REGISTRY_SIZE" and "ve_path (reg i) = k"
  shows "i = chain_slot k j"
proof -
  have "ve_vnode (reg (chain_slot k j)) \<noteq> None" using found_vnode [OF assms(1-3)] .
  moreover have "ve_path (reg i) = ve_path (reg (chain_slot k j))" using assms(3,5) by (simp add: found_at_def)
  ultimately show ?thesis using assms(1,4) slot_less unfolding reg_ok_def by blast
qed

lemma entry_found:
  assumes "reg_ok reg" and "path_key k" and "i < VFS_REGISTRY_SIZE" and "ve_path (reg i) = k"
  obtains j where "found_at reg k j" and "i = chain_slot k j"
proof -
  have "ve_vnode (reg i) \<noteq> None" using assms by (auto simp: reg_ok_def path_key_def)
  then show ?thesis using that assms by (auto simp: reg_ok_def found_at_def)
qed

section \<open>Look-up\<close>

text \<open>The look-up continued at distance \<open>j\<close>, behind slots that are neither empty nor hold the key.\<close>
lemma probe_lookup_found:
  assumes ok: "reg_ok reg" and k: "path_key k" and f: "found_at reg k j"
  shows "m \<le> j \<Longrightarrow> m + n = VFS_REGISTRY_SIZE \<Longrightarrow> probe_lookup reg k (chain_slot k m) n = ve_vnode (reg (chain_slot k j))"
proof (induction n arbitrary: m)
  case 0
  then show ?case using f by (simp add: found_at_def)
next
  case (Suc n)
  show ?case
  proof (cases "m = j")
    case True
    then show ?thesis using f k found_vnode [OF ok k f] by (simp add: Let_def found_at_def path_key_def)
  next
    case False
    then have m: "m < j" using Suc.prems by simp
    have "ve_path (reg (chain_slot k m)) \<noteq> []" using f m by (simp add: found_at_def)
    moreover have "ve_path (reg (chain_slot k m)) \<noteq> k"
      using found_unique [OF ok k f, of "chain_slot k m"] chain_slot_inj [of m j k] m f by (auto simp: found_at_def)
    ultimately show ?thesis using Suc.IH [of "Suc m"] Suc.prems m next_slot_eq by (simp add: Let_def)
  qed
qed

lemma probe_lookup_missing:
  "(\<And>i. i < VFS_REGISTRY_SIZE \<Longrightarrow> ve_path (reg i) \<noteq> k) \<Longrightarrow> i < VFS_REGISTRY_SIZE \<Longrightarrow> probe_lookup reg k i n = None"
  by (induction n arbitrary: i) (simp_all add: Let_def size_pos)

lemma reg_lookup_some:
  assumes "reg_ok reg" and "path_key k"
  shows "reg_lookup k reg = Some v \<longleftrightarrow> (\<exists>i < VFS_REGISTRY_SIZE. ve_path (reg i) = k \<and> ve_vnode (reg i) = Some v)"
proof (cases "\<exists>i < VFS_REGISTRY_SIZE. ve_path (reg i) = k")
  case True
  then obtain i where i: "i < VFS_REGISTRY_SIZE" "ve_path (reg i) = k" by blast
  obtain j where j: "found_at reg k j" "i = chain_slot k j" by (rule entry_found [OF assms i])
  have "reg_lookup k reg = ve_vnode (reg i)"
    using probe_lookup_found [OF assms j(1), of 0 VFS_REGISTRY_SIZE] j(2) by (simp add: reg_lookup_def)
  then show ?thesis using i found_unique [OF assms j(1)] j(2) by metis
next
  case False
  then have "reg_lookup k reg = None" unfolding reg_lookup_def
    by (intro probe_lookup_missing) (auto simp: hash_slot_def size_pos)
  then show ?thesis using False by auto
qed

lemma reg_lookup_none:
  "reg_ok reg \<Longrightarrow> path_key k \<Longrightarrow> reg_lookup k reg = None \<longleftrightarrow> (\<forall>i < VFS_REGISTRY_SIZE. ve_path (reg i) \<noteq> k)"
proof (intro iffI allI impI notI)
  fix i assume a: "reg_ok reg" "path_key k" "reg_lookup k reg = None" "i < VFS_REGISTRY_SIZE" "ve_path (reg i) = k"
  then obtain v where "ve_vnode (reg i) = Some v" by (auto simp: reg_ok_def path_key_def)
  then show False using reg_lookup_some [OF a(1,2), of v] a by auto
next
  assume a: "reg_ok reg" "path_key k" "\<forall>i < VFS_REGISTRY_SIZE. ve_path (reg i) \<noteq> k"
  then show "reg_lookup k reg = None" using reg_lookup_some [OF a(1,2)] by (cases "reg_lookup k reg") auto
qed

section \<open>Insertion\<close>

lemma slot_surj: "i < VFS_REGISTRY_SIZE \<Longrightarrow> \<exists>j < VFS_REGISTRY_SIZE. i = chain_slot k j"
proof -
  assume i: "i < VFS_REGISTRY_SIZE"
  have h: "hash_slot k < VFS_REGISTRY_SIZE" by (simp add: hash_slot_def size_pos)
  show ?thesis
  proof (cases "hash_slot k \<le> i")
    case True
    then show ?thesis using i by (intro exI [of _ "i - hash_slot k"]) (simp add: chain_slot_def)
  next
    case False
    then have "hash_slot k + (VFS_REGISTRY_SIZE + i - hash_slot k) = i + VFS_REGISTRY_SIZE" using h by simp
    then show ?thesis using False i h by (intro exI [of _ "VFS_REGISTRY_SIZE + i - hash_slot k"]) (simp add: chain_slot_def)
  qed
qed

lemma probe_insert_found:
  assumes ok: "reg_ok reg" and k: "path_key k" and f: "found_at reg k j"
  shows "m \<le> j \<Longrightarrow> m + n = VFS_REGISTRY_SIZE \<Longrightarrow> probe_insert reg k (chain_slot k m) tomb n = Some (chain_slot k j)"
proof (induction n arbitrary: m tomb)
  case 0
  then show ?case using f by (simp add: found_at_def)
next
  case (Suc n)
  show ?case
  proof (cases "m = j")
    case True
    then show ?thesis using f k by (simp add: Let_def found_at_def path_key_def)
  next
    case False
    then have m: "m < j" using Suc.prems by simp
    have "ve_path (reg (chain_slot k m)) \<noteq> []" using f m by (simp add: found_at_def)
    moreover have "ve_path (reg (chain_slot k m)) \<noteq> k"
      using found_unique [OF ok k f, of "chain_slot k m"] chain_slot_inj [of m j k] m f by (auto simp: found_at_def)
    ultimately show ?thesis using Suc.IH [of "Suc m"] Suc.prems m next_slot_eq by (simp add: Let_def)
  qed
qed

text \<open>A slot where a key can be put: reached over slots in use, and itself free.\<close>
definition free_at :: "(nat \<Rightarrow> vfs_entry) \<Rightarrow> string \<Rightarrow> nat \<Rightarrow> bool" where
  "free_at reg k i \<longleftrightarrow> (\<exists>l < VFS_REGISTRY_SIZE. i = chain_slot k l \<and> (\<forall>m < l. ve_path (reg (chain_slot k m)) \<noteq> []))
     \<and> (ve_path (reg i) = [] \<or> tombstone (ve_path (reg i)))"

lemma probe_insert_missing:
  assumes "\<And>i. i < VFS_REGISTRY_SIZE \<Longrightarrow> ve_path (reg i) \<noteq> k"
  shows "m + n = VFS_REGISTRY_SIZE \<Longrightarrow> \<forall>l < m. ve_path (reg (chain_slot k l)) \<noteq> [] \<Longrightarrow> \<forall>t. tomb = Some t \<longrightarrow> free_at reg k t \<Longrightarrow>
    probe_insert reg k (chain_slot k m) tomb n = Some i \<Longrightarrow> free_at reg k i"
proof (induction n arbitrary: m tomb)
  case (Suc n)
  let ?e = "ve_path (reg (chain_slot k m))"
  have m: "m < VFS_REGISTRY_SIZE" using Suc.prems(1) by simp
  consider "?e = []" | "tombstone ?e" | "?e \<noteq> []" "\<not> tombstone ?e" by blast
  then show ?case
  proof cases
    case 1
    then have "free_at reg k (chain_slot k m)" using Suc.prems(2) m by (auto simp: free_at_def)
    then show ?thesis using 1 Suc.prems(3,4) by (auto simp: Let_def split: option.splits)
  next
    case 2
    then have e: "?e \<noteq> []" by (auto simp: tombstone_def)
    have "free_at reg k (chain_slot k m)" using 2 Suc.prems(2) m by (auto simp: free_at_def)
    moreover have "\<forall>l < Suc m. ve_path (reg (chain_slot k l)) \<noteq> []" using Suc.prems(2) e less_Suc_eq by auto
    moreover have "probe_insert reg k (chain_slot k (Suc m)) (if tomb = None then Some (chain_slot k m) else tomb) n = Some i"
      using 2 e Suc.prems(4) next_slot_eq by (simp add: Let_def)
    moreover have "Suc m + n = VFS_REGISTRY_SIZE" using Suc.prems(1) by simp
    ultimately show ?thesis using Suc.IH [of "Suc m" "if tomb = None then Some (chain_slot k m) else tomb"] Suc.prems(3) by (cases tomb) auto
  next
    case 3
    moreover have "\<forall>l < Suc m. ve_path (reg (chain_slot k l)) \<noteq> []" using Suc.prems(2) 3 less_Suc_eq by auto
    moreover have "?e \<noteq> k" using assms slot_less by blast
    ultimately show ?thesis using Suc.IH [of "Suc m" tomb] Suc.prems(1,3,4) next_slot_eq by (simp add: Let_def)
  qed
qed simp

lemma reg_ok_put:
  assumes ok: "reg_ok reg" and k: "path_key k"
    and at: "free_at reg k i \<and> (\<forall>i' < VFS_REGISTRY_SIZE. ve_path (reg i') \<noteq> k) \<or> (\<exists>j. found_at reg k j \<and> i = chain_slot k j)"
  shows "reg_ok (reg(i := \<lparr>ve_path = k, ve_vnode = Some v\<rparr>))"
proof -
  let ?r = "reg(i := \<lparr>ve_path = k, ve_vnode = Some v\<rparr>)"
  have kn: "k \<noteq> []" "\<not> tombstone k" using k by (auto simp: path_key_def)
  have ne: "ve_path (?r x) \<noteq> []" if "ve_path (reg x) \<noteq> []" for x using that kn by simp
  have only: "i' = i" if "i' < VFS_REGISTRY_SIZE" "ve_path (reg i') = k" for i'
    using at that found_unique [OF ok k] by blast
  obtain l where l: "l < VFS_REGISTRY_SIZE" "i = chain_slot k l" "\<forall>m < l. ve_path (reg (chain_slot k m)) \<noteq> []"
    using at by (auto simp: free_at_def found_at_def)
  have "(ve_vnode (?r x) = None) = (ve_path (?r x) = [] \<or> tombstone (ve_path (?r x)))" if "x < VFS_REGISTRY_SIZE" for x
    using ok that kn by (simp add: reg_ok_def)
  moreover have "path_key (ve_path (?r x)) \<and> (\<exists>j < VFS_REGISTRY_SIZE. x = chain_slot (ve_path (?r x)) j
      \<and> (\<forall>m < j. ve_path (?r (chain_slot (ve_path (?r x)) m)) \<noteq> []))" if x: "x < VFS_REGISTRY_SIZE" "ve_vnode (?r x) \<noteq> None" for x
  proof (cases "x = i")
    case True
    have e: "ve_path (?r x) = k" using True by simp
    have "\<forall>m < l. ve_path (?r (chain_slot k m)) \<noteq> []" using l(3) ne by blast
    then show ?thesis unfolding e using True k l(1,2) by blast
  next
    case False
    then have "path_key (ve_path (reg x)) \<and> (\<exists>j < VFS_REGISTRY_SIZE. x = chain_slot (ve_path (reg x)) j
      \<and> (\<forall>m < j. ve_path (reg (chain_slot (ve_path (reg x)) m)) \<noteq> []))"
      using ok x unfolding reg_ok_def by (metis fun_upd_other)
    moreover have e: "?r x = reg x" using False by simp
    ultimately show ?thesis unfolding e using ne by blast
  qed
  moreover have "y = x" if "x < VFS_REGISTRY_SIZE" "y < VFS_REGISTRY_SIZE" "ve_vnode (?r x) \<noteq> None" "ve_path (?r y) = ve_path (?r x)" for x y
  proof (cases "x = i \<or> y = i")
    case True
    then show ?thesis using that(1,2,4) only by (metis fun_upd_apply vfs_entry.select_convs(1))
  next
    case False
    then have "ve_vnode (reg x) \<noteq> None" "ve_path (reg y) = ve_path (reg x)" using that(3,4) by auto
    then show ?thesis using ok that(1,2) unfolding reg_ok_def by blast
  qed
  ultimately show ?thesis unfolding reg_ok_def by blast
qed

lemma reg_insert_cases:
  assumes ok: "reg_ok reg" and k: "path_key k" and r: "reg_insert k v reg = Some r'"
  obtains i where "r' = reg(i := \<lparr>ve_path = k, ve_vnode = Some v\<rparr>)" and "i < VFS_REGISTRY_SIZE"
    and "free_at reg k i \<and> (\<forall>i' < VFS_REGISTRY_SIZE. ve_path (reg i') \<noteq> k) \<or> (\<exists>j. found_at reg k j \<and> i = chain_slot k j)"
proof -
  obtain i where i: "probe_insert reg k (chain_slot k 0) None VFS_REGISTRY_SIZE = Some i" "r' = reg(i := \<lparr>ve_path = k, ve_vnode = Some v\<rparr>)"
    using r k by (auto simp: reg_insert_def path_key_def split: option.splits)
  show ?thesis
  proof (cases "\<exists>i' < VFS_REGISTRY_SIZE. ve_path (reg i') = k")
    case True
    then obtain i' j where j: "found_at reg k j" "i' = chain_slot k j" using entry_found [OF ok k] by metis
    then have "i = chain_slot k j" using probe_insert_found [OF ok k j(1), of 0 VFS_REGISTRY_SIZE None] i(1) by simp
    then show ?thesis using that [of i] i(2) j(1) by auto
  next
    case False
    then have f: "free_at reg k i" using probe_insert_missing [of reg k 0 VFS_REGISTRY_SIZE None i] i(1) by auto
    then have "i < VFS_REGISTRY_SIZE" by (auto simp: free_at_def)
    then show ?thesis using that [of i] i(2) f False by auto
  qed
qed

lemma reg_insert_ok: "reg_ok reg \<Longrightarrow> path_key k \<Longrightarrow> reg_insert k v reg = Some r' \<Longrightarrow> reg_ok r'"
  using reg_ok_put by (metis reg_insert_cases)

lemma reg_lookup_insert:
  assumes ok: "reg_ok reg" and k: "path_key k" "path_key k'" and r: "reg_insert k v reg = Some r'"
  shows "reg_lookup k' r' = (if k' = k then Some v else reg_lookup k' reg)"
proof (rule reg_insert_cases [OF ok k(1) r])
  fix i assume i: "r' = reg(i := \<lparr>ve_path = k, ve_vnode = Some v\<rparr>)" "i < VFS_REGISTRY_SIZE"
    "free_at reg k i \<and> (\<forall>i' < VFS_REGISTRY_SIZE. ve_path (reg i') \<noteq> k) \<or> (\<exists>j. found_at reg k j \<and> i = chain_slot k j)"
  have ok': "reg_ok r'" by (rule reg_insert_ok [OF ok k(1) r])
  show ?thesis
  proof (cases "k' = k")
    case True
    then show ?thesis using reg_lookup_some [OF ok' k(2), of v] i(1,2) by auto
  next
    case False
    have "ve_path (reg i) \<noteq> k'" using i(3) False k(2) by (auto simp: free_at_def found_at_def path_key_def)
    then have "reg_lookup k' r' = Some w \<longleftrightarrow> reg_lookup k' reg = Some w" for w
      using reg_lookup_some [OF ok' k(2), of w] reg_lookup_some [OF ok k(2), of w] i(1) False by auto
    then show ?thesis using False by (metis option.exhaust)
  qed
qed

text \<open>Insertion of a new key needs a slot that has never been used.\<close>
lemma reg_insert_full:
  assumes "reg_ok reg" and "path_key k" and "\<forall>i < VFS_REGISTRY_SIZE. ve_path (reg i) \<noteq> []" and "reg_lookup k reg = None"
  shows "reg_insert k v reg = None"
proof -
  have "ve_path (reg i) \<noteq> k" if "i < VFS_REGISTRY_SIZE" for i using reg_lookup_none [OF assms(1,2)] assms(4) that by blast
  then have "i < VFS_REGISTRY_SIZE \<Longrightarrow> probe_insert reg k i tomb n = None" for i tomb n
    using assms(3) by (induction n arbitrary: i tomb) (simp_all add: Let_def size_pos)
  then show ?thesis by (simp add: reg_insert_def hash_slot_def size_pos)
qed

lemma reg_insert_room:
  assumes "i < VFS_REGISTRY_SIZE" and "ve_path (reg i) = []"
  shows "reg_insert k v reg \<noteq> None"
proof -
  obtain j where j: "j < VFS_REGISTRY_SIZE" "i = chain_slot k j" using slot_surj [OF assms(1)] by blast
  have "m \<le> j \<Longrightarrow> m + n = VFS_REGISTRY_SIZE \<Longrightarrow> probe_insert reg k (chain_slot k m) tomb n \<noteq> None" for m n tomb
  proof (induction n arbitrary: m tomb)
    case (Suc n)
    show ?case
    proof (cases "m = j")
      case False
      then have "Suc m \<le> j" using Suc.prems by simp
      then have "probe_insert reg k (next_slot (chain_slot k m)) t n \<noteq> None" for t
        using Suc.IH [of "Suc m" t] Suc.prems(2) next_slot_eq by simp
      then show ?thesis by (simp add: Let_def)
    qed (use assms(2) j(2) in \<open>simp add: Let_def\<close>)
  qed (use j(1) in simp)
  from this [of 0 VFS_REGISTRY_SIZE None] show ?thesis by (auto simp: reg_insert_def)
qed

section \<open>Removal\<close>

lemma probe_remove_found:
  assumes ok: "reg_ok reg" and k: "path_key k" and f: "found_at reg k j"
  shows "m \<le> j \<Longrightarrow> m + n = VFS_REGISTRY_SIZE \<Longrightarrow> probe_remove reg k (chain_slot k m) n = Some (chain_slot k j)"
proof (induction n arbitrary: m)
  case 0
  then show ?case using f by (simp add: found_at_def)
next
  case (Suc n)
  show ?case
  proof (cases "m = j")
    case True
    then show ?thesis using f found_vnode [OF ok k f] by (simp add: Let_def found_at_def)
  next
    case False
    then have m: "m < j" using Suc.prems by simp
    have "ve_path (reg (chain_slot k m)) \<noteq> []" using f m by (simp add: found_at_def)
    moreover have "ve_path (reg (chain_slot k m)) \<noteq> k"
      using found_unique [OF ok k f, of "chain_slot k m"] chain_slot_inj [of m j k] m f by (auto simp: found_at_def)
    ultimately show ?thesis using Suc.IH [of "Suc m"] Suc.prems m next_slot_eq by (simp add: Let_def)
  qed
qed

lemma probe_remove_missing:
  "(\<And>i. i < VFS_REGISTRY_SIZE \<Longrightarrow> ve_path (reg i) \<noteq> k) \<Longrightarrow> i < VFS_REGISTRY_SIZE \<Longrightarrow> probe_remove reg k i n = None"
  by (induction n arbitrary: i) (simp_all add: Let_def size_pos)

text \<open>The entry a removal leaves: what is left of the path behind the mark.\<close>
definition grave :: "string \<Rightarrow> vfs_entry" where
  "grave k = \<lparr>ve_path = VFS_TOMBSTONE # tl k, ve_vnode = None\<rparr>"

lemma grave_simps [simp]: "ve_path (grave k) \<noteq> []" "tombstone (ve_path (grave k))" "ve_vnode (grave k) = None"
  by (simp_all add: grave_def tombstone_def)

lemma reg_remove_cases:
  assumes ok: "reg_ok reg" and k: "path_key k"
  obtains "reg_remove k reg = None" and "reg_lookup k reg = None"
    | i v where "reg_remove k reg = Some (v, reg(i := grave k))" and "reg_lookup k reg = Some v" and "i < VFS_REGISTRY_SIZE"
      and "ve_path (reg i) = k"
proof (cases "\<exists>i < VFS_REGISTRY_SIZE. ve_path (reg i) = k")
  case True
  then obtain i where i: "i < VFS_REGISTRY_SIZE" "ve_path (reg i) = k" by blast
  obtain j where j: "found_at reg k j" "i = chain_slot k j" by (rule entry_found [OF ok k i])
  obtain v where v: "ve_vnode (reg i) = Some v" using found_vnode [OF ok k j(1)] j(2) by auto
  have "probe_remove reg k (hash_slot k) VFS_REGISTRY_SIZE = Some i"
    using probe_remove_found [OF ok k j(1), of 0 VFS_REGISTRY_SIZE] j(2) by simp
  then have "reg_remove k reg = Some (v, reg(i := grave k))"
    using v i k by (cases k) (auto simp: reg_remove_def grave_def path_key_def)
  moreover have "reg_lookup k reg = Some v" using reg_lookup_some [OF ok k, of v] i v by blast
  ultimately show ?thesis using that(2) i by blast
next
  case False
  then have "probe_remove reg k (hash_slot k) VFS_REGISTRY_SIZE = None"
    by (intro probe_remove_missing) (auto simp: hash_slot_def size_pos)
  then show ?thesis using that(1) False reg_lookup_none [OF ok k] by (simp add: reg_remove_def)
qed

lemma reg_ok_grave:
  assumes ok: "reg_ok reg"
  shows "reg_ok (reg(i := grave k))"
proof -
  let ?r = "reg(i := grave k)"
  have ne: "ve_path (?r x) \<noteq> []" if "ve_path (reg x) \<noteq> []" for x using that by simp
  have live: "x \<noteq> i \<and> ?r x = reg x" if "ve_vnode (?r x) \<noteq> None" for x using that by (auto split: if_splits)
  have "(ve_vnode (?r x) = None) = (ve_path (?r x) = [] \<or> tombstone (ve_path (?r x)))" if "x < VFS_REGISTRY_SIZE" for x
    using ok that by (simp add: reg_ok_def)
  moreover have "path_key (ve_path (?r x)) \<and> (\<exists>j < VFS_REGISTRY_SIZE. x = chain_slot (ve_path (?r x)) j
      \<and> (\<forall>m < j. ve_path (?r (chain_slot (ve_path (?r x)) m)) \<noteq> []))" if x: "x < VFS_REGISTRY_SIZE" "ve_vnode (?r x) \<noteq> None" for x
  proof -
    have e: "?r x = reg x" using live [OF x(2)] by blast
    then have "path_key (ve_path (reg x)) \<and> (\<exists>j < VFS_REGISTRY_SIZE. x = chain_slot (ve_path (reg x)) j
      \<and> (\<forall>m < j. ve_path (reg (chain_slot (ve_path (reg x)) m)) \<noteq> []))" using ok x unfolding reg_ok_def by metis
    then show ?thesis unfolding e using ne by blast
  qed
  moreover have "y = x" if "x < VFS_REGISTRY_SIZE" "y < VFS_REGISTRY_SIZE" "ve_vnode (?r x) \<noteq> None" "ve_path (?r y) = ve_path (?r x)" for x y
  proof -
    have e: "?r x = reg x" "ve_vnode (reg x) \<noteq> None" using live [OF that(3)] that(3) by auto
    then have "\<not> tombstone (ve_path (reg x))" using ok that(1) by (auto simp: reg_ok_def)
    then have "y \<noteq> i" using that(4) e(1) grave_simps(2) [of k] by (metis fun_upd_same)
    then show ?thesis using ok that(1,2,4) e unfolding reg_ok_def by (metis fun_upd_other)
  qed
  ultimately show ?thesis unfolding reg_ok_def by blast
qed

interpretation registry: key_table reg_lookup reg_insert reg_remove reg_ok path_key
proof
  fix r k v r' k' assume ok: "reg_ok r" and k: "path_key k"
  show "reg_ok r'" if "reg_insert k v r = Some r'" using reg_insert_ok [OF ok k that] .
  show "reg_lookup k' r' = (if k' = k then Some v else reg_lookup k' r)" if "path_key k'" "reg_insert k v r = Some r'"
    using reg_lookup_insert [OF ok k that] .
  show "reg_ok r'" if "reg_remove k r = Some (v, r')" 
    by (rule reg_remove_cases [OF ok k]) (use that reg_ok_grave [OF ok] in auto)
  show "reg_lookup k' r' = (if k' = k then None else reg_lookup k' r)" if k': "path_key k'" and rm: "reg_remove k r = Some (v, r')"
  proof (rule reg_remove_cases [OF ok k])
    fix i w assume i: "reg_remove k r = Some (w, r(i := grave k))" "i < VFS_REGISTRY_SIZE" "ve_path (r i) = k"
    have r': "r' = r(i := grave k)" using rm i(1) by simp
    then have ok': "reg_ok r'" using reg_ok_grave [OF ok, of i k] by simp
    have gk: "ve_path (grave k) \<noteq> k'" "ve_path (grave k) \<noteq> k" using k' k grave_simps(2) [of k] unfolding path_key_def by metis+
    have un: "x = i" if "x < VFS_REGISTRY_SIZE" "ve_path (r x) = k" for x
      using that i(2,3) found_unique [OF ok k] by (metis entry_found [OF ok k])
    have "(ve_path (r' x) = k' \<and> ve_vnode (r' x) = Some u) \<longleftrightarrow> (x \<noteq> i \<and> ve_path (r x) = k' \<and> ve_vnode (r x) = Some u)" for x u
      using r' gk by simp
    then have "reg_lookup k' r' = Some u \<longleftrightarrow> (\<exists>x < VFS_REGISTRY_SIZE. x \<noteq> i \<and> ve_path (r x) = k' \<and> ve_vnode (r x) = Some u)" for u
      using reg_lookup_some [OF ok' k', of u] by simp
    moreover have "(\<exists>x < VFS_REGISTRY_SIZE. x \<noteq> i \<and> ve_path (r x) = k' \<and> ve_vnode (r x) = Some u) \<longleftrightarrow> k' \<noteq> k \<and> reg_lookup k' r = Some u" for u
      unfolding reg_lookup_some [OF ok k', of u] using un i(3) by blast
    ultimately have "reg_lookup k' r' = Some u \<longleftrightarrow> k' \<noteq> k \<and> reg_lookup k' r = Some u" for u by simp
    then show ?thesis by (metis option.exhaust)
  qed (use rm in simp)
  show "map_option fst (reg_remove k r) = reg_lookup k r" by (rule reg_remove_cases [OF ok k]) auto
qed

end
