(* ===== verification/Vfs_Tree.thy ===== *)
theory Vfs_Tree
  imports Vfs_Registry Fd_Inv
begin

text \<open>
  The directory tree above the registry: the lists of siblings stay finite, so that the walks along them end;
  every normalised path is a key of the registry; the operations of \<^verbatim>\<open>vfs.c\<close> keep the registry in order.
\<close>

unbundle bit_operations_syntax

section \<open>Normalised paths\<close>

lemma put_alias_key: "(a, x) \<in> set path_aliases \<Longrightarrow> path_key (put_alias x r)"
  by (auto simp: path_aliases_def put_alias_def path_key_def tombstone_def VFS_TOMBSTONE_def PATH_CAP_def)

lemma absolute_key: "p \<noteq> [] \<Longrightarrow> p ! 0 = CHR ''/'' \<Longrightarrow> length p \<le> 255 \<Longrightarrow> path_key p"
  by (simp add: path_key_def tombstone_def VFS_TOMBSTONE_def)

lemma join_absolute:
  "r \<noteq> [] \<Longrightarrow> r ! 0 = CHR ''/'' \<Longrightarrow> join_segments segs r \<noteq> [] \<and> join_segments segs r ! 0 = CHR ''/''"
  by (induction segs r rule: join_segments.induct) (auto simp: nth_append)

lemma find_mem: "List.find P xs = Some x \<Longrightarrow> x \<in> set xs"
  by (auto simp: find_Some_iff)

lemma normalize_fast_key: "fast_path p \<Longrightarrow> path_key (normalize_fast p)"
  by (auto simp: normalize_fast_def fast_path_def PATH_CAP_def split: option.splits dest!: find_mem intro: put_alias_key absolute_key)

lemma alias_path_absolute: "r \<noteq> [] \<Longrightarrow> r ! 0 = CHR ''/'' \<Longrightarrow> alias_path r \<noteq> [] \<and> alias_path r ! 0 = CHR ''/''"
  by (auto simp: alias_path_def put_alias_def path_aliases_def split: option.splits)

text \<open>Whatever the path and the working directory: the normalised path is absolute and fits its buffer.\<close>
lemma vfs_normalize_absolute:
  assumes "vfs_normalize_path cwd p = Some n"
  shows "path_key n"
proof (cases "fast_path p")
  case True
  then show ?thesis using assms normalize_fast_key by (auto simp add: vfs_normalize_path_def)
next
  case False
  let ?n = "\<lambda>t. alias_path (join_segments (path_segments (copy_path (strip_prefix p) t)) ''/'')"
  obtain t where "n = take (PATH_CAP - 1) (?n t)"
    using assms False by (auto simp: vfs_normalize_path_def Let_def split: Option.bind_splits)
  moreover have "?n t \<noteq> [] \<and> ?n t ! 0 = CHR ''/''" by (rule alias_path_absolute) (use join_absolute in auto)
  ultimately show ?thesis by (intro absolute_key) (auto simp: PATH_CAP_def)
qed

lemma normalize_key: "normalize c p s = Some n \<Longrightarrow> path_key n"
  by (auto simp: normalize_def intro: vfs_normalize_absolute)

lemma normalize_of_fast: "fast_path p \<Longrightarrow> normalize c p s = Some (normalize_fast p)"
  by (auto simp: normalize_def vfs_normalize_path_def)

section \<open>Lists of siblings\<close>

definition nxt :: "bsd_state \<Rightarrow> vnode_ref \<Rightarrow> vnode_ref option" where "nxt s v = v_sibling_next (vnd s v)"

definition kids_ok :: "bsd_state \<Rightarrow> bool" where "kids_ok s \<longleftrightarrow> (\<forall>c. \<exists>n. nth_child c n s = None)"

lemma nth_child_cong: "nxt t = nxt s \<Longrightarrow> nth_child c n t = nth_child c n s"
proof (induction c n s rule: nth_child.induct)
  case (3 v n s)
  then show ?case using fun_cong [OF 3(2), of v] by (simp add: nxt_def)
qed simp_all

lemma kids_ok_cong: "nxt t = nxt s \<Longrightarrow> kids_ok t = kids_ok s"
  using nth_child_cong [of t s] unfolding kids_ok_def by presburger

lemma kids_ok_other:
  "kids_ok (s\<lparr>s_registry := reg\<rparr>) = kids_ok s" "kids_ok (s\<lparr>s_rootfs_vnode_count := n\<rparr>) = kids_ok s" "kids_ok (s\<lparr>b_pty := pt\<rparr>) = kids_ok s"
  by (rule kids_ok_cong, simp add: nxt_def fun_eq_iff)+

text \<open>A link to a list that does not contain the vnode itself.\<close>
lemma kids_ok_link:
  assumes k: "kids_ok s" and t: "nxt t = (nxt s)(v := c)" and c: "\<And>n. nth_child c n s \<noteq> Some v"
  shows "kids_ok t"
proof -
  have tv: "v_sibling_next (vnd t w) = (if w = v then c else v_sibling_next (vnd s w))" for w
    using fun_cong [OF t, of w] by (simp add: nxt_def)
  have old: "nth_child d n t = nth_child d n s" if "\<And>m. nth_child d m s \<noteq> Some v" for d n
    using that
  proof (induction n arbitrary: d)
    case 0
    then show ?case by (cases d) simp_all
  next
    case (Suc n)
    show ?case
    proof (cases d)
      case (Some w)
      then have "w \<noteq> v" using Suc.prems [of 0] by simp
      then show ?thesis using Some Suc.IH [of "v_sibling_next (vnd s w)"] Suc.prems [of "Suc _"] by (simp add: tv)
    qed simp
  qed
  obtain e where e: "nth_child c e s = None" using k by (auto simp: kids_ok_def)
  have "\<exists>m. nth_child d m t = None" if "nth_child d n s = None" for d n
    using that
  proof (induction n arbitrary: d)
    case 0
    then show ?case by (cases d) auto
  next
    case (Suc n)
    show ?case
    proof (cases d)
      case (Some w)
      show ?thesis
      proof (cases "w = v")
        case True
        then have "nth_child d (Suc e) t = None" using Some old [OF c, of e] e by (simp add: tv)
        then show ?thesis ..
      next
        case False
        obtain m where "nth_child (v_sibling_next (vnd s w)) m t = None" using Suc Some by auto
        then have "nth_child d (Suc m) t = None" using Some False by (simp add: tv)
        then show ?thesis ..
      qed
    qed auto
  qed
  then show ?thesis using k by (auto simp: kids_ok_def) blast
qed

text \<open>A finite list does not come back to its start.\<close>
lemma no_cycle:
  assumes "kids_ok s"
  shows "nth_child (nxt s w) n s \<noteq> Some w"
proof
  assume c: "nth_child (nxt s w) n s = Some w"
  have add: "nth_child d (m + k) s = nth_child (nth_child d m s) k s" for d m k
    by (induction d m s rule: nth_child.induct) simp_all
  have "nth_child (Some w) (Suc n * j) s = Some w" for j
  proof (induction j)
    case (Suc j)
    have "nth_child (Some w) (Suc n * j + Suc n) s = nth_child (Some w) (Suc n) s" using add [of "Some w" "Suc n * j" "Suc n"] Suc by simp
    then show ?case using c by (simp add: nxt_def add.commute)
  qed simp
  moreover obtain e where e: "nth_child (Some w) e s = None" using assms by (auto simp: kids_ok_def)
  moreover have "nth_child None k s = None" for k by simp
  ultimately have "nth_child (Some w) (e + n * e) s = Some w" by (metis add.commute mult_Suc)
  then show False using add [of "Some w" e "n * e"] e by simp
qed

lemma child_known_ends:
  assumes "nth_child c n s = None"
  shows "\<exists>b. child_known v c s = Some b \<and> (\<not> b \<longrightarrow> (\<forall>m. nth_child c m s \<noteq> Some v))"
  using assms
proof (induction n arbitrary: c)
  case 0
  then show ?case by (cases c) (auto simp: child_known.simps)
next
  case (Suc n)
  show ?case
  proof (cases c)
    case None
    then show ?thesis by (auto simp: child_known.simps)
  next
    case (Some w)
    then obtain b where b: "child_known v (v_sibling_next (vnd s w)) s = Some b"
      "\<not> b \<longrightarrow> (\<forall>m. nth_child (v_sibling_next (vnd s w)) m s \<noteq> Some v)"
      using Suc by auto
    have "nth_child c m s \<noteq> Some v" if "w \<noteq> v" "\<not> b" for m using that Some b(2) by (cases m) auto
    then show ?thesis using Some b(1) child_known.simps [of v c s] by auto
  qed
qed

lemma nxt_upd: "nxt (upd_vn v f s) = (nxt s)(v := v_sibling_next (f (vnd s v)))"
  by (simp add: nxt_def vnd_upd_vn fun_eq_iff)

lemma nxt_keep: "v_sibling_next (f (vnd s v)) = v_sibling_next (vnd s v) \<Longrightarrow> nxt (upd_vn v f s) = nxt s"
  by (simp add: nxt_upd) (simp add: nxt_def fun_upd_idem)

text \<open>Linking and unlinking return, and the lists stay finite.\<close>
lemma link_child_ends:
  assumes "kids_ok s"
  obtains t where "link_child v d s = Some t" and "kids_ok t" and "s_registry t = s_registry s"
    and "s_rootfs_vnode_count t = s_rootfs_vnode_count s"
proof -
  let ?s = "upd_vn v (\<lambda>x. x\<lparr>v_parent := Some d\<rparr>) s"
  have n: "nxt ?s = nxt s" by (rule nxt_keep) simp
  have k: "kids_ok ?s" using kids_ok_cong [OF n] assms by simp
  obtain m where "nth_child (v_children (vnd ?s d)) m ?s = None" using k by (auto simp: kids_ok_def)
  from child_known_ends [OF this, of v] obtain b where b: "child_known v (v_children (vnd ?s d)) ?s = Some b"
    "\<not> b \<longrightarrow> (\<forall>m. nth_child (v_children (vnd ?s d)) m ?s \<noteq> Some v)" by blast
  let ?v = "upd_vn v (\<lambda>x. x\<lparr>v_sibling_next := v_children (vnd ?s d)\<rparr>) ?s"
  let ?t = "upd_vn d (\<lambda>x. x\<lparr>v_children := Some v\<rparr>) ?v"
  show ?thesis
  proof (cases b)
    case True
    then show ?thesis using that [of ?s] b(1) k by (simp add: link_child_def Let_def upd_vn_def)
  next
    case False
    have "kids_ok ?v" by (rule kids_ok_link [OF k, of _ v "v_children (vnd ?s d)"]) (use b(2) False in \<open>simp_all add: nxt_upd\<close>)
    moreover have "nxt ?t = nxt ?v" by (rule nxt_keep) simp
    ultimately have "kids_ok ?t" using kids_ok_cong by blast
    then show ?thesis using that [of ?t] b(1) False by (simp add: link_child_def Let_def) (simp add: upd_vn_def)
  qed
qed

lemma unlink_sibling_ends:
  assumes k: "kids_ok s" and "nth_child c n s = None"
  shows "\<exists>t. unlink_sibling v c s = Some t \<and> kids_ok t \<and> s_registry t = s_registry s"
  using assms(2)
proof (induction n arbitrary: c)
  case 0
  then show ?case using k by (cases c) (auto simp: unlink_sibling.simps)
next
  case (Suc n)
  have same: "unlink_sibling v c s = Some s \<Longrightarrow> ?case" using k by auto
  show ?case
  proof (cases c)
    case None
    then show ?thesis by (intro same) (simp add: unlink_sibling.simps)
  next
    case (Some w)
    show ?thesis
    proof (cases "v_sibling_next (vnd s w)")
      case None
      then show ?thesis using Some by (intro same) (simp add: unlink_sibling.simps)
    next
      case y: (Some y)
      show ?thesis
      proof (cases "y = v")
        case False
        then show ?thesis using Some y Suc unlink_sibling.simps [of v c s] by auto
      next
        case True
        let ?t = "upd_vn w (\<lambda>x. x\<lparr>v_sibling_next := v_sibling_next (vnd s v)\<rparr>) s"
        have "nth_child (v_sibling_next (vnd s v)) m s \<noteq> Some w" for m
          using no_cycle [OF k, of w "Suc m"] y True by (simp add: nxt_def)
        then have "kids_ok ?t" by (intro kids_ok_link [OF k, of _ w "v_sibling_next (vnd s v)"]) (simp_all add: nxt_upd)
        then show ?thesis using Some y True unlink_sibling.simps [of v c s] by auto (simp add: upd_vn_def)
      qed
    qed
  qed
qed

lemma kids_ok_cut: "kids_ok s \<Longrightarrow> nxt t = (nxt s)(v := None) \<Longrightarrow> kids_ok t"
  by (rule kids_ok_link [of s t v None]) simp_all

lemma unlink_child_ends:
  assumes k: "kids_ok s"
  obtains t where "unlink_child v s = Some t" and "kids_ok t" and "s_registry t = s_registry s"
proof (cases "v_parent (vnd s v)")
  case None
  then show ?thesis using that [of s] k by (simp add: unlink_child_def)
next
  case (Some d)
  let ?a = "upd_vn d (\<lambda>x. x\<lparr>v_children := v_sibling_next (vnd s v)\<rparr>) s"
  obtain n where "nth_child (v_children (vnd s d)) n s = None" using k by (auto simp: kids_ok_def)
  then obtain t where t: "unlink_sibling v (v_children (vnd s d)) s = Some t" "kids_ok t" "s_registry t = s_registry s"
    using unlink_sibling_ends [OF k] by blast
  have "nxt ?a = nxt s" by (rule nxt_keep) simp
  then have a: "kids_ok ?a" "s_registry ?a = s_registry s" using kids_ok_cong [of ?a s] k by (simp, simp add: upd_vn_def)
  have last: "kids_ok (upd_vn v (\<lambda>x. x\<lparr>v_parent := None, v_sibling_next := None\<rparr>) u)" if "kids_ok u" for u
    by (rule kids_ok_cut [OF that, of _ v]) (simp add: nxt_upd)
  have reg: "s_registry (upd_vn v f u) = s_registry u" for f u by (simp add: upd_vn_def)
  show ?thesis
  proof (cases "v_children (vnd s d) = Some v")
    case True
    then show ?thesis using that [OF _ last [OF a(1)]] Some a(2) reg by (simp add: unlink_child_def)
  next
    case False
    then show ?thesis using that [OF _ last [OF t(2)]] Some t(1,3) reg by (simp add: unlink_child_def)
  qed
qed

section \<open>The state of the tree\<close>

definition tree_ok :: "bsd_state \<Rightarrow> bool" where "tree_ok s \<longleftrightarrow> kids_ok s \<and> reg_ok (s_registry s)"

lemma tree_ok_cong: "nxt t = nxt s \<Longrightarrow> s_registry t = s_registry s \<Longrightarrow> tree_ok t = tree_ok s"
  using kids_ok_cong [of t s] by (simp add: tree_ok_def)

lemma fast_take: "fast_path p \<Longrightarrow> 0 < i \<Longrightarrow> fast_path (take i p)"
  using set_take_subset [of i p] by (auto simp: fast_path_def)

text \<open>The paths that normalising leaves alone.\<close>
definition norm_path :: "string \<Rightarrow> bool" where
  "norm_path p \<longleftrightarrow> fast_path p \<and> length p < PATH_CAP \<and> (\<forall>(a, _) \<in> set path_aliases. \<not> (take 4 p = a \<and> (length p = 4 \<or> p ! 4 = CHR ''/'')))"

lemma normalize_fast_norm: "fast_path p \<Longrightarrow> norm_path (normalize_fast p)"
proof (cases "List.find (\<lambda>(a, _). take 4 p = a \<and> (length p = 4 \<or> p ! 4 = CHR ''/'')) path_aliases")
  case None
  assume f: "fast_path p"
  then have l: "p \<noteq> []" by (simp add: fast_path_def)
  have eq: "take 4 (take 255 p) = take 4 p" "length (take 255 p) = 4 \<longleftrightarrow> length p = 4" "take 255 p ! 4 = p ! 4" by auto
  have "fast_path (take 255 p)" using fast_take [OF f] by simp
  moreover have n: "normalize_fast p = take 255 p" using None by (simp add: normalize_fast_def PATH_CAP_def)
  moreover have "\<not> (take 4 p = a \<and> (length p = 4 \<or> p ! 4 = CHR ''/''))" if "(a, b) \<in> set path_aliases" for a b
    using None that unfolding find_None_iff by auto
  moreover have "length (take 255 p) < PATH_CAP" by (simp add: PATH_CAP_def)
  ultimately show ?thesis unfolding norm_path_def n eq by blast
next
  case (Some x)
  assume f: "fast_path p"
  obtain a b where x: "x = (a, b)" by fastforce
  have m: "(a, b) \<in> set path_aliases" using find_mem [OF Some] x by simp
  let ?n = "put_alias b (drop 4 p)"
  have n: "normalize_fast p = ?n" using Some x by (simp add: normalize_fast_def)
  have "set (take k (drop 4 p)) \<subseteq> set p" for k using set_take_subset set_drop_subset by fastforce
  then have "fast_path ?n" using m f by (auto simp: fast_path_def put_alias_def path_aliases_def)
  moreover have "length ?n < PATH_CAP" "take 4 ?n \<in> {''/pri'', ''/usr''}" using m by (auto simp: put_alias_def path_aliases_def PATH_CAP_def)
  ultimately show ?thesis using n by (auto simp: norm_path_def path_aliases_def)
qed

lemma norm_fast [simp]: "norm_path p \<Longrightarrow> fast_path p"
  by (simp add: norm_path_def)

lemma norm_idem: "norm_path p \<Longrightarrow> normalize_fast p = p"
proof -
  assume n: "norm_path p"
  then have "List.find (\<lambda>(a, _). take 4 p = a \<and> (length p = 4 \<or> p ! 4 = CHR ''/'')) path_aliases = None"
    unfolding find_None_iff norm_path_def by blast
  then show ?thesis using n by (simp add: normalize_fast_def norm_path_def PATH_CAP_def)
qed

lemma norm_prefix:
  assumes "norm_path p" and "0 < i" and "i < length p" and "p ! i = CHR ''/''"
  shows "norm_path (take i p)"
proof -
  have "\<not> (take 4 (take i p) = a \<and> (length (take i p) = 4 \<or> take i p ! 4 = CHR ''/''))" if a: "(a, b) \<in> set path_aliases" for a b
  proof
    assume h: "take 4 (take i p) = a \<and> (length (take i p) = 4 \<or> take i p ! 4 = CHR ''/'')"
    have "length a = 4" using a by (auto simp: path_aliases_def)
    then have "4 \<le> i" using h by (auto simp: min_def split: if_splits)
    then have "take 4 p = a \<and> p ! 4 = CHR ''/''" using h assms(3,4) by (cases "i = 4") (auto simp: min_def)
    then show False using assms(1) a by (auto simp: norm_path_def)
  qed
  then show ?thesis using assms fast_take [of p i] by (auto simp: norm_path_def)
qed

lemma prefix_norm: "norm_path p \<Longrightarrow> b \<in> set (parent_prefixes p) \<Longrightarrow> norm_path b \<and> length b < length p"
  using norm_prefix [of p] by (auto simp: parent_prefixes_def)

lemma dir_name_fast: "fast_path p \<Longrightarrow> fast_path (dir_name p)"
  using fast_take [of p] by (auto simp: dir_name_def Let_def)

lemma lookup_fast: "fast_path p \<Longrightarrow> vfs_lookup c p s = Some (lookup_norm (normalize_fast p) (s_registry s))"
  by (simp add: vfs_lookup_def normalize_of_fast)

lemma tree_ok_other:
  "tree_ok (s\<lparr>s_rootfs_vnode_count := n\<rparr>) = tree_ok s" "tree_ok (s\<lparr>b_pty := pt\<rparr>) = tree_ok s"
  by (simp_all add: tree_ok_def kids_ok_other)

lemma tree_ok_fresh: "tree_ok s \<Longrightarrow> v_sibling_next x = None \<Longrightarrow> tree_ok (upd_vn v (\<lambda>_. x) s)"
  using kids_ok_cut [of s "upd_vn v (\<lambda>_. x) s" v] by (simp add: tree_ok_def nxt_upd) (simp add: upd_vn_def)

lemma fold_bind_ends:
  assumes "\<And>x s. x \<in> set xs \<Longrightarrow> P s \<Longrightarrow> \<exists>t. f x s = Some t \<and> P t" and "P s"
  shows "\<exists>t. fold (\<lambda>x r. Option.bind r (f x)) xs (Some s) = Some t \<and> P t"
  using assms
proof (induction xs arbitrary: s)
  case (Cons x xs)
  then obtain u where "f x s = Some u" "P u" by (meson list.set_intros(1))
  then show ?case using Cons.IH [of u] Cons.prems(1) by simp
qed simp

section \<open>The load of the table\<close>

text \<open>The slots that have ever been used.\<close>
definition load :: "(nat \<Rightarrow> vfs_entry) \<Rightarrow> nat" where "load reg = card {i. i < VFS_REGISTRY_SIZE \<and> ve_path (reg i) \<noteq> []}"

lemma load_put: "load (reg(i := e)) \<le> load reg + 1"
proof -
  let ?U = "{j. j < VFS_REGISTRY_SIZE \<and> ve_path (reg j) \<noteq> []}"
  have "load (reg(i := e)) \<le> card (insert i ?U)" unfolding load_def by (rule card_mono) auto
  also have "\<dots> \<le> card ?U + 1" by (simp add: card_insert_if)
  finally show ?thesis by (simp add: load_def)
qed

lemma load_insert: "reg_insert k v reg = Some r \<Longrightarrow> load r \<le> load reg + 1"
  using load_put by (auto simp: reg_insert_def split: option.splits)

lemma load_room:
  assumes "load reg < VFS_REGISTRY_SIZE"
  shows "reg_insert k v reg \<noteq> None"
proof (rule ccontr)
  assume "\<not> reg_insert k v reg \<noteq> None"
  then have "{i. i < VFS_REGISTRY_SIZE \<and> ve_path (reg i) \<noteq> []} = {..<VFS_REGISTRY_SIZE}"
    using reg_insert_room by blast
  then show False using assms by (simp add: load_def)
qed

text \<open>What making directories does: the paths registered keep their vnodes, and every slot taken is the one of a vnode of the pool.\<close>
definition extends :: "bsd_state \<Rightarrow> bsd_state \<Rightarrow> bool" where
  "extends s t \<longleftrightarrow> tree_ok t \<and> (\<forall>k v. path_key k \<longrightarrow> reg_lookup k (s_registry s) = Some v \<longrightarrow> reg_lookup k (s_registry t) = Some v)
     \<and> load (s_registry t) + s_rootfs_vnode_count s \<le> load (s_registry s) + s_rootfs_vnode_count t
     \<and> (s_rootfs_vnode_count s \<le> ROOTFS_MAX_VNODES \<longrightarrow> s_rootfs_vnode_count t \<le> ROOTFS_MAX_VNODES)"

lemma extends_refl: "tree_ok s \<Longrightarrow> extends s s"
  by (simp add: extends_def)

lemma extends_trans: "extends s t \<Longrightarrow> extends t u \<Longrightarrow> extends s u"
  by (auto simp: extends_def)

lemma extends_same:
  "extends s t \<Longrightarrow> tree_ok u \<Longrightarrow> s_registry u = s_registry t \<Longrightarrow> s_rootfs_vnode_count u = s_rootfs_vnode_count t \<Longrightarrow> extends s u"
  by (simp add: extends_def)

lemma create_dir_cases:
  assumes "tree_ok s"
  obtains "vfs_create_dir_vnode name s = (None, s)"
    | v t where "vfs_create_dir_vnode name s = (Some v, t)" and "tree_ok t" and "s_registry t = s_registry s"
      and "s_rootfs_vnode_count t = s_rootfs_vnode_count s + 1" and "s_rootfs_vnode_count s < ROOTFS_MAX_VNODES"
proof (cases "s_rootfs_vnode_count s \<ge> ROOTFS_MAX_VNODES")
  case True
  then show ?thesis using that(1) by (simp add: vfs_create_dir_vnode_def)
next
  case False
  define t where "t = snd (vfs_create_dir_vnode name s)"
  have "vfs_create_dir_vnode name s = (Some (VN_POOL (s_rootfs_vnode_count s)), t)" using False by (simp add: t_def vfs_create_dir_vnode_def Let_def)
  moreover have "tree_ok t" using False assms by (simp add: t_def vfs_create_dir_vnode_def Let_def zero_vnode_def tree_ok_fresh tree_ok_other)
  moreover have "s_registry t = s_registry s" "s_rootfs_vnode_count t = s_rootfs_vnode_count s + 1"
    using False by (simp_all add: t_def vfs_create_dir_vnode_def Let_def upd_vn_def)
  ultimately show ?thesis using that(2) False by simp
qed

section \<open>Registering\<close>

text \<open>The result of registering a vnode under a normalised path, over the state in which the directories above it exist.\<close>
definition registered :: "string \<Rightarrow> vnode_ref \<Rightarrow> chimera_error \<Rightarrow> bsd_state \<Rightarrow> bsd_state \<Rightarrow> bool" where
  "registered n v e z t \<longleftrightarrow>
     (if load (s_registry z) < VFS_REGISTRY_SIZE then e = CHIMERA_SUCCESS else e \<in> {CHIMERA_SUCCESS, CHIMERA_ERR_OVERFLOW})
   \<and> (if e = CHIMERA_SUCCESS
      then (\<forall>k. path_key k \<longrightarrow> reg_lookup k (s_registry t) = (if k = n then Some v else reg_lookup k (s_registry z)))
        \<and> load (s_registry t) \<le> load (s_registry z) + 1
      else s_registry t = s_registry z)
   \<and> s_rootfs_vnode_count t = s_rootfs_vnode_count z \<and> tree_ok t"

lemma reg_insert_registered:
  assumes "tree_ok z" and "path_key n"
    and "(e, t) = (case reg_insert n v (s_registry z) of Some reg \<Rightarrow> (CHIMERA_SUCCESS, z\<lparr>s_registry := reg\<rparr>) | None \<Rightarrow> (CHIMERA_ERR_OVERFLOW, z))"
  shows "registered n v e z t"
proof (cases "reg_insert n v (s_registry z)")
  case None
  then show ?thesis using assms load_room [of "s_registry z" n v] by (auto simp: registered_def)
next
  case (Some reg)
  then show ?thesis
    using assms registry.ins_ok [OF _ assms(2) Some] registry.look_ins [OF _ assms(2) _ Some] load_insert [OF Some]
    by (auto simp: registered_def tree_ok_def kids_ok_other)
qed

lemma registered_extends:
  assumes z: "extends u z" and r: "registered n v e z t" and new: "reg_lookup n (s_registry z) = None" and n: "path_key n"
  shows "tree_ok t" "\<forall>k w. path_key k \<longrightarrow> reg_lookup k (s_registry u) = Some w \<longrightarrow> reg_lookup k (s_registry t) = Some w"
    "load (s_registry t) + s_rootfs_vnode_count u \<le> load (s_registry u) + s_rootfs_vnode_count t + 1"
    "s_rootfs_vnode_count t = s_rootfs_vnode_count z"
  using assms by (auto simp: registered_def extends_def split: if_splits)

lemma lookup_norm_none: "lookup_norm n reg = None \<Longrightarrow> reg_lookup n reg = None"
  by (auto simp: lookup_norm_def split: option.splits)

text \<open>Registering a path that the fast branch normalises returns, whatever the depth of the path and however full the tables are.\<close>
lemma vfs_register_depth_ends:
  assumes "fast_path path" and "tree_ok s" and "length (normalize_fast path) < n"
  shows "\<exists>e z t. vfs_register_depth n c path v s = Some (e, t) \<and> extends s z \<and> registered (normalize_fast path) v e z t"
  using assms
proof (induction n arbitrary: path v s)
  case (Suc n)
  let ?n = "normalize_fast path"
  have np: "norm_path ?n" using normalize_fast_norm Suc.prems(1) by blast
  then have k: "path_key ?n" using normalize_fast_key Suc.prems(1) by blast
  define par where "par = (\<lambda>buf s. do {
      existing \<leftarrow> vfs_lookup c buf s;
      (if existing \<noteq> None then Some s
       else case vfs_create_dir_vnode (base_name buf) s of
         (None, s) \<Rightarrow> Some s
       | (Some d, s) \<Rightarrow> do { (_, s) \<leftarrow> vfs_register_depth n c buf d s; Some s })
    })"
  have par: "\<exists>t. par buf u = Some t \<and> extends s t" if b: "buf \<in> set (parent_prefixes ?n)" and u: "extends s u" for buf u
  proof -
    have nb: "norm_path buf" "length (normalize_fast buf) < n" "normalize_fast buf = buf"
      using prefix_norm [OF np b] norm_idem [of buf] Suc.prems(3) by auto
    have lk: "vfs_lookup c buf u = Some (lookup_norm buf (s_registry u))" using lookup_fast [of buf] nb by simp
    have tu: "tree_ok u" using u by (simp add: extends_def)
    show ?thesis
    proof (cases "lookup_norm buf (s_registry u) = None")
      case True
      note none = lookup_norm_none [OF True]
      have kb: "path_key buf" using normalize_fast_key [of buf] nb by simp
      show ?thesis
      proof (rule create_dir_cases [OF tu, of "base_name buf"])
        assume "vfs_create_dir_vnode (base_name buf) u = (None, u)"
        then show ?thesis using True lk u by (simp add: par_def)
      next
        fix d w assume w: "vfs_create_dir_vnode (base_name buf) u = (Some d, w)" "tree_ok w" "s_registry w = s_registry u"
          "s_rootfs_vnode_count w = s_rootfs_vnode_count u + 1" "s_rootfs_vnode_count u < ROOTFS_MAX_VNODES"
        obtain e z t where t: "vfs_register_depth n c buf d w = Some (e, t)" "extends w z" "registered buf d e z t"
          using Suc.IH [OF _ w(2) nb(2), of d] nb(1,3) by auto
        have "extends u t"
        proof (cases "reg_lookup buf (s_registry z)")
          case None
          note x = registered_extends [OF t(2,3) None kb]
          show ?thesis using x t(2) w(3-5) by (auto simp: extends_def)
        next
          case (Some y)
          then show ?thesis using t(2,3) w(3-5) none kb by (auto simp: extends_def registered_def split: if_splits)
        qed
        then show ?thesis using True lk w(1) t(1) extends_trans [OF u] by (simp add: par_def)
      qed
    qed (use lk u in \<open>simp add: par_def\<close>)
  qed
  obtain u where u: "fold (\<lambda>buf r. Option.bind r (par buf)) (parent_prefixes ?n) (Some s) = Some u" "extends s u"
    using fold_bind_ends [of "parent_prefixes ?n" "extends s" par] par extends_refl [OF Suc.prems(2)] by blast
  define dvp where "dvp = lookup_norm (normalize_fast (dir_name ?n)) (s_registry u)"
  obtain w where w: "(case dvp of None \<Rightarrow> Some u | Some d \<Rightarrow> if d = v then Some u else link_child v d u) = Some w" "extends s w"
  proof (cases dvp)
    case (Some d)
    obtain x where "link_child v d u = Some x" "extends s x"
    proof (rule link_child_ends [of u v d])
      show "kids_ok u" using u(2) by (simp add: extends_def tree_ok_def)
      fix t assume t: "link_child v d u = Some t" "kids_ok t" "s_registry t = s_registry u" "s_rootfs_vnode_count t = s_rootfs_vnode_count u"
      then have "tree_ok t" using u(2) by (simp add: extends_def tree_ok_def)
      then show ?thesis using that t extends_same [OF u(2)] by blast
    qed
    then show ?thesis using that u(2) Some by (cases "d = v") simp_all
  qed (use that u(2) in simp)
  define z where "z = (if ?n = ''/'' then s else w)"
  have ez: "extends s z" using extends_refl [OF Suc.prems(2)] w(2) by (simp add: z_def)
  have "?n \<noteq> [] \<and> ?n ! 0 = CHR ''/'' \<and> length ?n < PATH_CAP" using np by (simp add: norm_path_def fast_path_def)
  moreover have "vfs_lookup c (dir_name ?n) u = Some dvp" using lookup_fast [OF dir_name_fast] np by (simp add: dvp_def)
  ultimately have eq: "vfs_register_depth (Suc n) c path v s =
      Some (case reg_insert ?n v (s_registry z) of
         Some reg \<Rightarrow> (CHIMERA_SUCCESS, z\<lparr>s_registry := reg\<rparr>)
       | None \<Rightarrow> (CHIMERA_ERR_OVERFLOW, z))"
    using u(1) w(1) Suc.prems(1) by (simp add: normalize_of_fast par_def z_def split: option.split)
  obtain e t where et: "(e, t) = (case reg_insert ?n v (s_registry z) of
         Some reg \<Rightarrow> (CHIMERA_SUCCESS, z\<lparr>s_registry := reg\<rparr>) | None \<Rightarrow> (CHIMERA_ERR_OVERFLOW, z))"
    by (metis surj_pair)
  have "registered ?n v e z t" using reg_insert_registered [OF _ k et] ez by (simp add: extends_def)
  then show ?case using eq ez unfolding et [symmetric] by blast
qed simp

end
