(* ===== verification/Vfs_Props.thy ===== *)
theory Vfs_Props
  imports Vfs_Tree Bsd_Examples
begin

text \<open>
  Properties of the path registry: it is a map from paths to vnodes; registering, removing and looking up over it; the
  start of the file system; and when it is full.
\<close>

unbundle bit_operations_syntax

section \<open>Registering and looking up\<close>

lemma lookup_registered:
  "fast_path p \<Longrightarrow> reg_lookup (normalize_fast p) (s_registry s) = Some v \<Longrightarrow> vfs_lookup c p s = Some (Some v)"
  by (simp add: lookup_fast lookup_norm_def)

lemma vfs_register_ends:
  assumes "fast_path path" and "tree_ok s"
  shows "\<exists>e z t. vfs_register c path v s = Some (e, t) \<and> extends s z \<and> registered (normalize_fast path) v e z t"
proof -
  have "length (normalize_fast path) < PATH_CAP" using normalize_fast_norm [OF assms(1)] by (simp add: norm_path_def)
  then show ?thesis using vfs_register_depth_ends [OF assms] by (simp add: vfs_register_def)
qed

text \<open>Registering a vnode under an absolute path without dots, colons and blanks returns, with success or with an overflow
  and with success whenever the table has room for the directories that can still be made. After success a look-up by the same
  path, from any process, finds the vnode; every other path that led somewhere leads there still; lists of children stay finite
  and the probe chains intact.\<close>
theorem vfs_register_found:
  assumes "fast_path path" and "tree_ok s" and "s_rootfs_vnode_count s \<le> ROOTFS_MAX_VNODES"
  shows "\<exists>e t. vfs_register c path v s = Some (e, t) \<and> tree_ok t \<and> e \<in> {CHIMERA_SUCCESS, CHIMERA_ERR_OVERFLOW}
    \<and> (load (s_registry s) + (ROOTFS_MAX_VNODES - s_rootfs_vnode_count s) < VFS_REGISTRY_SIZE \<longrightarrow> e = CHIMERA_SUCCESS)
    \<and> (e = CHIMERA_SUCCESS \<longrightarrow> (\<forall>c'. vfs_lookup c' path t = Some (Some v)))
    \<and> (\<forall>k w. path_key k \<longrightarrow> k \<noteq> normalize_fast path \<longrightarrow> reg_lookup k (s_registry s) = Some w \<longrightarrow> reg_lookup k (s_registry t) = Some w)"
proof -
  obtain e z t where t: "vfs_register c path v s = Some (e, t)" "extends s z" "registered (normalize_fast path) v e z t"
    using vfs_register_ends [OF assms(1,2)] by blast
  have "load (s_registry z) < VFS_REGISTRY_SIZE"
    if "load (s_registry s) + (ROOTFS_MAX_VNODES - s_rootfs_vnode_count s) < VFS_REGISTRY_SIZE"
    using t(2) that assms(3) unfolding extends_def by linarith
  moreover have "vfs_lookup c' path t = Some (Some v)" if "e = CHIMERA_SUCCESS" for c'
    using t(3) that normalize_fast_key [OF assms(1)] by (intro lookup_registered [OF assms(1)]) (simp add: registered_def)
  moreover have "reg_lookup k (s_registry t) = Some w"
    if "path_key k" "k \<noteq> normalize_fast path" "reg_lookup k (s_registry s) = Some w" for k w
    using t(2,3) that by (auto simp: extends_def registered_def split: if_splits)
  ultimately show ?thesis using t(1,3) by (auto simp: registered_def split: if_splits)
qed

lemma demo_reg_ok: "reg_ok (\<lambda>_. \<lparr>ve_path = [], ve_vnode = None\<rparr>)"
  by (simp add: reg_ok_def)

lemma demo_tree_ok: "tree_ok demo_bsd"
proof -
  have "nxt demo_bsd v = None" for v by (simp add: nxt_def demo_bsd_def zero_vnode_def)
  then have "nth_child c 2 demo_bsd = None" for c by (cases c) (simp_all add: nxt_def numeral_2_eq_2)
  then show ?thesis using demo_reg_ok by (auto simp: tree_ok_def kids_ok_def demo_bsd_def)
qed

lemma load_empty: "load (\<lambda>_. \<lparr>ve_path = [], ve_vnode = None\<rparr>) = 0"
  by (simp add: load_def)

theorem vfs_register_found_witness:
  "\<exists>t. vfs_register 0 ''/tmp/a/b'' (VN_FAT 7) demo_bsd = Some (CHIMERA_SUCCESS, t) \<and> vfs_lookup 1 ''/tmp/a/b'' t = Some (Some (VN_FAT 7))"
proof -
  have "fast_path ''/tmp/a/b''" by (simp add: fast_path_def)
  moreover have "s_rootfs_vnode_count demo_bsd = 0" "load (s_registry demo_bsd) = 0" using load_empty by (simp_all add: demo_bsd_def)
  ultimately show ?thesis
    using vfs_register_found [OF _ demo_tree_ok, of "''/tmp/a/b''" 0 "VN_FAT 7"] by (fastforce simp: ROOTFS_MAX_VNODES_def VFS_REGISTRY_SIZE_def)
qed

text \<open>Removing a path returns; it succeeds exactly when the path was registered, afterwards the path leads nowhere and every
  other path leads where it did.\<close>
theorem vfs_unregister_gone:
  assumes "fast_path path" and "tree_ok s"
  shows "\<exists>t. vfs_unregister c path s
      = Some (if reg_lookup (normalize_fast path) (s_registry s) = None then CHIMERA_ERR_NOTFOUND else CHIMERA_SUCCESS, t) \<and> tree_ok t
    \<and> (\<forall>k. path_key k \<longrightarrow> reg_lookup k (s_registry t) = (if k = normalize_fast path then None else reg_lookup k (s_registry s)))"
proof -
  let ?n = "normalize_fast path"
  have k: "path_key ?n" and ok: "reg_ok (s_registry s)" and kids: "kids_ok s"
    using normalize_fast_key [OF assms(1)] assms(2) by (auto simp: tree_ok_def)
  show ?thesis
  proof (cases "reg_remove ?n (s_registry s)")
    case None
    then have "reg_lookup ?n (s_registry s) = None" using registry.rem_iff [OF ok k] by simp
    then show ?thesis using None assms by (auto simp: vfs_unregister_def normalize_of_fast)
  next
    case (Some x)
    obtain v reg where x: "x = (v, reg)" by fastforce
    note rm = Some [unfolded x]
    have "kids_ok (s\<lparr>s_registry := reg\<rparr>)" using kids by (simp add: kids_ok_other)
    then obtain t where t: "unlink_child v (s\<lparr>s_registry := reg\<rparr>) = Some t" "kids_ok t" "s_registry t = reg"
      by (rule unlink_child_ends) simp
    have "reg_lookup ?n (s_registry s) \<noteq> None" using registry.rem_iff [OF ok k] rm by (metis option.map_disc_iff option.distinct(1))
    moreover have "vfs_unregister c path s = Some (CHIMERA_SUCCESS, t)"
      using rm t(1) assms(1) by (simp add: vfs_unregister_def normalize_of_fast)
    moreover have "reg_ok reg" "path_key k' \<Longrightarrow> reg_lookup k' reg = (if k' = ?n then None else reg_lookup k' (s_registry s))" for k'
      using registry.rem_ok [OF ok k rm] registry.look_rem [OF ok k _ rm] by auto
    ultimately show ?thesis using t(2,3) by (simp add: tree_ok_def)
  qed
qed

theorem vfs_unregister_gone_witness:
  "\<exists>t. vfs_unregister 0 ''/dev/null'' (demo_bsd\<lparr>s_registry := the (reg_insert ''/dev/null'' (VN_DEV 1) (s_registry demo_bsd))\<rparr>) = Some (CHIMERA_SUCCESS, t)
     \<and> reg_lookup ''/dev/null'' (s_registry t) = None"
proof -
  have p: "fast_path ''/dev/null''" "normalize_fast ''/dev/null'' = ''/dev/null''"
    by (simp_all add: fast_path_def normalize_fast_def path_aliases_def PATH_CAP_def)
  then have k: "path_key ''/dev/null''" using normalize_fast_key by metis
  have ok: "reg_ok (s_registry demo_bsd)" using demo_tree_ok by (simp add: tree_ok_def)
  obtain r where r: "reg_insert ''/dev/null'' (VN_DEV 1) (s_registry demo_bsd) = Some r"
    using load_room [of "s_registry demo_bsd" "''/dev/null''" "VN_DEV 1"] load_empty by (auto simp: demo_bsd_def VFS_REGISTRY_SIZE_def)
  let ?s = "demo_bsd\<lparr>s_registry := r\<rparr>"
  have "tree_ok ?s" using demo_tree_ok registry.ins_ok [OF ok k r] by (simp add: tree_ok_def kids_ok_other)
  moreover have "reg_lookup ''/dev/null'' r = Some (VN_DEV 1)" using registry.look_ins [OF ok k k r] by simp
  ultimately show ?thesis using vfs_unregister_gone [OF p(1), of ?s 0] p(2) r k by auto
qed

section \<open>The registry as a map\<close>

datatype reg_op = PUT string vnode_ref | DEL string

fun reg_step :: "reg_op \<Rightarrow> (nat \<Rightarrow> vfs_entry) \<Rightarrow> (nat \<Rightarrow> vfs_entry)" where
  "reg_step (PUT k v) r = (case reg_insert k v r of Some r' \<Rightarrow> r' | None \<Rightarrow> r)"
| "reg_step (DEL k) r = (case reg_remove k r of Some (_, r') \<Rightarrow> r' | None \<Rightarrow> r)"

fun map_step :: "reg_op \<Rightarrow> (string \<rightharpoonup> vnode_ref) \<Rightarrow> (string \<rightharpoonup> vnode_ref)" where
  "map_step (PUT k v) m = m(k \<mapsto> v)"
| "map_step (DEL k) m = m(k := None)"

fun op_key :: "reg_op \<Rightarrow> string" where
  "op_key (PUT k v) = k"
| "op_key (DEL k) = k"

lemma load_remove:
  assumes "reg_ok reg" and "path_key k" and "reg_remove k reg = Some (v, r)"
  shows "load r \<le> load reg"
proof (rule reg_remove_cases [OF assms(1,2)])
  fix i w assume i: "reg_remove k reg = Some (w, reg(i := grave k))" "i < VFS_REGISTRY_SIZE" "ve_path (reg i) = k"
  then have "ve_path (reg i) \<noteq> []" using assms(2) by (simp add: path_key_def)
  then have "{j. j < VFS_REGISTRY_SIZE \<and> ve_path (r j) \<noteq> []} = {j. j < VFS_REGISTRY_SIZE \<and> ve_path (reg j) \<noteq> []}"
    using i(1) assms(3) by auto
  then show ?thesis by (simp add: load_def)
qed (use assms(3) in simp)

lemma reg_step_map:
  assumes ok: "reg_ok r" and k: "path_key (op_key op)" and room: "load r < VFS_REGISTRY_SIZE"
    and m: "\<And>k. path_key k \<Longrightarrow> reg_lookup k r = m k"
  shows "reg_ok (reg_step op r) \<and> load (reg_step op r) \<le> load r + 1 \<and> (\<forall>k. path_key k \<longrightarrow> reg_lookup k (reg_step op r) = map_step op m k)"
proof (cases op)
  case (PUT q v)
  then obtain r' where r': "reg_insert q v r = Some r'" using load_room [OF room] by blast
  show ?thesis
    using PUT r' load_insert [OF r'] registry.ins_ok [OF ok _ r'] registry.look_ins [OF ok _ _ r'] k m by simp
next
  case (DEL q)
  then have q: "path_key q" using k by simp
  show ?thesis
  proof (cases "reg_remove q r")
    case None
    then have "reg_lookup q r = None" using registry.rem_iff [OF ok q] by simp
    then show ?thesis using DEL None ok m q by auto
  next
    case (Some x)
    obtain v r' where x: "x = (v, r')" by fastforce
    note rm = Some [unfolded x]
    show ?thesis using DEL rm registry.rem_ok [OF ok q rm] registry.look_rem [OF ok q _ rm] load_remove [OF ok q rm] m by simp
  qed
qed

lemma reg_run_map:
  assumes "reg_ok r" and "\<forall>op \<in> set ops. path_key (op_key op)" and "load r + length ops \<le> VFS_REGISTRY_SIZE"
    and "\<And>k. path_key k \<Longrightarrow> reg_lookup k r = m k" and "path_key k"
  shows "reg_lookup k (fold reg_step ops r) = fold map_step ops m k"
  using assms(1-4)
proof (induction ops arbitrary: r m)
  case (Cons op ops)
  have "load r < VFS_REGISTRY_SIZE" using Cons.prems(3) by simp
  from reg_step_map [OF Cons.prems(1) _ this Cons.prems(4), of op] Cons.prems(2)
  have s: "reg_ok (reg_step op r)" "load (reg_step op r) \<le> load r + 1" "\<And>k. path_key k \<Longrightarrow> reg_lookup k (reg_step op r) = map_step op m k"
    by auto
  show ?case using Cons.IH [OF s(1) _ _ s(3)] s(2) Cons.prems(2,3) by simp
qed (use assms(5) in simp)



section \<open>A table without unused slots\<close>

definition reg_used_up :: "(nat \<Rightarrow> vfs_entry) \<Rightarrow> bool" where
  "reg_used_up reg \<longleftrightarrow> (\<forall>i < VFS_REGISTRY_SIZE. ve_path (reg i) \<noteq> [])"

lemma used_up_step:
  assumes "reg_ok r" and "path_key (op_key op)" and "reg_used_up r"
  shows "reg_ok (reg_step op r) \<and> reg_used_up (reg_step op r)"
proof (cases op)
  case (PUT k v)
  show ?thesis
  proof (cases "reg_insert k v r")
    case (Some r')
    have "k \<noteq> []" using assms(2) PUT by (auto simp: path_key_def)
    then have "reg_used_up r'" using Some assms(3) by (auto simp: reg_insert_def reg_used_up_def split: option.splits if_splits)
    then show ?thesis using PUT Some assms registry.ins_ok [OF assms(1) _ Some] by simp
  qed (use PUT assms in simp)
next
  case (DEL k)
  then have k: "path_key k" using assms(2) by simp
  show ?thesis
    by (rule reg_remove_cases [OF assms(1) k]) (use DEL assms reg_ok_grave in \<open>auto simp: reg_used_up_def\<close>)
qed

lemma used_up_run:
  "reg_ok r \<Longrightarrow> reg_used_up r \<Longrightarrow> \<forall>op \<in> set ops. path_key (op_key op) \<Longrightarrow> reg_ok (fold reg_step ops r) \<and> reg_used_up (fold reg_step ops r)"
  using used_up_step by (induction ops arbitrary: r) auto

text \<open>C31. The slots of removed paths are not used again once no slot of the table is unused: from then on every new path is refused,
  whatever is removed, even everything.\<close>
theorem registry_stays_full:
  assumes "reg_ok reg" and "reg_used_up reg" and "\<forall>op \<in> set ops. path_key (op_key op)" and "path_key k"
    and "reg_lookup k (fold reg_step ops reg) = None"
  shows "reg_insert k v (fold reg_step ops reg) = None"
proof -
  have r: "reg_ok (fold reg_step ops reg)" "reg_used_up (fold reg_step ops reg)" using used_up_run [OF assms(1-3)] by auto
  show ?thesis by (rule reg_insert_full [OF r(1) assms(4) _ assms(5)]) (use r(2) in \<open>simp add: reg_used_up_def\<close>)
qed

theorem registry_stays_full_witness:
  "reg_lookup ''/new'' (\<lambda>_. grave ''/x'') = None \<and> reg_insert ''/new'' (VN_POOL 0) (\<lambda>_. grave ''/x'') = None"
proof -
  have k: "path_key ''/new''" by (simp add: path_key_def tombstone_def VFS_TOMBSTONE_def)
  have r: "reg_ok (\<lambda>_. grave ''/x'')" "reg_used_up (\<lambda>_. grave ''/x'')" by (simp_all add: reg_ok_def reg_used_up_def)
  have "reg_lookup ''/new'' (\<lambda>_. grave ''/x'') = None"
    using reg_lookup_none [OF r(1) k] by (simp add: grave_def VFS_TOMBSTONE_def)
  then show ?thesis using registry_stays_full [OF r, of "[]" "''/new''" "VN_POOL 0"] k by simp
qed

section \<open>The start of the file system\<close>

text \<open>The state while nodes are registered: \<open>m\<close> bounds the entries that are not directories of the pool.\<close>
definition boot_tree :: "(string \<times> vnode_ref) set \<Rightarrow> nat \<Rightarrow> bsd_state \<Rightarrow> bool" where
  "boot_tree ds m s \<longleftrightarrow> tree_ok s \<and> s_rootfs_vnode_count s \<le> ROOTFS_MAX_VNODES \<and> load (s_registry s) \<le> s_rootfs_vnode_count s + m
     \<and> (\<forall>(p, v) \<in> ds. path_key p \<and> reg_lookup p (s_registry s) = Some v)"

lemma boot_register:
  assumes b: "boot_tree ds m s" and p: "norm_path p" and new: "p \<notin> fst ` ds" and m: "m < 1000"
  shows "\<exists>t. vfs_register c p v s = Some (CHIMERA_SUCCESS, t) \<and> boot_tree (insert (p, v) ds) (m + 1) t
    \<and> load (s_registry t) + s_rootfs_vnode_count s \<le> load (s_registry s) + s_rootfs_vnode_count t + 1"
proof -
  have t: "tree_ok s" using b by (simp add: boot_tree_def)
  have n: "normalize_fast p = p" "path_key p" using norm_idem [OF p] normalize_fast_key [of p] p by auto
  obtain e z u where u: "vfs_register c p v s = Some (e, u)" "extends s z" "registered p v e z u"
    using vfs_register_ends [OF norm_fast [OF p] t, of c v] n(1) by auto
  have c: "s_rootfs_vnode_count z \<le> ROOTFS_MAX_VNODES" "load (s_registry z) + s_rootfs_vnode_count s \<le> load (s_registry s) + s_rootfs_vnode_count z"
    using u(2) b by (auto simp: extends_def boot_tree_def)
  moreover have "load (s_registry z) < VFS_REGISTRY_SIZE"
    using c b m by (simp add: boot_tree_def ROOTFS_MAX_VNODES_def VFS_REGISTRY_SIZE_def)
  ultimately have e: "e = CHIMERA_SUCCESS" "tree_ok u" "load (s_registry u) \<le> load (s_registry z) + 1" "s_rootfs_vnode_count u = s_rootfs_vnode_count z"
    "\<And>k. path_key k \<Longrightarrow> reg_lookup k (s_registry u) = (if k = p then Some v else reg_lookup k (s_registry z))"
    using u(3) by (auto simp: registered_def)
  have "path_key q \<and> reg_lookup q (s_registry u) = Some w" if "(q, w) \<in> insert (p, v) ds" for q w
  proof (cases "(q, w) = (p, v)")
    case False
    then have q: "path_key q" "reg_lookup q (s_registry s) = Some w" "q \<noteq> p" using that b new by (auto simp: boot_tree_def image_iff)
    then show ?thesis using u(2) e(5) [OF q(1)] by (simp add: extends_def)
  qed (use n(2) e(5) in auto)
  then show ?thesis using u(1) e(1-4) c b by (auto simp: boot_tree_def)
qed

lemma boot_tree_fresh: "boot_tree ds m s \<Longrightarrow> v_sibling_next x = None \<Longrightarrow> boot_tree ds m (upd_vn v (\<lambda>_. x) s)"
  using tree_ok_fresh [of s x v] by (simp add: boot_tree_def) (simp add: upd_vn_def)

lemma boot_default_dir:
  assumes b: "boot_tree ds m s" and p: "norm_path p" and m: "m < 1000"
  shows "\<exists>t. make_default_dir c p s = Some t \<and> boot_tree ds m t"
proof -
  have t: "tree_ok s" using b by (simp add: boot_tree_def)
  have lk: "vfs_lookup c p s = Some (lookup_norm p (s_registry s))" using lookup_fast [of p] p norm_idem [of p] by simp
  show ?thesis
  proof (cases "lookup_norm p (s_registry s) = None")
    case True
    have new: "p \<notin> fst ` ds" using lookup_norm_none [OF True] b by (auto simp: boot_tree_def)
    show ?thesis
    proof (rule create_dir_cases [OF t, of "base_name p"])
      assume "vfs_create_dir_vnode (base_name p) s = (None, s)"
      then show ?thesis using True lk b by (simp add: make_default_dir_def)
    next
      fix d w assume w: "vfs_create_dir_vnode (base_name p) s = (Some d, w)" "tree_ok w" "s_registry w = s_registry s"
        "s_rootfs_vnode_count w = s_rootfs_vnode_count s + 1" "s_rootfs_vnode_count s < ROOTFS_MAX_VNODES"
      then have bw: "boot_tree ds m w" using b by (simp add: boot_tree_def)
      obtain u where u: "vfs_register c p d w = Some (CHIMERA_SUCCESS, u)" "boot_tree (insert (p, d) ds) (m + 1) u"
        "load (s_registry u) + s_rootfs_vnode_count w \<le> load (s_registry w) + s_rootfs_vnode_count u + 1"
        using boot_register [OF bw p new m] by blast
      have "boot_tree ds m u" using u(2,3) w(3,4) b by (simp add: boot_tree_def)
      then show ?thesis using True lk w(1) u(1) by (simp add: make_default_dir_def)
    qed
  qed (use lk b in \<open>simp add: make_default_dir_def\<close>)
qed

lemma boot_devices:
  assumes "boot_tree ds m s" and "\<forall>(n, name, ty, ops, p) \<in> set xs. norm_path p \<and> p \<notin> fst ` ds"
    and "distinct (map (\<lambda>(n, name, ty, ops, p). p) xs)" and "m + length xs < 1000"
  shows "\<exists>t. fold (\<lambda>(n, name, ty, ops, p) r. do { s \<leftarrow> r; devfs_mknode c n name ty ops p s }) xs (Some s) = Some t
    \<and> boot_tree (ds \<union> (\<lambda>(n, name, ty, ops, p). (p, VN_DEV n)) ` set xs) (m + length xs) t"
  using assms
proof (induction xs arbitrary: ds m s)
  case (Cons x xs)
  obtain n name ty ops p where x: "x = (n, name, ty, ops, p)" by (cases x) auto
  let ?s = "upd_vn (VN_DEV n) (\<lambda>_. zero_vnode\<lparr>v_signature := CHIMERA_VNODE_MAGIC, v_type := ty, v_flags := VN_SYSTEM, v_op := Some ops,
      v_name := take 255 name\<rparr>) s"
  have "boot_tree ds m ?s" using boot_tree_fresh [OF Cons.prems(1)] by (simp add: zero_vnode_def)
  then obtain u where u: "vfs_register c p (VN_DEV n) ?s = Some (CHIMERA_SUCCESS, u)" "boot_tree (insert (p, VN_DEV n) ds) (m + 1) u"
    using boot_register [of ds m ?s p c "VN_DEV n"] Cons.prems(2,4) x by auto
  have "\<exists>t. fold (\<lambda>(n, name, ty, ops, p) r. do { s \<leftarrow> r; devfs_mknode c n name ty ops p s }) xs (Some u) = Some t
    \<and> boot_tree (insert (p, VN_DEV n) ds \<union> (\<lambda>(n, name, ty, ops, p). (p, VN_DEV n)) ` set xs) (m + 1 + length xs) t"
  proof (rule Cons.IH [OF u(2)])
    show "\<forall>(n', name, ty, ops, q) \<in> set xs. norm_path q \<and> q \<notin> fst ` insert (p, VN_DEV n) ds"
      using Cons.prems(2,3) unfolding x by (auto simp: image_iff)
  qed (use Cons.prems(3,4) in auto)
  then show ?case using u(1) x by (simp add: devfs_mknode_def)
qed simp

lemma boot_dirs_fold:
  assumes "boot_tree ds m s" and "\<forall>p \<in> set ps. norm_path p" and "m < 1000"
  shows "\<exists>t. fold (\<lambda>p r. do { s \<leftarrow> r; make_default_dir c p s }) ps (Some s) = Some t \<and> boot_tree ds m t"
  using fold_bind_ends [of ps "boot_tree ds m" "make_default_dir c" s] boot_default_dir assms by blast

lemma devfs_paths:
  "\<forall>(n, name, ty, ops, p) \<in> set (enumerate 0 devfs_nodes). norm_path p \<and> p \<noteq> ''/''"
  "distinct (map (\<lambda>(n, name, ty, ops, p). p) (enumerate 0 devfs_nodes))" "\<forall>p \<in> set s_default_dirs. norm_path p"
  by (simp_all add: devfs_nodes_def s_default_dirs_def norm_path_def fast_path_def path_aliases_def PATH_CAP_def)

text \<open>C32. The start of the file system returns with success, and afterwards the root and every device file is found, from every
  process, at its path.\<close>
theorem vfs_init_devices_found:
  assumes "kids_ok s" and "s_rootfs_vnode_count s \<le> ROOTFS_MAX_VNODES"
  shows "\<exists>t. vfs_init c s = Some (CHIMERA_SUCCESS, t) \<and> tree_ok t \<and> vfs_lookup c' ''/'' t = Some (Some VN_ROOTOBJ)
    \<and> (\<forall>(n, name, ty, ops, p) \<in> set (enumerate 0 devfs_nodes). vfs_lookup c' p t = Some (Some (VN_DEV n)))"
proof -
  let ?root = "zero_vnode\<lparr>v_signature := CHIMERA_VNODE_MAGIC, v_type := VDIR, v_flags := VN_ROOT OR VN_SYSTEM, v_op := Some s_root_ops, v_name := ''/''\<rparr>"
  let ?s = "s\<lparr>s_registry := (\<lambda>_. \<lparr>ve_path = [], ve_vnode = None\<rparr>)\<rparr>"
  have n: "norm_path ''/''" by (simp add: norm_path_def fast_path_def path_aliases_def PATH_CAP_def)
  have "boot_tree {} 0 ?s" using assms demo_reg_ok load_empty by (simp add: boot_tree_def tree_ok_def kids_ok_other)
  then have "boot_tree {} 0 (upd_vn VN_ROOTOBJ (\<lambda>_. ?root) ?s)" by (rule boot_tree_fresh) (simp add: zero_vnode_def)
  from boot_register [OF this n, of c VN_ROOTOBJ] obtain u
    where u: "vfs_register c ''/'' VN_ROOTOBJ (upd_vn VN_ROOTOBJ (\<lambda>_. ?root) ?s) = Some (CHIMERA_SUCCESS, u)" "boot_tree {(''/'', VN_ROOTOBJ)} 1 u" by auto
  obtain w where w: "fold (\<lambda>p r. do { s \<leftarrow> r; make_default_dir c p s }) s_default_dirs (Some u) = Some w" "boot_tree {(''/'', VN_ROOTOBJ)} 1 w"
    using boot_dirs_fold [OF u(2) devfs_paths(3)] by auto
  have bw: "boot_tree {(''/'', VN_ROOTOBJ)} 1 (w\<lparr>b_pty := pty_init (b_pty w)\<rparr>)" using w(2) by (simp add: boot_tree_def tree_ok_other)
  have len: "1 + length (enumerate 0 devfs_nodes) = 12" by (simp add: devfs_nodes_def)
  have free: "\<forall>(n, name, ty, ops, p) \<in> set (enumerate 0 devfs_nodes). norm_path p \<and> p \<notin> fst ` {(''/'', VN_ROOTOBJ)}"
    using devfs_paths(1) by simp
  obtain t where t: "devfs_init c w = Some t"
    "boot_tree ({(''/'', VN_ROOTOBJ)} \<union> (\<lambda>(n, name, ty, ops, p). (p, VN_DEV n)) ` set (enumerate 0 devfs_nodes)) 12 t"
    using boot_devices [OF bw free devfs_paths(2), of c, unfolded len] unfolding devfs_init_def by auto
  have i: "vfs_init c s = Some (CHIMERA_SUCCESS, t)" using u(1) w(1) t(1) by (simp add: vfs_init_def)
  have look: "vfs_lookup c' p t = Some (Some v)" if "reg_lookup p (s_registry t) = Some v" "norm_path p" for p v
    using lookup_registered [of p t v c'] norm_idem [of p] that by simp
  have "\<forall>(n, name, ty, ops, p) \<in> set (enumerate 0 devfs_nodes). reg_lookup p (s_registry t) = Some (VN_DEV n)"
    using t(2) by (fastforce simp: boot_tree_def)
  moreover have "tree_ok t" "reg_lookup ''/'' (s_registry t) = Some VN_ROOTOBJ" using t(2) by (auto simp: boot_tree_def)
  ultimately have "\<forall>(n, name, ty, ops, p) \<in> set (enumerate 0 devfs_nodes). vfs_lookup c' p t = Some (Some (VN_DEV n))"
    "tree_ok t" "vfs_lookup c' ''/'' t = Some (Some VN_ROOTOBJ)"
    using look n devfs_paths(1) by (blast, auto)
  then show ?thesis using i by blast
qed

theorem vfs_init_devices_found_witness:
  "\<exists>t. vfs_init 0 demo_bsd = Some (CHIMERA_SUCCESS, t) \<and> vfs_lookup 1 ''/dev/pts/0'' t = Some (Some (VN_DEV 6))"
proof -
  have "(6, ''pts0'', VCHR, s_pty_slave_ops, ''/dev/pts/0'') \<in> set (enumerate 0 devfs_nodes)" by (simp add: devfs_nodes_def)
  moreover have "kids_ok demo_bsd" "s_rootfs_vnode_count demo_bsd \<le> ROOTFS_MAX_VNODES" using demo_tree_ok by (simp_all add: tree_ok_def demo_bsd_def)
  ultimately show ?thesis using vfs_init_devices_found [of demo_bsd 0 1] by fastforce
qed

end
