(* ===== verification/Cred.thy ===== *)
theory Cred
  imports Fd_Syscall
begin

text \<open>
  Identities, groups and sessions of processes: the calls of \<^verbatim>\<open>kernel/bsd/syscall.c\<close> that read and set them. A call
  returns the value of the C function and the new state. The Mach layer stamps messages with the user of their sender;
  its copy of \<^verbatim>\<open>p_uid\<close> follows every change here.
\<close>

unbundle bit_operations_syntax

section \<open>User and group\<close>

text \<open>A field of the calling process, 0 without one.\<close>
definition cur_field :: "(chimera_proc \<Rightarrow> u32) \<Rightarrow> nat \<Rightarrow> bsd_state \<Rightarrow> int" where
  "cur_field f my_cpu s = (case cur_proc my_cpu s of Some p \<Rightarrow> uint (f (prc s p)) | None \<Rightarrow> 0)"

definition sys_getpid :: "nat \<Rightarrow> bsd_state \<Rightarrow> int" where "sys_getpid = cur_field p_pid"
definition sys_getuid :: "nat \<Rightarrow> bsd_state \<Rightarrow> int" where "sys_getuid = cur_field p_uid"
definition sys_geteuid :: "nat \<Rightarrow> bsd_state \<Rightarrow> int" where "sys_geteuid = cur_field p_euid"
definition sys_getgid :: "nat \<Rightarrow> bsd_state \<Rightarrow> int" where "sys_getgid = cur_field p_gid"
definition sys_getegid :: "nat \<Rightarrow> bsd_state \<Rightarrow> int" where "sys_getegid = cur_field p_egid"
definition sys_getppid :: "nat \<Rightarrow> bsd_state \<Rightarrow> int" where "sys_getppid = cur_field p_ppid"
definition sys_getpgrp :: "nat \<Rightarrow> bsd_state \<Rightarrow> int" where "sys_getpgrp = cur_field p_pgrp"

definition sys_umask :: "nat \<Rightarrow> u64 \<Rightarrow> bsd_state \<Rightarrow> int \<times> bsd_state" where
  "sys_umask my_cpu newmask s =
     (case cur_proc my_cpu s of
        None \<Rightarrow> (18, s)
      | Some p \<Rightarrow> (uint (p_umask (prc s p)), upd_proc p (\<lambda>q. q\<lparr>p_umask := ucast (newmask AND 0x1FF)\<rparr>) s))"

text \<open>The write of \<^verbatim>\<open>p_uid\<close>, with the copy that the Mach layer reads through \<^verbatim>\<open>task->ta_proc\<close>.\<close>
definition set_uid :: "nat \<Rightarrow> u32 \<Rightarrow> bsd_state \<Rightarrow> bsd_state" where
  "set_uid p u s = upd_proc p (\<lambda>q. q\<lparr>p_uid := u\<rparr>)
     (s\<lparr>b_ipc := (b_ipc s)\<lparr>ta_proc_uid := (\<lambda>t. if ta_proc s t = Some p then u else ta_proc_uid (b_ipc s) t)\<rparr>\<rparr>)"

definition sys_setuid :: "nat \<Rightarrow> u64 \<Rightarrow> bsd_state \<Rightarrow> int \<times> bsd_state" where
  "sys_setuid my_cpu uid s =
     (case cur_proc my_cpu s of
        None \<Rightarrow> (- 1, s)
      | Some p \<Rightarrow>
          let new_uid = ucast uid in
          if p_euid (prc s p) = 0 then (0, upd_proc p (\<lambda>q. q\<lparr>p_euid := new_uid, p_svuid := new_uid\<rparr>) (set_uid p new_uid s))
          else if new_uid = p_uid (prc s p) \<or> new_uid = p_svuid (prc s p) then (0, upd_proc p (\<lambda>q. q\<lparr>p_euid := new_uid\<rparr>) s)
          else (- 1, s))"

definition sys_seteuid :: "nat \<Rightarrow> u64 \<Rightarrow> bsd_state \<Rightarrow> int \<times> bsd_state" where
  "sys_seteuid my_cpu euid s =
     (case cur_proc my_cpu s of
        None \<Rightarrow> (- 1, s)
      | Some p \<Rightarrow>
          let new_euid = ucast euid in
          if p_euid (prc s p) = 0 \<or> new_euid = p_uid (prc s p) \<or> new_euid = p_svuid (prc s p)
          then (0, upd_proc p (\<lambda>q. q\<lparr>p_euid := new_euid\<rparr>) s) else (- 1, s))"

definition sys_setgid :: "nat \<Rightarrow> u64 \<Rightarrow> bsd_state \<Rightarrow> int \<times> bsd_state" where
  "sys_setgid my_cpu gid s =
     (case cur_proc my_cpu s of
        None \<Rightarrow> (- 1, s)
      | Some p \<Rightarrow>
          let new_gid = ucast gid in
          if p_euid (prc s p) = 0 then (0, upd_proc p (\<lambda>q. q\<lparr>p_gid := new_gid, p_egid := new_gid, p_svgid := new_gid\<rparr>) s)
          else if new_gid = p_gid (prc s p) \<or> new_gid = p_svgid (prc s p) then (0, upd_proc p (\<lambda>q. q\<lparr>p_egid := new_gid\<rparr>) s)
          else (- 1, s))"

definition sys_setegid :: "nat \<Rightarrow> u64 \<Rightarrow> bsd_state \<Rightarrow> int \<times> bsd_state" where
  "sys_setegid my_cpu egid s =
     (case cur_proc my_cpu s of
        None \<Rightarrow> (- 1, s)
      | Some p \<Rightarrow>
          let new_egid = ucast egid in
          if p_euid (prc s p) = 0 \<or> new_egid = p_gid (prc s p) \<or> new_egid = p_svgid (prc s p)
          then (0, upd_proc p (\<lambda>q. q\<lparr>p_egid := new_egid\<rparr>) s) else (- 1, s))"

section \<open>Groups and login name\<close>

text \<open>A transfer to user memory in the middle of a call.\<close>
definition copyout_s :: "u8 list \<Rightarrow> u64 \<Rightarrow> bsd_state \<Rightarrow> chimera_error \<times> bsd_state" where
  "copyout_s bs uaddr s = (let (err, pm) = copyout True bs uaddr (get_pm (b_ipc s)) in (err, s\<lparr>b_ipc := set_pm pm (b_ipc s)\<rparr>))"

definition copyin_s :: "u64 \<Rightarrow> nat \<Rightarrow> bsd_state \<Rightarrow> chimera_error \<times> u8 list" where
  "copyin_s uaddr n s = copyin uaddr True (word_of_nat n) (get_pm (b_ipc s))"

definition NGROUPS :: nat where "NGROUPS = 16"

definition groups_bytes :: "chimera_proc \<Rightarrow> u8 list" where
  "groups_bytes q = concat (map (\<lambda>i. le32 (p_groups q i)) [0..<NGROUPS])"

definition groups_of :: "u8 list \<Rightarrow> nat \<Rightarrow> u32" where
  "groups_of bs i = (if i < NGROUPS then ld32 bs (4 * i) else 0)"

definition sys_getgroups :: "nat \<Rightarrow> u64 \<Rightarrow> u64 \<Rightarrow> bsd_state \<Rightarrow> int \<times> bsd_state" where
  "sys_getgroups my_cpu sz list_ptr s =
     (case cur_proc my_cpu s of
        None \<Rightarrow> (- 1, s)
      | Some p \<Rightarrow>
          let n = p_ngroups (prc s p) in
          if sz = 0 then (uint n, s)
          else if list_ptr = 0 then (- 14, s)
          else let to_copy = (if n < ucast sz then n else ucast sz);
                   (err, s) = copyout_s (take (4 * unat to_copy) (groups_bytes (prc s p))) list_ptr s
               in (if err \<noteq> CHIMERA_SUCCESS then - 14 else uint to_copy, s))"

text \<open>The bytes go straight into \<^verbatim>\<open>p_groups\<close>: a failure in the middle leaves what has arrived.\<close>
definition sys_setgroups :: "nat \<Rightarrow> u64 \<Rightarrow> u64 \<Rightarrow> bsd_state \<Rightarrow> int \<times> bsd_state" where
  "sys_setgroups my_cpu sz list_ptr s =
     (case cur_proc my_cpu s of
        None \<Rightarrow> (- 1, s)
      | Some p \<Rightarrow>
          if sz > 16 then (- 22, s)
          else if sz > 0 \<and> list_ptr = 0 then (- 14, s)
          else let s = upd_proc p (\<lambda>q. q\<lparr>p_ngroups := ucast sz\<rparr>) s in
            if sz = 0 then (0, s)
            else let (err, bs) = copyin_s list_ptr (4 * unat sz) s;
                     s = upd_proc p (\<lambda>q. q\<lparr>p_groups := groups_of (bs @ drop (length bs) (groups_bytes q))\<rparr>) s
                 in (if err \<noteq> CHIMERA_SUCCESS then - 14 else 0, s))"

definition bytes_of_string :: "string \<Rightarrow> u8 list" where "bytes_of_string = map of_char"
definition string_of_bytes :: "u8 list \<Rightarrow> string" where "string_of_bytes bs = map (char_of \<circ> unat) (takeWhile (\<lambda>b. b \<noteq> 0) bs)"

definition sys_getlogin :: "nat \<Rightarrow> u64 \<Rightarrow> u64 \<Rightarrow> bsd_state \<Rightarrow> int \<times> bsd_state" where
  "sys_getlogin my_cpu name_ptr namelen s =
     (case cur_proc my_cpu s of
        None \<Rightarrow> (- 1, s)
      | Some p \<Rightarrow>
          if name_ptr = 0 \<or> namelen = 0 then (- 1, s)
          else let name = take (min 31 (unat (namelen - 1))) (p_login (prc s p));
                   (err, s) = copyout_s (bytes_of_string name @ [0]) name_ptr s
               in (if err \<noteq> CHIMERA_SUCCESS then - 1 else 0, s))"

text \<open>The last of the 32 bytes of the buffer is overwritten with the terminator.\<close>
definition sys_setlogin :: "nat \<Rightarrow> u64 \<Rightarrow> bsd_state \<Rightarrow> int \<times> bsd_state" where
  "sys_setlogin my_cpu name_ptr s =
     (case cur_proc my_cpu s of
        None \<Rightarrow> (- 1, s)
      | Some p \<Rightarrow>
          if name_ptr = 0 \<or> (p_uid (prc s p) \<noteq> 0 \<and> p_euid (prc s p) \<noteq> 0) then (- 1, s)
          else let (err, bs, _) = copyinstr name_ptr True 32 (get_pm (b_ipc s)) in
            if err \<noteq> CHIMERA_SUCCESS then (- 1, s)
            else (0, upd_proc p (\<lambda>q. q\<lparr>p_login := string_of_bytes (take 31 bs)\<rparr>) s))"

section \<open>Process groups and sessions\<close>

definition proc_find_by_pid :: "u32 \<Rightarrow> bsd_state \<Rightarrow> nat option" where
  "proc_find_by_pid pid s = List.find (\<lambda>i. p_signature (prc s i) = CHIMERA_PROC_MAGIC \<and> p_pid (prc s i) = pid) [0..<PROC_POOL_SIZE]"

definition proc_find_by_name :: "string option \<Rightarrow> bsd_state \<Rightarrow> nat option" where
  "proc_find_by_name name s =
     (case name of
        None \<Rightarrow> None
      | Some n \<Rightarrow> List.find (\<lambda>i. p_signature (prc s i) = CHIMERA_PROC_MAGIC \<and> p_comm (prc s i) = n) [0..<PROC_POOL_SIZE])"

definition proc_find_by_pgrp :: "u32 \<Rightarrow> bsd_state \<Rightarrow> nat option" where
  "proc_find_by_pgrp pgrp s = List.find (\<lambda>i. p_signature (prc s i) = CHIMERA_PROC_MAGIC \<and> p_pgrp (prc s i) = pgrp) [0..<PROC_POOL_SIZE]"

text \<open>The process that a call names: the caller itself, or a look-up.\<close>
definition pid_target :: "nat \<Rightarrow> u64 \<Rightarrow> bsd_state \<Rightarrow> nat option" where
  "pid_target p pid_u s =
     (if pid_u = 0 \<or> pid_u = ucast (p_pid (prc s p)) then Some p else proc_find_by_pid (ucast pid_u) s)"

definition sys_setpgid :: "nat \<Rightarrow> u64 \<Rightarrow> u64 \<Rightarrow> bsd_state \<Rightarrow> int \<times> bsd_state" where
  "sys_setpgid my_cpu pid_u pgrp_u s =
     (case cur_proc my_cpu s of
        None \<Rightarrow> (- 1, s)
      | Some p \<Rightarrow>
          (case pid_target p pid_u s of
             None \<Rightarrow> (- 3, s)
           | Some t \<Rightarrow> (0, upd_proc t (\<lambda>q. q\<lparr>p_pgrp := (if pgrp_u = 0 then p_pid q else ucast pgrp_u)\<rparr>) s)))"

definition pid_field :: "(chimera_proc \<Rightarrow> u32) \<Rightarrow> nat \<Rightarrow> u64 \<Rightarrow> bsd_state \<Rightarrow> int" where
  "pid_field f my_cpu pid_u s =
     (case cur_proc my_cpu s of
        None \<Rightarrow> - 1
      | Some p \<Rightarrow> (case pid_target p pid_u s of None \<Rightarrow> - 3 | Some t \<Rightarrow> uint (f (prc s t))))"

definition sys_getpgid :: "nat \<Rightarrow> u64 \<Rightarrow> bsd_state \<Rightarrow> int" where "sys_getpgid = pid_field p_pgrp"
definition sys_getsid :: "nat \<Rightarrow> u64 \<Rightarrow> bsd_state \<Rightarrow> int" where "sys_getsid = pid_field p_sid"

definition sys_setsid :: "nat \<Rightarrow> bsd_state \<Rightarrow> int \<times> bsd_state" where
  "sys_setsid my_cpu s =
     (case cur_proc my_cpu s of
        None \<Rightarrow> (- 1, s)
      | Some p \<Rightarrow> (uint (p_pid (prc s p)), upd_proc p (\<lambda>q. q\<lparr>p_sid := p_pid q, p_pgrp := p_pid q\<rparr>) s))"

end
