(* ===== verification/Cred_Props.thy ===== *)
theory Cred_Props
  imports Cred Bsd_Examples
begin

text \<open>Properties of identities: what a process without the identity of root can become.\<close>

section \<open>The identities of a process\<close>

definition ids :: "chimera_proc \<Rightarrow> u32 set" where
  "ids q = {p_uid q, p_euid q, p_svuid q}"

text \<open>The calls that set identities, groups and sessions, by any processor.\<close>
inductive cred_step :: "bsd_state \<Rightarrow> bsd_state \<Rightarrow> bool" where
  setuid: "sys_setuid c u s = (r, t) \<Longrightarrow> cred_step s t"
| seteuid: "sys_seteuid c u s = (r, t) \<Longrightarrow> cred_step s t"
| setgid: "sys_setgid c g s = (r, t) \<Longrightarrow> cred_step s t"
| setegid: "sys_setegid c g s = (r, t) \<Longrightarrow> cred_step s t"
| getgroups: "sys_getgroups c n a s = (r, t) \<Longrightarrow> cred_step s t"
| setgroups: "sys_setgroups c n a s = (r, t) \<Longrightarrow> cred_step s t"
| getlogin: "sys_getlogin c a n s = (r, t) \<Longrightarrow> cred_step s t"
| setlogin: "sys_setlogin c a s = (r, t) \<Longrightarrow> cred_step s t"
| setpgid: "sys_setpgid c pid g s = (r, t) \<Longrightarrow> cred_step s t"
| setsid: "sys_setsid c s = (r, t) \<Longrightarrow> cred_step s t"
| umask: "sys_umask c m s = (r, t) \<Longrightarrow> cred_step s t"

text \<open>A process either keeps its identities, or had the effective identity of root, or exchanges identities it has.\<close>
definition id_step :: "chimera_proc \<Rightarrow> chimera_proc \<Rightarrow> bool" where
  "id_step q q' \<longleftrightarrow> p_euid q = 0 \<or> ids q' \<subseteq> ids q"

lemma id_step_refl: "id_step q q"
  by (simp add: id_step_def)

lemma copyout_s_procs: "copyout_s bs a s = (e, t) \<Longrightarrow> b_procs t = b_procs s"
  by (auto simp: copyout_s_def split: prod.splits)

lemma set_uid_procs: "prc (set_uid p u s) q = (if q = p then (prc s p)\<lparr>p_uid := u\<rparr> else prc s q)"
  by (simp add: set_uid_def upd_proc_def)

lemmas cred_defs = sys_setuid_def sys_seteuid_def sys_setgid_def sys_setegid_def sys_getgroups_def sys_setgroups_def sys_getlogin_def
  sys_setlogin_def sys_setpgid_def sys_setsid_def sys_umask_def

lemma cred_step_ids: "cred_step s t \<Longrightarrow> id_step (prc s p) (prc t p)"
  by (erule cred_step.cases)
    (auto simp: cred_defs Let_def prc_upd_proc set_uid_procs id_step_def ids_def split: option.splits if_splits prod.splits
      dest!: copyout_s_procs)

lemma no_privilege_gain_ids:
  assumes "cred_step\<^sup>*\<^sup>* s t" and "0 \<notin> ids (prc s p)"
  shows "ids (prc t p) \<subseteq> ids (prc s p)"
  using assms
proof (induction rule: rtranclp_induct)
  case (step t u)
  have "ids (prc u p) \<subseteq> ids (prc t p)" using cred_step_ids [OF step.hyps(2), of p] step by (auto simp: id_step_def ids_def)
  then show ?case using step by blast
qed simp

text \<open>C39. A process cannot become root. In a process none of whose real, effective and saved user identities is 0, no sequence of
  the calls on identities, groups, login names and sessions - its own or those of other processes, with any arguments - brings
  in an identity that it did not have.\<close>
theorem no_privilege_gain:
  assumes "cred_step\<^sup>*\<^sup>* s t" and "0 \<notin> ids (prc s p)"
  shows "ids (prc t p) \<subseteq> ids (prc s p) \<and> 0 \<notin> ids (prc t p)"
  using no_privilege_gain_ids [OF assms] assms(2) by blast

text \<open>The process of \<^const>\<open>demo_bsd\<close> as an ordinary user who has a saved identity.\<close>
definition demo_cred :: bsd_state where
  "demo_cred = demo_bsd\<lparr>b_procs := (\<lambda>_. zero_proc\<lparr>p_uid := 501, p_euid := 501, p_svuid := 502\<rparr>)\<rparr>"

theorem no_privilege_gain_witness:
  "\<exists>t v. sys_seteuid 0 502 demo_cred = (0, t) \<and> sys_setuid 0 0 t = (- 1, v) \<and> ids (prc v 0) \<subseteq> {501, 502} \<and> 0 \<notin> ids (prc v 0)"
proof -
  have c: "cur_proc 0 (demo_cred\<lparr>b_procs := y\<rparr>) = Some 0" for y
  proof -
    have "cur_proc 0 (demo_cred\<lparr>b_procs := y\<rparr>) = cur_proc 0 demo_bsd" unfolding demo_cred_def by (rule cur_proc_cong) simp_all
    then show ?thesis by (simp add: demo_bsd_proc)
  qed
  have c0: "cur_proc 0 demo_cred = Some 0" using c [of "b_procs demo_cred"] by simp
  let ?t = "upd_proc 0 (\<lambda>q. q\<lparr>p_euid := 502\<rparr>) demo_cred"
  have 1: "sys_seteuid 0 502 demo_cred = (0, ?t)" using c0 by (simp add: sys_seteuid_def demo_cred_def)
  have 2: "sys_setuid 0 0 ?t = (- 1, ?t)"
    using c by (simp add: sys_setuid_def upd_proc_def) (simp add: demo_cred_def)
  have "cred_step\<^sup>*\<^sup>* demo_cred ?t" using cred_step.seteuid [OF 1] cred_step.setuid [OF 2] by (rule converse_rtranclp_into_rtranclp [OF _ r_into_rtranclp])
  moreover have "ids (prc demo_cred 0) = {501, 502}" by (auto simp: ids_def demo_cred_def)
  ultimately show ?thesis using no_privilege_gain [of demo_cred ?t 0] 1 2 by auto
qed

text \<open>C40. Dropping privileges is final. When a process with the effective identity 0 calls \<^verbatim>\<open>setuid\<close> with a user other than root,
  all its user identities are that user, and stay so whatever calls on identities follow: \<^verbatim>\<open>setuid(0)\<close> and \<^verbatim>\<open>seteuid(0)\<close>
  of the process fail in every later state, and the Mach layer stamps its messages with that user.\<close>
theorem setuid_drops_privileges:
  assumes "cur_proc c s = Some p" and "p_euid (prc s p) = 0" and "ucast u \<noteq> (0 :: u32)"
  shows "\<exists>t. sys_setuid c u s = (0, t) \<and> (\<forall>tk. ta_proc s tk = Some p \<longrightarrow> ta_proc_uid (b_ipc t) tk = ucast u)
    \<and> (\<forall>v. cred_step\<^sup>*\<^sup>* t v \<longrightarrow> ids (prc v p) = {ucast u}
         \<and> (\<forall>c'. cur_proc c' v = Some p \<longrightarrow> sys_setuid c' 0 v = (- 1, v) \<and> sys_seteuid c' 0 v = (- 1, v)))"
proof -
  let ?t = "upd_proc p (\<lambda>q. q\<lparr>p_euid := ucast u, p_svuid := ucast u\<rparr>) (set_uid p (ucast u) s)"
  have t: "sys_setuid c u s = (0, ?t)" using assms by (simp add: sys_setuid_def Let_def)
  have i: "ids (prc ?t p) = {ucast u}" by (simp add: ids_def prc_upd_proc set_uid_procs)
  have v: "ids (prc v p) = {ucast u}" if "cred_step\<^sup>*\<^sup>* ?t v" for v
  proof -
    have "0 \<notin> ids (prc ?t p)" unfolding i using assms(3) by simp
    then have "ids (prc v p) \<subseteq> {ucast u}" using no_privilege_gain_ids [OF that, of p] unfolding i by blast
    then show ?thesis by (auto simp: ids_def)
  qed
  have f: "sys_setuid c' 0 v = (- 1, v) \<and> sys_seteuid c' 0 v = (- 1, v)" if "cur_proc c' v = Some p" "ids (prc v p) = {ucast u}" for c' v
    using that assms(3) by (simp add: sys_setuid_def sys_seteuid_def ids_def Let_def doubleton_eq_iff)
  have m: "\<forall>tk. ta_proc s tk = Some p \<longrightarrow> ta_proc_uid (b_ipc ?t) tk = ucast u" by (simp add: upd_proc_def set_uid_def)
  show ?thesis by (intro exI [of _ ?t] conjI allI impI t v f m [rule_format])
qed

theorem setuid_drops_privileges_witness:
  "\<exists>t. sys_setuid 0 501 demo_bsd = (0, t) \<and> ids (prc t 0) = {501} \<and> ta_proc_uid (b_ipc t) 5 = 501"
proof -
  have "cur_proc 0 demo_bsd = Some 0" "p_euid (prc demo_bsd 0) = 0" "ta_proc demo_bsd 5 = Some 0" "ucast (501 :: u64) = (501 :: u32)"
    by (simp_all add: demo_bsd_proc) (simp_all add: demo_bsd_def zero_proc_def)
  then show ?thesis using setuid_drops_privileges [of 0 demo_bsd 0 "501"] by auto
qed

end
