(* ===== verification/Signal.thy ===== *)
theory Signal
  imports Cred
begin

text \<open>
  Signals: \<^verbatim>\<open>proc_signal\<close> and \<^verbatim>\<open>proc_deliver_signals\<close> of \<^verbatim>\<open>kernel/bsd/proc.c\<close> and the calls \<^verbatim>\<open>kill\<close>,
  \<^verbatim>\<open>sigaction\<close>, \<^verbatim>\<open>sigprocmask\<close>, \<^verbatim>\<open>sigpending\<close>, \<^verbatim>\<open>sigaltstack\<close> and \<^verbatim>\<open>sigreturn\<close> of \<^verbatim>\<open>kernel/bsd/syscall.c\<close>. A
  call that ends the process does not return: its result is \<open>SC_EXIT\<close> with the exit code and the state in which
  \<^verbatim>\<open>sys_exit_direct\<close> is entered.
\<close>

unbundle bit_operations_syntax

definition SIGCTX_MAGIC :: u64 where "SIGCTX_MAGIC = 0x5349474354585F31"
definition SIGKILL :: nat where "SIGKILL = 9"
definition SIGSTOP :: nat where "SIGSTOP = 19"
definition SIGCHLD :: nat where "SIGCHLD = 20"

definition sig_bit :: "nat \<Rightarrow> u32" where "sig_bit sig = push_bit sig 1"

section \<open>Sending\<close>

text \<open>Waking the first thread of the task of a process.\<close>
definition wake_first :: "nat \<Rightarrow> nat \<Rightarrow> bsd_state \<Rightarrow> bsd_state option" where
  "wake_first my_cpu p s =
     (case p_task (prc s p) of
        None \<Rightarrow> Some s
      | Some t \<Rightarrow>
          (case ta_threads s t of
             [] \<Rightarrow> Some s
           | th # _ \<Rightarrow> do {
               sc \<leftarrow> thread_wake my_cpu (Some th) (i_sched (b_ipc s));
               Some (s\<lparr>b_ipc := (b_ipc s)\<lparr>i_sched := sc\<rparr>\<rparr>)
             }))"

definition post_signal :: "nat \<Rightarrow> nat \<Rightarrow> bsd_state \<Rightarrow> bsd_state" where
  "post_signal p sig = upd_proc p (\<lambda>q. q\<lparr>p_sigpending := p_sigpending q OR sig_bit sig\<rparr>)"

definition proc_signal :: "nat \<Rightarrow> nat option \<Rightarrow> int \<Rightarrow> bsd_state \<Rightarrow> (chimera_error \<times> bsd_state) option" where
  "proc_signal my_cpu pr sig s =
     (case pr of
        None \<Rightarrow> Some (CHIMERA_ERR_INVALID, s)
      | Some p \<Rightarrow>
          if sig \<le> 0 \<or> sig \<ge> 32 then Some (CHIMERA_ERR_INVALID, s)
          else if sig = int SIGKILL then do {
            s \<leftarrow> wake_first my_cpu p (post_signal p (nat sig) s);
            Some (CHIMERA_SUCCESS, s)
          } else if p_sigacts (prc s p) (nat sig) = 1 then Some (CHIMERA_SUCCESS, s)
          else do {
            s \<leftarrow> wake_first my_cpu p (post_signal p (nat sig) s);
            Some (CHIMERA_SUCCESS, s)
          })"

definition sys_kill :: "nat \<Rightarrow> u64 \<Rightarrow> u64 \<Rightarrow> bsd_state \<Rightarrow> (int \<times> bsd_state) option" where
  "sys_kill my_cpu pid_u sig_u s =
     (let pid = ucast pid_u :: u32; sig = to_int sig_u in
      if sig \<le> 0 \<or> sig \<ge> 32 then Some (- 22, s)
      else case cur_proc my_cpu s of
        None \<Rightarrow> Some (- 1, s)
      | Some p \<Rightarrow>
          if pid = 0 then Some (- 1, s)
          else case proc_find_by_pid pid s of
            None \<Rightarrow> Some (- 3, s)
          | Some target \<Rightarrow>
              if pid = 1 \<and> (sig = 9 \<or> sig = 15 \<or> sig = 19) then Some (- 1, s)
              else if p_euid (prc s p) \<noteq> 0 \<and> p_euid (prc s p) \<noteq> p_euid (prc s target) \<and> p_uid (prc s p) \<noteq> p_uid (prc s target)
              then Some (- 1, s)
              else do { (_, s) \<leftarrow> proc_signal my_cpu (Some target) sig s; Some (0, s) })"

section \<open>Dispositions and masks\<close>

text \<open>\<^verbatim>\<open>struct chimera_sigaction_layout\<close>: handler, mask, flags. A failed transfer is ignored.\<close>
definition sys_sigaction :: "nat \<Rightarrow> u64 \<Rightarrow> u64 \<Rightarrow> u64 \<Rightarrow> bsd_state \<Rightarrow> int \<times> bsd_state" where
  "sys_sigaction my_cpu signum_u act_ptr oldact_ptr s =
     (let sig = to_int signum_u in
      if sig \<le> 0 \<or> sig \<ge> 32 \<or> sig = int SIGKILL \<or> sig = int SIGSTOP then (- 22, s)
      else case cur_proc my_cpu s of
        None \<Rightarrow> (- 1, s)
      | Some p \<Rightarrow>
          let n = nat sig; q = prc s p;
              s = (if oldact_ptr \<noteq> 0
                   then snd (copyout_s (le64 (p_sigacts q n) @ le32 (p_sigact_mask q n) @ le32 (p_sigact_flags q n)) oldact_ptr s) else s)
          in if act_ptr = 0 then (0, s)
             else let (err, bs) = copyin_s act_ptr 16 s in
               (0, if err = CHIMERA_SUCCESS
                   then upd_proc p (\<lambda>q. q\<lparr>p_sigacts := (p_sigacts q)(n := get64 (nth bs) 0), p_sigact_flags := (p_sigact_flags q)(n := get32 (nth bs) 12),
                          p_sigact_mask := (p_sigact_mask q)(n := get32 (nth bs) 8)\<rparr>) s
                   else s))"

definition unmaskable :: u32 where "unmaskable = sig_bit SIGKILL OR sig_bit SIGSTOP"

definition sys_sigprocmask :: "nat \<Rightarrow> u64 \<Rightarrow> u64 \<Rightarrow> u64 \<Rightarrow> bsd_state \<Rightarrow> int \<times> bsd_state" where
  "sys_sigprocmask my_cpu how_u set_ptr oldset_ptr s =
     (case cur_proc my_cpu s of
        None \<Rightarrow> (- 1, s)
      | Some p \<Rightarrow>
          let s = (if oldset_ptr \<noteq> 0 then snd (copyout_s (le32 (p_sigmask (prc s p))) oldset_ptr s) else s) in
          if set_ptr = 0 then (0, s)
          else let (err, bs) = copyin_s set_ptr 4 s in
            if err \<noteq> CHIMERA_SUCCESS then (0, s)
            else let st = get32 (nth bs) 0 AND NOT unmaskable; how = to_int how_u in
              (0, upd_proc p (\<lambda>q. q\<lparr>p_sigmask := (if how = 0 then p_sigmask q OR st else if how = 1 then p_sigmask q AND NOT st
                                       else if how = 2 then st else p_sigmask q)\<rparr>) s))"

definition sys_sigpending :: "nat \<Rightarrow> u64 \<Rightarrow> bsd_state \<Rightarrow> int \<times> bsd_state" where
  "sys_sigpending my_cpu set_ptr s =
     (if set_ptr = 0 then (- 14, s)
      else case cur_proc my_cpu s of
        None \<Rightarrow> (- 1, s)
      | Some p \<Rightarrow> let (err, s) = copyout_s (le32 (p_sigpending (prc s p))) set_ptr s in (if err = CHIMERA_SUCCESS then 0 else - 14, s))"

text \<open>\<^verbatim>\<open>chimera_stack_t\<close> has 24 bytes: the stack, its size, the flags and padding. Nothing is remembered.\<close>
definition sys_sigaltstack :: "u64 \<Rightarrow> u64 \<Rightarrow> bsd_state \<Rightarrow> int \<times> bsd_state" where
  "sys_sigaltstack ss_ptr oss_ptr s =
     (let (err, s) = (if oss_ptr \<noteq> 0 then copyout_s (le64 0 @ le64 0 @ le32 2 @ le32 0) oss_ptr s else (CHIMERA_SUCCESS, s)) in
      if err \<noteq> CHIMERA_SUCCESS then (- 14, s)
      else if ss_ptr = 0 then (0, s)
      else let (err, bs) = copyin_s ss_ptr 24 s in
        if err \<noteq> CHIMERA_SUCCESS then (- 14, s)
        else if get32 (nth bs) 16 AND 2 = 0 \<and> get64 (nth bs) 8 < 2048 then (- 22, s) else (0, s))"

section \<open>Delivery and return\<close>

datatype sc_result = SC_RETURN int bsd_state | SC_EXIT u64 bsd_state

text \<open>\<^verbatim>\<open>sigctx_t\<close>, 96 bytes.\<close>
definition frame_regs :: "syscall_user_frame \<Rightarrow> u64 list" where
  "frame_regs f = [f_r15 f, f_r14 f, f_r13 f, f_r12 f, f_rbx f, f_rbp f, f_rip f, f_rflags f, f_rsp f]"

definition sigctx_bytes :: "nat \<Rightarrow> u32 \<Rightarrow> u64 \<Rightarrow> syscall_user_frame \<Rightarrow> u8 list" where
  "sigctx_bytes sig old_mask rax f =
     le64 SIGCTX_MAGIC @ le32 (word_of_nat sig) @ le32 old_mask @ le64 rax @ concat (map le64 (frame_regs f))"

definition SIGCTX_SIZE :: nat where "SIGCTX_SIZE = 96"

definition default_ignored :: "nat \<Rightarrow> bool" where
  "default_ignored sig \<longleftrightarrow> sig = 20 \<or> sig = 28 \<or> sig = 16 \<or> sig = 29"

definition sig_slots_va :: "syscall_user_frame \<Rightarrow> u64" where
  "sig_slots_va f = (f_rsp f - 512) AND NOT 0xF"

text \<open>The delivery of one signal whose handler is installed: the frame on the user stack, the mask, the registers.\<close>
definition deliver_to_handler :: "nat \<Rightarrow> nat \<Rightarrow> nat \<Rightarrow> u64 \<Rightarrow> syscall_user_frame \<Rightarrow> u64 \<Rightarrow> bsd_state \<Rightarrow> sc_result" where
  "deliver_to_handler p th sig handler f syscall_ret s =
     (let slots_va = sig_slots_va f; ctx_va = slots_va + 32; old_mask = p_sigmask (prc s p);
          (err, s1) = copyout_s (le64 (word_of_nat sig) @ le64 handler @ le64 ctx_va) slots_va s;
          (err', s2) = (if err \<noteq> CHIMERA_SUCCESS then (err, s1) else copyout_s (sigctx_bytes sig old_mask syscall_ret f) ctx_va s1) in
      if err \<noteq> CHIMERA_SUCCESS \<or> err' \<noteq> CHIMERA_SUCCESS then SC_EXIT (128 + word_of_nat sig) s2
      else SC_RETURN (sint syscall_ret)
        (upd_proc p (\<lambda>q. q\<lparr>p_sigmask := old_mask OR sig_bit sig\<rparr>)
          (s2\<lparr>th_syscall_frame := (th_syscall_frame s2)(th := Some (f\<lparr>f_rip := SIGNAL_TRAMP_VA, f_rsp := slots_va\<rparr>))\<rparr>)))"

text \<open>\<^verbatim>\<open>proc_deliver_signals\<close> at the end of a system call of the thread \<open>th\<close> with the result \<open>syscall_ret\<close>; a null frame
  is \<open>None\<close> in \<open>th_syscall_frame\<close>.\<close>
definition proc_deliver_signals :: "nat \<Rightarrow> nat \<Rightarrow> u64 \<Rightarrow> bsd_state \<Rightarrow> sc_result" where
  "proc_deliver_signals my_cpu th syscall_ret s =
     (case (cur_proc my_cpu s, th_syscall_frame s th) of
        (Some p, Some f) \<Rightarrow>
          if p_pid (prc s p) = 0 then SC_RETURN (sint syscall_ret) s
          else (case List.find (\<lambda>sig. p_sigpending (prc s p) AND NOT (p_sigmask (prc s p)) AND sig_bit sig \<noteq> 0) [1..<32] of
              None \<Rightarrow> SC_RETURN (sint syscall_ret) s
            | Some sig \<Rightarrow>
                let s = upd_proc p (\<lambda>q. q\<lparr>p_sigpending := p_sigpending q AND NOT (sig_bit sig)\<rparr>) s;
                    handler = p_sigacts (prc s p) sig in
                if handler = 1 then SC_RETURN (sint syscall_ret) s
                else if handler = 0 then
                  (if default_ignored sig then SC_RETURN (sint syscall_ret) s else SC_EXIT (128 + word_of_nat sig) s)
                else deliver_to_handler p th sig handler f syscall_ret s)
      | _ \<Rightarrow> SC_RETURN (sint syscall_ret) s)"

text \<open>The registers in a context.\<close>
definition ctx_frame :: "u8 list \<Rightarrow> syscall_user_frame" where
  "ctx_frame bs = (let r = (\<lambda>i. get64 (nth bs) (24 + 8 * i)) in
     \<lparr>f_r15 = r 0, f_r14 = r 1, f_r13 = r 2, f_r12 = r 3, f_rbx = r 4, f_rbp = r 5, f_rip = r 6, f_rflags = r 7, f_rsp = r 8\<rparr>)"

definition sys_sigreturn :: "nat \<Rightarrow> u64 \<Rightarrow> bsd_state \<Rightarrow> sc_result" where
  "sys_sigreturn my_cpu ctx_ptr s =
     (case current_thread my_cpu (i_sched (b_ipc s)) of
        None \<Rightarrow> SC_RETURN (- 1) s
      | Some th \<Rightarrow>
          if th_syscall_frame s th = None \<or> ctx_ptr = 0 then SC_RETURN (- 1) s
          else let (err, bs) = copyin_s ctx_ptr SIGCTX_SIZE s; sig = sint (get32 (nth bs) 8) in
            if err \<noteq> CHIMERA_SUCCESS \<or> get64 (nth bs) 0 \<noteq> SIGCTX_MAGIC \<or> sig \<le> 0 \<or> sig \<ge> 32 then SC_EXIT 139 s
            else let s = s\<lparr>th_syscall_frame := (th_syscall_frame s)(th := Some (ctx_frame bs))\<rparr>;
                     s = (case cur_proc my_cpu s of
                            None \<Rightarrow> s
                          | Some p \<Rightarrow> upd_proc p (\<lambda>q. q\<lparr>p_sigmask := get32 (nth bs) 12\<rparr>) s)
                 in SC_RETURN (sint (get64 (nth bs) 16)) s)"

end
