(* ===== verification/Signal_Props.thy ===== *)
theory Signal_Props
  imports Signal Bsd_Examples Copy_Props
begin

text \<open>Properties of signals: the way to the handler and back, who may signal whom, and the signals that cannot be blocked.\<close>

unbundle bit_operations_syntax

section \<open>Contexts\<close>

lemma le_lengths [simp]: "length (le32 w) = 4" "length (le64 x) = 8"
  by (simp_all add: le32_def le64_def)

lemma bytes_of_word:
  fixes w :: "'a::len word"
  shows "fold (\<lambda>i v. v OR push_bit (8 * i) (ucast (ucast (drop_bit (8 * i) w) :: u8))) [0..<n] 0 = take_bit (8 * n) w"
proof (induction n)
  case (Suc n)
  have "take_bit (8 * n) w OR push_bit (8 * n) (ucast (ucast (drop_bit (8 * n) w) :: u8)) = take_bit (8 * Suc n) w"
    by (rule bit_word_eqI) (auto simp: bit_simps)
  then show ?case using Suc by simp
qed simp

lemma get_append:
  "length xs = off \<Longrightarrow> get64 (nth (xs @ le64 w @ ys)) off = w" "length xs = off \<Longrightarrow> get32 (nth (xs @ le32 v @ ys)) off = v"
proof -
  assume l: "length xs = off"
  have b: "(xs @ le64 w @ ys) ! (off + i) = ucast (drop_bit (8 * i) w)" if "i < 8" for i
    using that l by (simp add: nth_append le64_def)
  have "get64 (nth (xs @ le64 w @ ys)) off = fold (\<lambda>i v. v OR push_bit (8 * i) (ucast (ucast (drop_bit (8 * i) w) :: u8))) [0..<8] 0"
    unfolding get64_def by (rule fold_cong) (use b in auto)
  then show "get64 (nth (xs @ le64 w @ ys)) off = w" unfolding bytes_of_word by (simp add: take_bit_word_eq_self)
  have b: "(xs @ le32 v @ ys) ! (off + i) = ucast (drop_bit (8 * i) v)" if "i < 4" for i
    using that l by (simp add: nth_append le32_def)
  have "get32 (nth (xs @ le32 v @ ys)) off = fold (\<lambda>i w. w OR push_bit (8 * i) (ucast (ucast (drop_bit (8 * i) v) :: u8))) [0..<4] 0"
    unfolding get32_def by (rule fold_cong) (use b in auto)
  then show "get32 (nth (xs @ le32 v @ ys)) off = v" unfolding bytes_of_word by (simp add: take_bit_word_eq_self)
qed

lemma concat_map_split: "i < length xs \<Longrightarrow> concat (map g xs) = concat (map g (take i xs)) @ g (xs ! i) @ concat (map g (drop (Suc i) xs))"
  by (induction xs arbitrary: i) (auto simp: less_Suc_eq_0_disj)

text \<open>What is stored in a context is what is read from it.\<close>
lemma sigctx_fields:
  "get64 (nth (sigctx_bytes sig m r f)) 0 = SIGCTX_MAGIC" "get32 (nth (sigctx_bytes sig m r f)) 8 = word_of_nat sig"
  "get32 (nth (sigctx_bytes sig m r f)) 12 = m" "get64 (nth (sigctx_bytes sig m r f)) 16 = r" "ctx_frame (sigctx_bytes sig m r f) = f"
proof -
  let ?a = "le64 SIGCTX_MAGIC" and ?b = "le32 (word_of_nat sig)" and ?c = "le32 m" and ?d = "le64 r" and ?e = "concat (map le64 (frame_regs f))"
  show "get64 (nth (sigctx_bytes sig m r f)) 0 = SIGCTX_MAGIC"
    using get_append(1) [of "[]" 0 SIGCTX_MAGIC "?b @ ?c @ ?d @ ?e"] by (simp add: sigctx_bytes_def)
  show "get32 (nth (sigctx_bytes sig m r f)) 8 = word_of_nat sig"
    using get_append(2) [of ?a 8 "word_of_nat sig" "?c @ ?d @ ?e"] by (simp add: sigctx_bytes_def)
  show "get32 (nth (sigctx_bytes sig m r f)) 12 = m"
    using get_append(2) [of "?a @ ?b" 12 m "?d @ ?e"] by (simp add: sigctx_bytes_def)
  show "get64 (nth (sigctx_bytes sig m r f)) 16 = r"
    using get_append(1) [of "?a @ ?b @ ?c" 16 r ?e] by (simp add: sigctx_bytes_def)
  have reg: "get64 (nth (sigctx_bytes sig m r f)) (24 + 8 * i) = frame_regs f ! i" if "i < 9" for i
  proof -
    have l: "length (frame_regs f) = 9" by (simp add: frame_regs_def)
    have e: "?e = concat (map le64 (take i (frame_regs f))) @ le64 (frame_regs f ! i) @ concat (map le64 (drop (Suc i) (frame_regs f)))"
      using concat_map_split [of i "frame_regs f" le64] that l by simp
    have "length (concat (map le64 (take i (frame_regs f)))) = 8 * i"
      using that l by (simp add: length_concat sum_list_triv comp_def)
    then show ?thesis
      using get_append(1) [of "?a @ ?b @ ?c @ ?d @ concat (map le64 (take i (frame_regs f)))" "24 + 8 * i" "frame_regs f ! i"
          "concat (map le64 (drop (Suc i) (frame_regs f)))"]
      unfolding sigctx_bytes_def e by simp
  qed
  show "ctx_frame (sigctx_bytes sig m r f) = f"
    using reg [of 0] reg [of 1] reg [of 2] reg [of 3] reg [of 4] reg [of 5] reg [of 6] reg [of 7] reg [of 8]
    by (simp add: ctx_frame_def frame_regs_def)
qed

section \<open>The way to the handler and back\<close>

lemma copyout_s_frame:
  assumes "copyout_s bs a s = (err, t)"
  shows "b_procs t = b_procs s" "th_syscall_frame t = th_syscall_frame s" "cur_proc c t = cur_proc c s"
    "current_thread c (i_sched (b_ipc t)) = current_thread c (i_sched (b_ipc s))"
proof -
  obtain pm where t: "t = s\<lparr>b_ipc := set_pm pm (b_ipc s)\<rparr>" using assms by (auto simp: copyout_s_def Let_def split: prod.splits)
  then show "b_procs t = b_procs s" "th_syscall_frame t = th_syscall_frame s"
    "current_thread c (i_sched (b_ipc t)) = current_thread c (i_sched (b_ipc s))"
    by (simp_all add: current_thread_def set_pm_def)
  show "cur_proc c t = cur_proc c s"
    by (simp add: t cur_proc_def current_task_def current_thread_def set_pm_def split: option.split)
qed

lemma deliver_to_handler_cases:
  obtains t where "deliver_to_handler p th sig h f r s = SC_EXIT (128 + word_of_nat sig) t" and "b_procs t = b_procs s"
    | t where "deliver_to_handler p th sig h f r s = SC_RETURN (sint r) t"
      and "p_sigmask (prc t p) = p_sigmask (prc s p) OR sig_bit sig" and "p_sigpending (prc t p) = p_sigpending (prc s p)"
      and "p_sigacts (prc t p) = p_sigacts (prc s p)" and "\<And>q. q \<noteq> p \<Longrightarrow> prc t q = prc s q"
      and "th_syscall_frame t th = Some (f\<lparr>f_rip := SIGNAL_TRAMP_VA, f_rsp := sig_slots_va f\<rparr>)" and "cur_proc c t = cur_proc c s"
proof -
  obtain e s1 where s1: "copyout_s (le64 (word_of_nat sig) @ le64 h @ le64 (sig_slots_va f + 32)) (sig_slots_va f) s = (e, s1)" by fastforce
  obtain e' s2 where s2: "(if e \<noteq> CHIMERA_SUCCESS then (e, s1) else copyout_s (sigctx_bytes sig (p_sigmask (prc s p)) r f) (sig_slots_va f + 32) s1) = (e', s2)"
    by fastforce
  note f1 = copyout_s_frame [OF s1]
  have f2: "b_procs s2 = b_procs s1" "cur_proc c s2 = cur_proc c s1"
    using s2 copyout_s_frame [of "sigctx_bytes sig (p_sigmask (prc s p)) r f" "sig_slots_va f + 32" s1 e' s2] by (auto split: if_splits)
  have d: "deliver_to_handler p th sig h f r s =
      (if e \<noteq> CHIMERA_SUCCESS \<or> e' \<noteq> CHIMERA_SUCCESS then SC_EXIT (128 + word_of_nat sig) s2
       else SC_RETURN (sint r) (upd_proc p (\<lambda>q. q\<lparr>p_sigmask := p_sigmask (prc s p) OR sig_bit sig\<rparr>)
          (s2\<lparr>th_syscall_frame := (th_syscall_frame s2)(th := Some (f\<lparr>f_rip := SIGNAL_TRAMP_VA, f_rsp := sig_slots_va f\<rparr>))\<rparr>)))"
    using s1 s2 by (simp add: deliver_to_handler_def Let_def)
  show ?thesis
  proof (cases "e \<noteq> CHIMERA_SUCCESS \<or> e' \<noteq> CHIMERA_SUCCESS")
    case True
    then show ?thesis using that(1) d f1 f2 by simp
  next
    case False
    have c: "cur_proc c (x\<lparr>th_syscall_frame := y\<rparr>) = cur_proc c x" for x y by (rule cur_proc_cong) simp_all
    show ?thesis
      by (rule that(2) [OF d [unfolded if_not_P [OF False]]])
        (use f1 f2 c in \<open>auto simp: prc_upd_proc\<close>, simp add: upd_proc_def)
  qed
qed

text \<open>The signal that is delivered next.\<close>
definition next_signal :: "chimera_proc \<Rightarrow> nat option" where
  "next_signal q = List.find (\<lambda>sig. p_sigpending q AND NOT (p_sigmask q) AND sig_bit sig \<noteq> 0) [1..<32]"

lemma deliver_eq:
  assumes "cur_proc c s = Some p" and "th_syscall_frame s th = Some f" and "p_pid (prc s p) \<noteq> 0"
  shows "proc_deliver_signals c th r s = (case next_signal (prc s p) of
      None \<Rightarrow> SC_RETURN (sint r) s
    | Some sig \<Rightarrow>
        let s' = upd_proc p (\<lambda>q. q\<lparr>p_sigpending := p_sigpending q AND NOT (sig_bit sig)\<rparr>) s; h = p_sigacts (prc s p) sig in
        if h = 1 then SC_RETURN (sint r) s'
        else if h = 0 then (if default_ignored sig then SC_RETURN (sint r) s' else SC_EXIT (128 + word_of_nat sig) s')
        else deliver_to_handler p th sig h f r s')"
  using assms by (simp add: proc_deliver_signals_def next_signal_def prc_upd_proc Let_def split: option.split)

lemma next_signal_range: "next_signal q = Some sig \<Longrightarrow> 0 < sig \<and> sig < 32"
  using find_upt_some(1,2) [of _ 1 32 sig] unfolding next_signal_def by (metis less_eq_Suc_le One_nat_def)

lemma sigreturn_restores:
  assumes ctx: "copyin_s a SIGCTX_SIZE u = (CHIMERA_SUCCESS, sigctx_bytes sig m r f)" and sig: "0 < sig" "sig < 32"
    and u: "current_thread c (i_sched (b_ipc u)) = Some th" "th_syscall_frame u th \<noteq> None" "cur_proc c u = Some p" and a: "a \<noteq> 0"
  shows "\<exists>w. sys_sigreturn c a u = SC_RETURN (sint r) w \<and> th_syscall_frame w th = Some f \<and> p_sigmask (prc w p) = m
    \<and> p_sigpending (prc w p) = p_sigpending (prc u p) \<and> p_pid (prc w p) = p_pid (prc u p) \<and> cur_proc c w = Some p"
proof -
  have i: "sint (word_of_nat sig :: u32) = int sig"
    using sig by (simp add: signed_of_nat signed_take_bit_int_eq_self)
  have c: "cur_proc c (u\<lparr>th_syscall_frame := y\<rparr>) = Some p" for y
  proof -
    have "cur_proc c (u\<lparr>th_syscall_frame := y\<rparr>) = cur_proc c u" by (rule cur_proc_cong) simp_all
    then show ?thesis using u(3) by simp
  qed
  show ?thesis
    using u(1,2) a ctx sig i c by (simp add: sys_sigreturn_def Let_def sigctx_fields prc_upd_proc) (simp add: upd_proc_def)
qed


section \<open>Transfers within a page\<close>

lemma pbyte_set_pbyte: "pbyte b (set_pbyte a v s) = (if b = a then v else pbyte b s)"
proof (cases "b - b mod 8 = a - a mod 8")
  case same: True
  have "b = a \<longleftrightarrow> b mod 8 = a mod 8" using same by (metis le_add_diff_inverse2 mod_less_eq_dividend)
  moreover have "ucast (drop_bit (8 * i) ((w AND NOT (push_bit (8 * j) 0xFF)) OR push_bit (8 * j) (ucast v)))
      = (if i = j then v else ucast (drop_bit (8 * i) w))" if "i < 8" "j < 8" for i j and w :: u64
  proof (rule bit_word_eqI)
    fix n
    assume n: "n < LENGTH(8)"
    have b: "bit (0xFF :: int) k \<longleftrightarrow> k < 8" for k
    proof -
      have "(0xFF :: int) = mask 8" by (simp add: mask_eq_exp_minus_1)
      then have "bit (0xFF :: int) k = bit (mask 8 :: int) k" by (rule arg_cong)
      then show ?thesis unfolding bit_mask_iff by auto
    qed
    show "bit (ucast (drop_bit (8 * i) ((w AND NOT (push_bit (8 * j) 0xFF)) OR push_bit (8 * j) (ucast v))) :: u8) n
        = bit (if i = j then v else ucast (drop_bit (8 * i) w)) n"
      using n that by (cases i j rule: linorder_cases) (auto simp: bit_simps b dest: bit_imp_le_length)
  qed
  ultimately show ?thesis using same by (simp add: pbyte_def set_pbyte_def Let_def rd_wr)
next
  case False
  then have "b \<noteq> a" by auto
  with False show ?thesis by (simp add: pbyte_def set_pbyte_def Let_def rd_wr)
qed

lemma pbyte_set_pbytes:
  "pbyte b (set_pbytes a bs s) = (if a \<le> b \<and> b < a + length bs then bs ! (b - a) else pbyte b s)"
  by (induction bs arbitrary: a s) (auto simp: pbyte_set_pbyte nth_Cons' Suc_le_eq)

lemma copyout_page:
  assumes "pmap_get_pte_ptr (get_active_pml4 s) a s = Some pa" and "has (rd pa s) PAGE_PRESENT" "has (rd pa s) PAGE_WRITE"
    and "unat (a AND 0xFFF) + length bs \<le> 4096" and "bs \<noteq> []" and "a \<noteq> 0" and "\<not> bad_range a (word_of_nat (length bs))"
  shows "copyout True bs a s = (CHIMERA_SUCCESS, set_pbytes (unat (rd pa s AND PTE_PHYS_MASK) + unat (a AND 0xFFF)) bs s)"
proof -
  have "copyout_frame (get_active_pml4 s) a s = (Some (rd pa s AND PTE_PHYS_MASK), s)" using assms by (simp add: copyout_frame_def)
  moreover have "chunk_len a (length bs) = length bs" using assms(4) by (auto simp: chunk_len_def Let_def)
  ultimately show ?thesis using assms(5,6,7) by (simp add: copyout_def copyout_loop.simps)
qed

lemma copyin_page:
  assumes "pmap_extract (get_active_pml4 s) a s = phys" and "phys \<noteq> 0"
    and "unat (a AND 0xFFF) + n \<le> 4096" and "0 < n" and "a \<noteq> 0" and "\<not> bad_range a (word_of_nat n)"
  shows "copyin a True (word_of_nat n) s
    = (CHIMERA_SUCCESS, map (\<lambda>i. pbyte (unat (phys AND NOT 0xFFF) + unat (a AND 0xFFF) + i) s) [0..<n])"
proof -
  have n: "unat (word_of_nat n :: u64) = n" using assms(3) by (simp add: unsigned_of_nat take_bit_nat_eq_self)
  then have "(word_of_nat n :: u64) \<noteq> 0" using assms(4) by (metis less_not_refl unsigned_0)
  moreover have "chunk_len a n = n" using assms(3) by (auto simp: chunk_len_def Let_def)
  ultimately show ?thesis using assms n by (simp add: copyin_def copyin_loop.simps)
qed

section \<open>An example\<close>

text \<open>The process of \<^const>\<open>demo_bsd\<close> with a writable page at 0x400000 and its stack pointer there, and the pending signal 2
  with a handler.\<close>
definition demo_sig_pm :: pmap_state where
  "demo_sig_pm = wr 0x4000 0x5007 (demo_cow\<lparr>cpu_cr3 := 0x1000\<rparr>)"

definition demo_frame :: syscall_user_frame where
  "demo_frame = \<lparr>f_r15 = 15, f_r14 = 14, f_r13 = 13, f_r12 = 12, f_rbx = 3, f_rbp = 0x400F00, f_rip = 0x401000, f_rflags = 0x202, f_rsp = 0x400800\<rparr>"

definition demo_sig :: bsd_state where
  "demo_sig = demo_bsd\<lparr>b_ipc := set_pm demo_sig_pm demo_bsd_ipc, th_syscall_frame := (\<lambda>_. Some demo_frame),
     b_procs := (\<lambda>_. zero_proc\<lparr>p_pid := 2, p_sigpending := 4, p_sigmask := 8, p_sigacts := (\<lambda>_. 0x402000)\<rparr>)\<rparr>"

lemma demo_sig_rd: "rd a demo_sig_pm = (if a = 0x4000 then 0x5007 else demo_entry a)" "get_active_pml4 demo_sig_pm = 0x1000"
proof -
  show "rd a demo_sig_pm = (if a = 0x4000 then 0x5007 else demo_entry a)"
    by (simp add: demo_sig_pm_def rd_wr) (simp add: rd_def demo_cow_def)
  show "get_active_pml4 demo_sig_pm = 0x1000" by (simp add: demo_sig_pm_def get_active_pml4_def wr_def)
qed

text \<open>The translations after stores to the page.\<close>
lemma demo_sig_page:
  assumes "\<And>a. \<not> (0x5000 \<le> a \<and> a < 0x6000) \<Longrightarrow> rd a pm = rd a demo_sig_pm"
  shows "pmap_get_pte_ptr 0x1000 0x400600 pm = Some 0x4000" "pmap_get_pte_ptr 0x1000 0x400620 pm = Some 0x4000" "rd 0x4000 pm = 0x5007"
    "pmap_extract 0x1000 0x400620 pm = 0x5620"
proof -
  have r: "rd 0x1000 pm = 0x2007" "rd 0x2000 pm = 0x3007" "rd 0x3010 pm = 0x4007" and e: "rd 0x4000 pm = 0x5007"
    by (simp_all add: assms demo_sig_rd demo_entry_def)
  show "rd 0x4000 pm = 0x5007" by (rule e)
  show "pmap_get_pte_ptr 0x1000 0x400600 pm = Some 0x4000" "pmap_get_pte_ptr 0x1000 0x400620 pm = Some 0x4000"
    by (simp_all add: pmap_get_pte_ptr_def r idx_nat slot_eq frame_eq has_def flag_defs Let_def)
  show "pmap_extract 0x1000 0x400620 pm = 0x5620"
    by (simp add: pmap_extract_def r e idx_nat slot_eq frame_eq has_def flag_defs USER_TOP_def PTE_PHYS_MASK_def Let_def)
qed

lemma demo_copyout:
  assumes pm: "get_active_pml4 (get_pm (b_ipc s)) = 0x1000"
    "\<And>a. \<not> (0x5000 \<le> a \<and> a < 0x6000) \<Longrightarrow> rd a (get_pm (b_ipc s)) = rd a demo_sig_pm"
    and a: "a \<in> {0x400600, 0x400620}" and bs: "bs \<noteq> []" "length bs \<le> 96"
  obtains t where "copyout_s bs a s = (CHIMERA_SUCCESS, t)"
    and "get_pm (b_ipc t) = set_pbytes (0x5000 + unat (a AND 0xFFF)) bs (get_pm (b_ipc s))"
    and "get_active_pml4 (get_pm (b_ipc t)) = 0x1000"
    and "\<And>x. \<not> (0x5000 \<le> x \<and> x < 0x6000) \<Longrightarrow> rd x (get_pm (b_ipc t)) = rd x demo_sig_pm"
proof -
  let ?pm = "get_pm (b_ipc s)" and ?q = "set_pbytes (0x5000 + unat (a AND 0xFFF)) bs (get_pm (b_ipc s))"
  note tr = demo_sig_page [OF pm(2)]
  have off: "unat (a AND 0xFFF) + length bs \<le> 4096" using a bs by auto
  have l: "unat (word_of_nat (length bs) :: u64) = length bs" using bs(2) by (simp add: unsigned_of_nat take_bit_nat_eq_self)
  have "\<not> bad_range a (word_of_nat (length bs))"
    using a bs l by (auto simp: bad_range_def USER_SPACE_MIN_def USER_SPACE_MAX_def word_less_nat_alt unat_sub_if')
  then have c: "copyout True bs a ?pm = (CHIMERA_SUCCESS, ?q)"
    using copyout_page [of ?pm a "0x4000" bs] a tr off bs pm(1) by (auto simp: has_def flag_defs PTE_PHYS_MASK_def)
  have act: "get_active_pml4 (set_pbytes x ys q) = get_active_pml4 q" for x ys q
    by (induction ys arbitrary: x q) (simp_all add: set_pbyte_def Let_def get_active_pml4_def wr_def)
  have r: "rd x ?q = rd x demo_sig_pm" if "\<not> (0x5000 \<le> x \<and> x < 0x6000)" for x
    using rd_set_pbytes [of "0x5000" "unat (a AND 0xFFF)" bs x] off that pm(2) by simp
  show ?thesis
    by (rule that [of "s\<lparr>b_ipc := set_pm ?q (b_ipc s)\<rparr>"]) (use c act pm(1) r in \<open>simp_all add: copyout_s_def get_pm_def set_pm_def\<close>)
qed

lemma sigctx_length: "length (sigctx_bytes sig m r f) = SIGCTX_SIZE"
  by (simp add: sigctx_bytes_def frame_regs_def SIGCTX_SIZE_def)

lemma demo_sig_facts: "cur_proc c demo_sig = Some 0" "p_pid (prc demo_sig p) = 2" "th_syscall_frame demo_sig th = Some demo_frame"
  "next_signal (prc demo_sig p) = Some 2" "p_sigacts (prc demo_sig p) sig = 0x402000" "p_sigmask (prc demo_sig p) = 8"
  "p_sigpending (prc demo_sig p) = 4" "sig_slots_va demo_frame = 0x400600" "get_pm (b_ipc demo_sig) = demo_sig_pm"
  "current_thread c (i_sched (b_ipc demo_sig)) = Some 0"
proof -
  show "cur_proc c demo_sig = Some 0"
    by (simp add: cur_proc_def current_task_def demo_sig_def demo_bsd_def demo_bsd_ipc_def demo_ipc0_def current_thread_def curr_def demo_thread_def set_pm_def)
  show "current_thread c (i_sched (b_ipc demo_sig)) = Some 0"
    by (simp add: demo_sig_def demo_bsd_ipc_def demo_ipc0_def current_thread_def curr_def set_pm_def)
  show "next_signal (prc demo_sig p) = Some 2"
    by (simp add: next_signal_def demo_sig_def sig_bit_def upt_conv_Cons)
qed (simp_all add: demo_sig_def sig_slots_va_def demo_frame_def get_pm_def set_pm_def)

text \<open>A context stored in the page is read back.\<close>
lemma demo_copyin_ctx:
  assumes "get_pm (b_ipc w) = set_pbytes 0x5620 (sigctx_bytes sig m r f) pm" and "get_active_pml4 (get_pm (b_ipc w)) = 0x1000"
    and "\<And>x. \<not> (0x5000 \<le> x \<and> x < 0x6000) \<Longrightarrow> rd x (get_pm (b_ipc w)) = rd x demo_sig_pm"
  shows "copyin_s 0x400620 SIGCTX_SIZE w = (CHIMERA_SUCCESS, sigctx_bytes sig m r f)"
proof -
  let ?c = "sigctx_bytes sig m r f"
  have "copyin 0x400620 True (word_of_nat SIGCTX_SIZE) (get_pm (b_ipc w)) = (CHIMERA_SUCCESS, map (nth ?c) [0..<SIGCTX_SIZE])"
    using copyin_page [of "get_pm (b_ipc w)" "0x400620" "0x5620" SIGCTX_SIZE] assms(2) demo_sig_page(4) [OF assms(3)]
    by (simp add: SIGCTX_SIZE_def bad_range_def USER_SPACE_MIN_def USER_SPACE_MAX_def assms(1) pbyte_set_pbytes sigctx_length)
  then show ?thesis using map_nth [of ?c] by (simp add: copyin_s_def sigctx_length)
qed

lemma demo_sig_deliver:
  obtains t where "proc_deliver_signals 0 0 7 demo_sig = SC_RETURN 7 t"
    and "copyin_s 0x400620 SIGCTX_SIZE t = (CHIMERA_SUCCESS, sigctx_bytes 2 8 7 demo_frame)"
    and "cur_proc 0 t = Some 0" and "current_thread 0 (i_sched (b_ipc t)) = Some 0" and "th_syscall_frame t 0 \<noteq> None"
proof -
  let ?u = "upd_proc 0 (\<lambda>q. q\<lparr>p_sigpending := p_sigpending q AND NOT (sig_bit 2)\<rparr>) demo_sig"
  let ?a = "le64 (word_of_nat 2) @ le64 0x402000 @ le64 0x400620" and ?c = "sigctx_bytes 2 8 7 demo_frame"
  have b: "b_ipc ?u = b_ipc demo_sig" by (simp add: upd_proc_def)
  obtain v where v: "copyout_s ?a 0x400600 ?u = (CHIMERA_SUCCESS, v)" "get_active_pml4 (get_pm (b_ipc v)) = 0x1000"
    "\<And>x. \<not> (0x5000 \<le> x \<and> x < 0x6000) \<Longrightarrow> rd x (get_pm (b_ipc v)) = rd x demo_sig_pm"
  proof (rule demo_copyout [of ?u "0x400600" ?a])
    show "?a \<noteq> []" by (simp add: le64_def upt_conv_Cons)
  qed (simp_all add: b demo_sig_facts demo_sig_rd)
  obtain w where w: "copyout_s ?c 0x400620 v = (CHIMERA_SUCCESS, w)" "get_active_pml4 (get_pm (b_ipc w)) = 0x1000"
    "get_pm (b_ipc w) = set_pbytes 0x5620 ?c (get_pm (b_ipc v))"
    "\<And>x. \<not> (0x5000 \<le> x \<and> x < 0x6000) \<Longrightarrow> rd x (get_pm (b_ipc w)) = rd x demo_sig_pm"
  proof (rule demo_copyout [OF v(2,3), of "0x400620" ?c])
    show "?c \<noteq> []" using sigctx_length [of 2 8 7 demo_frame] by (auto simp: SIGCTX_SIZE_def)
  qed (simp_all add: sigctx_length SIGCTX_SIZE_def)
  let ?t = "upd_proc 0 (\<lambda>q. q\<lparr>p_sigmask := 8 OR sig_bit 2\<rparr>)
     (w\<lparr>th_syscall_frame := (th_syscall_frame w)(0 := Some (demo_frame\<lparr>f_rip := SIGNAL_TRAMP_VA, f_rsp := 0x400600\<rparr>))\<rparr>)"
  show ?thesis
  proof (rule that [of ?t])
    show "proc_deliver_signals 0 0 7 demo_sig = SC_RETURN 7 ?t"
      using v(1) w(1) deliver_eq [of 0 demo_sig 0 0 demo_frame 7]
      by (simp add: demo_sig_facts deliver_to_handler_def prc_upd_proc)
    show "copyin_s 0x400620 SIGCTX_SIZE ?t = (CHIMERA_SUCCESS, ?c)"
      using demo_copyin_ctx [OF w(3,2,4)] by (simp add: copyin_s_def upd_proc_def)
    have c: "cur_proc 0 (x\<lparr>th_syscall_frame := y\<rparr>) = cur_proc 0 x" for x y by (rule cur_proc_cong) simp_all
    show "cur_proc 0 ?t = Some 0"
      using copyout_s_frame(3) [OF v(1)] copyout_s_frame(3) [OF w(1)] by (simp add: c demo_sig_facts)
  qed (use copyout_s_frame [OF v(1)] copyout_s_frame [OF w(1)] in \<open>simp_all add: upd_proc_def demo_sig_facts\<close>)
qed


section \<open>The signals that cannot be blocked\<close>

definition killable :: "chimera_proc \<Rightarrow> bool" where
  "killable q \<longleftrightarrow> (\<forall>n \<in> {SIGKILL, SIGSTOP}. \<not> bit (p_sigmask q) n \<and> p_sigacts q n = 0)"

text \<open>The calls on signals, by any processor, and the delivery at the end of a call. A context that is restored may come from
  anywhere but does not block the two signals.\<close>
inductive sig_step :: "bsd_state \<Rightarrow> bsd_state \<Rightarrow> bool" where
  kill: "sys_kill c pid sig s = Some (r, t) \<Longrightarrow> sig_step s t"
| sigaction: "sys_sigaction c sig act oldact s = (r, t) \<Longrightarrow> sig_step s t"
| sigprocmask: "sys_sigprocmask c how st oldset s = (r, t) \<Longrightarrow> sig_step s t"
| sigpending: "sys_sigpending c st s = (r, t) \<Longrightarrow> sig_step s t"
| sigaltstack: "sys_sigaltstack ss oss s = (r, t) \<Longrightarrow> sig_step s t"
| deliver: "proc_deliver_signals c th r s = SC_RETURN x t \<Longrightarrow> sig_step s t"
| sigreturn: "sys_sigreturn c a s = SC_RETURN x t \<Longrightarrow> get32 (nth (snd (copyin_s a SIGCTX_SIZE s))) 12 AND unmaskable = 0 \<Longrightarrow> sig_step s t"

lemma bit_sig: "bit (sig_bit n) k \<longleftrightarrow> k = n \<and> n < 32"
  by (auto simp: sig_bit_def bit_simps)

lemma bit_unmaskable: "bit unmaskable k \<longleftrightarrow> k \<in> {SIGKILL, SIGSTOP}"
  by (auto simp: unmaskable_def bit_simps bit_sig SIGKILL_def SIGSTOP_def)

text \<open>What a call leaves alone.\<close>
definition sig_same :: "bsd_state \<Rightarrow> bsd_state \<Rightarrow> bool" where
  "sig_same s t \<longleftrightarrow> (\<forall>p. p_sigmask (prc t p) = p_sigmask (prc s p) \<and> p_sigacts (prc t p) = p_sigacts (prc s p))"

lemma sig_same_killable: "sig_same s t \<Longrightarrow> killable (prc t p) \<longleftrightarrow> killable (prc s p)"
  by (simp add: sig_same_def killable_def)

lemma sig_same_copyout: "sig_same s (snd (copyout_s bs a s))"
  using copyout_s_frame(1) [of bs a s "fst (copyout_s bs a s)" "snd (copyout_s bs a s)"] by (simp add: sig_same_def)

lemma sig_same_copyoutI: "copyout_s bs a s = (e, t) \<Longrightarrow> sig_same s t"
  using sig_same_copyout [of s bs a] by simp

lemma sigpending_same: "sys_sigpending c st s = (r, t) \<Longrightarrow> sig_same s t"
  by (auto simp: sys_sigpending_def split: if_splits option.splits prod.splits intro: sig_same_copyoutI) (simp_all add: sig_same_def)

lemma sigaltstack_same: "sys_sigaltstack ss oss s = (r, t) \<Longrightarrow> sig_same s t"
  by (auto simp: sys_sigaltstack_def Let_def split: if_splits prod.splits intro: sig_same_copyoutI) (simp_all add: sig_same_def)

lemma wake_first_frame: "wake_first c p s = Some t \<Longrightarrow> b_procs t = b_procs s"
  by (auto simp: wake_first_def split: option.splits list.splits bind_splits)

lemma proc_signal_same: "proc_signal c pr sig s = Some (e, t) \<Longrightarrow> sig_same s t"
  by (auto simp: proc_signal_def sig_same_def post_signal_def prc_upd_proc split: option.splits if_splits bind_splits
      dest!: wake_first_frame)

lemma sys_kill_same: "sys_kill c pid sig s = Some (r, t) \<Longrightarrow> sig_same s t"
  by (auto simp: sys_kill_def Let_def split: option.splits if_splits bind_splits dest: proc_signal_same) (simp_all add: sig_same_def)

lemma killable_mask: "killable q \<Longrightarrow> (\<forall>n \<in> {SIGKILL, SIGSTOP}. \<not> bit m n) \<Longrightarrow> killable (q\<lparr>p_sigmask := m\<rparr>)"
  by (auto simp: killable_def)

lemma sigaction_killable:
  assumes "\<forall>p. killable (prc s p)"
  shows "killable (prc (snd (sys_sigaction c sig act oldact s)) p)"
proof -
  have u: "killable (prc (if oldact \<noteq> 0 then snd (copyout_s bs oldact s) else s) q)" for bs q
    using assms sig_same_killable [OF sig_same_copyout] by simp
  have k: "killable (q\<lparr>p_sigacts := (p_sigacts q)(n := x), p_sigact_flags := y, p_sigact_mask := z\<rparr>)"
    if "killable q" "n \<noteq> SIGKILL" "n \<noteq> SIGSTOP" for q n x y z
    using that by (auto simp: killable_def)
  show ?thesis
    using assms u unfolding sys_sigaction_def Let_def
    by (auto simp: prc_upd_proc intro!: k split: option.split prod.split)
qed

lemma sigprocmask_killable:
  assumes "\<forall>p. killable (prc s p)"
  shows "killable (prc (snd (sys_sigprocmask c how st oldset s)) p)"
proof -
  have u: "killable (prc (if oldset \<noteq> 0 then snd (copyout_s bs oldset s) else s) q)" for bs q
    using assms sig_same_killable [OF sig_same_copyout] by simp
  have k: "killable (q\<lparr>p_sigmask := p_sigmask q OR w AND NOT unmaskable\<rparr>)" "killable (q\<lparr>p_sigmask := p_sigmask q AND (NOT w OR unmaskable)\<rparr>)"
    "killable (q\<lparr>p_sigmask := w AND NOT unmaskable\<rparr>)" if "killable q" for q w
    using that by (auto simp: killable_def bit_simps bit_unmaskable)
  show ?thesis
    using assms u unfolding sys_sigprocmask_def Let_def
    by (auto simp: prc_upd_proc intro!: k split: option.split prod.split)
qed

lemma deliver_killable:
  assumes "\<forall>p. killable (prc s p)" and d: "proc_deliver_signals c th r s = SC_RETURN x t"
  shows "killable (prc t q)"
proof -
  have drop: "killable (q\<lparr>p_sigpending := y\<rparr>) \<longleftrightarrow> killable q" for q y by (simp add: killable_def)
  show ?thesis
  proof (cases "t = s")
    case False
    then obtain p f sig where p: "cur_proc c s = Some p" "th_syscall_frame s th = Some f" "p_pid (prc s p) \<noteq> 0"
      and sig: "next_signal (prc s p) = Some sig"
      using d by (auto simp: proc_deliver_signals_def next_signal_def split: option.splits if_splits)
    let ?u = "upd_proc p (\<lambda>q. q\<lparr>p_sigpending := p_sigpending q AND NOT (sig_bit sig)\<rparr>) s" and ?h = "p_sigacts (prc s p) sig"
    have u: "killable (prc ?u q)" for q using assms(1) drop by (simp add: prc_upd_proc)
    from d [unfolded deliver_eq [OF p]] sig
    consider "t = ?u" | "?h \<noteq> 0" "deliver_to_handler p th sig ?h f r ?u = SC_RETURN x t"
      by (auto simp: Let_def split: if_splits)
    then show ?thesis
    proof cases
      case 1 then show ?thesis using u by simp
    next
      case 2
      have n: "sig \<notin> {SIGKILL, SIGSTOP}" using 2(1) assms(1) by (auto simp: killable_def)
      have "p_sigmask (prc t p) = p_sigmask (prc ?u p) OR sig_bit sig \<and> p_sigacts (prc t p) = p_sigacts (prc ?u p) \<and> (\<forall>q. q \<noteq> p \<longrightarrow> prc t q = prc ?u q)"
        by (rule deliver_to_handler_cases [where p = p and th = th and sig = sig and h = ?h and f = f and r = r and s = ?u]) (use 2(2) in auto)
      then show ?thesis using u [of q] n by (cases "q = p") (auto simp: killable_def bit_simps bit_sig)
    qed
  qed (use assms in simp)
qed

lemma sigreturn_killable:
  assumes "\<forall>p. killable (prc s p)" and "get32 (nth (snd (copyin_s a SIGCTX_SIZE s))) 12 AND unmaskable = 0"
    and "sys_sigreturn c a s = SC_RETURN x t"
  shows "killable (prc t q)"
proof -
  let ?m = "get32 (nth (snd (copyin_s a SIGCTX_SIZE s))) 12"
  have "\<not> bit (?m AND unmaskable) n" for n using assms(2) by simp
  then have m: "\<not> bit ?m n" if "n \<in> {SIGKILL, SIGSTOP}" for n using that by (auto simp: bit_simps bit_unmaskable)
  have k: "killable (q\<lparr>p_sigmask := ?m\<rparr>)" if "killable q" for q using that m by (intro killable_mask) auto
  show ?thesis
    using assms(1,3) k by (auto simp: sys_sigreturn_def Let_def prc_upd_proc split: option.splits if_splits prod.splits)
qed

lemma deliverable_iff: "n < 32 \<Longrightarrow> p AND NOT m AND sig_bit n \<noteq> 0 \<longleftrightarrow> bit p n \<and> \<not> bit m n" for p m :: u32
proof -
  assume n: "n < 32"
  have b: "bit (p AND NOT m AND sig_bit n) k \<longleftrightarrow> k = n \<and> bit p n \<and> \<not> bit m n" for k using n by (auto simp: bit_simps bit_sig)
  show "p AND NOT m AND sig_bit n \<noteq> 0 \<longleftrightarrow> bit p n \<and> \<not> bit m n"
    using b by (metis bit_0_eq bot_apply bot_bool_def bit_eqI)
qed

lemma kill_ends:
  assumes "killable (prc t p)" "cur_proc c t = Some p" "th_syscall_frame t th \<noteq> None" "p_pid (prc t p) \<noteq> 0"
    and pend: "bit (p_sigpending (prc t p)) SIGKILL"
    and low: "\<forall>n. 0 < n \<and> n < SIGKILL \<longrightarrow> bit (p_sigpending (prc t p)) n \<longrightarrow> bit (p_sigmask (prc t p)) n"
  shows "\<exists>u. proc_deliver_signals c th r t = SC_EXIT 137 u"
proof -
  let ?q = "prc t p"
  have m: "\<not> bit (p_sigmask ?q) 9" and h: "p_sigacts ?q 9 = 0" using assms(1) by (auto simp: killable_def SIGKILL_def)
  have "next_signal ?q = Some 9"
    unfolding next_signal_def find_Some_iff
  proof (intro exI [of _ 8] conjI allI impI)
    show "p_sigpending ?q AND NOT (p_sigmask ?q) AND sig_bit ([1..<32] ! 8) \<noteq> 0"
      using pend m deliverable_iff [of 9] by (simp add: SIGKILL_def)
    show "\<not> p_sigpending ?q AND NOT (p_sigmask ?q) AND sig_bit ([1..<32] ! j) \<noteq> 0" if "j < 8" for j
      using that low deliverable_iff [of "Suc j"] by (simp add: SIGKILL_def)
  qed simp_all
  moreover obtain f where "th_syscall_frame t th = Some f" using assms(3) by blast
  ultimately show ?thesis using deliver_eq [OF assms(2) _ assms(4), of th f r] h by (simp add: default_ignored_def)
qed


definition demo_kill :: bsd_state where
  "demo_kill = demo_sig\<lparr>b_procs := (\<lambda>_. zero_proc\<lparr>p_pid := 2, p_signature := CHIMERA_PROC_MAGIC\<rparr>)\<rparr>"

lemma demo_kill_facts: "cur_proc c demo_kill = Some 0" "th_syscall_frame demo_kill th = Some demo_frame"
  "sys_kill c 2 9 demo_kill = Some (0, post_signal 0 9 demo_kill)"
proof -
  have "cur_proc c demo_kill = cur_proc c demo_sig" unfolding demo_kill_def by (rule cur_proc_cong) simp_all
  then show c: "cur_proc c demo_kill = Some 0" by (simp add: demo_sig_facts)
  show "th_syscall_frame demo_kill th = Some demo_frame" by (simp add: demo_kill_def demo_sig_facts)
  have "proc_find_by_pid 2 demo_kill = Some 0"
    by (simp add: proc_find_by_pid_def demo_kill_def PROC_POOL_SIZE_def upt_conv_Cons)
  then show "sys_kill c 2 9 demo_kill = Some (0, post_signal 0 9 demo_kill)"
    by (simp add: sys_kill_def c to_int_def proc_signal_def SIGKILL_def wake_first_def post_signal_def prc_upd_proc)
      (simp add: demo_kill_def zero_proc_def)
qed


section \<open>A forged context\<close>

lemma not_137:
  assumes "cur_proc c s = Some p" and "next_signal (prc s p) \<noteq> Some SIGKILL"
  shows "proc_deliver_signals c th r s \<noteq> SC_EXIT 137 v"
proof
  assume d: "proc_deliver_signals c th r s = SC_EXIT 137 v"
  then obtain f sig where f: "th_syscall_frame s th = Some f" "p_pid (prc s p) \<noteq> 0" "next_signal (prc s p) = Some sig"
    using assms(1) by (auto simp: proc_deliver_signals_def next_signal_def split: option.splits if_splits)
  let ?u = "upd_proc p (\<lambda>q. q\<lparr>p_sigpending := p_sigpending q AND NOT (sig_bit sig)\<rparr>) s"
  have "128 + word_of_nat sig = (137 :: u64)"
    by (rule deliver_to_handler_cases [where p = p and th = th and sig = sig and h = "p_sigacts (prc s p) sig" and f = f and r = r and s = ?u])
      (use d [unfolded deliver_eq [OF assms(1) f(1,2)]] f(3) in \<open>auto simp: Let_def split: if_splits\<close>)
  then have "word_of_nat (128 + sig) = (137 :: u64)" by simp
  then have "unat (word_of_nat (128 + sig) :: u64) = 137" by simp
  then have "sig = 9" using next_signal_range [OF f(3)] by (simp only: unsigned_of_nat) (simp add: take_bit_nat_eq_self)
  then show False using assms(2) f(3) by (simp add: SIGKILL_def)
qed


text \<open>A context with the mask of SIGKILL on the stack of \<^const>\<open>demo_kill\<close>.\<close>
definition demo_forged :: bsd_state where
  "demo_forged = demo_kill\<lparr>b_ipc := set_pm (set_pbytes 0x5620 (sigctx_bytes 2 0x200 7 demo_frame) demo_sig_pm) (b_ipc demo_kill)\<rparr>"

lemma demo_forged_facts: "copyin_s 0x400620 SIGCTX_SIZE demo_forged = (CHIMERA_SUCCESS, sigctx_bytes 2 0x200 7 demo_frame)"
  "cur_proc c demo_forged = Some 0" "current_thread c (i_sched (b_ipc demo_forged)) = Some 0" "th_syscall_frame demo_forged th \<noteq> None"
proof -
  let ?c = "sigctx_bytes 2 0x200 7 demo_frame"
  have g: "get_pm (b_ipc demo_forged) = set_pbytes 0x5620 ?c demo_sig_pm" by (simp add: demo_forged_def get_pm_def set_pm_def)
  have a: "get_active_pml4 (set_pbytes x ys q) = get_active_pml4 q" for x ys q
    by (induction ys arbitrary: x q) (simp_all add: set_pbyte_def Let_def get_active_pml4_def wr_def)
  show "copyin_s 0x400620 SIGCTX_SIZE demo_forged = (CHIMERA_SUCCESS, ?c)"
  proof (rule demo_copyin_ctx [OF g])
    show "rd x (get_pm (b_ipc demo_forged)) = rd x demo_sig_pm" if "\<not> (0x5000 \<le> x \<and> x < 0x6000)" for x
      using rd_set_pbytes [of "0x5000" "0x620" ?c x demo_sig_pm] that by (simp add: g sigctx_length SIGCTX_SIZE_def)
  qed (simp add: g a demo_sig_rd)
  have t: "current_thread c (i_sched (b_ipc demo_forged)) = current_thread c (i_sched (b_ipc demo_sig))" for c
    by (simp add: demo_forged_def demo_kill_def current_thread_def set_pm_def)
  then show "current_thread c (i_sched (b_ipc demo_forged)) = Some 0" by (simp add: demo_sig_facts)
  have "cur_proc c demo_forged = cur_proc c demo_kill"
    by (simp add: demo_forged_def cur_proc_def current_task_def current_thread_def set_pm_def split: option.split)
  then show "cur_proc c demo_forged = Some 0" by (simp add: demo_kill_facts)
  show "th_syscall_frame demo_forged th \<noteq> None" by (simp add: demo_forged_def demo_kill_facts)
qed


end
