(* ===== verification/Mmap.thy ===== *)
theory Mmap
  imports Cred
begin

text \<open>
  Mappings of user memory: \<^verbatim>\<open>mmap\<close>, \<^verbatim>\<open>munmap\<close> and \<^verbatim>\<open>mprotect\<close> of \<^verbatim>\<open>kernel/bsd/syscall.c\<close>, with the tables of pages that
  processes share and the records of shared mappings that a task keeps. \<open>None\<close> is a panic, a pointer of the wrong kind followed, or
  a loop that does not end. The switch of the console to graphics when the frame buffer is mapped is not part of the state.
\<close>

unbundle bit_operations_syntax

definition b_pm :: "bsd_state \<Rightarrow> pmap_state" where "b_pm s = get_pm (b_ipc s)"

definition set_bpm :: "pmap_state \<Rightarrow> bsd_state \<Rightarrow> bsd_state" where "set_bpm pm s = s\<lparr>b_ipc := set_pm pm (b_ipc s)\<rparr>"

definition SHM_ENTRIES :: nat where "SHM_ENTRIES = 64"
definition SHM_PAGES :: nat where "SHM_PAGES = 2048"
definition SURFACE_PAGES :: nat where "SURFACE_PAGES = 2000"
definition SIZEOF_MMAP_RECORD :: nat where "SIZEOF_MMAP_RECORD = 32"

definition task_map :: "nat \<Rightarrow> bsd_state \<Rightarrow> u64" where
  "task_map t s = ta_vm_map (sc_tasks (i_sched (b_ipc s)) t)"

section \<open>Shared pages\<close>

text \<open>The loop that drops the reference of a table on each of its pages.\<close>
definition drop_pages :: "u64 list \<Rightarrow> bsd_state \<Rightarrow> bsd_state" where
  "drop_pages ps s = set_bpm (fold (\<lambda>a pm. if a \<noteq> 0 \<and> a \<noteq> - 1 then pm_release a pm else pm) ps (b_pm s)) s"

definition upd_shm :: "nat \<Rightarrow> (chimera_shm_entry \<Rightarrow> chimera_shm_entry) \<Rightarrow> bsd_state \<Rightarrow> bsd_state" where
  "upd_shm i f s = s\<lparr>s_shm_entries := (s_shm_entries s)(i := f (s_shm_entries s i))\<rparr>"

definition mmap_shm_release :: "nat \<Rightarrow> bsd_state \<Rightarrow> bsd_state" where
  "mmap_shm_release idx s =
     (if idx \<ge> SHM_ENTRIES then s
      else let s = upd_shm idx (\<lambda>e. if shm_map_count e > 0 then e\<lparr>shm_map_count := shm_map_count e - 1\<rparr> else e) s;
               e = s_shm_entries s idx in
        if shm_map_count e \<noteq> 0 then s
        else upd_shm idx (\<lambda>e. e\<lparr>shm_pages := (\<lambda>_. 0), shm_vp := None, shm_page_count := 0\<rparr>)
               (drop_pages (map (shm_pages e) [0..<SHM_PAGES]) s))"

definition mmap_surface_release :: "nat \<Rightarrow> bsd_state \<Rightarrow> bsd_state" where
  "mmap_surface_release wid s =
     (if wid \<ge> 64 then s
      else let n = s_surface_refs s wid; n = (if n > 0 then n - 1 else n);
               s = s\<lparr>s_surface_refs := (s_surface_refs s)(wid := n)\<rparr> in
        if n \<noteq> 0 then s
        else let s = drop_pages (map (s_surface_phys s wid) [0..<SURFACE_PAGES]) s
             in s\<lparr>s_surface_phys := (s_surface_phys s)(wid := (\<lambda>_. 0))\<rparr>)"

section \<open>Records\<close>

definition set_records :: "nat \<Rightarrow> chimera_mmap_record list \<Rightarrow> bsd_state \<Rightarrow> bsd_state" where
  "set_records t rs s = s\<lparr>ta_mmap_records := (ta_mmap_records s)(t := rs)\<rparr>"

definition mmap_record_add :: "nat \<Rightarrow> u64 \<Rightarrow> u64 \<Rightarrow> u16 \<Rightarrow> u16 \<Rightarrow> bsd_state \<Rightarrow> bsd_state option" where
  "mmap_record_add task start len kind index s =
     (if len = 0 then Some s
      else do {
        (a, k) \<leftarrow> kalloc SIZEOF_MMAP_RECORD (b_km s);
        let s = set_km k s;
        Some (if a = 0 then s
              else set_records task (\<lparr>mr_addr = a, mr_start = start AND NOT 0xFFF, mr_len = (len + 0xFFF) AND NOT 0xFFF,
                     mr_kind = kind, mr_index = index\<rparr> # ta_mmap_records s task) s)
      })"

text \<open>The end of a shared mapping.\<close>
definition release_record :: "chimera_mmap_record \<Rightarrow> bsd_state \<Rightarrow> bsd_state" where
  "release_record r s =
     (if mr_kind r = CHIMERA_MMAP_KIND_SHM then mmap_shm_release (unat (mr_index r)) s
      else if mr_kind r = CHIMERA_MMAP_KIND_SURFACE then mmap_surface_release (unat (mr_index r)) s else s)"

definition free_record :: "chimera_mmap_record \<Rightarrow> bsd_state \<Rightarrow> bsd_state" where
  "free_record r s = set_km (kfree (mr_addr r) (b_km s)) s"

definition unmap_in :: "u64 \<Rightarrow> u64 \<Rightarrow> u64 \<Rightarrow> bool \<Rightarrow> bsd_state \<Rightarrow> bsd_state option" where
  "unmap_in pml4 start len release s = do {
     pm \<leftarrow> pmap_unmap_user_range_ex pml4 start len release (b_pm s);
     Some (set_bpm pm s)
   }"

text \<open>The walk of \<^verbatim>\<open>mmap_shared_unmap\<close> along the records: the records that remain, and the state.\<close>
primrec unmap_records :: "chimera_mmap_record list \<Rightarrow> u64 \<Rightarrow> u64 \<Rightarrow> u64 \<Rightarrow> bsd_state \<Rightarrow> (chimera_mmap_record list \<times> bsd_state) option" where
  "unmap_records [] pml4 start stop s = Some ([], s)"
| "unmap_records (r # rs) pml4 start stop s =
     (let rstart = mr_start r; rend = mr_start r + mr_len r;
          ostart = (if rstart > start then rstart else start); oend = (if rend < stop then rend else stop) in
      if \<not> ostart < oend then do { (rs', s) \<leftarrow> unmap_records rs pml4 start stop s; Some (r # rs', s) }
      else do {
        s \<leftarrow> unmap_in pml4 ostart (oend - ostart) (mr_kind r \<noteq> CHIMERA_MMAP_KIND_FB) s;
        if ostart = rstart \<and> oend = rend then unmap_records rs pml4 start stop (free_record r (release_record r s))
        else do {
          (rs', s) \<leftarrow> unmap_records rs pml4 start stop s;
          Some ((if ostart = rstart then r\<lparr>mr_start := oend, mr_len := rend - oend\<rparr> else r\<lparr>mr_len := ostart - rstart\<rparr>) # rs', s)
        }
      })"

definition mmap_shared_unmap :: "nat \<Rightarrow> u64 \<Rightarrow> u64 \<Rightarrow> bsd_state \<Rightarrow> bsd_state option" where
  "mmap_shared_unmap task addr len s = do {
     let pml4 = task_map task s;
     let start = addr AND NOT 0xFFF;
     let stop = (addr + len + 0xFFF) AND NOT 0xFFF;
     (rs, s) \<leftarrow> unmap_records (ta_mmap_records s task) pml4 start stop s;
     unmap_in pml4 start (stop - start) True (set_records task rs s)
   }"

text \<open>The loop of \<^verbatim>\<open>mmap_records_destroy\<close>.\<close>
primrec destroy_records :: "chimera_mmap_record list \<Rightarrow> u64 \<Rightarrow> bsd_state \<Rightarrow> bsd_state option" where
  "destroy_records [] pml4 s = Some s"
| "destroy_records (r # rs) pml4 s = do {
     s \<leftarrow> (if mr_kind r = CHIMERA_MMAP_KIND_FB
           then (if pml4 \<noteq> 0 then unmap_in pml4 (mr_start r) (mr_len r) False s else Some s)
           else Some (release_record r s));
     destroy_records rs pml4 (free_record r s)
   }"

definition mmap_records_destroy :: "nat \<Rightarrow> bsd_state \<Rightarrow> bsd_state option" where
  "mmap_records_destroy task s = destroy_records (ta_mmap_records s task) (task_map task s) (set_records task [] s)"

section \<open>mmap\<close>

text \<open>What a new page of a mapping is backed by; \<open>None\<close> is the failure return. A fresh page is zeroed when memory is mapped at
  \<^verbatim>\<open>g_hhdm_base\<close>.\<close>
definition clear_page :: "nat \<Rightarrow> pmap_state \<Rightarrow> pmap_state" where
  "clear_page a pm = (if km_hhdm (pk pm) \<noteq> 0 then zero_page a pm else pm)"

definition anon_page :: "bsd_state \<Rightarrow> u64 option \<times> bsd_state" where
  "anon_page s = (let (a, pm) = pm_alloc (b_pm s) in
     if a = PADDR_INVALID then (None, set_bpm pm s) else (Some (word_of_nat a), set_bpm (clear_page a pm) s))"

text \<open>A page of a shared table: the one it lists, with a further reference, or a fresh one that is entered.\<close>
definition shared_page :: "u64 \<Rightarrow> (u64 \<Rightarrow> bsd_state \<Rightarrow> bsd_state) \<Rightarrow> bsd_state \<Rightarrow> u64 option \<times> bsd_state" where
  "shared_page listed enter s =
     (if listed \<noteq> 0 then (Some listed, set_bpm (pm_retain listed (b_pm s)) s)
      else let (a, pm) = pm_alloc (b_pm s) in
        if failed_alloc a then (None, set_bpm pm s)
        else (Some (word_of_nat a), enter (word_of_nat a) (set_bpm (clear_page a pm) s)))"

definition surface_window :: "u64 \<Rightarrow> bool" where
  "surface_window vaddr \<longleftrightarrow> vaddr \<ge> 0xA0000000 \<and> vaddr < 0xB0000000"

definition surface_wid :: "u64 \<Rightarrow> nat" where "surface_wid vaddr = unat ((vaddr - 0xA0000000) div 0x800000)"

definition mmap_backing :: "u64 \<Rightarrow> bool \<Rightarrow> nat option \<Rightarrow> u64 \<Rightarrow> u64 \<Rightarrow> bsd_state \<Rightarrow> u64 option \<times> bsd_state" where
  "mmap_backing fb_phys is_fb shm vaddr off s =
     (let pi = unat (off div 4096) in
      if is_fb then (Some (fb_phys + off), s)
      else case shm of
        Some i \<Rightarrow>
          if pi < SHM_PAGES
          then shared_page (shm_pages (s_shm_entries s i) pi) (\<lambda>a. upd_shm i (\<lambda>e. e\<lparr>shm_pages := (shm_pages e)(pi := a)\<rparr>)) s
          else anon_page s
      | None \<Rightarrow>
          let wid = surface_wid vaddr in
          if surface_window vaddr \<and> wid < 64 \<and> pi < SURFACE_PAGES
          then shared_page (s_surface_phys s wid pi)
                 (\<lambda>a s. s\<lparr>s_surface_phys := (s_surface_phys s)(wid := (s_surface_phys s wid)(pi := a))\<rparr>) s
          else anon_page s)"

partial_function (option) mmap_loop :: "u64 \<Rightarrow> bool \<Rightarrow> nat option \<Rightarrow> u64 \<Rightarrow> u64 \<Rightarrow> u64 \<Rightarrow> u64 \<Rightarrow> bsd_state \<Rightarrow> (bool \<times> bsd_state) option" where
  "mmap_loop fb_phys is_fb shm pml4 vaddr len off s =
     (if \<not> off < len then Some (True, s)
      else case mmap_backing fb_phys is_fb shm vaddr off s of
        (None, s) \<Rightarrow> Some (False, s)
      | (Some paddr, s) \<Rightarrow>
          mmap_loop fb_phys is_fb shm pml4 vaddr len (off + 4096)
            (set_bpm (snd (pmap_map_user_page pml4 (vaddr + off) paddr (PAGE_USER OR PAGE_WRITE) (b_pm s))) s))"

text \<open>What the descriptor says: \<open>None\<close> is the failure return, otherwise whether it is the frame buffer, and the vnode.\<close>
definition mmap_file :: "out_fn \<Rightarrow> nat \<Rightarrow> u64 \<Rightarrow> bsd_state \<Rightarrow> ((bool \<times> vnode_ref option) option \<times> bsd_state) option" where
  "mmap_file out my_cpu fd s =
     (if fd = - 1 \<or> fd AND 0xFFFFFFFF = 0xFFFFFFFF then Some (Some (False, None), s)
      else case proc_fd_lookup (cur_proc my_cpu s) (to_int fd) s of
        (None, s) \<Rightarrow> Some (None, s)
      | (Some fp, s) \<Rightarrow> do {
          vp \<leftarrow> fp_vnode (fpr s fp);
          s \<leftarrow> fp_release out (Some fp) s;
          Some (case vp of None \<Rightarrow> None
            | Some v \<Rightarrow> Some (v_type (vnd s v) = VCHR \<and> v_op (vnd s v) = Some s_fb_ops, Some v), s)
        })"

text \<open>The choice of the address; the second part is the new \<^verbatim>\<open>ta_mmap_next\<close>.\<close>
definition mmap_vaddr :: "u64 \<Rightarrow> u64 \<Rightarrow> bool \<Rightarrow> bool \<Rightarrow> u64 \<Rightarrow> u64 \<times> u64" where
  "mmap_vaddr addr len is_fb is_anon nxt =
     (if addr = 0 then
        (if is_fb then (0x80000000, nxt)
         else let v = (if nxt = 0 then 0x90000000 else nxt) in (v, (v + len + 0xFFF) AND NOT 0xFFF))
      else if \<not> is_fb \<and> is_anon \<and> addr \<ge> 0x90000000 \<and> addr < 0xA0000000 \<and> nxt < (addr + len + 0xFFF) AND NOT 0xFFF
      then (addr, (addr + len + 0xFFF) AND NOT 0xFFF)
      else (addr, nxt))"

text \<open>The entry of a file in the table of shared pages, a fresh one when it has none; a full table gives \<open>None\<close>.\<close>
definition shm_entry_for :: "vnode_ref \<Rightarrow> bsd_state \<Rightarrow> nat option \<times> bsd_state" where
  "shm_entry_for v s =
     (case List.find (\<lambda>i. shm_vp (s_shm_entries s i) = Some v) [0..<SHM_ENTRIES] of
        Some i \<Rightarrow> (Some i, s)
      | None \<Rightarrow>
          (case List.find (\<lambda>i. shm_vp (s_shm_entries s i) = None) [0..<SHM_ENTRIES] of
             None \<Rightarrow> (None, s)
           | Some i \<Rightarrow> (Some i, upd_shm i (\<lambda>_. \<lparr>shm_vp = Some v, shm_page_count = 0, shm_map_count = 0, shm_pages = (\<lambda>_. 0)\<rparr>) s)))"

text \<open>The record of the mapping and the count of its table.\<close>
definition mmap_track :: "nat \<Rightarrow> bool \<Rightarrow> nat option \<Rightarrow> u64 \<Rightarrow> u64 \<Rightarrow> bsd_state \<Rightarrow> bsd_state option" where
  "mmap_track task is_fb shm vaddr len s =
     (if is_fb then mmap_record_add task vaddr len CHIMERA_MMAP_KIND_FB 0 s
      else case shm of
        Some i \<Rightarrow> mmap_record_add task vaddr len CHIMERA_MMAP_KIND_SHM (word_of_nat i)
                    (upd_shm i (\<lambda>e. e\<lparr>shm_map_count := shm_map_count e + 1\<rparr>) s)
      | None \<Rightarrow>
          let wid = surface_wid vaddr in
          if surface_window vaddr \<and> wid < 64
          then mmap_record_add task vaddr len CHIMERA_MMAP_KIND_SURFACE (word_of_nat wid)
                 (s\<lparr>s_surface_refs := (s_surface_refs s)(wid := s_surface_refs s wid + 1)\<rparr>)
          else Some s)"

definition sys_mmap :: "out_fn \<Rightarrow> u64 \<Rightarrow> nat \<Rightarrow> u64 \<Rightarrow> u64 \<Rightarrow> u64 \<Rightarrow> u64 \<Rightarrow> u64 \<Rightarrow> bsd_state \<Rightarrow> (int \<times> bsd_state) option" where
  "sys_mmap out fb_phys my_cpu addr len prot flags fd s = do {
     (file, s) \<leftarrow> mmap_file out my_cpu fd s;
     (case (file, current_task my_cpu (b_ipc s)) of
        (Some (is_fb, vp), Some task) \<Rightarrow>
          if task_map task s = 0 then Some (- 1, s)
          else do {
            let (vaddr, nxt) = mmap_vaddr addr len is_fb (vp = None) (ta_mmap_next (b_ipc s) task);
            let s = s\<lparr>b_ipc := (b_ipc s)\<lparr>ta_mmap_next := (ta_mmap_next (b_ipc s))(task := nxt)\<rparr>\<rparr>;
            let (shm, s) = (case vp of Some v \<Rightarrow> if is_fb then (None, s) else shm_entry_for v s | None \<Rightarrow> (None, s));
            s \<leftarrow> mmap_track task is_fb shm vaddr len s;
            (ok, s) \<leftarrow> mmap_loop fb_phys is_fb shm (task_map task s) vaddr len 0 s;
            Some (if ok then sint vaddr else - 1, s)
          }
      | _ \<Rightarrow> Some (- 1, s))
   }"

definition sys_munmap :: "nat \<Rightarrow> u64 \<Rightarrow> u64 \<Rightarrow> bsd_state \<Rightarrow> (int \<times> bsd_state) option" where
  "sys_munmap my_cpu addr len s =
     (if addr = 0 \<or> len = 0 then Some (- 22, s)
      else case current_task my_cpu (b_ipc s) of
        None \<Rightarrow> Some (- 1, s)
      | Some task \<Rightarrow>
          if task_map task s = 0 then Some (- 1, s)
          else do { s \<leftarrow> mmap_shared_unmap task addr len s; Some (0, s) })"

definition sys_mprotect :: "nat \<Rightarrow> u64 \<Rightarrow> u64 \<Rightarrow> u64 \<Rightarrow> bsd_state \<Rightarrow> (int \<times> bsd_state) option" where
  "sys_mprotect my_cpu addr len prot s =
     (case current_task my_cpu (b_ipc s) of
        None \<Rightarrow> Some (- 22, s)
      | Some task \<Rightarrow>
          if task_map task s = 0 \<or> len = 0 then Some (- 22, s)
          else do {
            (rc, pm) \<leftarrow> pmap_protect_user_range (task_map task s) addr len (ucast prot) (b_pm s);
            Some (if rc = 0 then 0 else - 14, set_bpm pm s)
          })"

end
