(* ===== verification/Proc.thy ===== *)
theory Proc
  imports Mmap Signal Vfs
begin

text \<open>
  The life of tasks and processes: \<^verbatim>\<open>task_init\<close> of \<^verbatim>\<open>kernel/mach/task.c\<close>, \<^verbatim>\<open>proc_init\<close>, \<^verbatim>\<open>task_create\<close>, \<^verbatim>\<open>proc_create\<close>,
  \<^verbatim>\<open>proc_mark_exited\<close> and \<^verbatim>\<open>proc_reap\<close> of \<^verbatim>\<open>kernel/bsd/proc.c\<close>, and the calls \<^verbatim>\<open>fork\<close>, \<^verbatim>\<open>exit\<close> and \<^verbatim>\<open>wait4\<close> of
  \<^verbatim>\<open>kernel/bsd/syscall.c\<close>. A task is named by its index in \<^verbatim>\<open>s_task_pool\<close>; the object of the kernel task comes after the pool.
\<close>

unbundle bit_operations_syntax

definition TASK_POOL_SIZE :: nat where "TASK_POOL_SIZE = 256"
definition KERNEL_TASK :: nat where "KERNEL_TASK = 256"
definition TASK_FLAG_KERNEL :: u32 where "TASK_FLAG_KERNEL = 1"
definition TASK_FLAG_64BIT :: u32 where "TASK_FLAG_64BIT = 2"

section \<open>Tasks\<close>

definition upd_task :: "nat \<Rightarrow> (chimera_task \<Rightarrow> chimera_task) \<Rightarrow> ipc_state \<Rightarrow> ipc_state" where
  "upd_task t f s = s\<lparr>i_sched := (i_sched s)\<lparr>sc_tasks := (sc_tasks (i_sched s))(t := f (sc_tasks (i_sched s) t))\<rparr>\<rparr>"

text \<open>\<^verbatim>\<open>memset\<close> of a task, over the parts of the state that hold its fields.\<close>
definition zero_task :: "nat \<Rightarrow> bsd_state \<Rightarrow> bsd_state" where
  "zero_task t s =
     (let i = upd_task t (\<lambda>_. \<lparr>ta_flags = 0, ta_vm_map = 0\<rparr>) (b_ipc s);
          i = i\<lparr>ta_ipc_space := (ta_ipc_space i)(t := None), ta_mmap_next := (ta_mmap_next i)(t := 0), ta_task_port := (ta_task_port i)(t := 0),
                ta_bootstrap_port := (ta_bootstrap_port i)(t := 0), ta_proc_pid := (ta_proc_pid i)(t := None), ta_proc_uid := (ta_proc_uid i)(t := 0)\<rparr>
      in s\<lparr>b_ipc := i, ta_proc := (ta_proc s)(t := None), ta_signature := (ta_signature s)(t := 0), ta_threads := (ta_threads s)(t := []),
           ta_thread_count := (ta_thread_count s)(t := 0), ta_mmap_records := (ta_mmap_records s)(t := [])\<rparr>)"

definition task_init :: "bsd_state \<Rightarrow> bsd_state" where
  "task_init s =
     (let s = zero_task KERNEL_TASK s;
          i = upd_task KERNEL_TASK (\<lambda>t. t\<lparr>ta_flags := TASK_FLAG_KERNEL OR TASK_FLAG_64BIT\<rparr>) (b_ipc s)
      in s\<lparr>b_ipc := i\<lparr>i_task_kernel := Some KERNEL_TASK, i_sched := (i_sched i)\<lparr>sc_task_kernel := KERNEL_TASK\<rparr>\<rparr>,
           ta_signature := (ta_signature s)(KERNEL_TASK := CHIMERA_TASK_MAGIC)\<rparr>)"

text \<open>The write of \<^verbatim>\<open>ta_proc\<close>, with the fields of the process that the Mach layer reads through it.\<close>
definition set_ta_proc :: "nat \<Rightarrow> nat \<Rightarrow> bsd_state \<Rightarrow> bsd_state" where
  "set_ta_proc t p s = s\<lparr>ta_proc := (ta_proc s)(t := Some p),
     b_ipc := (b_ipc s)\<lparr>ta_proc_pid := (ta_proc_pid (b_ipc s))(t := Some (p_pid (prc s p))), ta_proc_uid := (ta_proc_uid (b_ipc s))(t := p_uid (prc s p))\<rparr>\<rparr>"

text \<open>The port that stands for the task itself; running out of ports is ignored.\<close>
definition task_self_port :: "nat \<Rightarrow> nat \<Rightarrow> bsd_state \<Rightarrow> bsd_state option" where
  "task_self_port t sp s = do {
     (err, name, i) \<leftarrow> ipc_port_alloc sp ''task.self'' (b_ipc s);
     (case name of
        None \<Rightarrow> Some (s\<lparr>b_ipc := i\<rparr>)
      | Some n \<Rightarrow> do {
          p \<leftarrow> as_port (ie_object (entry_at (i_spaces i sp) (ipc_name_index n)));
          let i = upd_port p (\<lambda>q. q\<lparr>ip_kobject := Some t, ip_kotype := 1\<rparr>) i;
          Some (s\<lparr>b_ipc := i\<lparr>ta_task_port := (ta_task_port i)(t := n)\<rparr>\<rparr>)
        })
   }"

definition task_create :: "bsd_state \<Rightarrow> (chimera_error \<times> nat option \<times> bsd_state) option" where
  "task_create s =
     (case List.find (\<lambda>i. ta_signature s i \<noteq> CHIMERA_TASK_MAGIC) [1..<TASK_POOL_SIZE] of
        None \<Rightarrow> Some (CHIMERA_ERR_NOMEM, None, s)
      | Some t \<Rightarrow> do {
          let s = zero_task t s;
          let s = s\<lparr>ta_signature := (ta_signature s)(t := CHIMERA_TASK_MAGIC), ta_thread_count := (ta_thread_count s)(t := 1)\<rparr>;
          let (pml4, pm) = pmap_create (b_pm s);
          let i = upd_task t (\<lambda>x. x\<lparr>ta_vm_map := pml4\<rparr>) (b_ipc (set_bpm pm s));
          let (err, sp, i) = ipc_space_create t i;
          (case sp of
             None \<Rightarrow> Some (err, None, s\<lparr>b_ipc := i\<rparr>)
           | Some n \<Rightarrow> do {
               s \<leftarrow> task_self_port t n (s\<lparr>b_ipc := i\<lparr>ta_ipc_space := (ta_ipc_space i)(t := Some n)\<rparr>\<rparr>);
               Some (CHIMERA_SUCCESS, Some t, s)
             })
        })"

section \<open>Creating processes\<close>

definition proc_init :: "bsd_state \<Rightarrow> bsd_state option" where
  "proc_init s =
     (case i_task_kernel (b_ipc s) of
        None \<Rightarrow> None
      | Some t \<Rightarrow>
          let s = upd_proc KERNEL_PROC (\<lambda>_. zero_proc\<lparr>p_signature := CHIMERA_PROC_MAGIC, p_task := Some t, p_ngroups := 1, p_umask := 18,
                    p_state := PROC_STATE_RUNNING, p_comm := ''kernel_task''\<rparr>) s
          in Some ((set_ta_proc t KERNEL_PROC s)\<lparr>ta_thread_count := (ta_thread_count s)(t := 1)\<rparr>))"

text \<open>The record of a new process.\<close>
definition new_proc :: "u32 \<Rightarrow> chimera_proc option \<Rightarrow> nat option \<Rightarrow> string \<Rightarrow> chimera_proc" where
  "new_proc pid par parent name =
     (let p = zero_proc\<lparr>p_signature := CHIMERA_PROC_MAGIC, p_pid := pid, p_parent := parent, p_state := PROC_STATE_RUNNING,
                p_comm := take CHIMERA_PROC_NAME_MAX name\<rparr> in
      case par of
        Some q \<Rightarrow> p\<lparr>p_ppid := p_pid q, p_uid := p_uid q, p_euid := p_euid q, p_svuid := p_svuid q, p_gid := p_gid q, p_egid := p_egid q,
          p_svgid := p_svgid q, p_ngroups := p_ngroups q, p_groups := p_groups q, p_login := p_login q, p_umask := p_umask q,
          p_pgrp := (if p_pgrp q \<noteq> 0 then p_pgrp q else pid), p_sid := (if p_sid q \<noteq> 0 then p_sid q else pid)\<rparr>
      | None \<Rightarrow> p\<lparr>p_ngroups := 1, p_umask := 18, p_pgrp := pid, p_sid := pid\<rparr>)"

definition next_pid :: "u32 \<Rightarrow> u32 \<times> u32" where
  "next_pid sq = (if sq = 0 then (1, 2) else (sq, sq + 1))"

text \<open>The working directory of a new process.\<close>
definition init_cwd :: "nat \<Rightarrow> chimera_proc option \<Rightarrow> nat \<Rightarrow> bsd_state \<Rightarrow> bsd_state option" where
  "init_cwd my_cpu par p s =
     (case Option.bind par p_cwd of
        Some v \<Rightarrow> Some (upd_proc p (\<lambda>q. q\<lparr>p_cwd := Some v\<rparr>) s)
      | None \<Rightarrow> do {
          r \<leftarrow> vfs_lookup my_cpu ''/'' s;
          Some (case r of Some v \<Rightarrow> upd_proc p (\<lambda>q. q\<lparr>p_cwd := Some v\<rparr>) s | None \<Rightarrow> s)
        })"

text \<open>One descriptor of the parent, as the child inherits it.\<close>
definition inherit_fd :: "nat \<Rightarrow> nat \<Rightarrow> nat \<Rightarrow> bsd_state \<Rightarrow> bsd_state" where
  "inherit_fd par p i s =
     (case p_fd_table (prc s par) i of
        None \<Rightarrow> s
      | Some fp \<Rightarrow> set_fd_flags p i (p_fd_flags (prc s par) i) (set_fd p i (Some fp) (fp_retain fp s)))"

text \<open>A standard descriptor on the console.\<close>
definition open_std :: "out_fn \<Rightarrow> nat \<Rightarrow> vnode_ref \<Rightarrow> u32 \<Rightarrow> bsd_state \<Rightarrow> bsd_state option" where
  "open_std out p v flags s = do {
     (r, s) \<leftarrow> fp_alloc (Some v) flags s;
     (case r of
        None \<Rightarrow> Some s
      | Some fp \<Rightarrow> do {
          (_, s) \<leftarrow> proc_fd_install (Some p) (Some fp) s;
          fp_release out (Some fp) s
        })
   }"

definition std_fds :: "out_fn \<Rightarrow> nat \<Rightarrow> nat \<Rightarrow> bsd_state \<Rightarrow> bsd_state option" where
  "std_fds out my_cpu p s = do {
     con \<leftarrow> vfs_lookup my_cpu ''/dev/console'' s;
     dev \<leftarrow> (if con = None then vfs_lookup my_cpu ''/dev/null'' s else Some con);
     (case dev of
        None \<Rightarrow> Some s
      | Some v \<Rightarrow> do {
          s \<leftarrow> open_std out p v FP_READABLE s;
          s \<leftarrow> open_std out p v FP_WRITABLE s;
          open_std out p v FP_WRITABLE s
        })
   }"

definition init_fds :: "out_fn \<Rightarrow> nat \<Rightarrow> nat option \<Rightarrow> nat \<Rightarrow> bsd_state \<Rightarrow> bsd_state option" where
  "init_fds out my_cpu parent p s =
     (case parent of
        Some par \<Rightarrow>
          if \<exists>i \<in> set [0..<CHIMERA_PROC_MAX_FDS]. p_fd_table (prc s par) i \<noteq> None
          then Some (fold (inherit_fd par p) [0..<CHIMERA_PROC_MAX_FDS] s)
          else std_fds out my_cpu p s
      | None \<Rightarrow> std_fds out my_cpu p s)"

text \<open>The part of \<^verbatim>\<open>proc_create\<close> after the task has been made.\<close>
definition proc_setup :: "out_fn \<Rightarrow> nat \<Rightarrow> nat option \<Rightarrow> nat \<Rightarrow> nat \<Rightarrow> bsd_state \<Rightarrow> bsd_state option" where
  "proc_setup out my_cpu parent p t s = do {
     let s = set_ta_proc t p (upd_proc p (\<lambda>q. q\<lparr>p_task := Some t\<rparr>) s);
     s \<leftarrow> init_cwd my_cpu (map_option (prc s) parent) p s;
     s \<leftarrow> init_fds out my_cpu parent p s;
     Some (upd_proc p (\<lambda>q. (case parent of
         Some par \<Rightarrow> q\<lparr>p_sigmask := p_sigmask (prc s par), p_sigacts := p_sigacts (prc s par), p_sigact_flags := p_sigact_flags (prc s par),
           p_sigact_mask := p_sigact_mask (prc s par)\<rparr>
       | None \<Rightarrow> q)\<lparr>p_sigpending := 0\<rparr>) s)
   }"

definition proc_create :: "out_fn \<Rightarrow> nat \<Rightarrow> nat option \<Rightarrow> string \<Rightarrow> bsd_state \<Rightarrow> (chimera_error \<times> nat option \<times> bsd_state) option" where
  "proc_create out my_cpu parent name s =
     (case List.find (\<lambda>i. p_signature (prc s i) \<noteq> CHIMERA_PROC_MAGIC) [1..<PROC_POOL_SIZE] of
        None \<Rightarrow> Some (CHIMERA_ERR_NOMEM, None, s)
      | Some p \<Rightarrow> do {
          let (pid, sq) = next_pid (s_pid_seq s);
          let s = upd_proc p (\<lambda>_. new_proc pid (map_option (prc s) parent) parent name) (s\<lparr>s_pid_seq := sq\<rparr>);
          (err, r, s) \<leftarrow> task_create s;
          (case r of
             None \<Rightarrow> Some (err, None, s)
           | Some t \<Rightarrow> do { s \<leftarrow> proc_setup out my_cpu parent p t s; Some (CHIMERA_SUCCESS, Some p, s) })
        })"

section \<open>The end of a process\<close>

text \<open>The loop of \<^verbatim>\<open>proc_mark_exited\<close> over the descriptors \<open>is\<close>.\<close>
fun close_all :: "out_fn \<Rightarrow> nat \<Rightarrow> nat list \<Rightarrow> bsd_state \<Rightarrow> bsd_state option" where
  "close_all out p [] s = Some s"
| "close_all out p (i # js) s =
     (case p_fd_table (prc s p) i of
        None \<Rightarrow> close_all out p js s
      | Some fp \<Rightarrow> do { s \<leftarrow> fp_release out (Some fp) (set_fd p i None s); close_all out p js s })"

fun halt_threads :: "nat list \<Rightarrow> bsd_state \<Rightarrow> bsd_state option" where
  "halt_threads [] s = Some s"
| "halt_threads (th # ths) s = do {
     sc \<leftarrow> scheduler_remove_thread (Some th) (i_sched (b_ipc s));
     halt_threads ths (s\<lparr>b_ipc := (b_ipc s)\<lparr>i_sched := sc\<rparr>, th_signature := (th_signature s)(th := 0)\<rparr>)
   }"

definition set_task_map :: "nat \<Rightarrow> u64 \<Rightarrow> bsd_state \<Rightarrow> bsd_state" where
  "set_task_map t m s = s\<lparr>b_ipc := upd_task t (\<lambda>x. x\<lparr>ta_vm_map := m\<rparr>) (b_ipc s)\<rparr>"

text \<open>The address space of a task goes.\<close>
definition destroy_task_map :: "nat \<Rightarrow> bsd_state \<Rightarrow> bsd_state" where
  "destroy_task_map t s =
     (if task_map t s = 0 then s else set_task_map t 0 (set_bpm (pmap_destroy_user_space (task_map t s) (b_pm s)) s))"

definition task_teardown :: "nat \<Rightarrow> nat \<Rightarrow> bsd_state \<Rightarrow> bsd_state option" where
  "task_teardown my_cpu t s = do {
     s \<leftarrow> halt_threads (ta_threads s t) s;
     s \<leftarrow> mmap_records_destroy t (s\<lparr>ta_threads := (ta_threads s)(t := []), ta_thread_count := (ta_thread_count s)(t := 0)\<rparr>);
     let s = destroy_task_map t s;
     (case ta_ipc_space (b_ipc s) t of
        None \<Rightarrow> Some s
      | Some sp \<Rightarrow> do {
          i \<leftarrow> ipc_space_destroy my_cpu sp (b_ipc s);
          Some (s\<lparr>b_ipc := i\<lparr>ta_ipc_space := (ta_ipc_space i)(t := None)\<rparr>\<rparr>)
        })
   }"

text \<open>The children of a process go to launchd.\<close>
definition reparent :: "nat \<Rightarrow> nat \<Rightarrow> bsd_state \<Rightarrow> bsd_state" where
  "reparent p i s =
     (if p_signature (prc s i) = CHIMERA_PROC_MAGIC \<and> (p_parent (prc s i) = Some p \<or> p_ppid (prc s i) = p_pid (prc s p))
      then upd_proc i (\<lambda>q. q\<lparr>p_parent := proc_launchd s, p_ppid := (case proc_launchd s of Some l \<Rightarrow> p_pid (prc s l) | None \<Rightarrow> 1)\<rparr>) s
      else s)"

definition proc_mark_exited :: "out_fn \<Rightarrow> nat \<Rightarrow> nat \<Rightarrow> u32 \<Rightarrow> bsd_state \<Rightarrow> bsd_state option" where
  "proc_mark_exited out my_cpu p code s = do {
     s \<leftarrow> close_all out p [0..<CHIMERA_PROC_MAX_FDS] s;
     let s = upd_proc p (\<lambda>q. q\<lparr>p_text_node := None, p_cwd := None\<rparr>) s;
     s \<leftarrow> (case p_task (prc s p) of None \<Rightarrow> Some s | Some t \<Rightarrow> task_teardown my_cpu t s);
     let s = fold (reparent p) [1..<PROC_POOL_SIZE] s;
     let s = upd_proc p (\<lambda>q. q\<lparr>p_exit_code := code, p_state := PROC_STATE_EXITED\<rparr>) s;
     (case p_parent (prc s p) of
        None \<Rightarrow> Some s
      | Some par \<Rightarrow> do { (_, s) \<leftarrow> proc_signal my_cpu (Some par) (int SIGCHLD) s; Some s })
   }"

definition proc_reap :: "nat \<Rightarrow> bsd_state \<Rightarrow> bsd_state" where
  "proc_reap p s =
     (if p_state (prc s p) \<noteq> PROC_STATE_EXITED then s
      else let s = (case p_task (prc s p) of
                      None \<Rightarrow> s
                    | Some t \<Rightarrow> let s = destroy_task_map t s
                        in upd_proc p (\<lambda>q. q\<lparr>p_task := None\<rparr>) (s\<lparr>ta_signature := (ta_signature s)(t := 0)\<rparr>))
           in upd_proc p (\<lambda>q. q\<lparr>p_signature := 0, p_state := 0, p_pid := 0, p_ppid := 0, p_parent := None\<rparr>) s)"

section \<open>Waiting and leaving\<close>

definition is_child :: "nat \<Rightarrow> nat \<Rightarrow> bsd_state \<Rightarrow> bool" where
  "is_child par i s \<longleftrightarrow> p_signature (prc s i) = CHIMERA_PROC_MAGIC \<and> (p_parent (prc s i) = Some par \<or> p_ppid (prc s i) = p_pid (prc s par))"

definition proc_find_waitable_child :: "nat \<Rightarrow> u32 \<Rightarrow> bsd_state \<Rightarrow> nat option" where
  "proc_find_waitable_child par pid s =
     List.find (\<lambda>i. is_child par i s \<and> (pid = - 1 \<or> pid = 0 \<or> p_pid (prc s i) = pid) \<and> p_state (prc s i) = PROC_STATE_EXITED) [1..<PROC_POOL_SIZE]"

definition proc_has_children :: "nat \<Rightarrow> bsd_state \<Rightarrow> bool" where
  "proc_has_children par s \<longleftrightarrow> (\<exists>i \<in> set [1..<PROC_POOL_SIZE]. is_child par i s)"

definition SIZEOF_RUSAGE :: nat where "SIZEOF_RUSAGE = 144"

text \<open>A child has been found.\<close>
definition wait_harvest :: "nat \<Rightarrow> nat \<Rightarrow> u64 \<Rightarrow> u64 \<Rightarrow> bsd_state \<Rightarrow> int \<times> bsd_state" where
  "wait_harvest p c status_ptr rusage s =
     (let status = push_bit 8 (p_exit_code (prc s c)); child_pid = p_pid (prc s c);
          s = upd_proc p (\<lambda>q. q\<lparr>p_sigpending := p_sigpending q AND NOT (sig_bit SIGCHLD)\<rparr>) (proc_reap c s);
          s = (if status_ptr \<noteq> 0 then snd (copyout_s (le32 status) status_ptr s) else s);
          s = (if rusage \<noteq> 0 then snd (copyout_s (replicate SIZEOF_RUSAGE 0) rusage s) else s)
      in (uint child_pid, s))"

text \<open>One iteration of the loop of \<^verbatim>\<open>wait4\<close> at the time \<open>now\<close>; \<open>None\<close> as a result says that the thread sleeps and the loop goes on.\<close>
definition wait4_iter :: "nat \<Rightarrow> u64 \<Rightarrow> nat \<Rightarrow> u32 \<Rightarrow> u64 \<Rightarrow> u64 \<Rightarrow> u64 \<Rightarrow> bsd_state \<Rightarrow> (int option \<times> bsd_state) option" where
  "wait4_iter my_cpu now p pid status_ptr options rusage s =
     (case proc_find_waitable_child p pid s of
        Some c \<Rightarrow> let (r, s) = wait_harvest p c status_ptr rusage s in Some (Some r, s)
      | None \<Rightarrow>
          if options AND 1 \<noteq> 0 then Some (Some 0, s)
          else if \<not> proc_has_children p s then Some (Some (- 10), s)
          else do {
            sc \<leftarrow> thread_sleep_until my_cpu (now + 200) (i_sched (b_ipc s));
            Some (None, s\<lparr>b_ipc := (b_ipc s)\<lparr>i_sched := sc\<rparr>\<rparr>)
          })"

text \<open>\<^verbatim>\<open>wait4\<close> up to its first sleep.\<close>
definition sys_wait4 :: "nat \<Rightarrow> u64 \<Rightarrow> u64 \<Rightarrow> u64 \<Rightarrow> u64 \<Rightarrow> u64 \<Rightarrow> bsd_state \<Rightarrow> (int option \<times> bsd_state) option" where
  "sys_wait4 my_cpu now pid_u status_ptr options rusage s =
     (case cur_proc my_cpu s of
        None \<Rightarrow> Some (Some (- 1), s)
      | Some p \<Rightarrow>
          if \<not> proc_has_children p s then Some (Some (- 10), s)
          else wait4_iter my_cpu now p (ucast pid_u) status_ptr options rusage s)"

text \<open>\<^verbatim>\<open>sys_exit_direct\<close> up to its last loop, in which the thread only yields.\<close>
definition sys_exit_direct :: "out_fn \<Rightarrow> nat \<Rightarrow> u64 \<Rightarrow> bsd_state \<Rightarrow> bsd_state option" where
  "sys_exit_direct out my_cpu code s = do {
     let task = current_task my_cpu (b_ipc s);
     let k = Pmap.pmap_kernel_pml4 (b_pm s);
     let pm = (b_pm s)\<lparr>cpu_cr3 := k\<rparr>;
     let pm = (if my_cpu < CHIMERA_MAX_CPUS then pm\<lparr>pmap_state.cpu_active_cr3 := (pmap_state.cpu_active_cr3 pm)(my_cpu := k AND 0x000FFFFFFFFFF000)\<rparr> else pm);
     let s = set_bpm pm s;
     s \<leftarrow> (case Option.bind task (ta_proc s) of None \<Rightarrow> Some s | Some p \<Rightarrow> proc_mark_exited out my_cpu p (ucast code) s);
     (case current_thread my_cpu (i_sched (b_ipc s)) of
        None \<Rightarrow> Some s
      | Some th \<Rightarrow> do {
          sc \<leftarrow> scheduler_remove_thread (Some th) (i_sched (b_ipc s));
          Some (s\<lparr>b_ipc := (b_ipc s)\<lparr>i_sched := sc\<rparr>\<rparr>)
        })
   }"

definition sys_exit :: "out_fn \<Rightarrow> nat \<Rightarrow> u64 \<Rightarrow> bsd_state \<Rightarrow> bsd_state option" where
  "sys_exit = sys_exit_direct"

section \<open>fork\<close>

definition FORK_THREADS :: nat where "FORK_THREADS = 256"

text \<open>An entry of the parent's name table, as the child inherits it.\<close>
definition inherit_entry :: "nat \<Rightarrow> nat \<Rightarrow> nat \<Rightarrow> ipc_state \<Rightarrow> ipc_state option" where
  "inherit_entry psp csp i s =
     (let e = is_table (i_spaces s psp) i in
      if ie_object e = None \<or> ie_bits e = MACH_PORT_TYPE_NONE \<or> ie_bits e AND MACH_PORT_TYPE_RECEIVE \<noteq> 0 then Some s
      else do {
        p \<leftarrow> as_port (ie_object e);
        let s = upd_space csp (\<lambda>x. if i \<ge> unat (is_table_used x) then x\<lparr>is_table_used := word_of_nat (i + 1)\<rparr> else x) s;
        let s = upd_space csp (upd_entry (word_of_nat i) (\<lambda>c. c\<lparr>ie_object := ie_object e, ie_bits := ie_bits e, ie_urefs := ie_urefs e\<rparr>)) s;
        Some (ipc_port_reference p s)
      })"

fun inherit_entries :: "nat \<Rightarrow> nat \<Rightarrow> nat list \<Rightarrow> ipc_state \<Rightarrow> ipc_state option" where
  "inherit_entries psp csp [] s = Some s"
| "inherit_entries psp csp (i # js) s = do { s \<leftarrow> inherit_entry psp csp i s; inherit_entries psp csp js s }"

text \<open>The address space and the names of the child.\<close>
definition fork_space :: "nat \<Rightarrow> nat \<Rightarrow> bsd_state \<Rightarrow> bsd_state option" where
  "fork_space pt ct s = do {
     let s = (if task_map ct s \<noteq> 0 then set_bpm (pm_release (task_map ct s) (b_pm s)) s else s);
     let (m, pm) = pmap_clone_user_space (task_map pt s) (b_pm s);
     let s = set_task_map ct m (set_bpm pm s);
     let i = b_ipc s;
     let i = i\<lparr>ta_mmap_next := (ta_mmap_next i)(ct := ta_mmap_next i pt)\<rparr>;
     i \<leftarrow> (case (ta_ipc_space i pt, ta_ipc_space i ct) of
             (Some psp, Some csp) \<Rightarrow> inherit_entries psp csp [1..<unat (is_table_used (i_spaces i psp))] i
           | _ \<Rightarrow> Some i);
     Some (s\<lparr>b_ipc := i\<rparr>)
   }"

text \<open>A thread of \<^verbatim>\<open>s_fork_threads\<close>, whose first one has the index \<open>ft\<close>, and its reset.\<close>
definition fork_thread_free :: "nat \<Rightarrow> bsd_state \<Rightarrow> nat \<Rightarrow> bool" where
  "fork_thread_free ft s i \<longleftrightarrow> th_signature s (ft + i) \<noteq> CHIMERA_THREAD_MAGIC
     \<or> (th_state (thr (i_sched (b_ipc s)) (ft + i)) = THREAD_STATE_HALTED \<and> th_running_cpu (thr (i_sched (b_ipc s)) (ft + i)) = NO_CPU)"

definition upd_sched :: "(sched \<Rightarrow> sched) \<Rightarrow> bsd_state \<Rightarrow> bsd_state" where
  "upd_sched f s = s\<lparr>b_ipc := (b_ipc s)\<lparr>i_sched := f (i_sched (b_ipc s))\<rparr>\<rparr>"

definition fork_thread_init :: "nat \<Rightarrow> nat \<Rightarrow> u32 \<Rightarrow> syscall_user_frame \<Rightarrow> bsd_state \<Rightarrow> bsd_state" where
  "fork_thread_init th ct prio f s =
     (let s = upd_sched (set_th th (\<lambda>x. \<lparr>th_id = 0, th_task = Some ct, th_state = THREAD_STATE_READY, th_priority = prio, th_context = 0, th_saved_sp = 0,
            th_kernel_stack = th_kernel_stack x, th_user_stack = 0, th_stack_base = th_stack_base x, th_stack_size = th_stack_size x,
            th_base_priority = 0, th_sched_priority = 0, th_cpu_usage = 0, th_running_cpu = 0, th_assigned_cpu = 0, th_wait_result = CHIMERA_SUCCESS,
            th_next = None, th_wait_next = None, th_fp_state = replicate 337 0, th_fp_initialized = False, th_sleep_deadline = 0\<rparr>)) s
      in s\<lparr>th_signature := (th_signature s)(th := CHIMERA_THREAD_MAGIC), th_syscall_frame := (th_syscall_frame s)(th := None),
           th_fork_frame := (th_fork_frame s)(th := Some f), th_fork_return_value := (th_fork_return_value s)(th := 0),
           th_is_fork_child := (th_is_fork_child s)(th := False), ta_threads := (ta_threads s)(ct := [th])\<rparr>)"

text \<open>A fork that fails after the process has been made.\<close>
definition fork_undo :: "out_fn \<Rightarrow> nat \<Rightarrow> nat \<Rightarrow> nat option \<Rightarrow> bsd_state \<Rightarrow> (int \<times> bsd_state) option" where
  "fork_undo out my_cpu c th s = do {
     let s = (case th of None \<Rightarrow> s
       | Some t \<Rightarrow> upd_sched (set_th t (\<lambda>x. x\<lparr>th_state := THREAD_STATE_HALTED\<rparr>)) (s\<lparr>th_signature := (th_signature s)(t := 0)\<rparr>));
     s \<leftarrow> proc_mark_exited out my_cpu c 255 s;
     Some (- 1, s)
   }"

text \<open>The first thread of the child.\<close>
definition fork_start :: "out_fn \<Rightarrow> nat \<Rightarrow> nat \<Rightarrow> nat \<Rightarrow> nat \<Rightarrow> u32 \<Rightarrow> syscall_user_frame \<Rightarrow> bsd_state \<Rightarrow> (int \<times> bsd_state) option" where
  "fork_start out ft my_cpu c ct prio f s =
     (case List.find (fork_thread_free ft s) [0..<FORK_THREADS] of
        None \<Rightarrow> fork_undo out my_cpu c None s
      | Some i \<Rightarrow> do {
          let th = ft + i;
          let s = fork_thread_init th ct prio f s;
          let (r, sc) = thread_init_fork_stack th (f_rip f) (f_rsp f) (i_sched (b_ipc s));
          let s = upd_sched (\<lambda>_. sc) s;
          if r \<noteq> 0 then fork_undo out my_cpu c (Some th) s
          else do {
            let s = s\<lparr>th_is_fork_child := (th_is_fork_child s)(th := True)\<rparr>;
            (r, sc) \<leftarrow> scheduler_add_thread (Some th) (i_sched (b_ipc s));
            let s = upd_sched (\<lambda>_. sc) s;
            if r \<noteq> 0 then fork_undo out my_cpu c (Some th) s
            else Some (uint (p_pid (prc s c)), s)
          }
        })"

definition sys_fork :: "out_fn \<Rightarrow> nat \<Rightarrow> nat \<Rightarrow> bsd_state \<Rightarrow> (int \<times> bsd_state) option" where
  "sys_fork out ft my_cpu s =
     (case (current_task my_cpu (b_ipc s), cur_proc my_cpu s, current_thread my_cpu (i_sched (b_ipc s))) of
        (Some pt, Some p, Some th) \<Rightarrow>
          (case th_syscall_frame s th of
             None \<Rightarrow> Some (- 1, s)
           | Some f \<Rightarrow> do {
               (err, r, s) \<leftarrow> proc_create out my_cpu (Some p) (p_comm (prc s p)) s;
               (case r of
                  None \<Rightarrow> Some (- 1, s)
                | Some c \<Rightarrow> do {
                    ct \<leftarrow> p_task (prc s c);
                    s \<leftarrow> fork_space pt ct s;
                    fork_start out ft my_cpu c ct (th_priority (thr (i_sched (b_ipc s)) th)) f s
                  })
             })
      | _ \<Rightarrow> Some (- 1, s))"

end
