(* ===== verification/Proc_Props.thy ===== *)
theory Proc_Props
  imports Proc Signal_Props Cred_Props
begin

text \<open>
  Properties of processes: the tree of processes over any sequence of creations, forks, exits and waits, the way of an exit code to the
  parent, and the end of process creation when the name spaces run out.
\<close>

unbundle bit_operations_syntax

section \<open>What the lower layers leave alone\<close>

definition same_procs :: "bsd_state \<Rightarrow> bsd_state \<Rightarrow> bool" where
  "same_procs s t \<longleftrightarrow> b_procs t = b_procs s \<and> b_fps t = b_fps s \<and> s_fp_used t = s_fp_used s \<and> proc_launchd t = proc_launchd s \<and> s_pid_seq t = s_pid_seq s"

lemma same_procs_refl [simp, intro]: "same_procs s s"
  by (simp add: same_procs_def)

lemma same_procs_trans: "same_procs s t \<Longrightarrow> same_procs t u \<Longrightarrow> same_procs s u"
  by (simp add: same_procs_def)

lemma same_procs_base [simp]:
  "same_procs s (set_bpm pm t) \<longleftrightarrow> same_procs s t" "same_procs s (set_km k t) \<longleftrightarrow> same_procs s t" "same_procs s (set_records n rs t) \<longleftrightarrow> same_procs s t"
  "same_procs s (upd_shm i f t) \<longleftrightarrow> same_procs s t" "same_procs s (set_task_map n m t) \<longleftrightarrow> same_procs s t" "same_procs s (upd_sched g t) \<longleftrightarrow> same_procs s t"
  "same_procs s (zero_task n t) \<longleftrightarrow> same_procs s t" "same_procs s (drop_pages ps t) \<longleftrightarrow> same_procs s t" "same_procs s (free_record r t) \<longleftrightarrow> same_procs s t"
  "same_procs s (destroy_task_map n t) \<longleftrightarrow> same_procs s t" "same_procs s (set_ta_proc n p t) \<longleftrightarrow> same_procs s t"
  by (simp_all add: same_procs_def set_bpm_def set_km_def set_records_def upd_shm_def set_task_map_def upd_sched_def zero_task_def drop_pages_def
      free_record_def destroy_task_map_def set_ta_proc_def Let_def)

lemma release_record_same [simp]: "same_procs s (release_record r t) \<longleftrightarrow> same_procs s t"
proof -
  have "same_procs s (mmap_shm_release i t) \<longleftrightarrow> same_procs s t" for i by (simp add: mmap_shm_release_def Let_def)
  moreover have "same_procs s (mmap_surface_release i t) \<longleftrightarrow> same_procs s t" for i
    by (simp add: mmap_surface_release_def Let_def drop_pages_def set_bpm_def same_procs_def)
  ultimately show ?thesis by (simp add: release_record_def)
qed

lemma unmap_in_same: "unmap_in m a n rel s = Some t \<Longrightarrow> same_procs s t"
  by (auto simp: unmap_in_def split: bind_splits)

lemma destroy_records_same: "destroy_records rs m s = Some t \<Longrightarrow> same_procs s t"
proof (induction rs arbitrary: s)
  case (Cons r rs)
  from Cons.prems obtain u where u: "(if mr_kind r = CHIMERA_MMAP_KIND_FB
      then (if m \<noteq> 0 then unmap_in m (mr_start r) (mr_len r) False s else Some s) else Some (release_record r s)) = Some u"
    "destroy_records rs m (free_record r u) = Some t"
    by (auto split: bind_splits)
  have "same_procs s u" using u(1) unmap_in_same by (auto split: if_splits)
  then show ?case using Cons.IH [OF u(2)] same_procs_trans [of s "free_record r u" t] by simp
qed simp

lemma halt_threads_same: "halt_threads ths s = Some t \<Longrightarrow> same_procs s t"
proof (induction ths arbitrary: s)
  case (Cons th ths)
  from Cons.prems obtain sc where "halt_threads ths (s\<lparr>b_ipc := (b_ipc s)\<lparr>i_sched := sc\<rparr>, th_signature := (th_signature s)(th := 0)\<rparr>) = Some t"
    by (auto split: bind_splits)
  from Cons.IH [OF this] show ?case by (simp add: same_procs_def)
qed simp

lemma task_teardown_same: "task_teardown c n s = Some t \<Longrightarrow> same_procs s t"
proof -
  assume "task_teardown c n s = Some t"
  then obtain u v where u: "halt_threads (ta_threads s n) s = Some u"
    and v: "mmap_records_destroy n (u\<lparr>ta_threads := (ta_threads u)(n := []), ta_thread_count := (ta_thread_count u)(n := 0)\<rparr>) = Some v"
    and t: "t = destroy_task_map n v \<or> (\<exists>i. t = (destroy_task_map n v)\<lparr>b_ipc := i\<rparr>)"
    by (auto simp: task_teardown_def Let_def split: bind_splits option.splits)
  have "same_procs u v" using destroy_records_same [OF v [unfolded mmap_records_destroy_def]] by (simp add: same_procs_def set_records_def)
  moreover have "same_procs v t" using t by (auto simp: same_procs_def destroy_task_map_def set_task_map_def set_bpm_def)
  ultimately show ?thesis using halt_threads_same [OF u] same_procs_trans by blast
qed

lemma task_create_same: "task_create s = Some (e, r, t) \<Longrightarrow> same_procs s t"
  by (auto simp: task_create_def task_self_port_def Let_def same_procs_def zero_task_def set_bpm_def split: option.splits bind_splits prod.splits)

lemma copyout_s_same: "same_procs s (snd (copyout_s bs a s))"
  by (simp add: copyout_s_def same_procs_def split: prod.split)

lemma wake_first_same: "wake_first c p s = Some t \<Longrightarrow> same_procs s t"
  by (auto simp: wake_first_def same_procs_def split: option.splits list.splits bind_splits)

lemma fork_space_same: "fork_space pt ct s = Some t \<Longrightarrow> same_procs s t"
  by (auto simp: fork_space_def Let_def same_procs_def set_task_map_def set_bpm_def split: bind_splits prod.splits if_splits)

lemma fork_thread_init_same [simp]: "same_procs s (fork_thread_init th ct prio f t) \<longleftrightarrow> same_procs s t"
  by (simp add: fork_thread_init_def Let_def same_procs_def upd_sched_def)

section \<open>The tree of processes\<close>

abbreviation live :: "bsd_state \<Rightarrow> nat \<Rightarrow> bool" where "live s i \<equiv> p_signature (prc s i) = CHIMERA_PROC_MAGIC"
abbreviation pool :: "nat \<Rightarrow> bool" where "pool i \<equiv> 1 \<le> i \<and> i < PROC_POOL_SIZE"

text \<open>A process that may have children.\<close>
definition can_parent :: "bsd_state \<Rightarrow> nat \<Rightarrow> bool" where
  "can_parent s q \<longleftrightarrow> (pool q \<or> q = KERNEL_PROC) \<and> live s q \<and> p_state (prc s q) = PROC_STATE_RUNNING"

definition parent_ok :: "bsd_state \<Rightarrow> nat \<Rightarrow> bool" where
  "parent_ok s i = (case p_parent (prc s i) of None \<Rightarrow> p_ppid (prc s i) = 0 | Some q \<Rightarrow> can_parent s q \<and> p_ppid (prc s i) = p_pid (prc s q))"

definition proc_ok :: "bsd_state \<Rightarrow> nat \<Rightarrow> bool" where
  "proc_ok s i \<longleftrightarrow> p_pid (prc s i) \<noteq> 0 \<and> p_pid (prc s i) < s_pid_seq s \<and> p_state (prc s i) \<in> {PROC_STATE_RUNNING, PROC_STATE_EXITED} \<and> parent_ok s i"

text \<open>Every process has its own identifier, and a parent that runs, under the parent's identifier; processes that are gone have no
  descriptors; the kernel process and launchd run.\<close>
definition proc_inv :: "bsd_state \<Rightarrow> bool" where
  "proc_inv s \<longleftrightarrow> (\<forall>i. pool i \<longrightarrow> live s i \<longrightarrow> proc_ok s i)
     \<and> (\<forall>i j. pool i \<longrightarrow> pool j \<longrightarrow> live s i \<longrightarrow> live s j \<longrightarrow> p_pid (prc s i) = p_pid (prc s j) \<longrightarrow> i = j)
     \<and> (\<forall>i j. pool i \<longrightarrow> \<not> live s i \<or> p_state (prc s i) = PROC_STATE_EXITED \<or> CHIMERA_PROC_MAX_FDS \<le> j \<longrightarrow> fdt s i j = None)
     \<and> can_parent s KERNEL_PROC \<and> p_pid (prc s KERNEL_PROC) = 0
     \<and> (\<exists>l. proc_launchd s = Some l \<and> pool l \<and> can_parent s l \<and> p_parent (prc s l) = Some KERNEL_PROC)"

text \<open>What the invariant depends on.\<close>
definition pkey :: "chimera_proc \<Rightarrow> u64 \<times> u32 \<times> u32 \<times> nat option \<times> u32" where
  "pkey q = (p_signature q, p_pid q, p_ppid q, p_parent q, p_state q)"

definition same_keys :: "bsd_state \<Rightarrow> bsd_state \<Rightarrow> bool" where
  "same_keys s t \<longleftrightarrow> (\<forall>i. pkey (prc t i) = pkey (prc s i)) \<and> proc_launchd t = proc_launchd s \<and> s_pid_seq t = s_pid_seq s
     \<and> (\<forall>i j. fdt s i j = None \<longrightarrow> pool i \<longrightarrow> \<not> live s i \<or> p_state (prc s i) = PROC_STATE_EXITED \<or> CHIMERA_PROC_MAX_FDS \<le> j \<longrightarrow> fdt t i j = None)"

lemma same_keys_refl [simp, intro]: "same_keys s s"
  by (simp add: same_keys_def)

lemma same_keys_trans: "same_keys s t \<Longrightarrow> same_keys t u \<Longrightarrow> same_keys s u"
  unfolding same_keys_def pkey_def by auto

lemma same_procs_keys: "same_procs s t \<Longrightarrow> same_keys s t"
  by (simp add: same_keys_def same_procs_def)

lemma proc_inv_keys: "same_keys s t \<Longrightarrow> proc_inv s \<Longrightarrow> proc_inv t"
  unfolding same_keys_def proc_inv_def proc_ok_def parent_ok_def can_parent_def pkey_def prod.inject
  by (elim conjE) (auto split: option.splits)

lemma same_keys_upd:
  assumes "\<And>q. pkey (f q) = pkey q" and "\<And>q. p_fd_table (f q) = p_fd_table q"
  shows "same_keys s (upd_proc p f s)"
  using assms by (auto simp: same_keys_def prc_upd_proc upd_proc_def)

subsection \<open>Creation\<close>

lemma fp_free_procs: "fp_free r s = Some t \<Longrightarrow> b_procs t = b_procs s \<and> proc_launchd t = proc_launchd s \<and> s_pid_seq t = s_pid_seq s"
  by (cases r) (auto simp: fp_free_def Let_def upd_fp_def set_km_def split: if_splits)

lemma fp_release_procs: "fp_release out r s = Some t \<Longrightarrow> b_procs t = b_procs s \<and> proc_launchd t = proc_launchd s \<and> s_pid_seq t = s_pid_seq s"
  by (auto simp: fp_release_def fp_drop_object_def Let_def upd_fp_def upd_vn_def split: option.splits if_splits bind_splits dest!: fp_free_procs)

lemma fp_alloc_procs: "fp_alloc v fl s = Some (r, t) \<Longrightarrow> b_procs t = b_procs s \<and> proc_launchd t = proc_launchd s \<and> s_pid_seq t = s_pid_seq s"
  by (auto simp: fp_alloc_def fp_take_def Let_def upd_fp_def upd_vn_def set_km_def split: option.splits if_splits bind_splits)

text \<open>The set-up of a process changes nothing but its own descriptors, directory and signal dispositions.\<close>
definition own_change :: "nat \<Rightarrow> bsd_state \<Rightarrow> bsd_state \<Rightarrow> bool" where
  "own_change p s t \<longleftrightarrow> (\<forall>i. pkey (prc t i) = pkey (prc s i)) \<and> (\<forall>i. i \<noteq> p \<longrightarrow> prc t i = prc s i) \<and> proc_launchd t = proc_launchd s \<and> s_pid_seq t = s_pid_seq s
     \<and> (\<forall>j. CHIMERA_PROC_MAX_FDS \<le> j \<longrightarrow> fdt s p j = None \<longrightarrow> fdt t p j = None)"

lemma own_change_refl [simp, intro]: "own_change p s s"
  by (simp add: own_change_def)

lemma own_change_trans: "own_change p s t \<Longrightarrow> own_change p t u \<Longrightarrow> own_change p s u"
  by (simp add: own_change_def)

lemma own_change_upd: "(\<And>q. pkey (f q) = pkey q) \<Longrightarrow> (\<And>q. p_fd_table (f q) = p_fd_table q) \<Longrightarrow> own_change p s (upd_proc p f s)"
  by (simp add: own_change_def prc_upd_proc upd_proc_def)

lemma own_change_fd:
  "i < CHIMERA_PROC_MAX_FDS \<or> v = None \<Longrightarrow> own_change p s (set_fd p i v s)" "own_change p s (set_fd_flags p i w s)" "own_change p s (fp_retain r s)"
  by (auto simp: own_change_def set_fd_def set_fd_flags_def upd_proc_def fp_retain_def upd_fp_def pkey_def)

lemma own_change_procs: "b_procs t = b_procs s \<and> proc_launchd t = proc_launchd s \<and> s_pid_seq t = s_pid_seq s \<Longrightarrow> own_change p s t"
  by (simp add: own_change_def)

lemma own_change_keys: "own_change p s t \<Longrightarrow> live s p \<Longrightarrow> p_state (prc s p) \<noteq> PROC_STATE_EXITED \<Longrightarrow> same_keys s t"
  unfolding own_change_def same_keys_def by metis

lemma own_change_enter: "i < CHIMERA_PROC_MAX_FDS \<Longrightarrow> own_change p s (set_fd_flags p i w (set_fd p i v (fp_retain r s)))"
  using own_change_trans [OF own_change_fd(3) own_change_trans [OF own_change_fd(1,2)]] by blast

lemma install_own: "proc_fd_install (Some p) (Some r) s = Some (x, t) \<Longrightarrow> own_change p s t"
  by (auto simp: proc_fd_install_def proc_fd_alloc_from_def Let_def split: if_splits option.splits intro: own_change_enter dest: find_upt_some(2))

lemma open_std_own: "open_std out p v fl s = Some t \<Longrightarrow> own_change p s t"
  by (auto simp: open_std_def split: bind_splits option.splits dest!: fp_alloc_procs install_own fp_release_procs) (auto simp: own_change_def)

lemma std_fds_own: "std_fds out c p s = Some t \<Longrightarrow> own_change p s t"
  by (auto simp: std_fds_def split: bind_splits option.splits if_splits dest!: open_std_own intro: own_change_trans)

lemma inherit_own: "set is \<subseteq> {..<CHIMERA_PROC_MAX_FDS} \<Longrightarrow> own_change p s (fold (inherit_fd par p) is s)"
proof (induction "is" arbitrary: s)
  case (Cons i "is")
  have "own_change p s (inherit_fd par p i s)"
    using Cons.prems own_change_enter by (simp add: inherit_fd_def split: option.split)
  then show ?case using Cons own_change_trans by fastforce
qed simp

lemma init_fds_own: "init_fds out c parent p s = Some t \<Longrightarrow> own_change p s t"
  by (auto simp: init_fds_def atLeast0LessThan split: option.splits if_splits intro: std_fds_own inherit_own)

lemma init_cwd_own: "init_cwd c par p s = Some t \<Longrightarrow> own_change p s t"
  by (auto simp: init_cwd_def pkey_def split: option.splits bind_splits intro!: own_change_upd)

lemma proc_setup_own: "proc_setup out c parent p n s = Some t \<Longrightarrow> own_change p s t"
proof -
  assume "proc_setup out c parent p n s = Some t"
  then obtain u v where u: "init_cwd c (map_option (prc (set_ta_proc n p (upd_proc p (\<lambda>q. q\<lparr>p_task := Some n\<rparr>) s))) parent) p
      (set_ta_proc n p (upd_proc p (\<lambda>q. q\<lparr>p_task := Some n\<rparr>) s)) = Some u" and v: "init_fds out c parent p u = Some v"
    and t: "t = upd_proc p (\<lambda>q. (case parent of
         Some par \<Rightarrow> q\<lparr>p_sigmask := p_sigmask (prc v par), p_sigacts := p_sigacts (prc v par), p_sigact_flags := p_sigact_flags (prc v par),
           p_sigact_mask := p_sigact_mask (prc v par)\<rparr>
       | None \<Rightarrow> q)\<lparr>p_sigpending := 0\<rparr>) v"
    by (auto simp: proc_setup_def Let_def split: bind_splits)
  have "own_change p s (set_ta_proc n p (upd_proc p (\<lambda>q. q\<lparr>p_task := Some n\<rparr>) s))"
    by (simp add: own_change_def set_ta_proc_def upd_proc_def pkey_def)
  moreover have "own_change p v t" unfolding t by (rule own_change_upd) (simp_all add: pkey_def split: option.split)
  ultimately show ?thesis using own_change_trans init_cwd_own [OF u] init_fds_own [OF v] by blast
qed

lemma new_proc_key:
  "pkey (new_proc pid par parent name) = (CHIMERA_PROC_MAGIC, pid, (case par of Some q \<Rightarrow> p_pid q | None \<Rightarrow> 0), parent, PROC_STATE_RUNNING)"
  by (simp add: pkey_def new_proc_def zero_proc_def Let_def split: option.split)

lemma pkey_fields: "pkey q = (a, b, c, d, e) \<longleftrightarrow> p_signature q = a \<and> p_pid q = b \<and> p_ppid q = c \<and> p_parent q = d \<and> p_state q = e"
  by (simp add: pkey_def)

text \<open>A new process in a free slot.\<close>
lemma proc_inv_add:
  assumes inv: "proc_inv s" and p: "pool p" "\<not> live s p" and par: "\<And>q. parent = Some q \<Longrightarrow> can_parent s q"
    and sq: "s_pid_seq s \<noteq> 0" "s_pid_seq s + 1 \<noteq> 0"
  shows "proc_inv (upd_proc p (\<lambda>_. new_proc (s_pid_seq s) (map_option (prc s) parent) parent name) (s\<lparr>s_pid_seq := s_pid_seq s + 1\<rparr>))"
proof -
  define n where "n = new_proc (s_pid_seq s) (map_option (prc s) parent) parent name"
  define t where "t = upd_proc p (\<lambda>_. n) (s\<lparr>s_pid_seq := s_pid_seq s + 1\<rparr>)"
  have k: "p_signature n = CHIMERA_PROC_MAGIC" "p_pid n = s_pid_seq s" "p_parent n = parent" "p_state n = PROC_STATE_RUNNING"
    "p_ppid n = (case parent of Some q \<Rightarrow> p_pid (prc s q) | None \<Rightarrow> 0)"
    using new_proc_key [of "s_pid_seq s" "map_option (prc s) parent" parent name] unfolding n_def pkey_fields by (auto split: option.splits)
  have pr: "prc t i = (if i = p then n else prc s i)" for i by (simp add: t_def upd_proc_def)
  have same: "proc_launchd t = proc_launchd s" "s_pid_seq t = s_pid_seq s + 1" by (simp_all add: t_def upd_proc_def)
  have lt: "x < s_pid_seq s + 1" if "x < s_pid_seq s \<or> x = s_pid_seq s" for x
    using that unatSuc [of "s_pid_seq s"] sq(2) by (auto simp: word_less_nat_alt add.commute)
  have cp: "can_parent t q" if "can_parent s q" for q using that p(2) by (auto simp: can_parent_def pr)
  have np: "\<not> can_parent s p" using p(2) by (simp add: can_parent_def)
  have ok: "proc_ok t i" if i: "pool i" "live t i" for i
  proof (cases "i = p")
    case True
    then show ?thesis using k sq lt cp np par by (auto simp: proc_ok_def parent_ok_def pr same split: option.splits)
  next
    case False
    then have "proc_ok s i" using inv i by (simp add: proc_inv_def pr)
    then show ?thesis using False lt cp np by (auto simp: proc_ok_def parent_ok_def pr same split: option.splits)
  qed
  have less: "p_pid (prc s i) < s_pid_seq s" if "pool i" "live s i" for i using inv that by (simp add: proc_inv_def proc_ok_def)
  have inj: "i = j" if "pool i" "pool j" "live t i" "live t j" "p_pid (prc t i) = p_pid (prc t j)" for i j
  proof -
    have old: "i = j" if "pool i" "pool j" "live s i" "live s j" "p_pid (prc s i) = p_pid (prc s j)" for i j
      using inv that unfolding proc_inv_def by blast
    have new: "p_pid (prc s i) \<noteq> s_pid_seq s" if "pool i" "live s i" for i using less [OF that] by auto
    show ?thesis using that k(2) new [of i] new [of j] old [of i j] by (cases "i = p"; cases "j = p") (simp_all add: pr)
  qed
  have nt: "p_fd_table n j = None" for j by (simp add: n_def new_proc_def zero_proc_def Let_def split: option.split)
  have fds: "fdt t i j = None" if "pool i" "\<not> live t i \<or> p_state (prc t i) = PROC_STATE_EXITED \<or> CHIMERA_PROC_MAX_FDS \<le> j" for i j
  proof (cases "i = p")
    case False
    then have "\<not> live s i \<or> p_state (prc s i) = PROC_STATE_EXITED \<or> CHIMERA_PROC_MAX_FDS \<le> j" "prc t i = prc s i" using that(2) by (simp_all add: pr)
    then show ?thesis using inv that(1) unfolding proc_inv_def by simp
  qed (simp add: pr nt)
  have kern: "p \<noteq> KERNEL_PROC" using p(1) by (simp add: KERNEL_PROC_def PROC_POOL_SIZE_def)
  obtain l where l: "proc_launchd s = Some l" "pool l" "can_parent s l" "p_parent (prc s l) = Some KERNEL_PROC" using inv by (auto simp: proc_inv_def)
  have "l \<noteq> p" using l(3) p(2) by (auto simp: can_parent_def)
  then have "\<exists>l. proc_launchd t = Some l \<and> pool l \<and> can_parent t l \<and> p_parent (prc t l) = Some KERNEL_PROC"
    using l cp by (simp add: same pr)
  moreover have "can_parent t KERNEL_PROC \<and> p_pid (prc t KERNEL_PROC) = 0" using inv cp kern by (simp add: proc_inv_def pr)
  ultimately have "proc_inv t" unfolding proc_inv_def using ok inj fds by blast
  then show ?thesis by (simp add: t_def n_def)
qed

lemma proc_create_cases:
  assumes "proc_create out c parent name s = Some (e, r, t)"
  obtains "e = CHIMERA_ERR_NOMEM" "r = None" "t = s" "\<And>i. pool i \<Longrightarrow> live s i"
    | p u where "pool p" and "\<not> live s p" and "task_create (upd_proc p (\<lambda>_. new_proc (fst (next_pid (s_pid_seq s))) (map_option (prc s) parent) parent name)
        (s\<lparr>s_pid_seq := snd (next_pid (s_pid_seq s))\<rparr>)) = Some (e, None, u)" and "r = None" and "t = u"
    | p u n e' where "pool p" and "\<not> live s p" and "task_create (upd_proc p (\<lambda>_. new_proc (fst (next_pid (s_pid_seq s))) (map_option (prc s) parent) parent name)
        (s\<lparr>s_pid_seq := snd (next_pid (s_pid_seq s))\<rparr>)) = Some (e', Some n, u)" and "proc_setup out c parent p n u = Some t" and "r = Some p"
      and "e = CHIMERA_SUCCESS"
proof (cases "List.find (\<lambda>i. \<not> live s i) [1..<PROC_POOL_SIZE]")
  case None
  then have "live s i" if "pool i" for i using that by (auto simp: find_None_iff)
  then show ?thesis using that(1) assms None by (auto simp: proc_create_def)
next
  case (Some p)
  note f = find_upt_some [OF Some]
  obtain e' r' u where u: "task_create (upd_proc p (\<lambda>_. new_proc (fst (next_pid (s_pid_seq s))) (map_option (prc s) parent) parent name)
        (s\<lparr>s_pid_seq := snd (next_pid (s_pid_seq s))\<rparr>)) = Some (e', r', u)"
    using assms Some by (auto simp: proc_create_def Let_def split: bind_splits prod.splits)
  have eq: "(case r' of None \<Rightarrow> Some (e', None, u) | Some n \<Rightarrow> do { s \<leftarrow> proc_setup out c parent p n u; Some (CHIMERA_SUCCESS, Some p, s) }) = Some (e, r, t)"
    using assms Some u by (simp add: proc_create_def Let_def split: prod.splits)
  show ?thesis
  proof (cases r')
    case None
    then show ?thesis using that(2) [of p u] eq u f by simp
  next
    case (Some n)
    then show ?thesis using that(3) [of p e' n u] eq u f by (auto split: bind_splits)
  qed
qed

lemma proc_create_inv:
  assumes c: "proc_create out c parent name s = Some (e, r, t)" and inv: "proc_inv s" and par: "\<And>q. parent = Some q \<Longrightarrow> can_parent s q"
    and sq: "s_pid_seq s \<noteq> 0" "s_pid_seq s + 1 \<noteq> 0"
  shows "proc_inv t"
proof -
  let ?u = "\<lambda>p. upd_proc p (\<lambda>_. new_proc (s_pid_seq s) (map_option (prc s) parent) parent name) (s\<lparr>s_pid_seq := s_pid_seq s + 1\<rparr>)"
  have n: "next_pid (s_pid_seq s) = (s_pid_seq s, s_pid_seq s + 1)" using sq by (simp add: next_pid_def)
  have l: "live (?u p) p" "p_state (prc (?u p) p) = PROC_STATE_RUNNING" for p
    using new_proc_key [of "s_pid_seq s" "map_option (prc s) parent" parent name] by (simp_all add: prc_upd_proc pkey_fields)
  show ?thesis
  proof (cases rule: proc_create_cases [OF c])
    case (2 p u)
    then show ?thesis using proc_inv_keys [OF same_procs_keys [OF task_create_same]] proc_inv_add [OF inv _ _ par sq] n by auto
  next
    case (3 p u n' e')
    have tc: "task_create (?u p) = Some (e', Some n', u)" using 3(3) n by simp
    have u: "same_procs (?u p) u" by (rule task_create_same [OF tc])
    then have "live u p" "p_state (prc u p) \<noteq> PROC_STATE_EXITED" using l [of p] by (auto simp: same_procs_def PROC_STATE_RUNNING_def PROC_STATE_EXITED_def)
    then have "same_keys u t" by (rule own_change_keys [OF proc_setup_own [OF 3(4)]])
    then show ?thesis using proc_inv_keys same_procs_keys [OF u] proc_inv_add [OF inv 3(1,2) par sq] by blast
  qed (use inv in simp)
qed

subsection \<open>Exit\<close>

lemma close_all_own:
  "close_all out p is s = Some t \<Longrightarrow> own_change p s t \<and> (\<forall>i. fdt t p i = (if i \<in> set is then None else fdt s p i))"
proof (induction "is" arbitrary: s)
  case (Cons i "is")
  show ?case
  proof (cases "fdt s p i")
    case None
    then show ?thesis using Cons by auto
  next
    case (Some fp)
    then obtain u where u: "fp_release out (Some fp) (set_fd p i None s) = Some u" "close_all out p is u = Some t"
      using Cons.prems by (auto split: bind_splits)
    note f = fp_release_procs [OF u(1)]
    have "own_change p s u" using f own_change_fd(1) [of i None p s] by (auto simp: own_change_def set_fd_def upd_proc_def)
    then show ?thesis using Cons.IH [OF u(2)] f own_change_trans [of p s u t] by auto
  qed
qed simp

text \<open>The loop that hands the children on.\<close>
lemma fold_reparent:
  assumes "distinct is"
  shows "prc (fold (reparent p) is s) i = (if i \<in> set is \<and> is_child p i s
      then (prc s i)\<lparr>p_parent := proc_launchd s, p_ppid := (case proc_launchd s of Some l \<Rightarrow> p_pid (prc s l) | None \<Rightarrow> 1)\<rparr> else prc s i)"
    and "proc_launchd (fold (reparent p) is s) = proc_launchd s" and "s_pid_seq (fold (reparent p) is s) = s_pid_seq s"
proof -
  have r: "prc (reparent p j u) i = (if i = j \<and> is_child p j u
      then (prc u i)\<lparr>p_parent := proc_launchd u, p_ppid := (case proc_launchd u of Some l \<Rightarrow> p_pid (prc u l) | None \<Rightarrow> 1)\<rparr> else prc u i)"
    "proc_launchd (reparent p j u) = proc_launchd u" "s_pid_seq (reparent p j u) = s_pid_seq u" for j u i
    by (auto simp: reparent_def is_child_def upd_proc_def split: option.split)
  have "(\<forall>i. prc (fold (reparent p) is s) i = (if i \<in> set is \<and> is_child p i s
      then (prc s i)\<lparr>p_parent := proc_launchd s, p_ppid := (case proc_launchd s of Some l \<Rightarrow> p_pid (prc s l) | None \<Rightarrow> 1)\<rparr> else prc s i))
     \<and> proc_launchd (fold (reparent p) is s) = proc_launchd s \<and> s_pid_seq (fold (reparent p) is s) = s_pid_seq s"
    using assms
  proof (induction "is" arbitrary: s)
    case (Cons j "is")
    let ?u = "reparent p j s"
    have ch: "is_child p i ?u \<longleftrightarrow> is_child p i s" if "i \<noteq> j" for i using that r(1) [of j s] by (simp add: is_child_def)
    have pid: "p_pid (prc ?u i) = p_pid (prc s i)" for i using r(1) [of j s i] by simp
    note IH = Cons.IH [of ?u]
    have d: "distinct is" "j \<notin> set is" using Cons.prems by auto
    have c: "(case proc_launchd ?u of Some l \<Rightarrow> p_pid (prc ?u l) | None \<Rightarrow> 1) = (case proc_launchd s of Some l \<Rightarrow> p_pid (prc s l) | None \<Rightarrow> 1)"
      using r(2) pid by (simp split: option.split)
    show ?case
    proof (intro conjI allI)
      fix i
      show "prc (fold (reparent p) (j # is) s) i = (if i \<in> set (j # is) \<and> is_child p i s
        then (prc s i)\<lparr>p_parent := proc_launchd s, p_ppid := (case proc_launchd s of Some l \<Rightarrow> p_pid (prc s l) | None \<Rightarrow> 1)\<rparr> else prc s i)"
      proof (cases "i = j")
        case True
        then show ?thesis using IH [OF d(1)] r(1) [of j s j] d(2) by simp
      next
        case False
        then show ?thesis using IH [OF d(1)] r(1) [of j s i] ch [OF False] r(2) [of j s] c by simp
      qed
    qed (use IH [OF d(1)] r [of j s] in simp_all)
  qed simp
  then show "prc (fold (reparent p) is s) i = (if i \<in> set is \<and> is_child p i s
      then (prc s i)\<lparr>p_parent := proc_launchd s, p_ppid := (case proc_launchd s of Some l \<Rightarrow> p_pid (prc s l) | None \<Rightarrow> 1)\<rparr> else prc s i)"
    "proc_launchd (fold (reparent p) is s) = proc_launchd s" "s_pid_seq (fold (reparent p) is s) = s_pid_seq s" by blast+
qed

text \<open>The two ways to recognise a child agree.\<close>
lemma is_child_parent:
  assumes inv: "proc_inv s" and p: "pool p" "live s p" and i: "pool i"
  shows "is_child p i s \<longleftrightarrow> live s i \<and> p_parent (prc s i) = Some p"
proof (cases "live s i")
  case True
  have ok: "proc_ok s i" "proc_ok s p" using inv True i p by (simp_all add: proc_inv_def)
  have inj: "q = p" if "pool q" "live s q" "p_pid (prc s q) = p_pid (prc s p)" for q using inv that p unfolding proc_inv_def by blast
  have "p_parent (prc s i) = Some p" if "p_ppid (prc s i) = p_pid (prc s p)"
  proof (cases "p_parent (prc s i)")
    case None
    then show ?thesis using ok that by (simp add: proc_ok_def parent_ok_def)
  next
    case (Some q)
    then have "can_parent s q" "p_pid (prc s q) = p_pid (prc s p)" using ok that by (simp_all add: proc_ok_def parent_ok_def)
    then show ?thesis using Some inj ok(2) inv by (auto simp: can_parent_def proc_ok_def proc_inv_def)
  qed
  then show ?thesis using True by (auto simp: is_child_def)
qed (simp add: is_child_def)

text \<open>The end of a process, seen from the tree.\<close>
lemma proc_inv_exit:
  fixes code :: u32
  assumes inv: "proc_inv s" and p: "pool p" "can_parent s p" "proc_launchd s \<noteq> Some p" and fds: "\<forall>j. fdt s p j = None"
  defines "t \<equiv> upd_proc p (\<lambda>q. q\<lparr>p_exit_code := code, p_state := PROC_STATE_EXITED\<rparr>) (fold (reparent p) [1..<PROC_POOL_SIZE] s)"
  shows "proc_inv t"
proof -
  have lp: "live s p" using p(2) by (simp add: can_parent_def)
  obtain l where l: "proc_launchd s = Some l" "pool l" "can_parent s l" "p_parent (prc s l) = Some KERNEL_PROC" using inv by (auto simp: proc_inv_def)
  have kp: "KERNEL_PROC \<noteq> p" "l \<noteq> p" using p(1,3) l(1) by (auto simp: KERNEL_PROC_def PROC_POOL_SIZE_def)
  define moved where "moved i = (pool i \<and> live s i \<and> p_parent (prc s i) = Some p)" for i
  have ch: "i \<in> set [1..<PROC_POOL_SIZE] \<and> is_child p i s \<longleftrightarrow> moved i" for i using is_child_parent [OF inv p(1) lp, of i] by (auto simp: moved_def)
  have pt: "prc t i = (let q = (if moved i then (prc s i)\<lparr>p_parent := Some l, p_ppid := p_pid (prc s l)\<rparr> else prc s i) in
      if i = p then q\<lparr>p_exit_code := code, p_state := PROC_STATE_EXITED\<rparr> else q)" for i
    unfolding t_def prc_upd_proc fold_reparent(1) [OF distinct_upt] ch by (simp add: l(1))
  have st: "proc_launchd t = proc_launchd s" "s_pid_seq t = s_pid_seq s"
    unfolding t_def using fold_reparent(2,3) [OF distinct_upt] by (simp_all add: upd_proc_def)
  have f: "p_signature (prc t i) = p_signature (prc s i)" "p_pid (prc t i) = p_pid (prc s i)" "fdt t i j = fdt s i j"
    "p_state (prc t i) = (if i = p then PROC_STATE_EXITED else p_state (prc s i))"
    "p_parent (prc t i) = (if moved i then Some l else p_parent (prc s i))"
    "p_ppid (prc t i) = (if moved i then p_pid (prc s l) else p_ppid (prc s i))" for i j
    by (simp_all add: pt Let_def)
  have cp: "can_parent t q \<longleftrightarrow> can_parent s q \<and> q \<noteq> p" for q
    by (auto simp: can_parent_def f PROC_STATE_RUNNING_def PROC_STATE_EXITED_def)
  have ok: "proc_ok t i" if i: "pool i" "live t i" for i
  proof -
    have li: "live s i" using i(2) by (simp only: f(1))
    then have "proc_ok s i" using inv i(1) unfolding proc_inv_def by blast
    then show ?thesis
      using l(3) kp(2) i(1) li by (auto simp: proc_ok_def parent_ok_def f st cp moved_def split: option.splits)
  qed
  have "\<not> moved l" using l(4) kp(1) by (simp add: moved_def)
  then have "\<exists>l. proc_launchd t = Some l \<and> pool l \<and> can_parent t l \<and> p_parent (prc t l) = Some KERNEL_PROC" using l kp(2) by (simp add: st cp f)
  moreover have "i = j" if "pool i" "pool j" "live t i" "live t j" "p_pid (prc t i) = p_pid (prc t j)" for i j
    using inv that unfolding proc_inv_def f by blast
  moreover have "fdt t i j = None" if "pool i" "\<not> live t i \<or> p_state (prc t i) = PROC_STATE_EXITED \<or> CHIMERA_PROC_MAX_FDS \<le> j" for i j
    using inv that fds unfolding proc_inv_def f by (cases "i = p") auto
  moreover have "can_parent t KERNEL_PROC \<and> p_pid (prc t KERNEL_PROC) = 0" using inv kp(1) by (simp add: proc_inv_def cp f)
  ultimately show ?thesis unfolding proc_inv_def using ok by blast
qed

lemma post_signal_keys: "same_keys s (post_signal p sig s)"
  unfolding post_signal_def by (rule same_keys_upd) (simp_all add: pkey_def)

lemma proc_signal_keys: "proc_signal c pr sig s = Some (e, t) \<Longrightarrow> same_keys s t"
  using same_keys_trans [OF post_signal_keys same_procs_keys [OF wake_first_same]]
  by (auto simp: proc_signal_def split: option.splits if_splits bind_splits)

text \<open>The steps of \<^const>\<open>proc_mark_exited\<close>: all the tree sees is \<open>proc_inv_exit\<close>.\<close>
lemma mark_exited_steps:
  assumes "proc_mark_exited out c p code s = Some t"
  obtains v where "own_change p s v" and "\<forall>j < CHIMERA_PROC_MAX_FDS. fdt v p j = None" and "\<forall>j. fdt s p j = None \<longrightarrow> fdt v p j = None"
    and "same_keys (upd_proc p (\<lambda>q. q\<lparr>p_exit_code := code, p_state := PROC_STATE_EXITED\<rparr>) (fold (reparent p) [1..<PROC_POOL_SIZE] v)) t"
    and "p_exit_code (prc t p) = code"
    and "\<And>par. p_parent (prc t p) = Some par \<Longrightarrow> \<exists>u e. proc_signal c (Some par) (int SIGCHLD) u = Some (e, t)
      \<and> prc u par = prc (upd_proc p (\<lambda>q. q\<lparr>p_exit_code := code, p_state := PROC_STATE_EXITED\<rparr>) (fold (reparent p) [1..<PROC_POOL_SIZE] v)) par"
proof -
  obtain u where u: "close_all out p [0..<CHIMERA_PROC_MAX_FDS] s = Some u" using assms by (auto simp: proc_mark_exited_def split: bind_splits)
  let ?u = "upd_proc p (\<lambda>q. q\<lparr>p_text_node := None, p_cwd := None\<rparr>) u"
  obtain v where v: "(case p_task (prc ?u p) of None \<Rightarrow> Some ?u | Some n \<Rightarrow> task_teardown c n ?u) = Some v"
    using assms u by (auto simp: proc_mark_exited_def Let_def split: bind_splits)
  let ?w = "upd_proc p (\<lambda>q. q\<lparr>p_exit_code := code, p_state := PROC_STATE_EXITED\<rparr>) (fold (reparent p) [1..<PROC_POOL_SIZE] v)"
  have fin: "(case p_parent (prc ?w p) of None \<Rightarrow> Some ?w | Some par \<Rightarrow> do { (_, s) \<leftarrow> proc_signal c (Some par) (int SIGCHLD) ?w; Some s }) = Some t"
    using assms u v by (simp add: proc_mark_exited_def Let_def del: One_nat_def)
  have "same_procs ?u v" using v task_teardown_same by (auto split: option.splits)
  then have sv: "b_procs v = b_procs ?u" "proc_launchd v = proc_launchd ?u" "s_pid_seq v = s_pid_seq ?u" by (simp_all add: same_procs_def)
  note cl = close_all_own [OF u]
  have o: "own_change p s v"
    using cl sv by (auto simp: own_change_def prc_upd_proc pkey_def upd_proc_def)
  have f: "fdt v p j = (if j < CHIMERA_PROC_MAX_FDS then None else fdt s p j)" for j using cl sv(1) by (simp add: prc_upd_proc)
  have k: "same_keys ?w t \<and> p_exit_code (prc t p) = p_exit_code (prc ?w p) \<and> p_parent (prc t p) = p_parent (prc ?w p)"
  proof (cases "p_parent (prc ?w p)")
    case None
    then show ?thesis using fin by simp
  next
    case (Some par)
    then obtain e where e: "proc_signal c (Some par) (int SIGCHLD) ?w = Some (e, t)" using fin by (auto split: bind_splits)
    have "p_exit_code (prc t p) = p_exit_code (prc ?w p)"
      using e by (auto simp: proc_signal_def post_signal_def prc_upd_proc split: if_splits bind_splits dest!: wake_first_frame)
    then show ?thesis using proc_signal_keys [OF e] by (simp add: same_keys_def pkey_def)
  qed
  show ?thesis
  proof (rule that [OF o])
    show "same_keys ?w t" using k by blast
    show "p_exit_code (prc t p) = code" using k by (simp add: prc_upd_proc)
    show "\<exists>u e. proc_signal c (Some par) (int SIGCHLD) u = Some (e, t) \<and> prc u par = prc ?w par" if "p_parent (prc t p) = Some par" for par
      using that k fin by (auto split: bind_splits)
  qed (use f in auto)
qed

lemma mark_exited_inv:
  assumes x: "proc_mark_exited out c p code s = Some t" and inv: "proc_inv s"
    and p: "pool p" "can_parent s p" "proc_launchd s \<noteq> Some p"
  shows "proc_inv t"
proof (rule mark_exited_steps [OF x])
  fix v
  assume o: "own_change p s v" and f: "\<forall>j < CHIMERA_PROC_MAX_FDS. fdt v p j = None" "\<forall>j. fdt s p j = None \<longrightarrow> fdt v p j = None"
    and k: "same_keys (upd_proc p (\<lambda>q. q\<lparr>p_exit_code := code, p_state := PROC_STATE_EXITED\<rparr>) (fold (reparent p) [1..<PROC_POOL_SIZE] v)) t"
  have "same_keys s v" using own_change_keys [OF o] p(2) by (auto simp: can_parent_def PROC_STATE_RUNNING_def PROC_STATE_EXITED_def)
  then have "proc_inv v" by (rule proc_inv_keys [OF _ inv])
  moreover have "can_parent v p" using p(2) o by (simp add: can_parent_def own_change_def pkey_def)
  moreover have "proc_launchd v \<noteq> Some p" using p(3) o by (simp add: own_change_def)
  moreover have "fdt v p j = None" for j
    using f inv p(1) unfolding proc_inv_def by (cases "j < CHIMERA_PROC_MAX_FDS") auto
  ultimately show ?thesis using proc_inv_keys [OF k] proc_inv_exit p(1) by blast
qed

subsection \<open>Waiting and the other calls\<close>

lemma proc_reap_eq:
  assumes "p_state (prc s p) = PROC_STATE_EXITED"
  shows "prc (proc_reap p s) i = (if i = p then (prc s p)\<lparr>p_task := None, p_signature := 0, p_state := 0, p_pid := 0, p_ppid := 0, p_parent := None\<rparr> else prc s i)"
    and "proc_launchd (proc_reap p s) = proc_launchd s" and "s_pid_seq (proc_reap p s) = s_pid_seq s"
proof -
  have d: "b_procs (destroy_task_map t s) = b_procs s" "proc_launchd (destroy_task_map t s) = proc_launchd s" "s_pid_seq (destroy_task_map t s) = s_pid_seq s" for t
    using same_procs_base(10) [of s t s] by (simp_all add: same_procs_def)
  show "prc (proc_reap p s) i = (if i = p then (prc s p)\<lparr>p_task := None, p_signature := 0, p_state := 0, p_pid := 0, p_ppid := 0, p_parent := None\<rparr> else prc s i)"
    "proc_launchd (proc_reap p s) = proc_launchd s" "s_pid_seq (proc_reap p s) = s_pid_seq s"
    using assms d by (simp_all add: proc_reap_def Let_def upd_proc_def split: option.split)
qed

lemma proc_inv_reap:
  assumes inv: "proc_inv s" and p: "pool p" "live s p" "p_state (prc s p) = PROC_STATE_EXITED"
  shows "proc_inv (proc_reap p s)"
proof -
  let ?t = "proc_reap p s"
  note r = proc_reap_eq [OF p(3)]
  have np: "\<not> can_parent s p" using p(3) by (simp add: can_parent_def PROC_STATE_RUNNING_def PROC_STATE_EXITED_def)
  have dead: "\<not> live ?t p" by (simp add: r(1) CHIMERA_PROC_MAGIC_def)
  have cp: "can_parent ?t q \<longleftrightarrow> can_parent s q" for q using np dead by (cases "q = p") (simp_all add: can_parent_def r(1))
  have ok: "proc_ok ?t i" if i: "pool i" "live ?t i" for i
  proof -
    have "i \<noteq> p" using i dead by auto
    then have e: "prc ?t i = prc s i" by (simp add: r(1))
    then have "proc_ok s i" using inv i unfolding proc_inv_def by simp
    then show ?thesis using np unfolding proc_ok_def parent_ok_def e r(3) cp by (auto simp: r(1) split: option.splits)
  qed
  obtain l where l: "proc_launchd s = Some l" "pool l" "can_parent s l" "p_parent (prc s l) = Some KERNEL_PROC" using inv by (auto simp: proc_inv_def)
  have "l \<noteq> p" "KERNEL_PROC \<noteq> p" using l(3) np inv by (auto simp: proc_inv_def)
  then have "\<exists>l. proc_launchd ?t = Some l \<and> pool l \<and> can_parent ?t l \<and> p_parent (prc ?t l) = Some KERNEL_PROC"
    and "can_parent ?t KERNEL_PROC \<and> p_pid (prc ?t KERNEL_PROC) = 0" using l inv by (simp_all add: r cp proc_inv_def)
  moreover have "i = j" if "pool i" "pool j" "live ?t i" "live ?t j" "p_pid (prc ?t i) = p_pid (prc ?t j)" for i j
  proof -
    have "i \<noteq> p" "j \<noteq> p" using that dead by auto
    then show ?thesis using inv that unfolding proc_inv_def by (simp add: r(1))
  qed
  moreover have "fdt ?t i j = None" if "pool i" "\<not> live ?t i \<or> p_state (prc ?t i) = PROC_STATE_EXITED \<or> CHIMERA_PROC_MAX_FDS \<le> j" for i j
    using inv p that unfolding proc_inv_def by (cases "i = p") (simp_all add: r(1))
  ultimately show ?thesis unfolding proc_inv_def using ok by blast
qed

text \<open>Reaping hands back an exited child and leaves the other processes alone.\<close>
lemma harvest_same: "same_keys (proc_reap c s) (snd (wait_harvest p c st ru s))"
proof -
  have u: "same_keys x (upd_proc p (\<lambda>q. q\<lparr>p_sigpending := p_sigpending q AND NOT (sig_bit SIGCHLD)\<rparr>) x)" for x
    by (rule same_keys_upd) (simp_all add: pkey_def)
  have c: "same_keys x (if b then snd (copyout_s bs a x) else x)" for b bs a x using same_procs_keys [OF copyout_s_same] by simp
  show ?thesis unfolding wait_harvest_def Let_def snd_conv by (rule same_keys_trans [OF u same_keys_trans [OF c c]])
qed

lemma find_child:
  assumes "proc_find_waitable_child par pid s = Some c"
  shows "pool c" "is_child par c s" "p_state (prc s c) = PROC_STATE_EXITED" "pid = - 1 \<or> pid = 0 \<or> p_pid (prc s c) = pid"
  using find_upt_some(1,2,3) [OF assms [unfolded proc_find_waitable_child_def]] by auto

lemma wait4_iter_inv: "wait4_iter cpu now p pid st opt ru s = Some (r, t) \<Longrightarrow> proc_inv s \<Longrightarrow> proc_inv t"
proof -
  assume w: "wait4_iter cpu now p pid st opt ru s = Some (r, t)" and inv: "proc_inv s"
  show ?thesis
  proof (cases "proc_find_waitable_child p pid s")
    case None
    then have "same_keys s t" using w by (auto simp: wait4_iter_def same_keys_def split: if_splits bind_splits)
    then show ?thesis using proc_inv_keys inv by blast
  next
    case (Some c)
    note f = find_child [OF Some]
    have "live s c" using f(2) by (simp add: is_child_def)
    then have "proc_inv (proc_reap c s)" using proc_inv_reap [OF inv f(1) _ f(3)] by blast
    moreover have "t = snd (wait_harvest p c st ru s)" using w Some by (auto simp: wait4_iter_def split: prod.splits)
    ultimately show ?thesis using proc_inv_keys [OF harvest_same] by blast
  qed
qed

lemma sys_kill_keys: "sys_kill c pid sig s = Some (r, t) \<Longrightarrow> same_keys s t"
  by (auto simp: sys_kill_def Let_def split: option.splits if_splits bind_splits dest: proc_signal_keys)

lemma cred_step_keys: "cred_step s t \<Longrightarrow> same_keys s t"
proof -
  have l: "b_procs x = b_procs y \<and> proc_launchd x = proc_launchd y \<and> s_pid_seq x = s_pid_seq y" if "copyout_s bs a y = (e, x)" for x y bs a e
    using copyout_s_same [of y bs a] that by (simp add: same_procs_def)
  have u: "proc_launchd (upd_proc p f x) = proc_launchd x" "s_pid_seq (upd_proc p f x) = s_pid_seq x" "proc_launchd (set_uid p v x) = proc_launchd x"
    "s_pid_seq (set_uid p v x) = s_pid_seq x" for p f x v by (simp_all add: upd_proc_def set_uid_def)
  assume "cred_step s t"
  then show ?thesis
    by (cases rule: cred_step.cases)
      (auto simp: cred_defs Let_def prc_upd_proc set_uid_procs same_keys_def pkey_def u split: option.splits if_splits prod.splits
        dest!: l)
qed

lemma proc_create_child:
  assumes c: "proc_create out c parent name s = Some (e, Some p, t)"
  shows "pool p" "\<not> live s p" "proc_launchd t = proc_launchd s"
    "pkey (prc t p) = (CHIMERA_PROC_MAGIC, fst (next_pid (s_pid_seq s)), (case parent of Some q \<Rightarrow> p_pid (prc s q) | None \<Rightarrow> 0), parent, PROC_STATE_RUNNING)"
proof -
  obtain u n e' where u: "pool p" "\<not> live s p"
    "task_create (upd_proc p (\<lambda>_. new_proc (fst (next_pid (s_pid_seq s))) (map_option (prc s) parent) parent name)
        (s\<lparr>s_pid_seq := snd (next_pid (s_pid_seq s))\<rparr>)) = Some (e', Some n, u)" "proc_setup out c parent p n u = Some t"
    by (rule proc_create_cases [OF c]) auto
  show "pool p" "\<not> live s p" using u(1,2) by blast+
  note k = task_create_same [OF u(3), unfolded same_procs_def] proc_setup_own [OF u(4), unfolded own_change_def]
  show "proc_launchd t = proc_launchd s" using k by (simp add: upd_proc_def)
  have "pkey (prc t p) = pkey (new_proc (fst (next_pid (s_pid_seq s))) (map_option (prc s) parent) parent name)" using k by (simp add: prc_upd_proc)
  then show "pkey (prc t p) = (CHIMERA_PROC_MAGIC, fst (next_pid (s_pid_seq s)), (case parent of Some q \<Rightarrow> p_pid (prc s q) | None \<Rightarrow> 0), parent, PROC_STATE_RUNNING)"
    by (simp add: new_proc_key split: option.split)
qed

lemma can_parent_same: "same_procs s t \<Longrightarrow> can_parent t p \<longleftrightarrow> can_parent s p"
  by (simp add: same_procs_def can_parent_def)

lemma fork_undo_inv:
  assumes "fork_undo out c p th s = Some (r, t)" and "proc_inv s" and "pool p" "can_parent s p" "proc_launchd s \<noteq> Some p"
  shows "proc_inv t"
proof -
  define u where "u = (case th of None \<Rightarrow> s
       | Some n \<Rightarrow> upd_sched (set_th n (\<lambda>x. x\<lparr>th_state := THREAD_STATE_HALTED\<rparr>)) (s\<lparr>th_signature := (th_signature s)(n := 0)\<rparr>))"
  have u: "same_procs s u" by (simp add: u_def same_procs_def upd_sched_def split: option.split)
  have x: "proc_mark_exited out c p 255 u = Some t" using assms(1) by (auto simp: fork_undo_def u_def Let_def split: bind_splits)
  have "proc_launchd u = proc_launchd s" using u by (simp add: same_procs_def)
  then show ?thesis
    using mark_exited_inv [OF x proc_inv_keys [OF same_procs_keys [OF u] assms(2)] assms(3)] assms(4,5) can_parent_same [OF u] by simp
qed

lemma fork_start_inv:
  assumes f: "fork_start out ft c p ct prio fr s = Some (r, t)" and inv: "proc_inv s" and p: "pool p" "can_parent s p" "proc_launchd s \<noteq> Some p"
  shows "proc_inv t"
proof -
  have undo: "proc_inv t" if "same_procs s u" "fork_undo out c p th u = Some (r, t)" for u th
  proof -
    have "proc_launchd u = proc_launchd s" using that(1) by (simp add: same_procs_def)
    then show ?thesis
      using fork_undo_inv [OF that(2) proc_inv_keys [OF same_procs_keys [OF that(1)] inv] p(1)] p(2,3) can_parent_same [OF that(1)] by simp
  qed
  show ?thesis
  proof (cases "List.find (fork_thread_free ft s) [0..<FORK_THREADS]")
    case None
    then show ?thesis using f undo [of s None] by (simp add: fork_start_def)
  next
    case (Some i)
    let ?u = "fork_thread_init (ft + i) ct prio fr s"
    obtain x sc where x: "thread_init_fork_stack (ft + i) (f_rip fr) (f_rsp fr) (i_sched (b_ipc ?u)) = (x, sc)" by (rule prod.exhaust)
    let ?v = "upd_sched (\<lambda>_. sc) ?u"
    define w where "w = ?v\<lparr>th_is_fork_child := (th_is_fork_child ?v)(ft + i := True)\<rparr>"
    have v: "same_procs s ?v" "same_procs s w"
      using fork_thread_init_same [of s "ft + i" ct prio fr s] by (simp_all add: same_procs_def upd_sched_def w_def)
    show ?thesis
    proof (cases "x = 0")
      case False
      then show ?thesis using f Some x undo [OF v(1)] by (simp add: fork_start_def Let_def)
    next
      case True
      have "(do { (r, sc) \<leftarrow> scheduler_add_thread (Some (ft + i)) (i_sched (b_ipc w));
            let s = upd_sched (\<lambda>_. sc) w;
            if r \<noteq> 0 then fork_undo out c p (Some (ft + i)) s else Some (uint (p_pid (prc s p)), s) }) = Some (r, t)"
        using f Some x True by (simp add: fork_start_def Let_def w_def)
      then have "\<exists>sc'. fork_undo out c p (Some (ft + i)) (upd_sched (\<lambda>_. sc') w) = Some (r, t) \<or> t = upd_sched (\<lambda>_. sc') w"
        by (auto simp: Let_def split: bind_splits if_splits)
      moreover have "same_procs s (upd_sched (\<lambda>_. sc') w)" for sc' using v(2) by simp
      ultimately show ?thesis using undo proc_inv_keys [OF same_procs_keys inv] by blast
    qed
  qed
qed

lemma sys_fork_inv:
  assumes f: "sys_fork out ft c s = Some (r, t)" and inv: "proc_inv s" and par: "\<And>p. cur_proc c s = Some p \<Longrightarrow> can_parent s p"
    and sq: "s_pid_seq s \<noteq> 0" "s_pid_seq s + 1 \<noteq> 0"
  shows "proc_inv t"
proof (cases "t = s")
  case False
  then obtain pt p th fr e q u where cp: "cur_proc c s = Some p" and u: "proc_create out c (Some p) (p_comm (prc s p)) s = Some (e, q, u)"
    and rest: "(case q of None \<Rightarrow> Some (- 1, u)
       | Some k \<Rightarrow> do { ct \<leftarrow> p_task (prc u k); s \<leftarrow> fork_space pt ct u;
           fork_start out ft c k ct (th_priority (thr (i_sched (b_ipc s)) th)) fr s }) = Some (r, t)"
    using f by (auto simp: sys_fork_def split: option.splits bind_splits)
  have iu: "proc_inv u" using proc_create_inv [OF u inv _ sq] par [OF cp] by simp
  show ?thesis
  proof (cases q)
    case None
    then show ?thesis using rest iu by simp
  next
    case (Some k)
    note ch = proc_create_child [OF u [unfolded Some]]
    from rest Some obtain ct v where v: "fork_space pt ct u = Some v" "fork_start out ft c k ct (th_priority (thr (i_sched (b_ipc v)) th)) fr v = Some (r, t)"
      by (auto split: bind_splits)
    note sm = fork_space_same [OF v(1)]
    have "can_parent u k" using ch(1,4) by (simp add: can_parent_def pkey_fields)
    then have "can_parent v k" using can_parent_same [OF sm] by blast
    moreover have "proc_launchd v \<noteq> Some k" using sm ch(2,3) inv by (auto simp: same_procs_def proc_inv_def can_parent_def)
    ultimately show ?thesis using fork_start_inv [OF v(2) proc_inv_keys [OF same_procs_keys [OF sm] iu] ch(1)] by blast
  qed
qed (use inv in simp)

lemma sys_exit_inv:
  assumes x: "sys_exit_direct out c code s = Some t" and inv: "proc_inv s"
    and p: "\<And>p. cur_proc c s = Some p \<Longrightarrow> pool p \<and> can_parent s p \<and> proc_launchd s \<noteq> Some p"
  shows "proc_inv t"
proof -
  obtain u v where u: "same_procs s u" and v: "(case cur_proc c s of None \<Rightarrow> Some u | Some p \<Rightarrow> proc_mark_exited out c p (ucast code) u) = Some v"
    and t: "same_procs v t"
  proof -
    define k where "k = Pmap.pmap_kernel_pml4 (b_pm s)"
    define pm where "pm = (b_pm s)\<lparr>cpu_cr3 := k\<rparr>"
    define u where "u = set_bpm (if c < CHIMERA_MAX_CPUS
        then pm\<lparr>pmap_state.cpu_active_cr3 := (pmap_state.cpu_active_cr3 pm)(c := k AND 0x000FFFFFFFFFF000)\<rparr> else pm) s"
    have "ta_proc u = ta_proc s" by (simp add: u_def set_bpm_def)
    then have cp: "Option.bind (current_task c (b_ipc s)) (ta_proc u) = cur_proc c s" by (simp add: cur_proc_def split: option.split)
    have "(do { s \<leftarrow> (case cur_proc c s of None \<Rightarrow> Some u | Some p \<Rightarrow> proc_mark_exited out c p (ucast code) u);
        (case current_thread c (i_sched (b_ipc s)) of None \<Rightarrow> Some s
         | Some th \<Rightarrow> do { sc \<leftarrow> scheduler_remove_thread (Some th) (i_sched (b_ipc s)); Some (s\<lparr>b_ipc := (b_ipc s)\<lparr>i_sched := sc\<rparr>\<rparr>) }) }) = Some t"
      using x unfolding sys_exit_direct_def Let_def k_def [symmetric] pm_def [symmetric] u_def [symmetric] cp .
    then obtain v where v: "(case cur_proc c s of None \<Rightarrow> Some u | Some p \<Rightarrow> proc_mark_exited out c p (ucast code) u) = Some v"
      and t: "t = v \<or> (\<exists>i. t = v\<lparr>b_ipc := i\<rparr>)" by (auto split: bind_splits option.splits)
    show ?thesis by (rule that [of u v]) (use v t in \<open>auto simp: u_def same_procs_def set_bpm_def\<close>)
  qed
  have iu: "proc_inv u" using proc_inv_keys [OF same_procs_keys [OF u] inv] .
  have "proc_inv v"
  proof (cases "cur_proc c s")
    case None
    then show ?thesis using v iu by simp
  next
    case (Some p)
    have "proc_launchd u = proc_launchd s" using u by (simp add: same_procs_def)
    then show ?thesis using mark_exited_inv [of out c p "ucast code" u v] v Some iu assms(3) [OF Some] can_parent_same [OF u] by simp
  qed
  then show ?thesis using proc_inv_keys [OF same_procs_keys [OF t]] by blast
qed

subsection \<open>All steps together\<close>

text \<open>The life of processes: the kernel starts one, a process forks, leaves, waits, sends a signal or changes its identity. A thread makes calls only
  for a process that runs, and launchd does not leave. The identifiers have not wrapped around.\<close>
inductive proc_step :: "bsd_state \<Rightarrow> bsd_state \<Rightarrow> bool" where
  create: "proc_create out c parent name s = Some (e, r, t) \<Longrightarrow> (\<And>q. parent = Some q \<Longrightarrow> can_parent s q) \<Longrightarrow> s_pid_seq s \<noteq> 0 \<Longrightarrow> s_pid_seq s + 1 \<noteq> 0 \<Longrightarrow> proc_step s t"
| fork: "sys_fork out ft c s = Some (r, t) \<Longrightarrow> (\<And>p. cur_proc c s = Some p \<Longrightarrow> can_parent s p) \<Longrightarrow> s_pid_seq s \<noteq> 0 \<Longrightarrow> s_pid_seq s + 1 \<noteq> 0 \<Longrightarrow> proc_step s t"
| exit: "sys_exit_direct out c code s = Some t \<Longrightarrow> (\<And>p. cur_proc c s = Some p \<Longrightarrow> pool p \<and> can_parent s p \<and> proc_launchd s \<noteq> Some p) \<Longrightarrow> proc_step s t"
| wait4: "wait4_iter c now p pid st opt ru s = Some (r, t) \<Longrightarrow> proc_step s t"
| kill: "sys_kill c pid sig s = Some (r, t) \<Longrightarrow> proc_step s t"
| cred: "cred_step s t \<Longrightarrow> proc_step s t"

lemma proc_step_inv: "proc_step s t \<Longrightarrow> proc_inv s \<Longrightarrow> proc_inv t"
  by (induction rule: proc_step.induct)
    (blast intro: proc_create_inv sys_fork_inv sys_exit_inv wait4_iter_inv proc_inv_keys [OF sys_kill_keys] proc_inv_keys [OF cred_step_keys])+

lemma proc_steps_inv: "proc_step\<^sup>*\<^sup>* s t \<Longrightarrow> proc_inv s \<Longrightarrow> proc_inv t"
  by (induction rule: rtranclp_induct) (auto intro: proc_step_inv)

text \<open>C36. The processes form a tree. Over any sequence of creations, forks, exits, waits, signals and changes of identity, every process keeps an
  identifier that no other process has, its parent is a process that still runs and whose identifier is the recorded one, and a process that has
  left holds no descriptor. So the two tests by which \<^verbatim>\<open>wait4\<close> and the re-parenting recognise a child, by pointer and by number, agree.\<close>
theorem process_tree:
  assumes "proc_step\<^sup>*\<^sup>* s t" and "proc_inv s" and "pool i" and "live t i"
  shows "p_pid (prc t i) \<noteq> 0 \<and> (\<forall>j. pool j \<longrightarrow> live t j \<longrightarrow> p_pid (prc t j) = p_pid (prc t i) \<longrightarrow> j = i)
    \<and> (\<forall>q. p_parent (prc t i) = Some q \<longrightarrow> live t q \<and> p_state (prc t q) = PROC_STATE_RUNNING \<and> p_ppid (prc t i) = p_pid (prc t q))
    \<and> (p_state (prc t i) = PROC_STATE_EXITED \<longrightarrow> (\<forall>j. fdt t i j = None))
    \<and> (\<forall>j. pool j \<longrightarrow> (is_child i j t \<longleftrightarrow> live t j \<and> p_parent (prc t j) = Some i))"
proof -
  have inv: "proc_inv t" using proc_steps_inv [OF assms(1,2)] .
  then have "proc_ok t i" using assms(3,4) unfolding proc_inv_def by blast
  then have "p_pid (prc t i) \<noteq> 0 \<and> (\<forall>q. p_parent (prc t i) = Some q \<longrightarrow> live t q \<and> p_state (prc t q) = PROC_STATE_RUNNING \<and> p_ppid (prc t i) = p_pid (prc t q))"
    by (auto simp: proc_ok_def parent_ok_def can_parent_def split: option.splits)
  then show ?thesis using inv assms(3,4) is_child_parent [OF inv assms(3,4)] unfolding proc_inv_def by blast
qed

text \<open>launchd as process 1 and a child that runs.\<close>
definition demo_tree :: bsd_state where
  "demo_tree = demo_bsd\<lparr>proc_launchd := Some 1, s_pid_seq := 3, b_procs := (\<lambda>i.
     if i = KERNEL_PROC then zero_proc\<lparr>p_signature := CHIMERA_PROC_MAGIC, p_state := PROC_STATE_RUNNING\<rparr>
     else if i = 1 then zero_proc\<lparr>p_signature := CHIMERA_PROC_MAGIC, p_pid := 1, p_parent := Some KERNEL_PROC, p_state := PROC_STATE_RUNNING\<rparr>
     else if i = 2 then zero_proc\<lparr>p_signature := CHIMERA_PROC_MAGIC, p_pid := 2, p_ppid := 1, p_parent := Some 1, p_state := PROC_STATE_RUNNING\<rparr>
     else zero_proc)\<rparr>"

lemma demo_tree_procs: "prc demo_tree i = (if i = 256 then zero_proc\<lparr>p_signature := CHIMERA_PROC_MAGIC, p_state := PROC_STATE_RUNNING\<rparr>
     else if i = 1 then zero_proc\<lparr>p_signature := CHIMERA_PROC_MAGIC, p_pid := 1, p_parent := Some 256, p_state := PROC_STATE_RUNNING\<rparr>
     else if i = 2 then zero_proc\<lparr>p_signature := CHIMERA_PROC_MAGIC, p_pid := 2, p_ppid := 1, p_parent := Some 1, p_state := PROC_STATE_RUNNING\<rparr>
     else zero_proc)"
  "proc_launchd demo_tree = Some 1" "s_pid_seq demo_tree = 3"
  by (simp_all add: demo_tree_def KERNEL_PROC_def)

lemma zero_proc_fields: "p_signature zero_proc = 0" "p_pid zero_proc = 0" "p_ppid zero_proc = 0" "p_parent zero_proc = None" "p_state zero_proc = 0"
  "p_fd_table zero_proc i = None" "p_task zero_proc = None" "p_sigacts zero_proc j = 0" "p_sigpending zero_proc = 0"
  by (simp_all add: zero_proc_def)

lemma demo_tree_inv: "proc_inv demo_tree"
proof -
  have l: "pool i \<and> live demo_tree i \<longleftrightarrow> i = 1 \<or> i = 2" for i by (auto simp: demo_tree_procs zero_proc_fields CHIMERA_PROC_MAGIC_def PROC_POOL_SIZE_def)
  have c: "can_parent demo_tree 1" "can_parent demo_tree 256" by (simp_all add: can_parent_def demo_tree_procs PROC_POOL_SIZE_def KERNEL_PROC_def)
  have ok: "proc_ok demo_tree 1" "proc_ok demo_tree 2" using c by (simp_all add: proc_ok_def parent_ok_def demo_tree_procs zero_proc_fields)
  have f: "fdt demo_tree i j = None" for i j by (simp add: demo_tree_procs zero_proc_fields)
  have "i = j" if "pool i" "pool j" "live demo_tree i" "live demo_tree j" "p_pid (prc demo_tree i) = p_pid (prc demo_tree j)" for i j
  proof -
    have "i = 1 \<or> i = 2" "j = 1 \<or> j = 2" using l [of i] l [of j] that by simp_all
    then show ?thesis using that(5) by (auto simp: demo_tree_procs)
  qed
  moreover have "proc_ok demo_tree i" if "pool i" "live demo_tree i" for i
  proof -
    have "i = 1 \<or> i = 2" using l [of i] that by simp
    then show ?thesis using ok by (elim disjE) simp_all
  qed
  moreover have "\<exists>l. proc_launchd demo_tree = Some l \<and> pool l \<and> can_parent demo_tree l \<and> p_parent (prc demo_tree l) = Some KERNEL_PROC"
    using c(1) by (simp add: demo_tree_procs PROC_POOL_SIZE_def KERNEL_PROC_def)
  moreover have "can_parent demo_tree KERNEL_PROC \<and> p_pid (prc demo_tree KERNEL_PROC) = 0"
    using c(2) by (simp add: demo_tree_procs KERNEL_PROC_def zero_proc_fields)
  ultimately show ?thesis unfolding proc_inv_def f by simp
qed

section \<open>The way of an exit code\<close>

lemma exit_keys:
  assumes x: "proc_mark_exited out c p code s = Some t" and inv: "proc_inv s" and p: "pool p" "can_parent s p" "proc_launchd s \<noteq> Some p"
    and par: "p_parent (prc s p) = Some par" "par \<noteq> p"
  shows "live t p" "p_pid (prc t p) = p_pid (prc s p)" "p_parent (prc t p) = Some par" "p_state (prc t p) = PROC_STATE_EXITED" "p_exit_code (prc t p) = code"
    "p_sigacts (prc s par) SIGCHLD \<noteq> 1 \<Longrightarrow> bit (p_sigpending (prc t par)) SIGCHLD"
proof -
  obtain v where o: "own_change p s v"
    and k: "same_keys (upd_proc p (\<lambda>q. q\<lparr>p_exit_code := code, p_state := PROC_STATE_EXITED\<rparr>) (fold (reparent p) [1..<PROC_POOL_SIZE] v)) t"
    and e: "p_exit_code (prc t p) = code"
    and sg: "\<And>q. p_parent (prc t p) = Some q \<Longrightarrow> \<exists>u e. proc_signal c (Some q) (int SIGCHLD) u = Some (e, t)
      \<and> prc u q = prc (upd_proc p (\<lambda>q. q\<lparr>p_exit_code := code, p_state := PROC_STATE_EXITED\<rparr>) (fold (reparent p) [1..<PROC_POOL_SIZE] v)) q"
    by (rule mark_exited_steps [OF x]) blast
  let ?w = "upd_proc p (\<lambda>q. q\<lparr>p_exit_code := code, p_state := PROC_STATE_EXITED\<rparr>) (fold (reparent p) [1..<PROC_POOL_SIZE] v)"
  have iv: "proc_inv v" using proc_inv_keys [OF own_change_keys [OF o]] inv p(2)
    by (simp add: can_parent_def PROC_STATE_RUNNING_def PROC_STATE_EXITED_def)
  have kv: "pkey (prc v p) = pkey (prc s p)" using o by (simp add: own_change_def)
  then have lv: "live v p" "p_parent (prc v p) = Some par" "p_pid (prc v p) = p_pid (prc s p)" using p(2) par by (simp_all add: can_parent_def pkey_def)
  have "\<not> is_child p p v" using is_child_parent [OF iv p(1) lv(1) p(1)] lv(2) par(2) by simp
  then have w: "prc ?w p = (prc v p)\<lparr>p_exit_code := code, p_state := PROC_STATE_EXITED\<rparr>"
    using fold_reparent(1) [OF distinct_upt, of p 1 PROC_POOL_SIZE v p] by (simp add: prc_upd_proc)
  have t: "pkey (prc t p) = pkey (prc ?w p)" using k by (simp add: same_keys_def)
  show "live t p" "p_pid (prc t p) = p_pid (prc s p)" "p_state (prc t p) = PROC_STATE_EXITED" and pp: "p_parent (prc t p) = Some par"
    using t lv unfolding w pkey_def by simp_all
  show "p_exit_code (prc t p) = code" by (rule e)
  obtain u x where u: "proc_signal c (Some par) (int SIGCHLD) u = Some (x, t)" "prc u par = prc ?w par" using sg [OF pp] by blast
  have "p_sigacts (prc ?w par) = p_sigacts (prc v par)"
    using fold_reparent(1) [OF distinct_upt, of p 1 PROC_POOL_SIZE v par] par(2) by (simp add: prc_upd_proc)
  moreover have "prc v par = prc s par" using o par(2) by (simp add: own_change_def)
  ultimately have a: "p_sigacts (prc u par) = p_sigacts (prc s par)" using u(2) by simp
  show "bit (p_sigpending (prc t par)) SIGCHLD" if "p_sigacts (prc s par) SIGCHLD \<noteq> 1"
  proof -
    have "p_sigacts (prc u par) 20 \<noteq> 1" using that a by (simp add: SIGCHLD_def)
    then have "\<exists>y. wake_first c par (post_signal par 20 u) = Some y \<and> t = y"
      using u(1) by (auto simp: proc_signal_def SIGCHLD_def SIGKILL_def split: bind_splits)
    then have "b_procs t = b_procs (post_signal par 20 u)" using wake_first_frame by blast
    then show ?thesis by (simp add: post_signal_def prc_upd_proc bit_or_iff bit_sig SIGCHLD_def)
  qed
qed

text \<open>The only child with its identifier is the one that \<^verbatim>\<open>wait4\<close> finds.\<close>
lemma find_exited:
  assumes inv: "proc_inv t" and p: "pool p" "live t p" "p_parent (prc t p) = Some par" "p_state (prc t p) = PROC_STATE_EXITED"
  shows "proc_find_waitable_child par (p_pid (prc t p)) t = Some p"
proof -
  have ok: "proc_ok t p" using inv p(1,2) unfolding proc_inv_def by blast
  have n: "p_pid (prc t p) \<noteq> 0" using ok by (simp add: proc_ok_def)
  have m: "p_pid (prc t p) \<noteq> - 1"
    using ok word_order.extremum_strict [of "s_pid_seq t"] by (auto simp: proc_ok_def)
  have c: "is_child par p t" using p by (simp add: is_child_def)
  have "proc_find_waitable_child par (p_pid (prc t p)) t \<noteq> None"
    using c p(1,4) by (auto simp: proc_find_waitable_child_def find_None_iff)
  then obtain i where i: "proc_find_waitable_child par (p_pid (prc t p)) t = Some i" by blast
  note f = find_child [OF i]
  have "live t i" "p_pid (prc t i) = p_pid (prc t p)" using f n m by (auto simp: is_child_def)
  then have "i = p" using inv p(1,2) f(1) unfolding proc_inv_def by blast
  then show ?thesis using i by simp
qed

text \<open>C37. An exit code reaches the parent. When a process other than launchd leaves, SIGCHLD is pending for its parent (unless the parent ignores it), and
  the parent's next \<^verbatim>\<open>wait4\<close> for the process returns at once, whatever its options are: with the identifier of the process, its exit
  code, shifted by 8 bits, as the status, and the place of the process free again.\<close>
theorem exit_reaches_wait:
  assumes "proc_mark_exited out c p code s = Some t" and "proc_inv s" and "pool p" "can_parent s p" "proc_launchd s \<noteq> Some p"
    and "p_parent (prc s p) = Some par" "par \<noteq> p"
  shows "(p_sigacts (prc s par) SIGCHLD \<noteq> 1 \<longrightarrow> bit (p_sigpending (prc t par)) SIGCHLD)
    \<and> (\<exists>u. wait4_iter c' now par (p_pid (prc s p)) st opt 0 t = Some (Some (uint (p_pid (prc s p))), u) \<and> \<not> live u p
        \<and> (st \<noteq> 0 \<longrightarrow> (\<exists>v. u = snd (copyout_s (le32 (push_bit 8 code)) st v))) \<and> proc_inv u)"
proof -
  note k = exit_keys [OF assms]
  have inv: "proc_inv t" by (rule mark_exited_inv [OF assms(1-5)])
  have f: "proc_find_waitable_child par (p_pid (prc s p)) t = Some p" using find_exited [OF inv assms(3) k(1,3,4)] k(2) by simp
  define u where "u = snd (wait_harvest par p st 0 t)"
  have w: "wait4_iter c' now par (p_pid (prc s p)) st opt 0 t = Some (Some (uint (p_pid (prc s p))), u)"
    using f k(2) by (simp add: wait4_iter_def u_def wait_harvest_def Let_def)
  have "pkey (prc u p) = pkey (prc (proc_reap p t) p)" using harvest_same [of p t par st 0] by (simp add: same_keys_def u_def)
  then have "\<not> live u p" using proc_reap_eq(1) [OF k(4), of p] by (simp add: pkey_def CHIMERA_PROC_MAGIC_def)
  moreover have "\<exists>v. u = snd (copyout_s (le32 (push_bit 8 code)) st v)" if "st \<noteq> 0"
    using that k(5) by (auto simp: u_def wait_harvest_def Let_def)
  ultimately show ?thesis using k(6) w wait4_iter_inv [OF w inv] by blast
qed

lemma close_all_none: "(\<And>i. fdt s p i = None) \<Longrightarrow> close_all out p is s = Some s"
  by (induction "is") simp_all

lemma demo_exit: "\<exists>t. proc_mark_exited out c 2 7 demo_tree = Some t"
proof -
  let ?u = "upd_proc 2 (\<lambda>q. q\<lparr>p_text_node := None, p_cwd := None\<rparr>) demo_tree"
  let ?w = "upd_proc 2 (\<lambda>q. q\<lparr>p_exit_code := 7, p_state := PROC_STATE_EXITED\<rparr>) (fold (reparent 2) [1..<PROC_POOL_SIZE] ?u)"
  have cl: "close_all out 2 [0..<CHIMERA_PROC_MAX_FDS] demo_tree = Some demo_tree" by (rule close_all_none) (simp add: demo_tree_procs zero_proc_fields)
  have tk: "p_task (prc ?u 2) = None" by (simp add: prc_upd_proc demo_tree_procs zero_proc_fields)
  have nc: "\<not> is_child 2 1 ?u" "\<not> is_child 2 2 ?u" by (simp_all add: is_child_def prc_upd_proc demo_tree_procs zero_proc_fields)
  have pp: "p_parent (prc ?w 2) = Some 1" "p_sigacts (prc ?w 1) j = 0" "p_task (prc ?w 1) = None" for j
    using nc fold_reparent(1) [OF distinct_upt, of 2 1 PROC_POOL_SIZE ?u] by (simp_all add: prc_upd_proc demo_tree_procs zero_proc_fields)
  have "\<exists>y. proc_signal c (Some 1) (int SIGCHLD) ?w = Some y"
    using pp by (simp add: proc_signal_def SIGCHLD_def SIGKILL_def wake_first_def post_signal_def prc_upd_proc)
  then show ?thesis using cl tk pp(1) by (auto simp: proc_mark_exited_def Let_def split: bind_splits simp del: One_nat_def)
qed

theorem exit_reaches_wait_witness:
  "\<exists>t u. proc_mark_exited (\<lambda>_ _ _ _ _. None) 0 2 7 demo_tree = Some t \<and> bit (p_sigpending (prc t 1)) SIGCHLD
    \<and> wait4_iter 0 0 1 2 0 0 0 t = Some (Some 2, u) \<and> \<not> live u 2"
proof -
  obtain t where t: "proc_mark_exited (\<lambda>_ _ _ _ _. None) 0 2 7 demo_tree = Some t" using demo_exit by blast
  have "pool 2" "can_parent demo_tree 2" "proc_launchd demo_tree \<noteq> Some 2" "p_parent (prc demo_tree 2) = Some 1" "p_pid (prc demo_tree 2) = 2"
    "p_sigacts (prc demo_tree 1) SIGCHLD \<noteq> 1"
    by (simp_all add: can_parent_def demo_tree_procs PROC_POOL_SIZE_def zero_proc_fields)
  then show ?thesis using exit_reaches_wait [OF t demo_tree_inv, where par = 1 and c' = 0 and now = 0 and st = 0 and opt = 0] t by auto
qed

text \<open>A signal to launchd.\<close>
lemma demo_tree_kill: "sys_kill c 1 20 demo_tree = Some (0, post_signal 1 20 demo_tree)"
proof -
  have "cur_proc c demo_tree = cur_proc c demo_bsd" unfolding demo_tree_def by (rule cur_proc_cong) simp_all
  then have c: "cur_proc c demo_tree = Some 0" by (simp add: demo_bsd_proc)
  have "proc_find_by_pid 1 demo_tree = Some 1"
    by (simp add: proc_find_by_pid_def PROC_POOL_SIZE_def upt_conv_Cons demo_tree_procs zero_proc_fields CHIMERA_PROC_MAGIC_def)
  moreover have "p_euid zero_proc = 0" by (simp add: zero_proc_def)
  ultimately show ?thesis
    by (simp add: sys_kill_def c to_int_def proc_signal_def SIGKILL_def wake_first_def post_signal_def prc_upd_proc demo_tree_procs zero_proc_fields)
qed

theorem process_tree_witness:
  "\<exists>t. sys_kill 0 1 20 demo_tree = Some (0, t) \<and> p_ppid (prc t 2) = p_pid (prc t 1) \<and> p_state (prc t 1) = PROC_STATE_RUNNING \<and> is_child 1 2 t"
proof -
  let ?t = "post_signal 1 20 demo_tree"
  have st: "proc_step\<^sup>*\<^sup>* demo_tree ?t" using proc_step.kill [OF demo_tree_kill] by blast
  have l: "live ?t 2" "live ?t 1" "p_parent (prc ?t 2) = Some 1" by (simp_all add: post_signal_def prc_upd_proc demo_tree_procs)
  have p: "pool 2" "pool 1" by (simp_all add: PROC_POOL_SIZE_def)
  have "p_ppid (prc ?t 2) = p_pid (prc ?t 1) \<and> p_state (prc ?t 1) = PROC_STATE_RUNNING"
    using process_tree [OF st demo_tree_inv p(1) l(1)] l(3) by simp
  moreover have "is_child 1 2 ?t" using process_tree [OF st demo_tree_inv p(2) l(2)] l(1,3) p(1) by simp
  ultimately show ?thesis using demo_tree_kill [of 0] by (intro exI [of _ ?t] conjI) simp_all
qed

section \<open>The end of process creation\<close>

lemma task_create_exhausted:
  assumes "256 \<le> s_space_next (b_ipc s)"
  shows "\<exists>t. task_create s = Some (CHIMERA_ERR_NOMEM, None, t) \<and> 256 \<le> s_space_next (b_ipc t) \<and> b_procs t = b_procs s"
proof (cases "List.find (\<lambda>i. ta_signature s i \<noteq> CHIMERA_TASK_MAGIC) [1..<TASK_POOL_SIZE]")
  case (Some n)
  then show ?thesis using assms
    by (simp add: task_create_def ipc_space_create_def Let_def zero_task_def set_bpm_def set_pm_def upd_task_def b_pm_def split: prod.split)
qed (use assms in \<open>simp add: task_create_def\<close>)

text \<open>C38. Name spaces are not recycled, so the creation of processes comes to an end. Once the 256 name spaces have been handed out, whether or not their tasks
  are still there, no process can be created and every \<^verbatim>\<open>fork\<close> fails; and each attempt that finds a free place takes it for good: it stays there
  as a running process without a task, which no \<^verbatim>\<open>wait4\<close> ever collects.\<close>
theorem process_creation_ends:
  assumes full: "256 \<le> s_space_next (b_ipc s)"
  shows "(\<exists>t. proc_create out c parent name s = Some (CHIMERA_ERR_NOMEM, None, t) \<and> 256 \<le> s_space_next (b_ipc t)
      \<and> (\<forall>i. List.find (\<lambda>i. \<not> live s i) [1..<PROC_POOL_SIZE] = Some i \<longrightarrow>
            live t i \<and> p_state (prc t i) = PROC_STATE_RUNNING \<and> p_task (prc t i) = None
            \<and> (\<forall>q pid. proc_find_waitable_child q pid t \<noteq> Some i)))
    \<and> (\<exists>t. sys_fork out ft c s = Some (- 1, t) \<and> 256 \<le> s_space_next (b_ipc t))"
proof -
  have *: "\<exists>t. proc_create out c parent name s = Some (CHIMERA_ERR_NOMEM, None, t) \<and> 256 \<le> s_space_next (b_ipc t)
      \<and> (\<forall>i. List.find (\<lambda>i. \<not> live s i) [1..<PROC_POOL_SIZE] = Some i \<longrightarrow>
            live t i \<and> p_state (prc t i) = PROC_STATE_RUNNING \<and> p_task (prc t i) = None)" for parent name
  proof (cases "List.find (\<lambda>i. \<not> live s i) [1..<PROC_POOL_SIZE]")
    case (Some i)
    obtain pid sq where q: "next_pid (s_pid_seq s) = (pid, sq)" by fastforce
    let ?n = "new_proc pid (map_option (prc s) parent) parent name"
    have n: "p_signature ?n = CHIMERA_PROC_MAGIC" "p_state ?n = PROC_STATE_RUNNING" "p_task ?n = None"
      by (simp_all add: new_proc_def Let_def zero_proc_fields split: option.split)
    let ?u = "upd_proc i (\<lambda>_. ?n) (s\<lparr>s_pid_seq := sq\<rparr>)"
    have "256 \<le> s_space_next (b_ipc ?u)" using full by (simp add: upd_proc_def)
    from task_create_exhausted [OF this] obtain t where t: "task_create ?u = Some (CHIMERA_ERR_NOMEM, None, t)" "256 \<le> s_space_next (b_ipc t)"
      "b_procs t = b_procs ?u" by blast
    have "prc t i = ?n" using t(3) by (simp add: upd_proc_def)
    then show ?thesis using Some t n by (simp add: proc_create_def q Let_def del: One_nat_def)
  qed (use full in \<open>simp add: proc_create_def del: One_nat_def\<close>)
  have "\<exists>t. sys_fork out ft c s = Some (- 1, t) \<and> 256 \<le> s_space_next (b_ipc t)"
  proof (cases "\<exists>pt p th f. current_task c (b_ipc s) = Some pt \<and> cur_proc c s = Some p \<and> current_thread c (i_sched (b_ipc s)) = Some th \<and> th_syscall_frame s th = Some f")
    case True
    then obtain pt p th f where e: "current_task c (b_ipc s) = Some pt" "cur_proc c s = Some p" "current_thread c (i_sched (b_ipc s)) = Some th"
      "th_syscall_frame s th = Some f" by blast
    obtain t where "proc_create out c (Some p) (p_comm (prc s p)) s = Some (CHIMERA_ERR_NOMEM, None, t)" "256 \<le> s_space_next (b_ipc t)"
      using * [of "Some p" "p_comm (prc s p)"] by blast
    then show ?thesis by (simp add: sys_fork_def e)
  next
    case False
    then have "sys_fork out ft c s = Some (- 1, s)" by (auto simp: sys_fork_def split: option.split)
    then show ?thesis using full by blast
  qed
  moreover have "proc_find_waitable_child q pid t \<noteq> Some i" if "p_state (prc t i) = PROC_STATE_RUNNING" for q pid i t
    using that find_child(3) [of q pid t i] by (auto simp: PROC_STATE_RUNNING_def PROC_STATE_EXITED_def)
  ultimately show ?thesis using * [of parent name] by blast
qed

theorem process_creation_ends_witness:
  "\<exists>t. proc_create (\<lambda>_ _ _ _ _. None) 0 (Some 1) ''sh'' (demo_tree\<lparr>b_ipc := (b_ipc demo_tree)\<lparr>s_space_next := 256\<rparr>\<rparr>) = Some (CHIMERA_ERR_NOMEM, None, t)
    \<and> live t 3 \<and> p_task (prc t 3) = None"
proof -
  let ?s = "demo_tree\<lparr>b_ipc := (b_ipc demo_tree)\<lparr>s_space_next := 256\<rparr>\<rparr>"
  have "List.find (\<lambda>i. \<not> live ?s i) [1..<PROC_POOL_SIZE] = Some 3"
    by (simp add: PROC_POOL_SIZE_def upt_conv_Cons demo_tree_procs zero_proc_fields CHIMERA_PROC_MAGIC_def)
  moreover have "256 \<le> s_space_next (b_ipc ?s)" by simp
  ultimately show ?thesis using process_creation_ends [of ?s "\<lambda>_ _ _ _ _. None" 0 "Some 1" "''sh''"] by blast
qed

end
