(* ===== verification/Spec2Isabelle.thy ===== *)
theory Spec2Isabelle
  imports Pmm_Props Zone_Props Wait_Queue_Props Pipe_Props Pty_Props Pmap_Props Vm_Map_Props Copy_Props Ipc_Mqueue_Props Ipc_Kmsg_Props Net_Props Fd_Props Vfs_Props Cred_Props Signal_Props Proc_Props
begin

text \<open>
  Verification of the core of the Chimera kernel: the kernel's own C code under \<^verbatim>\<open>src/kernel\<close> (the hybrid of a Mach and a BSD
  kernel for x86-64 that the project writes itself; the imported XNU sources in the same tree are not built into it and not
  modelled).

  \<^bold>\<open>The program.\<close> At the bottom \<^verbatim>\<open>mm/pmm.c\<close> hands out physical pages; \<^verbatim>\<open>mm/zone.c\<close> builds the kernel heap on it, \<^verbatim>\<open>mm/pmap.c\<close> the
  page tables, \<^verbatim>\<open>mm/vm_object.c\<close> and \<^verbatim>\<open>mm/vm_map.c\<close> the memory objects and address maps, \<^verbatim>\<open>mm/copy.c\<close> the transfers between
  kernel and user memory. \<^verbatim>\<open>arch/x86_64/scheduler.c\<close> runs threads, which sleep on the queues of \<^verbatim>\<open>mach/wait_queue.c\<close>. On top
  of these stand Mach messages (\<^verbatim>\<open>mach/ipc_port.c\<close>, \<^verbatim>\<open>ipc_kmsg.c\<close>, \<^verbatim>\<open>ipc_kobject.c\<close> and the Mach calls of \<^verbatim>\<open>bsd/syscall.c\<close>),
  pipes and terminals (\<^verbatim>\<open>vfs/pipe.c\<close>, \<^verbatim>\<open>vfs/pty.c\<close>), the BSD layer (\<^verbatim>\<open>bsd/proc.c\<close>, \<^verbatim>\<open>bsd/fileproc.c\<close>,
  \<^verbatim>\<open>bsd/syscall.c\<close>, \<^verbatim>\<open>vfs/vfs.c\<close>) and the network stack (\<^verbatim>\<open>net/*.c\<close> with the frame paths of
  \<^verbatim>\<open>drivers/net/e1000.c\<close>).

  \<^bold>\<open>How code becomes definitions.\<close> A C function is a HOL function of the same name that takes and returns the state it works on; a
  structure is a record with the source's fields, an enumeration a datatype, a machine integer a word of its width (sizes and
  indices whose range the invariants bound are naturals). A pointer into a static array or a pool is the index of the element,
  a null pointer \<open>None\<close>. Error codes are values of \<open>chimera_error\<close>. Loops are recursive functions, structural or with a
  termination proof; a loop along pointers that might be cyclic is a \<open>partial_function\<close>, so that not returning is the value
  \<open>None\<close>, and the theorems state that a value is returned. \<open>None\<close> also stands for what C leaves undefined: a store outside its
  buffer, a null or mistyped pointer. Helper definitions carry a part of a long function and are composed in the source's order.
  Spinlocks are not modelled: an operation, or one iteration of a loop that sleeps, is one atomic step, and interleavings are
  sequences of steps. The one lock that is modelled is the input lock of the network stack, which the stack can take twice.

  \<^bold>\<open>Theories.\<close>
  \<^item> \<open>Chimera_Prelude\<close>: integer types, error codes, page arithmetic. \<open>Dll\<close>, \<open>Sll\<close>: lists threaded through \<^verbatim>\<open>prev\<close>/\<^verbatim>\<open>next\<close> or \<^verbatim>\<open>next\<close>
    fields, read off as HOL lists. \<open>Fifo\<close>: the contract \<open>byte_fifo\<close> of bounded byte queues and circular buffers.
  \<^item> \<^verbatim>\<open>pmm.c\<close>: \<open>Pmm\<close> (model), \<open>Pmm_Correct\<close> (the buddy invariant \<open>pmm_inv\<close>), \<open>Page_Allocator\<close> (the contract its clients rely on,
    interpreted on the model), \<open>Pmm_Props\<close>.
  \<^item> \<^verbatim>\<open>zone.c\<close>: \<open>Zone\<close>, \<open>Zone_Correct\<close>, \<open>Zone_Props\<close>: free lists inside the objects of a word memory.
  \<^item> \<^verbatim>\<open>scheduler.c\<close>: \<open>Sched\<close>, \<open>Sched_Correct\<close>, \<open>Sched_Inv\<close>, \<open>Sched_Sleep\<close>, \<open>Sched_Props\<close>; \<^verbatim>\<open>wait_queue.c\<close>: \<open>Wait_Queue\<close>, \<open>Wait_Queue_Props\<close>.
  \<^item> \<^verbatim>\<open>pipe.c\<close>: \<open>Pipe\<close>, \<open>Pipe_Props\<close>; \<^verbatim>\<open>pty.c\<close>: \<open>Pty\<close>, \<open>Pty_Props\<close>. Both interpret \<open>byte_fifo\<close>.
  \<^item> \<^verbatim>\<open>pmap.c\<close>: \<open>Pmap\<close>, \<open>Pmap_Correct\<close> (the invariant, with a ghost map from frames to their place in the tables), \<open>Pmap_Ops\<close>,
    \<open>Pmap_Range\<close>, \<open>Pmap_Props\<close>.
  \<^item> \<^verbatim>\<open>vm_object.c\<close>, \<^verbatim>\<open>vm_map.c\<close>: \<open>Vm_Object\<close>, \<open>Vm_Map\<close>, \<open>Vm_Map_Props\<close>; \<^verbatim>\<open>copy.c\<close>: \<open>Copy\<close>, \<open>Copyout\<close>, \<open>Copy_Props\<close>.
  \<^item> IPC: \<open>Ipc\<close> (data), \<open>Ipc_Port\<close> (\<^verbatim>\<open>ipc_port.c\<close>), \<open>Ipc_Names\<close>, \<open>Ipc_Correct\<close>, \<open>Ipc_Steps\<close>, \<open>Ipc_Props\<close> (name tables and their runs),
    \<open>Ipc_Mqueue\<close>, \<open>Ipc_Mqueue_Props\<close> (queues and kernel objects), \<open>Ipc_Kmsg\<close>, \<open>Ipc_Syscall\<close>, \<open>Ipc_Kmsg_Props\<close> (messages to and from
    user memory, the Mach calls).
  \<^item> Network: \<open>Net\<close> (data, byte order, checksums), \<open>Mbuf\<close> (\<^verbatim>\<open>mbuf.c\<close>, \<^verbatim>\<open>if.c\<close>, \<^verbatim>\<open>if_loop.c\<close>, frames to the device), \<open>Socket\<close>,
    \<open>Net_Socket\<close> (\<^verbatim>\<open>uipc_socket.c\<close>, \<^verbatim>\<open>dhcp.c\<close>, \<^verbatim>\<open>net_init.c\<close>), \<open>Udp\<close>, \<open>Tcp\<close>, \<open>Net_Stack\<close> (\<^verbatim>\<open>icmp.c\<close>, \<^verbatim>\<open>arp.c\<close>, \<^verbatim>\<open>ethernet.c\<close>, \<^verbatim>\<open>ip.c\<close>, input);
    \<open>Net_Checksum\<close>, \<open>Mbuf_Correct\<close>, \<open>Sockbuf\<close>, \<open>Net_Loop\<close>, \<open>Tcp_Segment\<close>, \<open>Tcp_Stream\<close>, \<open>Tcp_Handshake\<close> (lemmas, one layer each),
    \<open>Udp_Props\<close>, \<open>Net_Props\<close>.
  \<^item> BSD layer: \<open>Bsd\<close> (vnodes, open files, processes, the state that joins all components), \<open>Fileproc\<close> (\<^verbatim>\<open>fileproc.c\<close>), \<open>Fd_Syscall\<close> (the calls on
    descriptors, pipes and sockets), \<open>Kalloc_Heap\<close>, \<open>Fd_Inv\<close>, \<open>Fd_Ops\<close> (the count of every open file), \<open>Bsd_Examples\<close>, \<open>Fd_Props\<close>; \<open>Vfs\<close> (\<^verbatim>\<open>vfs.c\<close>
    and the nodes of \<^verbatim>\<open>devfs.c\<close>), \<open>Vfs_Registry\<close> (the table of paths), \<open>Vfs_Tree\<close>, \<open>Vfs_Props\<close>; \<open>Cred\<close>, \<open>Cred_Props\<close> (identities, groups, sessions);
    \<open>Signal\<close>, \<open>Signal_Props\<close> (\<^verbatim>\<open>proc_signal\<close>, \<^verbatim>\<open>proc_deliver_signals\<close> and the calls on signals); \<open>Mmap\<close> (\<^verbatim>\<open>mmap\<close>, \<^verbatim>\<open>munmap\<close>, \<^verbatim>\<open>mprotect\<close>, shared pages); \<open>Proc\<close>,
    \<open>Proc_Props\<close> (\<^verbatim>\<open>proc.c\<close>, \<^verbatim>\<open>task.c\<close>, and the calls \<^verbatim>\<open>fork\<close>, \<^verbatim>\<open>exit\<close> and \<^verbatim>\<open>wait4\<close>).

  \<^bold>\<open>What the theorems show.\<close> Physical pages: the boot-time set-up frees exactly the usable memory, allocation is sound and complete
  (it fails only when no aligned run is free), references decide when a page is freed. Heap: objects are fresh, zeroed and disjoint,
  and freeing restores the heap. Scheduler: no thread runs on two processors, run queues are sorted, yielding picks a
  thread of highest priority, sleepers are woken exactly when due. Wait queues, pipe and terminal rings, message queues and socket
  buffers are first-in first-out, over every interleaving where calls can sleep; the line discipline of the terminal refines its
  specification on lists. Page tables: mapping, unmapping, protecting and copy-on-write faults change exactly the
  translations asked for, in every address space, and account for every page reference. Address maps keep their sorted list. Transfers
  read and write exactly the user's bytes and never another address space. Ports: the name tables are well formed in every run, stale
  names are refused, messages keep inside their buffers. Network: checksums, the three-way handshake, stream and datagram
  delivery over the loopback interface, exclusive ports. Descriptors: over any sequence of calls every reference count is the number of
  descriptors and calls that hold the file, and closing the last one frees it. Paths: the hash table refines a map, registered paths are
  found, the device files are there after the start. Processes: no call brings an identity back that was given up, no call blocks SIGKILL,
  a handler returns to the interrupted state; the processes form a tree in which every parent runs, and an exit code reaches the
  parent's \<^verbatim>\<open>wait4\<close>. Where the code does not do what it means to, the theorem states what it does
  (lost pages after a contiguous release, a wrapping size in \<^verbatim>\<open>kalloc\<close>, a port freed while in use, a page freed while mapped,
  a deadlock in address resolution, sockets and pipes that are never closed, a full table of paths that stays full, a forged signal
  context, the end of process creation after 256 tasks); these are the error theorems.

  \<^bold>\<open>Interfaces.\<close> \<open>Page_Allocator\<close> (pages for zones and page tables), \<open>byte_fifo\<close> (rings), the contract of a name table
  (\<open>Ipc_Names\<close>), \<open>object_heap\<close> (the kernel heap as open files use it) and \<open>key_table\<close> (the table of paths) are
  locales, interpreted on the models.

  \<^bold>\<open>Bounds.\<close> The message queue and the kernel objects it may call recurse once: the model has the two levels that can occur. A stale
  name is refused for 254 further operations because an entry keeps 8 bits of generation. Output, input and polling of the network stack
  call each other; \<open>net_out\<close>, \<open>net_input\<close> and \<open>net_poll\<close> take the admissible nesting depth, and the theorems hold for every depth from 1 (datagrams),
  2 (data and its acknowledgement) or 3 (handshake) on; the deadlock theorem holds for all.

  \<^bold>\<open>Not modelled.\<close> Interrupt and processor set-up (\<^verbatim>\<open>gdt.c\<close>, \<^verbatim>\<open>idt.c\<close>, \<^verbatim>\<open>lapic.c\<close>, \<^verbatim>\<open>smp.c\<close>), the disk driver and the registers and rings of
  the Ethernet device: their content is hardware state. Console and frame buffer output. TLB shootdowns. The C++ driver kit.
  The imported XNU sources and user land. Of the BSD layer: \<^verbatim>\<open>exec\<close>, \<^verbatim>\<open>spawn\<close>, program loading and launchd, terminal control, and the calls that only move
  bytes between user memory and files; of the file systems the FAT32 driver, whose content is a disk, and the device reads and writes.
\<close>

end
